(* ===== verification/Anon_Prelude.thy ===== *)
theory Anon_Prelude
  imports Main
begin

text \<open>
  The prelude of the development: the result type every fallible operation returns, the
  bounded error vocabulary of \<^verbatim>\<open>src/src/dbf_anonymizer/errors.py\<close>, Python text as lists of
  code points, the generic gap walk that four modules of the program use to find the j-th
  free token of a domain, and the interface of the random source.
\<close>

named_theorems result_simps \<open>rewrite rules for the result combinators\<close>
named_theorems kernel_defs \<open>definitions of the pure kernels, to unfold for evaluation\<close>

section \<open>Text, bytes and errors\<close>

text \<open>Python \<open>str\<close> is a sequence of code points; \<open>bytes\<close> a sequence of 0..255 integers.\<close>

type_synonym pystr = "nat list"
type_synonym bytes = "nat list"

definition ascii :: "string \<Rightarrow> pystr" where
  "ascii s = map of_char s"

text \<open>
  The error codes of \<open>ErrorCode\<close> that the modelled modules raise, and the exception classes:
  the package's own typed errors carry a code and a bounded detail code, the built-in ones
  (\<open>ValueError\<close>, \<open>TypeError\<close>, \<open>OverflowError\<close>, \<open>RuntimeError\<close>, \<open>AssertionError\<close>,
  \<open>AttributeError\<close>, \<open>KeyError\<close>, \<open>IndexError\<close>, \<open>OSError\<close>, \<open>StopIteration\<close>) carry no
  data the program ever inspects.
\<close>

datatype error_code =
    PATH_INVALID | PATH_NOT_FOUND | PATH_OVERLAP | DESTINATION_CONFLICT
  | POLICY_INVALID | POLICY_UNSUPPORTED
  | DBFBRIDGE_FAILURE
  | VAULT_UNAVAILABLE | VAULT_CORRUPT | VAULT_ACCESS_DENIED | VAULT_SCHEMA_UNSUPPORTED
  | VAULT_IDENTITY_MISMATCH | VAULT_STATE_INVALID | VAULT_WRITER_CONFLICT
  | MAPPING_CAPACITY_EXHAUSTED | MAPPING_CONSTRAINT_INFEASIBLE | MAPPING_CONFLICT
  | RELATIONSHIP_INVALID | RELATIONSHIP_VERIFICATION_FAILED
  | PUBLICATION_FAILED | PUBLICATION_INCOMPLETE
  | VERIFICATION_FAILED
  | RECOVERY_FAILED | RECOVERY_NOT_PERMITTED | TRANSFER_FAILED
  | INDEX_BACKEND_FAILED
  | OPERATION_CANCELLED
  | PROGRESS_CALLBACK_FAILED | CANCEL_CALLBACK_FAILED

datatype error_category =
    CAT_PATH | CAT_POLICY | CAT_DBFBRIDGE | CAT_VAULT | CAT_MAPPING | CAT_RELATIONSHIP | CAT_PUBLICATION
  | CAT_VERIFICATION | CAT_RECOVERY | CAT_TRANSFER | CAT_INDEX_BACKEND | CAT_CANCELLATION | CAT_CALLBACK

datatype error =
    PathError error_code string
  | PolicyError error_code string
  | DBFBridgeError error_code string
  | VaultError error_code string
  | MappingError error_code string
  | RelationshipError error_code string
  | PublicationError error_code string
  | VerificationError error_code string
  | RecoveryError error_code string
  | TransferError error_code string
  | IndexBackendError error_code string
  | CancellationError error_code string
  | CallbackError error_code string
  | ValueError
  | TypeError
  | OverflowError
  | RuntimeError
  | AssertionError
  | AttributeError
  | KeyError
  | IndexError
  | OSError
  | StopIteration

text \<open>The registry's category of a code, and the category a typed error class declares.\<close>

fun registry_category :: "error_code \<Rightarrow> error_category" where
  "registry_category PATH_INVALID = CAT_PATH"
| "registry_category PATH_NOT_FOUND = CAT_PATH"
| "registry_category PATH_OVERLAP = CAT_PATH"
| "registry_category DESTINATION_CONFLICT = CAT_PATH"
| "registry_category POLICY_INVALID = CAT_POLICY"
| "registry_category POLICY_UNSUPPORTED = CAT_POLICY"
| "registry_category DBFBRIDGE_FAILURE = CAT_DBFBRIDGE"
| "registry_category VAULT_UNAVAILABLE = CAT_VAULT"
| "registry_category VAULT_CORRUPT = CAT_VAULT"
| "registry_category VAULT_ACCESS_DENIED = CAT_VAULT"
| "registry_category VAULT_SCHEMA_UNSUPPORTED = CAT_VAULT"
| "registry_category VAULT_IDENTITY_MISMATCH = CAT_VAULT"
| "registry_category VAULT_STATE_INVALID = CAT_VAULT"
| "registry_category VAULT_WRITER_CONFLICT = CAT_VAULT"
| "registry_category MAPPING_CAPACITY_EXHAUSTED = CAT_MAPPING"
| "registry_category MAPPING_CONSTRAINT_INFEASIBLE = CAT_MAPPING"
| "registry_category MAPPING_CONFLICT = CAT_MAPPING"
| "registry_category RELATIONSHIP_INVALID = CAT_RELATIONSHIP"
| "registry_category RELATIONSHIP_VERIFICATION_FAILED = CAT_RELATIONSHIP"
| "registry_category PUBLICATION_FAILED = CAT_PUBLICATION"
| "registry_category PUBLICATION_INCOMPLETE = CAT_PUBLICATION"
| "registry_category VERIFICATION_FAILED = CAT_VERIFICATION"
| "registry_category RECOVERY_FAILED = CAT_RECOVERY"
| "registry_category RECOVERY_NOT_PERMITTED = CAT_RECOVERY"
| "registry_category TRANSFER_FAILED = CAT_TRANSFER"
| "registry_category INDEX_BACKEND_FAILED = CAT_INDEX_BACKEND"
| "registry_category OPERATION_CANCELLED = CAT_CANCELLATION"
| "registry_category PROGRESS_CALLBACK_FAILED = CAT_CALLBACK"
| "registry_category CANCEL_CALLBACK_FAILED = CAT_CALLBACK"

text \<open>
  An error value the constructor \<open>AnonymizerError.__init__\<close> accepts: the class carries a code of its
  own category (a mismatch raises \<open>ValueError\<close> instead). The language's own errors are always fine.
\<close>

fun constructible :: "error \<Rightarrow> bool" where
  "constructible (PathError c d) \<longleftrightarrow> registry_category c = CAT_PATH"
| "constructible (PolicyError c d) \<longleftrightarrow> registry_category c = CAT_POLICY"
| "constructible (DBFBridgeError c d) \<longleftrightarrow> registry_category c = CAT_DBFBRIDGE"
| "constructible (VaultError c d) \<longleftrightarrow> registry_category c = CAT_VAULT"
| "constructible (MappingError c d) \<longleftrightarrow> registry_category c = CAT_MAPPING"
| "constructible (RelationshipError c d) \<longleftrightarrow> registry_category c = CAT_RELATIONSHIP"
| "constructible (PublicationError c d) \<longleftrightarrow> registry_category c = CAT_PUBLICATION"
| "constructible (VerificationError c d) \<longleftrightarrow> registry_category c = CAT_VERIFICATION"
| "constructible (RecoveryError c d) \<longleftrightarrow> registry_category c = CAT_RECOVERY"
| "constructible (TransferError c d) \<longleftrightarrow> registry_category c = CAT_TRANSFER"
| "constructible (IndexBackendError c d) \<longleftrightarrow> registry_category c = CAT_INDEX_BACKEND"
| "constructible (CancellationError c d) \<longleftrightarrow> registry_category c = CAT_CANCELLATION"
| "constructible (CallbackError c d) \<longleftrightarrow> registry_category c = CAT_CALLBACK"
| "constructible _ \<longleftrightarrow> True"

type_synonym 'a result = "error + 'a"

definition bindE :: "'a result \<Rightarrow> ('a \<Rightarrow> 'b result) \<Rightarrow> 'b result" where
  "bindE m f = (case m of Inl e \<Rightarrow> Inl e | Inr x \<Rightarrow> f x)"

lemma bindE_simps [simp, result_simps]:
  "bindE (Inl e) f = Inl e"
  "bindE (Inr x) f = f x"
  by (simp_all add: bindE_def)

lemma bindE_Inr_iff [result_simps]:
  "bindE m f = Inr y \<longleftrightarrow> (\<exists>x. m = Inr x \<and> f x = Inr y)"
  by (cases m) auto

lemma bindE_InrE:
  assumes "bindE m k = Inr y"
  obtains x where "m = Inr x" and "k x = Inr y"
  using assms by (auto simp: bindE_Inr_iff)

definition guardE :: "bool \<Rightarrow> error \<Rightarrow> unit result" where
  "guardE b e = (if b then Inr () else Inl e)"

lemma guardE_Inr_iff [simp, result_simps]: "guardE b e = Inr u \<longleftrightarrow> b"
  by (simp add: guardE_def)

lemma guardE_Inl_iff [simp, result_simps]: "guardE b e = Inl e' \<longleftrightarrow> \<not> b \<and> e' = e"
  by (auto simp: guardE_def)

fun mapE :: "('a \<Rightarrow> 'b result) \<Rightarrow> 'a list \<Rightarrow> 'b list result" where
  "mapE f [] = Inr []"
| "mapE f (x # xs) = bindE (f x) (\<lambda>y. bindE (mapE f xs) (\<lambda>ys. Inr (y # ys)))"

lemma mapE_Inr_iff: "mapE f xs = Inr ys \<longleftrightarrow> list_all2 (\<lambda>x y. f x = Inr y) xs ys"
  by (induction xs arbitrary: ys) (auto simp: bindE_Inr_iff list_all2_Cons1)

lemma mapE_Inr_each: "mapE f xs = Inr ys \<Longrightarrow> x \<in> set xs \<Longrightarrow> \<exists>y\<in>set ys. f x = Inr y"
  by (induction xs arbitrary: ys) (auto simp: bindE_Inr_iff)

lemma mapE_all: "mapE f xs = Inr ys \<Longrightarrow> \<forall>x y. f x = Inr y \<longrightarrow> P y \<Longrightarrow> y \<in> set ys \<Longrightarrow> P y"
  by (induction xs arbitrary: ys) (auto simp: bindE_Inr_iff)

lemma mapE_total:
  assumes "\<forall>x\<in>set xs. f x = Inr (g x)"
  shows "mapE f xs = Inr (map g xs)"
  using assms by (induction xs) auto

section \<open>The gap walk\<close>

text \<open>
  Walking a strictly ascending list of blocked integers above \<open>prev\<close>, the walk returns the
  integer above \<open>prev\<close> that is not blocked and has exactly \<open>rem\<close> unblocked integers before it.
\<close>

fun gap_walk :: "int \<Rightarrow> int \<Rightarrow> int list \<Rightarrow> int" where
  "gap_walk prev rem [] = prev + 1 + rem"
| "gap_walk prev rem (v # vs) =
     (let gap = v - prev - 1
      in if rem < gap then prev + 1 + rem else gap_walk v (rem - gap) vs)"

lemma card_open_int: "a \<le> b \<Longrightarrow> int (card {a<..<b::int}) = b - a - (if a < b then 1 else 0)"
  by simp

lemma gap_walk_spec:
  assumes "sorted_wrt (<) vs" and "\<forall>v\<in>set vs. prev < v" and "0 \<le> rem"
  shows "prev < gap_walk prev rem vs \<and> gap_walk prev rem vs \<notin> set vs
    \<and> int (card ({prev<..<gap_walk prev rem vs} - set vs)) = rem"
  using assms
proof (induction vs arbitrary: prev rem)
  case Nil
  then show ?case by simp
next
  case (Cons v vs)
  show ?case
  proof (cases "rem < v - prev - 1")
    case True
    then have r: "gap_walk prev rem (v # vs) = prev + 1 + rem" by simp
    have "{prev<..<prev + 1 + rem} - set (v # vs) = {prev<..<prev + 1 + rem}"
      using True Cons.prems by auto
    then show ?thesis using r True Cons.prems by auto
  next
    case False
    let ?r = "gap_walk v (rem - (v - prev - 1)) vs"
    have r: "gap_walk prev rem (v # vs) = ?r" using False by simp
    have IH: "v < ?r \<and> ?r \<notin> set vs \<and> int (card ({v<..<?r} - set vs)) = rem - (v - prev - 1)"
      using Cons.prems False by (intro Cons.IH) auto
    have split: "{prev<..<?r} - set (v # vs) = {prev<..<v} \<union> ({v<..<?r} - set vs)"
      using IH Cons.prems by auto
    have "int (card ({prev<..<?r} - set (v # vs)))
        = int (card {prev<..<v}) + int (card ({v<..<?r} - set vs))"
      unfolding split by (subst card_Un_disjoint) auto
    then show ?thesis using IH r Cons.prems by auto
  qed
qed

text \<open>The walk stays inside \<open>{prev<..hi}\<close> as long as the requested index is below the free count.\<close>

lemma gap_walk_le:
  assumes "sorted_wrt (<) vs" and "\<forall>v\<in>set vs. prev < v" and "0 \<le> rem"
    and "rem < int (card ({prev<..hi} - set vs))"
  shows "gap_walk prev rem vs \<le> hi"
proof (rule ccontr)
  assume "\<not> ?thesis"
  then have "{prev<..hi} - set vs \<subseteq> {prev<..<gap_walk prev rem vs} - set vs" by auto
  then have "card ({prev<..hi} - set vs) \<le> card ({prev<..<gap_walk prev rem vs} - set vs)"
    by (intro card_mono) auto
  then show False using gap_walk_spec [OF assms(1-3)] assms(4) by linarith
qed

text \<open>Conversely every unblocked integer above \<open>prev\<close> is reached at its own index.\<close>

lemma gap_walk_surj:
  assumes "sorted_wrt (<) vs" and "\<forall>v\<in>set vs. prev < v" and "prev < x" and "x \<notin> set vs"
  shows "gap_walk prev (int (card ({prev<..<x} - set vs))) vs = x"
proof -
  let ?j = "int (card ({prev<..<x} - set vs))"
  let ?r = "gap_walk prev ?j vs"
  have s: "prev < ?r" "?r \<notin> set vs" "int (card ({prev<..<?r} - set vs)) = ?j"
    using gap_walk_spec [OF assms(1,2), of ?j] by auto
  show ?thesis
  proof (rule linorder_cases [of ?r x])
    assume "?r < x"
    then have "{prev<..<?r} - set vs \<subset> {prev<..<x} - set vs" using s by auto
    then have "card ({prev<..<?r} - set vs) < card ({prev<..<x} - set vs)"
      by (intro psubset_card_mono) auto
    with s(3) show ?thesis by simp
  next
    assume "x < ?r"
    then have "{prev<..<x} - set vs \<subset> {prev<..<?r} - set vs" using assms(3,4) by auto
    then have "card ({prev<..<x} - set vs) < card ({prev<..<?r} - set vs)"
      by (intro psubset_card_mono) auto
    with s(3) show ?thesis by simp
  qed simp
qed

section \<open>The random source\<close>

text \<open>
  \<open>secrets.randbelow(n)\<close> returns some integer of \<open>[0, n)\<close>. The k-th draw of a run is read from
  a tape; every sequence of admissible draws is obtained from some tape, so a statement for
  every tape is a statement for every behaviour of the operating system's generator.
\<close>

type_synonym tape = "nat \<Rightarrow> nat"

definition randbelow :: "tape \<Rightarrow> nat \<Rightarrow> int \<Rightarrow> int" where
  "randbelow t k n = int (t k) mod n"

locale random_source =
  fixes draw :: "nat \<Rightarrow> int \<Rightarrow> int"
  assumes draw_range: "0 < n \<Longrightarrow> 0 \<le> draw k n \<and> draw k n < n"

interpretation tape_source: random_source "randbelow t" for t
  by unfold_locales (simp add: randbelow_def)

lemma randbelow_complete:
  assumes "\<And>k. 0 \<le> f k \<and> f k < n k"
  shows "\<exists>t. \<forall>k. randbelow t k (n k) = f k"
proof -
  have "\<forall>k. randbelow (\<lambda>k. nat (f k)) k (n k) = f k"
    using assms by (simp add: randbelow_def)
  then show ?thesis by blast
qed

end
