(* ===== verification/Field_Policy.thy ===== *)
theory Field_Policy
  imports Anon_Prelude "HOL-Library.AList"
begin

text \<open>
  Policy resolution and the field capability matrix (\<^verbatim>\<open>src/src/dbf_anonymizer/policy.py\<close>): the merge of
  a user policy over the defaults, its fail-closed validation and the classification of a DBF field.
  A Python dict is an association list with distinct keys in insertion order; the digest of the
  canonical JSON text is an argument.
\<close>

section \<open>Policy values\<close>

text \<open>
  What a policy may hold: the JSON vocabulary, tuples, and objects outside it. A float is known by an
  arbitrary tag, since the code never computes with one.
\<close>

datatype json =
    JNull
  | JBool bool
  | JInt int
  | JFloat nat
  | JStr string
  | JList "json list"
  | JTuple "json list"
  | JObj "(string \<times> json) list"
  | JOpaque nat

type_synonym dict = "(string \<times> json) list"

text \<open>Lists and dicts cannot be members of a \<open>frozenset\<close>: the \<open>in\<close> test raises \<open>TypeError\<close>.\<close>

fun hashable :: "json \<Rightarrow> bool" where
  "hashable (JList xs) = False"
| "hashable (JObj kvs) = False"
| "hashable (JTuple xs) = list_all hashable xs"
| "hashable _ = True"

definition member_of :: "json \<Rightarrow> string list \<Rightarrow> bool result" where
  "member_of v allowed = (if hashable v then Inr (list_ex (\<lambda>s. v = JStr s) allowed) else Inl TypeError)"

fun iter_leaves :: "json \<Rightarrow> json list" where
  "iter_leaves (JObj kvs) = concat (map (\<lambda>kv. iter_leaves (snd kv)) kvs)"
| "iter_leaves (JList xs) = concat (map iter_leaves xs)"
| "iter_leaves (JTuple xs) = concat (map iter_leaves xs)"
| "iter_leaves v = [v]"

fun is_json_scalar :: "json \<Rightarrow> bool" where
  "is_json_scalar JNull = True"
| "is_json_scalar (JBool b) = True"
| "is_json_scalar (JInt i) = True"
| "is_json_scalar (JFloat f) = True"
| "is_json_scalar (JStr s) = True"
| "is_json_scalar _ = False"

section \<open>Vocabulary\<close>

definition KNOWN_TOP_LEVEL_KEYS :: "string list" where
  "KNOWN_TOP_LEVEL_KEYS = [''schema_version'', ''profile'', ''text'', ''memo'', ''temporal'', ''numeric'', ''relationships'', ''indexes'']"

definition SUPPORTED_TOP_LEVEL_PROFILES :: "string list" where "SUPPORTED_TOP_LEVEL_PROFILES = [''SAFE_TRANSFER'']"
definition SUPPORTED_TEXT_DOMAINS :: "string list" where "SUPPORTED_TEXT_DOMAINS = [''GLOBAL_TEXT'']"
definition TEXT_ACTIONS :: "string list" where "TEXT_ACTIONS = [''PSEUDONYMIZE_REVERSIBLE'', ''KEEP'']"
definition MEMO_ACTIONS :: "string list" where "MEMO_ACTIONS = [''MASK_REVERSIBLE'', ''KEEP'']"
definition TEMPORAL_ACTIONS :: "string list" where "TEMPORAL_ACTIONS = [''SHIFT_REVERSIBLE'', ''KEEP'']"
definition NUMERIC_ACTIONS :: "string list" where "NUMERIC_ACTIONS = [''KEEP'']"
definition TEXT_ALLOWED_KEYS :: "string list" where "TEXT_ALLOWED_KEYS = [''default_action'', ''domain'']"
definition MEMO_ALLOWED_KEYS :: "string list" where "MEMO_ALLOWED_KEYS = [''text'', ''binary'']"
definition TEMPORAL_ALLOWED_KEYS :: "string list" where "TEMPORAL_ALLOWED_KEYS = [''date'', ''datetime'']"
definition NUMERIC_ALLOWED_KEYS :: "string list" where "NUMERIC_ALLOWED_KEYS = [''default_action'']"
definition RELATIONSHIPS_ALLOWED_KEYS :: "string list" where "RELATIONSHIPS_ALLOWED_KEYS = [''metadata_file'']"
definition INDEXES_ALLOWED_KEYS :: "string list" where "INDEXES_ALLOWED_KEYS = [''profile'']"
definition SUPPORTED_INDEX_PROFILES :: "string list" where "SUPPORTED_INDEX_PROFILES = [''DATA_ONLY'', ''VFP_INDEXED'']"
definition SUPPORTED_SCHEMA_VERSION :: int where "SUPPORTED_SCHEMA_VERSION = 1"

lemmas vocabulary_defs =
  KNOWN_TOP_LEVEL_KEYS_def SUPPORTED_TOP_LEVEL_PROFILES_def SUPPORTED_TEXT_DOMAINS_def TEXT_ACTIONS_def MEMO_ACTIONS_def
  TEMPORAL_ACTIONS_def NUMERIC_ACTIONS_def TEXT_ALLOWED_KEYS_def MEMO_ALLOWED_KEYS_def TEMPORAL_ALLOWED_KEYS_def
  NUMERIC_ALLOWED_KEYS_def RELATIONSHIPS_ALLOWED_KEYS_def INDEXES_ALLOWED_KEYS_def SUPPORTED_INDEX_PROFILES_def SUPPORTED_SCHEMA_VERSION_def

definition DEFAULT_POLICY :: dict where
  "DEFAULT_POLICY =
     [(''schema_version'', JInt 1),
      (''profile'', JStr ''SAFE_TRANSFER''),
      (''text'', JObj [(''default_action'', JStr ''PSEUDONYMIZE_REVERSIBLE''), (''domain'', JStr ''GLOBAL_TEXT'')]),
      (''memo'', JObj [(''text'', JStr ''MASK_REVERSIBLE''), (''binary'', JStr ''MASK_REVERSIBLE'')]),
      (''temporal'', JObj [(''date'', JStr ''SHIFT_REVERSIBLE''), (''datetime'', JStr ''SHIFT_REVERSIBLE'')]),
      (''numeric'', JObj [(''default_action'', JStr ''KEEP'')]),
      (''relationships'', JObj [(''metadata_file'', JNull)]),
      (''indexes'', JObj [(''profile'', JStr ''DATA_ONLY'')])]"

section \<open>Validation\<close>

definition policy_reject :: "string \<Rightarrow> error" where
  "policy_reject detail = PolicyError POLICY_INVALID detail"

definition policy_reject_unsupported :: "string \<Rightarrow> error" where
  "policy_reject_unsupported detail = PolicyError POLICY_UNSUPPORTED detail"

text \<open>\<open>validate_nested\<close> returns the section it has found to be a dict of known keys.\<close>

definition validate_nested :: "json \<Rightarrow> string list \<Rightarrow> string \<Rightarrow> dict result" where
  "validate_nested section allowed name =
     (case section of
        JObj kvs \<Rightarrow>
          if list_all (\<lambda>kv. fst kv \<in> set allowed) kvs then Inr kvs
          else Inl (policy_reject (''unknown_'' @ name @ ''_keys''))
      | _ \<Rightarrow> Inl (policy_reject (name @ ''_not_object'')))"

text \<open>\<open>if key in section and section[key] not in allowed\<close>.\<close>

definition check_entry :: "dict \<Rightarrow> string \<Rightarrow> string list \<Rightarrow> string \<Rightarrow> unit result" where
  "check_entry section key allowed detail =
     (case map_of section key of
        None \<Rightarrow> Inr ()
      | Some v \<Rightarrow> bindE (member_of v allowed) (\<lambda>ok. guardE ok (policy_reject_unsupported detail)))"

definition check_section :: "dict \<Rightarrow> string \<Rightarrow> string list \<Rightarrow> (dict \<Rightarrow> unit result) \<Rightarrow> unit result" where
  "check_section policy name allowed check =
     (case map_of policy name of
        None \<Rightarrow> Inr ()
      | Some section \<Rightarrow> bindE (validate_nested section allowed name) check)"

definition validate_schema_version :: "dict \<Rightarrow> unit result" where
  "validate_schema_version policy =
     (case map_of policy ''schema_version'' of
        None \<Rightarrow> Inl (policy_reject ''missing_schema_version'')
      | Some (JInt i) \<Rightarrow> guardE (i = SUPPORTED_SCHEMA_VERSION) (policy_reject ''unsupported_schema_version'')
      | Some _ \<Rightarrow> Inl (policy_reject ''invalid_schema_version_type''))"

definition validate_policy :: "dict \<Rightarrow> unit result" where
  "validate_policy policy =
     bindE (validate_schema_version policy) (\<lambda>_.
     bindE (guardE (list_all (\<lambda>kv. fst kv \<in> set KNOWN_TOP_LEVEL_KEYS) policy) (policy_reject ''unknown_top_level_keys'')) (\<lambda>_.
     bindE (check_entry policy ''profile'' SUPPORTED_TOP_LEVEL_PROFILES ''unsupported_top_level_profile'') (\<lambda>_.
     bindE (check_section policy ''text'' TEXT_ALLOWED_KEYS (\<lambda>text.
       bindE (check_entry text ''default_action'' TEXT_ACTIONS ''unknown_text_action'') (\<lambda>_.
         check_entry text ''domain'' SUPPORTED_TEXT_DOMAINS ''unsupported_text_domain''))) (\<lambda>_.
     bindE (check_section policy ''memo'' MEMO_ALLOWED_KEYS (\<lambda>memo.
       bindE (check_entry memo ''text'' MEMO_ACTIONS ''unknown_memo_action'') (\<lambda>_.
         check_entry memo ''binary'' MEMO_ACTIONS ''unknown_memo_action''))) (\<lambda>_.
     bindE (check_section policy ''temporal'' TEMPORAL_ALLOWED_KEYS (\<lambda>temporal.
       bindE (check_entry temporal ''date'' TEMPORAL_ACTIONS ''unknown_temporal_action'') (\<lambda>_.
         check_entry temporal ''datetime'' TEMPORAL_ACTIONS ''unknown_temporal_action''))) (\<lambda>_.
     bindE (check_section policy ''numeric'' NUMERIC_ALLOWED_KEYS (\<lambda>numeric.
       check_entry numeric ''default_action'' NUMERIC_ACTIONS ''unsupported_numeric_action'')) (\<lambda>_.
     bindE (check_section policy ''relationships'' RELATIONSHIPS_ALLOWED_KEYS (\<lambda>rel.
       guardE (map_of rel ''metadata_file'' \<in> {None, Some JNull}) (policy_reject_unsupported ''metadata_file_not_implemented''))) (\<lambda>_.
       check_section policy ''indexes'' INDEXES_ALLOWED_KEYS (\<lambda>idx.
         check_entry idx ''profile'' SUPPORTED_INDEX_PROFILES ''unknown_index_profile'')))))))))"

section \<open>Merge and resolution\<close>

function deep_merge :: "dict \<Rightarrow> dict \<Rightarrow> dict" where
  "deep_merge base [] = base"
| "deep_merge base ((k, v) # rest) =
     deep_merge (AList.update k
       (case (v, map_of base k) of
          (JObj override, Some (JObj nested)) \<Rightarrow> JObj (deep_merge nested override)
        | _ \<Rightarrow> v) base) rest"
  by pat_completeness auto

termination
  by (relation "measure (\<lambda>(base, override). size_list (size_prod (\<lambda>_. 0) size) override)") auto

definition merge_with_defaults :: "dict option \<Rightarrow> dict" where
  "merge_with_defaults policy = (case policy of None \<Rightarrow> DEFAULT_POLICY | Some p \<Rightarrow> deep_merge DEFAULT_POLICY p)"

definition resolve_policy :: "(dict \<Rightarrow> string result) \<Rightarrow> dict option \<Rightarrow> (dict \<times> string) result" where
  "resolve_policy fingerprint policy =
     bindE (case policy of
              None \<Rightarrow> Inr ()
            | Some p \<Rightarrow> guardE (list_all is_json_scalar (iter_leaves (JObj p))) (policy_reject ''non_json_policy_value'')) (\<lambda>_.
     let merged = merge_with_defaults policy
     in bindE (validate_policy merged) (\<lambda>_. bindE (fingerprint merged) (\<lambda>fp. Inr (merged, fp))))"

section \<open>The capability matrix\<close>

record field_capability_rule =
  fc_dbf_types :: "char list"
  fc_logical_class :: string
  fc_disposition :: string
  fc_default_action :: "string option"
  fc_policy_section :: "string option"
  fc_policy_key :: "string option"
  fc_binary_descriptor_allowed :: bool
  fc_nocptrans_allowed :: bool

definition FIELD_CAPABILITY_MATRIX :: "field_capability_rule list" where
  "FIELD_CAPABILITY_MATRIX =
     [\<lparr>fc_dbf_types = ''CV'', fc_logical_class = ''TEXT'', fc_disposition = ''TRANSFORM'',
        fc_default_action = Some ''PSEUDONYMIZE_REVERSIBLE'', fc_policy_section = Some ''text'', fc_policy_key = Some ''default_action'',
        fc_binary_descriptor_allowed = False, fc_nocptrans_allowed = False\<rparr>,
      \<lparr>fc_dbf_types = ''M'', fc_logical_class = ''MEMO_TEXT_OR_BINARY_PAYLOAD'', fc_disposition = ''TRANSFORM'',
        fc_default_action = Some ''MASK_REVERSIBLE'', fc_policy_section = Some ''memo'', fc_policy_key = Some ''text'',
        fc_binary_descriptor_allowed = False, fc_nocptrans_allowed = False\<rparr>,
      \<lparr>fc_dbf_types = ''GP'', fc_logical_class = ''BINARY_MEMO'', fc_disposition = ''TRANSFORM'',
        fc_default_action = Some ''MASK_REVERSIBLE'', fc_policy_section = Some ''memo'', fc_policy_key = Some ''binary'',
        fc_binary_descriptor_allowed = True, fc_nocptrans_allowed = True\<rparr>,
      \<lparr>fc_dbf_types = ''D'', fc_logical_class = ''DATE'', fc_disposition = ''TRANSFORM'',
        fc_default_action = Some ''SHIFT_REVERSIBLE'', fc_policy_section = Some ''temporal'', fc_policy_key = Some ''date'',
        fc_binary_descriptor_allowed = False, fc_nocptrans_allowed = True\<rparr>,
      \<lparr>fc_dbf_types = ''T'', fc_logical_class = ''DATETIME'', fc_disposition = ''TRANSFORM'',
        fc_default_action = Some ''SHIFT_REVERSIBLE'', fc_policy_section = Some ''temporal'', fc_policy_key = Some ''datetime'',
        fc_binary_descriptor_allowed = False, fc_nocptrans_allowed = True\<rparr>,
      \<lparr>fc_dbf_types = ''NFIYBL'', fc_logical_class = ''SCALAR_IDENTITY'', fc_disposition = ''IDENTITY'',
        fc_default_action = None, fc_policy_section = None, fc_policy_key = None,
        fc_binary_descriptor_allowed = False, fc_nocptrans_allowed = True\<rparr>]"

definition rule_by_dbf_type :: "char \<Rightarrow> field_capability_rule option" where
  "rule_by_dbf_type c = find (\<lambda>r. c \<in> set (fc_dbf_types r)) (rev FIELD_CAPABILITY_MATRIX)"

text \<open>
  \<open>str.upper\<close> on the letters that can make a name equal to \<open>_NULLFLAGS\<close>; no other character with a
  code below 256 maps to one of its letters.
\<close>

definition upper_char :: "char \<Rightarrow> char" where
  "upper_char c = (if 97 \<le> (of_char c :: nat) \<and> (of_char c :: nat) \<le> 122 then char_of ((of_char c :: nat) - 32) else c)"

definition NULLFLAGS :: string where "NULLFLAGS = ''_NULLFLAGS''"

text \<open>\<open>str\<close> of a policy value; only text occurs in a validated policy, so the rest is an argument.\<close>

fun json_str :: "(json \<Rightarrow> string) \<Rightarrow> json \<Rightarrow> string" where
  "json_str other (JStr s) = s"
| "json_str other v = other v"

text \<open>The type is given in upper case, as every caller passes it. A missing part of a transform rule fails its assertion.\<close>

definition classify_field_capability ::
    "(json \<Rightarrow> string) \<Rightarrow> char \<Rightarrow> string \<Rightarrow> bool \<Rightarrow> bool \<Rightarrow> bool \<Rightarrow> bool \<Rightarrow> dict \<Rightarrow> (string option \<times> bool \<times> bool) result" where
  "classify_field_capability other dbf_type field_name is_supported is_binary is_system nocptrans merged_policy =
     (if dbf_type = CHR ''0'' \<and> is_system \<and> map upper_char field_name = NULLFLAGS then Inr (None, False, True)
      else if is_system \<or> \<not> is_supported then Inr (None, True, False)
      else case rule_by_dbf_type dbf_type of
             None \<Rightarrow> Inr (None, True, False)
           | Some rule \<Rightarrow>
               if is_binary \<and> \<not> fc_binary_descriptor_allowed rule then Inr (None, True, False)
               else if nocptrans \<and> \<not> fc_nocptrans_allowed rule then Inr (None, True, False)
               else if fc_disposition rule = ''IDENTITY'' then Inr (None, False, False)
               else (case (fc_default_action rule, fc_policy_section rule, fc_policy_key rule) of
                      (Some dflt, Some section, Some key) \<Rightarrow>
                        let action = (case map_of merged_policy section of
                              Some (JObj kvs) \<Rightarrow> (case map_of kvs key of None \<Rightarrow> dflt | Some v \<Rightarrow> json_str other v)
                            | _ \<Rightarrow> dflt)
                        in Inr (if action = ''KEEP'' then (None, False, False) else (Some action, False, False))
                    | _ \<Rightarrow> Inl AssertionError))"

section \<open>What the merge does\<close>

definition merge_value :: "json option \<Rightarrow> json \<Rightarrow> json" where
  "merge_value old v = (case (v, old) of (JObj override, Some (JObj nested)) \<Rightarrow> JObj (deep_merge nested override) | _ \<Rightarrow> v)"

lemma deep_merge_Cons: "deep_merge base ((k, v) # rest) = deep_merge (AList.update k (merge_value (map_of base k) v) base) rest"
  by (simp only: deep_merge.simps merge_value_def)

lemma merge_lookup:
  "distinct (map fst override) \<Longrightarrow>
   map_of (deep_merge base override) k = (case map_of override k of None \<Rightarrow> map_of base k | Some v \<Rightarrow> Some (merge_value (map_of base k) v))"
proof (induction override arbitrary: base)
  case (Cons kv rest)
  obtain k' v where kv: "kv = (k', v)" by (cases kv)
  have fresh: "map_of rest k' = None" using Cons.prems kv by (simp add: map_of_eq_None_iff)
  have "map_of (deep_merge base (kv # rest)) k =
      (case map_of rest k of None \<Rightarrow> map_of (AList.update k' (merge_value (map_of base k') v) base) k
       | Some u \<Rightarrow> Some (merge_value (map_of (AList.update k' (merge_value (map_of base k') v) base) k) u))"
    using Cons.IH Cons.prems unfolding kv deep_merge_Cons by simp
  then show ?case using fresh kv by (auto simp: update_conv' split: option.split)
qed simp

text \<open>A Python dict has each key once, on both levels a policy has.\<close>

definition dict_ok :: "dict \<Rightarrow> bool" where
  "dict_ok p \<longleftrightarrow> distinct (map fst p) \<and> (\<forall>k kvs. map_of p k = Some (JObj kvs) \<longrightarrow> distinct (map fst kvs))"

section \<open>What validation guarantees\<close>

lemma check_entry_Inr: "check_entry s k allowed d = Inr u \<Longrightarrow> map_of s k = Some v \<Longrightarrow> v \<in> JStr ` set allowed"
  by (auto simp: check_entry_def member_of_def bindE_Inr_iff list_ex_iff split: if_splits)

lemma check_section_Inr:
  assumes "check_section m name allowed check = Inr u" and "map_of m name = Some v"
  obtains kvs where "v = JObj kvs" and "check kvs = Inr u"
  using assms by (auto simp: check_section_def validate_nested_def bindE_Inr_iff split: json.splits if_splits)

text \<open>The actions a validated policy may name under a section and key the matrix refers to.\<close>

definition action_vocabulary :: "string \<Rightarrow> string list" where
  "action_vocabulary section = (if section = ''text'' then TEXT_ACTIONS else if section = ''memo'' then MEMO_ACTIONS else TEMPORAL_ACTIONS)"

definition policy_slots :: "(string \<times> string) list" where
  "policy_slots = [(''text'', ''default_action''), (''memo'', ''text''), (''memo'', ''binary''), (''temporal'', ''date''), (''temporal'', ''datetime'')]"

lemma validated_slot:
  assumes "validate_policy m = Inr u" and "(section, key) \<in> set policy_slots" and "map_of m section = Some v"
  shows "\<exists>kvs. v = JObj kvs \<and> (\<forall>w. map_of kvs key = Some w \<longrightarrow> w \<in> JStr ` set (action_vocabulary section))"
proof -
  have checks:
    "check_section m ''text'' TEXT_ALLOWED_KEYS (\<lambda>text. bindE (check_entry text ''default_action'' TEXT_ACTIONS ''unknown_text_action'') (\<lambda>_.
       check_entry text ''domain'' SUPPORTED_TEXT_DOMAINS ''unsupported_text_domain'')) = Inr ()"
    "check_section m ''memo'' MEMO_ALLOWED_KEYS (\<lambda>memo. bindE (check_entry memo ''text'' MEMO_ACTIONS ''unknown_memo_action'') (\<lambda>_.
       check_entry memo ''binary'' MEMO_ACTIONS ''unknown_memo_action'')) = Inr ()"
    "check_section m ''temporal'' TEMPORAL_ALLOWED_KEYS (\<lambda>temporal. bindE (check_entry temporal ''date'' TEMPORAL_ACTIONS ''unknown_temporal_action'') (\<lambda>_.
       check_entry temporal ''datetime'' TEMPORAL_ACTIONS ''unknown_temporal_action'')) = Inr ()"
    using assms(1) by (simp_all add: validate_policy_def bindE_Inr_iff)
  consider "section = ''text''" "key = ''default_action''" | "section = ''memo''" "key = ''text'' \<or> key = ''binary''"
    | "section = ''temporal''" "key = ''date'' \<or> key = ''datetime''"
    using assms(2) by (auto simp: policy_slots_def)
  then show ?thesis
  proof cases
    case 1
    obtain kvs where "v = JObj kvs" "check_entry kvs ''default_action'' TEXT_ACTIONS ''unknown_text_action'' = Inr ()"
      by (rule check_section_Inr [OF checks(1)]) (use assms(3) 1 in \<open>auto simp: bindE_Inr_iff\<close>)
    then show ?thesis using 1 check_entry_Inr by (auto simp: action_vocabulary_def)
  next
    case 2
    obtain kvs where "v = JObj kvs" "check_entry kvs ''text'' MEMO_ACTIONS ''unknown_memo_action'' = Inr ()"
      "check_entry kvs ''binary'' MEMO_ACTIONS ''unknown_memo_action'' = Inr ()"
      by (rule check_section_Inr [OF checks(2)]) (use assms(3) 2 in \<open>auto simp: bindE_Inr_iff\<close>)
    then show ?thesis using 2 check_entry_Inr by (auto simp: action_vocabulary_def)
  next
    case 3
    obtain kvs where "v = JObj kvs" "check_entry kvs ''date'' TEMPORAL_ACTIONS ''unknown_temporal_action'' = Inr ()"
      "check_entry kvs ''datetime'' TEMPORAL_ACTIONS ''unknown_temporal_action'' = Inr ()"
      by (rule check_section_Inr [OF checks(3)]) (use assms(3) 3 in \<open>auto simp: bindE_Inr_iff\<close>)
    then show ?thesis using 3 check_entry_Inr by (auto simp: action_vocabulary_def)
  qed
qed

section \<open>What classification guarantees\<close>

text \<open>The transformable types, their action and the slot of the policy that decides about them.\<close>

definition type_slot :: "char \<Rightarrow> (string \<times> string \<times> string) option" where
  "type_slot c =
     (if c \<in> set ''CV'' then Some (''PSEUDONYMIZE_REVERSIBLE'', ''text'', ''default_action'')
      else if c = CHR ''M'' then Some (''MASK_REVERSIBLE'', ''memo'', ''text'')
      else if c \<in> set ''GP'' then Some (''MASK_REVERSIBLE'', ''memo'', ''binary'')
      else if c = CHR ''D'' then Some (''SHIFT_REVERSIBLE'', ''temporal'', ''date'')
      else if c = CHR ''T'' then Some (''SHIFT_REVERSIBLE'', ''temporal'', ''datetime'')
      else None)"

definition kept_explicitly :: "dict option \<Rightarrow> string \<Rightarrow> string \<Rightarrow> bool" where
  "kept_explicitly policy section key \<longleftrightarrow>
     (\<exists>p kvs. policy = Some p \<and> map_of p section = Some (JObj kvs) \<and> map_of kvs key = Some (JStr ''KEEP''))"

definition slot_action :: "(json \<Rightarrow> string) \<Rightarrow> dict \<Rightarrow> string \<Rightarrow> string \<Rightarrow> string \<Rightarrow> string" where
  "slot_action other m action section key =
     (case map_of m section of
        Some (JObj kvs) \<Rightarrow> (case map_of kvs key of None \<Rightarrow> action | Some v \<Rightarrow> json_str other v)
      | _ \<Rightarrow> action)"

lemma slots_checked:
  "list_all (\<lambda>c. case type_slot c of None \<Rightarrow> False | Some (action, section, key) \<Rightarrow>
     (section, key) \<in> set policy_slots \<and> action \<noteq> ''KEEP'' \<and> action_vocabulary section = [action, ''KEEP'']
     \<and> (case map_of DEFAULT_POLICY section of Some (JObj kvs) \<Rightarrow> map_of kvs key = Some (JStr action) | _ \<Rightarrow> False)) ''CVMGPDT''"
  by code_simp

lemma type_slot_types: "type_slot c \<noteq> None \<longleftrightarrow> c \<in> set ''CVMGPDT''"
  by (simp add: type_slot_def)

lemma type_slot_cases:
  assumes "type_slot c = Some (action, section, key)"
  shows "(section, key) \<in> set policy_slots" "action \<noteq> ''KEEP''" "action_vocabulary section = [action, ''KEEP'']"
    "\<exists>kvs. map_of DEFAULT_POLICY section = Some (JObj kvs) \<and> map_of kvs key = Some (JStr action)"
proof -
  have "c \<in> set ''CVMGPDT''" using type_slot_types [of c] assms by simp
  then have "case type_slot c of None \<Rightarrow> False | Some (action, section, key) \<Rightarrow>
     (section, key) \<in> set policy_slots \<and> action \<noteq> ''KEEP'' \<and> action_vocabulary section = [action, ''KEEP'']
     \<and> (case map_of DEFAULT_POLICY section of Some (JObj kvs) \<Rightarrow> map_of kvs key = Some (JStr action) | _ \<Rightarrow> False)"
    using slots_checked unfolding list_all_iff by blast
  then show "(section, key) \<in> set policy_slots" "action \<noteq> ''KEEP''" "action_vocabulary section = [action, ''KEEP'']"
    "\<exists>kvs. map_of DEFAULT_POLICY section = Some (JObj kvs) \<and> map_of kvs key = Some (JStr action)"
    unfolding assms by (simp_all split: option.splits json.splits)
qed

lemma slot_action_vocabulary:
  assumes "validate_policy m = Inr u" and "type_slot c = Some (action, section, key)"
  shows "slot_action other m action section key \<in> {action, ''KEEP''}"
proof -
  note slot = type_slot_cases [OF assms(2)]
  show ?thesis
  proof (cases "map_of m section")
    case (Some v)
    then obtain kvs where "v = JObj kvs" "\<forall>w. map_of kvs key = Some w \<longrightarrow> w \<in> JStr ` set [action, ''KEEP'']"
      using validated_slot [OF assms(1) slot(1)] slot(3) by auto
    then show ?thesis using Some by (cases "map_of kvs key") (auto simp: slot_action_def)
  qed (simp add: slot_action_def)
qed

lemma slot_kept:
  assumes "\<forall>p. policy = Some p \<longrightarrow> dict_ok p" and "validate_policy (merge_with_defaults policy) = Inr u" and slot: "type_slot c = Some (action, section, key)"
    and "slot_action other (merge_with_defaults policy) action section key = ''KEEP''"
  shows "kept_explicitly policy section key"
proof -
  obtain dflt where dflt: "map_of DEFAULT_POLICY section = Some (JObj dflt)" "map_of dflt key = Some (JStr action)" using type_slot_cases(4) [OF slot] by auto
  have act: "action \<noteq> ''KEEP''" by (rule type_slot_cases(2) [OF slot])
  obtain p where p: "policy = Some p" using assms(4) dflt act by (cases policy) (auto simp: merge_with_defaults_def slot_action_def)
  have lookup: "map_of (merge_with_defaults policy) section =
      (case map_of p section of None \<Rightarrow> Some (JObj dflt) | Some v \<Rightarrow> Some (merge_value (Some (JObj dflt)) v))"
    using assms(1) p dflt by (cases "map_of p section") (simp_all add: merge_with_defaults_def merge_lookup dict_ok_def)
  then obtain v where v: "map_of p section = Some v" using assms(4) dflt act by (cases "map_of p section") (auto simp: slot_action_def)
  obtain kvs where kvs: "merge_value (Some (JObj dflt)) v = JObj kvs"
    using validated_slot [OF assms(2) type_slot_cases(1) [OF slot]] lookup v by auto
  then obtain over where over: "v = JObj over" "kvs = deep_merge dflt over" by (cases v) (auto simp: merge_value_def)
  have "distinct (map fst over)" using assms(1) p v over by (auto simp: dict_ok_def)
  then have key: "map_of kvs key = (case map_of over key of None \<Rightarrow> Some (JStr action) | Some w \<Rightarrow> Some (merge_value (Some (JStr action)) w))"
    using dflt over by (cases "map_of over key") (simp_all add: merge_lookup)
  obtain w where w: "map_of over key = Some w" using key lookup v kvs assms(4) act by (cases "map_of over key") (auto simp: slot_action_def)
  have mv: "merge_value (Some (JStr action)) w = w" by (cases w) (simp_all add: merge_value_def)
  have "w \<in> JStr ` set (action_vocabulary section)"
    using validated_slot [OF assms(2) type_slot_cases(1) [OF slot]] lookup v kvs key w mv by auto
  then have "w = JStr ''KEEP''" using key lookup v kvs assms(4) w mv by (auto simp: slot_action_def)
  then show ?thesis using p v over w by (auto simp: kept_explicitly_def)
qed

lemma rules_checked:
  "list_all (\<lambda>c. case rule_by_dbf_type c of None \<Rightarrow> False | Some r \<Rightarrow>
     (case type_slot c of
        None \<Rightarrow> c \<in> set ''NFIYBL'' \<and> fc_disposition r = ''IDENTITY''
      | Some (action, section, key) \<Rightarrow> fc_disposition r \<noteq> ''IDENTITY'' \<and> fc_default_action r = Some action
          \<and> fc_policy_section r = Some section \<and> fc_policy_key r = Some key)) ''CVMGPDTNFIYBL''"
  by code_simp

lemma rule_types: "rule_by_dbf_type c \<noteq> None \<longleftrightarrow> c \<in> set ''CVMGPDTNFIYBL''"
proof -
  have "concat (map fc_dbf_types FIELD_CAPABILITY_MATRIX) = ''CVMGPDTNFIYBL''" by code_simp
  moreover have "rule_by_dbf_type c \<noteq> None \<longleftrightarrow> c \<in> set (concat (map fc_dbf_types FIELD_CAPABILITY_MATRIX))"
    by (auto simp: rule_by_dbf_type_def find_None_iff)
  ultimately show ?thesis by simp
qed

lemma rule_of_type:
  assumes "rule_by_dbf_type c = Some r"
  shows "case type_slot c of
      None \<Rightarrow> c \<in> set ''NFIYBL'' \<and> fc_disposition r = ''IDENTITY''
    | Some (action, section, key) \<Rightarrow> fc_disposition r \<noteq> ''IDENTITY'' \<and> fc_default_action r = Some action
        \<and> fc_policy_section r = Some section \<and> fc_policy_key r = Some key"
proof -
  have "c \<in> set ''CVMGPDTNFIYBL''" using rule_types [of c] assms by simp
  then show ?thesis using rules_checked assms unfolding list_all_iff by fastforce
qed

lemma classify_cases:
  "classify_field_capability other c name supported binary system nocptrans m =
     (if c = CHR ''0'' \<and> system \<and> map upper_char name = NULLFLAGS then Inr (None, False, True)
      else if system \<or> \<not> supported \<or> (case rule_by_dbf_type c of None \<Rightarrow> True
        | Some r \<Rightarrow> binary \<and> \<not> fc_binary_descriptor_allowed r \<or> nocptrans \<and> \<not> fc_nocptrans_allowed r) then Inr (None, True, False)
      else case type_slot c of
             None \<Rightarrow> Inr (None, False, False)
           | Some (action, section, key) \<Rightarrow>
               let a = slot_action other m action section key in Inr (if a = ''KEEP'' then None else Some a, False, False))"
proof (cases "rule_by_dbf_type c")
  case None
  then show ?thesis by (simp add: classify_field_capability_def)
next
  case (Some r)
  from rule_of_type [OF Some] Some show ?thesis
    by (cases "type_slot c") (auto simp: classify_field_capability_def slot_action_def Let_def split: prod.splits)
qed

text \<open>
  C24. Classification fails closed. Under a resolved policy every field is classified without an
  error: as unsafe, as the NULL bitmap of the writer, as identity or with exactly the action of its
  type's row of the matrix (text types are pseudonymized, memo types masked, dates and times
  shifted), so that the engine never meets an unsupported action. A field of a transformable type is
  left unchanged only if the user's own policy says \<open>KEEP\<close> in the slot of that type: neither the
  defaults nor a missing section ever release it.
\<close>

theorem classification_fails_closed:
  assumes "resolve_policy fingerprint policy = Inr (merged, fp)" and "\<forall>p. policy = Some p \<longrightarrow> dict_ok p"
  shows "\<exists>action unsafe sys. classify_field_capability other c name supported binary system nocptrans merged = Inr (action, unsafe, sys)
    \<and> (sys \<longrightarrow> c = CHR ''0'' \<and> map upper_char name = NULLFLAGS \<and> action = None \<and> \<not> unsafe)
    \<and> (unsafe \<longrightarrow> action = None)
    \<and> (\<not> sys \<and> \<not> unsafe \<longrightarrow> supported \<and> \<not> system \<and>
        (case type_slot c of
           None \<Rightarrow> action = None \<and> c \<in> set ''NFIYBL''
         | Some (a, section, key) \<Rightarrow> action = Some a \<or> (action = None \<and> kept_explicitly policy section key)))"
proof -
  have m: "merged = merge_with_defaults policy" "validate_policy merged = Inr ()"
    using assms(1) by (auto simp: resolve_policy_def bindE_Inr_iff Let_def)
  show ?thesis
  proof (cases "type_slot c")
    case None
    have "c \<in> set ''NFIYBL''" if "rule_by_dbf_type c = Some r" for r using rule_of_type [OF that] None by simp
    then show ?thesis unfolding classify_cases None by (auto split: option.splits)
  next
    case (Some s)
    then obtain a sec key where s: "type_slot c = Some (a, sec, key)" by (cases s) auto
    define a0 where "a0 = slot_action other merged a sec key"
    have "a0 = a \<and> a \<noteq> ''KEEP'' \<or> a0 = ''KEEP'' \<and> kept_explicitly policy sec key"
      using slot_action_vocabulary [OF m(2) s, of other] slot_kept [OF assms(2) m(2) [unfolded m(1)] s, of other] type_slot_cases(2) [OF s]
      unfolding a0_def m(1) by blast
    then show ?thesis unfolding classify_cases s Let_def a0_def [symmetric] option.case prod.case by auto
  qed
qed

theorem classification_fails_closed_witness:
  "\<exists>merged fp. resolve_policy (\<lambda>_. Inr ''fp'') (Some [(''text'', JObj [(''default_action'', JStr ''KEEP'')])]) = Inr (merged, fp)
    \<and> classify_field_capability (\<lambda>_. []) (CHR ''D'') ''BORN'' True False False False merged = Inr (Some ''SHIFT_REVERSIBLE'', False, False)"
proof -
  let ?p = "[(''text'', JObj [(''default_action'', JStr ''KEEP'')])]"
  have run: "resolve_policy (\<lambda>_. Inr ''fp'') (Some ?p) = Inr (merge_with_defaults (Some ?p), ''fp'')" by code_simp
  have ok: "\<forall>p. Some ?p = Some p \<longrightarrow> dict_ok p" by (auto simp: dict_ok_def)
  have "\<not> kept_explicitly (Some ?p) ''temporal'' ''date''" by (simp add: kept_explicitly_def)
  moreover have "classify_field_capability (\<lambda>_. []) (CHR ''D'') ''BORN'' True False False False (merge_with_defaults (Some ?p)) = Inr (act, u, sys) \<Longrightarrow> \<not> u \<and> \<not> sys"
    for act u sys by (auto simp: classify_cases rule_by_dbf_type_def FIELD_CAPABILITY_MATRIX_def type_slot_def Let_def)
  ultimately show ?thesis
    using run classification_fails_closed [OF run ok, of "\<lambda>_. []" "CHR ''D''" "''BORN''" True False False False] by (auto simp: type_slot_def)
qed

text \<open>
  A policy value that Python cannot hash escapes the typed refusal: when the top-level profile
  is given as a list or an object of JSON scalars, resolution does not raise the \<open>PolicyError\<close> the
  validator documents for any violation but \<open>TypeError\<close>, because \<open>x not in frozenset\<close> hashes \<open>x\<close>.
\<close>

theorem unhashable_profile_escapes:
  assumes "\<not> hashable v" and "list_all is_json_scalar (iter_leaves v)" and "\<And>xs. v \<noteq> JTuple xs"
  shows "resolve_policy fingerprint (Some [(''profile'', v)]) = Inl TypeError"
proof -
  have "map_of (deep_merge DEFAULT_POLICY [(''profile'', v)]) k = (if k = ''profile'' then Some v else map_of DEFAULT_POLICY k)" for k
    using assms(1,3) by (cases v) (auto simp: DEFAULT_POLICY_def)
  moreover have "list_all (\<lambda>kv. fst kv \<in> set KNOWN_TOP_LEVEL_KEYS) (deep_merge DEFAULT_POLICY [(''profile'', v)])"
    by (cases v) (simp_all add: DEFAULT_POLICY_def KNOWN_TOP_LEVEL_KEYS_def)
  moreover have "map_of DEFAULT_POLICY ''schema_version'' = Some (JInt 1)" by (simp add: DEFAULT_POLICY_def)
  ultimately have "validate_policy (deep_merge DEFAULT_POLICY [(''profile'', v)]) = Inl TypeError"
    using assms(1) by (simp add: validate_policy_def validate_schema_version_def SUPPORTED_SCHEMA_VERSION_def check_entry_def member_of_def guardE_def)
  then show ?thesis using assms(2) by (simp add: resolve_policy_def merge_with_defaults_def guardE_def)
qed

theorem unhashable_profile_escapes_witness:
  "resolve_policy (\<lambda>_. Inr ''fp'') (Some [(''profile'', JList [JStr ''SAFE_TRANSFER''])]) = Inl TypeError"
  by (rule unhashable_profile_escapes) simp_all

end
