(* ===== verification/Vault_Store.thy ===== *)
theory Vault_Store
  imports Anon_Prelude
begin

text \<open>
  The protected SQLite vault: the rows of the dictionary database
  (\<^verbatim>\<open>src/src/dbf_anonymizer/vault/schema.py\<close>), one open connection with its transaction and
  writer-authority state (\<^verbatim>\<open>vault/store.py\<close>), and the explicit transaction unit
  (\<^verbatim>\<open>vault/transactions.py\<close>). The outcome of \<open>BEGIN IMMEDIATE\<close>, \<open>COMMIT\<close> and \<open>ROLLBACK\<close> is the
  environment's: three flags of the connection state say which of them fails.
\<close>

section \<open>Rows\<close>

text \<open>SQLite's dynamically typed cells; a column never forces the storage class of a hostile row.\<close>

datatype sqlval = SNull | SInt int | SReal nat | SText pystr | SBlob bytes

datatype sql_typeof = T_null | T_integer | T_real | T_text | T_blob

fun sql_type :: "sqlval \<Rightarrow> sql_typeof" where
  "sql_type SNull = T_null"
| "sql_type (SInt i) = T_integer"
| "sql_type (SReal r) = T_real"
| "sql_type (SText s) = T_text"
| "sql_type (SBlob b) = T_blob"

record domain_row =
  dr_id :: string
  dr_kind :: string
  dr_normalization :: "string option"
  dr_role :: "string option"

record table_row =
  tb_id :: string
  tb_path :: string
  tb_schema_fp :: "string option"
  tb_source_fp :: "string option"

record field_row =
  fr_id :: string
  fr_table :: string
  fr_name :: string
  fr_type :: string
  fr_encoding :: "string option"
  fr_width :: int
  fr_action :: "string option"
  fr_domain :: "string option"

record text_row =
  tr_domain :: string
  tr_original :: sqlval
  tr_pseudonym :: sqlval
  tr_length :: sqlval

record numeric_row =
  nr_domain :: string
  nr_original :: sqlval
  nr_pseudonym :: sqlval

record memo_row =
  mr_table :: string
  mr_index :: int
  mr_field :: string
  mr_payload :: sqlval
  mr_kind :: sqlval

record temporal_row =
  pr_domain :: string
  pr_offset :: sqlval

datatype operation_state = STARTED | COMPLETED

record operation_row =
  op_id :: string
  op_state :: operation_state
  op_source_fp :: "string option"
  op_policy_fp :: "string option"
  op_relationship_fp :: "string option"
  op_vault_fp :: "string option"
  op_destination :: "string option"
  op_binding_fp :: "string option"
  op_output_fp :: "string option"
  op_result_json :: "string option"
  op_started_at :: "string option"
  op_completed_at :: "string option"

record publication_row =
  pb_operation :: string
  pb_phase :: string
  pb_output_fp :: "string option"
  pb_vault_fp :: "string option"

record database =
  writer_authority :: "string option"
  acquire_tick :: int
  operations_tbl :: "operation_row list"
  publication_tbl :: "publication_row list"
  mapping_domains_tbl :: "domain_row list"
  tables_tbl :: "table_row list"
  fields_tbl :: "field_row list"
  text_mappings_tbl :: "text_row list"
  numeric_key_mappings_tbl :: "numeric_row list"
  memo_recovery_tbl :: "memo_row list"
  temporal_parameters_tbl :: "temporal_row list"

section \<open>The connection\<close>

record vault =
  committed :: database
  working :: database
  txn_active :: bool
  txn_authorized :: bool
  read_only :: bool
  writer_token :: "string option"
  poisoned :: "error option"
  closed :: bool
  begin_fails :: bool
  commit_fails :: bool
  rollback_fails :: bool

text \<open>
  An operation of an object that owns a database reference: it may raise, and it changes the
  connection and, in the record's extension, the object's own fields.
\<close>

type_synonym ('a, 'x) vm = "'x vault_scheme \<Rightarrow> 'a result \<times> 'x vault_scheme"

definition retV :: "'a \<Rightarrow> ('a, 'x) vm" where "retV x = (\<lambda>v. (Inr x, v))"

definition failV :: "error \<Rightarrow> ('a, 'x) vm" where "failV e = (\<lambda>v. (Inl e, v))"

definition bindV :: "('a, 'x) vm \<Rightarrow> ('a \<Rightarrow> ('b, 'x) vm) \<Rightarrow> ('b, 'x) vm" where
  "bindV m f = (\<lambda>v. case m v of (Inl e, v') \<Rightarrow> (Inl e, v') | (Inr x, v') \<Rightarrow> f x v')"

definition liftV :: "'a result \<Rightarrow> ('a, 'x) vm" where "liftV r = (\<lambda>v. (r, v))"

definition guardV :: "bool \<Rightarrow> error \<Rightarrow> (unit, 'x) vm" where
  "guardV b e = (if b then retV () else failV e)"

lemma vm_simps [simp]:
  "retV x v = (Inr x, v)" "failV e v = (Inl e, v)" "liftV r v = (r, v)"
  by (simp_all add: retV_def failV_def liftV_def)

lemma guardV_simps [simp]:
  "guardV True e v = (Inr (), v)" "guardV False e v = (Inl e, v)"
  by (simp_all add: guardV_def)

lemma bindV_Inl [simp]: "m v = (Inl e, v') \<Longrightarrow> bindV m f v = (Inl e, v')"
  by (simp add: bindV_def)

lemma bindV_Inr [simp]: "m v = (Inr x, v') \<Longrightarrow> bindV m f v = f x v'"
  by (simp add: bindV_def)

text \<open>Run an operation for each element of a list, in order.\<close>

fun mapV :: "('a \<Rightarrow> ('b, 'x) vm) \<Rightarrow> 'a list \<Rightarrow> ('b list, 'x) vm" where
  "mapV f [] = retV []"
| "mapV f (x # xs) = bindV (f x) (\<lambda>y. bindV (mapV f xs) (\<lambda>ys. retV (y # ys)))"

lemma bindV_Inr_E:
  assumes "bindV m f v = (Inr y, w)"
  obtains x v' where "m v = (Inr x, v')" "f x v' = (Inr y, w)"
  using assms by (auto simp: bindV_def split: prod.splits sum.splits)

definition connection_poisoned :: error where
  "connection_poisoned = VaultError VAULT_STATE_INVALID ''CONNECTION_POISONED''"

definition internal_connection :: "(database, 'x) vm" where
  "internal_connection v =
     (if closed v then (Inl RuntimeError, v)
      else if poisoned v \<noteq> None then (Inl connection_poisoned, v)
      else (Inr (working v), v))"

definition require_trusted_connection :: "(unit, 'x) vm" where
  "require_trusted_connection v =
     (if closed v then (Inl RuntimeError, v)
      else if poisoned v \<noteq> None then (Inl connection_poisoned, v)
      else (Inr (), v))"

definition require_active_transaction :: "(unit, 'x) vm" where
  "require_active_transaction v =
     (if \<not> txn_active v \<or> \<not> txn_authorized v then (Inl ValueError, v) else (Inr (), v))"

section \<open>The transaction unit\<close>

definition rollback_failed :: error where
  "rollback_failed = VaultError VAULT_STATE_INVALID ''TRANSACTION_ROLLBACK_FAILED''"

definition commit_failed :: error where
  "commit_failed = VaultError VAULT_UNAVAILABLE ''TRANSACTION_COMMIT_FAILED''"

definition lease_required :: error where
  "lease_required = VaultError VAULT_WRITER_CONFLICT ''WRITER_LEASE_REQUIRED''"

text \<open>\<open>ROLLBACK\<close>: the working view returns to the committed one; a failure poisons the owner.\<close>

definition do_rollback :: "'x vault_scheme \<Rightarrow> 'x vault_scheme" where
  "do_rollback v =
     (if rollback_fails v then v\<lparr>txn_active := False, poisoned := Some rollback_failed\<rparr>
      else v\<lparr>txn_active := False, working := committed v\<rparr>)"

definition do_commit :: "'a \<Rightarrow> ('a, 'x) vm" where
  "do_commit x v =
     (if commit_fails v then
        (Inl commit_failed,
         v\<lparr>txn_active := False, poisoned := Some commit_failed,
           working := (if rollback_fails v then working v else committed v)\<rparr>)
      else (Inr x, v\<lparr>txn_active := False, committed := working v\<rparr>))"

definition verify_writer_ownership :: "(unit, 'x) vm" where
  "verify_writer_ownership v =
     (if writer_authority (working v) = None \<or> writer_authority (working v) \<noteq> writer_token v
      then (Inl lease_required, v) else (Inr (), v))"

text \<open>\<open>__enter__\<close> and \<open>__exit__\<close> around a body that returns a value or raises.\<close>

definition run_transaction :: "(unit, 'x) vm option \<Rightarrow> ('a, 'x) vm \<Rightarrow> ('a, 'x) vm" where
  "run_transaction on_begin body v =
     (if begin_fails v then (Inl (VaultError VAULT_UNAVAILABLE ''TRANSACTION_BEGIN_FAILED''), v)
      else
        let v1 = v\<lparr>txn_active := True, working := committed v\<rparr>
        in case (case on_begin of None \<Rightarrow> (Inr (), v1) | Some check \<Rightarrow> check v1) of
             (Inl e, v2) \<Rightarrow> (Inl e, do_rollback v2)
           | (Inr _, v2) \<Rightarrow>
               (case body v2 of
                  (Inl e, v3) \<Rightarrow> (Inl e, do_rollback v3)
                | (Inr x, v3) \<Rightarrow> do_commit x v3))"

definition with_transaction :: "('a, 'x) vm \<Rightarrow> ('a, 'x) vm" where
  "with_transaction body =
     bindV require_trusted_connection (\<lambda>_ v.
       if read_only v then (Inl (VaultError VAULT_WRITER_CONFLICT ''READ_ONLY_CONNECTION''), v)
       else if txn_active v then (Inl ValueError, v)
       else if writer_token v = None then (Inl lease_required, v)
       else run_transaction (Some verify_writer_ownership) body (v\<lparr>txn_authorized := True\<rparr>))"

definition with_system_transaction :: "('a, 'x) vm \<Rightarrow> ('a, 'x) vm" where
  "with_system_transaction body =
     bindV require_trusted_connection (\<lambda>_ v.
       if txn_active v then (Inl ValueError, v)
       else run_transaction None body (v\<lparr>txn_authorized := False\<rparr>))"

section \<open>Bounded tokens and the writer lease\<close>

definition py_isspace :: "char \<Rightarrow> bool" where
  "py_isspace c \<longleftrightarrow> (let n = of_char c :: nat in (9 \<le> n \<and> n \<le> 13) \<or> (28 \<le> n \<and> n \<le> 32) \<or> n = 0x85 \<or> n = 0xA0)"

definition MAX_TOKEN_LENGTH :: nat where "MAX_TOKEN_LENGTH = 128"

definition py_strip :: "string \<Rightarrow> string" where
  "py_strip s = rev (dropWhile py_isspace (rev (dropWhile py_isspace s)))"

definition validate_token :: "string \<Rightarrow> string result" where
  "validate_token value =
     (if value = [] \<or> length value > MAX_TOKEN_LENGTH \<or> py_strip value \<noteq> value then Inl ValueError
      else if list_ex py_isspace value then Inl ValueError
      else Inr value)"

definition acquire_writer_lease :: "string \<Rightarrow> (int, 'x) vm" where
  "acquire_writer_lease owner_token =
     bindV (liftV (validate_token owner_token)) (\<lambda>_ v.
       if read_only v then (Inl (VaultError VAULT_WRITER_CONFLICT ''READ_ONLY_CONNECTION''), v)
       else if closed v then (Inl RuntimeError, v)
       else if poisoned v \<noteq> None then (Inl connection_poisoned, v)
       else if txn_active v then (Inl ValueError, v)
       else
         bindV (with_system_transaction (\<lambda>u.
             if writer_authority (working u) \<noteq> None
             then (Inl (VaultError VAULT_WRITER_CONFLICT ''WRITER_LEASE_HELD''), u)
             else
               let tick = acquire_tick (working u) + 1
               in (Inr tick,
                   u\<lparr>working := (working u)\<lparr>writer_authority := Some owner_token, acquire_tick := tick\<rparr>\<rparr>)))
           (\<lambda>tick u. (Inr tick, u\<lparr>writer_token := Some owner_token\<rparr>)) v)"

definition release_writer_lease :: "string \<Rightarrow> (unit, 'x) vm" where
  "release_writer_lease owner_token =
     bindV (liftV (validate_token owner_token)) (\<lambda>_ v.
       if closed v then (Inl RuntimeError, v)
       else if poisoned v \<noteq> None then (Inl connection_poisoned, v)
       else
         bindV (with_system_transaction (\<lambda>u.
             if writer_authority (working u) \<noteq> Some owner_token
             then (Inl (VaultError VAULT_WRITER_CONFLICT ''NOT_LEASE_HOLDER''), u)
             else (Inr (), u\<lparr>working := (working u)\<lparr>writer_authority := None\<rparr>\<rparr>)))
           (\<lambda>_ u. (Inr (), if writer_token u = Some owner_token then u\<lparr>writer_token := None\<rparr> else u)) v)"

section \<open>Atomicity of the unit\<close>

text \<open>
  A body works on the connection's view and on the fields of the object that runs it: it may change
  \<open>working\<close> and the record's extension, and leaves the committed database, the transaction flags,
  the writer token and the environment flags alone.
\<close>

abbreviation with_view :: "database \<Rightarrow> 'x \<Rightarrow> 'x vault_scheme \<Rightarrow> 'x vault_scheme" where
  "with_view db m v \<equiv> vault.more_update (\<lambda>_. m) (v\<lparr>working := db\<rparr>)"

definition body_ok :: "('a, 'x) vm \<Rightarrow> bool" where
  "body_ok body \<longleftrightarrow> (\<forall>v. \<exists>db m. snd (body v) = with_view db m v)"

lemma body_okE:
  assumes "body_ok body"
  obtains db m where "snd (body v) = with_view db m v"
  using assms unfolding body_ok_def by blast

lemma body_ok_bindV:
  assumes "body_ok m" and "\<And>x. body_ok (f x)"
  shows "body_ok (bindV m f)"
proof -
  have "\<exists>db m'. snd (bindV m f v) = with_view db m' v" for v
  proof -
    obtain db m' where m: "snd (m v) = with_view db m' v" using assms(1) by (rule body_okE)
    show ?thesis
    proof (cases "m v")
      case (Pair r v1)
      show ?thesis
      proof (cases r)
        case (Inl e)
        then show ?thesis using Pair m by auto
      next
        case (Inr x)
        obtain db' m2 where "snd (f x v1) = with_view db' m2 v1" using assms(2) by (rule body_okE)
        then show ?thesis using Pair Inr m by auto
      qed
    qed
  qed
  then show ?thesis by (simp add: body_ok_def)
qed

lemma working_self [simp]: "\<exists>db m. v = with_view db m v"
  by (rule exI [of _ "working v"], rule exI [of _ "vault.more v"]) simp

lemma view_iff:
  "(\<exists>db m. w = with_view db m v) \<longleftrightarrow>
     committed w = committed v \<and> txn_active w = txn_active v \<and> txn_authorized w = txn_authorized v
     \<and> read_only w = read_only v \<and> writer_token w = writer_token v \<and> poisoned w = poisoned v
     \<and> closed w = closed v \<and> begin_fails w = begin_fails v \<and> commit_fails w = commit_fails v
     \<and> rollback_fails w = rollback_fails v"
  by (cases v; cases w) auto

lemma working_set [simp]: "\<exists>db' m. v\<lparr>working := db\<rparr> = with_view db' m v"
  by (rule exI [of _ db], rule exI [of _ "vault.more v"]) simp

lemma more_set [simp]: "\<exists>db m'. vault.more_update f v = with_view db m' v"
  by (rule exI [of _ "working v"], rule exI [of _ "f (vault.more v)"]) simp

lemma body_ok_basic [intro]:
  "body_ok (retV x)" "body_ok (failV e)" "body_ok (liftV r)" "body_ok (guardV b e)"
  "body_ok internal_connection" "body_ok require_active_transaction"
  by (auto simp: body_ok_def guardV_def internal_connection_def require_active_transaction_def)

text \<open>Between units the connection sees the committed database unless it has been poisoned.\<close>

definition vault_idle :: "'x vault_scheme \<Rightarrow> bool" where
  "vault_idle v \<longleftrightarrow> \<not> txn_active v \<and> (poisoned v = None \<longrightarrow> working v = committed v)"

definition txn_start :: "bool \<Rightarrow> 'x vault_scheme \<Rightarrow> 'x vault_scheme" where
  "txn_start authorized v = v\<lparr>txn_authorized := authorized, txn_active := True, working := committed v\<rparr>"

definition authority_ok :: "'x vault_scheme \<Rightarrow> bool" where
  "authority_ok v \<longleftrightarrow> \<not> closed v \<and> poisoned v = None \<and> \<not> read_only v \<and> \<not> txn_active v
     \<and> \<not> begin_fails v \<and> writer_token v \<noteq> None \<and> writer_authority (committed v) = writer_token v"

text \<open>
  The whole behaviour of an authorized unit: refused, rolled back, lost at commit, or committed.
\<close>

lemma with_transaction_cases:
  assumes "body_ok body"
  obtains
    (refused) e where "\<not> authority_ok v" "fst (with_transaction body v) = Inl e"
      "committed (snd (with_transaction body v)) = committed v"
      "vault_idle v \<Longrightarrow> vault_idle (snd (with_transaction body v))"
  | (failed) e where "authority_ok v" "fst (body (txn_start True v)) = Inl e"
      "with_transaction body v = (Inl e, do_rollback (snd (body (txn_start True v))))"
  | (lost) x where "authority_ok v" "fst (body (txn_start True v)) = Inr x" "commit_fails v"
      "fst (with_transaction body v) = Inl commit_failed"
      "committed (snd (with_transaction body v)) = committed v"
      "vault_idle (snd (with_transaction body v))"
  | (committed) x where "authority_ok v" "fst (body (txn_start True v)) = Inr x" "\<not> commit_fails v"
      "with_transaction body v =
         (Inr x, (snd (body (txn_start True v)))\<lparr>txn_active := False,
                   committed := working (snd (body (txn_start True v)))\<rparr>)"
proof (cases "authority_ok v")
  case False
  have "\<exists>e. fst (with_transaction body v) = Inl e"
    "committed (snd (with_transaction body v)) = committed v"
    "vault_idle v \<Longrightarrow> vault_idle (snd (with_transaction body v))"
    using False
    by (auto simp: authority_ok_def with_transaction_def bindV_def require_trusted_connection_def
        run_transaction_def verify_writer_ownership_def do_rollback_def vault_idle_def Let_def)
  then show thesis using refused False by blast
next
  case True
  obtain db m where fr: "snd (body (txn_start True v)) = with_view db m (txn_start True v)"
    using assms by (rule body_okE)
  have ok: "with_transaction body v =
      (case body (txn_start True v) of (Inl e, v3) \<Rightarrow> (Inl e, do_rollback v3) | (Inr x, v3) \<Rightarrow> do_commit x v3)"
    using True
    by (auto simp: authority_ok_def with_transaction_def bindV_def require_trusted_connection_def
        run_transaction_def verify_writer_ownership_def txn_start_def Let_def)
  show thesis
  proof (cases "body (txn_start True v)")
    case (Pair r v3)
    have v3: "v3 = with_view db m (txn_start True v)" using Pair fr by simp
    show thesis
    proof (cases r)
      case (Inl e)
      then show thesis using failed [of e] True ok Pair by simp
    next
      case (Inr x)
      show thesis
      proof (cases "commit_fails v")
        case True
        then show thesis using lost [of x] \<open>authority_ok v\<close> ok Pair Inr v3
          by (simp add: do_commit_def txn_start_def vault_idle_def)
      next
        case False
        then show thesis using committed [of x] True ok Pair Inr v3
          by (simp add: do_commit_def txn_start_def)
      qed
    qed
  qed
qed

lemma with_transaction_success:
  assumes "body_ok body" and "with_transaction body v = (Inr x, w)"
  shows "authority_ok v" and "fst (body (txn_start True v)) = Inr x"
    and "committed w = working (snd (body (txn_start True v)))"
    and "working w = committed w" and "vault_idle w" and "poisoned w = None"
    and "writer_token w = writer_token v" and "read_only w = read_only v" and "closed w = closed v"
proof -
  obtain db m where fr: "snd (body (txn_start True v)) = with_view db m (txn_start True v)"
    using assms(1) by (rule body_okE)
  have "authority_ok v \<and> fst (body (txn_start True v)) = Inr x \<and> \<not> commit_fails v \<and>
    w = (snd (body (txn_start True v)))\<lparr>txn_active := False, committed := working (snd (body (txn_start True v)))\<rparr>"
    using assms(2) by (cases rule: with_transaction_cases [OF assms(1), of v]) auto
  then show "authority_ok v" and "fst (body (txn_start True v)) = Inr x"
    and "committed w = working (snd (body (txn_start True v)))"
    and "working w = committed w" and "vault_idle w" and "poisoned w = None"
    and "writer_token w = writer_token v" and "read_only w = read_only v" and "closed w = closed v"
    using fr by (auto simp: vault_idle_def txn_start_def authority_ok_def)
qed

lemma with_transaction_final:
  assumes "body_ok body" and "with_transaction body v = (Inr x, w)"
  shows "w = (snd (body (txn_start True v)))\<lparr>txn_active := False,
      committed := working (snd (body (txn_start True v)))\<rparr>"
  using assms(2) by (cases rule: with_transaction_cases [OF assms(1), of v]) auto

lemma with_transaction_failure:
  assumes "body_ok body" and "with_transaction body v = (Inl e, w)"
  shows "committed w = committed v" and "vault_idle v \<Longrightarrow> vault_idle w"
proof -
  obtain db m where fr: "snd (body (txn_start True v)) = with_view db m (txn_start True v)"
    using assms(1) by (rule body_okE)
  have "committed w = committed v \<and> (vault_idle v \<longrightarrow> vault_idle w)"
    using assms(2)
  proof (cases rule: with_transaction_cases [OF assms(1), of v, case_names refused failed lost committed])
    case (failed e')
    then show ?thesis using assms(2) fr
      by (auto simp: do_rollback_def txn_start_def vault_idle_def split: if_splits)
  qed auto
  then show "committed w = committed v" and "vault_idle v \<Longrightarrow> vault_idle w" by auto
qed

text \<open>A unit whose body succeeds runs to its commit on a healthy connection that holds the lease.\<close>

definition healthy :: "'x vault_scheme \<Rightarrow> bool" where
  "healthy v \<longleftrightarrow> authority_ok v \<and> vault_idle v \<and> \<not> commit_fails v \<and> \<not> rollback_fails v"

lemma with_transaction_healthy:
  assumes "body_ok body" and "healthy v" and "body (txn_start True v) = (Inr x, u)"
  shows "with_transaction body v = (Inr x, u\<lparr>txn_active := False, committed := working u\<rparr>)"
  using assms by (cases rule: with_transaction_cases [OF assms(1), of v]) (auto simp: healthy_def)

lemma with_transaction_healthy_failure:
  assumes "body_ok body" and "healthy v" and "body (txn_start True v) = (Inl e, u)"
  shows "with_transaction body v = (Inl e, do_rollback u)"
  using assms by (cases rule: with_transaction_cases [OF assms(1), of v]) (auto simp: healthy_def)

text \<open>
  C27. A vault transaction is atomic: whatever the body does to the view, a unit that reports an
  error (refused, failed body, failed commit) leaves the committed database untouched, and a unit
  that reports success was authorized and commits exactly the view its body built.
\<close>

theorem transaction_atomic:
  assumes "body_ok body" and "with_transaction body v = (r, w)"
  shows "(case r of
      Inl e \<Rightarrow> committed w = committed v
    | Inr x \<Rightarrow> authority_ok v \<and> fst (body (txn_start True v)) = Inr x
        \<and> committed w = working (snd (body (txn_start True v))) \<and> working w = committed w)"
  using with_transaction_failure(1) [OF assms(1)] with_transaction_success [OF assms(1)] assms(2)
  by (cases r) auto

definition transaction_sample :: vault where
  "transaction_sample =
     (let db = \<lparr>writer_authority = Some ''run-1'', acquire_tick = 1, operations_tbl = [], publication_tbl = [],
        mapping_domains_tbl = [], tables_tbl = [], fields_tbl = [], text_mappings_tbl = [],
        numeric_key_mappings_tbl = [], memo_recovery_tbl = [], temporal_parameters_tbl = []\<rparr>
      in \<lparr>committed = db, working = db, txn_active = False, txn_authorized = False,
          read_only = False, writer_token = Some ''run-1'', poisoned = None, closed = False,
          begin_fails = False, commit_fails = False, rollback_fails = False\<rparr>)"

definition tick_then_fail :: "(unit, 'x) vm" where
  "tick_then_fail v = (Inl ValueError, v\<lparr>working := (working v)\<lparr>acquire_tick := 7\<rparr>\<rparr>)"

theorem transaction_atomic_witness:
  "committed (snd (with_transaction tick_then_fail transaction_sample)) = committed transaction_sample
   \<and> acquire_tick (working (snd (tick_then_fail (txn_start True transaction_sample)))) = 7"
proof -
  have ok: "body_ok tick_then_fail" by (simp add: body_ok_def tick_then_fail_def)
  have "fst (with_transaction tick_then_fail transaction_sample) = Inl ValueError" by code_simp
  then have "with_transaction tick_then_fail transaction_sample
      = (Inl ValueError, snd (with_transaction tick_then_fail transaction_sample))" by (metis prod.collapse)
  from transaction_atomic [OF ok this] show ?thesis by (simp add: tick_then_fail_def)
qed

text \<open>
  One writer at a time. After one connection acquires the writer lease, another connection to
  the same database whose own token differs cannot acquire it and cannot run an authorized unit:
  every attempt is refused with a writer conflict, and the database is unchanged.
\<close>

theorem single_writer:
  assumes "acquire_writer_lease a v = (Inr tick, v')" and "validate_token b = Inr b"
    and "committed u = committed v'" and "working u = committed u" and "writer_token u \<noteq> Some a"
    and "\<not> closed u" and "poisoned u = None" and "\<not> txn_active u" and "\<not> begin_fails u" and "\<not> rollback_fails u"
  shows "writer_authority (committed v') = Some a
    \<and> (\<exists>d w. acquire_writer_lease b u = (Inl (VaultError VAULT_WRITER_CONFLICT d), w) \<and> committed w = committed u)
    \<and> (\<exists>d w. with_transaction body u = (Inl (VaultError VAULT_WRITER_CONFLICT d), w) \<and> committed w = committed u)"
proof -
  have auth: "writer_authority (committed v') = Some a"
    using assms(1)
    by (auto simp: acquire_writer_lease_def with_system_transaction_def require_trusted_connection_def
        run_transaction_def do_commit_def do_rollback_def Let_def bindV_def split: if_splits sum.splits prod.splits)
  have acq: "\<exists>d w. acquire_writer_lease b u = (Inl (VaultError VAULT_WRITER_CONFLICT d), w) \<and> committed w = committed u"
    using assms(2-) auth
    by (auto simp: acquire_writer_lease_def with_system_transaction_def require_trusted_connection_def
        run_transaction_def do_rollback_def Let_def bindV_def)
  have "\<exists>d w. with_transaction body u = (Inl (VaultError VAULT_WRITER_CONFLICT d), w) \<and> committed w = committed u"
    using assms(3-) auth
    by (auto simp: with_transaction_def require_trusted_connection_def lease_required_def
        run_transaction_def verify_writer_ownership_def do_rollback_def Let_def bindV_def)
  then show ?thesis using auth acq by blast
qed

definition released_sample :: vault where
  "released_sample = transaction_sample\<lparr>writer_token := None,
     committed := (committed transaction_sample)\<lparr>writer_authority := None\<rparr>\<rparr>"

theorem single_writer_witness:
  "\<exists>d w. acquire_writer_lease ''run-2'' (snd (acquire_writer_lease ''run-1'' released_sample)\<lparr>writer_token := None\<rparr>)
     = (Inl (VaultError VAULT_WRITER_CONFLICT d), w)"
proof -
  let ?v = "snd (acquire_writer_lease ''run-1'' released_sample)"
  have "fst (acquire_writer_lease ''run-1'' released_sample) = Inr 2" by code_simp
  then have acq: "acquire_writer_lease ''run-1'' released_sample = (Inr 2, ?v)" by (metis prod.collapse)
  have tok: "validate_token ''run-2'' = Inr ''run-2''" by code_simp
  have flags: "working ?v = committed ?v" "\<not> closed ?v" "poisoned ?v = None" "\<not> txn_active ?v"
    "\<not> begin_fails ?v" "\<not> rollback_fails ?v" by code_simp+
  show ?thesis
    using single_writer [OF acq tok, of "?v\<lparr>writer_token := None\<rparr>" "retV ()"] flags by auto
qed

end
