(* ===== verification/Py_Values.thy ===== *)
theory Py_Values
  imports Anon_Prelude
begin

text \<open>
  The logical value vocabulary of a DBF record as the Direct Read boundary delivers it: the
  Python objects the transformation code dispatches on with \<open>isinstance\<close>, and Python's
  proleptic Gregorian calendar (\<open>datetime.date.toordinal\<close> / \<open>fromordinal\<close>).
\<close>

section \<open>Calendar dates\<close>

datatype pydate = PyDate (year: int) (month: int) (day: int)

text \<open>Hour, minute, second, microsecond, and the opaque \<open>tzinfo\<close>/\<open>fold\<close> part.\<close>

datatype daytime = DayTime int int int int nat

definition is_leap :: "int \<Rightarrow> bool" where
  "is_leap y \<longleftrightarrow> y mod 4 = 0 \<and> (y mod 100 \<noteq> 0 \<or> y mod 400 = 0)"

definition days_before_year :: "int \<Rightarrow> int" where
  "days_before_year y = (y - 1) * 365 + (y - 1) div 4 - (y - 1) div 100 + (y - 1) div 400"

definition month_table :: "int list" where
  "month_table = [0, 31, 59, 90, 120, 151, 181, 212, 243, 273, 304, 334, 365]"

definition days_before_month :: "bool \<Rightarrow> int \<Rightarrow> int" where
  "days_before_month leap m = month_table ! nat (m - 1) + (if m > 2 \<and> leap then 1 else 0)"

definition days_in_month :: "bool \<Rightarrow> int \<Rightarrow> int" where
  "days_in_month leap m = (if m = 2 \<and> leap then 29 else month_table ! nat m - month_table ! nat (m - 1))"

fun valid_date :: "pydate \<Rightarrow> bool" where
  "valid_date (PyDate y m d) \<longleftrightarrow>
     1 \<le> y \<and> y \<le> 9999 \<and> 1 \<le> m \<and> m \<le> 12 \<and> 1 \<le> d \<and> d \<le> days_in_month (is_leap y) m"

fun toordinal :: "pydate \<Rightarrow> int" where
  "toordinal (PyDate y m d) = days_before_year y + days_before_month (is_leap y) m + d"

definition fromordinal :: "int \<Rightarrow> pydate" where
  "fromordinal n0 =
     (let n = n0 - 1;
          n400 = n div 146097; n = n mod 146097;
          n100 = n div 36524; n = n mod 36524;
          n4 = n div 1461; n = n mod 1461;
          n1 = n div 365; n = n mod 365;
          y = n400 * 400 + 1 + n100 * 100 + n4 * 4 + n1
      in if n1 = 4 \<or> n100 = 4 then PyDate (y - 1) 12 31
         else
           let leap = (n1 = 3 \<and> (n4 \<noteq> 24 \<or> n100 = 3));
               m = (n + 50) div 32;
               preceding = days_before_month leap m
           in if preceding > n
              then PyDate y (m - 1) (n - (preceding - days_in_month leap (m - 1)) + 1)
              else PyDate y m (n - preceding + 1))"

section \<open>Logical values\<close>

text \<open>\<open>VOther\<close> stands for every object outside the vocabulary (floats, decimals, memory views).\<close>

datatype pyval =
    VNone
  | VBool bool
  | VInt int
  | VStr pystr
  | VBytes bytes
  | VByteArray bytes
  | VDate pydate
  | VDateTime pydate daytime
  | VOther nat

section \<open>The calendar round trip\<close>

lemma days_before_year_cycles:
  assumes "0 \<le> a" "0 \<le> b" "b \<le> 3" "0 \<le> c" "c \<le> 24" "0 \<le> d" "d \<le> 3"
  shows "days_before_year (400 * a + 100 * b + 4 * c + d + 1)
    = 146097 * a + 36524 * b + 1461 * c + 365 * d"
proof -
  have "(400 * a + 100 * b + 4 * c + d) div 4 = 100 * a + 25 * b + c"
    using assms by linarith
  moreover have "(400 * a + 100 * b + 4 * c + d) div 100 = 4 * a + b"
    using assms by linarith
  moreover have "(400 * a + 100 * b + 4 * c + d) div 400 = a"
    using assms by linarith
  ultimately show ?thesis by (simp add: days_before_year_def)
qed

lemma is_leap_cycles:
  assumes "0 \<le> a" "0 \<le> b" "b \<le> 3" "0 \<le> c" "c \<le> 24" "0 \<le> d" "d \<le> 3"
  shows "is_leap (400 * a + 100 * b + 4 * c + d + 1) \<longleftrightarrow> d = 3 \<and> (c \<noteq> 24 \<or> b = 3)"
proof -
  let ?y = "400 * a + 100 * b + 4 * c + d + 1"
  have "?y = (d + 1) + 4 * (100 * a + 25 * b + c)" by simp
  then have m4: "?y mod 4 = (if d = 3 then 0 else d + 1)"
    using assms by (simp only: mod_mult_self2) auto
  have "?y = (4 * c + d + 1) + 100 * (4 * a + b)" by simp
  then have m100: "?y mod 100 = (4 * c + d + 1) mod 100" by (simp only: mod_mult_self2)
  have "?y = (100 * b + 4 * c + d + 1) + 400 * a" by simp
  then have m400: "?y mod 400 = (100 * b + 4 * c + d + 1) mod 400" by (simp only: mod_mult_self2)
  show ?thesis
  proof (cases "c = 24 \<and> d = 3")
    case True
    moreover have "b = 0 \<or> b = 1 \<or> b = 2 \<or> b = 3" using assms by linarith
    ultimately show ?thesis using m4 m100 m400 by (auto simp: is_leap_def)
  next
    case False
    then have "4 * c + d + 1 < 100" using assms by linarith
    then have "(4 * c + d + 1) mod 100 = 4 * c + d + 1" using assms by simp
    then show ?thesis using False assms m4 m100 by (auto simp: is_leap_def)
  qed
qed

text \<open>
  The month arithmetic of \<open>fromordinal\<close> inside one year, checked for each of the at most 366
  day numbers.
\<close>

definition month_day :: "bool \<Rightarrow> int \<Rightarrow> int \<times> int" where
  "month_day leap n =
     (let m = (n + 50) div 32; preceding = days_before_month leap m
      in if preceding > n
         then (m - 1, n - (preceding - days_in_month leap (m - 1)) + 1)
         else (m, n - preceding + 1))"

definition month_day_ok :: "bool \<Rightarrow> int \<Rightarrow> bool" where
  "month_day_ok leap n \<longleftrightarrow>
     (let md = month_day leap n
      in 1 \<le> fst md \<and> fst md \<le> 12 \<and> 1 \<le> snd md \<and> snd md \<le> days_in_month leap (fst md)
         \<and> days_before_month leap (fst md) + snd md = n + 1)"

lemma month_day_ok_table:
  "list_all (month_day_ok False) [0..364]" "list_all (month_day_ok True) [0..365]"
  by code_simp+

lemma month_day_ok: "0 \<le> n \<Longrightarrow> n < 365 + (if leap then 1 else 0) \<Longrightarrow> month_day_ok leap n"
  using month_day_ok_table by (cases leap) (auto simp: list_all_iff)


definition ordinal_parts :: "int \<Rightarrow> int \<Rightarrow> int \<Rightarrow> int \<Rightarrow> int \<Rightarrow> int" where
  "ordinal_parts a b c d n = 146097 * a + 36524 * b + 1461 * c + 365 * d + n"

text \<open>A day number splits into 400-, 100-, 4- and 1-year cycles in one of three ways.\<close>

lemma fromordinal_split:
  assumes "1 \<le> n0"
  obtains
    (century) a where "0 \<le> a" "n0 = 146097 * a + 146097" "fromordinal n0 = PyDate (400 * a + 400) 12 31"
  | (leap_end) a b c where "0 \<le> a" "0 \<le> b" "b \<le> 3" "0 \<le> c" "c \<le> 23"
      "n0 = ordinal_parts a b c 3 366" "fromordinal n0 = PyDate (400 * a + 100 * b + 4 * c + 4) 12 31"
  | (inside) a b c d n where "0 \<le> a" "0 \<le> b" "b \<le> 3" "0 \<le> c" "c \<le> 24" "0 \<le> d" "d \<le> 3"
      "0 \<le> n" "n < 365" "n0 = ordinal_parts a b c d (n + 1)"
      "fromordinal n0 = PyDate (400 * a + 100 * b + 4 * c + d + 1)
         (fst (month_day (d = 3 \<and> (c \<noteq> 24 \<or> b = 3)) n)) (snd (month_day (d = 3 \<and> (c \<noteq> 24 \<or> b = 3)) n))"
proof -
  define a r where "a = (n0 - 1) div 146097" and "r = (n0 - 1) mod 146097"
  define b r1 where "b = r div 36524" and "r1 = r mod 36524"
  define c r2 where "c = r1 div 1461" and "r2 = r1 mod 1461"
  define d n where "d = r2 div 365" and "n = r2 mod 365"
  have a: "0 \<le> a" using assms by (simp add: a_def pos_imp_zdiv_nonneg_iff)
  have r: "n0 - 1 = 146097 * a + r" "0 \<le> r" "r < 146097" by (simp_all add: a_def r_def)
  have b: "r = 36524 * b + r1" "0 \<le> r1" "r1 < 36524" by (simp_all add: b_def r1_def)
  have c: "r1 = 1461 * c + r2" "0 \<le> r2" "r2 < 1461" by (simp_all add: c_def r2_def)
  have d: "r2 = 365 * d + n" "0 \<le> n" "n < 365" by (simp_all add: d_def n_def)
  have bnds: "0 \<le> b" "b \<le> 4" "0 \<le> c" "c \<le> 24" "0 \<le> d" "d \<le> 4" using r b c d by linarith+
  have eq: "fromordinal n0 =
      (if d = 4 \<or> b = 4 then PyDate (a * 400 + 1 + b * 100 + c * 4 + d - 1) 12 31
       else PyDate (a * 400 + 1 + b * 100 + c * 4 + d)
         (fst (month_day (d = 3 \<and> (c \<noteq> 24 \<or> b = 3)) n)) (snd (month_day (d = 3 \<and> (c \<noteq> 24 \<or> b = 3)) n)))"
    unfolding fromordinal_def Let_def a_def [symmetric] r_def [symmetric] b_def [symmetric]
      r1_def [symmetric] c_def [symmetric] r2_def [symmetric] d_def [symmetric] n_def [symmetric]
    by (simp add: month_day_def Let_def)
  consider "b = 4" | "b \<le> 3" "d = 4" | "b \<le> 3" "d \<le> 3" using bnds by linarith
  then show thesis
  proof cases
    case 1
    then have "r1 = 0" "c = 0" "d = 0" using r b c d bnds by linarith+
    then show thesis using century [of a] eq 1 a r b by simp
  next
    case 2
    then have "n = 0" "c \<le> 23" using r b c d bnds by linarith+
    then show thesis using leap_end [of a b c] eq 2 a r b c d bnds
      by (simp add: ordinal_parts_def algebra_simps)
  next
    case 3
    then show thesis using inside [of a b c d n] eq a r b c d bnds
      by (simp add: ordinal_parts_def algebra_simps)
  qed
qed

lemma toordinal_fromordinal_valid:
  assumes "1 \<le> n0"
  shows "toordinal (fromordinal n0) = n0 \<and> 1 \<le> month (fromordinal n0) \<and> month (fromordinal n0) \<le> 12
    \<and> 1 \<le> day (fromordinal n0) \<and> 1 \<le> year (fromordinal n0)
    \<and> day (fromordinal n0) \<le> days_in_month (is_leap (year (fromordinal n0))) (month (fromordinal n0))"
  using assms
proof (cases rule: fromordinal_split)
  case (century a)
  have "is_leap (400 * a + 400)" "days_before_year (400 * a + 400) = 146097 * a + 145731"
    using is_leap_cycles [of a 3 24 3] days_before_year_cycles [of a 3 24 3] century
    by (simp_all add: add.commute)
  then show ?thesis using century
    by (simp add: days_before_month_def days_in_month_def month_table_def)
next
  case (leap_end a b c)
  have "is_leap (400 * a + 100 * b + 4 * c + 4)"
    "days_before_year (400 * a + 100 * b + 4 * c + 4) = 146097 * a + 36524 * b + 1461 * c + 1095"
    using is_leap_cycles [of a b c 3] days_before_year_cycles [of a b c 3] leap_end
    by (simp_all add: ac_simps)
  then show ?thesis using leap_end
    by (simp add: ordinal_parts_def days_before_month_def days_in_month_def month_table_def)
next
  case (inside a b c d n)
  let ?leap = "d = 3 \<and> (c \<noteq> 24 \<or> b = 3)"
  have "month_day_ok ?leap n" using inside by (intro month_day_ok) auto
  moreover have "is_leap (400 * a + 100 * b + 4 * c + d + 1) = ?leap"
    "days_before_year (400 * a + 100 * b + 4 * c + d + 1)
      = 146097 * a + 36524 * b + 1461 * c + 365 * d"
    using is_leap_cycles [of a b c d] days_before_year_cycles [of a b c d] inside by simp_all
  ultimately show ?thesis using inside
    by (simp add: ordinal_parts_def month_day_ok_def Let_def)
qed


lemma div_pred_step:
  fixes y k :: int
  assumes "0 < k"
  shows "y div k = (y - 1) div k + (if y mod k = 0 then 1 else 0)"
proof -
  have y: "y = k * (y div k) + y mod k" by simp
  show ?thesis
  proof (cases "y mod k = 0")
    case True
    then have "y - 1 = (k - 1) + k * (y div k - 1)" using y by (simp add: algebra_simps)
    then have "(y - 1) div k = ((k - 1) + k * (y div k - 1)) div k" by (rule arg_cong)
    also have "\<dots> = (y div k - 1) + (k - 1) div k"
      using assms by (intro div_mult_self2) simp
    finally show ?thesis using True assms by simp
  next
    case False
    then have r: "0 \<le> y mod k - 1" "y mod k - 1 < k"
      using assms pos_mod_sign [of k y] pos_mod_bound [of k y] by linarith+
    have "y - 1 = (y mod k - 1) + k * (y div k)" using y by simp
    then have "(y - 1) div k = ((y mod k - 1) + k * (y div k)) div k" by (rule arg_cong)
    also have "\<dots> = y div k + (y mod k - 1) div k"
      using assms by (intro div_mult_self2) simp
    finally show ?thesis using False r by simp
  qed
qed

lemma leap_indicator:
  assumes "R \<Longrightarrow> Q" "Q \<Longrightarrow> P"
  shows "(if P then 1 else 0::int) - (if Q then 1 else 0) + (if R then 1 else 0)
    = (if P \<and> (\<not> Q \<or> R) then 1 else 0)"
  using assms by (cases P; cases Q; cases R) simp_all

lemma days_before_year_Suc:
  "days_before_year (y + 1) = days_before_year y + 365 + (if is_leap y then 1 else 0)"
proof -
  have imp: "y mod 400 = 0 \<Longrightarrow> y mod 100 = 0" "y mod 100 = 0 \<Longrightarrow> y mod 4 = 0"
    by (auto simp: mod_eq_0_iff_dvd elim: dvd_trans [rotated])
  define p4 p100 p400 where "p4 = (if y mod 4 = 0 then 1 else 0::int)"
    and "p100 = (if y mod 100 = 0 then 1 else 0::int)"
    and "p400 = (if y mod 400 = 0 then 1 else 0::int)"
  have steps: "y div 4 = (y - 1) div 4 + p4" "y div 100 = (y - 1) div 100 + p100"
    "y div 400 = (y - 1) div 400 + p400"
    unfolding p4_def p100_def p400_def by (rule div_pred_step, simp)+
  from leap_indicator [OF imp] have "p4 - p100 + p400 = (if is_leap y then 1 else 0)"
    unfolding p4_def p100_def p400_def is_leap_def .
  moreover have "days_before_year (y + 1) = days_before_year y + 365 + (p4 - p100 + p400)"
  proof -
    have "days_before_year (y + 1) = y * 365 + y div 4 - y div 100 + y div 400"
      by (simp add: days_before_year_def)
    moreover have "y * 365 + (a + p4) - (b + p100) + (c + p400)
        = (y - 1) * 365 + a - b + c + 365 + (p4 - p100 + p400)" for a b c :: int by simp
    ultimately show ?thesis unfolding steps days_before_year_def by metis
  qed
  ultimately show ?thesis by simp
qed

lemma days_before_year_mono: "y \<le> z \<Longrightarrow> days_before_year y \<le> days_before_year z"
proof (induction z rule: int_ge_induct)
  case base
  then show ?case by simp
next
  case (step z)
  then show ?case using days_before_year_Suc [of z] by simp
qed

definition month_table_ok :: "bool \<Rightarrow> bool" where
  "month_table_ok leap \<longleftrightarrow>
     list_all (\<lambda>m. 0 \<le> days_before_month leap m
       \<and> days_before_month leap m + days_in_month leap m \<le> 365 + (if leap then 1 else 0)
       \<and> list_all (\<lambda>m'. days_before_month leap m + days_in_month leap m \<le> days_before_month leap m')
           [m + 1..12]) [1..12]"

lemma month_table_ok: "month_table_ok leap"
proof -
  have "month_table_ok False" "month_table_ok True" by code_simp+
  then show ?thesis by (cases leap) auto
qed

lemma month_bounds:
  assumes "1 \<le> m" "m \<le> 12"
  shows "0 \<le> days_before_month leap m"
    "days_before_month leap m + days_in_month leap m \<le> 365 + (if leap then 1 else 0)"
    "m < m' \<Longrightarrow> m' \<le> 12 \<Longrightarrow> days_before_month leap m + days_in_month leap m \<le> days_before_month leap m'"
  using month_table_ok [of leap] assms by (auto simp: month_table_ok_def list_all_iff)

lemma toordinal_year:
  assumes "valid_date (PyDate y m d)"
  shows "days_before_year y < toordinal (PyDate y m d)"
    "toordinal (PyDate y m d) \<le> days_before_year (y + 1)"
  using assms month_bounds(1,2) [of m "is_leap y"] by (auto simp: days_before_year_Suc)

lemma toordinal_inj:
  assumes "valid_date d1" "valid_date d2" "toordinal d1 = toordinal d2"
  shows "d1 = d2"
proof -
  obtain y m d where 1: "d1 = PyDate y m d" by (cases d1)
  obtain y' m' d' where 2: "d2 = PyDate y' m' d'" by (cases d2)
  have y: "y = y'"
  proof (rule linorder_cases [of y y'])
    assume "y < y'"
    then show ?thesis
      using toordinal_year [of y m d] toordinal_year [of y' m' d'] assms 1 2
        days_before_year_mono [of "y + 1" y'] by auto
  next
    assume "y' < y"
    then show ?thesis
      using toordinal_year [of y m d] toordinal_year [of y' m' d'] assms 1 2
        days_before_year_mono [of "y' + 1" y] by auto
  qed simp
  have m: "m = m'"
  proof (rule linorder_cases [of m m'])
    assume "m < m'"
    then show ?thesis using month_bounds(3) [of m m' "is_leap y"] assms 1 2 y by auto
  next
    assume "m' < m"
    then show ?thesis using month_bounds(3) [of m' m "is_leap y"] assms 1 2 y by auto
  qed simp
  show ?thesis using assms 1 2 y m by simp
qed

lemma valid_fromordinal:
  assumes "1 \<le> n" "n \<le> 3652059"
  shows "valid_date (fromordinal n)" and "toordinal (fromordinal n) = n"
proof -
  obtain y m d where f: "fromordinal n = PyDate y m d" by (cases "fromordinal n")
  have v: "toordinal (PyDate y m d) = n" "1 \<le> m" "m \<le> 12" "1 \<le> d" "1 \<le> y"
    "d \<le> days_in_month (is_leap y) m"
    using toordinal_fromordinal_valid [OF assms(1)] f by auto
  have "y \<le> 9999"
  proof (rule ccontr)
    assume "\<not> y \<le> 9999"
    then have "days_before_year 10000 \<le> days_before_year y" by (intro days_before_year_mono) simp
    moreover have "days_before_year 10000 = 3652059" by (simp add: days_before_year_def)
    ultimately show False using v assms month_bounds(1) [of m "is_leap y"] by simp
  qed
  then show "valid_date (fromordinal n)" using v f by simp
  show "toordinal (fromordinal n) = n" using v f by simp
qed

lemma toordinal_bounds:
  assumes "valid_date d"
  shows "1 \<le> toordinal d \<and> toordinal d \<le> 3652059"
proof -
  obtain y m k where d: "d = PyDate y m k" by (cases d)
  have "days_before_year 1 \<le> days_before_year y" "days_before_year (y + 1) \<le> days_before_year 10000"
    using assms d by (auto intro: days_before_year_mono)
  moreover have "days_before_year 10000 = 3652059" "days_before_year 1 = 0"
    by (simp_all add: days_before_year_def)
  ultimately show ?thesis using toordinal_year [of y m k] assms d by auto
qed

lemma fromordinal_toordinal: "valid_date d \<Longrightarrow> fromordinal (toordinal d) = d"
  using valid_fromordinal [of "toordinal d"] toordinal_bounds toordinal_inj by blast

end
