(* ===== verification/Numeric_Keys.thy ===== *)
theory Numeric_Keys
  imports Py_Values
begin

text \<open>
  The numeric key-domain kernels of \<^verbatim>\<open>src/src/dbf_anonymizer/transforms/numeric_keys.py\<close>:
  canonical integer text, representable ranges, the exact free-token arithmetic and the
  feasibility test of the residual allocation problem.
\<close>

section \<open>Canonical integer text\<close>

text \<open>\<open>str(n)\<close> of a non-negative Python integer: decimal digits, most significant first.\<close>

fun nat_text :: "nat \<Rightarrow> pystr" where
  "nat_text n = (if n < 10 then [48 + n] else nat_text (n div 10) @ [48 + n mod 10])"

declare nat_text.simps [simp del]

definition int_text :: "int \<Rightarrow> pystr" where
  "int_text i = (if i < 0 then 45 # nat_text (nat (- i)) else nat_text (nat i))"

fun canonical_integer_text :: "pyval \<Rightarrow> pystr result" where
  "canonical_integer_text (VInt i) = Inr (int_text i)"
| "canonical_integer_text _ = Inl TypeError"

definition is_digit :: "nat \<Rightarrow> bool" where "is_digit c \<longleftrightarrow> 48 \<le> c \<and> c \<le> 57"

text \<open>The pattern \<^verbatim>\<open>\A(?:0|-?[1-9][0-9]*)\Z\<close>.\<close>

fun positive_canonical :: "pystr \<Rightarrow> bool" where
  "positive_canonical [] = False"
| "positive_canonical (c # cs) = (49 \<le> c \<and> c \<le> 57 \<and> list_all is_digit cs)"

definition canonical_integer_match :: "pystr \<Rightarrow> bool" where
  "canonical_integer_match t =
     (t = [48] \<or> (case t of [] \<Rightarrow> False | c # cs \<Rightarrow> if c = 45 then positive_canonical cs
        else positive_canonical t))"

definition digits_value :: "pystr \<Rightarrow> int" where
  "digits_value t = foldl (\<lambda>v c. v * 10 + int (c - 48)) 0 t"

text \<open>\<open>int(text)\<close> of a text that matches the pattern.\<close>

definition int_of_text :: "pystr \<Rightarrow> int" where
  "int_of_text t = (case t of [] \<Rightarrow> 0 | c # cs \<Rightarrow> if c = 45 then - digits_value cs else digits_value t)"

fun parse_canonical_integer_text :: "pyval \<Rightarrow> int result" where
  "parse_canonical_integer_text (VStr t) =
     (if \<not> canonical_integer_match t then Inl ValueError else Inr (int_of_text t))"
| "parse_canonical_integer_text _ = Inl TypeError"

section \<open>Ranges\<close>

definition INTEGER_KEY_ORIGINAL_LOW :: int where "INTEGER_KEY_ORIGINAL_LOW = - (2 ^ 31)"
definition INTEGER_KEY_ORIGINAL_HIGH :: int where "INTEGER_KEY_ORIGINAL_HIGH = 2 ^ 31 - 1"
definition INTEGER_KEY_WRITABLE_LOW :: int where "INTEGER_KEY_WRITABLE_LOW = INTEGER_KEY_ORIGINAL_LOW + 1"
definition INTEGER_KEY_WRITABLE_HIGH :: int where "INTEGER_KEY_WRITABLE_HIGH = INTEGER_KEY_ORIGINAL_HIGH - 1"
definition NUMERIC_KEY_MAX_WIDTH :: int where "NUMERIC_KEY_MAX_WIDTH = 20"

definition integral_numeric_range :: "int \<Rightarrow> (int \<times> int) result" where
  "integral_numeric_range width =
     (if \<not> (1 \<le> width \<and> width \<le> NUMERIC_KEY_MAX_WIDTH) then Inl ValueError
      else Inr (- (10 ^ nat (width - 1) - 1), 10 ^ nat width - 1))"

definition intersect_ranges :: "(int \<times> int) list \<Rightarrow> (int \<times> int) option" where
  "intersect_ranges ranges =
     (case ranges of
        [] \<Rightarrow> None
      | r # rs \<Rightarrow>
          let low = foldl (\<lambda>m q. max m (fst q)) (fst r) rs;
              high = foldl (\<lambda>m q. min m (snd q)) (snd r) rs
          in if low > high then None else Some (low, high))"

record numeric_key_member_range =
  original_low :: int
  original_high :: int
  pseudonym_low :: int
  pseudonym_high :: int
  readable_low :: "int option"
  readable_high :: "int option"

definition readable_range :: "numeric_key_member_range \<Rightarrow> int \<times> int" where
  "readable_range m =
     (case readable_low m of None \<Rightarrow> original_low m | Some l \<Rightarrow> l,
      case readable_high m of None \<Rightarrow> original_high m | Some h \<Rightarrow> h)"

definition contains_original :: "numeric_key_member_range \<Rightarrow> int \<Rightarrow> bool" where
  "contains_original m value \<longleftrightarrow> original_low m \<le> value \<and> value \<le> original_high m"

definition contains_readable :: "numeric_key_member_range \<Rightarrow> int \<Rightarrow> bool" where
  "contains_readable m value \<longleftrightarrow> (let (low, high) = readable_range m in low \<le> value \<and> value \<le> high)"

record numeric_key_domain =
  dom_low :: int
  dom_high :: int
  members :: "numeric_key_member_range list"

definition domain_size :: "numeric_key_domain \<Rightarrow> int" where
  "domain_size d = dom_high d - dom_low d + 1"

definition contains_pseudonym :: "numeric_key_domain \<Rightarrow> int \<Rightarrow> bool" where
  "contains_pseudonym d value \<longleftrightarrow> dom_low d \<le> value \<and> value \<le> dom_high d"

definition member_original_ranges :: "numeric_key_domain \<Rightarrow> (int \<times> int) list" where
  "member_original_ranges d = map (\<lambda>m. (original_low m, original_high m)) (members d)"

definition integer_member :: numeric_key_member_range where
  "integer_member =
     \<lparr>original_low = INTEGER_KEY_WRITABLE_LOW, original_high = INTEGER_KEY_WRITABLE_HIGH,
      pseudonym_low = INTEGER_KEY_WRITABLE_LOW, pseudonym_high = INTEGER_KEY_WRITABLE_HIGH,
      readable_low = Some INTEGER_KEY_ORIGINAL_LOW, readable_high = Some INTEGER_KEY_ORIGINAL_HIGH\<rparr>"

definition integral_numeric_member :: "int \<Rightarrow> numeric_key_member_range result" where
  "integral_numeric_member width =
     bindE (integral_numeric_range width) (\<lambda>(low, high).
       Inr \<lparr>original_low = low, original_high = high, pseudonym_low = low, pseudonym_high = high,
            readable_low = Some low, readable_high = Some high\<rparr>)"

datatype member_verdict = REVERSIBLE | RECOVERY_UNWRITABLE | OUT_OF_MEMBER_RANGE

definition classify_member_original :: "numeric_key_member_range \<Rightarrow> int \<Rightarrow> member_verdict" where
  "classify_member_original m value =
     (if contains_original m value then REVERSIBLE
      else if contains_readable m value then RECOVERY_UNWRITABLE
      else OUT_OF_MEMBER_RANGE)"

definition numeric_key_domain_for :: "numeric_key_member_range list \<Rightarrow> numeric_key_domain result" where
  "numeric_key_domain_for ms =
     (if ms = [] then Inl ValueError
      else case intersect_ranges (map (\<lambda>m. (pseudonym_low m, pseudonym_high m)) ms) of
             None \<Rightarrow> Inl ValueError
           | Some (low, high) \<Rightarrow> Inr \<lparr>dom_low = low, dom_high = high, members = ms\<rparr>)"

section \<open>Free tokens and feasibility\<close>

definition free_token_count :: "numeric_key_domain \<Rightarrow> int list \<Rightarrow> int" where
  "free_token_count d occupied =
     domain_size d - int (length (remdups (filter (contains_pseudonym d) occupied)))"

definition selectable_token_count :: "numeric_key_domain \<Rightarrow> int list \<Rightarrow> int" where
  "selectable_token_count d blocked = free_token_count d blocked"

text \<open>The walk over \<open>sorted(set(blocked))\<close>, skipping values outside the domain.\<close>

fun jth_free_loop :: "numeric_key_domain \<Rightarrow> int \<Rightarrow> int \<Rightarrow> int list \<Rightarrow> int result" where
  "jth_free_loop d previous remaining [] =
     (let r = previous + 1 + remaining in if r > dom_high d then Inl ValueError else Inr r)"
| "jth_free_loop d previous remaining (value # vs) =
     (if value < dom_low d \<or> value > dom_high d then jth_free_loop d previous remaining vs
      else
        let gap = value - previous - 1
        in if remaining < gap then Inr (previous + 1 + remaining)
           else jth_free_loop d value (remaining - gap) vs)"

definition jth_free_token :: "numeric_key_domain \<Rightarrow> int list \<Rightarrow> int \<Rightarrow> int result" where
  "jth_free_token d blocked j =
     (if j < 0 then Inl ValueError
      else jth_free_loop d (dom_low d - 1) j (sort (remdups blocked)))"

definition plan_numeric_bijection :: "numeric_key_domain \<Rightarrow> int list \<Rightarrow> int list \<Rightarrow> bool result" where
  "plan_numeric_bijection d unpersisted occupied =
     (let blocked = remdups (filter (contains_pseudonym d) occupied)
      in if \<not> distinct unpersisted then Inl ValueError
         else
           let free = domain_size d - int (length blocked)
           in if free < int (length unpersisted) then Inr False
              else Inr (list_all (\<lambda>value.
                let allowed = (if contains_pseudonym d value \<and> value \<notin> set blocked
                               then free - 1 else free)
                in \<not> allowed < 1) unpersisted))"


section \<open>The canonical text round trip\<close>

lemma digits_value_snoc [simp]:
  "digits_value [] = 0"
  "digits_value (t @ [c]) = digits_value t * 10 + int (c - 48)"
  by (simp_all add: digits_value_def)

lemma positive_canonical_snoc:
  "positive_canonical (t @ [c]) \<longleftrightarrow> (if t = [] then 49 \<le> c \<and> c \<le> 57 else positive_canonical t \<and> is_digit c)"
  by (cases t) auto

lemma nat_text_rec: "10 \<le> n \<Longrightarrow> nat_text n = nat_text (n div 10) @ [48 + n mod 10]"
  by (subst nat_text.simps) simp

lemma nat_text_small: "n < 10 \<Longrightarrow> nat_text n = [48 + n]"
  by (subst nat_text.simps) simp

lemma digits_value_nat_text: "digits_value (nat_text n) = int n"
proof (induction n rule: nat_text.induct)
  case (1 n)
  show ?case
  proof (cases "n < 10")
    case True
    then show ?thesis using digits_value_snoc(2) [of "[]" "48 + n"] by (simp add: nat_text_small)
  next
    case False
    then have "digits_value (nat_text n) = int (n div 10) * 10 + int (n mod 10)"
      using 1 by (simp add: nat_text_rec)
    also have "\<dots> = int (n div 10 * 10 + n mod 10)" by (simp only: of_nat_add of_nat_mult of_nat_numeral)
    finally show ?thesis by simp
  qed
qed

lemma positive_canonical_nat_text: "0 < n \<Longrightarrow> positive_canonical (nat_text n)"
proof (induction n rule: nat_text.induct)
  case (1 n)
  show ?case
  proof (cases "n < 10")
    case True
    then show ?thesis using 1 by (simp add: nat_text_small)
  next
    case False
    then have "positive_canonical (nat_text (n div 10))" using 1 by simp
    moreover from this have "nat_text (n div 10) \<noteq> []" by auto
    moreover have "n mod 10 < 10" by simp
    ultimately show ?thesis using False nat_text_rec [of n]
      by (simp add: positive_canonical_snoc is_digit_def)
  qed
qed

lemma positive_canonical_value: "positive_canonical t \<Longrightarrow> 1 \<le> digits_value t"
  by (induction t rule: rev_induct) (auto simp: positive_canonical_snoc split: if_splits)

lemma nat_text_digits_value: "positive_canonical t \<Longrightarrow> nat_text (nat (digits_value t)) = t"
proof (induction t rule: rev_induct)
  case Nil
  then show ?case by simp
next
  case (snoc c t)
  show ?case
  proof (cases "t = []")
    case True
    then have "nat (digits_value (t @ [c])) = c - 48" by (simp add: digits_value_def)
    moreover have "49 \<le> c" "c \<le> 57" using snoc.prems True by (simp_all add: positive_canonical_snoc)
    ultimately show ?thesis using True nat_text_small [of "c - 48"] by auto
  next
    case False
    have t: "positive_canonical t" "is_digit c"
      using snoc.prems False by (auto simp: positive_canonical_snoc)
    define v where "v = nat (digits_value t)"
    have v: "1 \<le> v" "nat_text v = t"
      using positive_canonical_value [OF t(1)] snoc.IH [OF t(1)] by (auto simp: v_def)
    have "nat (digits_value (t @ [c])) = v * 10 + (c - 48)"
      using positive_canonical_value [OF t(1)] by (simp add: v_def nat_add_distrib nat_mult_distrib)
    moreover have "c - 48 < 10" using t(2) by (auto simp: is_digit_def)
    then have "(v * 10 + (c - 48)) div 10 = v" "(v * 10 + (c - 48)) mod 10 = c - 48" by simp_all
    moreover have "nat_text (v * 10 + (c - 48)) = nat_text ((v * 10 + (c - 48)) div 10)
        @ [48 + (v * 10 + (c - 48)) mod 10]"
      using v(1) by (intro nat_text_rec) simp
    moreover have "48 + (c - 48) = c" using t(2) by (simp add: is_digit_def)
    ultimately show ?thesis using v by simp
  qed
qed

lemma positive_canonical_head: "positive_canonical (c # cs) \<Longrightarrow> c \<noteq> 45 \<and> c \<noteq> 48"
  by auto

lemma int_text_match: "canonical_integer_match (int_text i)"
proof (cases i "0::int" rule: linorder_cases)
  case less
  then show ?thesis using positive_canonical_nat_text [of "nat (- i)"]
    by (simp add: int_text_def canonical_integer_match_def)
next
  case equal
  then show ?thesis by (simp add: int_text_def canonical_integer_match_def nat_text_small)
next
  case greater
  then have "positive_canonical (nat_text (nat i))" using positive_canonical_nat_text [of "nat i"] by simp
  then show ?thesis using greater
    by (cases "nat_text (nat i)") (auto simp: int_text_def canonical_integer_match_def)
qed

lemma int_of_int_text: "int_of_text (int_text i) = i"
proof (cases "i < 0")
  case True
  then show ?thesis by (simp add: int_text_def int_of_text_def digits_value_nat_text)
next
  case False
  obtain c cs where t: "nat_text (nat i) = c # cs"
    by (cases "nat_text (nat i)") (auto simp: nat_text.simps [of "nat i"] split: if_splits)
  have "c \<noteq> 45"
  proof (cases "i = 0")
    case True
    then show ?thesis using t by (simp add: nat_text_small)
  next
    case False
    then have "positive_canonical (c # cs)"
      using positive_canonical_nat_text [of "nat i"] t \<open>\<not> i < 0\<close> by simp
    then show ?thesis by (rule positive_canonical_head [THEN conjunct1])
  qed
  then show ?thesis using False t digits_value_nat_text [of "nat i"]
    by (simp add: int_text_def int_of_text_def)
qed

lemma int_text_of_match:
  assumes "canonical_integer_match t"
  shows "int_text (int_of_text t) = t"
proof -
  consider "t = [48]" | cs where "t = 45 # cs" "positive_canonical cs"
    | c cs where "t = c # cs" "c \<noteq> 45" "positive_canonical t"
    using assms by (auto simp: canonical_integer_match_def split: list.splits if_splits)
  then show ?thesis
  proof cases
    case 1
    then show ?thesis using digits_value_snoc(2) [of "[]" 48]
      by (simp add: int_of_text_def int_text_def nat_text_small)
  next
    case 2
    then show ?thesis using positive_canonical_value [of cs] nat_text_digits_value [of cs]
      by (simp add: int_of_text_def int_text_def)
  next
    case 3
    then show ?thesis using positive_canonical_value [of t] nat_text_digits_value [of t]
      by (simp add: int_of_text_def int_text_def)
  qed
qed

lemma int_text_inj: "int_text i = int_text j \<Longrightarrow> i = j"
  by (metis int_of_int_text)

lemma int_text_eq_iff [simp]: "int_text i = int_text j \<longleftrightarrow> i = j"
  using int_text_inj by blast

lemma parse_int_text [simp]: "parse_canonical_integer_text (VStr (int_text i)) = Inr i"
  by (simp add: int_text_match int_of_int_text)


section \<open>Free tokens\<close>

definition free_tokens :: "numeric_key_domain \<Rightarrow> int set \<Rightarrow> int set" where
  "free_tokens d occupied = {dom_low d..dom_high d} - occupied"

lemma finite_free_tokens [simp]: "finite (free_tokens d s)"
  by (simp add: free_tokens_def)

lemma contains_pseudonym_iff: "contains_pseudonym d x \<longleftrightarrow> x \<in> {dom_low d..dom_high d}"
  by (auto simp: contains_pseudonym_def)

lemma in_domain_length:
  "int (length (remdups (filter (contains_pseudonym d) xs)))
    = int (card ({dom_low d..dom_high d} \<inter> set xs))"
proof -
  have "{x \<in> set xs. contains_pseudonym d x} = {dom_low d..dom_high d} \<inter> set xs"
    by (auto simp: contains_pseudonym_iff)
  then show ?thesis by (simp add: length_remdups_card_conv)
qed

lemma free_token_count_card:
  assumes "dom_low d \<le> dom_high d + 1"
  shows "free_token_count d xs = int (card (free_tokens d (set xs)))"
proof -
  have "card (free_tokens d (set xs))
      = card {dom_low d..dom_high d} - card ({dom_low d..dom_high d} \<inter> set xs)"
    unfolding free_tokens_def by (rule card_Diff_subset_Int) auto
  moreover have "card ({dom_low d..dom_high d} \<inter> set xs) \<le> card {dom_low d..dom_high d}"
    by (rule card_mono) auto
  ultimately show ?thesis
    using assms by (simp add: free_token_count_def in_domain_length domain_size_def)
qed

lemma jth_free_loop_gap_walk:
  "jth_free_loop d prev rem vs =
     (if gap_walk prev rem (filter (contains_pseudonym d) vs) \<le> dom_high d
      then Inr (gap_walk prev rem (filter (contains_pseudonym d) vs)) else Inl ValueError)"
proof (induction vs arbitrary: prev rem)
  case Nil
  then show ?case by (simp add: Let_def)
next
  case (Cons v vs)
  show ?case
  proof (cases "contains_pseudonym d v")
    case False
    then have "jth_free_loop d prev rem (v # vs) = jth_free_loop d prev rem vs"
      by (auto simp: contains_pseudonym_def)
    then show ?thesis using Cons False by simp
  next
    case True
    then have "\<not> (v < dom_low d \<or> v > dom_high d)" "v \<le> dom_high d"
      by (auto simp: contains_pseudonym_def)
    then show ?thesis using Cons [of v "rem - (v - prev - 1)"] True by (simp add: Let_def)
  qed
qed

lemma sorted_wrt_less_sort: "sorted_wrt (<) (sort (remdups xs :: int list))"
  by (simp add: strict_sorted_iff)

text \<open>\<open>jth_free_token\<close> returns the free token with exactly \<open>j\<close> free tokens below it.\<close>

lemma jth_free_token_spec:
  assumes "jth_free_token d blocked j = Inr r"
  shows "r \<in> free_tokens d (set blocked)"
    and "int (card {x \<in> free_tokens d (set blocked). x < r}) = j"
proof -
  let ?vs = "filter (contains_pseudonym d) (sort (remdups blocked))"
  have j: "0 \<le> j" and r: "r = gap_walk (dom_low d - 1) j ?vs" "r \<le> dom_high d"
    using assms by (auto simp: jth_free_token_def jth_free_loop_gap_walk split: if_splits)
  have s: "sorted_wrt (<) ?vs" by (intro sorted_wrt_filter sorted_wrt_less_sort)
  have p: "\<forall>v\<in>set ?vs. dom_low d - 1 < v" by (auto simp: contains_pseudonym_def)
  note spec = gap_walk_spec [OF s p j, folded r(1)]
  show "r \<in> free_tokens d (set blocked)"
    using spec r by (auto simp: free_tokens_def contains_pseudonym_def)
  have "{x \<in> free_tokens d (set blocked). x < r} = {dom_low d - 1<..<r} - set ?vs"
    using r by (auto simp: free_tokens_def contains_pseudonym_def)
  then show "int (card {x \<in> free_tokens d (set blocked). x < r}) = j" using spec by simp
qed

lemma jth_free_token_defined:
  assumes "0 \<le> j" and "j < int (card (free_tokens d (set blocked)))"
  shows "\<exists>r. jth_free_token d blocked j = Inr r"
proof -
  let ?vs = "filter (contains_pseudonym d) (sort (remdups blocked))"
  have "free_tokens d (set blocked) = {dom_low d - 1<..dom_high d} - set ?vs"
    by (auto simp: free_tokens_def contains_pseudonym_def)
  then have "gap_walk (dom_low d - 1) j ?vs \<le> dom_high d"
    using assms by (intro gap_walk_le sorted_wrt_filter sorted_wrt_less_sort)
      (auto simp: contains_pseudonym_def)
  then show ?thesis using assms by (simp add: jth_free_token_def jth_free_loop_gap_walk)
qed

lemma jth_free_token_surj:
  assumes "x \<in> free_tokens d (set blocked)"
  shows "jth_free_token d blocked (int (card {y \<in> free_tokens d (set blocked). y < x})) = Inr x"
proof -
  let ?vs = "filter (contains_pseudonym d) (sort (remdups blocked))"
  have "{y \<in> free_tokens d (set blocked). y < x} = {dom_low d - 1<..<x} - set ?vs"
    using assms by (auto simp: free_tokens_def contains_pseudonym_def)
  moreover have "gap_walk (dom_low d - 1) (int (card ({dom_low d - 1<..<x} - set ?vs))) ?vs = x"
    using assms by (intro gap_walk_surj sorted_wrt_filter sorted_wrt_less_sort)
      (auto simp: free_tokens_def contains_pseudonym_def)
  ultimately show ?thesis using assms
    by (simp add: jth_free_token_def jth_free_loop_gap_walk free_tokens_def)
qed

section \<open>Hall's condition for self-excluding originals\<close>

text \<open>
  Each original may take every free token but its own value. \<open>feasible F O\<close> is the condition
  the program tests; an assignment exists exactly when it holds.
\<close>

definition feasible :: "int set \<Rightarrow> int set \<Rightarrow> bool" where
  "feasible F U \<longleftrightarrow> card U \<le> card F \<and> (\<forall>x\<in>U. F - {x} \<noteq> {})"

definition is_assignment :: "int set \<Rightarrow> int set \<Rightarrow> (int \<Rightarrow> int) \<Rightarrow> bool" where
  "is_assignment F U f \<longleftrightarrow> inj_on f U \<and> (\<forall>x\<in>U. f x \<in> F \<and> f x \<noteq> x)"

lemma feasible_remove_easy:
  assumes "feasible F U" "finite F" "x \<in> U" "finite U" "c \<in> F - {x}"
    and "card U = 1 \<or> 3 \<le> card F"
  shows "feasible (F - {c}) (U - {x})"
proof -
  have "card (U - {x}) \<le> card (F - {c})" using assms by (auto simp: feasible_def)
  moreover have "F - {c} - {y} \<noteq> {}" if "y \<in> U - {x}" for y
  proof -
    have "card {x, y} \<le> card U" using that assms by (intro card_mono) auto
    then have "3 \<le> card F" using that assms(6) by auto
    then have "1 \<le> card (F - {c} - {y})"
      using assms(2,5) by (auto simp: card_Diff_singleton_if)
    then show ?thesis by (metis card.empty not_one_le_zero)
  qed
  ultimately show ?thesis by (auto simp: feasible_def)
qed

lemma feasible_remove:
  assumes "feasible F U" "finite F" "finite U" "x \<in> U"
  shows "\<exists>c\<in>F - {x}. feasible (F - {c}) (U - {x})"
proof (cases "card U = 1 \<or> 3 \<le> card F")
  case True
  then show ?thesis using assms feasible_remove_easy [OF assms(1,2,4,3)] by (auto simp: feasible_def)
next
  case False
  have "1 \<le> card U" using assms(3,4) by (simp add: Suc_le_eq card_gt_0_iff) blast
  then have two: "card U = 2" "card F = 2" using False assms(1) by (auto simp: feasible_def)
  have "card (U - {x}) = 1" using two(1) assms(3,4) by simp
  then obtain y where y: "U - {x} = {y}" by (rule card_1_singletonE)
  then have xy: "y \<noteq> x" by blast
  have "F - {x} \<noteq> {}" using assms(1,4) by (simp add: feasible_def)
  then obtain c where c: "c \<in> F - {x}" "y \<in> F \<longrightarrow> c = y" using xy by blast
  have "card (F - {c}) = 1" using two c by simp
  moreover from this have "F - {c} \<noteq> {}" by (metis card.empty zero_neq_one)
  moreover have "F - {c} - {y} = F - {c}" using c by auto
  ultimately have "feasible (F - {c}) {y}" by (simp add: feasible_def)
  then show ?thesis using c y by auto
qed

lemma feasible_assignment:
  assumes "feasible F U" "finite F" "finite U"
  shows "\<exists>f. is_assignment F U f"
  using assms(3,1,2)
proof (induction "card U" arbitrary: F U)
  case 0
  then show ?case by (auto simp: is_assignment_def)
next
  case (Suc n)
  then obtain x where x: "x \<in> U" by (metis card.empty equals0I nat.distinct(1))
  then obtain c where c: "c \<in> F - {x}" "feasible (F - {c}) (U - {x})"
    using feasible_remove Suc.prems by blast
  have "n = card (U - {x})" using Suc.hyps(2) x Suc.prems by simp
  then obtain f where f: "is_assignment (F - {c}) (U - {x}) f"
    using Suc.hyps(1) [of "U - {x}" "F - {c}"] Suc.prems c by blast
  have "is_assignment F U (f(x := c))"
    using f c x by (auto simp: is_assignment_def inj_on_def)
  then show ?case by blast
qed

lemma assignment_feasible:
  assumes "is_assignment F U f" "finite F"
  shows "feasible F U"
proof -
  have "card U \<le> card F" using assms by (intro card_inj_on_le [of f]) (auto simp: is_assignment_def)
  then show ?thesis using assms by (auto simp: feasible_def is_assignment_def)
qed

lemma plan_numeric_bijection_feasible:
  assumes "dom_low d \<le> dom_high d + 1" and "distinct us"
  shows "plan_numeric_bijection d us occ = Inr (feasible (free_tokens d (set occ)) (set us))"
proof -
  let ?F = "free_tokens d (set occ)"
  let ?free = "domain_size d - int (length (remdups (filter (contains_pseudonym d) occ)))"
  have free: "?free = int (card ?F)"
    using free_token_count_card [OF assms(1), of occ] by (simp add: free_token_count_def)
  have own: "contains_pseudonym d x \<and> x \<notin> set (remdups (filter (contains_pseudonym d) occ)) \<longleftrightarrow> x \<in> ?F"
    for x by (auto simp: free_tokens_def contains_pseudonym_def)
  have "(\<not> (if x \<in> ?F then int (card ?F) - 1 else int (card ?F)) < 1) \<longleftrightarrow> ?F - {x} \<noteq> {}" for x
  proof -
    have "card (?F - {x}) = (if x \<in> ?F then card ?F - 1 else card ?F)"
      by (simp add: card_Diff_singleton_if)
    moreover have "?F - {x} \<noteq> {} \<longleftrightarrow> 0 < card (?F - {x})"
      by (simp add: card_gt_0_iff)
    moreover have "x \<in> ?F \<Longrightarrow> 0 < card ?F" by (auto simp: card_gt_0_iff)
    ultimately show ?thesis by auto
  qed
  then show ?thesis
    using assms(2) unfolding plan_numeric_bijection_def Let_def free own
    by (auto simp: feasible_def list_all_iff distinct_card)
qed

text \<open>
  The feasibility kernel is exact: for a non-empty domain and distinct originals,
  \<open>plan_numeric_bijection\<close> answers whether the originals can be mapped injectively to free tokens
  of the domain with no original mapped to itself.
\<close>

theorem plan_numeric_bijection_exact:
  assumes "dom_low d \<le> dom_high d" and "distinct unpersisted"
  shows "plan_numeric_bijection d unpersisted occupied
    = Inr (\<exists>f. is_assignment (free_tokens d (set occupied)) (set unpersisted) f)"
proof -
  let ?F = "free_tokens d (set occupied)"
  have "feasible ?F (set unpersisted) \<longleftrightarrow> (\<exists>f. is_assignment ?F (set unpersisted) f)"
    using feasible_assignment [of ?F "set unpersisted"] assignment_feasible [of ?F "set unpersisted"] by auto
  then show ?thesis using assms plan_numeric_bijection_feasible [of d unpersisted occupied] by simp
qed

theorem plan_numeric_bijection_exact_witness:
  "\<not> (\<exists>f. is_assignment (free_tokens \<lparr>dom_low = 0, dom_high = 1, members = []\<rparr> (set [0])) (set [1]) f)
   \<and> (\<exists>f. is_assignment (free_tokens \<lparr>dom_low = 0, dom_high = 1, members = []\<rparr> (set [])) (set [0, 1]) f)"
proof -
  let ?d = "\<lparr>dom_low = 0, dom_high = 1, members = []\<rparr>"
  have "plan_numeric_bijection ?d [1] [0] = Inr False" "plan_numeric_bijection ?d [0, 1] [] = Inr True"
    by code_simp+
  then show ?thesis
    using plan_numeric_bijection_exact [of ?d "[1]" "[0]"] plan_numeric_bijection_exact [of ?d "[0, 1]" "[]"]
    by simp
qed

text \<open>
  \<open>jth_free_token\<close> enumerates the free tokens in ascending order: it is defined exactly for the
  indices below the number of free tokens, and its value is the free token with exactly \<open>j\<close> free
  tokens below it, so every free token is reached by exactly one index.
\<close>

theorem jth_free_token_enumerates:
  assumes "dom_low d \<le> dom_high d"
  shows "((\<exists>r. jth_free_token d blocked j = Inr r) \<longleftrightarrow> 0 \<le> j \<and> j < free_token_count d blocked)
    \<and> bij_betw (\<lambda>j. projr (jth_free_token d blocked j)) {0..<free_token_count d blocked}
        (free_tokens d (set blocked))"
proof -
  let ?F = "free_tokens d (set blocked)" and ?rank = "\<lambda>x. int (card {y \<in> free_tokens d (set blocked). y < x})"
  have n: "free_token_count d blocked = int (card ?F)" using free_token_count_card assms by simp
  have rank: "?rank x < int (card ?F)" if "x \<in> ?F" for x
  proof -
    have "{y \<in> ?F. y < x} \<subset> ?F" using that by auto
    then show ?thesis by (simp add: psubset_card_mono)
  qed
  have val: "projr (jth_free_token d blocked i) \<in> ?F" "?rank (projr (jth_free_token d blocked i)) = i"
    if "0 \<le> i" "i < int (card ?F)" for i
    using jth_free_token_defined [OF that] jth_free_token_spec [of d blocked i] by auto
  have defined: "(\<exists>r. jth_free_token d blocked i = Inr r) \<longleftrightarrow> 0 \<le> i \<and> i < int (card ?F)" for i
    using jth_free_token_defined [of i d blocked] jth_free_token_spec [of d blocked i] rank by auto
  have "bij_betw (\<lambda>i. projr (jth_free_token d blocked i)) {0..<int (card ?F)} ?F"
  proof (rule bij_betw_byWitness [where f' = ?rank])
    show "\<forall>i\<in>{0..<int (card ?F)}. ?rank (projr (jth_free_token d blocked i)) = i"
      using val(2) by simp
    show "\<forall>x\<in>?F. projr (jth_free_token d blocked (?rank x)) = x"
      using jth_free_token_surj [of _ d blocked] by simp
    show "(\<lambda>i. projr (jth_free_token d blocked i)) ` {0..<int (card ?F)} \<subseteq> ?F"
      using val(1) by auto
    show "?rank ` ?F \<subseteq> {0..<int (card ?F)}" using rank by auto
  qed
  then show ?thesis using defined n by simp
qed

theorem jth_free_token_enumerates_witness:
  "bij_betw (\<lambda>j. projr (jth_free_token \<lparr>dom_low = 0, dom_high = 5, members = []\<rparr> [1, 4] j)) {0..<4} {0, 2, 3, 5}"
proof -
  let ?d = "\<lparr>dom_low = 0, dom_high = 5, members = []\<rparr>"
  have "free_token_count ?d [1, 4] = 4" by code_simp
  moreover have "free_tokens ?d (set [1, 4]) = {0, 2, 3, 5}" by (auto simp: free_tokens_def)
  ultimately show ?thesis using jth_free_token_enumerates [of ?d "[1, 4]" 0] by simp
qed

text \<open>
  Canonical integer text round trips in both directions: parsing the text of an integer returns
  it, only canonical texts parse, and printing a parsed integer returns the text.
\<close>

theorem canonical_integer_round_trip:
  "parse_canonical_integer_text (VStr (int_text i)) = Inr i
   \<and> (parse_canonical_integer_text (VStr t) = Inr i \<longleftrightarrow> t = int_text i)"
  using int_text_of_match by (auto simp: int_text_match int_of_int_text)

end
