(* ===== verification/Memo_Mask.thy ===== *)
theory Memo_Mask
  imports Py_Values
begin

text \<open>
  The Memo/General/Picture kernels of \<^verbatim>\<open>src/src/dbf_anonymizer/transforms/memo.py\<close>: the bounded
  mask vocabulary with self-exclusion, chosen by the type of the payload.
\<close>

definition MEMO_TEXT_MASK :: pystr where "MEMO_TEXT_MASK = ascii ''[MASKED-MEMO]''"
definition MEMO_TEXT_MASK_ALT :: pystr where "MEMO_TEXT_MASK_ALT = ascii ''[MASKED-MEMO-ALT]''"
definition MEMO_BINARY_MASK :: bytes where "MEMO_BINARY_MASK = ascii ''[MASKED-MEMO]''"
definition MEMO_BINARY_MASK_ALT :: bytes where "MEMO_BINARY_MASK_ALT = ascii ''[MASKED-MEMO-ALT]''"

definition MEMO_FIELD_TYPES :: "char list" where "MEMO_FIELD_TYPES = ''MGP''"

datatype payload_kind = TEXT_KIND | BINARY_KIND

definition memo_unsupported :: error where
  "memo_unsupported = MappingError MAPPING_CONSTRAINT_INFEASIBLE ''MEMO_UNSUPPORTED_REPRESENTATION''"

fun is_memo_logical_value :: "pyval \<Rightarrow> bool" where
  "is_memo_logical_value VNone = True"
| "is_memo_logical_value (VStr s) = True"
| "is_memo_logical_value (VBytes b) = True"
| "is_memo_logical_value (VByteArray b) = True"
| "is_memo_logical_value _ = False"

fun memo_payload_kind :: "pyval \<Rightarrow> payload_kind result" where
  "memo_payload_kind (VStr s) = Inr TEXT_KIND"
| "memo_payload_kind (VBytes b) = Inr BINARY_KIND"
| "memo_payload_kind (VByteArray b) = Inr BINARY_KIND"
| "memo_payload_kind _ = Inl memo_unsupported"

fun memo_safe_mask :: "pyval \<Rightarrow> pyval result" where
  "memo_safe_mask VNone = Inr VNone"
| "memo_safe_mask (VStr s) =
     Inr (VStr (if s = MEMO_TEXT_MASK then MEMO_TEXT_MASK_ALT else MEMO_TEXT_MASK))"
| "memo_safe_mask (VBytes b) =
     Inr (VBytes (if b = MEMO_BINARY_MASK then MEMO_BINARY_MASK_ALT else MEMO_BINARY_MASK))"
| "memo_safe_mask (VByteArray b) =
     Inr (VBytes (if b = MEMO_BINARY_MASK then MEMO_BINARY_MASK_ALT else MEMO_BINARY_MASK))"
| "memo_safe_mask _ = Inl memo_unsupported"

definition memo_requires_binary :: "char \<Rightarrow> bool result" where
  "memo_requires_binary dbf_type =
     (if dbf_type = CHR ''G'' \<or> dbf_type = CHR ''P'' then Inr True
      else if dbf_type = CHR ''M'' then Inr False
      else Inl memo_unsupported)"

section \<open>Facts about the kernels\<close>

text \<open>The payload of a value as the vault stores it: its type class and its characters or bytes.\<close>

fun memo_payload :: "pyval \<Rightarrow> (payload_kind \<times> nat list) option" where
  "memo_payload (VStr s) = Some (TEXT_KIND, s)"
| "memo_payload (VBytes b) = Some (BINARY_KIND, b)"
| "memo_payload (VByteArray b) = Some (BINARY_KIND, b)"
| "memo_payload _ = None"

lemma masks_distinct:
  "MEMO_TEXT_MASK \<noteq> MEMO_TEXT_MASK_ALT" "MEMO_BINARY_MASK \<noteq> MEMO_BINARY_MASK_ALT"
  by (simp_all add: MEMO_TEXT_MASK_def MEMO_TEXT_MASK_ALT_def MEMO_BINARY_MASK_def
      MEMO_BINARY_MASK_ALT_def ascii_def)

lemma memo_safe_mask_differs:
  assumes "memo_safe_mask v = Inr m" and "v \<noteq> VNone"
  shows "\<exists>k p q. memo_payload v = Some (k, p) \<and> memo_payload m = Some (k, q) \<and> p \<noteq> q"
  using assms masks_distinct by (cases v) auto

lemma memo_safe_mask_total: "is_memo_logical_value v \<longleftrightarrow> (\<exists>m. memo_safe_mask v = Inr m)"
  by (cases v) auto

lemma memo_safe_mask_vocabulary:
  "memo_safe_mask v = Inr m \<Longrightarrow>
     m \<in> {VNone, VStr MEMO_TEXT_MASK, VStr MEMO_TEXT_MASK_ALT, VBytes MEMO_BINARY_MASK,
          VBytes MEMO_BINARY_MASK_ALT}"
  by (cases v) (auto split: if_splits)

text \<open>
  The memo mask hides and keeps the type class: it is defined exactly for the logical memo
  values, keeps \<open>None\<close>, and replaces any other payload by one of two fixed masks of the same class
  (text or binary) that differs from the original payload, even when the original is a mask itself.
\<close>

theorem memo_mask_hides:
  "(is_memo_logical_value v \<longleftrightarrow> (\<exists>m. memo_safe_mask v = Inr m))
   \<and> memo_safe_mask VNone = Inr VNone
   \<and> (\<forall>k p. memo_payload v = Some (k, p) \<longrightarrow>
        (\<exists>m q. memo_safe_mask v = Inr m \<and> memo_payload m = Some (k, q) \<and> q \<noteq> p
           \<and> q \<in> {MEMO_TEXT_MASK, MEMO_TEXT_MASK_ALT, MEMO_BINARY_MASK, MEMO_BINARY_MASK_ALT}))"
  using memo_safe_mask_total masks_distinct by (cases v) auto

theorem memo_mask_hides_witness:
  "\<exists>m q. memo_safe_mask (VStr MEMO_TEXT_MASK) = Inr m \<and> memo_payload m = Some (TEXT_KIND, q) \<and> q \<noteq> MEMO_TEXT_MASK"
  using memo_mask_hides [of "VStr MEMO_TEXT_MASK"] by auto

end
