(* ===== verification/Text_Tokens.thy ===== *)
theory Text_Tokens
  imports Anon_Prelude
begin

text \<open>
  The text-domain kernels of \<^verbatim>\<open>src/src/dbf_anonymizer/transforms/text.py\<close>: the safe alphabet
  proven against the codec registry, the finite token space and the exact bijection between
  token indices and tokens. The codec registry (\<open>str.encode\<close> under an encoding name) is the
  parameter \<open>encode\<close>: \<open>None\<close> stands for the exceptions the code catches (\<open>LookupError\<close>,
  \<open>UnicodeEncodeError\<close>, \<open>ValueError\<close>).
\<close>

type_synonym codec = "string \<Rightarrow> pystr \<Rightarrow> bytes option"

section \<open>The safe alphabet\<close>

definition SAFE_TEXT_ALPHABET :: pystr where
  "SAFE_TEXT_ALPHABET = ascii ''ABCDEFGHIJKLMNOPQRSTUVWXYZ0123456789''"

text \<open>The inner loop over the participating encodings for one character.\<close>

fun character_accepted :: "codec \<Rightarrow> string list \<Rightarrow> nat \<Rightarrow> bool" where
  "character_accepted encode [] c = True"
| "character_accepted encode (e # es) c =
     (case encode e [c] of
        None \<Rightarrow> False
      | Some b \<Rightarrow> if length b \<noteq> 1 then False else character_accepted encode es c)"

definition candidate_alphabet :: "codec \<Rightarrow> string list \<Rightarrow> pystr" where
  "candidate_alphabet encode encodings = filter (character_accepted encode encodings) SAFE_TEXT_ALPHABET"

definition encoded_byte_length :: "codec \<Rightarrow> pystr \<Rightarrow> string \<Rightarrow> nat option" where
  "encoded_byte_length encode value encoding = map_option length (encode encoding value)"

fun max_encoded_loop :: "codec \<Rightarrow> pystr \<Rightarrow> nat option \<Rightarrow> string list \<Rightarrow> nat option" where
  "max_encoded_loop encode value largest [] = largest"
| "max_encoded_loop encode value largest (e # es) =
     (case encoded_byte_length encode value e of
        None \<Rightarrow> None
      | Some l \<Rightarrow>
          max_encoded_loop encode value
            (case largest of None \<Rightarrow> Some l | Some m \<Rightarrow> if m < l then Some l else largest) es)"

definition max_encoded_byte_length :: "codec \<Rightarrow> pystr \<Rightarrow> string list \<Rightarrow> nat option" where
  "max_encoded_byte_length encode value encodings = max_encoded_loop encode value None encodings"

definition reduced_strictest :: "int option \<Rightarrow> int \<Rightarrow> int result" where
  "reduced_strictest previous width =
     (if width < 0 then Inl ValueError
      else Inr (case previous of None \<Rightarrow> width | Some p \<Rightarrow> min p width))"

section \<open>The token space\<close>

fun token_space_loop :: "nat \<Rightarrow> int \<Rightarrow> int \<Rightarrow> int \<Rightarrow> int" where
  "token_space_loop 0 base acc trm = acc"
| "token_space_loop (Suc n) base acc trm =
     token_space_loop n base (acc + trm * base) (trm * base)"

definition token_space :: "int \<Rightarrow> int \<Rightarrow> int result" where
  "token_space max_width base =
     (if max_width < 0 then Inl ValueError
      else if base < 1 then Inl ValueError
      else Inr (token_space_loop (nat max_width) base 0 1))"

fun token_space_at_least_loop :: "nat \<Rightarrow> int \<Rightarrow> int \<Rightarrow> int \<Rightarrow> int \<Rightarrow> bool" where
  "token_space_at_least_loop 0 base needed acc trm = False"
| "token_space_at_least_loop (Suc n) base needed acc trm =
     (if acc + trm * base \<ge> needed then True
      else token_space_at_least_loop n base needed (acc + trm * base) (trm * base))"

definition token_space_at_least :: "int \<Rightarrow> int \<Rightarrow> int \<Rightarrow> bool" where
  "token_space_at_least max_width base needed =
     (if max_width < 1 \<or> base < 1 then needed \<le> 0
      else token_space_at_least_loop (nat max_width) base needed 0 1)"

section \<open>Tokens and their indices\<close>

definition is_safe_token :: "pystr \<Rightarrow> pystr \<Rightarrow> bool" where
  "is_safe_token candidate alphabet =
     (if candidate = [] then False else list_all (\<lambda>c. c \<in> set alphabet) candidate)"

text \<open>\<open>alphabet.index(c)\<close>: the position of the first occurrence.\<close>

fun str_index :: "pystr \<Rightarrow> nat \<Rightarrow> nat" where
  "str_index [] c = 0"
| "str_index (x # xs) c = (if x = c then 0 else Suc (str_index xs c))"

definition token_index :: "pystr \<Rightarrow> pystr \<Rightarrow> int result" where
  "token_index token alphabet =
     (let base = int (length alphabet)
      in if \<not> is_safe_token token alphabet then Inl ValueError
         else
           let cumulative = token_space_loop (length token - 1) base 0 1;
               offset = foldl (\<lambda>offset c. offset * base + int (str_index alphabet c)) 0 token
           in Inr (cumulative + offset))"

text \<open>The innermost loop of \<open>token_at\<close> appends the low digits first; the caller reverses.\<close>

fun token_digits :: "nat \<Rightarrow> pystr \<Rightarrow> int \<Rightarrow> int \<Rightarrow> pystr" where
  "token_digits 0 alphabet base offset = []"
| "token_digits (Suc n) alphabet base offset =
     (alphabet ! nat (offset mod base)) # token_digits n alphabet base (offset div base)"

text \<open>The loop over the lengths \<open>1..max_width\<close>; \<open>todo\<close> counts the lengths still to try.\<close>

fun token_at_loop :: "nat \<Rightarrow> nat \<Rightarrow> int \<Rightarrow> pystr \<Rightarrow> int \<Rightarrow> int \<Rightarrow> int \<Rightarrow> pystr result" where
  "token_at_loop 0 len index alphabet base cumulative trm = Inl ValueError"
| "token_at_loop (Suc todo) len index alphabet base cumulative trm =
     (if index < cumulative + trm * base
      then Inr (rev (token_digits len alphabet base (index - cumulative)))
      else token_at_loop todo (Suc len) index alphabet base (cumulative + trm * base) (trm * base))"

definition token_at :: "int \<Rightarrow> int \<Rightarrow> pystr \<Rightarrow> pystr result" where
  "token_at index max_width alphabet =
     (let base = int (length alphabet)
      in if base < 1 then Inl ValueError
         else bindE (token_space max_width base) (\<lambda>space.
           if \<not> (0 \<le> index \<and> index < space) then Inl ValueError
           else token_at_loop (nat max_width) 1 index alphabet base 0 1))"

lemmas text_kernel_defs [kernel_defs] =
  candidate_alphabet_def encoded_byte_length_def max_encoded_byte_length_def
  reduced_strictest_def token_space_def token_space_at_least_def is_safe_token_def
  token_index_def token_at_def


section \<open>The token space counts the tokens\<close>

definition geometric :: "int \<Rightarrow> nat \<Rightarrow> int" where
  "geometric base n = (\<Sum>i = 1..n. base ^ i)"

lemma geometric_simps [simp]:
  "geometric base 0 = 0"
  "geometric base (Suc n) = geometric base n + base ^ Suc n"
  by (simp_all add: geometric_def)

lemma geometric_shift: "geometric base (Suc n) = base + base * geometric base n"
proof (induction n)
  case 0
  then show ?case by simp
next
  case (Suc n)
  have "geometric base (Suc (Suc n)) = base + base * geometric base n + base * base ^ Suc n"
    using Suc by simp
  also have "\<dots> = base + base * geometric base (Suc n)"
    by (simp add: algebra_simps)
  finally show ?case .
qed

lemma geometric_nonneg: "0 \<le> base \<Longrightarrow> 0 \<le> geometric base n"
  by (induction n) simp_all

lemma geometric_mono: "0 \<le> base \<Longrightarrow> m \<le> n \<Longrightarrow> geometric base m \<le> geometric base n"
  by (induction n) (auto simp: le_Suc_eq intro: order_trans)

lemma token_space_loop_geometric:
  "token_space_loop n base acc trm = acc + trm * geometric base n"
  by (induction n arbitrary: acc trm)
    (simp_all add: geometric_shift algebra_simps del: geometric_simps(2))

lemma token_space_geometric:
  "0 \<le> w \<Longrightarrow> 1 \<le> base \<Longrightarrow> token_space w base = Inr (geometric base (nat w))"
  by (simp add: token_space_def token_space_loop_geometric)

lemma token_space_at_least_loop_iff:
  assumes "1 \<le> base" and "1 \<le> trm" and "acc < needed"
  shows "token_space_at_least_loop n base needed acc trm
    \<longleftrightarrow> needed \<le> acc + trm * geometric base n"
  using assms
proof (induction n arbitrary: acc trm)
  case 0
  then show ?case by simp
next
  case (Suc n)
  have pos: "1 \<le> trm * base"
    using Suc.prems by (metis mult_mono mult_1 zero_le_one order_trans)
  have unroll: "acc + trm * geometric base (Suc n)
      = acc + trm * base + trm * base * geometric base n"
    by (simp add: geometric_shift algebra_simps del: geometric_simps(2))
  show ?case
  proof (cases "acc + trm * base \<ge> needed")
    case True
    have "0 \<le> trm * base * geometric base n"
      using pos Suc.prems geometric_nonneg [of base n] by simp
    with True show ?thesis unfolding unroll by simp
  next
    case False
    with Suc.IH [of "trm * base" "acc + trm * base"] pos Suc.prems
    show ?thesis unfolding unroll by simp
  qed
qed

section \<open>Digits\<close>

definition token_value :: "pystr \<Rightarrow> pystr \<Rightarrow> int" where
  "token_value alphabet token =
     foldl (\<lambda>offset c. offset * int (length alphabet) + int (str_index alphabet c)) 0 token"

lemma token_value_snoc [simp]:
  "token_value a [] = 0"
  "token_value a (t @ [c]) = token_value a t * int (length a) + int (str_index a c)"
  by (simp_all add: token_value_def)

lemma str_index_less [simp]: "c \<in> set a \<Longrightarrow> str_index a c < length a"
  by (induction a) auto

lemma nth_str_index [simp]: "c \<in> set a \<Longrightarrow> a ! str_index a c = c"
  by (induction a) auto

lemma str_index_nth [simp]: "distinct a \<Longrightarrow> i < length a \<Longrightarrow> str_index a (a ! i) = i"
  by (induction a arbitrary: i) (auto simp: nth_Cons split: nat.splits)

lemma length_token_digits [simp]: "length (token_digits n a b off) = n"
  by (induction n arbitrary: off) auto

lemma set_token_digits:
  "0 < length a \<Longrightarrow> set (token_digits n a (int (length a)) off) \<subseteq> set a"
  by (induction n arbitrary: off) (auto simp: nat_less_iff)

lemma token_value_digits:
  assumes "distinct a" and "0 < length a" and "0 \<le> off" and "off < int (length a) ^ n"
  shows "token_value a (rev (token_digits n a (int (length a)) off)) = off"
  using assms(3,4)
proof (induction n arbitrary: off)
  case 0
  then show ?case by simp
next
  case (Suc n)
  let ?b = "int (length a)"
  have b: "0 < ?b" using assms(2) by simp
  have "off div ?b * ?b \<le> off"
    using b by (simp add: minus_mod_eq_div_mult [symmetric])
  then have "off div ?b * ?b < ?b ^ n * ?b" using Suc.prems by (simp add: mult.commute)
  then have "off div ?b < ?b ^ n" using b by (simp add: mult_less_cancel_right)
  then have IH: "token_value a (rev (token_digits n a ?b (off div ?b))) = off div ?b"
    using Suc.prems b by (intro Suc.IH) (simp_all add: pos_imp_zdiv_nonneg_iff)
  have "nat (off mod ?b) < length a" using b by (simp add: nat_less_iff)
  then have "str_index a (a ! nat (off mod ?b)) = nat (off mod ?b)"
    using assms(1) by simp
  then show ?case using IH b by simp
qed

lemma token_value_bounds:
  "set t \<subseteq> set a \<Longrightarrow> 0 \<le> token_value a t \<and> token_value a t < int (length a) ^ length t"
proof (induction t rule: rev_induct)
  case Nil
  then show ?case by simp
next
  case (snoc c t)
  let ?b = "int (length a)"
  have IH: "0 \<le> token_value a t" "token_value a t + 1 \<le> ?b ^ length t"
    using snoc by auto
  have c: "int (str_index a c) < ?b" using snoc.prems by simp
  have "(token_value a t + 1) * ?b \<le> ?b ^ length t * ?b"
    using IH by (intro mult_right_mono) auto
  then show ?case using IH c by (simp add: algebra_simps)
qed

lemma token_digits_value:
  "set t \<subseteq> set a \<Longrightarrow> token_digits (length t) a (int (length a)) (token_value a t) = rev t"
proof (induction t rule: rev_induct)
  case Nil
  then show ?case by simp
next
  case (snoc c t)
  have c: "c \<in> set a" using snoc.prems by simp
  then have "0 < length a" by (cases a) auto
  moreover have "int (str_index a c) < int (length a)" using c by simp
  ultimately show ?case using snoc c by (simp add: nat_int del: of_nat_less_iff)
qed

section \<open>Length blocks\<close>

lemma token_at_loop_block:
  assumes "geometric b (len - 1) \<le> i" and "1 \<le> len" and "1 \<le> b"
    and "i < geometric b (len - 1 + todo)"
  shows "\<exists>l. len \<le> l \<and> l < len + todo \<and> geometric b (l - 1) \<le> i \<and> i < geometric b l
    \<and> token_at_loop todo len i a b (geometric b (len - 1)) (b ^ (len - 1))
        = Inr (rev (token_digits l a b (i - geometric b (l - 1))))"
  using assms
proof (induction todo arbitrary: len)
  case 0
  then show ?case by simp
next
  case (Suc todo)
  then obtain m where m: "len = Suc m" by (cases len) auto
  show ?case
  proof (cases "i < geometric b m + b ^ m * b")
    case True
    then show ?thesis using Suc.prems m by (intro exI [of _ len]) (auto simp: mult.commute)
  next
    case False
    have "\<exists>l. Suc len \<le> l \<and> l < Suc len + todo \<and> geometric b (l - 1) \<le> i \<and> i < geometric b l
      \<and> token_at_loop todo (Suc len) i a b (geometric b (Suc len - 1)) (b ^ (Suc len - 1))
          = Inr (rev (token_digits l a b (i - geometric b (l - 1))))"
      using Suc.prems False m by (intro Suc.IH) (auto simp: mult.commute)
    then obtain l where l: "Suc len \<le> l" "l < Suc len + todo" "geometric b (l - 1) \<le> i"
      "i < geometric b l"
      "token_at_loop todo (Suc len) i a b (geometric b (Suc len - 1)) (b ^ (Suc len - 1))
          = Inr (rev (token_digits l a b (i - geometric b (l - 1))))" by blast
    have "token_at_loop (Suc todo) len i a b (geometric b (len - 1)) (b ^ (len - 1))
        = token_at_loop todo (Suc len) i a b (geometric b (Suc len - 1)) (b ^ (Suc len - 1))"
      using False m by (simp add: mult.commute)
    with l show ?thesis by (intro exI [of _ l]) auto
  qed
qed

lemma token_at_block:
  assumes "a \<noteq> []" and "0 \<le> i" and "i < geometric (int (length a)) w"
  shows "\<exists>l. 1 \<le> l \<and> l \<le> w \<and> geometric (int (length a)) (l - 1) \<le> i
    \<and> i < geometric (int (length a)) l
    \<and> token_at i (int w) a
        = Inr (rev (token_digits l a (int (length a)) (i - geometric (int (length a)) (l - 1))))"
proof -
  have b: "1 \<le> int (length a)" using assms(1) by (cases a) auto
  have "token_at i (int w) a = token_at_loop w 1 i a (int (length a)) 0 1"
    using assms b by (simp add: token_at_def token_space_geometric not_le)
  with token_at_loop_block [of "int (length a)" 1 i w a] assms b show ?thesis by auto
qed

lemma token_index_eq:
  "is_safe_token t a \<Longrightarrow>
     token_index t a = Inr (geometric (int (length a)) (length t - 1) + token_value a t)"
  by (simp add: token_index_def token_space_loop_geometric token_value_def Let_def)

lemma is_safe_token_iff: "is_safe_token t a \<longleftrightarrow> t \<noteq> [] \<and> set t \<subseteq> set a"
  by (auto simp: is_safe_token_def list_all_iff)

text \<open>An index determines the length block it lies in.\<close>

lemma geometric_block_unique:
  assumes "0 \<le> b" "geometric b (l - 1) \<le> i" "i < geometric b l"
    "geometric b (m - 1) \<le> i" "i < geometric b m"
  shows "l = m"
proof (rule ccontr)
  assume "l \<noteq> m"
  then consider "l \<le> m - 1" | "m \<le> l - 1" by linarith
  then show False
  proof cases
    case 1
    with geometric_mono [OF assms(1) this] assms show False by linarith
  next
    case 2
    with geometric_mono [OF assms(1) this] assms show False by linarith
  qed
qed

section \<open>The bijection between indices and tokens\<close>

lemma token_at_safe:
  assumes "a \<noteq> []" and "0 \<le> i" and "i < geometric (int (length a)) w"
  shows "\<exists>t. token_at i (int w) a = Inr t \<and> is_safe_token t a \<and> length t \<le> w"
proof -
  obtain l where "1 \<le> l" "l \<le> w" and eq: "token_at i (int w) a
        = Inr (rev (token_digits l a (int (length a)) (i - geometric (int (length a)) (l - 1))))"
    using token_at_block [OF assms] by blast
  moreover have "0 < length a" using assms(1) by simp
  ultimately show ?thesis
    using set_token_digits [of a l] by (auto simp: is_safe_token_iff simp flip: length_greater_0_conv)
qed

lemma token_index_at:
  assumes "distinct a" and "a \<noteq> []" and "0 \<le> i" and "i < geometric (int (length a)) w"
    and "token_at i (int w) a = Inr t"
  shows "token_index t a = Inr i"
proof -
  let ?b = "int (length a)"
  obtain l where l: "1 \<le> l" "geometric ?b (l - 1) \<le> i" "i < geometric ?b l"
    and t: "t = rev (token_digits l a ?b (i - geometric ?b (l - 1)))"
    using token_at_block [OF assms(2-4)] assms(5) by auto
  obtain m where m: "l = Suc m" using l(1) by (cases l) auto
  have "i - geometric ?b (l - 1) < ?b ^ l" using l(3) m by simp
  then have "token_value a t = i - geometric ?b (l - 1)"
    using assms(1,2) l(2) unfolding t by (intro token_value_digits) auto
  moreover have "is_safe_token t a"
    using token_at_safe [OF assms(2-4)] assms(5) by auto
  ultimately show ?thesis by (simp add: token_index_eq t)
qed

lemma token_index_bounds:
  assumes "is_safe_token t a" and "length t \<le> w"
  shows "\<exists>i. token_index t a = Inr i \<and> 0 \<le> i \<and> i < geometric (int (length a)) w
    \<and> geometric (int (length a)) (length t - 1) \<le> i \<and> i < geometric (int (length a)) (length t)"
proof -
  let ?b = "int (length a)"
  have t: "t \<noteq> []" "set t \<subseteq> set a" using assms(1) by (auto simp: is_safe_token_iff)
  obtain m where m: "length t = Suc m" using t(1) by (cases t) auto
  have v: "0 \<le> token_value a t" "token_value a t < ?b ^ length t"
    using token_value_bounds t(2) by auto
  have up: "geometric ?b m + token_value a t < geometric ?b (Suc m)" using v m by simp
  then have "geometric ?b m + token_value a t < geometric ?b w"
    using geometric_mono [of ?b "Suc m" w] assms(2) m by linarith
  then show ?thesis
    using token_index_eq [OF assms(1)] v(1) up m geometric_nonneg [of ?b m] by simp
qed

lemma token_at_index:
  assumes "is_safe_token t a" and "length t \<le> w" and "token_index t a = Inr i"
  shows "token_at i (int w) a = Inr t"
proof -
  let ?b = "int (length a)"
  have t: "t \<noteq> []" "set t \<subseteq> set a" using assms(1) by (auto simp: is_safe_token_iff)
  then have a: "a \<noteq> []" by auto
  have i: "0 \<le> i" "i < geometric ?b w" "geometric ?b (length t - 1) \<le> i" "i < geometric ?b (length t)"
    using token_index_bounds [OF assms(1,2)] assms(3) by auto
  obtain l where l: "geometric ?b (l - 1) \<le> i" "i < geometric ?b l"
    and eq: "token_at i (int w) a = Inr (rev (token_digits l a ?b (i - geometric ?b (l - 1))))"
    using token_at_block [OF a i(1,2)] by blast
  have "l = length t" using geometric_block_unique [OF _ l i(3,4)] by simp
  moreover have "i - geometric ?b (length t - 1) = token_value a t"
    using token_index_eq [OF assms(1)] assms(3) by simp
  ultimately show ?thesis using eq token_digits_value [OF t(2)] by simp
qed

lemma token_space_nonpositive: "token_space w b = Inr n \<Longrightarrow> w < 1 \<Longrightarrow> n = 0"
  by (auto simp: token_space_def split: if_splits)

text \<open>
  C14. \<open>token_at\<close> and \<open>token_index\<close> are an exact bijection: for a duplicate-free alphabet, the
  indices below \<open>token_space(max_width, len(alphabet))\<close> enumerate, without repetition, exactly the
  safe tokens of length at most \<open>max_width\<close>, and \<open>token_index\<close> recovers every index.
\<close>

theorem token_space_bijection:
  assumes "distinct alphabet" and "alphabet \<noteq> []" and "0 \<le> max_width"
    and "token_space max_width (int (length alphabet)) = Inr space"
  shows "bij_betw (\<lambda>i. projr (token_at i max_width alphabet)) {0..<space}
           {t. is_safe_token t alphabet \<and> int (length t) \<le> max_width}
    \<and> (\<forall>i t. token_at i max_width alphabet = Inr t \<longrightarrow> token_index t alphabet = Inr i)"
proof -
  obtain w where w: "max_width = int w" using assms(3) by (metis nonneg_int_cases)
  have "1 \<le> int (length alphabet)" using assms(2) by (cases alphabet) auto
  then have sp: "space = geometric (int (length alphabet)) w"
    using assms(3,4) w by (simp add: token_space_geometric)
  have inv: "token_index t alphabet = Inr i" if "token_at i max_width alphabet = Inr t" for i t
  proof -
    have "0 \<le> i \<and> i < space" using that assms(4) by (auto simp: token_at_def Let_def split: if_splits)
    then show ?thesis using token_index_at [OF assms(1,2)] that w sp by auto
  qed
  have "bij_betw (\<lambda>i. projr (token_at i max_width alphabet)) {0..<space}
           {t. is_safe_token t alphabet \<and> int (length t) \<le> max_width}"
  proof (rule bij_betw_byWitness [where f' = "\<lambda>t. projr (token_index t alphabet)"])
    show "\<forall>i\<in>{0..<space}. projr (token_index (projr (token_at i max_width alphabet)) alphabet) = i"
      using token_at_safe [OF assms(2)] inv w sp by fastforce
    show "\<forall>t\<in>{t. is_safe_token t alphabet \<and> int (length t) \<le> max_width}.
        projr (token_at (projr (token_index t alphabet)) max_width alphabet) = t"
      using token_index_bounds token_at_index w by fastforce
    show "(\<lambda>i. projr (token_at i max_width alphabet)) ` {0..<space}
        \<subseteq> {t. is_safe_token t alphabet \<and> int (length t) \<le> max_width}"
      using token_at_safe [OF assms(2)] w sp by fastforce
    show "(\<lambda>t. projr (token_index t alphabet)) ` {t. is_safe_token t alphabet \<and> int (length t) \<le> max_width}
        \<subseteq> {0..<space}"
      using token_index_bounds w sp by fastforce
  qed
  with inv show ?thesis by blast
qed

theorem token_space_bijection_witness:
  "bij_betw (\<lambda>i. projr (token_at i 3 (ascii ''AB''))) {0..<14}
     {t. is_safe_token t (ascii ''AB'') \<and> int (length t) \<le> 3}
   \<and> token_index (ascii ''BA'') (ascii ''AB'') = Inr 4"
proof -
  have sp: "token_space 3 (int (length (ascii ''AB''))) = Inr 14" by code_simp
  have d: "distinct (ascii ''AB'')" "ascii ''AB'' \<noteq> []" by code_simp+
  have "token_at 4 3 (ascii ''AB'') = Inr (ascii ''BA'')" by code_simp
  then show ?thesis
    using token_space_bijection [OF d _ sp] by simp
qed

text \<open>
  The early-exit capacity test agrees with the exact size: \<open>token_space_at_least\<close> answers
  exactly whether at least \<open>needed\<close> distinct tokens exist, for every width and base, and never
  needs the full sum.
\<close>

theorem token_space_at_least_exact:
  assumes "0 < needed"
  shows "token_space_at_least max_width base needed
    \<longleftrightarrow> (\<exists>space. token_space max_width base = Inr space \<and> needed \<le> space)"
proof (cases "max_width < 1 \<or> base < 1")
  case True
  then show ?thesis
    using assms token_space_nonpositive [of max_width base]
    by (fastforce simp: token_space_at_least_def token_space_def split: if_splits)
next
  case False
  then show ?thesis
    using assms token_space_at_least_loop_iff [of base 1 0 needed "nat max_width"]
    by (simp add: token_space_at_least_def token_space_geometric)
qed

theorem token_space_at_least_exact_witness:
  "token_space_at_least 3 2 14 \<and> \<not> token_space_at_least 3 2 15"
proof -
  have "token_space 3 2 = Inr 14" by code_simp
  then show ?thesis
    using token_space_at_least_exact [of 14 3 2] token_space_at_least_exact [of 15 3 2] by simp
qed

end
