(* ===== verification/Py_Codecs.thy ===== *)
theory Py_Codecs
  imports Text_Tokens
begin

text \<open>
  The part of Python's codec machinery the program relies on: the strict UTF-8 codec (the
  storage image of text memo payloads and the grouping identity of text values), and a registry
  of three standard codecs on which the codec interface of the text kernels is interpreted.
\<close>

section \<open>Strict UTF-8\<close>

definition utf8_char :: "nat \<Rightarrow> bytes option" where
  "utf8_char c =
     (if c < 0x80 then Some [c]
      else if c < 0x800 then Some [0xC0 + c div 64, 0x80 + c mod 64]
      else if 0xD800 \<le> c \<and> c \<le> 0xDFFF then None
      else if c < 0x10000 then
        Some [0xE0 + c div 4096, 0x80 + c div 64 mod 64, 0x80 + c mod 64]
      else if c \<le> 0x10FFFF then
        Some [0xF0 + c div 262144, 0x80 + c div 4096 mod 64, 0x80 + c div 64 mod 64,
              0x80 + c mod 64]
      else None)"

fun utf8_encode :: "pystr \<Rightarrow> bytes option" where
  "utf8_encode [] = Some []"
| "utf8_encode (c # cs) =
     (case utf8_char c of
        None \<Rightarrow> None
      | Some b \<Rightarrow> map_option (\<lambda>bs. b @ bs) (utf8_encode cs))"

definition continuation :: "nat \<Rightarrow> bool" where
  "continuation b \<longleftrightarrow> 0x80 \<le> b \<and> b < 0xC0"

text \<open>
  The strict decoder refuses stray continuation bytes, overlong forms, surrogates, code points
  above \<open>0x10FFFF\<close> and truncated sequences.
\<close>

fun utf8_decode :: "bytes \<Rightarrow> pystr option" where
  "utf8_decode [] = Some []"
| "utf8_decode (b # bs) =
     (if b < 0x80 then map_option (\<lambda>cs. b # cs) (utf8_decode bs)
      else if 0xC2 \<le> b \<and> b < 0xE0 then
        (case bs of
           b1 # bs' \<Rightarrow>
             if continuation b1
             then map_option (\<lambda>cs. ((b - 0xC0) * 64 + (b1 - 0x80)) # cs) (utf8_decode bs')
             else None
         | _ \<Rightarrow> None)
      else if 0xE0 \<le> b \<and> b < 0xF0 then
        (case bs of
           b1 # b2 # bs' \<Rightarrow>
             let c = (b - 0xE0) * 4096 + (b1 - 0x80) * 64 + (b2 - 0x80)
             in if continuation b1 \<and> continuation b2 \<and> 0x800 \<le> c \<and> \<not> (0xD800 \<le> c \<and> c \<le> 0xDFFF)
                then map_option (\<lambda>cs. c # cs) (utf8_decode bs')
                else None
         | _ \<Rightarrow> None)
      else if 0xF0 \<le> b \<and> b < 0xF5 then
        (case bs of
           b1 # b2 # b3 # bs' \<Rightarrow>
             let c = (b - 0xF0) * 262144 + (b1 - 0x80) * 4096 + (b2 - 0x80) * 64 + (b3 - 0x80)
             in if continuation b1 \<and> continuation b2 \<and> continuation b3
                  \<and> 0x10000 \<le> c \<and> c \<le> 0x10FFFF
                then map_option (\<lambda>cs. c # cs) (utf8_decode bs')
                else None
         | _ \<Rightarrow> None)
      else None)"

lemma split64: "(c::nat) = c div 4096 * 4096 + c div 64 mod 64 * 64 + c mod 64"
proof -
  have "c div 4096 = c div 64 div 64" by (simp add: div_mult2_eq [symmetric])
  then have "c div 64 = c div 4096 * 64 + c div 64 mod 64" by simp
  moreover have "c = c div 64 * 64 + c mod 64" by simp
  ultimately show ?thesis by linarith
qed

lemma split64_4:
  "(c::nat) = c div 262144 * 262144 + c div 4096 mod 64 * 4096 + c div 64 mod 64 * 64 + c mod 64"
proof -
  have "c div 262144 = c div 4096 div 64" by (simp add: div_mult2_eq [symmetric])
  then have "c div 4096 = c div 262144 * 64 + c div 4096 mod 64" by simp
  with split64 [of c] show ?thesis by linarith
qed

lemma utf8_decode_char:
  assumes "utf8_char c = Some b"
  shows "utf8_decode (b @ bs) = map_option (\<lambda>cs. c # cs) (utf8_decode bs)"
proof -
  consider (one) "c < 0x80" | (two) "0x80 \<le> c" "c < 0x800"
    | (three) "0x800 \<le> c" "c < 0x10000" "\<not> (0xD800 \<le> c \<and> c \<le> 0xDFFF)"
    | (four) "0x10000 \<le> c" "c \<le> 0x10FFFF"
    using assms by (fastforce simp: utf8_char_def split: if_splits)
  then show ?thesis
  proof cases
    case one
    then show ?thesis using assms by (auto simp: utf8_char_def)
  next
    case two
    then have b: "b = [0xC0 + c div 64, 0x80 + c mod 64]"
      using assms by (simp add: utf8_char_def)
    have "c div 64 * 64 + c mod 64 = c" by simp
    moreover have "2 \<le> c div 64" "c div 64 < 32" using two by auto
    ultimately show ?thesis unfolding b by (simp add: continuation_def)
  next
    case three
    then have b: "b = [0xE0 + c div 4096, 0x80 + c div 64 mod 64, 0x80 + c mod 64]"
      using assms by (auto simp: utf8_char_def split: if_splits)
    have "c div 4096 < 16" using three by auto
    then show ?thesis unfolding b
      using three split64 [of c, symmetric] by (simp add: continuation_def Let_def)
  next
    case four
    then have b: "b = [0xF0 + c div 262144, 0x80 + c div 4096 mod 64, 0x80 + c div 64 mod 64,
        0x80 + c mod 64]"
      using assms by (auto simp: utf8_char_def split: if_splits)
    have "c div 262144 < 5" using four by auto
    then show ?thesis unfolding b
      using four split64_4 [of c, symmetric] by (simp add: continuation_def Let_def)
  qed
qed

lemma utf8_roundtrip: "utf8_encode s = Some b \<Longrightarrow> utf8_decode b = Some s"
proof (induction s arbitrary: b)
  case Nil
  then show ?case by simp
next
  case (Cons c s)
  then obtain b1 b2 where "utf8_char c = Some b1" "utf8_encode s = Some b2" "b = b1 @ b2"
    by (auto split: option.splits)
  then show ?case using Cons.IH [of b2] utf8_decode_char [of c b1 b2] by simp
qed

lemma utf8_encode_inj: "utf8_encode s = Some b \<Longrightarrow> utf8_encode t = Some b \<Longrightarrow> s = t"
  by (metis utf8_roundtrip option.inject)

section \<open>The codec interface\<close>

text \<open>
  What the text kernels rely on: a codec encodes a longer text as the concatenation of the
  encodings of its characters (charmap codecs and UTF-8 do; a codec that adds a signature or a
  terminator is refused by the single-character test of \<open>candidate_alphabet\<close>).
\<close>

locale stateless_codec =
  fixes encode :: codec
  assumes encode_cons: "cs \<noteq> [] \<Longrightarrow>
    encode e (c # cs) =
      (case encode e [c] of None \<Rightarrow> None | Some b \<Rightarrow> map_option (\<lambda>bs. b @ bs) (encode e cs))"
begin

lemma accepted_char:
  "character_accepted encode es c \<Longrightarrow> e \<in> set es \<Longrightarrow> \<exists>b. encode e [c] = Some [b]"
  by (induction es) (auto split: option.splits if_splits simp: length_Suc_conv)

lemma safe_token_encoded:
  assumes "set t \<subseteq> set (candidate_alphabet encode es)" and "t \<noteq> []" and "e \<in> set es"
  shows "\<exists>b. encode e t = Some b \<and> length b = length t"
  using assms(1,2)
proof (induction t)
  case Nil
  then show ?case by simp
next
  case (Cons c t)
  have "character_accepted encode es c"
    using Cons.prems by (simp add: candidate_alphabet_def)
  then obtain b where b: "encode e [c] = Some [b]" using accepted_char assms(3) by blast
  show ?case
  proof (cases "t = []")
    case True
    then show ?thesis using b by simp
  next
    case False
    then obtain bs where "encode e t = Some bs" "length bs = length t" using Cons by auto
    then show ?thesis using b encode_cons [OF False, of e c] by simp
  qed
qed

lemma safe_token_max_length:
  assumes "set t \<subseteq> set (candidate_alphabet encode es)" and "t \<noteq> []" and "es \<noteq> []"
  shows "max_encoded_byte_length encode t es = Some (length t)"
proof -
  have step: "max_encoded_loop encode t l fs = (if fs = [] then l else Some (length t))"
    if "set fs \<subseteq> set es" "l = None \<or> l = Some (length t)" for l fs
    using that
  proof (induction fs arbitrary: l)
    case Nil
    then show ?case by simp
  next
    case (Cons e fs)
    obtain b where "encode e t = Some b" "length b = length t"
      using safe_token_encoded [OF assms(1,2), of e] Cons.prems by auto
    then show ?case using Cons by (auto simp: encoded_byte_length_def)
  qed
  show ?thesis using step [of es None] assms(3) by (simp add: max_encoded_byte_length_def)
qed

end

section \<open>Standard codecs\<close>

definition charmap_encode :: "nat \<Rightarrow> pystr \<Rightarrow> bytes option" where
  "charmap_encode limit s = (if list_all (\<lambda>c. c < limit) s then Some s else None)"

definition std_codec :: codec where
  "std_codec e s =
     (if e = ''ascii'' then charmap_encode 128 s
      else if e = ''latin-1'' then charmap_encode 256 s
      else if e = ''utf-8'' then utf8_encode s
      else None)"

interpretation std: stateless_codec std_codec
  by unfold_locales (auto simp: std_codec_def charmap_encode_def split: option.splits)

lemma distinct_safe_alphabet: "distinct SAFE_TEXT_ALPHABET"
  by code_simp

lemma distinct_candidate_alphabet: "distinct (candidate_alphabet encode es)"
  by (simp add: candidate_alphabet_def distinct_safe_alphabet)

text \<open>
  Tokens over the candidate alphabet fit every participating field: for a codec registry that
  encodes character by character, a safe token over \<open>candidate_alphabet\<close> encodes under every
  participating encoding, to exactly one byte per character, so its largest encoded length is its
  number of characters.
\<close>

theorem safe_token_fits_encodings:
  assumes "stateless_codec encode" and "is_safe_token t (candidate_alphabet encode es)" and "es \<noteq> []"
  shows "max_encoded_byte_length encode t es = Some (length t)
    \<and> (\<forall>e\<in>set es. \<exists>b. encode e t = Some b \<and> length b = length t)"
proof -
  have t: "set t \<subseteq> set (candidate_alphabet encode es)" "t \<noteq> []"
    using assms(2) by (auto simp: is_safe_token_iff)
  show ?thesis
    using stateless_codec.safe_token_max_length [OF assms(1) t assms(3)]
      stateless_codec.safe_token_encoded [OF assms(1) t] by blast
qed

theorem safe_token_fits_encodings_witness:
  "max_encoded_byte_length std_codec (ascii ''Q7'') [''latin-1'', ''utf-8''] = Some 2"
proof -
  have "is_safe_token (ascii ''Q7'') (candidate_alphabet std_codec [''latin-1'', ''utf-8''])" by code_simp
  from safe_token_fits_encodings [OF std.stateless_codec_axioms this] show ?thesis by (simp add: ascii_def)
qed

end
