(* ===== verification/Vault_Mappings.thy ===== *)
theory Vault_Mappings
  imports Vault_Store Numeric_Keys Memo_Mask Py_Codecs
    "HOL-Library.Multiset" "HOL-Library.List_Lexorder" "HOL-Library.Product_Lexorder" "HOL-Library.Char_ord"
begin

text \<open>
  The mapping rows of the vault (\<^verbatim>\<open>src/src/dbf_anonymizer/vault/mappings.py\<close>): the recorders and
  lookups of mapping domains, text and numeric mappings, memo recovery rows and temporal
  parameters. A violated \<open>UNIQUE\<close>, \<open>PRIMARY KEY\<close>, \<open>CHECK\<close> or foreign-key constraint of the
  schema is SQLite's \<open>IntegrityError\<close>: the pure insertion into the database returns \<open>None\<close>.
\<close>

section \<open>Mapping domains\<close>

definition KIND_TEXT :: string where "KIND_TEXT = ''TEXT''"
definition KIND_NUMERIC_KEY :: string where "KIND_NUMERIC_KEY = ''NUMERIC_KEY''"
definition KIND_TEMPORAL :: string where "KIND_TEMPORAL = ''TEMPORAL''"

definition mapping_conflict :: "string \<Rightarrow> error" where
  "mapping_conflict detail = MappingError MAPPING_CONFLICT detail"

definition vault_state_failure :: "string \<Rightarrow> error" where
  "vault_state_failure detail = VaultError VAULT_STATE_INVALID detail"

definition has_domain_db :: "database \<Rightarrow> string \<Rightarrow> bool" where
  "has_domain_db db d = list_ex (\<lambda>r. dr_id r = d) (mapping_domains_tbl db)"

definition insert_domain :: "domain_row \<Rightarrow> database \<Rightarrow> database option" where
  "insert_domain r db =
     (if has_domain_db db (dr_id r) \<or> \<not> (1 \<le> length (dr_kind r) \<and> length (dr_kind r) \<le> 64) then None
      else Some (db\<lparr>mapping_domains_tbl := mapping_domains_tbl db @ [r]\<rparr>))"

text \<open>Run one statement on the connection; \<open>None\<close> is the \<open>IntegrityError\<close> branch.\<close>

definition execute_insert :: "(database \<Rightarrow> database option) \<Rightarrow> error \<Rightarrow> (unit, 'x) vm" where
  "execute_insert stmt rejected =
     bindV internal_connection (\<lambda>db v.
       case stmt db of
         None \<Rightarrow> (Inl rejected, v)
       | Some db' \<Rightarrow> (Inr (), v\<lparr>working := db'\<rparr>))"

text \<open>
  Binding a statement parameter: a text with lone surrogates has no UTF-8 form (\<open>UnicodeEncodeError\<close>,
  a subclass of \<open>ValueError\<close>) and an integer beyond 64 bits raises \<open>OverflowError\<close>.
\<close>

definition bind_text :: "pystr \<Rightarrow> unit result" where
  "bind_text s = guardE (utf8_encode s \<noteq> None) ValueError"

definition bind_int :: "int \<Rightarrow> unit result" where
  "bind_int i = guardE (- (2 ^ 63) \<le> i \<and> i < 2 ^ 63) OverflowError"

definition validate_optional_token :: "string option \<Rightarrow> unit result" where
  "validate_optional_token x =
     (case x of None \<Rightarrow> Inr () | Some t \<Rightarrow> bindE (validate_token t) (\<lambda>_. Inr ()))"

definition create_domain ::
    "string \<Rightarrow> string option \<Rightarrow> string option \<Rightarrow> string option \<Rightarrow> string \<Rightarrow> (string, 'x) vm" where
  "create_domain domain_kind normalization relational_role domain_id fresh_hex =
     bindV require_active_transaction (\<lambda>_.
     bindV (guardV (domain_kind \<in> {KIND_TEXT, KIND_NUMERIC_KEY, KIND_TEMPORAL}) ValueError) (\<lambda>_.
     bindV (liftV (case domain_id of None \<Rightarrow> Inr (''dom-'' @ fresh_hex) | Some d \<Rightarrow> validate_token d)) (\<lambda>d.
     bindV (liftV (validate_optional_token normalization)) (\<lambda>_.
     bindV (liftV (validate_optional_token relational_role)) (\<lambda>_.
     bindV (execute_insert (insert_domain \<lparr>dr_id = d, dr_kind = domain_kind,
         dr_normalization = normalization, dr_role = relational_role\<rparr>)
         (vault_state_failure ''DOMAIN_REJECTED'')) (\<lambda>_. retV d))))))"

definition mapping_domains :: "(domain_row list, 'x) vm" where
  "mapping_domains = bindV internal_connection (\<lambda>db. retV (sort_key dr_id (mapping_domains_tbl db)))"

definition has_domain :: "string \<Rightarrow> (bool, 'x) vm" where
  "has_domain d = bindV mapping_domains (\<lambda>rows. retV (list_ex (\<lambda>r. dr_id r = d) rows))"

section \<open>Text mappings\<close>

text \<open>SQLite's cross-type order: NULL, numbers, text, blobs.\<close>

fun sql_order_key :: "sqlval \<Rightarrow> nat \<times> int \<times> nat list" where
  "sql_order_key SNull = (0, 0, [])"
| "sql_order_key (SInt i) = (1, i, [])"
| "sql_order_key (SReal r) = (1, int r, [])"
| "sql_order_key (SText s) = (2, 0, s)"
| "sql_order_key (SBlob b) = (3, 0, b)"

definition insert_text :: "text_row \<Rightarrow> database \<Rightarrow> database option" where
  "insert_text r db =
     (if \<not> has_domain_db db (tr_domain r)
        \<or> list_ex (\<lambda>q. tr_domain q = tr_domain r \<and> tr_original q = tr_original r) (text_mappings_tbl db)
        \<or> list_ex (\<lambda>q. tr_domain q = tr_domain r \<and> tr_pseudonym q = tr_pseudonym r) (text_mappings_tbl db)
      then None
      else Some (db\<lparr>text_mappings_tbl := text_mappings_tbl db @ [r]\<rparr>))"

definition add_text_mapping :: "string \<Rightarrow> pystr \<Rightarrow> pystr \<Rightarrow> int \<Rightarrow> (unit, 'x) vm" where
  "add_text_mapping domain_id original pseudonym logical_byte_length =
     bindV require_active_transaction (\<lambda>_.
     bindV (liftV (validate_token domain_id)) (\<lambda>_.
     bindV (guardV (0 \<le> logical_byte_length) ValueError) (\<lambda>_.
     bindV internal_connection (\<lambda>_.
     bindV (liftV (bind_text original)) (\<lambda>_.
     bindV (liftV (bind_text pseudonym)) (\<lambda>_.
     bindV (liftV (bind_int logical_byte_length)) (\<lambda>_.
     execute_insert (insert_text \<lparr>tr_domain = domain_id, tr_original = SText original,
         tr_pseudonym = SText pseudonym, tr_length = SInt logical_byte_length\<rparr>)
       (mapping_conflict ''MAPPING_BIJECTION_REJECTED''))))))))"

definition text_cell :: "sqlval \<Rightarrow> error \<Rightarrow> pystr result" where
  "text_cell c corrupt = (case c of SText s \<Rightarrow> Inr s | _ \<Rightarrow> Inl corrupt)"

definition text_corrupt :: error where "text_corrupt = vault_state_failure ''TEXT_MAPPING_CORRUPT''"

definition text_pseudonym_db :: "database \<Rightarrow> string \<Rightarrow> pystr \<Rightarrow> pystr option result" where
  "text_pseudonym_db db d original =
     (case find (\<lambda>r. tr_domain r = d \<and> tr_original r = SText original) (text_mappings_tbl db) of
        None \<Rightarrow> Inr None
      | Some r \<Rightarrow> bindE (text_cell (tr_pseudonym r) text_corrupt) (\<lambda>s. Inr (Some s)))"

definition get_text_pseudonym :: "string \<Rightarrow> pystr \<Rightarrow> (pystr option, 'x) vm" where
  "get_text_pseudonym d original =
     bindV internal_connection (\<lambda>db.
     bindV (liftV (bind_text original)) (\<lambda>_. liftV (text_pseudonym_db db d original)))"

definition text_original_db :: "database \<Rightarrow> string \<Rightarrow> pystr \<Rightarrow> pystr option result" where
  "text_original_db db d pseudonym =
     (case find (\<lambda>r. tr_domain r = d \<and> tr_pseudonym r = SText pseudonym) (text_mappings_tbl db) of
        None \<Rightarrow> Inr None
      | Some r \<Rightarrow> bindE (text_cell (tr_original r) text_corrupt) (\<lambda>s. Inr (Some s)))"

definition get_text_original :: "string \<Rightarrow> pystr \<Rightarrow> (pystr option, 'x) vm" where
  "get_text_original d pseudonym =
     bindV internal_connection (\<lambda>db.
     bindV (liftV (bind_text pseudonym)) (\<lambda>_. liftV (text_original_db db d pseudonym)))"

definition int_cell :: "sqlval \<Rightarrow> error \<Rightarrow> int result" where
  "int_cell c corrupt = (case c of SInt i \<Rightarrow> Inr i | _ \<Rightarrow> Inl corrupt)"

definition text_rows_db :: "database \<Rightarrow> string \<Rightarrow> (pystr \<times> pystr \<times> int) list result" where
  "text_rows_db db d =
     mapE (\<lambda>r. bindE (text_cell (tr_original r) text_corrupt) (\<lambda>x.
               bindE (text_cell (tr_pseudonym r) text_corrupt) (\<lambda>y.
               bindE (int_cell (tr_length r) text_corrupt) (\<lambda>n. Inr (x, y, n)))))
       (sort_key (\<lambda>r. sql_order_key (tr_original r)) (filter (\<lambda>r. tr_domain r = d) (text_mappings_tbl db)))"

definition text_mapping_rows :: "string \<Rightarrow> ((pystr \<times> pystr \<times> int) list, 'x) vm" where
  "text_mapping_rows d = bindV internal_connection (\<lambda>db. liftV (text_rows_db db d))"

section \<open>Numeric key mappings\<close>

definition insert_numeric :: "numeric_row \<Rightarrow> database \<Rightarrow> database option" where
  "insert_numeric r db =
     (if \<not> has_domain_db db (nr_domain r)
        \<or> list_ex (\<lambda>q. nr_domain q = nr_domain r \<and> nr_original q = nr_original r) (numeric_key_mappings_tbl db)
        \<or> list_ex (\<lambda>q. nr_domain q = nr_domain r \<and> nr_pseudonym q = nr_pseudonym r) (numeric_key_mappings_tbl db)
      then None
      else Some (db\<lparr>numeric_key_mappings_tbl := numeric_key_mappings_tbl db @ [r]\<rparr>))"

definition validate_canonical_numeric_text :: "pystr \<Rightarrow> pystr result" where
  "validate_canonical_numeric_text t = (if canonical_integer_match t then Inr t else Inl ValueError)"

definition add_numeric_key_mapping :: "string \<Rightarrow> pystr \<Rightarrow> pystr \<Rightarrow> (unit, 'x) vm" where
  "add_numeric_key_mapping domain_id original pseudonym =
     bindV require_active_transaction (\<lambda>_.
     bindV (liftV (validate_token domain_id)) (\<lambda>_.
     bindV (liftV (validate_canonical_numeric_text original)) (\<lambda>_.
     bindV (liftV (validate_canonical_numeric_text pseudonym)) (\<lambda>_.
     execute_insert (insert_numeric \<lparr>nr_domain = domain_id, nr_original = SText original,
         nr_pseudonym = SText pseudonym\<rparr>)
       (mapping_conflict ''MAPPING_BIJECTION_REJECTED'')))))"

definition numeric_corrupt :: error where
  "numeric_corrupt = vault_state_failure ''NUMERIC_MAPPING_CORRUPT''"

definition numeric_cell :: "sqlval \<Rightarrow> pystr result" where
  "numeric_cell c =
     (case c of
        SText s \<Rightarrow> if canonical_integer_match s then Inr s else Inl numeric_corrupt
      | _ \<Rightarrow> Inl numeric_corrupt)"

definition numeric_pseudonym_db :: "database \<Rightarrow> string \<Rightarrow> pystr \<Rightarrow> pystr option result" where
  "numeric_pseudonym_db db d original =
     (case find (\<lambda>r. nr_domain r = d \<and> nr_original r = SText original) (numeric_key_mappings_tbl db) of
        None \<Rightarrow> Inr None
      | Some r \<Rightarrow> bindE (numeric_cell (nr_pseudonym r)) (\<lambda>s. Inr (Some s)))"

definition get_numeric_pseudonym :: "string \<Rightarrow> pystr \<Rightarrow> (pystr option, 'x) vm" where
  "get_numeric_pseudonym d original =
     bindV internal_connection (\<lambda>db.
     bindV (liftV (bind_text original)) (\<lambda>_. liftV (numeric_pseudonym_db db d original)))"

definition numeric_original_db :: "database \<Rightarrow> string \<Rightarrow> pystr \<Rightarrow> pystr option result" where
  "numeric_original_db db d pseudonym =
     (case find (\<lambda>r. nr_domain r = d \<and> nr_pseudonym r = SText pseudonym) (numeric_key_mappings_tbl db) of
        None \<Rightarrow> Inr None
      | Some r \<Rightarrow> bindE (numeric_cell (nr_original r)) (\<lambda>s. Inr (Some s)))"

definition get_numeric_original :: "string \<Rightarrow> pystr \<Rightarrow> (pystr option, 'x) vm" where
  "get_numeric_original d pseudonym =
     bindV internal_connection (\<lambda>db.
     bindV (liftV (bind_text pseudonym)) (\<lambda>_. liftV (numeric_original_db db d pseudonym)))"

definition numeric_rows_db :: "database \<Rightarrow> string \<Rightarrow> (pystr \<times> pystr) list result" where
  "numeric_rows_db db d =
     mapE (\<lambda>r. bindE (numeric_cell (nr_original r)) (\<lambda>x.
               bindE (numeric_cell (nr_pseudonym r)) (\<lambda>y. Inr (x, y))))
       (sort_key (\<lambda>r. sql_order_key (nr_original r)) (filter (\<lambda>r. nr_domain r = d) (numeric_key_mappings_tbl db)))"

definition numeric_mapping_rows :: "string \<Rightarrow> ((pystr \<times> pystr) list, 'x) vm" where
  "numeric_mapping_rows d = bindV internal_connection (\<lambda>db. liftV (numeric_rows_db db d))"

section \<open>Memo recovery rows\<close>

fun kind_text :: "payload_kind \<Rightarrow> pystr" where
  "kind_text TEXT_KIND = ascii ''TEXT''"
| "kind_text BINARY_KIND = ascii ''BINARY''"

definition insert_memo :: "memo_row \<Rightarrow> database \<Rightarrow> database option" where
  "insert_memo r db =
     (if mr_index r < 0
        \<or> \<not> list_ex (\<lambda>t. tb_id t = mr_table r) (tables_tbl db)
        \<or> \<not> list_ex (\<lambda>f. fr_id f = mr_field r \<and> fr_table f = mr_table r) (fields_tbl db)
        \<or> list_ex (\<lambda>q. mr_table q = mr_table r \<and> mr_index q = mr_index r \<and> mr_field q = mr_field r)
            (memo_recovery_tbl db)
      then None
      else Some (db\<lparr>memo_recovery_tbl := memo_recovery_tbl db @ [r]\<rparr>))"

text \<open>
  \<open>str.encode("utf-8")\<close> of a text with lone surrogates raises \<open>UnicodeEncodeError\<close>, a subclass of
  \<open>ValueError\<close>.
\<close>

definition memo_blob :: "pyval \<Rightarrow> payload_kind \<Rightarrow> bytes result" where
  "memo_blob payload kind =
     (case kind of
        TEXT_KIND \<Rightarrow>
          (case payload of
             VStr s \<Rightarrow> (case utf8_encode s of None \<Rightarrow> Inl ValueError | Some b \<Rightarrow> Inr b)
           | _ \<Rightarrow> Inl ValueError)
      | BINARY_KIND \<Rightarrow>
          (case payload of VBytes b \<Rightarrow> Inr b | VByteArray b \<Rightarrow> Inr b | _ \<Rightarrow> Inl ValueError))"

definition add_memo_recovery :: "string \<Rightarrow> int \<Rightarrow> string \<Rightarrow> pyval \<Rightarrow> payload_kind \<Rightarrow> (unit, 'x) vm" where
  "add_memo_recovery table_id physical_record_index field_id payload kind =
     bindV require_active_transaction (\<lambda>_.
     bindV (liftV (validate_token table_id)) (\<lambda>_.
     bindV (liftV (validate_token field_id)) (\<lambda>_.
     bindV (guardV (0 \<le> physical_record_index) ValueError) (\<lambda>_.
     bindV (liftV (memo_blob payload kind)) (\<lambda>blob.
     bindV internal_connection (\<lambda>_.
     bindV (liftV (bind_int physical_record_index)) (\<lambda>_.
     execute_insert (insert_memo \<lparr>mr_table = table_id, mr_index = physical_record_index,
         mr_field = field_id, mr_payload = SBlob blob, mr_kind = SText (kind_text kind)\<rparr>)
       (vault_state_failure ''MEMO_ROW_REJECTED''))))))))"

definition memo_row_db :: "database \<Rightarrow> string \<Rightarrow> int \<Rightarrow> string \<Rightarrow> (bytes \<times> pystr) option result" where
  "memo_row_db db table_id index field_id =
     (case find (\<lambda>r. mr_table r = table_id \<and> mr_index r = index \<and> mr_field r = field_id)
             (memo_recovery_tbl db) of
        None \<Rightarrow> Inr None
      | Some r \<Rightarrow>
          (case (mr_payload r, mr_kind r) of
             (SBlob b, SText k) \<Rightarrow> Inr (Some (b, k))
           | _ \<Rightarrow> Inl (vault_state_failure ''MEMO_ROW_CORRUPT'')))"

definition get_memo_recovery :: "string \<Rightarrow> int \<Rightarrow> string \<Rightarrow> ((bytes \<times> pystr) option, 'x) vm" where
  "get_memo_recovery table_id physical_record_index field_id =
     bindV (liftV (validate_token table_id)) (\<lambda>_.
     bindV (liftV (validate_token field_id)) (\<lambda>_.
     bindV (guardV (0 \<le> physical_record_index) ValueError) (\<lambda>_.
     bindV internal_connection (\<lambda>db.
     bindV (liftV (bind_int physical_record_index)) (\<lambda>_.
     liftV (memo_row_db db table_id physical_record_index field_id))))))"

section \<open>Temporal parameters\<close>

definition insert_temporal :: "temporal_row \<Rightarrow> database \<Rightarrow> database option" where
  "insert_temporal r db =
     (if \<not> has_domain_db db (pr_domain r) \<or> list_ex (\<lambda>q. pr_domain q = pr_domain r) (temporal_parameters_tbl db)
      then None
      else Some (db\<lparr>temporal_parameters_tbl := temporal_parameters_tbl db @ [r]\<rparr>))"

definition set_temporal_parameter :: "string \<Rightarrow> int \<Rightarrow> (unit, 'x) vm" where
  "set_temporal_parameter domain_id offset_days =
     bindV require_active_transaction (\<lambda>_.
     bindV (liftV (validate_token domain_id)) (\<lambda>_.
     bindV (guardV (offset_days \<noteq> 0) ValueError) (\<lambda>_.
     bindV internal_connection (\<lambda>_.
     bindV (liftV (bind_int offset_days)) (\<lambda>_.
     execute_insert (insert_temporal \<lparr>pr_domain = domain_id, pr_offset = SInt offset_days\<rparr>)
       (vault_state_failure ''TEMPORAL_REJECTED''))))))"

definition temporal_parameter_db :: "database \<Rightarrow> string \<Rightarrow> int option result" where
  "temporal_parameter_db db d =
     (case find (\<lambda>r. pr_domain r = d) (temporal_parameters_tbl db) of
        None \<Rightarrow> Inr None
      | Some r \<Rightarrow> bindE (int_cell (pr_offset r) (vault_state_failure ''TEMPORAL_STATE_INVALID''))
          (\<lambda>i. Inr (Some i)))"

definition temporal_parameter :: "string \<Rightarrow> (int option, 'x) vm" where
  "temporal_parameter d = bindV internal_connection (\<lambda>db. liftV (temporal_parameter_db db d))"

section \<open>The contract of a bijective mapping table\<close>

text \<open>
  What the allocators rely on, for one domain: the table is a partial injection \<open>assoc\<close>, both
  lookups read it, the listing returns its rows, and an insertion either extends it or is refused
  because one of its two sides is taken. \<open>key_ok\<close> holds of the values the recorder accepts.
\<close>

locale bijective_table =
  fixes ok :: "'db \<Rightarrow> bool"
    and key_ok :: "'k \<Rightarrow> bool"
    and assoc :: "'db \<Rightarrow> ('k \<times> 'k) list"
    and fwd :: "'db \<Rightarrow> 'k \<Rightarrow> 'k option result"
    and bwd :: "'db \<Rightarrow> 'k \<Rightarrow> 'k option result"
    and ins :: "'k \<Rightarrow> 'k \<Rightarrow> 'db \<Rightarrow> 'db option"
  assumes assoc_keys: "ok db \<Longrightarrow> (k, v) \<in> set (assoc db) \<Longrightarrow> key_ok k \<and> key_ok v"
    and assoc_distinct: "ok db \<Longrightarrow> distinct (map fst (assoc db)) \<and> distinct (map snd (assoc db))"
    and fwd_assoc: "ok db \<Longrightarrow> fwd db k = Inr (map_of (assoc db) k)"
    and bwd_assoc: "ok db \<Longrightarrow> bwd db v = Inr (map_of (map prod.swap (assoc db)) v)"
    and ins_taken: "ok db \<Longrightarrow> k \<in> fst ` set (assoc db) \<or> v \<in> snd ` set (assoc db) \<Longrightarrow> ins k v db = None"
    and ins_fresh: "ok db \<Longrightarrow> key_ok k \<Longrightarrow> key_ok v \<Longrightarrow> k \<notin> fst ` set (assoc db) \<Longrightarrow>
      v \<notin> snd ` set (assoc db) \<Longrightarrow>
      \<exists>db'. ins k v db = Some db' \<and> ok db' \<and> assoc db' = assoc db @ [(k, v)]"
begin

lemma fwd_iff: "ok db \<Longrightarrow> fwd db k = Inr (Some v) \<longleftrightarrow> (k, v) \<in> set (assoc db)"
  by (simp add: fwd_assoc assoc_distinct)

lemma bwd_iff: "ok db \<Longrightarrow> bwd db v = Inr (Some k) \<longleftrightarrow> (k, v) \<in> set (assoc db)"
proof -
  assume db: "ok db"
  have "distinct (map fst (map prod.swap (assoc db)))"
    using assoc_distinct [OF db] by (simp add: comp_def)
  then show ?thesis using bwd_assoc [OF db] by (auto simp: map_of_eq_Some_iff simp del: map_map)
qed

lemma inverse: "ok db \<Longrightarrow> fwd db k = Inr (Some v) \<longleftrightarrow> bwd db v = Inr (Some k)"
  by (simp add: fwd_iff bwd_iff)

lemma injective:
  "ok db \<Longrightarrow> fwd db k = Inr (Some v) \<Longrightarrow> fwd db k' = Inr (Some v) \<Longrightarrow> k = k'"
  by (simp add: inverse)

lemma fwd_none: "ok db \<Longrightarrow> fwd db k = Inr None \<longleftrightarrow> k \<notin> fst ` set (assoc db)"
  by (auto simp: fwd_assoc map_of_eq_None_iff)

lemma fwd_total: "ok db \<Longrightarrow> \<exists>r. fwd db k = Inr r"
  by (simp add: fwd_assoc)

lemma ins_Some:
  assumes "ok db" and "key_ok k" and "key_ok v" and "ins k v db = Some db'"
  shows "ok db'" and "assoc db' = assoc db @ [(k, v)]"
    and "k \<notin> fst ` set (assoc db)" and "v \<notin> snd ` set (assoc db)"
proof -
  show k: "k \<notin> fst ` set (assoc db)" and v: "v \<notin> snd ` set (assoc db)"
    using ins_taken [OF assms(1), of k v] assms(4) by auto
  show "ok db'" and "assoc db' = assoc db @ [(k, v)]"
    using ins_fresh [OF assms(1-3) k v] assms(4) by auto
qed

lemma ins_iff:
  assumes "ok db" and "key_ok k" and "key_ok v"
  shows "(\<exists>db'. ins k v db = Some db')
    \<longleftrightarrow> k \<notin> fst ` set (assoc db) \<and> v \<notin> snd ` set (assoc db)"
proof (cases "k \<in> fst ` set (assoc db) \<or> v \<in> snd ` set (assoc db)")
  case True
  then show ?thesis using ins_taken [OF assms(1)] by (metis option.discI)
next
  case False
  then show ?thesis using ins_fresh [OF assms] by blast
qed

lemma ins_lookup:
  assumes "ok db" and "key_ok k" and "key_ok v" and "ins k v db = Some db'"
  shows "fwd db' k = Inr (Some v)" and "bwd db' v = Inr (Some k)"
    and "fwd db k' = Inr (Some v') \<Longrightarrow> fwd db' k' = Inr (Some v')"
    and "bwd db w = Inr (Some u) \<Longrightarrow> bwd db' w = Inr (Some u)"
  using ins_Some [OF assms] assms(1) by (simp_all add: fwd_iff bwd_iff)

end

section \<open>The two tables meet the contract\<close>

fun cell_text :: "sqlval \<Rightarrow> pystr" where
  "cell_text (SText s) = s"
| "cell_text _ = []"

definition text_rows_of :: "string \<Rightarrow> database \<Rightarrow> text_row list" where
  "text_rows_of d db = filter (\<lambda>r. tr_domain r = d) (text_mappings_tbl db)"

definition text_assoc :: "string \<Rightarrow> database \<Rightarrow> (pystr \<times> pystr) list" where
  "text_assoc d db = map (\<lambda>r. (cell_text (tr_original r), cell_text (tr_pseudonym r))) (text_rows_of d db)"

definition bindable :: "pystr \<Rightarrow> bool" where
  "bindable s \<longleftrightarrow> utf8_encode s \<noteq> None"

definition text_row_ok :: "text_row \<Rightarrow> bool" where
  "text_row_ok r \<longleftrightarrow> (\<exists>x y n. tr_original r = SText x \<and> tr_pseudonym r = SText y \<and> tr_length r = SInt n
     \<and> bindable x \<and> bindable y)"

definition text_domain_ok :: "string \<Rightarrow> database \<Rightarrow> bool" where
  "text_domain_ok d db \<longleftrightarrow> has_domain_db db d \<and> (\<forall>r\<in>set (text_rows_of d db). text_row_ok r)
     \<and> distinct (map fst (text_assoc d db)) \<and> distinct (map snd (text_assoc d db))"

text \<open>A first-match search over a domain's rows is the lookup in its association list.\<close>

lemma find_filter: "find (\<lambda>r. P r \<and> Q r) xs = find Q (filter P xs)"
  by (induction xs) auto

lemma find_map_of:
  assumes "\<forall>r\<in>set xs. \<exists>s. key r = SText s"
  shows "map_of (map (\<lambda>r. (cell_text (key r), f r)) xs) k = map_option f (find (\<lambda>r. key r = SText k) xs)"
  using assms by (induction xs) auto

lemma map_swap_assoc: "map prod.swap (map (\<lambda>r. (f r, g r)) xs) = map (\<lambda>r. (g r, f r)) xs"
  by simp

lemma find_Some_set: "find P xs = Some x \<Longrightarrow> x \<in> set xs \<and> P x"
  by (induction xs) (auto split: if_splits)

lemma text_pseudonym_assoc:
  assumes "text_domain_ok d db"
  shows "text_pseudonym_db db d k = Inr (map_of (text_assoc d db) k)"
proof -
  have rows: "\<forall>r\<in>set (text_rows_of d db). text_row_ok r" using assms by (simp add: text_domain_ok_def)
  then have "map_of (text_assoc d db) k =
      map_option (\<lambda>r. cell_text (tr_pseudonym r)) (find (\<lambda>r. tr_original r = SText k) (text_rows_of d db))"
    unfolding text_assoc_def by (intro find_map_of) (auto simp: text_row_ok_def)
  then show ?thesis
    using rows find_Some_set [of _ "text_rows_of d db"]
    by (fastforce simp: text_pseudonym_db_def find_filter text_rows_of_def [symmetric] text_cell_def
        text_row_ok_def split: option.splits)
qed

lemma text_original_assoc:
  assumes "text_domain_ok d db"
  shows "text_original_db db d v = Inr (map_of (map prod.swap (text_assoc d db)) v)"
proof -
  have rows: "\<forall>r\<in>set (text_rows_of d db). text_row_ok r" using assms by (simp add: text_domain_ok_def)
  then have "map_of (map prod.swap (text_assoc d db)) v =
      map_option (\<lambda>r. cell_text (tr_original r)) (find (\<lambda>r. tr_pseudonym r = SText v) (text_rows_of d db))"
    unfolding text_assoc_def map_swap_assoc by (intro find_map_of) (auto simp: text_row_ok_def)
  then show ?thesis
    using rows find_Some_set [of _ "text_rows_of d db"]
    by (fastforce simp: text_original_db_def find_filter text_rows_of_def [symmetric] text_cell_def
        text_row_ok_def split: option.splits)
qed

definition text_insert_row :: "string \<Rightarrow> int \<Rightarrow> pystr \<Rightarrow> pystr \<Rightarrow> text_row" where
  "text_insert_row d n k v =
     \<lparr>tr_domain = d, tr_original = SText k, tr_pseudonym = SText v, tr_length = SInt n\<rparr>"

lemma text_insert_taken:
  assumes "text_domain_ok d db"
    and "k \<in> fst ` set (text_assoc d db) \<or> v \<in> snd ` set (text_assoc d db)"
  shows "insert_text (text_insert_row d n k v) db = None"
proof -
  have rows: "\<forall>r\<in>set (text_rows_of d db). text_row_ok r" using assms(1) by (simp add: text_domain_ok_def)
  obtain r where "r \<in> set (text_rows_of d db)"
    and "k = cell_text (tr_original r) \<or> v = cell_text (tr_pseudonym r)"
    using assms(2) by (auto simp: text_assoc_def)
  with rows have "r \<in> set (text_mappings_tbl db)" "tr_domain r = d"
    "tr_original r = SText k \<or> tr_pseudonym r = SText v"
    by (auto simp: text_rows_of_def text_row_ok_def)
  then show ?thesis by (auto simp: insert_text_def text_insert_row_def list_ex_iff)
qed

lemma text_insert_fresh:
  assumes "text_domain_ok d db" and "bindable k" and "bindable v"
    and "k \<notin> fst ` set (text_assoc d db)" and "v \<notin> snd ` set (text_assoc d db)"
  shows "\<exists>db'. insert_text (text_insert_row d n k v) db = Some db' \<and> text_domain_ok d db'
    \<and> text_assoc d db' = text_assoc d db @ [(k, v)]"
proof -
  let ?db = "db\<lparr>text_mappings_tbl := text_mappings_tbl db @ [text_insert_row d n k v]\<rparr>"
  have "\<not> list_ex (\<lambda>q. tr_domain q = d \<and> tr_original q = SText k) (text_mappings_tbl db)"
    "\<not> list_ex (\<lambda>q. tr_domain q = d \<and> tr_pseudonym q = SText v) (text_mappings_tbl db)"
    using assms(4,5) by (force simp: list_ex_iff text_assoc_def text_rows_of_def)+
  then have "insert_text (text_insert_row d n k v) db = Some ?db"
    using assms(1) by (simp add: insert_text_def text_insert_row_def text_domain_ok_def)
  moreover have rows: "text_rows_of d ?db = text_rows_of d db @ [text_insert_row d n k v]"
    by (simp add: text_rows_of_def text_insert_row_def)
  moreover have assoc: "text_assoc d ?db = text_assoc d db @ [(k, v)]"
    unfolding text_assoc_def rows by (simp add: text_insert_row_def)
  moreover have "text_domain_ok d ?db"
    using assms unfolding text_domain_ok_def rows assoc
    by (auto simp: has_domain_db_def text_row_ok_def text_insert_row_def)
  ultimately show ?thesis by blast
qed

interpretation text_table: bijective_table "text_domain_ok d" bindable "text_assoc d"
    "\<lambda>db. text_pseudonym_db db d" "\<lambda>db. text_original_db db d"
    "\<lambda>k v. insert_text (text_insert_row d n k v)" for d :: string and n :: int
proof unfold_locales
  show "bindable k \<and> bindable v" if "text_domain_ok d db" "(k, v) \<in> set (text_assoc d db)" for db k v
    using that by (auto simp: text_domain_ok_def text_assoc_def text_row_ok_def)
qed (use text_pseudonym_assoc text_original_assoc text_insert_taken text_insert_fresh
     in \<open>auto simp: text_domain_ok_def\<close>)

definition numeric_rows_of :: "string \<Rightarrow> database \<Rightarrow> numeric_row list" where
  "numeric_rows_of d db = filter (\<lambda>r. nr_domain r = d) (numeric_key_mappings_tbl db)"

definition numeric_assoc :: "string \<Rightarrow> database \<Rightarrow> (pystr \<times> pystr) list" where
  "numeric_assoc d db =
     map (\<lambda>r. (cell_text (nr_original r), cell_text (nr_pseudonym r))) (numeric_rows_of d db)"

definition numeric_row_ok :: "numeric_row \<Rightarrow> bool" where
  "numeric_row_ok r \<longleftrightarrow> (\<exists>x y. nr_original r = SText x \<and> nr_pseudonym r = SText y
     \<and> canonical_integer_match x \<and> canonical_integer_match y)"

definition numeric_domain_ok :: "string \<Rightarrow> database \<Rightarrow> bool" where
  "numeric_domain_ok d db \<longleftrightarrow> has_domain_db db d \<and> (\<forall>r\<in>set (numeric_rows_of d db). numeric_row_ok r)
     \<and> distinct (map fst (numeric_assoc d db)) \<and> distinct (map snd (numeric_assoc d db))"

lemma numeric_pseudonym_assoc:
  assumes "numeric_domain_ok d db"
  shows "numeric_pseudonym_db db d k = Inr (map_of (numeric_assoc d db) k)"
proof -
  have rows: "\<forall>r\<in>set (numeric_rows_of d db). numeric_row_ok r" using assms by (simp add: numeric_domain_ok_def)
  then have "map_of (numeric_assoc d db) k = map_option (\<lambda>r. cell_text (nr_pseudonym r))
      (find (\<lambda>r. nr_original r = SText k) (numeric_rows_of d db))"
    unfolding numeric_assoc_def by (intro find_map_of) (auto simp: numeric_row_ok_def)
  then show ?thesis
    using rows find_Some_set [of _ "numeric_rows_of d db"]
    by (fastforce simp: numeric_pseudonym_db_def find_filter numeric_rows_of_def [symmetric] numeric_cell_def
        numeric_row_ok_def split: option.splits)
qed

lemma numeric_original_assoc:
  assumes "numeric_domain_ok d db"
  shows "numeric_original_db db d v = Inr (map_of (map prod.swap (numeric_assoc d db)) v)"
proof -
  have rows: "\<forall>r\<in>set (numeric_rows_of d db). numeric_row_ok r" using assms by (simp add: numeric_domain_ok_def)
  then have "map_of (map prod.swap (numeric_assoc d db)) v = map_option (\<lambda>r. cell_text (nr_original r))
      (find (\<lambda>r. nr_pseudonym r = SText v) (numeric_rows_of d db))"
    unfolding numeric_assoc_def map_swap_assoc by (intro find_map_of) (auto simp: numeric_row_ok_def)
  then show ?thesis
    using rows find_Some_set [of _ "numeric_rows_of d db"]
    by (fastforce simp: numeric_original_db_def find_filter numeric_rows_of_def [symmetric] numeric_cell_def
        numeric_row_ok_def split: option.splits)
qed

definition numeric_insert_row :: "string \<Rightarrow> pystr \<Rightarrow> pystr \<Rightarrow> numeric_row" where
  "numeric_insert_row d k v = \<lparr>nr_domain = d, nr_original = SText k, nr_pseudonym = SText v\<rparr>"

lemma numeric_insert_taken:
  assumes "numeric_domain_ok d db"
    and "k \<in> fst ` set (numeric_assoc d db) \<or> v \<in> snd ` set (numeric_assoc d db)"
  shows "insert_numeric (numeric_insert_row d k v) db = None"
proof -
  have rows: "\<forall>r\<in>set (numeric_rows_of d db). numeric_row_ok r" using assms(1) by (simp add: numeric_domain_ok_def)
  obtain r where "r \<in> set (numeric_rows_of d db)"
    and "k = cell_text (nr_original r) \<or> v = cell_text (nr_pseudonym r)"
    using assms(2) by (auto simp: numeric_assoc_def)
  with rows have "r \<in> set (numeric_key_mappings_tbl db)" "nr_domain r = d"
    "nr_original r = SText k \<or> nr_pseudonym r = SText v"
    by (auto simp: numeric_rows_of_def numeric_row_ok_def)
  then show ?thesis by (auto simp: insert_numeric_def numeric_insert_row_def list_ex_iff)
qed

lemma numeric_insert_fresh:
  assumes "numeric_domain_ok d db" and "canonical_integer_match k" and "canonical_integer_match v"
    and "k \<notin> fst ` set (numeric_assoc d db)" and "v \<notin> snd ` set (numeric_assoc d db)"
  shows "\<exists>db'. insert_numeric (numeric_insert_row d k v) db = Some db' \<and> numeric_domain_ok d db'
    \<and> numeric_assoc d db' = numeric_assoc d db @ [(k, v)]"
proof -
  let ?db = "db\<lparr>numeric_key_mappings_tbl := numeric_key_mappings_tbl db @ [numeric_insert_row d k v]\<rparr>"
  have "\<not> list_ex (\<lambda>q. nr_domain q = d \<and> nr_original q = SText k) (numeric_key_mappings_tbl db)"
    "\<not> list_ex (\<lambda>q. nr_domain q = d \<and> nr_pseudonym q = SText v) (numeric_key_mappings_tbl db)"
    using assms(4,5) by (force simp: list_ex_iff numeric_assoc_def numeric_rows_of_def)+
  then have "insert_numeric (numeric_insert_row d k v) db = Some ?db"
    using assms(1) by (simp add: insert_numeric_def numeric_insert_row_def numeric_domain_ok_def)
  moreover have rows: "numeric_rows_of d ?db = numeric_rows_of d db @ [numeric_insert_row d k v]"
    by (simp add: numeric_rows_of_def numeric_insert_row_def)
  moreover have assoc: "numeric_assoc d ?db = numeric_assoc d db @ [(k, v)]"
    unfolding numeric_assoc_def rows by (simp add: numeric_insert_row_def)
  moreover have "numeric_domain_ok d ?db"
    using assms unfolding numeric_domain_ok_def rows assoc
    by (auto simp: has_domain_db_def numeric_row_ok_def numeric_insert_row_def)
  ultimately show ?thesis by blast
qed

interpretation numeric_table: bijective_table "numeric_domain_ok d" canonical_integer_match
    "numeric_assoc d" "\<lambda>db. numeric_pseudonym_db db d" "\<lambda>db. numeric_original_db db d"
    "\<lambda>k v. insert_numeric (numeric_insert_row d k v)" for d :: string
proof unfold_locales
  show "canonical_integer_match k \<and> canonical_integer_match v"
    if "numeric_domain_ok d db" "(k, v) \<in> set (numeric_assoc d db)" for db k v
    using that by (auto simp: numeric_domain_ok_def numeric_assoc_def numeric_row_ok_def)
qed (use numeric_pseudonym_assoc numeric_original_assoc numeric_insert_taken numeric_insert_fresh
     in \<open>auto simp: numeric_domain_ok_def\<close>)

section \<open>The listings\<close>

lemma numeric_rows_assoc:
  assumes "numeric_domain_ok d db"
  obtains rs where "numeric_rows_db db d = Inr rs" and "mset rs = mset (numeric_assoc d db)"
proof -
  let ?rows = "sort_key (\<lambda>r. sql_order_key (nr_original r)) (numeric_rows_of d db)"
  let ?g = "\<lambda>r. (cell_text (nr_original r), cell_text (nr_pseudonym r))"
  have "numeric_rows_db db d = Inr (map ?g ?rows)"
    using assms unfolding numeric_rows_db_def numeric_rows_of_def [symmetric]
    by (intro mapE_total) (auto simp: numeric_domain_ok_def numeric_row_ok_def numeric_cell_def)
  moreover have "mset (map ?g ?rows) = mset (numeric_assoc d db)"
    by (simp add: numeric_assoc_def)
  ultimately show thesis using that by blast
qed

lemma text_rows_assoc:
  assumes "text_domain_ok d db"
  obtains rs where "text_rows_db db d = Inr rs"
    and "mset (map (\<lambda>(x, y, n). (x, y)) rs) = mset (text_assoc d db)"
proof -
  let ?rows = "sort_key (\<lambda>r. sql_order_key (tr_original r)) (text_rows_of d db)"
  let ?len = "\<lambda>r. case tr_length r of SInt n \<Rightarrow> n | _ \<Rightarrow> 0"
  let ?g = "\<lambda>r. (cell_text (tr_original r), cell_text (tr_pseudonym r), ?len r)"
  have "text_rows_db db d = Inr (map ?g ?rows)"
    using assms unfolding text_rows_db_def text_rows_of_def [symmetric]
    by (intro mapE_total) (auto simp: text_domain_ok_def text_row_ok_def text_cell_def int_cell_def)
  moreover have "mset (map (\<lambda>(x, y, n). (x, y)) (map ?g ?rows)) = mset (text_assoc d db)"
    by (simp add: text_assoc_def comp_def image_mset.compositionality del: map_map)
  ultimately show thesis using that by blast
qed

section \<open>The recorders change the working view only\<close>

lemma body_ok_execute_insert [intro]: "body_ok (execute_insert stmt e)"
  unfolding execute_insert_def
  by (rule body_ok_bindV) (auto simp: body_ok_def internal_connection_def split: option.splits)

lemmas recorder_defs = create_domain_def mapping_domains_def has_domain_def add_text_mapping_def
  get_text_pseudonym_def get_text_original_def text_mapping_rows_def add_numeric_key_mapping_def
  get_numeric_pseudonym_def get_numeric_original_def numeric_mapping_rows_def add_memo_recovery_def
  get_memo_recovery_def set_temporal_parameter_def temporal_parameter_def

lemma body_ok_recorders [intro]:
  "body_ok (create_domain k n ro di h)" "body_ok mapping_domains" "body_ok (has_domain d)"
  "body_ok (add_text_mapping d x y l)" "body_ok (get_text_pseudonym d x)" "body_ok (get_text_original d y)"
  "body_ok (text_mapping_rows d)" "body_ok (add_numeric_key_mapping d x y)"
  "body_ok (get_numeric_pseudonym d x)" "body_ok (get_numeric_original d y)"
  "body_ok (numeric_mapping_rows d)" "body_ok (add_memo_recovery t i f p kd)"
  "body_ok (get_memo_recovery t i f)" "body_ok (set_temporal_parameter d off)" "body_ok (temporal_parameter d)"
  unfolding recorder_defs by (intro body_ok_bindV body_ok_basic body_ok_execute_insert)+

section \<open>The recorders on a usable connection\<close>

definition usable :: "'x vault_scheme \<Rightarrow> bool" where
  "usable v \<longleftrightarrow> \<not> closed v \<and> poisoned v = None"

definition writable :: "'x vault_scheme \<Rightarrow> bool" where
  "writable v \<longleftrightarrow> usable v \<and> txn_active v \<and> txn_authorized v"

lemma internal_connection_usable [simp]: "usable v \<Longrightarrow> internal_connection v = (Inr (working v), v)"
  by (simp add: usable_def internal_connection_def)

lemma require_active_writable [simp]: "writable v \<Longrightarrow> require_active_transaction v = (Inr (), v)"
  by (simp add: writable_def require_active_transaction_def)

lemma writable_usable [simp]: "writable v \<Longrightarrow> usable v"
  by (simp add: writable_def)

lemma healthy_usable: "healthy v \<Longrightarrow> usable v \<and> working v = committed v"
  by (simp add: healthy_def authority_ok_def vault_idle_def usable_def)

lemma healthy_txn_start: "healthy v \<Longrightarrow> writable (txn_start True v)"
  by (simp add: healthy_def authority_ok_def writable_def usable_def txn_start_def)

lemma usable_updates [simp]:
  "usable (v\<lparr>working := db\<rparr>) = usable v" "writable (v\<lparr>working := db\<rparr>) = writable v"
  "usable (vault.more_update f v) = usable v" "writable (vault.more_update f v) = writable v"
  by (simp_all add: usable_def writable_def)

lemma execute_insert_usable:
  "usable v \<Longrightarrow> execute_insert stmt e v =
     (case stmt (working v) of None \<Rightarrow> (Inl e, v) | Some db \<Rightarrow> (Inr (), v\<lparr>working := db\<rparr>))"
  by (simp add: execute_insert_def)

lemma utf8_encode_ascii: "list_all (\<lambda>c. c < 128) s \<Longrightarrow> utf8_encode s = Some s"
  by (induction s) (auto simp: utf8_char_def)

lemma canonical_bindable: "canonical_integer_match t \<Longrightarrow> bind_text t = Inr ()"
proof -
  assume "canonical_integer_match t"
  then have "list_all (\<lambda>c. c < 128) t"
    by (fastforce simp: canonical_integer_match_def is_digit_def list_all_iff split: list.splits if_splits
        elim!: positive_canonical.elims)
  then show ?thesis by (simp add: bind_text_def utf8_encode_ascii)
qed

lemma get_numeric_pseudonym_usable:
  "usable v \<Longrightarrow> canonical_integer_match k \<Longrightarrow>
     get_numeric_pseudonym d k v = (numeric_pseudonym_db (working v) d k, v)"
  by (simp add: get_numeric_pseudonym_def canonical_bindable)

lemma get_numeric_original_usable:
  "usable v \<Longrightarrow> canonical_integer_match k \<Longrightarrow>
     get_numeric_original d k v = (numeric_original_db (working v) d k, v)"
  by (simp add: get_numeric_original_def canonical_bindable)

lemma add_numeric_writable:
  assumes "writable v" and "validate_token d = Inr d"
    and "canonical_integer_match k" and "canonical_integer_match p"
  shows "add_numeric_key_mapping d k p v =
     (case insert_numeric (numeric_insert_row d k p) (working v) of
        None \<Rightarrow> (Inl (mapping_conflict ''MAPPING_BIJECTION_REJECTED''), v)
      | Some db \<Rightarrow> (Inr (), v\<lparr>working := db\<rparr>))"
  using assms
  by (simp add: add_numeric_key_mapping_def validate_canonical_numeric_text_def execute_insert_usable
      numeric_insert_row_def)

lemma insert_numeric_frame:
  "insert_numeric r db = Some db' \<Longrightarrow> \<exists>rows. db' = db\<lparr>numeric_key_mappings_tbl := rows\<rparr>"
  by (auto simp: insert_numeric_def split: if_splits)

lemma insert_text_frame: "insert_text r db = Some db' \<Longrightarrow> \<exists>rows. db' = db\<lparr>text_mappings_tbl := rows\<rparr>"
  by (auto simp: insert_text_def split: if_splits)

lemma insert_domain_frame: "insert_domain r db = Some db' \<Longrightarrow> db' = db\<lparr>mapping_domains_tbl := mapping_domains_tbl db @ [r]\<rparr>"
  by (auto simp: insert_domain_def split: if_splits)

lemma mapping_domains_usable:
  "usable v \<Longrightarrow> mapping_domains v = (Inr (sort_key dr_id (mapping_domains_tbl (working v))), v)"
  by (simp add: mapping_domains_def)

lemma has_domain_usable: "usable v \<Longrightarrow> has_domain d v = (Inr (has_domain_db (working v) d), v)"
  by (simp add: has_domain_def mapping_domains_usable has_domain_db_def list_ex_iff)

text \<open>A committed unit leaves a healthy connection healthy unless it takes the writer lease away.\<close>

lemma healthy_commit:
  assumes "healthy v" and "writer_authority db = writer_authority (committed v)"
  shows "healthy (with_view db x (txn_start True v)\<lparr>txn_active := False, committed := db\<rparr>)"
  using assms by (simp add: healthy_def authority_ok_def vault_idle_def txn_start_def)

end
