(* ===== verification/Vault_Operations.thy ===== *)
theory Vault_Operations
  imports Vault_Mappings
begin

text \<open>
  The durable operation and publication records and the table and field registry of
  \<^verbatim>\<open>src/src/dbf_anonymizer/vault/store.py\<close>. The clock (\<open>_utc_now\<close>), the fresh hexadecimal suffix of
  \<open>_new_hex_id\<close> and the truncated digest \<open>_sha16\<close> are arguments: they come from the platform.
\<close>

text \<open>
  These methods execute on \<open>self._connection\<close> directly, after \<open>_require_active_transaction\<close>: the
  statement runs on the view without the guard of \<open>_internal_connection\<close>.
\<close>

definition execute_direct :: "(database \<Rightarrow> database option) \<Rightarrow> error \<Rightarrow> (unit, 'x) vm" where
  "execute_direct stmt rejected v =
     (case stmt (working v) of
        None \<Rightarrow> (Inl rejected, v)
      | Some db \<Rightarrow> (Inr (), v\<lparr>working := db\<rparr>))"

section \<open>Operations\<close>

definition operation_exists :: "database \<Rightarrow> string \<Rightarrow> bool" where
  "operation_exists db i = list_ex (\<lambda>r. op_id r = i) (operations_tbl db)"

text \<open>The primary key, and the unique index on the destination, where \<open>NULL\<close>s are distinct.\<close>

definition insert_operation :: "operation_row \<Rightarrow> database \<Rightarrow> database option" where
  "insert_operation r db =
     (if operation_exists db (op_id r)
        \<or> (op_destination r \<noteq> None \<and> list_ex (\<lambda>q. op_destination q = op_destination r) (operations_tbl db))
      then None
      else Some (db\<lparr>operations_tbl := operations_tbl db @ [r]\<rparr>))"

record operation_binding =
  ob_source :: "string option"
  ob_policy :: "string option"
  ob_relationship :: "string option"
  ob_vault :: "string option"
  ob_destination :: "string option"
  ob_binding :: "string option"

definition begin_operation ::
    "string \<Rightarrow> string \<Rightarrow> string option \<Rightarrow> operation_binding \<Rightarrow> (string, 'x) vm" where
  "begin_operation fresh_hex now operation_id b =
     bindV require_active_transaction (\<lambda>_.
     bindV (case operation_id of
              None \<Rightarrow> retV (''vop-'' @ fresh_hex)
            | Some i \<Rightarrow>
                bindV (liftV (validate_token i)) (\<lambda>_.
                bindV internal_connection (\<lambda>db.
                bindV (guardV (\<not> operation_exists db i) (vault_state_failure ''OPERATION_EXISTS'')) (\<lambda>_.
                  retV i)))) (\<lambda>i.
     bindV (execute_direct (insert_operation
         \<lparr>op_id = i, op_state = STARTED, op_source_fp = ob_source b, op_policy_fp = ob_policy b,
          op_relationship_fp = ob_relationship b, op_vault_fp = ob_vault b, op_destination = ob_destination b,
          op_binding_fp = ob_binding b, op_output_fp = None, op_result_json = None,
          op_started_at = Some now, op_completed_at = None\<rparr>)
         (vault_state_failure ''OPERATION_REJECTED'')) (\<lambda>_. retV i)))"

definition coalesce :: "'a option \<Rightarrow> 'a option \<Rightarrow> 'a option" where
  "coalesce new old = (case new of None \<Rightarrow> old | Some _ \<Rightarrow> new)"

definition complete_row :: "string \<Rightarrow> string option \<Rightarrow> string option \<Rightarrow> operation_row \<Rightarrow> operation_row" where
  "complete_row now output_fp result_json r =
     r\<lparr>op_state := COMPLETED, op_completed_at := Some now,
       op_output_fp := coalesce output_fp (op_output_fp r),
       op_result_json := coalesce result_json (op_result_json r)\<rparr>"

definition started_with_id :: "string \<Rightarrow> operation_row \<Rightarrow> bool" where
  "started_with_id i r \<longleftrightarrow> op_id r = i \<and> op_state r = STARTED"

text \<open>The statements run first and the row count is checked afterwards; the unit rolls back.\<close>

definition complete_operation ::
    "string \<Rightarrow> string \<Rightarrow> string option \<Rightarrow> string option \<Rightarrow> (unit, 'x) vm" where
  "complete_operation now operation_id output_fp result_json =
     bindV require_active_transaction (\<lambda>_ v.
       let db = working v;
           touched = filter (started_with_id operation_id) (operations_tbl db);
           db' = db\<lparr>operations_tbl := map (\<lambda>r. if started_with_id operation_id r
                       then complete_row now output_fp result_json r else r) (operations_tbl db)\<rparr>
       in ((if length touched = 1 then Inr () else Inl (vault_state_failure ''OPERATION_NOT_STARTED'')),
           v\<lparr>working := db'\<rparr>))"

definition abandon_operation :: "string \<Rightarrow> (unit, 'x) vm" where
  "abandon_operation operation_id =
     bindV require_active_transaction (\<lambda>_ v.
       let db = working v;
           touched = filter (started_with_id operation_id) (operations_tbl db);
           db' = db\<lparr>publication_tbl := filter (\<lambda>p. pb_operation p \<noteq> operation_id) (publication_tbl db),
                    operations_tbl := filter (\<lambda>r. \<not> started_with_id operation_id r) (operations_tbl db)\<rparr>
       in ((if length touched = 1 then Inr () else Inl (vault_state_failure ''OPERATION_NOT_STARTED'')),
           v\<lparr>working := db'\<rparr>))"

definition operation_record :: "string \<Rightarrow> (operation_row option, 'x) vm" where
  "operation_record operation_id =
     bindV internal_connection (\<lambda>db. retV (find (\<lambda>r. op_id r = operation_id) (operations_tbl db)))"

definition operation_for_destination :: "string \<Rightarrow> (operation_row option, 'x) vm" where
  "operation_for_destination destination =
     bindV internal_connection (\<lambda>db.
       case find (\<lambda>r. op_destination r = Some destination) (operations_tbl db) of
         None \<Rightarrow> retV None
       | Some r \<Rightarrow> operation_record (op_id r))"

definition vault_operations :: "(operation_row list, 'x) vm" where
  "vault_operations = bindV internal_connection (\<lambda>db. retV (sort_key op_id (operations_tbl db)))"

definition insert_publication :: "publication_row \<Rightarrow> database \<Rightarrow> database option" where
  "insert_publication r db =
     (if \<not> operation_exists db (pb_operation r)
        \<or> list_ex (\<lambda>q. pb_operation q = pb_operation r \<and> pb_phase q = pb_phase r) (publication_tbl db)
      then None
      else Some (db\<lparr>publication_tbl := publication_tbl db @ [r]\<rparr>))"

definition record_publication ::
    "string \<Rightarrow> string \<Rightarrow> string option \<Rightarrow> string option \<Rightarrow> (unit, 'x) vm" where
  "record_publication operation_id phase output_fp vault_fp =
     bindV require_active_transaction (\<lambda>_.
     bindV (liftV (validate_token phase)) (\<lambda>_.
     execute_direct (insert_publication \<lparr>pb_operation = operation_id, pb_phase = phase,
         pb_output_fp = output_fp, pb_vault_fp = vault_fp\<rparr>)
       (vault_state_failure ''PUBLICATION_REJECTED'')))"

section \<open>The table and field registry\<close>

definition chr_slash :: char where "chr_slash = CHR 0x2F"
definition chr_backslash :: char where "chr_backslash = CHR 0x5C"
definition chr_nul :: char where "chr_nul = CHR 0x00"

text \<open>\<open>str.split\<close> with a one-character separator: always at least one part.\<close>

fun split_on :: "char \<Rightarrow> string \<Rightarrow> string list" where
  "split_on c [] = [[]]"
| "split_on c (x # xs) =
     (if x = c then [] # split_on c xs
      else case split_on c xs of [] \<Rightarrow> [[x]] | p # ps \<Rightarrow> (x # p) # ps)"

text \<open>\<open>str.join\<close> with a one-character separator.\<close>

fun join_on :: "char \<Rightarrow> string list \<Rightarrow> string" where
  "join_on c [] = []"
| "join_on c [p] = p"
| "join_on c (p # q # ps) = p @ [c] @ join_on c (q # ps)"

definition normalize_relative_path :: "string \<Rightarrow> string result" where
  "normalize_relative_path value =
     (if value = [] \<or> chr_nul \<in> set value then Inl ValueError
      else
        let normalized = map (\<lambda>c. if c = chr_backslash then chr_slash else c) value;
            parts = filter (\<lambda>p. p \<noteq> [] \<and> p \<noteq> ''.'') (split_on chr_slash normalized)
        in if parts = [] \<or> list_ex (\<lambda>p. p = ''..'') parts then Inl ValueError
           else if list_ex (\<lambda>p. CHR '':'' \<in> set p) parts then Inl ValueError
           else Inr (join_on chr_slash parts))"

definition insert_table :: "table_row \<Rightarrow> database \<Rightarrow> database option" where
  "insert_table r db =
     (if list_ex (\<lambda>q. tb_id q = tb_id r) (tables_tbl db) \<or> list_ex (\<lambda>q. tb_path q = tb_path r) (tables_tbl db)
      then None
      else Some (db\<lparr>tables_tbl := tables_tbl db @ [r]\<rparr>))"

definition register_table ::
    "(string \<Rightarrow> string) \<Rightarrow> string \<Rightarrow> string option \<Rightarrow> string option \<Rightarrow> (string, 'x) vm" where
  "register_table sha16 relative_path schema_fp source_fp =
     bindV require_active_transaction (\<lambda>_.
     bindV (liftV (normalize_relative_path relative_path)) (\<lambda>normalized.
     bindV (execute_direct (insert_table \<lparr>tb_id = ''tbl-'' @ sha16 normalized, tb_path = normalized,
         tb_schema_fp = schema_fp, tb_source_fp = source_fp\<rparr>)
         (vault_state_failure ''TABLE_REJECTED'')) (\<lambda>_.
       retV (''tbl-'' @ sha16 normalized))))"

definition insert_field :: "field_row \<Rightarrow> database \<Rightarrow> database option" where
  "insert_field r db =
     (if list_ex (\<lambda>q. fr_id q = fr_id r) (fields_tbl db)
        \<or> \<not> list_ex (\<lambda>t. tb_id t = fr_table r) (tables_tbl db)
        \<or> fr_width r < 0
        \<or> (case fr_domain r of None \<Rightarrow> False | Some d \<Rightarrow> \<not> has_domain_db db d)
        \<or> list_ex (\<lambda>q. fr_table q = fr_table r \<and> fr_name q = fr_name r) (fields_tbl db)
      then None
      else Some (db\<lparr>fields_tbl := fields_tbl db @ [r]\<rparr>))"

record field_spec =
  fs_name :: string
  fs_type :: string
  fs_width :: int
  fs_encoding :: "string option"
  fs_action :: "string option"
  fs_domain :: "string option"

definition register_field :: "(string \<Rightarrow> string) \<Rightarrow> string \<Rightarrow> field_spec \<Rightarrow> (string, 'x) vm" where
  "register_field sha16 table_id f =
     bindV require_active_transaction (\<lambda>_.
     bindV (liftV (validate_token table_id)) (\<lambda>_.
     bindV (liftV (validate_token (fs_name f))) (\<lambda>_.
     bindV (liftV (validate_token (fs_type f))) (\<lambda>_.
     bindV (guardV (0 \<le> fs_width f) ValueError) (\<lambda>_.
     bindV (liftV (validate_optional_token (fs_action f))) (\<lambda>_.
     bindV (liftV (bind_int (fs_width f))) (\<lambda>_.
     let field_id = ''fld-'' @ sha16 (table_id @ [chr_nul] @ fs_name f)
     in bindV (execute_direct (insert_field \<lparr>fr_id = field_id, fr_table = table_id, fr_name = fs_name f,
            fr_type = fs_type f, fr_encoding = fs_encoding f, fr_width = fs_width f,
            fr_action = fs_action f, fr_domain = fs_domain f\<rparr>)
          (vault_state_failure ''FIELD_REJECTED'')) (\<lambda>_. retV field_id))))))))"

definition registered_tables :: "(table_row list, 'x) vm" where
  "registered_tables = bindV internal_connection (\<lambda>db. retV (sort_key tb_path (tables_tbl db)))"

section \<open>The operation life cycle\<close>

text \<open>A method runs to completion on some writable connection whose view is \<open>db\<close>.\<close>

definition runs :: "('a, unit) vm \<Rightarrow> database \<Rightarrow> database \<Rightarrow> bool" where
  "runs op db db' \<longleftrightarrow> (\<exists>v r. writable v \<and> working v = db \<and> fst (op v) = Inr r \<and> working (snd (op v)) = db')"

inductive operation_step :: "database \<Rightarrow> database \<Rightarrow> bool" where
  op_begin: "runs (begin_operation h now i b) db db' \<Longrightarrow> operation_step db db'"
| op_complete: "runs (complete_operation now i out res) db db' \<Longrightarrow> operation_step db db'"
| op_abandon: "runs (abandon_operation i) db db' \<Longrightarrow> operation_step db db'"
| op_publish: "runs (record_publication i ph out vf) db db' \<Longrightarrow> operation_step db db'"

inductive_cases operation_stepE: "operation_step db db'"

definition operations_ok :: "database \<Rightarrow> bool" where
  "operations_ok db \<longleftrightarrow> distinct (map op_id (operations_tbl db))
     \<and> distinct (List.map_filter op_destination (operations_tbl db))
     \<and> distinct (map (\<lambda>p. (pb_operation p, pb_phase p)) (publication_tbl db))
     \<and> (\<forall>p\<in>set (publication_tbl db). operation_exists db (pb_operation p))"

lemma runsE:
  assumes "runs op db db'"
  obtains v r v' where "writable v" "working v = db" "op v = (Inr r, v')" "working v' = db'"
  using assms unfolding runs_def by (metis prod.collapse)

lemma execute_direct_Inr:
  "execute_direct stmt e v = (Inr u, v') \<longleftrightarrow> (\<exists>db. stmt (working v) = Some db \<and> v' = v\<lparr>working := db\<rparr>)"
  by (auto simp: execute_direct_def split: option.splits)

lemma guardV_Inr: "guardV b e v = (Inr u, v') \<longleftrightarrow> b \<and> v' = v"
  by (auto simp: guardV_def)

lemma runs_begin:
  assumes "runs (begin_operation h now i b) db db'"
  obtains r where "insert_operation r db = Some db'" "op_state r = STARTED"
proof -
  obtain v :: vault and x v' where v: "writable v" "working v = db" "begin_operation h now i b v = (Inr x, v')" "working v' = db'"
    using assms by (rule runsE)
  let ?row = "\<lambda>j. \<lparr>op_id = j, op_state = STARTED, op_source_fp = ob_source b, op_policy_fp = ob_policy b,
          op_relationship_fp = ob_relationship b, op_vault_fp = ob_vault b, op_destination = ob_destination b,
          op_binding_fp = ob_binding b, op_output_fp = None, op_result_json = None,
          op_started_at = Some now, op_completed_at = None\<rparr>"
  have "insert_operation (?row x) db = Some db'"
    using v unfolding begin_operation_def
    by (auto elim!: bindV_Inr_E simp: execute_direct_Inr guardV_Inr split: option.splits)
  then show thesis using that [of "?row x"] by simp
qed

lemma runs_complete:
  assumes "runs (complete_operation now i out res) db db'"
  shows "db' = db\<lparr>operations_tbl := map (\<lambda>r. if started_with_id i r then complete_row now out res r else r)
      (operations_tbl db)\<rparr>"
    and "length (filter (started_with_id i) (operations_tbl db)) = 1"
  using assms by (auto simp: runs_def complete_operation_def Let_def split: if_splits)

lemma runs_abandon:
  assumes "runs (abandon_operation i) db db'"
  shows "db' = db\<lparr>publication_tbl := filter (\<lambda>p. pb_operation p \<noteq> i) (publication_tbl db),
      operations_tbl := filter (\<lambda>r. \<not> started_with_id i r) (operations_tbl db)\<rparr>"
    and "length (filter (started_with_id i) (operations_tbl db)) = 1"
  using assms by (auto simp: runs_def abandon_operation_def Let_def split: if_splits)

lemma runs_publish:
  assumes "runs (record_publication i ph out vf) db db'"
  obtains r where "insert_publication r db = Some db'"
proof -
  obtain v :: vault and x v' where v: "writable v" "working v = db" "record_publication i ph out vf v = (Inr x, v')" "working v' = db'"
    using assms by (rule runsE)
  then show thesis using that unfolding record_publication_def
    by (auto elim!: bindV_Inr_E simp: execute_direct_Inr)
qed

lemma insert_operation_Some:
  "insert_operation r db = Some db' \<longleftrightarrow> op_id r \<notin> op_id ` set (operations_tbl db)
     \<and> (op_destination r \<noteq> None \<longrightarrow> op_destination r \<notin> op_destination ` set (operations_tbl db))
     \<and> db' = db\<lparr>operations_tbl := operations_tbl db @ [r]\<rparr>"
  unfolding insert_operation_def operation_exists_def list_ex_iff image_iff
  by (cases "op_destination r") (fastforce split: if_splits)+

lemma set_map_filter: "set (List.map_filter f xs) = {y. \<exists>x\<in>set xs. f x = Some y}"
  by (auto simp: map_filter_def image_iff) force

lemma map_filter_append: "List.map_filter f (xs @ ys) = List.map_filter f xs @ List.map_filter f ys"
  by (simp add: map_filter_def)

lemma operation_step_ok:
  assumes "operation_step db db'" and "operations_ok db"
  shows "operations_ok db'"
  using assms(1)
proof cases
  case (op_begin h now i b)
  then obtain r where "insert_operation r db = Some db'" by (rule runs_begin)
  then have "op_id r \<notin> op_id ` set (operations_tbl db)"
    "op_destination r \<noteq> None \<longrightarrow> op_destination r \<notin> op_destination ` set (operations_tbl db)"
    "db' = db\<lparr>operations_tbl := operations_tbl db @ [r]\<rparr>" by (auto simp: insert_operation_Some)
  then show ?thesis using assms(2)
    by (cases "op_destination r")
      (auto simp: operations_ok_def map_filter_append set_map_filter operation_exists_def map_filter_simps
        image_iff)
next
  case (op_complete now i out res)
  let ?f = "\<lambda>r. if started_with_id i r then complete_row now out res r else r"
  have ids: "map op_id (map ?f xs) = map op_id xs" and "List.map_filter op_destination (map ?f xs) = List.map_filter op_destination xs"
    for xs by (induction xs) (auto simp: complete_row_def map_filter_simps split: option.splits)
  moreover have "operation_exists db' j = operation_exists db j" for j
  proof -
    have "operation_exists d j \<longleftrightarrow> j \<in> set (map op_id (operations_tbl d))" for d
      by (auto simp: operation_exists_def list_ex_iff)
    then show ?thesis using ids [of "operations_tbl db"] runs_complete(1) [OF op_complete]
      by (simp del: map_map set_map list.set_map map_eq_conv)
  qed
  ultimately show ?thesis using assms(2) runs_complete(1) [OF op_complete]
    unfolding operations_ok_def by (simp del: map_map map_eq_conv)
next
  case (op_abandon i)
  have keep: "operation_exists db' j" if "operation_exists db j" "j \<noteq> i" for j
    using that unfolding runs_abandon(1) [OF op_abandon]
    by (auto simp: operation_exists_def list_ex_iff started_with_id_def)
  have "distinct (map op_id (filter P xs))" if "distinct (map op_id xs)" for P xs
    using that by (simp add: distinct_map_filter)
  moreover have "distinct (List.map_filter op_destination (filter P xs))"
    if "distinct (List.map_filter op_destination xs)" for P and xs :: "operation_row list"
    using that by (induction xs) (auto simp: map_filter_simps set_map_filter split: option.splits)
  ultimately show ?thesis using assms(2) keep
    unfolding operations_ok_def runs_abandon(1) [OF op_abandon] by (auto simp: distinct_map_filter)
next
  case (op_publish i ph out vf)
  then obtain r where "insert_publication r db = Some db'" by (rule runs_publish)
  then show ?thesis using assms(2)
    by (fastforce simp: operations_ok_def insert_publication_def operation_exists_def list_ex_iff
        split: if_splits)
qed

lemma operation_step_completed:
  assumes "operation_step db db'" and "r \<in> set (operations_tbl db)" and "op_state r = COMPLETED"
  shows "r \<in> set (operations_tbl db')"
  using assms(1)
proof cases
  case (op_begin h now i b)
  then show ?thesis using assms(2) by (auto elim!: runs_begin simp: insert_operation_Some)
next
  case (op_complete now i out res)
  have "(if started_with_id i r then complete_row now out res r else r) = r"
    using assms(3) by (simp add: started_with_id_def)
  then show ?thesis using assms(2) unfolding runs_complete(1) [OF op_complete] by (auto simp: image_iff intro!: bexI [of _ r])
next
  case (op_abandon i)
  then show ?thesis using assms(2,3) runs_abandon(1) [OF op_abandon] by (simp add: started_with_id_def)
next
  case (op_publish i ph out vf)
  then show ?thesis using assms(2) by (auto elim!: runs_publish simp: insert_publication_def split: if_splits)
qed

text \<open>
  Life cycle of the durable operation records. Along every sequence of successful
  \<open>begin_operation\<close>, \<open>complete_operation\<close>, \<open>abandon_operation\<close> and \<open>record_publication\<close> calls from a
  consistent database, operation ids stay unique, no two operations share a destination,
  publication rows are unique per phase and never outlive their operation, and a \<open>COMPLETED\<close>
  record is never changed or removed.
\<close>

theorem operation_lifecycle:
  assumes "operation_step\<^sup>*\<^sup>* db db'" and "operations_ok db"
  shows "operations_ok db'
    \<and> (\<forall>r\<in>set (operations_tbl db). op_state r = COMPLETED \<longrightarrow> r \<in> set (operations_tbl db'))"
  using assms(1)
proof (induction rule: rtranclp_induct)
  case base
  then show ?case using assms(2) by simp
next
  case (step y z)
  then show ?case using operation_step_ok operation_step_completed by blast
qed

definition lifecycle_database :: database where
  "lifecycle_database =
     \<lparr>writer_authority = Some ''run-1'', acquire_tick = 1, operations_tbl = [], publication_tbl = [],
      mapping_domains_tbl = [], tables_tbl = [], fields_tbl = [], text_mappings_tbl = [],
      numeric_key_mappings_tbl = [], memo_recovery_tbl = [], temporal_parameters_tbl = []\<rparr>"

definition lifecycle_vault :: "database \<Rightarrow> vault" where
  "lifecycle_vault db =
     \<lparr>committed = db, working = db, txn_active = True, txn_authorized = True,
      read_only = False, writer_token = Some ''run-1'', poisoned = None, closed = False,
      begin_fails = False, commit_fails = False, rollback_fails = False\<rparr>"

lemma runs_lifecycle:
  "fst (op (lifecycle_vault db)) = Inr r \<Longrightarrow> runs op db (working (snd (op (lifecycle_vault db))))"
  unfolding runs_def
  by (rule exI [of _ "lifecycle_vault db"]) (simp add: lifecycle_vault_def writable_def usable_def)

definition sample_binding :: operation_binding where
  "sample_binding = \<lparr>ob_source = Some ''s'', ob_policy = None, ob_relationship = None, ob_vault = None,
     ob_destination = Some ''out'', ob_binding = None\<rparr>"

theorem operation_lifecycle_witness:
  "\<exists>db1 db2 r. operation_step\<^sup>*\<^sup>* lifecycle_database db1 \<and> operation_step\<^sup>*\<^sup>* db1 db2
     \<and> operations_tbl db1 = [r] \<and> op_state r = COMPLETED \<and> operations_ok db2 \<and> r \<in> set (operations_tbl db2)"
proof -
  let ?op1 = "begin_operation ''0'' ''t0'' (Some ''op-1'') sample_binding"
  let ?op2 = "complete_operation ''t1'' ''op-1'' (Some ''f'') None"
  let ?op3 = "record_publication ''op-1'' ''PROMOTED'' None None"
  define dbs where "dbs = working (snd (?op1 (lifecycle_vault lifecycle_database)))"
  define db1 where "db1 = working (snd (?op2 (lifecycle_vault dbs)))"
  define db2 where "db2 = working (snd (?op3 (lifecycle_vault db1)))"
  have "fst (?op1 (lifecycle_vault lifecycle_database)) = Inr ''op-1''" by code_simp
  then have s1: "operation_step lifecycle_database dbs" unfolding dbs_def by (rule op_begin [OF runs_lifecycle])
  have "fst (?op2 (lifecycle_vault dbs)) = Inr ()" unfolding dbs_def by code_simp
  then have s2: "operation_step dbs db1" unfolding db1_def by (rule op_complete [OF runs_lifecycle])
  have "fst (?op3 (lifecycle_vault db1)) = Inr ()" unfolding db1_def dbs_def by code_simp
  then have s3: "operation_step db1 db2" unfolding db2_def by (rule op_publish [OF runs_lifecycle])
  have ok: "operations_ok lifecycle_database" by (simp add: operations_ok_def lifecycle_database_def map_filter_simps)
  have one: "length (operations_tbl db1) = 1 \<and> op_state (hd (operations_tbl db1)) = COMPLETED"
    unfolding db1_def dbs_def by code_simp
  then obtain r where r: "operations_tbl db1 = [r]" "op_state r = COMPLETED"
    by (cases "operations_tbl db1") auto
  have p: "operation_step\<^sup>*\<^sup>* lifecycle_database db1" using s1 s2 by (simp add: converse_rtranclp_into_rtranclp)
  moreover have q: "operation_step\<^sup>*\<^sup>* db1 db2" using s3 by blast
  moreover have "operations_ok db2 \<and> r \<in> set (operations_tbl db2)"
    using operation_lifecycle [OF q] operation_lifecycle [OF p ok] r by auto
  ultimately show ?thesis using r by blast
qed

section \<open>Normalized paths\<close>

lemma split_on_nonempty: "split_on c xs \<noteq> []"
  by (induction xs) (auto split: list.splits)

lemma split_on_parts: "p \<in> set (split_on c xs) \<Longrightarrow> c \<notin> set p \<and> set p \<subseteq> set xs"
  by (induction xs arbitrary: p) (fastforce split: if_splits list.splits)+

lemma split_on_plain: "c \<notin> set p \<Longrightarrow> split_on c p = [p]"
  by (induction p) auto

lemma split_on_append: "c \<notin> set p \<Longrightarrow> split_on c (p @ c # xs) = p # split_on c xs"
  by (induction p) auto

lemma split_join: "ps \<noteq> [] \<Longrightarrow> \<forall>p\<in>set ps. c \<notin> set p \<Longrightarrow> split_on c (join_on c ps) = ps"
  by (induction c ps rule: join_on.induct) (auto simp: split_on_plain split_on_append)

lemma set_join_on: "set (join_on c ps) \<subseteq> insert c (\<Union> (set ` set ps))"
  by (induction c ps rule: join_on.induct) auto

lemma join_on_nonempty: "ps \<noteq> [] \<Longrightarrow> \<forall>p\<in>set ps. p \<noteq> [] \<Longrightarrow> join_on c ps \<noteq> []"
  by (induction c ps rule: join_on.induct) auto

text \<open>
  Registered paths are canonical and traversal-free: a path \<open>_normalize_relative_path\<close> accepts
  is a fixed point of it (so the digest-based table identity is stable), it splits into non-empty
  parts none of which is \<open>"."\<close> or \<open>".."\<close> or holds a drive separator, and it contains no backslash.
\<close>

theorem normalized_path_canonical:
  assumes "normalize_relative_path value = Inr q"
  shows "normalize_relative_path q = Inr q
    \<and> (\<forall>p\<in>set (split_on chr_slash q). p \<noteq> [] \<and> p \<noteq> ''.'' \<and> p \<noteq> ''..'' \<and> CHR '':'' \<notin> set p)
    \<and> chr_backslash \<notin> set q"
proof -
  let ?n = "map (\<lambda>c. if c = chr_backslash then chr_slash else c) value"
  define ps where "ps = filter (\<lambda>p. p \<noteq> [] \<and> p \<noteq> ''.'') (split_on chr_slash ?n)"
  have ps: "ps \<noteq> []" "''..'' \<notin> set ps" "\<forall>p\<in>set ps. CHR '':'' \<notin> set p" "q = join_on chr_slash ps"
    "chr_nul \<notin> set value"
    using assms by (auto simp: normalize_relative_path_def Let_def ps_def list_ex_iff split: if_splits)
  have parts: "p \<noteq> [] \<and> p \<noteq> ''.'' \<and> chr_slash \<notin> set p \<and> chr_backslash \<notin> set p \<and> chr_nul \<notin> set p" if "p \<in> set ps" for p
    using that split_on_parts [of p chr_slash ?n] ps(5)
    by (auto simp: ps_def chr_slash_def chr_backslash_def chr_nul_def split: if_splits)
  have split: "split_on chr_slash q = ps" using ps(1,4) parts by (simp add: split_join)
  have chars: "chr_nul \<notin> set q" "chr_backslash \<notin> set q"
    using set_join_on [of chr_slash ps] parts ps(4)
    by (auto simp: chr_slash_def chr_backslash_def chr_nul_def)
  have "q \<noteq> []" using join_on_nonempty ps(1,4) parts by simp
  moreover have "map (\<lambda>c. if c = chr_backslash then chr_slash else c) q = q"
    using chars(2) by (intro map_idI) auto
  moreover have "filter (\<lambda>p. p \<noteq> [] \<and> p \<noteq> ''.'') ps = ps" using parts by (simp add: filter_id_conv)
  ultimately have "normalize_relative_path q = Inr q"
    using chars split ps by (auto simp: normalize_relative_path_def Let_def list_ex_iff)
  then show ?thesis using split parts ps(2,3) chars by auto
qed

theorem normalized_path_canonical_witness:
  "normalize_relative_path ''a/./b'' = Inr ''a/b'' \<and> normalize_relative_path ''a/b'' = Inr ''a/b''"
proof -
  have "normalize_relative_path ''a/./b'' = Inr ''a/b''" by code_simp
  then show ?thesis using normalized_path_canonical by blast
qed

end
