(* ===== verification/Relationship_Document.thy ===== *)
theory Relationship_Document
  imports Field_Policy Vault_Operations
begin

text \<open>
  The declared relationship metadata (\<^verbatim>\<open>src/src/dbf_anonymizer/relationships/\<close>): the member and group model
  with its structural contract (\<open>models.py\<close>), the external metadata envelope with its index claims
  (\<open>external_metadata.py\<close>), and the parser of the versioned document (\<open>document.py\<close>). The input is a
  JSON value; canonical bytes and their digest are not modelled.
\<close>

section \<open>Vocabulary\<close>

definition KEY_ROLES :: "string list" where "KEY_ROLES = [''PRIMARY'', ''CANDIDATE'', ''FOREIGN'']"
definition COMPARISON_SEMANTICS :: "string list" where "COMPARISON_SEMANTICS = [''EXACT_VALUE'', ''UNSPECIFIED'']"
definition RELATIONSHIP_PROVENANCES :: "string list" where
  "RELATIONSHIP_PROVENANCES = [''POLICY_FILE'', ''MCP_VFP9SP2_TOOLCHAIN'', ''EXTERNAL_VFP_METADATA'']"
definition SUPPORTED_RELATIONSHIP_DBF_TYPES :: "string list" where "SUPPORTED_RELATIONSHIP_DBF_TYPES = [''C'', ''V'', ''I'', ''N'']"
definition SUPPORTED_NUMERIC_RELATIONSHIP_DBF_TYPES :: "string list" where "SUPPORTED_NUMERIC_RELATIONSHIP_DBF_TYPES = [''I'', ''N'']"
definition REVERSIBLE_BIJECTIVE :: string where "REVERSIBLE_BIJECTIVE = ''REVERSIBLE_BIJECTIVE''"
definition NUMERIC_STRATEGIES :: "string list" where "NUMERIC_STRATEGIES = [''IDENTITY'', REVERSIBLE_BIJECTIVE]"
definition INTEGER_MEMBER_BYTE_WIDTH :: int where "INTEGER_MEMBER_BYTE_WIDTH = 4"
definition NUMERIC_MEMBER_WIDTH_MIN :: int where "NUMERIC_MEMBER_WIDTH_MIN = 1"
definition NUMERIC_MEMBER_WIDTH_MAX :: int where "NUMERIC_MEMBER_WIDTH_MAX = 20"
definition AUTHORITATIVE :: string where "AUTHORITATIVE = ''CONTRACT_AUTHORITATIVE''"
definition INFERRED :: string where "INFERRED = ''INFERRED''"
definition EXTERNAL_METADATA_AUTHORITIES :: "string list" where "EXTERNAL_METADATA_AUTHORITIES = [AUTHORITATIVE, INFERRED]"
definition AUTHORITATIVE_PROVENANCES :: "string list" where
  "AUTHORITATIVE_PROVENANCES = [''MCP_VFP9SP2_TOOLCHAIN'', ''EXTERNAL_VFP_METADATA'']"
definition VERIFIED :: string where "VERIFIED = ''VERIFIED''"
definition CLAIM_ASSURANCES :: "string list" where "CLAIM_ASSURANCES = [VERIFIED, ''UNVERIFIED'']"
definition INDEX_CLAIM_KINDS :: "string list" where "INDEX_CLAIM_KINDS = [''STRUCTURAL_CDX'', ''STANDALONE_IDX'']"
definition INDEX_VERIFICATION_STATES :: "string list" where "INDEX_VERIFICATION_STATES = [VERIFIED, ''UNVERIFIED'']"
definition TAG_SORT_ORDERS :: "string list" where "TAG_SORT_ORDERS = [''ASCENDING'', ''DESCENDING'']"

definition relationship_invalid :: "string \<Rightarrow> error" where
  "relationship_invalid detail = PolicyError POLICY_INVALID detail"

text \<open>\<open>value in (s1, s2, ...)\<close> on a tuple compares with \<open>==\<close>, so no value raises.\<close>

definition one_of :: "json \<Rightarrow> string list \<Rightarrow> bool" where
  "one_of v allowed \<longleftrightarrow> list_ex (\<lambda>s. v = JStr s) allowed"

fun json_text :: "json \<Rightarrow> string" where
  "json_text (JStr s) = s"
| "json_text _ = []"

section \<open>Tokens and paths\<close>

definition is_letter :: "char \<Rightarrow> bool" where
  "is_letter c \<longleftrightarrow> (let n = of_char c :: nat in (65 \<le> n \<and> n \<le> 90) \<or> (97 \<le> n \<and> n \<le> 122))"

definition is_digit_char :: "char \<Rightarrow> bool" where
  "is_digit_char c \<longleftrightarrow> (let n = of_char c :: nat in 48 \<le> n \<and> n \<le> 57)"

definition token_char :: "char \<Rightarrow> bool" where
  "token_char c \<longleftrightarrow> is_letter c \<or> is_digit_char c \<or> c \<in> set ''_.-''"

definition newline :: char where "newline = CHR 0x0A"

text \<open>\<open>$\<close> without \<open>re.MULTILINE\<close> also matches before a newline that ends the text.\<close>

definition bounded_token :: "string \<Rightarrow> bool" where
  "bounded_token s =
     (let body = (if s \<noteq> [] \<and> last s = newline then butlast s else s)
      in 1 \<le> length body \<and> length body \<le> 64 \<and> list_all token_char body)"

definition validate_bounded_token :: "json \<Rightarrow> string \<Rightarrow> string result" where
  "validate_bounded_token v detail =
     (case v of JStr s \<Rightarrow> if bounded_token s then Inr s else Inl (relationship_invalid detail) | _ \<Rightarrow> Inl (relationship_invalid detail))"

definition normalize_relative_table_path :: "json \<Rightarrow> string result" where
  "normalize_relative_table_path v =
     (case v of
        JStr s \<Rightarrow>
          if py_strip s = [] then Inl (relationship_invalid ''RELATIONSHIP_TABLE_PATH_INVALID'')
          else
            let segments = split_on chr_slash (map (\<lambda>c. if c = chr_backslash then chr_slash else c) (py_strip s));
                parts = filter (\<lambda>p. p \<noteq> []) segments
            in if segments \<noteq> [] \<and> hd segments = [] then Inl (relationship_invalid ''RELATIONSHIP_TABLE_PATH_ABSOLUTE'')
               else if parts = [] then Inl (relationship_invalid ''RELATIONSHIP_TABLE_PATH_INVALID'')
               else (case find (\<lambda>p. p = ''.'' \<or> p = ''..'' \<or> CHR '':'' \<in> set p) parts of
                      None \<Rightarrow> Inr (join_on chr_slash parts)
                    | Some p \<Rightarrow> Inl (relationship_invalid
                        (if p = ''.'' \<or> p = ''..'' then ''RELATIONSHIP_TABLE_PATH_TRAVERSAL'' else ''RELATIONSHIP_TABLE_PATH_ABSOLUTE'')))
      | _ \<Rightarrow> Inl (relationship_invalid ''RELATIONSHIP_TABLE_PATH_INVALID''))"

definition lower_char :: "char \<Rightarrow> char" where
  "lower_char c = (if 65 \<le> (of_char c :: nat) \<and> (of_char c :: nat) \<le> 90 then char_of ((of_char c :: nat) + 32) else c)"

definition ends_with :: "string \<Rightarrow> string \<Rightarrow> bool" where
  "ends_with s suffix \<longleftrightarrow> length suffix \<le> length s \<and> drop (length s - length suffix) s = suffix"

definition segment_char :: "char \<Rightarrow> bool" where
  "segment_char c \<longleftrightarrow> is_letter c \<or> is_digit_char c \<or> c \<in> set ''_. -''"

definition drive_prefix :: "string \<Rightarrow> bool" where
  "drive_prefix s \<longleftrightarrow> 2 \<le> length s \<and> is_letter (s ! 0) \<and> s ! 1 = CHR '':''"

definition external_segment_error :: "string \<Rightarrow> string option" where
  "external_segment_error p =
     (if p = ''.'' \<or> p = ''..'' then Some ''RELATIONSHIP_TABLE_PATH_TRAVERSAL''
      else if CHR '':'' \<in> set p then Some ''RELATIONSHIP_TABLE_PATH_ABSOLUTE''
      else if p = [] \<or> \<not> list_all segment_char p then Some ''RELATIONSHIP_TABLE_PATH_INVALID''
      else None)"

definition validate_external_metadata_path :: "json \<Rightarrow> bool \<Rightarrow> string result" where
  "validate_external_metadata_path v require_table_suffix =
     (case v of
        JStr s \<Rightarrow>
          if \<not> (1 \<le> length s \<and> length s \<le> 256) then Inl (relationship_invalid ''RELATIONSHIP_TABLE_PATH_INVALID'')
          else if hd s = chr_slash \<or> drive_prefix s \<or> take 2 s = [chr_backslash, chr_backslash]
            then Inl (relationship_invalid ''RELATIONSHIP_TABLE_PATH_ABSOLUTE'')
          else if chr_backslash \<in> set s then Inl (relationship_invalid ''RELATIONSHIP_TABLE_PATH_INVALID'')
          else (case List.map_filter external_segment_error (split_on chr_slash s) of
                  e # _ \<Rightarrow> Inl (relationship_invalid e)
                | [] \<Rightarrow>
                    if require_table_suffix \<and> \<not> ends_with (map lower_char s) ''.dbf''
                    then Inl (relationship_invalid ''RELATIONSHIP_TABLE_PATH_INVALID'')
                    else Inr s)
      | _ \<Rightarrow> Inl (relationship_invalid ''RELATIONSHIP_TABLE_PATH_INVALID''))"

section \<open>Members and groups\<close>

record relation_member =
  rm_table_path :: string
  rm_field_name :: string
  rm_key_role :: string
  rm_composite_ordinal :: int
  rm_dbf_type :: string
  rm_byte_width :: int
  rm_encoding :: string
  rm_nullable :: bool

record relation_group =
  rg_relation_id :: string
  rg_members :: "relation_member list"
  rg_comparison :: string
  rg_provenance :: string
  rg_source_digest :: "string option"
  rg_numeric_strategy :: string
  rg_claim_assurance :: "string option"
  rg_claim_authority :: "string option"

definition positive_int :: "json \<Rightarrow> string \<Rightarrow> int result" where
  "positive_int v detail = (case v of JInt i \<Rightarrow> if i < 1 then Inl (relationship_invalid detail) else Inr i | _ \<Rightarrow> Inl (relationship_invalid detail))"

definition is_numeric_type :: "string \<Rightarrow> bool" where
  "is_numeric_type ty \<longleftrightarrow> ty \<in> set SUPPORTED_NUMERIC_RELATIONSHIP_DBF_TYPES"

definition is_numeric_member :: "relation_member \<Rightarrow> bool" where
  "is_numeric_member m \<longleftrightarrow> is_numeric_type (rm_dbf_type m)"

definition member_encoding :: "string \<Rightarrow> int \<Rightarrow> json \<Rightarrow> string result" where
  "member_encoding ty width v =
     (if is_numeric_type ty then
        bindE (guardE (v = JStr ''none'') (relationship_invalid ''RELATIONSHIP_NUMERIC_ENCODING_INVALID'')) (\<lambda>_.
        bindE (guardE (ty = ''I'' \<longrightarrow> width = INTEGER_MEMBER_BYTE_WIDTH) (relationship_invalid ''RELATIONSHIP_INTEGER_WIDTH_INVALID'')) (\<lambda>_.
        bindE (guardE (ty = ''N'' \<longrightarrow> NUMERIC_MEMBER_WIDTH_MIN \<le> width \<and> width \<le> NUMERIC_MEMBER_WIDTH_MAX)
                 (relationship_invalid ''RELATIONSHIP_NUMERIC_WIDTH_INVALID'')) (\<lambda>_.
          Inr ''none'')))
      else bindE (validate_bounded_token v ''RELATIONSHIP_ENCODING_INVALID'') (\<lambda>s. Inr (map lower_char s)))"

definition new_member :: "json \<Rightarrow> json \<Rightarrow> string \<Rightarrow> json \<Rightarrow> string \<Rightarrow> json \<Rightarrow> json \<Rightarrow> json \<Rightarrow> relation_member result" where
  "new_member table field role ordinal ty width encoding nullable =
     bindE (normalize_relative_table_path table) (\<lambda>path.
     bindE (validate_bounded_token field ''RELATIONSHIP_FIELD_INVALID'') (\<lambda>name.
     bindE (guardE (role \<in> set KEY_ROLES) (relationship_invalid ''RELATIONSHIP_KEY_ROLE_INVALID'')) (\<lambda>_.
     bindE (positive_int ordinal ''RELATIONSHIP_ORDINAL_INVALID'') (\<lambda>ord.
     bindE (guardE (ty \<in> set SUPPORTED_RELATIONSHIP_DBF_TYPES) (relationship_invalid ''RELATIONSHIP_DBF_TYPE_UNSUPPORTED'')) (\<lambda>_.
     bindE (positive_int width ''RELATIONSHIP_BYTE_WIDTH_INVALID'') (\<lambda>w.
     bindE (member_encoding ty w encoding) (\<lambda>enc.
       case nullable of
         JBool b \<Rightarrow> Inr \<lparr>rm_table_path = path, rm_field_name = name, rm_key_role = role, rm_composite_ordinal = ord,
                       rm_dbf_type = ty, rm_byte_width = w, rm_encoding = enc, rm_nullable = b\<rparr>
       | _ \<Rightarrow> Inl (relationship_invalid ''RELATIONSHIP_NULL_POLICY_INVALID''))))))))"

definition member_identity :: "relation_member \<Rightarrow> string \<times> string \<times> string" where
  "member_identity m = (rm_table_path m, rm_field_name m, rm_key_role m)"

definition role_members :: "string \<Rightarrow> relation_group \<Rightarrow> relation_member list" where
  "role_members role g = filter (\<lambda>m. rm_key_role m = role) (rg_members g)"

definition members_for_role :: "string \<Rightarrow> relation_group \<Rightarrow> relation_member list" where
  "members_for_role role g = sort_key (\<lambda>m. (rm_composite_ordinal m, rm_table_path m, rm_field_name m)) (role_members role g)"

definition ordinals_ok :: "string \<Rightarrow> relation_group \<Rightarrow> bool" where
  "ordinals_ok role g \<longleftrightarrow>
     (let ordinals = sort (map rm_composite_ordinal (role_members role g)) in ordinals = map int [1..<Suc (length ordinals)])"

text \<open>The structural contract of a group; the errors come in the order of the checks.\<close>

definition group_shape :: "relation_group \<Rightarrow> unit result" where
  "group_shape g =
     (let roles = map rm_key_role (rg_members g); mems = rg_members g
      in bindE (guardE (distinct (map member_identity mems)) (relationship_invalid ''RELATIONSHIP_MEMBER_DUPLICATE'')) (\<lambda>_.
         bindE (guardE (rg_numeric_strategy g = REVERSIBLE_BIJECTIVE \<longrightarrow> list_ex is_numeric_member mems)
                  (relationship_invalid ''RELATIONSHIP_NUMERIC_STRATEGY_MEMBER_REQUIRED'')) (\<lambda>_.
         bindE (guardE (\<not> (''PRIMARY'' \<in> set roles \<and> ''CANDIDATE'' \<in> set roles)) (relationship_invalid ''RELATIONSHIP_PARENT_SIDE_AMBIGUOUS'')) (\<lambda>_.
         bindE (guardE (''PRIMARY'' \<in> set roles \<or> ''CANDIDATE'' \<in> set roles) (relationship_invalid ''RELATIONSHIP_PARENT_SIDE_MISSING'')) (\<lambda>_.
         bindE (guardE (''FOREIGN'' \<in> set roles) (relationship_invalid ''RELATIONSHIP_FOREIGN_SIDE_MISSING'')) (\<lambda>_.
         bindE (guardE (list_all (\<lambda>role. ordinals_ok role g) roles) (relationship_invalid ''RELATIONSHIP_ORDINAL_SEQUENCE_INVALID'')) (\<lambda>_.
           guardE (length (role_members ''PRIMARY'' g) + length (role_members ''CANDIDATE'' g) = length (role_members ''FOREIGN'' g))
             (relationship_invalid ''RELATIONSHIP_ARITY_MISMATCH''))))))))"

definition new_group ::
    "json \<Rightarrow> relation_member list \<Rightarrow> string \<Rightarrow> string \<Rightarrow> json option \<Rightarrow> string \<Rightarrow> string option \<Rightarrow> string option \<Rightarrow> relation_group result" where
  "new_group relation_id mems comparison provenance digest strategy assurance authority =
     bindE (validate_bounded_token relation_id ''RELATIONSHIP_ID_INVALID'') (\<lambda>rid.
     bindE (guardE (mems \<noteq> []) (relationship_invalid ''RELATIONSHIP_MEMBERS_EMPTY'')) (\<lambda>_.
     bindE (guardE (comparison \<in> set COMPARISON_SEMANTICS) (relationship_invalid ''RELATIONSHIP_COMPARISON_INVALID'')) (\<lambda>_.
     bindE (guardE (provenance \<in> set RELATIONSHIP_PROVENANCES) (relationship_invalid ''RELATIONSHIP_PROVENANCE_INVALID'')) (\<lambda>_.
     bindE (guardE (strategy \<in> set NUMERIC_STRATEGIES) (relationship_invalid ''RELATIONSHIP_NUMERIC_STRATEGY_INVALID'')) (\<lambda>_.
     bindE (guardE (case assurance of None \<Rightarrow> True | Some a \<Rightarrow> a \<in> set CLAIM_ASSURANCES) (relationship_invalid ''EXTERNAL_METADATA_RELATION_ASSURANCE_INVALID'')) (\<lambda>_.
     bindE (guardE (case authority of None \<Rightarrow> True | Some a \<Rightarrow> a \<in> set EXTERNAL_METADATA_AUTHORITIES)
              (relationship_invalid ''EXTERNAL_METADATA_RELATION_AUTHORITY_INVALID'')) (\<lambda>_.
     bindE (case digest of None \<Rightarrow> Inr None | Some v \<Rightarrow> bindE (validate_bounded_token v ''RELATIONSHIP_SOURCE_DIGEST_INVALID'') (\<lambda>s. Inr (Some s))) (\<lambda>dig.
     let g = \<lparr>rg_relation_id = rid, rg_members = mems, rg_comparison = comparison, rg_provenance = provenance, rg_source_digest = dig,
              rg_numeric_strategy = strategy, rg_claim_assurance = assurance, rg_claim_authority = authority\<rparr>
     in bindE (group_shape g) (\<lambda>_. Inr g)))))))))"

section \<open>The external envelope\<close>

record external_index_tag =
  it_name :: string
  it_sort_order :: string
  it_expression :: "string option"

record external_index_claim =
  ic_claim_id :: string
  ic_table_path :: string
  ic_index_file_path :: string
  ic_index_kind :: string
  ic_tags :: "external_index_tag list"
  ic_verification_state :: string
  ic_assurance :: string
  ic_provenance :: string
  ic_authority :: string

definition external_provenance_class_allowed :: "string \<Rightarrow> bool" where
  "external_provenance_class_allowed p \<longleftrightarrow> p \<in> set AUTHORITATIVE_PROVENANCES"

definition claim_verified :: "external_index_claim \<Rightarrow> bool" where
  "claim_verified c \<longleftrightarrow> ic_authority c = AUTHORITATIVE \<and> ic_verification_state c = VERIFIED \<and> ic_assurance c = VERIFIED
     \<and> external_provenance_class_allowed (ic_provenance c)"

definition keys_within :: "dict \<Rightarrow> string list \<Rightarrow> bool" where
  "keys_within d allowed \<longleftrightarrow> list_all (\<lambda>kv. fst kv \<in> set allowed) d"

definition keys_present :: "dict \<Rightarrow> string list \<Rightarrow> bool" where
  "keys_present d required \<longleftrightarrow> list_all (\<lambda>k. map_of d k \<noteq> None) required"

text \<open>\<open>payload.get(key)\<close>.\<close>

definition dict_get :: "dict \<Rightarrow> string \<Rightarrow> json" where
  "dict_get d k = (case map_of d k of None \<Rightarrow> JNull | Some v \<Rightarrow> v)"

definition parse_producer :: "json \<Rightarrow> (string \<times> string) result" where
  "parse_producer v =
     (case v of
        JObj d \<Rightarrow>
          bindE (guardE (keys_within d [''producer_id'', ''producer_version'']) (relationship_invalid ''EXTERNAL_METADATA_PRODUCER_KEY_UNKNOWN'')) (\<lambda>_.
          bindE (validate_bounded_token (dict_get d ''producer_id'') ''EXTERNAL_METADATA_PRODUCER_ID_INVALID'') (\<lambda>i.
          bindE (validate_bounded_token (dict_get d ''producer_version'') ''EXTERNAL_METADATA_PRODUCER_VERSION_INVALID'') (\<lambda>w. Inr (i, w))))
      | _ \<Rightarrow> Inl (relationship_invalid ''EXTERNAL_METADATA_PRODUCER_INVALID''))"

text \<open>\<open>_PRIVATE_PATH.search\<close>: a drive root, a leading separator or a segment of two dots.\<close>

definition private_path :: "string \<Rightarrow> bool" where
  "private_path s \<longleftrightarrow>
     (let t = map (\<lambda>c. if c = chr_backslash then chr_slash else c) s
      in (drive_prefix t \<and> 3 \<le> length t \<and> t ! 2 = chr_slash) \<or> take 1 t = [chr_slash] \<or> ''..'' \<in> set (split_on chr_slash t))"

definition expression_ok :: "string \<Rightarrow> bool" where
  "expression_ok s \<longleftrightarrow> 1 \<le> length s \<and> length s \<le> 256 \<and> list_all (\<lambda>c. 32 \<le> (of_char c :: nat) \<and> (of_char c :: nat) \<le> 126) s \<and> \<not> private_path s"

definition parse_index_tag :: "json \<Rightarrow> external_index_tag result" where
  "parse_index_tag v =
     (case v of
        JObj d \<Rightarrow>
          bindE (guardE (keys_within d [''name'', ''sort_order'', ''expression''] \<and> keys_present d [''name'', ''sort_order''])
                   (relationship_invalid ''EXTERNAL_METADATA_INDEX_TAG_KEY_INVALID'')) (\<lambda>_.
          bindE (validate_bounded_token (dict_get d ''name'') ''EXTERNAL_METADATA_INDEX_TAG_NAME_INVALID'') (\<lambda>name.
          bindE (guardE (one_of (dict_get d ''sort_order'') TAG_SORT_ORDERS) (relationship_invalid ''EXTERNAL_METADATA_INDEX_TAG_ORDER_INVALID'')) (\<lambda>_.
            let tag = (\<lambda>e. \<lparr>it_name = name, it_sort_order = json_text (dict_get d ''sort_order''), it_expression = e\<rparr>)
            in case dict_get d ''expression'' of
                 JNull \<Rightarrow> Inr (tag None)
               | JStr s \<Rightarrow> if expression_ok s then Inr (tag (Some s)) else Inl (relationship_invalid ''EXTERNAL_METADATA_INDEX_EXPRESSION_INVALID'')
               | _ \<Rightarrow> Inl (relationship_invalid ''EXTERNAL_METADATA_INDEX_EXPRESSION_INVALID''))))
      | _ \<Rightarrow> Inl (relationship_invalid ''EXTERNAL_METADATA_INDEX_TAG_INVALID''))"

definition parse_index_tags :: "json \<Rightarrow> external_index_tag list result" where
  "parse_index_tags v =
     (case v of
        JList xs \<Rightarrow>
          if xs = [] \<or> 256 < length xs then Inl (relationship_invalid ''EXTERNAL_METADATA_INDEX_TAGS_INVALID'')
          else bindE (mapE parse_index_tag xs) (\<lambda>tags.
                 if distinct (map (\<lambda>t. map upper_char (it_name t)) tags) then Inr tags
                 else Inl (relationship_invalid ''EXTERNAL_METADATA_INDEX_TAG_DUPLICATE''))
      | _ \<Rightarrow> Inl (relationship_invalid ''EXTERNAL_METADATA_INDEX_TAGS_INVALID''))"

text \<open>\<open>PurePosixPath(p).suffix\<close>: from the last dot of the name, unless it starts or ends the name.\<close>

definition path_suffix :: "string \<Rightarrow> string" where
  "path_suffix s =
     (let name = last (split_on chr_slash s); parts = split_on (CHR ''.'') name
      in if 2 \<le> length parts \<and> length (last parts) + 1 < length name \<and> last parts \<noteq> [] then CHR ''.'' # last parts else [])"

definition INDEX_CLAIM_KEYS :: "string list" where
  "INDEX_CLAIM_KEYS = [''claim_id'', ''table'', ''index_file'', ''index_kind'', ''tags'', ''verification_state'', ''assurance'', ''provenance'', ''authority'']"

definition parse_index_claim :: "json \<Rightarrow> string list \<Rightarrow> external_index_claim result" where
  "parse_index_claim v seen =
     (case v of
        JObj d \<Rightarrow>
          bindE (guardE (keys_within d INDEX_CLAIM_KEYS \<and> keys_present d INDEX_CLAIM_KEYS) (relationship_invalid ''EXTERNAL_METADATA_INDEX_CLAIM_KEY_INVALID'')) (\<lambda>_.
          bindE (validate_bounded_token (dict_get d ''claim_id'') ''EXTERNAL_METADATA_INDEX_CLAIM_ID_INVALID'') (\<lambda>cid.
          bindE (guardE (cid \<notin> set seen) (relationship_invalid ''EXTERNAL_METADATA_INDEX_CLAIM_DUPLICATE'')) (\<lambda>_.
          bindE (validate_external_metadata_path (dict_get d ''table'') True) (\<lambda>table.
          bindE (validate_external_metadata_path (dict_get d ''index_file'') False) (\<lambda>file.
          bindE (guardE (one_of (dict_get d ''index_kind'') INDEX_CLAIM_KINDS) (relationship_invalid ''EXTERNAL_METADATA_INDEX_KIND_INVALID'')) (\<lambda>_.
          bindE (parse_index_tags (dict_get d ''tags'')) (\<lambda>tags.
          bindE (guardE (one_of (dict_get d ''verification_state'') INDEX_VERIFICATION_STATES) (relationship_invalid ''EXTERNAL_METADATA_INDEX_VERIFICATION_INVALID'')) (\<lambda>_.
          bindE (guardE (one_of (dict_get d ''assurance'') CLAIM_ASSURANCES) (relationship_invalid ''EXTERNAL_METADATA_INDEX_ASSURANCE_INVALID'')) (\<lambda>_.
          bindE (guardE (dict_get d ''assurance'' = dict_get d ''verification_state'') (relationship_invalid ''EXTERNAL_METADATA_INDEX_ASSURANCE_INCONSISTENT'')) (\<lambda>_.
          bindE (guardE (one_of (dict_get d ''authority'') EXTERNAL_METADATA_AUTHORITIES) (relationship_invalid ''EXTERNAL_METADATA_INDEX_AUTHORITY_INVALID'')) (\<lambda>_.
          bindE (guardE (map lower_char (path_suffix file) = (if dict_get d ''index_kind'' = JStr ''STRUCTURAL_CDX'' then ''.cdx'' else ''.idx''))
                   (relationship_invalid ''EXTERNAL_METADATA_INDEX_PATH_KIND_MISMATCH'')) (\<lambda>_.
          bindE (guardE (one_of (dict_get d ''provenance'') RELATIONSHIP_PROVENANCES) (relationship_invalid ''EXTERNAL_METADATA_INDEX_PROVENANCE_INVALID'')) (\<lambda>_.
          bindE (guardE (\<not> (dict_get d ''authority'' = JStr AUTHORITATIVE \<and> dict_get d ''assurance'' = JStr VERIFIED
                     \<and> dict_get d ''verification_state'' = JStr VERIFIED \<and> \<not> external_provenance_class_allowed (json_text (dict_get d ''provenance''))))
                   (relationship_invalid ''EXTERNAL_METADATA_INDEX_PROVENANCE_INAUTHORITATIVE'')) (\<lambda>_.
            Inr \<lparr>ic_claim_id = cid, ic_table_path = table, ic_index_file_path = file, ic_index_kind = json_text (dict_get d ''index_kind''), ic_tags = tags,
                 ic_verification_state = json_text (dict_get d ''verification_state''), ic_assurance = json_text (dict_get d ''assurance''),
                 ic_provenance = json_text (dict_get d ''provenance''), ic_authority = json_text (dict_get d ''authority'')\<rparr>))))))))))))))
      | _ \<Rightarrow> Inl (relationship_invalid ''EXTERNAL_METADATA_INDEX_CLAIM_INVALID''))"

fun parse_claim_list :: "json list \<Rightarrow> external_index_claim list \<Rightarrow> external_index_claim list result" where
  "parse_claim_list [] claims = Inr claims"
| "parse_claim_list (v # vs) claims =
     bindE (parse_index_claim v (map ic_claim_id claims)) (\<lambda>c. parse_claim_list vs (claims @ [c]))"

definition parse_index_claims :: "json \<Rightarrow> external_index_claim list result" where
  "parse_index_claims v =
     (case v of
        JList xs \<Rightarrow> if 256 < length xs then Inl (relationship_invalid ''EXTERNAL_METADATA_INDEX_CLAIMS_INVALID'') else parse_claim_list xs []
      | _ \<Rightarrow> Inl (relationship_invalid ''EXTERNAL_METADATA_INDEX_CLAIMS_INVALID''))"

definition parse_external_authority :: "json \<Rightarrow> string result" where
  "parse_external_authority v =
     (if one_of v EXTERNAL_METADATA_AUTHORITIES then Inr (json_text v) else Inl (relationship_invalid ''EXTERNAL_METADATA_AUTHORITY_INVALID''))"

definition parse_claim_assurance :: "json \<Rightarrow> string result" where
  "parse_claim_assurance v =
     (if one_of v CLAIM_ASSURANCES then Inr (json_text v) else Inl (relationship_invalid ''EXTERNAL_METADATA_RELATION_ASSURANCE_INVALID''))"

definition validate_authority_assurance :: "string \<Rightarrow> string \<Rightarrow> unit result" where
  "validate_authority_assurance authority assurance =
     guardE (\<not> (authority = INFERRED \<and> assurance = VERIFIED)) (relationship_invalid ''EXTERNAL_METADATA_AUTHORITY_ASSURANCE_INCONSISTENT'')"

section \<open>The document\<close>

definition MEMBER_KEYS :: "string list" where
  "MEMBER_KEYS = [''table'', ''field'', ''role'', ''ordinal'', ''dbf_type'', ''byte_width'', ''encoding'', ''nullable'']"

definition GROUP_KEYS :: "string list" where
  "GROUP_KEYS = [''relation_id'', ''provenance'', ''comparison'', ''source_digest'', ''members'', ''numeric_strategy'', ''assurance'', ''authority'']"

definition EXTERNAL_ENVELOPE_KEYS :: "string list" where
  "EXTERNAL_ENVELOPE_KEYS = [''external_metadata_schema_version'', ''producer'', ''authority'', ''index_claims'']"

definition parse_member :: "string option \<Rightarrow> json \<Rightarrow> relation_member result" where
  "parse_member external_authority v =
     (case v of
        JObj d \<Rightarrow>
          bindE (guardE (keys_within d MEMBER_KEYS) (relationship_invalid ''RELATIONSHIP_MEMBER_KEY_UNKNOWN'')) (\<lambda>_.
          bindE (guardE (keys_present d MEMBER_KEYS) (relationship_invalid ''RELATIONSHIP_MEMBER_KEY_MISSING'')) (\<lambda>_.
          bindE (guardE (one_of (dict_get d ''role'') KEY_ROLES) (relationship_invalid ''RELATIONSHIP_KEY_ROLE_INVALID'')) (\<lambda>_.
          bindE (guardE (one_of (dict_get d ''dbf_type'') SUPPORTED_RELATIONSHIP_DBF_TYPES) (relationship_invalid ''RELATIONSHIP_DBF_TYPE_UNSUPPORTED'')) (\<lambda>_.
          bindE (if external_authority = None then Inr (dict_get d ''table'')
                 else bindE (validate_external_metadata_path (dict_get d ''table'') True) (\<lambda>p. Inr (JStr p))) (\<lambda>table.
            new_member table (dict_get d ''field'') (json_text (dict_get d ''role'')) (dict_get d ''ordinal'') (json_text (dict_get d ''dbf_type''))
              (dict_get d ''byte_width'') (dict_get d ''encoding'') (dict_get d ''nullable''))))))
      | _ \<Rightarrow> Inl (relationship_invalid ''RELATIONSHIP_MEMBER_INVALID''))"

text \<open>The assurance and authority of an external claim, with the eligibility checks of the boundary.\<close>

definition parse_claim_classes :: "string option \<Rightarrow> dict \<Rightarrow> string \<Rightarrow> json \<Rightarrow> (string option \<times> string option) result" where
  "parse_claim_classes external_authority d provenance strategy =
     (if external_authority \<noteq> None then
        bindE (guardE (map_of d ''assurance'' \<noteq> None) (relationship_invalid ''EXTERNAL_METADATA_RELATION_ASSURANCE_MISSING'')) (\<lambda>_.
        bindE (parse_claim_assurance (dict_get d ''assurance'')) (\<lambda>assurance.
        bindE (guardE (map_of d ''authority'' \<noteq> None) (relationship_invalid ''EXTERNAL_METADATA_RELATION_AUTHORITY_MISSING'')) (\<lambda>_.
        bindE (parse_external_authority (dict_get d ''authority'')) (\<lambda>authority.
        bindE (validate_authority_assurance authority assurance) (\<lambda>_.
        bindE (guardE (\<not> (authority = AUTHORITATIVE \<and> assurance = VERIFIED \<and> \<not> external_provenance_class_allowed provenance))
                 (relationship_invalid ''EXTERNAL_METADATA_RELATION_PROVENANCE_INAUTHORITATIVE'')) (\<lambda>_.
        bindE (guardE (\<not> (strategy = JStr REVERSIBLE_BIJECTIVE \<and> (authority \<noteq> AUTHORITATIVE \<or> assurance \<noteq> VERIFIED)))
                 (relationship_invalid (if authority = INFERRED then ''EXTERNAL_METADATA_INFERRED_GROUPING_UNSUPPORTED''
                                        else ''EXTERNAL_METADATA_UNVERIFIED_GROUPING_UNSUPPORTED''))) (\<lambda>_.
          Inr (Some assurance, Some authority))))))))
      else if map_of d ''assurance'' \<noteq> None then Inl (relationship_invalid ''EXTERNAL_METADATA_RELATION_ASSURANCE_WITHOUT_ENVELOPE'')
      else Inr (None, None))"

definition parse_group :: "string option \<Rightarrow> json \<Rightarrow> relation_group result" where
  "parse_group external_authority v =
     (case v of
        JObj d \<Rightarrow>
          bindE (guardE (keys_within d GROUP_KEYS) (relationship_invalid ''RELATIONSHIP_GROUP_KEY_UNKNOWN'')) (\<lambda>_.
          bindE (guardE (keys_present d [''relation_id'', ''provenance'', ''comparison'', ''members'']) (relationship_invalid ''RELATIONSHIP_GROUP_KEY_MISSING'')) (\<lambda>_.
          bindE (guardE (one_of (dict_get d ''comparison'') COMPARISON_SEMANTICS) (relationship_invalid ''RELATIONSHIP_COMPARISON_INVALID'')) (\<lambda>_.
          bindE (guardE (one_of (dict_get d ''provenance'') RELATIONSHIP_PROVENANCES) (relationship_invalid ''RELATIONSHIP_PROVENANCE_INVALID'')) (\<lambda>_.
          bindE (guardE (dict_get d ''numeric_strategy'' = JNull \<or> one_of (dict_get d ''numeric_strategy'') NUMERIC_STRATEGIES)
                   (relationship_invalid ''RELATIONSHIP_NUMERIC_STRATEGY_INVALID'')) (\<lambda>_.
          bindE (case dict_get d ''members'' of
                   JList xs \<Rightarrow> if xs = [] \<or> 512 < length xs then Inl (relationship_invalid ''RELATIONSHIP_MEMBERS_EMPTY'') else Inr xs
                 | _ \<Rightarrow> Inl (relationship_invalid ''RELATIONSHIP_MEMBERS_EMPTY'')) (\<lambda>raw.
          bindE (mapE (parse_member external_authority) raw) (\<lambda>mems.
          bindE (if dict_get d ''source_digest'' = JNull then Inr None
                 else bindE (validate_bounded_token (dict_get d ''source_digest'') ''RELATIONSHIP_SOURCE_DIGEST_INVALID'') (\<lambda>s. Inr (Some (JStr s)))) (\<lambda>digest.
          bindE (parse_claim_classes external_authority d (json_text (dict_get d ''provenance'')) (dict_get d ''numeric_strategy'')) (\<lambda>(assurance, authority).
            new_group (dict_get d ''relation_id'') mems (json_text (dict_get d ''comparison'')) (json_text (dict_get d ''provenance'')) digest
              (if dict_get d ''numeric_strategy'' = JNull then ''IDENTITY'' else json_text (dict_get d ''numeric_strategy'')) assurance authority)))))))))
      | _ \<Rightarrow> Inl (relationship_invalid ''RELATIONSHIP_GROUP_INVALID''))"

record relationship_document =
  rd_groups :: "relation_group list"
  rd_external_version :: "string option"
  rd_producer :: "(string \<times> string) option"
  rd_external_authority :: "string option"
  rd_index_claims :: "external_index_claim list"

definition parse_envelope :: "dict \<Rightarrow> ((string \<times> string) option \<times> string option \<times> external_index_claim list) result" where
  "parse_envelope d =
     (if list_all (\<lambda>k. map_of d k = None) EXTERNAL_ENVELOPE_KEYS then Inr (None, None, [])
      else
        bindE (guardE (keys_present d [''external_metadata_schema_version'', ''producer'', ''authority''])
                 (relationship_invalid ''RELATIONSHIP_EXTERNAL_ENVELOPE_INCOMPLETE'')) (\<lambda>_.
        bindE (guardE (dict_get d ''external_metadata_schema_version'' = JStr ''1.0'')
                 (relationship_invalid ''RELATIONSHIP_EXTERNAL_METADATA_VERSION_UNSUPPORTED'')) (\<lambda>_.
        bindE (parse_producer (dict_get d ''producer'')) (\<lambda>producer.
        bindE (parse_external_authority (dict_get d ''authority'')) (\<lambda>authority.
        bindE (case map_of d ''index_claims'' of
                 None \<Rightarrow> Inr []
               | Some v \<Rightarrow> bindE (parse_index_claims v) (\<lambda>claims.
                   bindE (mapE (\<lambda>c. validate_authority_assurance (ic_authority c) (ic_assurance c)) claims) (\<lambda>_. Inr claims))) (\<lambda>claims.
          Inr (Some producer, Some authority, claims)))))))"

definition parse_relationship_document :: "json \<Rightarrow> relationship_document result" where
  "parse_relationship_document v =
     (case v of
        JObj d \<Rightarrow>
          bindE (guardE (keys_within d ([''metadata_schema_version'', ''relations''] @ EXTERNAL_ENVELOPE_KEYS))
                   (relationship_invalid ''RELATIONSHIP_DOCUMENT_KEY_UNKNOWN'')) (\<lambda>_.
          bindE (guardE (keys_present d [''metadata_schema_version'', ''relations'']) (relationship_invalid ''RELATIONSHIP_DOCUMENT_KEY_MISSING'')) (\<lambda>_.
          bindE (guardE (dict_get d ''metadata_schema_version'' = JStr ''1.0'') (relationship_invalid ''RELATIONSHIP_METADATA_VERSION_UNSUPPORTED'')) (\<lambda>_.
          bindE (parse_envelope d) (\<lambda>(producer, authority, claims).
          bindE (case dict_get d ''relations'' of
                   JList xs \<Rightarrow> if 256 < length xs then Inl (relationship_invalid ''RELATIONSHIP_RELATIONS_INVALID'') else Inr xs
                 | _ \<Rightarrow> Inl (relationship_invalid ''RELATIONSHIP_RELATIONS_INVALID'')) (\<lambda>raw.
          bindE (mapE (parse_group authority) raw) (\<lambda>groups.
            if distinct (map rg_relation_id groups) then
              Inr \<lparr>rd_groups = groups,
                   rd_external_version = (case dict_get d ''external_metadata_schema_version'' of JStr s \<Rightarrow> Some s | _ \<Rightarrow> None),
                   rd_producer = producer, rd_external_authority = authority, rd_index_claims = claims\<rparr>
            else Inl (relationship_invalid ''RELATIONSHIP_ID_DUPLICATE'')))))))
      | _ \<Rightarrow> Inl (relationship_invalid ''RELATIONSHIP_DOCUMENT_INVALID''))"

definition effective_groups :: "relationship_document \<Rightarrow> relation_group list" where
  "effective_groups doc =
     (if rd_external_version doc = None then rd_groups doc
      else filter (\<lambda>g. rg_claim_authority g = Some AUTHORITATIVE \<and> rg_claim_assurance g = Some VERIFIED) (rd_groups doc))"

definition verified_index_claims :: "relationship_document \<Rightarrow> external_index_claim list" where
  "verified_index_claims doc = filter claim_verified (rd_index_claims doc)"

section \<open>What a parsed document satisfies\<close>

lemmas guard_simps = bindE_Inr_iff guardE_Inr_iff

text \<open>The contract of a group: one parent key family, a foreign side of the same arity, ordinals that number each side.\<close>

definition group_ok :: "relation_group \<Rightarrow> bool" where
  "group_ok g \<longleftrightarrow> distinct (map member_identity (rg_members g))
     \<and> (\<exists>parent\<in>{''PRIMARY'', ''CANDIDATE''}. set (map rm_key_role (rg_members g)) \<subseteq> {parent, ''FOREIGN''}
          \<and> 0 < length (members_for_role parent g) \<and> length (members_for_role parent g) = length (members_for_role ''FOREIGN'' g)
          \<and> (\<forall>role\<in>{parent, ''FOREIGN''}. map rm_composite_ordinal (members_for_role role g) = map int [1..<Suc (length (members_for_role role g))]))
     \<and> (\<forall>m\<in>set (rg_members g). rm_dbf_type m \<in> set SUPPORTED_RELATIONSHIP_DBF_TYPES \<and> 1 \<le> rm_byte_width m
          \<and> (rm_dbf_type m = ''I'' \<longrightarrow> rm_byte_width m = 4) \<and> (rm_dbf_type m = ''N'' \<longrightarrow> rm_byte_width m \<le> 20))
     \<and> (rg_numeric_strategy g = REVERSIBLE_BIJECTIVE \<longrightarrow> (\<exists>m\<in>set (rg_members g). is_numeric_member m))"

definition member_ok :: "relation_member \<Rightarrow> bool" where
  "member_ok m \<longleftrightarrow> rm_key_role m \<in> set KEY_ROLES \<and> rm_dbf_type m \<in> set SUPPORTED_RELATIONSHIP_DBF_TYPES \<and> 1 \<le> rm_byte_width m
     \<and> (rm_dbf_type m = ''I'' \<longrightarrow> rm_byte_width m = 4) \<and> (rm_dbf_type m = ''N'' \<longrightarrow> rm_byte_width m \<le> 20)"

lemma new_member_ok:
  assumes "new_member table field role ordinal ty width encoding nullable = Inr m"
  shows "member_ok m"
proof -
  obtain w enc where w: "positive_int width ''RELATIONSHIP_BYTE_WIDTH_INVALID'' = Inr w" "member_encoding ty w encoding = Inr enc"
    and m: "rm_key_role m = role" "rm_dbf_type m = ty" "rm_byte_width m = w" and ok: "role \<in> set KEY_ROLES" "ty \<in> set SUPPORTED_RELATIONSHIP_DBF_TYPES"
    using assms unfolding new_member_def by (auto elim!: bindE_InrE split: json.splits)
  have "1 \<le> w" using w(1) by (auto simp: positive_int_def split: json.splits if_splits)
  moreover have "(ty = ''I'' \<longrightarrow> w = 4) \<and> (ty = ''N'' \<longrightarrow> w \<le> 20)"
    using w(2) by (auto simp: member_encoding_def guard_simps is_numeric_type_def SUPPORTED_NUMERIC_RELATIONSHIP_DBF_TYPES_def INTEGER_MEMBER_BYTE_WIDTH_def
        NUMERIC_MEMBER_WIDTH_MAX_def split: if_splits)
  ultimately show ?thesis using m ok by (simp add: member_ok_def)
qed

lemma parse_member_ok: "parse_member a v = Inr m \<Longrightarrow> member_ok m"
  unfolding parse_member_def by (cases v) (auto elim!: bindE_InrE intro: new_member_ok)

lemma ordinals_sorted: "map rm_composite_ordinal (members_for_role role g) = sort (map rm_composite_ordinal (role_members role g))"
proof (rule properties_for_sort [symmetric])
  show "mset (map rm_composite_ordinal (members_for_role role g)) = mset (map rm_composite_ordinal (role_members role g))"
    by (simp add: members_for_role_def)
  have "sorted (map (\<lambda>m. (rm_composite_ordinal m, rm_table_path m, rm_field_name m)) (members_for_role role g))"
    by (simp add: members_for_role_def)
  then show "sorted (map rm_composite_ordinal (members_for_role role g))"
    unfolding sorted_map by (rule sorted_wrt_mono_rel [rotated]) (auto simp: less_eq_prod_def)
qed

lemma length_members_for_role [simp]: "length (members_for_role role g) = length (role_members role g)"
  by (simp add: members_for_role_def)

lemma group_shape_ok:
  assumes "group_shape g = Inr u" and "\<forall>m\<in>set (rg_members g). member_ok m"
  shows "group_ok g"
proof -
  let ?roles = "set (map rm_key_role (rg_members g))"
  have sh: "distinct (map member_identity (rg_members g))" "rg_numeric_strategy g = REVERSIBLE_BIJECTIVE \<longrightarrow> list_ex is_numeric_member (rg_members g)"
    "\<not> (''PRIMARY'' \<in> ?roles \<and> ''CANDIDATE'' \<in> ?roles)" "''PRIMARY'' \<in> ?roles \<or> ''CANDIDATE'' \<in> ?roles" "''FOREIGN'' \<in> ?roles"
    "list_all (\<lambda>role. ordinals_ok role g) (map rm_key_role (rg_members g))"
    "length (role_members ''PRIMARY'' g) + length (role_members ''CANDIDATE'' g) = length (role_members ''FOREIGN'' g)"
    using assms(1) by (simp_all only: group_shape_def Let_def guard_simps)  blast+
  obtain parent other where p: "parent \<in> {''PRIMARY'', ''CANDIDATE''}" "parent \<in> ?roles" "other \<notin> ?roles" "{parent, other} = {''PRIMARY'', ''CANDIDATE''}"
    using sh(3,4) by blast
  have roles: "?roles \<subseteq> {parent, ''FOREIGN''}" using assms(2) p by (auto simp: member_ok_def KEY_ROLES_def)
  have "role_members other g = []" using p(3) by (auto simp: role_members_def filter_empty_conv)
  then have len: "length (role_members parent g) = length (role_members ''FOREIGN'' g)" using sh(7) p(4) by (auto simp: doubleton_eq_iff)
  have pos: "0 < length (role_members parent g)" using p(2) by (auto simp: role_members_def filter_empty_conv)
  have ord: "map rm_composite_ordinal (members_for_role role g) = map int [1..<Suc (length (members_for_role role g))]" if "role \<in> {parent, ''FOREIGN''}" for role
  proof -
    have "role \<in> ?roles" using that p(2) sh(5) by auto
    then have "ordinals_ok role g" using sh(6) by (auto simp: list_all_iff)
    then show ?thesis unfolding ordinals_sorted length_members_for_role by (simp only: ordinals_ok_def Let_def length_sort length_map)
  qed
  show ?thesis
    unfolding group_ok_def
  proof (intro conjI)
    show "\<exists>parent\<in>{''PRIMARY'', ''CANDIDATE''}. ?roles \<subseteq> {parent, ''FOREIGN''} \<and> 0 < length (members_for_role parent g)
        \<and> length (members_for_role parent g) = length (members_for_role ''FOREIGN'' g)
        \<and> (\<forall>role\<in>{parent, ''FOREIGN''}. map rm_composite_ordinal (members_for_role role g) = map int [1..<Suc (length (members_for_role role g))])"
      using p(1) roles pos len ord by (intro bexI [of _ parent]) auto
  qed (use sh(1,2) assms(2) in \<open>auto simp: member_ok_def list_ex_iff\<close>)
qed

lemma parse_claim_classes_Inr:
  assumes "parse_claim_classes a d provenance strategy = Inr (assurance, authority)" and "a \<noteq> None"
  shows "\<exists>x y. assurance = Some x \<and> authority = Some y \<and> \<not> (y = INFERRED \<and> x = VERIFIED)
    \<and> (y = AUTHORITATIVE \<and> x = VERIFIED \<longrightarrow> external_provenance_class_allowed provenance)
    \<and> (strategy = JStr REVERSIBLE_BIJECTIVE \<longrightarrow> y = AUTHORITATIVE \<and> x = VERIFIED)"
  using assms by (auto simp: parse_claim_classes_def guard_simps validate_authority_assurance_def)

lemma parse_group_facts:
  assumes "parse_group a v = Inr g"
  shows "group_ok g" and "a \<noteq> None \<Longrightarrow> \<exists>x y. rg_claim_assurance g = Some x \<and> rg_claim_authority g = Some y \<and> \<not> (y = INFERRED \<and> x = VERIFIED)
    \<and> (y = AUTHORITATIVE \<and> x = VERIFIED \<longrightarrow> external_provenance_class_allowed (rg_provenance g))
    \<and> (rg_numeric_strategy g = REVERSIBLE_BIJECTIVE \<longrightarrow> y = AUTHORITATIVE \<and> x = VERIFIED)"
proof -
  obtain d where v: "v = JObj d" using assms by (cases v) (auto simp: parse_group_def)
  obtain raw ms digest x y where mems: "mapE (parse_member a) raw = Inr ms"
    and cls: "parse_claim_classes a d (json_text (dict_get d ''provenance'')) (dict_get d ''numeric_strategy'') = Inr (x, y)"
    and st: "dict_get d ''numeric_strategy'' = JNull \<or> one_of (dict_get d ''numeric_strategy'') NUMERIC_STRATEGIES"
    and g: "new_group (dict_get d ''relation_id'') ms (json_text (dict_get d ''comparison'')) (json_text (dict_get d ''provenance'')) digest
      (if dict_get d ''numeric_strategy'' = JNull then ''IDENTITY'' else json_text (dict_get d ''numeric_strategy'')) x y = Inr g"
    using assms unfolding parse_group_def v by (auto elim!: bindE_InrE simp only: json.case prod.case guardE_Inr_iff)
  have ng: "group_shape g = Inr ()" "rg_members g = ms" "rg_provenance g = json_text (dict_get d ''provenance'')" "rg_claim_assurance g = x" "rg_claim_authority g = y"
    "rg_numeric_strategy g = (if dict_get d ''numeric_strategy'' = JNull then ''IDENTITY'' else json_text (dict_get d ''numeric_strategy''))"
    using g unfolding new_group_def Let_def by (auto elim!: bindE_InrE)
  have "\<forall>m\<in>set ms. member_ok m" using mapE_all [OF mems, of member_ok] parse_member_ok by blast
  then show "group_ok g" using group_shape_ok [OF ng(1)] ng(2) by simp
  have "dict_get d ''numeric_strategy'' = JStr REVERSIBLE_BIJECTIVE" if "rg_numeric_strategy g = REVERSIBLE_BIJECTIVE"
    using that ng(6) st by (auto simp: one_of_def list_ex_iff REVERSIBLE_BIJECTIVE_def split: if_splits)
  then show "\<exists>x y. rg_claim_assurance g = Some x \<and> rg_claim_authority g = Some y \<and> \<not> (y = INFERRED \<and> x = VERIFIED)
    \<and> (y = AUTHORITATIVE \<and> x = VERIFIED \<longrightarrow> external_provenance_class_allowed (rg_provenance g))
    \<and> (rg_numeric_strategy g = REVERSIBLE_BIJECTIVE \<longrightarrow> y = AUTHORITATIVE \<and> x = VERIFIED)" if "a \<noteq> None"
    using parse_claim_classes_Inr [OF cls that] ng(3-5) by auto
qed

lemma parse_document_facts:
  assumes "parse_relationship_document v = Inr doc"
  shows "distinct (map rg_relation_id (rd_groups doc))"
    and "\<exists>raw. mapE (parse_group (rd_external_authority doc)) raw = Inr (rd_groups doc)"
    and "rd_external_version doc \<noteq> None \<longleftrightarrow> rd_external_authority doc \<noteq> None"
proof -
  obtain d where v: "v = JObj d" using assms by (cases v) (auto simp: parse_relationship_document_def)
  obtain p a c raw where env: "parse_envelope d = Inr (p, a, c)" and gs: "mapE (parse_group a) raw = Inr (rd_groups doc)"
    and doc: "distinct (map rg_relation_id (rd_groups doc))" "rd_external_authority doc = a"
      "rd_external_version doc = (case dict_get d ''external_metadata_schema_version'' of JStr s \<Rightarrow> Some s | _ \<Rightarrow> None)"
    using assms unfolding parse_relationship_document_def v by (auto elim!: bindE_InrE split: if_splits)
  have "(case dict_get d ''external_metadata_schema_version'' of JStr s \<Rightarrow> Some s | _ \<Rightarrow> None) \<noteq> None \<longleftrightarrow> a \<noteq> None"
    using env by (auto simp: parse_envelope_def guard_simps EXTERNAL_ENVELOPE_KEYS_def dict_get_def split: if_splits)
  then show "distinct (map rg_relation_id (rd_groups doc))" "\<exists>raw. mapE (parse_group (rd_external_authority doc)) raw = Inr (rd_groups doc)"
    "rd_external_version doc \<noteq> None \<longleftrightarrow> rd_external_authority doc \<noteq> None" using doc gs by auto
qed

text \<open>
  C16. Every accepted relationship document is well typed: relation identifiers are unique, and each
  group has distinct members, exactly one parent key family and a foreign side of the same positive
  arity, with the members of each side numbered 1 to n in the order in which \<open>members_for_role\<close>
  returns them, so that the i-th parent member is paired with the i-th foreign member. Members have a
  supported type and a width that fits it, and a reversible numeric strategy has a numeric member.
\<close>

theorem parsed_document_typed:
  assumes "parse_relationship_document v = Inr doc"
  shows "distinct (map rg_relation_id (rd_groups doc)) \<and> (\<forall>g\<in>set (rd_groups doc). group_ok g)"
proof -
  obtain raw where "mapE (parse_group (rd_external_authority doc)) raw = Inr (rd_groups doc)" using parse_document_facts(2) [OF assms] by blast
  from mapE_all [OF this, of group_ok] parse_group_facts(1) parse_document_facts(1) [OF assms] show ?thesis by blast
qed

definition sample_member :: "string \<Rightarrow> string \<Rightarrow> json" where
  "sample_member table role = JObj [(''table'', JStr table), (''field'', JStr ''ID''), (''role'', JStr role), (''ordinal'', JInt 1), (''dbf_type'', JStr ''I''),
     (''byte_width'', JInt 4), (''encoding'', JStr ''none''), (''nullable'', JBool False)]"

definition sample_document :: json where
  "sample_document = JObj [(''metadata_schema_version'', JStr ''1.0''), (''external_metadata_schema_version'', JStr ''1.0''),
     (''producer'', JObj [(''producer_id'', JStr ''P''), (''producer_version'', JStr ''1'')]), (''authority'', JStr ''CONTRACT_AUTHORITATIVE''),
     (''relations'', JList [JObj [(''relation_id'', JStr ''R''), (''provenance'', JStr ''EXTERNAL_VFP_METADATA''), (''comparison'', JStr ''EXACT_VALUE''),
        (''numeric_strategy'', JStr ''REVERSIBLE_BIJECTIVE''), (''assurance'', JStr ''VERIFIED''), (''authority'', JStr ''CONTRACT_AUTHORITATIVE''),
        (''members'', JList [sample_member ''P.dbf'' ''PRIMARY'', sample_member ''C.dbf'' ''FOREIGN''])]])]"

lemma sample_document_parses: "\<exists>doc. parse_relationship_document sample_document = Inr doc \<and> rd_external_version doc = Some ''1.0''
    \<and> map rg_relation_id (effective_groups doc) = [''R'']"
proof -
  have "case parse_relationship_document sample_document of Inl e \<Rightarrow> False
    | Inr doc \<Rightarrow> rd_external_version doc = Some ''1.0'' \<and> map rg_relation_id (effective_groups doc) = [''R'']" by code_simp
  then show ?thesis by (cases "parse_relationship_document sample_document") auto
qed

theorem parsed_document_typed_witness:
  "\<exists>doc. parse_relationship_document sample_document = Inr doc \<and> (\<forall>g\<in>set (rd_groups doc). group_ok g)"
proof -
  obtain doc where "parse_relationship_document sample_document = Inr doc" using sample_document_parses by blast
  then show ?thesis using parsed_document_typed by blast
qed

text \<open>
  C25. The authority boundary of external metadata holds. In an accepted document with an external
  envelope, a group that takes effect carries a provenance of an authoritative class, so a policy
  file can never declare an effective relation; a group with a reversible numeric strategy always
  takes effect; and a group whose producer only inferred it is never verified and never takes effect.
\<close>

theorem authority_boundary:
  assumes "parse_relationship_document v = Inr doc" and "rd_external_version doc \<noteq> None" and "g \<in> set (rd_groups doc)"
  shows "(g \<in> set (effective_groups doc) \<longrightarrow> external_provenance_class_allowed (rg_provenance g) \<and> rg_provenance g \<noteq> ''POLICY_FILE'')
    \<and> (rg_numeric_strategy g = REVERSIBLE_BIJECTIVE \<longrightarrow> g \<in> set (effective_groups doc))
    \<and> (rg_claim_authority g = Some INFERRED \<longrightarrow> rg_claim_assurance g \<noteq> Some VERIFIED \<and> g \<notin> set (effective_groups doc))"
proof -
  note facts = parse_document_facts [OF assms(1)]
  obtain raw where raw: "mapE (parse_group (rd_external_authority doc)) raw = Inr (rd_groups doc)" using facts(2) by blast
  define P where "P g \<longleftrightarrow> (\<exists>x y. rg_claim_assurance g = Some x \<and> rg_claim_authority g = Some y \<and> \<not> (y = INFERRED \<and> x = VERIFIED)
    \<and> (y = AUTHORITATIVE \<and> x = VERIFIED \<longrightarrow> external_provenance_class_allowed (rg_provenance g))
    \<and> (rg_numeric_strategy g = REVERSIBLE_BIJECTIVE \<longrightarrow> y = AUTHORITATIVE \<and> x = VERIFIED))" for g :: relation_group
  have "rd_external_authority doc \<noteq> None" using facts(3) assms(2) by simp
  then have "P h" if "parse_group (rd_external_authority doc) w = Inr h" for w h using parse_group_facts(2) [OF that] unfolding P_def by blast
  then have "P g" using mapE_all [OF raw, of P] assms(3) by blast
  moreover have "INFERRED \<noteq> AUTHORITATIVE" by (simp add: INFERRED_def AUTHORITATIVE_def)
  moreover have "\<not> external_provenance_class_allowed ''POLICY_FILE''" by (simp add: external_provenance_class_allowed_def AUTHORITATIVE_PROVENANCES_def)
  ultimately show ?thesis using assms(2,3) unfolding P_def effective_groups_def by auto
qed

theorem authority_boundary_witness:
  "\<exists>doc g. parse_relationship_document sample_document = Inr doc \<and> g \<in> set (effective_groups doc) \<and> external_provenance_class_allowed (rg_provenance g)"
proof -
  obtain doc where doc: "parse_relationship_document sample_document = Inr doc" "rd_external_version doc \<noteq> None" "map rg_relation_id (effective_groups doc) = [''R'']"
    using sample_document_parses by auto
  obtain g where g: "g \<in> set (effective_groups doc)" using doc(3) by (cases "effective_groups doc") auto
  have "g \<in> set (rd_groups doc)" using g by (auto simp: effective_groups_def split: if_splits)
  from authority_boundary [OF doc(1,2) this] show ?thesis using doc(1) g by blast
qed

text \<open>A token check that lets a final newline through: the pattern is anchored with \<open>$\<close> only.\<close>

lemma newline_token_accepted:
  "s \<noteq> [] \<Longrightarrow> length s \<le> 64 \<Longrightarrow> list_all token_char s \<Longrightarrow> validate_bounded_token (JStr (s @ [newline])) detail = Inr (s @ [newline])"
  by (cases s) (simp_all add: validate_bounded_token_def bounded_token_def)

text \<open>Without an envelope the per-claim authority of a group is read by nobody.\<close>

lemma authority_without_envelope: "parse_claim_classes None [(''authority'', v)] provenance strategy = Inr (None, None)"
  by (simp add: parse_claim_classes_def)

end
