(* ===== verification/Residual_Matching.thy ===== *)
theory Residual_Matching
  imports Vault_Mappings
begin

text \<open>
  The exact residual solver of \<^verbatim>\<open>src/src/dbf_anonymizer/engine/text_residual.py\<close>: the residual graph
  in the spool's \<open>res_*\<close> tables and the iterative augmenting-path search over them. The tables are
  lists: an original's \<open>idx\<close>, a token's \<open>tid\<close> and a class length minus one are positions, and a
  missing \<open>res_assign\<close> row is \<open>None\<close>. The DFS stack holds the deepest frame first.
\<close>

section \<open>The residual graph\<close>

datatype resource = ClassR nat | TokenR nat

record res_original =
  ro_width :: nat
  ro_value :: pystr
  ro_own :: "pystr option"

record res_token =
  rt_value :: pystr
  rt_owner :: nat

record dfs_frame =
  df_orig :: nat
  df_vacate :: "resource option"
  df_class_pos :: nat
  df_token_pos :: int
  df_displace_from :: int

record residual =
  res_originals :: "res_original list"
  res_tokens :: "res_token list"
  res_caps :: "int list"
  res_assign :: "resource option list"
  res_visited :: "nat list"
  res_dfs :: "dfs_frame list"

definition residual_failure :: "string \<Rightarrow> error" where
  "residual_failure detail = MappingError MAPPING_CAPACITY_EXHAUSTED detail"

definition residual_corrupt :: error where
  "residual_corrupt = residual_failure ''ENGINE_TEXT_RESIDUAL_CORRUPT''"

section \<open>Indexed probes\<close>

definition cap_of :: "residual \<Rightarrow> nat \<Rightarrow> int" where
  "cap_of g l = (if 1 \<le> l \<and> l \<le> length (res_caps g) then res_caps g ! (l - 1) else 0)"

definition assigned_to_class :: "residual \<Rightarrow> nat \<Rightarrow> int \<Rightarrow> nat option" where
  "assigned_to_class g l after_idx =
     find (\<lambda>i. res_assign g ! i = Some (ClassR l) \<and> int i > after_idx \<and> i \<notin> set (res_visited g))
       [0..<length (res_assign g)]"

definition assigned_to_token :: "residual \<Rightarrow> nat \<Rightarrow> nat option" where
  "assigned_to_token g t = find (\<lambda>i. res_assign g ! i = Some (TokenR t)) [0..<length (res_assign g)]"

text \<open>The edge filter shared by both token probes: width, another owner, another value.\<close>

definition token_edge :: "residual \<Rightarrow> nat \<Rightarrow> nat \<Rightarrow> pystr option \<Rightarrow> nat \<Rightarrow> bool" where
  "token_edge g orig_idx width own t \<longleftrightarrow>
     length (rt_value (res_tokens g ! t)) \<le> width \<and> rt_owner (res_tokens g ! t) \<noteq> orig_idx
     \<and> (case own of None \<Rightarrow> True | Some v \<Rightarrow> rt_value (res_tokens g ! t) \<noteq> v)"

definition first_free_token_edge :: "residual \<Rightarrow> nat \<Rightarrow> nat \<Rightarrow> pystr option \<Rightarrow> int \<Rightarrow> nat option" where
  "first_free_token_edge g orig_idx width own after_tid =
     find (\<lambda>t. token_edge g orig_idx width own t \<and> int t > after_tid \<and> assigned_to_token g t = None)
       [0..<length (res_tokens g)]"

definition displaceable :: "residual \<Rightarrow> nat \<Rightarrow> bool" where
  "displaceable g t = (case assigned_to_token g t of None \<Rightarrow> False | Some i \<Rightarrow> i \<notin> set (res_visited g))"

definition next_displaceable_token_edge ::
    "residual \<Rightarrow> nat \<Rightarrow> nat \<Rightarrow> pystr option \<Rightarrow> int \<Rightarrow> (nat \<times> nat) option" where
  "next_displaceable_token_edge g orig_idx width own after_tid =
     (case find (\<lambda>t. token_edge g orig_idx width own t \<and> int t > after_tid \<and> displaceable g t)
             [0..<length (res_tokens g)] of
        None \<Rightarrow> None
      | Some t \<Rightarrow> map_option (\<lambda>i. (t, i)) (assigned_to_token g t))"

section \<open>Assignment and unwinding\<close>

text \<open>
  The upsert into \<open>res_assign\<close>; the partial unique index \<open>res_assign_token_once\<close> turns a second
  holder of a token into an \<open>IntegrityError\<close>, which the solver reports as a corrupt state.
\<close>

definition assign_resource :: "residual \<Rightarrow> nat \<Rightarrow> resource \<Rightarrow> residual result" where
  "assign_resource g i r =
     (case r of
        ClassR l \<Rightarrow> Inr (g\<lparr>res_assign := (res_assign g)[i := Some r]\<rparr>)
      | TokenR t \<Rightarrow>
          if list_ex (\<lambda>j. j \<noteq> i \<and> res_assign g ! j = Some (TokenR t)) [0..<length (res_assign g)]
          then Inl residual_corrupt
          else Inr (g\<lparr>res_assign := (res_assign g)[i := Some r]\<rparr>))"

fun unwind_chain :: "dfs_frame list \<Rightarrow> resource option \<Rightarrow> residual \<Rightarrow> residual result" where
  "unwind_chain [] carrying g = Inr g"
| "unwind_chain (f # fs) carrying g =
     (case carrying of
        None \<Rightarrow> Inl residual_corrupt
      | Some r \<Rightarrow> bindE (assign_resource g (df_orig f) r) (\<lambda>g'. unwind_chain fs (df_vacate f) g'))"

definition consume_class :: "resource \<Rightarrow> residual \<Rightarrow> residual" where
  "consume_class r g =
     (case r of
        ClassR l \<Rightarrow> if 1 \<le> l \<and> l \<le> length (res_caps g)
                    then g\<lparr>res_caps := (res_caps g)[l - 1 := res_caps g ! (l - 1) - 1]\<rparr> else g
      | TokenR t \<Rightarrow> g)"

definition unwind :: "resource \<Rightarrow> residual \<Rightarrow> residual result" where
  "unwind r g = unwind_chain (res_dfs g) (Some r) (consume_class r g)"

section \<open>One augmentation\<close>

datatype class_outcome = ClassFree nat | ClassDisplace nat nat | ClassExhausted

text \<open>The inner loop over the classes \<open>class_pos..width\<close>.\<close>

function class_scan :: "residual \<Rightarrow> nat \<Rightarrow> nat \<Rightarrow> int \<Rightarrow> class_outcome" where
  "class_scan g width class_pos displace_from =
     (if class_pos > width then ClassExhausted
      else if cap_of g class_pos > 0 then ClassFree class_pos
      else case assigned_to_class g class_pos displace_from of
             Some displaced \<Rightarrow> ClassDisplace class_pos displaced
           | None \<Rightarrow> class_scan g width (Suc class_pos) (- 1))"
  by pat_completeness auto
termination by (relation "measure (\<lambda>(g, w, c, d). Suc w - c)") auto

declare class_scan.simps [simp del]

definition new_frame :: "nat \<Rightarrow> resource option \<Rightarrow> dfs_frame" where
  "new_frame i vacate = \<lparr>df_orig = i, df_vacate = vacate, df_class_pos = 1, df_token_pos = - 1, df_displace_from = - 1\<rparr>"

text \<open>
  One iteration of the outer loop: \<open>Inl\<close> is a return (or a raise) with the final tables, \<open>Inr\<close> the
  tables for the next iteration.
\<close>

definition augment_step :: "residual \<Rightarrow> (bool result \<times> residual) + residual" where
  "augment_step g =
     (case res_dfs g of
        [] \<Rightarrow> Inl (Inr False, g)
      | head # rest \<Rightarrow>
          if df_orig head \<ge> length (res_originals g) then Inl (Inl residual_corrupt, g)
          else
            let o' = res_originals g ! df_orig head; width = ro_width o'; own = ro_own o'
            in case class_scan g width (df_class_pos head) (df_displace_from head) of
                 ClassFree l \<Rightarrow>
                   (case unwind (ClassR l) g of Inl e \<Rightarrow> Inl (Inl e, g) | Inr g' \<Rightarrow> Inl (Inr True, g'))
               | ClassDisplace l displaced \<Rightarrow>
                   Inr (g\<lparr>res_dfs := new_frame displaced (Some (ClassR l))
                             # head\<lparr>df_class_pos := l, df_displace_from := int displaced\<rparr> # rest,
                          res_visited := displaced # res_visited g\<rparr>)
               | ClassExhausted \<Rightarrow>
                   (let head' = (if df_class_pos head > width then head
                                 else head\<lparr>df_class_pos := Suc width, df_displace_from := - 1\<rparr>)
                    in case first_free_token_edge g (df_orig head) width own (df_token_pos head) of
                         Some t \<Rightarrow>
                           (case unwind (TokenR t) g of Inl e \<Rightarrow> Inl (Inl e, g) | Inr g' \<Rightarrow> Inl (Inr True, g'))
                       | None \<Rightarrow>
                           (case next_displaceable_token_edge g (df_orig head) width own (df_token_pos head) of
                              Some (t, occupant) \<Rightarrow>
                                Inr (g\<lparr>res_dfs := new_frame occupant (Some (TokenR t))
                                          # head'\<lparr>df_token_pos := int t\<rparr> # rest,
                                       res_visited := occupant # res_visited g\<rparr>)
                            | None \<Rightarrow> Inr (g\<lparr>res_dfs := rest\<rparr>))))"

definition unvisited_assigned :: "residual \<Rightarrow> nat set" where
  "unvisited_assigned g = {i. i < length (res_assign g) \<and> res_assign g ! i \<noteq> None \<and> i \<notin> set (res_visited g)}"

lemma class_scan_displace:
  "class_scan g w c d = ClassDisplace l i \<Longrightarrow>
     i < length (res_assign g) \<and> res_assign g ! i = Some (ClassR l) \<and> i \<notin> set (res_visited g)"
  by (induction g w c d rule: class_scan.induct)
    (auto simp: class_scan.simps assigned_to_class_def dest: find_Some_set split: if_splits option.splits)

lemma displaceable_occupant:
  assumes "next_displaceable_token_edge g i w own a = Some (t, occ)"
  shows "t < length (res_tokens g)" and "token_edge g i w own t" and "int t > a"
    and "occ < length (res_assign g)" and "res_assign g ! occ = Some (TokenR t)" and "occ \<notin> set (res_visited g)"
proof -
  have f: "find (\<lambda>t. token_edge g i w own t \<and> int t > a \<and> displaceable g t) [0..<length (res_tokens g)] = Some t"
    and o: "assigned_to_token g t = Some occ"
    using assms by (auto simp: next_displaceable_token_edge_def split: option.splits)
  from find_Some_set [OF f] show "t < length (res_tokens g)" "token_edge g i w own t" "int t > a"
    and "occ \<notin> set (res_visited g)" using o by (auto simp: displaceable_def)
  from o [unfolded assigned_to_token_def] show "occ < length (res_assign g)" "res_assign g ! occ = Some (TokenR t)"
    by (auto dest: find_Some_set)
qed

text \<open>The three ways an iteration continues.\<close>

abbreviation head_width :: "residual \<Rightarrow> dfs_frame \<Rightarrow> nat" where
  "head_width g h \<equiv> ro_width (res_originals g ! df_orig h)"

abbreviation head_own :: "residual \<Rightarrow> dfs_frame \<Rightarrow> pystr option" where
  "head_own g h \<equiv> ro_own (res_originals g ! df_orig h)"

definition past_classes :: "nat \<Rightarrow> dfs_frame \<Rightarrow> dfs_frame" where
  "past_classes width h =
     (if df_class_pos h > width then h else h\<lparr>df_class_pos := Suc width, df_displace_from := - 1\<rparr>)"

lemma augment_step_Inr:
  assumes "augment_step g = Inr g'"
  obtains (displace_class) h rest l i where "res_dfs g = h # rest" "df_orig h < length (res_originals g)"
      "class_scan g (head_width g h) (df_class_pos h) (df_displace_from h) = ClassDisplace l i"
      "g' = g\<lparr>res_dfs := new_frame i (Some (ClassR l)) # h\<lparr>df_class_pos := l, df_displace_from := int i\<rparr> # rest,
              res_visited := i # res_visited g\<rparr>"
  | (displace_token) h rest t i where "res_dfs g = h # rest" "df_orig h < length (res_originals g)"
      "class_scan g (head_width g h) (df_class_pos h) (df_displace_from h) = ClassExhausted"
      "first_free_token_edge g (df_orig h) (head_width g h) (head_own g h) (df_token_pos h) = None"
      "next_displaceable_token_edge g (df_orig h) (head_width g h) (head_own g h) (df_token_pos h) = Some (t, i)"
      "g' = g\<lparr>res_dfs := new_frame i (Some (TokenR t)) # (past_classes (head_width g h) h)\<lparr>df_token_pos := int t\<rparr> # rest,
              res_visited := i # res_visited g\<rparr>"
  | (pop) h rest where "res_dfs g = h # rest" "df_orig h < length (res_originals g)"
      "class_scan g (head_width g h) (df_class_pos h) (df_displace_from h) = ClassExhausted"
      "first_free_token_edge g (df_orig h) (head_width g h) (head_own g h) (df_token_pos h) = None"
      "next_displaceable_token_edge g (df_orig h) (head_width g h) (head_own g h) (df_token_pos h) = None"
      "g' = g\<lparr>res_dfs := rest\<rparr>"
proof (cases "res_dfs g")
  case Nil
  then show thesis using assms by (simp add: augment_step_def)
next
  case (Cons h rest)
  have lt: "df_orig h < length (res_originals g)"
    using assms Cons by (auto simp: augment_step_def split: if_splits)
  show thesis
  proof (cases "class_scan g (head_width g h) (df_class_pos h) (df_displace_from h)")
    case (ClassFree l)
    then show thesis using assms Cons lt by (auto simp: augment_step_def Let_def split: sum.splits)
  next
    case (ClassDisplace l i)
    then show thesis using assms Cons lt displace_class [OF Cons lt ClassDisplace] by (auto simp: augment_step_def Let_def)
  next
    case ClassExhausted
    have free: "first_free_token_edge g (df_orig h) (head_width g h) (head_own g h) (df_token_pos h) = None"
      using assms Cons lt ClassExhausted by (auto simp: augment_step_def Let_def split: option.splits sum.splits)
    show thesis
    proof (cases "next_displaceable_token_edge g (df_orig h) (head_width g h) (head_own g h) (df_token_pos h)")
      case None
      then show thesis using assms Cons lt ClassExhausted free pop [OF Cons lt ClassExhausted free None]
        by (auto simp: augment_step_def Let_def)
    next
      case (Some p)
      then obtain t i where p: "next_displaceable_token_edge g (df_orig h) (head_width g h) (head_own g h) (df_token_pos h) = Some (t, i)"
        by (cases p) auto
      then show thesis using assms Cons lt ClassExhausted free displace_token [OF Cons lt ClassExhausted free p]
        by (auto simp: augment_step_def Let_def past_classes_def)
    qed
  qed
qed

lemma visit_decreases:
  assumes "i < length (res_assign g)" and "res_assign g ! i \<noteq> None" and "i \<notin> set (res_visited g)"
  shows "card (unvisited_assigned (g\<lparr>res_dfs := fs, res_visited := i # res_visited g\<rparr>)) < card (unvisited_assigned g)"
proof (rule psubset_card_mono)
  show "finite (unvisited_assigned g)" by (simp add: unvisited_assigned_def)
  show "unvisited_assigned (g\<lparr>res_dfs := fs, res_visited := i # res_visited g\<rparr>) \<subset> unvisited_assigned g"
    using assms by (auto simp: unvisited_assigned_def)
qed

lemma unvisited_assigned_dfs [simp]: "unvisited_assigned (g\<lparr>res_dfs := fs\<rparr>) = unvisited_assigned g"
  by (simp add: unvisited_assigned_def)

lemma augment_step_decreases:
  assumes "augment_step g = Inr g'"
  shows "card (unvisited_assigned g') < card (unvisited_assigned g)
    \<or> card (unvisited_assigned g') = card (unvisited_assigned g) \<and> length (res_dfs g') < length (res_dfs g)"
  using assms
proof (cases rule: augment_step_Inr)
  case (displace_class h rest l i)
  then show ?thesis using class_scan_displace [OF displace_class(3)] visit_decreases by simp
next
  case (displace_token h rest t i)
  then show ?thesis using displaceable_occupant(4-6) [OF displace_token(5)] visit_decreases by simp
next
  case (pop h rest)
  then show ?thesis by simp
qed

function augment_loop :: "residual \<Rightarrow> bool result \<times> residual" where
  "augment_loop g = (case augment_step g of Inl r \<Rightarrow> r | Inr g' \<Rightarrow> augment_loop g')"
  by pat_completeness auto
termination
  by (relation "measures [\<lambda>g. card (unvisited_assigned g), \<lambda>g. length (res_dfs g)]")
    (use augment_step_decreases in auto)

declare augment_loop.simps [simp del]

definition augment :: "nat \<Rightarrow> residual \<Rightarrow> bool result \<times> residual" where
  "augment v0 g = augment_loop (g\<lparr>res_visited := [v0], res_dfs := [new_frame v0 None]\<rparr>)"

fun solve_loop :: "nat list \<Rightarrow> residual \<Rightarrow> residual result" where
  "solve_loop [] g = Inr g"
| "solve_loop (i # is) g =
     (case augment i g of
        (Inl e, _) \<Rightarrow> Inl e
      | (Inr found, g') \<Rightarrow>
          if found then solve_loop is g' else Inl (residual_failure ''ENGINE_TEXT_RESIDUAL_INFEASIBLE''))"

section \<open>Assignments and their capacities\<close>

definition holders :: "resource option list \<Rightarrow> resource \<Rightarrow> nat set" where
  "holders A r = {i. i < length A \<and> A ! i = Some r}"

definition allowed :: "residual \<Rightarrow> nat \<Rightarrow> resource \<Rightarrow> bool" where
  "allowed g i r =
     (case r of
        ClassR l \<Rightarrow> 1 \<le> l \<and> l \<le> ro_width (res_originals g ! i)
      | TokenR t \<Rightarrow> t < length (res_tokens g)
          \<and> token_edge g i (ro_width (res_originals g ! i)) (ro_own (res_originals g ! i)) t)"

text \<open>The slots a resource had before the solver started, from the initial capacity table.\<close>

definition slots :: "int list \<Rightarrow> resource \<Rightarrow> nat" where
  "slots C r = (case r of ClassR l \<Rightarrow> (if 1 \<le> l \<and> l \<le> length C then nat (C ! (l - 1)) else 0) | TokenR t \<Rightarrow> 1)"

definition within :: "int list \<Rightarrow> resource option list \<Rightarrow> bool" where
  "within C A \<longleftrightarrow> (\<forall>r. card (holders A r) \<le> slots C r)"

lemma finite_holders [simp]: "finite (holders A r)"
  by (simp add: holders_def)

lemma holders_update:
  assumes "i < length A"
  shows "holders (A[i := Some r]) r' = (if r' = r then insert i (holders A r) else holders A r' - {i})"
  using assms by (auto simp: holders_def nth_list_update)

lemma card_holders_update:
  assumes "i < length A"
  shows "card (holders (A[i := Some r]) r') + (if A ! i = Some r' then 1 else 0)
    = card (holders A r') + (if r' = r then 1 else 0)"
proof (cases "A ! i = Some r'")
  case True
  then have "i \<in> holders A r'" using assms by (simp add: holders_def)
  then show ?thesis using assms True
    using card_gt_0_iff [of "holders A r'"] by (auto simp: holders_update insert_absorb card_Diff_singleton)
next
  case False
  then have "i \<notin> holders A r'" by (simp add: holders_def)
  then show ?thesis using assms False by (auto simp: holders_update)
qed

section \<open>Unwinding an alternating chain\<close>

fun chain_ok :: "residual \<Rightarrow> resource option list \<Rightarrow> nat \<Rightarrow> dfs_frame list \<Rightarrow> bool" where
  "chain_ok g A v0 [] = False"
| "chain_ok g A v0 [f] = (df_orig f = v0 \<and> df_vacate f = None \<and> A ! v0 = None)"
| "chain_ok g A v0 (f # p # fs) =
     (\<exists>r. df_vacate f = Some r \<and> A ! df_orig f = Some r \<and> allowed g (df_orig p) r \<and> chain_ok g A v0 (p # fs))"

lemma chain_ok_update:
  assumes "chain_ok g A v0 fs" and "i \<notin> df_orig ` set fs"
  shows "chain_ok g (A[i := x]) v0 fs"
  using assms by (induction g A v0 fs rule: chain_ok.induct) auto

lemma chain_ok_v0: "chain_ok g A v0 fs \<Longrightarrow> A ! v0 = None"
  by (induction g A v0 fs rule: chain_ok.induct) auto

lemma chain_ok_bottom: "chain_ok g A v0 fs \<Longrightarrow> v0 \<in> df_orig ` set fs"
  by (induction g A v0 fs rule: chain_ok.induct) auto

definition token_once :: "resource option list \<Rightarrow> bool" where
  "token_once A \<longleftrightarrow> (\<forall>t. card (holders A (TokenR t)) \<le> 1)"

lemma token_once_update:
  assumes "token_once A" and "i < length A" and "\<And>t. r = TokenR t \<Longrightarrow> holders A r \<subseteq> {i}"
  shows "token_once (A[i := Some r])"
  unfolding token_once_def
proof
  fix t
  show "card (holders (A[i := Some r]) (TokenR t)) \<le> 1"
  proof (cases "r = TokenR t")
    case True
    then have "holders (A[i := Some r]) (TokenR t) = {i}" using assms(2,3) by (auto simp: holders_update)
    then show ?thesis by simp
  next
    case False
    then have "card (holders (A[i := Some r]) (TokenR t)) \<le> card (holders A (TokenR t))"
      using assms(2) by (auto simp: holders_update intro: card_mono)
    then show ?thesis using assms(1) by (meson token_once_def order_trans)
  qed
qed

lemma assign_resource_ok:
  assumes "\<And>t. r = TokenR t \<Longrightarrow> holders (res_assign g) r \<subseteq> {i}"
  shows "assign_resource g i r = Inr (g\<lparr>res_assign := (res_assign g)[i := Some r]\<rparr>)"
proof (cases r)
  case (TokenR t)
  then have "\<not> list_ex (\<lambda>j. j \<noteq> i \<and> res_assign g ! j = Some (TokenR t)) [0..<length (res_assign g)]"
    using assms [OF TokenR] by (auto simp: list_ex_iff holders_def)
  then show ?thesis using TokenR by (simp add: assign_resource_def)
qed (simp add: assign_resource_def)

lemma unwind_chain_spec:
  assumes "chain_ok h (res_assign g) v0 fs" and "distinct (map df_orig fs)"
    and "\<forall>f\<in>set fs. df_orig f < length (res_assign g)" and "token_once (res_assign g)"
    and "\<And>t. r = TokenR t \<Longrightarrow> holders (res_assign g) r = {}"
    and "allowed h (df_orig (hd fs)) r"
    and "\<forall>i x. i < length (res_assign g) \<longrightarrow> res_assign g ! i = Some x \<longrightarrow> allowed h i x"
  shows "\<exists>A. unwind_chain fs (Some r) g = Inr (g\<lparr>res_assign := A\<rparr>) \<and> length A = length (res_assign g)
    \<and> (\<forall>i x. i < length A \<longrightarrow> A ! i = Some x \<longrightarrow> allowed h i x) \<and> token_once A
    \<and> (\<forall>x. card (holders A x) = card (holders (res_assign g) x) + (if x = r then 1 else 0))
    \<and> (\<forall>i < length A. A ! i = None \<longleftrightarrow> res_assign g ! i = None \<and> i \<noteq> v0)"
  using assms
proof (induction fs arbitrary: g r)
  case Nil
  then show ?case by simp
next
  case (Cons f fs)
  let ?A = "res_assign g" and ?o = "df_orig f"
  let ?A1 = "?A[?o := Some r]" and ?g1 = "g\<lparr>res_assign := (res_assign g)[df_orig f := Some r]\<rparr>"
  have lt: "?o < length ?A" using Cons.prems(3) by simp
  have free: "holders ?A r \<subseteq> {?o}" if "r = TokenR t" for t using Cons.prems(5) [OF that] by simp
  note asg = assign_resource_ok [OF free]
  have once: "token_once ?A1" using token_once_update [OF Cons.prems(4) lt free] .
  have allow: "\<forall>i x. i < length ?A1 \<longrightarrow> ?A1 ! i = Some x \<longrightarrow> allowed h i x"
    using Cons.prems(6,7) lt by (auto simp: nth_list_update)
  show ?case
  proof (cases fs)
    case Nil
    then have v0: "?o = v0" "df_vacate f = None" "?A ! ?o = None" using Cons.prems(1) by auto
    have "unwind_chain (f # fs) (Some r) g = Inr ?g1" using asg Nil v0 by simp
    moreover have "card (holders ?A1 x) = card (holders ?A x) + (if x = r then 1 else 0)" for x
      using card_holders_update [OF lt, of r x] v0 by simp
    ultimately show ?thesis using allow once v0 lt by (intro exI [of _ ?A1]) (auto simp: nth_list_update)
  next
    case (Cons p ps)
    obtain q where q: "df_vacate f = Some q" "?A ! ?o = Some q" "allowed h (df_orig p) q" "chain_ok h ?A v0 (p # ps)"
      using Cons.prems(1) Cons by auto
    have notin: "?o \<notin> df_orig ` set fs" using Cons.prems(2) by simp
    have ch: "chain_ok h ?A1 v0 fs" using chain_ok_update [OF q(4)] notin Cons by simp
    have ro: "q \<noteq> r" if "q = TokenR t" for t
      using Cons.prems(5) [of t] that q(2) lt by (auto simp: holders_def)
    have tok: "holders (res_assign ?g1) q = {}" if t: "q = TokenR t" for t
    proof -
      have "card (holders ?A q) \<le> 1" using Cons.prems(4) t by (simp add: token_once_def)
      moreover have "?o \<in> holders ?A q" using q(2) lt by (simp add: holders_def)
      ultimately have "holders ?A q \<subseteq> {?o}" by (auto simp: card_le_Suc0_iff_eq)
      then show ?thesis using ro [OF t] lt by (auto simp: holders_update)
    qed
    have "\<exists>A. unwind_chain fs (Some q) ?g1 = Inr (?g1\<lparr>res_assign := A\<rparr>) \<and> length A = length (res_assign ?g1)
      \<and> (\<forall>i x. i < length A \<longrightarrow> A ! i = Some x \<longrightarrow> allowed h i x) \<and> token_once A
      \<and> (\<forall>x. card (holders A x) = card (holders (res_assign ?g1) x) + (if x = q then 1 else 0))
      \<and> (\<forall>i < length A. A ! i = None \<longleftrightarrow> res_assign ?g1 ! i = None \<and> i \<noteq> v0)"
      by (rule Cons.IH) (use ch Cons.prems(2,3) once tok q(3) allow local.Cons in auto)
    then obtain A where A: "unwind_chain fs (Some q) ?g1 = Inr (g\<lparr>res_assign := A\<rparr>)" "length A = length ?A"
      "\<forall>i x. i < length A \<longrightarrow> A ! i = Some x \<longrightarrow> allowed h i x" "token_once A"
      "\<forall>x. card (holders A x) = card (holders ?A1 x) + (if x = q then 1 else 0)"
      "\<forall>i < length A. A ! i = None \<longleftrightarrow> ?A1 ! i = None \<and> i \<noteq> v0" by auto
    have "card (holders A x) = card (holders ?A x) + (if x = r then 1 else 0)" for x
      using A(5) card_holders_update [OF lt, of r x] q(2) by (auto split: if_splits)
    moreover have "\<forall>i < length A. A ! i = None \<longleftrightarrow> ?A ! i = None \<and> i \<noteq> v0"
      using A(2,6) q(2) by (metis nth_list_update_eq nth_list_update_neq option.discI)
    moreover have "unwind_chain (f # fs) (Some r) g = Inr (g\<lparr>res_assign := A\<rparr>)"
      using asg A(1) q(1) by simp
    ultimately show ?thesis using A(2-4) by blast
  qed
qed

section \<open>Scans\<close>

definition free_resource :: "residual \<Rightarrow> resource \<Rightarrow> bool" where
  "free_resource g r = (case r of ClassR l \<Rightarrow> cap_of g l > 0 | TokenR t \<Rightarrow> holders (res_assign g) r = {})"

text \<open>A resource is blocked for the search: nothing is free and every holder has been visited.\<close>

definition blocked :: "residual \<Rightarrow> resource \<Rightarrow> bool" where
  "blocked g r \<longleftrightarrow> \<not> free_resource g r \<and> holders (res_assign g) r \<subseteq> set (res_visited g)"

lemma find_upt_least:
  "find P [0..<n] = Some i \<Longrightarrow> i < n \<and> P i \<and> (\<forall>j<i. \<not> P j)"
  "find P [0..<n] = None \<longleftrightarrow> (\<forall>j<n. \<not> P j)"
proof -
  show "find P [0..<n] = Some i \<Longrightarrow> i < n \<and> P i \<and> (\<forall>j<i. \<not> P j)"
    by (auto simp: find_Some_iff)
  show "find P [0..<n] = None \<longleftrightarrow> (\<forall>j<n. \<not> P j)"
    by (auto simp: find_None_iff)
qed

lemma assigned_to_class_Some:
  assumes "assigned_to_class g l d = Some i"
    and "\<forall>j\<in>holders (res_assign g) (ClassR l). int j \<le> d \<longrightarrow> j \<in> set (res_visited g)"
  shows "i \<in> holders (res_assign g) (ClassR l)" "i \<notin> set (res_visited g)"
    "\<forall>j\<in>holders (res_assign g) (ClassR l). j < i \<longrightarrow> j \<in> set (res_visited g)"
  using assms find_upt_least(1) [OF assms(1) [unfolded assigned_to_class_def]]
  by (auto simp: holders_def not_less)

lemma assigned_to_class_None:
  assumes "assigned_to_class g l d = None"
    and "\<forall>j\<in>holders (res_assign g) (ClassR l). int j \<le> d \<longrightarrow> j \<in> set (res_visited g)"
  shows "holders (res_assign g) (ClassR l) \<subseteq> set (res_visited g)"
  using assms by (auto simp: assigned_to_class_def find_upt_least(2) holders_def not_less)

lemma class_scan_cases:
  assumes "\<forall>j\<in>holders (res_assign g) (ClassR c). int j \<le> d \<longrightarrow> j \<in> set (res_visited g)"
  shows "case class_scan g w c d of
      ClassFree l \<Rightarrow> c \<le> l \<and> l \<le> w \<and> cap_of g l > 0
        \<and> (\<forall>l'. c \<le> l' \<longrightarrow> l' < l \<longrightarrow> blocked g (ClassR l'))
    | ClassDisplace l i \<Rightarrow> c \<le> l \<and> l \<le> w \<and> \<not> cap_of g l > 0 \<and> i \<in> holders (res_assign g) (ClassR l)
        \<and> i \<notin> set (res_visited g) \<and> (\<forall>j\<in>holders (res_assign g) (ClassR l). j < i \<longrightarrow> j \<in> set (res_visited g))
        \<and> (\<forall>l'. c \<le> l' \<longrightarrow> l' < l \<longrightarrow> blocked g (ClassR l'))
    | ClassExhausted \<Rightarrow> (\<forall>l'. c \<le> l' \<longrightarrow> l' \<le> w \<longrightarrow> blocked g (ClassR l'))"
  using assms
proof (induction g w c d rule: class_scan.induct)
  case (1 g w c d)
  consider "c > w" | "c \<le> w" "cap_of g c > 0" | i where "c \<le> w" "\<not> cap_of g c > 0" "assigned_to_class g c d = Some i"
    | "c \<le> w" "\<not> cap_of g c > 0" "assigned_to_class g c d = None" by (meson not_Some_eq not_le)
  then show ?case
  proof cases
    case 1
    then show ?thesis by (subst class_scan.simps) auto
  next
    case 2
    then show ?thesis by (subst class_scan.simps) auto
  next
    case (3 i)
    then show ?thesis using assigned_to_class_Some [OF 3(3) "1.prems"] by (subst class_scan.simps) auto
  next
    case 4
    have b: "blocked g (ClassR c)"
      using assigned_to_class_None [OF 4(3) "1.prems"] 4(2) by (simp add: blocked_def free_resource_def)
    have eq: "class_scan g w c d = class_scan g w (Suc c) (- 1)" using 4 by (subst class_scan.simps) auto
    have IH: "case class_scan g w (Suc c) (- 1) of
      ClassFree l \<Rightarrow> Suc c \<le> l \<and> l \<le> w \<and> cap_of g l > 0
        \<and> (\<forall>l'. Suc c \<le> l' \<longrightarrow> l' < l \<longrightarrow> blocked g (ClassR l'))
    | ClassDisplace l i \<Rightarrow> Suc c \<le> l \<and> l \<le> w \<and> \<not> cap_of g l > 0 \<and> i \<in> holders (res_assign g) (ClassR l)
        \<and> i \<notin> set (res_visited g) \<and> (\<forall>j\<in>holders (res_assign g) (ClassR l). j < i \<longrightarrow> j \<in> set (res_visited g))
        \<and> (\<forall>l'. Suc c \<le> l' \<longrightarrow> l' < l \<longrightarrow> blocked g (ClassR l'))
    | ClassExhausted \<Rightarrow> (\<forall>l'. Suc c \<le> l' \<longrightarrow> l' \<le> w \<longrightarrow> blocked g (ClassR l'))"
      using 4 by (intro "1.IH") auto
    have split: "(\<forall>l'. c \<le> l' \<longrightarrow> Q l' \<longrightarrow> blocked g (ClassR l')) \<longleftrightarrow> (\<forall>l'. Suc c \<le> l' \<longrightarrow> Q l' \<longrightarrow> blocked g (ClassR l'))" for Q
      using b by (metis Suc_le_eq le_neq_implies_less le_less)
    show ?thesis using IH unfolding eq by (auto simp: split split: class_outcome.splits)
  qed
qed

lemma assigned_to_token_holders:
  assumes "token_once (res_assign g)"
  shows "assigned_to_token g t = None \<longleftrightarrow> holders (res_assign g) (TokenR t) = {}"
    and "assigned_to_token g t = Some i \<longleftrightarrow> holders (res_assign g) (TokenR t) = {i}"
proof -
  show none: "assigned_to_token g t = None \<longleftrightarrow> holders (res_assign g) (TokenR t) = {}"
    by (auto simp: assigned_to_token_def find_upt_least(2) holders_def)
  show "assigned_to_token g t = Some i \<longleftrightarrow> holders (res_assign g) (TokenR t) = {i}"
  proof
    assume "assigned_to_token g t = Some i"
    then have "i \<in> holders (res_assign g) (TokenR t)"
      using find_upt_least(1) [of _ _ i] by (auto simp: assigned_to_token_def holders_def)
    moreover have "card (holders (res_assign g) (TokenR t)) \<le> 1" using assms by (simp add: token_once_def)
    ultimately show "holders (res_assign g) (TokenR t) = {i}" by (auto simp: card_le_Suc0_iff_eq)
  next
    assume h: "holders (res_assign g) (TokenR t) = {i}"
    then obtain j where j: "assigned_to_token g t = Some j" using none by (cases "assigned_to_token g t") auto
    then have "j \<in> holders (res_assign g) (TokenR t)"
      using find_upt_least(1) [of _ _ j] by (auto simp: assigned_to_token_def holders_def)
    then show "assigned_to_token g t = Some i" using h j by simp
  qed
qed

lemma first_free_Some:
  assumes "first_free_token_edge g i w own a = Some t" and "token_once (res_assign g)"
  shows "t < length (res_tokens g)" "token_edge g i w own t" "holders (res_assign g) (TokenR t) = {}"
  using find_upt_least(1) [OF assms(1) [unfolded first_free_token_edge_def]] assigned_to_token_holders(1) [OF assms(2)]
  by auto

lemma first_free_None:
  assumes "first_free_token_edge g i w own a = None" and "token_once (res_assign g)"
    and "t < length (res_tokens g)" and "token_edge g i w own t" and "int t > a"
  shows "holders (res_assign g) (TokenR t) \<noteq> {}"
  using assms(1,3-) assigned_to_token_holders(1) [OF assms(2)]
  by (auto simp: first_free_token_edge_def find_upt_least(2))

lemma not_displaceable_blocked:
  assumes "token_once (res_assign g)" and "holders (res_assign g) (TokenR t) \<noteq> {}" and "\<not> displaceable g t"
  shows "blocked g (TokenR t)"
proof -
  obtain i where i: "assigned_to_token g t = Some i"
    using assigned_to_token_holders(1) [OF assms(1)] assms(2) by (cases "assigned_to_token g t") auto
  then have "holders (res_assign g) (TokenR t) = {i}" using assigned_to_token_holders(2) [OF assms(1)] by simp
  then show ?thesis using assms(2,3) i by (auto simp: blocked_def free_resource_def displaceable_def)
qed

lemma displaceable_least:
  assumes "next_displaceable_token_edge g i w own a = Some (t, occ)" and "t' < t" and "token_edge g i w own t'" and "int t' > a"
  shows "\<not> displaceable g t'"
proof -
  have "find (\<lambda>t. token_edge g i w own t \<and> int t > a \<and> displaceable g t) [0..<length (res_tokens g)] = Some t"
    using assms(1) by (auto simp: next_displaceable_token_edge_def split: option.splits)
  from find_upt_least(1) [OF this] show ?thesis using assms(2-4) by blast
qed

lemma displaceable_None:
  assumes "next_displaceable_token_edge g i w own a = None" and "t < length (res_tokens g)"
    and "token_edge g i w own t" and "int t > a"
  shows "\<not> displaceable g t"
proof
  assume d: "displaceable g t"
  then have "find (\<lambda>t. token_edge g i w own t \<and> int t > a \<and> displaceable g t) [0..<length (res_tokens g)] \<noteq> None"
    using assms(2-4) by (auto simp: find_upt_least(2))
  then obtain t' where t': "find (\<lambda>t. token_edge g i w own t \<and> int t > a \<and> displaceable g t) [0..<length (res_tokens g)] = Some t'"
    by blast
  then have "displaceable g t'" using find_upt_least(1) [OF t'] by blast
  then show False using assms(1) t' by (auto simp: next_displaceable_token_edge_def displaceable_def split: option.splits)
qed

section \<open>The search invariant\<close>

text \<open>
  The classes are taken in ascending order: a class is used only when every lower one is full. This
  keeps the lengths of the assigned tokens, and with them the indices of the exact walk, small.
\<close>

definition lowest_first :: "int list \<Rightarrow> resource option list \<Rightarrow> bool" where
  "lowest_first C A \<longleftrightarrow> (\<forall>l l'. holders A (ClassR l) \<noteq> {} \<longrightarrow> 1 \<le> l' \<longrightarrow> l' < l \<longrightarrow> l' \<le> length C \<longrightarrow>
     C ! (l' - 1) \<le> int (card (holders A (ClassR l'))))"

definition matching_inv :: "int list \<Rightarrow> residual \<Rightarrow> bool" where
  "matching_inv C g \<longleftrightarrow> length (res_assign g) = length (res_originals g) \<and> length (res_caps g) = length C
     \<and> (\<forall>i x. i < length (res_assign g) \<longrightarrow> res_assign g ! i = Some x \<longrightarrow> allowed g i x)
     \<and> within C (res_assign g) \<and> lowest_first C (res_assign g)
     \<and> (\<forall>l. 1 \<le> l \<longrightarrow> l \<le> length C \<longrightarrow> cap_of g l = C ! (l - 1) - int (card (holders (res_assign g) (ClassR l))))"

definition frame_ok :: "residual \<Rightarrow> dfs_frame \<Rightarrow> bool" where
  "frame_ok g f \<longleftrightarrow> df_orig f < length (res_originals g) \<and> 1 \<le> df_class_pos f
     \<and> (\<forall>l. 1 \<le> l \<longrightarrow> l < df_class_pos f \<longrightarrow> l \<le> head_width g f \<longrightarrow> blocked g (ClassR l))
     \<and> (\<forall>j\<in>holders (res_assign g) (ClassR (df_class_pos f)). int j \<le> df_displace_from f \<longrightarrow> j \<in> set (res_visited g))
     \<and> (\<forall>t. t < length (res_tokens g) \<longrightarrow> token_edge g (df_orig f) (head_width g f) (head_own g f) t
          \<longrightarrow> int t \<le> df_token_pos f \<longrightarrow> blocked g (TokenR t))"

definition explored :: "residual \<Rightarrow> nat \<Rightarrow> bool" where
  "explored g i \<longleftrightarrow> (\<forall>r. allowed g i r \<longrightarrow> blocked g r)"

definition search_inv :: "int list \<Rightarrow> nat \<Rightarrow> residual \<Rightarrow> bool" where
  "search_inv C v0 g \<longleftrightarrow> matching_inv C g \<and> v0 < length (res_originals g) \<and> res_assign g ! v0 = None
     \<and> v0 \<in> set (res_visited g) \<and> set (res_visited g) \<subseteq> {..<length (res_originals g)}
     \<and> (res_dfs g \<noteq> [] \<longrightarrow> chain_ok g (res_assign g) v0 (res_dfs g))
     \<and> distinct (map df_orig (res_dfs g)) \<and> df_orig ` set (res_dfs g) \<subseteq> set (res_visited g)
     \<and> (\<forall>f\<in>set (res_dfs g). frame_ok g f)
     \<and> (\<forall>i\<in>set (res_visited g). i \<in> df_orig ` set (res_dfs g) \<or> explored g i)"

text \<open>Visiting more originals keeps what is blocked; the other tables of the search do not change.\<close>

lemma same_graph [simp]:
  "allowed (g\<lparr>res_dfs := fs, res_visited := vs\<rparr>) = allowed g" "allowed (g\<lparr>res_dfs := fs\<rparr>) = allowed g"
  "token_edge (g\<lparr>res_dfs := fs, res_visited := vs\<rparr>) = token_edge g" "token_edge (g\<lparr>res_dfs := fs\<rparr>) = token_edge g"
  "free_resource (g\<lparr>res_dfs := fs, res_visited := vs\<rparr>) = free_resource g" "free_resource (g\<lparr>res_dfs := fs\<rparr>) = free_resource g"
  "matching_inv C (g\<lparr>res_dfs := fs, res_visited := vs\<rparr>) = matching_inv C g" "matching_inv C (g\<lparr>res_dfs := fs\<rparr>) = matching_inv C g"
  "blocked (g\<lparr>res_dfs := fs\<rparr>) = blocked g"
  by (auto simp: fun_eq_iff allowed_def token_edge_def free_resource_def matching_inv_def cap_of_def blocked_def
      split: resource.splits option.splits)

lemma chain_ok_same [simp]:
  "chain_ok (g\<lparr>res_dfs := fs, res_visited := vs\<rparr>) A v0 ch = chain_ok g A v0 ch"
  "chain_ok (g\<lparr>res_dfs := fs\<rparr>) A v0 ch = chain_ok g A v0 ch"
  by (induction g A v0 ch rule: chain_ok.induct) auto

lemma blocked_visit: "blocked g r \<Longrightarrow> blocked (g\<lparr>res_dfs := fs, res_visited := i # res_visited g\<rparr>) r"
  by (auto simp: blocked_def)

lemma frame_ok_visit: "frame_ok g f \<Longrightarrow> frame_ok (g\<lparr>res_dfs := fs, res_visited := i # res_visited g\<rparr>) f"
  by (auto simp: frame_ok_def blocked_visit)

lemma explored_visit: "explored g j \<Longrightarrow> explored (g\<lparr>res_dfs := fs, res_visited := i # res_visited g\<rparr>) j"
  by (simp add: explored_def blocked_visit)

lemma frame_ok_dfs [simp]: "frame_ok (g\<lparr>res_dfs := fs\<rparr>) f = frame_ok g f" "explored (g\<lparr>res_dfs := fs\<rparr>) j = explored g j"
  by (simp_all add: frame_ok_def explored_def)

lemma new_frame_ok: "i < length (res_originals g) \<Longrightarrow> frame_ok g (new_frame i v)"
  by (simp add: frame_ok_def new_frame_def)

lemma new_frame_simps [simp]: "df_orig (new_frame i v) = i" "df_vacate (new_frame i v) = v"
  by (simp_all add: new_frame_def)

lemma search_inv_push:
  assumes inv: "search_inv C v0 g" and st: "res_dfs g = h # rest"
    and h': "df_orig h' = df_orig h" "df_vacate h' = df_vacate h"
    and r: "allowed g (df_orig h) r" "i \<in> holders (res_assign g) r" "i \<notin> set (res_visited g)"
    and ok: "frame_ok (g\<lparr>res_dfs := new_frame i (Some r) # h' # rest, res_visited := i # res_visited g\<rparr>) h'"
  shows "search_inv C v0 (g\<lparr>res_dfs := new_frame i (Some r) # h' # rest, res_visited := i # res_visited g\<rparr>)"
proof -
  let ?g = "g\<lparr>res_dfs := new_frame i (Some r) # h' # rest, res_visited := i # res_visited g\<rparr>"
  have lt: "i < length (res_originals g)" and as: "res_assign g ! i = Some r"
    using r(2) inv by (auto simp: search_inv_def matching_inv_def holders_def)
  have "chain_ok g (res_assign g) v0 (h # rest)" using inv st by (simp add: search_inv_def)
  then have ch: "chain_ok g (res_assign g) v0 (h' # rest)" using h' by (cases rest) auto
  have "\<forall>f\<in>set (res_dfs ?g). frame_ok ?g f"
    using inv st ok frame_ok_visit new_frame_ok [of i ?g] lt by (auto simp: search_inv_def)
  moreover have "\<forall>j\<in>set (res_visited ?g). j \<in> df_orig ` set (res_dfs ?g) \<or> explored ?g j"
    using inv st h'(1) explored_visit by (auto simp: search_inv_def)
  moreover have "distinct (map df_orig (res_dfs ?g))"
    using inv st h'(1) r(3) by (auto simp: search_inv_def)
  ultimately show ?thesis
    using inv st h'(1) lt as ch r(1) by (auto simp: search_inv_def)
qed

lemma matching_token_once:
  assumes "matching_inv C g"
  shows "token_once (res_assign g)"
  unfolding token_once_def
proof
  fix t
  have "card (holders (res_assign g) (TokenR t)) \<le> slots C (TokenR t)"
    using assms by (simp add: matching_inv_def within_def)
  then show "card (holders (res_assign g) (TokenR t)) \<le> 1" by (simp add: slots_def)
qed

lemma scan_of_frame:
  assumes "frame_ok g h"
  shows "case class_scan g (head_width g h) (df_class_pos h) (df_displace_from h) of
      ClassFree l \<Rightarrow> df_class_pos h \<le> l \<and> l \<le> head_width g h \<and> cap_of g l > 0
        \<and> (\<forall>l'. df_class_pos h \<le> l' \<longrightarrow> l' < l \<longrightarrow> blocked g (ClassR l'))
    | ClassDisplace l i \<Rightarrow> df_class_pos h \<le> l \<and> l \<le> head_width g h \<and> \<not> cap_of g l > 0
        \<and> i \<in> holders (res_assign g) (ClassR l) \<and> i \<notin> set (res_visited g)
        \<and> (\<forall>j\<in>holders (res_assign g) (ClassR l). j < i \<longrightarrow> j \<in> set (res_visited g))
        \<and> (\<forall>l'. df_class_pos h \<le> l' \<longrightarrow> l' < l \<longrightarrow> blocked g (ClassR l'))
    | ClassExhausted \<Rightarrow> (\<forall>l'. df_class_pos h \<le> l' \<longrightarrow> l' \<le> head_width g h \<longrightarrow> blocked g (ClassR l'))"
  using assms by (intro class_scan_cases) (simp add: frame_ok_def)

lemma exhausted_classes:
  assumes "frame_ok g h"
    and "class_scan g (head_width g h) (df_class_pos h) (df_displace_from h) = ClassExhausted"
    and "1 \<le> l" and "l \<le> head_width g h"
  shows "blocked g (ClassR l)"
  using scan_of_frame [OF assms(1)] assms by (cases "l < df_class_pos h") (auto simp: frame_ok_def)

lemma search_inv_step:
  assumes inv: "search_inv C v0 g" and step: "augment_step g = Inr g'"
  shows "search_inv C v0 g'"
  using step
proof (cases rule: augment_step_Inr)
  case (displace_class h rest l i)
  have f: "frame_ok g h" using inv displace_class(1) by (simp add: search_inv_def)
  note sc = scan_of_frame [OF f, unfolded displace_class(3), simplified]
  let ?h = "h\<lparr>df_class_pos := l, df_displace_from := int i\<rparr>"
  have "1 \<le> l" using sc f by (auto simp: frame_ok_def)
  then have al: "allowed g (df_orig h) (ClassR l)" using sc by (simp add: allowed_def)
  have "frame_ok (g\<lparr>res_dfs := fs, res_visited := i # res_visited g\<rparr>) ?h" for fs
    using f sc \<open>1 \<le> l\<close> unfolding frame_ok_def
    by (auto simp: blocked_visit)
  then show ?thesis unfolding displace_class(4)
    using inv displace_class(1) al sc by (intro search_inv_push) auto
next
  case (displace_token h rest t i)
  have f: "frame_ok g h" using inv displace_token(1) by (simp add: search_inv_def)
  have once: "token_once (res_assign g)" using inv matching_token_once by (auto simp: search_inv_def)
  let ?w = "head_width g h" and ?h = "(past_classes (head_width g h) h)\<lparr>df_token_pos := int t\<rparr>"
  note d = displaceable_occupant [OF displace_token(5)]
  have cl: "blocked g (ClassR l)" if "1 \<le> l" "l \<le> ?w" for l
    using exhausted_classes [OF f displace_token(3) that] .
  have hold: "holders (res_assign g) (TokenR t) = {i}"
    using assigned_to_token_holders(2) [OF once, of t i] displace_token(5)
    by (auto simp: next_displaceable_token_edge_def split: option.splits)
  let ?g = "\<lambda>fs. g\<lparr>res_dfs := fs, res_visited := i # res_visited g\<rparr>"
  have tk: "blocked (?g fs) (TokenR t')"
    if "t' < length (res_tokens g)" "token_edge g (df_orig h) ?w (head_own g h) t'" "t' \<le> t" for t' fs
  proof (cases "int t' \<le> df_token_pos h")
    case True
    then show ?thesis using f that by (auto simp: frame_ok_def blocked_visit)
  next
    case False
    have ne: "holders (res_assign g) (TokenR t') \<noteq> {}"
      using first_free_None [OF displace_token(4) once that(1,2)] False by simp
    show ?thesis
    proof (cases "t' = t")
      case True
      then show ?thesis using hold by (simp add: blocked_def free_resource_def)
    next
      case nt: False
      then show ?thesis
        using not_displaceable_blocked [OF once ne] displaceable_least [OF displace_token(5) _ that(2)] that(3) False
        by (auto simp: blocked_visit)
    qed
  qed
  have pos: "1 \<le> df_class_pos ?h" "df_class_pos ?h > ?w" "df_orig ?h = df_orig h" "df_token_pos ?h = int t"
    "df_vacate ?h = df_vacate h"
    using f by (auto simp: past_classes_def frame_ok_def)
  have disp: "\<forall>j\<in>holders (res_assign g) (ClassR (df_class_pos ?h)). int j \<le> df_displace_from ?h \<longrightarrow> j \<in> set (res_visited g)"
    using f by (auto simp: past_classes_def frame_ok_def)
  have "frame_ok (?g fs) ?h" for fs
    using f pos disp cl tk unfolding frame_ok_def by (simp add: blocked_visit)
  then show ?thesis unfolding displace_token(6)
    using inv displace_token(1) d hold pos by (intro search_inv_push) (auto simp: allowed_def)
next
  case (pop h rest)
  have f: "frame_ok g h" using inv pop(1) by (simp add: search_inv_def)
  have once: "token_once (res_assign g)" using inv matching_token_once by (auto simp: search_inv_def)
  have "explored g (df_orig h)" unfolding explored_def
  proof (intro allI impI)
    fix r assume al: "allowed g (df_orig h) r"
    show "blocked g r"
    proof (cases r)
      case (ClassR l)
      then show ?thesis using exhausted_classes [OF f pop(3)] al by (simp add: allowed_def)
    next
      case (TokenR t)
      then have t: "t < length (res_tokens g)" "token_edge g (df_orig h) (head_width g h) (head_own g h) t"
        using al by (auto simp: allowed_def)
      show ?thesis
      proof (cases "int t \<le> df_token_pos h")
        case True
        then show ?thesis using f t TokenR by (simp add: frame_ok_def)
      next
        case False
        then have "holders (res_assign g) (TokenR t) \<noteq> {}" using first_free_None [OF pop(4) once t] by simp
        then show ?thesis using not_displaceable_blocked [OF once] displaceable_None [OF pop(5) t] False TokenR by simp
      qed
    qed
  qed
  moreover have "rest \<noteq> [] \<Longrightarrow> chain_ok g (res_assign g) v0 rest"
    using inv pop(1) by (cases rest) (auto simp: search_inv_def)
  ultimately show ?thesis using inv pop(1) unfolding pop(6) by (auto simp: search_inv_def)
qed

section \<open>A successful search extends the matching\<close>

text \<open>The outcome of a successful augmentation: \<open>v0\<close> is matched and nobody loses his resource.\<close>

definition extends_matching :: "int list \<Rightarrow> nat \<Rightarrow> residual \<Rightarrow> residual \<Rightarrow> bool" where
  "extends_matching C v0 g g' \<longleftrightarrow> matching_inv C g' \<and> res_originals g' = res_originals g \<and> res_tokens g' = res_tokens g
     \<and> (\<forall>i < length (res_originals g). res_assign g' ! i = None \<longleftrightarrow> res_assign g ! i = None \<and> i \<noteq> v0)"

lemma cap_of_consume:
  "cap_of (consume_class r g) l = cap_of g l - (if r = ClassR l \<and> 1 \<le> l \<and> l \<le> length (res_caps g) then 1 else 0)"
  by (cases r) (auto simp: consume_class_def cap_of_def nth_list_update)

lemma consume_simps [simp]:
  "res_originals (consume_class r g) = res_originals g" "res_tokens (consume_class r g) = res_tokens g"
  "res_assign (consume_class r g) = res_assign g" "res_dfs (consume_class r g) = res_dfs g"
  "length (res_caps (consume_class r g)) = length (res_caps g)"
  by (cases r; simp add: consume_class_def)+

lemma allowed_cong:
  "res_originals g' = res_originals g \<Longrightarrow> res_tokens g' = res_tokens g \<Longrightarrow> allowed g' = allowed g"
  by (auto simp: fun_eq_iff allowed_def token_edge_def split: resource.splits option.splits)

lemma free_has_slot:
  assumes "matching_inv C g" and "allowed g i r" and "free_resource g r"
  shows "card (holders (res_assign g) r) < slots C r"
    and "\<And>l. r = ClassR l \<Longrightarrow> 1 \<le> l \<and> l \<le> length C"
proof -
  show c: "1 \<le> l \<and> l \<le> length C" if "r = ClassR l" for l
    using assms(1,3) that by (auto simp: free_resource_def cap_of_def matching_inv_def split: if_splits)
  show "card (holders (res_assign g) r) < slots C r"
  proof (cases r)
    case (ClassR l)
    then have "cap_of g l > 0" "cap_of g l = C ! (l - 1) - int (card (holders (res_assign g) (ClassR l)))"
      using assms c by (auto simp: free_resource_def matching_inv_def)
    then show ?thesis using ClassR c by (simp add: slots_def)
  next
    case (TokenR t)
    then show ?thesis using assms(3) by (simp add: free_resource_def slots_def)
  qed
qed

lemma lowest_first_grow:
  assumes m: "matching_inv C g" and A: "\<And>x. card (holders A x) = card (holders (res_assign g) x) + (if x = r then 1 else 0)"
    and low: "\<And>l l'. r = ClassR l \<Longrightarrow> 1 \<le> l' \<Longrightarrow> l' < l \<Longrightarrow> blocked g (ClassR l')"
  shows "lowest_first C A"
  unfolding lowest_first_def
proof (intro allI impI)
  fix l l'
  assume h: "holders A (ClassR l) \<noteq> {}" "1 \<le> l'" "l' < l" "l' \<le> length C"
  have "C ! (l' - 1) \<le> int (card (holders (res_assign g) (ClassR l')))"
  proof (cases "holders (res_assign g) (ClassR l) = {}")
    case True
    have "0 < card (holders A (ClassR l))" using h(1) by (simp add: card_gt_0_iff)
    then have "r = ClassR l" using A [of "ClassR l"] True by (auto split: if_splits)
    then have "\<not> cap_of g l' > 0" using low h(2,3) by (auto simp: blocked_def free_resource_def)
    then show ?thesis using m h(2,4) by (auto simp: matching_inv_def)
  next
    case False
    then show ?thesis using m h(2-4) by (auto simp: matching_inv_def lowest_first_def)
  qed
  then show "C ! (l' - 1) \<le> int (card (holders A (ClassR l')))" using A [of "ClassR l'"] by auto
qed

lemma unwind_extends:
  assumes inv: "search_inv C v0 g" and st: "res_dfs g = h # rest"
    and r: "allowed g (df_orig h) r" "free_resource g r"
    and low: "\<And>l l'. r = ClassR l \<Longrightarrow> 1 \<le> l' \<Longrightarrow> l' < l \<Longrightarrow> blocked g (ClassR l')"
  shows "\<exists>g'. unwind r g = Inr g' \<and> extends_matching C v0 g g'"
proof -
  let ?g = "consume_class r g"
  have m: "matching_inv C g" using inv by (simp add: search_inv_def)
  have al: "allowed ?g = allowed g" by (rule allowed_cong) simp_all
  have "\<exists>A. unwind_chain (res_dfs g) (Some r) ?g = Inr (?g\<lparr>res_assign := A\<rparr>) \<and> length A = length (res_assign ?g)
    \<and> (\<forall>i x. i < length A \<longrightarrow> A ! i = Some x \<longrightarrow> allowed g i x) \<and> token_once A
    \<and> (\<forall>x. card (holders A x) = card (holders (res_assign ?g) x) + (if x = r then 1 else 0))
    \<and> (\<forall>i < length A. A ! i = None \<longleftrightarrow> res_assign ?g ! i = None \<and> i \<noteq> v0)"
  proof (rule unwind_chain_spec)
    show "chain_ok g (res_assign ?g) v0 (res_dfs g)" using inv st by (simp add: search_inv_def)
    show "distinct (map df_orig (res_dfs g))" using inv by (simp add: search_inv_def)
    show "\<forall>f\<in>set (res_dfs g). df_orig f < length (res_assign ?g)"
      using inv by (auto simp: search_inv_def matching_inv_def frame_ok_def)
    show "token_once (res_assign ?g)" using matching_token_once [OF m] by simp
    show "\<And>t. r = TokenR t \<Longrightarrow> holders (res_assign ?g) r = {}" using r(2) by (simp add: free_resource_def)
    show "allowed g (df_orig (hd (res_dfs g))) r" using r(1) st by simp
    show "\<forall>i x. i < length (res_assign ?g) \<longrightarrow> res_assign ?g ! i = Some x \<longrightarrow> allowed g i x"
      using m by (simp add: matching_inv_def)
  qed
  then obtain A where A: "unwind_chain (res_dfs g) (Some r) ?g = Inr (?g\<lparr>res_assign := A\<rparr>)" "length A = length (res_assign g)"
    "\<forall>i x. i < length A \<longrightarrow> A ! i = Some x \<longrightarrow> allowed g i x"
    "\<And>x. card (holders A x) = card (holders (res_assign g) x) + (if x = r then 1 else 0)"
    "\<forall>i < length A. A ! i = None \<longleftrightarrow> res_assign g ! i = None \<and> i \<noteq> v0" by auto
  let ?g' = "?g\<lparr>res_assign := A\<rparr>"
  have al': "allowed ?g' = allowed g" by (rule allowed_cong) simp_all
  have "within C A" unfolding within_def
  proof
    fix x show "card (holders A x) \<le> slots C x"
      using free_has_slot(1) [OF m r] m A(4) [of x] by (cases "x = r") (auto simp: matching_inv_def within_def)
  qed
  moreover have "cap_of ?g' l = C ! (l - 1) - int (card (holders A (ClassR l)))" if "1 \<le> l" "l \<le> length C" for l
  proof -
    have "cap_of ?g' l = cap_of ?g l" by (simp add: cap_of_def)
    also have "\<dots> = cap_of g l - (if r = ClassR l then 1 else 0)"
      using m that by (auto simp: cap_of_consume matching_inv_def)
    also have "\<dots> = C ! (l - 1) - int (card (holders A (ClassR l)))"
      using m that A(4) [of "ClassR l"] by (auto simp: matching_inv_def)
    finally show ?thesis .
  qed
  moreover have "lowest_first C A" using lowest_first_grow [OF m A(4) low] .
  ultimately have "matching_inv C ?g'" using m A(2,3) al' by (simp add: matching_inv_def)
  then have "extends_matching C v0 g ?g'" using A(2,5) m by (simp add: extends_matching_def matching_inv_def)
  moreover have "unwind r g = Inr ?g'" using A(1) by (simp add: unwind_def)
  ultimately show ?thesis by blast
qed

section \<open>A failed search exhibits a violator of Hall's condition\<close>

definition complete_matching :: "int list \<Rightarrow> residual \<Rightarrow> nat set \<Rightarrow> (nat \<Rightarrow> resource) \<Rightarrow> bool" where
  "complete_matching C g V m \<longleftrightarrow> (\<forall>i\<in>V. allowed g i (m i)) \<and> (\<forall>r. card {i\<in>V. m i = r} \<le> slots C r)"

lemma blocked_slots:
  assumes "matching_inv C g" and "blocked g r"
  shows "slots C r \<le> card (holders (res_assign g) r)"
proof (cases r)
  case (ClassR l)
  then have "\<not> cap_of g l > 0" using assms(2) by (simp add: blocked_def free_resource_def)
  then show ?thesis using assms(1) ClassR by (auto simp: slots_def matching_inv_def)
next
  case (TokenR t)
  then have "holders (res_assign g) r \<noteq> {}" using assms(2) by (simp add: blocked_def free_resource_def)
  then have "0 < card (holders (res_assign g) r)" by (simp add: card_gt_0_iff)
  then show ?thesis using TokenR by (simp add: slots_def)
qed

lemma closed_violator:
  assumes inv: "search_inv C v0 g" and "res_dfs g = []"
  shows "\<not> complete_matching C g (set (res_visited g)) m"
proof
  assume m: "complete_matching C g (set (res_visited g)) m"
  let ?V = "set (res_visited g)" and ?A = "res_assign g"
  let ?R = "m ` ?V"
  have mi: "matching_inv C g" using inv by (simp add: search_inv_def)
  have bl: "blocked g r" if "r \<in> ?R" for r
    using that m inv assms(2) by (auto simp: complete_matching_def search_inv_def explored_def)
  have "card (\<Union>r\<in>?R. {i\<in>?V. m i = r}) \<le> (\<Sum>r\<in>?R. card {i\<in>?V. m i = r})" by (intro card_UN_le) simp
  moreover have "(\<Union>r\<in>?R. {i\<in>?V. m i = r}) = ?V" by auto
  ultimately have "card ?V \<le> (\<Sum>r\<in>?R. card {i\<in>?V. m i = r})" by simp
  also have "\<dots> \<le> (\<Sum>r\<in>?R. card (holders ?A r))"
  proof (rule sum_mono)
    fix r assume "r \<in> ?R"
    then have "slots C r \<le> card (holders ?A r)" using blocked_slots [OF mi] bl by blast
    moreover have "card {i\<in>?V. m i = r} \<le> slots C r" using m unfolding complete_matching_def by blast
    ultimately show "card {i\<in>?V. m i = r} \<le> card (holders ?A r)" by (rule order_trans [rotated])
  qed
  also have "\<dots> = card (\<Union>r\<in>?R. holders ?A r)"
    by (rule card_UN_disjoint [symmetric]) (auto simp: holders_def)
  also have "\<dots> \<le> card (?V - {v0})"
  proof (rule card_mono)
    show "(\<Union>r\<in>?R. holders ?A r) \<subseteq> ?V - {v0}"
      using bl inv by (auto simp: blocked_def holders_def search_inv_def)
  qed simp
  also have "\<dots> < card ?V" using inv by (intro card_Diff1_less) (auto simp: search_inv_def)
  finally show False by simp
qed

lemma augment_step_Inl:
  assumes inv: "search_inv C v0 g" and step: "augment_step g = Inl (res, g')"
  shows "res = Inr True \<and> extends_matching C v0 g g' \<or> res = Inr False \<and> g' = g \<and> res_dfs g = []"
proof (cases "res_dfs g")
  case Nil
  then show ?thesis using step by (simp add: augment_step_def)
next
  case (Cons h rest)
  have f: "frame_ok g h" using inv Cons by (simp add: search_inv_def)
  then have lt: "df_orig h < length (res_originals g)" by (simp add: frame_ok_def)
  have once: "token_once (res_assign g)" using inv matching_token_once by (auto simp: search_inv_def)
  show ?thesis
  proof (cases "class_scan g (head_width g h) (df_class_pos h) (df_displace_from h)")
    case (ClassFree l)
    note sc = scan_of_frame [OF f, unfolded ClassFree, simplified]
    have "allowed g (df_orig h) (ClassR l)" "free_resource g (ClassR l)"
      using sc f by (auto simp: allowed_def free_resource_def frame_ok_def)
    moreover have "blocked g (ClassR l'')" if "ClassR l = ClassR l'" "1 \<le> l''" "l'' < l'" for l' l''
      using sc f that by (cases "l'' < df_class_pos h") (auto simp: frame_ok_def)
    ultimately have "\<exists>g'. unwind (ClassR l) g = Inr g' \<and> extends_matching C v0 g g'"
      by (rule unwind_extends [OF inv Cons])
    then show ?thesis
      using step Cons lt ClassFree by (auto simp: augment_step_def Let_def)
  next
    case (ClassDisplace l i)
    then show ?thesis using step Cons lt by (auto simp: augment_step_def Let_def)
  next
    case ClassExhausted
    show ?thesis
    proof (cases "first_free_token_edge g (df_orig h) (head_width g h) (head_own g h) (df_token_pos h)")
      case None
      then show ?thesis using step Cons lt ClassExhausted
        by (auto simp: augment_step_def Let_def split: option.splits if_splits)
    next
      case (Some t)
      note ft = first_free_Some [OF Some once]
      then have "allowed g (df_orig h) (TokenR t)" "free_resource g (TokenR t)"
        by (auto simp: allowed_def free_resource_def)
      from unwind_extends [OF inv Cons this] have "\<exists>g'. unwind (TokenR t) g = Inr g' \<and> extends_matching C v0 g g'" by simp
      then show ?thesis
        using step Cons lt ClassExhausted Some by (auto simp: augment_step_def Let_def split: if_splits)
    qed
  qed
qed

section \<open>The solver is exact\<close>

lemma complete_matching_subset:
  assumes "complete_matching C g W m" and "V \<subseteq> W" and "finite W"
  shows "complete_matching C g V m"
proof -
  have "card {i\<in>V. m i = r} \<le> card {i\<in>W. m i = r}" for r using assms(2,3) by (intro card_mono) auto
  then show ?thesis using assms(1,2) unfolding complete_matching_def by (meson order_trans subsetD)
qed

lemma complete_matching_cong:
  "res_originals g' = res_originals g \<Longrightarrow> res_tokens g' = res_tokens g \<Longrightarrow>
     complete_matching C g' V m = complete_matching C g V m"
  using allowed_cong [of g' g] by (simp add: complete_matching_def)

lemma augment_step_frame:
  assumes "augment_step g = Inr g'"
  shows "res_originals g' = res_originals g" "res_tokens g' = res_tokens g" "res_assign g' = res_assign g"
  using assms by (cases rule: augment_step_Inr; simp)+

lemma augment_loop_spec:
  assumes "search_inv C v0 g"
  shows "(\<exists>g'. augment_loop g = (Inr True, g') \<and> extends_matching C v0 g g')
    \<or> (\<exists>g'. augment_loop g = (Inr False, g') \<and> (\<forall>m. \<not> complete_matching C g {..<length (res_originals g)} m))"
  using assms
proof (induction g rule: augment_loop.induct)
  case (1 g)
  show ?case
  proof (cases "augment_step g")
    case (Inl p)
    obtain res g' where p: "p = (res, g')" by (cases p)
    have loop: "augment_loop g = (res, g')" using Inl p by (simp add: augment_loop.simps)
    consider "res = Inr True" "extends_matching C v0 g g'" | "res = Inr False" "res_dfs g = []"
      using augment_step_Inl [OF "1.prems"] Inl p by blast
    then show ?thesis
    proof cases
      case 1
      then show ?thesis using loop by auto
    next
      case 2
      have "set (res_visited g) \<subseteq> {..<length (res_originals g)}" using "1.prems" by (simp add: search_inv_def)
      then have "\<not> complete_matching C g {..<length (res_originals g)} m" for m
        using closed_violator [OF "1.prems" 2(2)] complete_matching_subset by blast
      then show ?thesis using loop 2 by auto
    qed
  next
    case (Inr g')
    have loop: "augment_loop g = augment_loop g'" using Inr by (simp add: augment_loop.simps)
    note fr = augment_step_frame [OF Inr]
    have "(\<exists>g''. augment_loop g' = (Inr True, g'') \<and> extends_matching C v0 g' g'')
      \<or> (\<exists>g''. augment_loop g' = (Inr False, g'') \<and> (\<forall>m. \<not> complete_matching C g' {..<length (res_originals g')} m))"
      using Inr search_inv_step [OF "1.prems" Inr] by (intro "1.IH")
    then show ?thesis
      unfolding loop using fr by (simp add: extends_matching_def complete_matching_cong [OF fr(1,2)])
  qed
qed

lemma augment_spec:
  assumes "matching_inv C g" and "v0 < length (res_originals g)" and "res_assign g ! v0 = None"
  shows "(\<exists>g'. augment v0 g = (Inr True, g') \<and> extends_matching C v0 g g')
    \<or> (\<exists>g'. augment v0 g = (Inr False, g') \<and> (\<forall>m. \<not> complete_matching C g {..<length (res_originals g)} m))"
proof -
  let ?g = "g\<lparr>res_visited := [v0], res_dfs := [new_frame v0 None]\<rparr>"
  have eq: "?g = g\<lparr>res_dfs := [new_frame v0 None], res_visited := [v0]\<rparr>" by simp
  have "search_inv C v0 ?g"
    using assms new_frame_ok [of v0 ?g] unfolding search_inv_def eq by (simp add: eq)
  from augment_loop_spec [OF this] show ?thesis
    unfolding augment_def eq
    by (simp add: extends_matching_def complete_matching_cong [of "g\<lparr>res_dfs := [new_frame v0 None], res_visited := [v0]\<rparr>" g])
qed

lemma solve_loop_spec:
  assumes "matching_inv C g" and "\<forall>i < length (res_originals g). res_assign g ! i = None \<longleftrightarrow> i \<in> set is"
    and "distinct is" and "set is \<subseteq> {..<length (res_originals g)}"
  shows "(\<exists>g'. solve_loop is g = Inr g' \<and> matching_inv C g' \<and> res_originals g' = res_originals g \<and> res_tokens g' = res_tokens g
        \<and> (\<forall>i < length (res_originals g). res_assign g' ! i \<noteq> None))
    \<or> (solve_loop is g = Inl (residual_failure ''ENGINE_TEXT_RESIDUAL_INFEASIBLE'')
        \<and> (\<forall>m. \<not> complete_matching C g {..<length (res_originals g)} m))"
  using assms
proof (induction "is" arbitrary: g)
  case Nil
  then show ?case by auto
next
  case (Cons v "is")
  have v: "v < length (res_originals g)" "res_assign g ! v = None" using Cons.prems by auto
  consider g' where "augment v g = (Inr True, g')" "extends_matching C v g g'"
    | g' where "augment v g = (Inr False, g')" "\<forall>m. \<not> complete_matching C g {..<length (res_originals g)} m"
    using augment_spec [OF Cons.prems(1) v] by blast
  then show ?case
  proof cases
    case (1 g')
    have e: "matching_inv C g'" "res_originals g' = res_originals g" "res_tokens g' = res_tokens g"
      "\<forall>i < length (res_originals g). res_assign g' ! i = None \<longleftrightarrow> res_assign g ! i = None \<and> i \<noteq> v"
      using 1(2) by (auto simp: extends_matching_def)
    have "(\<exists>g''. solve_loop is g' = Inr g'' \<and> matching_inv C g'' \<and> res_originals g'' = res_originals g' \<and> res_tokens g'' = res_tokens g'
        \<and> (\<forall>i < length (res_originals g'). res_assign g'' ! i \<noteq> None))
      \<or> (solve_loop is g' = Inl (residual_failure ''ENGINE_TEXT_RESIDUAL_INFEASIBLE'')
        \<and> (\<forall>m. \<not> complete_matching C g' {..<length (res_originals g')} m))"
      using Cons.prems e by (intro Cons.IH) auto
    then show ?thesis using 1(1) e(2,3) complete_matching_cong [OF e(2,3)] by simp
  next
    case (2 g')
    then show ?thesis by simp
  qed
qed

section \<open>The number of rounds of a search\<close>

text \<open>The search cut off after a number of rounds of its \<open>while\<close> loop.\<close>

fun augment_rounds :: "nat \<Rightarrow> residual \<Rightarrow> (bool result \<times> residual) option" where
  "augment_rounds 0 g = None"
| "augment_rounds (Suc n) g = (case augment_step g of Inl r \<Rightarrow> Some r | Inr g' \<Rightarrow> augment_rounds n g')"

lemma augment_step_rounds:
  assumes "augment_step g = Inr g'"
  shows "2 * card (unvisited_assigned g') + length (res_dfs g') < 2 * card (unvisited_assigned g) + length (res_dfs g)"
proof -
  have "length (res_dfs g') \<le> Suc (length (res_dfs g))" using assms by (cases rule: augment_step_Inr) auto
  then show ?thesis using augment_step_decreases [OF assms] by linarith
qed

lemma augment_rounds_enough:
  "2 * card (unvisited_assigned g) + length (res_dfs g) < n \<Longrightarrow> augment_rounds n g = Some (augment_loop g)"
proof (induction n arbitrary: g)
  case (Suc n)
  show ?case
  proof (cases "augment_step g")
    case (Inl r)
    then show ?thesis by (simp add: augment_loop.simps)
  next
    case (Inr g')
    then show ?thesis using Suc.IH [of g'] augment_step_rounds [OF Inr] Suc.prems by (simp add: augment_loop.simps)
  qed
qed simp

text \<open>
  C26. Every search for an augmenting path ends, and soon: with n values already assigned, the loop
  of the search returns its result within 2 n + 2 rounds, on every graph and from every start,
  since a round either visits an assigned value that was not visited before or takes a frame off
  the stack.
\<close>

theorem augment_terminates:
  "augment_rounds (2 * length (filter (\<lambda>a. a \<noteq> None) (res_assign g)) + 2) (g\<lparr>res_visited := [v0], res_dfs := [new_frame v0 None]\<rparr>) = Some (augment v0 g)"
proof -
  let ?g = "g\<lparr>res_visited := [v0], res_dfs := [new_frame v0 None]\<rparr>"
  have "unvisited_assigned ?g \<subseteq> {i. i < length (res_assign g) \<and> res_assign g ! i \<noteq> None}" by (auto simp: unvisited_assigned_def)
  then have "card (unvisited_assigned ?g) \<le> length (filter (\<lambda>a. a \<noteq> None) (res_assign g))"
    unfolding length_filter_conv_card by (intro card_mono) auto
  then show ?thesis unfolding augment_def by (intro augment_rounds_enough) simp
qed

end
