(* ===== verification/Text_Residual.thy ===== *)
theory Text_Residual
  imports Residual_Matching
begin

text \<open>
  Construction and validation of the text residual problem and the exactness of its solver
  (\<^verbatim>\<open>src/src/dbf_anonymizer/engine/text_residual.py\<close>). The observation table of the spool is the list
  of its rows (canonical UTF-8 blob, strictest width); the vault is read through the database view
  \<open>db\<close> of its connection. Rows whose \<open>logical_byte_length\<close> is not an integer cell do not occur in a
  vault written by the program and are not counted.
\<close>

section \<open>Building the graph\<close>

type_synonym observations = "(bytes \<times> int) list"

definition SQLITE_INT64_MAX :: int where "SQLITE_INT64_MAX = 2 ^ 63 - 1"

definition class_size :: "int \<Rightarrow> nat \<Rightarrow> int" where "class_size base l = base ^ l"

definition stored_capacity :: "int \<Rightarrow> int" where "stored_capacity n = min n SQLITE_INT64_MAX"

definition token_occupied :: "database \<Rightarrow> string \<Rightarrow> pystr \<Rightarrow> bool" where
  "token_occupied db d token = list_ex (\<lambda>r. tr_domain r = d \<and> tr_pseudonym r = SText token) (text_mappings_tbl db)"

definition occupied_by_length :: "database \<Rightarrow> string \<Rightarrow> nat \<Rightarrow> int" where
  "occupied_by_length db d l =
     int (length (filter (\<lambda>r. tr_domain r = d \<and> tr_length r = SInt (int l)) (text_mappings_tbl db)))"

definition build_original :: "database \<Rightarrow> string \<Rightarrow> pystr \<Rightarrow> bytes \<times> int \<Rightarrow> res_original result" where
  "build_original db d alphabet row =
     (case utf8_decode (fst row) of
        None \<Rightarrow> Inl ValueError
      | Some text \<Rightarrow>
          if snd row \<le> 0 then Inl (residual_failure ''ENGINE_TEXT_WIDTH_INFEASIBLE'')
          else Inr \<lparr>ro_width = nat (snd row), ro_value = text,
                    ro_own = (if is_safe_token text alphabet \<and> int (length text) \<le> snd row
                                \<and> \<not> token_occupied db d text
                              then Some text else None)\<rparr>)"

definition reserved_tokens :: "res_original list \<Rightarrow> res_token list" where
  "reserved_tokens os =
     List.map_filter (\<lambda>i. map_option (\<lambda>v. \<lparr>rt_value = v, rt_owner = i\<rparr>) (ro_own (os ! i))) [0..<length os]"

definition reserved_by_length :: "res_token list \<Rightarrow> nat \<Rightarrow> int" where
  "reserved_by_length ts l = int (length (filter (\<lambda>t. length (rt_value t) = l) ts))"

definition max_width :: "res_original list \<Rightarrow> nat" where
  "max_width os = foldl (\<lambda>m x. if ro_width x > m then ro_width x else m) 0 os"

definition initial_caps :: "database \<Rightarrow> string \<Rightarrow> int \<Rightarrow> res_original list \<Rightarrow> int list" where
  "initial_caps db d base os =
     map (\<lambda>l. stored_capacity (class_size base l - occupied_by_length db d l - reserved_by_length (reserved_tokens os) l))
       [1..<Suc (max_width os)]"

definition build_residual_graph ::
    "database \<Rightarrow> string \<Rightarrow> pystr \<Rightarrow> int \<Rightarrow> observations \<Rightarrow> residual result" where
  "build_residual_graph db d alphabet base obs =
     bindE (mapE (build_original db d alphabet) (sort_key (\<lambda>(c, w). (w, c)) obs)) (\<lambda>os.
       Inr \<lparr>res_originals = os, res_tokens = reserved_tokens os, res_caps = initial_caps db d base os,
            res_assign = replicate (length os) None, res_visited = [], res_dfs = []\<rparr>)"

section \<open>Validation of the solved assignment\<close>

fun is_class :: "resource option \<Rightarrow> bool" where
  "is_class (Some (ClassR l)) = True" | "is_class _ = False"

fun is_token :: "resource option \<Rightarrow> bool" where
  "is_token (Some (TokenR t)) = True" | "is_token _ = False"

text \<open>The joins of one assignment row with its token and its original.\<close>

definition row_valid_assignment :: "residual \<Rightarrow> nat \<Rightarrow> bool" where
  "row_valid_assignment g i =
     (case res_assign g ! i of
        None \<Rightarrow> False
      | Some (ClassR l) \<Rightarrow> l \<le> ro_width (res_originals g ! i)
      | Some (TokenR t) \<Rightarrow>
          t < length (res_tokens g)
          \<and> rt_owner (res_tokens g ! t) \<noteq> i \<and> Some (rt_value (res_tokens g ! t)) \<noteq> ro_own (res_originals g ! i)
          \<and> length (rt_value (res_tokens g ! t)) \<le> ro_width (res_originals g ! i))"

definition class_taken :: "residual \<Rightarrow> nat \<Rightarrow> int" where
  "class_taken g l = int (length (filter (\<lambda>x. x = Some (ClassR l)) (res_assign g)))"

definition capacity_reconciles :: "database \<Rightarrow> string \<Rightarrow> int \<Rightarrow> residual \<Rightarrow> nat \<Rightarrow> bool" where
  "capacity_reconciles db d base g l =
     (let expected = stored_capacity (class_size base l - occupied_by_length db d l
                       - reserved_by_length (res_tokens g) l) - class_taken g l
      in res_caps g ! (l - 1) = expected \<and> 0 \<le> expected)"

definition validate_residual_assignment :: "database \<Rightarrow> string \<Rightarrow> int \<Rightarrow> residual \<Rightarrow> unit result" where
  "validate_residual_assignment db d base g =
     guardE (length (filter (\<lambda>x. x \<noteq> None) (res_assign g)) = length (res_originals g)
        \<and> list_all (row_valid_assignment g) [0..<length (res_assign g)]
        \<and> distinct (filter is_token (res_assign g))
        \<and> list_all (capacity_reconciles db d base g) [1..<Suc (length (res_caps g))])
       residual_corrupt"

definition solve_text_residual ::
    "database \<Rightarrow> string \<Rightarrow> pystr \<Rightarrow> int \<Rightarrow> observations \<Rightarrow> residual result" where
  "solve_text_residual db d alphabet base obs =
     bindE (build_residual_graph db d alphabet base obs) (\<lambda>g0.
     bindE (solve_loop [0..<length (res_originals g0)] g0) (\<lambda>g1.
     let g2 = g1\<lparr>res_visited := [], res_dfs := []\<rparr>
     in bindE (validate_residual_assignment db d base g2) (\<lambda>_. Inr g2)))"

section \<open>The abstract problem\<close>

text \<open>
  A solution of the residual problem: an injective choice of free safe tokens within the widths that
  moves every value.
\<close>

definition text_plan :: "database \<Rightarrow> string \<Rightarrow> pystr \<Rightarrow> observations \<Rightarrow> (pystr \<Rightarrow> pystr) \<Rightarrow> bool" where
  "text_plan db d alphabet obs f \<longleftrightarrow>
     (\<forall>(c, w)\<in>set obs. \<forall>v. utf8_decode c = Some v \<longrightarrow>
        is_safe_token (f v) alphabet \<and> int (length (f v)) \<le> w \<and> f v \<noteq> v \<and> \<not> token_occupied db d (f v))
     \<and> inj_on f {v. \<exists>(c, w)\<in>set obs. utf8_decode c = Some v}"

text \<open>What pass 1 leaves in the spool: one row per value, each with the value's own encoding.\<close>

definition spool_ok :: "observations \<Rightarrow> bool" where
  "spool_ok obs \<longleftrightarrow> distinct (map fst obs) \<and> (\<forall>(c, w)\<in>set obs. 0 < w \<and> (\<exists>v. utf8_encode v = Some c))"

text \<open>Persisted rows that the current alphabet could have produced.\<close>

definition persisted_safe :: "pystr \<Rightarrow> string \<Rightarrow> database \<Rightarrow> bool" where
  "persisted_safe alphabet d db \<longleftrightarrow> text_domain_ok d db
     \<and> (\<forall>r\<in>set (text_rows_of d db). is_safe_token (cell_text (tr_pseudonym r)) alphabet
          \<and> tr_length r = SInt (int (length (cell_text (tr_pseudonym r)))))"

definition graph_ok :: "database \<Rightarrow> string \<Rightarrow> pystr \<Rightarrow> residual \<Rightarrow> bool" where
  "graph_ok db d alphabet g \<longleftrightarrow> distinct (map ro_value (res_originals g))
     \<and> (\<forall>x\<in>set (res_originals g). 1 \<le> ro_width x
          \<and> ro_own x = (if is_safe_token (ro_value x) alphabet \<and> length (ro_value x) \<le> ro_width x
                          \<and> \<not> token_occupied db d (ro_value x) then Some (ro_value x) else None))
     \<and> res_tokens g = reserved_tokens (res_originals g)"

section \<open>Capacity of a length class\<close>

definition free_of_length :: "database \<Rightarrow> string \<Rightarrow> pystr \<Rightarrow> res_token list \<Rightarrow> nat \<Rightarrow> pystr set" where
  "free_of_length db d alphabet ts l =
     {t. is_safe_token t alphabet \<and> length t = l \<and> \<not> token_occupied db d t \<and> t \<notin> rt_value ` set ts}"

lemma card_safe_tokens:
  assumes "distinct a" and "1 \<le> l"
  shows "card {t. is_safe_token t a \<and> length t = l} = length a ^ l"
    and "finite {t. is_safe_token t a \<and> length t = l}"
proof -
  have "{t. is_safe_token t a \<and> length t = l} = {t. set t \<subseteq> set a \<and> length t = l}"
    using assms(2) by (auto simp: is_safe_token_iff)
  then show "card {t. is_safe_token t a \<and> length t = l} = length a ^ l"
    and "finite {t. is_safe_token t a \<and> length t = l}"
    using assms(1) by (simp_all add: card_lists_length_eq distinct_card finite_lists_length_eq)
qed

lemma token_occupied_iff:
  assumes "text_domain_ok d db"
  shows "token_occupied db d t \<longleftrightarrow> t \<in> snd ` set (text_assoc d db)"
proof -
  have "\<forall>r\<in>set (text_rows_of d db). \<exists>y. tr_pseudonym r = SText y"
    using assms by (auto simp: text_domain_ok_def text_row_ok_def)
  then show ?thesis
    by (force simp: token_occupied_def list_ex_iff text_assoc_def text_rows_of_def)
qed

lemma occupied_rows:
  assumes "persisted_safe a d db"
  shows "occupied_by_length db d l = int (length (filter (\<lambda>r. length (cell_text (tr_pseudonym r)) = l) (text_rows_of d db)))"
proof -
  let ?rows = "text_rows_of d db" and ?p = "\<lambda>r. cell_text (tr_pseudonym r)"
  have "filter (\<lambda>r. tr_domain r = d \<and> tr_length r = SInt (int l)) (text_mappings_tbl db)
      = filter (\<lambda>r. tr_length r = SInt (int l)) ?rows"
    by (simp add: text_rows_of_def conj_commute)
  also have "\<dots> = filter (\<lambda>r. length (?p r) = l) ?rows"
    using assms by (intro filter_cong) (auto simp: persisted_safe_def)
  finally show ?thesis by (simp add: occupied_by_length_def)
qed

lemma occupied_card:
  assumes "persisted_safe a d db"
  shows "occupied_by_length db d l = int (card {t. token_occupied db d t \<and> length t = l})"
proof -
  let ?rows = "text_rows_of d db" and ?p = "\<lambda>r. cell_text (tr_pseudonym r)"
  have ok: "text_domain_ok d db" using assms by (simp add: persisted_safe_def)
  have "occupied_by_length db d l = int (length (filter (\<lambda>t. length t = l) (map ?p ?rows)))"
    by (simp add: occupied_rows [OF assms] filter_map comp_def)
  moreover have "distinct (map ?p ?rows)"
    using ok by (simp add: text_domain_ok_def text_assoc_def comp_def)
  then have "card (set (filter (\<lambda>t. length t = l) (map ?p ?rows))) = length (filter (\<lambda>t. length t = l) (map ?p ?rows))"
    by (intro distinct_card distinct_filter)
  moreover have "set (filter (\<lambda>t. length t = l) (map ?p ?rows)) = {t. token_occupied db d t \<and> length t = l}"
    by (force simp: token_occupied_iff [OF ok] text_assoc_def)
  ultimately show ?thesis by simp
qed

lemma card_free_of_length:
  assumes "persisted_safe a d db" and "distinct a" and "1 \<le> l"
    and "distinct (map rt_value ts)"
    and "\<forall>x\<in>set ts. is_safe_token (rt_value x) a \<and> \<not> token_occupied db d (rt_value x)"
  shows "int (card (free_of_length db d a ts l))
      = class_size (int (length a)) l - occupied_by_length db d l - reserved_by_length ts l"
    and "finite (free_of_length db d a ts l)"
proof -
  let ?A = "{t. is_safe_token t a \<and> length t = l}"
  let ?O = "{t. token_occupied db d t \<and> length t = l}"
  let ?R = "set (filter (\<lambda>t. length t = l) (map rt_value ts))"
  note A = card_safe_tokens [OF assms(2,3)]
  have ok: "text_domain_ok d db" using assms(1) by (simp add: persisted_safe_def)
  have eq: "free_of_length db d a ts l = ?A - (?O \<union> ?R)" by (auto simp: free_of_length_def)
  have safe: "is_safe_token (cell_text (tr_pseudonym r)) a" if "r \<in> set (text_rows_of d db)" for r
    using assms(1) that by (simp add: persisted_safe_def)
  have O: "?O \<subseteq> ?A" using safe by (auto simp: token_occupied_iff [OF ok] text_assoc_def)
  moreover have R: "?R \<subseteq> ?A" "?O \<inter> ?R = {}" using assms(5) by auto
  ultimately have OR: "?O \<union> ?R \<subseteq> ?A" by blast
  have fin: "finite ?O" "finite ?R" using O A(2) finite_subset by blast+
  have "card ?R = length (filter (\<lambda>t. length t = l) (map rt_value ts))"
    using assms(4) by (intro distinct_card) simp
  then have Rc: "int (card ?R) = reserved_by_length ts l"
    by (simp add: reserved_by_length_def filter_map comp_def)
  have "card (?A - (?O \<union> ?R)) = card ?A - card (?O \<union> ?R)"
    using fin OR by (intro card_Diff_subset) auto
  moreover have "card (?O \<union> ?R) = card ?O + card ?R" using fin R(2) by (rule card_Un_disjoint)
  moreover have "card (?O \<union> ?R) \<le> card ?A" using OR A(2) by (rule card_mono [rotated])
  ultimately show "int (card (free_of_length db d a ts l))
      = class_size (int (length a)) l - occupied_by_length db d l - reserved_by_length ts l"
    unfolding eq using A(1) Rc occupied_card [OF assms(1), of l] by (simp add: class_size_def)
  show "finite (free_of_length db d a ts l)" unfolding eq using A(2) by simp
qed

section \<open>What the construction builds\<close>

lemma spool_decode: "spool_ok obs \<Longrightarrow> (c, w) \<in> set obs \<Longrightarrow> \<exists>v. utf8_encode v = Some c \<and> utf8_decode c = Some v"
  unfolding spool_ok_def using utf8_roundtrip by fastforce

lemma spool_decode_inj:
  assumes "spool_ok obs" and "(c, w) \<in> set obs" and "(c', w') \<in> set obs" and "utf8_decode c = utf8_decode c'"
  shows "c = c' \<and> w = w'"
proof -
  obtain v v' where "utf8_encode v = Some c" "utf8_decode c = Some v" "utf8_encode v' = Some c'" "utf8_decode c' = Some v'"
    using spool_decode [OF assms(1)] assms(2,3) by metis
  then have "c = c'" using assms(4) by simp
  moreover have "distinct (map fst obs)" using assms(1) by (simp add: spool_ok_def)
  ultimately show ?thesis using assms(2,3) by (metis eq_key_imp_eq_value)
qed

definition original_of :: "database \<Rightarrow> string \<Rightarrow> pystr \<Rightarrow> bytes \<times> int \<Rightarrow> res_original" where
  "original_of db d alphabet row =
     (let v = the (utf8_decode (fst row))
      in \<lparr>ro_width = nat (snd row), ro_value = v,
           ro_own = (if is_safe_token v alphabet \<and> int (length v) \<le> snd row \<and> \<not> token_occupied db d v
                     then Some v else None)\<rparr>)"

definition spool_originals :: "database \<Rightarrow> string \<Rightarrow> pystr \<Rightarrow> observations \<Rightarrow> res_original list" where
  "spool_originals db d alphabet obs = map (original_of db d alphabet) (sort_key (\<lambda>(c, w). (w, c)) obs)"

lemma build_graph_eq:
  assumes "spool_ok obs"
  shows "build_residual_graph db d alphabet base obs =
     (let os = spool_originals db d alphabet obs
      in Inr \<lparr>res_originals = os, res_tokens = reserved_tokens os, res_caps = initial_caps db d base os,
             res_assign = replicate (length os) None, res_visited = [], res_dfs = []\<rparr>)"
proof -
  have "mapE (build_original db d alphabet) (sort_key (\<lambda>(c, w). (w, c)) obs) = Inr (spool_originals db d alphabet obs)"
    unfolding spool_originals_def
  proof (rule mapE_total, rule ballI)
    fix row assume row: "row \<in> set (sort_key (\<lambda>(c, w). (w, c)) obs)"
    obtain c w where [simp]: "row = (c, w)" by (cases row)
    have "(c, w) \<in> set obs" using row by simp
    then show "build_original db d alphabet row = Inr (original_of db d alphabet row)"
      using spool_decode [OF assms] assms
      by (force simp: build_original_def original_of_def spool_ok_def Let_def)
  qed
  then show ?thesis by (simp add: build_residual_graph_def Let_def)
qed

lemma set_spool_originals:
  "set (spool_originals db d alphabet obs) = original_of db d alphabet ` set obs"
  by (simp add: spool_originals_def)

lemma spool_graph_ok:
  assumes "spool_ok obs" and "res_originals g = spool_originals db d alphabet obs"
    and "res_tokens g = reserved_tokens (res_originals g)"
  shows "graph_ok db d alphabet g"
proof -
  let ?s = "sort_key (\<lambda>(c, w). (w, c)) obs"
  have "distinct obs" using assms(1) by (auto simp: spool_ok_def distinct_map)
  moreover have "inj_on (\<lambda>row. the (utf8_decode (fst row))) (set obs)"
  proof (rule inj_onI)
    fix x y assume xy: "x \<in> set obs" "y \<in> set obs" "the (utf8_decode (fst x)) = the (utf8_decode (fst y))"
    obtain c w c' w' where [simp]: "x = (c, w)" "y = (c', w')" by (cases x; cases y)
    have "utf8_decode c = utf8_decode c'"
      using xy spool_decode [OF assms(1), of c w] spool_decode [OF assms(1), of c' w'] by auto
    then show "x = y" using spool_decode_inj [OF assms(1), of c w c' w'] xy by simp
  qed
  ultimately have "distinct (map (\<lambda>row. the (utf8_decode (fst row))) ?s)" by (simp add: distinct_map)
  then have "distinct (map ro_value (res_originals g))"
    by (simp add: assms(2) spool_originals_def original_of_def comp_def Let_def)
  moreover have "1 \<le> ro_width x \<and> ro_own x = (if is_safe_token (ro_value x) alphabet
      \<and> length (ro_value x) \<le> ro_width x \<and> \<not> token_occupied db d (ro_value x) then Some (ro_value x) else None)"
    if x: "x \<in> set (res_originals g)" for x
  proof -
    obtain c w where "(c, w) \<in> set obs" "x = original_of db d alphabet (c, w)"
      using x by (auto simp: assms(2) set_spool_originals)
    moreover have "0 < w" using assms(1) calculation(1) by (auto simp: spool_ok_def)
    ultimately show ?thesis by (auto simp: original_of_def Let_def)
  qed
  ultimately show ?thesis by (simp add: graph_ok_def assms(3))
qed

lemma text_plan_iff:
  assumes "spool_ok obs"
  shows "text_plan db d alphabet obs f \<longleftrightarrow>
     (\<forall>x\<in>set (spool_originals db d alphabet obs). is_safe_token (f (ro_value x)) alphabet
        \<and> length (f (ro_value x)) \<le> ro_width x \<and> f (ro_value x) \<noteq> ro_value x \<and> \<not> token_occupied db d (f (ro_value x)))
     \<and> inj_on f (ro_value ` set (spool_originals db d alphabet obs))"
proof -
  have v: "utf8_decode c = Some v \<longleftrightarrow> v = the (utf8_decode c)" if "(c, w) \<in> set obs" for c w v
    using spool_decode [OF assms that] by auto
  have w: "int n \<le> w \<longleftrightarrow> n \<le> nat w" if "(c, w) \<in> set obs" for c w n
    using assms that by (auto simp: spool_ok_def)
  have "{v. \<exists>(c, w)\<in>set obs. utf8_decode c = Some v} = ro_value ` set (spool_originals db d alphabet obs)"
    using v by (force simp: set_spool_originals original_of_def Let_def)
  then show ?thesis
    unfolding text_plan_def set_spool_originals ball_simps
    by (auto simp: original_of_def Let_def v w)
qed

lemma length_spool_originals [simp]: "length (spool_originals db d alphabet obs) = length obs"
  by (simp add: spool_originals_def)

section \<open>Reserved tokens\<close>

lemma reserved_tokens_conv:
  "reserved_tokens os = map (\<lambda>i. \<lparr>rt_value = the (ro_own (os ! i)), rt_owner = i\<rparr>)
     (filter (\<lambda>i. ro_own (os ! i) \<noteq> None) [0..<length os])"
proof -
  have "List.map_filter (\<lambda>i. map_option (\<lambda>v. \<lparr>rt_value = v, rt_owner = i\<rparr>) (ro_own (os ! i))) is
      = map (\<lambda>i. \<lparr>rt_value = the (ro_own (os ! i)), rt_owner = i\<rparr>) (filter (\<lambda>i. ro_own (os ! i) \<noteq> None) is)" for "is"
    by (induction "is") (auto simp: List.map_filter_simps split: option.splits)
  then show ?thesis by (simp add: reserved_tokens_def)
qed

lemma reserved_token_owner:
  assumes "x \<in> set (reserved_tokens os)"
  shows "rt_owner x < length os" and "ro_own (os ! rt_owner x) = Some (rt_value x)"
  using assms by (auto simp: reserved_tokens_conv)

lemma own_reserved:
  assumes "i < length os" and "ro_own (os ! i) = Some v"
  shows "\<lparr>rt_value = v, rt_owner = i\<rparr> \<in> set (reserved_tokens os)"
  using assms by (force simp: reserved_tokens_conv)

lemma graph_own:
  assumes "graph_ok db d alphabet g" and "i < length (res_originals g)" and "ro_own (res_originals g ! i) = Some v"
  shows "v = ro_value (res_originals g ! i)" and "is_safe_token v alphabet"
    and "length v \<le> ro_width (res_originals g ! i)" and "\<not> token_occupied db d v"
proof -
  have "ro_own (res_originals g ! i) = (if is_safe_token (ro_value (res_originals g ! i)) alphabet
      \<and> length (ro_value (res_originals g ! i)) \<le> ro_width (res_originals g ! i)
      \<and> \<not> token_occupied db d (ro_value (res_originals g ! i)) then Some (ro_value (res_originals g ! i)) else None)"
    using assms(1,2) unfolding graph_ok_def by (meson nth_mem)
  then show "v = ro_value (res_originals g ! i)" "is_safe_token v alphabet"
    "length v \<le> ro_width (res_originals g ! i)" "\<not> token_occupied db d v"
    using assms(3) by (auto split: if_splits)
qed

lemma graph_value_inj:
  assumes "graph_ok db d alphabet g" and "i < length (res_originals g)" and "j < length (res_originals g)"
  shows "ro_value (res_originals g ! i) = ro_value (res_originals g ! j) \<longleftrightarrow> i = j"
  using assms nth_eq_iff_index_eq [of "map ro_value (res_originals g)" i j] by (simp add: graph_ok_def)

lemma graph_tokens:
  assumes "graph_ok db d alphabet g"
  shows "distinct (map rt_value (res_tokens g))"
    and "\<forall>x\<in>set (res_tokens g). is_safe_token (rt_value x) alphabet \<and> \<not> token_occupied db d (rt_value x)"
proof -
  let ?os = "res_originals g" and ?is = "filter (\<lambda>i. ro_own (res_originals g ! i) \<noteq> None) [0..<length (res_originals g)]"
  have ts: "res_tokens g = reserved_tokens ?os" using assms by (simp add: graph_ok_def)
  have "map rt_value (res_tokens g) = map (\<lambda>i. ro_value (?os ! i)) ?is"
    unfolding ts reserved_tokens_conv using graph_own(1) [OF assms] by auto
  moreover have "distinct (map (\<lambda>i. ro_value (?os ! i)) ?is)"
    by (auto simp: distinct_map inj_on_def graph_value_inj [OF assms])
  ultimately show "distinct (map rt_value (res_tokens g))" by simp
  show "\<forall>x\<in>set (res_tokens g). is_safe_token (rt_value x) alphabet \<and> \<not> token_occupied db d (rt_value x)"
    unfolding ts using reserved_token_owner graph_own [OF assms] by fast
qed

section \<open>Matchings and plans\<close>

lemma max_width_ge: "x \<in> set os \<Longrightarrow> ro_width x \<le> max_width os"
proof -
  have "k \<le> foldl (\<lambda>m x. if ro_width x > m then ro_width x else m) k os
      \<and> (\<forall>x\<in>set os. ro_width x \<le> foldl (\<lambda>m x. if ro_width x > m then ro_width x else m) k os)" for k
    by (induction os arbitrary: k) (auto intro: order_trans less_imp_le simp: not_less)
  then show "x \<in> set os \<Longrightarrow> ro_width x \<le> max_width os" by (simp add: max_width_def)
qed

lemma initial_caps_nth:
  assumes "1 \<le> l" and "l \<le> max_width os"
  shows "initial_caps db d base os ! (l - 1) =
      stored_capacity (class_size base l - occupied_by_length db d l - reserved_by_length (reserved_tokens os) l)"
  using assms nth_upt [of 1 "l - 1" "Suc (max_width os)"] by (simp add: initial_caps_def del: upt_Suc)

lemma slots_class:
  assumes "graph_ok db d a g" and "persisted_safe a d db" and "distinct a" and "1 \<le> l" and "l \<le> max_width (res_originals g)"
  shows "slots (initial_caps db d (int (length a)) (res_originals g)) (ClassR l)
    = min (card (free_of_length db d a (res_tokens g) l)) (nat SQLITE_INT64_MAX)"
    and "0 \<le> initial_caps db d (int (length a)) (res_originals g) ! (l - 1)"
proof -
  have "int (card (free_of_length db d a (res_tokens g) l)) = class_size (int (length a)) l
      - occupied_by_length db d l - reserved_by_length (reserved_tokens (res_originals g)) l"
    using card_free_of_length(1) [OF assms(2,3,4) graph_tokens [OF assms(1)]] assms(1) by (simp add: graph_ok_def)
  moreover note initial_caps_nth [OF assms(4,5), of db d "int (length a)"]
  ultimately have c: "initial_caps db d (int (length a)) (res_originals g) ! (l - 1)
      = stored_capacity (int (card (free_of_length db d a (res_tokens g) l)))" by simp
  then show "0 \<le> initial_caps db d (int (length a)) (res_originals g) ! (l - 1)"
    by (simp add: stored_capacity_def SQLITE_INT64_MAX_def)
  have "length (initial_caps db d (int (length a)) (res_originals g)) = max_width (res_originals g)"
    by (simp add: initial_caps_def)
  then show "slots (initial_caps db d (int (length a)) (res_originals g)) (ClassR l)
    = min (card (free_of_length db d a (res_tokens g) l)) (nat SQLITE_INT64_MAX)"
    using assms(4,5) c by (auto simp: slots_def stored_capacity_def min_def)
qed

text \<open>The resource a plan uses for an original: the named token it picks, or else that token's class.\<close>

definition plan_resource :: "residual \<Rightarrow> (nat \<Rightarrow> pystr) \<Rightarrow> nat \<Rightarrow> resource" where
  "plan_resource g p i =
     (case find (\<lambda>t. rt_value (res_tokens g ! t) = p i) [0..<length (res_tokens g)] of
        Some t \<Rightarrow> TokenR t | None \<Rightarrow> ClassR (length (p i)))"

definition index_plan :: "database \<Rightarrow> string \<Rightarrow> pystr \<Rightarrow> residual \<Rightarrow> (nat \<Rightarrow> pystr) \<Rightarrow> bool" where
  "index_plan db d a g p \<longleftrightarrow> inj_on p {..<length (res_originals g)}
     \<and> (\<forall>i < length (res_originals g). is_safe_token (p i) a \<and> length (p i) \<le> ro_width (res_originals g ! i)
          \<and> p i \<noteq> ro_value (res_originals g ! i) \<and> \<not> token_occupied db d (p i))"

lemma plan_resource_cases:
  obtains (token) t where "plan_resource g p i = TokenR t" "t < length (res_tokens g)" "rt_value (res_tokens g ! t) = p i"
  | (cls) "plan_resource g p i = ClassR (length (p i))" "p i \<notin> rt_value ` set (res_tokens g)"
proof (cases "find (\<lambda>t. rt_value (res_tokens g ! t) = p i) [0..<length (res_tokens g)]")
  case None
  then have "p i \<notin> rt_value ` set (res_tokens g)" by (auto simp: find_None_iff in_set_conv_nth)
  then show thesis using None cls by (simp add: plan_resource_def)
next
  case (Some t)
  then have "t < length (res_tokens g)" "rt_value (res_tokens g ! t) = p i" by (auto dest: find_Some_set)
  then show thesis using token Some by (simp add: plan_resource_def)
qed

lemma plan_gives_matching:
  assumes g: "graph_ok db d a g" and "persisted_safe a d db" and "distinct a"
    and n: "int (length (res_originals g)) \<le> SQLITE_INT64_MAX" and p: "index_plan db d a g p"
  shows "complete_matching (initial_caps db d (int (length a)) (res_originals g)) g {..<length (res_originals g)} (plan_resource g p)"
proof -
  let ?n = "length (res_originals g)" and ?m = "plan_resource g p" and ?C = "initial_caps db d (int (length a)) (res_originals g)"
  have P: "is_safe_token (p i) a" "length (p i) \<le> ro_width (res_originals g ! i)"
    "p i \<noteq> ro_value (res_originals g ! i)" "\<not> token_occupied db d (p i)" if "i < ?n" for i
    using p that by (auto simp: index_plan_def)
  have len: "1 \<le> length (p i)" if "i < ?n" for i using P(1) [OF that] by (cases "p i") (auto simp: is_safe_token_def)
  have inj: "inj_on p {..<?n}" using p by (simp add: index_plan_def)
  have "allowed g i (?m i)" if i: "i < ?n" for i
  proof (cases rule: plan_resource_cases [of g p i])
    case (token t)
    have own: "rt_owner (res_tokens g ! t) < ?n" "ro_own (res_originals g ! rt_owner (res_tokens g ! t)) = Some (p i)"
      using reserved_token_owner [of "res_tokens g ! t" "res_originals g"] token g by (auto simp: graph_ok_def)
    then have "p i = ro_value (res_originals g ! rt_owner (res_tokens g ! t))" using graph_own(1) [OF g] by simp
    then have "rt_owner (res_tokens g ! t) \<noteq> i" using P(3) [OF i] by auto
    moreover have "ro_own (res_originals g ! i) \<noteq> Some (p i)" using graph_own(1) [OF g i] P(3) [OF i] by blast
    ultimately show ?thesis
      using token P(2) [OF i] by (auto simp: allowed_def token_edge_def split: option.splits)
  next
    case cls
    then show ?thesis using P(2) [OF i] len [OF i] by (simp add: allowed_def)
  qed
  moreover have "card {i \<in> {..<?n}. ?m i = r} \<le> slots ?C r" for r
  proof (cases r)
    case (TokenR t)
    have "p i = rt_value (res_tokens g ! t)" if "?m i = r" for i
      using that TokenR by (cases rule: plan_resource_cases [of g p i]) auto
    then have "\<forall>i\<in>{i \<in> {..<?n}. ?m i = r}. \<forall>j\<in>{i \<in> {..<?n}. ?m i = r}. i = j"
      using inj by (auto simp: inj_on_def)
    then have "card {i \<in> {..<?n}. ?m i = r} \<le> Suc 0" by (subst card_le_Suc0_iff_eq) auto
    then show ?thesis by (simp add: slots_def TokenR)
  next
    case (ClassR l)
    let ?H = "{i \<in> {..<?n}. ?m i = r}" and ?F = "free_of_length db d a (res_tokens g) l"
    show ?thesis
    proof (cases "?H = {}")
      case False
      have H: "p i \<in> ?F" if "i \<in> ?H" for i
        using that P ClassR by (cases rule: plan_resource_cases [of g p i]) (auto simp: free_of_length_def)
      obtain i where i: "i \<in> ?H" using False by blast
      have l: "1 \<le> l" "l \<le> max_width (res_originals g)"
        using H [OF i] i len [of i] P(2) [of i] max_width_ge [OF nth_mem, of i "res_originals g"]
        by (auto simp: free_of_length_def)
      have fin: "finite ?F" using card_free_of_length(2) [OF assms(2,3) l(1) graph_tokens [OF g]] .
      have "card ?H = card (p ` ?H)" using inj by (intro card_image [symmetric]) (auto intro: inj_on_subset)
      also have "\<dots> \<le> card ?F" using fin H by (intro card_mono) auto
      finally have "card ?H \<le> card ?F" .
      moreover have "card ?H \<le> ?n" using card_mono [of "{..<?n}" ?H] by auto
      then have "card ?H \<le> nat SQLITE_INT64_MAX" using n by linarith
      ultimately show ?thesis using slots_class(1) [OF g assms(2,3) l] ClassR by simp
    next
      case True
      then show ?thesis by (metis card.empty le0)
    qed
  qed
  ultimately show ?thesis by (simp add: complete_matching_def)
qed

text \<open>Any token of the allowed resource suits the original: it cannot be its own value.\<close>

lemma resource_token_ok:
  assumes g: "graph_ok db d a g" and i: "i < length (res_originals g)" and "allowed g i r"
  shows "case r of
      ClassR l \<Rightarrow> (\<forall>t\<in>free_of_length db d a (res_tokens g) l. is_safe_token t a
        \<and> length t \<le> ro_width (res_originals g ! i) \<and> t \<noteq> ro_value (res_originals g ! i) \<and> \<not> token_occupied db d t)
    | TokenR t \<Rightarrow> is_safe_token (rt_value (res_tokens g ! t)) a
        \<and> length (rt_value (res_tokens g ! t)) \<le> ro_width (res_originals g ! i)
        \<and> rt_value (res_tokens g ! t) \<noteq> ro_value (res_originals g ! i) \<and> \<not> token_occupied db d (rt_value (res_tokens g ! t))"
proof (cases r)
  case (ClassR l)
  let ?o = "res_originals g ! i"
  have "t \<noteq> ro_value ?o" if t: "t \<in> free_of_length db d a (res_tokens g) l" for t
  proof
    assume eq: "t = ro_value ?o"
    have "ro_own ?o = Some t" using g t nth_mem [OF i] assms(3) ClassR
      by (auto simp: graph_ok_def free_of_length_def allowed_def eq)
    then have "t \<in> rt_value ` set (res_tokens g)" using own_reserved [OF i] g by (force simp: graph_ok_def)
    then show False using t by (simp add: free_of_length_def)
  qed
  then show ?thesis using assms(3) ClassR by (auto simp: free_of_length_def allowed_def)
next
  case (TokenR t)
  let ?x = "res_tokens g ! t"
  have t: "?x \<in> set (res_tokens g)" and edge: "rt_owner ?x \<noteq> i" "length (rt_value ?x) \<le> ro_width (res_originals g ! i)"
    using assms(3) TokenR by (auto simp: allowed_def token_edge_def)
  have own: "rt_owner ?x < length (res_originals g)" "ro_own (res_originals g ! rt_owner ?x) = Some (rt_value ?x)"
    using reserved_token_owner [of ?x "res_originals g"] t g by (auto simp: graph_ok_def)
  then have "rt_value ?x \<noteq> ro_value (res_originals g ! i)"
    using graph_own(1) [OF g own] graph_value_inj [OF g own(1) i] edge(1) by auto
  then show ?thesis using edge graph_tokens(2) [OF g] t TokenR by auto
qed

text \<open>Conversely a matching within the capacities can be given tokens, class by class.\<close>

lemma matching_gives_plan:
  assumes g: "graph_ok db d a g" and "persisted_safe a d db" and "distinct a"
    and m: "complete_matching (initial_caps db d (int (length a)) (res_originals g)) g {..<length (res_originals g)} m"
  shows "\<exists>p. index_plan db d a g p"
proof -
  let ?n = "length (res_originals g)" and ?C = "initial_caps db d (int (length a)) (res_originals g)"
  let ?F = "free_of_length db d a (res_tokens g)" and ?H = "\<lambda>l. {i \<in> {..<?n}. m i = ClassR l}"
  have all: "allowed g i (m i)" if "i < ?n" for i using m that by (simp add: complete_matching_def)
  have "\<exists>h. inj_on h (?H l) \<and> h ` ?H l \<subseteq> ?F l" for l
  proof (cases "?H l = {}")
    case False
    then obtain i where i: "i < ?n" "m i = ClassR l" by blast
    have l: "1 \<le> l" "l \<le> max_width (res_originals g)"
      using all [OF i(1)] i max_width_ge [OF nth_mem, of i "res_originals g"] by (auto simp: allowed_def)
    have "card (?H l) \<le> slots ?C (ClassR l)" using m by (simp add: complete_matching_def)
    then have "card (?H l) \<le> card (?F l)" using slots_class(1) [OF g assms(2,3) l] by simp
    moreover have "finite (?F l)" using card_free_of_length(2) [OF assms(2,3) l(1) graph_tokens [OF g]] .
    ultimately show ?thesis using card_le_inj [of "?H l" "?F l"] by auto
  qed (metis image_empty inj_on_empty empty_subsetI)
  then have "\<exists>h. \<forall>l. inj_on (h l) (?H l) \<and> h l ` ?H l \<subseteq> ?F l" by (rule choice [OF allI])
  then obtain h where h: "\<And>l. inj_on (h l) (?H l) \<and> h l ` ?H l \<subseteq> ?F l" by blast
  let ?p = "\<lambda>i. case m i of ClassR l \<Rightarrow> h l i | TokenR t \<Rightarrow> rt_value (res_tokens g ! t)"
  have pc: "h l i \<in> ?F l" if "i < ?n" "m i = ClassR l" for i l using h [of l] that by auto
  have pt: "t < length (res_tokens g)" "rt_value (res_tokens g ! t) \<in> rt_value ` set (res_tokens g)"
    if "i < ?n" "m i = TokenR t" for i t using all [OF that(1)] that(2) by (auto simp: allowed_def)
  have once: "i = j" if "i < ?n" "j < ?n" "m i = TokenR t" "m j = TokenR t" for i j t
  proof -
    have "card {i \<in> {..<?n}. m i = TokenR t} \<le> slots ?C (TokenR t)" using m by (simp add: complete_matching_def)
    then have "card {i \<in> {..<?n}. m i = TokenR t} \<le> Suc 0" by (simp add: slots_def)
    then show "i = j" using that by (subst (asm) card_le_Suc0_iff_eq) auto
  qed
  have inj: "inj_on ?p {..<?n}"
  proof (rule inj_onI)
    fix i j assume ij: "i \<in> {..<?n}" "j \<in> {..<?n}" and eq: "?p i = ?p j"
    show "i = j"
    proof (cases "m i")
      case i: (ClassR l)
      show ?thesis
      proof (cases "m j")
        case j: (ClassR l')
        have "l = l'" using pc [of i l] pc [of j l'] i j ij eq by (auto simp: free_of_length_def)
        then show ?thesis using h [of l] i j ij eq by (auto simp: inj_on_def)
      next
        case j: (TokenR t)
        then show ?thesis using pc [of i l] pt(2) [of j t] i ij eq by (auto simp: free_of_length_def)
      qed
    next
      case i: (TokenR t)
      show ?thesis
      proof (cases "m j")
        case j: (ClassR l)
        then show ?thesis using pc [of j l] pt(2) [of i t] i ij eq by (auto simp: free_of_length_def)
      next
        case j: (TokenR t')
        have "t = t'"
          using nth_eq_iff_index_eq [OF graph_tokens(1) [OF g], of t t'] pt(1) [of i t] pt(1) [of j t'] i j ij eq by simp
        then show ?thesis using once i j ij by auto
      qed
    qed
  qed
  moreover have "is_safe_token (?p i) a \<and> length (?p i) \<le> ro_width (res_originals g ! i)
      \<and> ?p i \<noteq> ro_value (res_originals g ! i) \<and> \<not> token_occupied db d (?p i)" if i: "i < ?n" for i
  proof (cases "m i")
    case (ClassR l)
    then show ?thesis using resource_token_ok [OF g i all [OF i]] pc [OF i ClassR] by simp
  next
    case (TokenR t)
    then show ?thesis using resource_token_ok [OF g i all [OF i]] by simp
  qed
  ultimately show ?thesis unfolding index_plan_def by blast
qed

section \<open>The classes in use are short\<close>

lemma sum_filter_length: "(\<Sum>l = 1..n. length (filter (\<lambda>x. h x = l) xs)) \<le> length xs" for h :: "'a \<Rightarrow> nat"
proof (induction xs)
  case (Cons x xs)
  have "(\<Sum>l = 1..n. length (filter (\<lambda>x. h x = l) (x # xs)))
      = (\<Sum>l = 1..n. (if h x = l then 1 else 0) + length (filter (\<lambda>x. h x = l) xs))" by (intro sum.cong) auto
  also have "\<dots> = (\<Sum>l = 1..n. if h x = l then 1 else 0) + (\<Sum>l = 1..n. length (filter (\<lambda>x. h x = l) xs))"
    by (rule sum.distrib)
  also have "\<dots> \<le> 1 + length xs" using Cons.IH by (intro add_mono) (auto simp: sum.delta)
  finally show ?case by simp
qed simp

lemma length_reserved_tokens: "length (reserved_tokens os) \<le> length os"
proof -
  have "length (List.map_filter f xs) \<le> length xs" for f :: "nat \<Rightarrow> res_token option" and xs
    by (induction xs) (auto simp: List.map_filter_simps split: option.splits)
  from this [of _ "[0..<length os]"] show ?thesis by (simp add: reserved_tokens_def)
qed

text \<open>
  A class is used only when the lower ones are full, so a vault and a spool of fewer than \<open>2 ^ 56\<close>
  rows never reach a class whose indices leave the INTEGER column of the exact walk.
\<close>

lemma lowest_class_small:
  assumes g: "graph_ok db d a g" and ps: "persisted_safe a d db" and a: "length a \<le> 36"
    and inv: "matching_inv (initial_caps db d (int (length a)) (res_originals g)) g"
    and i: "i < length (res_originals g)" "res_assign g ! i = Some (ClassR l)"
    and rows: "int (length (text_rows_of d db) + 2 * length (res_originals g)) < 2 ^ 56"
  shows "geometric (int (length a)) l \<le> 2 ^ 63"
proof -
  let ?b = "int (length a)" and ?A = "res_assign g" and ?os = "res_originals g"
  let ?C = "initial_caps db d ?b ?os" and ?H = "\<lambda>l. holders ?A (ClassR l)"
  let ?occ = "\<lambda>l. length (filter (\<lambda>r. length (cell_text (tr_pseudonym r)) = l) (text_rows_of d db))"
  let ?res = "\<lambda>l. length (filter (\<lambda>t. length (rt_value t) = l) (reserved_tokens ?os))"
  have len: "length ?A = length ?os" and C: "length ?C = max_width ?os" and low: "lowest_first ?C ?A"
    using inv by (simp_all add: matching_inv_def initial_caps_def)
  have l: "1 \<le> l" "l \<le> max_width ?os"
    using inv i len max_width_ge [OF nth_mem [OF i(1)]] by (auto simp: matching_inv_def allowed_def)
  have ne: "?H l \<noteq> {}" using i len by (auto simp: holders_def)
  have card_le: "(\<Sum>l\<in>{1..n}. card (?H l)) \<le> length ?os" for n
  proof -
    have "(\<Sum>l\<in>{1..n}. card (?H l)) = card (\<Union>l\<in>{1..n}. ?H l)"
      by (intro card_UN_disjoint [symmetric]) (auto simp: holders_def)
    also have "\<dots> \<le> card {..<length ?os}" by (intro card_mono) (auto simp: holders_def len)
    finally show ?thesis by simp
  qed
  have each: "?b ^ l' \<le> int (?occ l' + ?res l' + card (?H l'))" if l': "1 \<le> l'" "l' < l" for l'
  proof -
    have w: "l' \<le> max_width ?os" using l'(2) l(2) by simp
    have "card (?H l') \<le> card {..<length ?os}" by (intro card_mono) (auto simp: holders_def len)
    then have small: "int (card (?H l')) < SQLITE_INT64_MAX" using rows by (simp add: SQLITE_INT64_MAX_def)
    have "?C ! (l' - 1) \<le> int (card (?H l'))" using low ne l' w C by (simp add: lowest_first_def)
    then have "class_size ?b l' - occupied_by_length db d l' - reserved_by_length (reserved_tokens ?os) l' \<le> int (card (?H l'))"
      using small unfolding initial_caps_nth [OF l'(1) w] stored_capacity_def min_def by (auto split: if_splits)
    moreover have "occupied_by_length db d l' = int (?occ l')" by (rule occupied_rows [OF ps])
    ultimately show ?thesis by (simp add: class_size_def reserved_by_length_def)
  qed
  have "geometric ?b (l - 1) \<le> (\<Sum>l'\<in>{1..l - 1}. int (?occ l' + ?res l' + card (?H l')))"
    unfolding geometric_def using l(1) by (intro sum_mono each) auto
  also have "\<dots> = int ((\<Sum>l'\<in>{1..l - 1}. ?occ l') + (\<Sum>l'\<in>{1..l - 1}. ?res l') + (\<Sum>l'\<in>{1..l - 1}. card (?H l')))"
    by (simp add: sum.distrib)
  also have "\<dots> \<le> int (length (text_rows_of d db) + length ?os + length ?os)"
    using sum_filter_length [of "\<lambda>r. length (cell_text (tr_pseudonym r))" "text_rows_of d db" "l - 1"]
      sum_filter_length [of "\<lambda>t. length (rt_value t)" "reserved_tokens ?os" "l - 1"] card_le [of "l - 1"]
      length_reserved_tokens [of ?os] by linarith
  finally have "geometric ?b (l - 1) < 2 ^ 56" using rows by linarith
  then have "?b * geometric ?b (l - 1) \<le> 36 * 2 ^ 56" using a by (intro mult_mono geometric_nonneg) auto
  moreover have "geometric ?b l = ?b + ?b * geometric ?b (l - 1)" using geometric_shift [of ?b "l - 1"] l(1) by simp
  ultimately show ?thesis using a by simp
qed

section \<open>The solved assignment passes validation\<close>

lemma class_taken_holders: "class_taken g l = int (card (holders (res_assign g) (ClassR l)))"
proof -
  have "length (filter (\<lambda>x. x = Some (ClassR l)) A) = card (holders A (ClassR l))" for A
    by (simp add: holders_def length_filter_conv_card)
  then show ?thesis by (simp add: class_taken_def)
qed

lemma token_once_distinct:
  assumes "token_once A"
  shows "distinct (filter is_token A)"
proof -
  have "distinct (filter is_token (take n A))" for n
  proof (induction n)
    case (Suc n)
    show ?case
    proof (cases "n < length A \<and> is_token (A ! n)")
      case True
      then obtain t where t: "A ! n = Some (TokenR t)" by (auto elim: is_token.elims)
      have "card (holders A (TokenR t)) \<le> Suc 0" using assms by (simp add: token_once_def)
      then have "i = n" if "i < n" "A ! i = A ! n" for i
        using that True t by (subst (asm) card_le_Suc0_iff_eq) (auto simp: holders_def)
      then have "A ! n \<notin> set (take n A)" using True by (force simp: in_set_conv_nth)
      then show ?thesis using Suc True by (simp add: take_Suc_conv_app_nth)
    next
      case False
      then show ?thesis using Suc by (cases "n < length A") (simp_all add: take_Suc_conv_app_nth)
    qed
  qed simp
  from this [of "length A"] show ?thesis by simp
qed

lemma matching_inv_scratch: "matching_inv C g \<Longrightarrow> matching_inv C (g\<lparr>res_visited := vs, res_dfs := fs\<rparr>)"
proof -
  have "allowed (g\<lparr>res_visited := vs, res_dfs := fs\<rparr>) = allowed g" by (rule allowed_cong) simp_all
  moreover have "cap_of (g\<lparr>res_visited := vs, res_dfs := fs\<rparr>) = cap_of g" by (simp add: cap_of_def fun_eq_iff)
  ultimately show "matching_inv C g \<Longrightarrow> ?thesis" unfolding matching_inv_def by simp
qed

lemma matching_inv_complete:
  assumes "matching_inv C g" and "\<forall>i < length (res_originals g). res_assign g ! i \<noteq> None"
  shows "complete_matching C g {..<length (res_originals g)} (\<lambda>i. the (res_assign g ! i))"
proof -
  have "{i \<in> {..<length (res_originals g)}. the (res_assign g ! i) = r} = holders (res_assign g) r" for r
    using assms by (auto simp: holders_def matching_inv_def)
  then show ?thesis using assms by (auto simp: complete_matching_def matching_inv_def within_def)
qed

lemma validate_solved:
  assumes g: "graph_ok db d a g" and "persisted_safe a d db" and "distinct a"
    and inv: "matching_inv (initial_caps db d (int (length a)) (res_originals g)) g"
    and all: "\<forall>i < length (res_originals g). res_assign g ! i \<noteq> None"
  shows "validate_residual_assignment db d (int (length a)) g = Inr ()"
proof -
  let ?C = "initial_caps db d (int (length a)) (res_originals g)" and ?A = "res_assign g"
  have len: "length ?A = length (res_originals g)" "length (res_caps g) = length ?C"
    and C: "length ?C = max_width (res_originals g)" using inv by (simp_all add: matching_inv_def initial_caps_def)
  have every: "filter (\<lambda>x. x \<noteq> None) ?A = ?A" using all len(1) by (auto simp: filter_id_conv in_set_conv_nth)
  have row: "row_valid_assignment g i" if i: "i < length ?A" for i
  proof -
    obtain r where r: "?A ! i = Some r" using all i len(1) by auto
    then have "allowed g i r" using inv i by (auto simp: matching_inv_def)
    then show ?thesis using r by (auto simp: row_valid_assignment_def allowed_def token_edge_def split: resource.splits option.splits)
  qed
  have once: "token_once ?A" using matching_token_once [OF inv] .
  have dist: "distinct (filter is_token ?A)"
    using once by (rule token_once_distinct)
  have cap: "capacity_reconciles db d (int (length a)) g l" if l: "1 \<le> l" "l \<le> length (res_caps g)" for l
  proof -
    have l': "l \<le> max_width (res_originals g)" using l len C by simp
    have "cap_of g l = ?C ! (l - 1) - int (card (holders ?A (ClassR l)))" using inv l len by (simp add: matching_inv_def)
    then have "res_caps g ! (l - 1) = ?C ! (l - 1) - class_taken g l"
      using l by (simp add: cap_of_def class_taken_holders)
    moreover have "card (holders ?A (ClassR l)) \<le> slots ?C (ClassR l)" using inv by (simp add: matching_inv_def within_def)
    then have "class_taken g l \<le> ?C ! (l - 1)"
      using slots_class(2) [OF g assms(2,3) l(1) l'] l C l' by (simp add: class_taken_holders slots_def)
    moreover have "?C ! (l - 1) = stored_capacity (class_size (int (length a)) l - occupied_by_length db d l
        - reserved_by_length (res_tokens g) l)"
      using initial_caps_nth [OF l(1) l'] g by (simp add: graph_ok_def)
    ultimately show ?thesis by (simp add: capacity_reconciles_def Let_def)
  qed
  show ?thesis
    using every row dist cap len by (auto simp: validate_residual_assignment_def guardE_def list_all_iff simp del: upt_Suc)
qed

section \<open>Exactness of the solver\<close>

lemma solve_text_residual_spec:
  assumes "spool_ok obs" and "persisted_safe a d db" and "distinct a" and "int (length obs) \<le> SQLITE_INT64_MAX"
  shows "(\<exists>g. solve_text_residual db d a (int (length a)) obs = Inr g \<and> graph_ok db d a g
        \<and> res_originals g = spool_originals db d a obs
        \<and> matching_inv (initial_caps db d (int (length a)) (res_originals g)) g
        \<and> (\<forall>i < length (res_originals g). res_assign g ! i \<noteq> None) \<and> (\<exists>f. text_plan db d a obs f))
    \<or> (solve_text_residual db d a (int (length a)) obs = Inl (residual_failure ''ENGINE_TEXT_RESIDUAL_INFEASIBLE'')
        \<and> (\<nexists>f. text_plan db d a obs f))"
proof -
  let ?os = "spool_originals db d a obs" and ?b = "int (length a)"
  let ?C = "initial_caps db d ?b ?os"
  define g0 where "g0 = \<lparr>res_originals = ?os, res_tokens = reserved_tokens ?os, res_caps = ?C,
    res_assign = replicate (length ?os) None, res_visited = [], res_dfs = []\<rparr>"
  have build: "build_residual_graph db d a ?b obs = Inr g0"
    using build_graph_eq [OF assms(1)] by (simp add: g0_def Let_def)
  have g0: "graph_ok db d a g0" using assms(1) by (intro spool_graph_ok) (simp_all add: g0_def)
  have "holders (res_assign g0) r = {}" for r by (auto simp: g0_def holders_def)
  then have inv0: "matching_inv ?C g0" by (auto simp: matching_inv_def within_def lowest_first_def g0_def cap_of_def)
  have loop: "(\<exists>g'. solve_loop [0..<length ?os] g0 = Inr g' \<and> matching_inv ?C g' \<and> res_originals g' = ?os
        \<and> res_tokens g' = reserved_tokens ?os \<and> (\<forall>i < length ?os. res_assign g' ! i \<noteq> None))
    \<or> (solve_loop [0..<length ?os] g0 = Inl (residual_failure ''ENGINE_TEXT_RESIDUAL_INFEASIBLE'')
        \<and> (\<forall>m. \<not> complete_matching ?C g0 {..<length ?os} m))"
    using solve_loop_spec [OF inv0, of "[0..<length ?os]"] by (simp add: g0_def lessThan_atLeast0)
  have plan: "(\<exists>f. text_plan db d a obs f) \<longleftrightarrow> (\<exists>m. complete_matching ?C g0 {..<length ?os} m)"
  proof
    assume "\<exists>f. text_plan db d a obs f"
    then obtain f where f: "text_plan db d a obs f" ..
    have "inj_on (\<lambda>i. f (ro_value (?os ! i))) {..<length ?os}"
    proof (rule inj_onI)
      fix i j assume ij: "i \<in> {..<length ?os}" "j \<in> {..<length ?os}" "f (ro_value (?os ! i)) = f (ro_value (?os ! j))"
      have "inj_on f (ro_value ` set ?os)" using f by (simp add: text_plan_iff [OF assms(1)])
      then have "ro_value (?os ! i) = ro_value (?os ! j)" using ij by (auto dest: inj_onD)
      then show "i = j" using graph_value_inj [OF g0, of i j] ij by (simp add: g0_def)
    qed
    then have "index_plan db d a g0 (\<lambda>i. f (ro_value (?os ! i)))"
      using f by (simp add: text_plan_iff [OF assms(1)] index_plan_def g0_def)
    then show "\<exists>m. complete_matching ?C g0 {..<length ?os} m"
      using plan_gives_matching [OF g0 assms(2,3)] assms(4) by (auto simp: g0_def)
  next
    assume "\<exists>m. complete_matching ?C g0 {..<length ?os} m"
    then obtain p where p: "index_plan db d a g0 p"
      using matching_gives_plan [OF g0 assms(2,3)] by (auto simp: g0_def)
    let ?f = "\<lambda>v. p (the (find (\<lambda>i. ro_value (?os ! i) = v) [0..<length ?os]))"
    have "find (\<lambda>k. ro_value (?os ! k) = ro_value (?os ! i)) [0..<length ?os] = Some i" if i: "i < length ?os" for i
    proof -
      obtain k where k: "find (\<lambda>k. ro_value (?os ! k) = ro_value (?os ! i)) [0..<length ?os] = Some k"
        using i by (cases "find (\<lambda>k. ro_value (?os ! k) = ro_value (?os ! i)) [0..<length ?os]") (auto simp: find_None_iff)
      then show ?thesis using find_Some_set [OF k] graph_value_inj [OF g0, of k i] i by (auto simp: g0_def)
    qed
    then have fp: "?f (ro_value (?os ! i)) = p i" if "i < length ?os" for i using that by simp
    moreover have "i = j" if "p i = p j" "i < length ?os" "j < length ?os" for i j
      using p that by (auto simp: index_plan_def g0_def dest: inj_onD)
    ultimately have "inj_on ?f (ro_value ` set ?os)" by (fastforce simp: inj_on_def in_set_conv_nth)
    then have "text_plan db d a obs ?f"
      using p fp by (auto simp: text_plan_iff [OF assms(1)] index_plan_def g0_def in_set_conv_nth)
    then show "\<exists>f. text_plan db d a obs f" by blast
  qed
  from loop show ?thesis
  proof
    assume "\<exists>g'. solve_loop [0..<length ?os] g0 = Inr g' \<and> matching_inv ?C g' \<and> res_originals g' = ?os
        \<and> res_tokens g' = reserved_tokens ?os \<and> (\<forall>i < length ?os. res_assign g' ! i \<noteq> None)"
    then obtain g1 where g1: "solve_loop [0..<length ?os] g0 = Inr g1" "matching_inv ?C g1" "res_originals g1 = ?os"
      "res_tokens g1 = reserved_tokens ?os" "\<forall>i < length ?os. res_assign g1 ! i \<noteq> None" by blast
    let ?g = "g1\<lparr>res_visited := [], res_dfs := []\<rparr>"
    have g: "graph_ok db d a ?g" using assms(1) g1 by (intro spool_graph_ok) simp_all
    have inv: "matching_inv ?C ?g" using g1(2) by (rule matching_inv_scratch)
    have "complete_matching ?C g0 {..<length ?os} (\<lambda>i. the (res_assign g1 ! i))"
      using matching_inv_complete [OF g1(2)] g1 by (simp add: complete_matching_def g0_def allowed_cong [of g1 g0])
    then have "\<exists>f. text_plan db d a obs f" using plan by blast
    moreover have "validate_residual_assignment db d ?b ?g = Inr ()"
      using validate_solved [OF g assms(2,3)] inv g1 by simp
    ultimately show ?thesis using build g1 g inv by (simp add: solve_text_residual_def g0_def Let_def)
  next
    assume "solve_loop [0..<length ?os] g0 = Inl (residual_failure ''ENGINE_TEXT_RESIDUAL_INFEASIBLE'')
        \<and> (\<forall>m. \<not> complete_matching ?C g0 {..<length ?os} m)"
    then show ?thesis using build plan by (simp add: solve_text_residual_def g0_def)
  qed
qed

text \<open>
  C9. The residual solver decides the residual problem exactly. For observations as pass 1 leaves
  them and persisted rows of the same alphabet, \<open>solve_text_residual\<close> succeeds (its own validation
  included) exactly when some injective choice of free safe tokens within the widths moves every
  value, and otherwise it reports \<open>ENGINE_TEXT_RESIDUAL_INFEASIBLE\<close>, never a corrupt state.
\<close>

theorem residual_solver_exact:
  assumes "spool_ok obs" and "persisted_safe a d db" and "distinct a" and "int (length obs) \<le> SQLITE_INT64_MAX"
  shows "((\<exists>g. solve_text_residual db d a (int (length a)) obs = Inr g) \<longleftrightarrow> (\<exists>f. text_plan db d a obs f))
    \<and> (\<forall>e. solve_text_residual db d a (int (length a)) obs = Inl e
          \<longrightarrow> e = MappingError MAPPING_CAPACITY_EXHAUSTED ''ENGINE_TEXT_RESIDUAL_INFEASIBLE'')"
  using solve_text_residual_spec [OF assms] by (auto simp: residual_failure_def)

definition residual_sample :: database where
  "residual_sample = (committed transaction_sample)\<lparr>mapping_domains_tbl := [\<lparr>dr_id = ''text'', dr_kind = KIND_TEXT,
     dr_normalization = None, dr_role = None\<rparr>], text_mappings_tbl := [text_insert_row ''text'' 1 [80] [66]]\<rparr>"

lemma residual_sample_safe: "persisted_safe [65, 66, 67] ''text'' residual_sample"
  by (simp add: persisted_safe_def text_domain_ok_def text_rows_of_def residual_sample_def text_insert_row_def
      text_assoc_def text_row_ok_def has_domain_db_def is_safe_token_iff bindable_def utf8_char_def)

theorem residual_solver_exact_witness:
  "(\<exists>g. solve_text_residual residual_sample ''text'' [65, 66, 67] 3 [([65], 1), ([67], 1)] = Inr g)
   \<and> (\<exists>f. text_plan residual_sample ''text'' [65, 66, 67] [([65], 1), ([67], 1)] f)
   \<and> (\<nexists>f. text_plan residual_sample ''text'' [65, 66, 67] [([65], 1), ([67], 1), ([90], 1)] f)"
proof -
  have enc: "\<exists>v. utf8_encode v = Some [c]" if "c < 128" for c
    using that by (intro exI [of _ "[c]"]) (simp add: utf8_char_def)
  have sp: "spool_ok [([65], 1), ([67], 1)]" "spool_ok [([65], 1), ([67], 1), ([90], 1)]"
    using enc by (auto simp: spool_ok_def)
  have ok: "isl (solve_text_residual residual_sample ''text'' [65, 66, 67] 3 [([65], 1), ([67], 1)]) = False"
    "isl (solve_text_residual residual_sample ''text'' [65, 66, 67] 3 [([65], 1), ([67], 1), ([90], 1)])"
    by code_simp+
  have "\<exists>g. solve_text_residual residual_sample ''text'' [65, 66, 67] 3 [([65], 1), ([67], 1)] = Inr g"
    using ok(1) by (cases "solve_text_residual residual_sample ''text'' [65, 66, 67] 3 [([65], 1), ([67], 1)]") auto
  then show ?thesis
    using residual_solver_exact [OF sp(1) residual_sample_safe] residual_solver_exact [OF sp(2) residual_sample_safe]
      ok(2) by (auto simp: isl_def SQLITE_INT64_MAX_def)
qed

end
