(* ===== verification/Pass_Spool.thy ===== *)
theory Pass_Spool
  imports Text_Residual
begin

text \<open>
  The ephemeral spool of one engine run (\<^verbatim>\<open>src/src/dbf_anonymizer/engine/state.py\<close>): the bounded
  pending buffers of \<open>PassOneSpool\<close>, its SQLite tables as lists of rows keyed by their primary keys,
  the aggregate queries, and the worker-owned \<open>RelationEvidenceShard\<close> with its merge. The residual
  solver's tables are the spool's \<open>sp_graph\<close>. Opening, closing and unlinking the files is not
  modelled; no statement on an open spool fails.
\<close>

section \<open>Canonical identities\<close>

definition MAX_SQL_BATCH :: nat where "MAX_SQL_BATCH = 512"

definition canonical_text_identity :: "pystr \<Rightarrow> bytes result" where
  "canonical_text_identity v = (case utf8_encode v of None \<Rightarrow> Inl ValueError | Some b \<Rightarrow> Inr b)"

definition spool_failure :: "string \<Rightarrow> error" where
  "spool_failure detail = VaultError VAULT_STATE_INVALID (''ENGINE_SPOOL_'' @ detail)"

fun component_identity :: "pyval \<Rightarrow> bytes result" where
  "component_identity (VStr s) =
     bindE (canonical_text_identity s) (\<lambda>b. Inr (84 # nat_text (length b) @ 58 # b))"
| "component_identity (VInt i) = Inr (78 # nat_text (length (int_text i)) @ 124 # int_text i)"
| "component_identity _ = Inl (spool_failure ''KEY_COMPONENT_UNSUPPORTED'')"

definition canonical_composite_identity :: "pyval list \<Rightarrow> bytes result" where
  "canonical_composite_identity components =
     bindE (mapE component_identity components) (\<lambda>parts.
       Inr (nat_text (length components) @ concat (map (\<lambda>p. 0 # p) parts)))"

section \<open>Tables and upserts\<close>

text \<open>\<open>INSERT \<dots> ON CONFLICT(key) DO UPDATE\<close>: a new key is appended, a known one merged in place.\<close>

fun upsert :: "('v \<Rightarrow> 'v \<Rightarrow> 'v) \<Rightarrow> 'k \<times> 'v \<Rightarrow> ('k \<times> 'v) list \<Rightarrow> ('k \<times> 'v) list" where
  "upsert merge (k, v) [] = [(k, v)]"
| "upsert merge (k, v) ((k', v') # rows) =
     (if k' = k then (k', merge v' v) # rows else (k', v') # upsert merge (k, v) rows)"

definition execute_upserts :: "('v \<Rightarrow> 'v \<Rightarrow> 'v) \<Rightarrow> ('k \<times> 'v) list \<Rightarrow> ('k \<times> 'v) list \<Rightarrow> ('k \<times> 'v) list" where
  "execute_upserts merge batch tbl = fold (upsert merge) batch tbl"

text \<open>\<open>INSERT OR IGNORE\<close> into a table that is only a key.\<close>

definition insert_ignore :: "'k \<Rightarrow> 'k list \<Rightarrow> 'k list" where
  "insert_ignore k tbl = (if k \<in> set tbl then tbl else tbl @ [k])"

type_synonym side_key = "string \<times> string \<times> string"
type_synonym relation_key = "side_key \<times> bytes"

definition merge_text :: "nat \<times> int \<Rightarrow> nat \<times> int \<Rightarrow> nat \<times> int" where
  "merge_text old new = (fst old, min (snd old) (snd new))"

definition merge_facts :: "int \<times> int \<Rightarrow> int \<times> int \<Rightarrow> int \<times> int" where
  "merge_facts old new = (fst old + fst new, snd old + snd new)"

section \<open>The spool\<close>

record spool =
  sp_text :: "(bytes \<times> nat \<times> int) list"
  sp_encodings :: "string list"
  sp_numeric :: "(string \<times> pystr) list"
  sp_keys :: "(relation_key \<times> int) list"
  sp_facts :: "(side_key \<times> int \<times> int) list"
  sp_graph :: residual
  sp_pending_text :: "(bytes \<times> nat \<times> int) list"
  sp_pending_numeric :: "(string \<times> pystr) list"
  sp_pending_keys :: "(relation_key \<times> int) list"
  sp_pending_facts :: "(side_key \<times> int \<times> int) list"
  sp_high_water :: "nat \<times> nat \<times> nat \<times> nat"

definition empty_residual :: residual where
  "empty_residual = \<lparr>res_originals = [], res_tokens = [], res_caps = [], res_assign = [], res_visited = [], res_dfs = []\<rparr>"

definition new_spool :: spool where
  "new_spool = \<lparr>sp_text = [], sp_encodings = [], sp_numeric = [], sp_keys = [], sp_facts = [], sp_graph = empty_residual,
     sp_pending_text = [], sp_pending_numeric = [], sp_pending_keys = [], sp_pending_facts = [],
     sp_high_water = (0, 0, 0, 0)\<rparr>"

definition track_high_water :: "spool \<Rightarrow> spool" where
  "track_high_water s =
     (let (t, n, k, f) = sp_high_water s
      in s\<lparr>sp_high_water := (max t (length (sp_pending_text s)), max n (length (sp_pending_numeric s)),
             max k (length (sp_pending_keys s)), max f (length (sp_pending_facts s)))\<rparr>)"

definition flush_text :: "spool \<Rightarrow> spool" where
  "flush_text s = s\<lparr>sp_text := execute_upserts merge_text (sp_pending_text s) (sp_text s), sp_pending_text := []\<rparr>"

definition observe_text_raw :: "pystr \<Rightarrow> int \<Rightarrow> spool \<Rightarrow> spool result" where
  "observe_text_raw v byte_width s =
     bindE (canonical_text_identity v) (\<lambda>canonical.
       let s' = s\<lparr>sp_pending_text := sp_pending_text s @ [(canonical, length v, byte_width)]\<rparr>
       in Inr (if length (sp_pending_text s') \<ge> MAX_SQL_BATCH then flush_text s' else s'))"

definition observe_text_encoding :: "string \<Rightarrow> spool \<Rightarrow> spool" where
  "observe_text_encoding encoding s = s\<lparr>sp_encodings := insert_ignore encoding (sp_encodings s)\<rparr>"

definition flush_numeric :: "spool \<Rightarrow> spool" where
  "flush_numeric s = s\<lparr>sp_numeric := fold insert_ignore (sp_pending_numeric s) (sp_numeric s), sp_pending_numeric := []\<rparr>"

definition observe_numeric_raw :: "string \<Rightarrow> pystr \<Rightarrow> spool \<Rightarrow> spool" where
  "observe_numeric_raw d canonical s =
     (let s' = s\<lparr>sp_pending_numeric := sp_pending_numeric s @ [(d, canonical)]\<rparr>
      in if length (sp_pending_numeric s') \<ge> MAX_SQL_BATCH then flush_numeric s' else s')"

text \<open>The spool's key statement adds one on a conflict; every pending row carries the count one.\<close>

definition flush_keys :: "spool \<Rightarrow> spool" where
  "flush_keys s = s\<lparr>sp_keys := execute_upserts (\<lambda>old new. old + 1) (sp_pending_keys s) (sp_keys s), sp_pending_keys := []\<rparr>"

definition flush_facts :: "spool \<Rightarrow> spool" where
  "flush_facts s = s\<lparr>sp_facts := execute_upserts merge_facts (sp_pending_facts s) (sp_facts s), sp_pending_facts := []\<rparr>"

definition observe_relation_key :: "string \<Rightarrow> string \<Rightarrow> string \<Rightarrow> bytes \<Rightarrow> spool \<Rightarrow> spool" where
  "observe_relation_key side rel role canonical s =
     (let s' = s\<lparr>sp_pending_keys := sp_pending_keys s @ [(((side, rel, role), canonical), 1)]\<rparr>
      in if length (sp_pending_keys s') \<ge> MAX_SQL_BATCH then flush_keys s' else s')"

definition observe_relation_side_raw :: "string \<Rightarrow> string \<Rightarrow> string \<Rightarrow> int \<Rightarrow> int \<Rightarrow> spool \<Rightarrow> spool" where
  "observe_relation_side_raw side rel role rows nulls s =
     (let s' = s\<lparr>sp_pending_facts := sp_pending_facts s @ [((side, rel, role), rows, nulls)]\<rparr>
      in if length (sp_pending_facts s') \<ge> MAX_SQL_BATCH then flush_facts s' else s')"

definition flush :: "spool \<Rightarrow> spool" where
  "flush s = flush_facts (flush_keys (flush_numeric (flush_text (track_high_water s))))"

section \<open>Queries\<close>

definition stored_observations :: "spool \<Rightarrow> observations" where
  "stored_observations s = map (\<lambda>(c, n, w). (c, w)) (sp_text s)"

text \<open>The stream decodes each row as it is read; a row that does not decode raises there.\<close>

definition text_observation_rows :: "spool \<Rightarrow> (bytes \<times> int) list" where
  "text_observation_rows s = sort_key (\<lambda>(c, w). (w, c)) (stored_observations s)"

definition drop_text_observation :: "pystr \<Rightarrow> spool \<Rightarrow> spool result" where
  "drop_text_observation v s =
     bindE (canonical_text_identity v) (\<lambda>c. Inr (s\<lparr>sp_text := filter (\<lambda>row. fst row \<noteq> c) (sp_text s)\<rparr>))"

definition text_encoding_union :: "spool \<Rightarrow> string list" where
  "text_encoding_union s = remdups (sp_encodings s)"

definition text_free_reserved_count :: "nat \<Rightarrow> spool \<Rightarrow> nat" where
  "text_free_reserved_count l s = length (filter (\<lambda>(c, n, w). n = l \<and> w \<ge> int l) (sp_text s))"

definition text_is_observed :: "pystr \<Rightarrow> spool \<Rightarrow> bool result" where
  "text_is_observed v s = bindE (canonical_text_identity v) (\<lambda>c. Inr (c \<in> fst ` set (sp_text s)))"

definition text_unpersisted_count :: "spool \<Rightarrow> nat" where
  "text_unpersisted_count s = length (sp_text s)"

definition width_infeasible :: "spool \<Rightarrow> bool" where
  "width_infeasible s = list_ex (\<lambda>(c, n, w). w < 1) (sp_text s)"

definition text_values_of_length :: "nat \<Rightarrow> spool \<Rightarrow> pystr result list" where
  "text_values_of_length l s =
     map (\<lambda>row. case utf8_decode (fst row) of None \<Rightarrow> Inl ValueError | Some v \<Rightarrow> Inr v)
       (sort_key fst (filter (\<lambda>(c, n, w). n = l) (sp_text s)))"

definition numeric_observation_stream :: "string \<Rightarrow> spool \<Rightarrow> pystr list" where
  "numeric_observation_stream d s = sort (map snd (filter (\<lambda>(d', c). d' = d) (sp_numeric s)))"

definition drop_numeric_observation :: "string \<Rightarrow> pystr \<Rightarrow> spool \<Rightarrow> spool" where
  "drop_numeric_observation d c s = s\<lparr>sp_numeric := filter (\<lambda>row. row \<noteq> (d, c)) (sp_numeric s)\<rparr>"

definition numeric_unpersisted_count :: "string \<Rightarrow> spool \<Rightarrow> int" where
  "numeric_unpersisted_count d s = int (length (filter (\<lambda>(d', c). d' = d) (sp_numeric s)))"

definition side_rows :: "side_key \<Rightarrow> spool \<Rightarrow> (bytes \<times> int) list" where
  "side_rows sk s = map (\<lambda>((k, c), n). (c, n)) (filter (\<lambda>((k, c), n). k = sk) (sp_keys s))"

definition relation_side_facts :: "string \<Rightarrow> string \<Rightarrow> string \<Rightarrow> spool \<Rightarrow> int \<times> int" where
  "relation_side_facts side rel role s =
     (case map_of (sp_facts s) (side, rel, role) of None \<Rightarrow> (0, 0) | Some f \<Rightarrow> f)"

definition relation_histogram_stream :: "string \<Rightarrow> string \<Rightarrow> string \<Rightarrow> spool \<Rightarrow> (bytes \<times> int) list" where
  "relation_histogram_stream side rel role s = sort_key (\<lambda>(c, n). (- n, c)) (side_rows (side, rel, role) s)"

definition relation_unique_count :: "string \<Rightarrow> string \<Rightarrow> string \<Rightarrow> spool \<Rightarrow> nat" where
  "relation_unique_count side rel role s = length (side_rows (side, rel, role) s)"

definition relation_row_count :: "string \<Rightarrow> string \<Rightarrow> string \<Rightarrow> spool \<Rightarrow> int" where
  "relation_row_count side rel role s = sum_list (map snd (side_rows (side, rel, role) s))"

definition relation_matched_count :: "string \<Rightarrow> string \<Rightarrow> string \<Rightarrow> string \<Rightarrow> spool \<Rightarrow> int" where
  "relation_matched_count side rel parent_role foreign_role s =
     sum_list (map snd (filter (\<lambda>(c, n). c \<in> fst ` set (side_rows (side, rel, parent_role) s))
       (side_rows (side, rel, foreign_role) s)))"

fun streams_equal :: "(bytes \<times> int) list \<Rightarrow> (bytes \<times> int) list \<Rightarrow> bool" where
  "streams_equal [] [] = True"
| "streams_equal [] (y # ys) = False"
| "streams_equal (x # xs) [] = False"
| "streams_equal (x # xs) (y # ys) = (if snd x \<noteq> snd y then False else streams_equal xs ys)"

definition relation_profile_equal :: "string \<Rightarrow> string \<Rightarrow> string \<Rightarrow> string \<Rightarrow> spool \<Rightarrow> bool" where
  "relation_profile_equal rel left_side right_side role s =
     streams_equal (relation_histogram_stream left_side rel role s) (relation_histogram_stream right_side rel role s)"

text \<open>\<open>sha256\<close> is the digest of the standard library, a parameter: the model fixes the hashed bytes.\<close>

definition relation_profile_digest :: "(bytes \<Rightarrow> string) \<Rightarrow> string \<Rightarrow> string \<Rightarrow> string \<Rightarrow> spool \<Rightarrow> string" where
  "relation_profile_digest sha256 side rel role s =
     sha256 (ascii ''RELATION-PROFILE/v1''
       @ concat (map (\<lambda>(c, n). int_text n @ [44]) (relation_histogram_stream side rel role s)))"

section \<open>Worker shards\<close>

record shard =
  sh_keys :: "(relation_key \<times> int) list"
  sh_facts :: "(side_key \<times> int \<times> int) list"
  sh_pending_keys :: "(relation_key \<times> int) list"
  sh_pending_facts :: "(side_key \<times> int \<times> int) list"

definition new_shard :: shard where
  "new_shard = \<lparr>sh_keys = [], sh_facts = [], sh_pending_keys = [], sh_pending_facts = []\<rparr>"

definition shard_flush_keys :: "shard \<Rightarrow> shard" where
  "shard_flush_keys h = h\<lparr>sh_keys := execute_upserts (+) (sh_pending_keys h) (sh_keys h), sh_pending_keys := []\<rparr>"

definition shard_flush_facts :: "shard \<Rightarrow> shard" where
  "shard_flush_facts h = h\<lparr>sh_facts := execute_upserts merge_facts (sh_pending_facts h) (sh_facts h), sh_pending_facts := []\<rparr>"

definition shard_observe_relation_key :: "string \<Rightarrow> string \<Rightarrow> string \<Rightarrow> bytes \<Rightarrow> shard \<Rightarrow> shard" where
  "shard_observe_relation_key side rel role canonical h =
     (let h' = h\<lparr>sh_pending_keys := sh_pending_keys h @ [(((side, rel, role), canonical), 1)]\<rparr>
      in if length (sh_pending_keys h') \<ge> MAX_SQL_BATCH then shard_flush_keys h' else h')"

definition shard_observe_relation_side :: "string \<Rightarrow> string \<Rightarrow> string \<Rightarrow> int \<Rightarrow> int \<Rightarrow> shard \<Rightarrow> shard" where
  "shard_observe_relation_side side rel role rows nulls h =
     (let h' = h\<lparr>sh_pending_facts := sh_pending_facts h @ [((side, rel, role), rows, nulls)]\<rparr>
      in if length (sh_pending_facts h') \<ge> MAX_SQL_BATCH then shard_flush_facts h' else h')"

definition close_shard :: "shard \<Rightarrow> shard" where
  "close_shard h = shard_flush_facts (shard_flush_keys h)"

definition merge_relation_shard :: "shard \<Rightarrow> spool \<Rightarrow> spool" where
  "merge_relation_shard h s =
     s\<lparr>sp_keys := execute_upserts (+) (sort_key (\<lambda>(((a, b, c), k), n). (a, b, c, k)) (sh_keys h)) (sp_keys s),
       sp_facts := execute_upserts merge_facts (sort_key (\<lambda>((a, b, c), f). (a, b, c)) (sh_facts h)) (sp_facts s)\<rparr>"

section \<open>Aggregation laws of the upserts\<close>

fun aggregate_of :: "('v \<Rightarrow> 'v \<Rightarrow> 'v) \<Rightarrow> 'k \<Rightarrow> ('k \<times> 'v) list \<Rightarrow> 'v option" where
  "aggregate_of merge k [] = None"
| "aggregate_of merge k ((k', v) # rows) =
     (if k' = k then Some (case aggregate_of merge k rows of None \<Rightarrow> v | Some w \<Rightarrow> merge v w)
      else aggregate_of merge k rows)"

fun combine_option :: "('v \<Rightarrow> 'v \<Rightarrow> 'v) \<Rightarrow> 'v option \<Rightarrow> 'v option \<Rightarrow> 'v option" where
  "combine_option merge None y = y"
| "combine_option merge x None = x"
| "combine_option merge (Some a) (Some b) = Some (merge a b)"

lemma combine_option_None [simp]: "combine_option merge x None = x"
  by (cases x) auto

lemma keys_upsert: "map fst (upsert merge (k, v) t) = (if k \<in> fst ` set t then map fst t else map fst t @ [k])"
  by (induction t) force+

lemma distinct_upserts: "distinct (map fst t) \<Longrightarrow> distinct (map fst (execute_upserts merge batch t))"
proof (induction batch arbitrary: t)
  case (Cons x batch)
  obtain k v where "x = (k, v)" by (cases x)
  then have "distinct (map fst (upsert merge x t))" using Cons.prems by (auto simp: keys_upsert)
  then show ?case using Cons.IH by (simp add: execute_upserts_def)
qed (simp add: execute_upserts_def)

lemma keys_upserts: "fst ` set (execute_upserts merge batch t) = fst ` set t \<union> fst ` set batch"
proof (induction batch arbitrary: t)
  case (Cons x batch)
  obtain k v where x: "x = (k, v)" by (cases x)
  have "fst ` set (upsert merge x t) = insert k (fst ` set t)"
    using arg_cong [OF keys_upsert [of merge k v t], of set] by (auto simp: x split: if_splits)
  then show ?case using Cons.IH [of "upsert merge x t"] by (simp add: execute_upserts_def x)
qed (simp add: execute_upserts_def)

lemma map_of_upsert: "map_of (upsert merge (k, v) t) j =
    (if j = k then Some (case map_of t k of None \<Rightarrow> v | Some old \<Rightarrow> merge old v) else map_of t j)"
  by (induction t) auto

lemma upsert_map:
  assumes "\<And>x y. g (merge x y) = merge' (g x) (g y)"
  shows "map (apsnd g) (upsert merge (k, v) t) = upsert merge' (k, g v) (map (apsnd g) t)"
  by (induction t) (auto simp: assms)

lemma upserts_map:
  assumes "\<And>x y. g (merge x y) = merge' (g x) (g y)"
  shows "map (apsnd g) (execute_upserts merge batch t)
    = execute_upserts merge' (map (apsnd g) batch) (map (apsnd g) t)"
proof (induction batch arbitrary: t)
  case (Cons x batch)
  obtain k v where "x = (k, v)" by (cases x)
  then show ?case using Cons.IH upsert_map [of g merge merge' k v t, OF assms] by (simp add: execute_upserts_def)
qed (simp add: execute_upserts_def)

lemma map_of_set_eq:
  assumes "distinct (map fst xs)" and "distinct (map fst ys)" and "set xs = set ys"
  shows "map_of xs = map_of ys"
proof
  fix k
  have iff: "map_of xs k = Some v \<longleftrightarrow> map_of ys k = Some v" for v
    by (simp add: map_of_eq_Some_iff [OF assms(1)] map_of_eq_Some_iff [OF assms(2)] assms(3))
  show "map_of xs k = map_of ys k"
  proof (cases "map_of xs k")
    case None
    then have "map_of ys k \<noteq> Some v" for v using iff [of v] by simp
    then show ?thesis using None by (cases "map_of ys k") auto
  next
    case (Some v)
    then show ?thesis using iff [of v] by simp
  qed
qed

text \<open>
  What the aggregates rely on: an associative, commutative merge. Then a table's content depends
  only on the multiset of rows, not on how they were batched or split over workers.
\<close>

locale aggregate_table =
  fixes merge :: "'v \<Rightarrow> 'v \<Rightarrow> 'v"
  assumes assoc: "merge (merge x y) z = merge x (merge y z)"
    and comm: "merge x y = merge y x"
begin

lemma combine_assoc: "combine_option merge (combine_option merge x y) z = combine_option merge x (combine_option merge y z)"
  by (cases x; cases y; cases z) (simp_all add: assoc)

lemma combine_comm: "combine_option merge x y = combine_option merge y x"
  by (cases x; cases y) (simp_all add: comm)

lemma upserts_lookup:
  "map_of (execute_upserts merge batch t) k = combine_option merge (map_of t k) (aggregate_of merge k batch)"
proof (induction batch arbitrary: t)
  case (Cons x batch)
  obtain j v where x: "x = (j, v)" by (cases x)
  have "map_of (execute_upserts merge (x # batch) t) k
      = combine_option merge (map_of (upsert merge x t) k) (aggregate_of merge k batch)"
    using Cons.IH [of "upsert merge x t"] by (simp add: execute_upserts_def)
  then show ?case
    by (cases "map_of t k"; cases "aggregate_of merge k batch") (auto simp: x map_of_upsert assoc)
qed (simp add: execute_upserts_def)

lemma aggregate_append:
  "aggregate_of merge k (xs @ ys) = combine_option merge (aggregate_of merge k xs) (aggregate_of merge k ys)"
proof (induction xs)
  case (Cons x xs)
  then show ?case
    by (cases x; cases "aggregate_of merge k xs"; cases "aggregate_of merge k ys") (auto simp: assoc)
qed simp

lemma aggregate_absent: "k \<notin> fst ` set xs \<Longrightarrow> aggregate_of merge k xs = None"
  by (induction xs) auto

lemma aggregate_distinct: "distinct (map fst xs) \<Longrightarrow> aggregate_of merge k xs = map_of xs k"
proof (induction xs)
  case (Cons x xs)
  then show ?case by (cases x) (auto simp: aggregate_absent)
qed simp

lemma merge_table:
  assumes "distinct (map fst u)" and "set u' = set (execute_upserts merge batch u)" and "distinct (map fst u')"
    and "map_of u = Map.empty"
  shows "map_of (execute_upserts merge u' t) k = map_of (execute_upserts merge batch t) k"
proof -
  have "map_of u' = map_of (execute_upserts merge batch u)"
    by (rule map_of_set_eq [OF assms(3) distinct_upserts [OF assms(1)] assms(2)])
  then show ?thesis
    using aggregate_distinct [OF assms(3)] by (simp add: upserts_lookup assms(4))
qed

end

interpretation counts: aggregate_table "(+) :: int \<Rightarrow> int \<Rightarrow> int"
  by unfold_locales simp_all

interpretation facts: aggregate_table merge_facts
  by unfold_locales (simp_all add: merge_facts_def)

interpretation widths: aggregate_table "min :: int \<Rightarrow> int \<Rightarrow> int"
  by unfold_locales (simp_all add: min.assoc min.commute)

section \<open>Strictest widths\<close>

fun observe_texts :: "(pystr \<times> int) list \<Rightarrow> spool \<Rightarrow> spool result" where
  "observe_texts [] s = Inr s"
| "observe_texts ((v, w) # xs) s = bindE (observe_text_raw v w s) (observe_texts xs)"

lemma upserts_append: "execute_upserts merge (xs @ ys) t = execute_upserts merge ys (execute_upserts merge xs t)"
  by (simp add: execute_upserts_def)

lemma flush_tables [simp]:
  "sp_text (flush s) = execute_upserts merge_text (sp_pending_text s) (sp_text s)"
  "sp_keys (flush s) = execute_upserts (\<lambda>old new. old + 1) (sp_pending_keys s) (sp_keys s)"
  "sp_facts (flush s) = execute_upserts merge_facts (sp_pending_facts s) (sp_facts s)"
  "sp_numeric (flush s) = fold insert_ignore (sp_pending_numeric s) (sp_numeric s)"
  "sp_encodings (flush s) = sp_encodings s"
  "sp_pending_text (flush s) = []" "sp_pending_keys (flush s) = []"
  "sp_pending_facts (flush s) = []" "sp_pending_numeric (flush s) = []"
  by (simp_all add: flush_def flush_text_def flush_numeric_def flush_keys_def flush_facts_def track_high_water_def
      split: prod.splits)

lemma observe_text_raw_spec:
  assumes "observe_text_raw v w s = Inr s'"
  obtains c where "utf8_encode v = Some c"
    and "sp_text (flush s') = execute_upserts merge_text [(c, length v, w)] (sp_text (flush s))"
    and "length (sp_pending_text s) < MAX_SQL_BATCH \<Longrightarrow> length (sp_pending_text s') < MAX_SQL_BATCH"
proof -
  obtain c where c: "utf8_encode v = Some c"
    using assms by (auto simp: observe_text_raw_def canonical_text_identity_def split: option.splits)
  let ?s = "s\<lparr>sp_pending_text := sp_pending_text s @ [(c, length v, w)]\<rparr>"
  have s': "s' = (if length (sp_pending_text ?s) \<ge> MAX_SQL_BATCH then flush_text ?s else ?s)"
    using assms c by (simp add: observe_text_raw_def canonical_text_identity_def Let_def split: if_splits)
  have "sp_text (flush s') = execute_upserts merge_text (sp_pending_text s @ [(c, length v, w)]) (sp_text s)"
    unfolding s' by (simp add: flush_text_def execute_upserts_def)
  then show thesis using that c s' by (simp add: upserts_append flush_text_def MAX_SQL_BATCH_def split: if_splits)
qed

lemma observe_texts_rows:
  assumes "observe_texts xs s = Inr s'" and "length (sp_pending_text s) < MAX_SQL_BATCH"
  shows "\<exists>rows. list_all2 (\<lambda>(v, w) (c, n, w'). utf8_encode v = Some c \<and> n = length v \<and> w' = w) xs rows
      \<and> sp_text (flush s') = execute_upserts merge_text rows (sp_text (flush s))
      \<and> length (sp_pending_text s') < MAX_SQL_BATCH"
  using assms
proof (induction xs arbitrary: s)
  case Nil
  then show ?case by (auto simp: execute_upserts_def)
next
  case (Cons x xs)
  obtain v w where x: "x = (v, w)" by (cases x)
  obtain s1 where s1: "observe_text_raw v w s = Inr s1" "observe_texts xs s1 = Inr s'"
    using Cons.prems(1) by (auto simp: x bindE_Inr_iff)
  obtain c where c: "utf8_encode v = Some c" "length (sp_pending_text s1) < MAX_SQL_BATCH"
    "sp_text (flush s1) = execute_upserts merge_text [(c, length v, w)] (sp_text (flush s))"
    using observe_text_raw_spec [OF s1(1)] Cons.prems(2) by blast
  obtain rows where "list_all2 (\<lambda>(v, w) (c, n, w'). utf8_encode v = Some c \<and> n = length v \<and> w' = w) xs rows"
    "sp_text (flush s') = execute_upserts merge_text rows (sp_text (flush s1))" "length (sp_pending_text s') < MAX_SQL_BATCH"
    using Cons.IH [OF s1(2) c(2)] by blast
  then show ?case
    using c upserts_append [of merge_text "[(c, length v, w)]" rows "sp_text (flush s)"]
    by (intro exI [of _ "(c, length v, w) # rows"]) (simp add: x)
qed

lemma aggregate_min: "aggregate_of min k (rows :: ('k \<times> int) list) =
    (if k \<in> fst ` set rows then Some (Min {w. (k, w) \<in> set rows}) else None)"
proof (induction rows)
  case (Cons r rows)
  obtain j w where r: "r = (j, w)" by (cases r)
  have fin: "finite {w. (k, w) \<in> set rows}"
    by (rule finite_subset [of _ "snd ` set rows"]) force+
  show ?case
  proof (cases "j = k")
    case True
    have "{w'. (k, w') \<in> set (r # rows)} = insert w {w. (k, w) \<in> set rows}" using r True by auto
    moreover have "k \<in> fst ` set rows \<longleftrightarrow> {w. (k, w) \<in> set rows} \<noteq> {}" by force
    ultimately show ?thesis using Cons.IH r True fin by (auto simp: Min_insert)
  next
    case False
    then have "{w'. (k, w') \<in> set (r # rows)} = {w. (k, w) \<in> set rows}" using r by auto
    then show ?thesis using Cons.IH r False by auto
  qed
qed simp

lemma stored_observations_apsnd: "stored_observations s = map (apsnd snd) (sp_text s)"
  by (auto simp: stored_observations_def)

text \<open>
  The spool keeps the strictest width of every value and never buffers more than one batch. After
  any sequence of observed occurrences and a flush, the table holds each observed value once, with
  the minimum of the widths it was observed with, however the batches fell, and the pending buffer
  stayed below \<open>MAX_SQL_BATCH\<close>.
\<close>

theorem spool_strictest_width:
  assumes "observe_texts xs new_spool = Inr s"
  shows "length (sp_pending_text s) < MAX_SQL_BATCH \<and> distinct (map fst (stored_observations (flush s)))
    \<and> (\<forall>v c. utf8_encode v = Some c \<longrightarrow> map_of (stored_observations (flush s)) c
          = (if v \<in> fst ` set xs then Some (Min {w. (v, w) \<in> set xs}) else None))"
proof -
  obtain rows where rows: "list_all2 (\<lambda>(v, w) (c, n, w'). utf8_encode v = Some c \<and> n = length v \<and> w' = w) xs rows"
    and tbl: "sp_text (flush s) = execute_upserts merge_text rows []" and len: "length (sp_pending_text s) < MAX_SQL_BATCH"
    using observe_texts_rows [OF assms] by (auto simp: new_spool_def MAX_SQL_BATCH_def execute_upserts_def)
  let ?r = "map (apsnd snd) rows"
  have st: "stored_observations (flush s) = execute_upserts min ?r []"
    using upserts_map [of snd merge_text min rows "[]"] by (simp only: stored_observations_apsnd tbl merge_text_def snd_conv list.map)
  have mem: "(c, w) \<in> set ?r \<longleftrightarrow> (v, w) \<in> set xs" if c: "utf8_encode v = Some c" for v c w
    using rows
  proof (induction rule: list_all2_induct)
    case (Cons x xs y ys)
    then show ?case using c by (cases x; cases y) (auto dest: utf8_encode_inj)
  qed simp
  have "map_of (stored_observations (flush s)) c
      = (if v \<in> fst ` set xs then Some (Min {w. (v, w) \<in> set xs}) else None)" if c: "utf8_encode v = Some c" for v c
  proof -
    have "c \<in> fst ` set ?r \<longleftrightarrow> v \<in> fst ` set xs" using mem [OF c] by (force simp: image_iff)
    then show ?thesis using mem [OF c] by (simp add: st widths.upserts_lookup aggregate_min)
  qed
  moreover have "distinct (map fst (stored_observations (flush s)))" unfolding st by (rule distinct_upserts) simp
  ultimately show ?thesis using len by blast
qed

theorem spool_strictest_width_witness:
  "map_of (stored_observations (flush (projr (observe_texts [([65], 5), ([66], 2), ([65], 3), ([65], 9)] new_spool)))) [65]
     = Some 3"
proof -
  let ?xs = "[([65], 5), ([66], 2), ([65], 3), ([65], 9)] :: (pystr \<times> int) list"
  have "\<not> isl (observe_texts ?xs new_spool)" by code_simp
  then have s: "observe_texts ?xs new_spool = Inr (projr (observe_texts ?xs new_spool))"
    by (cases "observe_texts ?xs new_spool") auto
  have "{w. ([65], w) \<in> set ?xs} = {5, 3, 9}" by auto
  then have m: "Min {w. ([65], w) \<in> set ?xs} = 3" by simp
  have e: "utf8_encode [65] = Some [65]" by (simp add: utf8_char_def)
  have "map_of (stored_observations (flush (projr (observe_texts ?xs new_spool)))) [65]
      = (if [65] \<in> fst ` set ?xs then Some (Min {w. ([65], w) \<in> set ?xs}) else None)"
    using spool_strictest_width [OF s] e by blast
  then show ?thesis unfolding m by simp
qed

section \<open>Evidence split over worker shards\<close>

datatype evidence_event =
    KeyEvent string string string bytes
  | SideEvent string string string int int

fun spool_event :: "evidence_event \<Rightarrow> spool \<Rightarrow> spool" where
  "spool_event (KeyEvent side rel role c) s = observe_relation_key side rel role c s"
| "spool_event (SideEvent side rel role rows nulls) s = observe_relation_side_raw side rel role rows nulls s"

fun shard_event :: "evidence_event \<Rightarrow> shard \<Rightarrow> shard" where
  "shard_event (KeyEvent side rel role c) h = shard_observe_relation_key side rel role c h"
| "shard_event (SideEvent side rel role rows nulls) h = shard_observe_relation_side side rel role rows nulls h"

fun key_rows :: "evidence_event list \<Rightarrow> (relation_key \<times> int) list" where
  "key_rows [] = []"
| "key_rows (KeyEvent side rel role c # es) = (((side, rel, role), c), 1) # key_rows es"
| "key_rows (SideEvent side rel role rows nulls # es) = key_rows es"

fun fact_rows :: "evidence_event list \<Rightarrow> (side_key \<times> int \<times> int) list" where
  "fact_rows [] = []"
| "fact_rows (KeyEvent side rel role c # es) = fact_rows es"
| "fact_rows (SideEvent side rel role rows nulls # es) = ((side, rel, role), rows, nulls) # fact_rows es"

lemma rows_append: "key_rows (xs @ ys) = key_rows xs @ key_rows ys" "fact_rows (xs @ ys) = fact_rows xs @ fact_rows ys"
  by (induction xs rule: key_rows.induct) auto

lemma ones_upserts:
  "\<forall>r\<in>set batch. snd r = 1 \<Longrightarrow> execute_upserts (\<lambda>old new. old + 1) batch t = execute_upserts (+) batch (t :: ('k \<times> int) list)"
proof -
  have "upsert (\<lambda>old new. old + 1) (k, 1) t = upsert (+) (k, 1) (t :: ('k \<times> int) list)" for k t
    by (induction t) auto
  then show "\<forall>r\<in>set batch. snd r = 1 \<Longrightarrow> ?thesis"
    by (induction batch arbitrary: t) (auto simp: execute_upserts_def)
qed

abbreviation ones_pending :: "spool \<Rightarrow> bool" where
  "ones_pending s \<equiv> \<forall>r\<in>set (sp_pending_keys s). snd r = 1"

lemma spool_events:
  assumes "ones_pending s"
  shows "sp_keys (flush (fold spool_event es s)) = execute_upserts (+) (key_rows es) (sp_keys (flush s))
    \<and> sp_facts (flush (fold spool_event es s)) = execute_upserts merge_facts (fact_rows es) (sp_facts (flush s))
    \<and> ones_pending (fold spool_event es s)"
  using assms
proof (induction es arbitrary: s rule: key_rows.induct)
  case 1
  then show ?case by (simp add: execute_upserts_def)
next
  case (2 side rel role c es)
  let ?r = "(((side, rel, role), c), 1)" and ?s = "observe_relation_key side rel role c s"
  have ones: "\<forall>r\<in>set (sp_pending_keys s @ [?r]). snd r = 1" using "2.prems" by auto
  have "sp_keys (flush ?s) = execute_upserts (\<lambda>old new. old + 1) (sp_pending_keys s @ [?r]) (sp_keys s)"
    "sp_facts (flush ?s) = sp_facts (flush s)" "ones_pending ?s"
    using ones by (auto simp: observe_relation_key_def Let_def flush_keys_def execute_upserts_def)
  then show ?case
    using "2.IH" [of ?s] ones_upserts [OF ones] ones_upserts [OF "2.prems"]
      upserts_append [of "(+)" "sp_pending_keys s" "[?r]" "sp_keys s"] upserts_append [of "(+)" "[?r]" "key_rows es"]
    by simp
next
  case (3 side rel role rows nulls es)
  let ?r = "((side, rel, role), rows, nulls)" and ?s = "observe_relation_side_raw side rel role rows nulls s"
  have "sp_facts (flush ?s) = execute_upserts merge_facts (sp_pending_facts s @ [?r]) (sp_facts s)"
    "sp_keys (flush ?s) = sp_keys (flush s)" "ones_pending ?s"
    using "3.prems" by (auto simp: observe_relation_side_raw_def Let_def flush_facts_def execute_upserts_def)
  then show ?case
    using "3.IH" [of ?s] upserts_append [of merge_facts "sp_pending_facts s" "[?r]" "sp_facts s"]
      upserts_append [of merge_facts "[?r]" "fact_rows es"]
    by simp
qed

lemma close_tables [simp]:
  "sh_keys (close_shard h) = execute_upserts (+) (sh_pending_keys h) (sh_keys h)"
  "sh_facts (close_shard h) = execute_upserts merge_facts (sh_pending_facts h) (sh_facts h)"
  by (simp_all add: close_shard_def shard_flush_keys_def shard_flush_facts_def)

lemma shard_events:
  "sh_keys (close_shard (fold shard_event es h)) = execute_upserts (+) (key_rows es) (sh_keys (close_shard h))
    \<and> sh_facts (close_shard (fold shard_event es h)) = execute_upserts merge_facts (fact_rows es) (sh_facts (close_shard h))"
proof (induction es arbitrary: h rule: key_rows.induct)
  case 1
  then show ?case by (simp add: execute_upserts_def)
next
  case (2 side rel role c es)
  let ?r = "(((side, rel, role), c), 1)" and ?h = "shard_observe_relation_key side rel role c h"
  have "sh_keys (close_shard ?h) = execute_upserts (+) (sh_pending_keys h @ [?r]) (sh_keys h)"
    "sh_facts (close_shard ?h) = sh_facts (close_shard h)"
    by (auto simp: shard_observe_relation_key_def Let_def shard_flush_keys_def execute_upserts_def)
  then show ?case
    using "2.IH" [of ?h] upserts_append [of "(+)" "sh_pending_keys h" "[?r]" "sh_keys h"]
      upserts_append [of "(+)" "[?r]" "key_rows es"] by simp
next
  case (3 side rel role rows nulls es)
  let ?r = "((side, rel, role), rows, nulls)" and ?h = "shard_observe_relation_side side rel role rows nulls h"
  have "sh_facts (close_shard ?h) = execute_upserts merge_facts (sh_pending_facts h @ [?r]) (sh_facts h)"
    "sh_keys (close_shard ?h) = sh_keys (close_shard h)"
    by (auto simp: shard_observe_relation_side_def Let_def shard_flush_facts_def execute_upserts_def)
  then show ?case
    using "3.IH" [of ?h] upserts_append [of merge_facts "sh_pending_facts h" "[?r]" "sh_facts h"]
      upserts_append [of merge_facts "[?r]" "fact_rows es"] by simp
qed

definition worker_shard :: "evidence_event list \<Rightarrow> shard" where
  "worker_shard es = close_shard (fold shard_event es new_shard)"

lemma worker_shard_tables:
  "sh_keys (worker_shard es) = execute_upserts (+) (key_rows es) []"
  "sh_facts (worker_shard es) = execute_upserts merge_facts (fact_rows es) []"
  using shard_events [of es new_shard] by (simp_all add: worker_shard_def new_shard_def execute_upserts_def)

lemma sorted_upserts_distinct: "distinct (map fst (sort_key f (execute_upserts m b [])))"
  using distinct_upserts [of "[]" m b] by (simp add: distinct_map)

lemma merge_worker_lookup:
  "map_of (sp_keys (merge_relation_shard (worker_shard es) s)) k
     = map_of (execute_upserts (+) (key_rows es) (sp_keys s)) k"
  "map_of (sp_facts (merge_relation_shard (worker_shard es) s)) j
     = map_of (execute_upserts merge_facts (fact_rows es) (sp_facts s)) j"
  unfolding merge_relation_shard_def worker_shard_tables
  by (simp_all add: counts.merge_table [of "[]"] facts.merge_table [of "[]"] sorted_upserts_distinct)

lemma merge_workers_lookup:
  "map_of (sp_keys (fold merge_relation_shard (map worker_shard ess) s)) k
     = map_of (execute_upserts (+) (key_rows (concat ess)) (sp_keys s)) k
   \<and> map_of (sp_facts (fold merge_relation_shard (map worker_shard ess) s)) j
     = map_of (execute_upserts merge_facts (fact_rows (concat ess)) (sp_facts s)) j"
proof (induction ess arbitrary: s)
  case Nil
  then show ?case by (simp add: execute_upserts_def)
next
  case (Cons es ess)
  then show ?case
    by (simp add: counts.upserts_lookup facts.upserts_lookup merge_worker_lookup rows_append counts.aggregate_append
        facts.aggregate_append counts.combine_assoc facts.combine_assoc)
qed

text \<open>
  Parallel evidence equals sequential evidence. Splitting the relation evidence of pass 2 over
  any number of worker shards, in any cut of the event sequence, and merging the closed shards one
  after the other into the spool gives the same key histogram and the same side facts as recording
  every event in the spool itself.
\<close>

theorem shards_equal_sequential:
  "map_of (sp_keys (fold merge_relation_shard (map worker_shard ess) (flush s)))
     = map_of (sp_keys (flush (fold spool_event (concat ess) (flush s))))
   \<and> map_of (sp_facts (fold merge_relation_shard (map worker_shard ess) (flush s)))
     = map_of (sp_facts (flush (fold spool_event (concat ess) (flush s))))"
proof -
  have "ones_pending (flush s)" by simp
  from spool_events [OF this, of "concat ess"] show ?thesis
    using merge_workers_lookup [of ess "flush s"] by (simp add: fun_eq_iff execute_upserts_def)
qed

section \<open>Composite keys are grouped exactly\<close>

lemma not_islE:
  assumes "\<not> isl r"
  obtains x where "r = Inr x"
  using assms by (cases r) auto

lemma nat_text_digits: "list_all is_digit (nat_text n)"
proof (induction n rule: nat_text.induct)
  case (1 n)
  show ?case
  proof (cases "n < 10")
    case True
    then show ?thesis by (subst nat_text.simps) (simp add: is_digit_def)
  next
    case False
    have "n mod 10 < 10" by simp
    then have "is_digit (48 + n mod 10)" by (simp add: is_digit_def)
    moreover have "nat_text n = nat_text (n div 10) @ [48 + n mod 10]"
      using False by (subst nat_text.simps) simp
    ultimately show ?thesis using "1.IH" False by simp
  qed
qed

lemma nat_text_cancel:
  assumes "nat_text m @ xs = nat_text n @ ys"
    and "\<forall>x\<in>set (take 1 xs). \<not> is_digit x" and "\<forall>y\<in>set (take 1 ys). \<not> is_digit y"
  shows "m = n" and "xs = ys"
proof -
  have tw: "takeWhile is_digit (nat_text k @ zs) = nat_text k" if "\<forall>z\<in>set (take 1 zs). \<not> is_digit z" for k zs
    using nat_text_digits [of k] that by (cases zs) (auto simp: list_all_iff takeWhile_append2)
  have eq: "nat_text m = nat_text n" using tw [OF assms(2), of m] tw [OF assms(3), of n] assms(1) by simp
  then have "int m = int n" using digits_value_nat_text by metis
  then show "m = n" by simp
  then show "xs = ys" using assms(1) by simp
qed

lemma component_identity_cancel:
  assumes "component_identity x = Inr p" and "component_identity y = Inr q" and "p @ r = q @ r'"
  shows "x = y" and "r = r'"
proof -
  have sep: "\<not> is_digit 58" "\<not> is_digit 124" by (simp_all add: is_digit_def)
  have "x = y \<and> r = r'"
  proof (cases x)
    case x: (VStr s)
    obtain b where b: "utf8_encode s = Some b" "p = 84 # nat_text (length b) @ 58 # b"
      using assms(1) x by (auto simp: canonical_text_identity_def split: option.splits)
    obtain s' b' where y: "y = VStr s'" and b': "utf8_encode s' = Some b'" "q = 84 # nat_text (length b') @ 58 # b'"
      using assms(2,3) b(2) by (cases y) (auto simp: canonical_text_identity_def split: option.splits)
    have "nat_text (length b) @ (58 # b @ r) = nat_text (length b') @ (58 # b' @ r')"
      using assms(3) b(2) b'(2) by simp
    from nat_text_cancel [OF this] have "length b = length b'" "b @ r = b' @ r'" using sep by auto
    then have "b = b' \<and> r = r'" by (simp add: append_eq_append_conv)
    then show ?thesis using x y b(1) b'(1) utf8_encode_inj by auto
  next
    case x: (VInt i)
    have p: "p = 78 # nat_text (length (int_text i)) @ 124 # int_text i" using assms(1) x by simp
    obtain j where y: "y = VInt j" and q: "q = 78 # nat_text (length (int_text j)) @ 124 # int_text j"
      using assms(2,3) p by (cases y) (auto simp: canonical_text_identity_def split: option.splits)
    have "nat_text (length (int_text i)) @ (124 # int_text i @ r) = nat_text (length (int_text j)) @ (124 # int_text j @ r')"
      using assms(3) p q by simp
    from nat_text_cancel [OF this] have "length (int_text i) = length (int_text j)" "int_text i @ r = int_text j @ r'"
      using sep by auto
    then show ?thesis using x y by (simp add: append_eq_append_conv)
  qed (use assms(1) in auto)
  then show "x = y" and "r = r'" by auto
qed

lemma components_cancel:
  assumes "mapE component_identity xs = Inr ps" and "mapE component_identity ys = Inr qs"
    and "concat (map (\<lambda>p. 0 # p) ps) = concat (map (\<lambda>p. 0 # p) qs)"
  shows "xs = ys"
  using assms
proof (induction xs arbitrary: ys ps qs)
  case Nil
  then show ?case by (cases ys) (auto simp: bindE_Inr_iff)
next
  case (Cons x xs)
  obtain p ps' where p: "component_identity x = Inr p" "mapE component_identity xs = Inr ps'" "ps = p # ps'"
    using Cons.prems(1) by (auto simp: bindE_Inr_iff)
  obtain y ys' q qs' where y: "ys = y # ys'" "component_identity y = Inr q" "mapE component_identity ys' = Inr qs'" "qs = q # qs'"
    using Cons.prems(2,3) p(3) by (cases ys) (auto simp: bindE_Inr_iff)
  have "p @ concat (map (\<lambda>p. 0 # p) ps') = q @ concat (map (\<lambda>p. 0 # p) qs')" using Cons.prems(3) p y by simp
  from component_identity_cancel [OF p(1) y(2) this] show ?case using Cons.IH p(2) y by simp
qed

lemma composite_identity_cancel:
  assumes "canonical_composite_identity xs = Inr b" and "canonical_composite_identity ys = Inr b"
  shows "xs = ys"
proof -
  obtain ps qs where m: "mapE component_identity xs = Inr ps" "mapE component_identity ys = Inr qs"
    and b: "b = nat_text (length xs) @ concat (map (\<lambda>p. 0 # p) ps)" "b = nat_text (length ys) @ concat (map (\<lambda>p. 0 # p) qs)"
    using assms by (auto simp: canonical_composite_identity_def bindE_Inr_iff)
  have z: "\<forall>x\<in>set (take 1 (concat (map (\<lambda>p. 0 # p) rs))). \<not> is_digit x" for rs
    by (cases rs) (auto simp: is_digit_def)
  have "concat (map (\<lambda>p. 0 # p) ps) = concat (map (\<lambda>p. 0 # p) qs)"
    by (rule nat_text_cancel(2) [OF trans [OF b(1) [symmetric] b(2)] z z])
  then show ?thesis using components_cancel m by blast
qed

text \<open>
  The composite grouping identity is exact: two key tuples with the same canonical bytes are the
  same tuple, component by component and in the same order, so relation histograms never merge two
  different keys (text and numeric components included).
\<close>

theorem composite_identity_injective:
  assumes "canonical_composite_identity xs = Inr b" and "canonical_composite_identity ys = Inr b"
  shows "xs = ys"
  using assms by (rule composite_identity_cancel)

theorem composite_identity_injective_witness:
  "canonical_composite_identity [VStr [65], VInt 7] \<noteq> canonical_composite_identity [VInt 7, VStr [65]]"
proof
  assume eq: "canonical_composite_identity [VStr [65], VInt 7] = canonical_composite_identity [VInt 7, VStr [65]]"
  have "\<not> isl (canonical_composite_identity [VStr [65], VInt 7])" by code_simp
  then obtain b where b: "canonical_composite_identity [VStr [65], VInt 7] = Inr b" 
    by (rule not_islE)
  have "[VStr [65], VInt 7] = [VInt 7, VStr [65]]"
    using composite_identity_injective [OF b] b unfolding eq by blast
  then show False by simp
qed

section \<open>Multiplicity profiles\<close>

lemma streams_equal_counts: "streams_equal xs ys \<longleftrightarrow> map snd xs = map snd ys"
  by (induction xs ys rule: streams_equal.induct) auto

lemma histogram_counts_sorted:
  "map snd (relation_histogram_stream side rel role s) = rev (sort (map snd (side_rows (side, rel, role) s)))"
proof -
  let ?xs = "relation_histogram_stream side rel role s"
  have "sorted (map (\<lambda>(c, n). (- n, c)) ?xs)" by (simp add: relation_histogram_stream_def)
  then have "sorted_wrt (\<ge>) (map snd ?xs)"
    by (auto simp: sorted_wrt_map case_prod_beta less_eq_prod_def elim!: sorted_wrt_mono_rel [rotated])
  then have "sorted (rev (map snd ?xs))" by (simp add: sorted_wrt_rev)
  moreover have "mset (rev (map snd ?xs)) = mset (map snd (side_rows (side, rel, role) s))"
    by (simp add: relation_histogram_stream_def)
  ultimately have "rev (map snd ?xs) = sort (map snd (side_rows (side, rel, role) s))" by (intro properties_for_sort [symmetric])
  then show ?thesis by (metis rev_rev_ident)
qed

text \<open>
  The streaming profile comparison is exact: it reports two sides of a relation equal exactly when
  they have the same multiset of key multiplicities, although it only ever holds one row per side.
\<close>

theorem profile_equality_exact:
  "relation_profile_equal rel left_side right_side role s \<longleftrightarrow>
     mset (map snd (side_rows (left_side, rel, role) s)) = mset (map snd (side_rows (right_side, rel, role) s))"
proof -
  have "relation_profile_equal rel left_side right_side role s \<longleftrightarrow>
      sort (map snd (side_rows (left_side, rel, role) s)) = sort (map snd (side_rows (right_side, rel, role) s))"
    by (simp add: relation_profile_equal_def streams_equal_counts histogram_counts_sorted)
  also have "\<dots> \<longleftrightarrow> mset (map snd (side_rows (left_side, rel, role) s)) = mset (map snd (side_rows (right_side, rel, role) s))"
  proof
    assume "sort (map snd (side_rows (left_side, rel, role) s)) = sort (map snd (side_rows (right_side, rel, role) s))"
    from arg_cong [OF this, of mset] show "mset (map snd (side_rows (left_side, rel, role) s))
      = mset (map snd (side_rows (right_side, rel, role) s))" by simp
  qed (intro properties_for_sort, simp_all)
  finally show ?thesis .
qed

end
