(* ===== verification/Text_Materialization.thy ===== *)
theory Text_Materialization
  imports Text_Residual
begin

text \<open>
  Materialization of a solved residual assignment (\<^verbatim>\<open>src/src/dbf_anonymizer/engine/text_residual.py\<close>):
  a named assignment receives its reserved token, a class slot a random free token of its length,
  by bounded probing and then by the exact walk over the blocked indices of the class.
\<close>

section \<open>Selecting a token\<close>

definition TEXT_PROBE_BUDGET :: nat where "TEXT_PROBE_BUDGET = 64"

definition reserved_token_blocked :: "residual \<Rightarrow> pystr \<Rightarrow> bool" where
  "reserved_token_blocked g candidate = list_ex (\<lambda>t. rt_value t = candidate) (res_tokens g)"

definition occupied_tokens_of_length :: "database \<Rightarrow> string \<Rightarrow> nat \<Rightarrow> pystr list" where
  "occupied_tokens_of_length db d l =
     map (\<lambda>r. cell_text (tr_pseudonym r))
       (filter (\<lambda>r. tr_domain r = d \<and> tr_length r = SInt (int l)) (text_mappings_tbl db))"

text \<open>An insert into \<open>blocked_index\<close>: the index must fit SQLite's INTEGER column.\<close>

definition blocked_index :: "pystr \<Rightarrow> pystr \<Rightarrow> int result" where
  "blocked_index alphabet token =
     bindE (token_index token alphabet) (\<lambda>i. bindE (bind_int i) (\<lambda>_. Inr i))"

text \<open>The exact walk over the sorted blocked indices; the draw is the \<open>k\<close>-th of the run.\<close>

definition exact_fungible_walk ::
    "tape \<Rightarrow> nat \<Rightarrow> database \<Rightarrow> string \<Rightarrow> residual \<Rightarrow> pystr \<Rightarrow> int \<Rightarrow> nat \<Rightarrow> pystr result" where
  "exact_fungible_walk t k db d g alphabet base l =
     bindE (token_space (int l - 1) base) (\<lambda>class_low.
     bindE (mapE (blocked_index alphabet) (occupied_tokens_of_length db d l)) (\<lambda>occupied.
     bindE (mapE (\<lambda>x. blocked_index alphabet (rt_value x)) (filter (\<lambda>x. length (rt_value x) = l) (res_tokens g))) (\<lambda>reserved.
       let blocked = sort (remdups (occupied @ reserved));
           free_count = class_size base l - int (length blocked)
       in if free_count < 1 then Inl ValueError
          else token_at (gap_walk (class_low - 1) (randbelow t k free_count) blocked) (int l) alphabet)))"

fun probe_fungible ::
    "nat \<Rightarrow> tape \<Rightarrow> nat \<Rightarrow> database \<Rightarrow> string \<Rightarrow> residual \<Rightarrow> pystr \<Rightarrow> int \<Rightarrow> int \<Rightarrow> nat \<Rightarrow> pystr
       \<Rightarrow> (pystr option \<times> nat) result" where
  "probe_fungible 0 t k db d g alphabet base class_low l text = Inr (None, k)"
| "probe_fungible (Suc n) t k db d g alphabet base class_low l text =
     bindE (token_at (class_low + randbelow t k (class_size base l)) (int l) alphabet) (\<lambda>candidate.
       if candidate = text \<or> token_occupied db d candidate \<or> reserved_token_blocked g candidate
       then probe_fungible n t (Suc k) db d g alphabet base class_low l text
       else Inr (Some candidate, Suc k))"

definition select_fungible_token ::
    "tape \<Rightarrow> nat \<Rightarrow> database \<Rightarrow> string \<Rightarrow> residual \<Rightarrow> pystr \<Rightarrow> int \<Rightarrow> nat \<Rightarrow> pystr \<Rightarrow> (pystr \<times> nat) result" where
  "select_fungible_token t k db d g alphabet base l text =
     bindE (token_space (int l - 1) base) (\<lambda>class_low.
     bindE (probe_fungible TEXT_PROBE_BUDGET t k db d g alphabet base class_low l text) (\<lambda>(found, k').
       case found of
         Some candidate \<Rightarrow> Inr (candidate, k')
       | None \<Rightarrow> bindE (exact_fungible_walk t k' db d g alphabet base l) (\<lambda>candidate. Inr (candidate, Suc k'))))"

text \<open>The token of the \<open>i\<close>-th original, as \<open>materialize_text_assignment\<close> yields it.\<close>

definition materialize_one ::
    "tape \<Rightarrow> nat \<Rightarrow> database \<Rightarrow> string \<Rightarrow> residual \<Rightarrow> pystr \<Rightarrow> int \<Rightarrow> nat \<Rightarrow> (pystr \<times> nat) result" where
  "materialize_one t k db d g alphabet base i =
     (case res_assign g ! i of
        None \<Rightarrow> Inl (residual_failure ''ENGINE_TEXT_RESIDUAL_BROKEN'')
      | Some (TokenR tid) \<Rightarrow>
          if tid < length (res_tokens g) then Inr (rt_value (res_tokens g ! tid), k)
          else Inl (residual_failure ''ENGINE_TEXT_RESIDUAL_BROKEN'')
      | Some (ClassR l) \<Rightarrow> select_fungible_token t k db d g alphabet base l (ro_value (res_originals g ! i)))"


section \<open>The walk finds a free token whenever there is one\<close>

lemma token_at_class:
  assumes "distinct a" and "a \<noteq> []" and "1 \<le> l"
    and "geometric (int (length a)) (l - 1) \<le> i" and "i < geometric (int (length a)) l"
  obtains t where "token_at i (int l) a = Inr t" "is_safe_token t a" "length t = l" "token_index t a = Inr i"
proof -
  have i: "0 \<le> i" using geometric_nonneg [of "int (length a)" "l - 1"] assms(4) by simp
  obtain t where t: "token_at i (int l) a = Inr t" "is_safe_token t a" "length t \<le> l"
    using token_at_safe [OF assms(2) i assms(5)] by blast
  have idx: "token_index t a = Inr i" using token_index_at [OF assms(1,2) i assms(5) t(1)] .
  have "geometric (int (length a)) (length t - 1) \<le> i" "i < geometric (int (length a)) (length t)"
    using token_index_bounds [OF t(2) order_refl] idx by auto
  then have "length t = l" using geometric_block_unique [OF _ _ _ assms(4,5)] by simp
  then show thesis using that t idx by blast
qed

definition class_low :: "int \<Rightarrow> nat \<Rightarrow> int" where "class_low base l = geometric base (l - 1)"

lemma token_space_class_low:
  assumes "1 \<le> l" and "1 \<le> base"
  shows "token_space (int l - 1) base = Inr (class_low base l)"
  using assms token_space_geometric [of "int l - 1" base] by (simp add: class_low_def nat_diff_distrib)

lemma class_low_next: "1 \<le> l \<Longrightarrow> geometric base l = class_low base l + class_size base l"
  by (cases l) (simp_all add: class_low_def class_size_def)

definition index_of :: "pystr \<Rightarrow> pystr \<Rightarrow> int" where
  "index_of a t = geometric (int (length a)) (length t - 1) + token_value a t"

lemma blocked_index_safe:
  assumes "is_safe_token t a" and "geometric (int (length a)) (length t) \<le> 2 ^ 63"
  shows "blocked_index a t = Inr (index_of a t)"
    and "class_low (int (length a)) (length t) \<le> index_of a t" and "index_of a t < geometric (int (length a)) (length t)"
proof -
  have i: "token_index t a = Inr (index_of a t)" using token_index_eq [OF assms(1)] by (simp add: index_of_def)
  then show b: "class_low (int (length a)) (length t) \<le> index_of a t" "index_of a t < geometric (int (length a)) (length t)"
    using token_index_bounds [OF assms(1) order_refl] by (auto simp: class_low_def)
  have "0 \<le> class_low (int (length a)) (length t)" by (simp add: class_low_def geometric_nonneg)
  then have "0 \<le> index_of a t" using b(1) by linarith
  then show "blocked_index a t = Inr (index_of a t)"
    using i b(2) assms(2) by (simp add: blocked_index_def bind_int_def guardE_def)
qed

definition blocked_of_length :: "database \<Rightarrow> string \<Rightarrow> res_token list \<Rightarrow> nat \<Rightarrow> pystr set" where
  "blocked_of_length db d ts l = {t. length t = l \<and> (token_occupied db d t \<or> t \<in> rt_value ` set ts)}"

lemma occupied_tokens_set:
  assumes "persisted_safe a d db"
  shows "set (occupied_tokens_of_length db d l) = {t. token_occupied db d t \<and> length t = l}"
proof -
  have ok: "text_domain_ok d db" using assms by (simp add: persisted_safe_def)
  have "occupied_tokens_of_length db d l
      = map (\<lambda>r. cell_text (tr_pseudonym r)) (filter (\<lambda>r. tr_length r = SInt (int l)) (text_rows_of d db))"
    by (simp add: occupied_tokens_of_length_def text_rows_of_def conj_commute)
  also have "filter (\<lambda>r. tr_length r = SInt (int l)) (text_rows_of d db)
      = filter (\<lambda>r. length (cell_text (tr_pseudonym r)) = l) (text_rows_of d db)"
    using assms by (intro filter_cong) (auto simp: persisted_safe_def)
  finally show ?thesis by (force simp: token_occupied_iff [OF ok] text_assoc_def)
qed

lemma occupied_safe: "persisted_safe a d db \<Longrightarrow> token_occupied db d t \<Longrightarrow> is_safe_token t a"
  by (auto simp: persisted_safe_def token_occupied_iff text_assoc_def)

lemma index_of_inj:
  assumes "is_safe_token t a" and "is_safe_token t' a" and "index_of a t = index_of a t'"
  shows "t = t'"
proof -
  have i: "token_index t a = Inr (index_of a t)" "token_index t' a = Inr (index_of a t)"
    using token_index_eq [OF assms(1)] token_index_eq [OF assms(2)] assms(3) by (simp_all add: index_of_def)
  have "token_at (index_of a t) (int (max (length t) (length t'))) a = Inr t"
    "token_at (index_of a t) (int (max (length t) (length t'))) a = Inr t'"
    using token_at_index [OF assms(1) max.cobounded1 i(1)] token_at_index [OF assms(2) max.cobounded2 i(2)] .
  then show ?thesis by (metis sum.inject(2))
qed

lemma exact_fungible_walk_spec:
  assumes "persisted_safe a d db" and "distinct a" and "a \<noteq> []" and l: "1 \<le> l"
    and small: "geometric (int (length a)) l \<le> 2 ^ 63"
    and res: "\<forall>x\<in>set (res_tokens g). is_safe_token (rt_value x) a"
    and free: "free_of_length db d a (res_tokens g) l \<noteq> {}"
  obtains t where "exact_fungible_walk tp k db d g a (int (length a)) l = Inr t"
    and "t \<in> free_of_length db d a (res_tokens g) l"
proof -
  let ?b = "int (length a)" and ?lo = "class_low (int (length a)) l" and ?hi = "geometric (int (length a)) l"
  let ?occ = "occupied_tokens_of_length db d l" and ?rs = "filter (\<lambda>x. length (rt_value x) = l) (res_tokens g)"
  let ?B = "sort (remdups (map (index_of a) ?occ @ map (\<lambda>x. index_of a (rt_value x)) ?rs))"
  have b: "1 \<le> ?b" using assms(3) by (cases a) auto
  have safe: "is_safe_token t a" if "t \<in> blocked_of_length db d (res_tokens g) l" for t
    using that occupied_safe [OF assms(1)] res by (auto simp: blocked_of_length_def)
  have set_blocked: "set ?B = index_of a ` blocked_of_length db d (res_tokens g) l"
    using occupied_tokens_set [OF assms(1), of l] by (auto simp: blocked_of_length_def)
  have m1: "mapE (blocked_index a) ?occ = Inr (map (index_of a) ?occ)"
    using occupied_tokens_set [OF assms(1), of l] occupied_safe [OF assms(1)] small
    by (intro mapE_total) (auto intro: blocked_index_safe(1))
  have m2: "mapE (\<lambda>x. blocked_index a (rt_value x)) ?rs = Inr (map (\<lambda>x. index_of a (rt_value x)) ?rs)"
    using res small by (intro mapE_total) (auto intro: blocked_index_safe(1))
  have range: "?lo \<le> i \<and> i < ?hi" if "i \<in> set ?B" for i
    using that blocked_index_safe(2,3) [OF safe] small unfolding set_blocked by (force simp: blocked_of_length_def)
  have strict: "sorted_wrt (<) ?B" by (simp add: strict_sorted_iff)
  have above: "\<forall>v\<in>set ?B. ?lo - 1 < v" using range by force
  have R: "{?lo - 1<..?hi - 1} = {?lo..<?hi}" by auto
  have "card ({?lo..<?hi} - set ?B) = card {?lo..<?hi} - card (set ?B)"
    using range by (intro card_Diff_subset) auto
  moreover have "card (set ?B) = length ?B" by (intro distinct_card) simp
  moreover have "card (set ?B) \<le> card {?lo..<?hi}" using range by (intro card_mono) auto
  moreover have "int (card {?lo..<?hi}) = class_size ?b l"
    using class_low_next [OF l, of ?b] by (simp add: class_size_def)
  ultimately have count: "int (card ({?lo..<?hi} - set ?B)) = class_size ?b l - int (length ?B)" by linarith
  obtain t0 where t0: "t0 \<in> free_of_length db d a (res_tokens g) l" using free by blast
  have "index_of a t0 \<in> {?lo..<?hi}"
    using t0 blocked_index_safe(2,3) [of t0 a] small by (auto simp: free_of_length_def)
  moreover have "index_of a t0 \<notin> set ?B"
  proof
    assume "index_of a t0 \<in> set ?B"
    then obtain t where t: "t \<in> blocked_of_length db d (res_tokens g) l" "index_of a t = index_of a t0"
      unfolding set_blocked by auto
    then have "t = t0" using safe [OF t(1)] t0 index_of_inj [of t a t0] by (auto simp: free_of_length_def blocked_of_length_def)
    then show False using t(1) t0 by (auto simp: free_of_length_def blocked_of_length_def)
  qed
  ultimately have pos: "0 < int (card ({?lo..<?hi} - set ?B))" by (auto simp: card_gt_0_iff)
  let ?j = "randbelow tp k (class_size ?b l - int (length ?B))"
  have j: "0 \<le> ?j" "?j < class_size ?b l - int (length ?B)"
    using tape_source.draw_range [of "class_size ?b l - int (length ?B)"] pos count by auto
  let ?i = "gap_walk (?lo - 1) ?j ?B"
  have i: "?lo \<le> ?i" "?i \<notin> set ?B" using gap_walk_spec [OF strict above j(1)] by auto
  have "?i \<le> ?hi - 1" using j count by (intro gap_walk_le [OF strict above]) (auto simp: R)
  then obtain t where t: "token_at ?i (int l) a = Inr t" "is_safe_token t a" "length t = l" "token_index t a = Inr ?i"
    using token_at_class [OF assms(2,3) l, of ?i] i(1) by (auto simp: class_low_def)
  have it: "index_of a t = ?i" using t token_index_eq [OF t(2)] by (simp add: index_of_def)
  have "t \<notin> blocked_of_length db d (res_tokens g) l"
  proof
    assume "t \<in> blocked_of_length db d (res_tokens g) l"
    then have "index_of a t \<in> set ?B" unfolding set_blocked by (rule imageI)
    then show False using i(2) it by simp
  qed
  then have "t \<in> free_of_length db d a (res_tokens g) l" using t by (auto simp: free_of_length_def blocked_of_length_def)
  moreover have "exact_fungible_walk tp k db d g a ?b l = Inr t"
    using token_space_class_low [OF l b] m1 m2 t(1) j by (simp add: exact_fungible_walk_def Let_def)
  ultimately show thesis using that by blast
qed

section \<open>Every selected token is free\<close>

lemma class_probe:
  assumes "distinct a" and "a \<noteq> []" and "1 \<le> l"
  obtains t where "token_at (class_low (int (length a)) l + randbelow tp k (class_size (int (length a)) l)) (int l) a = Inr t"
    and "is_safe_token t a" and "length t = l"
proof -
  let ?b = "int (length a)"
  have "0 < class_size ?b l" using assms(2) by (simp add: class_size_def)
  then have "0 \<le> randbelow tp k (class_size ?b l)" "randbelow tp k (class_size ?b l) < class_size ?b l"
    using tape_source.draw_range by auto
  then show thesis
    using token_at_class [OF assms, of "class_low ?b l + randbelow tp k (class_size ?b l)"]
      class_low_next [OF assms(3), of ?b] that by (auto simp: class_low_def)
qed

lemma probe_fungible_spec:
  assumes "distinct a" and "a \<noteq> []" and "1 \<le> l"
  obtains r k' where "probe_fungible n tp k db d g a (int (length a)) (class_low (int (length a)) l) l v = Inr (r, k')"
    and "\<And>t. r = Some t \<Longrightarrow> t \<in> free_of_length db d a (res_tokens g) l"
proof -
  have "\<exists>r k'. probe_fungible n tp k db d g a (int (length a)) (class_low (int (length a)) l) l v = Inr (r, k')
      \<and> (\<forall>t. r = Some t \<longrightarrow> t \<in> free_of_length db d a (res_tokens g) l)"
  proof (induction n arbitrary: k)
    case (Suc n)
    obtain t where t: "token_at (class_low (int (length a)) l + randbelow tp k (class_size (int (length a)) l)) (int l) a = Inr t"
      "is_safe_token t a" "length t = l" using class_probe [OF assms] .
    show ?case
    proof (cases "t = v \<or> token_occupied db d t \<or> reserved_token_blocked g t")
      case True
      then show ?thesis using Suc.IH [of "Suc k"] t(1) by simp
    next
      case False
      then have "t \<in> free_of_length db d a (res_tokens g) l"
        using t by (auto simp: free_of_length_def reserved_token_blocked_def list_ex_iff)
      then show ?thesis using False t(1) by simp
    qed
  qed simp
  then show thesis using that by blast
qed

lemma select_fungible_spec:
  assumes "persisted_safe a d db" and "distinct a" and "a \<noteq> []" and "1 \<le> l"
    and "geometric (int (length a)) l \<le> 2 ^ 63"
    and "\<forall>x\<in>set (res_tokens g). is_safe_token (rt_value x) a"
    and "free_of_length db d a (res_tokens g) l \<noteq> {}"
  obtains t k' where "select_fungible_token tp k db d g a (int (length a)) l v = Inr (t, k')"
    and "t \<in> free_of_length db d a (res_tokens g) l"
proof -
  have b: "1 \<le> int (length a)" using assms(3) by (cases a) auto
  obtain r k1 where p: "probe_fungible TEXT_PROBE_BUDGET tp k db d g a (int (length a)) (class_low (int (length a)) l) l v = Inr (r, k1)"
    and r: "\<And>t. r = Some t \<Longrightarrow> t \<in> free_of_length db d a (res_tokens g) l"
    using probe_fungible_spec [OF assms(2,3,4)] by blast
  note low = token_space_class_low [OF assms(4) b]
  show thesis
  proof (cases r)
    case None
    obtain t where "exact_fungible_walk tp k1 db d g a (int (length a)) l = Inr t"
      and "t \<in> free_of_length db d a (res_tokens g) l" using exact_fungible_walk_spec [OF assms] .
    then show thesis using that [of t "Suc k1"] p low None by (simp add: select_fungible_token_def)
  next
    case (Some t)
    then show thesis using that [of t k1] p low r by (simp add: select_fungible_token_def)
  qed
qed

section \<open>The partition the solver proved stays sufficient\<close>

text \<open>
  \<open>db\<close> is the vault when the assignment was solved and \<open>ts\<close> the tokens committed since, for the first
  originals in order. As long as each came from its own resource, the next original still finds a free
  token of its class, or its reserved token untouched.
\<close>

definition resource_tokens :: "database \<Rightarrow> string \<Rightarrow> pystr \<Rightarrow> residual \<Rightarrow> resource \<Rightarrow> pystr set" where
  "resource_tokens db d a g r =
     (case r of ClassR l \<Rightarrow> free_of_length db d a (res_tokens g) l | TokenR t \<Rightarrow> {rt_value (res_tokens g ! t)})"

definition progress_ok :: "database \<Rightarrow> string \<Rightarrow> pystr \<Rightarrow> residual \<Rightarrow> pystr list \<Rightarrow> database \<Rightarrow> bool" where
  "progress_ok db d a g ts db' \<longleftrightarrow> persisted_safe a d db'
     \<and> text_assoc d db' = text_assoc d db @ zip (map ro_value (res_originals g)) ts
     \<and> length ts \<le> length (res_originals g) \<and> distinct ts
     \<and> (\<forall>j < length ts. ts ! j \<in> resource_tokens db d a g (the (res_assign g ! j)))"

definition solved :: "database \<Rightarrow> string \<Rightarrow> pystr \<Rightarrow> residual \<Rightarrow> bool" where
  "solved db d a g \<longleftrightarrow> graph_ok db d a g \<and> persisted_safe a d db \<and> distinct a \<and> a \<noteq> []
     \<and> matching_inv (initial_caps db d (int (length a)) (res_originals g)) g
     \<and> (\<forall>i < length (res_originals g). res_assign g ! i \<noteq> None)
     \<and> (\<forall>i l. i < length (res_originals g) \<longrightarrow> res_assign g ! i = Some (ClassR l) \<longrightarrow> geometric (int (length a)) l \<le> 2 ^ 63)
     \<and> (\<forall>x\<in>set (res_originals g). ro_width x < 2 ^ 63)"

lemma progress_occupied:
  assumes "progress_ok db d a g ts db'" and "text_domain_ok d db"
  shows "token_occupied db' d t \<longleftrightarrow> token_occupied db d t \<or> t \<in> set ts"
proof -
  have ok: "text_domain_ok d db'" using assms(1) by (simp add: progress_ok_def persisted_safe_def)
  have "map snd (zip (map ro_value (res_originals g)) ts) = ts" using assms(1) by (simp add: progress_ok_def map_snd_zip_take)
  then have "snd ` set (zip (map ro_value (res_originals g)) ts) = set ts" by (metis set_map)
  then show ?thesis
    using assms(1) by (auto simp: token_occupied_iff [OF ok] token_occupied_iff [OF assms(2)] progress_ok_def image_Un)
qed

lemma solved_resource:
  assumes "solved db d a g" and "i < length (res_originals g)"
  obtains r where "res_assign g ! i = Some r" and "allowed g i r"
    and "card (holders (res_assign g) r) \<le> slots (initial_caps db d (int (length a)) (res_originals g)) r"
proof -
  obtain r where r: "res_assign g ! i = Some r" using assms by (auto simp: solved_def)
  have "allowed g i r" "card (holders (res_assign g) r) \<le> slots (initial_caps db d (int (length a)) (res_originals g)) r"
    using assms r by (auto simp: solved_def matching_inv_def within_def)
  then show thesis using that r by blast
qed

lemma class_still_free:
  assumes s: "solved db d a g" and p: "progress_ok db d a g ts db'"
    and i: "length ts < length (res_originals g)" and r: "res_assign g ! length ts = Some (ClassR l)"
  shows "free_of_length db' d a (res_tokens g) l \<noteq> {}"
proof
  assume empty: "free_of_length db' d a (res_tokens g) l = {}"
  have g: "graph_ok db d a g" and ps: "persisted_safe a d db" and a: "distinct a" and ok: "text_domain_ok d db"
    and len: "length (res_assign g) = length (res_originals g)"
    using s by (auto simp: solved_def persisted_safe_def matching_inv_def)
  have al: "allowed g (length ts) (ClassR l)"
    and c: "card (holders (res_assign g) (ClassR l)) \<le> slots (initial_caps db d (int (length a)) (res_originals g)) (ClassR l)"
    using solved_resource [OF s i] r by auto
  have l: "1 \<le> l" "l \<le> max_width (res_originals g)"
    using al max_width_ge [OF nth_mem [OF i]] by (auto simp: allowed_def)
  let ?F = "free_of_length db d a (res_tokens g) l" and ?J = "{j. j < length ts \<and> res_assign g ! j = Some (ClassR l)}"
  have "?F \<subseteq> (\<lambda>j. ts ! j) ` ?J"
  proof
    fix t assume t: "t \<in> ?F"
    then have "token_occupied db' d t" using empty by (auto simp: free_of_length_def)
    then obtain j where j: "j < length ts" "ts ! j = t"
      using t progress_occupied [OF p ok] by (auto simp: free_of_length_def in_set_conv_nth)
    have "j < length (res_originals g)" using j(1) i by simp
    then obtain r' where r': "res_assign g ! j = Some r'" "allowed g j r'" using solved_resource [OF s] by blast
    have "t \<in> resource_tokens db d a g r'" using p j r' by (auto simp: progress_ok_def)
    then have "r' = ClassR l" using t r'(2)
      by (cases r') (auto simp: resource_tokens_def free_of_length_def allowed_def)
    then show "t \<in> (\<lambda>j. ts ! j) ` ?J" using j r' by auto
  qed
  then have "card ?F \<le> card ((\<lambda>j. ts ! j) ` ?J)" by (intro card_mono) auto
  also have "\<dots> \<le> card ?J" by (rule card_image_le) simp
  also have "\<dots> < card (holders (res_assign g) (ClassR l))"
    using i r len by (intro psubset_card_mono finite_holders) (auto simp: holders_def)
  also have "\<dots> \<le> card ?F" using c slots_class(1) [OF g ps a l] by simp
  finally show False by simp
qed

lemma materialize_one_spec:
  assumes s: "solved db d a g" and p: "progress_ok db d a g ts db'" and i: "length ts < length (res_originals g)"
  obtains t k' where "materialize_one tp k db' d g a (int (length a)) (length ts) = Inr (t, k')"
    and "t \<in> resource_tokens db d a g (the (res_assign g ! length ts))" and "\<not> token_occupied db' d t"
proof -
  have g: "graph_ok db d a g" and ok: "text_domain_ok d db" and a: "distinct a" "a \<noteq> []"
    and len: "length (res_assign g) = length (res_originals g)"
    and once: "token_once (res_assign g)"
    using s matching_token_once by (auto simp: solved_def persisted_safe_def matching_inv_def)
  have ps: "persisted_safe a d db'" using p by (simp add: progress_ok_def)
  obtain r where r: "res_assign g ! length ts = Some r" "allowed g (length ts) r" using solved_resource [OF s i] .
  show thesis
  proof (cases r)
    case (ClassR l)
    have l: "1 \<le> l" using r(2) ClassR by (simp add: allowed_def)
    have small: "geometric (int (length a)) l \<le> 2 ^ 63" using s i r(1) ClassR by (simp add: solved_def)
    obtain t k' where t: "select_fungible_token tp k db' d g a (int (length a)) l (ro_value (res_originals g ! length ts)) = Inr (t, k')"
      "t \<in> free_of_length db' d a (res_tokens g) l"
      using select_fungible_spec [OF ps a l small] graph_tokens(2) [OF g] class_still_free [OF s p i] r(1) ClassR by blast
    then have "t \<in> free_of_length db d a (res_tokens g) l" "\<not> token_occupied db' d t"
      using progress_occupied [OF p ok] by (auto simp: free_of_length_def)
    then show thesis using that [of t k'] t(1) r(1) ClassR by (simp add: materialize_one_def resource_tokens_def)
  next
    case (TokenR tid)
    have tid: "tid < length (res_tokens g)" using r(2) TokenR by (simp add: allowed_def)
    let ?t = "rt_value (res_tokens g ! tid)"
    have "?t \<notin> set ts"
    proof
      assume "?t \<in> set ts"
      then obtain j where j: "j < length ts" "ts ! j = ?t" by (auto simp: in_set_conv_nth)
      have jn: "j < length (res_originals g)" using j(1) i by simp
      obtain r' where r': "res_assign g ! j = Some r'" "allowed g j r'" using solved_resource [OF s jn] .
      have "?t \<in> resource_tokens db d a g r'" using p j r' by (auto simp: progress_ok_def)
      then have "r' = TokenR tid"
        using r'(2) tid nth_eq_iff_index_eq [OF graph_tokens(1) [OF g], of tid]
        by (cases r') (auto simp: resource_tokens_def free_of_length_def allowed_def)
      then have "{j, length ts} \<subseteq> holders (res_assign g) (TokenR tid)" using r' r(1) TokenR len jn i by (auto simp: holders_def)
      then have "card {j, length ts} \<le> card (holders (res_assign g) (TokenR tid))" by (intro card_mono) auto
      moreover have "card (holders (res_assign g) (TokenR tid)) \<le> 1" using once by (simp add: token_once_def)
      ultimately show False using j(1) by simp
    qed
    then have "\<not> token_occupied db' d ?t"
      using progress_occupied [OF p ok] graph_tokens(2) [OF g] tid by auto
    then show thesis using that [of ?t k] r(1) TokenR tid by (simp add: materialize_one_def resource_tokens_def)
  qed
qed

end
