(* ===== verification/Pass_One_Text.thy ===== *)
theory Pass_One_Text
  imports Pass_Spool Text_Materialization
begin

text \<open>
  The state of one engine run and the text half of \<open>run_pass_one_finalize\<close>
  (\<^verbatim>\<open>src/src/dbf_anonymizer/engine/pass1.py\<close>, \<open>_finalize_text\<close>): persisted originals are reused, the
  rest is solved exactly and materialized one mapping per vault transaction. Cooperative
  cancellation (\<^verbatim>\<open>progress.py\<close>, \<open>check_cancelled\<close>) is a tape of callback outcomes. When the solver
  refuses, the residual tables are left as they were; the run discards its spool then.
\<close>

section \<open>The run state\<close>

record engine = vault +
  en_spool :: spool
  en_draws :: nat
  en_checks :: nat

type_synonym 'a engine_op = "engine \<Rightarrow> 'a result \<times> engine"

datatype cancel_outcome = Continue | CancelRequested | CallbackRaised

type_synonym cancel_tape = "nat \<Rightarrow> cancel_outcome"

fun cancel_result :: "cancel_outcome \<Rightarrow> unit result" where
  "cancel_result Continue = Inr ()"
| "cancel_result CancelRequested = Inl (CancellationError OPERATION_CANCELLED ''CANCELLED_BY_CHECK'')"
| "cancel_result CallbackRaised = Inl (CallbackError CANCEL_CALLBACK_FAILED ''CANCEL_CHECK'')"

definition check_cancelled :: "cancel_tape \<Rightarrow> unit engine_op" where
  "check_cancelled ct e = (cancel_result (ct (en_checks e)), e\<lparr>en_checks := Suc (en_checks e)\<rparr>)"

definition pass1_mapping_failure :: "string \<Rightarrow> error" where
  "pass1_mapping_failure detail = MappingError MAPPING_CONSTRAINT_INFEASIBLE detail"

definition pass1_capacity_failure :: "string \<Rightarrow> error" where
  "pass1_capacity_failure detail = MappingError MAPPING_CAPACITY_EXHAUSTED detail"

text \<open>\<open>dom-\<close> and the first sixteen hex digits of the SHA-256 of the domain's fixed constant.\<close>

definition GLOBAL_TEXT_DOMAIN_ID :: string where "GLOBAL_TEXT_DOMAIN_ID = ''dom-6eb26518e3520ed1''"

definition on_spool :: "(spool \<Rightarrow> spool result) \<Rightarrow> unit engine_op" where
  "on_spool f e = (case f (en_spool e) of Inl err \<Rightarrow> (Inl err, e) | Inr s \<Rightarrow> (Inr (), e\<lparr>en_spool := s\<rparr>))"

section \<open>Text finalization\<close>

definition ensure_domain_of_kind :: "string \<Rightarrow> string \<Rightarrow> unit engine_op" where
  "ensure_domain_of_kind kind d =
     bindV (has_domain d) (\<lambda>present.
       if present then retV ()
       else with_transaction (bindV (has_domain d) (\<lambda>present.
         if present then retV ()
         else bindV (create_domain kind None None (Some d) []) (\<lambda>_. retV ()))))"

text \<open>One row of the reuse loop: the number of reused mappings it adds.\<close>

definition reuse_text_row :: "cancel_tape \<Rightarrow> string \<Rightarrow> bytes \<times> int \<Rightarrow> nat engine_op" where
  "reuse_text_row ct d row =
     (case utf8_decode (fst row) of
        None \<Rightarrow> failV ValueError
      | Some v \<Rightarrow>
          bindV (check_cancelled ct) (\<lambda>_.
          bindV (get_text_pseudonym d v) (\<lambda>existing.
            case existing of
              None \<Rightarrow> retV 0
            | Some p \<Rightarrow>
                if int (length p) > snd row then failV (pass1_mapping_failure ''ENGINE_TEXT_PERSISTED_INCOMPATIBLE'')
                else bindV (on_spool (drop_text_observation v)) (\<lambda>_. retV 1))))"

fun solve_loop_probed :: "cancel_tape \<Rightarrow> nat \<Rightarrow> nat list \<Rightarrow> residual \<Rightarrow> residual result \<times> nat" where
  "solve_loop_probed ct k [] g = (Inr g, k)"
| "solve_loop_probed ct k (i # is) g =
     (case cancel_result (ct k) of
        Inl err \<Rightarrow> (Inl err, Suc k)
      | Inr _ \<Rightarrow>
          (case augment i g of
             (Inl err, g') \<Rightarrow> (Inl err, Suc k)
           | (Inr found, g') \<Rightarrow>
               if found then solve_loop_probed ct (Suc k) is g'
               else (Inl (residual_failure ''ENGINE_TEXT_RESIDUAL_INFEASIBLE''), Suc k)))"

text \<open>\<open>solve_text_residual\<close> with the run's cancellation probe before every augmentation.\<close>

definition solve_text_residual_probed :: "cancel_tape \<Rightarrow> string \<Rightarrow> pystr \<Rightarrow> unit engine_op" where
  "solve_text_residual_probed ct d alphabet =
     bindV internal_connection (\<lambda>db e.
       let base = int (length alphabet)
       in case build_residual_graph db d alphabet base (stored_observations (en_spool e)) of
            Inl err \<Rightarrow> (Inl err, e)
          | Inr g0 \<Rightarrow>
              (case solve_loop_probed ct (en_checks e) [0..<length (res_originals g0)] g0 of
                 (Inl err, k) \<Rightarrow> (Inl err, e\<lparr>en_checks := k\<rparr>)
               | (Inr g1, k) \<Rightarrow>
                   let g2 = g1\<lparr>res_visited := [], res_dfs := []\<rparr>
                   in case validate_residual_assignment db d base g2 of
                        Inl err \<Rightarrow> (Inl err, e\<lparr>en_checks := k\<rparr>)
                      | Inr _ \<Rightarrow> (Inr (), e\<lparr>en_checks := k, en_spool := (en_spool e)\<lparr>sp_graph := g2\<rparr>\<rparr>)))"

text \<open>One mapping of the materialized stream: selected, committed in its own unit, then dropped.\<close>

definition allocate_text_row :: "tape \<Rightarrow> cancel_tape \<Rightarrow> string \<Rightarrow> pystr \<Rightarrow> nat \<Rightarrow> unit engine_op" where
  "allocate_text_row t ct d alphabet i =
     bindV internal_connection (\<lambda>db e.
       case materialize_one t (en_draws e) db d (sp_graph (en_spool e)) alphabet (int (length alphabet)) i of
         Inl err \<Rightarrow> (Inl err, e)
       | Inr (token, k) \<Rightarrow>
           bindV (check_cancelled ct) (\<lambda>_.
           bindV (with_transaction (add_text_mapping d (ro_value (res_originals (sp_graph (en_spool e)) ! i)) token
                    (int (length token)))) (\<lambda>_.
             on_spool (drop_text_observation (ro_value (res_originals (sp_graph (en_spool e)) ! i)))))
             (e\<lparr>en_draws := k\<rparr>))"

definition finalize_text :: "tape \<Rightarrow> cancel_tape \<Rightarrow> codec \<Rightarrow> (string option \<times> nat \<times> nat) engine_op" where
  "finalize_text t ct codec e =
     (let encodings = text_encoding_union (en_spool e); alphabet = candidate_alphabet codec encodings;
          d = GLOBAL_TEXT_DOMAIN_ID
      in if encodings = [] then (Inr (None, 0, 0), e)
         else if alphabet = [] then (Inl (pass1_mapping_failure ''ENGINE_TEXT_NO_SAFE_ALPHABET''), e)
         else
           bindV (ensure_domain_of_kind KIND_TEXT d) (\<lambda>_ e1.
           bindV (mapV (reuse_text_row ct d) (text_observation_rows (flush (en_spool e1)))) (\<lambda>reused e2.
             if width_infeasible (en_spool e2) then (Inl (pass1_mapping_failure ''ENGINE_TEXT_WIDTH_INFEASIBLE''), e2)
             else
               bindV (solve_text_residual_probed ct d alphabet) (\<lambda>_ e3.
               bindV (mapV (allocate_text_row t ct d alphabet) [0..<length (res_originals (sp_graph (en_spool e3)))]) (\<lambda>rows e4.
                 (Inr (Some d, length rows, sum_list reused), e4\<lparr>en_spool := (en_spool e4)\<lparr>sp_graph := empty_residual\<rparr>\<rparr>)) e3) e2)
             (e1\<lparr>en_spool := flush (en_spool e1)\<rparr>)) e)"

section \<open>Uncancelled runs\<close>

definition quiet :: "cancel_tape \<Rightarrow> bool" where "quiet ct \<longleftrightarrow> (\<forall>k. ct k = Continue)"

lemma check_cancelled_quiet [simp]: "quiet ct \<Longrightarrow> check_cancelled ct e = (Inr (), e\<lparr>en_checks := Suc (en_checks e)\<rparr>)"
  by (simp add: check_cancelled_def quiet_def)

lemma solve_loop_quiet: "quiet ct \<Longrightarrow> fst (solve_loop_probed ct k is g) = solve_loop is g"
  by (induction "is" arbitrary: k g) (auto simp: quiet_def split: prod.splits sum.splits)

lemma solve_probed_quiet:
  assumes "quiet ct" and "usable e"
  obtains k where "solve_text_residual_probed ct d a e =
     (case solve_text_residual (working e) d a (int (length a)) (stored_observations (en_spool e)) of
        Inl err \<Rightarrow> (Inl err, e\<lparr>en_checks := k\<rparr>)
      | Inr g \<Rightarrow> (Inr (), e\<lparr>en_checks := k, en_spool := (en_spool e)\<lparr>sp_graph := g\<rparr>\<rparr>))"
proof (cases "build_residual_graph (working e) d a (int (length a)) (stored_observations (en_spool e))")
  case (Inl err)
  then show thesis using assms that [of "en_checks e"] by (simp add: solve_text_residual_probed_def solve_text_residual_def Let_def)
next
  case (Inr g0)
  let ?p = "solve_loop_probed ct (en_checks e) [0..<length (res_originals g0)] g0"
  have "fst ?p = solve_loop [0..<length (res_originals g0)] g0" using solve_loop_quiet [OF assms(1)] .
  then show thesis using assms Inr that [of "snd ?p"]
    by (cases ?p) (auto simp: solve_text_residual_probed_def solve_text_residual_def Let_def split: sum.splits)
qed

section \<open>The reuse loop\<close>

definition mapped_in :: "database \<Rightarrow> string \<Rightarrow> bytes \<Rightarrow> bool" where
  "mapped_in db d c \<longleftrightarrow> (\<exists>v. utf8_decode c = Some v \<and> v \<in> fst ` set (text_assoc d db))"

lemma get_text_pseudonym_usable:
  assumes "usable v" and "text_domain_ok d (working v)" and "bindable k"
  shows "get_text_pseudonym d k v = (Inr (map_of (text_assoc d (working v)) k), v)"
  using assms by (simp add: get_text_pseudonym_def text_pseudonym_assoc bind_text_def guardE_def bindable_def)

lemma usable_engine [simp]:
  "usable (e\<lparr>en_checks := k\<rparr>) = usable e" "usable (e\<lparr>en_spool := s\<rparr>) = usable e" "usable (e\<lparr>en_draws := j\<rparr>) = usable e"
  "healthy (e\<lparr>en_checks := k\<rparr>) = healthy e" "healthy (e\<lparr>en_spool := s\<rparr>) = healthy e" "healthy (e\<lparr>en_draws := j\<rparr>) = healthy e"
  by (simp_all add: usable_def healthy_def authority_ok_def vault_idle_def)

lemma reuse_text_row_spec:
  assumes "quiet ct" and "usable e" and "text_domain_ok d (working e)" and "utf8_encode v = Some c"
    and "\<forall>p. (v, p) \<in> set (text_assoc d (working e)) \<longrightarrow> int (length p) \<le> w"
  shows "reuse_text_row ct d (c, w) e =
    (Inr (if mapped_in (working e) d c then 1 else 0),
     e\<lparr>en_checks := Suc (en_checks e),
       en_spool := (en_spool e)\<lparr>sp_text := filter (\<lambda>r. \<not> (fst r = c \<and> mapped_in (working e) d c)) (sp_text (en_spool e))\<rparr>\<rparr>)"
proof (cases "map_of (text_assoc d (working e)) v")
  case None
  then have "\<not> mapped_in (working e) d c"
    using utf8_roundtrip [OF assms(4)] by (auto simp: mapped_in_def map_of_eq_None_iff)
  then show ?thesis
    using assms None utf8_roundtrip [OF assms(4)]
    by (simp add: reuse_text_row_def get_text_pseudonym_usable bindable_def)
next
  case (Some p)
  then have m: "(v, p) \<in> set (text_assoc d (working e))" by (rule map_of_SomeD)
  then have "mapped_in (working e) d c" using utf8_roundtrip [OF assms(4)] by (force simp: mapped_in_def)
  moreover have "int (length p) \<le> w" using m assms(5) by blast
  ultimately show ?thesis
    using assms Some utf8_roundtrip [OF assms(4)]
    by (simp add: reuse_text_row_def get_text_pseudonym_usable bindable_def on_spool_def drop_text_observation_def
        canonical_text_identity_def)
qed

lemma reuse_loop_spec:
  assumes "quiet ct" and "usable e" and "text_domain_ok d (working e)"
    and "\<forall>(c, w)\<in>set rows. \<exists>v. utf8_encode v = Some c
          \<and> (\<forall>p. (v, p) \<in> set (text_assoc d (working e)) \<longrightarrow> int (length p) \<le> w)"
  shows "\<exists>k. mapV (reuse_text_row ct d) rows e =
    (Inr (map (\<lambda>(c, w). if mapped_in (working e) d c then 1 else 0) rows),
     e\<lparr>en_checks := k, en_spool := (en_spool e)\<lparr>sp_text :=
         filter (\<lambda>r. \<not> (fst r \<in> fst ` set rows \<and> mapped_in (working e) d (fst r))) (sp_text (en_spool e))\<rparr>\<rparr>)"
  using assms
proof (induction rows arbitrary: e)
  case Nil
  then show ?case by (intro exI [of _ "en_checks e"]) simp
next
  case (Cons r rows)
  obtain c w where r: "r = (c, w)" by (cases r)
  obtain v where v: "utf8_encode v = Some c" "\<forall>p. (v, p) \<in> set (text_assoc d (working e)) \<longrightarrow> int (length p) \<le> w"
    using Cons.prems(4) r by auto
  let ?e = "e\<lparr>en_checks := Suc (en_checks e),
       en_spool := (en_spool e)\<lparr>sp_text := filter (\<lambda>r. \<not> (fst r = c \<and> mapped_in (working e) d c)) (sp_text (en_spool e))\<rparr>\<rparr>"
  have 1: "reuse_text_row ct d r e = (Inr (if mapped_in (working e) d c then 1 else 0), ?e)"
    unfolding r by (rule reuse_text_row_spec [OF Cons.prems(1-3) v])
  obtain k where "mapV (reuse_text_row ct d) rows ?e =
    (Inr (map (\<lambda>(c, w). if mapped_in (working ?e) d c then 1 else 0) rows),
     ?e\<lparr>en_checks := k, en_spool := (en_spool ?e)\<lparr>sp_text :=
         filter (\<lambda>r. \<not> (fst r \<in> fst ` set rows \<and> mapped_in (working ?e) d (fst r))) (sp_text (en_spool ?e))\<rparr>\<rparr>)"
    using Cons.IH [of ?e] Cons.prems by auto
  moreover have "filter (\<lambda>r. \<not> (fst r \<in> fst ` set rows \<and> mapped_in (working e) d (fst r)))
        (filter (\<lambda>r. \<not> (fst r = c \<and> mapped_in (working e) d c)) (sp_text (en_spool e)))
      = filter (\<lambda>q. \<not> (fst q \<in> fst ` set (r # rows) \<and> mapped_in (working e) d (fst q))) (sp_text (en_spool e))"
    unfolding filter_filter r by (rule filter_cong) auto
  ultimately show ?case using 1 r by (intro exI [of _ k]) simp
qed

section \<open>The allocation loop\<close>

lemma geometric_ge: "1 \<le> b \<Longrightarrow> int n \<le> geometric b n"
proof (induction n)
  case (Suc n)
  then have "1 \<le> b ^ Suc n" by (simp only: one_le_power)
  then show ?case using Suc by simp
qed simp

lemma add_text_writable:
  assumes "writable v" and "validate_token d = Inr d" and "bindable k" and "bindable p" and "n < 2 ^ 63"
  shows "add_text_mapping d k p (int n) v =
     (case insert_text (text_insert_row d (int n) k p) (working v) of
        None \<Rightarrow> (Inl (mapping_conflict ''MAPPING_BIJECTION_REJECTED''), v)
      | Some db \<Rightarrow> (Inr (), v\<lparr>working := db\<rparr>))"
proof -
  have "bind_text k = Inr ()" "bind_text p = Inr ()" using assms by (simp_all add: bind_text_def guardE_def bindable_def)
  moreover have "bind_int (int n) = Inr ()" using assms(5) by (simp add: bind_int_def guardE_def)
  ultimately show ?thesis
    using assms by (simp add: add_text_mapping_def execute_insert_usable text_insert_row_def)
qed

lemma safe_bindable:
  assumes "is_safe_token t a" and "\<forall>c\<in>set a. c < 128"
  shows "bindable t"
  using assms utf8_encode_ascii [of t] by (auto simp: bindable_def is_safe_token_iff list_all_iff)

definition values_fresh :: "database \<Rightarrow> string \<Rightarrow> residual \<Rightarrow> bool" where
  "values_fresh db d g \<longleftrightarrow> (\<forall>x\<in>set (res_originals g). bindable (ro_value x) \<and> ro_value x \<notin> fst ` set (text_assoc d db))"

text \<open>What the tokens committed so far look like to their originals.\<close>

lemma resource_token_safe:
  assumes s: "solved db d a g" and i: "i < length (res_originals g)"
    and t: "t \<in> resource_tokens db d a g (the (res_assign g ! i))"
  shows "is_safe_token t a" and "length t \<le> ro_width (res_originals g ! i)" and "t \<noteq> ro_value (res_originals g ! i)"
proof -
  have g: "graph_ok db d a g" using s by (simp add: solved_def)
  obtain r where r: "res_assign g ! i = Some r" "allowed g i r" using solved_resource [OF s i] .
  have "is_safe_token t a \<and> length t \<le> ro_width (res_originals g ! i) \<and> t \<noteq> ro_value (res_originals g ! i)"
    using resource_token_ok [OF g i r(2)] t r(1) by (cases r) (auto simp: resource_tokens_def)
  then show "is_safe_token t a" "length t \<le> ro_width (res_originals g ! i)" "t \<noteq> ro_value (res_originals g ! i)" by auto
qed

lemma zip_snoc: "length ts < length vs \<Longrightarrow> zip vs (ts @ [t]) = zip vs ts @ [(vs ! length ts, t)]"
proof (induction ts arbitrary: vs)
  case Nil
  then show ?case by (cases vs) auto
next
  case (Cons x ts)
  then show ?case by (cases vs) auto
qed

lemma progress_step:
  assumes s: "solved db d a g" and p: "progress_ok db d a g ts db1" and i: "length ts < length (res_originals g)"
    and f: "values_fresh db d g" and a: "\<forall>c\<in>set a. c < 128"
    and t: "t \<in> resource_tokens db d a g (the (res_assign g ! length ts))" "\<not> token_occupied db1 d t"
  obtains db2 where "insert_text (text_insert_row d (int (length t)) (ro_value (res_originals g ! length ts)) t) db1 = Some db2"
    and "progress_ok db d a g (ts @ [t]) db2"
proof -
  let ?v = "ro_value (res_originals g ! length ts)" and ?vs = "map ro_value (res_originals g)"
  let ?row = "text_insert_row d (int (length t)) ?v t"
  have ok: "text_domain_ok d db1" and g: "graph_ok db d a g"
    using p s by (auto simp: progress_ok_def persisted_safe_def solved_def)
  have safe: "is_safe_token t a" using resource_token_safe [OF s i t(1)] by blast
  have assoc: "text_assoc d db1 = text_assoc d db @ zip ?vs ts" using p by (simp add: progress_ok_def)
  have "?v \<notin> set (take (length ts) ?vs)"
  proof
    assume "?v \<in> set (take (length ts) ?vs)"
    then obtain j where "j < length ts" "ro_value (res_originals g ! j) = ?v" using i by (auto simp: in_set_conv_nth)
    then show False using graph_value_inj [OF g, of j "length ts"] i by simp
  qed
  moreover have "fst ` set (zip ?vs ts) \<subseteq> set (take (length ts) ?vs)"
  proof -
    have "map fst (zip ?vs ts) = take (min (length ?vs) (length ts)) ?vs" by (rule map_fst_zip_take)
    then have "fst ` set (zip ?vs ts) = set (take (min (length ?vs) (length ts)) ?vs)" by (metis set_map)
    then show ?thesis using i by (simp add: min_def)
  qed
  moreover have "?v \<notin> fst ` set (text_assoc d db)" "bindable ?v" using f i by (auto simp: values_fresh_def)
  ultimately have vnew: "?v \<notin> fst ` set (text_assoc d db1)" "bindable ?v" unfolding assoc by auto
  have tnew: "t \<notin> snd ` set (text_assoc d db1)" using t(2) token_occupied_iff [OF ok] by simp
  obtain db2 where db2: "insert_text ?row db1 = Some db2" "text_domain_ok d db2"
    "text_assoc d db2 = text_assoc d db1 @ [(?v, t)]"
    using text_insert_fresh [OF ok vnew(2) safe_bindable [OF safe a] vnew(1) tnew] by blast
  have rows: "text_rows_of d db2 = text_rows_of d db1 @ [?row]"
    using db2(1) by (auto simp: insert_text_def text_rows_of_def text_insert_row_def split: if_splits)
  have ps: "persisted_safe a d db2"
    using p db2(2) safe unfolding persisted_safe_def rows progress_ok_def by (auto simp: text_insert_row_def)
  have "zip ?vs (ts @ [t]) = zip ?vs ts @ [(?v, t)]" using zip_snoc [of ts ?vs t] i by simp
  then have "text_assoc d db2 = text_assoc d db @ zip ?vs (ts @ [t])" using db2(3) assoc by simp
  moreover have "distinct (ts @ [t])"
    using p t(2) progress_occupied [OF p] s by (auto simp: progress_ok_def solved_def persisted_safe_def)
  moreover have "\<forall>j < length (ts @ [t]). (ts @ [t]) ! j \<in> resource_tokens db d a g (the (res_assign g ! j))"
    using p t(1) by (auto simp: progress_ok_def nth_append less_Suc_eq)
  ultimately have "progress_ok db d a g (ts @ [t]) db2" using ps i by (auto simp: progress_ok_def)
  then show thesis using that db2(1) by blast
qed

definition alloc_ready :: "database \<Rightarrow> string \<Rightarrow> pystr \<Rightarrow> residual \<Rightarrow> pystr list \<Rightarrow> engine \<Rightarrow> bool" where
  "alloc_ready db d a g ts e \<longleftrightarrow> healthy e \<and> progress_ok db d a g ts (committed e) \<and> sp_graph (en_spool e) = g"

lemma token_length_small:
  assumes "solved db d a g" and "i < length (res_originals g)" and "length t \<le> ro_width (res_originals g ! i)"
  shows "length t < 2 ^ 63"
proof -
  have "ro_width (res_originals g ! i) < 2 ^ 63" using assms(1) nth_mem [OF assms(2)] unfolding solved_def by blast
  then show ?thesis using assms(3) by linarith
qed

lemma allocate_text_row_spec:
  assumes s: "solved db d a g" and r: "alloc_ready db d a g ts e" and i: "length ts < length (res_originals g)"
    and f: "values_fresh db d g" and a: "\<forall>c\<in>set a. c < 128" and "quiet ct" and d: "validate_token d = Inr d"
  obtains t e' where "allocate_text_row tp ct d a (length ts) e = (Inr (), e')" and "alloc_ready db d a g (ts @ [t]) e'"
    and "sp_text (en_spool e') = filter (\<lambda>q. Some (fst q) \<noteq> utf8_encode (ro_value (res_originals g ! length ts))) (sp_text (en_spool e))"
    and "\<exists>rows. committed e' = (committed e)\<lparr>text_mappings_tbl := rows\<rparr>"
proof -
  let ?v = "ro_value (res_originals g ! length ts)"
  have h: "healthy e" and p: "progress_ok db d a g ts (committed e)" and g: "sp_graph (en_spool e) = g"
    using r by (auto simp: alloc_ready_def)
  have w: "working e = committed e" "usable e" using healthy_usable [OF h] by auto
  obtain t k where t: "materialize_one tp (en_draws e) (committed e) d g a (int (length a)) (length ts) = Inr (t, k)"
    "t \<in> resource_tokens db d a g (the (res_assign g ! length ts))" "\<not> token_occupied (committed e) d t"
    using materialize_one_spec [OF s p i] .
  obtain db2 where db2: "insert_text (text_insert_row d (int (length t)) ?v t) (committed e) = Some db2"
    "progress_ok db d a g (ts @ [t]) db2" using progress_step [OF s p i f a t(2,3)] .
  obtain tbl where tbl: "db2 = (committed e)\<lparr>text_mappings_tbl := tbl\<rparr>" using insert_text_frame [OF db2(1)] by blast
  let ?e = "e\<lparr>en_draws := k, en_checks := Suc (en_checks e)\<rparr>" and ?u = "txn_start True (e\<lparr>en_draws := k, en_checks := Suc (en_checks e)\<rparr>)"
  have he: "healthy ?e" using h by simp
  have wu: "writable ?u" "working ?u = committed e" using healthy_txn_start [OF he] by (simp_all add: txn_start_def)
  have bind: "bindable ?v" "bindable t" "length t < 2 ^ 63"
    using f i safe_bindable [OF _ a] resource_token_safe [OF s i t(2)] token_length_small [OF s i]
    by (auto simp: values_fresh_def)
  have "add_text_mapping d ?v t (int (length t)) ?u = (Inr (), ?u\<lparr>working := db2\<rparr>)"
    using add_text_writable [OF wu(1) d bind] db2(1) wu(2) by simp
  then have txn: "with_transaction (add_text_mapping d ?v t (int (length t))) ?e
      = (Inr (), ?u\<lparr>working := db2, txn_active := False, committed := db2\<rparr>)"
    using with_transaction_healthy [OF body_ok_recorders(4) he] by simp
  obtain c where c: "utf8_encode ?v = Some c" using bind(1) by (auto simp: bindable_def)
  let ?w = "?u\<lparr>working := db2, txn_active := False, committed := db2\<rparr>"
  let ?e' = "?w\<lparr>en_spool := (en_spool e)\<lparr>sp_text := filter (\<lambda>q. fst q \<noteq> c) (sp_text (en_spool e))\<rparr>\<rparr>"
  have sp: "en_spool ?w = en_spool e" by (simp add: txn_start_def)
  have "allocate_text_row tp ct d a (length ts) e = (Inr (), ?e')"
    using t(1) w g txn assms(6) c sp
    by (simp add: allocate_text_row_def on_spool_def drop_text_observation_def canonical_text_identity_def)
  moreover have "healthy ?w" using he tbl
    by (simp add: healthy_def authority_ok_def vault_idle_def txn_start_def)
  then have "alloc_ready db d a g (ts @ [t]) ?e'" using db2(2) g by (simp add: alloc_ready_def)
  moreover have "sp_text (en_spool ?e') = filter (\<lambda>q. Some (fst q) \<noteq> utf8_encode ?v) (sp_text (en_spool e))"
    by (simp add: c)
  moreover have "\<exists>rows. committed ?e' = (committed e)\<lparr>text_mappings_tbl := rows\<rparr>" using tbl by auto
  ultimately show thesis by (rule that)
qed

lemma allocate_text_loop:
  assumes s: "solved db d a g" and f: "values_fresh db d g" and a: "\<forall>c\<in>set a. c < 128" and q: "quiet ct"
    and d: "validate_token d = Inr d"
  shows "alloc_ready db d a g ts e \<Longrightarrow> length ts + m = length (res_originals g) \<Longrightarrow>
    \<exists>ts' us e'. mapV (allocate_text_row tp ct d a) [length ts..<length (res_originals g)] e = (Inr us, e')
      \<and> length us = m \<and> alloc_ready db d a g ts' e' \<and> length ts' = length (res_originals g)
      \<and> sp_text (en_spool e') = filter (\<lambda>q. \<forall>i\<in>{length ts..<length (res_originals g)}.
            Some (fst q) \<noteq> utf8_encode (ro_value (res_originals g ! i))) (sp_text (en_spool e))
      \<and> (\<exists>rows. committed e' = (committed e)\<lparr>text_mappings_tbl := rows\<rparr>)"
proof (induction m arbitrary: ts e)
  case 0
  then show ?case by (intro exI [of _ ts] exI [of _ "[]"] exI [of _ e]) (auto intro: exI [of _ "text_mappings_tbl (committed e)"])
next
  case (Suc m)
  let ?n = "length (res_originals g)"
  have i: "length ts < ?n" using Suc.prems(2) by simp
  obtain t e1 where e1: "allocate_text_row tp ct d a (length ts) e = (Inr (), e1)" "alloc_ready db d a g (ts @ [t]) e1"
    "sp_text (en_spool e1) = filter (\<lambda>q. Some (fst q) \<noteq> utf8_encode (ro_value (res_originals g ! length ts))) (sp_text (en_spool e))"
    "\<exists>rows. committed e1 = (committed e)\<lparr>text_mappings_tbl := rows\<rparr>"
    using allocate_text_row_spec [OF s Suc.prems(1) i f a q d] .
  obtain ts' us e' where e': "mapV (allocate_text_row tp ct d a) [length (ts @ [t])..<?n] e1 = (Inr us, e')" "length us = m"
    "alloc_ready db d a g ts' e'" "length ts' = ?n"
    "sp_text (en_spool e') = filter (\<lambda>q. \<forall>i\<in>{length (ts @ [t])..<?n}.
            Some (fst q) \<noteq> utf8_encode (ro_value (res_originals g ! i))) (sp_text (en_spool e1))"
    "\<exists>rows. committed e' = (committed e1)\<lparr>text_mappings_tbl := rows\<rparr>"
    using Suc.IH [OF e1(2)] Suc.prems(2) by auto
  have upt: "[length ts..<?n] = length ts # [length (ts @ [t])..<?n]" using i by (simp add: upt_conv_Cons)
  have "mapV (allocate_text_row tp ct d a) [length ts..<?n] e = (Inr (() # us), e')" unfolding upt using e1(1) e'(1) by simp
  moreover have "{length ts..<?n} = insert (length ts) {length (ts @ [t])..<?n}" using i by auto
  then have "sp_text (en_spool e') = filter (\<lambda>q. \<forall>i\<in>{length ts..<?n}.
            Some (fst q) \<noteq> utf8_encode (ro_value (res_originals g ! i))) (sp_text (en_spool e))"
    unfolding e'(5) e1(3) filter_filter by (intro filter_cong) auto
  moreover have "\<exists>rows. committed e' = (committed e)\<lparr>text_mappings_tbl := rows\<rparr>" using e1(4) e'(6) by auto
  ultimately show ?case using e'(2-4) by (intro exI [of _ ts'] exI [of _ "() # us"] exI [of _ e']) simp
qed

section \<open>The whole finalization\<close>

definition domain_ensured :: "string \<Rightarrow> string \<Rightarrow> database \<Rightarrow> database" where
  "domain_ensured kind d db =
     (if has_domain_db db d then db
      else db\<lparr>mapping_domains_tbl := mapping_domains_tbl db @
        [\<lparr>dr_id = d, dr_kind = kind, dr_normalization = None, dr_role = None\<rparr>]\<rparr>)"

lemma ensure_domain_of_kind_spec:
  assumes h: "healthy e" and d: "validate_token d = Inr d" and k: "kind \<in> {KIND_TEXT, KIND_NUMERIC_KEY}"
  obtains e1 where "ensure_domain_of_kind kind d e = (Inr (), e1)" and "healthy e1"
    and "committed e1 = domain_ensured kind d (committed e)" and "vault.more e1 = vault.more e"
proof (cases "has_domain_db (committed e) d")
  case True
  then show thesis using that [of e] h healthy_usable [OF h]
    by (simp add: ensure_domain_of_kind_def has_domain_usable domain_ensured_def)
next
  case False
  let ?v = "txn_start True e" and ?db = "domain_ensured kind d (committed e)"
  let ?body = "bindV (has_domain d) (\<lambda>present. if present then retV () else
    bindV (create_domain kind None None (Some d) []) (\<lambda>_. retV ()))"
  have w: "writable ?v" "working ?v = committed e" using healthy_txn_start [OF h] by (simp_all add: txn_start_def)
  have len: "1 \<le> length kind" "length kind \<le> 64" using k by (auto simp: KIND_TEXT_def KIND_NUMERIC_KEY_def)
  have ok: "body_ok ?body" by (intro body_ok_bindV body_ok_recorders) (auto intro!: body_ok_bindV)
  have "create_domain kind None None (Some d) [] ?v = (Inr d, ?v\<lparr>working := ?db\<rparr>)"
    using w False d k len by (auto simp: create_domain_def guardV_def validate_optional_token_def execute_insert_usable
        insert_domain_def domain_ensured_def)
  then have body: "?body ?v = (Inr (), ?v\<lparr>working := ?db\<rparr>)" using w False by (simp add: has_domain_usable)
  let ?e1 = "?v\<lparr>working := ?db, txn_active := False, committed := ?db\<rparr>"
  have "with_transaction ?body e = (Inr (), ?e1)" using with_transaction_healthy [OF ok h body] by simp
  then have "ensure_domain_of_kind kind d e = (Inr (), ?e1)"
    using False healthy_usable [OF h] by (simp add: ensure_domain_of_kind_def has_domain_usable)
  moreover have "healthy ?e1" using healthy_commit [OF h, of ?db "vault.more ?v"] by (simp add: domain_ensured_def)
  ultimately show thesis using that [of ?e1] by (simp add: txn_start_def)
qed

lemma stored_filter:
  "stored_observations (s\<lparr>sp_text := filter (\<lambda>r. P (fst r)) (sp_text s)\<rparr>) = filter (\<lambda>r. P (fst r)) (stored_observations s)"
  by (simp add: stored_observations_apsnd filter_map comp_def)

text \<open>The text problem of a run: alphabet, ensured vault, observations and those still without a mapping.\<close>

definition run_alphabet :: "codec \<Rightarrow> engine \<Rightarrow> pystr" where
  "run_alphabet codec e = candidate_alphabet codec (text_encoding_union (en_spool e))"

definition run_vault :: "engine \<Rightarrow> database" where
  "run_vault e = domain_ensured KIND_TEXT GLOBAL_TEXT_DOMAIN_ID (committed e)"

definition run_observations :: "engine \<Rightarrow> observations" where
  "run_observations e = stored_observations (flush (en_spool e))"

definition unmapped_observations :: "engine \<Rightarrow> observations" where
  "unmapped_observations e =
     filter (\<lambda>row. \<not> mapped_in (run_vault e) GLOBAL_TEXT_DOMAIN_ID (fst row)) (run_observations e)"

text \<open>
  What a run is assumed to find: a healthy vault with the lease, a non-empty alphabet that covers the
  persisted pseudonyms, row counts a SQLite file can hold, widths of an INTEGER column, and persisted
  pseudonyms that fit the widths at which their values are observed again.
\<close>

definition text_run_ok :: "codec \<Rightarrow> engine \<Rightarrow> bool" where
  "text_run_ok codec e \<longleftrightarrow> healthy e \<and> text_encoding_union (en_spool e) \<noteq> [] \<and> run_alphabet codec e \<noteq> []
     \<and> persisted_safe (run_alphabet codec e) GLOBAL_TEXT_DOMAIN_ID (run_vault e)
     \<and> spool_ok (run_observations e)
     \<and> int (length (text_rows_of GLOBAL_TEXT_DOMAIN_ID (run_vault e)) + 2 * length (run_observations e)) < 2 ^ 56
     \<and> (\<forall>(c, w)\<in>set (run_observations e). w \<le> SQLITE_INT64_MAX
          \<and> (\<forall>v p. utf8_decode c = Some v \<longrightarrow> (v, p) \<in> set (text_assoc GLOBAL_TEXT_DOMAIN_ID (run_vault e))
                \<longrightarrow> int (length p) \<le> w))"

lemma global_domain_token: "validate_token GLOBAL_TEXT_DOMAIN_ID = Inr GLOBAL_TEXT_DOMAIN_ID"
  by code_simp

lemma candidate_length: "length (candidate_alphabet codec es) \<le> 36"
proof -
  have "length SAFE_TEXT_ALPHABET = 36" by code_simp
  then show ?thesis using length_filter_le [of _ SAFE_TEXT_ALPHABET] by (simp add: candidate_alphabet_def)
qed

lemma candidate_ascii: "\<forall>c\<in>set (candidate_alphabet codec es). c < 128"
proof -
  have "list_all (\<lambda>c. c < 128) SAFE_TEXT_ALPHABET" by code_simp
  then show ?thesis by (auto simp: candidate_alphabet_def list_all_iff)
qed

lemma more_engine:
  "vault.more e1 = vault.more e \<Longrightarrow> en_spool e1 = en_spool e \<and> en_draws e1 = en_draws e \<and> en_checks e1 = en_checks e"
  by (cases e; cases e1) auto

lemma width_infeasible_iff: "width_infeasible s \<longleftrightarrow> (\<exists>(c, w)\<in>set (stored_observations s). w < 1)"
  by (force simp: width_infeasible_def stored_observations_def list_ex_iff)

lemma spool_ok_filter: "spool_ok obs \<Longrightarrow> spool_ok (filter P obs)"
  by (auto simp: spool_ok_def distinct_map inj_on_def)

text \<open>The state in which the solver is called: persisted observations have left the spool.\<close>

lemma finalize_text_reuse:
  assumes ok: "text_run_ok codec e" and q: "quiet ct"
  obtains e2 where "healthy e2" and "committed e2 = run_vault e"
    and "stored_observations (en_spool e2) = unmapped_observations e"
    and "finalize_text t ct codec e =
      bindV (solve_text_residual_probed ct GLOBAL_TEXT_DOMAIN_ID (run_alphabet codec e)) (\<lambda>_ e3.
        bindV (mapV (allocate_text_row t ct GLOBAL_TEXT_DOMAIN_ID (run_alphabet codec e))
            [0..<length (res_originals (sp_graph (en_spool e3)))]) (\<lambda>rows e4.
          (Inr (Some GLOBAL_TEXT_DOMAIN_ID, length rows, length (run_observations e) - length (unmapped_observations e)),
           e4\<lparr>en_spool := (en_spool e4)\<lparr>sp_graph := empty_residual\<rparr>\<rparr>)) e3) e2"
proof -
  let ?d = GLOBAL_TEXT_DOMAIN_ID and ?a = "run_alphabet codec e" and ?db = "run_vault e" and ?obs = "run_observations e"
  have h: "healthy e" and td: "text_domain_ok ?d ?db" and sp: "spool_ok ?obs"
    using ok by (auto simp: text_run_ok_def persisted_safe_def)
  obtain e1 where e1: "ensure_domain_of_kind KIND_TEXT ?d e = (Inr (), e1)" "healthy e1" "committed e1 = ?db"
    "vault.more e1 = vault.more e"
    using ensure_domain_of_kind_spec [OF h global_domain_token, of KIND_TEXT] by (auto simp: run_vault_def)
  have sp1: "en_spool e1 = en_spool e" using more_engine [OF e1(4)] by blast
  let ?e1 = "e1\<lparr>en_spool := flush (en_spool e1)\<rparr>" and ?rows = "text_observation_rows (flush (en_spool e1))"
  have set_rows: "set ?rows = set ?obs" by (simp add: text_observation_rows_def run_observations_def sp1)
  have u1: "usable ?e1" "working ?e1 = ?db" using healthy_usable [OF e1(2)] e1(3) by auto
  have each: "\<exists>v. utf8_encode v = Some c \<and> (\<forall>p. (v, p) \<in> set (text_assoc ?d ?db) \<longrightarrow> int (length p) \<le> w)"
    if cw: "(c, w) \<in> set ?rows" for c w
  proof -
    obtain v where v: "utf8_encode v = Some c" "utf8_decode c = Some v"
      using spool_decode [OF sp] cw set_rows by blast
    then show ?thesis using ok cw set_rows by (fastforce simp: text_run_ok_def)
  qed
  obtain k where reuse: "mapV (reuse_text_row ct ?d) ?rows ?e1 =
    (Inr (map (\<lambda>(c, w). if mapped_in ?db ?d c then 1 else 0) ?rows),
     ?e1\<lparr>en_checks := k, en_spool := (en_spool ?e1)\<lparr>sp_text :=
         filter (\<lambda>r. \<not> (fst r \<in> fst ` set ?rows \<and> mapped_in ?db ?d (fst r))) (sp_text (en_spool ?e1))\<rparr>\<rparr>)"
    using reuse_loop_spec [OF q u1(1), of ?d ?rows] td each u1(2) by auto
  let ?e2 = "?e1\<lparr>en_checks := k, en_spool := (en_spool ?e1)\<lparr>sp_text :=
         filter (\<lambda>r. \<not> (fst r \<in> fst ` set ?rows \<and> mapped_in ?db ?d (fst r))) (sp_text (en_spool ?e1))\<rparr>\<rparr>"
  have obs2: "stored_observations (en_spool ?e2) = unmapped_observations e"
  proof -
    have "stored_observations (en_spool ?e2)
        = filter (\<lambda>r. \<not> (fst r \<in> fst ` set ?rows \<and> mapped_in ?db ?d (fst r))) ?obs"
      using stored_filter [of "\<lambda>c. \<not> (c \<in> fst ` set ?rows \<and> mapped_in ?db ?d c)" "flush (en_spool e)"]
      by (simp add: sp1 run_observations_def)
    also have "\<dots> = unmapped_observations e"
      unfolding unmapped_observations_def set_rows by (rule filter_cong) auto
    finally show ?thesis .
  qed
  have counts: "sum_list (map (\<lambda>(c, w). if mapped_in ?db ?d c then 1 else 0) ?rows)
      = length ?obs - length (unmapped_observations e)"
  proof -
    let ?f = "\<lambda>r. if mapped_in ?db ?d (fst r) then 1 else 0 :: nat"
    have "mset ?rows = mset ?obs" by (simp add: text_observation_rows_def run_observations_def sp1)
    then have "mset (map ?f ?rows) = mset (map ?f ?obs)" by (simp only: mset_map)
    then have "sum_list (map ?f ?rows) = sum_list (map ?f ?obs)" unfolding sum_mset_sum_list [symmetric] by (rule arg_cong)
    also have "\<dots> = length (filter (\<lambda>r. mapped_in ?db ?d (fst r)) ?obs)"
    proof -
      have "sum_list (map ?f xs) = length (filter (\<lambda>r. mapped_in ?db ?d (fst r)) xs)" for xs :: observations
        by (induction xs) auto
      then show ?thesis .
    qed
    also have "\<dots> = length ?obs - length (unmapped_observations e)"
      using sum_length_filter_compl [of "\<lambda>r. mapped_in ?db ?d (fst r)" ?obs] by (simp add: unmapped_observations_def)
    finally show ?thesis by (simp add: case_prod_beta')
  qed
  have al: "candidate_alphabet codec (text_encoding_union (en_spool e)) = ?a" by (simp add: run_alphabet_def)
  have ne: "text_encoding_union (en_spool e) \<noteq> []" "?a \<noteq> []" using ok by (auto simp: text_run_ok_def)
  have "\<not> width_infeasible (en_spool ?e2)"
    unfolding width_infeasible_iff obs2 unmapped_observations_def using sp by (auto simp: spool_ok_def)
  then have "finalize_text t ct codec e =
      bindV (solve_text_residual_probed ct ?d ?a) (\<lambda>_ e3.
        bindV (mapV (allocate_text_row t ct ?d ?a) [0..<length (res_originals (sp_graph (en_spool e3)))]) (\<lambda>rows e4.
          (Inr (Some ?d, length rows, length ?obs - length (unmapped_observations e)),
           e4\<lparr>en_spool := (en_spool e4)\<lparr>sp_graph := empty_residual\<rparr>\<rparr>)) e3) ?e2"
    unfolding finalize_text_def Let_def al using ne e1(1) reuse counts by (simp del: flush_tables)
  moreover have "healthy ?e2" using e1(2) by simp
  moreover have "committed ?e2 = ?db" using e1(3) by simp
  ultimately show thesis using that [of ?e2] obs2 by blast
qed

lemma run_solver:
  assumes ok: "text_run_ok codec e"
  shows "(\<exists>g. solve_text_residual (run_vault e) GLOBAL_TEXT_DOMAIN_ID (run_alphabet codec e) (int (length (run_alphabet codec e)))
          (unmapped_observations e) = Inr g
        \<and> solved (run_vault e) GLOBAL_TEXT_DOMAIN_ID (run_alphabet codec e) g \<and> values_fresh (run_vault e) GLOBAL_TEXT_DOMAIN_ID g
        \<and> res_originals g = spool_originals (run_vault e) GLOBAL_TEXT_DOMAIN_ID (run_alphabet codec e) (unmapped_observations e)
        \<and> (\<exists>f. text_plan (run_vault e) GLOBAL_TEXT_DOMAIN_ID (run_alphabet codec e) (unmapped_observations e) f))
    \<or> (solve_text_residual (run_vault e) GLOBAL_TEXT_DOMAIN_ID (run_alphabet codec e) (int (length (run_alphabet codec e)))
          (unmapped_observations e) = Inl (residual_failure ''ENGINE_TEXT_RESIDUAL_INFEASIBLE'')
        \<and> (\<nexists>f. text_plan (run_vault e) GLOBAL_TEXT_DOMAIN_ID (run_alphabet codec e) (unmapped_observations e) f))"
proof -
  let ?d = GLOBAL_TEXT_DOMAIN_ID and ?a = "run_alphabet codec e" and ?db = "run_vault e" and ?un = "unmapped_observations e"
  have un: "set ?un \<subseteq> set (run_observations e)" by (auto simp: unmapped_observations_def)
  have sp: "spool_ok ?un" using ok unfolding unmapped_observations_def by (auto simp: text_run_ok_def intro: spool_ok_filter)
  have fewer: "length ?un \<le> length (run_observations e)" unfolding unmapped_observations_def by (rule length_filter_le)
  have bound: "int (length (text_rows_of ?d ?db) + 2 * length (run_observations e)) < 2 ^ 56" using ok by (simp add: text_run_ok_def)
  have len: "int (length ?un) \<le> SQLITE_INT64_MAX" using fewer bound by (simp add: SQLITE_INT64_MAX_def)
  have ps: "persisted_safe ?a ?d ?db" and ne: "?a \<noteq> []" using ok by (auto simp: text_run_ok_def)
  have dist: "distinct ?a" unfolding run_alphabet_def by (rule distinct_candidate_alphabet)
  have rows: "int (length (text_rows_of ?d ?db) + 2 * length (spool_originals ?db ?d ?a ?un)) < 2 ^ 56"
    using fewer bound by (simp add: spool_originals_def)
  have widths: "\<forall>x\<in>set (spool_originals ?db ?d ?a ?un). ro_width x < 2 ^ 63"
  proof
    fix x assume "x \<in> set (spool_originals ?db ?d ?a ?un)"
    then obtain c w where cw: "(c, w) \<in> set ?un" "ro_width x = nat w" by (auto simp: set_spool_originals original_of_def Let_def)
    then have "w \<le> SQLITE_INT64_MAX" using ok un by (auto simp: text_run_ok_def)
    then show "ro_width x < 2 ^ 63" using cw(2) by (simp add: SQLITE_INT64_MAX_def nat_less_iff)
  qed
  have thirty_six: "length ?a \<le> 36" unfolding run_alphabet_def by (rule candidate_length)
  have fresh: "values_fresh ?db ?d g" if "res_originals g = spool_originals ?db ?d ?a ?un" for g
  proof -
    have "bindable (ro_value x) \<and> ro_value x \<notin> fst ` set (text_assoc ?d ?db)" if x: "x \<in> set (spool_originals ?db ?d ?a ?un)" for x
    proof -
      obtain c w where cw: "(c, w) \<in> set ?un" "ro_value x = the (utf8_decode c)"
        using x by (auto simp: set_spool_originals original_of_def Let_def)
      obtain v where v: "utf8_encode v = Some c" "utf8_decode c = Some v" using spool_decode [OF sp cw(1)] by blast
      moreover have "\<not> mapped_in ?db ?d c" using cw(1) by (simp add: unmapped_observations_def)
      ultimately show ?thesis using cw(2) by (auto simp: bindable_def mapped_in_def)
    qed
    then show ?thesis using that by (simp add: values_fresh_def)
  qed
  from solve_text_residual_spec [OF sp ps dist len] show ?thesis
  proof
    assume "\<exists>g. solve_text_residual ?db ?d ?a (int (length ?a)) ?un = Inr g \<and> graph_ok ?db ?d ?a g
        \<and> res_originals g = spool_originals ?db ?d ?a ?un
        \<and> matching_inv (initial_caps ?db ?d (int (length ?a)) (res_originals g)) g
        \<and> (\<forall>i < length (res_originals g). res_assign g ! i \<noteq> None) \<and> (\<exists>f. text_plan ?db ?d ?a ?un f)"
    then obtain g where g: "solve_text_residual ?db ?d ?a (int (length ?a)) ?un = Inr g" "graph_ok ?db ?d ?a g"
      "res_originals g = spool_originals ?db ?d ?a ?un"
      "matching_inv (initial_caps ?db ?d (int (length ?a)) (res_originals g)) g"
      "\<forall>i < length (res_originals g). res_assign g ! i \<noteq> None" "\<exists>f. text_plan ?db ?d ?a ?un f" by blast
    have "geometric (int (length ?a)) l \<le> 2 ^ 63"
      if "i < length (res_originals g)" "res_assign g ! i = Some (ClassR l)" for i l
      using lowest_class_small [OF g(2) ps thirty_six g(4) that] rows g(3) by simp
    then have "solved ?db ?d ?a g" using g ps ne dist widths by (auto simp: solved_def)
    then show ?thesis using g fresh by blast
  qed blast
qed

text \<open>The outcome of a completed allocation, seen from the observations.\<close>

lemma allocated_pseudonyms:
  assumes s: "solved db d a g" and p: "progress_ok db d a g ts db'" and len: "length ts = length (res_originals g)"
    and x: "x \<in> set (res_originals g)"
  obtains t where "(ro_value x, t) \<in> set (text_assoc d db')" and "is_safe_token t a" and "length t \<le> ro_width x" and "t \<noteq> ro_value x"
proof -
  obtain i where i: "i < length (res_originals g)" "res_originals g ! i = x" using x by (auto simp: in_set_conv_nth)
  have "(ro_value x, ts ! i) \<in> set (zip (map ro_value (res_originals g)) ts)" 
    using i len by (force simp: set_zip)
  then have "(ro_value x, ts ! i) \<in> set (text_assoc d db')" using p by (simp add: progress_ok_def)
  moreover have "ts ! i \<in> resource_tokens db d a g (the (res_assign g ! i))" using p i len by (simp add: progress_ok_def)
  ultimately show thesis using that resource_token_safe [OF s i(1)] i(2) by blast
qed

lemma finalized_pseudonym:
  assumes ok: "text_run_ok codec e" and s: "solved (run_vault e) GLOBAL_TEXT_DOMAIN_ID (run_alphabet codec e) g"
    and os: "res_originals g = spool_originals (run_vault e) GLOBAL_TEXT_DOMAIN_ID (run_alphabet codec e) (unmapped_observations e)"
    and pr: "progress_ok (run_vault e) GLOBAL_TEXT_DOMAIN_ID (run_alphabet codec e) g ts db'"
    and len: "length ts = length (res_originals g)"
    and cw: "(c, w) \<in> set (run_observations e)" and v: "utf8_decode c = Some v"
  shows "\<exists>p. (v, p) \<in> set (text_assoc GLOBAL_TEXT_DOMAIN_ID db') \<and> is_safe_token p (run_alphabet codec e) \<and> int (length p) \<le> w
      \<and> (v \<notin> fst ` set (text_assoc GLOBAL_TEXT_DOMAIN_ID (run_vault e)) \<longrightarrow> p \<noteq> v)"
proof -
  let ?d = GLOBAL_TEXT_DOMAIN_ID and ?a = "run_alphabet codec e" and ?db = "run_vault e"
  have sub: "set (text_assoc ?d ?db) \<subseteq> set (text_assoc ?d db')" using pr by (auto simp: progress_ok_def)
  show ?thesis
  proof (cases "v \<in> fst ` set (text_assoc ?d ?db)")
    case True
    then obtain p where p: "(v, p) \<in> set (text_assoc ?d ?db)" by auto
    have "int (length p) \<le> w" using ok cw v p by (fastforce simp: text_run_ok_def)
    moreover have "is_safe_token p ?a" using ok p by (auto simp: text_run_ok_def persisted_safe_def text_assoc_def)
    ultimately show ?thesis using sub p True by blast
  next
    case False
    then have "\<not> mapped_in ?db ?d c" using v by (simp add: mapped_in_def)
    then have "original_of ?db ?d ?a (c, w) \<in> set (res_originals g)"
      using cw by (simp add: os set_spool_originals unmapped_observations_def)
    then obtain p where "(ro_value (original_of ?db ?d ?a (c, w)), p) \<in> set (text_assoc ?d db')" "is_safe_token p ?a"
      "length p \<le> ro_width (original_of ?db ?d ?a (c, w))" "p \<noteq> ro_value (original_of ?db ?d ?a (c, w))"
      by (rule allocated_pseudonyms [OF s pr len])
    then have "(v, p) \<in> set (text_assoc ?d db')" "is_safe_token p ?a" "length p \<le> nat w" "p \<noteq> v"
      using v by (simp_all add: original_of_def Let_def)
    moreover have "0 < w" using ok cw by (auto simp: text_run_ok_def spool_ok_def)
    ultimately show ?thesis by (intro exI [of _ p]) auto
  qed
qed

lemma residual_covers_spool:
  assumes ok: "text_run_ok codec e"
    and os: "res_originals g = spool_originals (run_vault e) GLOBAL_TEXT_DOMAIN_ID (run_alphabet codec e) (unmapped_observations e)"
    and obs: "stored_observations s = unmapped_observations e" and q: "q \<in> set (sp_text s)"
  shows "\<exists>i\<in>{0..<length (res_originals g)}. Some (fst q) = utf8_encode (ro_value (res_originals g ! i))"
proof -
  let ?d = GLOBAL_TEXT_DOMAIN_ID and ?a = "run_alphabet codec e" and ?db = "run_vault e"
  have "apsnd snd q \<in> set (stored_observations s)" using q by (simp add: stored_observations_apsnd)
  then obtain w where w: "(fst q, w) \<in> set (unmapped_observations e)" using obs by (cases q) auto
  have sp: "spool_ok (unmapped_observations e)"
    using ok unfolding unmapped_observations_def by (auto simp: text_run_ok_def intro: spool_ok_filter)
  obtain v where v: "utf8_encode v = Some (fst q)" "utf8_decode (fst q) = Some v" using spool_decode [OF sp w] by blast
  have "original_of ?db ?d ?a (fst q, w) \<in> set (res_originals g)" using w by (simp add: os set_spool_originals)
  then obtain i where "i < length (res_originals g)" "res_originals g ! i = original_of ?db ?d ?a (fst q, w)"
    by (auto simp: in_set_conv_nth)
  then show ?thesis using v by (intro bexI [of _ i]) (simp_all add: original_of_def Let_def)
qed

definition two_letter_codec :: codec where
  "two_letter_codec enc s = (if list_all (\<lambda>c. c = 65 \<or> c = 66) s then Some s else None)"

definition sample_run :: "(pystr \<times> int) list \<Rightarrow> engine" where
  "sample_run xs = vault.extend transaction_sample
     \<lparr>en_spool = observe_text_encoding ''latin-1'' (projr (observe_texts xs new_spool)), en_draws = 0, en_checks = 0\<rparr>"

lemma sample_run_vault: "text_rows_of GLOBAL_TEXT_DOMAIN_ID (run_vault (sample_run xs)) = []"
    "has_domain_db (run_vault (sample_run xs)) GLOBAL_TEXT_DOMAIN_ID" "healthy (sample_run xs)"
  by (simp_all add: run_vault_def sample_run_def domain_ensured_def text_rows_of_def has_domain_db_def transaction_sample_def
      vault.defs healthy_def authority_ok_def vault_idle_def Let_def)

lemma sample_run_ok:
  assumes "run_alphabet two_letter_codec (sample_run xs) = [65, 66]" and "text_encoding_union (en_spool (sample_run xs)) \<noteq> []"
    and "spool_ok (run_observations (sample_run xs))" and "\<forall>r\<in>set (run_observations (sample_run xs)). snd r \<le> 2"
    and "length (run_observations (sample_run xs)) \<le> 5"
  shows "text_run_ok two_letter_codec (sample_run xs)"
proof -
  have "text_assoc GLOBAL_TEXT_DOMAIN_ID (run_vault (sample_run xs)) = []" by (simp add: text_assoc_def sample_run_vault)
  then show ?thesis
    using assms unfolding text_run_ok_def persisted_safe_def text_domain_ok_def
    by (auto simp: sample_run_vault SQLITE_INT64_MAX_def text_assoc_def)
qed

lemma spool_ok_ascii:
  assumes "distinct (map fst obs)" and "\<forall>(c, w)\<in>set obs. 0 < w \<and> (\<forall>x\<in>set c. x < 128)"
  shows "spool_ok obs"
proof -
  have "\<exists>v. utf8_encode v = Some c" if "\<forall>x\<in>set c. x < 128" for c
    using that by (intro exI [of _ c] utf8_encode_ascii) (simp add: list_all_iff)
  then show ?thesis using assms by (fastforce simp: spool_ok_def)
qed

text \<open>The completed run, as the property below and the preflight state it.\<close>

lemma finalize_text_planned:
  assumes ok: "text_run_ok codec e" and q: "quiet ct"
    and plan: "text_plan (run_vault e) GLOBAL_TEXT_DOMAIN_ID (run_alphabet codec e) (unmapped_observations e) f"
  shows "\<exists>e'. finalize_text t ct codec e =
        (Inr (Some GLOBAL_TEXT_DOMAIN_ID, length (unmapped_observations e),
              length (run_observations e) - length (unmapped_observations e)), e')
    \<and> healthy e' \<and> text_domain_ok GLOBAL_TEXT_DOMAIN_ID (committed e')
    \<and> set (text_assoc GLOBAL_TEXT_DOMAIN_ID (run_vault e)) \<subseteq> set (text_assoc GLOBAL_TEXT_DOMAIN_ID (committed e'))
    \<and> (\<forall>(c, w)\<in>set (run_observations e). \<forall>v. utf8_decode c = Some v \<longrightarrow>
         (\<exists>p. (v, p) \<in> set (text_assoc GLOBAL_TEXT_DOMAIN_ID (committed e')) \<and> is_safe_token p (run_alphabet codec e)
            \<and> int (length p) \<le> w \<and> (v \<notin> fst ` set (text_assoc GLOBAL_TEXT_DOMAIN_ID (run_vault e)) \<longrightarrow> p \<noteq> v)))
    \<and> stored_observations (en_spool e') = []"
proof -
  let ?d = GLOBAL_TEXT_DOMAIN_ID and ?a = "run_alphabet codec e" and ?db = "run_vault e" and ?un = "unmapped_observations e"
  let ?os = "spool_originals ?db ?d ?a ?un"
  obtain g where g: "solve_text_residual ?db ?d ?a (int (length ?a)) ?un = Inr g" "solved ?db ?d ?a g"
    "values_fresh ?db ?d g" "res_originals g = ?os"
    using run_solver [OF ok] plan by blast
  obtain e2 where e2: "healthy e2" "committed e2 = ?db" "stored_observations (en_spool e2) = ?un"
    and fin: "finalize_text t ct codec e =
      bindV (solve_text_residual_probed ct ?d ?a) (\<lambda>_ e3.
        bindV (mapV (allocate_text_row t ct ?d ?a) [0..<length (res_originals (sp_graph (en_spool e3)))]) (\<lambda>rows e4.
          (Inr (Some ?d, length rows, length (run_observations e) - length ?un),
           e4\<lparr>en_spool := (en_spool e4)\<lparr>sp_graph := empty_residual\<rparr>\<rparr>)) e3) e2"
    using finalize_text_reuse [OF ok q] by blast
  have u2: "usable e2" "working e2 = ?db" using healthy_usable [OF e2(1)] e2(2) by auto
  obtain k where "solve_text_residual_probed ct ?d ?a e2 =
     (Inr (), e2\<lparr>en_checks := k, en_spool := (en_spool e2)\<lparr>sp_graph := g\<rparr>\<rparr>)"
    using solve_probed_quiet [OF q u2(1), of ?d ?a] g(1) u2(2) e2(3) by auto
  then obtain e3 where e3: "solve_text_residual_probed ct ?d ?a e2 = (Inr (), e3)" "sp_graph (en_spool e3) = g"
    "healthy e3" "committed e3 = ?db" "stored_observations (en_spool e3) = ?un" "sp_text (en_spool e3) = sp_text (en_spool e2)"
    using e2 by (auto simp: stored_observations_def)
  have "progress_ok ?db ?d ?a g [] ?db" using g(2) by (simp add: progress_ok_def solved_def)
  then have ready: "alloc_ready ?db ?d ?a g [] e3" using e3 by (simp add: alloc_ready_def)
  have asc: "\<forall>c\<in>set ?a. c < 128" unfolding run_alphabet_def by (rule candidate_ascii)
  obtain ts us e4 where e4: "mapV (allocate_text_row t ct ?d ?a) [0..<length (res_originals g)] e3 = (Inr us, e4)"
    "length us = length (res_originals g)" "alloc_ready ?db ?d ?a g ts e4" "length ts = length (res_originals g)"
    "sp_text (en_spool e4) = filter (\<lambda>q. \<forall>i\<in>{0..<length (res_originals g)}.
            Some (fst q) \<noteq> utf8_encode (ro_value (res_originals g ! i))) (sp_text (en_spool e3))"
    using allocate_text_loop [OF g(2,3) asc q global_domain_token ready, of "length (res_originals g)" t] by auto
  let ?e' = "e4\<lparr>en_spool := (en_spool e4)\<lparr>sp_graph := empty_residual\<rparr>\<rparr>"
  have pr: "progress_ok ?db ?d ?a g ts (committed e4)" and h4: "healthy e4" using e4(3) by (auto simp: alloc_ready_def)
  have res: "finalize_text t ct codec e = (Inr (Some ?d, length ?un, length (run_observations e) - length ?un), ?e')"
    unfolding fin using e3(1,2) e4(1,2) g(4) by simp
  have sub: "set (text_assoc ?d ?db) \<subseteq> set (text_assoc ?d (committed e4))" using pr by (auto simp: progress_ok_def)
  have each: "\<exists>p. (v, p) \<in> set (text_assoc ?d (committed e4)) \<and> is_safe_token p ?a \<and> int (length p) \<le> w
      \<and> (v \<notin> fst ` set (text_assoc ?d ?db) \<longrightarrow> p \<noteq> v)"
    if "(c, w) \<in> set (run_observations e)" and "utf8_decode c = Some v" for c w v
    using finalized_pseudonym [OF ok g(2,4) pr e4(4)] that by blast
  have "sp_text (en_spool e4) = []"
    using residual_covers_spool [OF ok g(4)] e3(5) unfolding e4(5) by (auto simp: filter_empty_conv)
  then have "stored_observations (en_spool ?e') = []" by (simp add: stored_observations_def)
  moreover have "text_domain_ok ?d (committed e4)" using pr by (simp add: progress_ok_def persisted_safe_def)
  moreover have "healthy ?e'" using h4 by simp
  ultimately show ?thesis using res sub each by (intro exI [of _ ?e']) (auto split: prod.splits)
qed

text \<open>
  C2. Pass 1 gives every observed text a usable pseudonym. Let the vault be healthy and hold the writer
  lease, let its pseudonyms be safe in the run's alphabet, which is not empty, and let those of values
  observed again fit the widths they are now observed at. Let the widths fit an INTEGER column and the
  mappings and twice the observations number fewer than \<open>2 ^ 56\<close>, which no SQLite file exceeds. Then, for
  any outcome of the random source and any codec registry, if the residual problem has a
  solution at all \<open>_finalize_text\<close> completes: every mapping that existed is kept, the committed
  domain stays a bijection, and each observed value has a safe pseudonym that fits its strictest
  width and, when it was newly allocated, differs from the value; the spool holds no observation any
  more and the reported counts are those of the new and the reused values. Fields may be of any width:
  the exact walk stores token indices in an INTEGER column, but the solver uses a class of tokens only
  when all shorter ones are full, so no index it stores exceeds the column.
\<close>

theorem finalize_text_completes:
  assumes ok: "text_run_ok codec e" and q: "quiet ct"
    and plan: "text_plan (run_vault e) GLOBAL_TEXT_DOMAIN_ID (run_alphabet codec e) (unmapped_observations e) f"
  shows "\<exists>e'. finalize_text t ct codec e =
        (Inr (Some GLOBAL_TEXT_DOMAIN_ID, length (unmapped_observations e),
              length (run_observations e) - length (unmapped_observations e)), e')
    \<and> healthy e' \<and> text_domain_ok GLOBAL_TEXT_DOMAIN_ID (committed e')
    \<and> set (text_assoc GLOBAL_TEXT_DOMAIN_ID (run_vault e)) \<subseteq> set (text_assoc GLOBAL_TEXT_DOMAIN_ID (committed e'))
    \<and> (\<forall>(c, w)\<in>set (run_observations e). \<forall>v. utf8_decode c = Some v \<longrightarrow>
         (\<exists>p. (v, p) \<in> set (text_assoc GLOBAL_TEXT_DOMAIN_ID (committed e')) \<and> is_safe_token p (run_alphabet codec e)
            \<and> int (length p) \<le> w \<and> (v \<notin> fst ` set (text_assoc GLOBAL_TEXT_DOMAIN_ID (run_vault e)) \<longrightarrow> p \<noteq> v)))
    \<and> stored_observations (en_spool e') = []"
  by (rule finalize_text_planned [OF assms])

theorem finalize_text_completes_witness:
  "\<exists>e'. finalize_text (\<lambda>k. k) (\<lambda>_. Continue) two_letter_codec (sample_run [([65], 1), ([66], 1), ([65], 2)])
      = (Inr (Some GLOBAL_TEXT_DOMAIN_ID, 2, 0), e')
    \<and> (\<exists>p. ([65], p) \<in> set (text_assoc GLOBAL_TEXT_DOMAIN_ID (committed e')) \<and> length p = 1)"
proof -
  let ?e = "sample_run [([65], 1), ([66], 1), ([65], 2)]"
  have a: "run_alphabet two_letter_codec ?e = [65, 66]" by code_simp
  have u: "text_encoding_union (en_spool ?e) = [''latin-1'']" by code_simp
  have o: "run_observations ?e = [([65], 1), ([66], 1)]" by code_simp
  have "unmapped_observations ?e = run_observations ?e"
    by (simp add: unmapped_observations_def mapped_in_def text_assoc_def sample_run_vault)
  then have n: "unmapped_observations ?e = [([65], 1), ([66], 1)]" using o by simp
  have ok: "text_run_ok two_letter_codec ?e"
    using a u o spool_ok_ascii [of "[([65], 1), ([66], 1)]"] by (intro sample_run_ok) auto
  have dec: "utf8_decode [65] = Some [65]" "utf8_decode [66] = Some [66]" by code_simp+
  have "\<not> token_occupied (run_vault ?e) GLOBAL_TEXT_DOMAIN_ID t" for t
    using sample_run_vault(1) by (auto simp: token_occupied_def text_rows_of_def list_ex_iff filter_empty_conv)
  then have plan: "text_plan (run_vault ?e) GLOBAL_TEXT_DOMAIN_ID (run_alphabet two_letter_codec ?e) (unmapped_observations ?e)
      (\<lambda>v. if v = [65] then [66] else [65])"
    by (auto simp: text_plan_def a n dec is_safe_token_iff inj_on_def)
  have "quiet (\<lambda>_. Continue)" by (simp add: quiet_def)
  then obtain e' where fin: "finalize_text (\<lambda>k. k) (\<lambda>_. Continue) two_letter_codec ?e =
        (Inr (Some GLOBAL_TEXT_DOMAIN_ID, length (unmapped_observations ?e),
              length (run_observations ?e) - length (unmapped_observations ?e)), e')"
    and all: "\<forall>(c, w)\<in>set (run_observations ?e). \<forall>v. utf8_decode c = Some v \<longrightarrow>
         (\<exists>p. (v, p) \<in> set (text_assoc GLOBAL_TEXT_DOMAIN_ID (committed e')) \<and> is_safe_token p (run_alphabet two_letter_codec ?e)
            \<and> int (length p) \<le> w \<and> (v \<notin> fst ` set (text_assoc GLOBAL_TEXT_DOMAIN_ID (run_vault ?e)) \<longrightarrow> p \<noteq> v))"
    using finalize_text_completes [OF ok _ plan, of "\<lambda>_. Continue" "\<lambda>k. k"] by blast
  obtain p where "([65], p) \<in> set (text_assoc GLOBAL_TEXT_DOMAIN_ID (committed e'))" "p \<noteq> []" "length p \<le> 1"
    using all o dec by (fastforce simp: is_safe_token_iff)
  moreover from this have "length p = 1" by (cases p) auto
  moreover have "finalize_text (\<lambda>k. k) (\<lambda>_. Continue) two_letter_codec ?e = (Inr (Some GLOBAL_TEXT_DOMAIN_ID, 2, 0), e')"
    using fin by (simp add: o n)
  ultimately show ?thesis by blast
qed

text \<open>
  A refused text problem leaves no trace: when the residual problem has no solution the run is
  refused with the infeasibility code before any mapping of this run is written, whatever the random
  source does, and the vault keeps exactly its text mappings.
\<close>

theorem finalize_text_refused:
  assumes ok: "text_run_ok codec e" and q: "quiet ct"
    and plan: "\<nexists>f. text_plan (run_vault e) GLOBAL_TEXT_DOMAIN_ID (run_alphabet codec e) (unmapped_observations e) f"
  shows "\<exists>e'. finalize_text t ct codec e
        = (Inl (MappingError MAPPING_CAPACITY_EXHAUSTED ''ENGINE_TEXT_RESIDUAL_INFEASIBLE''), e')
      \<and> text_mappings_tbl (committed e') = text_mappings_tbl (committed e) \<and> healthy e'"
proof -
  let ?d = GLOBAL_TEXT_DOMAIN_ID and ?a = "run_alphabet codec e" and ?db = "run_vault e" and ?un = "unmapped_observations e"
  have s: "solve_text_residual ?db ?d ?a (int (length ?a)) ?un = Inl (residual_failure ''ENGINE_TEXT_RESIDUAL_INFEASIBLE'')"
    using run_solver [OF ok] plan by blast
  obtain e2 where e2: "healthy e2" "committed e2 = ?db" "stored_observations (en_spool e2) = ?un"
    and fin: "finalize_text t ct codec e =
      bindV (solve_text_residual_probed ct ?d ?a) (\<lambda>_ e3.
        bindV (mapV (allocate_text_row t ct ?d ?a) [0..<length (res_originals (sp_graph (en_spool e3)))]) (\<lambda>rows e4.
          (Inr (Some ?d, length rows, length (run_observations e) - length ?un),
           e4\<lparr>en_spool := (en_spool e4)\<lparr>sp_graph := empty_residual\<rparr>\<rparr>)) e3) e2"
    using finalize_text_reuse [OF ok q] by blast
  have u2: "usable e2" "working e2 = ?db" using healthy_usable [OF e2(1)] e2(2) by auto
  obtain k where "solve_text_residual_probed ct ?d ?a e2
      = (Inl (residual_failure ''ENGINE_TEXT_RESIDUAL_INFEASIBLE''), e2\<lparr>en_checks := k\<rparr>)"
    using solve_probed_quiet [OF q u2(1), of ?d ?a] s u2(2) e2(3) by auto
  then have "finalize_text t ct codec e = (Inl (residual_failure ''ENGINE_TEXT_RESIDUAL_INFEASIBLE''), e2\<lparr>en_checks := k\<rparr>)"
    unfolding fin by simp
  then show ?thesis using e2 by (auto simp: residual_failure_def run_vault_def domain_ensured_def)
qed

theorem finalize_text_refused_witness:
  "\<exists>e'. finalize_text (\<lambda>k. k) (\<lambda>_. Continue) two_letter_codec (sample_run [([65], 1), ([66], 1), ([90], 1)])
        = (Inl (MappingError MAPPING_CAPACITY_EXHAUSTED ''ENGINE_TEXT_RESIDUAL_INFEASIBLE''), e')
      \<and> text_mappings_tbl (committed e') = []"
proof -
  let ?e = "sample_run [([65], 1), ([66], 1), ([90], 1)]" and ?o = "[([65], 1), ([66], 1), ([90], 1)] :: observations"
  have a: "run_alphabet two_letter_codec ?e = [65, 66]" by code_simp
  have u: "text_encoding_union (en_spool ?e) = [''latin-1'']" by code_simp
  have o: "run_observations ?e = ?o" by code_simp
  have "unmapped_observations ?e = run_observations ?e"
    by (simp add: unmapped_observations_def mapped_in_def text_assoc_def sample_run_vault)
  then have n: "unmapped_observations ?e = ?o" using o by simp
  have ok: "text_run_ok two_letter_codec ?e" using a u o spool_ok_ascii [of ?o] by (intro sample_run_ok) auto
  have "isl (solve_text_residual (run_vault ?e) GLOBAL_TEXT_DOMAIN_ID [65, 66] 2 ?o)" by code_simp
  then have plan: "\<nexists>f. text_plan (run_vault ?e) GLOBAL_TEXT_DOMAIN_ID (run_alphabet two_letter_codec ?e) (unmapped_observations ?e) f"
    using run_solver [OF ok] a n by auto
  have "quiet (\<lambda>_. Continue)" by (simp add: quiet_def)
  moreover have "text_mappings_tbl (committed ?e) = []" by code_simp
  ultimately show ?thesis using finalize_text_refused [OF ok _ plan] by auto
qed

end
