(* ===== verification/Temporal_Shift.thy ===== *)
theory Temporal_Shift
  imports Py_Values
begin

text \<open>
  The Date/DateTime kernels of \<^verbatim>\<open>src/src/dbf_anonymizer/transforms/temporal.py\<close>: the reversible
  shift by calendar ordinals, the domain-wide feasible offset interval and the enumeration of
  its non-zero offsets.
\<close>

definition LOGICAL_MIN_ORDINAL :: int where "LOGICAL_MIN_ORDINAL = 1"
definition LOGICAL_MAX_ORDINAL :: int where "LOGICAL_MAX_ORDINAL = 3652059"

lemma logical_extremes:
  "LOGICAL_MIN_ORDINAL = toordinal (PyDate 1 1 1)"
  "LOGICAL_MAX_ORDINAL = toordinal (PyDate 9999 12 31)"
  by (simp_all add: LOGICAL_MIN_ORDINAL_def LOGICAL_MAX_ORDINAL_def days_before_year_def
      days_before_month_def month_table_def is_leap_def)

definition temporal_unsupported :: error where
  "temporal_unsupported = MappingError MAPPING_CONSTRAINT_INFEASIBLE ''TEMPORAL_UNSUPPORTED_REPRESENTATION''"

definition zero_only_infeasible :: error where
  "zero_only_infeasible = MappingError MAPPING_CONSTRAINT_INFEASIBLE ''TEMPORAL_ONLY_ZERO_FEASIBLE''"

definition out_of_range :: error where
  "out_of_range = MappingError MAPPING_CONSTRAINT_INFEASIBLE ''TEMPORAL_SHIFT_OUT_OF_RANGE''"

fun is_temporal_logical_value :: "pyval \<Rightarrow> bool" where
  "is_temporal_logical_value VNone = True"
| "is_temporal_logical_value (VDate d) = True"
| "is_temporal_logical_value (VDateTime d t) = True"
| "is_temporal_logical_value _ = False"

fun temporal_ordinal :: "pyval \<Rightarrow> int result" where
  "temporal_ordinal (VDateTime d t) = Inr (toordinal d)"
| "temporal_ordinal (VDate d) = Inr (toordinal d)"
| "temporal_ordinal _ = Inl temporal_unsupported"

definition in_logical_range :: "int \<Rightarrow> bool" where
  "in_logical_range n \<longleftrightarrow> LOGICAL_MIN_ORDINAL \<le> n \<and> n \<le> LOGICAL_MAX_ORDINAL"

fun temporal_shift :: "pyval \<Rightarrow> int \<Rightarrow> pyval result" where
  "temporal_shift VNone offset_days = Inr VNone"
| "temporal_shift (VDateTime d t) offset_days =
     (let ordinal = toordinal d + offset_days
      in if \<not> in_logical_range ordinal then Inl out_of_range
         else Inr (VDateTime (fromordinal ordinal) t))"
| "temporal_shift (VDate d) offset_days =
     (let ordinal = toordinal d + offset_days
      in if \<not> in_logical_range ordinal then Inl out_of_range
         else Inr (VDate (fromordinal ordinal)))"
| "temporal_shift _ offset_days = Inl temporal_unsupported"

definition temporal_recover :: "pyval \<Rightarrow> int \<Rightarrow> pyval result" where
  "temporal_recover value offset_days = temporal_shift value (- offset_days)"

definition temporal_feasible_interval :: "int \<Rightarrow> int \<Rightarrow> (int \<times> int) result" where
  "temporal_feasible_interval min_observed max_observed =
     (if min_observed > max_observed then Inl ValueError
      else Inr (LOGICAL_MIN_ORDINAL - min_observed, LOGICAL_MAX_ORDINAL - max_observed))"

definition temporal_nonzero_count :: "int \<Rightarrow> int \<Rightarrow> int" where
  "temporal_nonzero_count lower upper =
     (let n = upper - lower + 1
      in if n \<le> 0 then 0 else if lower \<le> 0 \<and> 0 \<le> upper then n - 1 else n)"

definition temporal_offset_at :: "int \<Rightarrow> int \<Rightarrow> int \<Rightarrow> int result" where
  "temporal_offset_at lower upper index =
     (let count = temporal_nonzero_count lower upper
      in if \<not> (0 \<le> index \<and> index < count) then Inl zero_only_infeasible
         else if lower \<le> 0 \<and> 0 \<le> upper
         then Inr (if index < - lower then lower + index else lower + index + 1)
         else Inr (lower + index))"

section \<open>Facts about the kernels\<close>

text \<open>The temporal values a reader can deliver carry a valid calendar date.\<close>

fun valid_temporal :: "pyval \<Rightarrow> bool" where
  "valid_temporal (VDate d) = valid_date d"
| "valid_temporal (VDateTime d t) = valid_date d"
| "valid_temporal VNone = True"
| "valid_temporal _ = False"

lemma temporal_shift_Inr_iff:
  assumes "valid_temporal v"
  shows "(\<exists>w. temporal_shift v k = Inr w)
    \<longleftrightarrow> v = VNone \<or> (\<exists>n. temporal_ordinal v = Inr n \<and> in_logical_range (n + k))"
  using assms by (cases v) (auto simp: Let_def)

lemma temporal_shift_valid:
  assumes "valid_temporal v" and "temporal_shift v k = Inr w"
  shows "valid_temporal w"
  using assms
  by (cases v) (auto simp: Let_def in_logical_range_def LOGICAL_MIN_ORDINAL_def
      LOGICAL_MAX_ORDINAL_def valid_fromordinal split: if_splits)

lemma temporal_shift_ordinal:
  assumes "temporal_shift v k = Inr w" and "temporal_ordinal v = Inr n"
  shows "temporal_ordinal w = Inr (n + k)"
  using assms
  by (cases v) (auto simp: Let_def in_logical_range_def LOGICAL_MIN_ORDINAL_def
      LOGICAL_MAX_ORDINAL_def valid_fromordinal split: if_splits)

lemma temporal_recover_shift:
  assumes "valid_temporal v" and "temporal_shift v k = Inr w"
  shows "temporal_recover w k = Inr v"
proof (cases v)
  case (VDate d)
  have "in_logical_range (toordinal d)"
    using toordinal_bounds assms VDate
    by (simp add: in_logical_range_def LOGICAL_MIN_ORDINAL_def LOGICAL_MAX_ORDINAL_def)
  then show ?thesis using assms VDate
    by (auto simp: temporal_recover_def Let_def in_logical_range_def LOGICAL_MIN_ORDINAL_def
        LOGICAL_MAX_ORDINAL_def valid_fromordinal fromordinal_toordinal split: if_splits)
next
  case (VDateTime d t)
  have "in_logical_range (toordinal d)"
    using toordinal_bounds assms VDateTime
    by (simp add: in_logical_range_def LOGICAL_MIN_ORDINAL_def LOGICAL_MAX_ORDINAL_def)
  then show ?thesis using assms VDateTime
    by (auto simp: temporal_recover_def Let_def in_logical_range_def LOGICAL_MIN_ORDINAL_def
        LOGICAL_MAX_ORDINAL_def valid_fromordinal fromordinal_toordinal split: if_splits)
qed (use assms in \<open>auto simp: temporal_recover_def\<close>)

text \<open>The offsets enumerated by \<open>temporal_offset_at\<close> are the non-zero integers of the interval.\<close>

lemma temporal_offset_at_bij:
  "bij_betw (\<lambda>i. projr (temporal_offset_at l u i)) {0..<temporal_nonzero_count l u} ({l..u} - {0})"
proof (rule bij_betw_byWitness [where f' = "\<lambda>k. if l \<le> 0 \<and> 0 \<le> u \<and> 0 < k then k - l - 1 else k - l"])
  show "\<forall>i\<in>{0..<temporal_nonzero_count l u}.
      (if l \<le> 0 \<and> 0 \<le> u \<and> 0 < projr (temporal_offset_at l u i)
       then projr (temporal_offset_at l u i) - l - 1 else projr (temporal_offset_at l u i) - l) = i"
    by (auto simp: temporal_offset_at_def temporal_nonzero_count_def Let_def split: if_splits)
  show "\<forall>k\<in>{l..u} - {0}. projr (temporal_offset_at l u
      (if l \<le> 0 \<and> 0 \<le> u \<and> 0 < k then k - l - 1 else k - l)) = k"
    by (auto simp: temporal_offset_at_def temporal_nonzero_count_def Let_def)
  show "(\<lambda>i. projr (temporal_offset_at l u i)) ` {0..<temporal_nonzero_count l u} \<subseteq> {l..u} - {0}"
    by (auto simp: temporal_offset_at_def temporal_nonzero_count_def Let_def split: if_splits)
  show "(\<lambda>k. if l \<le> 0 \<and> 0 \<le> u \<and> 0 < k then k - l - 1 else k - l) ` ({l..u} - {0})
      \<subseteq> {0..<temporal_nonzero_count l u}"
    by (auto simp: temporal_nonzero_count_def Let_def)
qed

lemma temporal_offset_at_Inr:
  assumes "0 \<le> i" "i < temporal_nonzero_count l u"
  shows "\<exists>k. temporal_offset_at l u i = Inr k \<and> k \<noteq> 0 \<and> l \<le> k \<and> k \<le> u"
  using assms by (auto simp: temporal_offset_at_def temporal_nonzero_count_def Let_def split: if_splits)

text \<open>
  C28. Every offset the enumeration can draw is usable and reversible on the whole domain: with the
  feasible interval of the observed extremes, the drawn offset shifts every observed date or
  datetime into a valid one, never onto itself, and the recovery by the same offset restores the
  value exactly, time of day included.
\<close>

theorem temporal_domain_round_trip:
  assumes "temporal_feasible_interval lowest highest = Inr (l, u)"
    and "temporal_offset_at l u i = Inr k"
    and "valid_temporal v" and "temporal_ordinal v = Inr n" and "lowest \<le> n" and "n \<le> highest"
  shows "\<exists>w. temporal_shift v k = Inr w \<and> valid_temporal w \<and> w \<noteq> v \<and> temporal_recover w k = Inr v"
proof -
  have "0 \<le> i" "i < temporal_nonzero_count l u"
    using assms(2) by (auto simp: temporal_offset_at_def Let_def split: if_splits)
  then have k: "k \<noteq> 0" "l \<le> k" "k \<le> u" using temporal_offset_at_Inr [of i l u] assms(2) by auto
  have "l = LOGICAL_MIN_ORDINAL - lowest" "u = LOGICAL_MAX_ORDINAL - highest"
    using assms(1) by (auto simp: temporal_feasible_interval_def split: if_splits)
  then have "in_logical_range (n + k)" using k assms(5,6) by (simp add: in_logical_range_def)
  then obtain w where w: "temporal_shift v k = Inr w"
    using temporal_shift_Inr_iff [OF assms(3)] assms(4) by blast
  have "temporal_ordinal w = Inr (n + k)" using temporal_shift_ordinal [OF w assms(4)] .
  then have "w \<noteq> v" using assms(4) k(1) by auto
  then show ?thesis using w temporal_shift_valid [OF assms(3) w] temporal_recover_shift [OF assms(3) w] by blast
qed

theorem temporal_domain_round_trip_witness:
  "\<exists>w. temporal_shift (VDate (PyDate 2024 2 29)) 1 = Inr w \<and> valid_temporal w \<and> w \<noteq> VDate (PyDate 2024 2 29)
     \<and> temporal_recover w 1 = Inr (VDate (PyDate 2024 2 29))"
proof -
  have o: "toordinal (PyDate 2024 2 29) = 738945" by code_simp
  have i: "temporal_feasible_interval 738945 738945 = Inr (- 738944, 2913114)" by code_simp
  have k: "temporal_offset_at (- 738944) 2913114 738944 = Inr 1" by code_simp
  have v: "valid_temporal (VDate (PyDate 2024 2 29))" by code_simp
  show ?thesis using temporal_domain_round_trip [OF i k v] o by simp
qed

end
