(* ===== verification/Temporal_Allocation.thy ===== *)
theory Temporal_Allocation
  imports Vault_Mappings Temporal_Shift
begin

text \<open>
  The Date/DateTime shift domain of \<^verbatim>\<open>src/src/dbf_anonymizer/vault/temporal_allocation.py\<close>: the
  collector of calendar extrema, the allocation or reuse of one secret non-zero offset, and the
  shift and its inverse through the persisted offset. The digest \<open>_sha16\<close> is an argument of the
  constructor; the random source is a tape.
\<close>

section \<open>State\<close>

record temporal_domain = vault +
  td_domain_id :: string
  td_min_ordinal :: "int option"
  td_max_ordinal :: int
  td_offset :: "int option"
  td_finalized :: bool
  td_empty :: bool
  td_draws :: nat

type_synonym 'a temporal_op = "temporal_domain \<Rightarrow> 'a result \<times> temporal_domain"

definition only_zero_feasible :: error where
  "only_zero_feasible = MappingError MAPPING_CONSTRAINT_INFEASIBLE ''TEMPORAL_ONLY_ZERO_FEASIBLE''"

definition temporal_not_finalized :: error where
  "temporal_not_finalized = MappingError MAPPING_CONSTRAINT_INFEASIBLE ''TEMPORAL_NOT_FINALIZED''"

definition offset_incompatible :: error where
  "offset_incompatible = VaultError VAULT_STATE_INVALID ''TEMPORAL_OFFSET_INCOMPATIBLE''"

definition temporal_corrupt_state :: error where
  "temporal_corrupt_state = VaultError VAULT_STATE_INVALID ''TEMPORAL_STATE_INVALID''"

definition temporal_empty_domain :: error where
  "temporal_empty_domain = MappingError MAPPING_CONSTRAINT_INFEASIBLE ''TEMPORAL_EMPTY_DOMAIN''"

definition temporal_recovery_invalid :: error where
  "temporal_recovery_invalid = VaultError VAULT_STATE_INVALID ''TEMPORAL_RECOVERY_INVALID''"

definition temporal_identity_material :: "string option \<Rightarrow> string" where
  "temporal_identity_material domain_name =
     (case domain_name of
        None \<Rightarrow> ''TEMPORAL'' @ [CHR 0x00] @ ''DEFAULT'' @ [CHR 0x00] @ ''V1''
      | Some n \<Rightarrow> ''TEMPORAL'' @ [CHR 0x00] @ ''NAMED'' @ [CHR 0x00] @ n)"

definition new_temporal_domain :: "(string \<Rightarrow> string) \<Rightarrow> vault \<Rightarrow> string option \<Rightarrow> temporal_domain result" where
  "new_temporal_domain sha16 v domain_name =
     bindE (case domain_name of None \<Rightarrow> Inr () | Some n \<Rightarrow> bindE (validate_token n) (\<lambda>_. Inr ())) (\<lambda>_.
       Inr (vault.extend v \<lparr>td_domain_id = ''dom-'' @ sha16 (temporal_identity_material domain_name),
         td_min_ordinal = None, td_max_ordinal = 0, td_offset = None, td_finalized = False,
         td_empty = False, td_draws = 0\<rparr>))"

section \<open>Persisted state\<close>

definition persisted_state_db :: "database \<Rightarrow> string \<Rightarrow> int option result" where
  "persisted_state_db db d =
     (case find (\<lambda>r. dr_id r = d) (mapping_domains_tbl db) of
        None \<Rightarrow> Inr None
      | Some r \<Rightarrow>
          if dr_kind r \<noteq> KIND_TEMPORAL then Inl temporal_corrupt_state
          else case find (\<lambda>q. pr_domain q = d) (temporal_parameters_tbl db) of
                 None \<Rightarrow> Inl temporal_corrupt_state
               | Some q \<Rightarrow>
                   (case pr_offset q of
                      SInt offset \<Rightarrow> if offset = 0 then Inl temporal_corrupt_state else Inr (Some offset)
                    | _ \<Rightarrow> Inl temporal_corrupt_state))"

definition persisted_temporal_state :: "string \<Rightarrow> (int option, 'x) vm" where
  "persisted_temporal_state d = bindV internal_connection (\<lambda>db. liftV (persisted_state_db db d))"

section \<open>Collect\<close>

definition observe_temporal :: "pyval \<Rightarrow> unit temporal_op" where
  "observe_temporal value m =
     (if td_finalized m then (Inl ValueError, m)
      else if value = VNone then (Inr (), m)
      else case temporal_ordinal value of
             Inl e \<Rightarrow> (Inl e, m)
           | Inr ordinal \<Rightarrow>
               (case td_min_ordinal m of
                  None \<Rightarrow> (Inr (), m\<lparr>td_min_ordinal := Some ordinal, td_max_ordinal := ordinal\<rparr>)
                | Some low \<Rightarrow>
                    (Inr (), m\<lparr>td_min_ordinal := Some (if ordinal < low then ordinal else low),
                               td_max_ordinal := (if ordinal > td_max_ordinal m then ordinal else td_max_ordinal m)\<rparr>)))"

section \<open>Finalize\<close>

definition draw_offset :: "tape \<Rightarrow> int \<Rightarrow> int \<Rightarrow> int \<Rightarrow> int temporal_op" where
  "draw_offset t lower upper n_offsets m =
     bindV (liftV (temporal_offset_at lower upper (randbelow t (td_draws m) n_offsets))) (\<lambda>fresh_offset.
     bindV (create_domain KIND_TEMPORAL None None (Some (td_domain_id m)) []) (\<lambda>_.
     bindV (set_temporal_parameter (td_domain_id m) fresh_offset) (\<lambda>_. retV fresh_offset)))
       (m\<lparr>td_draws := Suc (td_draws m)\<rparr>)"

definition allocate_offset :: "tape \<Rightarrow> int \<Rightarrow> int \<Rightarrow> int \<Rightarrow> int temporal_op" where
  "allocate_offset t lower upper n_offsets m =
     bindV (persisted_temporal_state (td_domain_id m)) (\<lambda>persisted.
       case persisted of
         Some offset \<Rightarrow> retV offset
       | None \<Rightarrow> draw_offset t lower upper n_offsets) m"

definition finalize_temporal :: "tape \<Rightarrow> int option temporal_op" where
  "finalize_temporal t m =
     (case td_min_ordinal m of
        None \<Rightarrow> (Inr None, m\<lparr>td_finalized := True, td_empty := True, td_offset := None\<rparr>)
      | Some low \<Rightarrow>
          bindV (liftV (temporal_feasible_interval low (td_max_ordinal m))) (\<lambda>(lower, upper).
            let n_offsets = temporal_nonzero_count lower upper
            in if n_offsets \<le> 0 then failV only_zero_feasible
               else bindV (with_transaction (allocate_offset t lower upper n_offsets)) (\<lambda>offset m'.
                      if \<not> (lower \<le> offset \<and> offset \<le> upper) then (Inl offset_incompatible, m')
                      else (Inr (Some offset), m'\<lparr>td_offset := Some offset, td_finalized := True\<rparr>))) m)"

section \<open>Shift and recover\<close>

definition shifted_temporal :: "pyval \<Rightarrow> pyval temporal_op" where
  "shifted_temporal value m =
     (if td_empty m then ((if value = VNone then Inr VNone else Inl temporal_empty_domain), m)
      else case td_offset m of
             None \<Rightarrow> (Inl temporal_not_finalized, m)
           | Some offset \<Rightarrow>
               if \<not> td_finalized m then (Inl temporal_not_finalized, m)
               else (temporal_shift value offset, m))"

definition recover_temporal :: "pyval \<Rightarrow> pyval temporal_op" where
  "recover_temporal value m =
     (if value = VNone then (Inr VNone, m)
      else case td_offset m of
             Some offset \<Rightarrow> (temporal_recover value offset, m)
           | None \<Rightarrow>
               bindV (persisted_temporal_state (td_domain_id m)) (\<lambda>persisted m'.
                 case persisted of
                   None \<Rightarrow> (Inl temporal_recovery_invalid, m')
                 | Some offset \<Rightarrow> (temporal_recover value offset, m'\<lparr>td_offset := Some offset\<rparr>)) m)"

section \<open>The identity namespaces are disjoint\<close>

lemma temporal_identity_inj: "temporal_identity_material a = temporal_identity_material b \<longleftrightarrow> a = b"
  by (auto simp: temporal_identity_material_def split: option.splits)

section \<open>Collected extrema\<close>

text \<open>The extrema cover every observed value.\<close>

definition covers :: "temporal_domain \<Rightarrow> pyval \<Rightarrow> bool" where
  "covers m v \<longleftrightarrow> v = VNone \<or> (\<exists>n low. temporal_ordinal v = Inr n \<and> td_min_ordinal m = Some low
     \<and> low \<le> n \<and> n \<le> td_max_ordinal m)"

lemma observe_temporal_covers:
  assumes "observe_temporal v m = (Inr u, m')" and "td_min_ordinal m \<noteq> None \<longrightarrow> the (td_min_ordinal m) \<le> td_max_ordinal m"
  shows "covers m' v" and "covers m w \<Longrightarrow> covers m' w"
    and "td_min_ordinal m' \<noteq> None \<longrightarrow> the (td_min_ordinal m') \<le> td_max_ordinal m'"
    and "td_finalized m' = td_finalized m" and "td_offset m' = td_offset m" and "td_empty m' = td_empty m"
    and "td_domain_id m' = td_domain_id m" and "td_draws m' = td_draws m"
    and "vault.truncate m' = vault.truncate m"
  using assms
  by (auto simp: observe_temporal_def covers_def vault.defs split: if_splits option.splits sum.splits)

lemma mapV_observe_covers:
  assumes "mapV observe_temporal vs m = (Inr us, m')"
    and "td_min_ordinal m \<noteq> None \<longrightarrow> the (td_min_ordinal m) \<le> td_max_ordinal m"
  shows "\<forall>v\<in>set vs. covers m' v" and "covers m w \<Longrightarrow> covers m' w"
    and "td_offset m' = td_offset m" and "td_empty m' = td_empty m" and "td_domain_id m' = td_domain_id m"
    and "vault.truncate m' = vault.truncate m"
proof -
  have "(\<forall>v\<in>set vs. covers m' v) \<and> (\<forall>w. covers m w \<longrightarrow> covers m' w) \<and> td_offset m' = td_offset m
    \<and> td_empty m' = td_empty m \<and> td_domain_id m' = td_domain_id m \<and> vault.truncate m' = vault.truncate m"
    using assms
  proof (induction vs arbitrary: m us)
    case Nil
    then show ?case by simp
  next
    case (Cons v vs)
    obtain u m1 us' where o: "observe_temporal v m = (Inr u, m1)" and r: "mapV observe_temporal vs m1 = (Inr us', m')"
      using Cons.prems(1) by (auto elim!: bindV_Inr_E)
    note c = observe_temporal_covers [OF o Cons.prems(2)]
    show ?case using Cons.IH [OF r c(3)] c by auto
  qed
  then show "\<forall>v\<in>set vs. covers m' v" and "covers m w \<Longrightarrow> covers m' w"
    and "td_offset m' = td_offset m" and "td_empty m' = td_empty m" and "td_domain_id m' = td_domain_id m"
    and "vault.truncate m' = vault.truncate m" by auto
qed

section \<open>Allocation persists the offset it returns\<close>

lemma persisted_usable [simp]: "usable v \<Longrightarrow> persisted_temporal_state d v = (persisted_state_db (working v) d, v)"
  by (simp add: persisted_temporal_state_def)

lemma body_ok_draw_offset: "body_ok (draw_offset t l u n)"
proof -
  have "\<exists>db x. snd (bindV (liftV r) (\<lambda>off. bindV (create_domain KIND_TEMPORAL None None (Some d) []) (\<lambda>_.
         bindV (set_temporal_parameter d off) (\<lambda>_. retV off))) (m\<lparr>td_draws := k\<rparr>)) = with_view db x m"
    for r :: "int result" and d k and m :: temporal_domain
  proof -
    have "body_ok (bindV (liftV r) (\<lambda>off. bindV (create_domain KIND_TEMPORAL None None (Some d) []) (\<lambda>_.
         bindV (set_temporal_parameter d off) (\<lambda>_. retV off))))"
      by (intro body_ok_bindV body_ok_basic body_ok_recorders)
    from this [unfolded body_ok_def view_iff, rule_format, of "m\<lparr>td_draws := k\<rparr>"]
    show ?thesis unfolding view_iff by simp
  qed
  then show ?thesis unfolding body_ok_def draw_offset_def by blast
qed

lemma body_ok_allocate_offset: "body_ok (allocate_offset t l u n)"
proof -
  have "body_ok (bindV (persisted_temporal_state d) (\<lambda>persisted.
       case persisted of Some offset \<Rightarrow> retV offset | None \<Rightarrow> draw_offset t l u n))" for d
    unfolding persisted_temporal_state_def
    by (intro body_ok_bindV body_ok_basic) (use body_ok_draw_offset in \<open>auto split: option.splits\<close>)
  then show ?thesis by (simp add: body_ok_def allocate_offset_def)
qed

lemma find_append_new: "\<not> list_ex P xs \<Longrightarrow> P x \<Longrightarrow> find P (xs @ [x]) = Some x"
  by (induction xs) auto

lemma find_None_list_ex: "find P xs = None \<longleftrightarrow> \<not> list_ex P xs"
  by (induction xs) auto

definition temporal_domain_row :: "string \<Rightarrow> domain_row" where
  "temporal_domain_row d = \<lparr>dr_id = d, dr_kind = KIND_TEMPORAL, dr_normalization = None, dr_role = None\<rparr>"

definition with_offset :: "string \<Rightarrow> int \<Rightarrow> database \<Rightarrow> database" where
  "with_offset d k db =
     db\<lparr>mapping_domains_tbl := mapping_domains_tbl db @ [temporal_domain_row d],
        temporal_parameters_tbl := temporal_parameters_tbl db @ [\<lparr>pr_domain = d, pr_offset = SInt k\<rparr>]\<rparr>"

lemma persisted_with_offset:
  assumes "\<not> has_domain_db db d" and "\<not> list_ex (\<lambda>q. pr_domain q = d) (temporal_parameters_tbl db)" and "k \<noteq> 0"
  shows "persisted_state_db (with_offset d k db) d = Inr (Some k)"
  using assms
  by (simp add: persisted_state_db_def with_offset_def temporal_domain_row_def has_domain_db_def find_append_new)

lemma persisted_none_iff: "persisted_state_db db d = Inr None \<longleftrightarrow> \<not> has_domain_db db d"
  by (auto simp: persisted_state_db_def has_domain_db_def find_None_list_ex [symmetric]
      split: option.splits if_splits sqlval.splits)

lemma create_temporal_domain_writable:
  assumes "writable v" and "\<not> has_domain_db (working v) d"
  shows "create_domain KIND_TEMPORAL None None (Some d) h v =
    (case validate_token d of
       Inl e \<Rightarrow> (Inl e, v)
     | Inr d' \<Rightarrow> (Inr d, v\<lparr>working := (working v)\<lparr>mapping_domains_tbl := mapping_domains_tbl (working v) @ [temporal_domain_row d]\<rparr>\<rparr>))"
proof (cases "validate_token d")
  case (Inl e)
  then show ?thesis using assms(1) by (simp add: create_domain_def guardV_def)
next
  case (Inr d')
  then have "d' = d" by (auto simp: validate_token_def split: if_splits)
  then show ?thesis using assms Inr
    by (simp add: create_domain_def guardV_def validate_optional_token_def execute_insert_usable insert_domain_def
      temporal_domain_row_def KIND_TEMPORAL_def)
qed

lemma set_temporal_writable:
  assumes "writable v" and "validate_token d = Inr d" and "k \<noteq> 0" and "bind_int k = Inr ()"
  shows "set_temporal_parameter d k v =
    (case insert_temporal \<lparr>pr_domain = d, pr_offset = SInt k\<rparr> (working v) of
       None \<Rightarrow> (Inl (vault_state_failure ''TEMPORAL_REJECTED''), v)
     | Some db \<Rightarrow> (Inr (), v\<lparr>working := db\<rparr>))"
  using assms by (simp add: set_temporal_parameter_def execute_insert_usable)

lemma set_temporal_Inr:
  assumes "writable v" and "set_temporal_parameter d k v = (Inr u, v')"
  shows "k \<noteq> 0" and "\<exists>db. insert_temporal \<lparr>pr_domain = d, pr_offset = SInt k\<rparr> (working v) = Some db \<and> v' = v\<lparr>working := db\<rparr>"
  using assms
  by (auto simp: set_temporal_parameter_def execute_insert_usable guardV_def elim!: bindV_Inr_E split: if_splits option.splits)

lemma draw_offset_Inr:
  assumes w: "writable m" and fresh: "\<not> has_domain_db (working m) (td_domain_id m)"
    and "draw_offset t l u n m = (Inr k, m')"
  shows "k \<noteq> 0" and "temporal_offset_at l u (randbelow t (td_draws m) n) = Inr k"
    and "\<not> list_ex (\<lambda>q. pr_domain q = td_domain_id m) (temporal_parameters_tbl (working m))"
    and "m' = m\<lparr>td_draws := Suc (td_draws m), working := with_offset (td_domain_id m) k (working m)\<rparr>"
proof -
  let ?d = "td_domain_id m" and ?m = "m\<lparr>td_draws := Suc (td_draws m)\<rparr>"
  let ?m2 = "?m\<lparr>working := (working m)\<lparr>mapping_domains_tbl := mapping_domains_tbl (working m) @ [temporal_domain_row ?d]\<rparr>\<rparr>"
  have w': "writable ?m" "working ?m = working m" using w by (simp_all add: writable_def usable_def)
  note create = create_temporal_domain_writable [OF w'(1), of ?d "[]", unfolded w'(2), OF fresh]
  obtain x where x: "temporal_offset_at l u (randbelow t (td_draws m) n) = Inr x"
    and r1: "bindV (create_domain KIND_TEMPORAL None None (Some ?d) []) (\<lambda>_.
       bindV (set_temporal_parameter ?d x) (\<lambda>_. retV x)) ?m = (Inr k, m')"
    using assms(3) unfolding draw_offset_def by (cases rule: bindV_Inr_E) auto
  have cr: "create_domain KIND_TEMPORAL None None (Some ?d) [] ?m = (Inr ?d, ?m2)"
    using r1 create by (cases "validate_token ?d") auto
  then have "bindV (set_temporal_parameter ?d x) (\<lambda>_. retV x) ?m2 = (Inr k, m')" using r1 by simp
  then have st: "set_temporal_parameter ?d x ?m2 = (Inr (), m')" and k: "k = x"
    by (auto elim!: bindV_Inr_E)
  show "temporal_offset_at l u (randbelow t (td_draws m) n) = Inr k" using x k by simp
  have w2: "writable ?m2" using w'(1) by simp
  note s = set_temporal_Inr [OF w2 st]
  show "k \<noteq> 0" using s(1) k by simp
  obtain db where db: "insert_temporal \<lparr>pr_domain = ?d, pr_offset = SInt x\<rparr> (working ?m2) = Some db" "m' = ?m2\<lparr>working := db\<rparr>"
    using s(2) by blast
  then show "\<not> list_ex (\<lambda>q. pr_domain q = ?d) (temporal_parameters_tbl (working m))"
    and "m' = m\<lparr>td_draws := Suc (td_draws m), working := with_offset ?d k (working m)\<rparr>"
    using k by (auto simp: insert_temporal_def with_offset_def split: if_splits)
qed

lemma allocate_offset_persists:
  assumes "writable m" and "allocate_offset t l u n m = (Inr k, m')"
  shows "persisted_state_db (working m') (td_domain_id m) = Inr (Some k) \<and> td_domain_id m' = td_domain_id m
    \<and> td_empty m' = td_empty m"
proof (cases "persisted_state_db (working m) (td_domain_id m)")
  case (Inl e)
  then show ?thesis using assms by (simp add: allocate_offset_def)
next
  case (Inr p)
  show ?thesis
  proof (cases p)
    case (Some off)
    then show ?thesis using assms Inr by (auto simp: allocate_offset_def)
  next
    case None
    then have fresh: "\<not> has_domain_db (working m) (td_domain_id m)" using Inr persisted_none_iff by simp
    have "draw_offset t l u n m = (Inr k, m')" using assms Inr None by (simp add: allocate_offset_def)
    from draw_offset_Inr [OF assms(1) fresh this] show ?thesis
      using persisted_with_offset [OF fresh] by simp
  qed
qed

section \<open>Finalization\<close>

lemma finalize_temporal_Some:
  assumes "finalize_temporal t m = (Inr (Some k), m')"
  shows "\<exists>low. td_min_ordinal m = Some low \<and> LOGICAL_MIN_ORDINAL - low \<le> k
      \<and> k \<le> LOGICAL_MAX_ORDINAL - td_max_ordinal m"
    and "persisted_state_db (committed m') (td_domain_id m) = Inr (Some k)"
    and "td_offset m' = Some k" and "td_finalized m'" and "td_empty m' = td_empty m"
    and "td_domain_id m' = td_domain_id m"
proof -
  obtain low where low: "td_min_ordinal m = Some low"
    using assms by (cases "td_min_ordinal m") (auto simp: finalize_temporal_def)
  let ?l = "LOGICAL_MIN_ORDINAL - low" and ?u = "LOGICAL_MAX_ORDINAL - td_max_ordinal m"
  have int: "temporal_feasible_interval low (td_max_ordinal m) = Inr (?l, ?u)"
    using assms low by (auto simp: finalize_temporal_def temporal_feasible_interval_def split: if_splits)
  let ?n = "temporal_nonzero_count ?l ?u"
  have "\<not> ?n \<le> 0" using assms low int by (auto simp: finalize_temporal_def Let_def)
  then obtain m1 where txn: "with_transaction (allocate_offset t ?l ?u ?n) m = (Inr k, m1)"
    and k: "?l \<le> k" "k \<le> ?u" and m': "m' = m1\<lparr>td_offset := Some k, td_finalized := True\<rparr>"
    using assms low int by (auto simp: finalize_temporal_def Let_def elim!: bindV_Inr_E split: if_splits)
  note ok = with_transaction_success [OF body_ok_allocate_offset txn]
  let ?v = "txn_start True m"
  have w: "writable ?v" using ok(1) by (simp add: authority_ok_def writable_def usable_def txn_start_def)
  have body: "allocate_offset t ?l ?u ?n ?v = (Inr k, snd (allocate_offset t ?l ?u ?n ?v))"
    using ok(2) by (metis prod.collapse)
  note per = allocate_offset_persists [OF w body]
  note m1 = with_transaction_final [OF body_ok_allocate_offset txn]
  show "\<exists>low. td_min_ordinal m = Some low \<and> LOGICAL_MIN_ORDINAL - low \<le> k
      \<and> k \<le> LOGICAL_MAX_ORDINAL - td_max_ordinal m" using low k by simp
  show "td_offset m' = Some k" "td_finalized m'" using m' by simp_all
  show "persisted_state_db (committed m') (td_domain_id m) = Inr (Some k)" "td_empty m' = td_empty m"
    "td_domain_id m' = td_domain_id m"
    using per by (simp_all add: m' m1) (simp_all add: txn_start_def)
qed

lemma shift_of_covered:
  assumes "finalize_temporal t m = (Inr (Some k), m')" and "covers m v" and "valid_temporal v" and "\<not> td_empty m"
  shows "\<exists>w. shifted_temporal v m' = (Inr w, m') \<and> valid_temporal w \<and> temporal_recover w k = Inr v
    \<and> (v \<noteq> VNone \<and> k \<noteq> 0 \<longrightarrow> w \<noteq> v)"
proof -
  note f = finalize_temporal_Some [OF assms(1)]
  have sh: "shifted_temporal v m' = (temporal_shift v k, m')"
    using f assms(4) by (simp add: shifted_temporal_def)
  show ?thesis
  proof (cases "v = VNone")
    case True
    then show ?thesis using sh by (simp add: temporal_recover_def)
  next
    case False
    then obtain n low where n: "temporal_ordinal v = Inr n" "td_min_ordinal m = Some low" "low \<le> n" "n \<le> td_max_ordinal m"
      using assms(2) by (auto simp: covers_def)
    then have "in_logical_range (n + k)" using f(1) by (auto simp: in_logical_range_def)
    then obtain w where w: "temporal_shift v k = Inr w" using temporal_shift_Inr_iff [OF assms(3)] n(1) by blast
    have "temporal_ordinal w = Inr (n + k)" using temporal_shift_ordinal [OF w n(1)] .
    then have "k \<noteq> 0 \<longrightarrow> w \<noteq> v" using n(1) by auto
    then show ?thesis using sh w temporal_shift_valid [OF assms(3) w] temporal_recover_shift [OF assms(3) w] by auto
  qed
qed

lemma persisted_nonzero: "persisted_state_db db d = Inr (Some k) \<Longrightarrow> k \<noteq> 0"
  by (auto simp: persisted_state_db_def split: option.splits if_splits sqlval.splits)

lemma new_temporal_domain_Inr:
  assumes "new_temporal_domain sha16 v name = Inr m"
  shows "td_min_ordinal m = None" "td_offset m = None" "\<not> td_empty m"
    "td_domain_id m = ''dom-'' @ sha16 (temporal_identity_material name)"
    "working m = working v" "committed m = committed v" "usable m = usable v"
  using assms by (auto simp: new_temporal_domain_def vault.defs bindE_Inr_iff usable_def split: option.splits)

text \<open>
  Temporal pseudonymization survives a reopen. Collect any values in a fresh temporal domain,
  finalize it (with any random source, or reusing a persisted offset) and shift an observed value:
  the shift succeeds, differs from every non-null original, and a new object on any usable
  connection that sees the committed database recovers the original exactly from the persisted
  offset alone.
\<close>

theorem temporal_recovers_after_reopen:
  assumes "new_temporal_domain sha16 v0 name = Inr m0"
    and "mapV observe_temporal vs m0 = (Inr us, m1)"
    and "finalize_temporal t m1 = (Inr (Some k), m2)"
    and "v \<in> set vs" and "valid_temporal v"
    and "usable u" and "working u = committed m2" and "new_temporal_domain sha16 u name = Inr m3"
  shows "\<exists>w. shifted_temporal v m2 = (Inr w, m2) \<and> valid_temporal w \<and> (v \<noteq> VNone \<longrightarrow> w \<noteq> v)
    \<and> fst (recover_temporal w m3) = Inr v"
proof -
  note n0 = new_temporal_domain_Inr [OF assms(1)] and n3 = new_temporal_domain_Inr [OF assms(8)]
  note c = mapV_observe_covers [OF assms(2)]
  have id: "td_domain_id m1 = td_domain_id m3" using c(5) n0 n3 by simp
  have cov: "covers m1 v" "\<not> td_empty m1" using c(1,4) n0 assms(4) by auto
  note per = finalize_temporal_Some(2) [OF assms(3)]
  have k: "k \<noteq> 0" using persisted_nonzero [OF per] .
  obtain w where w: "shifted_temporal v m2 = (Inr w, m2)" "valid_temporal w" "temporal_recover w k = Inr v"
    "v \<noteq> VNone \<and> k \<noteq> 0 \<longrightarrow> w \<noteq> v"
    using shift_of_covered [OF assms(3) cov(1) assms(5) cov(2)] by blast
  have "fst (recover_temporal w m3) = Inr v"
  proof (cases "w = VNone")
    case True
    then show ?thesis using w(3) by (simp add: recover_temporal_def temporal_recover_def)
  next
    case False
    have "persisted_temporal_state (td_domain_id m3) m3 = (Inr (Some k), m3)"
      using per id assms(6,7) n3 by simp
    then show ?thesis using False n3(2) w(3) by (simp add: recover_temporal_def)
  qed
  then show ?thesis using w k by blast
qed

definition temporal_sample_vault :: vault where
  "temporal_sample_vault =
     (let db = \<lparr>writer_authority = Some ''run-1'', acquire_tick = 1, operations_tbl = [], publication_tbl = [],
        mapping_domains_tbl = [], tables_tbl = [], fields_tbl = [], text_mappings_tbl = [],
        numeric_key_mappings_tbl = [], memo_recovery_tbl = [], temporal_parameters_tbl = []\<rparr>
      in \<lparr>committed = db, working = db, txn_active = False, txn_authorized = False,
          read_only = False, writer_token = Some ''run-1'', poisoned = None, closed = False,
          begin_fails = False, commit_fails = False, rollback_fails = False\<rparr>)"

definition temporal_sample :: temporal_domain where
  "temporal_sample = projr (new_temporal_domain (\<lambda>_. ''0f'') temporal_sample_vault None)"

definition temporal_sample_observed :: temporal_domain where
  "temporal_sample_observed = snd (mapV observe_temporal [VDate (PyDate 2024 2 29), VNone] temporal_sample)"

definition temporal_sample_final :: temporal_domain where
  "temporal_sample_final = snd (finalize_temporal (\<lambda>_. 5) temporal_sample_observed)"

definition temporal_sample_reader :: vault where
  "temporal_sample_reader = temporal_sample_vault\<lparr>working := committed temporal_sample_final,
     committed := committed temporal_sample_final, read_only := True\<rparr>"

theorem temporal_recovers_after_reopen_witness:
  "\<exists>w m3. shifted_temporal (VDate (PyDate 2024 2 29)) temporal_sample_final = (Inr w, temporal_sample_final)
     \<and> w \<noteq> VDate (PyDate 2024 2 29)
     \<and> new_temporal_domain (\<lambda>_. ''0f'') temporal_sample_reader None = Inr m3
     \<and> fst (recover_temporal w m3) = Inr (VDate (PyDate 2024 2 29))"
proof -
  let ?vs = "[VDate (PyDate 2024 2 29), VNone]"
  have n0: "new_temporal_domain (\<lambda>_. ''0f'') temporal_sample_vault None = Inr temporal_sample"
    by (simp add: temporal_sample_def new_temporal_domain_def)
  have "fst (mapV observe_temporal ?vs temporal_sample) = Inr [(), ()]" by code_simp
  then have o: "mapV observe_temporal ?vs temporal_sample = (Inr [(), ()], temporal_sample_observed)"
    unfolding temporal_sample_observed_def by (metis prod.collapse)
  have "fst (finalize_temporal (\<lambda>_. 5) temporal_sample_observed) = Inr (Some (- 738939))" by code_simp
  then have f: "finalize_temporal (\<lambda>_. 5) temporal_sample_observed = (Inr (Some (- 738939)), temporal_sample_final)"
    unfolding temporal_sample_final_def by (metis prod.collapse)
  have v: "valid_temporal (VDate (PyDate 2024 2 29))" by code_simp
  have u: "usable temporal_sample_reader" "working temporal_sample_reader = committed temporal_sample_final"
    by (simp_all add: temporal_sample_reader_def usable_def temporal_sample_vault_def Let_def)
  obtain m3 where m3: "new_temporal_domain (\<lambda>_. ''0f'') temporal_sample_reader None = Inr m3"
    by (simp add: new_temporal_domain_def)
  show ?thesis using temporal_recovers_after_reopen [OF n0 o f _ v u m3] m3 by auto
qed

lemma draw_offset_fresh:
  assumes "writable m" and "validate_token (td_domain_id m) = Inr (td_domain_id m)"
    and "\<not> has_domain_db (working m) (td_domain_id m)"
    and "\<not> list_ex (\<lambda>q. pr_domain q = td_domain_id m) (temporal_parameters_tbl (working m))"
    and "temporal_offset_at l u (randbelow t (td_draws m) n) = Inr k" and "k \<noteq> 0" and "bind_int k = Inr ()"
  shows "draw_offset t l u n m
    = (Inr k, m\<lparr>td_draws := Suc (td_draws m), working := with_offset (td_domain_id m) k (working m)\<rparr>)"
proof -
  let ?d = "td_domain_id m" and ?m = "m\<lparr>td_draws := Suc (td_draws m)\<rparr>"
  let ?db = "working m\<lparr>mapping_domains_tbl := mapping_domains_tbl (working m) @ [temporal_domain_row ?d]\<rparr>"
  have wm: "writable ?m" "working ?m = working m" using assms(1) by (simp_all add: writable_def usable_def)
  have create: "create_domain KIND_TEMPORAL None None (Some ?d) [] ?m = (Inr ?d, ?m\<lparr>working := ?db\<rparr>)"
    using create_temporal_domain_writable [OF wm(1), of ?d "[]"] assms(2,3) unfolding wm(2) by simp
  have "has_domain_db ?db ?d" by (simp add: has_domain_db_def temporal_domain_row_def)
  then have ins: "insert_temporal \<lparr>pr_domain = ?d, pr_offset = SInt k\<rparr> ?db = Some (with_offset ?d k (working m))"
    using assms(4) by (simp add: insert_temporal_def with_offset_def)
  have "writable (?m\<lparr>working := ?db\<rparr>)" using wm(1) by simp
  from set_temporal_writable [OF this assms(2,6,7)] ins
  have "set_temporal_parameter ?d k (?m\<lparr>working := ?db\<rparr>) = (Inr (), ?m\<lparr>working := with_offset ?d k (working m)\<rparr>)"
    by simp
  then show ?thesis using create assms(5) unfolding draw_offset_def by simp
qed

text \<open>The collected extrema admit a non-zero offset and the vault knows nothing of the domain yet.\<close>

definition fresh_extrema :: "temporal_domain \<Rightarrow> int \<Rightarrow> bool" where
  "fresh_extrema m low \<longleftrightarrow> healthy m \<and> validate_token (td_domain_id m) = Inr (td_domain_id m)
     \<and> \<not> has_domain_db (committed m) (td_domain_id m)
     \<and> \<not> list_ex (\<lambda>q. pr_domain q = td_domain_id m) (temporal_parameters_tbl (committed m))
     \<and> td_min_ordinal m = Some low \<and> low \<le> td_max_ordinal m
     \<and> LOGICAL_MIN_ORDINAL \<le> low \<and> td_max_ordinal m \<le> LOGICAL_MAX_ORDINAL
     \<and> \<not> (low = LOGICAL_MIN_ORDINAL \<and> td_max_ordinal m = LOGICAL_MAX_ORDINAL)"

lemma fresh_extrema_count:
  assumes "fresh_extrema m low"
  shows "0 < temporal_nonzero_count (LOGICAL_MIN_ORDINAL - low) (LOGICAL_MAX_ORDINAL - td_max_ordinal m)"
  using assms by (auto simp: fresh_extrema_def temporal_nonzero_count_def Let_def)

lemma finalize_fresh_draw:
  assumes m: "fresh_extrema m low"
    and "l = LOGICAL_MIN_ORDINAL - low" and "u = LOGICAL_MAX_ORDINAL - td_max_ordinal m"
    and k: "temporal_offset_at l u (randbelow t (td_draws m) (temporal_nonzero_count l u)) = Inr k"
  shows "fst (finalize_temporal t m) = Inr (Some k)"
proof -
  let ?n = "temporal_nonzero_count l u" and ?v = "txn_start True m"
  have n: "0 < ?n" using fresh_extrema_count [OF m] assms(2,3) by simp
  have "0 \<le> randbelow t (td_draws m) ?n" "randbelow t (td_draws m) ?n < ?n" using n by (auto simp: randbelow_def)
  then have kp: "k \<noteq> 0" "l \<le> k" "k \<le> u" using temporal_offset_at_Inr k by fastforce+
  have h: "healthy m" using m by (simp add: fresh_extrema_def)
  have bi: "bind_int k = Inr ()"
    using kp m assms(2,3) by (simp add: bind_int_def fresh_extrema_def LOGICAL_MIN_ORDINAL_def LOGICAL_MAX_ORDINAL_def)
  have v: "working ?v = committed m" "td_domain_id ?v = td_domain_id m" "td_draws ?v = td_draws m"
    by (simp_all add: txn_start_def)
  have w: "writable ?v" using healthy_txn_start [OF h] .
  have "\<exists>w. draw_offset t l u ?n ?v = (Inr k, w)"
    using draw_offset_fresh [OF w, of l u t ?n k] m k kp(1) bi unfolding v fresh_extrema_def by blast
  then obtain w where "allocate_offset t l u ?n ?v = (Inr k, w)"
    using persisted_none_iff [of "committed m" "td_domain_id m"] m w
    by (auto simp: allocate_offset_def v fresh_extrema_def)
  from with_transaction_healthy [OF body_ok_allocate_offset h this]
  show ?thesis using n kp m assms(2,3)
    by (simp add: finalize_temporal_def temporal_feasible_interval_def Let_def fresh_extrema_def)
qed

lemma temporal_offset_at_reaches:
  assumes "k \<in> {l..u} - {0}"
  shows "\<exists>i. 0 \<le> i \<and> i < temporal_nonzero_count l u \<and> temporal_offset_at l u i = Inr k"
  using assms
  by (intro exI [of _ "if l \<le> 0 \<and> 0 \<le> u \<and> 0 < k then k - l - 1 else k - l"])
    (auto simp: temporal_offset_at_def temporal_nonzero_count_def Let_def)

text \<open>
  A fresh temporal domain can always be finalized, and the offset is unbiased in its support: on
  a healthy vault with no state for the domain and at least one feasible non-zero offset, \<open>finalize\<close>
  succeeds for every random source with a feasible non-zero offset, and every feasible non-zero
  offset is the result for some random source.
\<close>

theorem finalize_temporal_fresh:
  assumes "fresh_extrema m low"
  shows "{k. \<exists>t. fst (finalize_temporal t m) = Inr (Some k)}
       = {LOGICAL_MIN_ORDINAL - low..LOGICAL_MAX_ORDINAL - td_max_ordinal m} - {0}
    \<and> (\<forall>t. \<exists>k. fst (finalize_temporal t m) = Inr (Some k))"
proof -
  define l u where "l = LOGICAL_MIN_ORDINAL - low" and "u = LOGICAL_MAX_ORDINAL - td_max_ordinal m"
  let ?n = "temporal_nonzero_count l u"
  have n: "0 < ?n" using fresh_extrema_count [OF assms] by (simp add: l_def u_def)
  note result = finalize_fresh_draw [OF assms l_def u_def]
  have draw: "\<exists>k. temporal_offset_at l u (randbelow t (td_draws m) ?n) = Inr k \<and> k \<in> {l..u} - {0}" for t
    using temporal_offset_at_Inr [of "randbelow t (td_draws m) ?n" l u] n by (auto simp: randbelow_def)
  have all: "\<exists>t. fst (finalize_temporal t m) = Inr (Some k)" if k: "k \<in> {l..u} - {0}" for k
  proof -
    obtain i where i: "0 \<le> i" "i < ?n" "temporal_offset_at l u i = Inr k"
      using temporal_offset_at_reaches [OF k] by blast
    have "randbelow (\<lambda>_. nat i) (td_draws m) ?n = i" using i by (simp add: randbelow_def)
    then show ?thesis using result [of "\<lambda>_. nat i"] i(3) by metis
  qed
  have only: "k \<in> {l..u} - {0}" if "fst (finalize_temporal t m) = Inr (Some k)" for t k
    using draw [of t] result [of t] that by auto
  have "\<exists>k. fst (finalize_temporal t m) = Inr (Some k)" for t using draw [of t] result [of t] by blast
  then show ?thesis using all only unfolding l_def [symmetric] u_def [symmetric] by blast
qed

theorem finalize_temporal_fresh_witness:
  "\<exists>t. fst (finalize_temporal t temporal_sample_observed) = Inr (Some 1)"
proof -
  have "healthy temporal_sample_observed"
    unfolding healthy_def authority_ok_def vault_idle_def by code_simp
  moreover have "td_domain_id temporal_sample_observed = ''dom-0f''" "validate_token ''dom-0f'' = Inr ''dom-0f''"
    "\<not> has_domain_db (committed temporal_sample_observed) ''dom-0f''"
    "\<not> list_ex (\<lambda>q. pr_domain q = ''dom-0f'') (temporal_parameters_tbl (committed temporal_sample_observed))"
    "td_min_ordinal temporal_sample_observed = Some 738945" and hi: "td_max_ordinal temporal_sample_observed = 738945"
    by code_simp+
  ultimately have "fresh_extrema temporal_sample_observed 738945"
    by (simp add: fresh_extrema_def LOGICAL_MIN_ORDINAL_def LOGICAL_MAX_ORDINAL_def)
  from finalize_temporal_fresh [OF this]
  have "1 \<in> {k. \<exists>t. fst (finalize_temporal t temporal_sample_observed) = Inr (Some k)}"
    by (simp add: hi LOGICAL_MIN_ORDINAL_def LOGICAL_MAX_ORDINAL_def)
  then show ?thesis by blast
qed

end
