(* ===== verification/Memo_Allocation.thy ===== *)
theory Memo_Allocation
  imports Vault_Mappings
begin

text \<open>
  The store-then-mask unit of \<^verbatim>\<open>src/src/dbf_anonymizer/vault/memo_allocation.py\<close>: a memo payload is
  persisted under its stable identity inside one authorized unit before a mask exists; a rerun with
  the same payload reuses the row, a conflicting one is refused; recovery returns the payload.
\<close>

definition memo_recovery_invalid :: error where
  "memo_recovery_invalid = VaultError VAULT_STATE_INVALID ''MEMO_RECOVERY_INVALID''"

definition memo_identity_conflict :: error where
  "memo_identity_conflict = VaultError VAULT_STATE_INVALID ''MEMO_IDENTITY_CONFLICT''"

definition mask_for :: "char \<Rightarrow> pyval \<Rightarrow> pyval result" where
  "mask_for dbf_type value =
     (if dbf_type \<notin> set MEMO_FIELD_TYPES then Inl memo_unsupported
      else case value of
             VNone \<Rightarrow> Inr VNone
           | VStr s \<Rightarrow>
               if dbf_type = CHR ''G'' \<or> dbf_type = CHR ''P'' then Inl memo_unsupported else memo_safe_mask value
           | VBytes b \<Rightarrow> memo_safe_mask value
           | VByteArray b \<Rightarrow> memo_safe_mask value
           | _ \<Rightarrow> Inl memo_unsupported)"

definition mask_memo_value :: "char \<Rightarrow> pyval \<Rightarrow> pyval result" where
  "mask_memo_value dbf_type value = mask_for dbf_type value"

fun value_kind :: "pyval \<Rightarrow> payload_kind" where
  "value_kind (VStr s) = TEXT_KIND"
| "value_kind _ = BINARY_KIND"

record memo_identity =
  mi_table :: string
  mi_index :: int
  mi_field :: string

text \<open>The body of the unit; the comparison encodes the new value as the row API would.\<close>

definition persist_memo_body :: "memo_identity \<Rightarrow> pyval \<Rightarrow> (unit, 'x) vm" where
  "persist_memo_body i value =
     bindV (get_memo_recovery (mi_table i) (mi_index i) (mi_field i)) (\<lambda>existing.
       case existing of
         Some (stored_payload, stored_kind) \<Rightarrow>
           bindV (if stored_kind = kind_text (value_kind value)
                  then bindV (liftV (memo_blob value (value_kind value))) (\<lambda>blob. retV (stored_payload = blob))
                  else retV False) (\<lambda>same.
             guardV same memo_identity_conflict)
       | None \<Rightarrow> add_memo_recovery (mi_table i) (mi_index i) (mi_field i) value (value_kind value))"

definition persist_memo_recovery :: "memo_identity \<Rightarrow> char \<Rightarrow> pyval \<Rightarrow> (pyval, 'x) vm" where
  "persist_memo_recovery i dbf_type value =
     bindV (liftV (mask_for dbf_type value)) (\<lambda>mask.
       if mask = VNone then retV VNone
       else bindV (with_transaction (persist_memo_body i value)) (\<lambda>_. retV mask))"

definition recover_memo_value :: "memo_identity \<Rightarrow> (pyval, 'x) vm" where
  "recover_memo_value i =
     bindV (get_memo_recovery (mi_table i) (mi_index i) (mi_field i)) (\<lambda>row.
       case row of
         None \<Rightarrow> retV VNone
       | Some (payload, kind) \<Rightarrow>
           if kind = kind_text TEXT_KIND then
             (case utf8_decode payload of
                None \<Rightarrow> failV memo_recovery_invalid
              | Some s \<Rightarrow> retV (VStr s))
           else if kind = kind_text BINARY_KIND then retV (VBytes payload)
           else failV memo_recovery_invalid)"

section \<open>The row of an identity\<close>

lemma body_ok_persist_memo [intro]: "body_ok (persist_memo_body i value)"
  unfolding persist_memo_body_def
  by (intro body_ok_bindV body_ok_recorders) (auto intro!: body_ok_bindV split: option.splits)

definition identity_valid :: "memo_identity \<Rightarrow> bool" where
  "identity_valid i \<longleftrightarrow> validate_token (mi_table i) = Inr (mi_table i) \<and> validate_token (mi_field i) = Inr (mi_field i)
     \<and> 0 \<le> mi_index i \<and> mi_index i < 2 ^ 63"

abbreviation row_of :: "database \<Rightarrow> memo_identity \<Rightarrow> (bytes \<times> pystr) option result" where
  "row_of db i \<equiv> memo_row_db db (mi_table i) (mi_index i) (mi_field i)"

lemma validate_token_same: "validate_token t = Inr t' \<Longrightarrow> t' = t"
  by (auto simp: validate_token_def split: if_splits)

lemma get_memo_Inr:
  assumes "usable v" and "get_memo_recovery t k f v = (Inr r, v')"
  shows "v' = v" and "memo_row_db (working v) t k f = Inr r"
    and "identity_valid \<lparr>mi_table = t, mi_index = k, mi_field = f\<rparr>"
  using assms validate_token_same
  by (auto simp: get_memo_recovery_def identity_valid_def bind_int_def guardV_def elim!: bindV_Inr_E split: if_splits)

lemma get_memo_usable:
  assumes "usable v" and "identity_valid i"
  shows "get_memo_recovery (mi_table i) (mi_index i) (mi_field i) v = (row_of (working v) i, v)"
  using assms by (simp add: get_memo_recovery_def identity_valid_def bind_int_def guardE_def)

lemma find_app_miss: "find P xs = None \<Longrightarrow> find P (xs @ ys) = find P ys"
  by (induction xs) auto

lemma find_none: "\<not> list_ex P xs \<Longrightarrow> find P xs = None"
  by (induction xs) auto

lemma find_app_hit: "find P xs = Some x \<Longrightarrow> find P (xs @ ys) = Some x"
  by (induction xs) auto

lemma insert_memo_row:
  assumes "insert_memo r db = Some db'"
  shows "memo_row_db db' (mr_table r) (mr_index r) (mr_field r) =
      (case (mr_payload r, mr_kind r) of
         (SBlob b, SText k) \<Rightarrow> Inr (Some (b, k)) | _ \<Rightarrow> Inl (vault_state_failure ''MEMO_ROW_CORRUPT''))"
    and "memo_row_db db t k f = Inr (Some x) \<Longrightarrow> memo_row_db db' t k f = Inr (Some x)"
proof -
  have db': "db' = db\<lparr>memo_recovery_tbl := memo_recovery_tbl db @ [r]\<rparr>"
    and new: "\<not> list_ex (\<lambda>q. mr_table q = mr_table r \<and> mr_index q = mr_index r \<and> mr_field q = mr_field r) (memo_recovery_tbl db)"
    using assms by (auto simp: insert_memo_def split: if_splits)
  show "memo_row_db db' (mr_table r) (mr_index r) (mr_field r) =
      (case (mr_payload r, mr_kind r) of
         (SBlob b, SText k) \<Rightarrow> Inr (Some (b, k)) | _ \<Rightarrow> Inl (vault_state_failure ''MEMO_ROW_CORRUPT''))"
    using find_none [OF new] by (simp add: memo_row_db_def db' find_app_miss)
  show "memo_row_db db' t k f = Inr (Some x)" if "memo_row_db db t k f = Inr (Some x)"
    using that by (cases "find (\<lambda>r. mr_table r = t \<and> mr_index r = k \<and> mr_field r = f) (memo_recovery_tbl db)")
      (auto simp: memo_row_db_def db' find_app_hit)
qed

lemma add_memo_Inr:
  assumes "writable v" and "add_memo_recovery t k f value kd v = (Inr u, v')"
  shows "\<exists>blob db. memo_blob value kd = Inr blob \<and> v' = v\<lparr>working := db\<rparr>
    \<and> insert_memo \<lparr>mr_table = t, mr_index = k, mr_field = f, mr_payload = SBlob blob, mr_kind = SText (kind_text kd)\<rparr>
        (working v) = Some db"
  using assms
  by (auto simp: add_memo_recovery_def execute_insert_usable guardV_def elim!: bindV_Inr_E split: if_splits option.splits)

lemma persist_memo_body_row:
  assumes "writable v" and "persist_memo_body i value v = (Inr u, v')"
  shows "identity_valid i"
    and "\<exists>blob. memo_blob value (value_kind value) = Inr blob
      \<and> row_of (working v') i = Inr (Some (blob, kind_text (value_kind value)))"
    and "memo_row_db (working v) t k f = Inr (Some x) \<Longrightarrow> memo_row_db (working v') t k f = Inr (Some x)"
proof -
  have use: "usable v" using assms(1) by simp
  obtain ex v1 where g: "get_memo_recovery (mi_table i) (mi_index i) (mi_field i) v = (Inr ex, v1)"
    and r: "(case ex of
         Some (stored_payload, stored_kind) \<Rightarrow>
           bindV (if stored_kind = kind_text (value_kind value)
                  then bindV (liftV (memo_blob value (value_kind value))) (\<lambda>blob. retV (stored_payload = blob))
                  else retV False) (\<lambda>same.
             guardV same memo_identity_conflict)
       | None \<Rightarrow> add_memo_recovery (mi_table i) (mi_index i) (mi_field i) value (value_kind value)) v1 = (Inr u, v')"
    using assms(2) unfolding persist_memo_body_def by (rule bindV_Inr_E)
  note gi = get_memo_Inr [OF use g]
  show "identity_valid i" using gi(3) by (simp add: identity_valid_def)
  have "(\<exists>blob. memo_blob value (value_kind value) = Inr blob
      \<and> row_of (working v') i = Inr (Some (blob, kind_text (value_kind value))))
    \<and> (memo_row_db (working v) t k f = Inr (Some x) \<longrightarrow> memo_row_db (working v') t k f = Inr (Some x))"
  proof (cases ex)
    case None
    then obtain blob db where a: "memo_blob value (value_kind value) = Inr blob" "v' = v\<lparr>working := db\<rparr>"
      "insert_memo \<lparr>mr_table = mi_table i, mr_index = mi_index i, mr_field = mi_field i, mr_payload = SBlob blob,
          mr_kind = SText (kind_text (value_kind value))\<rparr> (working v) = Some db"
      using add_memo_Inr [OF assms(1)] r gi(1) by fastforce
    then show ?thesis using insert_memo_row [OF a(3)] by simp
  next
    case (Some p)
    then obtain pl kd where p: "ex = Some (pl, kd)" by (cases p) auto
    then have "kd = kind_text (value_kind value)" "memo_blob value (value_kind value) = Inr pl" "v' = v"
      using r gi(1) by (auto simp: guardV_def elim!: bindV_Inr_E split: if_splits)
    then show ?thesis using gi(2) p by simp
  qed
  then show "\<exists>blob. memo_blob value (value_kind value) = Inr blob
      \<and> row_of (working v') i = Inr (Some (blob, kind_text (value_kind value)))"
    and "memo_row_db (working v) t k f = Inr (Some x) \<Longrightarrow> memo_row_db (working v') t k f = Inr (Some x)" by auto
qed

section \<open>Store, mask and recover\<close>

lemma kind_text_inj [simp]: "kind_text a = kind_text b \<longleftrightarrow> a = b"
  by (cases a; cases b) (simp_all add: ascii_def)

lemma mask_for_Inr:
  assumes "mask_for ty value = Inr masked" and "masked \<noteq> VNone"
  shows "\<exists>k p q. memo_payload value = Some (k, p) \<and> memo_payload masked = Some (k, q) \<and> p \<noteq> q"
proof -
  have "memo_safe_mask value = Inr masked"
    using assms by (auto simp: mask_for_def split: if_splits pyval.splits)
  moreover have "value \<noteq> VNone" using calculation assms(2) by auto
  ultimately show ?thesis by (rule memo_safe_mask_differs)
qed

lemma mask_for_None: "mask_for ty value = Inr VNone \<longleftrightarrow> ty \<in> set MEMO_FIELD_TYPES \<and> value = VNone"
  by (auto simp: mask_for_def split: pyval.splits)

lemma memo_blob_payload:
  assumes "memo_blob value (value_kind value) = Inr blob"
  shows "\<exists>p. memo_payload value = Some (value_kind value, p)
    \<and> (case value_kind value of TEXT_KIND \<Rightarrow> utf8_encode p = Some blob | BINARY_KIND \<Rightarrow> p = blob)"
  using assms by (cases "value") (auto simp: memo_blob_def split: option.splits)

lemma recover_memo_row:
  assumes "usable u" and "identity_valid i" and "memo_blob value (value_kind value) = Inr blob"
    and "row_of (working u) i = Inr (Some (blob, kind_text (value_kind value)))"
  shows "\<exists>w. recover_memo_value i u = (Inr w, u) \<and> memo_payload w = memo_payload value"
proof -
  obtain p where p: "memo_payload value = Some (value_kind value, p)"
    "case value_kind value of TEXT_KIND \<Rightarrow> utf8_encode p = Some blob | BINARY_KIND \<Rightarrow> p = blob"
    using memo_blob_payload [OF assms(3)] by blast
  note g = get_memo_usable [OF assms(1,2)]
  show ?thesis
  proof (cases "value_kind value")
    case TEXT_KIND
    then have "utf8_decode blob = Some p" using p(2) utf8_roundtrip by simp
    then show ?thesis using g assms(4) TEXT_KIND p(1) by (auto simp: recover_memo_value_def simp del: kind_text.simps)
  next
    case BINARY_KIND
    then show ?thesis using g assms(4) p by (auto simp: recover_memo_value_def simp del: kind_text.simps)
  qed
qed

lemma persist_memo_Inr:
  assumes "persist_memo_recovery i ty value v = (Inr masked, v')" and "value \<noteq> VNone"
  shows "mask_for ty value = Inr masked" and "masked \<noteq> VNone" and "authority_ok v"
    and "persist_memo_body i value (txn_start True v) = (Inr (), snd (persist_memo_body i value (txn_start True v)))"
    and "committed v' = working (snd (persist_memo_body i value (txn_start True v)))"
    and "working v' = committed v'"
proof -
  show m: "mask_for ty value = Inr masked"
    using assms(1) by (auto simp: persist_memo_recovery_def elim!: bindV_Inr_E split: if_splits)
  then show nn: "masked \<noteq> VNone" using mask_for_None assms(2) by metis
  then have txn: "with_transaction (persist_memo_body i value) v = (Inr (), v')"
    using assms(1) m by (auto simp: persist_memo_recovery_def elim!: bindV_Inr_E)
  note ok = with_transaction_success [OF body_ok_persist_memo txn]
  show "authority_ok v" "committed v' = working (snd (persist_memo_body i value (txn_start True v)))"
    "working v' = committed v'" using ok by auto
  show "persist_memo_body i value (txn_start True v) = (Inr (), snd (persist_memo_body i value (txn_start True v)))"
    using ok(2) by (metis prod.collapse)
qed

lemma authority_writable: "authority_ok v \<Longrightarrow> writable (txn_start True v)"
  by (simp add: authority_ok_def writable_def usable_def txn_start_def)

text \<open>
  Store-then-mask is lossless: when \<open>persist_memo_recovery\<close> returns a mask for a non-null memo,
  the mask has the type class of the value and different content, the original payload is committed
  so that \<open>recover_memo_value\<close> on any usable connection that sees the committed database returns it
  exactly, and every other recovery row is kept.
\<close>

theorem memo_store_then_recover:
  assumes "persist_memo_recovery i ty value v = (Inr masked, v')" and "value \<noteq> VNone"
    and "usable u" and "working u = committed v'"
  shows "(\<exists>k p q. memo_payload value = Some (k, p) \<and> memo_payload masked = Some (k, q) \<and> p \<noteq> q)
    \<and> (\<exists>w. recover_memo_value i u = (Inr w, u) \<and> memo_payload w = memo_payload value)
    \<and> (\<forall>t k f x. memo_row_db (committed v) t k f = Inr (Some x) \<longrightarrow> memo_row_db (committed v') t k f = Inr (Some x))"
proof -
  note p = persist_memo_Inr [OF assms(1,2)]
  have w: "writable (txn_start True v)" using authority_writable [OF p(3)] .
  note b = persist_memo_body_row [OF w p(4)]
  obtain blob where blob: "memo_blob value (value_kind value) = Inr blob"
    "row_of (working u) i = Inr (Some (blob, kind_text (value_kind value)))"
    using b(2) p(5) assms(4) by auto
  have "working (txn_start True v) = committed v" by (simp add: txn_start_def)
  then have "\<forall>t k f x. memo_row_db (committed v) t k f = Inr (Some x) \<longrightarrow> memo_row_db (committed v') t k f = Inr (Some x)"
    using b(3) p(5) by simp
  then show ?thesis
    using mask_for_Inr [OF p(1,2)] recover_memo_row [OF assms(3) b(1) blob] by blast
qed

text \<open>
  Reruns are idempotent and conflicts are refused. After a stored memo, on a healthy connection
  that sees the committed database, storing the same payload again succeeds with the same mask and
  leaves the database unchanged, and storing any other representable payload under the same identity
  fails with \<open>MEMO_IDENTITY_CONFLICT\<close> and leaves the database unchanged.
\<close>

theorem memo_rerun:
  assumes "persist_memo_recovery i ty value v = (Inr masked, v')" and "value \<noteq> VNone"
    and "healthy u" and "committed u = committed v'"
    and "mask_for ty other = Inr masked'" and "other \<noteq> VNone" and "memo_blob other (value_kind other) = Inr b"
  shows "fst (persist_memo_recovery i ty other u) =
      (if memo_payload other = memo_payload value then Inr masked' else Inl memo_identity_conflict)
    \<and> committed (snd (persist_memo_recovery i ty other u)) = committed u"
proof -
  note p = persist_memo_Inr [OF assms(1,2)]
  let ?v = "txn_start True u"
  have w: "writable ?v" "working ?v = committed v'"
    using healthy_txn_start [OF assms(3)] assms(4) by (simp_all add: txn_start_def)
  note r = persist_memo_body_row [OF authority_writable [OF p(3)] p(4)]
  obtain blob where blob: "memo_blob value (value_kind value) = Inr blob"
    "row_of (committed v') i = Inr (Some (blob, kind_text (value_kind value)))"
    using r(2) p(5) by auto
  have g: "get_memo_recovery (mi_table i) (mi_index i) (mi_field i) ?v = (Inr (Some (blob, kind_text (value_kind value))), ?v)"
    using get_memo_usable [of ?v i] w r(1) blob(2) by simp
  obtain c where c: "memo_payload other = Some (value_kind other, c)"
    "case value_kind other of TEXT_KIND \<Rightarrow> utf8_encode c = Some b | BINARY_KIND \<Rightarrow> c = b"
    using memo_blob_payload [OF assms(7)] by blast
  obtain d where d: "memo_payload value = Some (value_kind value, d)"
    "case value_kind value of TEXT_KIND \<Rightarrow> utf8_encode d = Some blob | BINARY_KIND \<Rightarrow> d = blob"
    using memo_blob_payload [OF blob(1)] by blast
  have same: "memo_payload other = memo_payload value \<longleftrightarrow> value_kind value = value_kind other \<and> blob = b"
    using c d utf8_encode_inj by (auto split: payload_kind.splits)
  have body: "persist_memo_body i other ?v =
      ((if memo_payload other = memo_payload value then Inr () else Inl memo_identity_conflict), ?v)"
    using g assms(7) by (simp add: persist_memo_body_def same guardV_def)
  have nn: "masked' \<noteq> VNone" using assms(5,6) mask_for_None by metis
  show ?thesis
  proof (cases "memo_payload other = memo_payload value")
    case True
    then have "with_transaction (persist_memo_body i other) u = (Inr (), ?v\<lparr>txn_active := False, committed := working ?v\<rparr>)"
      using with_transaction_healthy [OF body_ok_persist_memo assms(3)] body by simp
    then show ?thesis using True nn assms(4,5) w(2) by (simp add: persist_memo_recovery_def)
  next
    case False
    then have "with_transaction (persist_memo_body i other) u = (Inl memo_identity_conflict, do_rollback ?v)"
      using with_transaction_healthy_failure [OF body_ok_persist_memo assms(3)] body by simp
    then show ?thesis using False nn assms(5)
      by (simp add: persist_memo_recovery_def do_rollback_def txn_start_def)
  qed
qed

definition memo_sample_vault :: vault where
  "memo_sample_vault =
     (let db = \<lparr>writer_authority = Some ''run-1'', acquire_tick = 1, operations_tbl = [], publication_tbl = [],
        mapping_domains_tbl = [],
        tables_tbl = [\<lparr>tb_id = ''tbl-1'', tb_path = ''a.dbf'', tb_schema_fp = None, tb_source_fp = None\<rparr>],
        fields_tbl = [\<lparr>fr_id = ''fld-1'', fr_table = ''tbl-1'', fr_name = ''NOTE'', fr_type = ''M'', fr_encoding = None,
          fr_width = 10, fr_action = None, fr_domain = None\<rparr>],
        text_mappings_tbl = [], numeric_key_mappings_tbl = [], memo_recovery_tbl = [], temporal_parameters_tbl = []\<rparr>
      in \<lparr>committed = db, working = db, txn_active = False, txn_authorized = False,
          read_only = False, writer_token = Some ''run-1'', poisoned = None, closed = False,
          begin_fails = False, commit_fails = False, rollback_fails = False\<rparr>)"

definition memo_sample_identity :: memo_identity where
  "memo_sample_identity = \<lparr>mi_table = ''tbl-1'', mi_index = 3, mi_field = ''fld-1''\<rparr>"

definition memo_sample_stored :: vault where
  "memo_sample_stored = snd (persist_memo_recovery memo_sample_identity CHR ''M'' (VStr (ascii ''hi'')) memo_sample_vault)"

lemma memo_sample_persist:
  "persist_memo_recovery memo_sample_identity CHR ''M'' (VStr (ascii ''hi'')) memo_sample_vault
     = (Inr (VStr MEMO_TEXT_MASK), memo_sample_stored)"
proof -
  have "fst (persist_memo_recovery memo_sample_identity CHR ''M'' (VStr (ascii ''hi'')) memo_sample_vault)
      = Inr (VStr MEMO_TEXT_MASK)" by code_simp
  then show ?thesis unfolding memo_sample_stored_def by (metis prod.collapse)
qed

theorem memo_store_then_recover_witness:
  "\<exists>w. recover_memo_value memo_sample_identity memo_sample_stored = (Inr w, memo_sample_stored)
     \<and> memo_payload w = Some (TEXT_KIND, ascii ''hi'')"
proof -
  have "usable memo_sample_stored" "working memo_sample_stored = committed memo_sample_stored"
    unfolding usable_def by code_simp+
  then show ?thesis using memo_store_then_recover [OF memo_sample_persist, of memo_sample_stored] by auto
qed

theorem memo_rerun_witness:
  "fst (persist_memo_recovery memo_sample_identity CHR ''M'' (VStr (ascii ''ho'')) memo_sample_stored)
     = Inl memo_identity_conflict"
proof -
  have h: "healthy memo_sample_stored" unfolding healthy_def authority_ok_def vault_idle_def by code_simp
  have m: "mask_for CHR ''M'' (VStr (ascii ''ho'')) = Inr (VStr MEMO_TEXT_MASK)" by code_simp
  have b: "memo_blob (VStr (ascii ''ho'')) (value_kind (VStr (ascii ''ho''))) = Inr [104, 111]" by code_simp
  show ?thesis using memo_rerun [OF memo_sample_persist _ h _ m _ b] by (simp add: ascii_def)
qed

end
