(* ===== verification/Engine_Plan.thy ===== *)
theory Engine_Plan
  imports Pass_One_Text Temporal_Allocation Memo_Allocation
begin

text \<open>
  The execution directives of the two-pass engine (\<^verbatim>\<open>src/src/dbf_anonymizer/engine/directives.py\<close>),
  the typed records of the Direct Read boundary (\<open>dbfbridge.DirectRecord\<close>, whose reader and writer are
  not part of the repository), and the relation evidence one record contributes on either side of
  the transformation (\<open>_observe_relation_side\<close> of pass 1, \<open>_observe_after_side\<close> of pass 2).
\<close>

section \<open>Directives\<close>

definition ACTION_TEXT :: string where "ACTION_TEXT = ''PSEUDONYMIZE_REVERSIBLE''"
definition ACTION_MEMO :: string where "ACTION_MEMO = ''MASK_REVERSIBLE''"
definition ACTION_TEMPORAL :: string where "ACTION_TEMPORAL = ''SHIFT_REVERSIBLE''"

lemma actions_distinct [simp]:
  "ACTION_TEXT \<noteq> ACTION_MEMO" "ACTION_TEXT \<noteq> ACTION_TEMPORAL" "ACTION_MEMO \<noteq> ACTION_TEMPORAL"
  "ACTION_MEMO \<noteq> ACTION_TEXT" "ACTION_TEMPORAL \<noteq> ACTION_TEXT" "ACTION_TEMPORAL \<noteq> ACTION_MEMO"
  by (simp_all add: ACTION_TEXT_def ACTION_MEMO_def ACTION_TEMPORAL_def)

record field_directive =
  fd_name :: string
  fd_action :: string
  fd_type :: char
  fd_encoding :: string
  fd_width :: int
  fd_numeric_domain :: "string option"
  fd_member_range :: "numeric_key_member_range option"

record table_directive =
  tab_path :: string
  tab_transformed :: "field_directive list"
  tab_memo_fields :: "string list"
  tab_temporal_fields :: "string list"
  tab_relation_fields :: "string list"
  tab_structural_cdx :: bool
  tab_record_count :: nat

record relation_directive =
  rel_id :: string
  rel_arity :: nat
  rel_parent_table :: string
  rel_foreign_table :: string
  rel_parent_fields :: "string list"
  rel_foreign_fields :: "string list"
  rel_numeric_domain_id :: "string option"
  rel_numeric_domain :: "numeric_key_domain option"

text \<open>The engine plan without the public \<open>Plan\<close> it is bound to, of which only the output profile is read.\<close>

record engine_plan =
  ep_tables :: "table_directive list"
  ep_relations :: "relation_directive list"
  ep_text_present :: bool
  ep_numeric_present :: bool
  ep_temporal_present :: bool
  ep_structural_cdx_tables :: "string list"
  ep_standalone_idx_paths :: "string list"

record relation_pass_summary =
  rs_relation_id :: string
  rs_verified :: bool
  rs_before_rows :: int
  rs_after_rows :: int
  rs_before_nulls :: int
  rs_after_nulls :: int
  rs_before_unique :: nat
  rs_after_unique :: nat
  rs_matched_rows :: int
  rs_orphan_count :: int
  rs_parent_profile_equal :: bool
  rs_foreign_profile_equal :: bool

section \<open>Typed records\<close>

type_synonym field_values = "string \<rightharpoonup> pyval"

record direct_record =
  rec_index :: int
  rec_deleted :: bool
  rec_values :: field_values

text \<open>\<open>dict.get\<close>: an absent field reads as \<open>None\<close>.\<close>

definition field_value :: "field_values \<Rightarrow> string \<Rightarrow> pyval" where
  "field_value vals name = (case vals name of None \<Rightarrow> VNone | Some v \<Rightarrow> v)"

lemma field_value_upd [simp]: "field_value (vals(n \<mapsto> v)) m = (if m = n then v else field_value vals m)"
  by (simp add: field_value_def)

section \<open>Relation evidence of one record\<close>

text \<open>The key components of one record and whether one of them is NULL.\<close>

fun relation_components :: "string list \<Rightarrow> field_values \<Rightarrow> (pyval list \<times> bool) result" where
  "relation_components [] vals = Inr ([], False)"
| "relation_components (f # fs) vals =
     (case field_value vals f of
        VNone \<Rightarrow> bindE (relation_components fs vals) (\<lambda>(cs, _). Inr (cs, True))
      | VInt i \<Rightarrow> bindE (relation_components fs vals) (\<lambda>(cs, nulls). Inr (VInt i # cs, nulls))
      | VStr s \<Rightarrow> bindE (relation_components fs vals) (\<lambda>(cs, nulls). Inr (VStr s # cs, nulls))
      | _ \<Rightarrow> Inl (pass1_mapping_failure ''ENGINE_RELATION_MEMBER_UNSUPPORTED''))"

definition observe_relation_side ::
    "relation_directive \<Rightarrow> string \<Rightarrow> string \<Rightarrow> string list \<Rightarrow> field_values \<Rightarrow> spool \<Rightarrow> spool result" where
  "observe_relation_side rel side role names vals s =
     bindE (relation_components names vals) (\<lambda>(components, null_tuple).
       let s1 = observe_relation_side_raw side (rel_id rel) role 1 (if null_tuple then 1 else 0) s
       in if null_tuple then Inr s1
          else bindE (canonical_composite_identity components) (\<lambda>c.
                 Inr (Pass_Spool.observe_relation_key side (rel_id rel) role c s1)))"

definition observe_after_side ::
    "relation_directive \<Rightarrow> string \<Rightarrow> string list \<Rightarrow> field_values \<Rightarrow> shard \<Rightarrow> shard result" where
  "observe_after_side rel role names vals h =
     bindE (relation_components names vals) (\<lambda>(components, null_tuple).
       let h1 = shard_observe_relation_side ''after'' (rel_id rel) role 1 (if null_tuple then 1 else 0) h
       in if null_tuple then Inr h1
          else bindE (canonical_composite_identity components) (\<lambda>c.
                 Inr (shard_observe_relation_key ''after'' (rel_id rel) role c h1)))"

text \<open>Run a fallible update for each element of a list, in order.\<close>

fun foldE :: "('a \<Rightarrow> 's \<Rightarrow> 's result) \<Rightarrow> 'a list \<Rightarrow> 's \<Rightarrow> 's result" where
  "foldE f [] s = Inr s"
| "foldE f (x # xs) s = bindE (f x s) (foldE f xs)"

lemma foldE_append [simp]: "foldE f (xs @ ys) s = bindE (foldE f xs s) (foldE f ys)"
  by (induction xs arbitrary: s) (simp_all add: bindE_def split: sum.split)

definition observe_before_relation :: "table_directive \<Rightarrow> direct_record \<Rightarrow> relation_directive \<Rightarrow> spool \<Rightarrow> spool result" where
  "observe_before_relation tab r rel s =
     bindE (if rel_parent_table rel = tab_path tab
            then observe_relation_side rel ''before'' ''parent'' (rel_parent_fields rel) (rec_values r) s else Inr s) (\<lambda>s1.
       if rel_foreign_table rel = tab_path tab
       then observe_relation_side rel ''before'' ''foreign'' (rel_foreign_fields rel) (rec_values r) s1 else Inr s1)"

definition observe_after_relation :: "table_directive \<Rightarrow> field_values \<Rightarrow> relation_directive \<Rightarrow> shard \<Rightarrow> shard result" where
  "observe_after_relation tab vals rel h =
     bindE (if rel_parent_table rel = tab_path tab
            then observe_after_side rel ''parent'' (rel_parent_fields rel) vals h else Inr h) (\<lambda>h1.
       if rel_foreign_table rel = tab_path tab
       then observe_after_side rel ''foreign'' (rel_foreign_fields rel) vals h1 else Inr h1)"

section \<open>The evidence as events\<close>

text \<open>
  The same evidence without the store that records it: the list of side and key events a record
  contributes to a relation. Both passes record exactly these events, in this order.
\<close>

definition side_events :: "relation_directive \<Rightarrow> string \<Rightarrow> string \<Rightarrow> string list \<Rightarrow> field_values \<Rightarrow> evidence_event list result" where
  "side_events rel side role names vals =
     bindE (relation_components names vals) (\<lambda>(components, null_tuple).
       let e = SideEvent side (rel_id rel) role 1 (if null_tuple then 1 else 0)
       in if null_tuple then Inr [e]
          else bindE (canonical_composite_identity components) (\<lambda>c. Inr [e, KeyEvent side (rel_id rel) role c]))"

definition relation_events :: "string \<Rightarrow> table_directive \<Rightarrow> field_values \<Rightarrow> relation_directive \<Rightarrow> evidence_event list result" where
  "relation_events side tab vals rel =
     bindE (if rel_parent_table rel = tab_path tab
            then side_events rel side ''parent'' (rel_parent_fields rel) vals else Inr []) (\<lambda>es.
     bindE (if rel_foreign_table rel = tab_path tab
            then side_events rel side ''foreign'' (rel_foreign_fields rel) vals else Inr []) (\<lambda>fs. Inr (es @ fs)))"

definition record_events :: "string \<Rightarrow> relation_directive list \<Rightarrow> table_directive \<Rightarrow> field_values \<Rightarrow> evidence_event list result" where
  "record_events side rels tab vals = bindE (mapE (relation_events side tab vals) rels) (\<lambda>ess. Inr (concat ess))"

lemma observe_relation_side_events:
  "observe_relation_side rel side role names vals s = bindE (side_events rel side role names vals) (\<lambda>es. Inr (fold spool_event es s))"
  by (auto simp: observe_relation_side_def side_events_def Let_def bindE_def split: sum.splits)

lemma observe_after_side_events:
  "observe_after_side rel role names vals h = bindE (side_events rel ''after'' role names vals) (\<lambda>es. Inr (fold shard_event es h))"
  by (auto simp: observe_after_side_def side_events_def Let_def bindE_def split: sum.splits)

lemma observe_before_relation_events:
  "observe_before_relation tab r rel s =
     bindE (relation_events ''before'' tab (rec_values r) rel) (\<lambda>es. Inr (fold spool_event es s))"
  by (auto simp: observe_before_relation_def relation_events_def observe_relation_side_events bindE_def split: sum.splits)

lemma observe_after_relation_events:
  "observe_after_relation tab vals rel h =
     bindE (relation_events ''after'' tab vals rel) (\<lambda>es. Inr (fold shard_event es h))"
  by (auto simp: observe_after_relation_def relation_events_def observe_after_side_events bindE_def split: sum.splits)

lemma foldE_events:
  assumes "\<And>x s. f x s = bindE (g x) (\<lambda>es. Inr (fold ev es s))"
  shows "foldE f xs s = bindE (mapE g xs) (\<lambda>ess. Inr (fold ev (concat ess) s))"
proof (induction xs arbitrary: s)
  case (Cons x xs)
  then show ?case by (simp add: assms bindE_def split: sum.split)
qed simp

lemma before_events:
  "foldE (observe_before_relation tab r) rels s =
     bindE (record_events ''before'' rels tab (rec_values r)) (\<lambda>es. Inr (fold spool_event es s))"
  using foldE_events [of "observe_before_relation tab r" "relation_events ''before'' tab (rec_values r)" spool_event,
      OF observe_before_relation_events]
  by (simp add: record_events_def bindE_def split: sum.split)

lemma after_events:
  "foldE (observe_after_relation tab vals) rels h =
     bindE (record_events ''after'' rels tab vals) (\<lambda>es. Inr (fold shard_event es h))"
  using foldE_events [of "observe_after_relation tab vals" "relation_events ''after'' tab vals" shard_event,
      OF observe_after_relation_events]
  by (simp add: record_events_def bindE_def split: sum.split)

end
