(* ===== verification/Vault_Reader.thy ===== *)
theory Vault_Reader
  imports Engine_Plan
begin

text \<open>
  The strictly read-only vault reader that verification and recovery share
  (\<^verbatim>\<open>src/src/dbf_anonymizer/verification.py\<close>, \<open>_VerifyVault\<close>), the aggregation of finding codes
  (\<open>_Findings\<close>) and the check of the durable field-policy ledger (\<open>_verify_field_ledger\<close>). Every
  query reads the committed database; \<open>failure\<close> builds the error of the owning service. Opening the
  file and its sidecar refusal are file-system work and not modelled.
\<close>

section \<open>Python equality\<close>

text \<open>
  \<open>==\<close> on the values a record may carry: an integer equals a bool of the same number, \<open>bytes\<close> and
  \<open>bytearray\<close> compare by content. Objects outside the vocabulary compare by the parameter.
\<close>

fun comparison_key :: "pyval \<Rightarrow> pyval" where
  "comparison_key (VBool b) = VInt (if b then 1 else 0)"
| "comparison_key (VByteArray b) = VBytes b"
| "comparison_key v = v"

fun is_other :: "pyval \<Rightarrow> bool" where
  "is_other (VOther n) = True"
| "is_other v = False"

definition py_eq :: "(pyval \<Rightarrow> pyval \<Rightarrow> bool) \<Rightarrow> pyval \<Rightarrow> pyval \<Rightarrow> bool" where
  "py_eq other v w = (if is_other v \<or> is_other w then other v w else comparison_key v = comparison_key w)"

text \<open>A value of the vocabulary is equal to itself.\<close>

lemma py_eq_refl [simp]: "\<not> is_other v \<Longrightarrow> py_eq other v v"
  by (simp add: py_eq_def)

lemma comparison_key_simps [simp]:
  "comparison_key v = VNone \<longleftrightarrow> v = VNone" "comparison_key v = VStr s \<longleftrightarrow> v = VStr s"
  "VNone = comparison_key v \<longleftrightarrow> v = VNone" "VStr s = comparison_key v \<longleftrightarrow> v = VStr s"
  by (cases v; auto)+

lemma py_eq_shapes:
  "\<not> is_other v \<Longrightarrow> py_eq other v VNone \<longleftrightarrow> v = VNone"
  "\<not> is_other v \<Longrightarrow> py_eq other v (VStr s) \<longleftrightarrow> v = VStr s"
  "\<not> is_other v \<Longrightarrow> py_eq other (VStr s) v \<longleftrightarrow> v = VStr s"
  by (auto simp: py_eq_def)

section \<open>Queries\<close>

type_synonym failure = "string \<Rightarrow> error"

definition table_rows :: "database \<Rightarrow> (string \<times> string) list" where
  "table_rows db = map (\<lambda>t. (tb_path t, tb_id t)) (sort_key tb_path (tables_tbl db))"

definition field_rows :: "database \<Rightarrow> string \<Rightarrow> field_row list" where
  "field_rows db table_id = sort_key fr_id (filter (\<lambda>f. fr_table f = table_id) (fields_tbl db))"

definition domain_kind :: "database \<Rightarrow> string \<Rightarrow> string option" where
  "domain_kind db d = map_option dr_kind (find (\<lambda>r. dr_id r = d) (mapping_domains_tbl db))"

definition domains :: "database \<Rightarrow> (string \<times> string) list" where
  "domains db = map (\<lambda>r. (dr_id r, dr_kind r)) (sort_key dr_id (mapping_domains_tbl db))"

definition text_original :: "failure \<Rightarrow> database \<Rightarrow> string \<Rightarrow> pystr \<Rightarrow> pystr option result" where
  "text_original failure db d pseudonym =
     bindE (bind_text pseudonym) (\<lambda>_.
       case find (\<lambda>r. tr_domain r = d \<and> tr_pseudonym r = SText pseudonym) (text_mappings_tbl db) of
         None \<Rightarrow> Inr None
       | Some r \<Rightarrow> bindE (text_cell (tr_original r) (failure ''VAULT_UNREADABLE'')) (\<lambda>s. Inr (Some s)))"

definition numeric_original :: "failure \<Rightarrow> database \<Rightarrow> string \<Rightarrow> pystr \<Rightarrow> pystr option result" where
  "numeric_original failure db d pseudonym =
     bindE (bind_text pseudonym) (\<lambda>_.
       case find (\<lambda>r. nr_domain r = d \<and> nr_pseudonym r = SText pseudonym) (numeric_key_mappings_tbl db) of
         None \<Rightarrow> Inr None
       | Some r \<Rightarrow> bindE (text_cell (nr_original r) (failure ''VAULT_UNREADABLE'')) (\<lambda>s. Inr (Some s)))"

text \<open>\<open>COUNT(DISTINCT x)\<close> does not count NULL cells.\<close>

definition count_distinct :: "sqlval list \<Rightarrow> nat" where
  "count_distinct cells = length (remdups (filter (\<lambda>c. c \<noteq> SNull) cells))"

definition text_bijection :: "database \<Rightarrow> string \<Rightarrow> nat \<times> nat \<times> nat" where
  "text_bijection db d =
     (let rows = filter (\<lambda>r. tr_domain r = d) (text_mappings_tbl db)
      in (length rows, count_distinct (map tr_original rows), count_distinct (map tr_pseudonym rows)))"

definition numeric_bijection :: "database \<Rightarrow> string \<Rightarrow> nat \<times> nat \<times> nat" where
  "numeric_bijection db d =
     (let rows = filter (\<lambda>r. nr_domain r = d) (numeric_key_mappings_tbl db)
      in (length rows, count_distinct (map nr_original rows), count_distinct (map nr_pseudonym rows)))"

definition empty_text_originals :: "database \<Rightarrow> string \<Rightarrow> bool" where
  "empty_text_originals db d = list_ex (\<lambda>r. tr_domain r = d \<and> tr_original r = SText []) (text_mappings_tbl db)"

definition memo_recovery_row :: "failure \<Rightarrow> database \<Rightarrow> string \<Rightarrow> int \<Rightarrow> string \<Rightarrow> (bytes \<times> payload_kind) option result" where
  "memo_recovery_row failure db table_id index field_id =
     bindE (bind_int index) (\<lambda>_.
       case find (\<lambda>r. mr_table r = table_id \<and> mr_index r = index \<and> mr_field r = field_id) (memo_recovery_tbl db) of
         None \<Rightarrow> Inr None
       | Some r \<Rightarrow>
           (case (mr_payload r, mr_kind r) of
              (SBlob b, SText k) \<Rightarrow>
                if k = kind_text TEXT_KIND then Inr (Some (b, TEXT_KIND))
                else if k = kind_text BINARY_KIND then Inr (Some (b, BINARY_KIND))
                else Inl (failure ''VAULT_UNREADABLE'')
            | _ \<Rightarrow> Inl (failure ''VAULT_UNREADABLE'')))"

text \<open>Without a domain the query returns the first parameter of the table.\<close>

definition temporal_offset :: "failure \<Rightarrow> database \<Rightarrow> string option \<Rightarrow> int option result" where
  "temporal_offset failure db d =
     (case find (\<lambda>r. case d of None \<Rightarrow> True | Some d' \<Rightarrow> pr_domain r = d') (temporal_parameters_tbl db) of
        None \<Rightarrow> Inr None
      | Some r \<Rightarrow>
          bindE (int_cell (pr_offset r) (failure ''VAULT_UNREADABLE'')) (\<lambda>offset.
            if offset = 0 then Inl (failure ''VAULT_UNREADABLE'') else Inr (Some offset)))"

section \<open>Findings\<close>

record findings =
  fi_failures :: "string set"
  fi_partials :: "string set"

definition no_findings :: findings where
  "no_findings = \<lparr>fi_failures = {}, fi_partials = {}\<rparr>"

definition fail_finding :: "string \<Rightarrow> findings \<Rightarrow> findings" where
  "fail_finding code f = f\<lparr>fi_failures := insert code (fi_failures f)\<rparr>"

definition partial_finding :: "string \<Rightarrow> findings \<Rightarrow> findings" where
  "partial_finding code f = f\<lparr>fi_partials := insert code (fi_partials f)\<rparr>"

definition any_finding :: "findings \<Rightarrow> bool" where
  "any_finding f \<longleftrightarrow> fi_failures f \<noteq> {} \<or> fi_partials f \<noteq> {}"

datatype verification_status = PASS | PARTIAL | FAIL

definition verification_status_of :: "findings \<Rightarrow> verification_status" where
  "verification_status_of f = (if fi_failures f \<noteq> {} then FAIL else if fi_partials f \<noteq> {} then PARTIAL else PASS)"

section \<open>The field ledger\<close>

record schema_field =
  sf_name :: string
  sf_type :: char
  sf_length :: int
  sf_decimals :: int
  sf_memo :: bool

record table_schema =
  ts_fields :: "schema_field list"
  ts_encoding :: string
  ts_language_driver :: int

record ledger_binding =
  lb_field_id :: string
  lb_type :: string
  lb_action :: "string option"
  lb_domain :: "string option"

type_synonym ledger = "(string \<times> ledger_binding) list"

definition ACTION_KEEP :: string where "ACTION_KEEP = ''KEEP''"

definition LEDGER_ACTIONS :: "string list" where
  "LEDGER_ACTIONS = [ACTION_KEEP, ACTION_TEXT, ACTION_MEMO, ACTION_TEMPORAL]"

text \<open>The system fields (type 0) are the writer's own state.\<close>

definition is_system_field :: "schema_field \<Rightarrow> bool" where
  "is_system_field f \<longleftrightarrow> sf_type f = CHR ''0''"

definition logical_fields :: "table_schema \<Rightarrow> schema_field list" where
  "logical_fields s = filter (\<lambda>f. \<not> is_system_field f) (ts_fields s)"

text \<open>A later field of the same name overwrites the facts of an earlier one.\<close>

definition schema_fact :: "table_schema \<Rightarrow> string \<Rightarrow> (string \<times> int \<times> string) option" where
  "schema_fact s name =
     map_option (\<lambda>f. ([sf_type f], sf_length f, ts_encoding s)) (find (\<lambda>f. sf_name f = name) (rev (logical_fields s)))"

definition ledger_action_ok :: "database \<Rightarrow> string \<Rightarrow> string option \<Rightarrow> bool" where
  "ledger_action_ok db action d =
     (let kind = (case d of None \<Rightarrow> None | Some x \<Rightarrow> domain_kind db x)
      in if action = ACTION_KEEP \<or> action = ACTION_MEMO then d = None
         else if action = ACTION_TEXT then d \<noteq> None \<and> kind \<in> {Some KIND_TEXT, Some KIND_NUMERIC_KEY}
         else if action = ACTION_TEMPORAL then d = None \<or> kind = Some KIND_TEMPORAL
         else True)"

text \<open>The reader renders the encoding with \<open>str\<close>, a missing one included.\<close>

definition row_encoding :: "field_row \<Rightarrow> string" where
  "row_encoding row = (case fr_encoding row of None \<Rightarrow> ''None'' | Some e \<Rightarrow> e)"

definition ledger_row_findings :: "database \<Rightarrow> table_schema \<Rightarrow> field_row \<Rightarrow> findings \<Rightarrow> findings" where
  "ledger_row_findings db s row f =
     (case schema_fact s (fr_name row) of
        None \<Rightarrow> fail_finding ''POLICY_BINDING_MISMATCH'' f
      | Some (ty, width, enc) \<Rightarrow>
          let f1 = (if fr_type row \<noteq> ty \<or> fr_width row \<noteq> width \<or> row_encoding row \<noteq> enc
                    then fail_finding ''POLICY_BINDING_MISMATCH'' f else f)
          in case fr_action row of
               None \<Rightarrow> fail_finding ''POLICY_BINDING_MISMATCH'' f1
             | Some action \<Rightarrow>
                 if action \<notin> set LEDGER_ACTIONS then fail_finding ''POLICY_BINDING_MISMATCH'' f1
                 else if ledger_action_ok db action (fr_domain row) then f1
                 else fail_finding ''POLICY_BINDING_MISMATCH'' f1)"

fun ledger_loop :: "database \<Rightarrow> table_schema \<Rightarrow> field_row list \<Rightarrow> ledger \<Rightarrow> findings \<Rightarrow> ledger \<times> findings" where
  "ledger_loop db s [] bindings f = (bindings, f)"
| "ledger_loop db s (row # rows) bindings f =
     (if map_of bindings (fr_name row) \<noteq> None then ledger_loop db s rows bindings (fail_finding ''POLICY_BINDING_MISMATCH'' f)
      else ledger_loop db s rows
             (bindings @ [(fr_name row, \<lparr>lb_field_id = fr_id row, lb_type = fr_type row, lb_action = fr_action row, lb_domain = fr_domain row\<rparr>)])
             (ledger_row_findings db s row f))"

definition verify_field_ledger :: "database \<Rightarrow> table_schema \<Rightarrow> field_row list \<Rightarrow> findings \<Rightarrow> ledger \<times> findings" where
  "verify_field_ledger db s rows f =
     (let (bindings, f1) = ledger_loop db s rows [] f
      in (bindings, if list_all (\<lambda>x. map_of bindings (sf_name x) \<noteq> None) (logical_fields s) then f1
                    else fail_finding ''POLICY_BINDING_MISSING'' f1))"

end
