(* ===== verification/Output_Verification.thy ===== *)
theory Output_Verification
  imports Vault_Reader
begin

text \<open>
  The verifier of a published dataset (\<^verbatim>\<open>src/src/dbf_anonymizer/verification.py\<close>): the postcondition
  of every field of a record pair, the lockstep comparison of one source table with its output, the
  invariants of the mapping domains and the final status. Tables are given as what the read boundary yields; fingerprints, topology and the receipt
  comparison are not modelled.
\<close>

section \<open>One value\<close>

definition verify_text_value ::
    "(pyval \<Rightarrow> pyval \<Rightarrow> bool) \<Rightarrow> failure \<Rightarrow> database \<Rightarrow> string \<Rightarrow> pyval \<Rightarrow> pyval \<Rightarrow> findings \<Rightarrow> findings result" where
  "verify_text_value other failure db d source output f =
     (if source = VNone \<or> source = VStr [] then
        Inr (if py_eq other output source then f else fail_finding ''NULL_SEMANTICS_MISMATCH'' f)
      else case output of
             VStr s \<Rightarrow>
               if py_eq other output source then Inr (fail_finding ''ORIGINAL_VALUE_SURVIVED'' f)
               else bindE (text_original failure db d s) (\<lambda>original.
                      case original of
                        None \<Rightarrow> Inr (fail_finding ''TEXT_MAPPING_MISMATCH'' f)
                      | Some t \<Rightarrow> Inr (if py_eq other (VStr t) source then f else fail_finding ''TEXT_MAPPING_MISMATCH'' f))
           | _ \<Rightarrow> Inr (fail_finding ''NULL_SEMANTICS_MISMATCH'' f))"

definition verify_numeric_value ::
    "(pyval \<Rightarrow> pyval \<Rightarrow> bool) \<Rightarrow> failure \<Rightarrow> database \<Rightarrow> string \<Rightarrow> pyval \<Rightarrow> pyval \<Rightarrow> findings \<Rightarrow> findings result" where
  "verify_numeric_value other failure db d source output f =
     (if source = VNone then Inr (if output = VNone then f else fail_finding ''NULL_SEMANTICS_MISMATCH'' f)
      else case output of
             VNone \<Rightarrow> Inr (fail_finding ''NULL_SEMANTICS_MISMATCH'' f)
           | VInt i \<Rightarrow>
               if py_eq other output source then Inr (fail_finding ''ORIGINAL_VALUE_SURVIVED'' f)
               else bindE (numeric_original failure db d (int_text i)) (\<lambda>original.
                    bindE (canonical_integer_text source) (\<lambda>t.
                      Inr (if original = Some t then f else fail_finding ''NUMERIC_MAPPING_MISMATCH'' f)))
           | _ \<Rightarrow> Inr (fail_finding ''NUMERIC_MAPPING_MISMATCH'' f))"

text \<open>The logical value of a recovery row; a text payload that does not decode raises.\<close>

definition memo_original :: "bytes \<times> payload_kind \<Rightarrow> pyval result" where
  "memo_original row =
     (case row of
        (payload, TEXT_KIND) \<Rightarrow> (case utf8_decode payload of None \<Rightarrow> Inl ValueError | Some s \<Rightarrow> Inr (VStr s))
      | (payload, BINARY_KIND) \<Rightarrow> Inr (VBytes payload))"

fun payload_shape :: "payload_kind \<Rightarrow> pyval \<Rightarrow> bool" where
  "payload_shape TEXT_KIND (VStr s) = True"
| "payload_shape BINARY_KIND (VBytes b) = True"
| "payload_shape _ _ = False"

text \<open>A stored type that is not one character is no memo type.\<close>

definition memo_type :: "string \<Rightarrow> char" where
  "memo_type s = (case s of [c] \<Rightarrow> c | _ \<Rightarrow> CHR 0x00)"

definition verify_memo_value ::
    "(pyval \<Rightarrow> pyval \<Rightarrow> bool) \<Rightarrow> failure \<Rightarrow> database \<Rightarrow> string \<Rightarrow> int \<Rightarrow> ledger_binding \<Rightarrow> pyval \<Rightarrow> pyval \<Rightarrow> findings \<Rightarrow> findings result" where
  "verify_memo_value other failure db table_id index b source output f =
     (if source = VNone then Inr (if output = VNone then f else fail_finding ''NULL_SEMANTICS_MISMATCH'' f)
      else if output = VNone then Inr (fail_finding ''NULL_SEMANTICS_MISMATCH'' f)
      else bindE (memo_recovery_row failure db table_id index (lb_field_id b)) (\<lambda>row.
        case row of
          None \<Rightarrow> Inr (fail_finding ''MEMO_RECOVERY_ROW_MISSING'' f)
        | Some (payload, kind) \<Rightarrow>
            if \<not> payload_shape kind output then Inr (fail_finding ''MEMO_PAYLOAD_MISMATCH'' f)
            else bindE (memo_original (payload, kind)) (\<lambda>original.
              if \<not> py_eq other original source \<or> py_eq other output original then Inr (fail_finding ''MEMO_PAYLOAD_MISMATCH'' f)
              else bindE (mask_memo_value (memo_type (lb_type b)) original) (\<lambda>mask.
                Inr (if py_eq other output mask then f else fail_finding ''MEMO_PAYLOAD_MISMATCH'' f)))))"

definition verify_temporal_value ::
    "(pyval \<Rightarrow> pyval \<Rightarrow> bool) \<Rightarrow> failure \<Rightarrow> database \<Rightarrow> string option \<Rightarrow> pyval \<Rightarrow> pyval \<Rightarrow> findings \<Rightarrow> findings result" where
  "verify_temporal_value other failure db d source output f =
     bindE (temporal_offset failure db d) (\<lambda>offset.
       case offset of
         None \<Rightarrow> Inr (if py_eq other output source then f else fail_finding ''TEMPORAL_VALUE_MISMATCH'' f)
       | Some k \<Rightarrow> bindE (temporal_shift source k) (\<lambda>shifted.
           Inr (if py_eq other output shifted then f else fail_finding ''TEMPORAL_VALUE_MISMATCH'' f)))"

section \<open>One record\<close>

definition verify_field_value ::
    "(pyval \<Rightarrow> pyval \<Rightarrow> bool) \<Rightarrow> failure \<Rightarrow> database \<Rightarrow> string \<Rightarrow> int \<Rightarrow> ledger_binding \<Rightarrow> pyval \<Rightarrow> pyval \<Rightarrow> findings \<Rightarrow> findings result" where
  "verify_field_value other failure db table_id index b source output f =
     (if lb_action b = Some ACTION_KEEP then
        Inr (if py_eq other source output then f else fail_finding ''IDENTITY_VALUE_MISMATCH'' f)
      else if lb_action b = Some ACTION_MEMO then verify_memo_value other failure db table_id index b source output f
      else if lb_action b = Some ACTION_TEMPORAL then verify_temporal_value other failure db (lb_domain b) source output f
      else if lb_action b = Some ACTION_TEXT then
        (case lb_domain b of
           Some d \<Rightarrow>
             if domain_kind db d = Some KIND_NUMERIC_KEY then verify_numeric_value other failure db d source output f
             else verify_text_value other failure db d source output f
         | None \<Rightarrow> verify_text_value other failure db [] source output f)
      else Inr (fail_finding ''POLICY_BINDING_MISMATCH'' f))"

definition verify_record_values ::
    "(pyval \<Rightarrow> pyval \<Rightarrow> bool) \<Rightarrow> failure \<Rightarrow> database \<Rightarrow> string \<Rightarrow> table_schema \<Rightarrow> ledger \<Rightarrow> int \<Rightarrow> field_values \<Rightarrow> field_values
      \<Rightarrow> findings \<Rightarrow> findings result" where
  "verify_record_values other failure db table_id schema ledger index source output =
     foldE (\<lambda>x f.
       case map_of ledger (sf_name x) of
         None \<Rightarrow> Inr (fail_finding ''POLICY_BINDING_MISSING'' f)
       | Some b \<Rightarrow> verify_field_value other failure db table_id index b (field_value source (sf_name x)) (field_value output (sf_name x)) f)
     (logical_fields schema)"

section \<open>One table\<close>

text \<open>
  \<open>zip\<close> asks the source first: when the output has ended, the source record it fetched is gone, and
  the streams that are left hold what the later counts see.
\<close>

fun verify_records ::
    "(nat \<Rightarrow> unit result) \<Rightarrow> (direct_record \<Rightarrow> direct_record \<Rightarrow> findings \<Rightarrow> findings result) \<Rightarrow> direct_record list \<Rightarrow> direct_record list
      \<Rightarrow> nat \<Rightarrow> findings \<Rightarrow> (nat \<times> findings \<times> direct_record list \<times> direct_record list) result" where
  "verify_records checkpoint values [] outs n f = Inr (n, f, [], outs)"
| "verify_records checkpoint values (r # rs) [] n f = Inr (n, f, rs, [])"
| "verify_records checkpoint values (r # rs) (q # qs) n f =
     bindE (checkpoint n) (\<lambda>_.
       if rec_index r \<noteq> rec_index q then Inr (Suc n, fail_finding ''RECORD_ORDER_MISMATCH'' f, rs, qs)
       else bindE (values r q (if rec_deleted r \<noteq> rec_deleted q then fail_finding ''DELETED_MARKER_MISMATCH'' f else f)) (\<lambda>f'.
              verify_records checkpoint values rs qs (Suc n) f'))"

text \<open>Cancellation and callback errors pass through; any other read failure is reclassified.\<close>

fun is_control_error :: "error \<Rightarrow> bool" where
  "is_control_error (CancellationError c d) = True"
| "is_control_error (CallbackError c d) = True"
| "is_control_error _ = False"

record table_view =
  tv_schema :: table_schema
  tv_dbc_coupled :: bool
  tv_records :: "direct_record list"

definition verify_table ::
    "(pyval \<Rightarrow> pyval \<Rightarrow> bool) \<Rightarrow> failure \<Rightarrow> database \<Rightarrow> (nat \<Rightarrow> unit result) \<Rightarrow> string \<Rightarrow> table_view result \<Rightarrow> table_view result
      \<Rightarrow> findings \<Rightarrow> (nat \<times> findings) result" where
  "verify_table other failure db checkpoint path source output f =
     (case source of
        Inl e \<Rightarrow> Inl (if is_control_error e then e else failure ''SOURCE_UNREADABLE'')
      | Inr src \<Rightarrow>
          bindE output (\<lambda>out.
            if tv_dbc_coupled out then Inr (0, fail_finding ''OUTPUT_DBC_COUPLING_PRESENT'' f)
            else if tv_schema src \<noteq> tv_schema out then Inr (0, fail_finding ''SCHEMA_MISMATCH'' f)
            else case map_of (rev (table_rows db)) path of
                   None \<Rightarrow> Inr (0, fail_finding ''POLICY_BINDING_MISSING'' f)
                 | Some table_id \<Rightarrow>
                     let (ledger, f1) = verify_field_ledger db (tv_schema src) (field_rows db table_id) f
                     in bindE (verify_records checkpoint (\<lambda>r q. verify_record_values other failure db table_id (tv_schema src) ledger
                                 (rec_index r) (rec_values r) (rec_values q)) (tv_records src) (tv_records out) 0 f1)
                          (\<lambda>(scanned, f2, extra_source, extra_output).
                             Inr (scanned, if extra_source \<noteq> [] \<or> extra_output \<noteq> []
                                           then fail_finding ''RECORD_COUNT_MISMATCH'' f2 else f2))))"

section \<open>Mapping domains\<close>

definition verify_domain :: "failure \<Rightarrow> database \<Rightarrow> string \<times> string \<Rightarrow> findings \<Rightarrow> findings result" where
  "verify_domain failure db dk f =
     (if snd dk = KIND_TEXT then
        (let (n, originals, pseudonyms) = text_bijection db (fst dk);
             f1 = (if n \<noteq> originals \<or> n \<noteq> pseudonyms then fail_finding ''VAULT_MAPPING_INVALID'' f else f)
         in Inr (if empty_text_originals db (fst dk) then fail_finding ''VAULT_MAPPING_INVALID'' f1 else f1))
      else if snd dk = KIND_NUMERIC_KEY then
        (let (n, originals, pseudonyms) = numeric_bijection db (fst dk)
         in Inr (if n \<noteq> originals \<or> n \<noteq> pseudonyms then fail_finding ''VAULT_MAPPING_INVALID'' f else f))
      else if snd dk = KIND_TEMPORAL then bindE (temporal_offset failure db (Some (fst dk))) (\<lambda>_. Inr f)
      else Inr (fail_finding ''VAULT_MAPPING_INVALID'' f))"

definition verify_domains :: "failure \<Rightarrow> database \<Rightarrow> findings \<Rightarrow> findings result" where
  "verify_domains failure db = foldE (verify_domain failure db) (domains db)"

end
