(* ===== verification/Recovery_Stream.thy ===== *)
theory Recovery_Stream
  imports Output_Verification
begin

text \<open>
  Recovery (\<^verbatim>\<open>src/src/dbf_anonymizer/recovery.py\<close>): the authority checks on mapping domains and the field
  ledger, the reverse application of one field action, the recovered record stream, the recovery of
  all tables and the verification of the staged result. Tables are given as what the read boundary
  yields and the writer is a parameter; staging, publication and the fingerprint and receipt checks
  are not modelled.
\<close>

section \<open>Authority\<close>

definition recovery_failure :: "string \<Rightarrow> error" where
  "recovery_failure detail = RecoveryError RECOVERY_FAILED detail"

definition recovery_domain :: "database \<Rightarrow> string \<times> string \<Rightarrow> unit \<Rightarrow> unit result" where
  "recovery_domain db dk _ =
     (let bijective = (\<lambda>(n, originals, pseudonyms). n = originals \<and> n = (pseudonyms :: nat)); invalid = recovery_failure ''RECOVERY_MAPPING_INVALID''
      in if snd dk = KIND_TEXT then guardE (bijective (text_bijection db (fst dk)) \<and> \<not> empty_text_originals db (fst dk)) invalid
         else if snd dk = KIND_NUMERIC_KEY then guardE (bijective (numeric_bijection db (fst dk))) invalid
         else if snd dk = KIND_TEMPORAL then
           bindE (temporal_offset recovery_failure db (Some (fst dk))) (\<lambda>offset. guardE (offset \<noteq> None) invalid)
         else Inl invalid)"

definition recovery_domains :: "database \<Rightarrow> unit result" where
  "recovery_domains db = foldE (recovery_domain db) (domains db) ()"

text \<open>The ledger of every durable table, read against the schema of its pseudonymized table.\<close>

definition recovery_ledger :: "database \<Rightarrow> (string \<Rightarrow> table_view result) \<Rightarrow> (string \<times> ledger) list result" where
  "recovery_ledger db read =
     mapE (\<lambda>(path, table_id).
       bindE (read path) (\<lambda>t.
         let (ledger, f) = verify_field_ledger db (tv_schema t) (field_rows db table_id) no_findings
         in if any_finding f then Inl (recovery_failure ''RECOVERY_LEDGER_INCOMPLETE'') else Inr (path, ledger)))
     (table_rows db)"

section \<open>The reverse application of one action\<close>

definition reverse_value :: "database \<Rightarrow> string \<Rightarrow> int \<Rightarrow> ledger_binding \<Rightarrow> int option \<Rightarrow> pyval \<Rightarrow> pyval result" where
  "reverse_value db table_id index b offset v =
     (case lb_action b of
        None \<Rightarrow> Inl (recovery_failure ''RECOVERY_LEDGER_INCOMPLETE'')
      | Some action \<Rightarrow>
          if action = ACTION_KEEP then Inr v
          else if action = ACTION_MEMO then
            (if v = VNone then Inr VNone
             else bindE (memo_recovery_row recovery_failure db table_id index (lb_field_id b)) (\<lambda>row.
               case row of
                 None \<Rightarrow> Inl (recovery_failure ''RECOVERY_RECOVERY_ROW_MISSING'')
               | Some r \<Rightarrow> memo_original r))
          else if action = ACTION_TEMPORAL then
            (case offset of None \<Rightarrow> Inr VNone | Some k \<Rightarrow> temporal_shift v (- k))
          else if action = ACTION_TEXT then
            (if v = VNone \<or> v = VStr [] then Inr v
             else case lb_domain b of
                    None \<Rightarrow> Inl (recovery_failure ''RECOVERY_MAPPING_MISSING'')
                  | Some d \<Rightarrow>
                      if domain_kind db d = Some KIND_NUMERIC_KEY then
                        (case v of
                           VInt i \<Rightarrow>
                             bindE (numeric_original recovery_failure db d (int_text i)) (\<lambda>original.
                               case original of
                                 None \<Rightarrow> Inl (recovery_failure ''RECOVERY_MAPPING_MISSING'')
                               | Some t \<Rightarrow> bindE (parse_canonical_integer_text (VStr t)) (\<lambda>j. Inr (VInt j)))
                         | _ \<Rightarrow> Inl (recovery_failure ''RECOVERY_MAPPING_INVALID''))
                      else
                        (case v of
                           VStr s \<Rightarrow>
                             bindE (text_original recovery_failure db d s) (\<lambda>original.
                               case original of
                                 None \<Rightarrow> Inl (recovery_failure ''RECOVERY_MAPPING_MISSING'')
                               | Some t \<Rightarrow> Inr (VStr t))
                         | _ \<Rightarrow> Inl (recovery_failure ''RECOVERY_MAPPING_INVALID'')))
          else Inl (recovery_failure ''RECOVERY_LEDGER_INCOMPLETE''))"

section \<open>The recovered stream\<close>

text \<open>\<open>bindings[name]\<close>: a field without a binding raises \<open>KeyError\<close>, which the ledger check excludes.\<close>

definition reverse_offset :: "database \<Rightarrow> ledger_binding \<Rightarrow> int option result" where
  "reverse_offset db b =
     (if lb_action b = Some ACTION_TEMPORAL \<and> lb_domain b \<noteq> None then temporal_offset recovery_failure db (lb_domain b) else Inr None)"

definition recover_field :: "database \<Rightarrow> string \<Rightarrow> ledger \<Rightarrow> direct_record \<Rightarrow> schema_field \<Rightarrow> field_values \<Rightarrow> field_values result" where
  "recover_field db table_id ledger r x vals =
     (case map_of ledger (sf_name x) of
        None \<Rightarrow> Inl RuntimeError
      | Some b \<Rightarrow>
          bindE (reverse_offset db b) (\<lambda>offset.
          bindE (reverse_value db table_id (rec_index r) b offset (field_value (rec_values r) (sf_name x))) (\<lambda>w.
            Inr (vals(sf_name x \<mapsto> w)))))"

definition recover_values :: "database \<Rightarrow> string \<Rightarrow> table_schema \<Rightarrow> ledger \<Rightarrow> direct_record \<Rightarrow> field_values result" where
  "recover_values db table_id schema ledger r = foldE (recover_field db table_id ledger r) (logical_fields schema) Map.empty"

fun recovered_records ::
    "database \<Rightarrow> string \<Rightarrow> table_schema \<Rightarrow> ledger \<Rightarrow> (nat \<Rightarrow> unit result) \<Rightarrow> nat \<Rightarrow> direct_record list \<Rightarrow> direct_record list result" where
  "recovered_records db table_id schema ledger checkpoint k [] = Inr []"
| "recovered_records db table_id schema ledger checkpoint k (r # rs) =
     bindE (checkpoint k) (\<lambda>_.
     bindE (recover_values db table_id schema ledger r) (\<lambda>vals.
     bindE (recovered_records db table_id schema ledger checkpoint (Suc k) rs) (\<lambda>out.
       Inr (\<lparr>rec_index = 0, rec_deleted = rec_deleted r, rec_values = vals\<rparr> # out))))"

fun recover_tables ::
    "database \<Rightarrow> (string \<Rightarrow> table_view result) \<Rightarrow> (string \<Rightarrow> direct_record list \<Rightarrow> nat result) \<Rightarrow> (nat \<Rightarrow> unit result)
      \<Rightarrow> (string \<times> ledger) list \<Rightarrow> nat \<times> nat \<Rightarrow> (nat \<times> nat) result" where
  "recover_tables db read writer checkpoint [] (tables, records) = Inr (tables, records)"
| "recover_tables db read writer checkpoint ((path, ledger) # rest) (tables, records) =
     bindE (read path) (\<lambda>t.
       case map_of (rev (table_rows db)) path of
         None \<Rightarrow> Inl (recovery_failure ''RECOVERY_LEDGER_INCOMPLETE'')
       | Some table_id \<Rightarrow>
           bindE (recovered_records db table_id (tv_schema t) ledger checkpoint 0 (tv_records t)) (\<lambda>out.
           bindE (writer path out) (\<lambda>n.
             recover_tables db read writer checkpoint rest (Suc tables, records + n))))"

definition recover_all_tables ::
    "database \<Rightarrow> (string \<Rightarrow> table_view result) \<Rightarrow> (string \<Rightarrow> direct_record list \<Rightarrow> nat result) \<Rightarrow> (nat \<Rightarrow> unit result)
      \<Rightarrow> (string \<times> ledger) list \<Rightarrow> nat \<Rightarrow> (nat \<times> nat) result" where
  "recover_all_tables db read writer checkpoint ledgers expected =
     bindE (recover_tables db read writer checkpoint ledgers (0, 0)) (\<lambda>(tables, records).
       if records \<noteq> expected then Inl (recovery_failure ''RECOVERY_RECORD_COUNT_MISMATCH'') else Inr (tables, records))"

section \<open>The staged verification\<close>

definition staged_invalid :: error where
  "staged_invalid = recovery_failure ''RECOVERY_STAGED_INVALID''"

definition reverse_agrees :: "(pyval \<Rightarrow> pyval \<Rightarrow> bool) \<Rightarrow> database \<Rightarrow> string option \<Rightarrow> pyval \<Rightarrow> pyval \<Rightarrow> bool result" where
  "reverse_agrees other db d staged v =
     (if v = VNone \<or> v = VStr [] then Inr (py_eq other staged v)
      else case d of
             None \<Rightarrow> Inr False
           | Some d' \<Rightarrow>
               if domain_kind db d' = Some KIND_NUMERIC_KEY then
                 (case (staged, v) of
                    (VInt j, VInt i) \<Rightarrow>
                      bindE (numeric_original recovery_failure db d' (int_text i)) (\<lambda>original. Inr (original = Some (int_text j)))
                  | _ \<Rightarrow> Inr False)
               else
                 (case (staged, v) of
                    (VStr t, VStr s) \<Rightarrow> bindE (text_original recovery_failure db d' s) (\<lambda>original. Inr (original = Some t))
                  | _ \<Rightarrow> Inr False))"

definition staged_field ::
    "(pyval \<Rightarrow> pyval \<Rightarrow> bool) \<Rightarrow> database \<Rightarrow> string \<Rightarrow> int \<Rightarrow> ledger_binding \<Rightarrow> pyval \<Rightarrow> pyval \<Rightarrow> bool result" where
  "staged_field other db table_id index b staged v =
     (if lb_action b = Some ACTION_KEEP then Inr (py_eq other staged v)
      else if lb_action b = Some ACTION_MEMO then
        (if v = VNone then Inr (staged = VNone)
         else bindE (memo_recovery_row recovery_failure db table_id index (lb_field_id b)) (\<lambda>row.
           case row of
             None \<Rightarrow> Inr False
           | Some r \<Rightarrow> bindE (memo_original r) (\<lambda>w. Inr (py_eq other staged w))))
      else if lb_action b = Some ACTION_TEMPORAL then
        bindE (reverse_offset db b) (\<lambda>offset.
          case offset of
            None \<Rightarrow> Inr (py_eq other staged v)
          | Some k \<Rightarrow> bindE (temporal_shift v (- k)) (\<lambda>w. Inr (py_eq other staged w)))
      else if lb_action b = Some ACTION_TEXT then reverse_agrees other db (lb_domain b) staged v
      else Inl (recovery_failure ''RECOVERY_LEDGER_INCOMPLETE''))"

definition staged_record ::
    "(pyval \<Rightarrow> pyval \<Rightarrow> bool) \<Rightarrow> database \<Rightarrow> string \<Rightarrow> table_schema \<Rightarrow> ledger \<Rightarrow> direct_record \<Rightarrow> direct_record \<Rightarrow> unit result" where
  "staged_record other db table_id schema ledger r q =
     (if rec_index r \<noteq> rec_index q \<or> rec_deleted r \<noteq> rec_deleted q then Inl staged_invalid
      else foldE (\<lambda>x _.
             case map_of ledger (sf_name x) of
               None \<Rightarrow> Inl RuntimeError
             | Some b \<Rightarrow>
                 bindE (staged_field other db table_id (rec_index r) b (field_value (rec_values q) (sf_name x)) (field_value (rec_values r) (sf_name x)))
                   (\<lambda>ok. if ok then Inr () else Inl staged_invalid))
           (logical_fields schema) ())"

text \<open>The same lockstep as in the verifier: a record of the first stream is lost when the second ends.\<close>

fun staged_records ::
    "(nat \<Rightarrow> unit result) \<Rightarrow> (direct_record \<Rightarrow> direct_record \<Rightarrow> unit result) \<Rightarrow> direct_record list \<Rightarrow> direct_record list \<Rightarrow> nat
      \<Rightarrow> (nat \<times> direct_record list \<times> direct_record list) result" where
  "staged_records checkpoint compare [] qs n = Inr (n, [], qs)"
| "staged_records checkpoint compare (r # rs) [] n = Inr (n, rs, [])"
| "staged_records checkpoint compare (r # rs) (q # qs) n =
     bindE (checkpoint n) (\<lambda>_. bindE (compare r q) (\<lambda>_. staged_records checkpoint compare rs qs (Suc n)))"

definition verify_staged_table ::
    "(pyval \<Rightarrow> pyval \<Rightarrow> bool) \<Rightarrow> database \<Rightarrow> (nat \<Rightarrow> unit result) \<Rightarrow> string \<Rightarrow> ledger \<Rightarrow> table_view \<Rightarrow> table_view \<Rightarrow> nat result" where
  "verify_staged_table other db checkpoint path ledger pseudonymized staged =
     (if tv_schema pseudonymized \<noteq> tv_schema staged then Inl staged_invalid
      else case map_of (rev (table_rows db)) path of
             None \<Rightarrow> Inl (recovery_failure ''RECOVERY_LEDGER_INCOMPLETE'')
           | Some table_id \<Rightarrow>
               bindE (staged_records checkpoint (staged_record other db table_id (tv_schema pseudonymized) ledger)
                        (tv_records pseudonymized) (tv_records staged) 0) (\<lambda>(scanned, extra_pseudonymized, extra_staged).
                 if extra_pseudonymized \<noteq> [] \<or> extra_staged \<noteq> [] then Inl staged_invalid else Inr scanned))"

definition verify_staged_recovery ::
    "(pyval \<Rightarrow> pyval \<Rightarrow> bool) \<Rightarrow> database \<Rightarrow> (nat \<Rightarrow> unit result) \<Rightarrow> (string \<Rightarrow> table_view result) \<Rightarrow> (string \<Rightarrow> table_view result)
      \<Rightarrow> (string \<times> ledger) list \<Rightarrow> nat \<Rightarrow> unit result" where
  "verify_staged_recovery other db checkpoint read read_staged ledgers expected =
     bindE (mapE (\<lambda>(path, ledger). bindE (read path) (\<lambda>t. bindE (read_staged path) (\<lambda>u.
               verify_staged_table other db checkpoint path ledger t u))) ledgers) (\<lambda>counts.
       if sum_list counts \<noteq> expected then Inl staged_invalid else Inr ())"

end
