(* ===== verification/Run_Binding.thy ===== *)
theory Run_Binding
  imports Relationship_Document Recovery_Stream
begin

text \<open>
  How a run is bound to its inputs (\<^verbatim>\<open>src/src/dbf_anonymizer/engine/run.py\<close>): the derivation of the
  engine directives from the resolved policy, the source schemas and the relationship document
  (\<open>build_engine_plan\<close>), and the registration of the durable field-policy ledger before and after pass
  1 (\<open>_register_memo_structure\<close>, \<open>_register_transform_fields\<close>). The public schema of a table is what the
  read boundary reports; the digests of domain and row identities are arguments.
\<close>

section \<open>Schemas and failures\<close>

record field_info = schema_field +
  si_supported :: bool
  si_binary :: bool
  si_system :: bool
  si_nocptrans :: bool

record source_schema =
  ss_fields :: "field_info list"
  ss_encoding :: string
  ss_structural_cdx :: bool
  ss_record_count :: nat

definition path_failure :: "string \<Rightarrow> error" where
  "path_failure detail = PathError PATH_INVALID detail"

definition identity_failure :: "string \<Rightarrow> error" where
  "identity_failure detail = VaultError VAULT_IDENTITY_MISMATCH detail"

section \<open>Numeric members\<close>

definition numeric_member_of :: "(relation_group \<times> string) list \<Rightarrow> string \<Rightarrow> string \<Rightarrow> (relation_group \<times> string) option" where
  "numeric_member_of numeric_groups table_path field_name =
     find (\<lambda>(g, d). list_ex (\<lambda>m. is_numeric_member m \<and> rm_table_path m = table_path \<and> rm_field_name m = field_name) (rg_members g)) numeric_groups"

definition member_range :: "relation_member \<Rightarrow> numeric_key_member_range result" where
  "member_range m =
     (if rm_dbf_type m = ''I'' then Inr integer_member
      else if rm_dbf_type m = ''N'' then integral_numeric_member (rm_byte_width m)
      else Inl (path_failure ''ENGINE_FIELD_UNSUPPORTED''))"

text \<open>The table of a member is not compared: the first numeric member with the name decides.\<close>

definition member_range_of :: "relation_group \<Rightarrow> string \<Rightarrow> numeric_key_member_range result" where
  "member_range_of g field_name =
     (case find (\<lambda>m. rm_field_name m = field_name \<and> is_numeric_member m) (rg_members g) of
        None \<Rightarrow> Inl (path_failure ''ENGINE_NUMERIC_MEMBER_UNKNOWN'')
      | Some m \<Rightarrow> member_range m)"

section \<open>The directives of a table\<close>

definition field_directive_for ::
    "(json \<Rightarrow> string) \<Rightarrow> dict \<Rightarrow> (relation_group \<times> string) list \<Rightarrow> string \<Rightarrow> source_schema \<Rightarrow> field_info \<Rightarrow> field_directive option result" where
  "field_directive_for other merged numeric_groups path schema f =
     bindE (classify_field_capability other (sf_type f) (sf_name f) (si_supported f) (si_binary f) (si_system f) (si_nocptrans f) merged) (\<lambda>(action, unsafe, system).
       if system then Inr None
       else if unsafe then Inl (path_failure ''ENGINE_FIELD_UNSUPPORTED'')
       else
         let fd = (\<lambda>a d r. \<lparr>fd_name = sf_name f, fd_action = a, fd_type = sf_type f, fd_encoding = ss_encoding schema,
                           fd_width = sf_length f, fd_numeric_domain = d, fd_member_range = r\<rparr>)
         in case numeric_member_of numeric_groups path (sf_name f) of
              Some (g, d) \<Rightarrow> bindE (member_range_of g (sf_name f)) (\<lambda>r. Inr (Some (fd ACTION_TEXT (Some d) (Some r))))
            | None \<Rightarrow>
                (case action of
                   None \<Rightarrow> Inr None
                 | Some a \<Rightarrow>
                     if a = ACTION_TEXT \<or> a = ACTION_MEMO \<or> a = ACTION_TEMPORAL then Inr (Some (fd a None None))
                     else Inl (path_failure ''ENGINE_ACTION_UNSUPPORTED'')))"

text \<open>The directives of one action that no numeric relation claims.\<close>

definition plain_fields :: "string \<Rightarrow> field_directive list \<Rightarrow> string list" where
  "plain_fields action fds = map fd_name (filter (\<lambda>fd. fd_numeric_domain fd = None \<and> fd_action fd = action) fds)"

definition table_directive_for ::
    "(json \<Rightarrow> string) \<Rightarrow> dict \<Rightarrow> (relation_group \<times> string) list \<Rightarrow> string \<Rightarrow> source_schema \<Rightarrow> table_directive result" where
  "table_directive_for other merged numeric_groups path schema =
     bindE (mapE (field_directive_for other merged numeric_groups path schema) (ss_fields schema)) (\<lambda>fds.
       let transformed = List.map_filter id fds
       in Inr \<lparr>tab_path = path, tab_transformed = transformed, tab_memo_fields = plain_fields ACTION_MEMO transformed,
               tab_temporal_fields = plain_fields ACTION_TEMPORAL transformed, tab_relation_fields = [],
               tab_structural_cdx = ss_structural_cdx schema, tab_record_count = ss_record_count schema\<rparr>)"

section \<open>The directives of a relation\<close>

definition relation_directive_for :: "(relation_group \<times> string) list \<Rightarrow> relation_group \<Rightarrow> relation_directive result" where
  "relation_directive_for numeric_groups g =
     bindE (case map_of numeric_groups g of
              None \<Rightarrow> Inr None
            | Some d \<Rightarrow> bindE (mapE member_range (filter is_numeric_member (rg_members g))) (\<lambda>ranges.
                bindE (numeric_key_domain_for ranges) (\<lambda>dom. Inr (Some dom)))) (\<lambda>dom.
     let primary = members_for_role ''PRIMARY'' g;
         parents = (if primary \<noteq> [] then primary else members_for_role ''CANDIDATE'' g);
         foreigns = members_for_role ''FOREIGN'' g
     in if parents = [] \<or> foreigns = [] then Inl RuntimeError
        else Inr \<lparr>rel_id = rg_relation_id g, rel_arity = length parents, rel_parent_table = rm_table_path (hd parents),
                  rel_foreign_table = rm_table_path (hd foreigns), rel_parent_fields = map rm_field_name parents,
                  rel_foreign_fields = map rm_field_name foreigns, rel_numeric_domain_id = map_of numeric_groups g, rel_numeric_domain = dom\<rparr>)"

definition relation_fields_of :: "relation_directive list \<Rightarrow> string \<Rightarrow> string list" where
  "relation_fields_of rels path =
     sort (remdups (concat (map (\<lambda>r. (if rel_parent_table r = path then rel_parent_fields r else [])
        @ (if rel_foreign_table r = path then rel_foreign_fields r else [])) rels)))"

definition build_engine_plan ::
    "(json \<Rightarrow> string) \<Rightarrow> (dict \<Rightarrow> string result) \<Rightarrow> (string \<Rightarrow> string) \<Rightarrow> (string \<Rightarrow> source_schema result) \<Rightarrow> string list \<Rightarrow> string list
      \<Rightarrow> dict option \<Rightarrow> relationship_document option \<Rightarrow> engine_plan result" where
  "build_engine_plan other fingerprint domain_id read idx_paths paths policy document =
     bindE (resolve_policy fingerprint policy) (\<lambda>(merged, _).
     let groups = (case document of None \<Rightarrow> [] | Some doc \<Rightarrow> effective_groups doc);
         numeric_groups = map (\<lambda>g. (g, domain_id (rg_relation_id g))) (filter (\<lambda>g. rg_numeric_strategy g = REVERSIBLE_BIJECTIVE) groups)
     in bindE (mapE (\<lambda>path. bindE (read path) (table_directive_for other merged numeric_groups path)) paths) (\<lambda>tables.
        bindE (mapE (relation_directive_for numeric_groups) groups) (\<lambda>rels.
        let transformed = concat (map tab_transformed tables)
        in Inr \<lparr>ep_tables = (case document of None \<Rightarrow> tables | Some _ \<Rightarrow> map (\<lambda>t. t\<lparr>tab_relation_fields := relation_fields_of rels (tab_path t)\<rparr>) tables),
                ep_relations = rels, ep_text_present = (plain_fields ACTION_TEXT transformed \<noteq> []),
                ep_numeric_present = list_ex (\<lambda>fd. fd_numeric_domain fd \<noteq> None) transformed,
                ep_temporal_present = (plain_fields ACTION_TEMPORAL transformed \<noteq> []),
                ep_structural_cdx_tables = map tab_path (filter tab_structural_cdx tables), ep_standalone_idx_paths = idx_paths\<rparr>)))"

section \<open>The field ledger\<close>

definition field_lookup :: "string \<Rightarrow> string \<Rightarrow> (field_row option, 'x) vm" where
  "field_lookup table_id name = bindV internal_connection (\<lambda>db. retV (find (\<lambda>r. fr_table r = table_id \<and> fr_name r = name) (fields_tbl db)))"

text \<open>\<open>existing_tables\<close> is the dict of registered paths; a new path is registered and remembered.\<close>

definition ensure_table :: "(string \<Rightarrow> string) \<Rightarrow> string \<Rightarrow> (string \<times> string) list \<Rightarrow> (string \<times> (string \<times> string) list, 'x) vm" where
  "ensure_table sha16 path known =
     (case map_of known path of
        Some t \<Rightarrow> retV (t, known)
      | None \<Rightarrow> bindV (register_table sha16 path None None) (\<lambda>t. retV (t, (path, t) # known)))"

definition known_tables :: "((string \<times> string) list, 'x) vm" where
  "known_tables = bindV registered_tables (\<lambda>rows. retV (rev (map (\<lambda>t. (tb_path t, tb_id t)) rows)))"

definition register_memo_field :: "(string \<Rightarrow> string) \<Rightarrow> string \<Rightarrow> string \<Rightarrow> field_directive \<Rightarrow> ((string \<times> string) \<times> string \<times> string, 'x) vm" where
  "register_memo_field sha16 path table_id fd =
     bindV (field_lookup table_id (fd_name fd)) (\<lambda>existing.
     bindV (case existing of
              None \<Rightarrow> register_field sha16 table_id \<lparr>fs_name = fd_name fd, fs_type = [fd_type fd], fs_width = fd_width fd,
                        fs_encoding = Some (fd_encoding fd), fs_action = Some (fd_action fd), fs_domain = None\<rparr>
            | Some r \<Rightarrow>
                if (fr_type r, fr_width r, fr_encoding r, fr_action r) \<noteq> ([fd_type fd], fd_width fd, Some (fd_encoding fd), Some (fd_action fd))
                then failV (identity_failure ''ENGINE_MEMO_STRUCTURE_MISMATCH'') else retV (fr_id r)) (\<lambda>field_id.
       retV ((path, fd_name fd), (table_id, field_id))))"

fun register_memo_tables ::
    "(string \<Rightarrow> string) \<Rightarrow> (string \<times> string) list \<Rightarrow> table_directive list \<Rightarrow> (((string \<times> string) \<times> string \<times> string) list, 'x) vm" where
  "register_memo_tables sha16 known [] = retV []"
| "register_memo_tables sha16 known (tab # tabs) =
     (if tab_memo_fields tab = [] then register_memo_tables sha16 known tabs
      else bindV (ensure_table sha16 (tab_path tab) known) (\<lambda>(table_id, known').
           bindV (mapV (register_memo_field sha16 (tab_path tab) table_id) (filter (\<lambda>fd. fd_action fd = ACTION_MEMO) (tab_transformed tab))) (\<lambda>bs.
           bindV (register_memo_tables sha16 known' tabs) (\<lambda>rest. retV (bs @ rest)))))"

definition register_memo_structure :: "(string \<Rightarrow> string) \<Rightarrow> engine_plan \<Rightarrow> (((string \<times> string) \<times> string \<times> string) list, 'x) vm" where
  "register_memo_structure sha16 plan =
     (if list_all (\<lambda>t. tab_memo_fields t = []) (ep_tables plan) then retV []
      else with_transaction (bindV known_tables (\<lambda>known. register_memo_tables sha16 known (ep_tables plan))))"

text \<open>The ledger entry of a field: the directive's action with its mapping domain, or \<open>KEEP\<close>.\<close>

definition directive_domain :: "string option \<Rightarrow> string option \<Rightarrow> database \<Rightarrow> field_directive \<Rightarrow> string option" where
  "directive_domain text_domain temporal_domain db fd =
     (case fd_numeric_domain fd of
        Some d \<Rightarrow> Some d
      | None \<Rightarrow>
          if fd_action fd = ACTION_TEXT \<and> text_domain \<noteq> None then text_domain
          else if fd_action fd = ACTION_TEMPORAL then
            (case temporal_domain of None \<Rightarrow> None | Some d \<Rightarrow> if has_domain_db db d then Some d else None)
          else None)"

definition expected_field ::
    "string option \<Rightarrow> string option \<Rightarrow> database \<Rightarrow> field_directive list \<Rightarrow> string \<Rightarrow> 'a schema_field_scheme \<Rightarrow> field_spec" where
  "expected_field text_domain temporal_domain db transformed encoding f =
     (case find (\<lambda>fd. fd_name fd = sf_name f) (rev transformed) of
        Some fd \<Rightarrow> \<lparr>fs_name = sf_name f, fs_type = [fd_type fd], fs_width = fd_width fd, fs_encoding = Some (fd_encoding fd),
                   fs_action = Some (fd_action fd), fs_domain = directive_domain text_domain temporal_domain db fd\<rparr>
      | None \<Rightarrow> \<lparr>fs_name = sf_name f, fs_type = [sf_type f], fs_width = sf_length f, fs_encoding = Some encoding,
                 fs_action = Some ACTION_KEEP, fs_domain = None\<rparr>)"

definition row_matches :: "field_row \<Rightarrow> field_spec \<Rightarrow> bool" where
  "row_matches r e \<longleftrightarrow> fr_type r = fs_type e \<and> fr_width r = fs_width e \<and> fr_encoding r = fs_encoding e \<and> fr_action r = fs_action e \<and> fr_domain r = fs_domain e"

definition register_ledger_field ::
    "(string \<Rightarrow> string) \<Rightarrow> string option \<Rightarrow> string option \<Rightarrow> table_directive \<Rightarrow> source_schema \<Rightarrow> string \<Rightarrow> field_info \<Rightarrow> (unit, 'x) vm" where
  "register_ledger_field sha16 text_domain temporal_domain tab schema table_id f =
     (if is_system_field (schema_field.truncate f) then retV ()
      else bindV internal_connection (\<lambda>db.
           let e = expected_field text_domain temporal_domain db (tab_transformed tab) (ss_encoding schema) f
           in bindV (field_lookup table_id (sf_name f)) (\<lambda>existing.
                case existing of
                  None \<Rightarrow> bindV (register_field sha16 table_id e) (\<lambda>_. retV ())
                | Some r \<Rightarrow> if row_matches r e then retV () else failV (identity_failure ''ENGINE_FIELD_STRUCTURE_MISMATCH''))))"

fun register_ledger_tables ::
    "(string \<Rightarrow> string) \<Rightarrow> string option \<Rightarrow> string option \<Rightarrow> (string \<Rightarrow> source_schema result) \<Rightarrow> (string \<times> string) list \<Rightarrow> table_directive list \<Rightarrow> (unit, 'x) vm" where
  "register_ledger_tables sha16 text_domain temporal_domain read known [] = retV ()"
| "register_ledger_tables sha16 text_domain temporal_domain read known (tab # tabs) =
     bindV (liftV (read (tab_path tab))) (\<lambda>schema.
     bindV (ensure_table sha16 (tab_path tab) known) (\<lambda>(table_id, known').
     bindV (mapV (register_ledger_field sha16 text_domain temporal_domain tab schema table_id) (ss_fields schema)) (\<lambda>_.
       register_ledger_tables sha16 text_domain temporal_domain read known' tabs)))"

definition register_transform_fields ::
    "(string \<Rightarrow> string) \<Rightarrow> (string \<Rightarrow> source_schema result) \<Rightarrow> engine_plan \<Rightarrow> string option \<Rightarrow> string option \<Rightarrow> (unit, 'x) vm" where
  "register_transform_fields sha16 read plan text_domain temporal_domain =
     (if ep_tables plan = [] then retV ()
      else with_transaction (bindV known_tables (\<lambda>known.
             register_ledger_tables sha16 text_domain temporal_domain read known (ep_tables plan))))"

text \<open>The offset pass 2 applies is the persisted one.\<close>

definition persisted_temporal_offset :: "string \<Rightarrow> (int, 'x) vm" where
  "persisted_temporal_offset domain_id =
     bindV (temporal_parameter domain_id) (\<lambda>offset.
       case offset of None \<Rightarrow> failV (pass1_mapping_failure ''ENGINE_TEMPORAL_OFFSET_MISSING'') | Some k \<Rightarrow> retV k)"

end
