(* ===== verification/Pass_Two.thy ===== *)
theory Pass_Two
  imports Engine_Plan
begin

text \<open>
  The write pass (\<^verbatim>\<open>src/src/dbf_anonymizer/engine/pass2.py\<close>): the per-record transformation that reads
  the finalized mappings from the vault, the evidence shard of one table, the coordinator that
  accepts table results one at a time or in batches of workers, and the comparison of the relation
  evidence before and after. The Direct Read stream of a table is the list of its records and the
  Direct Write boundary a parameter; staging, fault injection and progress events are not modelled.
\<close>

section \<open>The transformation of one record\<close>

text \<open>\<open>str(value)\<close>; the rendering of values that are no text, integer, bool or \<open>None\<close> is a parameter.\<close>

fun py_str :: "(pyval \<Rightarrow> pystr) \<Rightarrow> pyval \<Rightarrow> pystr" where
  "py_str other (VStr s) = s"
| "py_str other (VInt i) = int_text i"
| "py_str other (VBool b) = ascii (if b then ''True'' else ''False'')"
| "py_str other VNone = ascii ''None''"
| "py_str other v = other v"

text \<open>The new value of a field, or \<open>None\<close> when the loop continues and the field keeps its value.\<close>

definition transform_numeric :: "database \<Rightarrow> string \<Rightarrow> pyval \<Rightarrow> pyval option result" where
  "transform_numeric db d v =
     (case v of
        VNone \<Rightarrow> Inr None
      | VInt i \<Rightarrow>
          bindE (numeric_pseudonym_db db d (int_text i)) (\<lambda>mapped.
            case mapped of
              None \<Rightarrow> Inl (pass1_mapping_failure ''ENGINE_NUMERIC_MAPPING_MISSING'')
            | Some p \<Rightarrow> bindE (parse_canonical_integer_text (VStr p)) (\<lambda>j. Inr (Some (VInt j))))
      | _ \<Rightarrow> Inl (pass1_mapping_failure ''ENGINE_NUMERIC_VALUE_UNSUPPORTED''))"

definition transform_text :: "(pyval \<Rightarrow> pystr) \<Rightarrow> database \<Rightarrow> string option \<Rightarrow> pyval \<Rightarrow> pyval option result" where
  "transform_text other db text_domain v =
     (if v = VNone \<or> v = VStr [] then Inr None
      else case text_domain of
             None \<Rightarrow> Inl AssertionError
           | Some d \<Rightarrow>
               bindE (bind_text (py_str other v)) (\<lambda>_.
               bindE (text_pseudonym_db db d (py_str other v)) (\<lambda>mapped.
                 case mapped of
                   None \<Rightarrow> Inl (pass1_mapping_failure ''ENGINE_TEXT_MAPPING_MISSING'')
                 | Some p \<Rightarrow> Inr (Some (VStr p)))))"

definition transform_value ::
    "(pyval \<Rightarrow> pystr) \<Rightarrow> database \<Rightarrow> string option \<Rightarrow> int option \<Rightarrow> field_directive \<Rightarrow> pyval \<Rightarrow> pyval option result" where
  "transform_value other db text_domain offset fd v =
     (case fd_numeric_domain fd of
        Some d \<Rightarrow> transform_numeric db d v
      | None \<Rightarrow>
          if fd_action fd = ACTION_TEXT then transform_text other db text_domain v
          else if fd_action fd = ACTION_MEMO then bindE (mask_memo_value (fd_type fd) v) (\<lambda>w. Inr (Some w))
          else if fd_action fd = ACTION_TEMPORAL then
            (case offset of
               None \<Rightarrow> Inl (pass1_mapping_failure ''ENGINE_TEMPORAL_OFFSET_MISSING'')
             | Some k \<Rightarrow> bindE (temporal_shift v k) (\<lambda>w. Inr (Some w)))
          else Inr None)"

definition transform_field ::
    "(pyval \<Rightarrow> pystr) \<Rightarrow> database \<Rightarrow> string option \<Rightarrow> int option \<Rightarrow> field_directive \<Rightarrow> field_values \<Rightarrow> field_values result" where
  "transform_field other db text_domain offset fd vals =
     bindE (transform_value other db text_domain offset fd (field_value vals (fd_name fd))) (\<lambda>new.
       case new of None \<Rightarrow> Inr vals | Some w \<Rightarrow> Inr (vals(fd_name fd \<mapsto> w)))"

text \<open>Type-0 fields are the writer's own state and never passed on.\<close>

definition application_values :: "string list \<Rightarrow> field_values \<Rightarrow> field_values" where
  "application_values system vals = (\<lambda>n. if n \<in> set system then None else vals n)"

record write_context =
  wc_other :: "pyval \<Rightarrow> pystr"
  wc_db :: database
  wc_text_domain :: "string option"
  wc_offset :: "int option"
  wc_relations :: "relation_directive list"

definition transform_values :: "write_context \<Rightarrow> table_directive \<Rightarrow> string list \<Rightarrow> field_values \<Rightarrow> field_values result" where
  "transform_values wc tab system vals =
     foldE (transform_field (wc_other wc) (wc_db wc) (wc_text_domain wc) (wc_offset wc)) (tab_transformed tab)
       (application_values system vals)"

definition transform_record ::
    "write_context \<Rightarrow> table_directive \<Rightarrow> string list \<Rightarrow> direct_record \<Rightarrow> shard \<Rightarrow> (direct_record \<times> shard) result" where
  "transform_record wc tab system r h =
     bindE (transform_values wc tab system (rec_values r)) (\<lambda>vals.
     bindE (foldE (observe_after_relation tab vals) (wc_relations wc) h) (\<lambda>h'.
       Inr (\<lparr>rec_index = rec_index r, rec_deleted = rec_deleted r, rec_values = vals\<rparr>, h')))"

text \<open>\<open>checkpoint k\<close> is the outcome of the cooperative checkpoint before the k-th record.\<close>

fun transform_stream ::
    "write_context \<Rightarrow> table_directive \<Rightarrow> string list \<Rightarrow> (nat \<Rightarrow> unit result) \<Rightarrow> nat \<Rightarrow> direct_record list \<Rightarrow> shard
      \<Rightarrow> (direct_record list \<times> shard) result" where
  "transform_stream wc tab system checkpoint k [] h = Inr ([], h)"
| "transform_stream wc tab system checkpoint k (r # rs) h =
     bindE (checkpoint k) (\<lambda>_.
     bindE (transform_record wc tab system r h) (\<lambda>(r', h').
     bindE (transform_stream wc tab system checkpoint (Suc k) rs h') (\<lambda>(rs', h'').
       Inr (r' # rs', h''))))"

section \<open>Table results and the coordinator\<close>

record table_write_result =
  tw_index :: nat
  tw_path :: string
  tw_records_written :: nat

definition write_table ::
    "write_context \<Rightarrow> (string \<Rightarrow> direct_record list \<Rightarrow> nat result) \<Rightarrow> (nat \<Rightarrow> unit result) \<Rightarrow> string list
      \<Rightarrow> nat \<Rightarrow> table_directive \<Rightarrow> direct_record list \<Rightarrow> (table_write_result \<times> shard) result" where
  "write_table wc writer checkpoint system index tab records =
     bindE (transform_stream wc tab system checkpoint 0 records new_shard) (\<lambda>(out, h).
     bindE (writer (tab_path tab) out) (\<lambda>n.
       Inr (\<lparr>tw_index = index, tw_path = tab_path tab, tw_records_written = n\<rparr>, close_shard h)))"

record pass_two_state =
  p2_spool :: spool
  p2_written :: "string list"
  p2_records_written :: nat
  p2_read_streams :: "(string \<times> string) list"

definition accept_table :: "table_write_result \<times> shard \<Rightarrow> pass_two_state \<Rightarrow> pass_two_state" where
  "accept_table r p =
     p\<lparr>p2_spool := merge_relation_shard (snd r) (p2_spool p), p2_written := p2_written p @ [tw_path (fst r)],
       p2_records_written := p2_records_written p + tw_records_written (fst r),
       p2_read_streams := p2_read_streams p @ [(''pass2'', tw_path (fst r))]\<rparr>"

text \<open>
  \<open>workers == 1\<close>: write and accept one table after the other. \<open>cancel i\<close> is the outcome of the
  coordinator's own cancellation check before table \<open>i\<close>.
\<close>

fun run_sequential ::
    "(nat \<Rightarrow> unit result) \<Rightarrow> (nat \<Rightarrow> (table_write_result \<times> shard) result) \<Rightarrow> nat list \<Rightarrow> pass_two_state \<Rightarrow> pass_two_state result" where
  "run_sequential cancel outcome [] p = Inr p"
| "run_sequential cancel outcome (i # is) p =
     bindE (cancel i) (\<lambda>_. bindE (outcome i) (\<lambda>r. run_sequential cancel outcome is (accept_table r p)))"

datatype future_state = Cancelled | Failed error | Finished "table_write_result \<times> shard"

fun is_cancellation :: "error \<Rightarrow> bool" where
  "is_cancellation (CancellationError c d) = True"
| "is_cancellation _ = False"

fun failures_of :: "future_state list \<Rightarrow> error list" where
  "failures_of [] = []"
| "failures_of (Failed e # fs) = e # failures_of fs"
| "failures_of (f # fs) = failures_of fs"

definition primary_worker_failure :: "future_state list \<Rightarrow> error" where
  "primary_worker_failure futures =
     (case failures_of futures of
        [] \<Rightarrow> AssertionError
      | e # es \<Rightarrow> (case find (\<lambda>f. \<not> is_cancellation f) (e # es) of Some f \<Rightarrow> f | None \<Rightarrow> e))"

fun accept_finished :: "future_state list \<Rightarrow> pass_two_state \<Rightarrow> pass_two_state" where
  "accept_finished [] p = p"
| "accept_finished (Finished r # fs) p = accept_finished fs (accept_table r p)"
| "accept_finished (f # fs) p = accept_finished fs p"

text \<open>
  \<open>workers > 1\<close>: the tables go to the pool in batches. What the pool makes of a batch is the
  schedule's: \<open>settle\<close> gives the final state of each future of a batch, in submission order, or the
  error of the cancellation check that the coordinator makes while it waits.
\<close>

function run_batched ::
    "(nat \<Rightarrow> unit result) \<Rightarrow> (nat list \<Rightarrow> future_state list result) \<Rightarrow> nat \<Rightarrow> nat list \<Rightarrow> pass_two_state \<Rightarrow> pass_two_state result" where
  "run_batched cancel settle workers is p =
     (if is = [] \<or> workers = 0 then Inr p
      else
        case cancel (hd is) of
          Inl e \<Rightarrow> Inl e
        | Inr _ \<Rightarrow>
            (case settle (take workers is) of
               Inl e \<Rightarrow> Inl e
             | Inr futures \<Rightarrow>
                 if failures_of futures \<noteq> [] then Inl (primary_worker_failure futures)
                 else run_batched cancel settle workers (drop workers is) (accept_finished futures p)))"
  by pat_completeness auto
termination
  by (relation "measure (\<lambda>(cancel, settle, workers, is, p). length is)") auto

declare run_batched.simps [simp del]

definition run_pass_two ::
    "(nat \<Rightarrow> unit result) \<Rightarrow> (nat \<Rightarrow> (table_write_result \<times> shard) result) \<Rightarrow> (nat list \<Rightarrow> future_state list result)
      \<Rightarrow> int \<Rightarrow> nat \<Rightarrow> spool \<Rightarrow> pass_two_state result" where
  "run_pass_two cancel outcome settle workers n s =
     (if workers < 1 then Inl ValueError
      else
        let p = \<lparr>p2_spool = s, p2_written = [], p2_records_written = 0, p2_read_streams = []\<rparr>
        in bindE (if workers = 1 then run_sequential cancel outcome [0..<n] p else run_batched cancel settle (nat workers) [0..<n] p)
             (\<lambda>p. Inr (p\<lparr>p2_spool := flush (p2_spool p)\<rparr>)))"

section \<open>The comparison\<close>

definition compare_relation :: "spool \<Rightarrow> relation_directive \<Rightarrow> relation_pass_summary" where
  "compare_relation s rel =
     (let relation_id = rel_id rel;
          before_parent = relation_side_facts ''before'' relation_id ''parent'' s;
          after_parent = relation_side_facts ''after'' relation_id ''parent'' s;
          before_foreign = relation_side_facts ''before'' relation_id ''foreign'' s;
          after_foreign = relation_side_facts ''after'' relation_id ''foreign'' s;
          before_unique = relation_unique_count ''before'' relation_id ''parent'' s;
          after_unique = relation_unique_count ''after'' relation_id ''parent'' s;
          before_matched = relation_matched_count ''before'' relation_id ''parent'' ''foreign'' s;
          after_matched = relation_matched_count ''after'' relation_id ''parent'' ''foreign'' s;
          before_orphan = (fst before_foreign - snd before_foreign) - before_matched;
          after_orphan = (fst after_foreign - snd after_foreign) - after_matched;
          parent_profile_equal = relation_profile_equal relation_id ''before'' ''after'' ''parent'' s;
          foreign_profile_equal = relation_profile_equal relation_id ''before'' ''after'' ''foreign'' s
      in \<lparr>rs_relation_id = relation_id,
          rs_verified = (parent_profile_equal \<and> foreign_profile_equal \<and> before_matched = after_matched
            \<and> before_orphan = after_orphan \<and> snd before_parent = snd after_parent \<and> snd before_foreign = snd after_foreign),
          rs_before_rows = fst before_parent + fst before_foreign, rs_after_rows = fst after_parent + fst after_foreign,
          rs_before_nulls = snd before_foreign, rs_after_nulls = snd after_foreign,
          rs_before_unique = before_unique, rs_after_unique = after_unique,
          rs_matched_rows = after_matched, rs_orphan_count = after_orphan,
          rs_parent_profile_equal = parent_profile_equal, rs_foreign_profile_equal = foreign_profile_equal\<rparr>)"

definition compare_relations :: "relation_directive list \<Rightarrow> spool \<Rightarrow> relation_pass_summary list" where
  "compare_relations rels s = map (compare_relation s) rels"

definition all_relations_verified :: "relation_pass_summary list \<Rightarrow> bool" where
  "all_relations_verified summaries = list_all rs_verified summaries"

section \<open>Any number of workers\<close>

text \<open>
  What a pool may do with a batch when the run is not cancelled from outside: every future ends as
  its own table's outcome, unless another one failed; then it may also be cancelled, or stopped by
  the coordinator at a checkpoint.
\<close>

definition stopped_by_coordinator :: error where
  "stopped_by_coordinator = CancellationError OPERATION_CANCELLED ''CANCELLED_BY_COORDINATOR''"

fun future_of :: "(table_write_result \<times> shard) result \<Rightarrow> future_state" where
  "future_of (Inl e) = Failed e"
| "future_of (Inr r) = Finished r"

definition settled_batch :: "(nat \<Rightarrow> (table_write_result \<times> shard) result) \<Rightarrow> nat list \<Rightarrow> future_state list \<Rightarrow> bool" where
  "settled_batch outcome is fs \<longleftrightarrow>
     list_all2 (\<lambda>i f. f = future_of (outcome i)
       \<or> ((\<exists>j\<in>set is. isl (outcome j)) \<and> (f = Cancelled \<or> f = Failed stopped_by_coordinator))) is fs
     \<and> ((\<exists>j\<in>set is. isl (outcome j)) \<longrightarrow> (\<exists>j\<in>set is. isl (outcome j) \<and> future_of (outcome j) \<in> set fs))"

definition admissible_pool :: "(nat \<Rightarrow> (table_write_result \<times> shard) result) \<Rightarrow> (nat list \<Rightarrow> future_state list result) \<Rightarrow> bool" where
  "admissible_pool outcome settle \<longleftrightarrow> (\<forall>is. \<exists>fs. settle is = Inr fs \<and> settled_batch outcome is fs)"

definition never_cancelled :: "(nat \<Rightarrow> unit result) \<Rightarrow> bool" where
  "never_cancelled cancel \<longleftrightarrow> (\<forall>i. cancel i = Inr ())"

lemma admissible_batch:
  assumes "admissible_pool outcome settle"
  obtains fs where "settle is = Inr fs" and "settled_batch outcome is fs"
  using assms unfolding admissible_pool_def by blast

lemma isl_cases: "isl r \<Longrightarrow> (\<And>e. r = Inl e \<Longrightarrow> P) \<Longrightarrow> P"
  by (cases r) auto

lemma settled_finished:
  assumes "settled_batch outcome is fs" and "\<forall>i\<in>set is. \<exists>r. outcome i = Inr r"
  shows "fs = map (\<lambda>i. Finished (projr (outcome i))) is"
proof -
  have none: "\<not> (\<exists>j\<in>set is. isl (outcome j))" using assms(2) by auto
  have "list_all2 (\<lambda>i f. f = future_of (outcome i)) is fs" using assms(1) none by (simp add: settled_batch_def)
  then have "fs = map (\<lambda>i. future_of (outcome i)) is" by (induction rule: list_all2_induct) auto
  also have "\<dots> = map (\<lambda>i. Finished (projr (outcome i))) is" using assms(2) by (intro map_cong) auto
  finally show ?thesis .
qed

lemma failures_finished: "failures_of (map (\<lambda>i. Finished (f i)) is) = []"
  by (induction "is") auto

lemma accept_all_finished:
  assumes "never_cancelled cancel"
  shows "\<forall>i\<in>set is. outcome i = Inr (f i) \<Longrightarrow>
    run_sequential cancel outcome is p = Inr (accept_finished (map (\<lambda>i. Finished (f i)) is) p)"
  using assms by (induction "is" arbitrary: p) (auto simp: never_cancelled_def)

lemma run_sequential_append:
  "run_sequential cancel outcome (is @ js) p = bindE (run_sequential cancel outcome is p) (run_sequential cancel outcome js)"
  by (induction "is" arbitrary: p) (auto simp: bindE_def split: sum.split)

lemma batch_step:
  assumes "never_cancelled cancel" and "is \<noteq> []" and "0 < workers" and "settle (take workers is) = Inr fs"
  shows "run_batched cancel settle workers is p =
    (if failures_of fs \<noteq> [] then Inl (primary_worker_failure fs)
     else run_batched cancel settle workers (drop workers is) (accept_finished fs p))"
  using assms by (subst run_batched.simps) (simp add: never_cancelled_def)

lemma batched_equals_sequential:
  assumes pool: "admissible_pool outcome settle" and w: "0 < workers" and q: "never_cancelled cancel"
  shows "\<forall>i\<in>set is. \<exists>r. outcome i = Inr r \<Longrightarrow> run_batched cancel settle workers is p = run_sequential cancel outcome is p"
proof (induction "length is" arbitrary: "is" p rule: less_induct)
  case less
  show ?case
  proof (cases "is = []")
    case True
    then show ?thesis by (simp add: run_batched.simps)
  next
    case False
    let ?b = "take workers is" and ?f = "\<lambda>i. projr (outcome i)"
    have all: "\<forall>i\<in>set ?b. outcome i = Inr (?f i)" using less.prems by (auto dest!: in_set_takeD)
    obtain fs where fs: "settle ?b = Inr fs" "settled_batch outcome ?b fs" using admissible_batch [OF pool] .
    have settled: "fs = map (\<lambda>i. Finished (?f i)) ?b" by (rule settled_finished [OF fs(2)]) (use all in blast)
    have rest: "\<forall>i\<in>set (drop workers is). \<exists>r. outcome i = Inr r" using less.prems by (auto dest!: in_set_dropD)
    have "run_batched cancel settle workers is p = run_batched cancel settle workers (drop workers is) (accept_finished fs p)"
      by (simp add: batch_step [where settle = settle, OF q False w fs(1)] settled failures_finished)
    also have "\<dots> = run_sequential cancel outcome (drop workers is) (accept_finished fs p)"
      using less.hyps [of "drop workers is"] rest False w by simp
    also have "\<dots> = run_sequential cancel outcome (?b @ drop workers is) p"
      unfolding run_sequential_append accept_all_finished [OF q all] settled by simp
    finally show ?thesis by simp
  qed
qed

lemma set_failures: "e \<in> set (failures_of fs) \<longleftrightarrow> Failed e \<in> set fs"
  by (induction fs rule: failures_of.induct) auto

text \<open>A failed batch reports the first error that is not a cancellation, which a table itself raised.\<close>

lemma settled_failure:
  assumes batch: "settled_batch outcome is fs" and own: "\<forall>i\<in>set is. \<forall>e. outcome i = Inl e \<longrightarrow> \<not> is_cancellation e"
    and fail: "\<exists>i\<in>set is. isl (outcome i)"
  shows "failures_of fs \<noteq> [] \<and> (\<exists>i\<in>set is. outcome i = Inl (primary_worker_failure fs))"
proof -
  let ?fs = "failures_of fs"
  have "\<exists>j\<in>set is. isl (outcome j) \<and> future_of (outcome j) \<in> set fs"
    using batch fail unfolding settled_batch_def by blast
  then obtain j e where j: "j \<in> set is" "outcome j = Inl e" "Failed e \<in> set fs"
    by (auto elim!: isl_cases)
  then have mem: "e \<in> set ?fs" "\<not> is_cancellation e" using own by (auto simp: set_failures)
  then obtain f where f: "find (\<lambda>f. \<not> is_cancellation f) ?fs = Some f"
    by (metis (mono_tags, lifting) find_None_iff option.exhaust)
  then have ff: "f \<in> set ?fs" "\<not> is_cancellation f" using find_Some_set by force+
  have prim: "primary_worker_failure fs = f"
    using f mem(1) by (cases ?fs) (auto simp: primary_worker_failure_def)
  have l: "list_all2 (\<lambda>i g. g = future_of (outcome i)
       \<or> ((\<exists>j\<in>set is. isl (outcome j)) \<and> (g = Cancelled \<or> g = Failed stopped_by_coordinator))) is fs"
    using batch unfolding settled_batch_def by blast
  have "Failed f \<in> set fs" using ff(1) by (simp add: set_failures)
  then obtain k where k: "k < length fs" "fs ! k = Failed f" by (auto simp: in_set_conv_nth)
  have len: "k < length is" using k(1) list_all2_lengthD [OF l] by simp
  then have "Failed f = future_of (outcome (is ! k)) \<or> Failed f = Failed stopped_by_coordinator"
    using list_all2_nthD [OF l] k by fastforce
  then have "Failed f = future_of (outcome (is ! k))" using ff(2) by (auto simp: stopped_by_coordinator_def)
  then have "outcome (is ! k) = Inl f" by (cases "outcome (is ! k)") auto
  then show ?thesis using len prim mem(1) by (metis empty_iff empty_set nth_mem)
qed

lemma batched_failure:
  assumes pool: "admissible_pool outcome settle" and w: "0 < workers" and q: "never_cancelled cancel"
  shows "\<forall>i\<in>set is. \<forall>e. outcome i = Inl e \<longrightarrow> \<not> is_cancellation e \<Longrightarrow> \<exists>i\<in>set is. isl (outcome i) \<Longrightarrow>
    \<exists>i\<in>set is. \<exists>e. outcome i = Inl e \<and> run_batched cancel settle workers is p = Inl e"
proof (induction "length is" arbitrary: "is" p rule: less_induct)
  case less
  let ?b = "take workers is"
  have ne: "is \<noteq> []" using less.prems by auto
  have sub: "set ?b \<subseteq> set is" "set (drop workers is) \<subseteq> set is" by (rule set_take_subset, rule set_drop_subset)
  obtain fs where fs: "settle ?b = Inr fs" "settled_batch outcome ?b fs" using admissible_batch [OF pool] .
  show ?case
  proof (cases "\<exists>i\<in>set ?b. isl (outcome i)")
    case True
    have "failures_of fs \<noteq> [] \<and> (\<exists>i\<in>set ?b. outcome i = Inl (primary_worker_failure fs))"
      using settled_failure [OF fs(2) _ True] less.prems(1) sub(1) by blast
    then show ?thesis using sub(1) by (auto simp: batch_step [where settle = settle, OF q ne w fs(1)])
  next
    case False
    then have all: "\<forall>i\<in>set ?b. \<exists>r. outcome i = Inr r" by (metis isl_def sum.exhaust)
    then have settled: "fs = map (\<lambda>i. Finished (projr (outcome i))) ?b" by (rule settled_finished [OF fs(2)])
    have run: "run_batched cancel settle workers is p = run_batched cancel settle workers (drop workers is) (accept_finished fs p)"
      by (simp add: batch_step [where settle = settle, OF q ne w fs(1)] settled failures_finished)
    have "\<exists>i\<in>set (drop workers is). isl (outcome i)"
      using less.prems(2) False by (metis Un_iff append_take_drop_id set_append)
    moreover have "length (drop workers is) < length is" using ne w by simp
    ultimately have "\<exists>i\<in>set (drop workers is). \<exists>e. outcome i = Inl e
        \<and> run_batched cancel settle workers (drop workers is) (accept_finished fs p) = Inl e"
      using less.hyps [of "drop workers is"] less.prems(1) sub(2) by blast
    then show ?thesis unfolding run using sub(2) by blast
  qed
qed

lemma sequential_failure:
  assumes "never_cancelled cancel"
  shows "\<exists>i\<in>set is. isl (outcome i) \<Longrightarrow> \<exists>i\<in>set is. \<exists>e. outcome i = Inl e \<and> run_sequential cancel outcome is p = Inl e"
proof (induction "is" arbitrary: p)
  case (Cons i "is")
  then show ?case using assms by (cases "outcome i") (auto simp: never_cancelled_def)
qed simp

text \<open>The result of a run whose tables all succeed, for any number of workers.\<close>

lemma pass_two_accepts:
  assumes pool: "admissible_pool outcome settle" and w: "1 \<le> workers" and q: "never_cancelled cancel"
    and all: "\<forall>i<n. outcome i = Inr (f i)"
  shows "run_pass_two cancel outcome settle workers n s =
    (let p = fold accept_table (map f [0..<n]) \<lparr>p2_spool = s, p2_written = [], p2_records_written = 0, p2_read_streams = []\<rparr>
     in Inr (p\<lparr>p2_spool := flush (p2_spool p)\<rparr>))"
proof -
  have acc: "accept_finished (map (\<lambda>i. Finished (f i)) is) p = fold accept_table (map f is) p" for "is" p
    by (induction "is" arbitrary: p) auto
  have "run_sequential cancel outcome [0..<n] p = Inr (fold accept_table (map f [0..<n]) p)" for p
    using accept_all_finished [OF q, of "[0..<n]" outcome f] all acc by simp
  moreover have "run_batched cancel settle (nat workers) [0..<n] p = run_sequential cancel outcome [0..<n] p" for p
    using w all by (intro batched_equals_sequential [OF pool _ q]) auto
  ultimately show ?thesis using w by (simp add: run_pass_two_def Let_def)
qed

text \<open>
  C32. The number of workers does not change the result of pass 2. For every behaviour of the thread
  pool in a run that is not cancelled from outside, if each table's write succeeds the outcome
  (merged evidence, tables written, record count) equals that of a single worker; if a table's write
  fails, the run reports the error of a table that failed itself, never the cancellation it caused
  in another worker.
\<close>

theorem pass_two_workers:
  assumes pool: "admissible_pool outcome settle" and w: "1 \<le> workers" and q: "never_cancelled cancel"
    and own: "\<forall>i<n. \<forall>e. outcome i = Inl e \<longrightarrow> \<not> is_cancellation e"
  shows "if \<forall>i<n. \<not> isl (outcome i) then run_pass_two cancel outcome settle workers n s = run_pass_two cancel outcome settle 1 n s
    else \<exists>i<n. \<exists>e. outcome i = Inl e \<and> run_pass_two cancel outcome settle workers n s = Inl e"
proof (cases "\<forall>i<n. \<not> isl (outcome i)")
  case True
  then have "\<forall>i\<in>set [0..<n]. \<exists>r. outcome i = Inr r" by (metis atLeastLessThan_iff isl_def set_upt sum.exhaust)
  then have "run_batched cancel settle (nat workers) [0..<n] p = run_sequential cancel outcome [0..<n] p" for p
    using w by (intro batched_equals_sequential [OF pool _ q]) auto
  then show ?thesis using True w by (simp add: run_pass_two_def Let_def)
next
  case False
  then have ex: "\<exists>i\<in>set [0..<n]. isl (outcome i)" by auto
  have own': "\<forall>i\<in>set [0..<n]. \<forall>e. outcome i = Inl e \<longrightarrow> \<not> is_cancellation e" using own by simp
  let ?p = "\<lparr>p2_spool = s, p2_written = [], p2_records_written = 0, p2_read_streams = []\<rparr>"
  let ?run = "if workers = 1 then run_sequential cancel outcome [0..<n] ?p else run_batched cancel settle (nat workers) [0..<n] ?p"
  have "\<exists>i\<in>set [0..<n]. \<exists>e. outcome i = Inl e \<and> ?run = Inl e"
    using sequential_failure [OF q ex] batched_failure [OF pool _ q own' ex, of "nat workers"] w by auto
  then obtain i e where "i < n" "outcome i = Inl e" "?run = Inl e" by auto
  then show ?thesis using False w by (auto simp: run_pass_two_def Let_def)
qed

definition sample_outcome :: "nat \<Rightarrow> (table_write_result \<times> shard) result" where
  "sample_outcome i = Inr (\<lparr>tw_index = i, tw_path = ''t.dbf'', tw_records_written = i\<rparr>, new_shard)"

theorem pass_two_workers_witness:
  "run_pass_two (\<lambda>_. Inr ()) sample_outcome (\<lambda>is. Inr (map (\<lambda>i. future_of (sample_outcome i)) is)) 2 3 new_spool
     = run_pass_two (\<lambda>_. Inr ()) sample_outcome (\<lambda>is. Inr (map (\<lambda>i. future_of (sample_outcome i)) is)) 1 3 new_spool"
proof -
  have "admissible_pool sample_outcome (\<lambda>is. Inr (map (\<lambda>i. future_of (sample_outcome i)) is))"
    by (auto simp: admissible_pool_def settled_batch_def list_all2_conv_all_nth sample_outcome_def)
  from pass_two_workers [OF this, of 2 "\<lambda>_. Inr ()" 3 new_spool] show ?thesis by (simp add: sample_outcome_def never_cancelled_def)
qed

end
