(* ===== verification/Numeric_Allocation.thy ===== *)
theory Numeric_Allocation
  imports Vault_Mappings
begin

text \<open>
  The numeric-key domain mapping of \<^verbatim>\<open>src/src/dbf_anonymizer/vault/numeric_allocation.py\<close>: an
  object that collects originals, freezes the domain and then allocates, reuses and recovers
  pseudonyms. Its fields extend the record of the vault connection it owns; the operating
  system's random source is a tape, read at the position \<open>nm_draws\<close>.
\<close>

section \<open>State\<close>

record numeric_mapping = vault +
  nm_domain_id :: string
  nm_domain :: numeric_key_domain
  nm_originals :: "int set"
  nm_finalized :: bool
  nm_used :: "int set"
  nm_persisted :: "int set"
  nm_draws :: nat

type_synonym 'a numeric_op = "numeric_mapping \<Rightarrow> 'a result \<times> numeric_mapping"

definition NUMERIC_KEY_PROBE_BUDGET :: nat where "NUMERIC_KEY_PROBE_BUDGET = 64"

definition new_numeric_mapping :: "vault \<Rightarrow> string \<Rightarrow> numeric_key_domain \<Rightarrow> numeric_mapping" where
  "new_numeric_mapping v domain_id key_domain =
     vault.extend v \<lparr>nm_domain_id = domain_id, nm_domain = key_domain, nm_originals = {}, nm_finalized = False,
       nm_used = {}, nm_persisted = {}, nm_draws = 0\<rparr>"

definition observed_originals :: "numeric_mapping \<Rightarrow> int list" where
  "observed_originals m = sorted_list_of_set (nm_originals m)"

section \<open>Collect\<close>

definition observe_original :: "int \<Rightarrow> numeric_key_member_range \<Rightarrow> unit numeric_op" where
  "observe_original original mem m =
     (if nm_finalized m then (Inl ValueError, m)
      else case classify_member_original mem original of
             OUT_OF_MEMBER_RANGE \<Rightarrow> (Inl ValueError, m)
           | RECOVERY_UNWRITABLE \<Rightarrow>
               (Inl (MappingError MAPPING_CONSTRAINT_INFEASIBLE ''NUMERIC_KEY_RECOVERY_UNWRITABLE''), m)
           | REVERSIBLE \<Rightarrow> (Inr (), m\<lparr>nm_originals := insert original (nm_originals m)\<rparr>))"

section \<open>Finalize\<close>

definition ensure_domain :: "unit numeric_op" where
  "ensure_domain m =
     bindV (has_domain (nm_domain_id m)) (\<lambda>present.
       if present then retV ()
       else with_transaction (bindV (has_domain (nm_domain_id m)) (\<lambda>present.
         if present then retV ()
         else bindV (create_domain KIND_NUMERIC_KEY None None (Some (nm_domain_id m)) [])
                (\<lambda>_. retV ())))) m"

definition domain_kind_conflict :: error where
  "domain_kind_conflict = mapping_conflict ''NUMERIC_KEY_DOMAIN_KIND_CONFLICT''"

definition validate_domain_kind :: "unit numeric_op" where
  "validate_domain_kind m =
     bindV mapping_domains (\<lambda>rows.
       case find (\<lambda>r. dr_id r = nm_domain_id m) rows of
         None \<Rightarrow> failV domain_kind_conflict
       | Some r \<Rightarrow> guardV (dr_kind r = KIND_NUMERIC_KEY) domain_kind_conflict) m"

definition mapping_corrupt :: error where
  "mapping_corrupt = mapping_conflict ''NUMERIC_MAPPING_CORRUPT''"

definition in_original_ranges :: "numeric_key_domain \<Rightarrow> int \<Rightarrow> bool" where
  "in_original_ranges key_domain value \<longleftrightarrow> list_ex (\<lambda>(low, high). low \<le> value \<and> value \<le> high) (member_original_ranges key_domain)"

definition parse_original :: "numeric_key_domain \<Rightarrow> pystr \<Rightarrow> int result" where
  "parse_original key_domain t =
     (case parse_canonical_integer_text (VStr t) of
        Inl _ \<Rightarrow> Inl mapping_corrupt
      | Inr value \<Rightarrow> if in_original_ranges key_domain value then Inr value else Inl mapping_corrupt)"

definition parse_pseudonym :: "numeric_key_domain \<Rightarrow> pystr \<Rightarrow> int result" where
  "parse_pseudonym key_domain t =
     (case parse_canonical_integer_text (VStr t) of
        Inl _ \<Rightarrow> Inl mapping_corrupt
      | Inr value \<Rightarrow> if contains_pseudonym key_domain value then Inr value else Inl mapping_corrupt)"

text \<open>The loop shared by \<open>_load_and_validate_persisted\<close> and \<open>_sync_used\<close>.\<close>

fun sync_rows :: "(pystr \<times> pystr) list \<Rightarrow> unit numeric_op" where
  "sync_rows [] m = (Inr (), m)"
| "sync_rows ((original_text, pseudonym_text) # rows) m =
     (case parse_original (nm_domain m) original_text of
        Inl e \<Rightarrow> (Inl e, m)
      | Inr original \<Rightarrow>
          (case parse_pseudonym (nm_domain m) pseudonym_text of
             Inl e \<Rightarrow> (Inl e, m)
           | Inr pseudonym \<Rightarrow>
               if pseudonym = original
               then (Inl (mapping_conflict ''NUMERIC_KEY_PERSISTED_SELF_MAPPING''), m)
               else sync_rows rows
                 (m\<lparr>nm_used := insert pseudonym (nm_used m),
                    nm_persisted := insert original (nm_persisted m)\<rparr>)))"

definition load_and_validate_persisted :: "unit numeric_op" where
  "load_and_validate_persisted m = bindV (numeric_mapping_rows (nm_domain_id m)) sync_rows m"

definition no_completion :: error where
  "no_completion = MappingError MAPPING_CAPACITY_EXHAUSTED ''NUMERIC_KEY_NO_COMPLETION''"

definition prove_completion :: "unit numeric_op" where
  "prove_completion m =
     (let unpersisted = filter (\<lambda>value. value \<notin> nm_persisted m) (sorted_list_of_set (nm_originals m))
      in case plan_numeric_bijection (nm_domain m) unpersisted (sorted_list_of_set (nm_used m)) of
           Inl e \<Rightarrow> (Inl e, m)
         | Inr ok \<Rightarrow> if ok then (Inr (), m\<lparr>nm_finalized := True\<rparr>) else (Inl no_completion, m))"

definition finalize_numeric :: "unit numeric_op" where
  "finalize_numeric m =
     (if nm_finalized m then (Inl ValueError, m)
      else bindV ensure_domain (\<lambda>_.
           bindV validate_domain_kind (\<lambda>_.
           bindV load_and_validate_persisted (\<lambda>_. prove_completion))) m)"

section \<open>Candidate selection\<close>

definition unallocated_originals :: "numeric_mapping \<Rightarrow> int \<Rightarrow> int list" where
  "unallocated_originals m original =
     filter (\<lambda>value. value \<notin> nm_persisted m \<and> value \<noteq> original) (sorted_list_of_set (nm_originals m))"

definition residual_feasible :: "numeric_mapping \<Rightarrow> int \<Rightarrow> int list \<Rightarrow> int \<Rightarrow> bool result" where
  "residual_feasible m candidate occupied original =
     plan_numeric_bijection (nm_domain m) (unallocated_originals m original) (occupied @ [candidate])"

text \<open>Phase R: bounded random probes. \<open>None\<close> is the end of the budget.\<close>

fun probe_phase :: "tape \<Rightarrow> nat \<Rightarrow> int list \<Rightarrow> int list \<Rightarrow> int \<Rightarrow> int \<Rightarrow> int option numeric_op" where
  "probe_phase t 0 occupied blocked free original m = (Inr None, m)"
| "probe_phase t (Suc budget) occupied blocked free original m =
     (let m' = m\<lparr>nm_draws := Suc (nm_draws m)\<rparr>
      in case jth_free_token (nm_domain m) blocked (randbelow t (nm_draws m) free) of
           Inl e \<Rightarrow> (Inl e, m')
         | Inr candidate \<Rightarrow>
             (case residual_feasible m candidate occupied original of
                Inl e \<Rightarrow> (Inl e, m')
              | Inr ok \<Rightarrow>
                  if ok then (Inr (Some candidate), m')
                  else probe_phase t budget occupied blocked free original m'))"

text \<open>Phase E: the ascending walk over the free selectable tokens.\<close>

fun exact_walk :: "nat list \<Rightarrow> int list \<Rightarrow> int list \<Rightarrow> int \<Rightarrow> numeric_mapping \<Rightarrow> int option result" where
  "exact_walk [] occupied blocked original m = Inr None"
| "exact_walk (index # rest) occupied blocked original m =
     bindE (jth_free_token (nm_domain m) blocked (int index)) (\<lambda>candidate.
     bindE (residual_feasible m candidate occupied original) (\<lambda>ok.
       if ok then Inr (Some candidate) else exact_walk rest occupied blocked original m))"

definition select_candidate :: "tape \<Rightarrow> int \<Rightarrow> int numeric_op" where
  "select_candidate t original m =
     (let occupied = sorted_list_of_set (nm_used m);
          blocked = sorted_list_of_set
            (set occupied \<union> (if contains_pseudonym (nm_domain m) original then {original} else {}));
          free = free_token_count (nm_domain m) blocked
      in if free < 1
         then (Inl (MappingError MAPPING_CAPACITY_EXHAUSTED ''NUMERIC_KEY_DOMAIN_EXHAUSTED''), m)
         else bindV (probe_phase t NUMERIC_KEY_PROBE_BUDGET occupied blocked free original) (\<lambda>found m'.
                case found of
                  Some candidate \<Rightarrow> (Inr candidate, m')
                | None \<Rightarrow>
                    (let walk_limit = min (nat free) (card (nm_originals m') + 2)
                     in case exact_walk [0..<walk_limit] occupied blocked original m' of
                          Inl e \<Rightarrow> (Inl e, m')
                        | Inr (Some candidate) \<Rightarrow> (Inr candidate, m')
                        | Inr None \<Rightarrow> (Inl no_completion, m'))) m)"

section \<open>Allocate, reuse and recover\<close>

text \<open>A stored pseudonym is revalidated before it is reused.\<close>

definition reuse_value :: "numeric_key_domain \<Rightarrow> int \<Rightarrow> pystr \<Rightarrow> int result" where
  "reuse_value key_domain original existing =
     bindE (parse_pseudonym key_domain existing) (\<lambda>value.
       if value = original then Inl (mapping_conflict ''NUMERIC_KEY_REUSED_SELF_MAPPING'') else Inr value)"

text \<open>The body of the allocation unit: the flag tells a fresh row from one found under the lock.\<close>

definition allocate_body :: "tape \<Rightarrow> int \<Rightarrow> (int \<times> bool) numeric_op" where
  "allocate_body t original m =
     bindV load_and_validate_persisted (\<lambda>_.
     bindV (get_numeric_pseudonym (nm_domain_id m) (int_text original)) (\<lambda>fresh.
       case fresh of
         Some existing \<Rightarrow>
           bindV (liftV (reuse_value (nm_domain m) original existing)) (\<lambda>value. retV (value, False))
       | None \<Rightarrow>
           bindV (select_candidate t original) (\<lambda>candidate.
           bindV (add_numeric_key_mapping (nm_domain_id m) (int_text original) (int_text candidate)) (\<lambda>_.
             retV (candidate, True))))) m"

definition allocate_numeric :: "tape \<Rightarrow> int \<Rightarrow> int numeric_op" where
  "allocate_numeric t original m =
     bindV (with_transaction (allocate_body t original)) (\<lambda>(candidate, is_fresh) m'.
       if is_fresh then
         (Inr candidate,
          m'\<lparr>nm_used := insert candidate (nm_used m'),
             nm_persisted := insert original (nm_persisted m'),
             nm_originals := insert original (nm_originals m')\<rparr>)
       else (Inr candidate, m')) m"

definition pseudonym_for :: "tape \<Rightarrow> int \<Rightarrow> int numeric_op" where
  "pseudonym_for t original m =
     (if \<not> nm_finalized m then (Inl (mapping_conflict ''NUMERIC_KEY_NOT_FINALIZED''), m)
      else if \<not> in_original_ranges (nm_domain m) original
      then (Inl (MappingError MAPPING_CONSTRAINT_INFEASIBLE ''NUMERIC_KEY_RANGE_INFEASIBLE''), m)
      else if original \<notin> nm_originals m
      then (Inl (MappingError MAPPING_CONSTRAINT_INFEASIBLE ''NUMERIC_KEY_ORIGINAL_UNOBSERVED''), m)
      else bindV (get_numeric_pseudonym (nm_domain_id m) (int_text original)) (\<lambda>existing.
             case existing of
               Some text \<Rightarrow> liftV (reuse_value (nm_domain m) original text)
             | None \<Rightarrow> allocate_numeric t original) m)"

definition original_for :: "int \<Rightarrow> int option numeric_op" where
  "original_for pseudonym m =
     bindV (get_numeric_original (nm_domain_id m) (int_text pseudonym)) (\<lambda>found.
       case found of
         None \<Rightarrow> retV None
       | Some text \<Rightarrow> bindV (liftV (parse_original (nm_domain m) text)) (\<lambda>value. retV (Some value))) m"

definition numeric_mapping_pairs :: "(int \<times> int) list numeric_op" where
  "numeric_mapping_pairs m =
     bindV (numeric_mapping_rows (nm_domain_id m)) (\<lambda>rows.
       liftV (mapE (\<lambda>(x, y). bindE (parse_original (nm_domain m) x) (\<lambda>original.
         bindE (parse_pseudonym (nm_domain m) y) (\<lambda>pseudonym. Inr (original, pseudonym)))) rows)) m"

section \<open>The operations change the view and the object only\<close>

lemma sync_rows_view: "\<exists>db x. snd (sync_rows rows m) = with_view db x m"
  by (induction rows m rule: sync_rows.induct)
    (auto simp: view_iff simp del: working_self split: sum.splits)

lemma probe_phase_view: "\<exists>db x. snd (probe_phase t n occ bl fr orig m) = with_view db x m"
  by (induction t n occ bl fr orig m rule: probe_phase.induct)
    (auto simp: view_iff Let_def simp del: working_self split: sum.splits)

lemma body_ok_load [intro]: "body_ok load_and_validate_persisted"
proof -
  have "body_ok (bindV (numeric_mapping_rows d) sync_rows)" for d
    by (intro body_ok_bindV body_ok_recorders) (simp add: body_ok_def sync_rows_view)
  then show ?thesis by (simp add: body_ok_def load_and_validate_persisted_def)
qed

lemma body_ok_select [intro]: "body_ok (select_candidate t x)"
proof -
  have "body_ok (bindV (probe_phase t n occ bl fr x) (\<lambda>found m'.
                case found of
                  Some candidate \<Rightarrow> (Inr candidate, m')
                | None \<Rightarrow>
                    (let walk_limit = min (nat fr) (card (nm_originals m') + 2)
                     in case exact_walk [0..<walk_limit] occ bl x m' of
                          Inl e \<Rightarrow> (Inl e, m')
                        | Inr (Some candidate) \<Rightarrow> (Inr candidate, m')
                        | Inr None \<Rightarrow> (Inl no_completion, m'))))" for n occ bl fr
    by (intro body_ok_bindV) (auto simp: body_ok_def probe_phase_view Let_def split: option.splits sum.splits)
  then show ?thesis by (simp add: body_ok_def select_candidate_def Let_def)
qed

lemma body_ok_allocate [intro]: "body_ok (allocate_body t x)"
proof -
  have "body_ok (\<lambda>m. bindV load_and_validate_persisted (\<lambda>_.
     bindV (get_numeric_pseudonym d (int_text x)) (\<lambda>fresh.
       case fresh of
         Some existing \<Rightarrow> bindV (liftV (reuse_value kd x existing)) (\<lambda>value. retV (value, False))
       | None \<Rightarrow>
           bindV (select_candidate t x) (\<lambda>candidate.
           bindV (add_numeric_key_mapping d (int_text x) (int_text candidate)) (\<lambda>_.
             retV (candidate, True))))) m)" for d kd
    by (intro body_ok_bindV body_ok_load body_ok_recorders) (auto intro!: body_ok_bindV split: option.splits)
  then show ?thesis by (simp add: body_ok_def allocate_body_def)
qed

section \<open>Selection always finds a completable candidate\<close>

definition unallocated :: "numeric_mapping \<Rightarrow> int set" where
  "unallocated m = nm_originals m - nm_persisted m"

definition free_of :: "numeric_mapping \<Rightarrow> int set" where
  "free_of m = free_tokens (nm_domain m) (nm_used m)"

definition selection_ready :: "numeric_mapping \<Rightarrow> bool" where
  "selection_ready m \<longleftrightarrow> dom_low (nm_domain m) \<le> dom_high (nm_domain m)
     \<and> finite (nm_originals m) \<and> finite (nm_used m)"

lemma free_tokens_insert: "free_tokens d (insert c s) = free_tokens d s - {c}"
  by (auto simp: free_tokens_def)

lemma finite_free_of [simp]: "finite (free_of m)"
  by (simp add: free_of_def)

lemma residual_feasible_eq:
  assumes "selection_ready m"
  shows "residual_feasible m c (sorted_list_of_set (nm_used m)) x
    = Inr (feasible (free_of m - {c}) (unallocated m - {x}))"
proof -
  have "set (unallocated_originals m x) = unallocated m - {x}"
    using assms by (auto simp: unallocated_originals_def unallocated_def selection_ready_def)
  moreover have "set (sorted_list_of_set (nm_used m) @ [c]) = insert c (nm_used m)"
    using assms by (auto simp: selection_ready_def)
  moreover have "distinct (unallocated_originals m x)"
    by (simp add: unallocated_originals_def)
  ultimately show ?thesis
    using assms
    by (simp add: residual_feasible_def plan_numeric_bijection_feasible selection_ready_def
        free_tokens_insert free_of_def del: set_append)
qed

lemma probe_phase_spec:
  assumes "selection_ready m" and "occ = sorted_list_of_set (nm_used m)"
    and "fr = int (card (free_tokens (nm_domain m) (set bl)))" and "1 \<le> fr"
  shows "\<exists>k r. probe_phase t n occ bl fr x m = (Inr r, m\<lparr>nm_draws := k\<rparr>)
    \<and> (case r of None \<Rightarrow> True
       | Some c \<Rightarrow> c \<in> free_tokens (nm_domain m) (set bl) \<and> feasible (free_of m - {c}) (unallocated m - {x}))"
  using assms
proof (induction n arbitrary: m)
  case 0
  then show ?case by (auto intro!: exI [of _ "nm_draws m"])
next
  case (Suc n)
  let ?m = "m\<lparr>nm_draws := Suc (nm_draws m)\<rparr>"
  have "0 \<le> randbelow t (nm_draws m) fr" "randbelow t (nm_draws m) fr < fr"
    using Suc.prems(4) by (auto simp: randbelow_def)
  then obtain c where c: "jth_free_token (nm_domain m) bl (randbelow t (nm_draws m) fr) = Inr c"
    using jth_free_token_defined Suc.prems(3) by blast
  have same: "free_of ?m = free_of m" "unallocated ?m = unallocated m" "nm_domain ?m = nm_domain m"
    "nm_used ?m = nm_used m"
    by (simp_all add: free_of_def unallocated_def)
  have ready: "selection_ready ?m" using Suc.prems(1) by (simp add: selection_ready_def)
  show ?case
  proof (cases "feasible (free_of m - {c}) (unallocated m - {x})")
    case True
    then show ?thesis
      using c jth_free_token_spec(1) [OF c] residual_feasible_eq [OF Suc.prems(1)] Suc.prems(2)
      by (intro exI [of _ "Suc (nm_draws m)"] exI [of _ "Some c"]) (simp add: Let_def)
  next
    case False
    then have "probe_phase t (Suc n) occ bl fr x m = probe_phase t n occ bl fr x ?m"
      using c residual_feasible_eq [OF Suc.prems(1)] Suc.prems(2) by (simp add: Let_def)
    moreover obtain k r where "probe_phase t n occ bl fr x ?m = (Inr r, ?m\<lparr>nm_draws := k\<rparr>)"
      "case r of None \<Rightarrow> True
       | Some c \<Rightarrow> c \<in> free_tokens (nm_domain m) (set bl) \<and> feasible (free_of m - {c}) (unallocated m - {x})"
      using Suc.IH [OF ready] Suc.prems unfolding same by blast
    ultimately show ?thesis by (intro exI [of _ k] exI [of _ r]) simp
  qed
qed

lemma exact_walk_spec:
  assumes "selection_ready m" and "occ = sorted_list_of_set (nm_used m)"
    and "\<forall>i\<in>set is. int i < int (card (free_tokens (nm_domain m) (set bl)))"
    and "\<exists>i\<in>set is. \<exists>c. jth_free_token (nm_domain m) bl (int i) = Inr c
           \<and> feasible (free_of m - {c}) (unallocated m - {x})"
  shows "\<exists>c. exact_walk is occ bl x m = Inr (Some c) \<and> c \<in> free_tokens (nm_domain m) (set bl)
    \<and> feasible (free_of m - {c}) (unallocated m - {x})"
  using assms(3,4)
proof (induction "is")
  case Nil
  then show ?case by simp
next
  case (Cons i "is")
  obtain c where c: "jth_free_token (nm_domain m) bl (int i) = Inr c"
    using jth_free_token_defined [of "int i" "nm_domain m" bl] Cons.prems(1) by auto
  show ?case
  proof (cases "feasible (free_of m - {c}) (unallocated m - {x})")
    case True
    then show ?thesis
      using c jth_free_token_spec(1) [OF c] residual_feasible_eq [OF assms(1)] assms(2) by simp
  next
    case False
    then show ?thesis
      using Cons c residual_feasible_eq [OF assms(1)] assms(2) by auto
  qed
qed

text \<open>The walk limit reaches a completable token: either every token is one, or at most two are free.\<close>

lemma walk_reaches:
  assumes "feasible (free_of m) (unallocated m)" and "selection_ready m" and "x \<in> unallocated m"
    and "free_tokens (nm_domain m) (set bl) = free_of m - {x}"
  shows "\<exists>i < min (card (free_of m - {x})) (card (nm_originals m) + 2). \<exists>c.
    jth_free_token (nm_domain m) bl (int i) = Inr c \<and> feasible (free_of m - {c}) (unallocated m - {x})"
proof -
  let ?F = "free_of m" and ?U = "unallocated m"
  have fU: "finite ?U" using assms(2) by (simp add: selection_ready_def unallocated_def)
  have pos: "0 < card (?F - {x})"
    using assms(1,3) by (auto simp: feasible_def card_gt_0_iff)
  show ?thesis
  proof (cases "card ?U = 1 \<or> 3 \<le> card ?F")
    case True
    obtain c where c: "jth_free_token (nm_domain m) bl 0 = Inr c"
      using jth_free_token_defined [of 0 "nm_domain m" bl] pos assms(4) by auto
    then have "c \<in> ?F - {x}" using jth_free_token_spec(1) assms(4) by blast
    then have "feasible (?F - {c}) (?U - {x})"
      using feasible_remove_easy [OF assms(1) _ assms(3) fU] True by simp
    then show ?thesis using c pos by (intro exI [of _ 0]) auto
  next
    case False
    obtain c where c: "c \<in> ?F - {x}" "feasible (?F - {c}) (?U - {x})"
      using feasible_remove [OF assms(1) _ fU assms(3)] by auto
    let ?i = "card {y \<in> ?F - {x}. y < c}"
    have "{y \<in> ?F - {x}. y < c} \<subset> ?F - {x}" using c(1) by auto
    then have i: "?i < card (?F - {x})" by (intro psubset_card_mono) auto
    moreover have "card (?F - {x}) \<le> 2"
      using False card_Diff1_le [of ?F x] by linarith
    moreover have "jth_free_token (nm_domain m) bl (int ?i) = Inr c"
      using jth_free_token_surj [of c "nm_domain m" bl] c(1) assms(4) by simp
    ultimately show ?thesis using c(2) by (intro exI [of _ ?i]) auto
  qed
qed

lemma select_candidate_spec:
  assumes "feasible (free_of m) (unallocated m)" and "selection_ready m" and "x \<in> unallocated m"
  shows "\<exists>c k. select_candidate t x m = (Inr c, m\<lparr>nm_draws := k\<rparr>)
    \<and> c \<in> free_of m - {x} \<and> feasible (free_of m - {c}) (unallocated m - {x})"
proof -
  define occ where "occ = sorted_list_of_set (nm_used m)"
  define bl where "bl = sorted_list_of_set
    (set occ \<union> (if contains_pseudonym (nm_domain m) x then {x} else {}))"
  define fr where "fr = free_token_count (nm_domain m) bl"
  have bl: "free_tokens (nm_domain m) (set bl) = free_of m - {x}"
    using assms(2) by (auto simp: bl_def occ_def free_of_def free_tokens_def selection_ready_def
        contains_pseudonym_def)
  have fr: "fr = int (card (free_tokens (nm_domain m) (set bl)))"
    using assms(2) by (simp add: fr_def free_token_count_card selection_ready_def)
  have "free_of m - {x} \<noteq> {}" using assms(1,3) by (auto simp: feasible_def)
  then have pos: "1 \<le> fr" using fr bl by (simp add: Suc_le_eq card_gt_0_iff)
  obtain k r where probe: "probe_phase t NUMERIC_KEY_PROBE_BUDGET occ bl fr x m = (Inr r, m\<lparr>nm_draws := k\<rparr>)"
    and r: "case r of None \<Rightarrow> True
       | Some c \<Rightarrow> c \<in> free_tokens (nm_domain m) (set bl) \<and> feasible (free_of m - {c}) (unallocated m - {x})"
    using probe_phase_spec [OF assms(2) occ_def fr pos] by blast
  show ?thesis
  proof (cases r)
    case (Some c)
    then show ?thesis using probe r pos bl
      by (intro exI [of _ c] exI [of _ k])
        (simp add: select_candidate_def Let_def flip: occ_def bl_def fr_def)
  next
    case None
    let ?m = "m\<lparr>nm_draws := k\<rparr>"
    have same: "selection_ready ?m" "free_of ?m = free_of m" "unallocated ?m = unallocated m"
      "occ = sorted_list_of_set (nm_used ?m)" "nm_domain ?m = nm_domain m"
      using assms(2) by (simp_all add: free_of_def unallocated_def selection_ready_def occ_def)
    obtain c where walk: "exact_walk [0..<min (nat fr) (card (nm_originals m) + 2)] occ bl x ?m = Inr (Some c)"
      and c: "c \<in> free_of m - {x}" "feasible (free_of m - {c}) (unallocated m - {x})"
      using exact_walk_spec [OF same(1,4), of "[0..<min (nat fr) (card (nm_originals m) + 2)]" bl x]
        walk_reaches [OF assms bl] fr bl unfolding same(2,3,5) by fastforce
    have "select_candidate t x m = (Inr c, ?m)"
      using probe None walk pos by (simp add: select_candidate_def Let_def flip: occ_def bl_def fr_def)
    with c show ?thesis by blast
  qed
qed

section \<open>The invariant of a finalized domain\<close>

definition pairs_of :: "string \<Rightarrow> database \<Rightarrow> (int \<times> int) list" where
  "pairs_of d db = map (\<lambda>(x, y). (int_of_text x, int_of_text y)) (numeric_assoc d db)"

abbreviation numeric_pairs :: "numeric_mapping \<Rightarrow> (int \<times> int) list" where
  "numeric_pairs m \<equiv> pairs_of (nm_domain_id m) (committed m)"

definition valid_pair :: "numeric_key_domain \<Rightarrow> int \<times> int \<Rightarrow> bool" where
  "valid_pair kd p \<longleftrightarrow> in_original_ranges kd (fst p) \<and> contains_pseudonym kd (snd p) \<and> fst p \<noteq> snd p"

definition numeric_inv :: "numeric_mapping \<Rightarrow> bool" where
  "numeric_inv m \<longleftrightarrow> healthy m \<and> validate_token (nm_domain_id m) = Inr (nm_domain_id m)
     \<and> numeric_domain_ok (nm_domain_id m) (committed m) \<and> nm_finalized m \<and> selection_ready m
     \<and> (\<forall>p\<in>set (numeric_pairs m). valid_pair (nm_domain m) p)
     \<and> nm_used m = snd ` set (numeric_pairs m) \<and> nm_persisted m = fst ` set (numeric_pairs m)
     \<and> (\<forall>x\<in>nm_originals m. in_original_ranges (nm_domain m) x)
     \<and> feasible (free_of m) (unallocated m)"

definition decoded :: "(pystr \<times> pystr) list \<Rightarrow> (int \<times> int) set" where
  "decoded rows = (\<lambda>(x, y). (int_of_text x, int_of_text y)) ` set rows"

definition row_valid :: "numeric_key_domain \<Rightarrow> pystr \<times> pystr \<Rightarrow> bool" where
  "row_valid kd r \<longleftrightarrow> canonical_integer_match (fst r) \<and> canonical_integer_match (snd r)
     \<and> valid_pair kd (int_of_text (fst r), int_of_text (snd r))"

text \<open>The synchronisation loop accepts exactly the valid rows and adds all of them.\<close>

lemma sync_rows_iff:
  "sync_rows rows m = (Inr u, m') \<longleftrightarrow> (\<forall>r\<in>set rows. row_valid (nm_domain m) r)
     \<and> m' = m\<lparr>nm_used := snd ` decoded rows \<union> nm_used m,
              nm_persisted := fst ` decoded rows \<union> nm_persisted m\<rparr>"
proof (induction rows m rule: sync_rows.induct)
  case (1 m)
  then show ?case by (auto simp: decoded_def)
next
  case (2 x y rows m)
  show ?case
  proof (cases "row_valid (nm_domain m) (x, y)")
    case True
    let ?m = "m\<lparr>nm_used := insert (int_of_text y) (nm_used m),
                nm_persisted := insert (int_of_text x) (nm_persisted m)\<rparr>"
    have step: "sync_rows ((x, y) # rows) m = sync_rows rows ?m"
      using True by (auto simp: row_valid_def valid_pair_def parse_original_def parse_pseudonym_def)
    have "sync_rows rows ?m = (Inr u, m') \<longleftrightarrow> (\<forall>r\<in>set rows. row_valid (nm_domain ?m) r)
       \<and> m' = ?m\<lparr>nm_used := snd ` decoded rows \<union> nm_used ?m,
              nm_persisted := fst ` decoded rows \<union> nm_persisted ?m\<rparr>"
      using True by (intro 2) (auto simp: row_valid_def valid_pair_def parse_original_def parse_pseudonym_def)
    then show ?thesis using True unfolding step by (simp add: decoded_def)
  next
    case False
    then show ?thesis
      by (auto simp: row_valid_def valid_pair_def parse_original_def parse_pseudonym_def
          split: if_splits)
  qed
qed

lemma numeric_assoc_texts:
  assumes "numeric_domain_ok d db" and "(x, y) \<in> set (numeric_assoc d db)"
  shows "x = int_text (int_of_text x)" and "y = int_text (int_of_text y)"
  using numeric_table.assoc_keys [OF assms] by (simp_all add: int_text_of_match)

lemma pairs_of_iff:
  assumes "numeric_domain_ok d db"
  shows "(x, y) \<in> set (pairs_of d db) \<longleftrightarrow> (int_text x, int_text y) \<in> set (numeric_assoc d db)"
proof
  assume "(x, y) \<in> set (pairs_of d db)"
  then obtain a b where "(a, b) \<in> set (numeric_assoc d db)" "x = int_of_text a" "y = int_of_text b"
    by (auto simp: pairs_of_def)
  then show "(int_text x, int_text y) \<in> set (numeric_assoc d db)"
    using numeric_assoc_texts [OF assms] by metis
next
  assume "(int_text x, int_text y) \<in> set (numeric_assoc d db)"
  then show "(x, y) \<in> set (pairs_of d db)"
    unfolding pairs_of_def set_map image_iff
    by (rule rev_bexI) (simp add: int_of_int_text)
qed

lemma fst_pairs_of:
  assumes "numeric_domain_ok d db"
  shows "x \<in> fst ` set (pairs_of d db) \<longleftrightarrow> int_text x \<in> fst ` set (numeric_assoc d db)"
proof
  assume "x \<in> fst ` set (pairs_of d db)"
  then obtain y where "(x, y) \<in> set (pairs_of d db)" by auto
  then have "(int_text x, int_text y) \<in> set (numeric_assoc d db)" by (simp add: pairs_of_iff [OF assms])
  then show "int_text x \<in> fst ` set (numeric_assoc d db)" by (simp add: image_iff rev_bexI)
next
  assume "int_text x \<in> fst ` set (numeric_assoc d db)"
  then obtain b where "(int_text x, b) \<in> set (numeric_assoc d db)" by auto
  then have "(x, int_of_text b) \<in> set (pairs_of d db)"
    using pairs_of_iff [OF assms] numeric_assoc_texts(2) [OF assms] by metis
  then show "x \<in> fst ` set (pairs_of d db)" by (simp add: image_iff rev_bexI)
qed

lemma snd_pairs_of:
  assumes "numeric_domain_ok d db"
  shows "y \<in> snd ` set (pairs_of d db) \<longleftrightarrow> int_text y \<in> snd ` set (numeric_assoc d db)"
proof
  assume "y \<in> snd ` set (pairs_of d db)"
  then obtain x where "(x, y) \<in> set (pairs_of d db)" by auto
  then have "(int_text x, int_text y) \<in> set (numeric_assoc d db)" by (simp add: pairs_of_iff [OF assms])
  then show "int_text y \<in> snd ` set (numeric_assoc d db)" by (simp add: image_iff rev_bexI)
next
  assume "int_text y \<in> snd ` set (numeric_assoc d db)"
  then obtain a where "(a, int_text y) \<in> set (numeric_assoc d db)" by auto
  then have "(int_of_text a, y) \<in> set (pairs_of d db)"
    using pairs_of_iff [OF assms] numeric_assoc_texts(1) [OF assms] by metis
  then show "y \<in> snd ` set (pairs_of d db)" by (simp add: image_iff rev_bexI)
qed

lemma stored_pseudonym:
  assumes "numeric_domain_ok d db"
  shows "numeric_pseudonym_db db d (int_text x) = Inr None \<longleftrightarrow> x \<notin> fst ` set (pairs_of d db)"
    and "numeric_pseudonym_db db d (int_text x) = Inr (Some p) \<Longrightarrow>
      \<exists>y. p = int_text y \<and> (x, y) \<in> set (pairs_of d db)"
proof -
  show "numeric_pseudonym_db db d (int_text x) = Inr None \<longleftrightarrow> x \<notin> fst ` set (pairs_of d db)"
    using numeric_table.fwd_none [OF assms] fst_pairs_of [OF assms] by simp
  show "\<exists>y. p = int_text y \<and> (x, y) \<in> set (pairs_of d db)"
    if "numeric_pseudonym_db db d (int_text x) = Inr (Some p)"
    using that numeric_table.fwd_iff [OF assms] numeric_assoc_texts(2) [OF assms]
    by (metis pairs_of_iff [OF assms])
qed

lemma load_usable:
  assumes "usable m" and "numeric_domain_ok (nm_domain_id m) (working m)"
  shows "load_and_validate_persisted m = (Inr (), m') \<longleftrightarrow>
    (\<forall>p\<in>set (pairs_of (nm_domain_id m) (working m)). valid_pair (nm_domain m) p)
     \<and> m' = m\<lparr>nm_used := snd ` set (pairs_of (nm_domain_id m) (working m)) \<union> nm_used m,
              nm_persisted := fst ` set (pairs_of (nm_domain_id m) (working m)) \<union> nm_persisted m\<rparr>"
proof -
  obtain rs where rs: "numeric_rows_db (working m) (nm_domain_id m) = Inr rs"
    and "mset rs = mset (numeric_assoc (nm_domain_id m) (working m))"
    using numeric_rows_assoc [OF assms(2)] by blast
  then have set: "set rs = set (numeric_assoc (nm_domain_id m) (working m))"
    by (metis set_mset_mset)
  then have dec: "decoded rs = set (pairs_of (nm_domain_id m) (working m))"
    by (simp add: decoded_def pairs_of_def)
  have "load_and_validate_persisted m = sync_rows rs m"
    using assms(1) rs by (simp add: load_and_validate_persisted_def numeric_mapping_rows_def)
  moreover have "(\<forall>r\<in>set rs. row_valid (nm_domain m) r)
      \<longleftrightarrow> (\<forall>p\<in>set (pairs_of (nm_domain_id m) (working m)). valid_pair (nm_domain m) p)"
    using numeric_table.assoc_keys [OF assms(2)] by (auto simp: set row_valid_def pairs_of_def)
  ultimately show ?thesis by (simp add: sync_rows_iff dec)
qed

section \<open>Allocation preserves the invariant\<close>

lemma reuse_value_valid:
  "valid_pair kd (x, y) \<Longrightarrow> reuse_value kd x (int_text y) = Inr y"
  by (auto simp: reuse_value_def parse_pseudonym_def valid_pair_def int_text_match int_of_int_text)

lemma numeric_inv_reuse:
  assumes "numeric_inv m" and "x \<in> nm_persisted m"
  shows "\<exists>y. (x, y) \<in> set (numeric_pairs m)
    \<and> numeric_pseudonym_db (committed m) (nm_domain_id m) (int_text x) = Inr (Some (int_text y))
    \<and> reuse_value (nm_domain m) x (int_text y) = Inr y"
proof -
  have ok: "numeric_domain_ok (nm_domain_id m) (committed m)" using assms(1) by (simp add: numeric_inv_def)
  obtain y where y: "(x, y) \<in> set (numeric_pairs m)"
    using assms by (auto simp: numeric_inv_def)
  then have "numeric_pseudonym_db (committed m) (nm_domain_id m) (int_text x) = Inr (Some (int_text y))"
    using numeric_table.fwd_iff [OF ok] pairs_of_iff [OF ok] by simp
  moreover have "valid_pair (nm_domain m) (x, y)" using assms(1) y by (auto simp: numeric_inv_def)
  ultimately show ?thesis using y reuse_value_valid by blast
qed

lemma allocate_body_fresh:
  assumes inv: "numeric_inv m" and x: "x \<in> unallocated m"
  shows "\<exists>c k db'. allocate_body t x (txn_start True m)
        = (Inr (c, True), (txn_start True m)\<lparr>nm_draws := k, working := db'\<rparr>)
    \<and> c \<in> free_of m - {x} \<and> feasible (free_of m - {c}) (unallocated m - {x})
    \<and> numeric_domain_ok (nm_domain_id m) db'
    \<and> numeric_assoc (nm_domain_id m) db' = numeric_assoc (nm_domain_id m) (committed m) @ [(int_text x, int_text c)]
    \<and> writer_authority db' = writer_authority (committed m)"
proof -
  let ?v = "txn_start True m" and ?d = "nm_domain_id m"
  have m: "healthy m" "validate_token ?d = Inr ?d" "numeric_domain_ok ?d (committed m)" "selection_ready m"
    "feasible (free_of m) (unallocated m)" "nm_used m = snd ` set (numeric_pairs m)"
    "nm_persisted m = fst ` set (numeric_pairs m)" "\<forall>p\<in>set (numeric_pairs m). valid_pair (nm_domain m) p"
    using inv by (auto simp: numeric_inv_def)
  have w: "writable ?v" using m(1) by (rule healthy_txn_start)
  have v: "working ?v = committed m" "nm_domain_id ?v = ?d" "nm_domain ?v = nm_domain m"
    "nm_used ?v = nm_used m" "nm_persisted ?v = nm_persisted m" "free_of ?v = free_of m"
    "unallocated ?v = unallocated m" "selection_ready ?v = selection_ready m"
    by (simp_all add: txn_start_def free_of_def unallocated_def selection_ready_def)
  have load: "load_and_validate_persisted ?v = (Inr (), ?v)"
    using load_usable [of ?v ?v] w m by (simp add: v)
  have none: "numeric_pseudonym_db (committed m) ?d (int_text x) = Inr None"
    using stored_pseudonym(1) [OF m(3)] x m(7) by (simp add: unallocated_def)
  obtain c k where sel: "select_candidate t x ?v = (Inr c, ?v\<lparr>nm_draws := k\<rparr>)"
    and c: "c \<in> free_of m - {x}" "feasible (free_of m - {c}) (unallocated m - {x})"
    using select_candidate_spec [of ?v x t] m x unfolding v by blast
  have fresh: "int_text x \<notin> fst ` set (numeric_assoc ?d (committed m))"
    using none numeric_table.fwd_none [OF m(3)] by simp
  have "c \<notin> snd ` set (numeric_pairs m)" using c(1) m(6) by (auto simp: free_of_def free_tokens_def)
  then have "int_text c \<notin> snd ` set (numeric_assoc ?d (committed m))"
    using snd_pairs_of [OF m(3)] by simp
  then obtain db' where db': "insert_numeric (numeric_insert_row ?d (int_text x) (int_text c)) (committed m) = Some db'"
    "numeric_domain_ok ?d db'" "numeric_assoc ?d db' = numeric_assoc ?d (committed m) @ [(int_text x, int_text c)]"
    using numeric_table.ins_fresh [OF m(3) int_text_match int_text_match fresh] by blast
  have w': "writable (?v\<lparr>nm_draws := k\<rparr>)" using w by (simp add: writable_def usable_def)
  have "add_numeric_key_mapping ?d (int_text x) (int_text c) (?v\<lparr>nm_draws := k\<rparr>)
      = (Inr (), ?v\<lparr>nm_draws := k, working := db'\<rparr>)"
    using add_numeric_writable [OF w' m(2) int_text_match int_text_match] db'(1) by (simp add: v)
  then have "allocate_body t x ?v = (Inr (c, True), ?v\<lparr>nm_draws := k, working := db'\<rparr>)"
    using load sel none w
    by (simp add: allocate_body_def get_numeric_pseudonym_usable int_text_match v)
  moreover have "writer_authority db' = writer_authority (committed m)"
    using insert_numeric_frame [OF db'(1)] by auto
  ultimately show ?thesis using c db'(2,3) by blast
qed

text \<open>What one request may change: it extends the stored pairs and keeps the frozen problem.\<close>

definition extends_mapping :: "numeric_mapping \<Rightarrow> numeric_mapping \<Rightarrow> bool" where
  "extends_mapping m m' \<longleftrightarrow> numeric_inv m' \<and> nm_domain m' = nm_domain m \<and> nm_domain_id m' = nm_domain_id m
     \<and> nm_originals m' = nm_originals m \<and> set (numeric_pairs m) \<subseteq> set (numeric_pairs m')"

lemma allocate_numeric_spec:
  assumes inv: "numeric_inv m" and x: "x \<in> unallocated m"
  shows "\<exists>y m'. allocate_numeric t x m = (Inr y, m') \<and> extends_mapping m m' \<and> (x, y) \<in> set (numeric_pairs m')"
proof -
  let ?v = "txn_start True m" and ?d = "nm_domain_id m"
  obtain c k db' where body: "allocate_body t x ?v = (Inr (c, True), ?v\<lparr>nm_draws := k, working := db'\<rparr>)"
    and c: "c \<in> free_of m - {x}" "feasible (free_of m - {c}) (unallocated m - {x})"
    and db': "numeric_domain_ok ?d db'"
      "numeric_assoc ?d db' = numeric_assoc ?d (committed m) @ [(int_text x, int_text c)]"
      "writer_authority db' = writer_authority (committed m)"
    using allocate_body_fresh [OF assms] by blast
  have h: "healthy m" using inv by (simp add: numeric_inv_def)
  let ?w = "?v\<lparr>nm_draws := k, working := db', txn_active := False, committed := db'\<rparr>"
  let ?m = "?w\<lparr>nm_used := insert c (nm_used m), nm_persisted := insert x (nm_persisted m),
      nm_originals := insert x (nm_originals m)\<rparr>"
  have "with_transaction (allocate_body t x) m = (Inr (c, True), ?w)"
    using with_transaction_healthy [OF body_ok_allocate h body] by simp
  then have res: "allocate_numeric t x m = (Inr c, ?m)"
    by (simp add: allocate_numeric_def txn_start_def)
  have pairs: "numeric_pairs ?m = numeric_pairs m @ [(x, c)]"
    by (simp add: pairs_of_def txn_start_def db'(2) int_of_int_text)
  have xo: "x \<in> nm_originals m" using x by (simp add: unallocated_def)
  have free: "free_of ?m = free_of m - {c}" "unallocated ?m = unallocated m - {x}"
    using xo by (auto simp: free_of_def unallocated_def txn_start_def free_tokens_def)
  have "valid_pair (nm_domain m) (x, c)"
    using c(1) xo inv by (auto simp: valid_pair_def numeric_inv_def free_of_def free_tokens_def contains_pseudonym_def)
  moreover have "healthy ?m" using h db'(3)
    by (simp add: healthy_def authority_ok_def vault_idle_def txn_start_def)
  ultimately have "numeric_inv ?m"
    using inv c(2) db'(1) xo free pairs unfolding numeric_inv_def
    by (auto simp: txn_start_def selection_ready_def)
  then have "extends_mapping m ?m"
    using pairs xo by (auto simp: extends_mapping_def txn_start_def)
  moreover have "(x, c) \<in> set (numeric_pairs ?m)" unfolding pairs by simp
  ultimately show ?thesis using res by blast
qed

lemma extends_mapping_refl: "numeric_inv m \<Longrightarrow> extends_mapping m m"
  by (simp add: extends_mapping_def)

lemma extends_mapping_trans: "extends_mapping m m1 \<Longrightarrow> extends_mapping m1 m2 \<Longrightarrow> extends_mapping m m2"
  unfolding extends_mapping_def by (metis order_trans)

lemma pseudonym_for_spec:
  assumes "numeric_inv m" and "x \<in> nm_originals m"
  shows "\<exists>y m'. pseudonym_for t x m = (Inr y, m') \<and> extends_mapping m m' \<and> (x, y) \<in> set (numeric_pairs m')"
proof -
  have use: "usable m" "working m = committed m"
    using assms(1) healthy_usable by (auto simp: numeric_inv_def)
  have guards: "nm_finalized m" "in_original_ranges (nm_domain m) x"
    "numeric_domain_ok (nm_domain_id m) (committed m)" "nm_persisted m = fst ` set (numeric_pairs m)"
    using assms by (auto simp: numeric_inv_def)
  show ?thesis
  proof (cases "x \<in> nm_persisted m")
    case True
    then obtain y where "(x, y) \<in> set (numeric_pairs m)"
      "numeric_pseudonym_db (committed m) (nm_domain_id m) (int_text x) = Inr (Some (int_text y))"
      "reuse_value (nm_domain m) x (int_text y) = Inr y"
      using numeric_inv_reuse [OF assms(1)] by blast
    then show ?thesis
      using use guards assms extends_mapping_refl
      by (auto simp: pseudonym_for_def get_numeric_pseudonym_usable int_text_match)
  next
    case False
    then have "pseudonym_for t x m = allocate_numeric t x m"
      using use guards assms stored_pseudonym(1) [OF guards(3), of x]
      by (simp add: pseudonym_for_def get_numeric_pseudonym_usable int_text_match)
    then show ?thesis using allocate_numeric_spec [OF assms(1), of x t] False assms(2)
      by (simp add: unallocated_def)
  qed
qed

lemma original_for_iff:
  assumes "numeric_inv m"
  shows "map_of (map prod.swap (numeric_pairs m)) y = Some x \<longleftrightarrow> (x, y) \<in> set (numeric_pairs m)"
proof -
  let ?d = "nm_domain_id m"
  have ok: "numeric_domain_ok ?d (committed m)" using assms by (simp add: numeric_inv_def)
  have "distinct (map fst (map prod.swap (numeric_pairs m)))"
  proof -
    have "distinct (map snd (numeric_assoc ?d (committed m)))" using numeric_table.assoc_distinct [OF ok] by simp
    moreover have "inj_on int_of_text (snd ` set (numeric_assoc ?d (committed m)))"
      using numeric_assoc_texts(2) [OF ok] by (intro inj_onI) (metis imageE prod.collapse)
    ultimately show ?thesis by (simp add: pairs_of_def comp_def case_prod_unfold distinct_map inj_on_def)
  qed
  then show ?thesis by (auto simp: map_of_eq_Some_iff simp del: map_map)
qed

lemma original_for_spec:
  assumes "numeric_inv m"
  shows "original_for y m = (Inr (map_of (map prod.swap (numeric_pairs m)) y), m)"
proof -
  let ?d = "nm_domain_id m"
  have use: "usable m" "working m = committed m"
    using assms healthy_usable by (auto simp: numeric_inv_def)
  have ok: "numeric_domain_ok ?d (committed m)" using assms by (simp add: numeric_inv_def)
  note look = original_for_iff [OF assms, of y]
  show ?thesis
  proof (cases "numeric_original_db (committed m) ?d (int_text y)")
    case (Inl e)
    then show ?thesis using numeric_table.bwd_assoc [OF ok] by simp
  next
    case (Inr r)
    show ?thesis
    proof (cases r)
      case None
      then have "x \<notin> fst ` set (numeric_pairs m) \<or> (x, y) \<notin> set (numeric_pairs m)" for x
        using Inr numeric_table.bwd_iff [OF ok, of "int_text y"] pairs_of_iff [OF ok] by auto
      then have "map_of (map prod.swap (numeric_pairs m)) y = None"
        using look by (metis fst_conv image_eqI not_None_eq)
      then show ?thesis using use Inr None
        by (simp add: original_for_def get_numeric_original_usable int_text_match)
    next
      case (Some a)
      then have a: "(a, int_text y) \<in> set (numeric_assoc ?d (committed m))"
        using Inr numeric_table.bwd_iff [OF ok] by simp
      then have t: "a = int_text (int_of_text a)" using numeric_assoc_texts(1) [OF ok] by blast
      then have p: "(int_of_text a, y) \<in> set (numeric_pairs m)" using a pairs_of_iff [OF ok] by metis
      then have "in_original_ranges (nm_domain m) (int_of_text a)"
        using assms by (auto simp: numeric_inv_def valid_pair_def)
      then have "parse_original (nm_domain m) a = Inr (int_of_text a)"
        using numeric_table.assoc_keys [OF ok a] by (simp add: parse_original_def)
      then show ?thesis using use Inr Some look [THEN iffD2, OF p]
        by (simp add: original_for_def get_numeric_original_usable int_text_match)
    qed
  qed
qed

section \<open>Finalization establishes the invariant\<close>

text \<open>
  The schema's promise about the table: both sides are unique per domain, and the foreign key
  leaves no row without its domain.
\<close>

definition numeric_schema :: "string \<Rightarrow> database \<Rightarrow> bool" where
  "numeric_schema d db \<longleftrightarrow> distinct (map nr_original (numeric_rows_of d db))
     \<and> distinct (map nr_pseudonym (numeric_rows_of d db))
     \<and> (\<not> has_domain_db db d \<longrightarrow> numeric_rows_of d db = [])"

definition collecting :: "numeric_mapping \<Rightarrow> bool" where
  "collecting m \<longleftrightarrow> healthy m \<and> validate_token (nm_domain_id m) = Inr (nm_domain_id m)
     \<and> selection_ready m \<and> \<not> nm_finalized m \<and> nm_used m = {} \<and> nm_persisted m = {}
     \<and> (\<forall>x\<in>nm_originals m. in_original_ranges (nm_domain m) x)
     \<and> numeric_schema (nm_domain_id m) (committed m)"

lemma numeric_rows_db_sorted:
  "numeric_rows_db db d = mapE (\<lambda>r. bindE (numeric_cell (nr_original r)) (\<lambda>x.
       bindE (numeric_cell (nr_pseudonym r)) (\<lambda>y. Inr (x, y))))
     (sort_key (\<lambda>r. sql_order_key (nr_original r)) (numeric_rows_of d db))"
  by (simp add: numeric_rows_db_def numeric_rows_of_def)

lemma numeric_cell_Inr: "numeric_cell c = Inr s \<longleftrightarrow> c = SText s \<and> canonical_integer_match s"
  by (cases c) (auto simp: numeric_cell_def)

lemma inj_on_cell_text: "\<forall>c\<in>S. \<exists>s. c = SText s \<Longrightarrow> inj_on cell_text S"
  unfolding inj_on_def by (metis cell_text.simps(1))

lemma numeric_domain_ok_loaded:
  assumes "numeric_schema d db" and "has_domain_db db d" and "numeric_rows_db db d = Inr rs"
  shows "numeric_domain_ok d db"
proof -
  have rows: "\<forall>r\<in>set (numeric_rows_of d db). numeric_row_ok r"
    using mapE_Inr_each [OF assms(3) [unfolded numeric_rows_db_sorted]]
    by (fastforce simp: bindE_Inr_iff numeric_cell_Inr numeric_row_ok_def)
  have "map fst (numeric_assoc d db) = map cell_text (map nr_original (numeric_rows_of d db))"
    "map snd (numeric_assoc d db) = map cell_text (map nr_pseudonym (numeric_rows_of d db))"
    by (simp_all add: numeric_assoc_def)
  moreover have "inj_on cell_text (set (map nr_original (numeric_rows_of d db)))"
    "inj_on cell_text (set (map nr_pseudonym (numeric_rows_of d db)))"
    using rows by (auto simp: numeric_row_ok_def intro!: inj_on_cell_text)
  ultimately have "distinct (map fst (numeric_assoc d db)) \<and> distinct (map snd (numeric_assoc d db))"
    using assms(1) by (simp add: numeric_schema_def distinct_map del: map_map)
  then show ?thesis using rows assms(2) by (simp add: numeric_domain_ok_def)
qed

definition ensured :: "string \<Rightarrow> database \<Rightarrow> database" where
  "ensured d db =
     (if has_domain_db db d then db
      else db\<lparr>mapping_domains_tbl := mapping_domains_tbl db @
        [\<lparr>dr_id = d, dr_kind = KIND_NUMERIC_KEY, dr_normalization = None, dr_role = None\<rparr>]\<rparr>)"

lemma ensured_simps [simp]:
  "has_domain_db (ensured d db) d" "writer_authority (ensured d db) = writer_authority db"
  "numeric_rows_of d' (ensured d db) = numeric_rows_of d' db"
  "numeric_assoc d' (ensured d db) = numeric_assoc d' db"
  by (auto simp: ensured_def has_domain_db_def numeric_rows_of_def numeric_assoc_def)

lemma numeric_schema_ensured: "numeric_schema d db \<Longrightarrow> numeric_schema d (ensured d db)"
  by (simp add: numeric_schema_def)

lemma create_domain_writable:
  assumes "writable v" and "validate_token d = Inr d" and "\<not> has_domain_db (working v) d"
  shows "create_domain KIND_NUMERIC_KEY None None (Some d) h v = (Inr d, v\<lparr>working := ensured d (working v)\<rparr>)"
  using assms
  by (simp add: create_domain_def guardV_def validate_optional_token_def execute_insert_usable insert_domain_def
      ensured_def KIND_NUMERIC_KEY_def)

lemma ensure_domain_spec:
  assumes "healthy m" and "validate_token (nm_domain_id m) = Inr (nm_domain_id m)"
  shows "\<exists>m1. ensure_domain m = (Inr (), m1) \<and> healthy m1
    \<and> committed m1 = ensured (nm_domain_id m) (committed m) \<and> vault.more m1 = vault.more m"
proof (cases "has_domain_db (committed m) (nm_domain_id m)")
  case True
  then show ?thesis
    using assms healthy_usable [OF assms(1)]
    by (simp add: ensure_domain_def has_domain_usable ensured_def)
next
  case False
  let ?d = "nm_domain_id m" and ?v = "txn_start True m"
  let ?body = "bindV (has_domain ?d) (\<lambda>present. if present then retV () else
    bindV (create_domain KIND_NUMERIC_KEY None None (Some ?d) []) (\<lambda>_. retV ()))"
  let ?db = "ensured ?d (committed m)"
  have w: "writable ?v" "working ?v = committed m"
    using healthy_txn_start [OF assms(1)] by (simp_all add: txn_start_def)
  have ok: "body_ok ?body" by (intro body_ok_bindV body_ok_recorders) (auto intro!: body_ok_bindV)
  have body: "?body ?v = (Inr (), ?v\<lparr>working := ?db\<rparr>)"
    using w False assms(2) by (simp add: has_domain_usable create_domain_writable)
  have "with_transaction ?body m = (Inr (), ?v\<lparr>working := ?db, txn_active := False, committed := ?db\<rparr>)"
    using with_transaction_healthy [OF ok assms(1) body] by simp
  moreover have "healthy (?v\<lparr>working := ?db, txn_active := False, committed := ?db\<rparr>)"
    using healthy_commit [OF assms(1), of ?db "vault.more ?v"] by simp
  ultimately show ?thesis
    using False healthy_usable [OF assms(1)]
    by (simp add: ensure_domain_def has_domain_usable txn_start_def)
qed

text \<open>The kind recorded for a domain, as \<open>_validate_domain_kind\<close> reads it.\<close>

definition recorded_kind :: "database \<Rightarrow> string \<Rightarrow> string option" where
  "recorded_kind db d = map_option dr_kind (find (\<lambda>r. dr_id r = d) (sort_key dr_id (mapping_domains_tbl db)))"

lemma validate_domain_kind_spec:
  assumes "usable m"
  shows "validate_domain_kind m =
     ((if recorded_kind (working m) (nm_domain_id m) = Some KIND_NUMERIC_KEY then Inr () else Inl domain_kind_conflict), m)"
  using assms
  by (auto simp: validate_domain_kind_def mapping_domains_usable recorded_kind_def guardV_def
      split: option.splits)

lemma prove_completion_spec:
  assumes "selection_ready m"
  shows "prove_completion m =
     (if feasible (free_of m) (unallocated m) then (Inr (), m\<lparr>nm_finalized := True\<rparr>) else (Inl no_completion, m))"
proof -
  let ?us = "filter (\<lambda>v. v \<notin> nm_persisted m) (sorted_list_of_set (nm_originals m))"
  have "set ?us = unallocated m" "set (sorted_list_of_set (nm_used m)) = nm_used m" "distinct ?us"
    using assms by (auto simp: unallocated_def selection_ready_def)
  then have "plan_numeric_bijection (nm_domain m) ?us (sorted_list_of_set (nm_used m))
      = Inr (feasible (free_of m) (unallocated m))"
    using assms plan_numeric_bijection_feasible [of "nm_domain m" ?us "sorted_list_of_set (nm_used m)"]
    by (simp add: selection_ready_def free_of_def)
  then show ?thesis by (simp add: prove_completion_def Let_def)
qed

lemma load_Inr:
  assumes "usable m" and "load_and_validate_persisted m = (Inr u, m')"
  shows "\<exists>rs. numeric_rows_db (working m) (nm_domain_id m) = Inr rs"
  using assms
  by (auto simp: load_and_validate_persisted_def numeric_mapping_rows_def bindV_def split: prod.splits sum.splits)

text \<open>
  The outcome of \<open>finalize\<close> in a collecting object, stage by stage: the state before the completion
  proof, or the stage that refused.
\<close>

lemma finalize_stages:
  assumes "collecting m"
  obtains m1 where "healthy m1" "committed m1 = ensured (nm_domain_id m) (committed m)"
    "vault.more m1 = vault.more m"
    "finalize_numeric m = bindV validate_domain_kind (\<lambda>_. bindV load_and_validate_persisted (\<lambda>_. prove_completion)) m1"
proof -
  obtain m1 where "ensure_domain m = (Inr (), m1)" "healthy m1"
    "committed m1 = ensured (nm_domain_id m) (committed m)" "vault.more m1 = vault.more m"
    using ensure_domain_spec [of m] assms by (auto simp: collecting_def)
  moreover have "finalize_numeric m = bindV ensure_domain (\<lambda>_.
           bindV validate_domain_kind (\<lambda>_.
           bindV load_and_validate_persisted (\<lambda>_. prove_completion))) m"
    using assms by (simp add: finalize_numeric_def collecting_def)
  ultimately show thesis using that [of m1] by simp
qed

lemma more_fields:
  assumes "vault.more (m1 :: numeric_mapping) = vault.more m"
  shows "nm_domain_id m1 = nm_domain_id m" "nm_domain m1 = nm_domain m" "nm_originals m1 = nm_originals m"
    "nm_finalized m1 = nm_finalized m" "nm_used m1 = nm_used m" "nm_persisted m1 = nm_persisted m"
  using assms by (cases m; cases m1; simp)+

lemma finalize_Inr:
  assumes coll: "collecting m" and fin: "finalize_numeric m = (Inr u, m')"
  shows "numeric_inv m'" and "nm_domain m' = nm_domain m" and "nm_domain_id m' = nm_domain_id m"
    and "nm_originals m' = nm_originals m"
    and "numeric_assoc (nm_domain_id m) (committed m') = numeric_assoc (nm_domain_id m) (committed m)"
proof -
  let ?d = "nm_domain_id m"
  obtain m1 where m1: "healthy m1" "committed m1 = ensured ?d (committed m)" "vault.more m1 = vault.more m"
    and eq: "finalize_numeric m = bindV validate_domain_kind (\<lambda>_. bindV load_and_validate_persisted (\<lambda>_. prove_completion)) m1"
    using finalize_stages [OF coll] .
  note f = more_fields [OF m1(3)]
  have use: "usable m1" "working m1 = committed m1" using healthy_usable [OF m1(1)] by auto
  obtain m2 where load: "load_and_validate_persisted m1 = (Inr (), m2)" and prove: "prove_completion m2 = (Inr u, m')"
    using fin unfolding eq
    by (auto simp: validate_domain_kind_spec [OF use(1)] bindV_def split: prod.splits sum.splits if_splits)
  obtain rs where "numeric_rows_db (committed m1) ?d = Inr rs"
    using load_Inr [OF use(1) load] use(2) f(1) by auto
  then have ok: "numeric_domain_ok ?d (committed m1)"
    using numeric_domain_ok_loaded numeric_schema_ensured coll m1(2) ensured_simps(1)
    by (metis collecting_def)
  let ?P = "set (numeric_pairs m1)"
  have valid: "\<forall>p\<in>?P. valid_pair (nm_domain m1) p"
    and m2: "m2 = m1\<lparr>nm_used := snd ` ?P \<union> nm_used m1, nm_persisted := fst ` ?P \<union> nm_persisted m1\<rparr>"
    using load load_usable [of m1] use ok f(1) by simp_all
  have c: "nm_used m = {}" "nm_persisted m = {}" "selection_ready m"
    "validate_token ?d = Inr ?d" "\<forall>x\<in>nm_originals m. in_original_ranges (nm_domain m) x"
    using coll by (auto simp: collecting_def)
  have ready: "selection_ready m2" using c(3) by (simp add: m2 selection_ready_def f c(1))
  have m': "m' = m2\<lparr>nm_finalized := True\<rparr>" "feasible (free_of m2) (unallocated m2)"
    using prove prove_completion_spec [OF ready] by (auto split: if_splits)
  have h: "healthy m'" using m1(1)
    by (simp add: m' m2 healthy_def authority_ok_def vault_idle_def)
  have "free_of m' = free_of m2" "unallocated m' = unallocated m2" "selection_ready m'"
    using ready by (simp_all add: m'(1) free_of_def unallocated_def selection_ready_def)
  then show "numeric_inv m'"
    using h ok valid m'(2) c unfolding numeric_inv_def by (simp add: m'(1) m2 f)
  show "nm_domain m' = nm_domain m" "nm_domain_id m' = ?d" "nm_originals m' = nm_originals m"
    "numeric_assoc ?d (committed m') = numeric_assoc ?d (committed m)"
    using m1(2) by (simp_all add: m'(1) m2 f)
qed

lemma mapV_pseudonyms:
  assumes "numeric_inv m" and "set xs \<subseteq> nm_originals m"
  shows "\<exists>ys m'. mapV (pseudonym_for t) xs m = (Inr ys, m') \<and> extends_mapping m m'
    \<and> list_all2 (\<lambda>x y. (x, y) \<in> set (numeric_pairs m')) xs ys"
  using assms
proof (induction xs arbitrary: m)
  case Nil
  then show ?case using extends_mapping_refl by auto
next
  case (Cons x xs)
  obtain y m1 where 1: "pseudonym_for t x m = (Inr y, m1)" "extends_mapping m m1" "(x, y) \<in> set (numeric_pairs m1)"
    using pseudonym_for_spec Cons.prems by (metis list.set_intros(1) subsetD)
  then have "numeric_inv m1" "set xs \<subseteq> nm_originals m1" using Cons.prems by (auto simp: extends_mapping_def)
  then obtain ys m2 where 2: "mapV (pseudonym_for t) xs m1 = (Inr ys, m2)" "extends_mapping m1 m2"
    "list_all2 (\<lambda>x y. (x, y) \<in> set (numeric_pairs m2)) xs ys"
    using Cons.IH by blast
  have "(x, y) \<in> set (numeric_pairs m2)" using 1(3) 2(2) unfolding extends_mapping_def by (metis subsetD)
  then show ?case using 1 2 extends_mapping_trans [OF 1(2) 2(2)] by auto
qed

lemma numeric_pairs_functional:
  assumes "numeric_inv m" and "(x, y) \<in> set (numeric_pairs m)" and "(x', y') \<in> set (numeric_pairs m)"
  shows "x = x' \<longleftrightarrow> y = y'"
proof -
  have ok: "numeric_domain_ok (nm_domain_id m) (committed m)" using assms(1) by (simp add: numeric_inv_def)
  have "numeric_pseudonym_db (committed m) (nm_domain_id m) (int_text x) = Inr (Some (int_text y))"
    "numeric_pseudonym_db (committed m) (nm_domain_id m) (int_text x') = Inr (Some (int_text y'))"
    using assms(2,3) numeric_table.fwd_iff [OF ok] pairs_of_iff [OF ok] by simp_all
  then show ?thesis using numeric_table.injective [OF ok, of "int_text x" "int_text y'" "int_text x'"] by auto
qed

text \<open>A vault that holds the lease and one numeric domain with a persisted row, for the witnesses.\<close>

definition sample_database :: database where
  "sample_database =
     \<lparr>writer_authority = Some ''run-1'', acquire_tick = 1, operations_tbl = [], publication_tbl = [],
      mapping_domains_tbl = [\<lparr>dr_id = ''dom-1'', dr_kind = KIND_NUMERIC_KEY, dr_normalization = None, dr_role = None\<rparr>],
      tables_tbl = [], fields_tbl = [], text_mappings_tbl = [],
      numeric_key_mappings_tbl = [numeric_insert_row ''dom-1'' (int_text 3) (int_text 2)],
      memo_recovery_tbl = [], temporal_parameters_tbl = []\<rparr>"

definition sample_vault :: vault where
  "sample_vault =
     \<lparr>committed = sample_database, working = sample_database, txn_active = False, txn_authorized = False,
      read_only = False, writer_token = Some ''run-1'', poisoned = None, closed = False,
      begin_fails = False, commit_fails = False, rollback_fails = False\<rparr>"

definition sample_key_domain :: numeric_key_domain where
  "sample_key_domain =
     \<lparr>dom_low = 0, dom_high = 2,
      members = [\<lparr>original_low = 0, original_high = 9, pseudonym_low = 0, pseudonym_high = 2,
        readable_low = None, readable_high = None\<rparr>]\<rparr>"

definition sample_mapping :: numeric_mapping where
  "sample_mapping = (new_numeric_mapping sample_vault ''dom-1'' sample_key_domain)\<lparr>nm_originals := {0, 1, 3}\<rparr>"

lemmas sample_defs = sample_mapping_def sample_vault_def sample_database_def sample_key_domain_def
  new_numeric_mapping_def vault.defs

lemma sample_collecting: "collecting sample_mapping"
proof -
  have "validate_token ''dom-1'' = Inr ''dom-1''" by code_simp
  moreover have "healthy sample_mapping"
    by (simp add: sample_defs healthy_def authority_ok_def vault_idle_def)
  moreover have "numeric_schema ''dom-1'' sample_database" by code_simp
  ultimately show ?thesis
    by (auto simp: collecting_def selection_ready_def in_original_ranges_def member_original_ranges_def sample_defs)
qed

lemma sample_domain_ok: "numeric_domain_ok ''dom-1'' sample_database"
proof -
  have "has_domain_db sample_database ''dom-1''" by code_simp
  then show ?thesis
    by (auto simp: numeric_domain_ok_def numeric_rows_of_def numeric_assoc_def sample_database_def
        numeric_insert_row_def numeric_row_ok_def int_text_match)
qed

text \<open>
  C10. A successful \<open>finalize\<close> means every allocation order can complete. Whatever the random
  source returns and in whatever order (with repetitions) the observed originals are requested,
  each request of \<open>pseudonym_for\<close> succeeds: no capacity or conflict error can follow. The results
  lie in the key domain, never equal their original, are equal exactly for equal originals, and
  \<open>original_for\<close> recovers each of them from the final vault.
\<close>

theorem every_order_completes:
  assumes "collecting m" and "finalize_numeric m = (Inr (), m0)" and "set xs \<subseteq> nm_originals m"
  shows "\<exists>ys m'. mapV (pseudonym_for t) xs m0 = (Inr ys, m') \<and> length ys = length xs
    \<and> (\<forall>i<length xs. contains_pseudonym (nm_domain m) (ys ! i) \<and> ys ! i \<noteq> xs ! i
         \<and> original_for (ys ! i) m' = (Inr (Some (xs ! i)), m'))
    \<and> (\<forall>i<length xs. \<forall>j<length xs. ys ! i = ys ! j \<longleftrightarrow> xs ! i = xs ! j)"
proof -
  note fin = finalize_Inr [OF assms(1,2)]
  obtain ys m' where ys: "mapV (pseudonym_for t) xs m0 = (Inr ys, m')" "extends_mapping m0 m'"
    "list_all2 (\<lambda>x y. (x, y) \<in> set (numeric_pairs m')) xs ys"
    using mapV_pseudonyms [OF fin(1)] assms(3) fin(4) by metis
  have inv: "numeric_inv m'" and kd: "nm_domain m' = nm_domain m"
    using ys(2) fin(2) by (auto simp: extends_mapping_def)
  have p: "(xs ! i, ys ! i) \<in> set (numeric_pairs m')" if "i < length xs" for i
    using ys(3) that by (simp add: list_all2_conv_all_nth)
  have "valid_pair (nm_domain m) (xs ! i, ys ! i)" if "i < length xs" for i
    using inv p [OF that] kd by (auto simp: numeric_inv_def)
  moreover have "original_for (ys ! i) m' = (Inr (Some (xs ! i)), m')" if "i < length xs" for i
    using original_for_spec [OF inv] original_for_iff [OF inv] p [OF that] by simp
  ultimately show ?thesis
    using ys p numeric_pairs_functional [OF inv] list_all2_lengthD [OF ys(3)]
    by (intro exI [of _ ys] exI [of _ m']) (simp add: valid_pair_def, metis)
qed

theorem every_order_completes_witness:
  "\<exists>ys m'. mapV (pseudonym_for (\<lambda>_. 0)) [1, 3, 0, 1] (snd (finalize_numeric sample_mapping)) = (Inr ys, m')
    \<and> length ys = 4 \<and> ys ! 0 = ys ! 3 \<and> ys ! 0 \<noteq> ys ! 2 \<and> original_for (ys ! 1) m' = (Inr (Some 3), m')"
proof -
  have "fst (finalize_numeric sample_mapping) = Inr ()" by code_simp
  then have "finalize_numeric sample_mapping = (Inr (), snd (finalize_numeric sample_mapping))"
    by (metis prod.collapse)
  moreover have "set [1, 3, 0, 1] \<subseteq> nm_originals sample_mapping" by (simp add: sample_defs)
  ultimately obtain ys m' where r: "mapV (pseudonym_for (\<lambda>_. 0)) [1, 3, 0, 1] (snd (finalize_numeric sample_mapping)) = (Inr ys, m')"
    "length ys = length [1, 3, 0, 1 :: int]"
    "\<forall>i<length [1, 3, 0, 1 :: int]. contains_pseudonym (nm_domain sample_mapping) (ys ! i) \<and> ys ! i \<noteq> [1, 3, 0, 1] ! i
         \<and> original_for (ys ! i) m' = (Inr (Some ([1, 3, 0, 1] ! i)), m')"
    "\<forall>i<length [1, 3, 0, 1 :: int]. \<forall>j<length [1, 3, 0, 1 :: int]. ys ! i = ys ! j \<longleftrightarrow> [1, 3, 0, 1 :: int] ! i = [1, 3, 0, 1] ! j"
    using every_order_completes [OF sample_collecting] by blast
  have "original_for (ys ! 1) m' = (Inr (Some 3), m')" using r(3) [rule_format, of 1] by simp
  moreover have "ys ! 0 = ys ! 3" "ys ! 0 \<noteq> ys ! 2"
    using r(4) [rule_format, of 0 3] r(4) [rule_format, of 0 2] by simp_all
  ultimately show ?thesis using r(1,2) by auto
qed

text \<open>
  C13. \<open>finalize\<close> refuses exactly the unsolvable problems: on a domain whose persisted rows are
  valid it succeeds if and only if the still unpersisted originals have an injective assignment to
  free tokens of the key domain in which nothing maps to itself, and otherwise it fails with
  \<open>NUMERIC_KEY_NO_COMPLETION\<close>.
\<close>

theorem finalize_exact:
  assumes "collecting m" and "numeric_domain_ok (nm_domain_id m) (committed m)"
    and "recorded_kind (committed m) (nm_domain_id m) = Some KIND_NUMERIC_KEY"
    and "\<forall>p\<in>set (numeric_pairs m). valid_pair (nm_domain m) p"
  shows "fst (finalize_numeric m) =
     (if \<exists>f. is_assignment (free_tokens (nm_domain m) (snd ` set (numeric_pairs m)))
               (nm_originals m - fst ` set (numeric_pairs m)) f
      then Inr () else Inl no_completion)"
proof -
  let ?d = "nm_domain_id m" and ?P = "set (numeric_pairs m)"
  have has: "has_domain_db (committed m) ?d" using assms(2) by (simp add: numeric_domain_ok_def)
  obtain m1 where m1: "healthy m1" "committed m1 = ensured ?d (committed m)" "vault.more m1 = vault.more m"
    and eq: "finalize_numeric m = bindV validate_domain_kind (\<lambda>_. bindV load_and_validate_persisted (\<lambda>_. prove_completion)) m1"
    using finalize_stages [OF assms(1)] .
  note f = more_fields [OF m1(3)]
  have c1: "committed m1 = committed m" using m1(2) has by (simp add: ensured_def)
  have use: "usable m1" "working m1 = committed m" using healthy_usable [OF m1(1)] c1 by auto
  let ?m2 = "m1\<lparr>nm_used := snd ` ?P \<union> nm_used m1, nm_persisted := fst ` ?P \<union> nm_persisted m1\<rparr>"
  have load: "load_and_validate_persisted m1 = (Inr (), ?m2)"
    using load_usable [of m1 ?m2] use assms(2,4) f by simp
  have e: "nm_used m = {}" "nm_persisted m = {}" "selection_ready m"
    using assms(1) by (auto simp: collecting_def)
  have ready: "selection_ready ?m2" using e by (simp add: selection_ready_def f)
  have "free_of ?m2 = free_tokens (nm_domain m) (snd ` ?P)" "unallocated ?m2 = nm_originals m - fst ` ?P"
    using e by (simp_all add: free_of_def unallocated_def f)
  moreover have "finalize_numeric m = prove_completion ?m2"
    unfolding eq using load assms(3) use f by (simp add: validate_domain_kind_spec)
  moreover have "finite (nm_originals m)" using e(3) by (simp add: selection_ready_def)
  ultimately show ?thesis
    using prove_completion_spec [OF ready] feasible_assignment assignment_feasible
    by (metis finite_Diff finite_free_tokens fst_conv)
qed

theorem finalize_exact_witness:
  "fst (finalize_numeric sample_mapping) = Inr ()
   \<and> fst (finalize_numeric (sample_mapping\<lparr>nm_originals := {0, 1, 3, 4}\<rparr>)) = Inl no_completion"
proof -
  let ?m = "sample_mapping\<lparr>nm_originals := {0, 1, 3, 4}\<rparr>"
  have pairs: "pairs_of ''dom-1'' sample_database = [(3, 2)]"
    by (simp add: pairs_of_def numeric_assoc_def numeric_rows_of_def sample_database_def numeric_insert_row_def
        int_of_int_text)
  have kind: "recorded_kind sample_database ''dom-1'' = Some KIND_NUMERIC_KEY" by code_simp
  have f: "nm_domain_id sample_mapping = ''dom-1''" "committed sample_mapping = sample_database"
    "nm_domain sample_mapping = sample_key_domain" "nm_originals sample_mapping = {0, 1, 3}"
    by (simp_all add: sample_defs)
  have valid: "valid_pair sample_key_domain (3, 2)"
    by (simp add: valid_pair_def in_original_ranges_def member_original_ranges_def contains_pseudonym_def
        sample_key_domain_def)
  have coll: "collecting ?m"
    using sample_collecting by (auto simp: collecting_def selection_ready_def healthy_def authority_ok_def
        vault_idle_def in_original_ranges_def member_original_ranges_def sample_key_domain_def f)
  have free: "free_tokens sample_key_domain {2} = {0, 1}"
    by (auto simp: free_tokens_def sample_key_domain_def)
  have "is_assignment {0, 1} ({0, 1, 3} - {3}) (\<lambda>x. 1 - x)" by (auto simp: is_assignment_def inj_on_def)
  then have "fst (finalize_numeric sample_mapping) = Inr ()"
    using finalize_exact [OF sample_collecting] sample_domain_ok kind valid by (auto simp: f pairs free)
  moreover have "\<not> is_assignment {0, 1} ({0, 1, 3, 4} - {3}) g" for g
  proof
    assume "is_assignment {0, 1} ({0, 1, 3, 4} - {3}) g"
    then have "card ({0, 1, 3, 4} - {3 :: int}) \<le> card {0, 1 :: int}"
      using assignment_feasible [of "{0, 1}" _ g] unfolding feasible_def by blast
    then show False by simp
  qed
  ultimately show ?thesis
    using finalize_exact [OF coll] sample_domain_ok kind valid by (simp add: f pairs free)
qed

end
