(* ===== verification/Pass_One_Numeric.thy ===== *)
theory Pass_One_Numeric
  imports Pass_One_Text Numeric_Allocation
begin

text \<open>
  The numeric half of \<open>run_pass_one_finalize\<close> (\<^verbatim>\<open>src/src/dbf_anonymizer/engine/pass1.py\<close>,
  \<open>_finalize_numeric\<close> and its helpers): one declared key domain is allocated from the spool's
  observation stream, a random probe phase and a bounded walk choosing each pseudonym. The theorems
  say exactly when the stage completes and where it is stricter than the planner's own test.
\<close>

section \<open>The vault and spool queries\<close>

text \<open>\<open>CAST(text AS INTEGER)\<close> saturates at the bounds of a 64-bit integer.\<close>

definition sql_cast_integer :: "pystr \<Rightarrow> int" where
  "sql_cast_integer t = max (- (2 ^ 63)) (min (2 ^ 63 - 1) (int_of_text t))"

definition numeric_token_occupied :: "database \<Rightarrow> string \<Rightarrow> int \<Rightarrow> bool" where
  "numeric_token_occupied db d token =
     list_ex (\<lambda>r. nr_domain r = d \<and> nr_pseudonym r = SText (int_text token)) (numeric_key_mappings_tbl db)"

definition spool_value_free_in_domain :: "database \<Rightarrow> spool \<Rightarrow> string \<Rightarrow> numeric_key_domain \<Rightarrow> bool result" where
  "spool_value_free_in_domain db s d kd =
     bindE (bind_int (dom_low kd)) (\<lambda>_.
     bindE (bind_int (dom_high kd)) (\<lambda>_.
       Inr (list_ex (\<lambda>(d', c). d' = d \<and> dom_low kd \<le> sql_cast_integer c \<and> sql_cast_integer c \<le> dom_high kd
             \<and> \<not> numeric_token_occupied db d (sql_cast_integer c)) (sp_numeric s))))"

definition numeric_residual_feasible ::
    "database \<Rightarrow> spool \<Rightarrow> string \<Rightarrow> numeric_key_domain \<Rightarrow> int \<Rightarrow> int \<Rightarrow> bool result" where
  "numeric_residual_feasible db s d kd occupied_after remaining_after =
     (let free_after = domain_size kd - occupied_after
      in if free_after < remaining_after then Inr False
         else if free_after < 1 then Inr False
         else if remaining_after > 0 then
           bindE (spool_value_free_in_domain db s d kd) (\<lambda>own_free. Inr (\<not> (own_free \<and> free_after < 2)))
         else Inr True)"

definition numeric_candidate_blocked :: "int \<Rightarrow> spool \<Rightarrow> string \<Rightarrow> bool" where
  "numeric_candidate_blocked candidate s d = ((d, int_text candidate) \<in> set (sp_numeric s))"

text \<open>
  The stage has listed the domain's rows before it streams them, which refuses every row that is
  not canonical text: a cell here is always such a text.
\<close>

definition numeric_occupied_stream :: "database \<Rightarrow> string \<Rightarrow> int list result" where
  "numeric_occupied_stream db d =
     mapE (\<lambda>r. parse_canonical_integer_text (VStr (cell_text (nr_pseudonym r))))
       (sort_key (\<lambda>r. sql_cast_integer (cell_text (nr_pseudonym r)))
         (filter (\<lambda>r. nr_domain r = d) (numeric_key_mappings_tbl db)))"

fun streaming_jth_loop :: "numeric_key_domain \<Rightarrow> int \<Rightarrow> int \<Rightarrow> int list \<Rightarrow> int" where
  "streaming_jth_loop kd previous remaining [] = previous + 1 + remaining"
| "streaming_jth_loop kd previous remaining (value # vs) =
     (if value < dom_low kd \<or> value > dom_high kd then streaming_jth_loop kd previous remaining vs
      else
        let gap = value - previous - 1
        in if remaining < gap then previous + 1 + remaining
           else streaming_jth_loop kd value (remaining - gap) vs)"

definition streaming_jth_free_numeric :: "numeric_key_domain \<Rightarrow> int list \<Rightarrow> int \<Rightarrow> int" where
  "streaming_jth_free_numeric kd occupied j = streaming_jth_loop kd (dom_low kd - 1) j occupied"

section \<open>Selecting a candidate\<close>

definition accept_candidate ::
    "database \<Rightarrow> spool \<Rightarrow> string \<Rightarrow> numeric_key_domain \<Rightarrow> int \<Rightarrow> int \<Rightarrow> int \<Rightarrow> int \<Rightarrow> bool result" where
  "accept_candidate db s d kd original occupied remaining candidate =
     (if candidate = original then Inr False
      else if numeric_candidate_blocked candidate s d then Inr False
      else numeric_residual_feasible db s d kd (occupied + 1) (remaining - 1))"

text \<open>The first accepted candidate of a list of stream indexes, and how many indexes were used.\<close>

fun first_accepted ::
    "(int \<Rightarrow> bool result) \<Rightarrow> numeric_key_domain \<Rightarrow> int list result \<Rightarrow> int list \<Rightarrow> (int option \<times> nat) result" where
  "first_accepted accept kd stream [] = Inr (None, 0)"
| "first_accepted accept kd stream (j # js) =
     bindE stream (\<lambda>occupied.
       let candidate = streaming_jth_free_numeric kd occupied j
       in bindE (accept candidate) (\<lambda>ok.
            if ok then Inr (Some candidate, 1)
            else bindE (first_accepted accept kd stream js) (\<lambda>(found, used). Inr (found, Suc used))))"

definition select_numeric_candidate ::
    "tape \<Rightarrow> nat \<Rightarrow> database \<Rightarrow> spool \<Rightarrow> string \<Rightarrow> numeric_key_domain \<Rightarrow> int \<Rightarrow> int \<Rightarrow> int \<Rightarrow> (int \<times> nat) result" where
  "select_numeric_candidate t k db s d kd original occupied remaining =
     (let free = domain_size kd - occupied;
          accept = accept_candidate db s d kd original occupied remaining;
          stream = numeric_occupied_stream db d
      in if free < 1 then Inl (pass1_capacity_failure ''ENGINE_NUMERIC_DOMAIN_EXHAUSTED'')
         else
           bindE (first_accepted accept kd stream
               (map (\<lambda>i. randbelow t (k + i) free) [0..<NUMERIC_KEY_PROBE_BUDGET])) (\<lambda>(probed, used).
             case probed of
               Some candidate \<Rightarrow> Inr (candidate, k + used)
             | None \<Rightarrow>
                 bindE (first_accepted accept kd stream (map int [0..<nat (min free (remaining + 2))])) (\<lambda>(walked, _).
                   case walked of
                     Some candidate \<Rightarrow> Inr (candidate, k + used)
                   | None \<Rightarrow> Inl (pass1_capacity_failure ''ENGINE_NUMERIC_NO_COMPLETION''))))"

section \<open>The finalization loop\<close>

definition store_numeric_mapping :: "string \<Rightarrow> pystr \<Rightarrow> int \<Rightarrow> int \<Rightarrow> unit engine_op" where
  "store_numeric_mapping d canonical value candidate =
     with_transaction (bindV (get_numeric_pseudonym d canonical) (\<lambda>fresh.
       case fresh of
         None \<Rightarrow> add_numeric_key_mapping d (int_text value) (int_text candidate)
       | Some p \<Rightarrow> bindV (liftV (parse_canonical_integer_text (VStr p))) (\<lambda>_. retV ())))"

definition select_on_engine ::
    "tape \<Rightarrow> string \<Rightarrow> numeric_key_domain \<Rightarrow> int \<Rightarrow> int \<Rightarrow> int \<Rightarrow> int engine_op" where
  "select_on_engine t d kd original occupied remaining =
     bindV internal_connection (\<lambda>db e.
       case select_numeric_candidate t (en_draws e) db (en_spool e) d kd original occupied remaining of
         Inl err \<Rightarrow> (Inl err, e)
       | Inr (candidate, k) \<Rightarrow> (Inr candidate, e\<lparr>en_draws := k\<rparr>))"

fun finalize_numeric_rows ::
    "tape \<Rightarrow> cancel_tape \<Rightarrow> string \<Rightarrow> numeric_key_domain \<Rightarrow> pystr list \<Rightarrow> int \<Rightarrow> int \<Rightarrow> nat \<Rightarrow> nat engine_op" where
  "finalize_numeric_rows t ct d kd [] occupied remaining allocated = retV allocated"
| "finalize_numeric_rows t ct d kd (canonical # rows) occupied remaining allocated =
     bindV (check_cancelled ct) (\<lambda>_.
     bindV (get_numeric_pseudonym d canonical) (\<lambda>existing.
       case existing of
         Some _ \<Rightarrow>
           bindV (on_spool (\<lambda>s. Inr (drop_numeric_observation d canonical s))) (\<lambda>_.
             finalize_numeric_rows t ct d kd rows occupied remaining allocated)
       | None \<Rightarrow>
           bindV (liftV (parse_canonical_integer_text (VStr canonical))) (\<lambda>value.
           bindV (select_on_engine t d kd value occupied remaining) (\<lambda>candidate.
           bindV (store_numeric_mapping d canonical value candidate) (\<lambda>_.
           bindV (on_spool (\<lambda>s. Inr (drop_numeric_observation d canonical s))) (\<lambda>_.
             finalize_numeric_rows t ct d kd rows (occupied + 1) (remaining - 1) (Suc allocated)))))))"

definition finalize_numeric_domain ::
    "tape \<Rightarrow> cancel_tape \<Rightarrow> string \<Rightarrow> numeric_key_domain \<Rightarrow> nat engine_op" where
  "finalize_numeric_domain t ct d kd =
     bindV (ensure_domain_of_kind KIND_NUMERIC_KEY d) (\<lambda>_.
     bindV (numeric_mapping_rows d) (\<lambda>rows.
     bindV internal_connection (\<lambda>db e.
       let occupied = int (length rows); remaining = numeric_unpersisted_count d (en_spool e)
       in bindV (liftV (numeric_residual_feasible db (en_spool e) d kd occupied remaining)) (\<lambda>ok.
            if \<not> ok then failV (pass1_capacity_failure ''ENGINE_NUMERIC_DOMAIN_EXHAUSTED'')
            else finalize_numeric_rows t ct d kd (numeric_observation_stream d (en_spool e)) occupied remaining 0) e)))"

section \<open>The streamed walk\<close>

lemma streaming_jth_loop_gap_walk:
  "streaming_jth_loop kd prev rem vs = gap_walk prev rem (filter (contains_pseudonym kd) vs)"
proof (induction vs arbitrary: prev rem)
  case (Cons v vs)
  show ?case
  proof (cases "contains_pseudonym kd v")
    case True
    then have "\<not> (v < dom_low kd \<or> v > dom_high kd)" by (auto simp: contains_pseudonym_def)
    then show ?thesis using Cons True by (simp add: Let_def)
  next
    case False
    then have "v < dom_low kd \<or> v > dom_high kd" by (auto simp: contains_pseudonym_def)
    then show ?thesis using Cons False by simp
  qed
qed simp

lemma streaming_jth_token:
  assumes "sorted_wrt (<) vs" and "0 \<le> j"
  shows "jth_free_token kd vs j =
    (if streaming_jth_free_numeric kd vs j \<le> dom_high kd then Inr (streaming_jth_free_numeric kd vs j) else Inl ValueError)"
proof -
  have "sort (remdups vs) = vs" using assms(1) by (simp add: strict_sorted_iff sorted_sort_id distinct_remdups_id)
  then show ?thesis
    using assms(2)
    by (simp add: jth_free_token_def streaming_jth_free_numeric_def streaming_jth_loop_gap_walk jth_free_loop_gap_walk)
qed

lemma streaming_jth_spec:
  assumes "sorted_wrt (<) vs" and "0 \<le> j" and "j < int (card (free_tokens kd (set vs)))"
  shows "streaming_jth_free_numeric kd vs j \<in> free_tokens kd (set vs)"
    and "int (card {x \<in> free_tokens kd (set vs). x < streaming_jth_free_numeric kd vs j}) = j"
proof -
  have "jth_free_token kd vs j = Inr (streaming_jth_free_numeric kd vs j)"
    using jth_free_token_defined [OF assms(2,3)] streaming_jth_token [OF assms(1,2), of kd] by (auto split: if_splits)
  then show "streaming_jth_free_numeric kd vs j \<in> free_tokens kd (set vs)"
    "int (card {x \<in> free_tokens kd (set vs). x < streaming_jth_free_numeric kd vs j}) = j"
    using jth_free_token_spec by blast+
qed

lemma map_sort_key_same: "map f (sort_key f xs) = sort (map f xs)"
proof (rule properties_for_sort [symmetric])
  show "mset (map f (sort_key f xs)) = mset (map f xs)" by simp
qed simp

lemma insort_key_agree: "\<forall>y\<in>insert x (set xs). f y = g y \<Longrightarrow> insort_key f x xs = insort_key g x xs"
  by (induction xs) auto

lemma sort_key_agree: "\<forall>y\<in>set xs. f y = g y \<Longrightarrow> sort_key f xs = sort_key g xs"
proof (induction xs)
  case (Cons x xs)
  then have "insort_key f x (sort_key g xs) = insort_key g x (sort_key g xs)" by (intro insort_key_agree) auto
  then show ?case using Cons by simp
qed simp

section \<open>The domain during the stage\<close>

definition key_bounds_ok :: "numeric_key_domain \<Rightarrow> bool" where
  "key_bounds_ok kd \<longleftrightarrow> dom_low kd \<le> dom_high kd \<and> - (2 ^ 63) < dom_low kd \<and> dom_high kd < 2 ^ 63 - 1"

definition keys_ok :: "numeric_key_domain \<Rightarrow> string \<Rightarrow> database \<Rightarrow> bool" where
  "keys_ok kd d db \<longleftrightarrow> numeric_domain_ok d db \<and> (\<forall>p\<in>set (pairs_of d db). contains_pseudonym kd (snd p))"

definition free_keys :: "numeric_key_domain \<Rightarrow> string \<Rightarrow> database \<Rightarrow> int set" where
  "free_keys kd d db = free_tokens kd (snd ` set (pairs_of d db))"

definition spool_keys :: "string \<Rightarrow> spool \<Rightarrow> int set" where
  "spool_keys d s = {x. (d, int_text x) \<in> set (sp_numeric s)}"

lemma finite_free_keys [simp]: "finite (free_keys kd d db)"
  by (simp add: free_keys_def)

lemma cast_in_range:
  assumes "key_bounds_ok kd"
  shows "contains_pseudonym kd (sql_cast_integer t) \<longleftrightarrow> contains_pseudonym kd (int_of_text t)"
    and "contains_pseudonym kd (int_of_text t) \<Longrightarrow> sql_cast_integer t = int_of_text t"
  using assms by (auto simp: key_bounds_ok_def contains_pseudonym_def sql_cast_integer_def)

lemma distinct_pseudonyms:
  assumes "numeric_domain_ok d db"
  shows "distinct (map snd (pairs_of d db))"
proof -
  have "map snd (pairs_of d db) = map int_of_text (map snd (numeric_assoc d db))" by (simp add: pairs_of_def case_prod_beta)
  moreover have "inj_on int_of_text (set (map snd (numeric_assoc d db)))"
    by (rule inj_on_inverseI [of _ int_text]) (use numeric_assoc_texts(2) [OF assms] in fastforce)
  moreover have "distinct (map snd (numeric_assoc d db))" using assms by (simp add: numeric_domain_ok_def)
  ultimately show ?thesis by (simp only: distinct_map [of int_of_text])
qed

lemma card_free_keys:
  assumes "keys_ok kd d db" and "key_bounds_ok kd"
  shows "int (card (free_keys kd d db)) = domain_size kd - int (length (numeric_assoc d db))"
proof -
  let ?ys = "map snd (pairs_of d db)"
  have "filter (contains_pseudonym kd) ?ys = ?ys" using assms(1) by (auto simp: keys_ok_def filter_id_conv)
  then have "free_token_count kd ?ys = domain_size kd - int (length ?ys)"
    using distinct_pseudonyms assms(1) by (simp add: free_token_count_def keys_ok_def distinct_remdups_id)
  then show ?thesis
    using free_token_count_card [of kd ?ys] assms(2) unfolding free_keys_def key_bounds_ok_def set_map
    by (simp add: pairs_of_def)
qed

lemma occupied_stream_spec:
  assumes "keys_ok kd d db" and "key_bounds_ok kd"
  obtains vs where "numeric_occupied_stream db d = Inr vs" and "sorted_wrt (<) vs" and "set vs = snd ` set (pairs_of d db)"
proof -
  let ?rows = "numeric_rows_of d db" and ?f = "\<lambda>r. int_of_text (cell_text (nr_pseudonym r))"
  have ok: "numeric_domain_ok d db" using assms(1) by (simp add: keys_ok_def)
  have pairs: "map snd (pairs_of d db) = map ?f ?rows" by (simp add: pairs_of_def numeric_assoc_def comp_def)
  have match: "canonical_integer_match (cell_text (nr_pseudonym r))" if "r \<in> set ?rows" for r
    using ok that by (auto simp: numeric_domain_ok_def numeric_row_ok_def)
  have "contains_pseudonym kd (?f r)" if "r \<in> set ?rows" for r
    using assms(1) that by (auto simp: keys_ok_def pairs_of_def numeric_assoc_def)
  then have cast: "sql_cast_integer (cell_text (nr_pseudonym r)) = ?f r" if "r \<in> set ?rows" for r
    using cast_in_range(2) [OF assms(2)] that by blast
  have srt: "sort_key (\<lambda>r. sql_cast_integer (cell_text (nr_pseudonym r))) ?rows = sort_key ?f ?rows"
    using cast by (intro sort_key_agree) auto
  have "numeric_occupied_stream db d = Inr (map ?f (sort_key ?f ?rows))"
    unfolding numeric_occupied_stream_def numeric_rows_of_def [symmetric] srt using match by (intro mapE_total) simp_all
  then have s: "numeric_occupied_stream db d = Inr (sort (map snd (pairs_of d db)))" unfolding pairs map_sort_key_same .
  show thesis
    by (rule that [OF s]) (simp_all add: strict_sorted_iff distinct_pseudonyms [OF ok])
qed

lemma numeric_token_occupied_iff:
  assumes "numeric_domain_ok d db"
  shows "numeric_token_occupied db d x \<longleftrightarrow> x \<in> snd ` set (pairs_of d db)"
proof -
  have "numeric_token_occupied db d x \<longleftrightarrow> (\<exists>r\<in>set (numeric_rows_of d db). nr_pseudonym r = SText (int_text x))"
    by (auto simp: numeric_token_occupied_def list_ex_iff numeric_rows_of_def)
  also have "\<dots> \<longleftrightarrow> int_text x \<in> snd ` set (numeric_assoc d db)"
    using assms by (force simp: numeric_assoc_def numeric_domain_ok_def numeric_row_ok_def)
  finally show ?thesis using snd_pairs_of [OF assms] by simp
qed

lemma spool_value_free_spec:
  assumes "keys_ok kd d db" and "key_bounds_ok kd"
    and "\<forall>(d', c)\<in>set (sp_numeric s). d' = d \<longrightarrow> canonical_integer_match c"
  shows "spool_value_free_in_domain db s d kd = Inr (spool_keys d s \<inter> free_keys kd d db \<noteq> {})"
proof -
  have ok: "numeric_domain_ok d db" using assms(1) by (simp add: keys_ok_def)
  let ?P = "\<lambda>c. contains_pseudonym kd (sql_cast_integer c) \<and> \<not> numeric_token_occupied db d (sql_cast_integer c)"
  have free: "y \<in> free_keys kd d db \<longleftrightarrow> contains_pseudonym kd y \<and> \<not> numeric_token_occupied db d y" for y
    unfolding numeric_token_occupied_iff [OF ok] free_keys_def free_tokens_def contains_pseudonym_iff by blast
  have P: "?P c \<longleftrightarrow> int_of_text c \<in> free_keys kd d db" for c
    using cast_in_range [OF assms(2), of c] unfolding free by metis
  have "(\<exists>(d', c)\<in>set (sp_numeric s). d' = d \<and> ?P c) \<longleftrightarrow> spool_keys d s \<inter> free_keys kd d db \<noteq> {}"
  proof
    assume "\<exists>(d', c)\<in>set (sp_numeric s). d' = d \<and> ?P c"
    then obtain c where c: "(d, c) \<in> set (sp_numeric s)" "int_of_text c \<in> free_keys kd d db" using P by auto
    then have "int_of_text c \<in> spool_keys d s" using assms(3) int_text_of_match by (fastforce simp: spool_keys_def)
    then show "spool_keys d s \<inter> free_keys kd d db \<noteq> {}" using c(2) by blast
  next
    assume "spool_keys d s \<inter> free_keys kd d db \<noteq> {}"
    then obtain x where "(d, int_text x) \<in> set (sp_numeric s)" "x \<in> free_keys kd d db" by (auto simp: spool_keys_def)
    then show "\<exists>(d', c)\<in>set (sp_numeric s). d' = d \<and> ?P c" using P [of "int_text x"] by (force simp: int_of_int_text)
  qed
  moreover have "bind_int (dom_low kd) = Inr ()" "bind_int (dom_high kd) = Inr ()"
    using assms(2) by (simp_all add: bind_int_def guardE_def key_bounds_ok_def)
  ultimately show ?thesis
    by (simp add: spool_value_free_in_domain_def list_ex_iff contains_pseudonym_def conj_assoc)
qed

text \<open>What the feasibility kernel computes, over the free keys and the spooled originals.\<close>

definition residual_rule :: "int \<Rightarrow> int \<Rightarrow> bool \<Rightarrow> bool" where
  "residual_rule free rem own \<longleftrightarrow> rem \<le> free \<and> 1 \<le> free \<and> (0 < rem \<longrightarrow> own \<longrightarrow> 2 \<le> free)"

lemma residual_feasible_rule:
  assumes "keys_ok kd d db" and "key_bounds_ok kd"
    and "\<forall>(d', c)\<in>set (sp_numeric s). d' = d \<longrightarrow> canonical_integer_match c"
  shows "numeric_residual_feasible db s d kd occ rem =
    Inr (residual_rule (domain_size kd - occ) rem (spool_keys d s \<inter> free_keys kd d db \<noteq> {}))"
  by (simp add: numeric_residual_feasible_def spool_value_free_spec [OF assms] residual_rule_def Let_def not_less)

section \<open>Selection\<close>

lemma first_accepted_spec:
  assumes "\<forall>j\<in>set js. accept (streaming_jth_free_numeric kd vs j) = Inr (ok (streaming_jth_free_numeric kd vs j))"
  shows "\<exists>found used. first_accepted accept kd (Inr vs) js = Inr (found, used)
    \<and> (case found of
         Some c \<Rightarrow> ok c \<and> (\<exists>j\<in>set js. c = streaming_jth_free_numeric kd vs j)
       | None \<Rightarrow> \<forall>j\<in>set js. \<not> ok (streaming_jth_free_numeric kd vs j))"
  using assms
proof (induction js)
  case (Cons j js)
  then obtain found used where IH: "first_accepted accept kd (Inr vs) js = Inr (found, used)"
    "case found of Some c \<Rightarrow> ok c \<and> (\<exists>j\<in>set js. c = streaming_jth_free_numeric kd vs j)
       | None \<Rightarrow> \<forall>j\<in>set js. \<not> ok (streaming_jth_free_numeric kd vs j)" by auto
  show ?case
  proof (cases "ok (streaming_jth_free_numeric kd vs j)")
    case True
    then show ?thesis using Cons.prems by (auto simp: Let_def)
  next
    case False
    then have "first_accepted accept kd (Inr vs) (j # js) = Inr (found, Suc used)" using Cons.prems IH(1) by (simp add: Let_def)
    then show ?thesis using IH(2) False by (auto split: option.splits)
  qed
qed simp

text \<open>
  The state of the loop: \<open>rows\<close> are the canonical texts still in the spool for this domain, and
  \<open>occ\<close> is the local count of its mapping rows.
\<close>

definition numeric_stage :: "numeric_key_domain \<Rightarrow> string \<Rightarrow> pystr list \<Rightarrow> int \<Rightarrow> database \<Rightarrow> spool \<Rightarrow> bool" where
  "numeric_stage kd d rows occ db s \<longleftrightarrow> keys_ok kd d db \<and> key_bounds_ok kd \<and> occ = int (length (numeric_assoc d db))
     \<and> distinct rows \<and> (\<forall>c\<in>set rows. canonical_integer_match c) \<and> {c. (d, c) \<in> set (sp_numeric s)} = set rows"

lemma stage_spool:
  assumes "numeric_stage kd d rows occ db s"
  shows "\<forall>(d', c)\<in>set (sp_numeric s). d' = d \<longrightarrow> canonical_integer_match c"
    and "spool_keys d s = int_of_text ` set rows" and "card (spool_keys d s) = length rows"
proof -
  have m: "\<forall>c\<in>set rows. canonical_integer_match c" and S: "{c. (d, c) \<in> set (sp_numeric s)} = set rows" and dis: "distinct rows"
    using assms by (auto simp: numeric_stage_def)
  show "\<forall>(d', c)\<in>set (sp_numeric s). d' = d \<longrightarrow> canonical_integer_match c" using m S by auto
  have inv: "int_text (int_of_text c) = c" if "c \<in> set rows" for c using m that int_text_of_match by simp
  have mem: "(d, c) \<in> set (sp_numeric s) \<longleftrightarrow> c \<in> set rows" for c using S by blast
  show keys: "spool_keys d s = int_of_text ` set rows"
  proof
    show "spool_keys d s \<subseteq> int_of_text ` set rows"
      unfolding spool_keys_def mem by (auto intro: rev_image_eqI simp: int_of_int_text)
    show "int_of_text ` set rows \<subseteq> spool_keys d s" unfolding spool_keys_def mem using inv by auto
  qed
  have "inj_on int_of_text (set rows)" by (rule inj_on_inverseI [of _ int_text]) (rule inv)
  then show "card (spool_keys d s) = length rows" unfolding keys using dis by (simp add: card_image distinct_card)
qed

lemma stage_free:
  assumes "numeric_stage kd d rows occ db s"
  shows "int (card (free_keys kd d db)) = domain_size kd - occ"
  using assms card_free_keys by (simp add: numeric_stage_def)

lemma accept_rule:
  assumes "numeric_stage kd d rows occ db s"
  shows "accept_candidate db s d kd x occ rem c = Inr (c \<noteq> x \<and> c \<notin> spool_keys d s
    \<and> residual_rule (domain_size kd - occ - 1) (rem - 1) (spool_keys d s \<inter> free_keys kd d db \<noteq> {}))"
proof -
  have "numeric_candidate_blocked c s d \<longleftrightarrow> c \<in> spool_keys d s" by (simp add: numeric_candidate_blocked_def spool_keys_def)
  then show ?thesis
    using residual_feasible_rule [of kd d db s "occ + 1" "rem - 1"] stage_spool(1) [OF assms] assms
    by (auto simp: accept_candidate_def numeric_stage_def algebra_simps)
qed

text \<open>
  What a selection returns: an accepted free key or the refusal. The walk covers every case in
  which more keys are free than originals remain, so it cannot be refused there.
\<close>

lemma select_candidate_outcome:
  fixes kd d db s x
  assumes st: "numeric_stage kd d rows occ db s" and free: "1 \<le> domain_size kd - occ"
  defines "ok \<equiv> \<lambda>rem c. c \<noteq> x \<and> c \<notin> spool_keys d s
    \<and> residual_rule (domain_size kd - occ - 1) (rem - 1) (spool_keys d s \<inter> free_keys kd d db \<noteq> {})"
  shows "(\<exists>c k'. select_numeric_candidate t k db s d kd x occ rem = Inr (c, k') \<and> c \<in> free_keys kd d db \<and> ok rem c)
    \<or> (select_numeric_candidate t k db s d kd x occ rem = Inl (pass1_capacity_failure ''ENGINE_NUMERIC_NO_COMPLETION'')
       \<and> (\<forall>j. 0 \<le> j \<and> j < min (domain_size kd - occ) (rem + 2) \<longrightarrow>
            (\<exists>c \<in> free_keys kd d db. int (card {y \<in> free_keys kd d db. y < c}) = j \<and> \<not> ok rem c)))"
proof -
  let ?free = "domain_size kd - occ" and ?acc = "accept_candidate db s d kd x occ rem"
  obtain vs where vs: "numeric_occupied_stream db d = Inr vs" "sorted_wrt (<) vs" "set vs = snd ` set (pairs_of d db)"
    using occupied_stream_spec [of kd d db] st by (auto simp: numeric_stage_def)
  have F: "free_tokens kd (set vs) = free_keys kd d db" by (simp add: free_keys_def vs(3))
  have acc: "?acc c = Inr (ok rem c)" for c using accept_rule [OF st] by (simp add: ok_def)
  have nth: "streaming_jth_free_numeric kd vs j \<in> free_keys kd d db"
      "int (card {y \<in> free_keys kd d db. y < streaming_jth_free_numeric kd vs j}) = j" if "0 \<le> j" "j < ?free" for j
    using streaming_jth_spec [OF vs(2) that(1), of kd] that(2) stage_free [OF st] unfolding F by auto
  let ?js = "map (\<lambda>i. randbelow t (k + i) ?free) [0..<NUMERIC_KEY_PROBE_BUDGET]"
  let ?ks = "map int [0..<nat (min ?free (rem + 2))]"
  have js: "0 \<le> j \<and> j < ?free" if "j \<in> set ?js" for j
    using that tape_source.draw_range [of ?free] free by auto
  obtain p u where p: "first_accepted ?acc kd (Inr vs) ?js = Inr (p, u)"
    "case p of Some c \<Rightarrow> ok rem c \<and> (\<exists>j\<in>set ?js. c = streaming_jth_free_numeric kd vs j)
      | None \<Rightarrow> \<forall>j\<in>set ?js. \<not> ok rem (streaming_jth_free_numeric kd vs j)"
    using first_accepted_spec [of ?js ?acc kd vs "ok rem"] acc by blast
  obtain w u' where w: "first_accepted ?acc kd (Inr vs) ?ks = Inr (w, u')"
    "case w of Some c \<Rightarrow> ok rem c \<and> (\<exists>j\<in>set ?ks. c = streaming_jth_free_numeric kd vs j)
      | None \<Rightarrow> \<forall>j\<in>set ?ks. \<not> ok rem (streaming_jth_free_numeric kd vs j)"
    using first_accepted_spec [of ?ks ?acc kd vs "ok rem"] acc by blast
  have sel: "select_numeric_candidate t k db s d kd x occ rem =
      (case p of Some c \<Rightarrow> Inr (c, k + u)
       | None \<Rightarrow> (case w of Some c \<Rightarrow> Inr (c, k + u) | None \<Rightarrow> Inl (pass1_capacity_failure ''ENGINE_NUMERIC_NO_COMPLETION'')))"
    using free p(1) w(1) by (simp add: select_numeric_candidate_def vs(1) Let_def split: option.split)
  show ?thesis
  proof (cases p)
    case (Some c)
    then show ?thesis using sel p(2) js nth(1) by force
  next
    case None
    show ?thesis
    proof (cases w)
      case (Some c)
      then obtain j where "j \<in> set ?ks" "c = streaming_jth_free_numeric kd vs j" "ok rem c" using w(2) by auto
      moreover have "0 \<le> j \<and> j < ?free" using \<open>j \<in> set ?ks\<close> by auto
      ultimately show ?thesis using sel None Some nth(1) by auto
    next
      case w_None: None
      have "\<exists>c \<in> free_keys kd d db. int (card {y \<in> free_keys kd d db. y < c}) = j \<and> \<not> ok rem c"
        if "0 \<le> j \<and> j < min ?free (rem + 2)" for j
      proof -
        have "j \<in> set ?ks" using that by (auto intro: rev_image_eqI [of "nat j"])
        then have "\<not> ok rem (streaming_jth_free_numeric kd vs j)" using w(2) unfolding w_None option.case by blast
        then show ?thesis using nth [of j] that by (intro bexI [of _ "streaming_jth_free_numeric kd vs j"]) auto
      qed
      then show ?thesis using sel None w_None by simp
    qed
  qed
qed

lemma select_candidate_total:
  assumes st: "numeric_stage kd d rows occ db s" and x: "x \<in> spool_keys d s"
    and rem: "int (length rows) \<le> rem" and free: "rem < domain_size kd - occ"
  obtains c k' where "select_numeric_candidate t k db s d kd x occ rem = Inr (c, k')"
    and "c \<in> free_keys kd d db" and "c \<notin> spool_keys d s"
proof -
  let ?F = "free_keys kd d db" and ?S = "spool_keys d s"
  have fin: "finite ?S" using stage_spool(2) [OF st] by simp
  have cardS: "int (card ?S) \<le> rem" using stage_spool(3) [OF st] rem by simp
  have "1 \<le> int (card ?S)" using x fin by (simp add: card_gt_0_iff Suc_le_eq) blast
  then have r1: "1 \<le> rem" using cardS by simp
  then have rule: "residual_rule (domain_size kd - occ - 1) (rem - 1) own" for own
    using free by (auto simp: residual_rule_def)
  have "1 \<le> domain_size kd - occ" using free r1 by simp
  from select_candidate_outcome [OF st this, of t k x rem] show thesis
  proof
    assume "\<exists>c k'. select_numeric_candidate t k db s d kd x occ rem = Inr (c, k') \<and> c \<in> ?F \<and>
      (c \<noteq> x \<and> c \<notin> ?S \<and> residual_rule (domain_size kd - occ - 1) (rem - 1) (?S \<inter> ?F \<noteq> {}))"
    then show thesis using that by blast
  next
    assume a: "select_numeric_candidate t k db s d kd x occ rem = Inl (pass1_capacity_failure ''ENGINE_NUMERIC_NO_COMPLETION'')
       \<and> (\<forall>j. 0 \<le> j \<and> j < min (domain_size kd - occ) (rem + 2) \<longrightarrow> (\<exists>c\<in>?F. int (card {y \<in> ?F. y < c}) = j \<and>
           \<not> (c \<noteq> x \<and> c \<notin> ?S \<and> residual_rule (domain_size kd - occ - 1) (rem - 1) (?S \<inter> ?F \<noteq> {}))))"
    have "\<exists>c\<in>?S. int (card {y \<in> ?F. y < c}) = j" if "j \<in> {0..rem}" for j
      using a that free rule x by auto
    then have "{0..rem} \<subseteq> (\<lambda>c. int (card {y \<in> ?F. y < c})) ` ?S" by (force simp: image_iff)
    then have "card {0..rem} \<le> card ?S" using fin by (rule surj_card_le [rotated])
    then show thesis using cardS r1 by simp
  qed
qed

section \<open>One row of the loop\<close>

lemma pairs_of_snoc:
  "numeric_assoc d db' = numeric_assoc d db @ [(int_text x, int_text y)] \<Longrightarrow> pairs_of d db' = pairs_of d db @ [(x, y)]"
  by (simp add: pairs_of_def int_of_int_text)

lemma store_numeric_spec:
  assumes h: "healthy e" and d: "validate_token d = Inr d" and ok: "keys_ok kd d (committed e)"
    and x: "x \<notin> fst ` set (pairs_of d (committed e))" and c: "c \<in> free_keys kd d (committed e)"
  obtains e' where "store_numeric_mapping d (int_text x) x c e = (Inr (), e')" and "healthy e'"
    and "keys_ok kd d (committed e')" and "pairs_of d (committed e') = pairs_of d (committed e) @ [(x, c)]"
    and "vault.more e' = vault.more e" and "\<exists>rows. committed e' = (committed e)\<lparr>numeric_key_mappings_tbl := rows\<rparr>"
proof -
  let ?db = "committed e" and ?u = "txn_start True e"
  have nd: "numeric_domain_ok d ?db" using ok by (simp add: keys_ok_def)
  have none: "numeric_pseudonym_db ?db d (int_text x) = Inr None" using stored_pseudonym(1) [OF nd] x by simp
  have cf: "c \<notin> snd ` set (pairs_of d ?db)" "contains_pseudonym kd c"
    using c by (auto simp: free_keys_def free_tokens_def contains_pseudonym_iff)
  obtain db2 where db2: "insert_numeric (numeric_insert_row d (int_text x) (int_text c)) ?db = Some db2"
    "numeric_domain_ok d db2" "numeric_assoc d db2 = numeric_assoc d ?db @ [(int_text x, int_text c)]"
    using numeric_insert_fresh [OF nd int_text_match int_text_match] x cf(1) fst_pairs_of [OF nd] snd_pairs_of [OF nd]
    by blast
  obtain tbl where tbl: "db2 = ?db\<lparr>numeric_key_mappings_tbl := tbl\<rparr>" using insert_numeric_frame [OF db2(1)] by blast
  have u: "writable ?u" "working ?u = ?db" using healthy_txn_start [OF h] by (simp_all add: txn_start_def)
  let ?body = "bindV (get_numeric_pseudonym d (int_text x)) (\<lambda>fresh. case fresh of
      None \<Rightarrow> add_numeric_key_mapping d (int_text x) (int_text c)
    | Some p \<Rightarrow> bindV (liftV (parse_canonical_integer_text (VStr p))) (\<lambda>_. retV ()))"
  have body_ok: "body_ok ?body"
    by (intro body_ok_bindV body_ok_recorders) (auto intro!: body_ok_bindV split: option.splits)
  have "?body ?u = (Inr (), ?u\<lparr>working := db2\<rparr>)"
    using u none get_numeric_pseudonym_usable [OF _ int_text_match, of ?u] add_numeric_writable [OF u(1) d int_text_match int_text_match] db2(1)
    by simp
  then have txn: "store_numeric_mapping d (int_text x) x c e = (Inr (), ?u\<lparr>working := db2, txn_active := False, committed := db2\<rparr>)"
    unfolding store_numeric_mapping_def using with_transaction_healthy [OF body_ok h] by simp
  let ?w = "?u\<lparr>working := db2, txn_active := False, committed := db2\<rparr>"
  have w: "committed ?w = db2" by simp
  have pairs: "pairs_of d db2 = pairs_of d ?db @ [(x, c)]" using pairs_of_snoc [OF db2(3)] .
  show thesis
  proof (rule that [OF txn])
    show "healthy ?w" using h tbl by (simp add: healthy_def authority_ok_def vault_idle_def txn_start_def)
    show "pairs_of d (committed ?w) = pairs_of d ?db @ [(x, c)]" unfolding w by (rule pairs)
    show "keys_ok kd d (committed ?w)" unfolding w keys_ok_def pairs using db2(2) ok cf(2) by (auto simp: keys_ok_def)
    show "vault.more ?w = vault.more e" by (simp add: txn_start_def)
    show "\<exists>rows. committed ?w = ?db\<lparr>numeric_key_mappings_tbl := rows\<rparr>" unfolding w using tbl by blast
  qed
qed

lemma drop_numeric_stage:
  assumes "numeric_stage kd d (c # rows) occ db s" and "keys_ok kd d db'" and "occ' = int (length (numeric_assoc d db'))"
  shows "numeric_stage kd d rows occ' db' (drop_numeric_observation d c s)"
proof -
  have "{c'. (d, c') \<in> set (sp_numeric s)} = set (c # rows)" using assms(1) by (simp add: numeric_stage_def)
  then have "{c'. (d, c') \<in> set (sp_numeric (drop_numeric_observation d c s))} = set (c # rows) - {c}"
    by (auto simp: drop_numeric_observation_def)
  then show ?thesis using assms by (auto simp: numeric_stage_def)
qed

definition other_observations :: "string \<Rightarrow> spool \<Rightarrow> (string \<times> pystr) list" where
  "other_observations d s = filter (\<lambda>r. fst r \<noteq> d) (sp_numeric s)"

lemma drop_numeric_other [simp]: "other_observations d (drop_numeric_observation d c s) = other_observations d s"
  by (auto simp: other_observations_def drop_numeric_observation_def intro: filter_cong)

text \<open>What the loop keeps: every earlier pair, the rest of the vault and the other domains' observations.\<close>

definition numeric_progress :: "numeric_key_domain \<Rightarrow> string \<Rightarrow> engine \<Rightarrow> engine \<Rightarrow> bool" where
  "numeric_progress kd d e e' \<longleftrightarrow> healthy e' \<and> keys_ok kd d (committed e')
     \<and> set (pairs_of d (committed e)) \<subseteq> set (pairs_of d (committed e'))
     \<and> (\<forall>(x, y)\<in>set (pairs_of d (committed e')) - set (pairs_of d (committed e)). contains_pseudonym kd y \<and> y \<noteq> x)
     \<and> other_observations d (en_spool e') = other_observations d (en_spool e)
     \<and> (\<exists>rows. committed e' = (committed e)\<lparr>numeric_key_mappings_tbl := rows\<rparr>)"

lemma numeric_progress_refl: "healthy e \<Longrightarrow> keys_ok kd d (committed e) \<Longrightarrow> numeric_progress kd d e e"
  by (auto simp: numeric_progress_def intro: exI [of _ "numeric_key_mappings_tbl (committed e)"])

lemma numeric_progress_trans:
  assumes 1: "numeric_progress kd d e1 e2" and 2: "numeric_progress kd d e2 e3"
  shows "numeric_progress kd d e1 e3"
proof -
  obtain r2 where r2: "committed e2 = (committed e1)\<lparr>numeric_key_mappings_tbl := r2\<rparr>" using 1 by (auto simp: numeric_progress_def)
  obtain r3 where r3: "committed e3 = (committed e2)\<lparr>numeric_key_mappings_tbl := r3\<rparr>" using 2 by (auto simp: numeric_progress_def)
  have "committed e3 = (committed e1)\<lparr>numeric_key_mappings_tbl := r3\<rparr>" using r2 r3 by simp
  moreover have "contains_pseudonym kd y \<and> y \<noteq> x"
    if "(x, y) \<in> set (pairs_of d (committed e3)) - set (pairs_of d (committed e1))" for x y
    using 1 2 that unfolding numeric_progress_def by (cases "(x, y) \<in> set (pairs_of d (committed e2))") blast+
  moreover have "set (pairs_of d (committed e1)) \<subseteq> set (pairs_of d (committed e3))" using 1 2 by (auto simp: numeric_progress_def)
  moreover have "other_observations d (en_spool e3) = other_observations d (en_spool e1)" "healthy e3" "keys_ok kd d (committed e3)"
    using 1 2 by (simp_all add: numeric_progress_def)
  ultimately show ?thesis unfolding numeric_progress_def by blast
qed

section \<open>The loop\<close>

lemma stage_engine [simp]:
  "numeric_progress kd d (e\<lparr>en_checks := k\<rparr>) e' = numeric_progress kd d e e'"
  "numeric_progress kd d (e\<lparr>en_draws := k\<rparr>) e' = numeric_progress kd d e e'"
  by (simp_all add: numeric_progress_def)

text \<open>A row whose original already has a pseudonym only leaves the spool.\<close>

lemma reused_row:
  assumes "quiet ct" and "healthy e" and "keys_ok kd d (committed e)" and "canonical_integer_match c"
    and "int_of_text c \<in> fst ` set (pairs_of d (committed e))"
  obtains e1 where "finalize_numeric_rows t ct d kd (c # rows) occ rem n e = finalize_numeric_rows t ct d kd rows occ rem n e1"
    and "healthy e1" and "committed e1 = committed e" and "en_spool e1 = drop_numeric_observation d c (en_spool e)"
proof -
  let ?e = "e\<lparr>en_checks := Suc (en_checks e)\<rparr>"
  let ?e1 = "?e\<lparr>en_spool := drop_numeric_observation d c (en_spool e)\<rparr>"
  have nd: "numeric_domain_ok d (committed e)" using assms(3) by (simp add: keys_ok_def)
  have c: "int_text (int_of_text c) = c" using assms(4) by (rule int_text_of_match)
  have u: "usable ?e" "working ?e = committed e" using healthy_usable [OF assms(2)] by auto
  obtain p where "numeric_pseudonym_db (committed e) d c = Inr (Some p)"
    using stored_pseudonym(1) [OF nd, of "int_of_text c"] numeric_table.fwd_total [OF nd, of c] assms(5)
    unfolding c by (metis option.exhaust)
  then have "get_numeric_pseudonym d c ?e = (Inr (Some p), ?e)" using get_numeric_pseudonym_usable [OF u(1) assms(4)] u(2) by simp
  then have "finalize_numeric_rows t ct d kd (c # rows) occ rem n e = finalize_numeric_rows t ct d kd rows occ rem n ?e1"
    using assms(1) by (simp add: on_spool_def)
  then show thesis using that [of ?e1] assms(2) by simp
qed

text \<open>A fresh row runs the selection; what it accepts is committed and the row leaves the spool.\<close>

lemma fresh_row:
  assumes q: "quiet ct" and h: "healthy e" and d: "validate_token d = Inr d" and ok: "keys_ok kd d (committed e)"
    and c: "canonical_integer_match c" and new: "int_of_text c \<notin> fst ` set (pairs_of d (committed e))"
  shows "(\<exists>err. select_numeric_candidate t (en_draws e) (committed e) (en_spool e) d kd (int_of_text c) occ rem = Inl err
      \<and> fst (finalize_numeric_rows t ct d kd (c # rows) occ rem n e) = Inl err)
    \<or> (\<exists>y k. select_numeric_candidate t (en_draws e) (committed e) (en_spool e) d kd (int_of_text c) occ rem = Inr (y, k)
      \<and> (y \<in> free_keys kd d (committed e) \<longrightarrow> (\<exists>e1.
          finalize_numeric_rows t ct d kd (c # rows) occ rem n e
            = finalize_numeric_rows t ct d kd rows (occ + 1) (rem - 1) (Suc n) e1
          \<and> healthy e1 \<and> keys_ok kd d (committed e1)
          \<and> pairs_of d (committed e1) = pairs_of d (committed e) @ [(int_of_text c, y)]
          \<and> en_spool e1 = drop_numeric_observation d c (en_spool e)
          \<and> (\<exists>rows. committed e1 = (committed e)\<lparr>numeric_key_mappings_tbl := rows\<rparr>))))"
proof -
  let ?x = "int_of_text c" and ?e = "e\<lparr>en_checks := Suc (en_checks e)\<rparr>"
  have nd: "numeric_domain_ok d (committed e)" using ok by (simp add: keys_ok_def)
  have cx: "int_text ?x = c" using c by (rule int_text_of_match)
  have u: "usable ?e" "working ?e = committed e" "healthy ?e" using healthy_usable [OF h] h by auto
  have "numeric_pseudonym_db (committed e) d c = Inr None" using stored_pseudonym(1) [OF nd, of ?x] new cx by simp
  then have get: "get_numeric_pseudonym d c ?e = (Inr None, ?e)" using get_numeric_pseudonym_usable [OF u(1) c] u(2) by simp
  have parse: "parse_canonical_integer_text (VStr c) = Inr ?x" using c by simp
  show ?thesis
  proof (cases "select_numeric_candidate t (en_draws e) (committed e) (en_spool e) d kd ?x occ rem")
    case (Inl err)
    then have "select_on_engine t d kd ?x occ rem ?e = (Inl err, ?e)" using u by (simp add: select_on_engine_def)
    then show ?thesis using Inl q get parse by simp
  next
    case (Inr r)
    obtain y k where r: "r = (y, k)" by (cases r)
    let ?f = "?e\<lparr>en_draws := k\<rparr>"
    have sel: "select_on_engine t d kd ?x occ rem ?e = (Inr y, ?f)"
      using u Inr r by (simp add: select_on_engine_def bindV_def)
    have "\<exists>e1. finalize_numeric_rows t ct d kd (c # rows) occ rem n e = finalize_numeric_rows t ct d kd rows (occ + 1) (rem - 1) (Suc n) e1
          \<and> healthy e1 \<and> keys_ok kd d (committed e1)
          \<and> pairs_of d (committed e1) = pairs_of d (committed e) @ [(?x, y)]
          \<and> en_spool e1 = drop_numeric_observation d c (en_spool e)
          \<and> (\<exists>rows. committed e1 = (committed e)\<lparr>numeric_key_mappings_tbl := rows\<rparr>)" if y: "y \<in> free_keys kd d (committed e)"
    proof -
      obtain w where w: "store_numeric_mapping d c ?x y ?f = (Inr (), w)" "healthy w" "keys_ok kd d (committed w)"
        "pairs_of d (committed w) = pairs_of d (committed e) @ [(?x, y)]" "vault.more w = vault.more ?f"
        "\<exists>rows. committed w = (committed e)\<lparr>numeric_key_mappings_tbl := rows\<rparr>"
        using store_numeric_spec [of ?f d kd ?x y] u(3) d ok new y unfolding cx by auto
      have sp: "en_spool w = en_spool e" using more_engine [OF w(5)] by simp
      let ?e1 = "w\<lparr>en_spool := drop_numeric_observation d c (en_spool e)\<rparr>"
      have "finalize_numeric_rows t ct d kd (c # rows) occ rem n e
          = finalize_numeric_rows t ct d kd rows (occ + 1) (rem - 1) (Suc n) ?e1"
        using q get parse sel w(1) sp by (simp add: on_spool_def)
      then show ?thesis using w by (intro exI [of _ ?e1]) simp
    qed
    then show ?thesis using Inr r by blast
  qed
qed

lemma numeric_loop_completes:
  assumes q: "quiet ct" and d: "validate_token d = Inr d"
  shows "healthy e \<Longrightarrow> numeric_stage kd d rows occ (committed e) (en_spool e) \<Longrightarrow> int (length rows) \<le> rem \<Longrightarrow>
    rem < domain_size kd - occ \<Longrightarrow>
    \<exists>m e'. finalize_numeric_rows t ct d kd rows occ rem n e = (Inr (n + m), e') \<and> numeric_progress kd d e e'
      \<and> length (pairs_of d (committed e')) = length (pairs_of d (committed e)) + m
      \<and> int_of_text ` set rows \<subseteq> fst ` set (pairs_of d (committed e')) \<and> spool_keys d (en_spool e') = {}"
proof (induction rows arbitrary: e occ rem n)
  case Nil
  have "keys_ok kd d (committed e)" using Nil.prems(2) by (simp add: numeric_stage_def)
  then show ?case using Nil.prems stage_spool(2) [OF Nil.prems(2)] numeric_progress_refl by (intro exI [of _ 0] exI [of _ e]) simp
next
  case (Cons c rows)
  have ok: "keys_ok kd d (committed e)" and c: "canonical_integer_match c" and occ: "occ = int (length (numeric_assoc d (committed e)))"
    using Cons.prems(2) by (auto simp: numeric_stage_def)
  show ?case
  proof (cases "int_of_text c \<in> fst ` set (pairs_of d (committed e))")
    case True
    obtain e1 where e1: "finalize_numeric_rows t ct d kd (c # rows) occ rem n e = finalize_numeric_rows t ct d kd rows occ rem n e1"
      "healthy e1" "committed e1 = committed e" "en_spool e1 = drop_numeric_observation d c (en_spool e)"
      using reused_row [OF q Cons.prems(1) ok c True] .
    have st: "numeric_stage kd d rows occ (committed e1) (en_spool e1)"
      unfolding e1(3,4) by (rule drop_numeric_stage [OF Cons.prems(2) ok occ])
    obtain m e' where e': "finalize_numeric_rows t ct d kd rows occ rem n e1 = (Inr (n + m), e')" "numeric_progress kd d e1 e'"
      "length (pairs_of d (committed e')) = length (pairs_of d (committed e1)) + m"
      "int_of_text ` set rows \<subseteq> fst ` set (pairs_of d (committed e'))" "spool_keys d (en_spool e') = {}"
      using Cons.IH [OF e1(2) st _ Cons.prems(4), of n] Cons.prems(3) by auto
    have pr: "numeric_progress kd d e e'" using e'(2) e1(3,4) by (simp add: numeric_progress_def)
    then have "int_of_text c \<in> fst ` set (pairs_of d (committed e'))" using True by (auto simp: numeric_progress_def)
    then show ?thesis using e1(1,3) e' pr by (intro exI [of _ m] exI [of _ e']) auto
  next
    case False
    have x: "int_of_text c \<in> spool_keys d (en_spool e)" using stage_spool(2) [OF Cons.prems(2)] by simp
    obtain y k where y: "select_numeric_candidate t (en_draws e) (committed e) (en_spool e) d kd (int_of_text c) occ rem = Inr (y, k)"
      "y \<in> free_keys kd d (committed e)" "y \<notin> spool_keys d (en_spool e)"
      using select_candidate_total [OF Cons.prems(2) x Cons.prems(3,4)] .
    obtain e1 where e1: "finalize_numeric_rows t ct d kd (c # rows) occ rem n e
        = finalize_numeric_rows t ct d kd rows (occ + 1) (rem - 1) (Suc n) e1"
      "healthy e1" "keys_ok kd d (committed e1)" "pairs_of d (committed e1) = pairs_of d (committed e) @ [(int_of_text c, y)]"
      "en_spool e1 = drop_numeric_observation d c (en_spool e)"
      "\<exists>rows. committed e1 = (committed e)\<lparr>numeric_key_mappings_tbl := rows\<rparr>"
      using fresh_row [OF q Cons.prems(1) d ok c False, of t occ rem rows n] y by auto
    have "length (pairs_of d (committed e1)) = Suc (length (pairs_of d (committed e)))" unfolding e1(4) by simp
    then have occ1: "occ + 1 = int (length (numeric_assoc d (committed e1)))" using occ by (simp add: pairs_of_def)
    have st: "numeric_stage kd d rows (occ + 1) (committed e1) (en_spool e1)"
      unfolding e1(5) by (rule drop_numeric_stage [OF Cons.prems(2) e1(3) occ1])
    obtain m e' where e': "finalize_numeric_rows t ct d kd rows (occ + 1) (rem - 1) (Suc n) e1 = (Inr (Suc n + m), e')"
      "numeric_progress kd d e1 e'" "length (pairs_of d (committed e')) = length (pairs_of d (committed e1)) + m"
      "int_of_text ` set rows \<subseteq> fst ` set (pairs_of d (committed e'))" "spool_keys d (en_spool e') = {}"
      using Cons.IH [OF e1(2) st, of "rem - 1" "Suc n"] Cons.prems(3,4) by auto
    have "y \<noteq> int_of_text c" "contains_pseudonym kd y"
      using x y(2,3) by (auto simp: free_keys_def free_tokens_def contains_pseudonym_iff)
    then have "numeric_progress kd d e e1" using e1 by (auto simp: numeric_progress_def)
    then have pr: "numeric_progress kd d e e'" using e'(2) by (rule numeric_progress_trans)
    have "int_of_text c \<in> fst ` set (pairs_of d (committed e1))" unfolding e1(4) by simp
    then have "int_of_text c \<in> fst ` set (pairs_of d (committed e'))" using e'(2) by (auto simp: numeric_progress_def)
    then show ?thesis using e1(1,4) e' pr by (intro exI [of _ "Suc m"] exI [of _ e']) auto
  qed
qed

text \<open>With exactly as many free keys as fresh originals the kernel refuses before the last commitment.\<close>

lemma numeric_loop_refused:
  assumes q: "quiet ct" and d: "validate_token d = Inr d"
  shows "healthy e \<Longrightarrow> numeric_stage kd d rows occ (committed e) (en_spool e) \<Longrightarrow> rem = int (length rows) \<Longrightarrow>
    domain_size kd - occ = rem \<Longrightarrow> rows \<noteq> [] \<Longrightarrow> int_of_text ` set rows \<inter> fst ` set (pairs_of d (committed e)) = {} \<Longrightarrow>
    fst (finalize_numeric_rows t ct d kd rows occ rem n e) = Inl (pass1_capacity_failure ''ENGINE_NUMERIC_NO_COMPLETION'')"
proof (induction rows arbitrary: e occ rem n)
  case (Cons c rows)
  have ok: "keys_ok kd d (committed e)" and c: "canonical_integer_match c" and occ: "occ = int (length (numeric_assoc d (committed e)))"
    and dist: "distinct (c # rows)" and match: "\<forall>c'\<in>set rows. canonical_integer_match c'"
    using Cons.prems(2) by (auto simp: numeric_stage_def)
  have new: "int_of_text c \<notin> fst ` set (pairs_of d (committed e))" using Cons.prems(6) by auto
  have "1 \<le> domain_size kd - occ" using Cons.prems(3,4) by simp
  note out = select_candidate_outcome [OF Cons.prems(2) this, of t "en_draws e" "int_of_text c" rem]
  note row = fresh_row [OF q Cons.prems(1) d ok c new, of t occ rem rows n]
  from out show ?case
  proof
    assume "\<exists>y k'. select_numeric_candidate t (en_draws e) (committed e) (en_spool e) d kd (int_of_text c) occ rem = Inr (y, k')
      \<and> y \<in> free_keys kd d (committed e) \<and> (y \<noteq> int_of_text c \<and> y \<notin> spool_keys d (en_spool e)
      \<and> residual_rule (domain_size kd - occ - 1) (rem - 1) (spool_keys d (en_spool e) \<inter> free_keys kd d (committed e) \<noteq> {}))"
    then obtain y k' where y: "select_numeric_candidate t (en_draws e) (committed e) (en_spool e) d kd (int_of_text c) occ rem = Inr (y, k')"
      "y \<in> free_keys kd d (committed e)" "1 \<le> domain_size kd - occ - 1" by (auto simp: residual_rule_def)
    obtain e1 where e1: "finalize_numeric_rows t ct d kd (c # rows) occ rem n e
        = finalize_numeric_rows t ct d kd rows (occ + 1) (rem - 1) (Suc n) e1"
      "healthy e1" "keys_ok kd d (committed e1)" "pairs_of d (committed e1) = pairs_of d (committed e) @ [(int_of_text c, y)]"
      "en_spool e1 = drop_numeric_observation d c (en_spool e)"
      using row y by auto
    have "length (pairs_of d (committed e1)) = Suc (length (pairs_of d (committed e)))" unfolding e1(4) by simp
    then have occ1: "occ + 1 = int (length (numeric_assoc d (committed e1)))" using occ by (simp add: pairs_of_def)
    have st: "numeric_stage kd d rows (occ + 1) (committed e1) (en_spool e1)"
      unfolding e1(5) by (rule drop_numeric_stage [OF Cons.prems(2) e1(3) occ1])
    have "rows \<noteq> []" using y(3) Cons.prems(3,4) by auto
    moreover have "int_of_text c \<notin> int_of_text ` set rows"
      using dist match int_text_of_match [OF c] int_text_of_match by (metis distinct.simps(2) imageE)
    then have "int_of_text ` set rows \<inter> fst ` set (pairs_of d (committed e1)) = {}" using Cons.prems(6) unfolding e1(4) by auto
    ultimately show ?thesis using e1(1) Cons.IH [OF e1(2) st, of "rem - 1" "Suc n"] Cons.prems(3,4) by simp
  qed (use row in auto)
qed simp

section \<open>The whole stage\<close>

definition numeric_vault :: "string \<Rightarrow> engine \<Rightarrow> database" where
  "numeric_vault d e = domain_ensured KIND_NUMERIC_KEY d (committed e)"

definition numeric_run_ok :: "numeric_key_domain \<Rightarrow> string \<Rightarrow> engine \<Rightarrow> bool" where
  "numeric_run_ok kd d e \<longleftrightarrow> healthy e \<and> validate_token d = Inr d \<and> keys_ok kd d (numeric_vault d e)
     \<and> distinct (sp_numeric (en_spool e)) \<and> (\<forall>(d', c)\<in>set (sp_numeric (en_spool e)). d' = d \<longrightarrow> canonical_integer_match c)"

lemma stream_facts:
  assumes "distinct (sp_numeric s)"
  shows "distinct (numeric_observation_stream d s)" and "set (numeric_observation_stream d s) = {c. (d, c) \<in> set (sp_numeric s)}"
    and "numeric_unpersisted_count d s = int (length (numeric_observation_stream d s))"
proof -
  have "inj_on snd (set (filter (\<lambda>(d', c). d' = d) (sp_numeric s)))" by (auto simp: inj_on_def)
  then show "distinct (numeric_observation_stream d s)"
    unfolding numeric_observation_stream_def distinct_sort distinct_map using assms by simp
  show "set (numeric_observation_stream d s) = {c. (d, c) \<in> set (sp_numeric s)}"
    by (force simp: numeric_observation_stream_def)
  show "numeric_unpersisted_count d s = int (length (numeric_observation_stream d s))"
    by (simp add: numeric_unpersisted_count_def numeric_observation_stream_def)
qed

text \<open>Up to the loop: the domain exists, its rows are counted and the kernel decides.\<close>

lemma numeric_domain_start:
  assumes ok: "numeric_run_ok kd d e"
  obtains e1 where "healthy e1" and "committed e1 = numeric_vault d e" and "en_spool e1 = en_spool e"
    and "finalize_numeric_domain t ct d kd e =
      (let occ = int (length (numeric_assoc d (numeric_vault d e))); rem = numeric_unpersisted_count d (en_spool e)
       in case numeric_residual_feasible (numeric_vault d e) (en_spool e) d kd occ rem of
            Inl err \<Rightarrow> (Inl err, e1)
          | Inr b \<Rightarrow> if \<not> b then (Inl (pass1_capacity_failure ''ENGINE_NUMERIC_DOMAIN_EXHAUSTED''), e1)
              else finalize_numeric_rows t ct d kd (numeric_observation_stream d (en_spool e)) occ rem 0 e1)"
proof -
  have h: "healthy e" and d: "validate_token d = Inr d" and nd: "numeric_domain_ok d (numeric_vault d e)"
    using ok by (auto simp: numeric_run_ok_def keys_ok_def)
  obtain e1 where e1: "ensure_domain_of_kind KIND_NUMERIC_KEY d e = (Inr (), e1)" "healthy e1"
    "committed e1 = numeric_vault d e" "vault.more e1 = vault.more e"
    using ensure_domain_of_kind_spec [OF h d, of KIND_NUMERIC_KEY] by (auto simp: numeric_vault_def)
  have sp: "en_spool e1 = en_spool e" using more_engine [OF e1(4)] by blast
  have u: "usable e1" "working e1 = numeric_vault d e" using healthy_usable [OF e1(2)] e1(3) by auto
  obtain rs where rs: "numeric_rows_db (numeric_vault d e) d = Inr rs" "mset rs = mset (numeric_assoc d (numeric_vault d e))"
    using numeric_rows_assoc [OF nd] .
  have len: "length rs = length (numeric_assoc d (numeric_vault d e))" using mset_eq_length [OF rs(2)] .
  have "numeric_mapping_rows d e1 = (Inr rs, e1)" using u rs(1) by (simp add: numeric_mapping_rows_def)
  then show thesis
    using that [OF e1(2,3) sp] e1(1) u sp len
    by (simp add: finalize_numeric_domain_def Let_def split: sum.split)
qed

lemma numeric_stage_start:
  assumes "numeric_run_ok kd d e" and "key_bounds_ok kd"
  shows "numeric_stage kd d (numeric_observation_stream d (en_spool e)) (int (length (numeric_assoc d (numeric_vault d e))))
    (numeric_vault d e) (en_spool e)"
  using assms stream_facts [of "en_spool e"] by (auto simp: numeric_stage_def numeric_run_ok_def)

lemma numeric_counts:
  assumes "numeric_run_ok kd d e" and "key_bounds_ok kd"
  shows "numeric_unpersisted_count d (en_spool e) = int (card (spool_keys d (en_spool e)))"
    and "domain_size kd - int (length (numeric_assoc d (numeric_vault d e))) = int (card (free_keys kd d (numeric_vault d e)))"
  using stage_spool(3) [OF numeric_stage_start [OF assms]] stage_free [OF numeric_stage_start [OF assms]] stream_facts(3) [of "en_spool e"] assms(1)
  by (simp_all add: numeric_run_ok_def)

lemma numeric_domain_decision:
  assumes ok: "numeric_run_ok kd d e" and b: "key_bounds_ok kd"
  obtains e1 where "healthy e1" and "committed e1 = numeric_vault d e" and "en_spool e1 = en_spool e"
    and "finalize_numeric_domain t ct d kd e =
      (if \<not> residual_rule (int (card (free_keys kd d (numeric_vault d e)))) (int (card (spool_keys d (en_spool e))))
             (spool_keys d (en_spool e) \<inter> free_keys kd d (numeric_vault d e) \<noteq> {})
       then (Inl (pass1_capacity_failure ''ENGINE_NUMERIC_DOMAIN_EXHAUSTED''), e1)
       else finalize_numeric_rows t ct d kd (numeric_observation_stream d (en_spool e))
              (int (length (numeric_assoc d (numeric_vault d e)))) (int (card (spool_keys d (en_spool e)))) 0 e1)"
proof (rule numeric_domain_start [OF ok, of t ct])
  fix e1
  assume "healthy e1" and "committed e1 = numeric_vault d e" and "en_spool e1 = en_spool e"
    and start: "finalize_numeric_domain t ct d kd e =
      (let occ = int (length (numeric_assoc d (numeric_vault d e))); rem = numeric_unpersisted_count d (en_spool e)
       in case numeric_residual_feasible (numeric_vault d e) (en_spool e) d kd occ rem of
            Inl err \<Rightarrow> (Inl err, e1)
          | Inr b \<Rightarrow> if \<not> b then (Inl (pass1_capacity_failure ''ENGINE_NUMERIC_DOMAIN_EXHAUSTED''), e1)
              else finalize_numeric_rows t ct d kd (numeric_observation_stream d (en_spool e)) occ rem 0 e1)"
  then show thesis
    using that [of e1] residual_feasible_rule [of kd d "numeric_vault d e" "en_spool e"] ok b numeric_counts [OF ok b]
    by (simp add: numeric_run_ok_def)
qed

lemma numeric_refused_cases:
  assumes ok: "numeric_run_ok kd d e" and b: "key_bounds_ok kd" and q: "quiet ct"
    and fresh: "spool_keys d (en_spool e) \<inter> fst ` set (pairs_of d (numeric_vault d e)) = {}"
    and le: "card (free_keys kd d (numeric_vault d e)) \<le> card (spool_keys d (en_spool e))"
  shows "fst (finalize_numeric_domain t ct d kd e) \<in>
    {Inl (pass1_capacity_failure ''ENGINE_NUMERIC_DOMAIN_EXHAUSTED''), Inl (pass1_capacity_failure ''ENGINE_NUMERIC_NO_COMPLETION'')}"
    and "card (free_keys kd d (numeric_vault d e)) = card (spool_keys d (en_spool e)) \<Longrightarrow> 2 \<le> card (spool_keys d (en_spool e)) \<Longrightarrow>
      fst (finalize_numeric_domain t ct d kd e) = Inl (pass1_capacity_failure ''ENGINE_NUMERIC_NO_COMPLETION'')"
proof -
  let ?db = "numeric_vault d e" and ?s = "en_spool e"
  let ?F = "free_keys kd d ?db" and ?S = "spool_keys d ?s" and ?rows = "numeric_observation_stream d ?s"
  have v: "validate_token d = Inr d" using ok by (simp add: numeric_run_ok_def)
  note st = numeric_stage_start [OF ok b]
  let ?rule = "residual_rule (int (card ?F)) (int (card ?S)) (?S \<inter> ?F \<noteq> {})"
  obtain e1 where e1: "healthy e1" "committed e1 = ?db" "en_spool e1 = ?s" and fin: "finalize_numeric_domain t ct d kd e =
      (if \<not> ?rule then (Inl (pass1_capacity_failure ''ENGINE_NUMERIC_DOMAIN_EXHAUSTED''), e1)
       else finalize_numeric_rows t ct d kd ?rows (int (length (numeric_assoc d ?db))) (int (card ?S)) 0 e1)"
    using numeric_domain_decision [OF ok b] .
  have "fst (finalize_numeric_rows t ct d kd ?rows (int (length (numeric_assoc d ?db))) (int (card ?S)) 0 e1)
      = Inl (pass1_capacity_failure ''ENGINE_NUMERIC_NO_COMPLETION'')" if rule: ?rule
  proof (rule numeric_loop_refused [OF q v e1(1)])
    show "numeric_stage kd d ?rows (int (length (numeric_assoc d ?db))) (committed e1) (en_spool e1)" unfolding e1 by (rule st)
    show "int (card ?S) = int (length ?rows)" using stage_spool(3) [OF st] by simp
    show "domain_size kd - int (length (numeric_assoc d ?db)) = int (card ?S)"
      using numeric_counts(2) [OF ok b] le rule by (simp add: residual_rule_def)
    show "?rows \<noteq> []" using stage_spool(3) [OF st] le rule by (auto simp: residual_rule_def)
    show "int_of_text ` set ?rows \<inter> fst ` set (pairs_of d (committed e1)) = {}" using fresh stage_spool(2) [OF st] by (simp add: e1(2))
  qed
  then show "fst (finalize_numeric_domain t ct d kd e) \<in>
    {Inl (pass1_capacity_failure ''ENGINE_NUMERIC_DOMAIN_EXHAUSTED''), Inl (pass1_capacity_failure ''ENGINE_NUMERIC_NO_COMPLETION'')}"
    and "card ?F = card ?S \<Longrightarrow> 2 \<le> card ?S \<Longrightarrow>
      fst (finalize_numeric_domain t ct d kd e) = Inl (pass1_capacity_failure ''ENGINE_NUMERIC_NO_COMPLETION'')"
    unfolding fin by (auto simp: residual_rule_def)
qed

lemma numeric_domain_completes:
  assumes ok: "numeric_run_ok kd d e" and b: "key_bounds_ok kd" and q: "quiet ct"
    and room: "card (spool_keys d (en_spool e)) < card (free_keys kd d (numeric_vault d e))"
  obtains m e1 e' where "finalize_numeric_domain t ct d kd e = (Inr m, e')" and "committed e1 = numeric_vault d e"
    and "en_spool e1 = en_spool e" and "numeric_progress kd d e1 e'"
    and "length (pairs_of d (committed e')) = length (pairs_of d (numeric_vault d e)) + m"
    and "spool_keys d (en_spool e) \<subseteq> fst ` set (pairs_of d (committed e'))" and "spool_keys d (en_spool e') = {}"
proof -
  let ?db = "numeric_vault d e" and ?s = "en_spool e" and ?occ = "int (length (numeric_assoc d (numeric_vault d e)))"
  let ?F = "free_keys kd d ?db" and ?S = "spool_keys d ?s" and ?rows = "numeric_observation_stream d ?s"
  have v: "validate_token d = Inr d" using ok by (simp add: numeric_run_ok_def)
  note st = numeric_stage_start [OF ok b] and counts = numeric_counts [OF ok b]
  obtain e1 where e1: "healthy e1" "committed e1 = ?db" "en_spool e1 = ?s" and dec: "finalize_numeric_domain t ct d kd e =
      (if \<not> residual_rule (int (card ?F)) (int (card ?S)) (?S \<inter> ?F \<noteq> {})
       then (Inl (pass1_capacity_failure ''ENGINE_NUMERIC_DOMAIN_EXHAUSTED''), e1)
       else finalize_numeric_rows t ct d kd ?rows ?occ (int (card ?S)) 0 e1)"
    using numeric_domain_decision [OF ok b] .
  have fin: "finalize_numeric_domain t ct d kd e = finalize_numeric_rows t ct d kd ?rows ?occ (int (card ?S)) 0 e1"
    unfolding dec using room by (auto simp: residual_rule_def)
  have st1: "numeric_stage kd d ?rows ?occ (committed e1) (en_spool e1)" unfolding e1 by (rule st)
  have len: "int (length ?rows) \<le> int (card ?S)" "int (card ?S) < domain_size kd - ?occ"
    using stage_spool(3) [OF st] counts(2) room by simp_all
  obtain m e' where "finalize_numeric_rows t ct d kd ?rows ?occ (int (card ?S)) 0 e1 = (Inr (0 + m), e')"
    "numeric_progress kd d e1 e'" "length (pairs_of d (committed e')) = length (pairs_of d (committed e1)) + m"
    "int_of_text ` set ?rows \<subseteq> fst ` set (pairs_of d (committed e'))" "spool_keys d (en_spool e') = {}"
    using numeric_loop_completes [OF q v e1(1) st1 len, of t 0] by blast
  then show thesis using that [of m e' e1] fin e1(2,3) stage_spool(2) [OF st] by simp
qed

definition sample_numeric_run :: "int list \<Rightarrow> engine" where
  "sample_numeric_run xs = vault.extend transaction_sample
     \<lparr>en_spool = flush (fold (\<lambda>x. observe_numeric_raw ''dom-k'' (int_text x)) xs new_spool), en_draws = 0, en_checks = 0\<rparr>"

text \<open>
  C33. Pass 1 allocates a numeric key domain when it has strictly more free keys than observed
  originals, and no fresh domain otherwise. Take a healthy vault with the writer lease whose persisted
  pseudonyms lie in the domain. With strictly more free keys than observed originals
  \<open>_finalize_numeric\<close> completes for every outcome of the random source: it reports the number of new
  mappings, keeps every existing one, leaves each observed original with a pseudonym, every new
  pseudonym lies in the domain and differs from its original, the rest of the vault and the other
  domains' observations are untouched, and no observation of this domain is left. When none of the
  originals has a mapping yet and there are not strictly more free keys, it raises a capacity error
  for every outcome of the random source.
\<close>

theorem finalize_numeric_completes:
  assumes ok: "numeric_run_ok kd d e" and b: "key_bounds_ok kd" and q: "quiet ct"
  shows "(card (spool_keys d (en_spool e)) < card (free_keys kd d (numeric_vault d e)) \<longrightarrow>
      (\<exists>m e'. finalize_numeric_domain t ct d kd e = (Inr m, e') \<and> healthy e' \<and> numeric_domain_ok d (committed e')
        \<and> length (pairs_of d (committed e')) = length (pairs_of d (numeric_vault d e)) + m
        \<and> set (pairs_of d (numeric_vault d e)) \<subseteq> set (pairs_of d (committed e'))
        \<and> spool_keys d (en_spool e) \<subseteq> fst ` set (pairs_of d (committed e'))
        \<and> (\<forall>(x, y)\<in>set (pairs_of d (committed e')) - set (pairs_of d (numeric_vault d e)). contains_pseudonym kd y \<and> y \<noteq> x)
        \<and> spool_keys d (en_spool e') = {} \<and> other_observations d (en_spool e') = other_observations d (en_spool e)
        \<and> (\<exists>rows. committed e' = (numeric_vault d e)\<lparr>numeric_key_mappings_tbl := rows\<rparr>)))
    \<and> (spool_keys d (en_spool e) \<inter> fst ` set (pairs_of d (numeric_vault d e)) = {} \<longrightarrow>
       card (free_keys kd d (numeric_vault d e)) \<le> card (spool_keys d (en_spool e)) \<longrightarrow>
      (\<exists>detail. fst (finalize_numeric_domain t ct d kd e) = Inl (MappingError MAPPING_CAPACITY_EXHAUSTED detail)))"
proof (intro conjI impI)
  assume room: "card (spool_keys d (en_spool e)) < card (free_keys kd d (numeric_vault d e))"
  obtain m e1 e' where "finalize_numeric_domain t ct d kd e = (Inr m, e')" "committed e1 = numeric_vault d e"
    "en_spool e1 = en_spool e" "numeric_progress kd d e1 e'"
    "length (pairs_of d (committed e')) = length (pairs_of d (numeric_vault d e)) + m"
    "spool_keys d (en_spool e) \<subseteq> fst ` set (pairs_of d (committed e'))" "spool_keys d (en_spool e') = {}"
    using numeric_domain_completes [OF assms room] .
  then show "\<exists>m e'. finalize_numeric_domain t ct d kd e = (Inr m, e') \<and> healthy e' \<and> numeric_domain_ok d (committed e')
        \<and> length (pairs_of d (committed e')) = length (pairs_of d (numeric_vault d e)) + m
        \<and> set (pairs_of d (numeric_vault d e)) \<subseteq> set (pairs_of d (committed e'))
        \<and> spool_keys d (en_spool e) \<subseteq> fst ` set (pairs_of d (committed e'))
        \<and> (\<forall>(x, y)\<in>set (pairs_of d (committed e')) - set (pairs_of d (numeric_vault d e)). contains_pseudonym kd y \<and> y \<noteq> x)
        \<and> spool_keys d (en_spool e') = {} \<and> other_observations d (en_spool e') = other_observations d (en_spool e)
        \<and> (\<exists>rows. committed e' = (numeric_vault d e)\<lparr>numeric_key_mappings_tbl := rows\<rparr>)"
    by (intro exI [of _ m] exI [of _ e']) (simp add: numeric_progress_def keys_ok_def)
next
  assume "spool_keys d (en_spool e) \<inter> fst ` set (pairs_of d (numeric_vault d e)) = {}"
    and "card (free_keys kd d (numeric_vault d e)) \<le> card (spool_keys d (en_spool e))"
  then show "\<exists>detail. fst (finalize_numeric_domain t ct d kd e) = Inl (MappingError MAPPING_CAPACITY_EXHAUSTED detail)"
    using numeric_refused_cases(1) [OF assms, where t = t] by (auto simp: pass1_capacity_failure_def)
qed

lemma sample_numeric_ok:
  assumes "sp_numeric (en_spool (sample_numeric_run xs)) = map (\<lambda>x. (''dom-k'', int_text x)) ys" and "distinct ys"
  shows "numeric_run_ok kd ''dom-k'' (sample_numeric_run xs)"
    and "spool_keys ''dom-k'' (en_spool (sample_numeric_run xs)) = set ys"
    and "free_keys kd ''dom-k'' (numeric_vault ''dom-k'' (sample_numeric_run xs)) = {dom_low kd..dom_high kd}"
    and "pairs_of ''dom-k'' (numeric_vault ''dom-k'' (sample_numeric_run xs)) = []"
proof -
  have rows: "numeric_rows_of ''dom-k'' (numeric_vault ''dom-k'' (sample_numeric_run xs)) = []"
    "has_domain_db (numeric_vault ''dom-k'' (sample_numeric_run xs)) ''dom-k''" "healthy (sample_numeric_run xs)"
    by (simp_all add: numeric_vault_def sample_numeric_run_def domain_ensured_def numeric_rows_of_def has_domain_db_def
        transaction_sample_def vault.defs healthy_def authority_ok_def vault_idle_def Let_def)
  show pairs: "pairs_of ''dom-k'' (numeric_vault ''dom-k'' (sample_numeric_run xs)) = []"
    using rows by (simp add: pairs_of_def numeric_assoc_def)
  then show "free_keys kd ''dom-k'' (numeric_vault ''dom-k'' (sample_numeric_run xs)) = {dom_low kd..dom_high kd}"
    by (simp add: free_keys_def free_tokens_def)
  have "validate_token ''dom-k'' = Inr ''dom-k''" by code_simp
  moreover have "distinct (map (\<lambda>x. (''dom-k'', int_text x)) ys)" using assms(2) by (auto simp: distinct_map inj_on_def)
  ultimately show "numeric_run_ok kd ''dom-k'' (sample_numeric_run xs)"
    using rows pairs assms(1)
    by (auto simp: numeric_run_ok_def keys_ok_def numeric_domain_ok_def numeric_assoc_def int_text_match)
  show "spool_keys ''dom-k'' (en_spool (sample_numeric_run xs)) = set ys" unfolding spool_keys_def assms(1) by auto
qed

theorem finalize_numeric_completes_witness:
  "(\<exists>m e'. finalize_numeric_domain (\<lambda>_. 5) (\<lambda>_. Continue) ''dom-k'' sample_key_domain (sample_numeric_run [1, 7, 1]) = (Inr m, e')
      \<and> {1, 7} \<subseteq> fst ` set (pairs_of ''dom-k'' (committed e')))
   \<and> (\<exists>detail. fst (finalize_numeric_domain (\<lambda>_. 4) (\<lambda>_. Continue) ''dom-k'' sample_key_domain (sample_numeric_run [8, 7, 9]))
      = Inl (MappingError MAPPING_CAPACITY_EXHAUSTED detail))"
proof -
  have sp: "sp_numeric (en_spool (sample_numeric_run [1, 7, 1])) = map (\<lambda>x. (''dom-k'', int_text x)) [1, 7]"
    "sp_numeric (en_spool (sample_numeric_run [8, 7, 9])) = map (\<lambda>x. (''dom-k'', int_text x)) [8, 7, 9]" by code_simp+
  note a = sample_numeric_ok(1,3) [OF sp(1), of sample_key_domain] sample_numeric_ok(2,4) [OF sp(1)]
  note b = sample_numeric_ok(1,3) [OF sp(2), of sample_key_domain] sample_numeric_ok(2,4) [OF sp(2)]
  have k: "key_bounds_ok sample_key_domain" "quiet (\<lambda>_. Continue)" by (simp_all add: key_bounds_ok_def sample_key_domain_def quiet_def)
  have "\<exists>m e'. finalize_numeric_domain (\<lambda>_. 5) (\<lambda>_. Continue) ''dom-k'' sample_key_domain (sample_numeric_run [1, 7, 1]) = (Inr m, e')
      \<and> {1, 7} \<subseteq> fst ` set (pairs_of ''dom-k'' (committed e'))"
    using finalize_numeric_completes [OF _ k, of "''dom-k''" "sample_numeric_run [1, 7, 1]" "\<lambda>_. 5"] a
    by (simp add: sample_key_domain_def) blast
  moreover have "\<exists>detail. fst (finalize_numeric_domain (\<lambda>_. 4) (\<lambda>_. Continue) ''dom-k'' sample_key_domain (sample_numeric_run [8, 7, 9]))
      = Inl (MappingError MAPPING_CAPACITY_EXHAUSTED detail)"
    using finalize_numeric_completes [OF _ k, of "''dom-k''" "sample_numeric_run [8, 7, 9]" "\<lambda>_. 4"] b
    by (simp add: sample_key_domain_def)
  ultimately show ?thesis by blast
qed

text \<open>
  C34. The stage is stricter than the planner it says it agrees with. When as many keys are free as
  there are fresh originals, two or more, \<open>plan_numeric_bijection\<close> reports the same problem
  feasible, yet \<open>_finalize_numeric\<close> always ends in \<open>ENGINE_NUMERIC_NO_COMPLETION\<close>: its kernel also
  demands a free key after the last commitment.
\<close>

theorem engine_stricter_than_planner:
  assumes ok: "numeric_run_ok kd d e" and b: "key_bounds_ok kd" and q: "quiet ct"
    and fresh: "spool_keys d (en_spool e) \<inter> fst ` set (pairs_of d (numeric_vault d e)) = {}"
    and full: "card (free_keys kd d (numeric_vault d e)) = card (spool_keys d (en_spool e))" and two: "2 \<le> card (spool_keys d (en_spool e))"
  shows "plan_numeric_bijection kd (map int_of_text (numeric_observation_stream d (en_spool e)))
        (map snd (pairs_of d (numeric_vault d e))) = Inr True
    \<and> fst (finalize_numeric_domain t ct d kd e) = Inl (pass1_capacity_failure ''ENGINE_NUMERIC_NO_COMPLETION'')"
proof -
  let ?xs = "map int_of_text (numeric_observation_stream d (en_spool e))" and ?F = "free_keys kd d (numeric_vault d e)"
  note st = numeric_stage_start [OF ok b]
  have keys: "set ?xs = spool_keys d (en_spool e)" using stage_spool(2) [OF st] by simp
  then have dist: "distinct ?xs" using stage_spool(3) [OF st] by (intro card_distinct) (simp del: set_map)
  have "?F - {x} \<noteq> {}" for x
  proof
    assume "?F - {x} = {}"
    then have "card ?F \<le> card {x}" by (intro card_mono) auto
    then show False using full two by simp
  qed
  then have "feasible ?F (set ?xs)" using full by (simp add: feasible_def keys del: set_map)
  then have "plan_numeric_bijection kd ?xs (map snd (pairs_of d (numeric_vault d e))) = Inr True"
    using plan_numeric_bijection_feasible [of kd ?xs "map snd (pairs_of d (numeric_vault d e))"] dist b
    by (simp add: free_keys_def key_bounds_ok_def)
  then show ?thesis using numeric_refused_cases(2) [OF ok b q fresh _ full two] full by simp
qed

theorem engine_stricter_than_planner_witness:
  "plan_numeric_bijection sample_key_domain (map int_of_text (numeric_observation_stream ''dom-k'' (en_spool (sample_numeric_run [0, 1, 2]))))
      (map snd (pairs_of ''dom-k'' (numeric_vault ''dom-k'' (sample_numeric_run [0, 1, 2])))) = Inr True
   \<and> fst (finalize_numeric_domain (\<lambda>_. 1) (\<lambda>_. Continue) ''dom-k'' sample_key_domain (sample_numeric_run [0, 1, 2]))
      = Inl (pass1_capacity_failure ''ENGINE_NUMERIC_NO_COMPLETION'')"
proof -
  have sp: "sp_numeric (en_spool (sample_numeric_run [0, 1, 2])) = map (\<lambda>x. (''dom-k'', int_text x)) [0, 1, 2]" by code_simp
  note a = sample_numeric_ok(1,3) [OF sp, of sample_key_domain] sample_numeric_ok(2,4) [OF sp]
  have k: "key_bounds_ok sample_key_domain" "quiet (\<lambda>_. Continue)" by (simp_all add: key_bounds_ok_def sample_key_domain_def quiet_def)
  show ?thesis
    by (rule engine_stricter_than_planner [OF a(1) k]) (use a in \<open>simp_all add: sample_key_domain_def\<close>)
qed

text \<open>
  A rerun over persisted keys can be refused for lack of room it does not need. The start test
  counts every spooled observation, also those that already have a mapping: when all observed
  originals are persisted and fewer keys are free than were observed, \<open>_finalize_numeric\<close> raises
  \<open>ENGINE_NUMERIC_DOMAIN_EXHAUSTED\<close> although no original is left to allocate.
\<close>

theorem numeric_rerun_refused:
  assumes ok: "numeric_run_ok kd d e" and b: "key_bounds_ok kd"
    and "spool_keys d (en_spool e) \<subseteq> fst ` set (pairs_of d (numeric_vault d e))"
    and less: "card (free_keys kd d (numeric_vault d e)) < card (spool_keys d (en_spool e))"
  shows "fst (finalize_numeric_domain t ct d kd e) = Inl (pass1_capacity_failure ''ENGINE_NUMERIC_DOMAIN_EXHAUSTED'')
    \<and> filter (\<lambda>x. x \<notin> fst ` set (pairs_of d (numeric_vault d e))) (map int_of_text (numeric_observation_stream d (en_spool e))) = []"
proof -
  obtain e1 where "finalize_numeric_domain t ct d kd e =
      (if \<not> residual_rule (int (card (free_keys kd d (numeric_vault d e)))) (int (card (spool_keys d (en_spool e))))
             (spool_keys d (en_spool e) \<inter> free_keys kd d (numeric_vault d e) \<noteq> {})
       then (Inl (pass1_capacity_failure ''ENGINE_NUMERIC_DOMAIN_EXHAUSTED''), e1)
       else finalize_numeric_rows t ct d kd (numeric_observation_stream d (en_spool e))
              (int (length (numeric_assoc d (numeric_vault d e)))) (int (card (spool_keys d (en_spool e)))) 0 e1)"
    using numeric_domain_decision [OF ok b] .
  moreover have "set (map int_of_text (numeric_observation_stream d (en_spool e))) = spool_keys d (en_spool e)"
    using stage_spool(2) [OF numeric_stage_start [OF ok b]] by simp
  ultimately show ?thesis using less assms(3) by (auto simp: residual_rule_def filter_empty_conv)
qed

definition persisted_run :: engine where
  "persisted_run = (let e = sample_numeric_run [5, 6]; db = (committed e)\<lparr>
       mapping_domains_tbl := [\<lparr>dr_id = ''dom-k'', dr_kind = KIND_NUMERIC_KEY, dr_normalization = None, dr_role = None\<rparr>],
       numeric_key_mappings_tbl := [numeric_insert_row ''dom-k'' (int_text 5) (int_text 0), numeric_insert_row ''dom-k'' (int_text 6) (int_text 1)]\<rparr>
     in e\<lparr>committed := db, working := db\<rparr>)"

theorem numeric_rerun_refused_witness:
  "fst (finalize_numeric_domain (\<lambda>_. 0) (\<lambda>_. Continue) ''dom-k'' sample_key_domain persisted_run)
     = Inl (pass1_capacity_failure ''ENGINE_NUMERIC_DOMAIN_EXHAUSTED'')"
proof -
  let ?db = "numeric_vault ''dom-k'' persisted_run"
  have sp: "sp_numeric (en_spool persisted_run) = map (\<lambda>x. (''dom-k'', int_text x)) [5, 6]" by code_simp
  have tok: "validate_token ''dom-k'' = Inr ''dom-k''" by code_simp
  have rows: "numeric_rows_of ''dom-k'' ?db = [numeric_insert_row ''dom-k'' (int_text 5) (int_text 0), numeric_insert_row ''dom-k'' (int_text 6) (int_text 1)]"
    "has_domain_db ?db ''dom-k''" "healthy persisted_run"
    by (simp_all add: numeric_vault_def persisted_run_def sample_numeric_run_def domain_ensured_def numeric_rows_of_def has_domain_db_def
        numeric_insert_row_def transaction_sample_def vault.defs healthy_def authority_ok_def vault_idle_def Let_def)
  have assoc: "numeric_assoc ''dom-k'' ?db = [(int_text 5, int_text 0), (int_text 6, int_text 1)]"
    unfolding numeric_assoc_def rows by (simp add: numeric_insert_row_def)
  then have pairs: "pairs_of ''dom-k'' ?db = [(5, 0), (6, 1)]" by (simp add: pairs_of_def int_of_int_text)
  have nd: "numeric_domain_ok ''dom-k'' ?db"
    unfolding numeric_domain_ok_def rows assoc using rows(2) by (auto simp: numeric_row_ok_def numeric_insert_row_def int_text_match)
  have ok: "numeric_run_ok sample_key_domain ''dom-k'' persisted_run"
    unfolding numeric_run_ok_def keys_ok_def pairs sp using rows(3) tok nd
    by (auto simp: sample_key_domain_def contains_pseudonym_def int_text_match)
  have S: "spool_keys ''dom-k'' (en_spool persisted_run) = {5, 6}" unfolding spool_keys_def sp by auto
  have "free_keys sample_key_domain ''dom-k'' ?db = {2}"
    unfolding free_keys_def free_tokens_def pairs by (auto simp: sample_key_domain_def)
  then have "card (free_keys sample_key_domain ''dom-k'' ?db) < card (spool_keys ''dom-k'' (en_spool persisted_run))" unfolding S by simp
  moreover have "spool_keys ''dom-k'' (en_spool persisted_run) \<subseteq> fst ` set (pairs_of ''dom-k'' ?db)" unfolding S pairs by simp
  moreover have "key_bounds_ok sample_key_domain" by (simp add: key_bounds_ok_def sample_key_domain_def)
  ultimately show ?thesis using numeric_rerun_refused [OF ok, of "\<lambda>_. 0" "\<lambda>_. Continue"] by blast
qed

text \<open>
  The widest integral fields overflow the store. For a key domain over one \<open>N(19,0)\<close> or \<open>N(20,0)\<close>
  member, which the kernel accepts, every run that observes an original ends in Python's
  \<open>OverflowError\<close>, not in a typed error: the domain's bounds do not fit a 64-bit SQL parameter.
\<close>

theorem wide_domain_overflows:
  assumes w: "19 \<le> w" and m: "integral_numeric_member w = Inr m" and kd: "numeric_key_domain_for [m] = Inr kd"
    and ok: "numeric_run_ok kd d e" and some: "0 < numeric_unpersisted_count d (en_spool e)"
    and room: "int (length (numeric_assoc d (numeric_vault d e))) + numeric_unpersisted_count d (en_spool e) \<le> domain_size kd"
  shows "fst (finalize_numeric_domain t ct d kd e) = Inl OverflowError"
proof -
  have "w = 19 \<or> w = 20" using w m by (auto simp: integral_numeric_member_def integral_numeric_range_def NUMERIC_KEY_MAX_WIDTH_def
        bindE_def split: if_splits)
  then have "dom_high kd = 10 ^ 19 - 1 \<or> dom_high kd = 10 ^ 20 - 1"
    using m kd by (auto simp: integral_numeric_member_def integral_numeric_range_def NUMERIC_KEY_MAX_WIDTH_def
        numeric_key_domain_for_def intersect_ranges_def Let_def)
  then have "bind_int (dom_high kd) = Inl OverflowError" by (auto simp: bind_int_def guardE_def)
  then have "spool_value_free_in_domain db s d kd = Inl OverflowError" for db s
    by (auto simp: spool_value_free_in_domain_def bind_int_def guardE_def)
  moreover obtain e1 where "finalize_numeric_domain t ct d kd e =
      (let occ = int (length (numeric_assoc d (numeric_vault d e))); rem = numeric_unpersisted_count d (en_spool e)
       in case numeric_residual_feasible (numeric_vault d e) (en_spool e) d kd occ rem of
            Inl err \<Rightarrow> (Inl err, e1)
          | Inr b \<Rightarrow> if \<not> b then (Inl (pass1_capacity_failure ''ENGINE_NUMERIC_DOMAIN_EXHAUSTED''), e1)
              else finalize_numeric_rows t ct d kd (numeric_observation_stream d (en_spool e)) occ rem 0 e1)"
    using numeric_domain_start [OF ok] .
  ultimately show ?thesis using some room by (simp add: numeric_residual_feasible_def Let_def)
qed

theorem wide_domain_overflows_witness:
  "fst (finalize_numeric_domain (\<lambda>_. 0) (\<lambda>_. Continue) ''dom-k''
      (projr (numeric_key_domain_for [projr (integral_numeric_member 19)])) (sample_numeric_run [5])) = Inl OverflowError"
proof -
  let ?m = "projr (integral_numeric_member 19)" and ?kd = "projr (numeric_key_domain_for [projr (integral_numeric_member 19)])"
  have m: "integral_numeric_member 19 = Inr ?m"
    by (simp add: integral_numeric_member_def integral_numeric_range_def NUMERIC_KEY_MAX_WIDTH_def)
  have kd: "numeric_key_domain_for [?m] = Inr ?kd" and size: "1 \<le> domain_size ?kd"
    by (simp_all add: integral_numeric_member_def integral_numeric_range_def NUMERIC_KEY_MAX_WIDTH_def
        numeric_key_domain_for_def intersect_ranges_def domain_size_def Let_def)
  have sp: "sp_numeric (en_spool (sample_numeric_run [5])) = map (\<lambda>x. (''dom-k'', int_text x)) [5]" by code_simp
  have "numeric_assoc ''dom-k'' (numeric_vault ''dom-k'' (sample_numeric_run [5])) = []"
    using sample_numeric_ok(4) [OF sp] by (simp add: pairs_of_def)
  moreover have "numeric_unpersisted_count ''dom-k'' (en_spool (sample_numeric_run [5])) = 1"
    unfolding numeric_unpersisted_count_def sp by simp
  ultimately show ?thesis
    using wide_domain_overflows [OF _ m kd sample_numeric_ok(1) [OF sp, of ?kd], of "\<lambda>_. 0" "\<lambda>_. Continue"] size by simp
qed

end
