(* ===== verification/Pass_One_Scan.thy ===== *)
theory Pass_One_Scan
  imports Pass_One_Numeric Engine_Plan
begin

text \<open>
  The scan and the finalization of pass 1 (\<^verbatim>\<open>src/src/dbf_anonymizer/engine/pass1.py\<close>,
  \<open>run_pass_one\<close>, \<open>_observe_record\<close>, \<open>run_pass_one_finalize\<close>). The Direct Read boundary
  is the parameter \<open>source_reader\<close>: opening a table may fail, and its stream is the list of what
  the iterator yields, a record or the error it raises. Progress events are not modelled.
\<close>

section \<open>State\<close>

record pass_one_outcome =
  po_text_domain_id :: "string option"
  po_text_allocated :: nat
  po_text_reused :: nat
  po_numeric_domains :: "string list"
  po_numeric_allocated :: "string \<rightharpoonup> nat"
  po_temporal_offset :: "int option"
  po_temporal_domain_id :: "string option"
  po_tables_scanned :: nat
  po_records_scanned :: nat
  po_deleted_scanned :: nat
  po_read_streams :: "(string \<times> string) list"

text \<open>
  The objects \<open>run_pass_one\<close> works on: the writer vault and the spool (the engine state), the temporal
  domain object when the plan has temporal fields, and the outcome. The temporal object holds a
  reference to the same vault; its copy of the vault is refreshed where it is used.
\<close>

record pass_one =
  p1_engine :: engine
  p1_temporal :: "temporal_domain option"
  p1_outcome :: pass_one_outcome

record source_reader =
  sr_open :: "string \<Rightarrow> unit result"
  sr_stream :: "string \<Rightarrow> string list option \<Rightarrow> bool \<Rightarrow> direct_record result list"

type_synonym memo_bindings = "string \<times> string \<rightharpoonup> string \<times> string"
type_synonym 'a pass_one_op = "pass_one \<Rightarrow> 'a result \<times> pass_one"

definition bindS :: "('s \<Rightarrow> 'a result \<times> 's) \<Rightarrow> ('a \<Rightarrow> 's \<Rightarrow> 'b result \<times> 's) \<Rightarrow> 's \<Rightarrow> 'b result \<times> 's" where
  "bindS m f = (\<lambda>s. case m s of (Inl e, s') \<Rightarrow> (Inl e, s') | (Inr x, s') \<Rightarrow> f x s')"

fun eachS :: "('a \<Rightarrow> 's \<Rightarrow> unit result \<times> 's) \<Rightarrow> 'a list \<Rightarrow> 's \<Rightarrow> unit result \<times> 's" where
  "eachS f [] s = (Inr (), s)"
| "eachS f (x # xs) s = bindS (f x) (\<lambda>_. eachS f xs) s"

definition on_engine :: "'a engine_op \<Rightarrow> 'a pass_one_op" where
  "on_engine f p = (case f (p1_engine p) of (r, e) \<Rightarrow> (r, p\<lparr>p1_engine := e\<rparr>))"

definition flush_spool :: "unit pass_one_op" where
  "flush_spool = on_engine (on_spool (\<lambda>s. Inr (flush s)))"

section \<open>The scan\<close>

definition projection_fields :: "table_directive \<Rightarrow> string list option" where
  "projection_fields tab =
     (let names = map fd_name (tab_transformed tab) @ tab_relation_fields tab
      in if names = [] then None else Some (sort (remdups names)))"

definition observe_text_field :: "field_directive \<Rightarrow> pyval \<Rightarrow> spool \<Rightarrow> spool result" where
  "observe_text_field fd v s =
     (if v = VNone \<or> v = VStr [] then Inr s
      else case v of
             VStr t \<Rightarrow> bindE (observe_text_raw t (fd_width fd) s) (\<lambda>s'. Inr (observe_text_encoding (fd_encoding fd) s'))
           | _ \<Rightarrow> Inl (pass1_mapping_failure ''ENGINE_TEXT_VALUE_UNSUPPORTED''))"

definition observe_numeric_field :: "field_directive \<Rightarrow> pyval \<Rightarrow> spool \<Rightarrow> spool result" where
  "observe_numeric_field fd v s =
     (case v of
        VNone \<Rightarrow> Inr s
      | VInt i \<Rightarrow>
          (case (fd_numeric_domain fd, fd_member_range fd) of
             (Some d, Some member) \<Rightarrow>
               (case classify_member_original member i of
                  OUT_OF_MEMBER_RANGE \<Rightarrow> Inl (pass1_mapping_failure ''ENGINE_NUMERIC_OUT_OF_MEMBER_RANGE'')
                | RECOVERY_UNWRITABLE \<Rightarrow> Inl (pass1_mapping_failure ''NUMERIC_KEY_RECOVERY_UNWRITABLE'')
                | REVERSIBLE \<Rightarrow> Inr (observe_numeric_raw d (int_text i) s))
           | _ \<Rightarrow> Inl AssertionError)
      | _ \<Rightarrow> Inl (pass1_mapping_failure ''ENGINE_NUMERIC_VALUE_UNSUPPORTED''))"

definition observe_temporal_field :: "pyval \<Rightarrow> unit pass_one_op" where
  "observe_temporal_field v p =
     (case p1_temporal p of
        None \<Rightarrow> (Inr (), p)
      | Some m \<Rightarrow> (case observe_temporal v m of (r, m') \<Rightarrow> (r, p\<lparr>p1_temporal := Some m'\<rparr>)))"

definition observe_memo_field :: "memo_bindings \<Rightarrow> string \<Rightarrow> int \<Rightarrow> field_directive \<Rightarrow> pyval \<Rightarrow> unit pass_one_op" where
  "observe_memo_field bindings path index fd v p =
     (case bindings (path, fd_name fd) of
        None \<Rightarrow> (Inl (pass1_mapping_failure ''ENGINE_MEMO_BINDING_MISSING''), p)
      | Some (table_id, field_id) \<Rightarrow>
          on_engine (bindV (persist_memo_recovery \<lparr>mi_table = table_id, mi_index = index, mi_field = field_id\<rparr> (fd_type fd) v)
            (\<lambda>_. retV ())) p)"

definition observe_field :: "memo_bindings \<Rightarrow> table_directive \<Rightarrow> direct_record \<Rightarrow> field_directive \<Rightarrow> unit pass_one_op" where
  "observe_field bindings tab r fd p =
     (let v = field_value (rec_values r) (fd_name fd)
      in if fd_numeric_domain fd \<noteq> None then on_engine (on_spool (observe_numeric_field fd v)) p
         else if fd_action fd = ACTION_TEXT then on_engine (on_spool (observe_text_field fd v)) p
         else if fd_action fd = ACTION_TEMPORAL then observe_temporal_field v p
         else if fd_action fd = ACTION_MEMO then observe_memo_field bindings (tab_path tab) (rec_index r) fd v p
         else (Inr (), p))"

definition observe_record :: "memo_bindings \<Rightarrow> relation_directive list \<Rightarrow> table_directive \<Rightarrow> direct_record \<Rightarrow> unit pass_one_op" where
  "observe_record bindings rels tab r =
     bindS (eachS (observe_field bindings tab r) (tab_transformed tab)) (\<lambda>_.
       eachS (\<lambda>rel. on_engine (on_spool (observe_before_relation tab r rel))) rels)"

definition count_record :: "direct_record \<Rightarrow> unit pass_one_op" where
  "count_record r p =
     (Inr (), p\<lparr>p1_outcome := (p1_outcome p)\<lparr>po_records_scanned := Suc (po_records_scanned (p1_outcome p)),
        po_deleted_scanned := po_deleted_scanned (p1_outcome p) + (if rec_deleted r then 1 else 0)\<rparr>\<rparr>)"

fun scan_item :: "cancel_tape \<Rightarrow> memo_bindings \<Rightarrow> relation_directive list \<Rightarrow> table_directive \<Rightarrow> direct_record result \<Rightarrow> unit pass_one_op" where
  "scan_item ct bindings rels tab (Inl e) p = (Inl e, p)"
| "scan_item ct bindings rels tab (Inr r) p =
     bindS (on_engine (check_cancelled ct)) (\<lambda>_. bindS (observe_record bindings rels tab r) (\<lambda>_. count_record r)) p"

definition scan_table ::
    "source_reader \<Rightarrow> cancel_tape \<Rightarrow> memo_bindings \<Rightarrow> relation_directive list \<Rightarrow> table_directive \<Rightarrow> unit pass_one_op" where
  "scan_table rd ct bindings rels tab =
     bindS (on_engine (check_cancelled ct)) (\<lambda>_.
     bindS (\<lambda>p. (sr_open rd (tab_path tab), p)) (\<lambda>_.
     bindS flush_spool (\<lambda>_.
     bindS (\<lambda>p. (Inr (), p\<lparr>p1_outcome := (p1_outcome p)\<lparr>po_read_streams := po_read_streams (p1_outcome p) @ [(''pass1'', tab_path tab)]\<rparr>\<rparr>)) (\<lambda>_.
     bindS (eachS (scan_item ct bindings rels tab) (sr_stream rd (tab_path tab) (projection_fields tab) (tab_memo_fields tab \<noteq> []))) (\<lambda>_.
     bindS (\<lambda>p. (Inr (), p\<lparr>p1_outcome := (p1_outcome p)\<lparr>po_tables_scanned := Suc (po_tables_scanned (p1_outcome p))\<rparr>\<rparr>)) (\<lambda>_.
       flush_spool))))))"

definition run_pass_one :: "source_reader \<Rightarrow> cancel_tape \<Rightarrow> memo_bindings \<Rightarrow> engine_plan \<Rightarrow> unit pass_one_op" where
  "run_pass_one rd ct bindings plan = eachS (scan_table rd ct bindings (ep_relations plan)) (ep_tables plan)"

section \<open>Finalization\<close>

definition finalize_text_stage :: "tape \<Rightarrow> cancel_tape \<Rightarrow> codec \<Rightarrow> unit pass_one_op" where
  "finalize_text_stage t ct codec =
     bindS (on_engine (finalize_text t ct codec)) (\<lambda>(d, allocated, reused) p.
       (Inr (), p\<lparr>p1_outcome := (p1_outcome p)\<lparr>po_text_domain_id := d, po_text_allocated := allocated, po_text_reused := reused\<rparr>\<rparr>))"

definition finalize_relation_stage :: "tape \<Rightarrow> cancel_tape \<Rightarrow> relation_directive \<Rightarrow> unit pass_one_op" where
  "finalize_relation_stage t ct rel p =
     (case (rel_numeric_domain_id rel, rel_numeric_domain rel) of
        (Some d, Some kd) \<Rightarrow>
          bindS (on_engine (finalize_numeric_domain t ct d kd)) (\<lambda>allocated.
          bindS (\<lambda>p. (Inr (), p\<lparr>p1_outcome := (p1_outcome p)\<lparr>po_numeric_domains := po_numeric_domains (p1_outcome p) @ [d],
              po_numeric_allocated := (po_numeric_allocated (p1_outcome p))(d \<mapsto> allocated)\<rparr>\<rparr>)) (\<lambda>_.
            on_engine (check_cancelled ct))) p
      | _ \<Rightarrow> (Inr (), p))"

definition finalize_temporal_stage :: "tape \<Rightarrow> unit pass_one_op" where
  "finalize_temporal_stage t p =
     (case p1_temporal p of
        None \<Rightarrow> (Inr (), p)
      | Some m \<Rightarrow>
          (case finalize_temporal t (vault.extend (vault.truncate (p1_engine p)) (vault.more m)) of
             (r, m') \<Rightarrow>
               let p' = p\<lparr>p1_engine := vault.extend (vault.truncate m') (vault.more (p1_engine p)), p1_temporal := Some m'\<rparr>
               in case r of
                    Inl e \<Rightarrow> (Inl e, p')
                  | Inr offset \<Rightarrow> (Inr (), p'\<lparr>p1_outcome := (p1_outcome p')\<lparr>po_temporal_offset := offset,
                        po_temporal_domain_id := Some (td_domain_id m')\<rparr>\<rparr>)))"

definition run_pass_one_finalize :: "tape \<Rightarrow> cancel_tape \<Rightarrow> codec \<Rightarrow> engine_plan \<Rightarrow> unit pass_one_op" where
  "run_pass_one_finalize t ct codec plan =
     bindS (if ep_text_present plan then finalize_text_stage t ct codec else (\<lambda>p. (Inr (), p))) (\<lambda>_.
     bindS (on_engine (check_cancelled ct)) (\<lambda>_.
     bindS (eachS (finalize_relation_stage t ct) (ep_relations plan)) (\<lambda>_.
       finalize_temporal_stage t)))"

section \<open>Runs that succeed\<close>

lemma bindS_InrE:
  assumes "bindS m f s = (Inr y, t)"
  obtains x s1 where "m s = (Inr x, s1)" and "f x s1 = (Inr y, t)"
  using assms by (auto simp: bindS_def split: prod.splits sum.splits)

lemma on_engine_InrE:
  assumes "on_engine f p = (Inr y, p')"
  obtains e where "f (p1_engine p) = (Inr y, e)" and "p' = p\<lparr>p1_engine := e\<rparr>"
  using assms by (auto simp: on_engine_def split: prod.splits)

lemma on_spool_InrE:
  assumes "on_spool f e = (Inr y, e')"
  obtains s where "f (en_spool e) = Inr s" and "e' = e\<lparr>en_spool := s\<rparr>"
  using assms by (auto simp: on_spool_def split: sum.splits)

text \<open>Vault operations of the recorders leave the extension of the connection record alone.\<close>

definition keeps_more :: "('a, 'x) vm \<Rightarrow> bool" where
  "keeps_more m \<longleftrightarrow> (\<forall>v. vault.more (snd (m v)) = vault.more v)"

lemma keeps_more_bindV: "keeps_more m \<Longrightarrow> (\<And>x. keeps_more (f x)) \<Longrightarrow> keeps_more (bindV m f)"
  by (auto simp: keeps_more_def bindV_def split: prod.split sum.split) (metis snd_conv)+

lemma keeps_more_basic:
  "keeps_more (retV x)" "keeps_more (failV e)" "keeps_more (liftV r)" "keeps_more (guardV b e)" "keeps_more internal_connection"
  "keeps_more require_active_transaction" "keeps_more require_trusted_connection" "keeps_more (execute_insert ins err)"
  by (auto simp: keeps_more_def guardV_def internal_connection_def require_active_transaction_def
      require_trusted_connection_def execute_insert_def bindV_def split: option.split)

lemma keeps_more_transaction:
  assumes "keeps_more body"
  shows "keeps_more (with_transaction body)"
proof -
  have b: "body v = (r, w) \<Longrightarrow> vault.more w = vault.more v" for v r w using assms unfolding keeps_more_def by (metis snd_conv)
  show ?thesis
    by (auto simp: keeps_more_def with_transaction_def bindV_def require_trusted_connection_def run_transaction_def Let_def
        verify_writer_ownership_def do_rollback_def do_commit_def split: prod.split sum.split dest!: b)
qed

lemma keeps_more_persist_memo: "keeps_more (persist_memo_recovery i ty v)"
  unfolding persist_memo_recovery_def persist_memo_body_def get_memo_recovery_def add_memo_recovery_def
  by (auto intro!: keeps_more_bindV keeps_more_transaction keeps_more_basic split: option.split)

section \<open>The evidence of the scan\<close>

text \<open>\<open>s'\<close> is \<open>s\<close> after recording the events, as far as the relation tables are concerned.\<close>

definition recorded :: "spool \<Rightarrow> evidence_event list \<Rightarrow> spool \<Rightarrow> bool" where
  "recorded s es s' \<longleftrightarrow> (distinct (map fst (sp_keys s)) \<longrightarrow> distinct (map fst (sp_keys s'))) \<and> (ones_pending s \<longrightarrow> ones_pending s'
     \<and> sp_keys (flush s') = execute_upserts (+) (key_rows es) (sp_keys (flush s))
     \<and> sp_facts (flush s') = execute_upserts merge_facts (fact_rows es) (sp_facts (flush s)))"

lemma recorded_trans: "recorded s es t \<Longrightarrow> recorded t fs u \<Longrightarrow> recorded s (es @ fs) u"
  unfolding recorded_def rows_append upserts_append by metis

lemma recorded_none:
  assumes "sp_keys s' = sp_keys s" "sp_facts s' = sp_facts s" "sp_pending_keys s' = sp_pending_keys s" "sp_pending_facts s' = sp_pending_facts s"
  shows "recorded s [] s'"
  using assms by (simp add: recorded_def execute_upserts_def)

lemma recorded_flush: "recorded s [] (flush s)"
  using distinct_upserts [of "sp_keys s"] by (simp add: recorded_def) (simp add: execute_upserts_def)

lemma events_distinct: "distinct (map fst (sp_keys s)) \<Longrightarrow> distinct (map fst (sp_keys (fold spool_event es s)))"
  by (induction es arbitrary: s rule: key_rows.induct)
    (simp_all add: observe_relation_key_def observe_relation_side_raw_def flush_keys_def flush_facts_def Let_def distinct_upserts)

lemma recorded_events: "recorded s es (fold spool_event es s)"
proof -
  have "ones_pending s \<Longrightarrow> sp_keys (flush (fold spool_event es s)) = execute_upserts (+) (key_rows es) (sp_keys (flush s))
    \<and> sp_facts (flush (fold spool_event es s)) = execute_upserts merge_facts (fact_rows es) (sp_facts (flush s))
    \<and> ones_pending (fold spool_event es s)" by (rule spool_events)
  then show ?thesis unfolding recorded_def using events_distinct [of s es] by fast
qed

abbreviation p1_spool :: "pass_one \<Rightarrow> spool" where "p1_spool p \<equiv> en_spool (p1_engine p)"

lemma observe_text_field_recorded: "observe_text_field fd v s = Inr s' \<Longrightarrow> recorded s [] s'"
  by (rule recorded_none)
    (auto simp: observe_text_field_def observe_text_raw_def observe_text_encoding_def flush_text_def Let_def bindE_Inr_iff
      split: if_splits pyval.splits)

lemma observe_numeric_field_recorded: "observe_numeric_field fd v s = Inr s' \<Longrightarrow> recorded s [] s'"
  by (rule recorded_none)
    (auto simp: observe_numeric_field_def observe_numeric_raw_def flush_numeric_def Let_def
      split: if_splits pyval.splits option.splits member_verdict.splits)

lemma on_engine_spool:
  assumes "on_engine (on_spool f) p = (Inr y, p')"
  obtains s where "f (p1_spool p) = Inr s" and "p1_spool p' = s"
  using assms by (elim on_engine_InrE on_spool_InrE) auto

lemma observe_memo_field_spool:
  assumes "observe_memo_field bindings path k fd v p = (Inr y, p')"
  shows "p1_spool p' = p1_spool p"
proof -
  obtain i where "on_engine (bindV (persist_memo_recovery i (fd_type fd) v) (\<lambda>_. retV ())) p = (Inr y, p')"
    using assms by (auto simp: observe_memo_field_def split: option.splits prod.splits)
  moreover have "keeps_more (bindV (persist_memo_recovery i (fd_type fd) v) (\<lambda>_. retV ()))"
    by (intro keeps_more_bindV keeps_more_persist_memo keeps_more_basic)
  ultimately have "vault.more (p1_engine p') = vault.more (p1_engine p)"
    unfolding keeps_more_def by (elim on_engine_InrE) (drule spec [of _ "p1_engine p"], simp)
  then show ?thesis by (cases "p1_engine p'", cases "p1_engine p") simp
qed

lemma observe_field_recorded:
  assumes "observe_field bindings tab r fd p = (Inr y, p')"
  shows "recorded (p1_spool p) [] (p1_spool p')"
  using assms
  by (auto simp: observe_field_def observe_temporal_field_def Let_def split: if_splits option.splits prod.splits
      elim!: on_engine_spool dest!: observe_text_field_recorded observe_numeric_field_recorded observe_memo_field_spool
      intro: recorded_none)

lemma eachS_recorded:
  assumes step: "\<And>x p p'. x \<in> set xs \<Longrightarrow> f x p = (Inr (), p') \<Longrightarrow> \<exists>es. g x = Inr es \<and> recorded (p1_spool p) es (p1_spool p')"
    and run: "eachS f xs p = (Inr (), p')"
  shows "\<exists>ess. mapE g xs = Inr ess \<and> recorded (p1_spool p) (concat ess) (p1_spool p')"
  using assms
proof (induction xs arbitrary: p)
  case Nil
  then show ?case by (simp add: recorded_none)
next
  case (Cons x xs)
  obtain p1 where p1: "f x p = (Inr (), p1)" "eachS f xs p1 = (Inr (), p')" using Cons.prems(2) by (auto elim!: bindS_InrE)
  obtain es where es: "g x = Inr es" "recorded (p1_spool p) es (p1_spool p1)" using Cons.prems(1) [OF _ p1(1)] by auto
  obtain ess where "mapE g xs = Inr ess" "recorded (p1_spool p1) (concat ess) (p1_spool p')"
    using Cons.IH [OF _ p1(2)] Cons.prems(1) by auto
  then show ?case using es recorded_trans by auto
qed

lemma fields_recorded:
  "eachS (observe_field bindings tab r) fds p = (Inr (), p') \<Longrightarrow> recorded (p1_spool p) [] (p1_spool p')"
proof (induction fds arbitrary: p)
  case (Cons fd fds)
  obtain p1 where p1: "observe_field bindings tab r fd p = (Inr (), p1)" "eachS (observe_field bindings tab r) fds p1 = (Inr (), p')"
    using Cons.prems by (auto elim!: bindS_InrE)
  show ?case using recorded_trans [OF observe_field_recorded [OF p1(1)] Cons.IH [OF p1(2)]] by simp
qed (simp add: recorded_none)

lemma relation_recorded:
  assumes "on_engine (on_spool (observe_before_relation tab r rel)) p = (Inr (), p')"
  shows "\<exists>es. relation_events ''before'' tab (rec_values r) rel = Inr es \<and> recorded (p1_spool p) es (p1_spool p')"
proof -
  obtain s where "observe_before_relation tab r rel (p1_spool p) = Inr s" "p1_spool p' = s"
    using assms by (rule on_engine_spool)
  then obtain es where "relation_events ''before'' tab (rec_values r) rel = Inr es" "p1_spool p' = fold spool_event es (p1_spool p)"
    by (auto simp: observe_before_relation_events bindE_Inr_iff)
  then show ?thesis using recorded_events [of "p1_spool p" es] by simp
qed

lemma observe_record_recorded:
  assumes "observe_record bindings rels tab r p = (Inr (), p')"
  shows "\<exists>es. record_events ''before'' rels tab (rec_values r) = Inr es \<and> recorded (p1_spool p) es (p1_spool p')"
proof -
  obtain p1 where p1: "eachS (observe_field bindings tab r) (tab_transformed tab) p = (Inr (), p1)"
    "eachS (\<lambda>rel. on_engine (on_spool (observe_before_relation tab r rel))) rels p1 = (Inr (), p')"
    using assms by (auto simp: observe_record_def elim!: bindS_InrE)
  have f: "recorded (p1_spool p) [] (p1_spool p1)"
    by (rule fields_recorded [OF p1(1)])
  obtain ess where "mapE (relation_events ''before'' tab (rec_values r)) rels = Inr ess" "recorded (p1_spool p1) (concat ess) (p1_spool p')"
    using eachS_recorded [OF _ p1(2), of "relation_events ''before'' tab (rec_values r)"] relation_recorded by blast
  then show ?thesis using recorded_trans [OF f] by (auto simp: record_events_def)
qed


text \<open>A successful scan read every table to its end and recorded exactly the events of its records.\<close>

definition item_events :: "relation_directive list \<Rightarrow> table_directive \<Rightarrow> direct_record result \<Rightarrow> evidence_event list result" where
  "item_events rels tab item = bindE item (\<lambda>r. record_events ''before'' rels tab (rec_values r))"

definition scanned_items :: "source_reader \<Rightarrow> table_directive \<Rightarrow> direct_record result list" where
  "scanned_items rd tab = sr_stream rd (tab_path tab) (projection_fields tab) (tab_memo_fields tab \<noteq> [])"

definition table_events :: "source_reader \<Rightarrow> relation_directive list \<Rightarrow> table_directive \<Rightarrow> evidence_event list result" where
  "table_events rd rels tab = bindE (mapE (item_events rels tab) (scanned_items rd tab)) (\<lambda>ess. Inr (concat ess))"

lemma check_cancelled_spool: "on_engine (check_cancelled ct) p = (Inr y, p') \<Longrightarrow> p1_spool p' = p1_spool p"
  by (elim on_engine_InrE) (auto simp: check_cancelled_def)

lemma flush_spool_recorded: "flush_spool p = (Inr y, p') \<Longrightarrow> p1_spool p' = flush (p1_spool p)"
  by (auto simp: flush_spool_def elim: on_engine_spool)

lemma scan_item_recorded:
  assumes "scan_item ct bindings rels tab item p = (Inr (), p')"
  shows "\<exists>es. item_events rels tab item = Inr es \<and> recorded (p1_spool p) es (p1_spool p')"
proof (cases item)
  case (Inr r)
  obtain p1 p2 where p: "on_engine (check_cancelled ct) p = (Inr (), p1)" "observe_record bindings rels tab r p1 = (Inr (), p2)"
    "count_record r p2 = (Inr (), p')"
    using assms Inr by (auto elim!: bindS_InrE)
  have "p1_spool p1 = p1_spool p" "p1_spool p' = p1_spool p2"
    using check_cancelled_spool [OF p(1)] p(3) by (auto simp: count_record_def)
  then show ?thesis using observe_record_recorded [OF p(2)] Inr by (simp add: item_events_def)
qed (use assms in simp)

lemma scan_table_recorded:
  assumes "scan_table rd ct bindings rels tab p = (Inr (), p')"
  shows "\<exists>es. table_events rd rels tab = Inr es \<and> recorded (p1_spool p) es (p1_spool p')"
proof -
  obtain p1 p3 p4 p5 where p: "p1_spool p1 = p1_spool p" "p1_spool p3 = flush (p1_spool p1)"
    "eachS (scan_item ct bindings rels tab) (scanned_items rd tab) p3 = (Inr (), p4)" "p1_spool p5 = p1_spool p4" "p1_spool p' = flush (p1_spool p5)"
  proof -
    obtain q1 q3 q4 where q: "on_engine (check_cancelled ct) p = (Inr (), q1)" "flush_spool q1 = (Inr (), q3)"
      "eachS (scan_item ct bindings rels tab) (scanned_items rd tab)
         (q3\<lparr>p1_outcome := (p1_outcome q3)\<lparr>po_read_streams := po_read_streams (p1_outcome q3) @ [(''pass1'', tab_path tab)]\<rparr>\<rparr>) = (Inr (), q4)"
      "flush_spool (q4\<lparr>p1_outcome := (p1_outcome q4)\<lparr>po_tables_scanned := Suc (po_tables_scanned (p1_outcome q4))\<rparr>\<rparr>) = (Inr (), p')"
      using assms by (auto simp: scan_table_def scanned_items_def elim!: bindS_InrE)
    show thesis
      by (rule that [OF check_cancelled_spool [OF q(1)] _ q(3) _ flush_spool_recorded [OF q(4)]])
        (simp_all add: flush_spool_recorded [OF q(2)])
  qed
  obtain ess where "mapE (item_events rels tab) (scanned_items rd tab) = Inr ess" "recorded (p1_spool p3) (concat ess) (p1_spool p4)"
    using eachS_recorded [OF _ p(3), of "item_events rels tab"] scan_item_recorded by blast
  moreover from this(2) have "recorded (p1_spool p) (concat ess) (p1_spool p')"
    using recorded_trans [OF recorded_trans [OF recorded_flush _] recorded_flush] p by fastforce
  ultimately show ?thesis by (auto simp: table_events_def)
qed

lemma scan_recorded:
  assumes "run_pass_one rd ct bindings plan p = (Inr (), p')"
  shows "\<exists>ess. mapE (table_events rd (ep_relations plan)) (ep_tables plan) = Inr ess \<and> recorded (p1_spool p) (concat ess) (p1_spool p')"
  using eachS_recorded [OF _ assms [unfolded run_pass_one_def], of "table_events rd (ep_relations plan)"] scan_table_recorded by blast

section \<open>Finalization leaves the evidence alone\<close>

definition neutral :: "'a engine_op \<Rightarrow> bool" where
  "neutral m \<longleftrightarrow> (\<forall>e x e'. m e = (Inr x, e') \<longrightarrow> recorded (en_spool e) [] (en_spool e'))"

lemma neutralD: "neutral m \<Longrightarrow> m e = (Inr x, e') \<Longrightarrow> recorded (en_spool e) [] (en_spool e')"
  by (simp add: neutral_def)

lemma recorded_same: "recorded s [] s"
  by (simp add: recorded_none)

lemma recorded_steps: "recorded s [] t \<Longrightarrow> recorded t [] u \<Longrightarrow> recorded s [] u"
  using recorded_trans [of s "[]" t "[]" u] by simp

lemma neutral_bindV: "neutral m \<Longrightarrow> (\<And>x. neutral (f x)) \<Longrightarrow> neutral (bindV m f)"
  unfolding neutral_def by (blast elim: bindV_Inr_E intro: recorded_steps)

lemma neutral_ret: "neutral (retV x)"
  by (simp add: neutral_def recorded_same)

lemma neutral_mapV: "(\<And>x. neutral (f x)) \<Longrightarrow> neutral (mapV f xs)"
  by (induction xs) (simp_all add: neutral_bindV neutral_ret)

lemma neutral_keeps:
  assumes "keeps_more m"
  shows "neutral (m :: 'a engine_op)"
  unfolding neutral_def
proof (intro allI impI)
  fix e e' :: engine and x
  assume "m e = (Inr x, e')"
  then have "vault.more e' = vault.more e" using assms unfolding keeps_more_def by (metis snd_conv)
  then show "recorded (en_spool e) [] (en_spool e')" by (cases e, cases e') (simp add: recorded_same)
qed

lemma neutral_check: "neutral (check_cancelled ct)"
  by (auto simp: neutral_def check_cancelled_def recorded_same)

lemma neutral_on_spool: "(\<And>s s'. f s = Inr s' \<Longrightarrow> recorded s [] s') \<Longrightarrow> neutral (on_spool f)"
  by (auto simp: neutral_def elim!: on_spool_InrE)

lemma keeps_more_queries:
  "keeps_more (get_text_pseudonym d v)" "keeps_more (get_numeric_pseudonym d v)" "keeps_more (numeric_mapping_rows d)" "keeps_more (has_domain d)"
  "keeps_more (create_domain k n r i h)" "keeps_more (add_text_mapping d v q l)" "keeps_more (add_numeric_key_mapping d v q)"
  unfolding get_text_pseudonym_def get_numeric_pseudonym_def numeric_mapping_rows_def has_domain_def mapping_domains_def create_domain_def
    add_text_mapping_def add_numeric_key_mapping_def
  by (intro keeps_more_bindV keeps_more_basic)+

lemmas neutral_basic = keeps_more_basic [THEN neutral_keeps]
lemmas neutral_queries = keeps_more_queries [THEN neutral_keeps] keeps_more_transaction [OF keeps_more_queries(6), THEN neutral_keeps]

lemma neutral_ensure: "neutral (ensure_domain_of_kind kind d)"
  unfolding ensure_domain_of_kind_def
  by (intro neutral_keeps keeps_more_bindV keeps_more_queries) (auto intro!: keeps_more_bindV keeps_more_queries keeps_more_transaction keeps_more_basic)

lemma drop_recorded: "drop_text_observation v s = Inr s' \<Longrightarrow> recorded s [] s'" "recorded s [] (drop_numeric_observation d c s)"
  by (auto simp: drop_text_observation_def drop_numeric_observation_def bindE_Inr_iff intro!: recorded_none)

lemma neutral_reuse: "neutral (reuse_text_row ct d row)"
  unfolding reuse_text_row_def
  by (auto split: option.split intro!: neutral_bindV neutral_check neutral_on_spool neutral_queries neutral_basic dest: drop_recorded(1))

lemma neutral_solve: "neutral (solve_text_residual_probed ct d a)"
  unfolding solve_text_residual_probed_def
  by (intro neutral_bindV neutral_basic)
    (auto simp: neutral_def Let_def split: sum.splits prod.splits intro!: recorded_none)

lemma neutral_allocate: "neutral (allocate_text_row t ct d a i)"
proof -
  have step: "neutral (bindV (check_cancelled ct) (\<lambda>_. bindV (with_transaction (add_text_mapping d v q l)) (\<lambda>_. on_spool (drop_text_observation v))))"
    for v q l
    by (intro neutral_bindV neutral_check neutral_on_spool neutral_queries) (rule drop_recorded(1))
  show ?thesis
    unfolding allocate_text_row_def
    by (intro neutral_bindV neutral_basic)
      (auto simp: neutral_def split: sum.splits prod.splits dest!: neutralD [OF step])
qed

lemma neutral_finalize_text: "neutral (finalize_text t ct codec)"
  unfolding neutral_def
proof (intro allI impI)
  fix e x e'
  assume run: "finalize_text t ct codec e = (Inr x, e')"
  let ?d = GLOBAL_TEXT_DOMAIN_ID
  show "recorded (en_spool e) [] (en_spool e')"
  proof (cases "text_encoding_union (en_spool e) = []")
    case True
    then show ?thesis using run by (auto simp: finalize_text_def recorded_same)
  next
    case False
    define a where "a = candidate_alphabet codec (text_encoding_union (en_spool e))"
    obtain e1 e2 e3 e4 rows reused where
      s1: "ensure_domain_of_kind KIND_TEXT ?d e = (Inr (), e1)" and
      s2: "mapV (reuse_text_row ct ?d) (text_observation_rows (flush (en_spool e1))) (e1\<lparr>en_spool := flush (en_spool e1)\<rparr>) = (Inr reused, e2)" and
      s3: "solve_text_residual_probed ct ?d a e2 = (Inr (), e3)" and
      s4: "mapV (allocate_text_row t ct ?d a) [0..<length (res_originals (sp_graph (en_spool e3)))] e3 = (Inr rows, e4)" and
      s5: "e' = e4\<lparr>en_spool := (en_spool e4)\<lparr>sp_graph := empty_residual\<rparr>\<rparr>"
      using run False unfolding finalize_text_def Let_def a_def [symmetric]
      by (auto elim!: bindV_Inr_E split: if_splits)
    have "recorded (en_spool e) [] (flush (en_spool e1))" using neutralD [OF neutral_ensure s1] recorded_flush recorded_steps by blast
    moreover have "recorded (flush (en_spool e1)) [] (en_spool e2)" using neutralD [OF neutral_mapV s2] neutral_reuse by fastforce
    moreover have "recorded (en_spool e2) [] (en_spool e3)" using neutralD [OF neutral_solve s3] .
    moreover have "recorded (en_spool e3) [] (en_spool e4)" using neutralD [OF neutral_mapV s4] neutral_allocate by fastforce
    moreover have "recorded (en_spool e4) [] (en_spool e')" unfolding s5 by (rule recorded_none) simp_all
    ultimately show ?thesis by (meson recorded_steps)
  qed
qed

lemma neutral_numeric_rows: "neutral (finalize_numeric_rows t ct d kd rows occ rem n)"
proof (induction rows arbitrary: occ rem n)
  case (Cons c rows)
  have drop: "neutral (on_spool (\<lambda>s. Inr (drop_numeric_observation d c s)))"
    by (rule neutral_on_spool) (auto intro: drop_recorded(2))
  have select: "neutral (select_on_engine t d kd v occ rem)" for v
    unfolding select_on_engine_def
    by (intro neutral_bindV neutral_basic) (auto simp: neutral_def split: sum.splits prod.splits intro: recorded_same)
  have store: "neutral (store_numeric_mapping d c v q)" for v q
    unfolding store_numeric_mapping_def
    by (intro neutral_keeps keeps_more_transaction keeps_more_bindV keeps_more_queries)
      (auto split: option.split intro!: keeps_more_queries keeps_more_bindV keeps_more_basic)
  show ?case
    using Cons drop select store
    by (auto split: option.split intro!: neutral_bindV neutral_check neutral_queries neutral_basic)
qed (simp add: neutral_def recorded_same)

lemma neutral_finalize_numeric: "neutral (finalize_numeric_domain t ct d kd)"
  unfolding finalize_numeric_domain_def Let_def
proof (intro neutral_bindV neutral_ensure neutral_queries neutral_basic)
  fix rows db
  have "neutral (bindV (liftV r) (\<lambda>ok. if \<not> ok then failV err else finalize_numeric_rows t ct d kd xs occ rem 0))" for r err xs occ rem
    using neutral_numeric_rows by (intro neutral_bindV neutral_basic) (auto intro: neutral_basic)
  note D = neutralD [OF this]
  show "neutral (\<lambda>e. bindV (liftV (numeric_residual_feasible db (en_spool e) d kd (int (length rows)) (numeric_unpersisted_count d (en_spool e))))
      (\<lambda>ok. if \<not> ok then failV (pass1_capacity_failure ''ENGINE_NUMERIC_DOMAIN_EXHAUSTED'')
        else finalize_numeric_rows t ct d kd (numeric_observation_stream d (en_spool e)) (int (length rows))
          (numeric_unpersisted_count d (en_spool e)) 0) e)"
    unfolding neutral_def using D by blast
qed

lemma neutral_on_engine: "neutral f \<Longrightarrow> on_engine f p = (Inr x, p') \<Longrightarrow> recorded (p1_spool p) [] (p1_spool p')"
  by (elim on_engine_InrE) (auto dest: neutralD)

lemma extend_spool: "en_spool (vault.extend v (vault.more e)) = en_spool e"
  by (cases e) (simp add: vault.defs)

lemma finalize_recorded:
  assumes "run_pass_one_finalize t ct codec plan p = (Inr (), p')"
  shows "recorded (p1_spool p) [] (p1_spool p')"
proof -
  have relation: "recorded (p1_spool q) [] (p1_spool q')" if "finalize_relation_stage t ct rel q = (Inr (), q')" for rel q q'
    using that neutral_on_engine [OF neutral_finalize_numeric] neutral_on_engine [OF neutral_check]
    by (fastforce simp: finalize_relation_stage_def split: option.splits elim!: bindS_InrE intro: recorded_same recorded_steps)
  have relations: "recorded (p1_spool q) [] (p1_spool q')" if "eachS (finalize_relation_stage t ct) rels q = (Inr (), q')" for rels q q'
    using that
  proof (induction rels arbitrary: q)
    case (Cons rel rels)
    obtain q1 where "finalize_relation_stage t ct rel q = (Inr (), q1)" "eachS (finalize_relation_stage t ct) rels q1 = (Inr (), q')"
      using Cons.prems by (auto elim!: bindS_InrE)
    then show ?case using relation Cons.IH recorded_steps by blast
  qed (simp add: recorded_same)
  obtain p1 p2 p3 where st: "(if ep_text_present plan then finalize_text_stage t ct codec else (\<lambda>p. (Inr (), p))) p = (Inr (), p1)"
    "on_engine (check_cancelled ct) p1 = (Inr (), p2)" "eachS (finalize_relation_stage t ct) (ep_relations plan) p2 = (Inr (), p3)"
    "finalize_temporal_stage t p3 = (Inr (), p')"
    using assms by (auto simp: run_pass_one_finalize_def elim!: bindS_InrE)
  have "recorded (p1_spool p) [] (p1_spool p1)"
    using st(1) neutral_on_engine [OF neutral_finalize_text]
    by (fastforce simp: finalize_text_stage_def split: if_splits prod.splits elim!: bindS_InrE intro: recorded_same)
  moreover have "recorded (p1_spool p1) [] (p1_spool p2)" using neutral_on_engine [OF neutral_check st(2)] .
  moreover have "recorded (p1_spool p2) [] (p1_spool p3)" using relations [OF st(3)] .
  moreover have "p1_spool p' = p1_spool p3"
    using st(4) by (auto simp: finalize_temporal_stage_def Let_def extend_spool split: option.splits prod.splits sum.splits)
  ultimately show ?thesis by (metis recorded_steps)
qed

end
