(* ===== verification/Relation_Evidence.thy ===== *)
theory Relation_Evidence
  imports Pass_Two Pass_One_Scan
begin

text \<open>
  Why the comparison of pass 2 succeeds: the evidence tables are determined by the event sequence, an
  injective renaming of keys between the two sides leaves every compared quantity unchanged, and the
  transformation of records is such a renaming when both ends of a relation use the same mapping.
\<close>

section \<open>Evidence tables of an event sequence\<close>

fun keys_of :: "side_key \<Rightarrow> evidence_event list \<Rightarrow> bytes list" where
  "keys_of sk [] = []"
| "keys_of sk (KeyEvent side rel role c # es) = (if (side, rel, role) = sk then c # keys_of sk es else keys_of sk es)"
| "keys_of sk (SideEvent side rel role rows nulls # es) = keys_of sk es"

definition evidence_of :: "spool \<Rightarrow> evidence_event list \<Rightarrow> bool" where
  "evidence_of s es \<longleftrightarrow> distinct (map fst (sp_keys s))
     \<and> (\<forall>k. map_of (sp_keys s) k = aggregate_of (+) k (key_rows es))
     \<and> (\<forall>k. map_of (sp_facts s) k = aggregate_of merge_facts k (fact_rows es))"

lemma aggregate_keys:
  "aggregate_of (+) (sk, c) (key_rows es) =
     (if c \<in> set (keys_of sk es) then Some (int (count_list (keys_of sk es) c)) else None)"
proof (induction es rule: key_rows.induct)
  case (2 side rel role k es)
  then show ?case by (auto simp: count_list_0_iff)
qed simp_all

lemma distinct_side_rows:
  assumes "distinct (map fst (sp_keys s))"
  shows "distinct (map fst (side_rows sk s))"
proof -
  have "map fst (side_rows sk s) = map snd (map fst (filter (\<lambda>((k, c), n). k = sk) (sp_keys s)))"
    by (auto simp: side_rows_def)
  moreover have "inj_on snd (set (map fst (filter (\<lambda>((k, c), n). k = sk) (sp_keys s))))" by (auto simp: inj_on_def)
  moreover have "distinct (map fst (filter (\<lambda>((k, c), n). k = sk) (sp_keys s)))"
    using assms by (rule distinct_map_filter)
  ultimately show ?thesis by (simp only: distinct_map [of snd])
qed

lemma set_side_rows:
  assumes "evidence_of s es"
  shows "set (side_rows sk s) = (\<lambda>c. (c, int (count_list (keys_of sk es) c))) ` set (keys_of sk es)"
proof -
  have d: "distinct (map fst (sp_keys s))" using assms by (simp add: evidence_of_def)
  have "(c, n) \<in> set (side_rows sk s) \<longleftrightarrow> ((sk, c), n) \<in> set (sp_keys s)" for c n
    unfolding side_rows_def by (auto intro: rev_image_eqI)
  then have "(c, n) \<in> set (side_rows sk s) \<longleftrightarrow> map_of (sp_keys s) (sk, c) = Some n" for c n
    using map_of_eq_Some_iff [OF d] by simp
  moreover have "map_of (sp_keys s) (sk, c) = Some n \<longleftrightarrow> c \<in> set (keys_of sk es) \<and> n = int (count_list (keys_of sk es) c)" for c n
  proof -
    have "map_of (sp_keys s) (sk, c) = aggregate_of (+) (sk, c) (key_rows es)" using assms by (simp only: evidence_of_def)
    then show ?thesis by (auto simp: aggregate_keys)
  qed
  ultimately show ?thesis by auto
qed

lemma fst_side_rows: "evidence_of s es \<Longrightarrow> fst ` set (side_rows sk s) = set (keys_of sk es)"
  by (simp add: set_side_rows image_image)

lemma profile_of_events:
  assumes "evidence_of s es"
  shows "mset (map snd (side_rows sk s)) = image_mset (\<lambda>c. int (count_list (keys_of sk es) c)) (mset_set (set (keys_of sk es)))"
proof -
  have "distinct (side_rows sk s)" using distinct_side_rows assms by (metis evidence_of_def distinct_map)
  then have "mset (side_rows sk s) = mset_set (set (side_rows sk s))" by (rule mset_set_set [symmetric])
  also have "\<dots> = image_mset (\<lambda>c. (c, int (count_list (keys_of sk es) c))) (mset_set (set (keys_of sk es)))"
    unfolding set_side_rows [OF assms] by (rule image_mset_mset_set [symmetric]) (simp add: inj_on_def)
  finally show ?thesis by (simp add: image_mset.compositionality comp_def)
qed

lemma matched_of_events:
  assumes "evidence_of s es"
  shows "relation_matched_count side rel pr fr s =
    (\<Sum>c\<in>set (keys_of (side, rel, fr) es) \<inter> set (keys_of (side, rel, pr) es). int (count_list (keys_of (side, rel, fr) es) c))"
proof -
  let ?P = "set (keys_of (side, rel, pr) es)" and ?L = "keys_of (side, rel, fr) es"
  let ?rows = "filter (\<lambda>(c, n). c \<in> ?P) (side_rows (side, rel, fr) s)" and ?g = "\<lambda>c. (c, int (count_list ?L c))"
  have d: "distinct ?rows" using distinct_side_rows assms by (metis evidence_of_def distinct_map distinct_filter)
  have rows: "set ?rows = ?g ` (set ?L \<inter> ?P)" using set_side_rows [OF assms, of "(side, rel, fr)"] by auto
  have "relation_matched_count side rel pr fr s = sum_list (map snd ?rows)"
    by (simp add: relation_matched_count_def fst_side_rows [OF assms])
  also have "\<dots> = (\<Sum>r\<in>set ?rows. snd r)" by (rule sum_list_distinct_conv_sum_set [OF d])
  also have "\<dots> = (\<Sum>c\<in>set ?L \<inter> ?P. int (count_list ?L c))" unfolding rows by (subst sum.reindex) (auto simp: inj_on_def)
  finally show ?thesis .
qed

lemma facts_of_events:
  "evidence_of s es \<Longrightarrow> relation_side_facts side rel role s =
     (case aggregate_of merge_facts (side, rel, role) (fact_rows es) of None \<Rightarrow> (0, 0) | Some f \<Rightarrow> f)"
  by (simp add: relation_side_facts_def evidence_of_def)

lemma profile_multisets:
  "relation_profile_equal rel left_side right_side role s \<longleftrightarrow>
     mset (map snd (side_rows (left_side, rel, role) s)) = mset (map snd (side_rows (right_side, rel, role) s))"
proof -
  have "rev (sort xs) = rev (sort ys) \<longleftrightarrow> mset xs = mset ys" for xs ys :: "int list"
    by (metis mset_sort properties_for_sort rev_is_rev_conv sorted_sort)
  then show ?thesis by (simp add: relation_profile_equal_def streams_equal_counts histogram_counts_sorted)
qed

section \<open>Renamed evidence\<close>

text \<open>The after-side copy of an event, with the keys of each relation renamed.\<close>

fun rename_event :: "(string \<Rightarrow> bytes \<Rightarrow> bytes) \<Rightarrow> evidence_event \<Rightarrow> evidence_event" where
  "rename_event f (KeyEvent side rel role c) = KeyEvent ''after'' rel role (f rel c)"
| "rename_event f (SideEvent side rel role rows nulls) = SideEvent ''after'' rel role rows nulls"

fun event_side :: "evidence_event \<Rightarrow> string" where
  "event_side (KeyEvent side rel role c) = side"
| "event_side (SideEvent side rel role rows nulls) = side"

lemma keys_append: "keys_of sk (xs @ ys) = keys_of sk xs @ keys_of sk ys"
  by (induction xs rule: key_rows.induct) auto

lemma keys_other_side: "\<forall>e\<in>set es. event_side e \<noteq> side \<Longrightarrow> keys_of (side, rel, role) es = []"
  by (induction es rule: key_rows.induct) auto

lemma facts_other_side: "\<forall>e\<in>set es. event_side e \<noteq> side \<Longrightarrow> aggregate_of merge_facts (side, rel, role) (fact_rows es) = None"
  by (induction es rule: key_rows.induct) auto

lemma keys_renamed:
  "\<forall>e\<in>set es. event_side e = ''before'' \<Longrightarrow>
     keys_of (''after'', rel, role) (map (rename_event f) es) = map (f rel) (keys_of (''before'', rel, role) es)"
  by (induction es rule: key_rows.induct) auto

lemma facts_renamed:
  "\<forall>e\<in>set es. event_side e = ''before'' \<Longrightarrow>
     aggregate_of merge_facts (''after'', rel, role) (fact_rows (map (rename_event f) es))
       = aggregate_of merge_facts (''before'', rel, role) (fact_rows es)"
  by (induction es rule: key_rows.induct) auto

lemma renamed_side: "\<forall>e\<in>set (map (rename_event f) es). event_side e \<noteq> ''before''"
proof -
  have "event_side (rename_event f e) = ''after''" for e by (cases e) auto
  then show ?thesis by auto
qed

lemma count_map_inj: "inj_on f (insert c (set xs)) \<Longrightarrow> count_list (map f xs) (f c) = count_list xs c"
  by (induction xs) (auto simp: inj_on_def)

text \<open>Everything the comparison reads is invariant under an injective renaming of the keys.\<close>

lemma renamed_relation_verified:
  assumes ev: "evidence_of s (es @ map (rename_event f) es)" and before: "\<forall>e\<in>set es. event_side e = ''before''"
    and inj: "inj_on (f (rel_id rel)) (set (keys_of (''before'', rel_id rel, ''parent'') es)
      \<union> set (keys_of (''before'', rel_id rel, ''foreign'') es))"
  shows "rs_verified (compare_relation s rel)"
proof -
  let ?all = "es @ map (rename_event f) es" and ?g = "f (rel_id rel)"
  let ?K = "\<lambda>role. keys_of (''before'', rel_id rel, role) es"
  have kb: "keys_of (''before'', rel_id rel, role) ?all = ?K role" for role
    using keys_other_side [OF renamed_side] by (simp add: keys_append)
  have ka: "keys_of (''after'', rel_id rel, role) ?all = map ?g (?K role)" for role
  proof -
    have "keys_of (''after'', rel_id rel, role) es = []" using before by (intro keys_other_side) auto
    then show ?thesis using keys_renamed [OF before] by (simp add: keys_append)
  qed
  have cnt: "count_list (map ?g (?K role)) (?g c) = count_list (?K role) c"
    if "c \<in> set (?K ''parent'') \<union> set (?K ''foreign'')" "role \<in> {''parent'', ''foreign''}" for role c
    using that by (intro count_map_inj inj_on_subset [OF inj]) auto
  have facts: "relation_side_facts ''before'' (rel_id rel) role s = relation_side_facts ''after'' (rel_id rel) role s" for role
  proof -
    have "aggregate_of merge_facts (''after'', rel_id rel, role) (fact_rows es) = None"
      using before by (intro facts_other_side) auto
    then show ?thesis
      using facts_other_side [OF renamed_side] facts_renamed [OF before]
      by (simp add: facts_of_events [OF ev] rows_append facts.aggregate_append)
  qed
  have profile: "relation_profile_equal (rel_id rel) ''before'' ''after'' role s" if "role \<in> {''parent'', ''foreign''}" for role
  proof -
    have i: "inj_on ?g (set (?K role))" using inj that by (auto intro: inj_on_subset)
    have "image_mset (\<lambda>c. int (count_list (map ?g (?K role)) c)) (mset_set (?g ` set (?K role)))
        = image_mset (\<lambda>c. int (count_list (map ?g (?K role)) (?g c))) (mset_set (set (?K role)))"
      by (simp add: image_mset_mset_set [OF i, symmetric] image_mset.compositionality comp_def)
    also have "\<dots> = image_mset (\<lambda>c. int (count_list (?K role) c)) (mset_set (set (?K role)))"
      using cnt that by (intro image_mset_cong) auto
    finally show ?thesis unfolding profile_multisets profile_of_events [OF ev] kb ka set_map by (rule sym)
  qed
  have "relation_matched_count ''after'' (rel_id rel) ''parent'' ''foreign'' s =
      (\<Sum>c\<in>?g ` (set (?K ''foreign'') \<inter> set (?K ''parent'')). int (count_list (map ?g (?K ''foreign'')) c))"
    unfolding matched_of_events [OF ev] ka using inj by (simp add: inj_on_image_Int [OF inj])
  also have "\<dots> = (\<Sum>c\<in>set (?K ''foreign'') \<inter> set (?K ''parent''). int (count_list (map ?g (?K ''foreign'')) (?g c)))"
    using inj by (subst sum.reindex) (auto intro: inj_on_subset)
  also have "\<dots> = relation_matched_count ''before'' (rel_id rel) ''parent'' ''foreign'' s"
    unfolding matched_of_events [OF ev] kb using cnt by (intro sum.cong) auto
  finally show ?thesis using profile facts by (simp add: compare_relation_def Let_def)
qed

section \<open>The transformation as a map on fields\<close>

datatype field_class = KeepClass | TextClass | NumericClass string | OtherClass

definition directive_class :: "field_directive \<Rightarrow> field_class" where
  "directive_class fd =
     (case fd_numeric_domain fd of
        Some d \<Rightarrow> NumericClass d
      | None \<Rightarrow> if fd_action fd = ACTION_TEXT then TextClass
          else if fd_action fd = ACTION_MEMO \<or> fd_action fd = ACTION_TEMPORAL then OtherClass else KeepClass)"

definition field_class :: "table_directive \<Rightarrow> string \<Rightarrow> field_class" where
  "field_class tab name =
     (case find (\<lambda>fd. fd_name fd = name) (tab_transformed tab) of None \<Rightarrow> KeepClass | Some fd \<Rightarrow> directive_class fd)"

text \<open>What one field of a record becomes: each directive touches the field it names only.\<close>

lemma transform_fields_value:
  assumes "foldE (transform_field ot db td off) fds vals = Inr vals'" and "distinct (map fd_name fds)"
  shows "case find (\<lambda>fd. fd_name fd = name) fds of
      None \<Rightarrow> field_value vals' name = field_value vals name
    | Some fd \<Rightarrow> \<exists>r. transform_value ot db td off fd (field_value vals name) = Inr r
        \<and> field_value vals' name = (case r of None \<Rightarrow> field_value vals name | Some w \<Rightarrow> w)"
  using assms
proof (induction fds arbitrary: vals)
  case (Cons fd fds)
  obtain vals1 where v1: "transform_field ot db td off fd vals = Inr vals1" "foldE (transform_field ot db td off) fds vals1 = Inr vals'"
    using Cons.prems(1) by (auto simp: bindE_Inr_iff)
  obtain r where r: "transform_value ot db td off fd (field_value vals (fd_name fd)) = Inr r"
    "vals1 = (case r of None \<Rightarrow> vals | Some w \<Rightarrow> vals(fd_name fd \<mapsto> w))"
    using v1(1) by (auto simp: transform_field_def bindE_Inr_iff split: option.splits)
  have IH: "case find (\<lambda>fd. fd_name fd = name) fds of
      None \<Rightarrow> field_value vals' name = field_value vals1 name
    | Some fd \<Rightarrow> \<exists>r. transform_value ot db td off fd (field_value vals1 name) = Inr r
        \<and> field_value vals' name = (case r of None \<Rightarrow> field_value vals1 name | Some w \<Rightarrow> w)"
    using Cons.IH [OF v1(2)] Cons.prems(2) by simp
  show ?case
  proof (cases "fd_name fd = name")
    case True
    moreover have "fd_name fd \<notin> fd_name ` set fds" using Cons.prems(2) by simp
    ultimately have "x \<in> set fds \<Longrightarrow> fd_name x \<noteq> name" for x by blast
    then have "find (\<lambda>fd. fd_name fd = name) fds = None" by (simp add: find_None_iff)
    then show ?thesis using IH r True by (auto split: option.splits)
  next
    case False
    then have same: "field_value vals1 name = field_value vals name" using r(2) by (auto split: option.splits)
    have "find (\<lambda>fd. fd_name fd = name) (fd # fds) = find (\<lambda>fd. fd_name fd = name) fds" using False by simp
    then show ?thesis using IH unfolding same by simp
  qed
qed simp

definition class_map :: "database \<Rightarrow> string \<Rightarrow> field_class \<Rightarrow> pyval \<Rightarrow> pyval" where
  "class_map db td cls v =
     (case (cls, v) of
        (TextClass, VStr s) \<Rightarrow> if s = [] then VStr [] else VStr (the (map_of (text_assoc td db) s))
      | (NumericClass d, VInt i) \<Rightarrow> VInt (int_of_text (the (map_of (numeric_assoc d db) (int_text i))))
      | _ \<Rightarrow> v)"

text \<open>The values of a class for which the finalized vault has what the transformation needs.\<close>

definition class_ready :: "database \<Rightarrow> string \<Rightarrow> field_class \<Rightarrow> pyval \<Rightarrow> bool" where
  "class_ready db td cls v \<longleftrightarrow> (case cls of
      KeepClass \<Rightarrow> True
    | TextClass \<Rightarrow> v = VNone \<or> v = VStr [] \<or> (\<exists>s. v = VStr s \<and> s \<in> fst ` set (text_assoc td db))
    | NumericClass d \<Rightarrow> v = VNone \<or> (\<exists>i. v = VInt i \<and> int_text i \<in> fst ` set (numeric_assoc d db))
    | OtherClass \<Rightarrow> False)"

definition class_ok :: "database \<Rightarrow> string \<Rightarrow> field_class \<Rightarrow> bool" where
  "class_ok db td cls \<longleftrightarrow> (case cls of
      TextClass \<Rightarrow> text_domain_ok td db \<and> [] \<notin> snd ` set (text_assoc td db)
    | NumericClass d \<Rightarrow> numeric_domain_ok d db
    | _ \<Rightarrow> True)"

lemma assoc_lookup:
  assumes "k \<in> fst ` set xs"
  obtains v where "map_of xs k = Some v"
  using assms by (cases "map_of xs k") (auto simp: map_of_eq_None_iff)

lemma text_map_inj:
  assumes "text_domain_ok td db" and "s \<in> fst ` set (text_assoc td db)" and "s' \<in> fst ` set (text_assoc td db)"
    and "the (map_of (text_assoc td db) s) = the (map_of (text_assoc td db) s')"
  shows "s = s'"
proof -
  obtain p p' where "map_of (text_assoc td db) s = Some p" "map_of (text_assoc td db) s' = Some p'"
    using assoc_lookup [OF assms(2)] assoc_lookup [OF assms(3)] by metis
  then show ?thesis using text_table.injective [OF assms(1), of s p s'] assms(1,4) by (simp add: text_pseudonym_assoc)
qed

lemma numeric_map_inj:
  assumes "numeric_domain_ok d db" and "int_text i \<in> fst ` set (numeric_assoc d db)" and "int_text j \<in> fst ` set (numeric_assoc d db)"
    and "int_of_text (the (map_of (numeric_assoc d db) (int_text i))) = int_of_text (the (map_of (numeric_assoc d db) (int_text j)))"
  shows "i = j"
proof -
  obtain p q where pq: "map_of (numeric_assoc d db) (int_text i) = Some p" "map_of (numeric_assoc d db) (int_text j) = Some q"
    using assoc_lookup [OF assms(2)] assoc_lookup [OF assms(3)] by metis
  have "p = q"
    using numeric_assoc_texts(2) [OF assms(1)] map_of_SomeD [OF pq(1)] map_of_SomeD [OF pq(2)] assms(4) pq by (metis option.sel)
  then show ?thesis using numeric_table.injective [OF assms(1), of "int_text i" p "int_text j"] pq assms(1)
    by (simp add: numeric_pseudonym_assoc)
qed

lemma class_map_inj:
  assumes "class_ok db td cls" and "class_ready db td cls v" and "class_ready db td cls w"
    and "class_map db td cls v = class_map db td cls w"
  shows "v = w"
proof (cases cls)
  case TextClass
  have ne: "the (map_of (text_assoc td db) s) \<noteq> []" if s: "s \<in> fst ` set (text_assoc td db)" for s
  proof -
    obtain p where "map_of (text_assoc td db) s = Some p" using assoc_lookup [OF s] .
    moreover from map_of_SomeD [OF this] have "p \<in> snd ` set (text_assoc td db)" by (simp add: rev_image_eqI)
    moreover have "[] \<notin> snd ` set (text_assoc td db)" using assms(1) TextClass by (simp add: class_ok_def)
    ultimately show ?thesis by (cases "p = []") simp_all
  qed
  define D where "D = fst ` set (text_assoc td db)"
  have ready: "class_ready db td TextClass u \<longleftrightarrow> u = VNone \<or> u = VStr [] \<or> (\<exists>s. u = VStr s \<and> s \<in> D)" for u
    by (simp add: class_ready_def D_def)
  have "s = s'" if "s \<in> D" "s' \<in> D" "the (map_of (text_assoc td db) s) = the (map_of (text_assoc td db) s')" for s s'
    using text_map_inj [of td db s s'] that assms(1) TextClass by (simp add: class_ok_def D_def)
  then show ?thesis
    using assms(2-4) ne ne [THEN not_sym] unfolding TextClass ready D_def [symmetric] by (auto simp: class_map_def split: if_splits)
next
  case (NumericClass d)
  define D where "D = fst ` set (numeric_assoc d db)"
  have ready: "class_ready db td (NumericClass d) u \<longleftrightarrow> u = VNone \<or> (\<exists>i. u = VInt i \<and> int_text i \<in> D)" for u
    by (simp add: class_ready_def D_def)
  have "i = j" if "int_text i \<in> D" "int_text j \<in> D"
    "int_of_text (the (map_of (numeric_assoc d db) (int_text i))) = int_of_text (the (map_of (numeric_assoc d db) (int_text j)))" for i j
    using numeric_map_inj [of d db i j] that assms(1) NumericClass by (simp add: class_ok_def D_def)
  then show ?thesis using assms(2-4) unfolding NumericClass ready by (auto simp: class_map_def)
qed (use assms in \<open>auto simp: class_map_def class_ready_def\<close>)

lemma transformed_class:
  assumes t: "transform_values wc tab system vals = Inr vals'" and "distinct (map fd_name (tab_transformed tab))"
    and sys: "name \<notin> set system" and td: "field_class tab name = TextClass \<longrightarrow> wc_text_domain wc = Some td"
    and ready: "class_ready (wc_db wc) td (field_class tab name) (field_value vals name)"
    and ok: "class_ok (wc_db wc) td (field_class tab name)"
  shows "field_value vals' name = class_map (wc_db wc) td (field_class tab name) (field_value vals name)"
proof -
  let ?v = "field_value vals name" and ?db = "wc_db wc"
  have v: "field_value (application_values system vals) name = ?v" using sys by (simp add: field_value_def application_values_def)
  note step = transform_fields_value [OF t [unfolded transform_values_def] assms(2), of name, unfolded v]
  show ?thesis
  proof (cases "find (\<lambda>fd. fd_name fd = name) (tab_transformed tab)")
    case None
    then show ?thesis using step by (simp add: field_class_def class_map_def)
  next
    case (Some fd)
    have cls: "field_class tab name = directive_class fd" using Some by (simp add: field_class_def)
    obtain r where r: "transform_value (wc_other wc) ?db (wc_text_domain wc) (wc_offset wc) fd ?v = Inr r"
      "field_value vals' name = (case r of None \<Rightarrow> ?v | Some w \<Rightarrow> w)"
      using step Some by auto
    show ?thesis
    proof (cases "directive_class fd")
      case TextClass
      then have act: "fd_numeric_domain fd = None" "fd_action fd = ACTION_TEXT"
        by (auto simp: directive_class_def split: option.splits if_splits)
      have dom: "text_domain_ok td ?db" using ok cls TextClass by (simp add: class_ok_def)
      consider "?v = VNone" | s where "?v = VStr s"
        using ready cls TextClass by (auto simp: class_ready_def)
      then show ?thesis
        using r act cls TextClass text_pseudonym_assoc [OF dom] td
        by cases (auto simp: transform_value_def transform_text_def class_map_def bindE_Inr_iff split: option.splits if_splits)
    next
      case (NumericClass d)
      then have act: "fd_numeric_domain fd = Some d" by (auto simp: directive_class_def split: option.splits if_splits)
      have dom: "numeric_domain_ok d ?db" using ok cls NumericClass by (simp add: class_ok_def)
      consider "?v = VNone" | i where "?v = VInt i" using ready cls NumericClass by (auto simp: class_ready_def)
      then show ?thesis
        using r act cls NumericClass numeric_pseudonym_assoc [OF dom]
        by cases (auto simp: transform_value_def transform_numeric_def class_map_def bindE_Inr_iff split: option.splits if_splits)
    next
      case KeepClass
      then have "r = None" using r(1) by (auto simp: transform_value_def directive_class_def split: option.splits if_splits)
      then show ?thesis using r(2) cls KeepClass by (simp add: class_map_def)
    next
      case OtherClass
      then show ?thesis using ready cls by (simp add: class_ready_def)
    qed
  qed
qed

section \<open>Keys under the transformation\<close>

lemma class_map_shape:
  assumes "class_ready db td cls v"
  shows "class_map db td cls v = VNone \<longleftrightarrow> v = VNone" and "(\<exists>s. class_map db td cls v = VStr s) \<longleftrightarrow> (\<exists>s. v = VStr s)"
    and "(\<exists>i. class_map db td cls v = VInt i) \<longleftrightarrow> (\<exists>i. v = VInt i)"
  using assms by (auto simp: class_map_def split: field_class.splits pyval.splits)

lemma relation_components_map:
  assumes "relation_components names vals = Inr (cs, nulls)"
    and "\<forall>n\<in>set names. class_ready db td (cl n) (field_value vals n) \<and> field_value vals' n = class_map db td (cl n) (field_value vals n)"
  shows "\<exists>cs'. relation_components names vals' = Inr (cs', nulls)
    \<and> (\<not> nulls \<longrightarrow> cs' = map2 (class_map db td) (map cl names) cs \<and> list_all2 (class_ready db td) (map cl names) cs)"
  using assms
proof (induction names arbitrary: cs nulls)
  case (Cons n names)
  let ?v = "field_value vals n"
  have n: "class_ready db td (cl n) ?v" "field_value vals' n = class_map db td (cl n) ?v" using Cons.prems(2) by auto
  obtain cs1 b where rest: "relation_components names vals = Inr (cs1, b)"
    "?v = VNone \<and> cs = cs1 \<and> nulls \<or> (?v \<noteq> VNone \<and> cs = ?v # cs1 \<and> nulls = b \<and> ((\<exists>i. ?v = VInt i) \<or> (\<exists>s. ?v = VStr s)))"
    using Cons.prems(1) by (auto simp: bindE_Inr_iff split: pyval.splits)
  obtain cs' where cs': "relation_components names vals' = Inr (cs', b)"
    "\<not> b \<longrightarrow> cs' = map2 (class_map db td) (map cl names) cs1 \<and> list_all2 (class_ready db td) (map cl names) cs1"
    using Cons.IH [OF rest(1)] Cons.prems(2) by auto
  from rest(2) show ?case
  proof (elim disjE conjE)
    assume "?v = VNone" "nulls"
    then show ?thesis using cs'(1) n class_map_shape(1) [OF n(1)] by simp
  next
    assume a: "cs = ?v # cs1" "nulls = b" "\<exists>i. ?v = VInt i"
    then obtain j where "field_value vals' n = VInt j" using n class_map_shape(3) [OF n(1)] by auto
    then show ?thesis using a(1,2) cs' n by auto
  next
    assume a: "cs = ?v # cs1" "nulls = b" "\<exists>s. ?v = VStr s"
    then obtain t where "field_value vals' n = VStr t" using n class_map_shape(2) [OF n(1)] by auto
    then show ?thesis using a(1,2) cs' n by auto
  qed
qed simp

definition key_tuple :: "bytes \<Rightarrow> pyval list" where
  "key_tuple c = (SOME cs. canonical_composite_identity cs = Inr c)"

definition rename_key :: "database \<Rightarrow> string \<Rightarrow> field_class list \<Rightarrow> bytes \<Rightarrow> bytes" where
  "rename_key db td cls c = projr (canonical_composite_identity (map2 (class_map db td) cls (key_tuple c)))"

lemma key_tuple_identity: "canonical_composite_identity cs = Inr c \<Longrightarrow> key_tuple c = cs"
  unfolding key_tuple_def by (rule some_equality) (auto intro: composite_identity_cancel)

definition key_ready :: "database \<Rightarrow> string \<Rightarrow> field_class list \<Rightarrow> bytes \<Rightarrow> bool" where
  "key_ready db td cls c \<longleftrightarrow> (\<exists>cs c'. canonical_composite_identity cs = Inr c \<and> list_all2 (class_ready db td) cls cs
     \<and> canonical_composite_identity (map2 (class_map db td) cls cs) = Inr c')"

lemma map2_class_inj:
  assumes "list_all2 (class_ready db td) cls xs" and "list_all2 (class_ready db td) cls ys" and "\<forall>c\<in>set cls. class_ok db td c"
    and "map2 (class_map db td) cls xs = map2 (class_map db td) cls ys"
  shows "xs = ys"
  using assms
proof (induction cls arbitrary: xs ys)
  case (Cons c cls)
  obtain x xs' where x: "xs = x # xs'" "class_ready db td c x" "list_all2 (class_ready db td) cls xs'"
    using Cons.prems(1) by (auto simp: list_all2_Cons1)
  obtain y ys' where y: "ys = y # ys'" "class_ready db td c y" "list_all2 (class_ready db td) cls ys'"
    using Cons.prems(2) by (auto simp: list_all2_Cons1)
  show ?case using Cons.IH [OF x(3) y(3)] class_map_inj [OF _ x(2) y(2)] Cons.prems(3,4) x(1) y(1) by auto
qed simp

lemma rename_key_inj:
  assumes "\<forall>c\<in>set cls. class_ok db td c"
  shows "inj_on (rename_key db td cls) {c. key_ready db td cls c}"
proof (rule inj_onI)
  fix a b
  assume "a \<in> {c. key_ready db td cls c}" and "b \<in> {c. key_ready db td cls c}" and eq: "rename_key db td cls a = rename_key db td cls b"
  then obtain xs ys a' b' where x: "canonical_composite_identity xs = Inr a" "list_all2 (class_ready db td) cls xs"
    "canonical_composite_identity (map2 (class_map db td) cls xs) = Inr a'"
    and y: "canonical_composite_identity ys = Inr b" "list_all2 (class_ready db td) cls ys"
    "canonical_composite_identity (map2 (class_map db td) cls ys) = Inr b'" by (auto simp: key_ready_def)
  have "a' = b'" using eq x(3) y(3) by (simp add: rename_key_def key_tuple_identity [OF x(1)] key_tuple_identity [OF y(1)])
  then have "map2 (class_map db td) cls xs = map2 (class_map db td) cls ys" using composite_identity_cancel x(3) y(3) by blast
  then have "xs = ys" using map2_class_inj [OF x(2) y(2) assms] by simp
  then show "a = b" using x(1) y(1) by simp
qed

section \<open>Events under the transformation\<close>

text \<open>
  One mapping for both ends: \<open>kappa\<close> gives the classes of a relation's key fields, and every table that
  plays a role in the relation declares exactly these classes for its member fields.
\<close>

definition table_aligned :: "write_context \<Rightarrow> string \<Rightarrow> (string \<Rightarrow> field_class list) \<Rightarrow> table_directive \<Rightarrow> string list \<Rightarrow> bool" where
  "table_aligned wc td kappa tab system \<longleftrightarrow> distinct (map fd_name (tab_transformed tab))
     \<and> (\<forall>rel\<in>set (wc_relations wc). \<forall>cls\<in>set (kappa (rel_id rel)).
          class_ok (wc_db wc) td cls \<and> (cls = TextClass \<longrightarrow> wc_text_domain wc = Some td))
     \<and> (\<forall>rel\<in>set (wc_relations wc). \<forall>(path, names)\<in>{(rel_parent_table rel, rel_parent_fields rel), (rel_foreign_table rel, rel_foreign_fields rel)}.
          path = tab_path tab \<longrightarrow> map (field_class tab) names = kappa (rel_id rel) \<and> set names \<inter> set system = {})"

definition members_ready :: "write_context \<Rightarrow> string \<Rightarrow> table_directive \<Rightarrow> field_values \<Rightarrow> bool" where
  "members_ready wc td tab vals \<longleftrightarrow> (\<forall>rel\<in>set (wc_relations wc).
     \<forall>(path, names)\<in>{(rel_parent_table rel, rel_parent_fields rel), (rel_foreign_table rel, rel_foreign_fields rel)}.
       path = tab_path tab \<longrightarrow> (\<forall>n\<in>set names. class_ready (wc_db wc) td (field_class tab n) (field_value vals n)))"

fun event_ready :: "database \<Rightarrow> string \<Rightarrow> (string \<Rightarrow> field_class list) \<Rightarrow> evidence_event \<Rightarrow> bool" where
  "event_ready db td kappa (KeyEvent side rel role c) \<longleftrightarrow> side = ''before'' \<and> key_ready db td (kappa rel) c"
| "event_ready db td kappa (SideEvent side rel role rows nulls) \<longleftrightarrow> side = ''before''"

abbreviation renamed :: "database \<Rightarrow> string \<Rightarrow> (string \<Rightarrow> field_class list) \<Rightarrow> evidence_event \<Rightarrow> evidence_event" where
  "renamed db td kappa \<equiv> rename_event (\<lambda>rel. rename_key db td (kappa rel))"

lemma side_events_renamed:
  assumes b: "side_events rel ''before'' role names vals = Inr es" and a: "side_events rel ''after'' role names vals' = Inr es'"
    and ready: "\<forall>n\<in>set names. class_ready db td (cl n) (field_value vals n) \<and> field_value vals' n = class_map db td (cl n) (field_value vals n)"
    and k: "map cl names = kappa (rel_id rel)"
  shows "es' = map (renamed db td kappa) es \<and> (\<forall>e\<in>set es. event_ready db td kappa e)"
proof -
  obtain cs nulls where c: "relation_components names vals = Inr (cs, nulls)"
    using b by (auto simp: side_events_def bindE_Inr_iff)
  obtain cs' where c': "relation_components names vals' = Inr (cs', nulls)"
    "\<not> nulls \<longrightarrow> cs' = map2 (class_map db td) (kappa (rel_id rel)) cs \<and> list_all2 (class_ready db td) (kappa (rel_id rel)) cs"
    using relation_components_map [OF c ready] unfolding k by blast
  show ?thesis
  proof (cases nulls)
    case True
    then show ?thesis using a b c c'(1) by (auto simp: side_events_def)
  next
    case False
    obtain x where x: "canonical_composite_identity cs = Inr x"
      "es = [SideEvent ''before'' (rel_id rel) role 1 0, KeyEvent ''before'' (rel_id rel) role x]"
      using b c False by (auto simp: side_events_def bindE_Inr_iff)
    obtain y where y: "canonical_composite_identity cs' = Inr y"
      "es' = [SideEvent ''after'' (rel_id rel) role 1 0, KeyEvent ''after'' (rel_id rel) role y]"
      using a c'(1) False by (auto simp: side_events_def bindE_Inr_iff)
    have "rename_key db td (kappa (rel_id rel)) x = y"
      using y(1) c'(2) False by (simp add: rename_key_def key_tuple_identity [OF x(1)])
    moreover have "key_ready db td (kappa (rel_id rel)) x" unfolding key_ready_def using x(1) y(1) c'(2) False by blast
    ultimately show ?thesis using x(2) y(2) by simp
  qed
qed

lemma relation_events_renamed:
  assumes t: "transform_values wc tab system vals = Inr vals'" and al: "table_aligned wc td kappa tab system"
    and m: "members_ready wc td tab vals" and rel: "rel \<in> set (wc_relations wc)"
    and b: "relation_events ''before'' tab vals rel = Inr es" and a: "relation_events ''after'' tab vals' rel = Inr es'"
  shows "es' = map (renamed (wc_db wc) td kappa) es \<and> (\<forall>e\<in>set es. event_ready (wc_db wc) td kappa e)"
proof -
  let ?db = "wc_db wc"
  have side: "ev' = map (renamed ?db td kappa) ev \<and> (\<forall>e\<in>set ev. event_ready ?db td kappa e)"
    if path: "(path, names) \<in> {(rel_parent_table rel, rel_parent_fields rel), (rel_foreign_table rel, rel_foreign_fields rel)}" "path = tab_path tab"
      and ev: "side_events rel ''before'' role names vals = Inr ev" "side_events rel ''after'' role names vals' = Inr ev'" for path names role ev ev'
  proof -
    have al': "map (field_class tab) names = kappa (rel_id rel)" "set names \<inter> set system = {}" "distinct (map fd_name (tab_transformed tab))"
      "\<forall>cls\<in>set (kappa (rel_id rel)). class_ok ?db td cls \<and> (cls = TextClass \<longrightarrow> wc_text_domain wc = Some td)"
      using al rel path unfolding table_aligned_def by blast+
    have rd: "\<forall>n\<in>set names. class_ready ?db td (field_class tab n) (field_value vals n)"
      using m rel path unfolding members_ready_def by blast
    have "field_value vals' n = class_map ?db td (field_class tab n) (field_value vals n)" if n: "n \<in> set names" for n
    proof (rule transformed_class [OF t al'(3)])
      have "field_class tab n \<in> set (kappa (rel_id rel))" unfolding al'(1) [symmetric] using n by simp
      then show "class_ok ?db td (field_class tab n)" "field_class tab n = TextClass \<longrightarrow> wc_text_domain wc = Some td"
        using al'(4) by blast+
    qed (use al'(2) rd n in auto)
    then show ?thesis using side_events_renamed [OF ev, of ?db td "field_class tab" kappa] rd al'(1) by blast
  qed
  obtain pb fb where eb: "(if rel_parent_table rel = tab_path tab then side_events rel ''before'' ''parent'' (rel_parent_fields rel) vals else Inr []) = Inr pb"
    "(if rel_foreign_table rel = tab_path tab then side_events rel ''before'' ''foreign'' (rel_foreign_fields rel) vals else Inr []) = Inr fb" "es = pb @ fb"
    using b unfolding relation_events_def by (auto simp: bindE_Inr_iff)
  obtain pa fa where ea: "(if rel_parent_table rel = tab_path tab then side_events rel ''after'' ''parent'' (rel_parent_fields rel) vals' else Inr []) = Inr pa"
    "(if rel_foreign_table rel = tab_path tab then side_events rel ''after'' ''foreign'' (rel_foreign_fields rel) vals' else Inr []) = Inr fa" "es' = pa @ fa"
    using a unfolding relation_events_def by (auto simp: bindE_Inr_iff)
  have "pa = map (renamed ?db td kappa) pb \<and> (\<forall>e\<in>set pb. event_ready ?db td kappa e)"
    using eb(1) ea(1) side [of "rel_parent_table rel" "rel_parent_fields rel"] by (auto split: if_splits)
  moreover have "fa = map (renamed ?db td kappa) fb \<and> (\<forall>e\<in>set fb. event_ready ?db td kappa e)"
    using eb(2) ea(2) side [of "rel_foreign_table rel" "rel_foreign_fields rel"] by (auto split: if_splits)
  ultimately show ?thesis using eb(3) ea(3) by auto
qed

lemma mapE_renamed:
  assumes "mapE f xs = Inr ess" and "mapE g xs = Inr ess'"
    and "\<And>x es es'. x \<in> set xs \<Longrightarrow> f x = Inr es \<Longrightarrow> g x = Inr es' \<Longrightarrow> es' = map h es \<and> (\<forall>e\<in>set es. P e)"
  shows "concat ess' = map h (concat ess) \<and> (\<forall>e\<in>set (concat ess). P e)"
  using assms
proof (induction xs arbitrary: ess ess')
  case (Cons x xs)
  obtain es es1 where f: "f x = Inr es" "mapE f xs = Inr es1" "ess = es # es1" using Cons.prems(1) by (auto simp: bindE_Inr_iff)
  obtain es' es1' where g: "g x = Inr es'" "mapE g xs = Inr es1'" "ess' = es' # es1'" using Cons.prems(2) by (auto simp: bindE_Inr_iff)
  have "es' = map h es \<and> (\<forall>e\<in>set es. P e)" using Cons.prems(3) [OF _ f(1) g(1)] by simp
  moreover have "concat es1' = map h (concat es1) \<and> (\<forall>e\<in>set (concat es1). P e)"
    using Cons.IH [OF f(2) g(2)] Cons.prems(3) by (meson list.set_intros(2))
  ultimately show ?case using f(3) g(3) by auto
qed simp

lemma record_events_renamed:
  assumes "transform_values wc tab system vals = Inr vals'" and "table_aligned wc td kappa tab system"
    and "members_ready wc td tab vals"
    and b: "record_events ''before'' (wc_relations wc) tab vals = Inr es" and a: "record_events ''after'' (wc_relations wc) tab vals' = Inr es'"
  shows "es' = map (renamed (wc_db wc) td kappa) es \<and> (\<forall>e\<in>set es. event_ready (wc_db wc) td kappa e)"
proof -
  obtain ess where ess: "mapE (relation_events ''before'' tab vals) (wc_relations wc) = Inr ess" "es = concat ess"
    using b by (auto simp: record_events_def bindE_Inr_iff)
  obtain ess' where ess': "mapE (relation_events ''after'' tab vals') (wc_relations wc) = Inr ess'" "es' = concat ess'"
    using a by (auto simp: record_events_def bindE_Inr_iff)
  show ?thesis unfolding ess(2) ess'(2)
    by (rule mapE_renamed [OF ess(1) ess'(1)]) (rule relation_events_renamed [OF assms(1-3)])
qed

section \<open>The evidence of a table write\<close>

lemma transform_stream_events:
  assumes "transform_stream wc tab system checkpoint k rs h = Inr (out, h')"
  shows "\<exists>ess. list_all2 (\<lambda>r es. \<exists>vals. transform_values wc tab system (rec_values r) = Inr vals
      \<and> record_events ''after'' (wc_relations wc) tab vals = Inr es) rs ess \<and> h' = fold shard_event (concat ess) h"
  using assms
proof (induction rs arbitrary: k h out)
  case (Cons r rs)
  obtain vals h1 out1 where r: "transform_values wc tab system (rec_values r) = Inr vals"
    "foldE (observe_after_relation tab vals) (wc_relations wc) h = Inr h1"
    "transform_stream wc tab system checkpoint (Suc k) rs h1 = Inr (out1, h')"
    using Cons.prems by (auto simp: transform_record_def bindE_Inr_iff)
  obtain es where es: "record_events ''after'' (wc_relations wc) tab vals = Inr es" "h1 = fold shard_event es h"
    using r(2) by (auto simp: after_events bindE_Inr_iff)
  obtain ess where "list_all2 (\<lambda>r es. \<exists>vals. transform_values wc tab system (rec_values r) = Inr vals
      \<and> record_events ''after'' (wc_relations wc) tab vals = Inr es) rs ess" "h' = fold shard_event (concat ess) h1"
    using Cons.IH [OF r(3)] by blast
  then show ?case using r(1) es by (intro exI [of _ "es # ess"]) auto
qed simp

lemma write_table_shard:
  assumes "write_table wc writer checkpoint system i tab rs = Inr (res, h)"
  obtains ess where "list_all2 (\<lambda>r es. \<exists>vals. transform_values wc tab system (rec_values r) = Inr vals
      \<and> record_events ''after'' (wc_relations wc) tab vals = Inr es) rs ess" and "h = worker_shard (concat ess)"
proof -
  obtain out h0 where t: "transform_stream wc tab system checkpoint 0 rs new_shard = Inr (out, h0)" "h = close_shard h0"
    using assms by (auto simp: write_table_def bindE_Inr_iff)
  then show thesis using transform_stream_events [OF t(1)] that by (auto simp: worker_shard_def)
qed

lemma accept_spool: "p2_spool (fold accept_table rs p) = fold merge_relation_shard (map snd rs) (p2_spool p)"
  by (induction rs arbitrary: p) (simp_all add: accept_table_def)

lemma merge_keeps_distinct: "distinct (map fst (sp_keys s)) \<Longrightarrow> distinct (map fst (sp_keys (fold merge_relation_shard hs s)))"
  by (induction hs arbitrary: s) (simp_all add: merge_relation_shard_def distinct_upserts)

lemma merge_pending:
  "sp_pending_keys (fold merge_relation_shard hs s) = sp_pending_keys s"
  "sp_pending_facts (fold merge_relation_shard hs s) = sp_pending_facts s"
  by (induction hs arbitrary: s) (simp_all add: merge_relation_shard_def)

text \<open>The spool of a run: pass 1 recorded \<open>es\<close>, pass 2 merged one shard per table on the same tables.\<close>

lemma run_evidence:
  assumes rec: "recorded new_spool es s"
  shows "evidence_of (flush (fold merge_relation_shard (map worker_shard ess) s)) (es @ concat ess)"
proof -
  let ?m = "fold merge_relation_shard (map worker_shard ess) s"
  have s: "ones_pending s" "distinct (map fst (sp_keys s))" "sp_keys (flush s) = execute_upserts (+) (key_rows es) []"
    "sp_facts (flush s) = execute_upserts merge_facts (fact_rows es) []"
    using rec by (simp_all add: recorded_def new_spool_def execute_upserts_def)
  have fl: "sp_keys (flush ?m) = execute_upserts (+) (sp_pending_keys s) (sp_keys ?m)"
    "sp_facts (flush ?m) = execute_upserts merge_facts (sp_pending_facts s) (sp_facts ?m)"
    using ones_upserts [OF s(1)] by (simp_all add: merge_pending)
  have before: "combine_option (+) (map_of (sp_keys s) k) (aggregate_of (+) k (sp_pending_keys s)) = aggregate_of (+) k (key_rows es)"
    "combine_option merge_facts (map_of (sp_facts s) j) (aggregate_of merge_facts j (sp_pending_facts s)) = aggregate_of merge_facts j (fact_rows es)"
    for k j
    using arg_cong [OF s(3), of "\<lambda>t. map_of t k"] arg_cong [OF s(4), of "\<lambda>t. map_of t j"] ones_upserts [OF s(1)]
    by (simp_all add: counts.upserts_lookup facts.upserts_lookup)
  have keys: "map_of (sp_keys (flush ?m)) k = aggregate_of (+) k (key_rows (es @ concat ess))" for k
  proof -
    let ?A = "map_of (sp_keys s) k" and ?E = "aggregate_of (+) k (key_rows (concat ess))" and ?P = "aggregate_of (+) k (sp_pending_keys s)"
    have "map_of (sp_keys (flush ?m)) k = combine_option (+) (combine_option (+) ?A ?E) ?P"
      unfolding fl(1) counts.upserts_lookup using merge_workers_lookup [of ess s k] by (simp only: counts.upserts_lookup)
    also have "\<dots> = combine_option (+) (combine_option (+) ?A ?P) ?E"
      by (simp only: counts.combine_assoc counts.combine_comm [of ?E ?P])
    finally show ?thesis by (simp only: before(1) rows_append counts.aggregate_append)
  qed
  have facts: "map_of (sp_facts (flush ?m)) j = aggregate_of merge_facts j (fact_rows (es @ concat ess))" for j
  proof -
    let ?A = "map_of (sp_facts s) j" and ?E = "aggregate_of merge_facts j (fact_rows (concat ess))"
    let ?P = "aggregate_of merge_facts j (sp_pending_facts s)"
    have "map_of (sp_facts (flush ?m)) j = combine_option merge_facts (combine_option merge_facts ?A ?E) ?P"
      unfolding fl(2) facts.upserts_lookup using merge_workers_lookup [of ess s undefined j] by (simp only: facts.upserts_lookup)
    also have "\<dots> = combine_option merge_facts (combine_option merge_facts ?A ?P) ?E"
      by (simp only: facts.combine_assoc facts.combine_comm [of ?E ?P])
    finally show ?thesis by (simp only: before(2) rows_append facts.aggregate_append)
  qed
  have "distinct (map fst (sp_keys (flush ?m)))"
    unfolding fl by (intro distinct_upserts merge_keeps_distinct s(2))
  then show ?thesis using keys facts by (simp only: evidence_of_def simp_thms)
qed

section \<open>Both passes together\<close>

lemma relation_components_cong:
  "\<forall>n\<in>set names. field_value v n = field_value w n \<Longrightarrow> relation_components names v = relation_components names w"
  by (induction names) (auto split: pyval.split)

text \<open>The member fields a table contributes to the declared relations.\<close>

definition member_fields :: "relation_directive list \<Rightarrow> table_directive \<Rightarrow> string set" where
  "member_fields rels tab = {n. \<exists>rel\<in>set rels. (rel_parent_table rel = tab_path tab \<and> n \<in> set (rel_parent_fields rel))
     \<or> (rel_foreign_table rel = tab_path tab \<and> n \<in> set (rel_foreign_fields rel))}"

lemma record_events_cong:
  assumes "\<forall>n\<in>member_fields rels tab. field_value v n = field_value w n"
  shows "record_events side rels tab v = record_events side rels tab w"
proof -
  have "relation_events side tab v rel = relation_events side tab w rel" if "rel \<in> set rels" for rel
  proof -
    have p: "rel_parent_table rel = tab_path tab \<Longrightarrow> relation_components (rel_parent_fields rel) v = relation_components (rel_parent_fields rel) w"
      using assms that by (intro relation_components_cong) (auto simp: member_fields_def)
    have f: "rel_foreign_table rel = tab_path tab \<Longrightarrow> relation_components (rel_foreign_fields rel) v = relation_components (rel_foreign_fields rel) w"
      using assms that by (intro relation_components_cong) (auto simp: member_fields_def)
    show ?thesis using p f by (simp add: relation_events_def side_events_def)
  qed
  then have "mapE (relation_events side tab v) rels = mapE (relation_events side tab w) rels" by (induction rels) auto
  then show ?thesis by (simp add: record_events_def)
qed

text \<open>
  What the two passes rely on at the read boundary: pass 2 reads the records pass 1 read, and the
  projected read of pass 1 has the member fields of the relations.
\<close>

definition same_source :: "source_reader \<Rightarrow> (nat \<Rightarrow> direct_record list) \<Rightarrow> engine_plan \<Rightarrow> bool" where
  "same_source rd records plan \<longleftrightarrow> (\<forall>i<length (ep_tables plan). \<forall>rs. scanned_items rd (ep_tables plan ! i) = map Inr rs \<longrightarrow>
     list_all2 (\<lambda>r q. \<forall>n\<in>member_fields (ep_relations plan) (ep_tables plan ! i).
       field_value (rec_values r) n = field_value (rec_values q) n) rs (records i))"

lemma items_of_events:
  assumes "mapE (item_events rels tab) items = Inr ess"
  obtains rs where "items = map Inr rs" and "list_all2 (\<lambda>r es. record_events ''before'' rels tab (rec_values r) = Inr es) rs ess"
proof -
  have l: "list_all2 (\<lambda>x es. item_events rels tab x = Inr es) items ess" using assms by (simp add: mapE_Inr_iff)
  then have "\<exists>rs. items = map Inr rs \<and> list_all2 (\<lambda>r es. record_events ''before'' rels tab (rec_values r) = Inr es) rs ess"
  proof (induction rule: list_all2_induct)
    case (Cons x xs es ess)
    then obtain rs r where "xs = map Inr rs" "list_all2 (\<lambda>r es. record_events ''before'' rels tab (rec_values r) = Inr es) rs ess"
      "x = Inr r" "record_events ''before'' rels tab (rec_values r) = Inr es"
      by (auto simp: item_events_def bindE_Inr_iff)
    then show ?case by (intro exI [of _ "r # rs"]) simp
  qed simp
  then show thesis using that by blast
qed

lemma table_renamed:
  assumes b: "table_events rd rels tab = Inr es" and rels: "wc_relations wc = rels"
    and src: "\<forall>rs. scanned_items rd tab = map Inr rs \<longrightarrow>
      list_all2 (\<lambda>r q. \<forall>n\<in>member_fields rels tab. field_value (rec_values r) n = field_value (rec_values q) n) rs records"
    and al: "table_aligned wc td kappa tab system" and ready: "\<forall>q\<in>set records. members_ready wc td tab (rec_values q)"
    and a: "list_all2 (\<lambda>q es. \<exists>vals. transform_values wc tab system (rec_values q) = Inr vals
      \<and> record_events ''after'' (wc_relations wc) tab vals = Inr es) records ess'"
  shows "concat ess' = map (renamed (wc_db wc) td kappa) es \<and> (\<forall>e\<in>set es. event_ready (wc_db wc) td kappa e)"
proof -
  obtain ess where ess: "mapE (item_events rels tab) (scanned_items rd tab) = Inr ess" "es = concat ess"
    using b by (auto simp: table_events_def bindE_Inr_iff)
  obtain rs where rs: "scanned_items rd tab = map Inr rs"
    "list_all2 (\<lambda>r es. record_events ''before'' rels tab (rec_values r) = Inr es) rs ess"
    using items_of_events [OF ess(1)] .
  have same: "list_all2 (\<lambda>r q. \<forall>n\<in>member_fields rels tab. field_value (rec_values r) n = field_value (rec_values q) n) rs records"
    using src rs(1) by blast
  have q: "list_all2 (\<lambda>q es. record_events ''before'' (wc_relations wc) tab (rec_values q) = Inr es) records ess"
    unfolding rels list_all2_conv_all_nth
  proof (intro conjI allI impI)
    show "length records = length ess" using same rs(2) by (simp add: list_all2_conv_all_nth)
    fix i
    assume "i < length records"
    then have i: "i < length rs" using same by (simp add: list_all2_conv_all_nth)
    show "record_events ''before'' rels tab (rec_values (records ! i)) = Inr (ess ! i)"
      using record_events_cong [OF list_all2_nthD [OF same i]] list_all2_nthD [OF rs(2) i] by simp
  qed
  have "list_all2 (\<lambda>es es'. es' = map (renamed (wc_db wc) td kappa) es \<and> (\<forall>e\<in>set es. event_ready (wc_db wc) td kappa e)) ess ess'"
    unfolding list_all2_conv_all_nth
  proof (intro conjI allI impI)
    show len: "length ess = length ess'" using q a by (simp add: list_all2_conv_all_nth)
    fix i
    assume i: "i < length ess"
    then have i': "i < length records" using q by (simp add: list_all2_conv_all_nth)
    obtain vals where v: "transform_values wc tab system (rec_values (records ! i)) = Inr vals"
      "record_events ''after'' (wc_relations wc) tab vals = Inr (ess' ! i)"
      using list_all2_nthD [OF a i'] by blast
    from record_events_renamed [OF v(1) al _ list_all2_nthD [OF q i'] v(2)] ready i'
    show "ess' ! i = map (renamed (wc_db wc) td kappa) (ess ! i)" "\<forall>e\<in>set (ess ! i). event_ready (wc_db wc) td kappa e" by auto
  qed
  then show ?thesis unfolding ess(2) by (induction rule: list_all2_induct) auto
qed

lemma ready_keys: "\<forall>e\<in>set es. event_ready db td kappa e \<Longrightarrow> \<forall>c\<in>set (keys_of (side, rel, role) es). key_ready db td (kappa rel) c"
  by (induction es rule: key_rows.induct) auto

lemma ready_before: "event_ready db td kappa e \<Longrightarrow> event_side e = ''before''"
  by (cases e) auto

text \<open>
  C12. The relation check of a run passes, by construction. Let pass 1 have scanned the plan's
  tables into a fresh spool and finalized the mappings, and let every table write of pass 2 succeed.
  If both ends of every declared relation use the same mapping (\<open>table_aligned\<close>), the vault has a
  mapping for each member value (\<open>members_ready\<close>) and pass 2 reads what pass 1 read, then for every
  number of workers and every schedule of the pool pass 2 returns, and its comparison finds all
  relations verified: equal key multiplicities on both sides, the same matched and orphaned rows and
  the same NULL counts.
\<close>

theorem relations_preserved:
  assumes scan: "run_pass_one rd ct bindings plan p0 = (Inr (), p1)" and new: "p1_spool p0 = new_spool"
    and fin: "run_pass_one_finalize t ct' codec plan p1 = (Inr (), p2)"
    and rels: "wc_relations wc = ep_relations plan" and src: "same_source rd records plan"
    and al: "\<forall>i<length (ep_tables plan). table_aligned wc td kappa (ep_tables plan ! i) (system i)"
    and ready: "\<forall>i<length (ep_tables plan). \<forall>q\<in>set (records i). members_ready wc td (ep_tables plan ! i) (rec_values q)"
    and outcome: "\<forall>i<length (ep_tables plan). outcome i = write_table wc writer (checkpoint i) (system i) i (ep_tables plan ! i) (records i)
      \<and> outcome i = Inr (result i)"
    and pool: "admissible_pool outcome settle" and w: "1 \<le> workers" and q: "never_cancelled cancel"
  shows "\<exists>p. run_pass_two cancel outcome settle workers (length (ep_tables plan)) (p1_spool p2) = Inr p
    \<and> all_relations_verified (compare_relations (ep_relations plan) (p2_spool p))"
proof -
  let ?n = "length (ep_tables plan)" and ?rels = "ep_relations plan" and ?ren = "renamed (wc_db wc) td kappa"
  obtain ess where ess: "mapE (table_events rd ?rels) (ep_tables plan) = Inr ess" "recorded new_spool (concat ess) (p1_spool p1)"
    using scan_recorded [OF scan] new by auto
  have len: "length ess = ?n" using ess(1) by (simp add: mapE_Inr_iff list_all2_conv_all_nth)
  have rec: "recorded new_spool (concat ess) (p1_spool p2)" using recorded_trans [OF ess(2) finalize_recorded [OF fin]] by simp
  have tab: "snd (result i) = worker_shard (map ?ren (ess ! i)) \<and> (\<forall>e\<in>set (ess ! i). event_ready (wc_db wc) td kappa e)" if i: "i < ?n" for i
  proof -
    have "write_table wc writer (checkpoint i) (system i) i (ep_tables plan ! i) (records i) = Inr (fst (result i), snd (result i))"
      using outcome i by auto
    then obtain ess' where e: "list_all2 (\<lambda>r es. \<exists>vals. transform_values wc (ep_tables plan ! i) (system i) (rec_values r) = Inr vals
      \<and> record_events ''after'' (wc_relations wc) (ep_tables plan ! i) vals = Inr es) (records i) ess'" "snd (result i) = worker_shard (concat ess')"
      by (rule write_table_shard)
    have b: "table_events rd ?rels (ep_tables plan ! i) = Inr (ess ! i)" using ess(1) i by (simp add: mapE_Inr_iff list_all2_conv_all_nth)
    have "concat ess' = map ?ren (ess ! i) \<and> (\<forall>e\<in>set (ess ! i). event_ready (wc_db wc) td kappa e)"
      by (rule table_renamed [OF b rels _ _ _ e(1)]) (use src al ready i in \<open>auto simp: same_source_def\<close>)
    then show ?thesis using e(2) by simp
  qed
  have shards: "map (snd \<circ> result) [0..<?n] = map worker_shard (map (map ?ren) ess)"
    using tab len by (intro nth_equalityI) auto
  let ?s = "flush (fold merge_relation_shard (map worker_shard (map (map ?ren) ess)) (p1_spool p2))"
  have ev: "evidence_of ?s (concat ess @ map ?ren (concat ess))" using run_evidence [OF rec, of "map (map ?ren) ess"] by (simp add: map_concat)
  have er: "\<forall>e\<in>set (concat ess). event_ready (wc_db wc) td kappa e"
  proof
    fix e
    assume "e \<in> set (concat ess)"
    then obtain xs where "xs \<in> set ess" "e \<in> set xs" by auto
    then obtain i where "i < length ess" "e \<in> set (ess ! i)" using in_set_conv_nth [of xs ess] by auto
    then show "event_ready (wc_db wc) td kappa e" using tab len by auto
  qed
  have "rs_verified (compare_relation ?s rel)" if rel: "rel \<in> set ?rels" for rel
  proof (rule renamed_relation_verified [OF ev])
    show "\<forall>e\<in>set (concat ess). event_side e = ''before''" using er ready_before by blast
    let ?K = "set (keys_of (''before'', rel_id rel, ''parent'') (concat ess)) \<union> set (keys_of (''before'', rel_id rel, ''foreign'') (concat ess))"
    show "inj_on (\<lambda>c. rename_key (wc_db wc) td (kappa (rel_id rel)) c) ?K"
    proof (cases "?n = 0")
      case True
      then show ?thesis using len by simp
    next
      case False
      then have "table_aligned wc td kappa (ep_tables plan ! 0) (system 0)" using al by simp
      then have "\<forall>c\<in>set (kappa (rel_id rel)). class_ok (wc_db wc) td c" using rel rels by (auto simp: table_aligned_def)
      then show ?thesis by (rule inj_on_subset [OF rename_key_inj]) (use ready_keys [OF er] in blast)
    qed
  qed
  then have "all_relations_verified (compare_relations ?rels ?s)"
    by (simp add: all_relations_verified_def compare_relations_def list_all_iff)
  moreover have "run_pass_two cancel outcome settle workers ?n (p1_spool p2) =
      (let p = fold accept_table (map result [0..<?n]) \<lparr>p2_spool = p1_spool p2, p2_written = [], p2_records_written = 0, p2_read_streams = []\<rparr>
       in Inr (p\<lparr>p2_spool := flush (p2_spool p)\<rparr>))"
    by (rule pass_two_accepts [OF pool w q]) (use outcome in blast)
  ultimately show ?thesis using shards by (auto simp: Let_def accept_spool)
qed

definition sample_field :: "string \<Rightarrow> field_directive" where
  "sample_field name = \<lparr>fd_name = name, fd_action = ACTION_TEXT, fd_type = CHR ''C'', fd_encoding = ''cp1250'', fd_width = 4,
     fd_numeric_domain = None, fd_member_range = None\<rparr>"

definition sample_table :: "string \<Rightarrow> string \<Rightarrow> table_directive" where
  "sample_table path name = \<lparr>tab_path = path, tab_transformed = [sample_field name], tab_memo_fields = [], tab_temporal_fields = [],
     tab_relation_fields = [name], tab_structural_cdx = False, tab_record_count = 1\<rparr>"

definition sample_plan :: engine_plan where
  "sample_plan = \<lparr>ep_tables = [sample_table ''c.dbf'' ''ID'', sample_table ''o.dbf'' ''CID''],
     ep_relations = [\<lparr>rel_id = ''r'', rel_arity = 1, rel_parent_table = ''c.dbf'', rel_foreign_table = ''o.dbf'', rel_parent_fields = [''ID''],
       rel_foreign_fields = [''CID''], rel_numeric_domain_id = None, rel_numeric_domain = None\<rparr>],
     ep_text_present = False, ep_numeric_present = False, ep_temporal_present = False, ep_structural_cdx_tables = [], ep_standalone_idx_paths = []\<rparr>"

definition sample_records :: "nat \<Rightarrow> direct_record list" where
  "sample_records i = [\<lparr>rec_index = 0, rec_deleted = False, rec_values = [(if i = 0 then ''ID'' else ''CID'') \<mapsto> VStr [65]]\<rparr>]"

definition sample_reader :: source_reader where
  "sample_reader = \<lparr>sr_open = (\<lambda>_. Inr ()), sr_stream = (\<lambda>path fields memo. map Inr (sample_records (if path = ''c.dbf'' then 0 else 1)))\<rparr>"

definition sample_mapping_db :: database where
  "sample_mapping_db = (committed transaction_sample)\<lparr>
     mapping_domains_tbl := [\<lparr>dr_id = ''dom-t'', dr_kind = KIND_TEXT, dr_normalization = None, dr_role = None\<rparr>],
     text_mappings_tbl := [\<lparr>tr_domain = ''dom-t'', tr_original = SText [65], tr_pseudonym = SText [66], tr_length = SInt 1\<rparr>]\<rparr>"

definition sample_start :: pass_one where
  "sample_start = \<lparr>p1_engine = vault.extend transaction_sample \<lparr>en_spool = new_spool, en_draws = 0, en_checks = 0\<rparr>, p1_temporal = None,
     p1_outcome = \<lparr>po_text_domain_id = None, po_text_allocated = 0, po_text_reused = 0, po_numeric_domains = [], po_numeric_allocated = Map.empty,
       po_temporal_offset = None, po_temporal_domain_id = None, po_tables_scanned = 0, po_records_scanned = 0, po_deleted_scanned = 0,
       po_read_streams = []\<rparr>\<rparr>"

definition sample_context :: write_context where
  "sample_context = \<lparr>wc_other = (\<lambda>_. []), wc_db = sample_mapping_db, wc_text_domain = Some ''dom-t'', wc_offset = None,
     wc_relations = ep_relations sample_plan\<rparr>"

definition sample_write :: "nat \<Rightarrow> (table_write_result \<times> shard) result" where
  "sample_write i = write_table sample_context (\<lambda>_ rs. Inr (length rs)) (\<lambda>_. Inr ()) [] i (ep_tables sample_plan ! i) (sample_records i)"

lemma less_two: "(i :: nat) < 2 \<longleftrightarrow> i = 0 \<or> i = 1"
  by auto

lemma utf8_A: "utf8_encode [65] = Some [65]"
  by code_simp

definition smooth :: "unit pass_one_op \<Rightarrow> bool" where
  "smooth m \<longleftrightarrow> (\<forall>p. \<exists>p'. m p = (Inr (), p') \<and> p1_temporal p' = p1_temporal p)"

lemma smooth_bindS: "smooth m \<Longrightarrow> smooth k \<Longrightarrow> smooth (bindS m (\<lambda>_. k))"
  unfolding smooth_def bindS_def by (metis (mono_tags, lifting) old.sum.simps(6) split_conv)

lemma smooth_eachS: "\<forall>x\<in>set xs. smooth (f x) \<Longrightarrow> smooth (eachS f xs)"
proof (induction xs)
  case (Cons x xs)
  then have "smooth (bindS (f x) (\<lambda>_. eachS f xs))" by (intro smooth_bindS) auto
  then show ?case by (simp add: smooth_def)
qed (simp add: smooth_def)

lemma smooth_on_spool: "\<forall>s. \<exists>s'. f s = Inr s' \<Longrightarrow> smooth (on_engine (on_spool f))"
  by (auto simp: smooth_def on_engine_def on_spool_def split: sum.split) (metis Inl_Inr_False)

lemma smooth_basic: "smooth (on_engine (check_cancelled (\<lambda>_. Continue)))" "smooth flush_spool" "smooth (count_record r)"
  "smooth (\<lambda>p. (Inr (), p\<lparr>p1_outcome := g p\<rparr>))" "smooth (\<lambda>p. (Inr (), p))"
  by (auto simp: smooth_def on_engine_def check_cancelled_def flush_spool_def on_spool_def count_record_def)

lemma sample_item_smooth:
  assumes "r \<in> set (sample_records i)" and "tab = sample_table path name"
  shows "smooth (scan_item (\<lambda>_. Continue) Map.empty (ep_relations sample_plan) tab (Inr r))"
proof -
  have f: "smooth (observe_field Map.empty tab r (sample_field name))"
  proof -
    have "smooth (on_engine (on_spool (observe_text_field (sample_field name) (field_value (rec_values r) name))))"
      using assms(1)
      by (intro smooth_on_spool) (auto simp: sample_records_def observe_text_field_def observe_text_raw_def canonical_text_identity_def utf8_A
          field_value_def Let_def simp del: utf8_encode.simps)
    then show ?thesis by (simp add: smooth_def observe_field_def sample_field_def)
  qed
  have c: "canonical_composite_identity [VStr [65]] = Inr (nat_text 1 @ 0 # 84 # nat_text 1 @ [58, 65])"
    by (simp add: canonical_composite_identity_def canonical_text_identity_def utf8_A del: utf8_encode.simps)
  have s: "\<exists>s'. observe_relation_side rel side role [n] (rec_values r) s = Inr s'" for rel side role n s
    using assms(1) by (auto simp: sample_records_def observe_relation_side_def field_value_def c Let_def)
  have "smooth (observe_record Map.empty (ep_relations sample_plan) tab r)"
    unfolding observe_record_def
  proof (intro smooth_bindS smooth_eachS ballI smooth_on_spool allI)
    show "smooth (observe_field Map.empty tab r fd)" if "fd \<in> set (tab_transformed tab)" for fd
      using that f assms(2) by (simp add: sample_table_def)
    show "\<exists>s'. observe_before_relation tab r rel s0 = Inr s'" if "rel \<in> set (ep_relations sample_plan)" for rel s0
      using that s by (auto simp: sample_plan_def observe_before_relation_def bindE_def split: sum.split)
        (metis Inl_Inr_False)+
  qed
  then have "smooth (bindS (on_engine (check_cancelled (\<lambda>_. Continue))) (\<lambda>_.
      bindS (observe_record Map.empty (ep_relations sample_plan) tab r) (\<lambda>_. count_record r)))"
    by (intro smooth_bindS smooth_basic)
  then show ?thesis by (simp add: smooth_def)
qed

lemma sample_scan_smooth: "smooth (run_pass_one sample_reader (\<lambda>_. Continue) Map.empty sample_plan)"
  unfolding run_pass_one_def
proof (intro smooth_eachS ballI)
  fix tab
  assume "tab \<in> set (ep_tables sample_plan)"
  then obtain path name where tab: "tab = sample_table path name" by (auto simp: sample_plan_def)
  have "smooth (scan_item (\<lambda>_. Continue) Map.empty (ep_relations sample_plan) tab item)"
    if "item \<in> set (sr_stream sample_reader (tab_path tab) fields memo)" for item fields memo
    using that sample_item_smooth [OF _ tab] by (auto simp: sample_reader_def)
  then show "smooth (scan_table sample_reader (\<lambda>_. Continue) Map.empty (ep_relations sample_plan) tab)"
    unfolding scan_table_def by (intro smooth_bindS smooth_basic smooth_eachS ballI) (simp_all add: sample_reader_def smooth_def)
qed

theorem relations_preserved_witness:
  "\<exists>s p. run_pass_two (\<lambda>_. Inr ()) sample_write (\<lambda>is. Inr (map (\<lambda>i. future_of (sample_write i)) is)) 2 2 s = Inr p
     \<and> all_relations_verified (compare_relations (ep_relations sample_plan) (p2_spool p))"
proof -
  let ?scan = "run_pass_one sample_reader (\<lambda>_. Continue) Map.empty sample_plan sample_start"
  have run: "fst ?scan = Inr () \<and> p1_temporal (snd ?scan) = None"
    using sample_scan_smooth unfolding smooth_def by (metis fst_conv snd_conv sample_start_def pass_one.select_convs(2))
  then obtain p1 where scan: "?scan = (Inr (), p1)" by (metis prod.collapse)
  have "fst (run_pass_one_finalize (\<lambda>_. 0) (\<lambda>_. Continue) (\<lambda>_ _. None) sample_plan p) = Inr ()" if "p1_temporal p = None" for p
    using that by (simp add: run_pass_one_finalize_def sample_plan_def bindS_def on_engine_def check_cancelled_def finalize_relation_stage_def
        finalize_temporal_stage_def)
  then obtain p2 where fin: "run_pass_one_finalize (\<lambda>_. 0) (\<lambda>_. Continue) (\<lambda>_ _. None) sample_plan p1 = (Inr (), p2)"
    using scan run by (metis prod.collapse snd_conv)
  have len: "length (ep_tables sample_plan) = 2" by (simp add: sample_plan_def)
  have "text_assoc ''dom-t'' sample_mapping_db = [([65], [66])]" by code_simp
  moreover have "bindable [65]" "bindable [66]" by code_simp+
  ultimately have ok: "class_ok sample_mapping_db ''dom-t'' TextClass" "class_ready sample_mapping_db ''dom-t'' TextClass (VStr [65])"
    by (auto simp: class_ok_def class_ready_def text_domain_ok_def sample_mapping_db_def has_domain_db_def text_rows_of_def text_row_ok_def)
  have cls: "field_class (sample_table path n) n = TextClass" for path n
    by (simp add: field_class_def sample_table_def sample_field_def directive_class_def)
  have src: "same_source sample_reader sample_records sample_plan"
    unfolding same_source_def len less_two
    by (auto simp: scanned_items_def sample_reader_def sample_plan_def sample_table_def list_all2_same)
  have al: "\<forall>i<length (ep_tables sample_plan). table_aligned sample_context ''dom-t'' (\<lambda>_. [TextClass]) (ep_tables sample_plan ! i) []"
    using ok(1) cls unfolding len less_two
    by (auto simp: table_aligned_def sample_plan_def sample_context_def) (auto simp: sample_table_def)
  have ready: "\<forall>i<length (ep_tables sample_plan). \<forall>q\<in>set (sample_records i).
      members_ready sample_context ''dom-t'' (ep_tables sample_plan ! i) (rec_values q)"
    using ok(2) cls unfolding len less_two
    by (auto simp: members_ready_def sample_plan_def sample_context_def sample_records_def field_value_def sample_table_def)
  have "\<not> isl (sample_write 0)" "\<not> isl (sample_write 1)" by code_simp+
  then have out: "\<forall>i<length (ep_tables sample_plan). sample_write i = write_table sample_context (\<lambda>_ rs. Inr (length rs)) (\<lambda>_. Inr ()) [] i
      (ep_tables sample_plan ! i) (sample_records i) \<and> sample_write i = Inr (projr (sample_write i))"
    unfolding len less_two by (auto simp: sample_write_def sum.collapse)
  have pool: "admissible_pool sample_write (\<lambda>is. Inr (map (\<lambda>i. future_of (sample_write i)) is))"
    by (auto simp: admissible_pool_def settled_batch_def list_all2_conv_all_nth)
  have new: "p1_spool sample_start = new_spool" by (simp add: sample_start_def vault.defs)
  have "wc_relations sample_context = ep_relations sample_plan" by (simp add: sample_context_def)
  from relations_preserved [OF scan new fin this src al ready out pool, of 2 "\<lambda>_. Inr ()"] show ?thesis
    unfolding len by (auto simp: never_cancelled_def)
qed

end
