(* ===== verification/Recovery_Correctness.thy ===== *)
theory Recovery_Correctness
  imports Recovery_Stream Relation_Evidence
begin

text \<open>
  Why the three services agree: what pass 2 writes is accepted by the verifier, what the verifier
  accepts is recovered exactly, and what recovery writes is accepted by the staged verification.
\<close>

section \<open>The reader's answers do not depend on the owning service\<close>

lemma reader_answers:
  "text_original g db d s = Inr x \<Longrightarrow> text_original h db d s = Inr x"
  "numeric_original g db d s = Inr x \<Longrightarrow> numeric_original h db d s = Inr x"
  "temporal_offset g db dd = Inr y \<Longrightarrow> temporal_offset h db dd = Inr y"
  "memo_recovery_row g db t k i = Inr z \<Longrightarrow> memo_recovery_row h db t k i = Inr z"
  by (auto simp: text_original_def numeric_original_def temporal_offset_def memo_recovery_row_def text_cell_def int_cell_def bindE_Inr_iff
      split: option.splits sqlval.splits if_splits)

lemma fail_finding_failures [simp]: "fi_failures (fail_finding c f) = insert c (fi_failures f)"
  by (simp add: fail_finding_def)

lemma fail_finding_clean [simp]:
  "fi_failures f' = {} \<Longrightarrow> fail_finding c f \<noteq> f'" "fi_failures f' = {} \<Longrightarrow> f' \<noteq> fail_finding c f"
  by auto

lemma verify_value_mono:
  "verify_text_value other g db d v w f = Inr f' \<Longrightarrow> fi_failures f \<subseteq> fi_failures f'"
  "verify_numeric_value other g db d v w f = Inr f' \<Longrightarrow> fi_failures f \<subseteq> fi_failures f'"
  "verify_memo_value other g db t k b v w f = Inr f' \<Longrightarrow> fi_failures f \<subseteq> fi_failures f'"
  "verify_temporal_value other g db dd v w f = Inr f' \<Longrightarrow> fi_failures f \<subseteq> fi_failures f'"
  by (auto simp: verify_text_value_def verify_numeric_value_def verify_memo_value_def verify_temporal_value_def
      elim!: bindE_InrE split: if_splits pyval.splits option.splits)

lemma verify_field_mono: "verify_field_value other g db t k b v w f = Inr f' \<Longrightarrow> fi_failures f \<subseteq> fi_failures f'"
  by (auto simp: verify_field_value_def split: if_splits option.splits dest: verify_value_mono)

section \<open>A verified value is recovered\<close>

text \<open>Equality in the sense of Python's \<open>==\<close>, for values of the vocabulary.\<close>

definition same_value :: "pyval \<Rightarrow> pyval \<Rightarrow> bool" where
  "same_value v w \<longleftrightarrow> comparison_key v = comparison_key w"

definition pseudonyms_nonempty :: "database \<Rightarrow> bool" where
  "pseudonyms_nonempty db \<longleftrightarrow> (\<forall>r\<in>set (text_mappings_tbl db). tr_pseudonym r \<noteq> SText [])"

text \<open>A temporal value that is not NULL belongs to a domain with a stored offset and is a valid date.\<close>

definition temporal_bound :: "failure \<Rightarrow> database \<Rightarrow> ledger_binding \<Rightarrow> pyval \<Rightarrow> bool" where
  "temporal_bound g db b v \<longleftrightarrow> lb_action b = Some ACTION_TEMPORAL \<and> v \<noteq> VNone \<longrightarrow>
     (\<exists>d k. lb_domain b = Some d \<and> temporal_offset g db (Some d) = Inr (Some k)) \<and> valid_temporal v"

lemma verified_text_recovers:
  assumes "verify_text_value other g db d v w f = Inr f'" and "fi_failures f' = {}" and "\<not> is_other v" "\<not> is_other w" and "pseudonyms_nonempty db"
  shows "(v = VNone \<or> v = VStr []) \<and> w = v \<or> (\<exists>s t. w = VStr s \<and> s \<noteq> [] \<and> v = VStr t \<and> text_original h db d s = Inr (Some t))"
proof (cases "v = VNone \<or> v = VStr []")
  case True
  then show ?thesis using assms(1-4) by (auto simp: verify_text_value_def py_eq_def split: if_splits)
next
  case False
  then obtain s t where w: "w = VStr s" "text_original g db d s = Inr (Some t)" "v = VStr t"
    using assms(1-4) by (auto simp: verify_text_value_def py_eq_def bindE_Inr_iff split: if_splits pyval.splits option.splits)
  have "s \<noteq> []"
  proof
    assume "s = []"
    then have "\<exists>r\<in>set (text_mappings_tbl db). tr_pseudonym r = SText []"
      using w(2) by (auto simp: text_original_def bindE_Inr_iff split: option.splits dest!: find_Some_set)
    then show False using assms(5) by (auto simp: pseudonyms_nonempty_def)
  qed
  then show ?thesis using w reader_answers(1) [OF w(2)] by blast
qed

lemma verified_numeric_recovers:
  assumes "verify_numeric_value other g db d v w f = Inr f'" and "fi_failures f' = {}"
  shows "v = VNone \<and> w = VNone \<or> (\<exists>i j. w = VInt i \<and> v = VInt j \<and> numeric_original h db d (int_text i) = Inr (Some (int_text j)))"
proof (cases "v = VNone")
  case True
  then show ?thesis using assms by (auto simp: verify_numeric_value_def split: if_splits)
next
  case False
  obtain i t where w: "w = VInt i" "numeric_original g db d (int_text i) = Inr (Some t)" "canonical_integer_text v = Inr t"
    using assms False by (cases w) (auto simp: verify_numeric_value_def bindE_Inr_iff split: if_splits)
  then obtain j where "v = VInt j" "t = int_text j" by (cases v) auto
  then show ?thesis using w reader_answers(2) [OF w(2)] by blast
qed

lemma verified_memo_recovers:
  assumes "verify_memo_value other g db t k b v w f = Inr f'" and "fi_failures f' = {}" and "\<not> is_other v"
  shows "v = VNone \<and> w = VNone \<or> (w \<noteq> VNone \<and> (\<exists>r u. memo_recovery_row h db t k (lb_field_id b) = Inr (Some r) \<and> memo_original r = Inr u \<and> same_value u v))"
proof (cases "v = VNone")
  case True
  then show ?thesis using assms by (auto simp: verify_memo_value_def split: if_splits)
next
  case False
  obtain row where w: "w \<noteq> VNone" and row: "memo_recovery_row g db t k (lb_field_id b) = Inr row"
    using assms(1,2) False by (auto simp: verify_memo_value_def bindE_Inr_iff split: if_splits)
  obtain p kd where r: "row = Some (p, kd)"
    using assms(1,2) False w row by (cases row) (auto simp: verify_memo_value_def)
  obtain u where u: "memo_original (p, kd) = Inr u" "py_eq other u v"
    using assms(1,2) False w row r by (auto simp: verify_memo_value_def bindE_Inr_iff split: if_splits)
  have "\<not> is_other u" using u(1) by (auto simp: memo_original_def split: payload_kind.splits option.splits)
  then have "same_value u v" using u(2) assms(3) by (simp add: py_eq_def same_value_def)
  then show ?thesis using w u(1) reader_answers(4) [OF row] r by blast
qed

lemma verified_temporal_recovers:
  assumes "verify_temporal_value other g db (lb_domain b) v w f = Inr f'" and "fi_failures f' = {}" and "\<not> is_other w"
    and act: "lb_action b = Some ACTION_TEMPORAL" and tb: "temporal_bound g db b v"
  shows "\<exists>k. reverse_offset db b = Inr k \<and> (case k of None \<Rightarrow> v = VNone | Some n \<Rightarrow> temporal_shift w (- n) = Inr v)"
proof -
  obtain off where off: "temporal_offset g db (lb_domain b) = Inr off"
    using assms(1) by (auto simp: verify_temporal_value_def bindE_Inr_iff)
  note ro = reader_answers(3) [OF off, of recovery_failure]
  show ?thesis
  proof (cases "v = VNone")
    case True
    then have "w = VNone" using assms(1-3) off
      by (auto simp: verify_temporal_value_def py_eq_def split: option.splits if_splits)
    then show ?thesis using ro act True
      by (cases "lb_domain b") (auto simp: reverse_offset_def split: option.split)
  next
    case False
    then obtain d k where d: "lb_domain b = Some d" "off = Some k" "valid_temporal v" using tb act off by (auto simp: temporal_bound_def)
    obtain s where s: "temporal_shift v k = Inr s" "py_eq other w s"
      using assms(1,2) off d by (auto simp: verify_temporal_value_def bindE_Inr_iff split: if_splits)
    have "\<not> is_other s \<and> comparison_key s = s" using s(1) by (cases v) (auto simp: Let_def split: if_splits)
    then have "w = s" using s d(3) assms(3) by (cases v; cases w) (auto simp: py_eq_def Let_def split: if_splits)
    then have "temporal_shift w (- k) = Inr v" using temporal_recover_shift [OF d(3) s(1)] by (simp add: temporal_recover_def)
    then show ?thesis using ro act d by (auto simp: reverse_offset_def)
  qed
qed

section \<open>A verified record is recovered\<close>

lemma same_value_refl [simp]: "same_value v v"
  by (simp add: same_value_def)

lemma verified_value_recovers:
  assumes ver: "verify_field_value other g db t k b v w f = Inr f'" and clean: "fi_failures f' = {}"
    and voc: "\<not> is_other v" "\<not> is_other w" and "pseudonyms_nonempty db" and tb: "temporal_bound g db b v"
    and dom: "lb_action b = Some ACTION_TEXT \<longrightarrow> lb_domain b \<noteq> None"
  shows "\<exists>off u. reverse_offset db b = Inr off \<and> reverse_value db t k b off w = Inr u \<and> same_value u v"
proof -
  obtain a where a: "lb_action b = Some a" "a \<in> {ACTION_KEEP, ACTION_MEMO, ACTION_TEMPORAL, ACTION_TEXT}"
    using ver clean by (cases "lb_action b") (auto simp: verify_field_value_def split: if_splits)
  have keep: "ACTION_KEEP \<notin> {ACTION_MEMO, ACTION_TEMPORAL, ACTION_TEXT}"
    by (simp add: ACTION_KEEP_def ACTION_MEMO_def ACTION_TEMPORAL_def ACTION_TEXT_def)
  consider "a = ACTION_KEEP" | "a = ACTION_MEMO" | "a = ACTION_TEMPORAL" | "a = ACTION_TEXT" using a(2) by blast
  then show ?thesis
  proof cases
    case 1
    then have "py_eq other v w" using ver clean a by (auto simp: verify_field_value_def split: if_splits)
    then have "same_value w v" using voc by (simp add: py_eq_def same_value_def)
    then show ?thesis using a 1 keep by (auto simp: reverse_offset_def reverse_value_def)
  next
    case 2
    then have "verify_memo_value other g db t k b v w f = Inr f'" using ver a keep by (auto simp: verify_field_value_def)
    from verified_memo_recovers [OF this clean voc(1), of recovery_failure] show ?thesis
      using a 2 keep by (auto simp: reverse_offset_def reverse_value_def)
  next
    case 3
    then have "verify_temporal_value other g db (lb_domain b) v w f = Inr f'" using ver a keep by (auto simp: verify_field_value_def)
    from verified_temporal_recovers [OF this clean voc(2) _ tb] obtain off
      where "reverse_offset db b = Inr off" "case off of None \<Rightarrow> v = VNone | Some n \<Rightarrow> temporal_shift w (- n) = Inr v" using a 3 by auto
    then show ?thesis using a 3 keep by (cases off) (auto simp: reverse_value_def)
  next
    case 4
    have off: "reverse_offset db b = Inr None" using a 4 by (simp add: reverse_offset_def)
    obtain d where d: "lb_domain b = Some d" using dom a 4 by auto
    have "\<exists>u. reverse_value db t k b None w = Inr u \<and> same_value u v"
    proof (cases "domain_kind db d = Some KIND_NUMERIC_KEY")
      case True
      then have "verify_numeric_value other g db d v w f = Inr f'" using ver a 4 keep d by (auto simp: verify_field_value_def)
      from verified_numeric_recovers [OF this clean, of recovery_failure] show ?thesis
        using a 4 keep d True by (auto simp: reverse_value_def int_text_match int_of_int_text)
    next
      case False
      then have "verify_text_value other g db d v w f = Inr f'" using ver a 4 keep d by (auto simp: verify_field_value_def)
      from verified_text_recovers [OF this clean voc assms(5), of recovery_failure] show ?thesis
        using a 4 keep d False by (auto simp: reverse_value_def)
    qed
    then show ?thesis using off by blast
  qed
qed

text \<open>The recovery of a record field by field, as a function of the field's name.\<close>

definition recover_name :: "database \<Rightarrow> string \<Rightarrow> ledger \<Rightarrow> direct_record \<Rightarrow> string \<Rightarrow> pyval result" where
  "recover_name db t ledger r name =
     (case map_of ledger name of
        None \<Rightarrow> Inl RuntimeError
      | Some b \<Rightarrow> bindE (reverse_offset db b) (\<lambda>off. reverse_value db t (rec_index r) b off (field_value (rec_values r) name)))"

lemma recover_field_name:
  "recover_field db t ledger r x vals = bindE (recover_name db t ledger r (sf_name x)) (\<lambda>w. Inr (vals(sf_name x \<mapsto> w)))"
  by (auto simp: recover_field_def recover_name_def bindE_def split: option.split sum.split)

lemma foldE_updates:
  assumes "\<forall>x\<in>set xs. \<exists>w. g (nm x) = Inr w"
  shows "\<exists>vals'. foldE (\<lambda>x vals. bindE (g (nm x)) (\<lambda>w. Inr (vals(nm x \<mapsto> w)))) xs vals = Inr vals'
    \<and> (\<forall>n. vals' n = (if n \<in> nm ` set xs then Some (projr (g n)) else vals n))"
  using assms
proof (induction xs arbitrary: vals)
  case (Cons x xs)
  obtain w where w: "g (nm x) = Inr w" using Cons.prems by auto
  show ?case using Cons.IH [of "vals(nm x \<mapsto> w)"] Cons.prems w by auto
qed simp

lemma recover_values_by_name:
  assumes "\<forall>x\<in>set (logical_fields schema). \<exists>w. recover_name db t ledger r (sf_name x) = Inr w"
  shows "\<exists>vals. recover_values db t schema ledger r = Inr vals
    \<and> (\<forall>n. vals n = (if n \<in> sf_name ` set (logical_fields schema) then Some (projr (recover_name db t ledger r n)) else None))"
  using foldE_updates [where g = "recover_name db t ledger r" and nm = sf_name, OF assms, of Map.empty] by (simp add: recover_values_def recover_field_name [abs_def])

lemma foldE_failures:
  assumes "\<And>x f f'. step x f = Inr f' \<Longrightarrow> fi_failures f \<subseteq> fi_failures f'"
  shows "foldE step xs f = Inr f' \<Longrightarrow> fi_failures f \<subseteq> fi_failures f'"
proof (induction xs arbitrary: f)
  case (Cons x xs)
  then show ?case using assms by (auto elim!: bindE_InrE) blast
qed simp

abbreviation verify_step ::
    "(pyval \<Rightarrow> pyval \<Rightarrow> bool) \<Rightarrow> failure \<Rightarrow> database \<Rightarrow> string \<Rightarrow> ledger \<Rightarrow> int \<Rightarrow> field_values \<Rightarrow> field_values \<Rightarrow> schema_field \<Rightarrow> findings \<Rightarrow> findings result" where
  "verify_step other g db t ledger k sv ov \<equiv> \<lambda>x f. case map_of ledger (sf_name x) of
     None \<Rightarrow> Inr (fail_finding ''POLICY_BINDING_MISSING'' f)
   | Some b \<Rightarrow> verify_field_value other g db t k b (field_value sv (sf_name x)) (field_value ov (sf_name x)) f"

lemma verify_step_mono: "verify_step other g db t ledger k sv ov x f = Inr f' \<Longrightarrow> fi_failures f \<subseteq> fi_failures f'"
  by (auto split: option.splits dest: verify_field_mono)

lemma verify_record_mono: "verify_record_values other g db t schema ledger k sv ov f = Inr f' \<Longrightarrow> fi_failures f \<subseteq> fi_failures f'"
  unfolding verify_record_values_def by (rule foldE_failures [OF verify_step_mono])

lemma verified_fields_clean:
  assumes "verify_record_values other g db t schema ledger k sv ov f = Inr f'" and "fi_failures f' = {}" and "x \<in> set (logical_fields schema)"
  shows "\<exists>b f1 f2. map_of ledger (sf_name x) = Some b
    \<and> verify_field_value other g db t k b (field_value sv (sf_name x)) (field_value ov (sf_name x)) f1 = Inr f2 \<and> fi_failures f2 = {}"
proof -
  let ?step = "verify_step other g db t ledger k sv ov"
  obtain xs ys where split: "logical_fields schema = xs @ x # ys" using assms(3) by (meson split_list)
  obtain f1 f2 where st: "?step x f1 = Inr f2" "foldE ?step ys f2 = Inr f'"
    using assms(1) unfolding verify_record_values_def split by (auto elim!: bindE_InrE)
  have "fi_failures f2 = {}" using foldE_failures [OF verify_step_mono st(2)] assms(2) by auto
  then show ?thesis using st(1) by (cases "map_of ledger (sf_name x)") auto
qed

definition ledger_bound :: "failure \<Rightarrow> database \<Rightarrow> table_schema \<Rightarrow> ledger \<Rightarrow> field_values \<Rightarrow> bool" where
  "ledger_bound g db schema ledger sv \<longleftrightarrow> (\<forall>x\<in>set (logical_fields schema). \<forall>b. map_of ledger (sf_name x) = Some b \<longrightarrow>
     temporal_bound g db b (field_value sv (sf_name x)) \<and> (lb_action b = Some ACTION_TEXT \<longrightarrow> lb_domain b \<noteq> None))"

definition vocabulary :: "table_schema \<Rightarrow> field_values \<Rightarrow> bool" where
  "vocabulary schema vals \<longleftrightarrow> (\<forall>x\<in>set (logical_fields schema). \<not> is_other (field_value vals (sf_name x)))"

lemma verified_record:
  assumes ver: "verify_record_values other g db t schema ledger (rec_index q) sv (rec_values q) f = Inr f'" and clean: "fi_failures f' = {}"
    and "vocabulary schema sv" "vocabulary schema (rec_values q)" and "pseudonyms_nonempty db" and "ledger_bound g db schema ledger sv"
  shows "\<exists>vals. recover_values db t schema ledger q = Inr vals
    \<and> (\<forall>x\<in>set (logical_fields schema). same_value (field_value vals (sf_name x)) (field_value sv (sf_name x)))"
proof -
  have one: "\<exists>w. recover_name db t ledger q (sf_name x) = Inr w \<and> same_value w (field_value sv (sf_name x))"
    if x: "x \<in> set (logical_fields schema)" for x
  proof -
    obtain b f1 f2 where b: "map_of ledger (sf_name x) = Some b"
      "verify_field_value other g db t (rec_index q) b (field_value sv (sf_name x)) (field_value (rec_values q) (sf_name x)) f1 = Inr f2"
      "fi_failures f2 = {}"
      using verified_fields_clean [OF ver clean x] by blast
    have "\<exists>off u. reverse_offset db b = Inr off \<and> reverse_value db t (rec_index q) b off (field_value (rec_values q) (sf_name x)) = Inr u
        \<and> same_value u (field_value sv (sf_name x))"
      using assms(3-6) x b(1) by (intro verified_value_recovers [OF b(2,3)]) (auto simp: vocabulary_def ledger_bound_def)
    then show ?thesis using b(1) by (auto simp: recover_name_def)
  qed
  then obtain vals where vals: "recover_values db t schema ledger q = Inr vals"
    "\<forall>n. vals n = (if n \<in> sf_name ` set (logical_fields schema) then Some (projr (recover_name db t ledger q n)) else None)"
    using recover_values_by_name [of schema db t ledger q] by blast
  have "same_value (field_value vals (sf_name x)) (field_value sv (sf_name x))" if x: "x \<in> set (logical_fields schema)" for x
    using one [OF x] vals(2) x by (auto simp: field_value_def)
  then show ?thesis using vals(1) by blast
qed

section \<open>A verified table is recovered\<close>

lemma ledger_loop_fst: "fst (ledger_loop db s rows bs f) = fst (ledger_loop db s rows bs f')"
  by (induction rows arbitrary: bs f f') auto

lemma ledger_fst: "fst (verify_field_ledger db s rows f) = fst (verify_field_ledger db s rows f')"
  using ledger_loop_fst [of db s rows "[]" f f'] by (auto simp: verify_field_ledger_def split: prod.split)

lemma ledger_row_mono: "fi_failures f \<subseteq> fi_failures (ledger_row_findings db s row f)"
  by (auto simp: ledger_row_findings_def Let_def split: option.split)

lemma ledger_loop_mono: "fi_failures f \<subseteq> fi_failures (snd (ledger_loop db s rows bs f))"
proof (induction rows arbitrary: bs f)
  case (Cons row rows)
  show ?case
  proof (cases "map_of bs (fr_name row) = None")
    case True
    then show ?thesis using subset_trans [OF ledger_row_mono Cons.IH] by simp
  next
    case False
    then show ?thesis using Cons.IH [of "fail_finding ''POLICY_BINDING_MISMATCH'' f" bs] by auto
  qed
qed simp

definition binding_ok :: "database \<Rightarrow> ledger_binding \<Rightarrow> bool" where
  "binding_ok db b \<longleftrightarrow> (\<exists>a. lb_action b = Some a \<and> a \<in> set LEDGER_ACTIONS \<and> ledger_action_ok db a (lb_domain b))"

lemma binding_ok_domain: "binding_ok db b \<Longrightarrow> lb_action b = Some ACTION_TEXT \<Longrightarrow> lb_domain b \<noteq> None"
  by (simp add: binding_ok_def ledger_action_ok_def ACTION_KEEP_def ACTION_TEXT_def ACTION_MEMO_def Let_def)

lemma ledger_loop_bindings:
  "fi_failures (snd (ledger_loop db s rows bs f)) = {} \<Longrightarrow> p \<in> set (fst (ledger_loop db s rows bs f)) \<Longrightarrow> p \<in> set bs \<or> binding_ok db (snd p)"
proof (induction rows arbitrary: bs f)
  case (Cons row rows)
  let ?b = "\<lparr>lb_field_id = fr_id row, lb_type = fr_type row, lb_action = fr_action row, lb_domain = fr_domain row\<rparr>"
  show ?case
  proof (cases "map_of bs (fr_name row) = None")
    case False
    then show ?thesis using Cons ledger_loop_mono [of "fail_finding ''POLICY_BINDING_MISMATCH'' f" db s rows bs] by auto
  next
    case True
    let ?f = "ledger_row_findings db s row f"
    have run: "ledger_loop db s (row # rows) bs f = ledger_loop db s rows (bs @ [(fr_name row, ?b)]) ?f" using True by simp
    have "fi_failures ?f = {}" using ledger_loop_mono [of ?f db s rows "bs @ [(fr_name row, ?b)]"] Cons.prems(1) unfolding run by simp
    then have "binding_ok db ?b"
      by (auto simp: ledger_row_findings_def binding_ok_def Let_def split: option.splits if_splits)
    then show ?thesis using Cons.IH [of "bs @ [(fr_name row, ?b)]" ?f] Cons.prems unfolding run by auto
  qed
qed simp

lemma ledger_bindings:
  assumes "fi_failures (snd (verify_field_ledger db s rows f)) = {}" and "map_of (fst (verify_field_ledger db s rows f)) n = Some b"
  shows "binding_ok db b"
proof -
  have "fst (verify_field_ledger db s rows f) = fst (ledger_loop db s rows [] f)" "fi_failures (snd (ledger_loop db s rows [] f)) = {}"
    using assms(1) by (auto simp: verify_field_ledger_def split: prod.splits if_splits)
  then show ?thesis using ledger_loop_bindings [of db s rows "[]" f "(n, b)"] map_of_SomeD [OF assms(2)] by simp
qed

definition grows :: "(direct_record \<Rightarrow> direct_record \<Rightarrow> findings \<Rightarrow> findings result) \<Rightarrow> bool" where
  "grows vf \<longleftrightarrow> (\<forall>r q f f'. vf r q f = Inr f' \<longrightarrow> fi_failures f \<subseteq> fi_failures f')"

lemma grows_mono: "grows vf \<Longrightarrow> vf r q f = Inr f' \<Longrightarrow> fi_failures f \<subseteq> fi_failures f'"
  by (simp add: grows_def)

lemma record_values_grow [simp]: "grows (\<lambda>r q. verify_record_values other g db t s l (rec_index r) (rec_values r) (rec_values q))"
  unfolding grows_def by (intro allI impI) (rule verify_record_mono)

lemma verify_records_mono:
  assumes mono: "grows vf"
  shows "verify_records cp vf ss os n f = Inr (m, f', es, eo) \<Longrightarrow> fi_failures f \<subseteq> fi_failures f'"
proof (induction ss arbitrary: os n f)
  case (Cons r rs)
  show ?case
  proof (cases os)
    case (Cons q qs)
    let ?f = "if rec_deleted r \<noteq> rec_deleted q then fail_finding ''DELETED_MARKER_MISMATCH'' f else f"
    show ?thesis
    proof (cases "rec_index r = rec_index q")
      case True
      then obtain f1 where f1: "vf r q ?f = Inr f1" "verify_records cp vf rs qs (Suc n) f1 = Inr (m, f', es, eo)"
        using Cons.prems \<open>os = q # qs\<close> by (auto elim!: bindE_InrE)
      then show ?thesis using grows_mono [OF mono f1(1)] Cons.IH [OF f1(2)] by (auto split: if_splits)
    qed (use Cons.prems \<open>os = q # qs\<close> in \<open>auto elim!: bindE_InrE\<close>)
  qed (use Cons.prems in auto)
qed auto

lemma verify_records_clean:
  assumes mono: "grows vf"
  shows "verify_records cp vf ss os n f = Inr (m, f', [], []) \<Longrightarrow> fi_failures f' = {} \<Longrightarrow>
    m = n + length os \<and> length os \<le> length ss \<and> length ss \<le> Suc (length os)
    \<and> list_all2 (\<lambda>r q. rec_index r = rec_index q \<and> rec_deleted r = rec_deleted q \<and> (\<exists>f1 f2. vf r q f1 = Inr f2 \<and> fi_failures f2 = {}))
        (take (length os) ss) os"
proof (induction ss arbitrary: os n f)
  case (Cons r rs)
  show ?case
  proof (cases os)
    case (Cons q qs)
    let ?f = "if rec_deleted r \<noteq> rec_deleted q then fail_finding ''DELETED_MARKER_MISMATCH'' f else f"
    have "rec_index r = rec_index q"
      using Cons.prems \<open>os = q # qs\<close> by (auto elim!: bindE_InrE split: if_splits)
    then obtain f1 where f1: "vf r q ?f = Inr f1" "verify_records cp vf rs qs (Suc n) f1 = Inr (m, f', [], [])"
      using Cons.prems \<open>os = q # qs\<close> by (auto elim!: bindE_InrE)
    have "fi_failures f1 = {}" using verify_records_mono [OF mono f1(2)] Cons.prems(2) by auto
    moreover from this have "rec_deleted r = rec_deleted q" using grows_mono [OF mono f1(1)] by (auto split: if_splits)
    ultimately show ?thesis using Cons.IH [OF f1(2) Cons.prems(2)] f1(1) \<open>os = q # qs\<close> \<open>rec_index r = rec_index q\<close> by auto
  qed (use Cons.prems in auto)
qed auto

lemma recovered_stream:
  assumes "\<forall>q\<in>set qs. \<exists>vals. recover_values db t schema ledger q = Inr vals"
  shows "recovered_records db t schema ledger (\<lambda>_. Inr ()) k qs =
    Inr (map (\<lambda>q. \<lparr>rec_index = 0, rec_deleted = rec_deleted q, rec_values = projr (recover_values db t schema ledger q)\<rparr>) qs)"
  using assms by (induction qs arbitrary: k) auto

lemma table_recovers:
  assumes ver: "verify_table other g db checkpoint path (Inr src) (Inr out) f = Inr (n, f')" and clean: "fi_failures f' = {}"
    and voc: "\<forall>r\<in>set (tv_records src) \<union> set (tv_records out). vocabulary (tv_schema src) (rec_values r)" and "pseudonyms_nonempty db"
    and tb: "\<forall>r\<in>set (tv_records src). \<forall>x\<in>set (logical_fields (tv_schema src)). \<forall>table_id b.
      map_of (rev (table_rows db)) path = Some table_id \<longrightarrow>
      map_of (fst (verify_field_ledger db (tv_schema src) (field_rows db table_id) no_findings)) (sf_name x) = Some b \<longrightarrow>
      temporal_bound g db b (field_value (rec_values r) (sf_name x))"
  shows "\<exists>table_id recs. let ledger = fst (verify_field_ledger db (tv_schema out) (field_rows db table_id) no_findings) in
    map_of (rev (table_rows db)) path = Some table_id
    \<and> recovered_records db table_id (tv_schema out) ledger (\<lambda>_. Inr ()) 0 (tv_records out) = Inr recs
    \<and> n = length (tv_records out) \<and> n \<le> length (tv_records src) \<and> length (tv_records src) \<le> Suc n
    \<and> list_all2 (\<lambda>r q. rec_deleted q = rec_deleted r
        \<and> (\<forall>x\<in>set (logical_fields (tv_schema src)). same_value (field_value (rec_values q) (sf_name x)) (field_value (rec_values r) (sf_name x))))
        (take n (tv_records src)) recs"
proof -
  obtain t where pre: "tv_schema src = tv_schema out" "map_of (rev (table_rows db)) path = Some t"
    using ver clean by (auto simp: verify_table_def split: if_splits option.splits)
  define ledger where "ledger = fst (verify_field_ledger db (tv_schema out) (field_rows db t) no_findings)"
  define f1 where "f1 = snd (verify_field_ledger db (tv_schema out) (field_rows db t) f)"
  let ?val = "\<lambda>r q. verify_record_values other g db t (tv_schema out) ledger (rec_index r) (rec_values r) (rec_values q)"
  have l: "verify_field_ledger db (tv_schema out) (field_rows db t) f = (ledger, f1)"
    unfolding ledger_def f1_def by (metis ledger_fst prod.collapse)
  obtain f2 es eo where run: "verify_records checkpoint ?val (tv_records src) (tv_records out) 0 f1 = Inr (n, f2, es, eo)"
    "f' = (if es \<noteq> [] \<or> eo \<noteq> [] then fail_finding ''RECORD_COUNT_MISMATCH'' f2 else f2)"
    using ver clean pre by (auto simp: verify_table_def l elim!: bindE_InrE split: if_splits)
  have none: "es = []" "eo = []" "f2 = f'" using run(2) clean by (auto split: if_splits)
  note scan = verify_records_clean [OF record_values_grow run(1) [unfolded none] clean]
  have "fi_failures f1 = {}" using verify_records_mono [OF record_values_grow run(1)] none clean by auto
  then have binds: "map_of ledger x = Some b \<Longrightarrow> binding_ok db b" for x b
    using ledger_bindings [of db "tv_schema out" "field_rows db t" f x b] l by simp
  have rec: "\<exists>vals. recover_values db t (tv_schema out) ledger q = Inr vals
      \<and> (\<forall>x\<in>set (logical_fields (tv_schema out)). same_value (field_value vals (sf_name x)) (field_value (rec_values r) (sf_name x)))"
    if rq: "r \<in> set (tv_records src)" "q \<in> set (tv_records out)" "rec_index r = rec_index q" "?val r q fa = Inr fb" "fi_failures fb = {}" for r q fa fb
  proof (rule verified_record [OF _ rq(5)])
    show "verify_record_values other g db t (tv_schema out) ledger (rec_index q) (rec_values r) (rec_values q) fa = Inr fb" using rq(3,4) by simp
    show "vocabulary (tv_schema out) (rec_values r)" "vocabulary (tv_schema out) (rec_values q)" using voc rq(1,2) pre(1) by auto
    show "ledger_bound g db (tv_schema out) ledger (rec_values r)"
      unfolding ledger_bound_def
    proof (intro ballI allI impI conjI)
      fix x b
      assume x: "x \<in> set (logical_fields (tv_schema out))" and b: "map_of ledger (sf_name x) = Some b"
      show "temporal_bound g db b (field_value (rec_values r) (sf_name x))" using tb rq(1) x b pre(2) unfolding pre(1) ledger_def by blast
      show "lb_domain b \<noteq> None" if "lb_action b = Some ACTION_TEXT" using binding_ok_domain [OF binds [OF b] that] .
    qed
  qed (rule assms(4))
  have len: "n = length (tv_records out)" "n \<le> length (tv_records src)" "length (tv_records src) \<le> Suc n" using scan by simp_all
  have pair: "rec_deleted (tv_records src ! i) = rec_deleted (tv_records out ! i)
      \<and> (\<exists>vals. recover_values db t (tv_schema out) ledger (tv_records out ! i) = Inr vals \<and> (\<forall>x\<in>set (logical_fields (tv_schema out)).
        same_value (field_value vals (sf_name x)) (field_value (rec_values (tv_records src ! i)) (sf_name x))))" if i: "i < n" for i
  proof -
    have src: "take n (tv_records src) ! i = tv_records src ! i" using i by simp
    have "list_all2 (\<lambda>r q. rec_index r = rec_index q \<and> rec_deleted r = rec_deleted q \<and> (\<exists>fa fb. ?val r q fa = Inr fb \<and> fi_failures fb = {}))
        (take n (tv_records src)) (tv_records out)" using scan len(1) by simp
    from list_all2_nthD2 [OF this, of i] obtain fa fb where "rec_index (tv_records src ! i) = rec_index (tv_records out ! i)"
      "rec_deleted (tv_records src ! i) = rec_deleted (tv_records out ! i)" "?val (tv_records src ! i) (tv_records out ! i) fa = Inr fb" "fi_failures fb = {}"
      using i len(1) unfolding src by blast
    then show ?thesis using rec [of "tv_records src ! i" "tv_records out ! i" fa fb] i len by simp
  qed
  have "\<forall>q\<in>set (tv_records out). \<exists>vals. recover_values db t (tv_schema out) ledger q = Inr vals"
    using pair len(1) by (metis in_set_conv_nth)
  note stream = recovered_stream [OF this, of 0]
  show ?thesis
    unfolding Let_def
  proof (intro exI conjI)
    show "map_of (rev (table_rows db)) path = Some t" by (rule pre(2))
    show "recovered_records db t (tv_schema out) (fst (verify_field_ledger db (tv_schema out) (field_rows db t) no_findings)) (\<lambda>_. Inr ()) 0 (tv_records out)
        = Inr (map (\<lambda>q. \<lparr>rec_index = 0, rec_deleted = rec_deleted q, rec_values = projr (recover_values db t (tv_schema out) ledger q)\<rparr>) (tv_records out))"
      using stream by (simp add: ledger_def)
    show "list_all2 (\<lambda>r q. rec_deleted q = rec_deleted r \<and> (\<forall>x\<in>set (logical_fields (tv_schema src)).
          same_value (field_value (rec_values q) (sf_name x)) (field_value (rec_values r) (sf_name x)))) (take n (tv_records src))
        (map (\<lambda>q. \<lparr>rec_index = 0, rec_deleted = rec_deleted q, rec_values = projr (recover_values db t (tv_schema out) ledger q)\<rparr>) (tv_records out))"
      using pair len unfolding pre(1) by (fastforce simp: list_all2_conv_all_nth)
  qed (use len in auto)
qed

text \<open>
  C15. A dataset that verifies is recoverable. If the verifier reports no failure for a table, then
  recovery reverses every record of the output, and the recovered stream carries for each scanned
  record the deletion mark and the value of every logical field of the source record, equal in the
  sense of \<open>==\<close>. This holds for every equality of objects outside the vocabulary, provided the
  records only carry vocabulary values, stored pseudonyms are not empty and temporal values that are
  not NULL have a stored offset. The verifier has then scanned the whole output; of the source it
  may have missed one record at the end.
\<close>

theorem verified_table_recovers:
  assumes ver: "verify_table other g db checkpoint path (Inr src) (Inr out) f = Inr (n, f')" and clean: "fi_failures f' = {}"
    and voc: "\<forall>r\<in>set (tv_records src) \<union> set (tv_records out). vocabulary (tv_schema src) (rec_values r)" and "pseudonyms_nonempty db"
    and tb: "\<forall>r\<in>set (tv_records src). \<forall>x\<in>set (logical_fields (tv_schema src)). \<forall>table_id b.
      map_of (rev (table_rows db)) path = Some table_id \<longrightarrow>
      map_of (fst (verify_field_ledger db (tv_schema src) (field_rows db table_id) no_findings)) (sf_name x) = Some b \<longrightarrow>
      temporal_bound g db b (field_value (rec_values r) (sf_name x))"
  shows "\<exists>table_id recs. let ledger = fst (verify_field_ledger db (tv_schema out) (field_rows db table_id) no_findings) in
    map_of (rev (table_rows db)) path = Some table_id
    \<and> recovered_records db table_id (tv_schema out) ledger (\<lambda>_. Inr ()) 0 (tv_records out) = Inr recs
    \<and> n = length (tv_records out) \<and> n \<le> length (tv_records src) \<and> length (tv_records src) \<le> Suc n
    \<and> list_all2 (\<lambda>r q. rec_deleted q = rec_deleted r
        \<and> (\<forall>x\<in>set (logical_fields (tv_schema src)). same_value (field_value (rec_values q) (sf_name x)) (field_value (rec_values r) (sf_name x))))
        (take n (tv_records src)) recs"
  by (rule table_recovers [OF assms])

definition sample_schema :: table_schema where
  "sample_schema = \<lparr>ts_fields = [\<lparr>sf_name = ''N'', sf_type = CHR ''C'', sf_length = 4, sf_decimals = 0, sf_memo = False\<rparr>],
     ts_encoding = ''cp1252'', ts_language_driver = 3\<rparr>"

definition sample_dataset :: database where
  "sample_dataset = \<lparr>writer_authority = None, acquire_tick = 0, operations_tbl = [], publication_tbl = [],
     mapping_domains_tbl = [\<lparr>dr_id = ''d'', dr_kind = KIND_TEXT, dr_normalization = None, dr_role = None\<rparr>],
     tables_tbl = [\<lparr>tb_id = ''t'', tb_path = ''T.DBF'', tb_schema_fp = None, tb_source_fp = None\<rparr>],
     fields_tbl = [\<lparr>fr_id = ''f'', fr_table = ''t'', fr_name = ''N'', fr_type = ''C'', fr_encoding = Some ''cp1252'', fr_width = 4,
       fr_action = Some ACTION_TEXT, fr_domain = Some ''d''\<rparr>],
     text_mappings_tbl = [\<lparr>tr_domain = ''d'', tr_original = SText [65], tr_pseudonym = SText [66], tr_length = SInt 1\<rparr>],
     numeric_key_mappings_tbl = [], memo_recovery_tbl = [], temporal_parameters_tbl = []\<rparr>"

definition sample_view :: "pystr \<Rightarrow> table_view" where
  "sample_view s = \<lparr>tv_schema = sample_schema, tv_dbc_coupled = False,
     tv_records = [\<lparr>rec_index = 0, rec_deleted = False, rec_values = [''N'' \<mapsto> VStr s]\<rparr>]\<rparr>"

lemma sample_fields: "logical_fields sample_schema = [\<lparr>sf_name = ''N'', sf_type = CHR ''C'', sf_length = 4, sf_decimals = 0, sf_memo = False\<rparr>]"
  by (simp add: sample_schema_def logical_fields_def is_system_field_def)

lemma sample_ledger:
  "verify_field_ledger sample_dataset sample_schema (field_rows sample_dataset ''t'') f =
     ([(''N'', \<lparr>lb_field_id = ''f'', lb_type = ''C'', lb_action = Some ACTION_TEXT, lb_domain = Some ''d''\<rparr>)], f)"
  by (simp add: verify_field_ledger_def field_rows_def sample_dataset_def sample_schema_def ledger_row_findings_def schema_fact_def logical_fields_def
      is_system_field_def row_encoding_def LEDGER_ACTIONS_def ledger_action_ok_def domain_kind_def Let_def
      ACTION_KEEP_def ACTION_TEXT_def ACTION_MEMO_def)

lemma sample_paths: "map_of (rev (table_rows sample_dataset)) ''T.DBF'' = Some ''t''"
  by (simp add: table_rows_def sample_dataset_def)

lemma sample_verifies:
  "verify_table (\<lambda>_ _. False) recovery_failure sample_dataset (\<lambda>_. Inr ()) ''T.DBF'' (Inr (sample_view [65])) (Inr (sample_view [66])) no_findings
     = Inr (1, no_findings)"
proof -
  have "text_original recovery_failure sample_dataset ''d'' [66] = Inr (Some [65])"
    by (simp add: text_original_def sample_dataset_def text_cell_def) code_simp
  moreover have "domain_kind sample_dataset ''d'' \<noteq> Some KIND_NUMERIC_KEY" by (simp add: domain_kind_def sample_dataset_def KIND_TEXT_def KIND_NUMERIC_KEY_def)
  ultimately show ?thesis
    by (simp add: verify_table_def sample_view_def sample_paths sample_ledger verify_record_values_def sample_fields
        verify_field_value_def verify_text_value_def py_eq_def field_value_def ACTION_KEEP_def ACTION_TEXT_def
        ACTION_MEMO_def ACTION_TEMPORAL_def)
qed

theorem verified_table_recovers_witness:
  "\<exists>recs. recovered_records sample_dataset ''t'' sample_schema (fst (verify_field_ledger sample_dataset sample_schema (field_rows sample_dataset ''t'') no_findings))
      (\<lambda>_. Inr ()) 0 (tv_records (sample_view [66])) = Inr recs
    \<and> list_all2 (\<lambda>r q. rec_deleted q = rec_deleted r \<and> same_value (field_value (rec_values q) ''N'') (field_value (rec_values r) ''N''))
        (tv_records (sample_view [65])) recs"
proof -
  have voc: "\<forall>r\<in>set (tv_records (sample_view [65])) \<union> set (tv_records (sample_view [66])). vocabulary (tv_schema (sample_view [65])) (rec_values r)"
    by (simp add: sample_view_def vocabulary_def sample_schema_def logical_fields_def is_system_field_def field_value_def)
  have ne: "pseudonyms_nonempty sample_dataset" by (simp add: pseudonyms_nonempty_def sample_dataset_def)
  have bound: "temporal_bound recovery_failure sample_dataset b v"
    if "map_of (fst (verify_field_ledger sample_dataset sample_schema (field_rows sample_dataset t) no_findings)) n = Some b" for t n b v
  proof -
    have "(n, b) \<in> set (fst (verify_field_ledger sample_dataset sample_schema (field_rows sample_dataset t) no_findings))" using that by (rule map_of_SomeD)
    then have "lb_action b = Some ACTION_TEXT"
      by (auto simp: verify_field_ledger_def field_rows_def sample_dataset_def Let_def split: if_splits prod.splits)
    then show ?thesis by (simp add: temporal_bound_def)
  qed
  have sch: "tv_schema (sample_view s) = sample_schema" for s by (simp add: sample_view_def)
  from verified_table_recovers [OF sample_verifies _ voc ne] bound obtain t recs where "map_of (rev (table_rows sample_dataset)) ''T.DBF'' = Some t"
    "recovered_records sample_dataset t sample_schema (fst (verify_field_ledger sample_dataset sample_schema (field_rows sample_dataset t) no_findings))
       (\<lambda>_. Inr ()) 0 (tv_records (sample_view [66])) = Inr recs"
    "list_all2 (\<lambda>r q. rec_deleted q = rec_deleted r \<and> (\<forall>x\<in>set (logical_fields sample_schema).
       same_value (field_value (rec_values q) (sf_name x)) (field_value (rec_values r) (sf_name x)))) (take 1 (tv_records (sample_view [65]))) recs"
    unfolding sch Let_def by (auto simp: no_findings_def)
  then show ?thesis by (auto simp: sample_paths sample_view_def sample_schema_def logical_fields_def is_system_field_def)
qed

lemma records_overlook_last:
  assumes mono: "grows vf"
  shows "verify_records cp vf ss os n f = Inr (m, f', es, eo) \<Longrightarrow> length ss = length os \<Longrightarrow>
    ''RECORD_ORDER_MISMATCH'' \<notin> fi_failures f' \<Longrightarrow> verify_records cp vf (ss @ [r]) os n f = Inr (m, f', es, eo)"
proof (induction ss arbitrary: os n f)
  case (Cons s ss)
  then obtain q qs where os: "os = q # qs" by (cases os) auto
  show ?case
  proof (cases "rec_index s = rec_index q")
    case True
    then show ?thesis using Cons os by (auto elim!: bindE_InrE)
  qed (use Cons.prems os in \<open>auto elim!: bindE_InrE\<close>)
qed auto

text \<open>
  C40. The lockstep comparison overlooks one missing record. If a table verifies without a finding
  about record counts, it verifies with the very same result when the source has one more record at
  its end, whatever that record is: \<open>zip\<close> has already fetched it when the output turns out to be
  exhausted, so \<open>extra_source\<close> counts zero.
\<close>

theorem missing_last_record_unreported:
  assumes "verify_table other g db checkpoint path (Inr src) (Inr out) f = Inr (n, f')" and "n = length (tv_records src)"
    and "n = length (tv_records out)" and "''RECORD_ORDER_MISMATCH'' \<notin> fi_failures f'"
  shows "verify_table other g db checkpoint path (Inr (src\<lparr>tv_records := tv_records src @ [r]\<rparr>)) (Inr out) f = Inr (n, f')"
proof -
  let ?src = "src\<lparr>tv_records := tv_records src @ [r]\<rparr>"
  show ?thesis
  proof (cases "tv_dbc_coupled out \<or> tv_schema src \<noteq> tv_schema out \<or> map_of (rev (table_rows db)) path = None")
    case True
    then show ?thesis using assms(1) by (auto simp: verify_table_def)
  next
    case False
    then obtain t where pre: "\<not> tv_dbc_coupled out" "tv_schema src = tv_schema out" "map_of (rev (table_rows db)) path = Some t" by auto
    obtain ledger f1 where l: "verify_field_ledger db (tv_schema out) (field_rows db t) f = (ledger, f1)" by fastforce
    let ?val = "\<lambda>r q. verify_record_values other g db t (tv_schema out) ledger (rec_index r) (rec_values r) (rec_values q)"
    obtain f2 es eo where run: "verify_records checkpoint ?val (tv_records src) (tv_records out) 0 f1 = Inr (n, f2, es, eo)"
      "f' = (if es \<noteq> [] \<or> eo \<noteq> [] then fail_finding ''RECORD_COUNT_MISMATCH'' f2 else f2)"
      using assms(1) pre by (auto simp: verify_table_def l elim!: bindE_InrE)
    have "''RECORD_ORDER_MISMATCH'' \<notin> fi_failures f2" using run(2) assms(4) by (auto split: if_splits)
    then have "verify_records checkpoint ?val (tv_records src @ [r]) (tv_records out) 0 f1 = Inr (n, f2, es, eo)"
      using records_overlook_last [OF record_values_grow run(1)] assms(2,3) by simp
    then show ?thesis using run(2) pre by (simp add: verify_table_def l)
  qed
qed

theorem missing_last_record_unreported_witness:
  "verify_table (\<lambda>_ _. False) recovery_failure sample_dataset (\<lambda>_. Inr ()) ''T.DBF''
     (Inr ((sample_view [65])\<lparr>tv_records := tv_records (sample_view [65]) @ [\<lparr>rec_index = 1, rec_deleted = False, rec_values = [''N'' \<mapsto> VStr [67]]\<rparr>]\<rparr>))
     (Inr (sample_view [66])) no_findings = Inr (1, no_findings)"
  by (rule missing_last_record_unreported [OF sample_verifies]) (simp_all add: sample_view_def no_findings_def)

end
