(* ===== verification/Round_Trip.thy ===== *)
theory Round_Trip
  imports Run_Binding Recovery_Correctness
begin

text \<open>
  The run as a whole: what pass 2 writes under the registered ledger is accepted by the verifier and
  recovered exactly; and what the ledger makes of datasets without any observed text.
\<close>

section \<open>The reader on a bijective domain\<close>

lemma text_original_reader:
  assumes "text_domain_ok d db" and "map_of (text_assoc d db) s = Some p"
  shows "text_original g db d p = Inr (Some s)"
proof -
  have mem: "(s, p) \<in> set (text_assoc d db)" using assms(2) by (rule map_of_SomeD)
  have "text_original_db db d p = Inr (Some s)"
    using assms(1) mem by (simp add: text_original_assoc text_domain_ok_def map_of_eq_Some_iff o_def)
  moreover have "bindable p" using text_table.assoc_keys [OF assms(1) mem] by simp
  ultimately show ?thesis
    by (auto simp: text_original_def text_original_db_def bindable_def bind_text_def guardE_def text_cell_def split: option.splits sqlval.splits)
qed

lemma numeric_original_reader:
  assumes "numeric_domain_ok d db" and "map_of (numeric_assoc d db) s = Some p"
  shows "numeric_original g db d p = Inr (Some s)"
proof -
  have mem: "(s, p) \<in> set (numeric_assoc d db)" using assms(2) by (rule map_of_SomeD)
  have "numeric_original_db db d p = Inr (Some s)"
    using assms(1) mem by (simp add: numeric_original_assoc numeric_domain_ok_def map_of_eq_Some_iff o_def)
  moreover have "bind_text p = Inr ()" using numeric_table.assoc_keys [OF assms(1) mem] canonical_bindable by simp
  ultimately show ?thesis
    by (auto simp: numeric_original_def numeric_original_db_def numeric_cell_def text_cell_def split: option.splits sqlval.splits if_splits)
qed

section \<open>One field\<close>

text \<open>What the finalized vault holds for a field: the mapping pass 2 applied and the verifier consults.\<close>

definition self_free :: "(pystr \<times> pystr) list \<Rightarrow> bool" where
  "self_free assoc \<longleftrightarrow> (\<forall>k. map_of assoc k \<noteq> Some k)"

definition directive_ready ::
    "failure \<Rightarrow> database \<Rightarrow> string option \<Rightarrow> int option \<Rightarrow> string \<Rightarrow> int \<Rightarrow> ledger_binding \<Rightarrow> field_directive \<Rightarrow> pyval \<Rightarrow> bool" where
  "directive_ready g db td off t k b fd v \<longleftrightarrow>
     (case fd_numeric_domain fd of
        Some d \<Rightarrow> lb_domain b = Some d \<and> domain_kind db d = Some KIND_NUMERIC_KEY \<and> numeric_domain_ok d db \<and> self_free (numeric_assoc d db)
      | None \<Rightarrow>
          (fd_action fd = ACTION_TEXT \<longrightarrow> (\<exists>d. td = Some d \<and> lb_domain b = Some d \<and> domain_kind db d = Some KIND_TEXT \<and> text_domain_ok d db
             \<and> self_free (text_assoc d db)) \<and> (v = VNone \<or> (\<exists>s. v = VStr s)))
          \<and> (fd_action fd = ACTION_MEMO \<longrightarrow> lb_type b = [fd_type fd] \<and> (v \<noteq> VNone \<longrightarrow>
               (\<exists>r u. memo_recovery_row g db t k (lb_field_id b) = Inr (Some r) \<and> memo_original r = Inr u \<and> same_value u v)))
          \<and> (fd_action fd = ACTION_TEMPORAL \<longrightarrow> temporal_offset g db (lb_domain b) = Inr off))"

lemma keep_distinct [simp]:
  "ACTION_TEXT \<noteq> ACTION_KEEP" "ACTION_MEMO \<noteq> ACTION_KEEP" "ACTION_TEMPORAL \<noteq> ACTION_KEEP"
  by (simp_all add: ACTION_KEEP_def ACTION_TEXT_def ACTION_MEMO_def ACTION_TEMPORAL_def)

lemma numeric_verifies:
  assumes "transform_numeric db d v = Inr r" and "numeric_domain_ok d db" and "self_free (numeric_assoc d db)"
  shows "verify_numeric_value other g db d v (case r of None \<Rightarrow> v | Some w \<Rightarrow> w) f = Inr f"
proof (cases v)
  case (VInt i)
  obtain p j where p: "map_of (numeric_assoc d db) (int_text i) = Some p" "parse_canonical_integer_text (VStr p) = Inr j" "r = Some (VInt j)"
    using assms(1,2) VInt by (auto simp: transform_numeric_def numeric_pseudonym_assoc bindE_Inr_iff split: option.splits)
  have pj: "p = int_text j" using p(2) numeric_assoc_texts(2) [OF assms(2) map_of_SomeD [OF p(1)]] by (auto split: if_splits)
  have "i \<noteq> j" using assms(3) p(1) pj by (auto simp: self_free_def)
  then show ?thesis using numeric_original_reader [OF assms(2) p(1), of g] VInt p(3) pj
    by (simp add: verify_numeric_value_def py_eq_def)
qed (use assms(1) in \<open>auto simp: transform_numeric_def verify_numeric_value_def\<close>)

lemma text_verifies:
  assumes "transform_text ot db (Some d) v = Inr r" and "text_domain_ok d db" and "self_free (text_assoc d db)" and "v = VNone \<or> (\<exists>s. v = VStr s)"
  shows "verify_text_value other g db d v (case r of None \<Rightarrow> v | Some w \<Rightarrow> w) f = Inr f"
proof (cases "v = VNone \<or> v = VStr []")
  case True
  then show ?thesis using assms(1) by (auto simp: transform_text_def verify_text_value_def)
next
  case False
  then obtain s where s: "v = VStr s" "s \<noteq> []" using assms(4) by auto
  obtain p where p: "map_of (text_assoc d db) s = Some p" "r = Some (VStr p)"
    using assms(1,2) s by (auto simp: transform_text_def text_pseudonym_assoc bindE_Inr_iff split: option.splits)
  have "s \<noteq> p" using assms(3) p(1) by (auto simp: self_free_def)
  then show ?thesis using text_original_reader [OF assms(2) p(1), of g] s p(2) by (simp add: verify_text_value_def py_eq_def)
qed

lemma memo_verifies:
  assumes mask: "mask_memo_value (fd_type fd) v = Inr w" and ty: "lb_type b = [fd_type fd]"
    and row: "v \<noteq> VNone \<longrightarrow> (\<exists>r u. memo_recovery_row g db t k (lb_field_id b) = Inr (Some r) \<and> memo_original r = Inr u \<and> same_value u v)"
  shows "verify_memo_value other g db t k b v w f = Inr f"
proof (cases "v = VNone")
  case True
  then show ?thesis using mask by (auto simp: mask_memo_value_def mask_for_def verify_memo_value_def split: if_splits)
next
  case False
  then obtain p kd u where r: "memo_recovery_row g db t k (lb_field_id b) = Inr (Some (p, kd))" "memo_original (p, kd) = Inr u" "same_value u v"
    using row by auto
  have shape: "payload_shape kd w \<and> w \<noteq> VNone \<and> mask_memo_value (fd_type fd) u = Inr w \<and> comparison_key w \<noteq> comparison_key u
      \<and> \<not> is_other u \<and> \<not> is_other v \<and> \<not> is_other w"
    using mask False r(2,3) masks_distinct
    by (cases v; cases kd) (auto simp: mask_memo_value_def mask_for_def same_value_def memo_original_def split: if_splits option.splits)
  then show ?thesis using False r ty
    by (auto simp: verify_memo_value_def memo_type_def py_eq_def same_value_def)
qed

lemma directive_verifies:
  assumes tv: "transform_value ot db td off fd v = Inr r" and ready: "directive_ready g db td off t k b fd v"
    and act: "lb_action b = Some (fd_action fd)" "fd_numeric_domain fd \<noteq> None \<longrightarrow> fd_action fd = ACTION_TEXT"
    and known: "fd_action fd \<in> {ACTION_TEXT, ACTION_MEMO, ACTION_TEMPORAL}" and "\<not> is_other v"
  shows "verify_field_value other g db t k b v (case r of None \<Rightarrow> v | Some w \<Rightarrow> w) f = Inr f"
proof (cases "fd_numeric_domain fd")
  case (Some d)
  then have "verify_numeric_value other g db d v (case r of None \<Rightarrow> v | Some w \<Rightarrow> w) f = Inr f"
    using tv ready by (intro numeric_verifies) (auto simp: transform_value_def directive_ready_def)
  then show ?thesis using Some ready act by (simp add: verify_field_value_def directive_ready_def)
next
  case None
  consider "fd_action fd = ACTION_TEXT" | "fd_action fd = ACTION_MEMO" | "fd_action fd = ACTION_TEMPORAL" using known by blast
  then show ?thesis
  proof cases
    case 1
    obtain d where d: "td = Some d" "lb_domain b = Some d" "domain_kind db d = Some KIND_TEXT" "text_domain_ok d db" "self_free (text_assoc d db)"
      "v = VNone \<or> (\<exists>s. v = VStr s)" using ready None 1 by (auto simp: directive_ready_def)
    have "verify_text_value other g db d v (case r of None \<Rightarrow> v | Some w \<Rightarrow> w) f = Inr f"
      using tv None 1 d by (intro text_verifies) (auto simp: transform_value_def)
    then show ?thesis using act(1) 1 d by (simp add: verify_field_value_def KIND_TEXT_def KIND_NUMERIC_KEY_def)
  next
    case 2
    obtain w where w: "mask_memo_value (fd_type fd) v = Inr w" "r = Some w" using tv None 2 by (auto simp: transform_value_def bindE_Inr_iff)
    have "verify_memo_value other g db t k b v w f = Inr f" using ready None 2 by (intro memo_verifies [OF w(1)]) (auto simp: directive_ready_def)
    then show ?thesis using act(1) 2 w(2) by (simp add: verify_field_value_def)
  next
    case 3
    obtain n w where w: "off = Some n" "temporal_shift v n = Inr w" "r = Some w" using tv None 3
      by (auto simp: transform_value_def bindE_Inr_iff split: option.splits)
    have "\<not> is_other w" using w(2) by (cases v) (auto simp: Let_def split: if_splits)
    then show ?thesis using act(1) 3 w ready None by (simp add: verify_field_value_def verify_temporal_value_def directive_ready_def)
  qed
qed

section \<open>The registered ledger\<close>

text \<open>Every directive names a logical field and carries its schema facts, as \<open>build_engine_plan\<close> derives them.\<close>

definition directives_fit :: "table_directive \<Rightarrow> table_schema \<Rightarrow> bool" where
  "directives_fit tab schema \<longleftrightarrow> distinct (map sf_name (ts_fields schema)) \<and> distinct (map fd_name (tab_transformed tab))
     \<and> (\<forall>fd\<in>set (tab_transformed tab). \<forall>x\<in>set (logical_fields schema). fd_name fd = sf_name x \<longrightarrow>
          fd_type fd = sf_type x \<and> fd_width fd = sf_length x \<and> fd_encoding fd = ts_encoding schema)"

definition directive_bound :: "failure \<Rightarrow> database \<Rightarrow> string option \<Rightarrow> string option \<Rightarrow> int option \<Rightarrow> field_directive \<Rightarrow> bool" where
  "directive_bound g db td tdom off fd \<longleftrightarrow>
     (case fd_numeric_domain fd of
        Some d \<Rightarrow> fd_action fd = ACTION_TEXT \<and> domain_kind db d = Some KIND_NUMERIC_KEY \<and> numeric_domain_ok d db \<and> self_free (numeric_assoc d db)
      | None \<Rightarrow>
          fd_action fd = ACTION_TEXT \<and> (\<exists>d. td = Some d \<and> domain_kind db d = Some KIND_TEXT \<and> text_domain_ok d db \<and> self_free (text_assoc d db))
          \<or> fd_action fd = ACTION_MEMO
          \<or> fd_action fd = ACTION_TEMPORAL \<and> (\<exists>d k. tdom = Some d \<and> domain_kind db d = Some KIND_TEMPORAL \<and> temporal_offset g db (Some d) = Inr (Some k) \<and> off = Some k))"

text \<open>The rows of a table in the field ledger are those \<open>_register_transform_fields\<close> requires.\<close>

definition ledger_registered :: "database \<Rightarrow> string option \<Rightarrow> string option \<Rightarrow> table_directive \<Rightarrow> table_schema \<Rightarrow> field_row list \<Rightarrow> bool" where
  "ledger_registered db td tdom tab schema rows \<longleftrightarrow> distinct (map fr_name rows) \<and> set (map fr_name rows) = sf_name ` set (logical_fields schema)
     \<and> (\<forall>r\<in>set rows. \<forall>x\<in>set (logical_fields schema). fr_name r = sf_name x \<longrightarrow>
          row_matches r (expected_field td tdom db (tab_transformed tab) (ts_encoding schema) x))"

definition binding_of :: "field_row \<Rightarrow> ledger_binding" where
  "binding_of r = \<lparr>lb_field_id = fr_id r, lb_type = fr_type r, lb_action = fr_action r, lb_domain = fr_domain r\<rparr>"

lemma ledger_loop_clean:
  assumes "distinct (map fst bs @ map fr_name rows)" and "\<forall>r\<in>set rows. ledger_row_findings db s r f = f"
  shows "ledger_loop db s rows bs f = (bs @ map (\<lambda>r. (fr_name r, binding_of r)) rows, f)"
  using assms
proof (induction rows arbitrary: bs)
  case (Cons r rows)
  have "map_of bs (fr_name r) = None" using Cons.prems(1) by (auto simp: map_of_eq_None_iff)
  then show ?case using Cons.IH [of "bs @ [(fr_name r, binding_of r)]"] Cons.prems by (simp add: binding_of_def)
qed simp

lemma find_distinct:
  assumes "distinct (map key xs)" and "x \<in> set xs"
  shows "find (\<lambda>y. key y = key x) xs = Some x" and "find (\<lambda>y. key y = key x) (rev xs) = Some x"
proof -
  have uniq: "y = x" if "y \<in> set xs" "key y = key x" for y using assms that by (auto simp: distinct_map inj_on_def)
  have "find (\<lambda>y. key y = key x) ys = Some x" if "set ys = set xs" for ys
  proof (cases "find (\<lambda>y. key y = key x) ys")
    case None
    then show ?thesis using assms(2) that by (auto simp: find_None_iff)
  next
    case (Some y)
    then show ?thesis using uniq that find_Some_set [OF Some] by auto
  qed
  then show "find (\<lambda>y. key y = key x) xs = Some x" "find (\<lambda>y. key y = key x) (rev xs) = Some x" by auto
qed

lemma logical_distinct: "distinct (map sf_name (ts_fields schema)) \<Longrightarrow> distinct (map sf_name (logical_fields schema))"
  by (simp add: logical_fields_def distinct_map_filter)

lemma find_names: "distinct (map fd_name fds) \<Longrightarrow> find (\<lambda>fd. fd_name fd = n) (rev fds) = find (\<lambda>fd. fd_name fd = n) fds"
proof (cases "find (\<lambda>fd. fd_name fd = n) fds")
  case (Some fd)
  assume d: "distinct (map fd_name fds)"
  have "fd \<in> set fds" "fd_name fd = n" using find_Some_set [OF Some] by auto
  then show ?thesis using find_distinct(2) [OF d, of fd] Some by simp
next
  case None
  then have "find (\<lambda>fd. fd_name fd = n) (rev fds) = None" by (simp add: find_None_iff)
  then show ?thesis using None by simp
qed

lemma domain_kind_has: "domain_kind db d = Some k \<Longrightarrow> has_domain_db db d"
  by (auto simp: domain_kind_def has_domain_db_def list_ex_iff dest!: find_Some_set)

text \<open>The domain a directive is registered with, once its mapping exists.\<close>

lemma bound_domain:
  assumes "directive_bound g db td tdom off fd"
  shows "directive_domain td tdom db fd =
    (case fd_numeric_domain fd of Some d \<Rightarrow> Some d | None \<Rightarrow> if fd_action fd = ACTION_TEXT then td else if fd_action fd = ACTION_TEMPORAL then tdom else None)"
  using assms by (auto simp: directive_bound_def directive_domain_def dest: domain_kind_has split: option.splits)

lemma bound_action_ok:
  assumes "directive_bound g db td tdom off fd"
  shows "fd_action fd \<in> set LEDGER_ACTIONS" and "ledger_action_ok db (fd_action fd) (directive_domain td tdom db fd)"
  using assms unfolding bound_domain [OF assms]
  by (auto simp: directive_bound_def ledger_action_ok_def LEDGER_ACTIONS_def Let_def split: option.splits)

lemma registered_ledger:
  assumes fit: "directives_fit tab schema" and bound: "\<forall>fd\<in>set (tab_transformed tab). directive_bound g db td tdom off fd"
    and reg: "ledger_registered db td tdom tab schema rows"
  shows "verify_field_ledger db schema rows f = (map (\<lambda>r. (fr_name r, binding_of r)) rows, f)"
proof -
  have dl: "distinct (map sf_name (logical_fields schema))" using fit by (auto simp: directives_fit_def intro: logical_distinct)
  have clean: "ledger_row_findings db schema r f = f" if r: "r \<in> set rows" for r
  proof -
    obtain x where x: "x \<in> set (logical_fields schema)" "fr_name r = sf_name x" using reg r by (force simp: ledger_registered_def)
    have m: "row_matches r (expected_field td tdom db (tab_transformed tab) (ts_encoding schema) x)" using reg r x by (auto simp: ledger_registered_def)
    have sf: "schema_fact schema (fr_name r) = Some ([sf_type x], sf_length x, ts_encoding schema)"
      using find_distinct(2) [OF dl x(1)] x(2) by (simp add: schema_fact_def)
    show ?thesis
    proof (cases "find (\<lambda>fd. fd_name fd = sf_name x) (rev (tab_transformed tab))")
      case None
      then show ?thesis using m sf
        by (simp add: row_matches_def expected_field_def ledger_row_findings_def row_encoding_def LEDGER_ACTIONS_def ledger_action_ok_def)
    next
      case (Some fd)
      have fd: "fd \<in> set (tab_transformed tab)" "fd_name fd = sf_name x" using find_Some_set [OF Some] by auto
      then have "fd_type fd = sf_type x \<and> fd_width fd = sf_length x \<and> fd_encoding fd = ts_encoding schema" using fit x(1) by (auto simp: directives_fit_def)
      moreover have "directive_bound g db td tdom off fd" using bound fd(1) by blast
      ultimately show ?thesis using m sf Some bound_action_ok
        by (simp add: row_matches_def expected_field_def ledger_row_findings_def row_encoding_def)
    qed
  qed
  have names: "list_all (\<lambda>x. map_of (map (\<lambda>r. (fr_name r, binding_of r)) rows) (sf_name x) \<noteq> None) (logical_fields schema)"
    using reg by (auto simp: ledger_registered_def list_all_iff map_of_eq_None_iff image_image)
  have "ledger_loop db schema rows [] f = (map (\<lambda>r. (fr_name r, binding_of r)) rows, f)"
    using ledger_loop_clean [of "[]" rows db schema f] reg clean by (simp add: ledger_registered_def)
  then show ?thesis using names by (simp add: verify_field_ledger_def)
qed

section \<open>One record\<close>

text \<open>What pass 1 has seen to for a value: text and dates have the type of their field, memo payloads are stored.\<close>

definition value_ready :: "failure \<Rightarrow> database \<Rightarrow> string \<Rightarrow> int \<Rightarrow> ledger_binding \<Rightarrow> field_directive \<Rightarrow> pyval \<Rightarrow> bool" where
  "value_ready g db t k b fd v \<longleftrightarrow> fd_numeric_domain fd = None \<longrightarrow>
     (fd_action fd = ACTION_TEXT \<longrightarrow> v = VNone \<or> (\<exists>s. v = VStr s))
     \<and> (fd_action fd = ACTION_MEMO \<longrightarrow> v \<noteq> VNone \<longrightarrow>
          (\<exists>r u. memo_recovery_row g db t k (lb_field_id b) = Inr (Some r) \<and> memo_original r = Inr u \<and> same_value u v))
     \<and> (fd_action fd = ACTION_TEMPORAL \<longrightarrow> valid_temporal v)"

definition record_ready :: "failure \<Rightarrow> database \<Rightarrow> string \<Rightarrow> table_directive \<Rightarrow> table_schema \<Rightarrow> field_row list \<Rightarrow> direct_record \<Rightarrow> bool" where
  "record_ready g db t tab schema rows r \<longleftrightarrow> vocabulary schema (rec_values r)
     \<and> (\<forall>row\<in>set rows. \<forall>fd\<in>set (tab_transformed tab). fd_name fd = fr_name row \<longrightarrow>
          value_ready g db t (rec_index r) (binding_of row) fd (field_value (rec_values r) (fd_name fd)))"

definition system_names :: "table_schema \<Rightarrow> string list" where
  "system_names schema = map sf_name (filter is_system_field (ts_fields schema))"

lemma logical_not_system:
  assumes "distinct (map sf_name (ts_fields schema))" and "x \<in> set (logical_fields schema)"
  shows "sf_name x \<notin> set (system_names schema)"
proof
  assume "sf_name x \<in> set (system_names schema)"
  then obtain y where y: "y \<in> set (ts_fields schema)" "is_system_field y" "sf_name y = sf_name x" by (auto simp: system_names_def)
  moreover have "x \<in> set (ts_fields schema)" "\<not> is_system_field x" using assms(2) by (auto simp: logical_fields_def)
  ultimately have "x = y" using assms(1) by (auto simp: distinct_map inj_on_def)
  then show False using y \<open>\<not> is_system_field x\<close> by simp
qed

lemma ledger_row_of:
  assumes "ledger_registered db td tdom tab schema rows" and "x \<in> set (logical_fields schema)"
  obtains row where "row \<in> set rows" and "fr_name row = sf_name x" and "map_of (map (\<lambda>r. (fr_name r, binding_of r)) rows) (sf_name x) = Some (binding_of row)"
    and "row_matches row (expected_field td tdom db (tab_transformed tab) (ts_encoding schema) x)"
proof -
  have "sf_name x \<in> set (map fr_name rows)" using assms by (auto simp: ledger_registered_def)
  then obtain row where row: "row \<in> set rows" "fr_name row = sf_name x" by auto
  moreover have "distinct (map fst (map (\<lambda>r. (fr_name r, binding_of r)) rows))" using assms(1) by (simp add: ledger_registered_def comp_def)
  from map_of_is_SomeI [OF this, of "sf_name x" "binding_of row"] have "map_of (map (\<lambda>r. (fr_name r, binding_of r)) rows) (sf_name x) = Some (binding_of row)"
    using row by force
  moreover have "row_matches row (expected_field td tdom db (tab_transformed tab) (ts_encoding schema) x)" using assms row by (auto simp: ledger_registered_def)
  ultimately show ?thesis using that by blast
qed

lemma transformed_field_verifies:
  assumes fit: "directives_fit tab schema" and bound: "\<forall>fd\<in>set (tab_transformed tab). directive_bound g (wc_db wc) (wc_text_domain wc) tdom (wc_offset wc) fd"
    and row: "row \<in> set rows" "fr_name row = sf_name x" "row_matches row (expected_field (wc_text_domain wc) tdom (wc_db wc) (tab_transformed tab) (ts_encoding schema) x)"
    and ready: "record_ready g (wc_db wc) t tab schema rows r" and tv: "transform_values wc tab (system_names schema) (rec_values r) = Inr vals"
    and x: "x \<in> set (logical_fields schema)"
  shows "verify_field_value other g (wc_db wc) t (rec_index r) (binding_of row) (field_value (rec_values r) (sf_name x)) (field_value vals (sf_name x)) f = Inr f"
proof -
  let ?v = "field_value (rec_values r) (sf_name x)" and ?fds = "tab_transformed tab"
  have d: "distinct (map fd_name ?fds)" "distinct (map sf_name (ts_fields schema))" using fit by (auto simp: directives_fit_def)
  have same: "field_value (application_values (system_names schema) (rec_values r)) (sf_name x) = ?v"
    using logical_not_system [OF d(2) x] by (simp add: application_values_def field_value_def)
  have voc: "\<not> is_other ?v" using ready x by (auto simp: record_ready_def vocabulary_def)
  note out = transform_fields_value [OF tv [unfolded transform_values_def] d(1), of "sf_name x", unfolded same]
  show ?thesis
  proof (cases "find (\<lambda>fd. fd_name fd = sf_name x) ?fds")
    case None
    then have "find (\<lambda>fd. fd_name fd = sf_name x) (rev ?fds) = None" by (simp add: find_names [OF d(1)])
    then have "fr_action row = Some ACTION_KEEP" using row(3) by (simp add: row_matches_def expected_field_def)
    then show ?thesis using out None voc by (simp add: verify_field_value_def binding_of_def)
  next
    case (Some fd)
    have fd: "fd \<in> set ?fds" "fd_name fd = sf_name x" using find_Some_set [OF Some] by auto
    have b: "directive_bound g (wc_db wc) (wc_text_domain wc) tdom (wc_offset wc) fd" using bound fd(1) by blast
    have m: "fr_type row = [fd_type fd]" "fr_action row = Some (fd_action fd)" "fr_domain row = directive_domain (wc_text_domain wc) tdom (wc_db wc) fd"
      using row(3) Some by (simp_all add: row_matches_def expected_field_def find_names [OF d(1)])
    obtain res where res: "transform_value (wc_other wc) (wc_db wc) (wc_text_domain wc) (wc_offset wc) fd ?v = Inr res"
      "field_value vals (sf_name x) = (case res of None \<Rightarrow> ?v | Some w \<Rightarrow> w)" using out Some by auto
    have vr: "value_ready g (wc_db wc) t (rec_index r) (binding_of row) fd ?v"
      using ready row(1,2) fd by (auto simp: record_ready_def)
    have "directive_ready g (wc_db wc) (wc_text_domain wc) (wc_offset wc) t (rec_index r) (binding_of row) fd ?v"
      using b vr m(1,3) unfolding bound_domain [OF b]
      by (auto simp: directive_ready_def directive_bound_def value_ready_def binding_of_def split: option.splits)
    then show ?thesis unfolding res(2)
      using b m(2) by (intro directive_verifies [OF res(1) _ _ _ _ voc]) (auto simp: directive_bound_def binding_of_def split: option.splits)
  qed
qed

lemma foldE_fixed: "\<forall>x\<in>set xs. step x f = Inr f \<Longrightarrow> foldE step xs f = Inr f"
  by (induction xs) auto

lemma transformed_record_verifies:
  assumes "directives_fit tab schema" and "\<forall>fd\<in>set (tab_transformed tab). directive_bound g (wc_db wc) (wc_text_domain wc) tdom (wc_offset wc) fd"
    and reg: "ledger_registered (wc_db wc) (wc_text_domain wc) tdom tab schema rows" and "record_ready g (wc_db wc) t tab schema rows r"
    and "transform_values wc tab (system_names schema) (rec_values r) = Inr vals"
  shows "verify_record_values other g (wc_db wc) t schema (map (\<lambda>r. (fr_name r, binding_of r)) rows) (rec_index r) (rec_values r) vals f = Inr f"
  unfolding verify_record_values_def
proof (intro foldE_fixed ballI)
  fix x
  assume x: "x \<in> set (logical_fields schema)"
  obtain row where row: "row \<in> set rows" "fr_name row = sf_name x" "map_of (map (\<lambda>r. (fr_name r, binding_of r)) rows) (sf_name x) = Some (binding_of row)"
    "row_matches row (expected_field (wc_text_domain wc) tdom (wc_db wc) (tab_transformed tab) (ts_encoding schema) x)"
    using ledger_row_of [OF reg x] by blast
  show "verify_step other g (wc_db wc) t (map (\<lambda>r. (fr_name r, binding_of r)) rows) (rec_index r) (rec_values r) vals x f = Inr f"
    using transformed_field_verifies [OF assms(1,2) row(1,2,4) assms(4,5) x] row(3) by simp
qed

section \<open>One table\<close>

lemma transform_stream_records:
  "transform_stream wc tab system cp k recs h = Inr (out, h') \<Longrightarrow>
   list_all2 (\<lambda>r q. rec_index q = rec_index r \<and> rec_deleted q = rec_deleted r \<and> transform_values wc tab system (rec_values r) = Inr (rec_values q)) recs out"
proof (induction recs arbitrary: k h out)
  case (Cons r rs)
  obtain q h1 qs where q: "transform_record wc tab system r h = Inr (q, h1)" "transform_stream wc tab system cp (Suc k) rs h1 = Inr (qs, h')" "out = q # qs"
    using Cons.prems by (auto elim!: bindE_InrE)
  have "rec_index q = rec_index r \<and> rec_deleted q = rec_deleted r \<and> transform_values wc tab system (rec_values r) = Inr (rec_values q)"
    using q(1) by (auto simp: transform_record_def elim!: bindE_InrE)
  then show ?case using q(3) Cons.IH [OF q(2)] by simp
qed simp

lemma verify_records_fixed:
  assumes "list_all2 (\<lambda>r q. rec_index q = rec_index r \<and> rec_deleted q = rec_deleted r \<and> vf r q f = Inr f) recs out"
  shows "verify_records (\<lambda>_. Inr ()) vf recs out n f = Inr (n + length recs, f, [], [])"
  using assms by (induction arbitrary: n rule: list_all2_induct) auto

lemma transformed_value_vocabulary: "transform_value ot db td off fd v = Inr (Some w) \<Longrightarrow> \<not> is_other w"
proof -
  assume r: "transform_value ot db td off fd v = Inr (Some w)"
  have num: "transform_numeric db d v = Inr (Some w) \<Longrightarrow> \<not> is_other w" for d
    by (cases v) (auto simp: transform_numeric_def elim!: bindE_InrE split: option.splits)
  have tx: "transform_text ot db td v = Inr (Some w) \<Longrightarrow> \<not> is_other w"
    by (auto simp: transform_text_def elim!: bindE_InrE split: option.splits if_splits)
  have mask: "mask_memo_value ty v = Inr w \<Longrightarrow> \<not> is_other w" for ty
    by (cases v) (auto simp: mask_memo_value_def mask_for_def split: if_splits)
  have shift: "temporal_shift v k = Inr w \<Longrightarrow> \<not> is_other w" for k
    by (cases v) (auto simp: Let_def split: if_splits)
  show ?thesis using r num tx mask shift by (auto simp: transform_value_def elim!: bindE_InrE split: option.splits if_splits)
qed

lemma transformed_vocabulary:
  assumes "directives_fit tab schema" and "vocabulary schema vals" and tv: "transform_values wc tab (system_names schema) vals = Inr vals'"
  shows "vocabulary schema vals'"
  unfolding vocabulary_def
proof
  fix x
  assume x: "x \<in> set (logical_fields schema)"
  have d: "distinct (map fd_name (tab_transformed tab))" "distinct (map sf_name (ts_fields schema))" using assms(1) by (auto simp: directives_fit_def)
  have same: "field_value (application_values (system_names schema) vals) (sf_name x) = field_value vals (sf_name x)"
    using logical_not_system [OF d(2) x] by (simp add: application_values_def field_value_def)
  have "\<not> is_other (field_value vals (sf_name x))" using assms(2) x by (auto simp: vocabulary_def)
  then show "\<not> is_other (field_value vals' (sf_name x))"
    using transform_fields_value [OF tv [unfolded transform_values_def] d(1), of "sf_name x", unfolded same] transformed_value_vocabulary
    by (auto split: option.splits)
qed

text \<open>The premises about a table: its plan, its ledger and the mappings its directives need.\<close>

definition table_bound :: "failure \<Rightarrow> write_context \<Rightarrow> string option \<Rightarrow> table_directive \<Rightarrow> table_schema \<Rightarrow> string \<Rightarrow> bool" where
  "table_bound g wc tdom tab schema t \<longleftrightarrow> directives_fit tab schema
     \<and> (\<forall>fd\<in>set (tab_transformed tab). directive_bound g (wc_db wc) (wc_text_domain wc) tdom (wc_offset wc) fd)
     \<and> map_of (rev (table_rows (wc_db wc))) (tab_path tab) = Some t
     \<and> ledger_registered (wc_db wc) (wc_text_domain wc) tdom tab schema (field_rows (wc_db wc) t)"

abbreviation view_of :: "table_schema \<Rightarrow> direct_record list \<Rightarrow> table_view" where
  "view_of schema recs \<equiv> \<lparr>tv_schema = schema, tv_dbc_coupled = False, tv_records = recs\<rparr>"

lemma written_table_verifies:
  assumes tb: "table_bound g wc tdom tab schema t" and ready: "\<forall>r\<in>set recs. record_ready g (wc_db wc) t tab schema (field_rows (wc_db wc) t) r"
    and ts: "transform_stream wc tab (system_names schema) cp k recs h = Inr (out, h')"
  shows "verify_table other g (wc_db wc) (\<lambda>_. Inr ()) (tab_path tab) (Inr (view_of schema recs)) (Inr (view_of schema out)) f = Inr (length recs, f)"
proof -
  let ?db = "wc_db wc" and ?rows = "field_rows (wc_db wc) t"
  let ?ledger = "map (\<lambda>r. (fr_name r, binding_of r)) ?rows"
  note b = tb [unfolded table_bound_def]
  have l: "verify_field_ledger ?db schema ?rows f = (?ledger, f)" using registered_ledger [of tab schema g ?db "wc_text_domain wc" tdom "wc_offset wc" ?rows f] b by blast
  have "list_all2 (\<lambda>r q. rec_index q = rec_index r \<and> rec_deleted q = rec_deleted r \<and>
      verify_record_values other g ?db t schema ?ledger (rec_index r) (rec_values r) (rec_values q) f = Inr f) recs out"
    using transform_stream_records [OF ts] ready transformed_record_verifies [of tab schema g wc tdom ?rows t]  b
    by (auto simp: list_all2_conv_all_nth)
  from verify_records_fixed [where vf = "\<lambda>r q. verify_record_values other g ?db t schema ?ledger (rec_index r) (rec_values r) (rec_values q)", OF this, of 0] show ?thesis using b l by (simp add: verify_table_def)
qed

lemma registered_temporal:
  assumes tb: "table_bound g wc tdom tab schema t" and r: "record_ready g (wc_db wc) t tab schema (field_rows (wc_db wc) t) r"
    and x: "x \<in> set (logical_fields schema)" and m: "map_of (map (\<lambda>r. (fr_name r, binding_of r)) (field_rows (wc_db wc) t)) (sf_name x) = Some b"
  shows "temporal_bound g (wc_db wc) b (field_value (rec_values r) (sf_name x))"
  unfolding temporal_bound_def
proof (intro impI, elim conjE)
  assume act: "lb_action b = Some ACTION_TEMPORAL" and "field_value (rec_values r) (sf_name x) \<noteq> VNone"
  note bd = tb [unfolded table_bound_def]
  obtain row where row: "row \<in> set (field_rows (wc_db wc) t)" "fr_name row = sf_name x" "b = binding_of row"
    "row_matches row (expected_field (wc_text_domain wc) tdom (wc_db wc) (tab_transformed tab) (ts_encoding schema) x)"
    using ledger_row_of [of "wc_db wc" "wc_text_domain wc" tdom tab schema "field_rows (wc_db wc) t" x] bd x m by auto
  obtain fd where fd: "find (\<lambda>fd. fd_name fd = sf_name x) (rev (tab_transformed tab)) = Some fd"
    using act row(3,4) by (auto simp: row_matches_def expected_field_def binding_of_def split: option.splits)
  have fd': "fd \<in> set (tab_transformed tab)" "fd_name fd = sf_name x" using find_Some_set [OF fd] by auto
  have dbd: "directive_bound g (wc_db wc) (wc_text_domain wc) tdom (wc_offset wc) fd" using bd fd'(1) by blast
  have a: "fd_action fd = ACTION_TEMPORAL" "lb_domain b = directive_domain (wc_text_domain wc) tdom (wc_db wc) fd"
    using act row(3,4) fd by (auto simp: row_matches_def expected_field_def binding_of_def)
  have nd: "fd_numeric_domain fd = None" using dbd a(1) by (auto simp: directive_bound_def split: option.splits)
  have "valid_temporal (field_value (rec_values r) (sf_name x))" using r row(1,2) fd' a(1) nd by (auto simp: record_ready_def value_ready_def)
  then show "(\<exists>d k. lb_domain b = Some d \<and> temporal_offset g (wc_db wc) (Some d) = Inr (Some k)) \<and> valid_temporal (field_value (rec_values r) (sf_name x))"
    using dbd a nd unfolding bound_domain [OF dbd] by (auto simp: directive_bound_def)
qed

text \<open>
  C1. Pseudonymization, verification and recovery fit together. Let pass 2 have transformed the
  records of a table whose directives, ledger rows and mappings are those a run has bound
  (\<open>table_bound\<close>) and whose values pass 1 has seen to (\<open>record_ready\<close>), and let the write and read
  boundary return the written records. Then the verifier compares all records of source and output
  and reports nothing, and recovery reverses the output into records that carry the deletion mark
  and every logical value of the source, in order and equal in the sense of \<open>==\<close>.
\<close>

theorem pseudonymize_verify_recover:
  assumes tb: "table_bound g wc tdom tab schema t" and ne: "pseudonyms_nonempty (wc_db wc)"
    and ready: "\<forall>r\<in>set recs. record_ready g (wc_db wc) t tab schema (field_rows (wc_db wc) t) r"
    and ts: "transform_stream wc tab (system_names schema) cp k recs h = Inr (out, h')"
  shows "verify_table other g (wc_db wc) (\<lambda>_. Inr ()) (tab_path tab) (Inr (view_of schema recs)) (Inr (view_of schema out)) no_findings = Inr (length recs, no_findings)
    \<and> (\<exists>recovered. recovered_records (wc_db wc) t schema (fst (verify_field_ledger (wc_db wc) schema (field_rows (wc_db wc) t) no_findings)) (\<lambda>_. Inr ()) 0 out = Inr recovered
        \<and> list_all2 (\<lambda>r q. rec_deleted q = rec_deleted r \<and> (\<forall>x\<in>set (logical_fields schema).
             same_value (field_value (rec_values q) (sf_name x)) (field_value (rec_values r) (sf_name x)))) recs recovered)"
proof -
  let ?db = "wc_db wc"
  note bd = tb [unfolded table_bound_def]
  note ver = written_table_verifies [OF tb ready ts, of other no_findings]
  have l: "fst (verify_field_ledger ?db schema (field_rows ?db t) no_findings) = map (\<lambda>r. (fr_name r, binding_of r)) (field_rows ?db t)"
    using registered_ledger [of tab schema g ?db "wc_text_domain wc" tdom "wc_offset wc" "field_rows ?db t" no_findings] bd by simp
  have voc: "\<forall>r\<in>set (tv_records (view_of schema recs)) \<union> set (tv_records (view_of schema out)). vocabulary (tv_schema (view_of schema recs)) (rec_values r)"
  proof -
    have "vocabulary schema (rec_values q)" if q: "q \<in> set out" for q
    proof -
      obtain i where i: "i < length out" "q = out ! i" using q by (auto simp: in_set_conv_nth)
      note rel = transform_stream_records [OF ts, unfolded list_all2_conv_all_nth]
      have "recs ! i \<in> set recs" using rel i(1) by auto
      then have "vocabulary schema (rec_values (recs ! i))" using ready by (auto simp: record_ready_def)
      moreover have "transform_values wc tab (system_names schema) (rec_values (recs ! i)) = Inr (rec_values q)" using rel i by auto
      ultimately show ?thesis using transformed_vocabulary bd by blast
    qed
    then show ?thesis using ready by (auto simp: record_ready_def)
  qed
  have tmp: "\<forall>r\<in>set (tv_records (view_of schema recs)). \<forall>x\<in>set (logical_fields (tv_schema (view_of schema recs))). \<forall>table_id b.
      map_of (rev (table_rows ?db)) (tab_path tab) = Some table_id \<longrightarrow>
      map_of (fst (verify_field_ledger ?db (tv_schema (view_of schema recs)) (field_rows ?db table_id) no_findings)) (sf_name x) = Some b \<longrightarrow>
      temporal_bound g ?db b (field_value (rec_values r) (sf_name x))"
    using registered_temporal [OF tb] ready bd l by simp
  have "fi_failures no_findings = {}" by (simp add: no_findings_def)
  from table_recovers [OF ver this voc ne tmp] obtain t' recovered where
    "map_of (rev (table_rows ?db)) (tab_path tab) = Some t'"
    "recovered_records ?db t' schema (fst (verify_field_ledger ?db schema (field_rows ?db t') no_findings)) (\<lambda>_. Inr ()) 0 out = Inr recovered"
    "list_all2 (\<lambda>r q. rec_deleted q = rec_deleted r \<and> (\<forall>x\<in>set (logical_fields schema).
       same_value (field_value (rec_values q) (sf_name x)) (field_value (rec_values r) (sf_name x)))) (take (length recs) recs) recovered"
    unfolding Let_def table_view.select_convs by blast
  then show ?thesis using ver bd by simp
qed

definition sample_directive :: table_directive where
  "sample_directive = \<lparr>tab_path = ''T.DBF'', tab_transformed = [\<lparr>fd_name = ''N'', fd_action = ACTION_TEXT, fd_type = CHR ''C'', fd_encoding = ''cp1252'', fd_width = 4,
     fd_numeric_domain = None, fd_member_range = None\<rparr>], tab_memo_fields = [], tab_temporal_fields = [], tab_relation_fields = [], tab_structural_cdx = False, tab_record_count = 1\<rparr>"

definition sample_write_context :: write_context where
  "sample_write_context = \<lparr>wc_other = (\<lambda>_. []), wc_db = sample_dataset, wc_text_domain = Some ''d'', wc_offset = None, wc_relations = []\<rparr>"

lemma sample_domain: "text_domain_ok ''d'' sample_dataset" "text_assoc ''d'' sample_dataset = [([65], [66])]" "domain_kind sample_dataset ''d'' = Some KIND_TEXT"
proof -
  have rows: "text_rows_of ''d'' sample_dataset = text_mappings_tbl sample_dataset" by (simp add: text_rows_of_def sample_dataset_def)
  show assoc: "text_assoc ''d'' sample_dataset = [([65], [66])]" unfolding text_assoc_def rows by (simp add: sample_dataset_def)
  have "bindable [65]" "bindable [66]" by code_simp+
  then show "text_domain_ok ''d'' sample_dataset" unfolding text_domain_ok_def rows assoc by (simp add: has_domain_db_def sample_dataset_def text_row_ok_def)
  show "domain_kind sample_dataset ''d'' = Some KIND_TEXT" by (simp add: domain_kind_def sample_dataset_def)
qed

lemma sample_bound: "table_bound recovery_failure sample_write_context None sample_directive sample_schema ''t''"
proof -
  let ?db = "wc_db sample_write_context"
  have db: "?db = sample_dataset" "wc_text_domain sample_write_context = Some ''d''" "wc_offset sample_write_context = None" by (simp_all add: sample_write_context_def)
  have fit: "directives_fit sample_directive sample_schema"
    by (simp add: directives_fit_def sample_fields) (simp add: sample_schema_def sample_directive_def)
  have bound: "\<forall>fd\<in>set (tab_transformed sample_directive). directive_bound recovery_failure sample_dataset (Some ''d'') None None fd"
    using sample_domain by (simp add: sample_directive_def directive_bound_def self_free_def)
  have path: "map_of (rev (table_rows sample_dataset)) (tab_path sample_directive) = Some ''t''" using sample_paths by (simp add: sample_directive_def)
  have reg: "ledger_registered sample_dataset (Some ''d'') None sample_directive sample_schema (field_rows sample_dataset ''t'')"
    by (simp add: ledger_registered_def sample_fields)
      (simp add: field_rows_def sample_dataset_def sample_directive_def row_matches_def expected_field_def directive_domain_def sample_schema_def)
  show ?thesis using fit bound path reg unfolding table_bound_def db by blast
qed

theorem pseudonymize_verify_recover_witness:
  "\<exists>out h' recovered. transform_stream sample_write_context sample_directive (system_names sample_schema) (\<lambda>_. Inr ()) 0 (tv_records (sample_view [65])) new_shard = Inr (out, h')
    \<and> verify_table (\<lambda>_ _. False) recovery_failure sample_dataset (\<lambda>_. Inr ()) ''T.DBF'' (Inr (view_of sample_schema (tv_records (sample_view [65])))) (Inr (view_of sample_schema out))
        no_findings = Inr (1, no_findings)
    \<and> recovered_records sample_dataset ''t'' sample_schema (fst (verify_field_ledger sample_dataset sample_schema (field_rows sample_dataset ''t'') no_findings)) (\<lambda>_. Inr ()) 0 out = Inr recovered"
proof -
  let ?recs = "tv_records (sample_view [65])"
  have bind: "bind_text [65] = Inr ()" by code_simp
  have "transform_text (\<lambda>_. []) sample_dataset (Some ''d'') (VStr [65]) = Inr (Some (VStr [66]))"
    using sample_domain bind by (simp add: transform_text_def text_pseudonym_assoc)
  then obtain out h' where run: "transform_stream sample_write_context sample_directive (system_names sample_schema) (\<lambda>_. Inr ()) 0 ?recs new_shard = Inr (out, h')"
    by (auto simp: sample_view_def sample_directive_def sample_write_context_def transform_record_def transform_values_def transform_field_def transform_value_def
        application_values_def field_value_def system_names_def sample_schema_def is_system_field_def)
  have ready: "\<forall>r\<in>set ?recs. record_ready recovery_failure (wc_db sample_write_context) ''t'' sample_directive sample_schema (field_rows (wc_db sample_write_context) ''t'') r"
    by (auto simp: record_ready_def vocabulary_def sample_fields sample_view_def sample_directive_def value_ready_def field_value_def)
  have ne: "pseudonyms_nonempty (wc_db sample_write_context)" by (simp add: pseudonyms_nonempty_def sample_write_context_def sample_dataset_def)
  from pseudonymize_verify_recover [OF sample_bound ne ready run, of "\<lambda>_ _. False"] show ?thesis
    using run by (auto simp: sample_write_context_def sample_directive_def sample_view_def)
qed

section \<open>Datasets without observed text or dates\<close>

lemma ledger_loop_rejects:
  assumes "row \<in> set rows" and "fr_action row = Some ACTION_TEXT" and "fr_domain row = None"
  shows "''POLICY_BINDING_MISMATCH'' \<in> fi_failures (snd (ledger_loop db s rows bs f))"
  using assms(1)
proof (induction rows arbitrary: bs f)
  case (Cons r rows)
  show ?case
  proof (cases "r = row")
    case True
    have "''POLICY_BINDING_MISMATCH'' \<in> fi_failures (ledger_row_findings db s row f)"
      using assms(2,3) by (auto simp: ledger_row_findings_def ledger_action_ok_def Let_def split: option.splits)
    then show ?thesis using True ledger_loop_mono [of "ledger_row_findings db s row f" db s rows] ledger_loop_mono [of "fail_finding ''POLICY_BINDING_MISMATCH'' f" db s rows]
      by (auto simp: subset_iff)
  qed (use Cons in auto)
qed simp

text \<open>
  C35. A dataset whose text fields hold no text cannot be verified or recovered. When pass 1 has seen
  no text value its finalization creates no text domain, so the ledger row of every text field is
  registered with the pseudonymization action and no domain; the verifier then reports a policy
  binding mismatch for the published table, whatever its records are, and recovery refuses the
  ledger although there is nothing to reverse.
\<close>

theorem unobserved_text_blocks_recovery:
  assumes empty: "text_encoding_union (en_spool e) = []"
    and fd: "find (\<lambda>fd. fd_name fd = sf_name x) (rev transformed) = Some fd" "fd_action fd = ACTION_TEXT" "fd_numeric_domain fd = None"
    and row: "row \<in> set (field_rows db t)" "row_matches row (expected_field domain tdom db transformed enc x)"
    and fin: "finalize_text tape ct codec e = (Inr (domain, allocated, reused), e')"
    and reads: "\<forall>pi\<in>set (table_rows db). \<exists>u. read (fst pi) = Inr u" "(path, t) \<in> set (table_rows db)"
  shows "''POLICY_BINDING_MISMATCH'' \<in> fi_failures (snd (verify_field_ledger db schema (field_rows db t) h))
    \<and> recovery_ledger db read = Inl (recovery_failure ''RECOVERY_LEDGER_INCOMPLETE'')"
proof -
  have "domain = None" using fin empty by (simp add: finalize_text_def)
  then have r: "fr_action row = Some ACTION_TEXT" "fr_domain row = None" using row(2) fd by (auto simp: row_matches_def expected_field_def directive_domain_def)
  have bad: "''POLICY_BINDING_MISMATCH'' \<in> fi_failures (snd (verify_field_ledger db s (field_rows db t) f))" for s f
    using ledger_loop_rejects [OF row(1) r, of db s "[]" f] by (auto simp: verify_field_ledger_def split: prod.split)
  let ?step = "\<lambda>(p, i). bindE (read p) (\<lambda>u. let (ledger, f) = verify_field_ledger db (tv_schema u) (field_rows db i) no_findings
     in if any_finding f then Inl (recovery_failure ''RECOVERY_LEDGER_INCOMPLETE'') else Inr (p, ledger))"
  have each: "?step pi = Inl (recovery_failure ''RECOVERY_LEDGER_INCOMPLETE'') \<or> (\<exists>y. ?step pi = Inr y)" if row_in: "pi \<in> set (table_rows db)" for pi
  proof -
    obtain u where "read (fst pi) = Inr u" using row_in reads(1) by blast
    then show ?thesis by (cases pi) (simp split: prod.split)
  qed
  obtain u where u: "read path = Inr u" using reads by force
  have "any_finding (snd (verify_field_ledger db (tv_schema u) (field_rows db t) no_findings))" using bad by (auto simp: any_finding_def)
  then have hit: "?step (path, t) = Inl (recovery_failure ''RECOVERY_LEDGER_INCOMPLETE'')" using u by (auto split: prod.split)
  have "mapE g xs = Inl err" if "\<forall>y\<in>set xs. g y = Inl err \<or> (\<exists>z. g y = Inr z)" "x \<in> set xs" "g x = Inl err"
    for g :: "string \<times> string \<Rightarrow> (string \<times> ledger) result" and xs x err
    using that by (induction xs) auto
  from this [of "table_rows db" ?step "recovery_failure ''RECOVERY_LEDGER_INCOMPLETE''" "(path, t)"] each hit reads(2)
  show ?thesis using bad unfolding recovery_ledger_def by blast
qed

definition unobserved_dataset :: database where
  "unobserved_dataset = sample_dataset\<lparr>mapping_domains_tbl := [], text_mappings_tbl := [],
     fields_tbl := map (\<lambda>r. r\<lparr>fr_domain := None\<rparr>) (fields_tbl sample_dataset)\<rparr>"

theorem unobserved_text_blocks_recovery_witness:
  "''POLICY_BINDING_MISMATCH'' \<in> fi_failures (snd (verify_field_ledger unobserved_dataset sample_schema (field_rows unobserved_dataset ''t'') no_findings))
   \<and> recovery_ledger unobserved_dataset (\<lambda>_. Inr (sample_view [])) = Inl (recovery_failure ''RECOVERY_LEDGER_INCOMPLETE'')"
proof -
  let ?e = "p1_engine sample_start" and ?row = "hd (fields_tbl unobserved_dataset)" and ?x = "hd (logical_fields sample_schema)"
  have enc: "text_encoding_union (en_spool ?e) = []" by (simp add: sample_start_def vault.defs new_spool_def text_encoding_union_def)
  have fd: "find (\<lambda>fd. fd_name fd = sf_name ?x) (rev (tab_transformed sample_directive)) = Some (hd (tab_transformed sample_directive))"
    "fd_action (hd (tab_transformed sample_directive)) = ACTION_TEXT" "fd_numeric_domain (hd (tab_transformed sample_directive)) = None"
    by (simp_all add: sample_directive_def sample_fields)
  have row: "?row \<in> set (field_rows unobserved_dataset ''t'')"
    "row_matches ?row (expected_field None None unobserved_dataset (tab_transformed sample_directive) ''cp1252'' ?x)"
    by (simp_all add: unobserved_dataset_def sample_dataset_def field_rows_def row_matches_def expected_field_def directive_domain_def sample_directive_def sample_fields)
  have fin: "finalize_text (\<lambda>_. 0) (\<lambda>_. Continue) (\<lambda>_ _. None) ?e = (Inr (None, 0, 0), ?e)" using enc by (simp add: finalize_text_def Let_def)
  have "(''T.DBF'', ''t'') \<in> set (table_rows unobserved_dataset)" by (simp add: table_rows_def unobserved_dataset_def sample_dataset_def)
  from unobserved_text_blocks_recovery [OF enc fd row fin _ this, of "\<lambda>_. Inr (sample_view [])"] show ?thesis by simp
qed

section \<open>Numeric members of one name\<close>

text \<open>
  The range facts of a numeric member are looked up by field name only: two members of one group
  with the same field name in different tables get the range of the first.
\<close>

lemma member_range_ignores_table:
  assumes "rm_field_name m = n" and "is_numeric_member m"
  shows "member_range_of (g\<lparr>rg_members := m # ms\<rparr>) n = member_range m"
  using assms by (simp add: member_range_of_def)

end
