(* ===== verification/Pass_Two_Start.thy ===== *)
theory Pass_Two_Start
  imports Relation_Evidence Run_Binding
begin

text \<open>
  The start of pass 2 (\<^verbatim>\<open>src/src/dbf_anonymizer/engine/pass2.py\<close>, \<open>run_pass_two\<close> up to its loop): what it
  takes from the outcome of pass 1 and from the vault. The theory then follows a plan with date fields in
  which pass 1 sees no date from the scan to this point.
\<close>

section \<open>What pass 2 starts from\<close>

text \<open>
  \<open>write\<close> is the table write with the text domain and the offset, \<open>domain_id\<close> the identifier of the unnamed
  temporal domain, which the probe object of \<open>_persisted_temporal_offset\<close> derives again.
\<close>

definition start_pass_two ::
    "(nat \<Rightarrow> unit result) \<Rightarrow> (string option \<Rightarrow> int option \<Rightarrow> nat \<Rightarrow> (table_write_result \<times> shard) result)
      \<Rightarrow> ((nat \<Rightarrow> (table_write_result \<times> shard) result) \<Rightarrow> nat list \<Rightarrow> future_state list result)
      \<Rightarrow> int \<Rightarrow> engine_plan \<Rightarrow> string \<Rightarrow> pass_one \<Rightarrow> pass_two_state result" where
  "start_pass_two cancel write settle workers plan domain_id p =
     (if workers < 1 then Inl ValueError
      else
        let text_domain = (if ep_text_present plan then po_text_domain_id (p1_outcome p) else None)
        in bindE (if ep_temporal_present plan
                  then bindE (fst (persisted_temporal_offset domain_id (p1_engine p))) (\<lambda>offset. Inr (Some offset))
                  else Inr None) (\<lambda>temporal_offset.
             run_pass_two cancel (write text_domain temporal_offset) (settle (write text_domain temporal_offset)) workers
               (length (ep_tables plan)) (p1_spool p)))"

section \<open>Pass 1 stores no offset but for its temporal domain\<close>

text \<open>The vault is open and holds no parameter of the domain \<open>d\<close>, in the view and in what is committed.\<close>

definition offsetless :: "string \<Rightarrow> 'x vault_scheme \<Rightarrow> bool" where
  "offsetless d v \<longleftrightarrow> \<not> closed v \<and> poisoned v = None
     \<and> d \<notin> pr_domain ` set (temporal_parameters_tbl (working v)) \<and> d \<notin> pr_domain ` set (temporal_parameters_tbl (committed v))"

definition spares :: "string \<Rightarrow> ('a, 'x) vm \<Rightarrow> bool" where
  "spares d m \<longleftrightarrow> (\<forall>v x v'. m v = (Inr x, v') \<longrightarrow> offsetless d v \<longrightarrow> offsetless d v')"

named_theorems spare \<open>operations that store no offset\<close>

lemma sparesD: "spares d m \<Longrightarrow> m v = (Inr x, v') \<Longrightarrow> offsetless d v \<Longrightarrow> offsetless d v'"
  by (simp add: spares_def)

lemma spares_bindV [spare]: "spares d m \<Longrightarrow> (\<And>x. spares d (f x)) \<Longrightarrow> spares d (bindV m f)"
  unfolding spares_def by (blast elim: bindV_Inr_E)

lemma spares_basic [spare]:
  "spares d (retV x)" "spares d (failV e)" "spares d (liftV r)" "spares d (guardV b e)" "spares d internal_connection"
  "spares d require_active_transaction"
  by (auto simp: spares_def guardV_def internal_connection_def require_active_transaction_def bindV_def split: if_splits)

lemma spares_insert:
  assumes "\<And>db db'. stmt db = Some db' \<Longrightarrow> temporal_parameters_tbl db' = temporal_parameters_tbl db"
  shows "spares d (execute_insert stmt e)"
  by (auto simp: spares_def offsetless_def execute_insert_def internal_connection_def bindV_def assms split: if_splits option.splits)

lemma spares_transaction [spare]:
  assumes "spares d body"
  shows "spares d (with_transaction body)"
  unfolding spares_def
proof (intro allI impI)
  fix v x v' assume run: "with_transaction body v = (Inr x, v')" and v: "offsetless d v"
  obtain u where u: "body (v\<lparr>txn_authorized := True, txn_active := True, working := committed v\<rparr>) = (Inr x, u)"
    and v': "v' = u\<lparr>txn_active := False, committed := working u\<rparr>"
    using run by (auto simp: with_transaction_def bindV_def require_trusted_connection_def run_transaction_def Let_def verify_writer_ownership_def
        do_commit_def split: if_splits prod.splits sum.splits)
  have "offsetless d (v\<lparr>txn_authorized := True, txn_active := True, working := committed v\<rparr>)" using v by (simp add: offsetless_def)
  from sparesD [OF assms u this] show "offsetless d v'" by (simp add: v' offsetless_def)
qed

lemma spares_mapV [spare]: "(\<And>x. spares d (f x)) \<Longrightarrow> spares d (mapV f xs)"
  by (induction xs) (simp_all add: spare)

lemma spares_case [spare]:
  "spares d m \<Longrightarrow> (\<And>x. spares d (g x)) \<Longrightarrow> spares d (case o' of None \<Rightarrow> m | Some x \<Rightarrow> g x)"
  "spares d m \<Longrightarrow> spares d n \<Longrightarrow> spares d (if b then m else n)"
  "(\<And>a b. spares d (h a b)) \<Longrightarrow> spares d (case p of (a, b) \<Rightarrow> h a b)"
  by (auto split: option.split prod.split)

lemma spares_rows [spare]:
  "spares d (get_text_pseudonym k v)" "spares d (get_numeric_pseudonym k v)" "spares d (numeric_mapping_rows k)" "spares d (has_domain k)"
  "spares d (create_domain kind n r i h)" "spares d (add_text_mapping k v q l)" "spares d (add_numeric_key_mapping k v q)"
  "spares d (persist_memo_recovery mi ty value)"
  unfolding get_text_pseudonym_def get_numeric_pseudonym_def numeric_mapping_rows_def has_domain_def mapping_domains_def create_domain_def
    add_text_mapping_def add_numeric_key_mapping_def persist_memo_recovery_def persist_memo_body_def get_memo_recovery_def add_memo_recovery_def
  by (auto intro!: spare spares_insert simp: insert_domain_def insert_text_def insert_numeric_def insert_memo_def split: if_splits option.splits)

lemma offsetless_engine [simp]:
  "offsetless d (e\<lparr>en_spool := s\<rparr>) = offsetless d e" "offsetless d (e\<lparr>en_draws := k\<rparr>) = offsetless d e" "offsetless d (e\<lparr>en_checks := k\<rparr>) = offsetless d e"
  for e :: engine
  by (simp_all add: offsetless_def)

lemma spares_engine [spare]:
  "spares d (check_cancelled ct)" "spares d (on_spool g)" "spares d (ensure_domain_of_kind kind k)" "spares d (store_numeric_mapping k c value q)"
  "spares d (select_on_engine t k kd value occ rem)" "spares d (solve_text_residual_probed ct k a)" "spares d (reuse_text_row ct k row)"
proof -
  show "spares d (check_cancelled ct)" by (auto simp: spares_def check_cancelled_def)
  show g: "spares d (on_spool g)" for g by (auto simp: spares_def on_spool_def split: sum.splits)
  show "spares d (ensure_domain_of_kind kind k)" unfolding ensure_domain_of_kind_def by (intro spare)
  show "spares d (store_numeric_mapping k c value q)" unfolding store_numeric_mapping_def by (intro spare)
  show "spares d (select_on_engine t k kd value occ rem)" unfolding select_on_engine_def
    by (intro spare) (auto simp: spares_def split: sum.splits prod.splits)
  show "spares d (solve_text_residual_probed ct k a)" unfolding solve_text_residual_probed_def
    by (intro spare) (auto simp: spares_def Let_def split: sum.splits prod.splits)
  show "spares d (reuse_text_row ct k row)" unfolding reuse_text_row_def
    by (intro spare g) (auto simp: spares_def check_cancelled_def)
qed

lemma spares_allocate [spare]: "spares d (allocate_text_row t ct k a i)"
proof -
  have "spares d (bindV (check_cancelled ct) (\<lambda>_. bindV (with_transaction (add_text_mapping k v q l)) (\<lambda>_. on_spool g)))" for v q l g
    by (intro spare)
  then show ?thesis
    unfolding allocate_text_row_def
    by (intro spare) (auto simp: spares_def split: sum.splits prod.splits)
qed

lemma spares_finalize_text: "spares d (finalize_text t ct codec)"
  unfolding spares_def
proof (intro allI impI)
  fix e x e' assume run: "finalize_text t ct codec e = (Inr x, e')" and e: "offsetless d e"
  let ?d = GLOBAL_TEXT_DOMAIN_ID
  show "offsetless d e'"
  proof (cases "text_encoding_union (en_spool e) = []")
    case True
    then show ?thesis using run e by (auto simp: finalize_text_def)
  next
    case False
    define a where "a = candidate_alphabet codec (text_encoding_union (en_spool e))"
    obtain e1 e2 e3 e4 rows reused where
      s1: "ensure_domain_of_kind KIND_TEXT ?d e = (Inr (), e1)" and
      s2: "mapV (reuse_text_row ct ?d) (text_observation_rows (flush (en_spool e1))) (e1\<lparr>en_spool := flush (en_spool e1)\<rparr>) = (Inr reused, e2)" and
      s3: "solve_text_residual_probed ct ?d a e2 = (Inr (), e3)" and
      s4: "mapV (allocate_text_row t ct ?d a) [0..<length (res_originals (sp_graph (en_spool e3)))] e3 = (Inr rows, e4)" and
      s5: "e' = e4\<lparr>en_spool := (en_spool e4)\<lparr>sp_graph := empty_residual\<rparr>\<rparr>"
      using run False unfolding finalize_text_def Let_def a_def [symmetric] by (auto elim!: bindV_Inr_E split: if_splits)
    have "offsetless d (e1\<lparr>en_spool := flush (en_spool e1)\<rparr>)" using sparesD [OF spares_engine(3) s1 e] by simp
    from sparesD [OF spares_mapV s2 this] have "offsetless d e2" by (simp add: spare)
    from sparesD [OF spares_mapV s4 sparesD [OF spares_engine(6) s3 this]] show ?thesis by (simp add: spare s5)
  qed
qed

lemma spares_finalize_numeric: "spares d (finalize_numeric_domain t ct k kd)"
proof -
  have rows: "spares d (finalize_numeric_rows t ct k kd rows occ rem n)" for rows occ rem n
    by (induction rows arbitrary: occ rem n) (auto intro!: spare)
  have "spares d (bindV (liftV r) (\<lambda>ok. if \<not> ok then failV err else finalize_numeric_rows t ct k kd xs occ rem 0))" for r err xs occ rem
    by (intro spare rows)
  then show ?thesis
    unfolding finalize_numeric_domain_def Let_def by (intro spare) (auto simp: spares_def)
qed

section \<open>A scan that sees no date\<close>

text \<open>The temporal object is still the one the run made, and the vault has no offset of its domain.\<close>

definition dateless :: "string \<Rightarrow> temporal_domain \<Rightarrow> pass_one \<Rightarrow> bool" where
  "dateless d m p \<longleftrightarrow> p1_temporal p = Some m \<and> offsetless d (p1_engine p)"

definition quiet :: "string \<Rightarrow> temporal_domain \<Rightarrow> 'a pass_one_op \<Rightarrow> bool" where
  "quiet d m f \<longleftrightarrow> (\<forall>p x p'. f p = (Inr x, p') \<longrightarrow> dateless d m p \<longrightarrow> dateless d m p')"

lemma quietD: "quiet d m f \<Longrightarrow> f p = (Inr x, p') \<Longrightarrow> dateless d m p \<Longrightarrow> dateless d m p'"
  by (simp add: quiet_def)

lemma quiet_bindS: "quiet d m f \<Longrightarrow> (\<And>x. quiet d m (g x)) \<Longrightarrow> quiet d m (bindS f g)"
  unfolding quiet_def by (blast elim: bindS_InrE)

lemma quiet_eachS: "\<forall>x\<in>set xs. quiet d m (f x) \<Longrightarrow> quiet d m (eachS f xs)"
proof (induction xs)
  case (Cons x xs)
  then have "quiet d m (bindS (f x) (\<lambda>_. eachS f xs))" by (intro quiet_bindS) auto
  then show ?case by (simp add: quiet_def)
qed (simp add: quiet_def)

lemma quiet_engine: "spares d f \<Longrightarrow> quiet d m (on_engine f)"
  unfolding quiet_def dateless_def by (auto elim!: on_engine_InrE dest: sparesD)

lemma quiet_state: "quiet d m (\<lambda>p. (r, p\<lparr>p1_outcome := g p\<rparr>))" "quiet d m (\<lambda>p. (r, p))"
  by (auto simp: quiet_def dateless_def)

definition dates_absent :: "source_reader \<Rightarrow> engine_plan \<Rightarrow> bool" where
  "dates_absent rd plan \<longleftrightarrow> (\<forall>tab\<in>set (ep_tables plan). \<forall>r. Inr r \<in> set (scanned_items rd tab) \<longrightarrow>
     (\<forall>fd\<in>set (tab_transformed tab). fd_numeric_domain fd = None \<and> fd_action fd = ACTION_TEMPORAL \<longrightarrow>
        field_value (rec_values r) (fd_name fd) = VNone))"

lemma quiet_field:
  assumes "fd_numeric_domain fd = None \<and> fd_action fd = ACTION_TEMPORAL \<longrightarrow> field_value (rec_values r) (fd_name fd) = VNone"
  shows "quiet d m (observe_field bindings tab r fd)"
proof -
  have "quiet d m (observe_temporal_field VNone)"
    by (auto simp: quiet_def dateless_def observe_temporal_field_def observe_temporal_def split: if_splits)
  moreover have "quiet d m (on_engine (on_spool g))" for g by (intro quiet_engine spare)
  moreover have "quiet d m (on_engine (bindV (persist_memo_recovery i ty v) (\<lambda>_. retV ())))" for i ty v by (intro quiet_engine spare)
  ultimately show ?thesis
    using assms unfolding quiet_def observe_field_def observe_memo_field_def Let_def by (simp split: option.split)
qed

lemma quiet_scan:
  assumes "dates_absent rd plan"
  shows "quiet d m (run_pass_one rd ct bindings plan)"
  unfolding run_pass_one_def
proof (rule quiet_eachS, rule ballI)
  fix tab assume tab: "tab \<in> set (ep_tables plan)"
  have probe: "quiet d m (on_engine (check_cancelled ct))" "quiet d m flush_spool"
    unfolding flush_spool_def by (intro quiet_engine spare)+
  have "quiet d m (scan_item ct bindings (ep_relations plan) tab item)" if "item \<in> set (scanned_items rd tab)" for item
  proof (cases item)
    case (Inr r)
    have "quiet d m (observe_record bindings (ep_relations plan) tab r)"
      unfolding observe_record_def
      by (intro quiet_bindS quiet_eachS ballI quiet_field quiet_engine spare) (use assms tab that Inr in \<open>auto simp: dates_absent_def\<close>)
    then have "quiet d m (bindS (on_engine (check_cancelled ct)) (\<lambda>_. bindS (observe_record bindings (ep_relations plan) tab r) (\<lambda>_. count_record r)))"
      by (intro quiet_bindS probe) (auto simp: quiet_def dateless_def count_record_def)
    then show ?thesis by (simp add: Inr quiet_def)
  qed (simp add: quiet_def)
  then show "quiet d m (scan_table rd ct bindings (ep_relations plan) tab)"
    unfolding scan_table_def scanned_items_def [symmetric] by (intro quiet_bindS probe quiet_state quiet_eachS) auto
qed

lemma quiet_finalize_text: "quiet d m (finalize_text_stage t ct codec)"
proof -
  have "quiet d m (bindS (on_engine (finalize_text t ct codec)) (\<lambda>y p. case y of (e, allocated, reused) \<Rightarrow> (Inr (), p\<lparr>p1_outcome := g e allocated reused p\<rparr>)))" for g
    by (intro quiet_bindS quiet_engine spares_finalize_text) (auto simp: quiet_def dateless_def)
  then show ?thesis unfolding finalize_text_stage_def by (simp add: quiet_def case_prod_beta')
qed

lemma quiet_finalize_relation: "quiet d m (finalize_relation_stage t ct rel)"
proof -
  have "quiet d m (bindS (on_engine (finalize_numeric_domain t ct k kd)) (\<lambda>allocated. bindS (\<lambda>p. (Inr (), p\<lparr>p1_outcome := g allocated p\<rparr>)) (\<lambda>_. on_engine (check_cancelled ct))))" for k kd g
    by (intro quiet_bindS quiet_engine quiet_state spare spares_finalize_numeric)
  then show ?thesis unfolding quiet_def finalize_relation_stage_def by (auto split: option.splits)
qed

lemma offsetless_frame:
  "offsetless d (vault.extend (vault.truncate (vault.extend (vault.truncate v) x\<lparr>td_finalized := a, td_empty := b, td_offset := c\<rparr>)) y) = offsetless d v"
  by (simp add: offsetless_def vault.defs)

lemma empty_temporal_finalize:
  assumes "run_pass_one_finalize t ct codec plan p = (Inr (), p')" and "dateless d m p" and "td_min_ordinal m = None"
  shows "offsetless d (p1_engine p')" and "po_temporal_offset (p1_outcome p') = None"
    and "\<exists>m'. p1_temporal p' = Some m' \<and> td_empty m' \<and> td_domain_id m' = td_domain_id m"
proof -
  obtain p1 p2 p3 where steps:
    "(if ep_text_present plan then finalize_text_stage t ct codec else (\<lambda>p. (Inr (), p))) p = (Inr (), p1)"
    "on_engine (check_cancelled ct) p1 = (Inr (), p2)" "eachS (finalize_relation_stage t ct) (ep_relations plan) p2 = (Inr (), p3)"
    "finalize_temporal_stage t p3 = (Inr (), p')"
    using assms(1) by (auto simp: run_pass_one_finalize_def elim!: bindS_InrE)
  have "dateless d m p1" using steps(1) assms(2) quietD [OF quiet_finalize_text] by (auto split: if_splits)
  from quietD [OF quiet_engine [OF spares_engine(1)] steps(2) this] have "dateless d m p2" .
  from quietD [OF quiet_eachS steps(3) this] have "dateless d m p3" by (simp add: quiet_finalize_relation)
  moreover have "td_min_ordinal (vault.extend v (vault.more m)) = None" "td_domain_id (vault.extend v (vault.more m)) = td_domain_id m" for v
    using assms(3) by (cases m, simp add: vault.defs)+
  ultimately have "offsetless d (p1_engine p') \<and> po_temporal_offset (p1_outcome p') = None
      \<and> (\<exists>m'. p1_temporal p' = Some m' \<and> td_empty m' \<and> td_domain_id m' = td_domain_id m)"
    using steps(4) by (auto simp: dateless_def finalize_temporal_stage_def finalize_temporal_def Let_def offsetless_frame simp del: vault.defs)
  then show "offsetless d (p1_engine p')" and "po_temporal_offset (p1_outcome p') = None"
    and "\<exists>m'. p1_temporal p' = Some m' \<and> td_empty m' \<and> td_domain_id m' = td_domain_id m" by auto
qed

section \<open>The field ledger\<close>

lemma spares_ledger: "spares d (register_transform_fields sha16 read plan text_domain temporal_domain)"
proof -
  have direct: "spares d (execute_direct (insert_table r) er)" "spares d (execute_direct (insert_field q) er)" for r q er
    by (auto simp: spares_def offsetless_def execute_direct_def insert_table_def insert_field_def split: option.splits if_splits)
  have basic: "spares d (field_lookup t n)" "spares d known_tables" "spares d (ensure_table sha16 path known)" "spares d (register_field sha16 t spec)" for t n path known spec
    unfolding field_lookup_def known_tables_def registered_tables_def ensure_table_def register_table_def register_field_def Let_def
    by (intro spare direct)+
  have field: "spares d (register_ledger_field sha16 text_domain temporal_domain tab schema t f)" for tab schema t f
    unfolding register_ledger_field_def Let_def by (intro spare basic)
  have "spares d (register_ledger_tables sha16 text_domain temporal_domain read known tabs)" for known tabs
    by (induction tabs arbitrary: known) (auto intro!: spare basic field)
  then show ?thesis unfolding register_transform_fields_def by (intro spare basic)
qed

section \<open>A plan with date fields and no date\<close>

text \<open>
  C39. A dataset whose date fields are all NULL cannot be written. Assumed are a plan with a temporal field,
  a scan over readers whose records have NULL in every such field, its finalization and the registration of
  the field ledger, each of which succeeds, a fresh temporal object, and an open vault that holds no offset of
  its domain. Then the temporal domain is the empty one, which the domain documents as valid and which
  shifts NULL to NULL, pass 1 reports no offset, and pass 2 stops before its first table with a missing
  offset, for every worker count, although no value would ever be shifted.
\<close>

theorem unobserved_dates_block_pass_two:
  assumes "run_pass_one rd ct bindings plan p0 = (Inr (), p1)" and "run_pass_one_finalize t ct' codec plan p1 = (Inr (), p2)"
    and "register_transform_fields sha16 read plan text_domain temporal_domain (p1_engine p2) = (Inr (), e)"
    and "p1_temporal p0 = Some m" and "td_min_ordinal m = None" and "offsetless (td_domain_id m) (p1_engine p0)"
    and "dates_absent rd plan" and "ep_temporal_present plan" and "1 \<le> workers"
  shows "(\<exists>m'. p1_temporal p2 = Some m' \<and> td_domain_id m' = td_domain_id m \<and> shifted_temporal VNone m' = (Inr VNone, m'))
    \<and> po_temporal_offset (p1_outcome p2) = None
    \<and> start_pass_two cancel write settle workers plan (td_domain_id m) (p2\<lparr>p1_engine := e\<rparr>)
        = Inl (pass1_mapping_failure ''ENGINE_TEMPORAL_OFFSET_MISSING'')"
proof -
  have "dateless (td_domain_id m) m p1" using quietD [OF quiet_scan [OF assms(7)] assms(1)] assms(4,6) by (simp add: dateless_def)
  note fin = empty_temporal_finalize [OF assms(2) this assms(5)]
  have "offsetless (td_domain_id m) e" by (rule sparesD [OF spares_ledger assms(3) fin(1)])
  then have "\<not> closed e" "poisoned e = None" "find (\<lambda>r. pr_domain r = td_domain_id m) (temporal_parameters_tbl (working e)) = None"
    by (auto simp: offsetless_def find_None_iff image_iff)
  then show ?thesis using fin(2,3) assms(8,9)
    by (auto simp: start_pass_two_def persisted_temporal_offset_def temporal_parameter_def internal_connection_def temporal_parameter_db_def bindV_def
        shifted_temporal_def)
qed

section \<open>A sample\<close>

definition date_plan :: engine_plan where
  "date_plan = \<lparr>ep_tables = [\<lparr>tab_path = ''d.dbf'', tab_transformed = [\<lparr>fd_name = ''BORN'', fd_action = ACTION_TEMPORAL, fd_type = CHR ''D'',
       fd_encoding = ''cp1250'', fd_width = 8, fd_numeric_domain = None, fd_member_range = None\<rparr>], tab_memo_fields = [],
       tab_temporal_fields = [''BORN''], tab_relation_fields = [], tab_structural_cdx = False, tab_record_count = 2\<rparr>],
     ep_relations = [], ep_text_present = False, ep_numeric_present = False, ep_temporal_present = True, ep_structural_cdx_tables = [],
     ep_standalone_idx_paths = []\<rparr>"

definition date_reader :: source_reader where
  "date_reader = \<lparr>sr_open = (\<lambda>_. Inr ()), sr_stream = (\<lambda>path names memo. map (\<lambda>i. Inr \<lparr>rec_index = i, rec_deleted = False,
     rec_values = [''BORN'' \<mapsto> VNone]\<rparr>) [0, 1])\<rparr>"

definition date_domain :: temporal_domain where
  "date_domain = projr (new_temporal_domain (\<lambda>_. ''0'') transaction_sample None)"

definition date_start :: pass_one where
  "date_start = sample_start\<lparr>p1_temporal := Some date_domain\<rparr>"

definition date_schema :: source_schema where
  "date_schema = \<lparr>ss_fields = [\<lparr>sf_name = ''BORN'', sf_type = CHR ''D'', sf_length = 8, sf_decimals = 0, sf_memo = False, si_supported = True,
     si_binary = False, si_system = False, si_nocptrans = False\<rparr>], ss_encoding = ''cp1250'', ss_structural_cdx = False, ss_record_count = 2\<rparr>"

definition date_scanned :: pass_one where
  "date_scanned = date_start\<lparr>p1_engine := (p1_engine date_start)\<lparr>en_checks := 3\<rparr>,
     p1_outcome := (p1_outcome date_start)\<lparr>po_tables_scanned := 1, po_records_scanned := 2, po_read_streams := [(''pass1'', ''d.dbf'')]\<rparr>\<rparr>"

definition date_finalized :: pass_one where
  "date_finalized = date_scanned\<lparr>p1_engine := (p1_engine date_scanned)\<lparr>en_checks := 4\<rparr>,
     p1_temporal := Some (date_domain\<lparr>td_finalized := True, td_empty := True\<rparr>),
     p1_outcome := (p1_outcome date_scanned)\<lparr>po_temporal_domain_id := Some ''dom-0''\<rparr>\<rparr>"

definition date_ledger :: "unit result \<times> engine" where
  "date_ledger = register_transform_fields (\<lambda>_. ''0'') (\<lambda>_. Inr date_schema) date_plan None (Some ''dom-0'') (p1_engine date_finalized)"

lemmas date_objects = date_start_def date_domain_def sample_start_def new_temporal_domain_def transaction_sample_def vault.defs Let_def

lemma flush_new: "flush new_spool = new_spool"
  by (simp add: new_spool_def flush_def flush_text_def flush_numeric_def flush_keys_def flush_facts_def track_high_water_def execute_upserts_def Let_def)

lemma date_scan: "run_pass_one date_reader (\<lambda>_. Continue) Map.empty date_plan date_start = (Inr (), date_scanned)"
  by (simp add: run_pass_one_def date_plan_def scan_table_def bindS_def on_engine_def check_cancelled_def date_reader_def flush_spool_def on_spool_def
      observe_record_def observe_field_def observe_temporal_field_def observe_temporal_def field_value_def count_record_def date_scanned_def flush_new
      date_objects)

lemma date_finalize: "run_pass_one_finalize (\<lambda>_. 0) (\<lambda>_. Continue) (\<lambda>_ _. None) date_plan date_scanned = (Inr (), date_finalized)"
  by (simp add: run_pass_one_finalize_def date_plan_def bindS_def on_engine_def check_cancelled_def finalize_temporal_stage_def finalize_temporal_def
      date_scanned_def date_finalized_def date_objects)

lemma date_register: "fst date_ledger = Inr () \<and> map fr_action (fields_tbl (working (snd date_ledger))) = [Some ACTION_TEMPORAL]"
  by code_simp

theorem unobserved_dates_block_pass_two_witness:
  "map fr_action (fields_tbl (working (snd date_ledger))) = [Some ACTION_TEMPORAL]
   \<and> start_pass_two (\<lambda>_. Inr ()) (\<lambda>_ _ _. Inl ValueError) (\<lambda>_ _. Inl ValueError) 1 date_plan ''dom-0''
       (date_finalized\<lparr>p1_engine := snd date_ledger\<rparr>) = Inl (pass1_mapping_failure ''ENGINE_TEMPORAL_OFFSET_MISSING'')"
proof -
  have led: "register_transform_fields (\<lambda>_. ''0'') (\<lambda>_. Inr date_schema) date_plan None (Some ''dom-0'') (p1_engine date_finalized) = (Inr (), snd date_ledger)"
    using date_register unfolding date_ledger_def by (metis prod.collapse)
  have m: "p1_temporal date_start = Some date_domain" "td_min_ordinal date_domain = None" "td_domain_id date_domain = ''dom-0''"
    by (simp_all add: date_objects)
  have v: "offsetless (td_domain_id date_domain) (p1_engine date_start)"
    by (simp add: offsetless_def date_objects)
  have none: "dates_absent date_reader date_plan" "ep_temporal_present date_plan" "(1 :: int) \<le> 1"
    by (auto simp: dates_absent_def scanned_items_def date_reader_def date_plan_def field_value_def)
  show ?thesis using unobserved_dates_block_pass_two [OF date_scan date_finalize led m(1,2) v none] m(3) date_register by simp
qed

end
