(* ===== verification/Relation_Compatibility.thy ===== *)
theory Relation_Compatibility
  imports Run_Binding Relation_Evidence
begin

text \<open>
  The compatibility preflight of declared relations
  (\<^verbatim>\<open>src/src/dbf_anonymizer/relationships/compatibility.py\<close>): what one group must satisfy, the agreement of
  overlapping groups, and the domains the members resolve to. The digest that names a numeric domain
  is the argument \<open>domain_id\<close>, a function of the relation id for the document at hand.
\<close>

section \<open>One group\<close>

definition incompatible :: "string \<Rightarrow> error" where
  "incompatible detail = PolicyError POLICY_INVALID detail"

definition is_text_member :: "relation_member \<Rightarrow> bool" where
  "is_text_member m \<longleftrightarrow> rm_dbf_type m \<in> {''C'', ''V''}"

definition validate_relation_group_compatibility :: "codec \<Rightarrow> relation_group \<Rightarrow> unit result" where
  "validate_relation_group_compatibility encode g =
     bindE (guardE (list_all (\<lambda>m. rm_dbf_type m \<in> set SUPPORTED_RELATIONSHIP_DBF_TYPES) (rg_members g))
              (incompatible ''RELATIONSHIP_DBF_TYPE_UNSUPPORTED'')) (\<lambda>_.
     bindE (guardE (rg_comparison g = ''EXACT_VALUE'') (incompatible ''RELATIONSHIP_COMPARISON_INCOMPATIBLE'')) (\<lambda>_.
     bindE (guardE (length (remdups (map rm_nullable (rg_members g))) \<le> 1) (incompatible ''RELATIONSHIP_NULL_POLICY_INCONSISTENT'')) (\<lambda>_.
     let text_members = filter is_text_member (rg_members g)
     in bindE (guardE (text_members = [] \<or> candidate_alphabet encode (sort (remdups (map rm_encoding text_members))) \<noteq> [])
                 (incompatible ''RELATIONSHIP_ENCODING_INCOMPATIBLE'')) (\<lambda>_.
          guardE (rg_numeric_strategy g = REVERSIBLE_BIJECTIVE \<longrightarrow> list_ex is_numeric_member (rg_members g))
            (incompatible ''RELATIONSHIP_NUMERIC_STRATEGY_MEMBER_REQUIRED'')))))"

section \<open>The domains of a group\<close>

definition resolved_relation_domain :: "relation_group \<Rightarrow> string result" where
  "resolved_relation_domain g =
     (if list_all is_text_member (rg_members g) then Inr GLOBAL_TEXT_DOMAIN_ID
      else Inl (incompatible ''RELATIONSHIP_DBF_TYPE_UNSUPPORTED''))"

definition resolved_numeric_domain :: "(string \<Rightarrow> string) \<Rightarrow> relationship_document \<Rightarrow> relation_group \<Rightarrow> string result" where
  "resolved_numeric_domain domain_id doc g =
     (if rg_numeric_strategy g \<noteq> REVERSIBLE_BIJECTIVE then Inl (incompatible ''RELATIONSHIP_NUMERIC_STRATEGY_IDENTITY_HAS_NO_DOMAIN'')
      else if \<not> list_ex is_numeric_member (rg_members g) then Inl (incompatible ''RELATIONSHIP_NUMERIC_STRATEGY_MEMBER_REQUIRED'')
      else if g \<notin> set (rd_groups doc) then Inl (incompatible ''RELATIONSHIP_GROUP_NOT_IN_DOCUMENT'')
      else Inr (domain_id (rg_relation_id g)))"

section \<open>The whole document\<close>

type_synonym member_site = "string \<times> string"

definition member_key :: "relation_member \<Rightarrow> member_site" where
  "member_key m = (rm_table_path m, rm_field_name m)"

record overlap_state =
  ov_seen :: "member_site \<rightharpoonup> relation_member"
  ov_identity :: "member_site list"
  ov_reversible :: "member_site list"

definition same_metadata :: "relation_member \<Rightarrow> relation_member \<Rightarrow> bool" where
  "same_metadata p m \<longleftrightarrow> rm_dbf_type p = rm_dbf_type m \<and> rm_byte_width p = rm_byte_width m
     \<and> rm_encoding p = rm_encoding m \<and> rm_nullable p = rm_nullable m"

definition observe_member :: "relation_group \<Rightarrow> relation_member \<Rightarrow> overlap_state \<Rightarrow> overlap_state result" where
  "observe_member g m s =
     bindE (guardE (\<forall>p\<in>set_option (ov_seen s (member_key m)). same_metadata p m) (incompatible ''RELATIONSHIP_DOMAIN_CONFLICT'')) (\<lambda>_.
     let s1 = (if ov_seen s (member_key m) = None then s\<lparr>ov_seen := (ov_seen s)(member_key m \<mapsto> m)\<rparr> else s)
     in Inr (if \<not> is_numeric_member m then s1
             else if rg_numeric_strategy g = REVERSIBLE_BIJECTIVE then s1\<lparr>ov_reversible := List.insert (member_key m) (ov_reversible s1)\<rparr>
             else s1\<lparr>ov_identity := List.insert (member_key m) (ov_identity s1)\<rparr>))"

definition observe_group :: "codec \<Rightarrow> relation_group \<Rightarrow> overlap_state \<Rightarrow> overlap_state result" where
  "observe_group encode g s =
     bindE (validate_relation_group_compatibility encode g) (\<lambda>_. foldE (observe_member g) (rg_members g) s)"

text \<open>The second loop: the table of the first domain of a member, and the members that meet another one.\<close>

definition bind_reversible ::
    "(string \<Rightarrow> string) \<Rightarrow> relationship_document \<Rightarrow> relation_group \<Rightarrow> relation_member
      \<Rightarrow> (member_site \<rightharpoonup> string) \<times> member_site list \<Rightarrow> ((member_site \<rightharpoonup> string) \<times> member_site list) result" where
  "bind_reversible domain_id doc g m s =
     (if \<not> is_numeric_member m then Inr s
      else bindE (resolved_numeric_domain domain_id doc g) (\<lambda>d.
        Inr (case fst s (member_key m) of
               None \<Rightarrow> ((fst s)(member_key m \<mapsto> d), snd s)
             | Some previous \<Rightarrow> if previous \<noteq> d then (fst s, snd s @ [member_key m]) else s)))"

definition validate_document_compatibility :: "codec \<Rightarrow> (string \<Rightarrow> string) \<Rightarrow> relationship_document \<Rightarrow> unit result" where
  "validate_document_compatibility encode domain_id doc =
     bindE (foldE (observe_group encode) (rd_groups doc) \<lparr>ov_seen = Map.empty, ov_identity = [], ov_reversible = []\<rparr>) (\<lambda>s.
     bindE (guardE (\<not> list_ex (\<lambda>k. k \<in> set (ov_identity s)) (ov_reversible s)) (incompatible ''RELATIONSHIP_NUMERIC_DOMAIN_CONFLICT'')) (\<lambda>_.
     bindE (foldE (\<lambda>g. foldE (bind_reversible domain_id doc g) (rg_members g))
              (filter (\<lambda>g. rg_numeric_strategy g = REVERSIBLE_BIJECTIVE) (rd_groups doc)) (Map.empty, [])) (\<lambda>r.
       guardE (snd r = []) (incompatible ''RELATIONSHIP_NUMERIC_DOMAIN_CONFLICT''))))"

section \<open>What the document check decides\<close>

type_synonym placed = "relation_group \<times> relation_member"

definition placed_in :: "relation_group list \<Rightarrow> placed list" where
  "placed_in gs = concat (map (\<lambda>g. map (Pair g) (rg_members g)) gs)"

abbreviation reversible :: "relation_group \<Rightarrow> bool" where
  "reversible g \<equiv> rg_numeric_strategy g = REVERSIBLE_BIJECTIVE"

definition agree :: "placed list \<Rightarrow> bool" where
  "agree ps \<longleftrightarrow> (\<forall>p\<in>snd ` set ps. \<forall>q\<in>snd ` set ps. member_key p = member_key q \<longrightarrow> same_metadata p q)"

text \<open>The loop state after the members \<open>ps\<close>.\<close>

definition tracks :: "overlap_state \<Rightarrow> placed list \<Rightarrow> bool" where
  "tracks s ps \<longleftrightarrow> (\<forall>k. ov_seen s k = find (\<lambda>m. member_key m = k) (map snd ps))
     \<and> set (ov_identity s) = (\<lambda>p. member_key (snd p)) ` {p \<in> set ps. is_numeric_member (snd p) \<and> \<not> reversible (fst p)}
     \<and> set (ov_reversible s) = (\<lambda>p. member_key (snd p)) ` {p \<in> set ps. is_numeric_member (snd p) \<and> reversible (fst p)}"

lemma same_metadata_equiv:
  "same_metadata p p" "same_metadata p q \<Longrightarrow> same_metadata q p" "same_metadata p q \<Longrightarrow> same_metadata q r \<Longrightarrow> same_metadata p r"
  by (auto simp: same_metadata_def)

lemma find_SomeD: "find P xs = Some x \<Longrightarrow> x \<in> set xs \<and> P x"
  by (induction xs) (auto split: if_splits)

lemma find_append: "find P (xs @ ys) = (case find P xs of None \<Rightarrow> find P ys | Some x \<Rightarrow> Some x)"
  by (induction xs) auto

lemma agree_snoc:
  assumes "agree ps"
  shows "agree (ps @ [(g, m)]) \<longleftrightarrow> (\<forall>p\<in>set_option (find (\<lambda>p. member_key p = member_key m) (map snd ps)). same_metadata p m)"
proof
  assume "agree (ps @ [(g, m)])"
  then show "\<forall>p\<in>set_option (find (\<lambda>p. member_key p = member_key m) (map snd ps)). same_metadata p m"
    unfolding agree_def by (auto simp: find_Some_iff)
next
  assume first: "\<forall>p\<in>set_option (find (\<lambda>p. member_key p = member_key m) (map snd ps)). same_metadata p m"
  have m: "same_metadata p m" if p: "p \<in> snd ` set ps" "member_key p = member_key m" for p
  proof (cases "find (\<lambda>p. member_key p = member_key m) (map snd ps)")
    case None
    then show ?thesis using p by (auto simp: find_None_iff)
  next
    case (Some q)
    then have "q \<in> snd ` set ps" "member_key q = member_key m" by (auto simp: find_Some_iff)
    then have "same_metadata p q" using assms p unfolding agree_def by metis
    then show ?thesis using first Some same_metadata_equiv(3) by auto
  qed
  show "agree (ps @ [(g, m)])"
    unfolding agree_def using assms [unfolded agree_def] m same_metadata_equiv(1,2) by (auto; metis)
qed

lemma tracks_seen: "tracks s ps \<Longrightarrow> ov_seen s k = find (\<lambda>m. member_key m = k) (map snd ps)"
  unfolding tracks_def by blast

lemma observe_member_tracks:
  assumes "tracks s ps" and "agree ps"
  shows "case observe_member g m s of Inl e \<Rightarrow> \<not> agree (ps @ [(g, m)]) | Inr s' \<Rightarrow> agree (ps @ [(g, m)]) \<and> tracks s' (ps @ [(g, m)])"
proof (cases "agree (ps @ [(g, m)])")
  case False
  then have "observe_member g m s = Inl (incompatible ''RELATIONSHIP_DOMAIN_CONFLICT'')"
    unfolding observe_member_def guardE_def tracks_seen [OF assms(1)] agree_snoc [OF assms(2)]
    by (cases "find (\<lambda>p. member_key p = member_key m) (map snd ps)") auto
  then show ?thesis using False by simp
next
  case True
  then obtain s' where s': "observe_member g m s = Inr s'"
    unfolding observe_member_def guardE_def tracks_seen [OF assms(1)] agree_snoc [OF assms(2)] by (simp add: Let_def)
  have snoc: "(\<lambda>p. member_key (snd p)) ` {p \<in> set (ps @ [(g, m)]). Q p} = (\<lambda>p. member_key (snd p)) ` {p \<in> set ps. Q p} \<union> (if Q (g, m) then {member_key m} else {})" for Q
    by (auto intro: rev_image_eqI [of "(g, m)"])
  have "ov_seen s' k = find (\<lambda>m. member_key m = k) (map snd (ps @ [(g, m)]))" for k
    using s' tracks_seen [OF assms(1), of k] tracks_seen [OF assms(1), of "member_key m"] by (auto simp: observe_member_def guard_simps Let_def find_append split: option.splits if_splits)
  moreover have "set (ov_identity s') = set (ov_identity s) \<union> (if is_numeric_member m \<and> \<not> reversible g then {member_key m} else {})"
    and "set (ov_reversible s') = set (ov_reversible s) \<union> (if is_numeric_member m \<and> reversible g then {member_key m} else {})"
    using s' by (auto simp: observe_member_def guard_simps Let_def split: if_splits)
  moreover have "set (ov_identity s) = (\<lambda>p. member_key (snd p)) ` {p \<in> set ps. is_numeric_member (snd p) \<and> \<not> reversible (fst p)}"
    and "set (ov_reversible s) = (\<lambda>p. member_key (snd p)) ` {p \<in> set ps. is_numeric_member (snd p) \<and> reversible (fst p)}"
    using assms(1) unfolding tracks_def by blast+
  ultimately have "tracks s' (ps @ [(g, m)])" unfolding tracks_def snoc by simp
  then show ?thesis using s' True by simp
qed

lemma agree_prefix: "agree (ps @ qs) \<Longrightarrow> agree ps"
  by (auto simp: agree_def)

lemma observe_members_track:
  assumes "tracks s ps" and "agree ps"
  shows "case foldE (observe_member g) ms s of
      Inl e \<Rightarrow> \<not> agree (ps @ map (Pair g) ms) | Inr s' \<Rightarrow> agree (ps @ map (Pair g) ms) \<and> tracks s' (ps @ map (Pair g) ms)"
  using assms
proof (induction ms arbitrary: s ps)
  case (Cons m ms)
  note step = observe_member_tracks [OF Cons.prems, of g m]
  show ?case
  proof (cases "observe_member g m s")
    case (Inl e)
    then show ?thesis using step agree_prefix [of "ps @ [(g, m)]" "map (Pair g) ms"] by auto
  next
    case (Inr s1)
    then show ?thesis using step Cons.IH [of s1 "ps @ [(g, m)]"] by (simp split: sum.splits)
  qed
qed simp

lemma observe_groups_track:
  assumes "tracks s ps" and "agree ps"
  shows "case foldE (observe_group encode) gs s of
      Inl e \<Rightarrow> \<not> ((\<forall>g\<in>set gs. validate_relation_group_compatibility encode g = Inr ()) \<and> agree (ps @ placed_in gs))
    | Inr s' \<Rightarrow> (\<forall>g\<in>set gs. validate_relation_group_compatibility encode g = Inr ()) \<and> agree (ps @ placed_in gs) \<and> tracks s' (ps @ placed_in gs)"
  using assms
proof (induction gs arbitrary: s ps)
  case (Cons g gs)
  let ?qs = "ps @ map (Pair g) (rg_members g)"
  have eq: "ps @ placed_in (g # gs) = ?qs @ placed_in gs" by (simp add: placed_in_def)
  show ?case
  proof (cases "validate_relation_group_compatibility encode g")
    case (Inl e)
    then show ?thesis by (simp add: observe_group_def)
  next
    case (Inr u)
    note step = observe_members_track [OF Cons.prems, of g "rg_members g"]
    show ?thesis
    proof (cases "foldE (observe_member g) (rg_members g) s")
      case (Inl e)
      then show ?thesis using step Inr agree_prefix [of ?qs "placed_in gs"] unfolding eq by (auto simp: observe_group_def)
    next
      case (Inr s1)
      then show ?thesis using step \<open>validate_relation_group_compatibility encode g = Inr u\<close> Cons.IH [of s1 ?qs] unfolding eq
        by (auto simp: observe_group_def split: sum.splits)
    qed
  qed
qed (simp add: placed_in_def)

lemma foldE_Pair: "foldE (\<lambda>(g, m). f g m) (map (Pair g) ms) s = foldE (f g) ms s"
proof (induction ms arbitrary: s)
  case (Cons m ms)
  show ?case by (simp add: Cons.IH [abs_def])
qed simp

lemma foldE_placed: "foldE (\<lambda>g. foldE (f g) (rg_members g)) gs s = foldE (\<lambda>(g, m). f g m) (placed_in gs) s"
proof (induction gs arbitrary: s)
  case (Cons g gs)
  have "foldE (\<lambda>(g, m). f g m) (placed_in (g # gs)) s =
      bindE (foldE (f g) (rg_members g) s) (foldE (\<lambda>(g, m). f g m) (placed_in gs))"
    by (simp add: placed_in_def foldE_Pair)
  then show ?case by (simp add: Cons.IH [abs_def])
qed (simp add: placed_in_def)

definition one_domain :: "(string \<Rightarrow> string) \<Rightarrow> placed list \<Rightarrow> bool" where
  "one_domain domain_id ps \<longleftrightarrow> (\<forall>p\<in>set ps. \<forall>q\<in>set ps. is_numeric_member (snd p) \<and> is_numeric_member (snd q)
     \<and> member_key (snd p) = member_key (snd q) \<longrightarrow> domain_id (rg_relation_id (fst p)) = domain_id (rg_relation_id (fst q)))"

definition bound_at :: "(string \<Rightarrow> string) \<Rightarrow> placed list \<Rightarrow> member_site \<Rightarrow> string option" where
  "bound_at domain_id ps k =
     map_option (\<lambda>p. domain_id (rg_relation_id (fst p))) (find (\<lambda>p. is_numeric_member (snd p) \<and> member_key (snd p) = k) ps)"

lemma one_domain_snoc:
  assumes "one_domain D ps"
  shows "one_domain D (ps @ [(g, m)]) \<longleftrightarrow>
    (is_numeric_member m \<longrightarrow> (\<forall>d\<in>set_option (bound_at D ps (member_key m)). d = D (rg_relation_id g)))"
proof
  assume one: "one_domain D (ps @ [(g, m)])"
  show "is_numeric_member m \<longrightarrow> (\<forall>d\<in>set_option (bound_at D ps (member_key m)). d = D (rg_relation_id g))"
  proof (intro impI ballI)
    fix d assume m: "is_numeric_member m" and d: "d \<in> set_option (bound_at D ps (member_key m))"
    then obtain p where "find (\<lambda>p. is_numeric_member (snd p) \<and> member_key (snd p) = member_key m) ps = Some p" "d = D (rg_relation_id (fst p))"
      by (auto simp: bound_at_def)
    then have "p \<in> set ps" "is_numeric_member (snd p)" "member_key (snd p) = member_key m" "d = D (rg_relation_id (fst p))"
      by (auto simp: find_Some_iff)
    then show "d = D (rg_relation_id g)" using one [unfolded one_domain_def, rule_format, of p "(g, m)"] m by simp
  qed
next
  assume first: "is_numeric_member m \<longrightarrow> (\<forall>d\<in>set_option (bound_at D ps (member_key m)). d = D (rg_relation_id g))"
  have m: "D (rg_relation_id h) = D (rg_relation_id g)"
    if h: "(h, n) \<in> set ps" "is_numeric_member n" "is_numeric_member m" "member_key n = member_key m" for h n
  proof (cases "find (\<lambda>p. is_numeric_member (snd p) \<and> member_key (snd p) = member_key m) ps")
    case None
    then show ?thesis using h by (auto simp: find_None_iff)
  next
    case (Some q)
    then have q: "q \<in> set ps" "is_numeric_member (snd q)" "member_key (snd q) = member_key m" by (auto simp: find_Some_iff)
    have "D (rg_relation_id (fst q)) = D (rg_relation_id g)" using first h(3) Some by (simp add: bound_at_def)
    moreover have "D (rg_relation_id (fst q)) = D (rg_relation_id h)"
      using assms [unfolded one_domain_def, rule_format, of q "(h, n)"] q h by simp
    ultimately show ?thesis by simp
  qed
  show "one_domain D (ps @ [(g, m)])"
    unfolding one_domain_def
  proof (intro ballI impI, elim conjE)
    fix p q assume p: "p \<in> set (ps @ [(g, m)])" and q: "q \<in> set (ps @ [(g, m)])"
      and n: "is_numeric_member (snd p)" "is_numeric_member (snd q)" and k: "member_key (snd p) = member_key (snd q)"
    consider "p \<in> set ps" "q \<in> set ps" | "p \<in> set ps" "q = (g, m)" | "p = (g, m)" "q \<in> set ps" | "p = (g, m)" "q = (g, m)"
      using p q by auto
    then show "D (rg_relation_id (fst p)) = D (rg_relation_id (fst q))"
    proof cases
      case 1
      then show ?thesis using assms n k unfolding one_domain_def by blast
    next
      case 2
      then show ?thesis using m [of "fst p" "snd p"] n k by simp
    next
      case 3
      then show ?thesis using m [of "fst q" "snd q"] n k by simp
    qed simp
  qed
qed

lemma bind_reversible_tracks:
  assumes "\<forall>(g, m)\<in>set qs. g \<in> set (rd_groups doc) \<and> reversible g \<and> m \<in> set (rg_members g)"
    and "fst s = bound_at D ps" and "snd s = [] \<longleftrightarrow> one_domain D ps"
  shows "\<exists>s'. foldE (\<lambda>(g, m). bind_reversible D doc g m) qs s = Inr s' \<and> (snd s' = [] \<longleftrightarrow> one_domain D (ps @ qs))"
  using assms
proof (induction qs arbitrary: s ps)
  case (Cons q qs)
  obtain g m where q: "q = (g, m)" by force
  have r: "resolved_numeric_domain D doc g = Inr (D (rg_relation_id g))" if "is_numeric_member m"
    using Cons.prems(1) q that by (auto simp: resolved_numeric_domain_def list_ex_iff)
  have mono: "one_domain D ps" if "one_domain D (ps @ [(g, m)])" using that unfolding one_domain_def set_append by blast
  obtain s1 where s1: "bind_reversible D doc g m s = Inr s1" "fst s1 = bound_at D (ps @ [(g, m)])" "snd s1 = [] \<longleftrightarrow> one_domain D (ps @ [(g, m)])"
  proof (cases "is_numeric_member m")
    case False
    have "bound_at D (ps @ [(g, m)]) = bound_at D ps" using False by (auto simp: bound_at_def find_append fun_eq_iff split: option.splits)
    moreover have "one_domain D (ps @ [(g, m)]) \<longleftrightarrow> one_domain D ps" using one_domain_snoc [of D ps g m] mono False by auto
    ultimately show ?thesis using that [of s] False Cons.prems(2,3) by (simp add: bind_reversible_def)
  next
    case True
    show ?thesis
    proof (cases "bound_at D ps (member_key m)")
      case None
      then have "bound_at D (ps @ [(g, m)]) = (bound_at D ps)(member_key m \<mapsto> D (rg_relation_id g))"
        using True by (auto simp: bound_at_def find_append fun_eq_iff split: option.splits)
      moreover have "one_domain D (ps @ [(g, m)]) \<longleftrightarrow> one_domain D ps" using one_domain_snoc [of D ps g m] mono None by auto
      ultimately show ?thesis using that [of "((fst s)(member_key m \<mapsto> D (rg_relation_id g)), snd s)"] True None Cons.prems(2,3) r
        by (simp add: bind_reversible_def)
    next
      case (Some d)
      then have "bound_at D (ps @ [(g, m)]) = bound_at D ps" by (auto simp: bound_at_def find_append fun_eq_iff split: option.splits)
      moreover have "one_domain D (ps @ [(g, m)]) \<longleftrightarrow> one_domain D ps \<and> d = D (rg_relation_id g)"
        using one_domain_snoc [of D ps g m] mono True Some by auto
      ultimately show ?thesis using that [of "if d \<noteq> D (rg_relation_id g) then (fst s, snd s @ [member_key m]) else s"] True Some Cons.prems(2,3) r
        by (auto simp: bind_reversible_def)
    qed
  qed
  then show ?case using Cons.IH [of s1 "ps @ [(g, m)]"] Cons.prems(1) q by simp
qed simp

lemma set_placed_in: "set (placed_in gs) = {(g, m). g \<in> set gs \<and> m \<in> set (rg_members g)}"
  by (auto simp: placed_in_def)

lemma placed_in_filter: "set (placed_in (filter P gs)) = {p \<in> set (placed_in gs). P (fst p)}"
  by (auto simp: set_placed_in)

text \<open>The contract of overlapping groups.\<close>

definition overlaps_coherent :: "(string \<Rightarrow> string) \<Rightarrow> relation_group list \<Rightarrow> bool" where
  "overlaps_coherent D gs \<longleftrightarrow> (\<forall>g\<in>set gs. \<forall>h\<in>set gs. \<forall>m\<in>set (rg_members g). \<forall>n\<in>set (rg_members h). member_key m = member_key n \<longrightarrow>
     same_metadata m n \<and> (is_numeric_member m \<longrightarrow> (reversible g \<longleftrightarrow> reversible h) \<and> (reversible g \<longrightarrow> D (rg_relation_id g) = D (rg_relation_id h))))"

lemma overlaps_coherent_iff:
  "overlaps_coherent D gs \<longleftrightarrow> agree (placed_in gs)
     \<and> (\<forall>p\<in>set (placed_in gs). \<forall>q\<in>set (placed_in gs). is_numeric_member (snd p) \<and> is_numeric_member (snd q) \<and> reversible (fst p) \<and> \<not> reversible (fst q)
          \<longrightarrow> member_key (snd p) \<noteq> member_key (snd q))
     \<and> one_domain D (placed_in (filter (\<lambda>g. reversible g) gs))" (is "?L \<longleftrightarrow> ?A \<and> ?B \<and> ?C")
proof (intro iffI conjI)
  assume ?L
  then have L: "same_metadata (snd p) (snd q) \<and> (is_numeric_member (snd p) \<longrightarrow> (reversible (fst p) \<longleftrightarrow> reversible (fst q))
      \<and> (reversible (fst p) \<longrightarrow> D (rg_relation_id (fst p)) = D (rg_relation_id (fst q))))"
    if "p \<in> set (placed_in gs)" "q \<in> set (placed_in gs)" "member_key (snd p) = member_key (snd q)" for p q
  proof -
    have "fst p \<in> set gs" "fst q \<in> set gs" "snd p \<in> set (rg_members (fst p))" "snd q \<in> set (rg_members (fst q))"
      using that(1,2) by (auto simp: set_placed_in)
    then show ?thesis using \<open>?L\<close> that(3) unfolding overlaps_coherent_def by blast
  qed
  show ?A unfolding agree_def using L by blast
  show ?B using L by blast
  show ?C unfolding one_domain_def placed_in_filter using L by simp
next
  assume R: "?A \<and> ?B \<and> ?C"
  show ?L
    unfolding overlaps_coherent_def
  proof (intro ballI impI)
    fix g h m n assume mem: "g \<in> set gs" "h \<in> set gs" "m \<in> set (rg_members g)" "n \<in> set (rg_members h)" and k: "member_key m = member_key n"
    have p: "(g, m) \<in> set (placed_in gs)" "(h, n) \<in> set (placed_in gs)" using mem by (auto simp: set_placed_in)
    have same: "same_metadata m n" using R k p unfolding agree_def by (metis image_eqI snd_conv)
    have "is_numeric_member n" if "is_numeric_member m" using that same by (simp add: is_numeric_member_def same_metadata_def)
    moreover have "reversible g \<longleftrightarrow> reversible h" if "is_numeric_member m" "is_numeric_member n"
      using R p k that by (metis fst_conv snd_conv)
    moreover have "D (rg_relation_id g) = D (rg_relation_id h)" if "is_numeric_member m" "is_numeric_member n" "reversible g" "reversible h"
      using R p k that unfolding one_domain_def placed_in_filter by (metis (mono_tags, lifting) fst_conv mem_Collect_eq snd_conv)
    ultimately show "same_metadata m n \<and> (is_numeric_member m \<longrightarrow> (reversible g \<longleftrightarrow> reversible h) \<and> (reversible g \<longrightarrow> D (rg_relation_id g) = D (rg_relation_id h)))"
      using same by blast
  qed
qed

lemma document_compatible_iff:
  "validate_document_compatibility encode D doc = Inr () \<longleftrightarrow>
     (\<forall>g\<in>set (rd_groups doc). validate_relation_group_compatibility encode g = Inr ()) \<and> overlaps_coherent D (rd_groups doc)"
proof -
  let ?gs = "rd_groups doc" and ?s0 = "\<lparr>ov_seen = Map.empty, ov_identity = [], ov_reversible = []\<rparr>"
  let ?rev = "filter (\<lambda>g. reversible g) ?gs"
  have start: "tracks ?s0 []" "agree []" by (auto simp: tracks_def agree_def)
  have "\<forall>(g, m)\<in>set (placed_in ?rev). g \<in> set ?gs \<and> reversible g \<and> m \<in> set (rg_members g)" by (auto simp: set_placed_in)
  moreover have "fst (Map.empty, [] :: member_site list) = bound_at D []" "snd (Map.empty :: member_site \<rightharpoonup> string, [] :: member_site list) = [] \<longleftrightarrow> one_domain D []"
    by (auto simp: bound_at_def one_domain_def)
  ultimately obtain r where r: "foldE (\<lambda>g. foldE (bind_reversible D doc g) (rg_members g)) ?rev (Map.empty, []) = Inr r"
    "snd r = [] \<longleftrightarrow> one_domain D (placed_in ?rev)"
    using bind_reversible_tracks [of "placed_in ?rev" doc "(Map.empty, [])" D "[]"] unfolding foldE_placed by auto
  show ?thesis
  proof (cases "foldE (observe_group encode) ?gs ?s0")
    case (Inl e)
    then show ?thesis using observe_groups_track [OF start, of ?gs encode] overlaps_coherent_iff [of D ?gs]
      by (auto simp: validate_document_compatibility_def)
  next
    case (Inr s)
    then have s: "\<forall>g\<in>set ?gs. validate_relation_group_compatibility encode g = Inr ()" "agree (placed_in ?gs)" "tracks s (placed_in ?gs)"
      using observe_groups_track [OF start, of ?gs encode] by auto
    have "set (ov_identity s) = (\<lambda>p. member_key (snd p)) ` {p \<in> set (placed_in ?gs). is_numeric_member (snd p) \<and> \<not> reversible (fst p)}"
      "set (ov_reversible s) = (\<lambda>p. member_key (snd p)) ` {p \<in> set (placed_in ?gs). is_numeric_member (snd p) \<and> reversible (fst p)}"
      using s(3) unfolding tracks_def by blast+
    then have tracked: "k \<in> set (ov_identity s) \<longleftrightarrow> (\<exists>q\<in>set (placed_in ?gs). is_numeric_member (snd q) \<and> \<not> reversible (fst q) \<and> k = member_key (snd q))"
      "k \<in> set (ov_reversible s) \<longleftrightarrow> (\<exists>q\<in>set (placed_in ?gs). is_numeric_member (snd q) \<and> reversible (fst q) \<and> k = member_key (snd q))" for k
      by (simp_all only: image_iff mem_Collect_eq Bex_def) blast+
    have "\<not> list_ex (\<lambda>k. k \<in> set (ov_identity s)) (ov_reversible s) \<longleftrightarrow>
        (\<forall>p\<in>set (placed_in ?gs). \<forall>q\<in>set (placed_in ?gs). is_numeric_member (snd p) \<and> is_numeric_member (snd q) \<and> reversible (fst p) \<and> \<not> reversible (fst q)
          \<longrightarrow> member_key (snd p) \<noteq> member_key (snd q))"
      unfolding list_ex_iff Bex_def tracked by blast
    then show ?thesis using s(1,2) r Inr unfolding overlaps_coherent_iff validate_document_compatibility_def by (auto simp: guardE_def)
  qed
qed

section \<open>What the engine makes of a compatible document\<close>

abbreviation numeric_groups_of :: "(string \<Rightarrow> string) \<Rightarrow> relation_group list \<Rightarrow> (relation_group \<times> string) list" where
  "numeric_groups_of D gs \<equiv> map (\<lambda>g. (g, D (rg_relation_id g))) (filter (\<lambda>g. reversible g) gs)"

text \<open>How a member is transformed: a numeric one by the domain of its group, a text one by the policy.\<close>

definition text_class :: "(json \<Rightarrow> string) \<Rightarrow> dict \<Rightarrow> field_class" where
  "text_class other merged =
     (if slot_action other merged ''PSEUDONYMIZE_REVERSIBLE'' ''text'' ''default_action'' = ''KEEP'' then KeepClass else TextClass)"

definition member_class :: "(json \<Rightarrow> string) \<Rightarrow> dict \<Rightarrow> (string \<Rightarrow> string) \<Rightarrow> relation_group \<Rightarrow> relation_member \<Rightarrow> field_class" where
  "member_class other merged D g m =
     (if is_text_member m then text_class other merged
      else if reversible g then NumericClass (D (rg_relation_id g)) else KeepClass)"

lemma member_kinds:
  assumes "rm_dbf_type m \<in> set SUPPORTED_RELATIONSHIP_DBF_TYPES"
  shows "is_text_member m \<longleftrightarrow> \<not> is_numeric_member m"
  using assms by (auto simp: is_text_member_def is_numeric_member_def is_numeric_type_def SUPPORTED_RELATIONSHIP_DBF_TYPES_def
      SUPPORTED_NUMERIC_RELATIONSHIP_DBF_TYPES_def)

lemma numeric_binding:
  assumes coh: "overlaps_coherent D gs" and inj: "inj D" and dist: "distinct (map rg_relation_id gs)" and sub: "set es \<subseteq> set gs"
    and g: "g \<in> set es" "m \<in> set (rg_members g)"
  shows "numeric_member_of (numeric_groups_of D es) (rm_table_path m) (rm_field_name m) =
    (if is_numeric_member m \<and> reversible g then Some (g, D (rg_relation_id g)) else None)"
proof -
  let ?P = "\<lambda>(h, d). list_ex (\<lambda>n. is_numeric_member n \<and> rm_table_path n = rm_table_path m \<and> rm_field_name n = rm_field_name m) (rg_members h)"
  have hit: "h = g \<and> is_numeric_member m \<and> reversible g" if h: "(h, d) \<in> set (numeric_groups_of D es)" "?P (h, d)" for h d
  proof -
    obtain n where n: "n \<in> set (rg_members h)" "is_numeric_member n" "member_key n = member_key m"
      using h(2) by (auto simp: list_ex_iff member_key_def)
    have "h \<in> set gs" "g \<in> set gs" "reversible h" using h(1) g(1) sub by auto
    then have "same_metadata n m" "reversible g" "D (rg_relation_id h) = D (rg_relation_id g)"
      using coh n g(2) unfolding overlaps_coherent_def by blast+
    moreover from this have "rg_relation_id h = rg_relation_id g" using inj by (simp add: inj_eq)
    ultimately show ?thesis using n(2) dist \<open>h \<in> set gs\<close> \<open>g \<in> set gs\<close>
      by (auto simp: is_numeric_member_def same_metadata_def distinct_map inj_on_def)
  qed
  show ?thesis
  proof (cases "is_numeric_member m \<and> reversible g")
    case True
    then have "(g, D (rg_relation_id g)) \<in> set (numeric_groups_of D es)" "?P (g, D (rg_relation_id g))"
      using g by (auto simp: list_ex_iff)
    then have "find ?P (numeric_groups_of D es) \<noteq> None" unfolding find_None_iff by blast
    then obtain q where q: "find ?P (numeric_groups_of D es) = Some q" by blast
    then have "q \<in> set (numeric_groups_of D es)" "?P q" using find_SomeD [OF q] by blast+
    then have "q = (g, D (rg_relation_id g))" using hit [of "fst q" "snd q"] by (cases q) auto
    then show ?thesis using True q by (simp add: numeric_member_of_def)
  next
    case False
    have "find ?P (numeric_groups_of D es) = None"
    proof (rule ccontr)
      assume "find ?P (numeric_groups_of D es) \<noteq> None"
      then obtain q where "find ?P (numeric_groups_of D es) = Some q" by blast
      from find_SomeD [OF this] show False using hit [of "fst q" "snd q"] False by simp
    qed
    then show ?thesis using False by (simp add: numeric_member_of_def)
  qed
qed

text \<open>The directive of a bound member.\<close>

lemma member_directive:
  assumes v: "validate_policy merged = Inr ()" and coh: "overlaps_coherent D gs" and inj: "inj D"
    and dist: "distinct (map rg_relation_id gs)" and sub: "set es \<subseteq> set gs" and g: "g \<in> set es" "m \<in> set (rg_members g)"
    and ty: "rm_dbf_type m \<in> set SUPPORTED_RELATIONSHIP_DBF_TYPES" "[sf_type f] = rm_dbf_type m" and name: "sf_name f = rm_field_name m"
    and fd: "field_directive_for other merged (numeric_groups_of D es) (rm_table_path m) schema f = Inr r"
  shows "(case r of None \<Rightarrow> KeepClass | Some fd \<Rightarrow> directive_class fd) = member_class other merged D g m
    \<and> (\<forall>fd. r = Some fd \<longrightarrow> fd_name fd = rm_field_name m)"
proof -
  note nb = numeric_binding [OF coh inj dist sub g]
  have zero: "sf_type f \<noteq> CHR ''0''" and slot: "type_slot (sf_type f) =
      (if is_text_member m then Some (''PSEUDONYMIZE_REVERSIBLE'', ''text'', ''default_action'') else None)"
    using ty by (auto simp: SUPPORTED_RELATIONSHIP_DBF_TYPES_def is_text_member_def type_slot_def)
  obtain action unsafe sys where c: "classify_field_capability other (sf_type f) (sf_name f) (si_supported f) (si_binary f) (si_system f) (si_nocptrans f) merged = Inr (action, unsafe, sys)"
    using fd by (auto simp: field_directive_for_def bindE_Inr_iff)
  have sys: "\<not> sys" and safe: "\<not> unsafe" using c fd zero
    by (auto simp: field_directive_for_def bindE_Inr_iff classify_cases Let_def split: if_splits option.splits prod.splits)
  let ?a = "slot_action other merged ''PSEUDONYMIZE_REVERSIBLE'' ''text'' ''default_action''"
  have action: "action = (if is_text_member m \<and> ?a \<noteq> ''KEEP'' then Some ?a else None)"
    using c safe zero slot by (auto simp: classify_cases Let_def split: if_splits option.splits)
  have voc: "?a \<in> {''PSEUDONYMIZE_REVERSIBLE'', ''KEEP''}" if "is_text_member m"
    using slot_action_vocabulary [OF v, of "sf_type f"] slot that by simp
  show ?thesis
  proof (cases "is_numeric_member m \<and> reversible g")
    case True
    then show ?thesis using fd c sys safe nb name member_kinds [OF ty(1)]
      by (auto simp: field_directive_for_def bindE_Inr_iff Let_def member_class_def directive_class_def)
  next
    case False
    then show ?thesis using fd c sys safe nb name member_kinds [OF ty(1)] action voc
      by (auto simp: field_directive_for_def bindE_Inr_iff Let_def member_class_def directive_class_def text_class_def ACTION_TEXT_def split: if_splits option.splits)
  qed
qed

section \<open>The classes of relation members in the plan\<close>

lemma field_directive_name: "field_directive_for other merged ngs path schema f = Inr (Some fd) \<Longrightarrow> fd_name fd = sf_name f"
  by (auto simp: field_directive_for_def bindE_Inr_iff Let_def split: if_splits option.splits prod.splits)

lemma directive_found:
  assumes "mapE (field_directive_for other merged ngs path schema) fs = Inr rs" and "distinct (map sf_name fs)" and "f \<in> set fs"
  shows "\<exists>r. field_directive_for other merged ngs path schema f = Inr r \<and> find (\<lambda>fd. fd_name fd = sf_name f) (List.map_filter id rs) = r"
  using assms
proof (induction fs arbitrary: rs)
  case (Cons x fs)
  let ?F = "field_directive_for other merged ngs path schema"
  obtain r rs' where r: "?F x = Inr r" "mapE ?F fs = Inr rs'" "rs = r # rs'" using Cons.prems(1) by (auto simp: bindE_Inr_iff)
  have names: "fd_name fd \<in> sf_name ` set fs" if "fd \<in> set (List.map_filter id rs')" for fd
  proof -
    have "Some fd \<in> set rs'" using that by (induction rs') (auto simp: List.map_filter_simps split: option.splits)
    then obtain y where "y \<in> set fs" "?F y = Inr (Some fd)" using r(2) unfolding mapE_Inr_iff list_all2_conv_all_nth by (metis in_set_conv_nth)
    then show ?thesis using field_directive_name by blast
  qed
  have mf: "List.map_filter id (r # rs') = (case r of None \<Rightarrow> [] | Some fd \<Rightarrow> [fd]) @ List.map_filter id rs'"
    by (simp add: List.map_filter_simps split: option.split)
  have hd: "fd_name fd = sf_name x" if "r = Some fd" for fd using that r(1) field_directive_name by blast
  show ?case
  proof (cases "f = x")
    case True
    have "sf_name x \<notin> sf_name ` set fs" using Cons.prems(2) by simp
    then have "find (\<lambda>fd. fd_name fd = sf_name x) (List.map_filter id rs') = None"
      unfolding find_None_iff using names by metis
    then show ?thesis using True r(1,3) mf hd by (auto simp: id_def split: option.splits)
  next
    case False
    then have f: "f \<in> set fs" using Cons.prems(3) by simp
    have "sf_name x \<notin> sf_name ` set fs" using Cons.prems(2) by simp
    then have "sf_name f \<noteq> sf_name x" using f by (metis imageI)
    then show ?thesis using Cons.IH [OF r(2) _ f] Cons.prems(2) r(3) mf hd by (auto simp: id_def split: option.splits)
  qed
qed simp

lemma table_classes:
  assumes "table_directive_for other merged ngs path schema = Inr tab0" and "tab_transformed tab = tab_transformed tab0"
    and "distinct (map sf_name (ss_fields schema))" and "f \<in> set (ss_fields schema)"
  shows "\<exists>r. field_directive_for other merged ngs path schema f = Inr r
    \<and> field_class tab (sf_name f) = (case r of None \<Rightarrow> KeepClass | Some fd \<Rightarrow> directive_class fd)"
proof -
  obtain rs where rs: "mapE (field_directive_for other merged ngs path schema) (ss_fields schema) = Inr rs" "tab_transformed tab0 = List.map_filter id rs"
    using assms(1) by (auto simp: table_directive_for_def bindE_Inr_iff Let_def)
  show ?thesis using directive_found [OF rs(1) assms(3,4)] rs(2) assms(2) by (auto simp: field_class_def)
qed

lemma plan_tables:
  assumes "build_engine_plan other fp D read idx paths policy (Some doc) = Inr plan"
  obtains merged where "validate_policy merged = Inr ()" and "merged = merge_with_defaults policy"
    and "mapE (relation_directive_for (numeric_groups_of D (effective_groups doc))) (effective_groups doc) = Inr (ep_relations plan)"
    and "\<forall>tab\<in>set (ep_tables plan). \<exists>schema tab0. read (tab_path tab) = Inr schema
      \<and> table_directive_for other merged (numeric_groups_of D (effective_groups doc)) (tab_path tab) schema = Inr tab0
      \<and> tab_transformed tab = tab_transformed tab0"
proof -
  let ?ngs = "numeric_groups_of D (effective_groups doc)"
  obtain merged f tables where m: "resolve_policy fp policy = Inr (merged, f)"
    and t: "mapE (\<lambda>path. bindE (read path) (table_directive_for other merged ?ngs path)) paths = Inr tables"
    and r: "mapE (relation_directive_for ?ngs) (effective_groups doc) = Inr (ep_relations plan)"
    and p: "ep_tables plan = map (\<lambda>t. t\<lparr>tab_relation_fields := relation_fields_of (ep_relations plan) (tab_path t)\<rparr>) tables"
    using assms by (auto simp: build_engine_plan_def bindE_Inr_iff Let_def)
  have "\<exists>schema tab0. read (tab_path tab) = Inr schema \<and> table_directive_for other merged ?ngs (tab_path tab) schema = Inr tab0
      \<and> tab_transformed tab = tab_transformed tab0" if tab: "tab \<in> set (ep_tables plan)" for tab
  proof -
    obtain t0 where t0: "t0 \<in> set tables" "tab = t0\<lparr>tab_relation_fields := relation_fields_of (ep_relations plan) (tab_path t0)\<rparr>"
      using tab p by auto
    then obtain path schema where "read path = Inr schema" "table_directive_for other merged ?ngs path schema = Inr t0"
      using t unfolding mapE_Inr_iff list_all2_conv_all_nth by (metis (no_types, lifting) bindE_InrE in_set_conv_nth)
    moreover from this have "tab_path t0 = path" by (auto simp: table_directive_for_def bindE_Inr_iff Let_def)
    ultimately show ?thesis using t0(2) by auto
  qed
  moreover have "validate_policy merged = Inr ()" "merged = merge_with_defaults policy"
    using m by (auto simp: resolve_policy_def bindE_Inr_iff Let_def)
  ultimately show thesis using that r by blast
qed

text \<open>What the declared members must satisfy in the source, and what no check of the program asks of the two sides.\<close>

definition members_bound :: "(string \<Rightarrow> source_schema result) \<Rightarrow> relation_group list \<Rightarrow> bool" where
  "members_bound read gs \<longleftrightarrow> (\<forall>g\<in>set gs. \<forall>m\<in>set (rg_members g). \<exists>schema f. read (rm_table_path m) = Inr schema \<and> f \<in> set (ss_fields schema)
     \<and> sf_name f = rm_field_name m \<and> [sf_type f] = rm_dbf_type m)"

definition parent_members :: "relation_group \<Rightarrow> relation_member list" where
  "parent_members g = (if members_for_role ''PRIMARY'' g \<noteq> [] then members_for_role ''PRIMARY'' g else members_for_role ''CANDIDATE'' g)"

definition one_table_sides :: "relation_group \<Rightarrow> bool" where
  "one_table_sides g \<longleftrightarrow> (let parents = parent_members g; foreigns = members_for_role ''FOREIGN'' g in
     (\<forall>m\<in>set parents. rm_table_path m = rm_table_path (hd parents)) \<and> (\<forall>m\<in>set foreigns. rm_table_path m = rm_table_path (hd foreigns)))"

text \<open>Each parent component and its foreign component are both text or both numeric.\<close>

definition paired_kinds :: "relation_group \<Rightarrow> bool" where
  "paired_kinds g \<longleftrightarrow> map is_text_member (parent_members g) = map is_text_member (members_for_role ''FOREIGN'' g)"

lemma relation_directive_sides:
  assumes "relation_directive_for ngs g = Inr rel"
  shows "rel_id rel = rg_relation_id g" "rel_parent_table rel = rm_table_path (hd (parent_members g))"
    "rel_foreign_table rel = rm_table_path (hd (members_for_role ''FOREIGN'' g))" "rel_parent_fields rel = map rm_field_name (parent_members g)"
    "rel_foreign_fields rel = map rm_field_name (members_for_role ''FOREIGN'' g)" "rel_numeric_domain_id rel = map_of ngs g"
  using assms by (auto simp: relation_directive_for_def bindE_Inr_iff Let_def parent_members_def split: if_splits)

lemma role_members_subset: "set (members_for_role role g) \<subseteq> set (rg_members g)" "set (parent_members g) \<subseteq> set (rg_members g)"
  by (auto simp: members_for_role_def role_members_def parent_members_def)

lemma map_of_numeric_groups: "g \<in> set es \<Longrightarrow> map_of (numeric_groups_of D es) g = (if reversible g then Some (D (rg_relation_id g)) else None)"
proof (cases "reversible g")
  case True
  assume "g \<in> set es"
  then show ?thesis using True by (induction es) auto
next
  case False
  then show ?thesis by (auto simp: map_of_eq_None_iff)
qed

lemma effective_subset: "set (effective_groups doc) \<subseteq> set (rd_groups doc)"
  by (auto simp: effective_groups_def)

lemma compatible_types:
  assumes "validate_relation_group_compatibility encode g = Inr u" and "m \<in> set (rg_members g)"
  shows "rm_dbf_type m \<in> set SUPPORTED_RELATIONSHIP_DBF_TYPES"
  using assms by (auto simp: validate_relation_group_compatibility_def guard_simps list_all_iff)

text \<open>The class of a bound member in the directive of its table.\<close>

lemma plan_member_class:
  assumes v: "validate_policy merged = Inr ()" and compat: "validate_document_compatibility encode D doc = Inr ()" and inj: "inj D"
    and dist: "distinct (map rg_relation_id (rd_groups doc))" and g: "g \<in> set (effective_groups doc)" "m \<in> set (rg_members g)"
    and bound: "members_bound read (effective_groups doc)" and names: "\<forall>path schema. read path = Inr schema \<longrightarrow> distinct (map sf_name (ss_fields schema))"
    and tab: "read (tab_path tab) = Inr schema" "tab_transformed tab = tab_transformed tab0"
      "table_directive_for other merged (numeric_groups_of D (effective_groups doc)) (tab_path tab) schema = Inr tab0"
    and here: "rm_table_path m = tab_path tab"
  shows "field_class tab (rm_field_name m) = member_class other merged D g m"
proof -
  have c: "\<forall>h\<in>set (rd_groups doc). validate_relation_group_compatibility encode h = Inr ()" "overlaps_coherent D (rd_groups doc)"
    using compat unfolding document_compatible_iff by auto
  have gd: "g \<in> set (rd_groups doc)" using g(1) effective_subset by blast
  obtain f where f: "f \<in> set (ss_fields schema)" "sf_name f = rm_field_name m" "[sf_type f] = rm_dbf_type m"
    using bound g here tab(1) unfolding members_bound_def by fastforce
  obtain r where r: "field_directive_for other merged (numeric_groups_of D (effective_groups doc)) (rm_table_path m) schema f = Inr r"
    "field_class tab (sf_name f) = (case r of None \<Rightarrow> KeepClass | Some fd \<Rightarrow> directive_class fd)"
    using table_classes [OF tab(3,2) _ f(1)] names tab(1) here by auto
  show ?thesis
    using member_directive [OF v c(2) inj dist effective_subset g compatible_types [OF bspec [OF c(1) gd] g(2)] f(3,2) r(1)] r(2) f(2) by simp
qed

lemma member_classes_paired:
  "paired_kinds g \<Longrightarrow> map (member_class other merged D g) (parent_members g) = map (member_class other merged D g) (members_for_role ''FOREIGN'' g)"
  "map (member_class other merged D g) (parent_members g) = map (member_class other merged D g) (members_for_role ''FOREIGN'' g)
     \<Longrightarrow> paired_kinds g \<or> set (map (member_class other merged D g) (parent_members g)) \<subseteq> {KeepClass}"
proof -
  let ?cls = "member_class other merged D g" and ?ps = "parent_members g" and ?fs = "members_for_role ''FOREIGN'' g"
  show "paired_kinds g \<Longrightarrow> map ?cls ?ps = map ?cls ?fs"
    unfolding paired_kinds_def by (auto simp: list_eq_iff_nth_eq member_class_def)
  assume eq: "map ?cls ?ps = map ?cls ?fs"
  then have len: "length ?ps = length ?fs" by (rule map_eq_imp_length_eq)
  show "paired_kinds g \<or> set (map ?cls ?ps) \<subseteq> {KeepClass}"
  proof (cases "paired_kinds g")
    case False
    then obtain i where i: "i < length ?ps" "is_text_member (?ps ! i) \<noteq> is_text_member (?fs ! i)"
      using len by (auto simp: paired_kinds_def list_eq_iff_nth_eq)
    have "?cls (?ps ! i) = ?cls (?fs ! i)" using eq i(1) len by (metis nth_map)
    then have "text_class other merged = KeepClass \<and> \<not> reversible g"
      using i(2) by (auto simp: member_class_def text_class_def split: if_splits)
    then show ?thesis by (auto simp: member_class_def)
  qed simp
qed

text \<open>
  C17. The two ends of a declared relation are transformed alike exactly when their kinds match. Let a
  document be accepted by the parser and by the compatibility preflight, let its members match the
  source schemas and each side lie in one table. Then the engine plan gives every side one sequence of
  treatments: text components follow the one text policy, numeric components use the one domain of the
  relation or stay unchanged. The sequences of the two sides are equal when each pair of components is
  text on both sides or numeric on both sides, and when they are not, and the sequences are equal all
  the same, every component of the relation stays unchanged. Neither the parser nor the preflight
  checks the kinds of a pair.
\<close>

theorem declared_relations_aligned:
  assumes "parse_relationship_document v = Inr doc" and "validate_document_compatibility encode D doc = Inr ()" and "inj D"
    and "build_engine_plan other fp D read idx paths policy (Some doc) = Inr plan" and "members_bound read (effective_groups doc)"
    and "\<forall>path schema. read path = Inr schema \<longrightarrow> distinct (map sf_name (ss_fields schema))"
    and "\<forall>g\<in>set (effective_groups doc). one_table_sides g"
  shows "\<exists>parent foreign. (\<forall>tab\<in>set (ep_tables plan). \<forall>rel\<in>set (ep_relations plan).
        (rel_parent_table rel = tab_path tab \<longrightarrow> map (field_class tab) (rel_parent_fields rel) = parent (rel_id rel))
      \<and> (rel_foreign_table rel = tab_path tab \<longrightarrow> map (field_class tab) (rel_foreign_fields rel) = foreign (rel_id rel))
      \<and> set (parent (rel_id rel)) \<union> set (foreign (rel_id rel)) \<subseteq> {KeepClass, TextClass} \<union> NumericClass ` set_option (rel_numeric_domain_id rel))
    \<and> (\<forall>g\<in>set (effective_groups doc).
        (paired_kinds g \<longrightarrow> parent (rg_relation_id g) = foreign (rg_relation_id g))
      \<and> (parent (rg_relation_id g) = foreign (rg_relation_id g) \<longrightarrow> paired_kinds g \<or> set (parent (rg_relation_id g)) \<subseteq> {KeepClass}))"
proof -
  let ?es = "effective_groups doc"
  obtain merged where m: "validate_policy merged = Inr ()" and "merged = merge_with_defaults policy"
    and rels: "mapE (relation_directive_for (numeric_groups_of D ?es)) ?es = Inr (ep_relations plan)"
    and tabs: "\<forall>tab\<in>set (ep_tables plan). \<exists>schema tab0. read (tab_path tab) = Inr schema
      \<and> table_directive_for other merged (numeric_groups_of D ?es) (tab_path tab) schema = Inr tab0 \<and> tab_transformed tab = tab_transformed tab0"
    using plan_tables [OF assms(4)] .
  have dist: "distinct (map rg_relation_id (rd_groups doc))" by (rule parse_document_facts(1) [OF assms(1)])
  define side where "side f rid = (case find (\<lambda>g. rg_relation_id g = rid) ?es of None \<Rightarrow> [] | Some g \<Rightarrow> map (member_class other merged D g) (f g))" for f rid
  have side: "side f (rg_relation_id g) = map (member_class other merged D g) (f g)" if g: "g \<in> set ?es" for f g
  proof -
    obtain h where h: "find (\<lambda>k. rg_relation_id k = rg_relation_id g) ?es = Some h"
      using g by (cases "find (\<lambda>k. rg_relation_id k = rg_relation_id g) ?es") (auto simp: find_None_iff)
    then have "h = g" using find_SomeD [OF h] g dist effective_subset [of doc] by (auto simp: distinct_map inj_on_def subset_iff)
    then show ?thesis using h by (simp add: side_def)
  qed
  let ?parent = "side parent_members" and ?foreign = "side (members_for_role ''FOREIGN'')"
  have "(rel_parent_table rel = tab_path tab \<longrightarrow> map (field_class tab) (rel_parent_fields rel) = ?parent (rel_id rel))
    \<and> (rel_foreign_table rel = tab_path tab \<longrightarrow> map (field_class tab) (rel_foreign_fields rel) = ?foreign (rel_id rel))
    \<and> set (?parent (rel_id rel)) \<union> set (?foreign (rel_id rel)) \<subseteq> {KeepClass, TextClass} \<union> NumericClass ` set_option (rel_numeric_domain_id rel)"
    if tab: "tab \<in> set (ep_tables plan)" and rel: "rel \<in> set (ep_relations plan)" for tab rel
  proof -
    obtain g where g: "g \<in> set ?es" "relation_directive_for (numeric_groups_of D ?es) g = Inr rel"
      using rels rel unfolding mapE_Inr_iff list_all2_conv_all_nth by (metis in_set_conv_nth)
    note sides = relation_directive_sides [OF g(2)]
    let ?cls = "member_class other merged D g" and ?fs = "members_for_role ''FOREIGN'' g"
    have u: "one_table_sides g" using assms(7) g(1) by blast
    obtain schema tab0 where t: "read (tab_path tab) = Inr schema"
      "table_directive_for other merged (numeric_groups_of D ?es) (tab_path tab) schema = Inr tab0" "tab_transformed tab = tab_transformed tab0"
      using bspec [OF tabs tab] by blast
    have "field_class tab (rm_field_name x) = ?cls x" if "x \<in> set (rg_members g)" "rm_table_path x = tab_path tab" for x
      by (rule plan_member_class [OF m assms(2,3) dist g(1) that(1) assms(5,6) t(1,3,2) that(2)])
    then have "map (field_class tab) (map rm_field_name ms) = map ?cls ms"
      if "set ms \<subseteq> set (rg_members g)" "\<forall>x\<in>set ms. rm_table_path x = tab_path tab" for ms
      using that unfolding map_map by (intro map_cong) (auto simp: subset_iff)
    then have "rel_parent_table rel = tab_path tab \<longrightarrow> map (field_class tab) (rel_parent_fields rel) = map ?cls (parent_members g)"
      "rel_foreign_table rel = tab_path tab \<longrightarrow> map (field_class tab) (rel_foreign_fields rel) = map ?cls ?fs"
      using u role_members_subset unfolding one_table_sides_def Let_def sides by metis+
    moreover have "set (map ?cls ms) \<subseteq> {KeepClass, TextClass} \<union> NumericClass ` set_option (rel_numeric_domain_id rel)" for ms
      unfolding sides(6) map_of_numeric_groups [OF g(1)] by (auto simp: member_class_def text_class_def)
    ultimately show ?thesis unfolding sides(1) side [OF g(1)] by simp
  qed
  moreover have "(paired_kinds g \<longrightarrow> ?parent (rg_relation_id g) = ?foreign (rg_relation_id g))
      \<and> (?parent (rg_relation_id g) = ?foreign (rg_relation_id g) \<longrightarrow> paired_kinds g \<or> set (?parent (rg_relation_id g)) \<subseteq> {KeepClass})"
    if "g \<in> set ?es" for g
    unfolding side [OF that] using member_classes_paired by blast
  ultimately show ?thesis by blast
qed

definition bound_check :: "(string \<Rightarrow> source_schema result) \<Rightarrow> relation_group list \<Rightarrow> bool" where
  "bound_check read gs = list_all (\<lambda>g. list_all (\<lambda>m. case read (rm_table_path m) of
       Inl e \<Rightarrow> False
     | Inr schema \<Rightarrow> list_ex (\<lambda>f. sf_name f = rm_field_name m \<and> [sf_type f] = rm_dbf_type m) (ss_fields schema)) (rg_members g)) gs"

lemma bound_check_iff: "bound_check read gs \<longleftrightarrow> members_bound read gs"
  unfolding bound_check_def members_bound_def list_all_iff list_ex_iff
  by (intro ball_cong refl) (auto split: sum.split)

definition sample_domain :: "string \<Rightarrow> string" where "sample_domain r = ''dom-'' @ r"

lemma inj_sample_domain: "inj sample_domain"
  by (simp add: inj_def sample_domain_def)

definition key_field :: "string \<Rightarrow> field_info" where
  "key_field n = \<lparr>sf_name = n, sf_type = CHR ''I'', sf_length = 4, sf_decimals = 0, sf_memo = False, si_supported = True, si_binary = False, si_system = False, si_nocptrans = False\<rparr>"

definition sample_read :: "string \<Rightarrow> source_schema result" where
  "sample_read path = Inr \<lparr>ss_fields = [key_field ''ID''], ss_encoding = ''ascii'', ss_structural_cdx = False, ss_record_count = 0\<rparr>"

definition sample_plan :: "json \<Rightarrow> (string \<Rightarrow> source_schema result) \<Rightarrow> string list \<Rightarrow> (relationship_document \<times> engine_plan) result" where
  "sample_plan v read paths =
     bindE (parse_relationship_document v) (\<lambda>doc.
     bindE (validate_document_compatibility std_codec sample_domain doc) (\<lambda>_.
     bindE (guardE (bound_check read (effective_groups doc)) RuntimeError) (\<lambda>_.
     bindE (build_engine_plan (\<lambda>_. []) (\<lambda>_. Inr []) sample_domain read [] paths None (Some doc)) (\<lambda>plan. Inr (doc, plan)))))"

lemma sample_planD:
  assumes "sample_plan v read paths = Inr (doc, plan)"
  shows "parse_relationship_document v = Inr doc" "validate_document_compatibility std_codec sample_domain doc = Inr ()"
    "members_bound read (effective_groups doc)" "build_engine_plan (\<lambda>_. []) (\<lambda>_. Inr []) sample_domain read [] paths None (Some doc) = Inr plan"
  using assms by (auto simp: sample_plan_def guard_simps bound_check_iff)

theorem declared_relations_aligned_witness:
  "\<exists>doc plan kappa. sample_plan sample_document sample_read [''P.dbf'', ''C.dbf''] = Inr (doc, plan) \<and> map rel_id (ep_relations plan) = [''R'']
     \<and> (\<forall>tab\<in>set (ep_tables plan). \<forall>rel\<in>set (ep_relations plan).
      (rel_parent_table rel = tab_path tab \<longrightarrow> map (field_class tab) (rel_parent_fields rel) = kappa (rel_id rel))
    \<and> (rel_foreign_table rel = tab_path tab \<longrightarrow> map (field_class tab) (rel_foreign_fields rel) = kappa (rel_id rel)))"
proof -
  have e: "case sample_plan sample_document sample_read [''P.dbf'', ''C.dbf''] of Inl e \<Rightarrow> False
    | Inr (doc, plan) \<Rightarrow> map rel_id (ep_relations plan) = [''R''] \<and> map rg_relation_id (effective_groups doc) = [''R'']
        \<and> list_all (\<lambda>g. one_table_sides g \<and> paired_kinds g) (effective_groups doc)" by code_simp
  then obtain doc plan where p: "sample_plan sample_document sample_read [''P.dbf'', ''C.dbf''] = Inr (doc, plan)"
    by (auto split: sum.splits)
  have names: "\<forall>path schema. sample_read path = Inr schema \<longrightarrow> distinct (map sf_name (ss_fields schema))" by (simp add: sample_read_def)
  have rel: "map rel_id (ep_relations plan) = [''R'']" and ids: "map rg_relation_id (effective_groups doc) = [''R'']"
    and u: "\<forall>g\<in>set (effective_groups doc). one_table_sides g" and k: "\<forall>g\<in>set (effective_groups doc). paired_kinds g"
    using e p by (simp_all add: list_all_iff)
  have only: "rel_id r = ''R''" if "r \<in> set (ep_relations plan)" for r using rel that by (auto simp: map_eq_Cons_conv)
  obtain g where g: "g \<in> set (effective_groups doc)" "rg_relation_id g = ''R''" using ids by (auto simp: map_eq_Cons_conv)
  obtain parent foreign where al: "\<forall>tab\<in>set (ep_tables plan). \<forall>rel\<in>set (ep_relations plan).
        (rel_parent_table rel = tab_path tab \<longrightarrow> map (field_class tab) (rel_parent_fields rel) = parent (rel_id rel))
      \<and> (rel_foreign_table rel = tab_path tab \<longrightarrow> map (field_class tab) (rel_foreign_fields rel) = foreign (rel_id rel))"
    and eq: "\<forall>g\<in>set (effective_groups doc). paired_kinds g \<longrightarrow> parent (rg_relation_id g) = foreign (rg_relation_id g)"
    using declared_relations_aligned [OF sample_planD(1,2) [OF p] inj_sample_domain sample_planD(4,3) [OF p] names u] by blast
  have "parent ''R'' = foreign ''R''" using eq k g by metis
  then show ?thesis using p rel al only by (intro exI [of _ doc] exI [of _ plan] exI [of _ parent]) auto
qed

text \<open>A relation of an integer parent and a character foreign column is accepted; only one end is transformed.\<close>

definition mixed_member :: "string \<Rightarrow> string \<Rightarrow> string \<Rightarrow> string \<Rightarrow> json" where
  "mixed_member table role dbf_type encoding = JObj [(''table'', JStr table), (''field'', JStr ''ID''), (''role'', JStr role), (''ordinal'', JInt 1),
     (''dbf_type'', JStr dbf_type), (''byte_width'', JInt 4), (''encoding'', JStr encoding), (''nullable'', JBool False)]"

definition mixed_document :: json where
  "mixed_document = JObj [(''metadata_schema_version'', JStr ''1.0''),
     (''relations'', JList [JObj [(''relation_id'', JStr ''R''), (''provenance'', JStr ''POLICY_FILE''), (''comparison'', JStr ''EXACT_VALUE''),
        (''members'', JList [mixed_member ''P.dbf'' ''PRIMARY'' ''I'' ''none'', mixed_member ''C.dbf'' ''FOREIGN'' ''C'' ''ascii''])]])]"

definition mixed_read :: "string \<Rightarrow> source_schema result" where
  "mixed_read path = Inr \<lparr>ss_fields = [if path = ''P.dbf'' then key_field ''ID'' else (key_field ''ID'')\<lparr>sf_type := CHR ''C''\<rparr>],
     ss_encoding = ''ascii'', ss_structural_cdx = False, ss_record_count = 0\<rparr>"

lemma mixed_pair_accepted:
  "case sample_plan mixed_document mixed_read [''P.dbf'', ''C.dbf''] of Inl e \<Rightarrow> False
    | Inr (doc, plan) \<Rightarrow> \<not> list_ex paired_kinds (effective_groups doc) \<and> map (\<lambda>tab. field_class tab ''ID'') (ep_tables plan) = [KeepClass, TextClass]"
  by code_simp




section \<open>A side that is split over tables\<close>














end
