(* ===== verification/Relation_Assurance.thy ===== *)
theory Relation_Assurance
  imports Relation_Compatibility
begin

text \<open>
  The evidence kernel and the assurance of declared relations
  (\<^verbatim>\<open>src/src/dbf_anonymizer/relationships/{verification,evidence,assurance}.py\<close>, the metadata adapters of
  \<^verbatim>\<open>relationships/document.py\<close>, and the assurance cross-check of \<^verbatim>\<open>verification.py\<close>): the count-only
  evidence of one relation, the comparison of both sides, the report, and the assurance level that is
  derived from it. The canonical JSON digests are arguments. Checks of Python types that the typed
  model fixes are left out.
\<close>

section \<open>Count-only evidence\<close>

definition value_check :: "bool \<Rightarrow> unit result" where
  "value_check b = guardE b ValueError"

record relation_side_metrics =
  sm_rows :: int
  sm_nulls :: int
  sm_unique :: int
  sm_duplicates :: int
  sm_profile :: "int list"

definition check_side_metrics :: "relation_side_metrics \<Rightarrow> relation_side_metrics result" where
  "check_side_metrics m =
     bindE (value_check (0 \<le> sm_rows m \<and> 0 \<le> sm_nulls m \<and> 0 \<le> sm_unique m \<and> 0 \<le> sm_duplicates m)) (\<lambda>_.
     bindE (value_check (list_all (\<lambda>n. 1 \<le> n) (sm_profile m))) (\<lambda>_.
     bindE (value_check (rev (sort (sm_profile m)) = sm_profile m)) (\<lambda>_.
     bindE (value_check (sm_unique m = int (length (sm_profile m)))) (\<lambda>_.
     bindE (value_check (sm_duplicates m = sum_list (sm_profile m) - int (length (sm_profile m)))) (\<lambda>_.
     bindE (value_check (sm_rows m = sm_nulls m + sum_list (sm_profile m))) (\<lambda>_. Inr m))))))"

record relation_evidence_counts =
  ec_arity :: int
  ec_parent :: relation_side_metrics
  ec_foreign :: relation_side_metrics
  ec_matched :: int
  ec_orphan :: int

definition check_evidence_counts :: "relation_evidence_counts \<Rightarrow> relation_evidence_counts result" where
  "check_evidence_counts c =
     bindE (value_check (1 \<le> ec_arity c)) (\<lambda>_.
     bindE (value_check (0 \<le> ec_matched c \<and> 0 \<le> ec_orphan c)) (\<lambda>_.
     bindE (value_check (ec_matched c + ec_orphan c = sm_rows (ec_foreign c) - sm_nulls (ec_foreign c))) (\<lambda>_. Inr c)))"

section \<open>The accumulator\<close>

text \<open>A dict from key tuples to counts, in insertion order, and the NULL rows of each side.\<close>

record 'k accumulator =
  ac_arity :: int
  ac_parent_counts :: "('k list \<times> int) list"
  ac_parent_nulls :: int
  ac_foreign_counts :: "('k list \<times> int) list"
  ac_foreign_nulls :: int

definition new_accumulator :: "int \<Rightarrow> 'k accumulator result" where
  "new_accumulator arity =
     bindE (value_check (1 \<le> arity)) (\<lambda>_.
       Inr \<lparr>ac_arity = arity, ac_parent_counts = [], ac_parent_nulls = 0, ac_foreign_counts = [], ac_foreign_nulls = 0\<rparr>)"

definition observe_key :: "int \<Rightarrow> ('k list \<times> int) list \<times> int \<Rightarrow> 'k list \<Rightarrow> bool \<Rightarrow> (('k list \<times> int) list \<times> int) result" where
  "observe_key arity side key null =
     (if null then bindE (value_check (key = [])) (\<lambda>_. Inr (fst side, snd side + 1))
      else bindE (value_check (int (length key) = arity)) (\<lambda>_. Inr (upsert (+) (key, 1) (fst side), snd side)))"

definition observe_parent :: "'k list \<Rightarrow> bool \<Rightarrow> 'k accumulator \<Rightarrow> 'k accumulator result" where
  "observe_parent key null a =
     bindE (observe_key (ac_arity a) (ac_parent_counts a, ac_parent_nulls a) key null) (\<lambda>(cs, n).
       Inr (a\<lparr>ac_parent_counts := cs, ac_parent_nulls := n\<rparr>))"

definition observe_foreign :: "'k list \<Rightarrow> bool \<Rightarrow> 'k accumulator \<Rightarrow> 'k accumulator result" where
  "observe_foreign key null a =
     bindE (observe_key (ac_arity a) (ac_foreign_counts a, ac_foreign_nulls a) key null) (\<lambda>(cs, n).
       Inr (a\<lparr>ac_foreign_counts := cs, ac_foreign_nulls := n\<rparr>))"

definition side_metrics :: "('k list \<times> int) list \<Rightarrow> int \<Rightarrow> relation_side_metrics result" where
  "side_metrics counts nulls =
     (let profile = rev (sort (map snd counts))
      in check_side_metrics \<lparr>sm_rows = nulls + sum_list profile, sm_nulls = nulls, sm_unique = int (length profile),
           sm_duplicates = sum_list profile - int (length profile), sm_profile = profile\<rparr>)"

definition build_counts :: "'k accumulator \<Rightarrow> relation_evidence_counts result" where
  "build_counts a =
     bindE (side_metrics (ac_parent_counts a) (ac_parent_nulls a)) (\<lambda>parent.
     bindE (side_metrics (ac_foreign_counts a) (ac_foreign_nulls a)) (\<lambda>foreign.
     let matched = sum_list (map snd (filter (\<lambda>(k, n). k \<in> fst ` set (ac_parent_counts a)) (ac_foreign_counts a)));
         orphan = sum_list (map snd (ac_foreign_counts a)) - matched
     in check_evidence_counts \<lparr>ec_arity = ac_arity a, ec_parent = parent, ec_foreign = foreign, ec_matched = matched, ec_orphan = orphan\<rparr>))"

section \<open>Evidence of one side pair\<close>

record relational_metrics =
  rt_key_unique :: int
  rt_key_nulls :: int
  rt_max_multiplicity :: int
  rt_matched :: int
  rt_orphan :: int
  rt_foreign_nulls :: int
  rt_primary_profile :: "int list"
  rt_foreign_profile :: "int list"

definition arities :: "'k list list \<Rightarrow> bool list \<Rightarrow> nat list" where
  "arities keys mk = remdups (map (length \<circ> fst) (filter (\<lambda>(k, flagged). \<not> flagged) (zip keys mk)))"

definition relation_metrics :: "'k list list \<Rightarrow> 'k list list \<Rightarrow> bool list option \<Rightarrow> bool list option \<Rightarrow> relational_metrics result" where
  "relation_metrics primary_keys foreign_keys primary_null_mask foreign_null_mask =
     (let pm = (case primary_null_mask of None \<Rightarrow> replicate (length primary_keys) False | Some m \<Rightarrow> m);
          fm = (case foreign_null_mask of None \<Rightarrow> replicate (length foreign_keys) False | Some m \<Rightarrow> m);
          pa = arities primary_keys pm; fa = arities foreign_keys fm
      in bindE (value_check (length pm = length primary_keys \<and> length fm = length foreign_keys)) (\<lambda>_.
         bindE (value_check (length pa \<le> 1)) (\<lambda>_.
         bindE (value_check (length fa \<le> 1)) (\<lambda>_.
         bindE (value_check (pa = [] \<or> fa = [] \<or> pa = fa)) (\<lambda>_.
         bindE (new_accumulator (case pa @ fa of [] \<Rightarrow> 1 | n # _ \<Rightarrow> int n)) (\<lambda>a0.
         bindE (foldE (\<lambda>(k, flagged). observe_parent (if flagged then [] else k) flagged) (zip primary_keys pm) a0) (\<lambda>a1.
         bindE (foldE (\<lambda>(k, flagged). observe_foreign (if flagged then [] else k) flagged) (zip foreign_keys fm) a1) (\<lambda>a2.
         bindE (build_counts a2) (\<lambda>c.
           Inr \<lparr>rt_key_unique = sm_unique (ec_parent c), rt_key_nulls = sm_nulls (ec_parent c),
                rt_max_multiplicity = (case sm_profile (ec_parent c) of [] \<Rightarrow> 0 | n # _ \<Rightarrow> n),
                rt_matched = ec_matched c, rt_orphan = ec_orphan c, rt_foreign_nulls = sm_nulls (ec_foreign c),
                rt_primary_profile = sm_profile (ec_parent c), rt_foreign_profile = sm_profile (ec_foreign c)\<rparr>)))))))))"

section \<open>Comparison and report\<close>

definition verification_failure :: "string \<Rightarrow> error" where
  "verification_failure detail = VerificationError VERIFICATION_FAILED detail"

definition RELATIONSHIP_INVARIANTS :: "string list" where
  "RELATIONSHIP_INVARIANTS = [''PARENT_UNIQUENESS_PRESERVED'', ''ORPHAN_COUNT_PRESERVED'', ''MATCHED_ROWS_PRESERVED'', ''NULL_COUNTS_PRESERVED'', ''FOREIGN_MULTIPLICITY_PRESERVED'']"

definition compare_relation_metrics :: "relation_evidence_counts \<Rightarrow> relation_evidence_counts \<Rightarrow> (string \<times> bool) list result" where
  "compare_relation_metrics before after =
     (if ec_arity before \<noteq> ec_arity after then Inl (verification_failure ''RELATIONSHIP_VERIFICATION_ARITY_MISMATCH'')
      else Inr (zip RELATIONSHIP_INVARIANTS
        [sm_profile (ec_parent before) = sm_profile (ec_parent after), ec_orphan before = ec_orphan after, ec_matched before = ec_matched after,
         (sm_nulls (ec_parent before), sm_nulls (ec_foreign before)) = (sm_nulls (ec_parent after), sm_nulls (ec_foreign after)),
         sm_profile (ec_foreign before) = sm_profile (ec_foreign after)]))"

datatype relation_status = RELATION_VERIFIED | RELATION_FAILED | RELATION_INCOMPLETE

record relation_verification_evidence =
  rv_relation_id :: string
  rv_arity :: int
  rv_status :: relation_status
  rv_before :: "relation_evidence_counts option"
  rv_after :: "relation_evidence_counts option"
  rv_invariants :: "(string \<times> bool) list"

text \<open>
  \<open>str.isprintable\<close> and not \<open>str.isspace\<close>, on the characters of an identifier (below 256).
\<close>

definition code_char :: "char \<Rightarrow> bool" where
  "code_char c \<longleftrightarrow> (let n = of_char c :: nat in 33 \<le> n \<and> n \<le> 126 \<or> 161 \<le> n \<and> n \<noteq> 173)"

definition validated_code :: "string \<Rightarrow> unit result" where
  "validated_code s = value_check (s \<noteq> [] \<and> length s \<le> 128 \<and> list_all (\<lambda>c. code_char c \<and> c \<noteq> CHR ''/'' \<and> c \<noteq> CHR 0x5C) s)"

definition check_relation_evidence :: "relation_verification_evidence \<Rightarrow> relation_verification_evidence result" where
  "check_relation_evidence e =
     bindE (validated_code (rv_relation_id e)) (\<lambda>_.
     bindE (value_check (1 \<le> rv_arity e)) (\<lambda>_.
     bindE (value_check (list_all (\<lambda>side. case side of None \<Rightarrow> True | Some c \<Rightarrow> ec_arity c = rv_arity e) [rv_before e, rv_after e])) (\<lambda>_.
     bindE (if rv_status e = RELATION_INCOMPLETE then
              bindE (value_check (rv_before e = None \<or> rv_after e = None)) (\<lambda>_. value_check (rv_invariants e = []))
            else
              bindE (value_check (rv_before e \<noteq> None \<and> rv_after e \<noteq> None)) (\<lambda>_.
              bindE (value_check (map fst (rv_invariants e) = RELATIONSHIP_INVARIANTS)) (\<lambda>_.
                value_check (rv_status e = (if list_all snd (rv_invariants e) then RELATION_VERIFIED else RELATION_FAILED))))) (\<lambda>_. Inr e))))"

record relationship_verification_report =
  vr_relationship_fp :: string
  vr_relations :: "relation_verification_evidence list"
  vr_complete :: bool
  vr_evidence_fp :: string

type_synonym report_digest = "string \<Rightarrow> relation_verification_evidence list \<Rightarrow> bool \<Rightarrow> string"

definition new_report :: "report_digest \<Rightarrow> string \<Rightarrow> relation_verification_evidence list \<Rightarrow> bool \<Rightarrow> relationship_verification_report result" where
  "new_report digest fp entries complete =
     bindE (validated_code fp) (\<lambda>_.
     bindE (value_check (distinct (map rv_relation_id entries))) (\<lambda>_.
     bindE (value_check (map rv_relation_id entries = sort (map rv_relation_id entries))) (\<lambda>_.
     bindE (value_check (complete = list_all (\<lambda>e. rv_status e \<noteq> RELATION_INCOMPLETE) entries)) (\<lambda>_.
       Inr \<lparr>vr_relationship_fp = fp, vr_relations = entries, vr_complete = complete, vr_evidence_fp = digest fp entries complete\<rparr>))))"

definition group_arity :: "relation_group \<Rightarrow> int" where
  "group_arity g = int (length (parent_members g))"

type_synonym evidence_side = "(string \<times> relation_evidence_counts) list"

definition check_known :: "relation_group list \<Rightarrow> evidence_side \<Rightarrow> unit result" where
  "check_known declared side =
     guardE (list_all (\<lambda>(relation_id, c). relation_id \<in> rg_relation_id ` set declared \<and> bounded_token relation_id) side)
       (verification_failure ''RELATIONSHIP_VERIFICATION_UNKNOWN_RELATION'')"

definition verify_relation :: "evidence_side \<Rightarrow> evidence_side \<Rightarrow> relation_group \<Rightarrow> relation_verification_evidence result" where
  "verify_relation before after g =
     (let relation_id = rg_relation_id g; arity = group_arity g
      in case (map_of before relation_id, map_of after relation_id) of
           (Some b, Some a) \<Rightarrow>
             if ec_arity b \<noteq> arity \<or> ec_arity a \<noteq> arity then Inl (verification_failure ''RELATIONSHIP_VERIFICATION_ARITY_MISMATCH'')
             else bindE (compare_relation_metrics b a) (\<lambda>invariants.
               check_relation_evidence \<lparr>rv_relation_id = relation_id, rv_arity = arity,
                 rv_status = (if list_all snd invariants then RELATION_VERIFIED else RELATION_FAILED),
                 rv_before = Some b, rv_after = Some a, rv_invariants = invariants\<rparr>)
         | (b, a) \<Rightarrow> check_relation_evidence \<lparr>rv_relation_id = relation_id, rv_arity = arity, rv_status = RELATION_INCOMPLETE,
                 rv_before = b, rv_after = a, rv_invariants = []\<rparr>)"

definition verify_relationships ::
    "(relationship_document \<Rightarrow> string) \<Rightarrow> report_digest \<Rightarrow> relationship_document \<Rightarrow> evidence_side \<Rightarrow> evidence_side \<Rightarrow> relationship_verification_report result" where
  "verify_relationships fingerprint digest doc before after =
     (let declared = sort_key rg_relation_id (effective_groups doc)
      in bindE (check_known declared before) (\<lambda>_.
         bindE (check_known declared after) (\<lambda>_.
         bindE (mapE (verify_relation before after) declared) (\<lambda>entries.
           new_report digest (fingerprint doc) entries (list_all (\<lambda>e. rv_status e \<noteq> RELATION_INCOMPLETE) entries)))))"

section \<open>Relationship metadata and the authority binding\<close>

record relationship_metadata =
  md_schema_version :: string
  md_provenance :: string
  md_fingerprint :: string
  md_relation_count :: int
  md_authoritative :: bool
  md_external_version :: "string option"
  md_producer :: "(string \<times> string) option"
  md_authority_summary :: "string option"

text \<open>
  A relationship fingerprint is a code that may contain forward slashes but is no absolute, drive or
  traversing path.
\<close>

definition validate_relationship_fingerprint :: "string \<Rightarrow> unit result" where
  "validate_relationship_fingerprint s =
     value_check (s \<noteq> [] \<and> length s \<le> 128 \<and> list_all (\<lambda>c. code_char c \<and> c \<noteq> CHR 0x5C) s \<and> hd s \<noteq> CHR ''/''
       \<and> ''..'' \<notin> set (split_on CHR ''/'' s) \<and> \<not> (2 \<le> length s \<and> s ! 1 = CHR '':''))"

record authority_binding =
  ab_fingerprint :: string
  ab_relation_count :: int
  ab_schema_version :: string

definition METADATA_VERSION :: string where "METADATA_VERSION = ''1.0''"
definition MIXED :: string where "MIXED = ''MIXED''"

definition single_or_mixed :: "string list \<Rightarrow> string" where
  "single_or_mixed xs = (case remdups xs of [x] \<Rightarrow> x | _ \<Rightarrow> MIXED)"

definition authority_summary :: "relationship_document \<Rightarrow> string option" where
  "authority_summary doc =
     (let authorities = remdups (List.map_filter rg_claim_authority (rd_groups doc) @ map ic_authority (rd_index_claims doc))
      in if rd_external_version doc = None \<or> authorities = [] then None
         else if length authorities = 1 then Some (hd authorities) else Some MIXED)"

definition check_metadata :: "relationship_metadata \<Rightarrow> relationship_metadata result" where
  "check_metadata m =
     bindE (validated_code (md_schema_version m)) (\<lambda>_.
     bindE (validated_code (md_provenance m)) (\<lambda>_.
     bindE (validate_relationship_fingerprint (md_fingerprint m)) (\<lambda>_.
     bindE (value_check (0 \<le> md_relation_count m \<and> md_relation_count m < 2 ^ 63)) (\<lambda>_.
     bindE (case md_external_version m of None \<Rightarrow> Inr () | Some s \<Rightarrow> validated_code s) (\<lambda>_.
     bindE (case md_producer m of None \<Rightarrow> Inr () | Some (i, version) \<Rightarrow> bindE (validated_code i) (\<lambda>_. validated_code version)) (\<lambda>_.
     bindE (case md_authority_summary m of None \<Rightarrow> Inr () | Some s \<Rightarrow> validated_code s) (\<lambda>_. Inr m)))))))"

definition relationship_metadata_from_document :: "(relationship_document \<Rightarrow> string) \<Rightarrow> relationship_document \<Rightarrow> relationship_metadata result" where
  "relationship_metadata_from_document fingerprint doc =
     (let effective = effective_groups doc;
          provenance_groups = (if effective \<noteq> [] then effective else rd_groups doc);
          provenances = (if provenance_groups = [] then map ic_provenance (rd_index_claims doc) else map rg_provenance provenance_groups)
      in check_metadata \<lparr>md_schema_version = METADATA_VERSION, md_provenance = single_or_mixed provenances, md_fingerprint = fingerprint doc,
           md_relation_count = int (length effective), md_authoritative = False, md_external_version = rd_external_version doc,
           md_producer = rd_producer doc, md_authority_summary = authority_summary doc\<rparr>)"

definition authoritative_vfp_metadata_from_document ::
    "(relationship_document \<Rightarrow> string) \<Rightarrow> relationship_document \<Rightarrow> (relationship_metadata \<times> authority_binding) result" where
  "authoritative_vfp_metadata_from_document fingerprint doc =
     (let effective = effective_groups doc
      in bindE (guardE (effective \<noteq> []) (relationship_invalid ''RELATIONSHIP_AUTHORITATIVE_EMPTY'')) (\<lambda>_.
         bindE (guardE (list_all (external_provenance_class_allowed \<circ> rg_provenance) effective)
                  (relationship_invalid ''RELATIONSHIP_AUTHORITATIVE_PROVENANCE_INVALID'')) (\<lambda>_.
         bindE (check_metadata \<lparr>md_schema_version = METADATA_VERSION, md_provenance = single_or_mixed (map rg_provenance effective),
                  md_fingerprint = fingerprint doc, md_relation_count = int (length effective), md_authoritative = True,
                  md_external_version = rd_external_version doc, md_producer = rd_producer doc, md_authority_summary = authority_summary doc\<rparr>) (\<lambda>m.
           Inr (m, \<lparr>ab_fingerprint = fingerprint doc, ab_relation_count = int (length effective), ab_schema_version = METADATA_VERSION\<rparr>)))))"

section \<open>The assurance level\<close>

datatype assurance_level = GLOBAL_EXACT_VALUE | DECLARED_RELATIONS_VERIFIED | VFP_METADATA_VERIFIED | INCOMPLETE

record relational_assurance =
  ra_level :: assurance_level
  ra_declared :: int
  ra_verified :: int
  ra_failed :: int
  ra_incomplete :: int
  ra_evidence_fp :: "string option"
  ra_relationship_fp :: "string option"

definition check_assurance :: "relational_assurance \<Rightarrow> relational_assurance result" where
  "check_assurance a =
     bindE (value_check (list_all (\<lambda>n. 0 \<le> n \<and> n < 2 ^ 63) [ra_declared a, ra_verified a, ra_failed a, ra_incomplete a])) (\<lambda>_.
     bindE (value_check (ra_verified a + ra_failed a + ra_incomplete a \<le> ra_declared a)) (\<lambda>_.
     bindE (case ra_evidence_fp a of None \<Rightarrow> Inr () | Some s \<Rightarrow> validated_code s) (\<lambda>_.
     bindE (case ra_relationship_fp a of None \<Rightarrow> Inr () | Some s \<Rightarrow> validated_code s) (\<lambda>_. Inr a))))"

definition assurance_from_counts :: "relationship_metadata \<Rightarrow> int \<Rightarrow> int \<Rightarrow> string option \<Rightarrow> bool \<Rightarrow> relational_assurance result" where
  "assurance_from_counts m verified failed evidence_fp authoritative_verified =
     (let n = md_relation_count m;
          level = (if n = 0 then GLOBAL_EXACT_VALUE
                   else if verified = n \<and> failed = 0 then (if authoritative_verified then VFP_METADATA_VERIFIED else DECLARED_RELATIONS_VERIFIED)
                   else INCOMPLETE)
      in check_assurance \<lparr>ra_level = level, ra_declared = n, ra_verified = verified, ra_failed = failed, ra_incomplete = n - verified - failed,
           ra_evidence_fp = evidence_fp, ra_relationship_fp = Some (md_fingerprint m)\<rparr>)"

type_synonym evidence_digest = "string \<Rightarrow> relation_pass_summary list \<Rightarrow> string"

definition bounded_evidence_fingerprint :: "evidence_digest \<Rightarrow> relation_pass_summary list \<Rightarrow> string \<Rightarrow> string option result" where
  "bounded_evidence_fingerprint digest evidence relationship_fp =
     (if evidence = [] then Inr None
      else let ordered = sort_key rs_relation_id evidence
           in if distinct (map rs_relation_id ordered) then Inr (Some (digest relationship_fp ordered))
              else Inl (verification_failure ''RELATIONSHIP_EVIDENCE_RELATION_COUNT_MISMATCH''))"

definition binding_mismatch :: error where
  "binding_mismatch = verification_failure ''RELATIONSHIP_AUTHORITY_BINDING_MISMATCH''"

definition validated_authority_binding :: "relationship_metadata \<Rightarrow> relationship_verification_report option \<Rightarrow> authority_binding option \<Rightarrow> bool result" where
  "validated_authority_binding m report binding =
     (case binding of
        None \<Rightarrow> Inr False
      | Some b \<Rightarrow>
          if ab_schema_version b \<noteq> METADATA_VERSION \<or> md_schema_version m \<noteq> ab_schema_version b \<or> \<not> md_authoritative m
             \<or> (md_provenance m \<notin> {''MCP_VFP9SP2_TOOLCHAIN'', ''EXTERNAL_VFP_METADATA''} \<and> md_provenance m \<noteq> MIXED)
             \<or> ab_fingerprint b \<noteq> md_fingerprint m \<or> ab_relation_count b \<noteq> md_relation_count m
             \<or> (case report of None \<Rightarrow> False | Some r \<Rightarrow> ab_fingerprint b \<noteq> vr_relationship_fp r)
          then Inl binding_mismatch
          else Inr True)"

definition derive_from_bounded_evidence ::
    "evidence_digest \<Rightarrow> relationship_metadata \<Rightarrow> relation_pass_summary list \<Rightarrow> authority_binding option \<Rightarrow> relational_assurance result" where
  "derive_from_bounded_evidence digest m evidence binding =
     bindE (guardE (int (length evidence) = md_relation_count m) (verification_failure ''RELATIONSHIP_EVIDENCE_RELATION_COUNT_MISMATCH'')) (\<lambda>_.
     bindE (bounded_evidence_fingerprint digest evidence (md_fingerprint m)) (\<lambda>fp.
     let verified = int (length (filter rs_verified (sort_key rs_relation_id evidence)))
     in bindE (validated_authority_binding m None binding) (\<lambda>authoritative.
          assurance_from_counts m verified (int (length evidence) - verified) fp authoritative)))"

definition derive_relational_assurance ::
    "relationship_metadata \<Rightarrow> relationship_verification_report option \<Rightarrow> authority_binding option \<Rightarrow> relational_assurance result" where
  "derive_relational_assurance m report binding =
     bindE (validated_authority_binding m report binding) (\<lambda>bound.
     case report of
       None \<Rightarrow> assurance_from_counts m 0 0 None False
     | Some r \<Rightarrow>
         if vr_relations r = [] then
           if md_relation_count m \<noteq> 0 then Inl (verification_failure ''RELATIONSHIP_EVIDENCE_RELATION_COUNT_MISMATCH'')
           else assurance_from_counts m 0 0 None False
         else
           let n = md_relation_count m;
               verified = int (length (filter (\<lambda>e. rv_status e = RELATION_VERIFIED) (vr_relations r)));
               failed = int (length (filter (\<lambda>e. rv_status e = RELATION_FAILED) (vr_relations r)))
           in bindE (guardE (vr_relationship_fp r = md_fingerprint m) (verification_failure ''RELATIONSHIP_EVIDENCE_FINGERPRINT_MISMATCH'')) (\<lambda>_.
              bindE (guardE (int (length (vr_relations r)) = n) (verification_failure ''RELATIONSHIP_EVIDENCE_RELATION_COUNT_MISMATCH'')) (\<lambda>_.
              bindE (guardE (verified + failed \<le> n) (verification_failure ''RELATIONSHIP_EVIDENCE_RELATION_COUNT_MISMATCH'')) (\<lambda>_.
              let authoritative = verified = n \<and> 0 < n \<and> md_authoritative m
                    \<and> md_provenance m \<in> {''MCP_VFP9SP2_TOOLCHAIN'', ''EXTERNAL_VFP_METADATA'', MIXED} \<and> bound
              in assurance_from_counts m verified failed (Some (vr_evidence_fp r)) authoritative))))"

section \<open>The cross-check of the verifier\<close>

definition binding_matches :: "relational_assurance \<Rightarrow> authority_binding option \<Rightarrow> bool" where
  "binding_matches a binding =
     (case binding of
        None \<Rightarrow> False
      | Some b \<Rightarrow> Some (ab_fingerprint b) = ra_relationship_fp a \<and> ab_relation_count b = ra_declared a \<and> ab_schema_version b = METADATA_VERSION)"

definition verify_assurance ::
    "evidence_digest \<Rightarrow> relational_assurance \<Rightarrow> relation_pass_summary list \<Rightarrow> authority_binding option \<Rightarrow> findings \<Rightarrow> findings result" where
  "verify_assurance digest a receipt binding f =
     (let verified = int (length (filter rs_verified receipt)); failed = int (length receipt) - verified;
          mismatch = fail_finding ''ASSURANCE_EVIDENCE_MISMATCH'' f
      in bindE (bounded_evidence_fingerprint digest receipt (case ra_relationship_fp a of None \<Rightarrow> [] | Some s \<Rightarrow> s)) (\<lambda>expected_fp.
         Inr (if verified \<noteq> ra_verified a \<or> failed \<noteq> ra_failed a \<or> verified + failed \<noteq> ra_declared a \<or> expected_fp \<noteq> ra_evidence_fp a
              then mismatch
              else if ra_declared a = 0 then (if ra_level a = GLOBAL_EXACT_VALUE then f else mismatch)
              else if verified = ra_declared a \<and> failed = 0 then
                (if ra_level a = DECLARED_RELATIONS_VERIFIED \<or> (ra_level a = VFP_METADATA_VERIFIED \<and> binding_matches a binding) then f else mismatch)
              else if ra_level a = INCOMPLETE then f else mismatch)))"

section \<open>What the accumulator counts\<close>

text \<open>The rows of a side: the key tuple, or \<open>None\<close> for a tuple with a NULL component.\<close>

type_synonym 'k side_history = "'k list option list"

definition row_key :: "'k list option \<Rightarrow> 'k list" where
  "row_key r = (case r of None \<Rightarrow> [] | Some k \<Rightarrow> k)"

definition collect :: "int \<Rightarrow> 'k side_history \<Rightarrow> 'k side_history \<Rightarrow> relation_evidence_counts result" where
  "collect arity ps fs =
     bindE (new_accumulator arity) (\<lambda>a0.
     bindE (foldE (\<lambda>r. observe_parent (row_key r) (r = None)) ps a0) (\<lambda>a1.
     bindE (foldE (\<lambda>r. observe_foreign (row_key r) (r = None)) fs a1) build_counts))"

fun keys_in :: "'k side_history \<Rightarrow> 'k list list" where
  "keys_in [] = []"
| "keys_in (None # rs) = keys_in rs"
| "keys_in (Some k # rs) = k # keys_in rs"

definition profile_of :: "'a list \<Rightarrow> int multiset" where
  "profile_of ks = image_mset (\<lambda>k. int (count_list ks k)) (mset_set (set ks))"

definition matched_of :: "'a list \<Rightarrow> 'a list \<Rightarrow> int" where
  "matched_of ps fs = (\<Sum>k\<in>set fs \<inter> set ps. int (count_list fs k))"

definition tally :: "'a list \<Rightarrow> ('a \<times> int) list" where
  "tally ks = execute_upserts (+) (map (\<lambda>k. (k, 1)) ks) []"

lemma set_keys_in: "k \<in> set (keys_in rs) \<longleftrightarrow> Some k \<in> set rs"
  by (induction rs rule: keys_in.induct) auto

lemma length_history: "length rs = length (keys_in rs) + count_list rs None"
  by (induction rs rule: keys_in.induct) auto

lemma aggregate_tally: "aggregate_of (+) k (map (\<lambda>k. (k, 1)) ks) = (if k \<in> set ks then Some (int (count_list ks k)) else None)"
  by (induction ks) (auto simp: count_list_0_iff)

lemma tally_facts:
  "distinct (map fst (tally ks))" "set (tally ks) = (\<lambda>k. (k, int (count_list ks k))) ` set ks"
  "fst ` set (tally ks) = set ks" "mset (map snd (tally ks)) = profile_of ks"
proof -
  show d: "distinct (map fst (tally ks))" by (simp add: tally_def distinct_upserts)
  have m: "map_of (tally ks) k = (if k \<in> set ks then Some (int (count_list ks k)) else None)" for k
    unfolding tally_def counts.upserts_lookup by (simp add: aggregate_tally)
  have "(k, n) \<in> set (tally ks) \<longleftrightarrow> k \<in> set ks \<and> n = int (count_list ks k)" for k n
    using map_of_eq_Some_iff [OF d, of k n] m [of k] by (auto split: if_splits)
  then show s: "set (tally ks) = (\<lambda>k. (k, int (count_list ks k))) ` set ks" by auto
  then show "fst ` set (tally ks) = set ks" by (simp add: image_image)
  have "distinct (tally ks)" using d by (simp add: distinct_map)
  then have "mset (tally ks) = mset_set (set (tally ks))" by (rule mset_set_set [symmetric])
  also have "\<dots> = image_mset (\<lambda>k. (k, int (count_list ks k))) (mset_set (set ks))"
    unfolding s by (rule image_mset_mset_set [symmetric]) (simp add: inj_on_def)
  finally show "mset (map snd (tally ks)) = profile_of ks" by (simp add: profile_of_def image_mset.compositionality comp_def)
qed

lemma tally_sum: "sum_list (map snd (filter (\<lambda>(k, n). k \<in> A) (tally ks))) = (\<Sum>k\<in>set ks \<inter> A. int (count_list ks k))"
proof -
  have d: "distinct (filter (\<lambda>(k, n). k \<in> A) (tally ks))" using tally_facts(1) [of ks] by (simp add: distinct_map)
  have "set (filter (\<lambda>(k, n). k \<in> A) (tally ks)) = (\<lambda>k. (k, int (count_list ks k))) ` (set ks \<inter> A)" using tally_facts(2) [of ks] by auto
  then show ?thesis unfolding sum_list_distinct_conv_sum_set [OF d] by (simp add: sum.reindex inj_on_def)
qed

lemma sum_counts: "(\<Sum>k\<in>set ks. int (count_list ks k)) = int (length ks)"
  using sum_count_set [of ks "set ks"] by (simp flip: of_nat_sum)

lemma tally_total: "sum_list (map snd (tally ks)) = int (length ks)"
  using tally_sum [of UNIV ks] sum_counts [of ks] by simp

lemma tally_positive: "\<forall>n\<in>set (map snd (tally ks)). 1 \<le> n"
  using tally_facts(2) [of ks] by (auto simp: count_list_0_iff Suc_le_eq neq0_conv [symmetric])

lemma observe_history:
  assumes "\<forall>k. Some k \<in> set rs \<longrightarrow> int (length k) = ac_arity a"
  shows "foldE (\<lambda>r. observe_parent (row_key r) (r = None)) rs a =
      Inr (a\<lparr>ac_parent_counts := execute_upserts (+) (map (\<lambda>k. (k, 1)) (keys_in rs)) (ac_parent_counts a),
            ac_parent_nulls := ac_parent_nulls a + int (count_list rs None)\<rparr>)"
    and "foldE (\<lambda>r. observe_foreign (row_key r) (r = None)) rs a =
      Inr (a\<lparr>ac_foreign_counts := execute_upserts (+) (map (\<lambda>k. (k, 1)) (keys_in rs)) (ac_foreign_counts a),
            ac_foreign_nulls := ac_foreign_nulls a + int (count_list rs None)\<rparr>)"
  using assms
  by (induction rs arbitrary: a rule: keys_in.induct)
    (auto simp: observe_parent_def observe_foreign_def observe_key_def value_check_def guardE_def row_key_def execute_upserts_def)

lemma side_metrics_tally:
  "0 \<le> nulls \<Longrightarrow> side_metrics (tally ks) nulls =
     Inr \<lparr>sm_rows = nulls + int (length ks), sm_nulls = nulls, sm_unique = int (card (set ks)),
          sm_duplicates = int (length ks) - int (card (set ks)), sm_profile = rev (sorted_list_of_multiset (profile_of ks))\<rparr>"
proof -
  assume n: "0 \<le> nulls"
  have sort: "sort (map snd (tally ks)) = sorted_list_of_multiset (profile_of ks)"
    unfolding tally_facts(4) [symmetric] by (simp only: sorted_list_of_multiset_mset)
  have len: "length (tally ks) = card (set ks)"
    using distinct_card [OF tally_facts(1) [of ks]] tally_facts(3) [of ks] by simp
  have sum: "sum_list (sort (map snd (tally ks))) = int (length ks)"
    using tally_total [of ks] by (metis mset_sort sum_mset_sum_list)
  have idem: "rev (sort (rev (sort xs))) = rev (sort xs)" for xs :: "int list"
    by (metis mset_rev mset_sort properties_for_sort sorted_sort)
  have "card (set ks) \<le> length ks" by (rule card_length)
  then show ?thesis
    using n tally_positive [of ks] unfolding side_metrics_def check_side_metrics_def Let_def
    by (simp add: value_check_def guardE_def sum idem len list_all_iff flip: sort)
qed

lemma matched_bounds: "0 \<le> matched_of ps fs \<and> matched_of ps fs \<le> int (length fs)"
proof -
  have "matched_of ps fs \<le> (\<Sum>k\<in>set fs. int (count_list fs k))" unfolding matched_of_def by (rule sum_mono2) auto
  then show ?thesis using sum_counts [of fs] by (simp add: matched_of_def sum_nonneg)
qed

text \<open>The accumulator never refuses rows of the declared arity, and its counts are the join counts of the two sides.\<close>

lemma collect_counts:
  assumes "1 \<le> arity" and "\<forall>k. Some k \<in> set ps \<union> set fs \<longrightarrow> int (length k) = arity"
  obtains c where "collect arity ps fs = Inr c" and "ec_arity c = arity"
    and "sm_profile (ec_parent c) = rev (sorted_list_of_multiset (profile_of (keys_in ps)))"
    and "sm_profile (ec_foreign c) = rev (sorted_list_of_multiset (profile_of (keys_in fs)))"
    and "sm_nulls (ec_parent c) = int (count_list ps None)" and "sm_nulls (ec_foreign c) = int (count_list fs None)"
    and "ec_matched c = matched_of (keys_in ps) (keys_in fs)" and "ec_orphan c = int (length (keys_in fs)) - matched_of (keys_in ps) (keys_in fs)"
proof -
  define a where "a = \<lparr>ac_arity = arity, ac_parent_counts = tally (keys_in ps), ac_parent_nulls = int (count_list ps None),
      ac_foreign_counts = tally (keys_in fs), ac_foreign_nulls = int (count_list fs None)\<rparr>"
  have "collect arity ps fs = build_counts a"
    using assms by (simp add: collect_def new_accumulator_def value_check_def guardE_def observe_history a_def tally_def)
  moreover have "sum_list (map snd (filter (\<lambda>(k, n). k \<in> fst ` set (tally (keys_in ps))) (tally (keys_in fs)))) = matched_of (keys_in ps) (keys_in fs)"
    by (simp only: tally_sum tally_facts(3) matched_of_def)
  ultimately have "collect arity ps fs = Inr \<lparr>ec_arity = arity,
      ec_parent = projr (side_metrics (tally (keys_in ps)) (int (count_list ps None))), ec_foreign = projr (side_metrics (tally (keys_in fs)) (int (count_list fs None))),
      ec_matched = matched_of (keys_in ps) (keys_in fs), ec_orphan = int (length (keys_in fs)) - matched_of (keys_in ps) (keys_in fs)\<rparr>"
    using assms(1) matched_bounds [of "keys_in ps" "keys_in fs"]
    by (simp add: build_counts_def a_def side_metrics_tally check_evidence_counts_def value_check_def guardE_def Let_def tally_total)
  then show thesis using that by (simp add: side_metrics_tally)
qed

section \<open>Agreement with the bounded evidence of the engine\<close>

definition row_events :: "string \<Rightarrow> string \<Rightarrow> string \<Rightarrow> pyval list option \<Rightarrow> evidence_event list" where
  "row_events side rel role r =
     (case r of
        None \<Rightarrow> [SideEvent side rel role 1 1]
      | Some k \<Rightarrow> [SideEvent side rel role 1 0, KeyEvent side rel role (projr (canonical_composite_identity k))])"

definition pair_events :: "string \<Rightarrow> string \<Rightarrow> pyval side_history \<Rightarrow> pyval side_history \<Rightarrow> evidence_event list" where
  "pair_events side rel ps fs = concat (map (row_events side rel ''parent'') ps) @ concat (map (row_events side rel ''foreign'') fs)"

text \<open>These are the events both passes record for a row.\<close>

lemma side_events_rows:
  assumes "relation_components names vals = Inr (cs, null)" and "\<not> null \<longrightarrow> canonical_composite_identity cs = Inr c"
  shows "side_events rel side role names vals = Inr (row_events side (rel_id rel) role (if null then None else Some cs))"
  using assms by (cases null) (simp_all add: side_events_def row_events_def)

lemma keys_of_rows:
  "keys_of (side, rel, role) (concat (map (row_events side' rel role') rs)) =
     (if side = side' \<and> role = role' then map (\<lambda>k. projr (canonical_composite_identity k)) (keys_in rs) else [])"
proof (induction rs)
  case (Cons r rs)
  then show ?case by (cases r) (auto simp: row_events_def keys_append)
qed simp

lemma facts_of_rows:
  "aggregate_of merge_facts (side, rel, role) (fact_rows (concat (map (row_events side' rel role') rs))) =
     (if side = side' \<and> role = role' \<and> rs \<noteq> [] then Some (int (length rs), int (count_list rs None)) else None)"
proof (induction rs)
  case (Cons r rs)
  then show ?case by (cases r) (auto simp: row_events_def rows_append facts.aggregate_append merge_facts_def)
qed simp

lemma profile_renamed:
  assumes "inj_on f (set ks)"
  shows "profile_of (map f ks) = profile_of ks"
proof -
  have "image_mset (\<lambda>c. int (count_list (map f ks) c)) (mset_set (f ` set ks)) = image_mset (\<lambda>k. int (count_list (map f ks) (f k))) (mset_set (set ks))"
    by (simp add: image_mset_mset_set [OF assms, symmetric] image_mset.compositionality comp_def)
  also have "\<dots> = image_mset (\<lambda>k. int (count_list ks k)) (mset_set (set ks))"
    using assms by (intro image_mset_cong) (simp add: count_map_inj insert_absorb)
  finally show ?thesis by (simp add: profile_of_def)
qed

lemma matched_renamed:
  assumes "inj_on f (set ps \<union> set fs)"
  shows "matched_of (map f ps) (map f fs) = matched_of ps fs"
proof -
  have "f ` set fs \<inter> f ` set ps = f ` (set fs \<inter> set ps)" using inj_on_image_Int [OF assms] by auto
  then have "matched_of (map f ps) (map f fs) = (\<Sum>k\<in>set fs \<inter> set ps. int (count_list (map f fs) (f k)))"
    using assms unfolding matched_of_def by (simp add: sum.reindex inj_on_Un)  (subst sum.reindex, auto intro: inj_on_subset)
  also have "\<dots> = matched_of ps fs"
    unfolding matched_of_def using assms by (intro sum.cong refl) (auto simp: count_map_inj insert_absorb inj_on_Un)
  finally show ?thesis .
qed

abbreviation identity_of :: "pyval list \<Rightarrow> bytes" where
  "identity_of k \<equiv> projr (canonical_composite_identity k)"

definition history_ok :: "int \<Rightarrow> pyval side_history \<Rightarrow> bool" where
  "history_ok arity rs \<longleftrightarrow> (\<forall>k. Some k \<in> set rs \<longrightarrow> int (length k) = arity \<and> (\<exists>c. canonical_composite_identity k = Inr c))"

lemma inj_identity:
  assumes "history_ok arity ps" and "history_ok arity fs"
  shows "inj_on identity_of (set (keys_in ps) \<union> set (keys_in fs))"
proof (rule inj_onI)
  fix x y assume xy: "x \<in> set (keys_in ps) \<union> set (keys_in fs)" "y \<in> set (keys_in ps) \<union> set (keys_in fs)" "identity_of x = identity_of y"
  have id: "\<exists>c. canonical_composite_identity k = Inr c" if "k \<in> set (keys_in ps) \<union> set (keys_in fs)" for k
    using assms that by (auto simp: history_ok_def set_keys_in)
  obtain c d where "canonical_composite_identity x = Inr c" "canonical_composite_identity y = Inr d" using id xy(1,2) by blast
  then show "x = y" using xy(3) composite_identity_cancel by auto
qed

lemma spool_side:
  assumes ev: "evidence_of s (pair_events ''before'' rid pb fb @ pair_events ''after'' rid pa fa)"
    and side: "(side, ps, fs) \<in> {(''before'', pb, fb), (''after'', pa, fa)}" and ok: "history_ok arity ps" "history_ok arity fs"
  shows "mset (map snd (side_rows (side, rid, ''parent'') s)) = profile_of (keys_in ps)"
    and "mset (map snd (side_rows (side, rid, ''foreign'') s)) = profile_of (keys_in fs)"
    and "relation_matched_count side rid ''parent'' ''foreign'' s = matched_of (keys_in ps) (keys_in fs)"
    and "relation_side_facts side rid ''parent'' s = (int (length ps), int (count_list ps None))"
    and "relation_side_facts side rid ''foreign'' s = (int (length fs), int (count_list fs None))"
proof -
  let ?es = "pair_events ''before'' rid pb fb @ pair_events ''after'' rid pa fa"
  have inj: "inj_on identity_of (set (keys_in ps) \<union> set (keys_in fs))" by (rule inj_identity [OF ok])
  have k: "keys_of (side, rid, ''parent'') ?es = map identity_of (keys_in ps)" "keys_of (side, rid, ''foreign'') ?es = map identity_of (keys_in fs)"
    using side by (auto simp: pair_events_def keys_append keys_of_rows)
  show "mset (map snd (side_rows (side, rid, ''parent'') s)) = profile_of (keys_in ps)"
    unfolding profile_of_events [OF ev] k(1) profile_of_def [symmetric] by (rule profile_renamed) (rule inj_on_subset [OF inj], simp)
  show "mset (map snd (side_rows (side, rid, ''foreign'') s)) = profile_of (keys_in fs)"
    unfolding profile_of_events [OF ev] k(2) profile_of_def [symmetric] by (rule profile_renamed) (rule inj_on_subset [OF inj], simp)
  show "relation_matched_count side rid ''parent'' ''foreign'' s = matched_of (keys_in ps) (keys_in fs)"
    unfolding matched_of_events [OF ev] k matched_of_def [symmetric] by (rule matched_renamed [OF inj])
  show "relation_side_facts side rid ''parent'' s = (int (length ps), int (count_list ps None))"
    "relation_side_facts side rid ''foreign'' s = (int (length fs), int (count_list fs None))"
    using side by (auto simp: facts_of_events [OF ev] pair_events_def rows_append facts.aggregate_append facts_of_rows)
qed

text \<open>
  C22. The in-memory relation verification and the bounded one of the engine agree: for the same key
  rows, the accumulators never refuse, and all five named invariants are preserved exactly when the
  comparison over the run spool marks the relation as verified.
\<close>

theorem accumulator_agrees_with_spool:
  assumes "evidence_of s (pair_events ''before'' (rel_id rel) pb fb @ pair_events ''after'' (rel_id rel) pa fa)"
    and "\<forall>rs\<in>{pb, fb, pa, fa}. history_ok arity rs" and "1 \<le> arity"
  shows "\<exists>before after results. collect arity pb fb = Inr before \<and> collect arity pa fa = Inr after
    \<and> compare_relation_metrics before after = Inr results \<and> map fst results = RELATIONSHIP_INVARIANTS
    \<and> (list_all snd results \<longleftrightarrow> rs_verified (compare_relation s rel))"
proof -
  have ok: "history_ok arity pb" "history_ok arity fb" "history_ok arity pa" "history_ok arity fa" using assms(2) by auto
  obtain b where b: "collect arity pb fb = Inr b" "ec_arity b = arity" "sm_profile (ec_parent b) = rev (sorted_list_of_multiset (profile_of (keys_in pb)))"
    "sm_profile (ec_foreign b) = rev (sorted_list_of_multiset (profile_of (keys_in fb)))" "sm_nulls (ec_parent b) = int (count_list pb None)"
    "sm_nulls (ec_foreign b) = int (count_list fb None)" "ec_matched b = matched_of (keys_in pb) (keys_in fb)"
    "ec_orphan b = int (length (keys_in fb)) - matched_of (keys_in pb) (keys_in fb)"
    by (rule collect_counts [OF assms(3), of pb fb]) (use ok in \<open>auto simp: history_ok_def\<close>)
  obtain a where a: "collect arity pa fa = Inr a" "ec_arity a = arity" "sm_profile (ec_parent a) = rev (sorted_list_of_multiset (profile_of (keys_in pa)))"
    "sm_profile (ec_foreign a) = rev (sorted_list_of_multiset (profile_of (keys_in fa)))" "sm_nulls (ec_parent a) = int (count_list pa None)"
    "sm_nulls (ec_foreign a) = int (count_list fa None)" "ec_matched a = matched_of (keys_in pa) (keys_in fa)"
    "ec_orphan a = int (length (keys_in fa)) - matched_of (keys_in pa) (keys_in fa)"
    by (rule collect_counts [OF assms(3), of pa fa]) (use ok in \<open>auto simp: history_ok_def\<close>)
  note sb = spool_side [OF assms(1), of "''before''" pb fb, OF _ ok(1,2), simplified]
  note sa = spool_side [OF assms(1), of "''after''" pa fa, OF _ ok(3,4), simplified]
  have sorted: "sorted_list_of_multiset M = sorted_list_of_multiset N \<longleftrightarrow> M = N" for M N :: "int multiset" by (metis mset_sorted_list_of_multiset)
  obtain results where r: "compare_relation_metrics b a = Inr results" using b(2) a(2) by (simp add: compare_relation_metrics_def)
  then have "map fst results = RELATIONSHIP_INVARIANTS" "list_all snd results \<longleftrightarrow>
      profile_of (keys_in pb) = profile_of (keys_in pa) \<and> ec_orphan b = ec_orphan a \<and> ec_matched b = ec_matched a
      \<and> count_list pb None = count_list pa None \<and> count_list fb None = count_list fa None \<and> profile_of (keys_in fb) = profile_of (keys_in fa)"
    using b(2) a(2) by (auto simp: compare_relation_metrics_def RELATIONSHIP_INVARIANTS_def b(3-6) a(3-6) sorted)
  moreover have "rs_verified (compare_relation s rel) \<longleftrightarrow>
      profile_of (keys_in pb) = profile_of (keys_in pa) \<and> ec_orphan b = ec_orphan a \<and> ec_matched b = ec_matched a
      \<and> count_list pb None = count_list pa None \<and> count_list fb None = count_list fa None \<and> profile_of (keys_in fb) = profile_of (keys_in fa)"
    using length_history [of fb] length_history [of fa]
    by (auto simp: compare_relation_def Let_def profile_multisets sb sa b(7,8) a(7,8))
  ultimately show ?thesis using a(1) b(1) r by blast
qed

definition sample_relation :: relation_directive where
  "sample_relation = \<lparr>rel_id = ''R'', rel_arity = 1, rel_parent_table = ''P.dbf'', rel_foreign_table = ''C.dbf'', rel_parent_fields = [''ID''],
     rel_foreign_fields = [''ID''], rel_numeric_domain_id = None, rel_numeric_domain = None\<rparr>"

definition sample_events :: "evidence_event list" where
  "sample_events = pair_events ''before'' ''R'' [Some [VInt 1]] [Some [VInt 1], None] @ pair_events ''after'' ''R'' [Some [VInt 7]] [Some [VInt 7], None]"

theorem accumulator_agrees_with_spool_witness:
  "\<exists>before after results. collect 1 [Some [VInt 1]] [Some [VInt 1], None] = Inr before \<and> collect 1 [Some [VInt 7]] [Some [VInt 7], None] = Inr after
    \<and> compare_relation_metrics before after = Inr results \<and> map fst results = RELATIONSHIP_INVARIANTS
    \<and> (list_all snd results \<longleftrightarrow> rs_verified (compare_relation (flush (fold spool_event sample_events new_spool)) sample_relation))"
proof -
  have ev: "evidence_of (flush (fold spool_event sample_events new_spool)) sample_events"
    using run_evidence [OF recorded_events, of "[]" sample_events] by simp
  have id: "\<exists>c. canonical_composite_identity [VInt i] = Inr c" if "i = 1 \<or> i = 7" for i
  proof -
    have "\<not> isl (canonical_composite_identity [VInt 1])" "\<not> isl (canonical_composite_identity [VInt 7])" by code_simp+
    then show ?thesis using that by (auto elim: not_islE)
  qed
  have r: "rel_id sample_relation = ''R''" by (simp add: sample_relation_def)
  show ?thesis
    by (rule accumulator_agrees_with_spool [of _ sample_relation "[Some [VInt 1]]" "[Some [VInt 1], None]" "[Some [VInt 7]]" "[Some [VInt 7], None]", unfolded r])
      (use ev id in \<open>auto simp: sample_events_def history_ok_def\<close>)
qed

section \<open>The report\<close>

text \<open>What one entry of a report says about its relation.\<close>

definition entry_for :: "evidence_side \<Rightarrow> evidence_side \<Rightarrow> relation_group \<Rightarrow> relation_verification_evidence \<Rightarrow> bool" where
  "entry_for before after g e \<longleftrightarrow> rv_relation_id e = rg_relation_id g \<and> rv_before e = map_of before (rg_relation_id g) \<and> rv_after e = map_of after (rg_relation_id g)
     \<and> (case (map_of before (rg_relation_id g), map_of after (rg_relation_id g)) of
          (Some b, Some a) \<Rightarrow> rv_status e = (case compare_relation_metrics b a of
             Inl err \<Rightarrow> RELATION_INCOMPLETE
           | Inr results \<Rightarrow> if list_all snd results then RELATION_VERIFIED else RELATION_FAILED)
        | _ \<Rightarrow> rv_status e = RELATION_INCOMPLETE)"

definition side_fits :: "relation_group list \<Rightarrow> evidence_side \<Rightarrow> bool" where
  "side_fits gs side \<longleftrightarrow> (\<forall>(relation_id, c)\<in>set side. bounded_token relation_id \<and> (\<exists>g\<in>set gs. rg_relation_id g = relation_id))
     \<and> (\<forall>g\<in>set gs. \<forall>c. map_of side (rg_relation_id g) = Some c \<longrightarrow> ec_arity c = group_arity g)"

lemma side_fits_arity: "side_fits gs side \<Longrightarrow> g \<in> set gs \<Longrightarrow> map_of side (rg_relation_id g) = Some c \<Longrightarrow> ec_arity c = group_arity g"
  unfolding side_fits_def by blast

lemma compare_same_arity:
  "ec_arity b = ec_arity a \<Longrightarrow> \<exists>results. compare_relation_metrics b a = Inr results"
  by (simp add: compare_relation_metrics_def)

lemma verify_relation_entry:
  assumes "validated_code (rg_relation_id g) = Inr ()" and "1 \<le> group_arity g"
    and "\<forall>c. map_of before (rg_relation_id g) = Some c \<longrightarrow> ec_arity c = group_arity g"
    and "\<forall>c. map_of after (rg_relation_id g) = Some c \<longrightarrow> ec_arity c = group_arity g"
  shows "\<exists>e. verify_relation before after g = Inr e \<and> entry_for before after g e"
  using assms
  by (auto simp: verify_relation_def entry_for_def check_relation_evidence_def value_check_def guardE_def compare_relation_metrics_def
      RELATIONSHIP_INVARIANTS_def Let_def split: option.split)

text \<open>
  C23. The relationship verification is complete and fails closed. For a well-formed document and
  evidence that names declared relations with their arity it returns a report with exactly one entry
  per effective relation, in the order of the relation ids. An entry is \<open>VERIFIED\<close> or \<open>FAILED\<close>
  according to the comparison when both sides are present, and \<open>INCOMPLETE\<close> when one is missing; the
  report is complete exactly when no evidence is missing.
\<close>

theorem verification_report_exact:
  assumes "parse_relationship_document v = Inr doc" and "side_fits (effective_groups doc) before" and "side_fits (effective_groups doc) after"
    and "\<forall>g\<in>set (effective_groups doc). validated_code (rg_relation_id g) = Inr ()" and "validated_code (fingerprint doc) = Inr ()"
  shows "\<exists>report. verify_relationships fingerprint digest doc before after = Inr report
    \<and> vr_relationship_fp report = fingerprint doc \<and> list_all2 (entry_for before after) (sort_key rg_relation_id (effective_groups doc)) (vr_relations report)
    \<and> (vr_complete report \<longleftrightarrow> (\<forall>g\<in>set (effective_groups doc). map_of before (rg_relation_id g) \<noteq> None \<and> map_of after (rg_relation_id g) \<noteq> None))"
proof -
  let ?gs = "sort_key rg_relation_id (effective_groups doc)"
  obtain raw where "mapE (parse_group (rd_external_authority doc)) raw = Inr (rd_groups doc)" using parse_document_facts(2) [OF assms(1)] by blast
  then have ok: "group_ok g" if "g \<in> set (rd_groups doc)" for g using mapE_all [of _ raw "rd_groups doc" group_ok g] parse_group_facts(1) that by blast
  have arity: "1 \<le> group_arity g" if g: "g \<in> set (effective_groups doc)" for g
  proof -
    have "group_ok g" using ok g effective_subset by blast
    then obtain p where "p \<in> {''PRIMARY'', ''CANDIDATE''}" "members_for_role p g \<noteq> []" unfolding group_ok_def by blast
    then have "parent_members g \<noteq> []" by (auto simp: parent_members_def)
    then show ?thesis by (simp add: group_arity_def Suc_le_eq)
  qed
  have "\<forall>g\<in>set ?gs. \<exists>e. verify_relation before after g = Inr e \<and> entry_for before after g e"
    using assms(2-4) arity by (auto intro!: verify_relation_entry simp: side_fits_def)
  then obtain es where es: "mapE (verify_relation before after) ?gs = Inr es" "list_all2 (entry_for before after) ?gs es"
  proof -
    obtain e where e: "\<forall>g\<in>set ?gs. verify_relation before after g = Inr (e g) \<and> entry_for before after g (e g)"
      using \<open>\<forall>g\<in>set ?gs. _ g\<close> by metis
    show thesis
      by (rule that [of "map e ?gs"]) (use e in \<open>simp_all add: mapE_Inr_iff list_all2_map2 list_all2_same\<close>)
  qed
  have ids: "map rv_relation_id es = map rg_relation_id ?gs"
    using es(2) by (simp add: list_all2_conv_all_nth entry_for_def list_eq_iff_nth_eq)
  have "distinct (map rg_relation_id (effective_groups doc))"
    using parse_document_facts(1) [OF assms(1)] by (auto simp: effective_groups_def distinct_map_filter)
  then have dist: "distinct (map rg_relation_id ?gs)" by (simp add: distinct_map)
  have known: "check_known ?gs before = Inr ()" "check_known ?gs after = Inr ()"
    using assms(2,3) by (fastforce simp: check_known_def guardE_def side_fits_def list_all_iff)+
  have status: "rv_status e \<noteq> RELATION_INCOMPLETE \<longleftrightarrow> map_of before (rg_relation_id g) \<noteq> None \<and> map_of after (rg_relation_id g) \<noteq> None"
    if e: "entry_for before after g e" and g: "g \<in> set ?gs" for g e
  proof -
    have g': "g \<in> set (effective_groups doc)" using g by simp
    show ?thesis
    proof (cases "map_of before (rg_relation_id g)"; cases "map_of after (rg_relation_id g)")
      fix b a assume sides: "map_of before (rg_relation_id g) = Some b" "map_of after (rg_relation_id g) = Some a"
      then obtain results where "compare_relation_metrics b a = Inr results"
        using compare_same_arity [of b a] side_fits_arity [OF assms(2) g' sides(1)] side_fits_arity [OF assms(3) g' sides(2)] by auto
      then show ?thesis using e sides by (simp add: entry_for_def)
    qed (use e in \<open>simp_all add: entry_for_def\<close>)
  qed
  have "list_all (\<lambda>e. rv_status e \<noteq> RELATION_INCOMPLETE) es \<longleftrightarrow> (\<forall>g\<in>set ?gs. map_of before (rg_relation_id g) \<noteq> None \<and> map_of after (rg_relation_id g) \<noteq> None)"
    using es(2) status unfolding list_all2_conv_all_nth list_all_length by (metis in_set_conv_nth)
  then show ?thesis
    using known es dist assms(5) by (simp add: verify_relationships_def Let_def new_report_def value_check_def guardE_def ids sorted_sort_id [OF sorted_sort_key])
qed

definition no_counts :: relation_side_metrics where
  "no_counts = \<lparr>sm_rows = 0, sm_nulls = 0, sm_unique = 0, sm_duplicates = 0, sm_profile = []\<rparr>"

definition sample_side :: evidence_side where
  "sample_side = [(''R'', \<lparr>ec_arity = 1, ec_parent = no_counts, ec_foreign = no_counts, ec_matched = 0, ec_orphan = 0\<rparr>)]"

theorem verification_report_exact_witness:
  "\<exists>doc report. parse_relationship_document sample_document = Inr doc \<and> verify_relationships (\<lambda>_. ''f'') (\<lambda>_ _ _. []) doc sample_side [] = Inr report
     \<and> list_all2 (entry_for sample_side []) (sort_key rg_relation_id (effective_groups doc)) (vr_relations report) \<and> \<not> vr_complete report"
proof -
  have e: "case parse_relationship_document sample_document of Inl e \<Rightarrow> False
    | Inr doc \<Rightarrow> map rg_relation_id (effective_groups doc) = [''R''] \<and> map group_arity (effective_groups doc) = [1]" by code_simp
  then obtain doc g where d: "parse_relationship_document sample_document = Inr doc" "effective_groups doc = [g]" "rg_relation_id g = ''R''" "group_arity g = 1"
    by (auto split: sum.splits simp: map_eq_Cons_conv)
  have "bounded_token ''R''" "validated_code ''R'' = Inr ()" "validated_code ''f'' = Inr ()" by code_simp+
  then show ?thesis
    using verification_report_exact [OF d(1), of sample_side "[]" "\<lambda>_. ''f''" "\<lambda>_ _ _. []"] d
    by (auto simp: side_fits_def sample_side_def)
qed

section \<open>The assurance\<close>

lemma filter_sort_length: "length (filter P (sort_key f xs)) = length (filter P xs)"
  by (metis filter_sort length_sort)

lemma check_assurance_Inr: "check_assurance a = Inr b \<Longrightarrow> b = a"
  by (auto simp: check_assurance_def elim!: bindE_InrE)

lemma derive_bounded_Inr:
  assumes "derive_from_bounded_evidence digest m evidence binding = Inr a"
  obtains fp authoritative where "int (length evidence) = md_relation_count m"
    and "bounded_evidence_fingerprint digest evidence (md_fingerprint m) = Inr fp"
    and "validated_authority_binding m None binding = Inr authoritative"
    and "ra_verified a = int (length (filter rs_verified evidence))" and "ra_failed a = int (length evidence) - ra_verified a"
    and "ra_incomplete a = 0" and "ra_declared a = int (length evidence)" and "ra_evidence_fp a = fp" and "ra_relationship_fp a = Some (md_fingerprint m)"
    and "ra_level a = (if evidence = [] then GLOBAL_EXACT_VALUE
           else if list_all rs_verified evidence then (if authoritative then VFP_METADATA_VERIFIED else DECLARED_RELATIONS_VERIFIED) else INCOMPLETE)"
proof -
  obtain fp authoritative where d: "int (length evidence) = md_relation_count m"
    "bounded_evidence_fingerprint digest evidence (md_fingerprint m) = Inr fp" "validated_authority_binding m None binding = Inr authoritative"
    "assurance_from_counts m (int (length (filter rs_verified evidence))) (int (length evidence) - int (length (filter rs_verified evidence))) fp authoritative = Inr a"
    using assms by (auto simp: derive_from_bounded_evidence_def Let_def filter_sort_length guard_simps)
  have all: "length (filter rs_verified evidence) = length evidence \<longleftrightarrow> list_all rs_verified evidence"
    by (metis filter_True length_filter_less less_irrefl list_all_iff)
  note a = check_assurance_Inr [OF d(4) [unfolded assurance_from_counts_def Let_def]]
  have count: "(md_relation_count m = 0) = (evidence = [])" using d(1) by auto
  have ver: "(int (length (filter rs_verified evidence)) = md_relation_count m \<and> int (length evidence) - int (length (filter rs_verified evidence)) = 0)
      = list_all rs_verified evidence" using all d(1) by linarith
  show thesis
  proof (rule that [OF d(1-3)])
    show "ra_level a = (if evidence = [] then GLOBAL_EXACT_VALUE
           else if list_all rs_verified evidence then (if authoritative then VFP_METADATA_VERIFIED else DECLARED_RELATIONS_VERIFIED) else INCOMPLETE)"
      unfolding a by (simp only: relational_assurance.simps ver count)
  qed (simp_all only: a relational_assurance.simps, simp_all add: d(1))
qed

text \<open>
  C18. The assurance is sound and survives its own audit. The level derived from the evidence of a
  run counts every declared relation, is \<open>GLOBAL_EXACT_VALUE\<close> exactly when none is declared, claims
  verified relations only if every one was verified, and claims authoritative metadata only with a
  binding that matches the metadata. The cross-check of the dataset verifier against the same receipt
  and binding reports nothing.
\<close>

theorem derived_assurance_sound:
  assumes "derive_from_bounded_evidence digest m evidence binding = Inr a"
  shows "verify_assurance digest a evidence binding f = Inr f
    \<and> ra_verified a + ra_failed a + ra_incomplete a = md_relation_count m
    \<and> (ra_level a = GLOBAL_EXACT_VALUE \<longleftrightarrow> md_relation_count m = 0)
    \<and> (ra_level a \<in> {DECLARED_RELATIONS_VERIFIED, VFP_METADATA_VERIFIED} \<longleftrightarrow> md_relation_count m \<noteq> 0 \<and> list_all rs_verified evidence)
    \<and> (ra_level a = VFP_METADATA_VERIFIED \<longrightarrow> md_authoritative m \<and> (\<exists>b. binding = Some b \<and> ab_fingerprint b = md_fingerprint m
         \<and> ab_relation_count b = md_relation_count m \<and> ab_schema_version b = METADATA_VERSION))"
proof -
  obtain fp authoritative where d: "int (length evidence) = md_relation_count m"
    "bounded_evidence_fingerprint digest evidence (md_fingerprint m) = Inr fp" "validated_authority_binding m None binding = Inr authoritative"
    "ra_verified a = int (length (filter rs_verified evidence))" "ra_failed a = int (length evidence) - ra_verified a"
    "ra_incomplete a = 0" "ra_declared a = int (length evidence)" "ra_evidence_fp a = fp" "ra_relationship_fp a = Some (md_fingerprint m)"
    "ra_level a = (if evidence = [] then GLOBAL_EXACT_VALUE
       else if list_all rs_verified evidence then (if authoritative then VFP_METADATA_VERIFIED else DECLARED_RELATIONS_VERIFIED) else INCOMPLETE)"
    by (rule derive_bounded_Inr [OF assms])
  have b: "md_authoritative m \<and> (\<exists>b. binding = Some b \<and> ab_fingerprint b = md_fingerprint m
      \<and> ab_relation_count b = md_relation_count m \<and> ab_schema_version b = METADATA_VERSION)" if authoritative
    using d(3) that by (auto simp: validated_authority_binding_def split: option.splits if_splits)
  have all: "int (length (filter rs_verified evidence)) = int (length evidence) \<longleftrightarrow> list_all rs_verified evidence"
    by (metis filter_True length_filter_less less_irrefl list_all_iff of_nat_eq_iff)
  have zero: "md_relation_count m = 0 \<longleftrightarrow> evidence = []" using d(1) by auto
  have "verify_assurance digest a evidence binding f = Inr f"
  proof -
    have empty: "list_all rs_verified evidence" if "evidence = []" using that by simp
    have bound: "binding_matches a binding" if authoritative
      using b [OF that] d(1,7,9) by (auto simp: binding_matches_def)
    show ?thesis
    proof (cases "evidence = []"; cases "list_all rs_verified evidence"; cases authoritative)
      assume "evidence \<noteq> []" "\<not> list_all rs_verified evidence"
      then show ?thesis using all by (simp add: verify_assurance_def d(2) d(4-10))
    qed (use all bound empty d(2) in \<open>simp_all add: verify_assurance_def d(4-10)\<close>)
  qed
  moreover have "ra_level a = VFP_METADATA_VERIFIED \<longrightarrow> authoritative" unfolding d(10) by simp
  moreover have "(ra_level a = GLOBAL_EXACT_VALUE) = (evidence = [])"
    "(ra_level a \<in> {DECLARED_RELATIONS_VERIFIED, VFP_METADATA_VERIFIED}) = (evidence \<noteq> [] \<and> list_all rs_verified evidence)" unfolding d(10) by simp_all
  ultimately show ?thesis using b zero d(1) by (simp add: d(4-6))
qed

definition sample_metadata :: relationship_metadata where
  "sample_metadata = \<lparr>md_schema_version = METADATA_VERSION, md_provenance = ''EXTERNAL_VFP_METADATA'', md_fingerprint = ''f'', md_relation_count = 1,
     md_authoritative = True, md_external_version = None, md_producer = None, md_authority_summary = None\<rparr>"

definition sample_binding :: authority_binding where
  "sample_binding = \<lparr>ab_fingerprint = ''f'', ab_relation_count = 1, ab_schema_version = METADATA_VERSION\<rparr>"

definition sample_digest :: evidence_digest where
  "sample_digest fp evidence = fp @ ''1''"

theorem derived_assurance_sound_witness:
  "\<exists>a. derive_from_bounded_evidence sample_digest sample_metadata [compare_relation (flush (fold spool_event sample_events new_spool)) sample_relation]
        (Some sample_binding) = Inr a \<and> ra_level a = VFP_METADATA_VERIFIED
     \<and> (\<forall>f. verify_assurance sample_digest a [compare_relation (flush (fold spool_event sample_events new_spool)) sample_relation] (Some sample_binding) f = Inr f)"
proof -
  let ?e = "[compare_relation (flush (fold spool_event sample_events new_spool)) sample_relation]"
  have "case derive_from_bounded_evidence sample_digest sample_metadata ?e (Some sample_binding) of Inl e \<Rightarrow> False
      | Inr a \<Rightarrow> ra_level a = VFP_METADATA_VERIFIED" by code_simp
  then obtain a where a: "derive_from_bounded_evidence sample_digest sample_metadata ?e (Some sample_binding) = Inr a" "ra_level a = VFP_METADATA_VERIFIED"
    by (auto split: sum.splits)
  then show ?thesis using derived_assurance_sound [OF a(1)] by blast
qed

end
