(* ===== verification/Dataset_Files.thy ===== *)
theory Dataset_Files
  imports Py_Codecs Vault_Operations
begin

text \<open>
  Dataset trees and the dataset fingerprint (\<open>_iter_dataset_files\<close> and \<open>fingerprint_dataset\<close> of
  \<^verbatim>\<open>src/src/dbf_anonymizer/engine/publication.py\<close>), and the placement of a staged file in the dataset.
  A directory is a list of named entries; the order of \<open>os.scandir\<close> is the order of the list. The
  digest SHA-256 is an argument. Names are \<open>string\<close>s.
\<close>

section \<open>Trees\<close>

text \<open>
  What \<open>os.walk\<close> distinguishes: regular files, directories it can list, directories it cannot list
  (the error is swallowed, since no \<open>onerror\<close> is given), symbolic links to directories with what the
  target holds, and every other kind of entry. A link is listed with the directories; below the root it
  is refused, and as the root itself it is followed.
\<close>

datatype node =
    RegularFile bytes
  | Folder "(string \<times> node) list"
  | UnreadableFolder
  | LinkToFolder "(string \<times> node) list"
  | OtherEntry

type_synonym entries = "(string \<times> node) list"
type_synonym inventory = "(string \<times> bytes) list"

fun listed_as_folder :: "node \<Rightarrow> bool" where
  "listed_as_folder (Folder es) = True"
| "listed_as_folder UnreadableFolder = True"
| "listed_as_folder (LinkToFolder es) = True"
| "listed_as_folder _ = False"

fun is_link :: "node \<Rightarrow> bool" where
  "is_link (LinkToFolder es) = True"
| "is_link _ = False"

definition publication_failure :: "string \<Rightarrow> error" where
  "publication_failure detail = PublicationError PUBLICATION_INCOMPLETE detail"

definition regular_item :: "string \<Rightarrow> string \<times> node \<Rightarrow> (string \<times> bytes) result" where
  "regular_item prefix e =
     (case snd e of
        RegularFile content \<Rightarrow> Inr (prefix @ fst e, content)
      | _ \<Rightarrow> Inl (publication_failure ''DATASET_ARTIFACT_INVALID''))"

lemma mapE_cong [fundef_cong]:
  "xs = ys \<Longrightarrow> (\<And>x. x \<in> set ys \<Longrightarrow> f x = g x) \<Longrightarrow> mapE f xs = mapE g ys"
  by (induction ys arbitrary: xs) auto

text \<open>Each directory yields its files in name order before the walk enters its subdirectories in name order.\<close>

function iter_dataset_files :: "string \<Rightarrow> node \<Rightarrow> inventory result" where
  "iter_dataset_files prefix (Folder es) =
     (let entries = sort_key fst es
      in bindE (guardE (\<not> list_ex (\<lambda>e. is_link (snd e)) entries) (publication_failure ''DATASET_SYMLINK_REFUSED'')) (\<lambda>_.
         bindE (mapE (regular_item prefix) (filter (\<lambda>e. \<not> listed_as_folder (snd e)) entries)) (\<lambda>files.
         bindE (mapE (\<lambda>e. iter_dataset_files (prefix @ fst e @ ''/'') (snd e)) (filter (\<lambda>e. listed_as_folder (snd e)) entries)) (\<lambda>below.
           Inr (files @ concat below)))))"
| "iter_dataset_files prefix (RegularFile content) = Inr []"
| "iter_dataset_files prefix UnreadableFolder = Inr []"
| "iter_dataset_files prefix (LinkToFolder es) = iter_dataset_files prefix (Folder es)"
| "iter_dataset_files prefix OtherEntry = Inr []"
  by pat_completeness auto
termination
proof (relation "measure (\<lambda>(prefix, n). 2 * size n + (if is_link n then 1 else 0))", goal_cases)
  case (2 prefix es entries u u' x)
  then have "x \<in> set es" by simp
  then have "size (snd x) < Suc (size_list (size_prod (\<lambda>_. 0) size) es)"
    by (induction es) (auto split: prod.splits)
  then show ?case by simp
qed simp_all

section \<open>The fingerprint\<close>

text \<open>\<open>int.to_bytes(w, "big")\<close>.\<close>

definition be_bytes :: "nat \<Rightarrow> int \<Rightarrow> bytes" where
  "be_bytes w n = map (\<lambda>i. nat (n div 256 ^ (w - 1 - i) mod 256)) [0..<w]"

definition to_bytes :: "nat \<Rightarrow> int \<Rightarrow> bytes result" where
  "to_bytes w n = (if 0 \<le> n \<and> n < 256 ^ w then Inr (be_bytes w n) else Inl OverflowError)"

definition DATASET_HEADER :: bytes where
  "DATASET_HEADER = ascii ''DBF-ANONYMIZER-DATASET/v1'' @ [0]"

definition BLOCK_SIZE :: int where "BLOCK_SIZE = 1024 * 1024"

text \<open>The \<open>k\<close>-th call of the checkpoint; it is made before each file and after each block.\<close>

type_synonym checkpoints = "nat \<Rightarrow> unit result"

definition checkpoint_calls :: "checkpoints \<Rightarrow> nat \<Rightarrow> nat \<Rightarrow> unit result" where
  "checkpoint_calls poll k n = bindE (mapE poll [k..<k + n]) (\<lambda>_. Inr ())"

definition frame :: "string \<Rightarrow> bytes \<Rightarrow> bytes result" where
  "frame relative content =
     (case utf8_encode (ascii relative) of
        None \<Rightarrow> Inl ValueError
      | Some encoded \<Rightarrow>
          bindE (to_bytes 4 (int (length encoded))) (\<lambda>path_length.
          bindE (to_bytes 8 (int (length content))) (\<lambda>file_size.
            Inr (path_length @ encoded @ file_size @ content))))"

fun hash_files :: "checkpoints \<Rightarrow> nat \<Rightarrow> inventory \<Rightarrow> bytes result" where
  "hash_files poll k [] = Inr []"
| "hash_files poll k ((relative, content) # rest) =
     (let blocks = nat ((int (length content) + BLOCK_SIZE - 1) div BLOCK_SIZE)
      in bindE (poll k) (\<lambda>_.
         bindE (frame relative content) (\<lambda>b.
         bindE (checkpoint_calls poll (k + 1) blocks) (\<lambda>_.
         bindE (hash_files poll (k + 1 + blocks) rest) (\<lambda>bs. Inr (b @ bs))))))"

definition is_dir :: "node option \<Rightarrow> bool" where
  "is_dir n = (case n of None \<Rightarrow> False | Some m \<Rightarrow> listed_as_folder m)"

definition fingerprint_dataset :: "(bytes \<Rightarrow> string) \<Rightarrow> checkpoints \<Rightarrow> node option \<Rightarrow> string result" where
  "fingerprint_dataset sha poll root =
     (if \<not> is_dir root then Inl (publication_failure ''DATASET_MISSING'')
      else bindE (iter_dataset_files [] (the root)) (\<lambda>inventory.
           bindE (hash_files poll 0 inventory) (\<lambda>body.
           bindE (to_bytes 8 (int (length inventory))) (\<lambda>total.
             Inr (''out-'' @ sha (DATASET_HEADER @ body @ total))))))"

section \<open>The framing is unambiguous\<close>

lemma length_be_bytes [simp]: "length (be_bytes w n) = w"
  by (simp add: be_bytes_def)

lemma be_bytes_Suc: "be_bytes (Suc w) n = nat (n div 256 ^ w mod 256) # be_bytes w n"
proof -
  have "[0..<Suc w] = 0 # map Suc [0..<w]" by (simp add: map_Suc_upt upt_conv_Cons del: upt_Suc)
  then show ?thesis by (simp add: be_bytes_def comp_def)
qed

lemma be_bytes_mod: "be_bytes w n = be_bytes w m \<Longrightarrow> n mod 256 ^ w = m mod (256 ^ w :: int)"
proof (induction w)
  case (Suc w)
  have split: "k mod 256 ^ Suc w = 256 ^ w * (k div 256 ^ w mod 256) + k mod (256 ^ w :: int)" for k
    using zmod_zmult2_eq [of 256 k "256 ^ w"] by (simp add: mult.commute)
  have "nat (n div 256 ^ w mod 256) = nat (m div 256 ^ w mod 256)" "n mod 256 ^ w = m mod 256 ^ w"
    using Suc by (simp_all add: be_bytes_Suc)
  then have "n div 256 ^ w mod 256 = m div 256 ^ w mod 256" "n mod 256 ^ w = m mod 256 ^ w" by simp_all
  then show ?case by (simp only: split)
qed simp

lemma be_bytes_inj: "be_bytes w n = be_bytes w m \<Longrightarrow> 0 \<le> n \<Longrightarrow> n < 256 ^ w \<Longrightarrow> 0 \<le> m \<Longrightarrow> m < 256 ^ w \<Longrightarrow> n = m"
  using be_bytes_mod [of w n m] by simp

lemma to_bytes_Inr: "to_bytes w n = Inr b \<longleftrightarrow> 0 \<le> n \<and> n < 256 ^ w \<and> b = be_bytes w n"
  by (auto simp: to_bytes_def)

lemma ascii_inj: "ascii s = ascii t \<Longrightarrow> s = t"
  unfolding ascii_def by (rule list.inj_map_strong) auto

text \<open>One frame is read back from any bytes that begin with it.\<close>

lemma frame_prefix_free:
  assumes "frame p c = Inr b" and "frame q d = Inr b'" and "b @ x = b' @ y"
  shows "p = q \<and> c = d \<and> x = y"
proof -
  obtain u where u: "utf8_encode (ascii p) = Some u" "int (length u) < 256 ^ 4" "int (length c) < 256 ^ 8" "b = be_bytes 4 (int (length u)) @ u @ be_bytes 8 (int (length c)) @ c"
    using assms(1) by (auto simp: frame_def bindE_Inr_iff to_bytes_Inr split: option.splits)
  obtain v where v: "utf8_encode (ascii q) = Some v" "int (length v) < 256 ^ 4" "int (length d) < 256 ^ 8" "b' = be_bytes 4 (int (length v)) @ v @ be_bytes 8 (int (length d)) @ d"
    using assms(2) by (auto simp: frame_def bindE_Inr_iff to_bytes_Inr split: option.splits)
  have eq: "be_bytes 4 (int (length u)) @ u @ be_bytes 8 (int (length c)) @ c @ x = be_bytes 4 (int (length v)) @ v @ be_bytes 8 (int (length d)) @ d @ y"
    using assms(3) u(4) v(4) by simp
  then have "length u = length v" using be_bytes_inj [of 4 "int (length u)" "int (length v)"] u(2) v(2) by simp
  with eq have uv: "u = v" "be_bytes 8 (int (length c)) @ c @ x = be_bytes 8 (int (length d)) @ d @ y" by simp_all
  then have "length c = length d" using be_bytes_inj [of 8 "int (length c)" "int (length d)"] u(3) v(3) by simp
  with uv have "c = d" "x = y" by simp_all
  moreover have "p = q" using utf8_encode_inj [of "ascii p" u "ascii q"] u(1) v(1) uv(1) ascii_inj by blast
  ultimately show ?thesis by simp
qed

lemma hash_files_Cons:
  assumes "hash_files poll k ((p, c) # fs) = Inr b"
  obtains b1 b2 k' where "frame p c = Inr b1" "hash_files poll k' fs = Inr b2" "b = b1 @ b2"
  using assms by (auto simp: Let_def bindE_Inr_iff)

lemma hash_files_inj:
  assumes "hash_files poll k fs = Inr b" and "hash_files poll' k' gs = Inr b'" and "length fs = length gs" and "b @ x = b' @ y"
  shows "fs = gs"
  using assms
proof (induction fs arbitrary: k k' gs b b')
  case (Cons f fs)
  obtain p c where f: "f = (p, c)" by force
  obtain q d gs' where g: "gs = (q, d) # gs'" using Cons.prems(3) by (cases gs) auto
  obtain b1 b2 i where 1: "frame p c = Inr b1" "hash_files poll i fs = Inr b2" "b = b1 @ b2"
    using Cons.prems(1) unfolding f by (rule hash_files_Cons)
  obtain d1 d2 j where 2: "frame q d = Inr d1" "hash_files poll' j gs' = Inr d2" "b' = d1 @ d2"
    using Cons.prems(2) unfolding g by (rule hash_files_Cons)
  have "p = q \<and> c = d \<and> b2 @ x = d2 @ y" by (rule frame_prefix_free [OF 1(1) 2(1)]) (use Cons.prems(4) 1(3) 2(3) in simp)
  then show ?case using Cons.IH [OF 1(2) 2(2)] Cons.prems(3) f g by simp
qed simp

text \<open>
  C29. The dataset fingerprint identifies the dataset. For a digest without collisions, two trees
  have the same fingerprint exactly when their inventories agree: the same relative paths in the same
  order with the same contents. The length prefixes and the trailing count leave no second reading of
  the hashed bytes, and the checkpoints do not influence the result.
\<close>

theorem fingerprint_identifies_dataset:
  assumes "inj sha" and "fingerprint_dataset sha poll a = Inr x" and "fingerprint_dataset sha poll' b = Inr y"
  shows "x = y \<longleftrightarrow> iter_dataset_files [] (the a) = iter_dataset_files [] (the b)"
proof -
  obtain fs u where a: "iter_dataset_files [] (the a) = Inr fs" "hash_files poll 0 fs = Inr u" "int (length fs) < 256 ^ 8"
    "x = ''out-'' @ sha (DATASET_HEADER @ u @ be_bytes 8 (int (length fs)))"
    using assms(2) by (auto simp: fingerprint_dataset_def bindE_Inr_iff to_bytes_Inr split: if_splits)
  obtain gs v where b: "iter_dataset_files [] (the b) = Inr gs" "hash_files poll' 0 gs = Inr v" "int (length gs) < 256 ^ 8"
    "y = ''out-'' @ sha (DATASET_HEADER @ v @ be_bytes 8 (int (length gs)))"
    using assms(3) by (auto simp: fingerprint_dataset_def bindE_Inr_iff to_bytes_Inr split: if_splits)
  have same: "u' = v'" if "hash_files poll k hs = Inr u'" "hash_files poll' k' hs = Inr v'" for k k' hs u' v'
    using that by (induction hs arbitrary: k k' u' v') (force elim!: hash_files_Cons)+
  show ?thesis
  proof
    assume "x = y"
    then have e: "u @ be_bytes 8 (int (length fs)) = v @ be_bytes 8 (int (length gs))" using a(4) b(4) injD [OF assms(1), of "DATASET_HEADER @ u @ be_bytes 8 (int (length fs))" "DATASET_HEADER @ v @ be_bytes 8 (int (length gs))"] by simp
    then have "length fs = length gs" using a(3) b(3) be_bytes_inj [of 8 "int (length fs)" "int (length gs)"] by simp
    then show "iter_dataset_files [] (the a) = iter_dataset_files [] (the b)"
      using hash_files_inj [OF a(2) b(2) _ e] a(1) b(1) by simp
  next
    assume "iter_dataset_files [] (the a) = iter_dataset_files [] (the b)"
    then have "fs = gs" using a(1) b(1) by simp
    then show "x = y" using same [OF a(2), of 0 v] a(4) b(2,4) by simp
  qed
qed

text \<open>An injective digest, and a tree in two listing orders beside one that differs in a byte.\<close>

definition unary_digest :: "bytes \<Rightarrow> string" where
  "unary_digest b = concat (map (\<lambda>n. replicate n CHR ''1'' @ [CHR ''0'']) b)"

lemma unary_inj: "inj unary_digest"
proof (rule injI)
  have step: "m = n \<and> s = t" if "replicate m CHR ''1'' @ CHR ''0'' # s = replicate n CHR ''1'' @ CHR ''0'' # t" for m n :: nat and s t
    using that by (induction m arbitrary: n) (case_tac n; auto)+
  show "a = b" if "unary_digest a = unary_digest b" for a b
    using that
  proof (induction a arbitrary: b)
    case Nil
    then show ?case by (cases b) (auto simp: unary_digest_def)
  next
    case (Cons n a)
    then obtain m b' where b: "b = m # b'" by (cases b) (auto simp: unary_digest_def)
    then have "replicate n CHR ''1'' @ CHR ''0'' # unary_digest a = replicate m CHR ''1'' @ CHR ''0'' # unary_digest b'"
      using Cons.prems by (simp add: unary_digest_def)
    then show ?case using step Cons.IH b by blast
  qed
qed

definition sample_tree :: "bytes \<Rightarrow> bool \<Rightarrow> node" where
  "sample_tree content swapped =
     (let a = (''A.DBF'', RegularFile content); d = (''sub'', Folder [(''B.DBF'', RegularFile [3])]) in Folder (if swapped then [d, a] else [a, d]))"

lemma sample_trees_hashed: "\<not> isl (fingerprint_dataset sha (\<lambda>_. Inr ()) (Some (sample_tree [3, 0] b)))"
  "\<not> isl (fingerprint_dataset sha (\<lambda>_. Inr ()) (Some (sample_tree [3, 1] False)))"
  by (cases b; simp only:) code_simp+

theorem fingerprint_identifies_dataset_witness:
  "fingerprint_dataset unary_digest (\<lambda>_. Inr ()) (Some (sample_tree [3, 0] True)) = fingerprint_dataset unary_digest (\<lambda>_. Inr ()) (Some (sample_tree [3, 0] False))
   \<and> fingerprint_dataset unary_digest (\<lambda>_. Inr ()) (Some (sample_tree [3, 1] False)) \<noteq> fingerprint_dataset unary_digest (\<lambda>_. Inr ()) (Some (sample_tree [3, 0] False))"
proof -
  obtain x y z where f: "fingerprint_dataset unary_digest (\<lambda>_. Inr ()) (Some (sample_tree [3, 0] True)) = Inr x"
    "fingerprint_dataset unary_digest (\<lambda>_. Inr ()) (Some (sample_tree [3, 0] False)) = Inr y"
    "fingerprint_dataset unary_digest (\<lambda>_. Inr ()) (Some (sample_tree [3, 1] False)) = Inr z"
    using sample_trees_hashed [where sha = unary_digest] by (metis isl_def old.sum.exhaust)
  have "iter_dataset_files [] (sample_tree [3, 0] True) = iter_dataset_files [] (sample_tree [3, 0] False)"
    "iter_dataset_files [] (sample_tree [3, 1] False) \<noteq> iter_dataset_files [] (sample_tree [3, 0] False)" by code_simp+
  then have "x = y" "z \<noteq> y"
    using fingerprint_identifies_dataset [OF unary_inj f(1) f(2)] fingerprint_identifies_dataset [OF unary_inj f(3) f(2)] by simp_all
  then show ?thesis using f by simp
qed

end
