(* ===== verification/Run_Receipt.thy ===== *)
theory Run_Receipt
  imports Relation_Assurance Dataset_Files
begin

text \<open>
  The result of a run and its durable receipt (\<open>result_receipt\<close> and \<open>result_from_receipt\<close> of
  \<^verbatim>\<open>src/src/dbf_anonymizer/engine/publication.py\<close>, \<open>TwoPassResult\<close> of \<^verbatim>\<open>engine/directives.py\<close>, and the
  IDX evidence of \<^verbatim>\<open>models.py\<close>). The JSON text is an argument: a printer, a parser, and the conversions
  \<open>str\<close>, \<open>int\<close> and \<open>bool\<close> on the JSON values where their result depends on more than the model keeps.
\<close>

section \<open>Index evidence\<close>

record idx_evidence =
  ie_artifact_id :: string
  ie_artifact_path :: string
  ie_status :: string
  ie_source_sha256 :: string
  ie_backend_id :: "string option"
  ie_table_path :: "string option"
  ie_output_sha256 :: "string option"

definition printable_char :: "char \<Rightarrow> bool" where
  "printable_char c \<longleftrightarrow> c = CHR '' '' \<or> code_char c"

definition public_relative_path :: "string \<Rightarrow> string result" where
  "public_relative_path s =
     (let parts = filter (\<lambda>p. p \<noteq> [] \<and> p \<noteq> ''.'') (split_on chr_slash (map (\<lambda>c. if c = chr_backslash then chr_slash else c) s))
      in bindE (value_check (s \<noteq> [] \<and> length s \<le> 512 \<and> list_all printable_char s)) (\<lambda>_.
         bindE (value_check (hd s \<noteq> chr_slash \<and> hd s \<noteq> chr_backslash \<and> \<not> (2 \<le> length s \<and> s ! 1 = CHR '':''))) (\<lambda>_.
         bindE (value_check (''..'' \<notin> set parts)) (\<lambda>_.
         bindE (value_check (parts \<noteq> [])) (\<lambda>_. Inr (join_on chr_slash parts))))))"

definition standalone_idx_artifact_id :: "(string \<Rightarrow> string) \<Rightarrow> string \<Rightarrow> string result" where
  "standalone_idx_artifact_id sha path =
     bindE (public_relative_path path) (\<lambda>normalized.
     bindE (value_check (map lower_char (path_suffix normalized) = ''.idx'')) (\<lambda>_. Inr (''idx-'' @ sha normalized)))"

definition sha256_hex :: "string \<Rightarrow> unit result" where
  "sha256_hex s = value_check (length s = 64 \<and> list_all (\<lambda>c. c \<in> set ''0123456789abcdef'') s)"

definition IDX_EVIDENCE_STATUSES :: "string list" where
  "IDX_EVIDENCE_STATUSES = [''OMITTED_DATA_ONLY'', ''OMITTED_UNVERIFIED'', ''REBUILT_VERIFIED'']"

definition check_idx_evidence :: "(string \<Rightarrow> string) \<Rightarrow> idx_evidence \<Rightarrow> idx_evidence result" where
  "check_idx_evidence sha e =
     bindE (public_relative_path (ie_artifact_path e)) (\<lambda>path.
     bindE (standalone_idx_artifact_id sha path) (\<lambda>expected.
     bindE (value_check (ie_artifact_id e = expected)) (\<lambda>_.
     bindE (value_check (ie_status e \<in> set IDX_EVIDENCE_STATUSES)) (\<lambda>_.
     bindE (sha256_hex (ie_source_sha256 e)) (\<lambda>_.
     bindE (case ie_backend_id e of None \<Rightarrow> Inr () | Some b \<Rightarrow> validated_code b) (\<lambda>_.
     bindE (case ie_table_path e of None \<Rightarrow> Inr None | Some t \<Rightarrow> bindE (public_relative_path t) (\<lambda>u. Inr (Some u))) (\<lambda>table.
     bindE (case ie_output_sha256 e of None \<Rightarrow> Inr () | Some s \<Rightarrow> sha256_hex s) (\<lambda>_.
     bindE (if ie_status e = ''OMITTED_DATA_ONLY'' then
              value_check (ie_backend_id e = None \<and> table = None \<and> ie_output_sha256 e = None)
            else if ie_status e = ''OMITTED_UNVERIFIED'' then
              value_check (ie_backend_id e \<noteq> None \<and> ie_output_sha256 e = None)
            else value_check (ie_backend_id e \<noteq> None \<and> table \<noteq> None \<and> ie_output_sha256 e \<noteq> None)) (\<lambda>_.
       Inr (e\<lparr>ie_artifact_path := path, ie_table_path := table\<rparr>))))))))))"

section \<open>The result\<close>

text \<open>
  The relation summaries of a result read back from a receipt are objects whose fields are whatever
  JSON the receipt held: the type parameter tells the two kinds apart.
\<close>

record 'r two_pass_result =
  tr_tables_written :: "string list"
  tr_pass1_scanned :: int
  tr_pass1_deleted :: int
  tr_pass2_written :: int
  tr_text_allocated :: int
  tr_text_reused :: int
  tr_numeric_allocated :: "(string \<times> int) list"
  tr_temporal_allocated :: bool
  tr_relations :: "'r list"
  tr_spool_bytes :: int
  tr_read_streams :: "(string \<times> string) list"
  tr_operation_id :: "string option"
  tr_output_fp :: "string option"
  tr_reused_existing :: bool
  tr_protected_created :: bool
  tr_index_artifacts :: "idx_evidence list"

type_synonym run_result = "relation_pass_summary two_pass_result"
type_synonym receipt_result = "dict two_pass_result"

section \<open>Writing a receipt\<close>

definition RECEIPT_SCHEMA_VERSION :: string where "RECEIPT_SCHEMA_VERSION = ''1.2''"
definition MODEL_SCHEMA_VERSION :: string where "MODEL_SCHEMA_VERSION = ''1.8''"

definition json_option :: "string option \<Rightarrow> json" where
  "json_option x = (case x of None \<Rightarrow> JNull | Some s \<Rightarrow> JStr s)"

definition relation_dict :: "relation_pass_summary \<Rightarrow> dict" where
  "relation_dict s =
     [(''relation_id'', JStr (rs_relation_id s)), (''verified'', JBool (rs_verified s)), (''before_rows'', JInt (rs_before_rows s)),
      (''after_rows'', JInt (rs_after_rows s)), (''before_nulls'', JInt (rs_before_nulls s)), (''after_nulls'', JInt (rs_after_nulls s)),
      (''before_unique'', JInt (int (rs_before_unique s))), (''after_unique'', JInt (int (rs_after_unique s))),
      (''matched_rows'', JInt (rs_matched_rows s)), (''orphan_count'', JInt (rs_orphan_count s)),
      (''parent_profile_equal'', JBool (rs_parent_profile_equal s)), (''foreign_profile_equal'', JBool (rs_foreign_profile_equal s))]"

definition RELATION_FIELDS :: "string list" where
  "RELATION_FIELDS = [''relation_id'', ''verified'', ''before_rows'', ''after_rows'', ''before_nulls'', ''after_nulls'', ''before_unique'',
     ''after_unique'', ''matched_rows'', ''orphan_count'', ''parent_profile_equal'', ''foreign_profile_equal'']"

definition idx_dict :: "idx_evidence \<Rightarrow> dict" where
  "idx_dict e =
     [(''schema_version'', JStr MODEL_SCHEMA_VERSION), (''model_type'', JStr ''StandaloneIdxEvidence''), (''artifact_id'', JStr (ie_artifact_id e)),
      (''artifact_path'', JStr (ie_artifact_path e)), (''status'', JStr (ie_status e)), (''source_sha256'', JStr (ie_source_sha256 e)),
      (''backend_id'', json_option (ie_backend_id e)), (''table_path'', json_option (ie_table_path e)), (''output_sha256'', json_option (ie_output_sha256 e))]"

definition IDX_FIELDS :: "string list" where
  "IDX_FIELDS = [''schema_version'', ''model_type'', ''artifact_id'', ''artifact_path'', ''status'', ''source_sha256'', ''backend_id'', ''table_path'', ''output_sha256'']"

definition receipt_payload :: "run_result \<Rightarrow> dict" where
  "receipt_payload r =
     [(''schema_version'', JStr RECEIPT_SCHEMA_VERSION), (''tables_written'', JList (map JStr (tr_tables_written r))),
      (''pass1_records_scanned'', JInt (tr_pass1_scanned r)), (''pass1_deleted_scanned'', JInt (tr_pass1_deleted r)),
      (''pass2_records_written'', JInt (tr_pass2_written r)), (''text_allocated'', JInt (tr_text_allocated r)), (''text_reused'', JInt (tr_text_reused r)),
      (''numeric_allocated'', JObj (map (\<lambda>(k, n). (k, JInt n)) (sort_key fst (tr_numeric_allocated r)))),
      (''temporal_offset_allocated'', JBool (tr_temporal_allocated r)), (''relations'', JList (map (JObj \<circ> relation_dict) (tr_relations r))),
      (''evidence_spool_bytes'', JInt (tr_spool_bytes r)), (''read_streams'', JList (map (\<lambda>(p, t). JList [JStr p, JStr t]) (tr_read_streams r))),
      (''operation_id'', json_option (tr_operation_id r)), (''output_fingerprint'', json_option (tr_output_fp r)),
      (''protected_state_created'', JBool (tr_protected_created r)), (''index_artifacts'', JList (map (JObj \<circ> idx_dict) (tr_index_artifacts r)))]"

definition result_receipt :: "(json \<Rightarrow> string) \<Rightarrow> run_result \<Rightarrow> string" where
  "result_receipt dumps r = dumps (JObj (receipt_payload r))"

section \<open>Reading a receipt\<close>

record conversions =
  cv_str :: "json \<Rightarrow> string"
  cv_int :: "json \<Rightarrow> int result"
  cv_float_true :: "nat \<Rightarrow> bool"

definition py_str_of :: "conversions \<Rightarrow> json \<Rightarrow> string" where
  "py_str_of cv v = (case v of JStr s \<Rightarrow> s | _ \<Rightarrow> cv_str cv v)"

definition py_int_of :: "conversions \<Rightarrow> json \<Rightarrow> int result" where
  "py_int_of cv v = (case v of JInt i \<Rightarrow> Inr i | JBool b \<Rightarrow> Inr (if b then 1 else 0) | _ \<Rightarrow> cv_int cv v)"

fun py_bool_of :: "conversions \<Rightarrow> json \<Rightarrow> bool" where
  "py_bool_of cv JNull = False"
| "py_bool_of cv (JBool b) = b"
| "py_bool_of cv (JInt i) = (i \<noteq> 0)"
| "py_bool_of cv (JFloat f) = cv_float_true cv f"
| "py_bool_of cv (JStr s) = (s \<noteq> [])"
| "py_bool_of cv (JList xs) = (xs \<noteq> [])"
| "py_bool_of cv (JTuple xs) = (xs \<noteq> [])"
| "py_bool_of cv (JObj kvs) = (kvs \<noteq> [])"
| "py_bool_of cv (JOpaque n) = True"

fun py_iter :: "json \<Rightarrow> json list result" where
  "py_iter (JList xs) = Inr xs"
| "py_iter (JTuple xs) = Inr xs"
| "py_iter (JStr s) = Inr (map (\<lambda>c. JStr [c]) s)"
| "py_iter (JObj kvs) = Inr (map (\<lambda>kv. JStr (fst kv)) kvs)"
| "py_iter _ = Inl TypeError"

fun py_item :: "json \<Rightarrow> nat \<Rightarrow> json result" where
  "py_item (JList xs) i = (if i < length xs then Inr (xs ! i) else Inl IndexError)"
| "py_item (JTuple xs) i = (if i < length xs then Inr (xs ! i) else Inl IndexError)"
| "py_item (JStr s) i = (if i < length s then Inr (JStr [s ! i]) else Inl IndexError)"
| "py_item (JObj kvs) i = Inl KeyError"
| "py_item _ i = Inl TypeError"

definition subscript :: "dict \<Rightarrow> string \<Rightarrow> json result" where
  "subscript d k = (case map_of d k of None \<Rightarrow> Inl KeyError | Some v \<Rightarrow> Inr v)"

text \<open>\<open>RelationPassSummary(**item)\<close>: exactly the fields of the class, with any values.\<close>

definition relation_of_item :: "json \<Rightarrow> dict result" where
  "relation_of_item v =
     (case v of
        JObj d \<Rightarrow>
          if keys_within d RELATION_FIELDS \<and> keys_present d RELATION_FIELDS then Inr (map (\<lambda>k. (k, the (map_of d k))) RELATION_FIELDS)
          else Inl TypeError
      | _ \<Rightarrow> Inl TypeError)"

definition json_str_option :: "json \<Rightarrow> string option result" where
  "json_str_option v = (case v of JStr s \<Rightarrow> Inr (Some s) | JNull \<Rightarrow> Inr None | _ \<Rightarrow> Inl ValueError)"

definition json_str_required :: "json \<Rightarrow> string result" where
  "json_str_required v = (case v of JStr s \<Rightarrow> Inr s | _ \<Rightarrow> Inl ValueError)"

definition idx_of_item :: "(string \<Rightarrow> string) \<Rightarrow> json \<Rightarrow> idx_evidence result" where
  "idx_of_item sha v =
     (case v of
        JObj d \<Rightarrow>
          bindE (value_check (keys_within d IDX_FIELDS \<and> keys_present d IDX_FIELDS)) (\<lambda>_.
          bindE (value_check (dict_get d ''schema_version'' = JStr MODEL_SCHEMA_VERSION \<and> dict_get d ''model_type'' = JStr ''StandaloneIdxEvidence'')) (\<lambda>_.
          bindE (json_str_required (dict_get d ''artifact_id'')) (\<lambda>aid.
          bindE (json_str_required (dict_get d ''artifact_path'')) (\<lambda>path.
          bindE (json_str_required (dict_get d ''status'')) (\<lambda>status.
          bindE (json_str_required (dict_get d ''source_sha256'')) (\<lambda>source.
          bindE (json_str_option (dict_get d ''backend_id'')) (\<lambda>backend.
          bindE (json_str_option (dict_get d ''table_path'')) (\<lambda>table.
          bindE (json_str_option (dict_get d ''output_sha256'')) (\<lambda>out.
            check_idx_evidence sha \<lparr>ie_artifact_id = aid, ie_artifact_path = path, ie_status = status, ie_source_sha256 = source,
              ie_backend_id = backend, ie_table_path = table, ie_output_sha256 = out\<rparr>)))))))))
      | _ \<Rightarrow> Inl ValueError)"

definition read_stream_of :: "conversions \<Rightarrow> json \<Rightarrow> (string \<times> string) result" where
  "read_stream_of cv v = bindE (py_item v 0) (\<lambda>a. bindE (py_item v 1) (\<lambda>b. Inr (py_str_of cv a, py_str_of cv b)))"

definition numeric_items :: "conversions \<Rightarrow> json \<Rightarrow> (string \<times> int) list result" where
  "numeric_items cv v =
     (case v of
        JObj kvs \<Rightarrow> mapE (\<lambda>(k, n). bindE (py_int_of cv n) (\<lambda>i. Inr (k, i))) kvs
      | _ \<Rightarrow> Inl AttributeError)"

definition parse_receipt :: "conversions \<Rightarrow> (string \<Rightarrow> string) \<Rightarrow> dict \<Rightarrow> receipt_result result" where
  "parse_receipt cv sha d =
     (let int_field = (\<lambda>k. bindE (subscript d k) (py_int_of cv))
      in bindE (value_check (dict_get d ''schema_version'' = JStr RECEIPT_SCHEMA_VERSION)) (\<lambda>_.
         bindE (bindE (bindE (subscript d ''relations'') py_iter) (mapE relation_of_item)) (\<lambda>relations.
         bindE (bindE (bindE (subscript d ''index_artifacts'') py_iter) (mapE (idx_of_item sha))) (\<lambda>artifacts.
         bindE (bindE (subscript d ''tables_written'') py_iter) (\<lambda>tables.
         bindE (int_field ''pass1_records_scanned'') (\<lambda>scanned.
         bindE (int_field ''pass1_deleted_scanned'') (\<lambda>deleted.
         bindE (int_field ''pass2_records_written'') (\<lambda>written.
         bindE (int_field ''text_allocated'') (\<lambda>allocated.
         bindE (int_field ''text_reused'') (\<lambda>reused.
         bindE (bindE (subscript d ''numeric_allocated'') (numeric_items cv)) (\<lambda>numeric.
         bindE (subscript d ''temporal_offset_allocated'') (\<lambda>temporal.
         bindE (int_field ''evidence_spool_bytes'') (\<lambda>bytes.
         bindE (bindE (bindE (subscript d ''read_streams'') py_iter) (mapE (read_stream_of cv))) (\<lambda>streams.
         bindE (subscript d ''operation_id'') (\<lambda>operation.
         bindE (subscript d ''output_fingerprint'') (\<lambda>output.
         bindE (subscript d ''protected_state_created'') (\<lambda>created.
           Inr \<lparr>tr_tables_written = map (py_str_of cv) tables, tr_pass1_scanned = scanned, tr_pass1_deleted = deleted, tr_pass2_written = written,
                tr_text_allocated = allocated, tr_text_reused = reused, tr_numeric_allocated = numeric, tr_temporal_allocated = py_bool_of cv temporal,
                tr_relations = relations, tr_spool_bytes = bytes, tr_read_streams = streams, tr_operation_id = Some (py_str_of cv operation),
                tr_output_fp = Some (py_str_of cv output), tr_reused_existing = True, tr_protected_created = py_bool_of cv created,
                tr_index_artifacts = artifacts\<rparr>)))))))))))))))))"

definition receipt_invalid :: error where
  "receipt_invalid = publication_failure ''OPERATION_RECEIPT_INVALID''"

text \<open>The handler names \<open>KeyError\<close>, \<open>TypeError\<close> and \<open>ValueError\<close>; every other exception passes through it.\<close>

definition caught :: "'a result \<Rightarrow> 'a result" where
  "caught r = (case r of Inl e \<Rightarrow> Inl (if e \<in> {KeyError, TypeError, ValueError} then receipt_invalid else e) | Inr x \<Rightarrow> Inr x)"

definition result_from_receipt :: "(string \<Rightarrow> json option) \<Rightarrow> conversions \<Rightarrow> (string \<Rightarrow> string) \<Rightarrow> string \<Rightarrow> receipt_result result" where
  "result_from_receipt loads cv sha receipt =
     (case loads receipt of
        None \<Rightarrow> Inl receipt_invalid
      | Some (JObj d) \<Rightarrow> caught (parse_receipt cv sha d)
      | Some _ \<Rightarrow> Inl AttributeError)"

section \<open>The round trip\<close>

text \<open>What \<open>json.loads\<close> returns for the text that \<open>json.dumps\<close> writes with sorted keys.\<close>

fun sort_json :: "json \<Rightarrow> json" where
  "sort_json (JObj kvs) = JObj (sort_key fst (map (\<lambda>(k, v). (k, sort_json v)) kvs))"
| "sort_json (JList xs) = JList (map sort_json xs)"
| "sort_json v = v"

lemma map_of_filter_key: "map_of (filter (\<lambda>p. fst p = k) xs) k = map_of xs k"
  by (induction xs) auto

lemma map_of_sort_key [simp]: "map_of (sort_key fst xs) k = map_of xs k"
  by (metis map_of_filter_key sort_key_stable)

lemma keys_sort_key [simp]: "keys_within (sort_key fst d) ks = keys_within d ks" "keys_present (sort_key fst d) ks = keys_present d ks"
  by (simp_all add: keys_within_def keys_present_def list_all_iff)

lemma dict_get_sort_key [simp]: "dict_get (sort_key fst d) k = dict_get d k"
  by (simp add: dict_get_def)

lemma json_option_read: "json_str_option (json_option x) = Inr x" "sort_json (json_option x) = json_option x"
  by (simp_all add: json_str_option_def json_option_def split: option.split)

lemma relation_round_trip: "relation_of_item (sort_json (JObj (relation_dict s))) = Inr (relation_dict s)"
proof -
  have "map (\<lambda>(k, v). (k, sort_json v)) (relation_dict s) = relation_dict s" by (simp add: relation_dict_def)
  moreover have "keys_within (relation_dict s) RELATION_FIELDS" "keys_present (relation_dict s) RELATION_FIELDS"
    by (simp_all add: relation_dict_def keys_within_def keys_present_def RELATION_FIELDS_def)
  moreover have "map (\<lambda>k. (k, the (map_of (relation_dict s) k))) RELATION_FIELDS = relation_dict s"
    by (simp add: relation_dict_def RELATION_FIELDS_def)
  ultimately show ?thesis by (simp add: relation_of_item_def)
qed

lemma idx_round_trip:
  assumes "check_idx_evidence sha e = Inr e"
  shows "idx_of_item sha (sort_json (JObj (idx_dict e))) = Inr e"
proof -
  have "map (\<lambda>(k, v). (k, sort_json v)) (idx_dict e) = idx_dict e" by (simp add: idx_dict_def json_option_read)
  moreover have "keys_within (idx_dict e) IDX_FIELDS" "keys_present (idx_dict e) IDX_FIELDS"
    by (simp_all add: idx_dict_def keys_within_def keys_present_def IDX_FIELDS_def)
  ultimately have "idx_of_item sha (sort_json (JObj (idx_dict e))) = check_idx_evidence sha e"
    by (simp add: idx_of_item_def value_check_def guardE_def) (cases e, simp add: dict_get_def idx_dict_def json_str_required_def json_option_read)
  then show ?thesis using assms by simp
qed

lemma numeric_round_trip:
  "numeric_items cv (sort_json (JObj (map (\<lambda>(k, n). (k, JInt n)) (sort_key fst xs)))) = Inr (sort_key fst xs)"
proof -
  let ?j = "map (\<lambda>(k, n). (k, JInt n)) :: (string \<times> int) list \<Rightarrow> dict"
  have atoms: "map (\<lambda>(k, v). (k, sort_json v)) (?j ys) = ?j ys" for ys by (induction ys) auto
  have "map fst (?j ys) = map fst ys" for ys by (induction ys) auto
  then have sorted: "sort_key fst (?j (sort_key fst xs)) = ?j (sort_key fst xs)"
    using sorted_sort_key [of fst xs] by (metis sort_key_id_if_sorted)
  have read: "mapE (\<lambda>(k, n). bindE (py_int_of cv n) (\<lambda>i. Inr (k, i))) (?j zs) = Inr zs" for zs
    by (induction zs) (auto simp: py_int_of_def)
  show ?thesis by (simp only: sort_json.simps(1) atoms sorted numeric_items_def json.case read)
qed

lemma mapE_map_id: "\<forall>x\<in>set xs. f (g x) = Inr (h x) \<Longrightarrow> mapE f (map g xs) = Inr (map h xs)"
  by (induction xs) auto

text \<open>What a receipt keeps of a result: the summaries as objects, the counts in name order, and the mark of a reused result.\<close>

definition receipt_view :: "run_result \<Rightarrow> receipt_result" where
  "receipt_view r =
     \<lparr>tr_tables_written = tr_tables_written r, tr_pass1_scanned = tr_pass1_scanned r, tr_pass1_deleted = tr_pass1_deleted r,
      tr_pass2_written = tr_pass2_written r, tr_text_allocated = tr_text_allocated r, tr_text_reused = tr_text_reused r,
      tr_numeric_allocated = sort_key fst (tr_numeric_allocated r), tr_temporal_allocated = tr_temporal_allocated r,
      tr_relations = map relation_dict (tr_relations r), tr_spool_bytes = tr_spool_bytes r, tr_read_streams = tr_read_streams r,
      tr_operation_id = tr_operation_id r, tr_output_fp = tr_output_fp r, tr_reused_existing = True,
      tr_protected_created = tr_protected_created r, tr_index_artifacts = tr_index_artifacts r\<rparr>"

lemma receipt_reads_back:
  assumes "loads (result_receipt dumps r) = Some (sort_json (JObj (receipt_payload r)))"
    and "tr_operation_id r \<noteq> None" and "tr_output_fp r \<noteq> None"
    and "\<forall>e\<in>set (tr_index_artifacts r). check_idx_evidence sha e = Inr e"
  shows "result_from_receipt loads cv sha (result_receipt dumps r) = Inr (receipt_view r)"
proof -
  obtain i fp where ids: "tr_operation_id r = Some i" "tr_output_fp r = Some fp" using assms(2,3) by blast
  define p where "p = map (\<lambda>(k, v). (k, sort_json v)) (receipt_payload r)"
  have lookups: "map_of p ''schema_version'' = Some (JStr RECEIPT_SCHEMA_VERSION)"
      "map_of p ''tables_written'' = Some (JList (map JStr (tr_tables_written r)))"
      "map_of p ''pass1_records_scanned'' = Some (JInt (tr_pass1_scanned r))" "map_of p ''pass1_deleted_scanned'' = Some (JInt (tr_pass1_deleted r))"
      "map_of p ''pass2_records_written'' = Some (JInt (tr_pass2_written r))" "map_of p ''text_allocated'' = Some (JInt (tr_text_allocated r))"
      "map_of p ''text_reused'' = Some (JInt (tr_text_reused r))"
      "map_of p ''numeric_allocated'' = Some (sort_json (JObj (map (\<lambda>(k, n). (k, JInt n)) (sort_key fst (tr_numeric_allocated r)))))"
      "map_of p ''temporal_offset_allocated'' = Some (JBool (tr_temporal_allocated r))"
      "map_of p ''relations'' = Some (JList (map (\<lambda>s. sort_json (JObj (relation_dict s))) (tr_relations r)))"
      "map_of p ''evidence_spool_bytes'' = Some (JInt (tr_spool_bytes r))"
      "map_of p ''read_streams'' = Some (JList (map (\<lambda>(a, b). JList [JStr a, JStr b]) (tr_read_streams r)))"
      "map_of p ''operation_id'' = Some (JStr i)" "map_of p ''output_fingerprint'' = Some (JStr fp)"
      "map_of p ''protected_state_created'' = Some (JBool (tr_protected_created r))"
      "map_of p ''index_artifacts'' = Some (JList (map (\<lambda>e. sort_json (JObj (idx_dict e))) (tr_index_artifacts r)))"
    by (simp_all add: p_def receipt_payload_def ids json_option_def comp_def case_prod_beta del: sort_json.simps(1))
  have lists: "mapE relation_of_item (map (\<lambda>s. sort_json (JObj (relation_dict s))) (tr_relations r)) = Inr (map relation_dict (tr_relations r))"
    by (rule mapE_map_id) (simp only: relation_round_trip, simp)
  have artifacts: "mapE (idx_of_item sha) (map (\<lambda>e. sort_json (JObj (idx_dict e))) (tr_index_artifacts r)) = Inr (tr_index_artifacts r)"
    using mapE_map_id [of "tr_index_artifacts r" "idx_of_item sha" "\<lambda>e. sort_json (JObj (idx_dict e))" id] assms(4) idx_round_trip [of sha]
    by (simp del: sort_json.simps)
  have streams: "mapE (read_stream_of cv) (map (\<lambda>(a, b). JList [JStr a, JStr b]) xs) = Inr xs" for xs
    by (induction xs) (auto simp: read_stream_of_def py_str_of_def)
  have "loads (result_receipt dumps r) = Some (JObj (sort_key fst p))" using assms(1) by (simp add: p_def)
  moreover have "parse_receipt cv sha (sort_key fst p) = Inr (receipt_view r)"
    by (simp add: parse_receipt_def value_check_def guardE_def subscript_def dict_get_def lookups lists artifacts streams numeric_round_trip
        py_int_of_def py_str_of_def receipt_view_def ids comp_def del: sort_json.simps)
  ultimately show ?thesis by (simp add: result_from_receipt_def caught_def)
qed

text \<open>
  C31. A receipt is read back exactly. For a result with an operation id and an output fingerprint
  whose index evidence passes its own validation, and a JSON library that returns what it printed with
  sorted keys, reading the receipt yields the same result, marked as reused, with the relation
  summaries field by field.
\<close>

theorem receipt_round_trip:
  assumes "loads (result_receipt dumps r) = Some (sort_json (JObj (receipt_payload r)))"
    and "tr_operation_id r \<noteq> None" and "tr_output_fp r \<noteq> None"
    and "\<forall>e\<in>set (tr_index_artifacts r). check_idx_evidence sha e = Inr e"
  shows "result_from_receipt loads cv sha (result_receipt dumps r) = Inr (receipt_view r)"
  using assms by (rule receipt_reads_back)

definition receipt_sample :: run_result where
  "receipt_sample = \<lparr>tr_tables_written = [''A.DBF''], tr_pass1_scanned = 2, tr_pass1_deleted = 1, tr_pass2_written = 2, tr_text_allocated = 1,
     tr_text_reused = 0, tr_numeric_allocated = [(''rel-b'', 2), (''rel-a'', 1)], tr_temporal_allocated = True, tr_relations = [], tr_spool_bytes = 7,
     tr_read_streams = [(''A.DBF'', ''s1'')], tr_operation_id = Some ''vop-1'', tr_output_fp = Some ''out-0'', tr_reused_existing = False,
     tr_protected_created = True, tr_index_artifacts = []\<rparr>"

theorem receipt_round_trip_witness:
  "(\<forall>cv sha. result_from_receipt (\<lambda>_. Some (sort_json (JObj (receipt_payload receipt_sample)))) cv sha (result_receipt (\<lambda>_. ''text'') receipt_sample)
     = Inr (receipt_view receipt_sample))
   \<and> tr_numeric_allocated (receipt_view receipt_sample) = [(''rel-a'', 1), (''rel-b'', 2)]"
proof
  show "\<forall>cv sha. result_from_receipt (\<lambda>_. Some (sort_json (JObj (receipt_payload receipt_sample)))) cv sha (result_receipt (\<lambda>_. ''text'') receipt_sample)
     = Inr (receipt_view receipt_sample)"
    by (intro allI, rule receipt_round_trip) (simp_all add: receipt_sample_def)
  show "tr_numeric_allocated (receipt_view receipt_sample) = [(''rel-a'', 1), (''rel-b'', 2)]" by code_simp
qed

end
