(* ===== verification/Publication.thy ===== *)
theory Publication
  imports Run_Receipt
begin

text \<open>
  Staging, publication and crash recovery of a run: \<open>DatasetStaging\<close>, the identities and the
  reconciliation of \<^verbatim>\<open>src/src/dbf_anonymizer/engine/publication.py\<close>, the durable write and the atomic
  replace of \<^verbatim>\<open>durability.py\<close>, \<open>DestinationLock\<close> of \<^verbatim>\<open>engine/locking.py\<close>, and \<open>_existing_completed_result\<close>
  and the publication protocol of \<open>run_two_pass\<close> in \<^verbatim>\<open>engine/run.py\<close>.

  The world is the vault together with what the file system holds at the destination, in the private
  staging directory and beside the vault, and the flags of the running process. Every operation on the
  disk takes its fate from a tape: it succeeds, it fails with its typed error, or the process dies
  there. Death ends the program without running any handler.
\<close>

section \<open>The world\<close>

text \<open>
  The staging directory: \<open>transaction.json\<close> (absent, unreadable or a JSON value), its temporary file,
  the table directories by index, the assembled dataset, and whether anything else is in it.
\<close>

record staging_dir =
  sd_state :: "json option option"
  sd_tmp :: bool
  sd_tables :: "(nat \<times> inventory) list option"
  sd_dataset :: "entries option"
  sd_foreign :: bool

definition empty_staging :: staging_dir where
  "empty_staging = \<lparr>sd_state = None, sd_tmp = False, sd_tables = None, sd_dataset = None, sd_foreign = False\<rparr>"

text \<open>The fields of the \<open>DatasetStaging\<close> object and the flags of \<open>run_two_pass\<close>.\<close>

record process =
  pr_created :: bool
  pr_renamed :: bool
  pr_promoted :: bool
  pr_recorded :: "string option"
  pr_started :: bool
  pr_spool :: bool
  pr_evidence :: bool

definition new_process :: process where
  "new_process = \<lparr>pr_created = False, pr_renamed = False, pr_promoted = False, pr_recorded = None, pr_started = False,
     pr_spool = False, pr_evidence = False\<rparr>"

text \<open>The lock file: absent, present and free, locked by a live process, or not a regular file.\<close>

datatype lock_file = No_Lock_File | Lock_Free | Lock_Held | Lock_Irregular

datatype fate = Succeeds | Fails | Dies

record world = vault +
  wd_destination :: "node option"
  wd_staging :: "staging_dir option"
  wd_spool :: bool
  wd_evidence :: bool
  wd_lock :: lock_file
  wd_process :: process
  wd_fates :: "fate list"

datatype 'a outcome = Returned 'a | Raised error | Died

type_synonym 'a pm = "world \<Rightarrow> 'a outcome \<times> world"

definition retP :: "'a \<Rightarrow> 'a pm" where "retP x w = (Returned x, w)"
definition raiseP :: "error \<Rightarrow> 'a pm" where "raiseP e w = (Raised e, w)"

definition bindP :: "'a pm \<Rightarrow> ('a \<Rightarrow> 'b pm) \<Rightarrow> 'b pm" where
  "bindP m f w =
     (case m w of
        (Returned x, w') \<Rightarrow> f x w'
      | (Raised e, w') \<Rightarrow> (Raised e, w')
      | (Died, w') \<Rightarrow> (Died, w'))"

definition catchP :: "'a pm \<Rightarrow> (error \<Rightarrow> 'a pm) \<Rightarrow> 'a pm" where
  "catchP m h w = (case m w of (Raised e, w') \<Rightarrow> h e w' | r \<Rightarrow> r)"

definition guardP :: "bool \<Rightarrow> error \<Rightarrow> unit pm" where
  "guardP b e = (if b then retP () else raiseP e)"

definition liftP :: "'a result \<Rightarrow> 'a pm" where
  "liftP r = (case r of Inl e \<Rightarrow> raiseP e | Inr x \<Rightarrow> retP x)"

definition getP :: "(world \<Rightarrow> 'a) \<Rightarrow> 'a pm" where "getP f w = (Returned (f w), w)"

definition setP :: "(world \<Rightarrow> world) \<Rightarrow> unit pm" where "setP f w = (Returned (), f w)"

fun eachP :: "('a \<Rightarrow> unit pm) \<Rightarrow> 'a list \<Rightarrow> unit pm" where
  "eachP f [] = retP ()"
| "eachP f (x # xs) = bindP (f x) (\<lambda>_. eachP f xs)"

definition next_fate :: "world \<Rightarrow> fate \<times> world" where
  "next_fate w = (case wd_fates w of [] \<Rightarrow> (Succeeds, w) | f # fs \<Rightarrow> (f, w\<lparr>wd_fates := fs\<rparr>))"

text \<open>One operation of the operating system, and the error it raises when it fails.\<close>

definition io :: "(world \<Rightarrow> world) \<Rightarrow> error \<Rightarrow> unit pm" where
  "io effect e w =
     (case next_fate w of
        (Succeeds, w') \<Rightarrow> (Returned (), effect w')
      | (Fails, w') \<Rightarrow> (Raised e, w')
      | (Dies, w') \<Rightarrow> (Died, w'))"

text \<open>
  A method of the vault. Its transaction commits, or its commit fails, or the process dies before it.
  Death after the commit is death at the next operation.
\<close>

definition of_result :: "'a result \<times> world \<Rightarrow> 'a outcome \<times> world" where
  "of_result r = (case r of (Inl e, w) \<Rightarrow> (Raised e, w) | (Inr x, w) \<Rightarrow> (Returned x, w))"

definition query :: "('a, unit world_ext) vm \<Rightarrow> 'a pm" where
  "query m w = of_result (m w)"

definition on_vault :: "('a, unit world_ext) vm \<Rightarrow> 'a pm" where
  "on_vault m w =
     (case next_fate w of
        (Succeeds, w1) \<Rightarrow> of_result (m w1)
      | (Fails, w1) \<Rightarrow> (let (r, w2) = m (w1\<lparr>commit_fails := True\<rparr>) in of_result (r, w2\<lparr>commit_fails := commit_fails w1\<rparr>))
      | (Dies, w1) \<Rightarrow> (Died, w1))"

definition checkpoint :: "unit pm" where
  "checkpoint = io id (CancellationError OPERATION_CANCELLED ''CANCELLED_BY_CALLER'')"

section \<open>Durability\<close>

definition durability_failure :: "string \<Rightarrow> error" where
  "durability_failure detail = PublicationError PUBLICATION_INCOMPLETE detail"

definition on_staging :: "(staging_dir \<Rightarrow> staging_dir) \<Rightarrow> world \<Rightarrow> world" where
  "on_staging f w = w\<lparr>wd_staging := map_option f (wd_staging w)\<rparr>"

text \<open>
  The directory entry is synced, or the platform cannot sync it (both return), or the sync fails.
\<close>

definition sync_directory :: "unit pm" where
  "sync_directory = io id (durability_failure ''DURABILITY_DIRECTORY_SYNC_FAILED'')"

text \<open>\<open>write_durable_bytes\<close> for \<open>transaction.json\<close>: temporary file, atomic replace, directory sync.\<close>

definition write_state :: "json \<Rightarrow> unit pm" where
  "write_state j =
     bindP (catchP
         (bindP (io (on_staging (\<lambda>s. s\<lparr>sd_tmp := True\<rparr>)) OSError) (\<lambda>_.
            io (on_staging (\<lambda>s. s\<lparr>sd_tmp := False, sd_state := Some (Some j)\<rparr>)) OSError))
         (\<lambda>_. bindP (catchP (io (on_staging (\<lambda>s. s\<lparr>sd_tmp := False\<rparr>)) OSError) (\<lambda>_. retP ())) (\<lambda>_.
            raiseP (durability_failure ''DURABILITY_FILE_WRITE_FAILED'')))) (\<lambda>_.
       sync_directory)"

text \<open>\<open>fsync_tree\<close> syncs every file and then every directory, with a checkpoint before each.\<close>

fun files_below :: "node \<Rightarrow> nat" and folders_below :: "node \<Rightarrow> nat" where
  "files_below (Folder es) = sum_list (map (\<lambda>e. files_below (snd e)) es)"
| "files_below (RegularFile c) = 1"
| "files_below _ = 0"
| "folders_below (Folder es) = Suc (sum_list (map (\<lambda>e. folders_below (snd e)) es))"
| "folders_below _ = 0"

definition fsync_tree :: "node \<Rightarrow> unit pm" where
  "fsync_tree n =
     bindP (eachP (\<lambda>_. bindP checkpoint (\<lambda>_. io id (durability_failure ''DURABILITY_FILE_SYNC_FAILED''))) [0..<files_below n]) (\<lambda>_.
     bindP (eachP (\<lambda>_. bindP checkpoint (\<lambda>_. sync_directory)) [0..<folders_below n]) (\<lambda>_.
     bindP checkpoint (\<lambda>_. sync_directory)))"

section \<open>Identities\<close>

record publication_identity =
  pi_operation_id :: string
  pi_destination_identity :: string
  pi_vault_fp :: string
  pi_binding_fp :: string
  pi_source_fp :: string
  pi_policy_fp :: string
  pi_relationship_fp :: string
  pi_lock_name :: string
  pi_staging_name :: string

type_synonym json_digest = "json \<Rightarrow> string"

text \<open>The resolved and normalized path is an argument.\<close>

definition derive_destination_identity :: "json_digest \<Rightarrow> string \<Rightarrow> string" where
  "derive_destination_identity digest path = ''dst-'' @ digest (JObj [(''path'', JStr path)])"

definition derive_vault_fingerprint :: "json_digest \<Rightarrow> string \<Rightarrow> string \<Rightarrow> string \<Rightarrow> string \<Rightarrow> string \<Rightarrow> string" where
  "derive_vault_fingerprint digest schema vault_id source policy relationship =
     ''vlt-'' @ digest (JObj [(''schema'', JStr schema), (''vault_id'', JStr vault_id), (''source'', JStr source), (''policy'', JStr policy),
       (''relationships'', JStr relationship)])"

definition derive_binding_fingerprint :: "json_digest \<Rightarrow> string \<Rightarrow> string \<Rightarrow> string \<Rightarrow> string \<Rightarrow> string \<Rightarrow> string" where
  "derive_binding_fingerprint digest source policy relationship vault_fp destination =
     ''opb-'' @ digest (JObj [(''source'', JStr source), (''policy'', JStr policy), (''relationships'', JStr relationship), (''vault'', JStr vault_fp),
       (''destination'', JStr destination)])"

definition derive_operation_id :: "json_digest \<Rightarrow> string \<Rightarrow> string \<Rightarrow> string \<Rightarrow> string \<Rightarrow> string" where
  "derive_operation_id digest source policy relationship destination =
     ''vop-'' @ take 32 (digest (JObj [(''source'', JStr source), (''policy'', JStr policy), (''relationships'', JStr relationship),
       (''destination'', JStr destination)]))"

text \<open>An empty operation id counts as none (\<open>or\<close>); \<open>token\<close> is the digest of the destination identity.\<close>

definition build_publication_identity ::
    "json_digest \<Rightarrow> (string \<Rightarrow> string) \<Rightarrow> string \<Rightarrow> string \<Rightarrow> string \<Rightarrow> string \<Rightarrow> string \<Rightarrow> string \<Rightarrow> string option \<Rightarrow> publication_identity" where
  "build_publication_identity digest token path schema vault_id source policy relationship operation_id =
     (let destination = derive_destination_identity digest path;
          vault_fp = derive_vault_fingerprint digest schema vault_id source policy relationship;
          binding = derive_binding_fingerprint digest source policy relationship vault_fp destination;
          effective = (case operation_id of Some i \<Rightarrow> if i \<noteq> [] then i else derive_operation_id digest source policy relationship destination
                       | None \<Rightarrow> derive_operation_id digest source policy relationship destination);
          sibling = take 24 (token destination)
      in \<lparr>pi_operation_id = effective, pi_destination_identity = destination, pi_vault_fp = vault_fp, pi_binding_fp = binding,
          pi_source_fp = source, pi_policy_fp = policy, pi_relationship_fp = relationship,
          pi_lock_name = ''.dbf-anonymizer-'' @ sibling @ ''.lock'', pi_staging_name = ''.dbf-anonymizer-'' @ sibling @ ''.staging''\<rparr>)"

section \<open>Staging\<close>

definition TXN_SCHEMA_VERSION :: string where "TXN_SCHEMA_VERSION = ''1.1''"
definition PHASE_RUNNING :: string where "PHASE_RUNNING = ''RUNNING''"
definition PHASE_READY_TO_PROMOTE :: string where "PHASE_READY_TO_PROMOTE = ''READY_TO_PROMOTE''"
definition PHASE_PROMOTED :: string where "PHASE_PROMOTED = ''PROMOTED''"

definition crash_state :: "publication_identity \<Rightarrow> string \<Rightarrow> string option \<Rightarrow> json" where
  "crash_state i phase noted =
     JObj ([(''schema_version'', JStr TXN_SCHEMA_VERSION), (''phase'', JStr phase), (''operation_id'', JStr (pi_operation_id i)),
            (''binding_fingerprint'', JStr (pi_binding_fp i)), (''destination_identity'', JStr (pi_destination_identity i))]
           @ (case noted of None \<Rightarrow> [] | Some fp \<Rightarrow> [(''output_fingerprint'', JStr fp)]))"

definition target_conflict :: "string \<Rightarrow> error" where
  "target_conflict detail = PathError DESTINATION_CONFLICT detail"

definition set_process :: "(process \<Rightarrow> process) \<Rightarrow> unit pm" where
  "set_process f = setP (\<lambda>w. w\<lparr>wd_process := f (wd_process w)\<rparr>)"

definition staging_create :: "publication_identity \<Rightarrow> unit pm" where
  "staging_create i =
     bindP (getP wd_staging) (\<lambda>root.
     bindP (guardP (root = None) (publication_failure ''STALE_STAGING_DETECTED'')) (\<lambda>_.
     bindP (io (\<lambda>w. w\<lparr>wd_staging := Some empty_staging\<rparr>) (publication_failure ''STAGING_CREATE_FAILED'')) (\<lambda>_.
     bindP (set_process (\<lambda>p. p\<lparr>pr_created := True\<rparr>)) (\<lambda>_.
     bindP (io (on_staging (\<lambda>s. s\<lparr>sd_tables := Some []\<rparr>)) (publication_failure ''STAGING_CREATE_FAILED'')) (\<lambda>_.
     bindP (io (on_staging (\<lambda>s. s\<lparr>sd_dataset := Some []\<rparr>)) (publication_failure ''STAGING_CREATE_FAILED'')) (\<lambda>_.
       write_state (crash_state i PHASE_RUNNING None)))))))"

definition staged_tables :: "world \<Rightarrow> (nat \<times> inventory) list" where
  "staged_tables w = (case wd_staging w of None \<Rightarrow> [] | Some s \<Rightarrow> (case sd_tables s of None \<Rightarrow> [] | Some ts \<Rightarrow> ts))"

definition staged_dataset :: "world \<Rightarrow> entries option" where
  "staged_dataset w = (case wd_staging w of None \<Rightarrow> None | Some s \<Rightarrow> sd_dataset s)"

definition with_tables :: "((nat \<times> inventory) list \<Rightarrow> (nat \<times> inventory) list) \<Rightarrow> world \<Rightarrow> world" where
  "with_tables f = on_staging (\<lambda>s. s\<lparr>sd_tables := map_option f (sd_tables s)\<rparr>)"

definition table_destination :: "nat \<Rightarrow> unit pm" where
  "table_destination index =
     bindP (getP staged_tables) (\<lambda>ts.
     bindP (guardP (index \<notin> fst ` set ts) (publication_failure ''TABLE_STAGING_CONFLICT'')) (\<lambda>_.
       io (with_tables (\<lambda>ts. ts @ [(index, [])])) (publication_failure ''TABLE_STAGING_CREATE_FAILED'')))"

text \<open>The Direct Write boundary leaves the table and, where it has memo fields, its companion.\<close>

definition write_fresh_table :: "nat \<Rightarrow> inventory \<Rightarrow> unit pm" where
  "write_fresh_table index files =
     io (with_tables (map (\<lambda>(k, fs). if k = index then (k, files) else (k, fs)))) (DBFBridgeError DBFBRIDGE_FAILURE ''DIRECT_WRITE_FAILED'')"

text \<open>\<open>mkdir(parents=True)\<close> and \<open>os.replace\<close> below the dataset root; \<open>None\<close> is an \<open>OSError\<close>.\<close>

fun put_file :: "string list \<Rightarrow> bytes \<Rightarrow> entries \<Rightarrow> entries option" where
  "put_file [] content es = None"
| "put_file [name] content es =
     (case map_of es name of
        Some (Folder sub) \<Rightarrow> None
      | Some UnreadableFolder \<Rightarrow> None
      | _ \<Rightarrow> Some (AList.update name (RegularFile content) es))"
| "put_file (d # p # ps) content es =
     (case map_of es d of
        None \<Rightarrow> map_option (\<lambda>sub. es @ [(d, Folder sub)]) (put_file (p # ps) content [])
      | Some (Folder sub) \<Rightarrow> map_option (\<lambda>sub'. AList.update d (Folder sub') es) (put_file (p # ps) content sub)
      | Some _ \<Rightarrow> None)"

definition with_suffix :: "string \<Rightarrow> string \<Rightarrow> string" where
  "with_suffix s ext = take (length s - length (path_suffix s)) s @ ext"

definition move_staged :: "nat \<Rightarrow> string \<Rightarrow> string \<Rightarrow> world \<Rightarrow> world option" where
  "move_staged index name relative w =
     (case (map_of (staged_tables w) index, staged_dataset w) of
        (Some files, Some es) \<Rightarrow>
          (case map_of files name of
             None \<Rightarrow> None
           | Some content \<Rightarrow>
               map_option (\<lambda>es'. on_staging (\<lambda>s. s\<lparr>sd_dataset := Some es'\<rparr>)
                     (with_tables (map (\<lambda>(k, fs). if k = index then (k, filter (\<lambda>f. fst f \<noteq> name) fs) else (k, fs))) w))
                 (put_file (split_on chr_slash relative) content es))
      | _ \<Rightarrow> None)"

definition try_move :: "nat \<Rightarrow> string \<Rightarrow> string \<Rightarrow> unit pm" where
  "try_move index name relative w =
     (case move_staged index name relative w of
        None \<Rightarrow> (Raised (publication_failure ''TABLE_ASSEMBLY_FAILED''), w)
      | Some w' \<Rightarrow> io (\<lambda>v. v\<lparr>wd_staging := wd_staging w'\<rparr>) (publication_failure ''TABLE_ASSEMBLY_FAILED'') w)"

definition assemble_table :: "nat \<Rightarrow> string \<Rightarrow> unit pm" where
  "assemble_table index relative =
     (let name = last (split_on chr_slash relative); memo = with_suffix name ''.fpt''
      in bindP (getP (\<lambda>w. map_of (staged_tables w) index)) (\<lambda>files.
         bindP (guardP (files \<noteq> None \<and> name \<in> fst ` set (the files)) (publication_failure ''STAGED_TABLE_MISSING'')) (\<lambda>_.
         bindP (try_move index name relative) (\<lambda>_.
         bindP (if memo \<in> fst ` set (filter (\<lambda>f. fst f \<noteq> name) (the files)) then try_move index memo (with_suffix relative ''.fpt'') else retP ()) (\<lambda>_.
         bindP (getP (\<lambda>w. map_of (staged_tables w) index)) (\<lambda>rest.
         bindP (guardP (rest = Some []) (publication_failure ''TABLE_ASSEMBLY_FAILED'')) (\<lambda>_.
           io (with_tables (filter (\<lambda>(k, fs). k \<noteq> index))) (publication_failure ''TABLE_ASSEMBLY_FAILED''))))))))"

definition persist_payload :: "unit pm" where
  "persist_payload =
     bindP (getP staged_dataset) (\<lambda>ds.
       case ds of
         None \<Rightarrow> raiseP (publication_failure ''STAGED_PAYLOAD_MISSING'')
       | Some es \<Rightarrow> fsync_tree (Folder es))"

text \<open>The first fingerprint that is recorded stays.\<close>

definition write_phase :: "publication_identity \<Rightarrow> string \<Rightarrow> string option \<Rightarrow> unit pm" where
  "write_phase i phase output_fp =
     bindP (set_process (\<lambda>p. if pr_recorded p = None \<and> output_fp \<noteq> None then p\<lparr>pr_recorded := output_fp\<rparr> else p)) (\<lambda>_.
     bindP (getP (\<lambda>w. pr_recorded (wd_process w))) (\<lambda>noted.
       write_state (crash_state i phase noted)))"

definition record_staged_fingerprint :: "string \<Rightarrow> unit pm" where
  "record_staged_fingerprint fp = set_process (\<lambda>p. p\<lparr>pr_recorded := Some fp\<rparr>)"

definition mark_ready_to_promote :: "publication_identity \<Rightarrow> string \<Rightarrow> unit pm" where
  "mark_ready_to_promote i fp = write_phase i PHASE_READY_TO_PROMOTE (Some fp)"

definition mark_promoted :: "publication_identity \<Rightarrow> unit pm" where
  "mark_promoted i =
     bindP (set_process (\<lambda>p. p\<lparr>pr_promoted := True\<rparr>)) (\<lambda>_.
     bindP (getP (\<lambda>w. pr_recorded (wd_process w))) (\<lambda>noted. write_phase i PHASE_PROMOTED noted))"

text \<open>\<open>atomic_replace\<close>: the rename, and then the sync of the parent, which may fail after it.\<close>

definition promote :: "unit pm" where
  "promote =
     bindP (getP (\<lambda>w. (wd_destination w, staged_dataset w))) (\<lambda>(destination, ds).
     bindP (guardP (destination = None) (target_conflict ''TARGET_ALREADY_EXISTS'')) (\<lambda>_.
       case ds of
         None \<Rightarrow> raiseP (publication_failure ''STAGING_PROMOTION_FAILED'')
       | Some es \<Rightarrow>
           bindP (io (\<lambda>w. on_staging (\<lambda>s. s\<lparr>sd_dataset := None\<rparr>) (w\<lparr>wd_destination := Some (Folder es)\<rparr>))
                    (publication_failure ''STAGING_PROMOTION_FAILED'')) (\<lambda>_.
           bindP (catchP sync_directory (\<lambda>_.
                    bindP (set_process (\<lambda>p. p\<lparr>pr_renamed := True\<rparr>)) (\<lambda>_.
                      raiseP (durability_failure ''DURABILITY_DIRECTORY_SYNC_FAILED_AFTER_RENAME'')))) (\<lambda>_.
             set_process (\<lambda>p. p\<lparr>pr_renamed := True, pr_promoted := True\<rparr>)))))"

definition staging_is_empty :: "staging_dir \<Rightarrow> bool" where
  "staging_is_empty s \<longleftrightarrow> sd_state s = None \<and> \<not> sd_tmp s \<and> sd_tables s = None \<and> sd_dataset s = None \<and> \<not> sd_foreign s"

text \<open>\<open>rmdir\<close> and \<open>unlink\<close> refuse what is not there or not empty.\<close>

definition remove_root :: "error \<Rightarrow> unit pm" where
  "remove_root e w =
     (case wd_staging w of
        Some s \<Rightarrow> if staging_is_empty s then io (\<lambda>w. w\<lparr>wd_staging := None\<rparr>) e w else (Raised e, w)
      | None \<Rightarrow> (Raised e, w))"

definition remove_metadata_after_promotion :: "unit pm" where
  "remove_metadata_after_promotion =
     (let failed = publication_failure ''STAGING_CLEANUP_FAILED''
      in bindP (getP (\<lambda>w. (pr_promoted (wd_process w), wd_staging w))) (\<lambda>(promoted, root).
         bindP (guardP promoted (publication_failure ''PROMOTION_NOT_COMPLETE'')) (\<lambda>_.
         bindP (case root of
                  None \<Rightarrow> retP ()
                | Some s \<Rightarrow> (case sd_tables s of
                     None \<Rightarrow> retP ()
                   | Some ts \<Rightarrow> if ts = [] then io (on_staging (\<lambda>s. s\<lparr>sd_tables := None\<rparr>)) failed else raiseP failed)) (\<lambda>_.
         bindP (guardP (root \<noteq> None \<and> sd_state (the root) \<noteq> None) failed) (\<lambda>_.
         bindP (io (on_staging (\<lambda>s. s\<lparr>sd_state := None\<rparr>)) failed) (\<lambda>_.
           remove_root failed))))))"

text \<open>The same removal after completion, for callers that take a missing entry as already removed.\<close>

definition cleanup_durable_state :: "unit pm" where
  "cleanup_durable_state =
     (let failed = publication_failure ''STAGING_CLEANUP_FAILED''
      in bindP (getP (\<lambda>w. (pr_promoted (wd_process w), wd_staging w))) (\<lambda>(promoted, root).
         bindP (guardP promoted (publication_failure ''PROMOTION_NOT_COMPLETE'')) (\<lambda>_.
         case root of
           None \<Rightarrow> retP ()
         | Some s \<Rightarrow>
             bindP (case sd_tables s of
                      None \<Rightarrow> retP ()
                    | Some ts \<Rightarrow> if ts = [] then io (on_staging (\<lambda>s. s\<lparr>sd_tables := None\<rparr>)) failed else raiseP failed) (\<lambda>_.
             if sd_state s = None then retP ()
             else bindP (io (on_staging (\<lambda>s. s\<lparr>sd_state := None\<rparr>)) failed) (\<lambda>_. remove_root failed)))))"

text \<open>The state record of a staging root, where it is a readable object.\<close>

definition transaction_state :: "staging_dir option \<Rightarrow> dict option" where
  "transaction_state root =
     (case root of
        None \<Rightarrow> None
      | Some s \<Rightarrow> (case sd_state s of Some (Some (JObj d)) \<Rightarrow> Some d | _ \<Rightarrow> None))"

text \<open>\<open>shutil.rmtree\<close> removes the entries in the order of the directory listing, then the root.\<close>

datatype part = State_Part | Tmp_Part | Tables_Part | Dataset_Part | Foreign_Part

fun drop_part :: "part \<Rightarrow> staging_dir \<Rightarrow> staging_dir" where
  "drop_part State_Part s = s\<lparr>sd_state := None\<rparr>"
| "drop_part Tmp_Part s = s\<lparr>sd_tmp := False\<rparr>"
| "drop_part Tables_Part s = s\<lparr>sd_tables := None\<rparr>"
| "drop_part Dataset_Part s = s\<lparr>sd_dataset := None\<rparr>"
| "drop_part Foreign_Part s = s\<lparr>sd_foreign := False\<rparr>"

definition rmtree_staging :: "part list \<Rightarrow> unit pm" where
  "rmtree_staging order =
     bindP (eachP (\<lambda>p. io (on_staging (drop_part p)) OSError) order) (\<lambda>_. remove_root OSError)"

definition cleanup_owned :: "part list \<Rightarrow> unit pm" where
  "cleanup_owned order =
     bindP (getP (\<lambda>w. (wd_process w, wd_staging w))) (\<lambda>(p, root).
       if \<not> pr_created p \<or> pr_renamed p \<or> root = None then retP ()
       else catchP (rmtree_staging order) (\<lambda>_. raiseP (publication_failure ''STAGING_CLEANUP_FAILED'')))"

section \<open>Reconciliation\<close>

definition staging_residual_is_owned :: "staging_dir \<Rightarrow> bool" where
  "staging_residual_is_owned s \<longleftrightarrow> sd_dataset s = None \<and> \<not> sd_foreign s \<and> (sd_tables s = None \<or> sd_tables s = Some [])"

definition coherent_state :: "publication_identity \<Rightarrow> string \<Rightarrow> json \<Rightarrow> bool" where
  "coherent_state i fp j =
     (case j of
        JObj d \<Rightarrow>
          dict_get d ''schema_version'' = JStr TXN_SCHEMA_VERSION \<and> dict_get d ''phase'' = JStr PHASE_PROMOTED
          \<and> dict_get d ''operation_id'' = JStr (pi_operation_id i) \<and> dict_get d ''destination_identity'' = JStr (pi_destination_identity i)
          \<and> dict_get d ''binding_fingerprint'' = JStr (pi_binding_fp i) \<and> dict_get d ''output_fingerprint'' = JStr fp
      | _ \<Rightarrow> False)"

definition reconcile_completed_staging_residual :: "part list \<Rightarrow> publication_identity \<Rightarrow> string \<Rightarrow> staging_dir \<Rightarrow> unit pm" where
  "reconcile_completed_staging_residual order i fp s =
     (case sd_state s of
        None \<Rightarrow> raiseP (publication_failure ''COMPLETED_STAGING_STATE_MISSING'')
      | Some None \<Rightarrow> raiseP (publication_failure ''COMPLETED_STAGING_STATE_INVALID'')
      | Some (Some j) \<Rightarrow>
          bindP (guardP (coherent_state i fp j) (publication_failure ''COMPLETED_STAGING_STATE_INVALID'')) (\<lambda>_.
          bindP (guardP (staging_residual_is_owned s) (publication_failure ''COMPLETED_STAGING_UNRECOGNIZED'')) (\<lambda>_.
            catchP (rmtree_staging order) (\<lambda>_. retP ()))))"

section \<open>The publication protocol of a run\<close>

record run_environment =
  re_sha :: "bytes \<Rightarrow> string"
  re_dumps :: "json \<Rightarrow> string"
  re_loads :: "string \<Rightarrow> json option"
  re_conversions :: conversions
  re_idx_sha :: "string \<Rightarrow> string"
  re_listing :: "part list"
  re_owner :: string
  re_started_at :: string
  re_completed_at :: string

text \<open>
  The passes of a run are an argument: a program that returns the result and, per table, its path and
  the files the Direct Write boundary leaves for it.
\<close>

type_synonym run_work = "(run_result \<times> (string \<times> inventory) list) pm"

definition engine_identity_failure :: "string \<Rightarrow> error" where
  "engine_identity_failure detail = VaultError VAULT_IDENTITY_MISMATCH detail"

definition engine_spool_failure :: "string \<Rightarrow> error" where
  "engine_spool_failure detail = VaultError VAULT_STATE_INVALID (''ENGINE_SPOOL_'' @ detail)"

definition refuse_spool_leftovers :: "unit pm" where
  "refuse_spool_leftovers = bindP (getP wd_spool) (\<lambda>b. guardP (\<not> b) (engine_spool_failure ''LEFTOVER_REFUSED''))"

definition refuse_evidence_leftovers :: "unit pm" where
  "refuse_evidence_leftovers = bindP (getP wd_evidence) (\<lambda>b. guardP (\<not> b) (engine_spool_failure ''EVIDENCE_LEFTOVER_REFUSED''))"

definition create_evidence_root :: "unit pm" where
  "create_evidence_root =
     bindP refuse_evidence_leftovers (\<lambda>_.
     bindP (io (\<lambda>w. w\<lparr>wd_evidence := True\<rparr>) (engine_spool_failure ''EVIDENCE_ROOT_CREATE_FAILED'')) (\<lambda>_.
       set_process (\<lambda>p. p\<lparr>pr_evidence := True\<rparr>)))"

definition cleanup_evidence_root :: "unit pm" where
  "cleanup_evidence_root =
     bindP (getP wd_evidence) (\<lambda>b.
       if \<not> b then retP () else io (\<lambda>w. w\<lparr>wd_evidence := False\<rparr>) (engine_spool_failure ''EVIDENCE_CLEANUP_FAILED''))"

text \<open>The bytes are read block by block, with a cancellation poll; the read itself may fail.\<close>

definition read_fingerprint :: "run_environment \<Rightarrow> node option \<Rightarrow> string pm" where
  "read_fingerprint env root =
     bindP checkpoint (\<lambda>_. bindP (io id OSError) (\<lambda>_. liftP (fingerprint_dataset (re_sha env) (\<lambda>_. Inr ()) root)))"

definition operation_binding_of :: "publication_identity \<Rightarrow> operation_binding" where
  "operation_binding_of i = \<lparr>ob_source = Some (pi_source_fp i), ob_policy = Some (pi_policy_fp i), ob_relationship = Some (pi_relationship_fp i),
     ob_vault = Some (pi_vault_fp i), ob_destination = Some (pi_destination_identity i), ob_binding = Some (pi_binding_fp i)\<rparr>"

definition operation_bound :: "publication_identity \<Rightarrow> operation_row \<Rightarrow> bool" where
  "operation_bound i r \<longleftrightarrow> op_source_fp r = Some (pi_source_fp i) \<and> op_policy_fp r = Some (pi_policy_fp i)
     \<and> op_relationship_fp r = Some (pi_relationship_fp i) \<and> op_vault_fp r = Some (pi_vault_fp i)
     \<and> op_destination r = Some (pi_destination_identity i) \<and> op_binding_fp r = Some (pi_binding_fp i)"

definition completed_evidence :: "run_environment \<Rightarrow> publication_identity \<Rightarrow> operation_row \<Rightarrow> receipt_result pm" where
  "completed_evidence env i r =
     (case (op_output_fp r, op_result_json r) of
        (Some stored, Some receipt) \<Rightarrow>
          bindP (getP wd_destination) (\<lambda>destination.
          bindP (read_fingerprint env destination) (\<lambda>actual.
          bindP (guardP (actual = stored) (publication_failure ''COMPLETED_OUTPUT_MISMATCH'')) (\<lambda>_.
          bindP (liftP (result_from_receipt (re_loads env) (re_conversions env) (re_idx_sha env) receipt)) (\<lambda>result.
          bindP (guardP (tr_operation_id result = Some (pi_operation_id i) \<and> tr_output_fp result = Some stored)
                   (publication_failure ''OPERATION_RECEIPT_MISMATCH'')) (\<lambda>_.
          bindP (getP wd_staging) (\<lambda>root.
          bindP (case root of None \<Rightarrow> retP () | Some s \<Rightarrow> reconcile_completed_staging_residual (re_listing env) i stored s) (\<lambda>_.
            retP result)))))))
      | _ \<Rightarrow> raiseP (publication_failure ''COMPLETED_OPERATION_INCOMPLETE''))"

definition existing_completed_result :: "run_environment \<Rightarrow> publication_identity \<Rightarrow> receipt_result option pm" where
  "existing_completed_result env i =
     bindP (query (operation_record (pi_operation_id i))) (\<lambda>operation.
     bindP (query (operation_for_destination (pi_destination_identity i))) (\<lambda>destination_operation.
       case operation of
         None \<Rightarrow>
           bindP (guardP (destination_operation = None) (target_conflict ''DESTINATION_BOUND_TO_OTHER_OPERATION'')) (\<lambda>_.
           bindP (getP (\<lambda>w. (wd_staging w, wd_destination w))) (\<lambda>(root, destination).
           bindP (guardP (root = None) (publication_failure ''STALE_STAGING_DETECTED'')) (\<lambda>_.
           bindP (guardP (destination = None) (target_conflict ''UNOWNED_TARGET_EXISTS'')) (\<lambda>_. retP None))))
       | Some r \<Rightarrow>
           bindP (guardP (operation_bound i r) (engine_identity_failure ''ENGINE_OPERATION_BINDING_MISMATCH'')) (\<lambda>_.
           bindP (guardP (map_option op_id destination_operation = Some (pi_operation_id i)) (publication_failure ''DESTINATION_OPERATION_MISSING'')) (\<lambda>_.
           bindP (guardP (op_state r \<noteq> STARTED) (publication_failure ''STALE_OPERATION_DETECTED'')) (\<lambda>_.
           bindP (guardP (op_state r = COMPLETED) (publication_failure ''OPERATION_STATE_UNKNOWN'')) (\<lambda>_.
           bindP (completed_evidence env i r) (\<lambda>result. retP (Some result))))))))"

definition stage_table :: "nat \<times> string \<times> inventory \<Rightarrow> unit pm" where
  "stage_table t = (case t of (index, relative, files) \<Rightarrow>
     bindP checkpoint (\<lambda>_.
     bindP (table_destination index) (\<lambda>_.
     bindP (write_fresh_table index files) (\<lambda>_. assemble_table index relative))))"

definition finished_result :: "publication_identity \<Rightarrow> string \<Rightarrow> bool \<Rightarrow> run_result \<Rightarrow> run_result" where
  "finished_result i fp created r =
     r\<lparr>tr_operation_id := Some (pi_operation_id i), tr_output_fp := Some fp, tr_protected_created := created\<rparr>"

text \<open>The body of the \<open>try\<close> statement, from the operation row to the removal of the private metadata.\<close>

definition write_dataset :: "run_environment \<Rightarrow> publication_identity \<Rightarrow> bool \<Rightarrow> run_work \<Rightarrow> run_result pm" where
  "write_dataset env i created work =
     bindP (on_vault (with_transaction (begin_operation [] (re_started_at env) (Some (pi_operation_id i)) (operation_binding_of i)))) (\<lambda>_.
     bindP (set_process (\<lambda>p. p\<lparr>pr_started := True\<rparr>)) (\<lambda>_.
     bindP (staging_create i) (\<lambda>_.
     bindP (io (\<lambda>w. w\<lparr>wd_spool := True, wd_process := (wd_process w)\<lparr>pr_spool := True\<rparr>\<rparr>) (engine_spool_failure ''CREATE_FAILED'')) (\<lambda>_.
     bindP work (\<lambda>(result, tables).
     bindP create_evidence_root (\<lambda>_.
     bindP (eachP stage_table (enumerate 0 tables)) (\<lambda>_.
     bindP cleanup_evidence_root (\<lambda>_.
     bindP (getP staged_dataset) (\<lambda>ds.
     bindP (read_fingerprint env (map_option Folder ds)) (\<lambda>fp. retP (finished_result i fp created result)))))))))))"

definition publish_dataset :: "run_environment \<Rightarrow> publication_identity \<Rightarrow> run_result \<Rightarrow> run_result pm" where
  "publish_dataset env i result =
     (let fp = the (tr_output_fp result); vault_fp = Some (pi_vault_fp i); operation = pi_operation_id i
      in bindP (on_vault (with_transaction (record_publication operation ''STAGED'' (Some fp) vault_fp))) (\<lambda>_.
         bindP persist_payload (\<lambda>_.
         bindP (record_staged_fingerprint fp) (\<lambda>_.
         bindP (mark_ready_to_promote i fp) (\<lambda>_.
         bindP checkpoint (\<lambda>_.
         bindP promote (\<lambda>_.
         bindP (mark_promoted i) (\<lambda>_.
         bindP (on_vault (with_transaction (bindV (record_publication operation ''PUBLISHED'' (Some fp) vault_fp) (\<lambda>_.
                  complete_operation (re_completed_at env) operation (Some fp) (Some (result_receipt (re_dumps env) result)))))) (\<lambda>_.
         bindP remove_metadata_after_promotion (\<lambda>_. retP result))))))))))"

text \<open>Pre-promotion cleanup: after the rename, or before the operation row, nothing is undone.\<close>

definition undo_run :: "run_environment \<Rightarrow> publication_identity \<Rightarrow> error \<Rightarrow> 'a pm" where
  "undo_run env i original =
     bindP (getP wd_process) (\<lambda>p.
     bindP (if pr_started p \<and> \<not> pr_renamed p then
              catchP
                (bindP (cleanup_owned (re_listing env)) (\<lambda>_.
                 bindP (if pr_evidence p then cleanup_evidence_root else retP ()) (\<lambda>_.
                   on_vault (with_transaction (abandon_operation (pi_operation_id i))))))
                (\<lambda>_. raiseP (publication_failure ''ENGINE_OUTPUT_CLEANUP_FAILED''))
            else retP ()) (\<lambda>_.
       raiseP original))"

definition run_engine :: "run_environment \<Rightarrow> publication_identity \<Rightarrow> bool \<Rightarrow> run_work \<Rightarrow> run_result pm" where
  "run_engine env i created work =
     catchP (bindP (write_dataset env i created work) (publish_dataset env i)) (undo_run env i)"

text \<open>Context managers: the exit runs for a returned value and for an error, and may raise itself.\<close>

definition exitP :: "'a pm \<Rightarrow> unit pm \<Rightarrow> 'a pm" where
  "exitP m exit w =
     (case m w of
        (Died, w') \<Rightarrow> (Died, w')
      | (Returned x, w') \<Rightarrow> bindP exit (\<lambda>_. retP x) w'
      | (Raised e, w') \<Rightarrow> bindP exit (\<lambda>_. raiseP e) w')"

definition with_lease :: "run_environment \<Rightarrow> 'a pm \<Rightarrow> 'a pm" where
  "with_lease env m =
     bindP (on_vault (acquire_writer_lease (re_owner env))) (\<lambda>_. exitP m (on_vault (release_writer_lease (re_owner env))))"

definition lock_failure :: "string \<Rightarrow> error" where
  "lock_failure detail = PublicationError PUBLICATION_FAILED detail"

definition lock_enter :: "unit pm" where
  "lock_enter =
     bindP (getP wd_lock) (\<lambda>lock.
     bindP (guardP (lock \<noteq> Lock_Irregular) (lock_failure ''DESTINATION_LOCK_INVALID'')) (\<lambda>_.
     bindP (io (\<lambda>w. if wd_lock w = No_Lock_File then w\<lparr>wd_lock := Lock_Free\<rparr> else w) (lock_failure ''DESTINATION_LOCK_UNAVAILABLE'')) (\<lambda>_.
     bindP (guardP (lock \<noteq> Lock_Held) (lock_failure ''DESTINATION_LOCK_HELD'')) (\<lambda>_.
       io (\<lambda>w. w\<lparr>wd_lock := Lock_Held\<rparr>) (lock_failure ''DESTINATION_LOCK_HELD'')))))"

text \<open>Closing the file releases the lock also where unlocking failed.\<close>

definition lock_exit :: "unit pm" where
  "lock_exit =
     bindP (catchP (bindP (io id OSError) (\<lambda>_. retP False)) (\<lambda>_. retP True)) (\<lambda>failed.
     bindP (setP (\<lambda>w. w\<lparr>wd_lock := Lock_Free\<rparr>)) (\<lambda>_.
     bindP (catchP (bindP (io id OSError) (\<lambda>_. retP failed)) (\<lambda>_. retP True)) (\<lambda>failed.
       guardP (\<not> failed) (lock_failure ''DESTINATION_LOCK_RELEASE_FAILED''))))"

definition with_lock :: "'a pm \<Rightarrow> 'a pm" where
  "with_lock m = bindP lock_enter (\<lambda>_. exitP m lock_exit)"

text \<open>\<open>_cleanup_engine_resources\<close>: every cleanup is attempted; one failure is reported.\<close>

definition cleanup_engine_resources :: "unit pm" where
  "cleanup_engine_resources =
     bindP (getP (\<lambda>w. pr_spool (wd_process w))) (\<lambda>spool.
     bindP (if spool then catchP (bindP (io (\<lambda>w. w\<lparr>wd_spool := False\<rparr>) (engine_spool_failure ''CLEANUP_FAILED'')) (\<lambda>_. retP False)) (\<lambda>_. retP True)
            else retP False) (\<lambda>spool_failed.
     bindP (catchP (bindP (io (\<lambda>w. w\<lparr>closed := True\<rparr>) RuntimeError) (\<lambda>_. retP False)) (\<lambda>_. retP True)) (\<lambda>vault_failed.
       guardP (\<not> spool_failed \<and> \<not> vault_failed)
         (VaultError VAULT_STATE_INVALID
           (if spool_failed \<and> vault_failed then ''ENGINE_MULTIPLE_RESOURCE_CLEANUP_FAILED''
            else if spool_failed then ''ENGINE_SPOOL_CLEANUP_FAILED'' else ''ENGINE_VAULT_CLOSE_FAILED'')))))"

text \<open>
  \<open>run_two_pass\<close> from the opened vault on. A reused result is distinguished from a new one. The two calls of
  \<open>control.complete\<close>, after the checks of the reused result and after the end of the publication, are not
  modelled: they change nothing in the world, but a callback that raises there ends the run with its error.
\<close>

definition run_two_pass :: "run_environment \<Rightarrow> publication_identity \<Rightarrow> bool \<Rightarrow> run_work \<Rightarrow> (receipt_result + run_result) pm" where
  "run_two_pass env i created work =
     exitP
       (with_lock
         (bindP (existing_completed_result env i) (\<lambda>existing.
          bindP refuse_spool_leftovers (\<lambda>_.
          bindP refuse_evidence_leftovers (\<lambda>_.
            case existing of
              Some result \<Rightarrow> retP (Inl result)
            | None \<Rightarrow> bindP (with_lease env (run_engine env i created work)) (\<lambda>result. retP (Inr result)))))))
       cleanup_engine_resources"

text \<open>
  The end of a process, normal or not: the kernel drops the lock, an open transaction is gone, and the
  next process opens the committed database.
\<close>

definition end_process :: "world \<Rightarrow> world" where
  "end_process w = w\<lparr>working := committed w, txn_active := False, txn_authorized := False, writer_token := None, poisoned := None,
     closed := False, wd_lock := (if wd_lock w = Lock_Held then Lock_Free else wd_lock w), wd_process := new_process\<rparr>"

end
