(* ===== verification/Publication_Calculus.thy ===== *)
theory Publication_Calculus
  imports Publication
begin

text \<open>
  A calculus for programs over the world: a triple describes what a program guarantees when it returns,
  when it raises and when its process dies, over the part of the state the crash safety of publication
  speaks of. No definition here models code.
\<close>

section \<open>What outlives a process\<close>

record view =
  vw_ops :: "operation_row list"
  vw_destination :: "node option"
  vw_staging :: "staging_dir option"
  vw_process :: process
  vw_spool :: bool
  vw_synced :: bool

definition synced :: "world \<Rightarrow> bool" where
  "synced w \<longleftrightarrow> working w = committed w \<and> poisoned w = None \<and> \<not> closed w"

definition view_of :: "world \<Rightarrow> view" where
  "view_of w = \<lparr>vw_ops = operations_tbl (committed w), vw_destination = wd_destination w, vw_staging = wd_staging w,
     vw_process = wd_process w, vw_spool = wd_spool w, vw_synced = synced w\<rparr>"

lemma view_of_simps [simp]:
  "vw_ops (view_of w) = operations_tbl (committed w)" "vw_destination (view_of w) = wd_destination w" "vw_staging (view_of w) = wd_staging w"
  "vw_process (view_of w) = wd_process w" "vw_spool (view_of w) = wd_spool w" "vw_synced (view_of w) = synced w"
  by (simp_all add: view_of_def)

lemma view_of_updates [simp]:
  "view_of (w\<lparr>wd_destination := d\<rparr>) = (view_of w)\<lparr>vw_destination := d\<rparr>"
  "view_of (w\<lparr>wd_staging := s\<rparr>) = (view_of w)\<lparr>vw_staging := s\<rparr>"
  "view_of (w\<lparr>wd_process := p\<rparr>) = (view_of w)\<lparr>vw_process := p\<rparr>"
  "view_of (w\<lparr>wd_spool := b\<rparr>) = (view_of w)\<lparr>vw_spool := b\<rparr>" "view_of (w\<lparr>wd_evidence := b\<rparr>) = view_of w"
  "view_of (w\<lparr>wd_lock := l\<rparr>) = view_of w" "view_of (w\<lparr>wd_fates := fs\<rparr>) = view_of w"
  by (simp_all add: view_of_def synced_def)

lemma next_fate_view: "next_fate w = (f, w') \<Longrightarrow> \<exists>fs. w' = w\<lparr>wd_fates := fs\<rparr>"
  by (auto simp: next_fate_def split: list.splits intro: exI [of _ "wd_fates w"])

section \<open>Triples\<close>

definition meets :: "('a \<Rightarrow> view \<Rightarrow> bool) \<Rightarrow> (view \<Rightarrow> bool) \<Rightarrow> (view \<Rightarrow> bool) \<Rightarrow> 'a outcome \<times> world \<Rightarrow> bool" where
  "meets Q E D r \<longleftrightarrow> (case fst r of Returned x \<Rightarrow> Q x (view_of (snd r)) | Raised e \<Rightarrow> E (view_of (snd r)) | Died \<Rightarrow> D (view_of (snd r)))"

lemma meets_simps [simp]:
  "meets Q E D (Returned x, w) = Q x (view_of w)" "meets Q E D (Raised e, w) = E (view_of w)" "meets Q E D (Died, w) = D (view_of w)"
  by (simp_all add: meets_def)

lemma meetsE:
  assumes "meets Q E D r"
  obtains x w where "r = (Returned x, w)" "Q x (view_of w)" | e w where "r = (Raised e, w)" "E (view_of w)" | w where "r = (Died, w)" "D (view_of w)"
  using assms by (cases r; cases "fst r") (auto simp: meets_def)

definition triple :: "(view \<Rightarrow> bool) \<Rightarrow> 'a pm \<Rightarrow> ('a \<Rightarrow> view \<Rightarrow> bool) \<Rightarrow> (view \<Rightarrow> bool) \<Rightarrow> (view \<Rightarrow> bool) \<Rightarrow> bool" where
  "triple P m Q E D \<longleftrightarrow> (\<forall>w. P (view_of w) \<longrightarrow> meets Q E D (m w))"

named_theorems triples \<open>rules that take a program apart\<close>

lemma tripleI: "(\<And>w. P (view_of w) \<Longrightarrow> meets Q E D (m w)) \<Longrightarrow> triple P m Q E D"
  by (simp add: triple_def)

lemma tripleD: "triple P m Q E D \<Longrightarrow> P (view_of w) \<Longrightarrow> meets Q E D (m w)"
  by (simp add: triple_def)

lemma triple_conseq:
  assumes "triple P m Q E D" and "\<And>u. P' u \<Longrightarrow> P u" and "\<And>x u. Q x u \<Longrightarrow> Q' x u" and "\<And>u. E u \<Longrightarrow> E' u" and "\<And>u. D u \<Longrightarrow> D' u"
  shows "triple P' m Q' E' D'"
proof (rule tripleI)
  fix w assume "P' (view_of w)"
  then have "meets Q E D (m w)" by (intro tripleD [OF assms(1)] assms(2))
  then show "meets Q' E' D' (m w)" by (rule meetsE) (simp_all add: assms(3-5))
qed

lemma triple_pre: "triple P m Q E D \<Longrightarrow> (\<And>u. P' u \<Longrightarrow> P u) \<Longrightarrow> triple P' m Q E D"
  by (erule triple_conseq) auto

lemma triple_false: "triple (\<lambda>_. False) m Q E D"
  by (simp add: triple_def)

lemma triple_disj: "triple P1 m Q E D \<Longrightarrow> triple P2 m Q E D \<Longrightarrow> triple (\<lambda>u. P1 u \<or> P2 u) m Q E D"
  by (auto simp: triple_def)

lemma triple_ret [triples]: "(\<And>u. P u \<Longrightarrow> Q x u) \<Longrightarrow> triple P (retP x) Q E D"
  by (simp add: triple_def retP_def)

lemma triple_raise [triples]: "(\<And>u. P u \<Longrightarrow> E u) \<Longrightarrow> triple P (raiseP e) Q E D"
  by (simp add: triple_def raiseP_def)

lemma triple_bind:
  assumes "triple P m R E D" and "\<And>x. triple (R x) (f x) Q E D"
  shows "triple P (bindP m f) Q E D"
proof (rule tripleI)
  fix w assume "P (view_of w)"
  then have "meets R E D (m w)" by (rule tripleD [OF assms(1)])
  then show "meets Q E D (bindP m f w)" by (rule meetsE) (simp_all add: bindP_def tripleD [OF assms(2)])
qed

lemma triple_catch:
  assumes "triple P m Q H D" and "\<And>e. triple H (h e) Q E D"
  shows "triple P (catchP m h) Q E D"
proof (rule tripleI)
  fix w assume "P (view_of w)"
  then have "meets Q H D (m w)" by (rule tripleD [OF assms(1)])
  then show "meets Q E D (catchP m h w)" by (rule meetsE) (simp_all add: catchP_def tripleD [OF assms(2)])
qed

lemma triple_exit:
  assumes "triple P m R H D" and "\<And>x. triple (R x) exit (\<lambda>_. Q x) E D" and "triple H exit (\<lambda>_. E) E D"
  shows "triple P (exitP m exit) Q E D"
proof (rule tripleI)
  fix w assume "P (view_of w)"
  then have m: "meets R H D (m w)" by (rule tripleD [OF assms(1)])
  have ret: "triple (R x) (bindP exit (\<lambda>_. retP x)) Q E D" for x
    by (rule triple_bind [OF assms(2)]) (rule triple_ret)
  have err: "triple H (bindP exit (\<lambda>_. raiseP e)) Q E D" for e :: error
    by (rule triple_bind [OF assms(3)]) (rule triple_raise)
  show "meets Q E D (exitP m exit w)" using m by (rule meetsE) (simp_all add: exitP_def tripleD [OF ret] tripleD [OF err])
qed

lemma triple_guard [triples]: "(\<And>u. P u \<Longrightarrow> b \<Longrightarrow> Q () u) \<Longrightarrow> (\<And>u. P u \<Longrightarrow> \<not> b \<Longrightarrow> E u) \<Longrightarrow> triple P (guardP b e) Q E D"
  by (cases b) (auto simp: guardP_def intro: triples)

lemma triple_lift [triples]: "(\<And>u x. P u \<Longrightarrow> r = Inr x \<Longrightarrow> Q x u) \<Longrightarrow> (\<And>u. P u \<Longrightarrow> E u) \<Longrightarrow> triple P (liftP r) Q E D"
  by (cases r) (auto simp: liftP_def intro: triples)

lemma triple_get: "(\<And>w. P (view_of w) \<Longrightarrow> Q (f w) (view_of w)) \<Longrightarrow> triple P (getP f) Q E D"
  by (simp add: triple_def getP_def)

lemma triple_set: "(\<And>w. P (view_of w) \<Longrightarrow> Q () (view_of (f w))) \<Longrightarrow> triple P (setP f) Q E D"
  by (simp add: triple_def setP_def)

lemma triple_io:
  assumes "\<And>w. P (view_of w) \<Longrightarrow> Q () (view_of (effect w))" and "\<And>u. P u \<Longrightarrow> E u" and "\<And>u. P u \<Longrightarrow> D u"
  shows "triple P (io effect e) Q E D"
proof (rule tripleI)
  fix w assume w: "P (view_of w)"
  obtain f w' where f: "next_fate w = (f, w')" by force
  then have "view_of w' = view_of w" using next_fate_view [OF f] by auto
  then show "meets Q E D (io effect e w)" using w assms(1) [of w'] assms(2,3) by (cases f) (simp_all add: io_def f)
qed

lemma triple_each:
  assumes "\<And>x. x \<in> set xs \<Longrightarrow> triple P (f x) (\<lambda>_. P) E D"
  shows "triple P (eachP f xs) (\<lambda>_. P) E D"
  using assms by (induction xs) (auto intro: triple_ret triple_bind)

text \<open>Programs that leave a part of the view alone keep every predicate of it, however they end.\<close>

definition leaves :: "(view \<Rightarrow> 'v) \<Rightarrow> 'a pm \<Rightarrow> bool" where
  "leaves V m \<longleftrightarrow> (\<forall>w. V (view_of (snd (m w))) = V (view_of w))"

lemma leavesD: "leaves V m \<Longrightarrow> m w = (r, w') \<Longrightarrow> V (view_of w') = V (view_of w)"
  unfolding leaves_def by (metis snd_conv)

lemma triple_leaves:
  assumes "leaves V m" and "\<And>u u'. V u' = V u \<Longrightarrow> P u \<Longrightarrow> P u'" and "\<And>u. P u \<Longrightarrow> E u" and "\<And>u. P u \<Longrightarrow> D u"
  shows "triple P m (\<lambda>_. P) E D"
proof (rule tripleI)
  fix w assume w: "P (view_of w)"
  obtain r w' where m: "m w = (r, w')" by force
  have "P (view_of w')" by (rule assms(2) [OF leavesD [OF assms(1) m] w])
  then show "meets (\<lambda>_. P) E D (m w)" using assms(3,4) by (cases r) (simp_all add: m)
qed

text \<open>What a program guarantees if it returns is proved apart from what it guarantees if it does not.\<close>

abbreviation returns :: "(view \<Rightarrow> bool) \<Rightarrow> 'a pm \<Rightarrow> ('a \<Rightarrow> view \<Rightarrow> bool) \<Rightarrow> bool" where
  "returns P m Q \<equiv> triple P m Q (\<lambda>_. True) (\<lambda>_. True)"

lemma triple_and: "triple P m Q E D \<Longrightarrow> returns P' m Q' \<Longrightarrow> triple (\<lambda>u. P u \<and> P' u) m (\<lambda>x u. Q x u \<and> Q' x u) E D"
  by (auto simp: triple_def meets_def split: outcome.splits)

lemma triple_true: "returns P m (\<lambda>_ _. True)"
  by (auto simp: triple_def meets_def split: outcome.splits)

lemma leaves_io [triples]: "(\<And>w. V (view_of (effect w)) = V (view_of w)) \<Longrightarrow> leaves V (io effect e)"
  unfolding leaves_def io_def
  by (auto split: fate.split prod.split dest!: next_fate_view)

lemma leaves_basic [triples]: "leaves V (retP x)" "leaves V (raiseP e)" "leaves V (getP f)" "leaves V (liftP r)" "leaves V (guardP b e)"
  by (auto simp: leaves_def retP_def raiseP_def getP_def liftP_def guardP_def split: sum.split)

lemma leaves_set [triples]: "(\<And>w. V (view_of (f w)) = V (view_of w)) \<Longrightarrow> leaves V (setP f)"
  by (simp add: leaves_def setP_def)

lemma leaves_bind [triples]: "leaves V m \<Longrightarrow> (\<And>x. leaves V (f x)) \<Longrightarrow> leaves V (bindP m f)"
  by (auto simp: leaves_def bindP_def split: outcome.split prod.split) (metis snd_conv)+

lemma leaves_catch [triples]: "leaves V m \<Longrightarrow> (\<And>e. leaves V (h e)) \<Longrightarrow> leaves V (catchP m h)"
  by (auto simp: leaves_def catchP_def split: outcome.split prod.split) (metis snd_conv)+

lemma leaves_each [triples]: "(\<And>x. leaves V (f x)) \<Longrightarrow> leaves V (eachP f xs)"
  by (induction xs) (auto intro: triples)

lemma leaves_if [triples]: "leaves V m \<Longrightarrow> leaves V n \<Longrightarrow> leaves V (if b then m else n)"
  by simp

end
