(* ===== verification/Publication_Steps.thy ===== *)
theory Publication_Steps
  imports Publication_Calculus
begin

text \<open>
  The steps of the publication protocol: which of them leave the operation rows, the destination and the
  staged files alone, what a vault unit does to the operation rows, and which dataset the staging of all
  tables assembles. No definition here models code, except \<open>place_table\<close>, which restates
  \<open>assemble_table\<close> without faults.
\<close>

section \<open>Steps that leave the operation rows and the destination alone\<close>

definition core :: "view \<Rightarrow> operation_row list \<times> node option \<times> bool \<times> bool" where
  "core u = (vw_ops u, vw_destination u, pr_started (vw_process u), pr_renamed (vw_process u))"

definition contents :: "view \<Rightarrow> ((nat \<times> inventory) list option \<times> entries option) option" where
  "contents u = map_option (\<lambda>s. (sd_tables s, sd_dataset s)) (vw_staging u)"

definition spool_state :: "view \<Rightarrow> bool \<times> bool" where
  "spool_state u = (vw_spool u, pr_spool (vw_process u))"

lemma spool_updates [simp]:
  "spool_state (u\<lparr>vw_staging := s\<rparr>) = spool_state u"
  "spool_state (view_of (on_staging f w)) = spool_state (view_of w)"
  by (simp_all add: spool_state_def on_staging_def)

lemma core_updates [simp]:
  "core (u\<lparr>vw_staging := s\<rparr>) = core u" "core (u\<lparr>vw_synced := b\<rparr>) = core u" "core (u\<lparr>vw_spool := b\<rparr>) = core u"
  "core (view_of (on_staging f w)) = core (view_of w)" "core (view_of (with_tables g w)) = core (view_of w)"
  by (simp_all add: core_def on_staging_def with_tables_def)

lemma contents_updates [simp]:
  "contents (u\<lparr>vw_synced := b\<rparr>) = contents u" "contents (u\<lparr>vw_process := p\<rparr>) = contents u" "contents (u\<lparr>vw_spool := b\<rparr>) = contents u" "contents (u\<lparr>vw_destination := d\<rparr>) = contents u"
  by (simp_all add: contents_def)

lemma leaves_case [triples]:
  "(\<And>a b. leaves V (f a b)) \<Longrightarrow> leaves V (case p of (a, b) \<Rightarrow> f a b)"
  "leaves V m \<Longrightarrow> (\<And>x. leaves V (g x)) \<Longrightarrow> leaves V (case o' of None \<Rightarrow> m | Some x \<Rightarrow> g x)"
  by (auto split: prod.split option.split)

lemma leaves_checkpoint [triples]: "leaves V checkpoint"
  unfolding checkpoint_def by (auto intro!: triples)

lemma leaves_sync_directory [triples]: "leaves V sync_directory"
  unfolding sync_directory_def by (auto intro!: triples)

lemma leaves_fsync_tree [triples]: "leaves V (fsync_tree n)"
  unfolding fsync_tree_def by (auto intro!: triples)

lemma leaves_read_fingerprint [triples]: "leaves V (read_fingerprint env root)"
  unfolding read_fingerprint_def by (auto intro!: triples)

lemma leaves_persist_payload [triples]: "leaves V persist_payload"
  unfolding persist_payload_def by (intro triples)

lemma leaves_write_state [triples]: "leaves core (write_state j)" "leaves contents (write_state j)"
  unfolding write_state_def by (intro triples; simp add: contents_def on_staging_def option.map_comp comp_def)+

lemma leaves_set_process [triples]:
  "(\<And>p. pr_started (f p) = pr_started p \<and> pr_renamed (f p) = pr_renamed p) \<Longrightarrow> leaves core (set_process f)"
  "leaves contents (set_process f)"
  unfolding set_process_def by (auto intro!: triples simp: core_def)

lemma leaves_write_phase [triples]: "leaves core (write_phase i phase fp)" "leaves contents (write_phase i phase fp)"
  unfolding write_phase_def by (intro triples; simp)+

lemma leaves_marks [triples]:
  "leaves core (mark_ready_to_promote i fp)" "leaves contents (mark_ready_to_promote i fp)"
  "leaves core (mark_promoted i)" "leaves core (record_staged_fingerprint fp)" "leaves contents (record_staged_fingerprint fp)"
  unfolding mark_ready_to_promote_def mark_promoted_def record_staged_fingerprint_def by (auto intro!: triples)

lemma leaves_staging_create [triples]: "leaves core (staging_create i)"
  unfolding staging_create_def by (intro triples; simp)

lemma leaves_evidence [triples]:
  "leaves core create_evidence_root" "leaves contents create_evidence_root" "leaves V cleanup_evidence_root"
  "leaves V refuse_evidence_leftovers" "leaves V refuse_spool_leftovers"
  unfolding create_evidence_root_def cleanup_evidence_root_def refuse_evidence_leftovers_def refuse_spool_leftovers_def
  by (intro triples; simp)+

lemma leaves_io_at: "(\<And>w. V (view_of (effect w)) = V (view_of w)) \<Longrightarrow> V (view_of (snd (io effect e w))) = V (view_of w)"
  using leaves_io [of V effect e] by (simp add: leaves_def)

lemma leaves_try_move [triples]: "leaves core (try_move index name relative)"
  by (auto simp: leaves_def try_move_def leaves_io_at split: option.split)

lemma leaves_remove_root [triples]: "leaves core (remove_root e)" "leaves spool_state (remove_root e)"
  by (auto simp: leaves_def remove_root_def leaves_io_at split: option.split)

lemma leaves_stage_table [triples]: "leaves core (stage_table t)"
  unfolding stage_table_def table_destination_def write_fresh_table_def assemble_table_def Let_def
  by (intro triples; simp)

lemma leaves_rmtree [triples]: "leaves core (rmtree_staging order)" "leaves spool_state (rmtree_staging order)"
  unfolding rmtree_staging_def by (intro triples; simp)+

lemma leaves_cleanup_owned [triples]: "leaves core (cleanup_owned order)"
  unfolding cleanup_owned_def by (intro triples)

lemma leaves_remove_metadata [triples]: "leaves core remove_metadata_after_promotion"
  unfolding remove_metadata_after_promotion_def Let_def by (intro triples; simp)

lemma leaves_reconcile [triples]: "leaves core (reconcile_completed_staging_residual order i fp s)" "leaves spool_state (reconcile_completed_staging_residual order i fp s)"
  unfolding reconcile_completed_staging_residual_def by (intro triples)+

lemma leaves_cleanup_engine_resources [triples]: "leaves core cleanup_engine_resources"
  unfolding cleanup_engine_resources_def by (intro triples; simp add: core_def view_of_def)

lemma leaves_lock [triples]: "leaves V lock_enter" "leaves V lock_exit"
  unfolding lock_enter_def lock_exit_def by (intro triples; simp)+

lemma leaves_query [triples]: "(\<And>w. snd (m w) = w) \<Longrightarrow> leaves V (query m)"
  by (auto simp: leaves_def query_def of_result_def split: prod.split sum.split) (metis snd_conv)+

lemma operation_record_reads: "snd (operation_record i v) = v"
  by (simp add: operation_record_def bindV_def internal_connection_def)

lemma operation_for_destination_reads: "snd (operation_for_destination d v) = v"
  by (auto simp: operation_for_destination_def bindV_def internal_connection_def operation_record_reads split: option.split)

lemma leaves_completed_evidence [triples]: "leaves core (completed_evidence env i r)" "leaves spool_state (completed_evidence env i r)"
  unfolding completed_evidence_def by (intro triples)+

lemma leaves_existing [triples]: "leaves core (existing_completed_result env i)" "leaves spool_state (existing_completed_result env i)"
  unfolding existing_completed_result_def
  by (intro triples operation_record_reads operation_for_destination_reads)+

section \<open>Vault units\<close>

lemma view_of_vault:
  assumes "vault.more v = vault.more (w :: world)"
  shows "view_of v = (view_of w)\<lparr>vw_ops := operations_tbl (committed v), vw_synced := synced v\<rparr>"
  using assms by (cases v; cases w) (simp add: view_of_def)

lemma own_ops: "(view_of w)\<lparr>vw_ops := operations_tbl (committed w), vw_synced := b\<rparr> = (view_of w)\<lparr>vw_synced := b\<rparr>"
  by (simp add: view_of_def)

lemma unit_operations:
  fixes v :: world
  assumes "body_ok body" and "with_transaction body v = (r, w)"
    and step: "\<And>(u :: world) x u'. body u = (Inr x, u') \<Longrightarrow> step (operations_tbl (working u)) (operations_tbl (working u'))"
  shows "case r of Inl e \<Rightarrow> operations_tbl (committed w) = operations_tbl (committed v)
    | Inr x \<Rightarrow> step (operations_tbl (committed v)) (operations_tbl (committed w))"
proof (cases r)
  case (Inl e)
  then show ?thesis using with_transaction_failure(1) [OF assms(1)] assms(2) by simp
next
  case (Inr x)
  then have w: "fst (body (txn_start True v)) = Inr x" "committed w = working (snd (body (txn_start True v)))"
    using with_transaction_success(2,3) [OF assms(1)] assms(2) by blast+
  then show ?thesis using Inr step [of "txn_start True v" x "snd (body (txn_start True v))"]
    by (simp add: prod_eq_iff txn_start_def)
qed

lemma of_result_snd [simp]: "snd (of_result r) = snd r"
  by (simp add: of_result_def split: prod.split sum.split)

lemma triple_unit:
  assumes body: "body_ok body" "keeps_more body"
    and step: "\<And>(v :: world) x u. body v = (Inr x, u) \<Longrightarrow> step (operations_tbl (working v)) (operations_tbl (working u))"
    and P: "\<And>u u'. core u' = core u \<Longrightarrow> P u \<Longrightarrow> P u'" and E: "\<And>u. P u \<Longrightarrow> E u" and D: "\<And>u. P u \<Longrightarrow> D u"
  shows "triple P (on_vault (with_transaction body)) (\<lambda>_ u. \<exists>ops. P (u\<lparr>vw_ops := ops\<rparr>) \<and> step ops (vw_ops u)) E D"
proof (rule tripleI)
  fix w assume w: "P (view_of w)"
  have unit: "meets (\<lambda>_ u. \<exists>ops. P (u\<lparr>vw_ops := ops\<rparr>) \<and> step ops (vw_ops u)) E D (of_result (r, v\<lparr>commit_fails := b\<rparr>))"
    if m: "with_transaction body w1 = (r, v)" and w1: "core (view_of w1) = core (view_of w)" for w1 r v b
  proof -
    have "vault.more v = vault.more w1" using keeps_more_transaction [OF body(2)] m unfolding keeps_more_def by (metis snd_conv)
    then have more: "vault.more (v\<lparr>commit_fails := b\<rparr>) = vault.more w1" by simp
    have P1: "P (view_of w1)" by (rule P [OF w1 w])
    show ?thesis
    proof (cases r)
      case (Inl e)
      then have "core (view_of (v\<lparr>commit_fails := b\<rparr>)) = core (view_of w1)"
        using unit_operations [where step = step, OF body(1) m step] by (simp add: view_of_vault [OF more] core_def)
      then show ?thesis using Inl E [OF P [OF _ P1]] by (simp add: of_result_def)
    next
      case (Inr x)
      have "P ((view_of (v\<lparr>commit_fails := b\<rparr>))\<lparr>vw_ops := operations_tbl (committed w1)\<rparr>)"
        by (rule P [OF _ P1]) (simp add: view_of_vault [OF more] core_def)
      then show ?thesis using Inr unit_operations [where step = step, OF body(1) m step] by (auto simp: of_result_def)
    qed
  qed
  obtain f w1 where f: "next_fate w = (f, w1)" by force
  then have v: "view_of w1 = view_of w" using next_fate_view by fastforce
  obtain r v where m: "with_transaction body w1 = (r, v)" by force
  obtain r' v' where m': "with_transaction body (w1\<lparr>commit_fails := True\<rparr>) = (r', v')" by force
  have c: "core (view_of (w1\<lparr>commit_fails := True\<rparr>)) = core (view_of w)" using v by (simp add: view_of_def core_def)
  show "meets (\<lambda>_ u. \<exists>ops. P (u\<lparr>vw_ops := ops\<rparr>) \<and> step ops (vw_ops u)) E D (on_vault (with_transaction body) w)"
  proof (cases f)
    case Succeeds
    then show ?thesis using unit [OF m, of "commit_fails v"] v by (simp add: on_vault_def f m)
  next
    case Fails
    then show ?thesis using unit [OF m' c] by (simp add: on_vault_def f m')
  next
    case Dies
    then show ?thesis using D [OF w] v by (simp add: on_vault_def f)
  qed
qed

lemma leaves_on_vault:
  assumes "keeps_more m" and "\<And>v :: world. operations_tbl (committed (snd (m v))) = operations_tbl (committed v)"
    and V: "\<And>u b. V (u\<lparr>vw_synced := b\<rparr>) = V u"
  shows "leaves V (on_vault m)"
  unfolding leaves_def
proof
  fix w
  have unit: "V (view_of (v\<lparr>commit_fails := b\<rparr>)) = V (view_of wa)" if m: "m wa = (r, v)" for wa r v b
  proof -
    have "vault.more v = vault.more wa" using assms(1) m unfolding keeps_more_def by (metis snd_conv)
    then have more: "vault.more (v\<lparr>commit_fails := b\<rparr>) = vault.more wa" by simp
    have "operations_tbl (committed v) = operations_tbl (committed wa)" using assms(2) [of wa] m by simp
    then have "view_of (v\<lparr>commit_fails := b\<rparr>) = (view_of wa)\<lparr>vw_synced := synced (v\<lparr>commit_fails := b\<rparr>)\<rparr>"
      by (simp add: view_of_vault [OF more] own_ops)
    then show ?thesis by (simp add: V)
  qed
  obtain f w1 where f: "next_fate w = (f, w1)" by force
  then have v: "view_of w1 = view_of w" using next_fate_view by fastforce
  have c: "V (view_of (w1\<lparr>commit_fails := True\<rparr>)) = V (view_of w1)"
    using V [where u = "view_of w1" and b = "synced (w1\<lparr>commit_fails := True\<rparr>)"] by (simp add: view_of_def)
  show "V (view_of (snd (on_vault m w))) = V (view_of w)"
  proof (cases f)
    case Succeeds
    then show ?thesis using unit [where wa = w1 and b = "commit_fails (snd (m w1))" and r = "fst (m w1)" and v = "snd (m w1)"] v
      by (simp add: on_vault_def f)
  next
    case Fails
    then show ?thesis using unit [where wa = "w1\<lparr>commit_fails := True\<rparr>" and b = "commit_fails w1"] c v
      by (auto simp: on_vault_def f split: prod.split)
  next
    case Dies
    then show ?thesis using v by (simp add: on_vault_def f)
  qed
qed

section \<open>The assembled dataset\<close>

text \<open>What \<open>assemble_table\<close> makes of the files of one table and of a whole run, without faults.\<close>

definition place_table :: "string \<times> inventory \<Rightarrow> entries \<Rightarrow> entries option" where
  "place_table t es =
     (let relative = fst t; files = snd t; name = last (split_on chr_slash relative); memo = with_suffix name ''.fpt'';
          rest = filter (\<lambda>f. fst f \<noteq> name) files
      in case map_of files name of
           None \<Rightarrow> None
         | Some content \<Rightarrow>
             (case put_file (split_on chr_slash relative) content es of
                None \<Rightarrow> None
              | Some es1 \<Rightarrow>
                  (case map_of rest memo of
                     None \<Rightarrow> if rest = [] then Some es1 else None
                   | Some m \<Rightarrow> if filter (\<lambda>f. fst f \<noteq> memo) rest = []
                                then put_file (split_on chr_slash (with_suffix relative ''.fpt'')) m es1 else None)))"

fun place_tables :: "(string \<times> inventory) list \<Rightarrow> entries \<Rightarrow> entries option" where
  "place_tables [] es = Some es"
| "place_tables (t # ts) es = (case place_table t es of None \<Rightarrow> None | Some es' \<Rightarrow> place_tables ts es')"

definition dataset_of :: "(string \<times> inventory) list \<Rightarrow> entries option" where
  "dataset_of tables = place_tables tables []"

definition staged :: "(nat \<times> inventory) list \<Rightarrow> entries \<Rightarrow> view \<Rightarrow> bool" where
  "staged ts es u \<longleftrightarrow> contents u = Some (Some ts, Some es)"

lemma staged_view:
  assumes "staged ts es (view_of w)"
  shows "staged_tables w = ts" "staged_dataset w = Some es"
    "staged (f ts) es (view_of (with_tables f w))" "staged ts es' (view_of (on_staging (\<lambda>s. s\<lparr>sd_dataset := Some es'\<rparr>) w))"
    "\<exists>s. wd_staging w = Some s \<and> sd_tables s = Some ts \<and> sd_dataset s = Some es"
  using assms by (auto simp: staged_def contents_def staged_tables_def staged_dataset_def with_tables_def on_staging_def)

lemma returns_leaves: "leaves contents m \<Longrightarrow> returns (staged ts es) m (\<lambda>_. staged ts es)"
  by (rule triple_leaves) (auto simp: staged_def)

lemma triple_get_is: "(\<And>w. P (view_of w) \<Longrightarrow> f w = c) \<Longrightarrow> triple P (g c) Q E D \<Longrightarrow> triple P (bindP (getP f) g) Q E D"
  by (simp add: triple_def getP_def bindP_def)

lemma returns_get: "(\<And>w. P (view_of w) \<Longrightarrow> Q (f w) (view_of w)) \<Longrightarrow> returns P (getP f) Q"
  by (rule triple_get)

lemma returns_guard: "(\<And>u. P u \<Longrightarrow> b \<Longrightarrow> Q () u) \<Longrightarrow> returns P (guardP b e) Q"
  by (rule triple_guard) auto

lemma returns_io: "(\<And>w. P (view_of w) \<Longrightarrow> Q () (view_of (effect w))) \<Longrightarrow> returns P (io effect e) Q"
  by (rule triple_io) auto

lemma returns_if: "(b \<Longrightarrow> returns P m Q) \<Longrightarrow> (\<not> b \<Longrightarrow> returns P n Q) \<Longrightarrow> returns P (if b then m else n) Q"
  by simp

lemma returns_fact: "(a \<Longrightarrow> returns P m Q) \<Longrightarrow> returns (\<lambda>u. a \<and> P u) m Q"
  by (auto simp: triple_def)

lemma returns_try_move:
  "returns (staged ts es) (try_move index name relative)
     (\<lambda>_ u. \<exists>files content es'. map_of ts index = Some files \<and> map_of files name = Some content
        \<and> put_file (split_on chr_slash relative) content es = Some es'
        \<and> staged (map (\<lambda>(k, fs). if k = index then (k, filter (\<lambda>f. fst f \<noteq> name) fs) else (k, fs)) ts) es' u)"
  (is "returns _ _ ?Q")
proof (rule tripleI)
  fix w assume w: "staged ts es (view_of w)"
  show "meets ?Q (\<lambda>_. True) (\<lambda>_. True) (try_move index name relative w)"
  proof (cases "move_staged index name relative w")
    case None
    then show ?thesis by (simp add: try_move_def)
  next
    case (Some w')
    then obtain files content es' where f: "map_of ts index = Some files" "map_of files name = Some content"
      "put_file (split_on chr_slash relative) content es = Some es'"
      and w': "w' = on_staging (\<lambda>s. s\<lparr>sd_dataset := Some es'\<rparr>)
        (with_tables (map (\<lambda>(k, fs). if k = index then (k, filter (\<lambda>f. fst f \<noteq> name) fs) else (k, fs))) w)"
      by (auto simp: move_staged_def staged_view(1,2) [OF w] split: option.splits)
    obtain c v where c: "next_fate w = (c, v)" by force
    then have v: "view_of v = view_of w" using next_fate_view by fastforce
    have "view_of (v\<lparr>wd_staging := wd_staging w'\<rparr>) = (view_of w)\<lparr>vw_staging := wd_staging w'\<rparr>" by (simp add: v)
    then have "staged (map (\<lambda>(k, fs). if k = index then (k, filter (\<lambda>f. fst f \<noteq> name) fs) else (k, fs)) ts) es'
        (view_of (v\<lparr>wd_staging := wd_staging w'\<rparr>))"
      using staged_view(5) [OF w] w' by (auto simp: staged_def contents_def on_staging_def with_tables_def)
    then show ?thesis using f by (cases c) (auto simp: try_move_def Some io_def c)
  qed
qed

lemma returns_ex: "(\<And>x. returns (P x) m Q) \<Longrightarrow> returns (\<lambda>u. \<exists>x. P x u) m Q"
  by (auto simp: triple_def)

lemma returns_conseq: "returns P m Q \<Longrightarrow> (\<And>x u. Q x u \<Longrightarrow> Q' x u) \<Longrightarrow> returns P m Q'"
  by (erule triple_conseq) auto

lemma returns_table_destination: "returns (staged [] es) (table_destination index) (\<lambda>_. staged [(index, [])] es)"
proof -
  have view: "staged [(index, [])] es (view_of (with_tables (\<lambda>ts. ts @ [(index, [])]) w))" if "staged [] es (view_of w)" for w
    using staged_view(3) [OF that, of "\<lambda>ts. ts @ [(index, [])]"] by simp
  show ?thesis unfolding table_destination_def
    by (rule triple_get_is [where c = "[]"])
      (auto simp: staged_view(1) intro!: view triple_bind [OF returns_guard, where R = "\<lambda>_. staged [] es"] returns_io)
qed

lemma returns_write_fresh_table:
  "returns (staged [(index, [])] es) (write_fresh_table index files) (\<lambda>_. staged [(index, files)] es)"
proof -
  have "staged [(index, files)] es (view_of (with_tables (map (\<lambda>(k, fs). if k = index then (k, files) else (k, fs))) w))"
    if "staged [(index, [])] es (view_of w)" for w
    using staged_view(3) [OF that, of "map (\<lambda>(k, fs). if k = index then (k, files) else (k, fs))"] by simp
  then show ?thesis unfolding write_fresh_table_def by (intro returns_io)
qed

lemma returns_move:
  "returns (staged [(index, files)] es) (try_move index name relative)
     (\<lambda>_ u. \<exists>es'. (\<exists>content. map_of files name = Some content \<and> put_file (split_on chr_slash relative) content es = Some es')
        \<and> staged [(index, filter (\<lambda>f. fst f \<noteq> name) files)] es' u)"
  by (rule returns_conseq [OF returns_try_move]) auto

lemma returns_assembled:
  "returns (\<lambda>u. \<exists>es. F es \<and> staged [(index, files)] es u)
     (bindP (getP (\<lambda>w. map_of (staged_tables w) index)) (\<lambda>rest.
      bindP (guardP (rest = Some []) e) (\<lambda>_. io (with_tables (filter (\<lambda>(k, fs). k \<noteq> index))) e')))
     (\<lambda>_ u. files = [] \<and> (\<exists>es. F es \<and> staged [] es u))"
proof -
  have view: "staged [] es (view_of (with_tables (filter (\<lambda>(k, fs). k \<noteq> index)) w))" if "staged [(index, files)] es (view_of w)" for es w
    using staged_view(3) [OF that, of "filter (\<lambda>(k, fs). k \<noteq> index)"] by simp
  show ?thesis
    by (rule triple_bind [OF returns_get, where R = "\<lambda>rest u. rest = Some files \<and> (\<exists>es. F es \<and> staged [(index, files)] es u)"])
      (auto simp: staged_view(1) intro!: view triple_bind [OF returns_guard, where R = "\<lambda>_ u. files = [] \<and> (\<exists>es. F es \<and> staged [(index, files)] es u)"] returns_io)
qed

lemma map_of_None_key: "map_of xs k = None \<longleftrightarrow> k \<notin> fst ` set xs"
  by (induction xs) auto

lemma returns_assemble_table:
  "returns (staged [(index, files)] es) (assemble_table index relative)
     (\<lambda>_ u. \<exists>es'. place_table (relative, files) es = Some es' \<and> staged [] es' u)"
proof -
  define name where "name = last (split_on chr_slash relative)"
  define memo where "memo = with_suffix name ''.fpt''"
  define rest where "rest = filter (\<lambda>f. fst f \<noteq> name) files"
  let ?placed = "\<lambda>es1. \<exists>content. map_of files name = Some content \<and> put_file (split_on chr_slash relative) content es = Some es1"
  let ?whole = "\<lambda>es'. \<exists>es1. ?placed es1 \<and> (if memo \<in> fst ` set rest
      then \<exists>m. map_of rest memo = Some m \<and> put_file (split_on chr_slash (with_suffix relative ''.fpt'')) m es1 = Some es' else es' = es1)"
  define rest2 where "rest2 = (if memo \<in> fst ` set rest then filter (\<lambda>f. fst f \<noteq> memo) rest else rest)"
  have second: "returns (\<lambda>u. \<exists>es1. ?placed es1 \<and> staged [(index, rest)] es1 u)
      (if memo \<in> fst ` set rest then try_move index memo (with_suffix relative ''.fpt'') else retP ())
      (\<lambda>_ u. \<exists>es'. ?whole es' \<and> staged [(index, rest2)] es' u)"
    by (intro returns_ex returns_fact returns_if)
      (auto intro!: returns_conseq [OF returns_move] triple_ret simp: rest2_def)
  have place: "\<exists>es''. place_table (relative, files) es = Some es'' \<and> staged [] es'' u"
    if "rest2 = []" "?whole es'" "staged [] es' u" for es' u
    using that by (auto simp: place_table_def Let_def name_def [symmetric] memo_def [symmetric] rest_def [symmetric] rest2_def map_of_None_key
        split: if_splits option.split)
  show ?thesis
    unfolding assemble_table_def Let_def name_def [symmetric] memo_def [symmetric]
  proof (rule triple_get_is [where c = "Some files"])
    show "map_of (staged_tables w) index = Some files" if "staged [(index, files)] es (view_of w)" for w
      using that by (simp add: staged_view(1))
    show "returns (staged [(index, files)] es)
        (bindP (guardP (Some files \<noteq> None \<and> name \<in> fst ` set (the (Some files))) (publication_failure ''STAGED_TABLE_MISSING'')) (\<lambda>_.
         bindP (try_move index name relative) (\<lambda>_.
         bindP (if memo \<in> fst ` set (filter (\<lambda>f. fst f \<noteq> name) (the (Some files))) then try_move index memo (with_suffix relative ''.fpt'') else retP ()) (\<lambda>_.
         bindP (getP (\<lambda>w. map_of (staged_tables w) index)) (\<lambda>rest.
         bindP (guardP (rest = Some []) (publication_failure ''TABLE_ASSEMBLY_FAILED'')) (\<lambda>_.
           io (with_tables (filter (\<lambda>(k, fs). k \<noteq> index))) (publication_failure ''TABLE_ASSEMBLY_FAILED'')))))))
        (\<lambda>_ u. \<exists>es'. place_table (relative, files) es = Some es' \<and> staged [] es' u)"
      unfolding option.sel rest_def [symmetric]
      by (rule triple_bind [OF returns_guard, where R = "\<lambda>_. staged [(index, files)] es"], assumption,
          rule triple_bind [OF returns_move [where files = files and name = name, folded rest_def]], rule triple_bind [OF second],
          rule returns_conseq [OF returns_assembled])
        (use place in blast)
  qed
qed

lemma returns_stage_table:
  "returns (staged [] es) (stage_table (index, t)) (\<lambda>_ u. \<exists>es'. place_table t es = Some es' \<and> staged [] es' u)"
proof -
  obtain relative files where t: "t = (relative, files)" by force
  show ?thesis unfolding stage_table_def t prod.case
    by (rule triple_bind [OF returns_leaves [OF leaves_checkpoint]], rule triple_bind [OF returns_table_destination],
        rule triple_bind [OF returns_write_fresh_table], rule returns_assemble_table)
qed

lemma returns_stage_tables:
  "returns (staged [] es) (eachP stage_table (enumerate n tables)) (\<lambda>_ u. \<exists>es'. place_tables tables es = Some es' \<and> staged [] es' u)"
proof (induction tables arbitrary: n es)
  case Nil
  show ?case by (auto intro!: triple_ret)
next
  case (Cons t tables)
  have "returns (\<lambda>u. \<exists>es'. place_table t es = Some es' \<and> staged [] es' u) (eachP stage_table (enumerate (Suc n) tables))
      (\<lambda>_ u. \<exists>es'. place_tables (t # tables) es = Some es' \<and> staged [] es' u)"
    by (intro returns_ex returns_fact returns_conseq [OF Cons.IH]) auto
  then show ?case by (simp add: triple_bind [OF returns_stage_table])
qed

end
