(* ===== verification/Publication_Safety.thy ===== *)
theory Publication_Safety
  imports Publication_Steps
begin

text \<open>
  Crash safety of the publication protocol. The states in which a run may leave the vault and the
  destination, the guarantee of every part of the protocol about them, and the theorems over all
  histories of runs, each of which may fail or die at any operation.
\<close>

section \<open>Phases of a publication\<close>

text \<open>The rows that share the identity or the destination with the publication.\<close>

definition rows :: "publication_identity \<Rightarrow> operation_row list \<Rightarrow> operation_row list" where
  "rows i ops = filter (\<lambda>r. op_id r = pi_operation_id i \<or> op_destination r = Some (pi_destination_identity i)) ops"

definition own_row :: "publication_identity \<Rightarrow> operation_row \<Rightarrow> bool" where
  "own_row i r \<longleftrightarrow> op_id r = pi_operation_id i \<and> operation_bound i r"

text \<open>
  A complete dataset: exactly the files of all tables of some run, with its fingerprint and its receipt.
\<close>

definition complete_dataset ::
    "run_environment \<Rightarrow> publication_identity \<Rightarrow> (run_result \<Rightarrow> (string \<times> inventory) list \<Rightarrow> bool) \<Rightarrow> entries \<Rightarrow> run_result \<Rightarrow> bool" where
  "complete_dataset env i good es result \<longleftrightarrow>
     (\<exists>r tables fp created. good r tables \<and> dataset_of tables = Some es
        \<and> fingerprint_dataset (re_sha env) (\<lambda>_. Inr ()) (Some (Folder es)) = Inr fp \<and> result = finished_result i fp created r)"

definition fresh :: "publication_identity \<Rightarrow> view \<Rightarrow> bool" where
  "fresh i u \<longleftrightarrow> rows i (vw_ops u) = [] \<and> vw_destination u = None"

definition begun :: "publication_identity \<Rightarrow> view \<Rightarrow> bool" where
  "begun i u \<longleftrightarrow> (\<exists>r. rows i (vw_ops u) = [r] \<and> own_row i r \<and> op_state r = STARTED) \<and> vw_destination u = None"

definition in_place_for ::
    "run_environment \<Rightarrow> publication_identity \<Rightarrow> (run_result \<Rightarrow> (string \<times> inventory) list \<Rightarrow> bool) \<Rightarrow> run_result \<Rightarrow> view \<Rightarrow> bool" where
  "in_place_for env i good result u \<longleftrightarrow>
     (\<exists>r es. rows i (vw_ops u) = [r] \<and> own_row i r \<and> op_state r = STARTED
        \<and> vw_destination u = Some (Folder es) \<and> complete_dataset env i good es result)"

definition in_place :: "run_environment \<Rightarrow> publication_identity \<Rightarrow> (run_result \<Rightarrow> (string \<times> inventory) list \<Rightarrow> bool) \<Rightarrow> view \<Rightarrow> bool" where
  "in_place env i good u \<longleftrightarrow> (\<exists>result. in_place_for env i good result u)"

definition published ::
    "run_environment \<Rightarrow> publication_identity \<Rightarrow> (run_result \<Rightarrow> (string \<times> inventory) list \<Rightarrow> bool) \<Rightarrow> run_result \<Rightarrow> view \<Rightarrow> bool" where
  "published env i good result u \<longleftrightarrow>
     (\<exists>r es. rows i (vw_ops u) = [r] \<and> own_row i r \<and> op_state r = COMPLETED
        \<and> op_output_fp r = tr_output_fp result \<and> op_result_json r = Some (result_receipt (re_dumps env) result)
        \<and> vw_destination u = Some (Folder es) \<and> complete_dataset env i good es result)"

definition settled :: "run_environment \<Rightarrow> publication_identity \<Rightarrow> (run_result \<Rightarrow> (string \<times> inventory) list \<Rightarrow> bool) \<Rightarrow> view \<Rightarrow> bool" where
  "settled env i good u \<longleftrightarrow> fresh i u \<or> begun i u \<or> in_place env i good u \<or> (\<exists>result. published env i good result u)"

text \<open>Inside a run, the flags of the process tell the phases apart.\<close>

definition flags :: "view \<Rightarrow> bool \<times> bool" where
  "flags u = (pr_started (vw_process u), pr_renamed (vw_process u))"

definition undoable :: "run_environment \<Rightarrow> publication_identity \<Rightarrow> (run_result \<Rightarrow> (string \<times> inventory) list \<Rightarrow> bool) \<Rightarrow> view \<Rightarrow> bool" where
  "undoable env i good u \<longleftrightarrow> flags u = (False, False) \<and> fresh i u \<or> flags u = (True, False) \<and> begun i u
     \<or> flags u = (True, True) \<and> (in_place env i good u \<or> (\<exists>result. published env i good result u))"

lemmas phase_defs = fresh_def begun_def in_place_for_def in_place_def published_def settled_def undoable_def flags_def

lemma phase_core:
  assumes "core u' = core u"
  shows "fresh i u' = fresh i u" "begun i u' = begun i u" "in_place env i good u' = in_place env i good u"
    "in_place_for env i good result u' = in_place_for env i good result u"
    "published env i good result u' = published env i good result u" "settled env i good u' = settled env i good u"
    "flags u' = flags u" "undoable env i good u' = undoable env i good u"
  using assms by (simp_all add: phase_defs core_def)

lemma undoable_settled: "undoable env i good u \<Longrightarrow> settled env i good u"
  by (auto simp: undoable_def settled_def)

section \<open>Vault units over the phases\<close>

lemma keeps_more_direct: "keeps_more (execute_direct stmt e)"
  by (auto simp: keeps_more_def execute_direct_def split: option.split)

lemma body_ok_direct: "body_ok (execute_direct stmt e)"
  by (auto simp: body_ok_def execute_direct_def split: option.split)

lemma begin_body: "body_ok (begin_operation h now i b)" "keeps_more (begin_operation h now i b)"
  unfolding begin_operation_def
  by (auto intro!: body_ok_bindV body_ok_direct keeps_more_bindV keeps_more_direct keeps_more_basic split: option.split)

lemma record_body: "body_ok (record_publication i ph fp vf)" "keeps_more (record_publication i ph fp vf)"
  unfolding record_publication_def
  by (auto intro!: body_ok_bindV body_ok_direct keeps_more_bindV keeps_more_direct keeps_more_basic)

lemma complete_body: "body_ok (complete_operation now i fp json)" "keeps_more (complete_operation now i fp json)"
  unfolding complete_operation_def
  by (auto intro!: body_ok_bindV keeps_more_bindV keeps_more_basic) (auto simp: body_ok_def keeps_more_def Let_def)

lemma abandon_body: "body_ok (abandon_operation i)" "keeps_more (abandon_operation i)"
  unfolding abandon_operation_def
  by (auto intro!: body_ok_bindV keeps_more_bindV keeps_more_basic) (auto simp: body_ok_def keeps_more_def Let_def)

lemma begin_rows:
  assumes "begin_operation h now (Some (pi_operation_id i)) (operation_binding_of i) v = (Inr x, v')" and "rows i (operations_tbl (working v)) = []"
  shows "\<exists>r. rows i (operations_tbl (working v')) = [r] \<and> own_row i r \<and> op_state r = STARTED"
  using assms
  by (auto simp: begin_operation_def bindV_def require_active_transaction_def internal_connection_def execute_direct_def insert_operation_def
      rows_def own_row_def operation_bound_def operation_binding_of_def guardV_Inr split: if_splits option.splits sum.splits prod.splits)

lemma record_rows:
  assumes "record_publication k ph fp vf v = (Inr x, v')"
  shows "operations_tbl (working v') = operations_tbl (working v)"
  using assms
  by (auto simp: record_publication_def bindV_def require_active_transaction_def execute_direct_def insert_publication_def
      split: if_splits option.splits sum.splits prod.splits)

lemma complete_rows:
  assumes "complete_operation now (pi_operation_id i) (Some fp) (Some json) v = (Inr x, v')"
    and "rows i (operations_tbl (working v)) = [r]" and "own_row i r" and "op_state r = STARTED"
  shows "rows i (operations_tbl (working v')) = [complete_row now (Some fp) (Some json) r]"
proof -
  let ?f = "\<lambda>r. if started_with_id (pi_operation_id i) r then complete_row now (Some fp) (Some json) r else r"
  have "operations_tbl (working v') = map ?f (operations_tbl (working v))"
    using assms(1) by (auto simp: complete_operation_def bindV_def require_active_transaction_def Let_def split: if_splits)
  moreover have "op_id (?f q) = op_id q" "op_destination (?f q) = op_destination q" for q by (simp_all add: complete_row_def)
  ultimately have "rows i (operations_tbl (working v')) = map ?f (rows i (operations_tbl (working v)))"
    unfolding rows_def by (simp add: filter_map comp_def)
  then show ?thesis using assms(2-4) by (simp add: own_row_def started_with_id_def)
qed

lemma abandon_rows:
  assumes "abandon_operation (pi_operation_id i) v = (Inr x, v')"
    and "rows i (operations_tbl (working v)) = [r]" and "own_row i r" and "op_state r = STARTED"
  shows "rows i (operations_tbl (working v')) = []"
proof -
  have "operations_tbl (working v') = filter (\<lambda>r. \<not> started_with_id (pi_operation_id i) r) (operations_tbl (working v))"
    using assms(1) by (auto simp: abandon_operation_def bindV_def require_active_transaction_def Let_def split: if_splits)
  then have "rows i (operations_tbl (working v')) = filter (\<lambda>r. \<not> started_with_id (pi_operation_id i) r) (rows i (operations_tbl (working v)))"
    by (simp add: rows_def conj_commute)
  then show ?thesis using assms(2-4) by (simp add: own_row_def started_with_id_def)
qed

section \<open>The parts of a run\<close>

text \<open>The passes leave the operation rows, the destination, the flags and the staging alone, and their results are good.\<close>

definition passes_ok :: "(run_result \<Rightarrow> (string \<times> inventory) list \<Rightarrow> bool) \<Rightarrow> run_work \<Rightarrow> bool" where
  "passes_ok good work \<longleftrightarrow> leaves core work \<and> leaves contents work
     \<and> (\<forall>w result tables w'. work w = (Returned (result, tables), w') \<longrightarrow> good result tables)"

definition phase :: "bool \<times> bool \<Rightarrow> (view \<Rightarrow> bool) \<Rightarrow> view \<Rightarrow> bool" where
  "phase fl p u \<longleftrightarrow> flags u = fl \<and> p u"

lemma phase_undoable:
  "phase (False, False) (fresh i) u \<Longrightarrow> undoable env i good u" "phase (True, False) (begun i) u \<Longrightarrow> undoable env i good u"
  "phase (True, True) (in_place_for env i good result) u \<Longrightarrow> undoable env i good u"
  "phase (True, True) (published env i good result) u \<Longrightarrow> undoable env i good u"
  by (auto simp: phase_def undoable_def in_place_def)

lemma phase_settled:
  "phase fl (fresh i) u \<Longrightarrow> settled env i good u" "phase fl (begun i) u \<Longrightarrow> settled env i good u"
  "phase fl (in_place_for env i good result) u \<Longrightarrow> settled env i good u" "phase fl (published env i good result) u \<Longrightarrow> settled env i good u"
  by (auto simp: phase_def settled_def in_place_def)

lemma phase_frame:
  assumes "core u' = core u"
  shows "phase fl (fresh i) u \<Longrightarrow> phase fl (fresh i) u'" "phase fl (begun i) u \<Longrightarrow> phase fl (begun i) u'"
    "phase fl (in_place_for env i good result) u \<Longrightarrow> phase fl (in_place_for env i good result) u'"
    "phase fl (published env i good result) u \<Longrightarrow> phase fl (published env i good result) u'"
  by (simp_all add: phase_def phase_core [OF assms])

lemma begun_leaves:
  "leaves core m \<Longrightarrow> triple (phase (True, False) (begun i)) m (\<lambda>_. phase (True, False) (begun i)) (undoable env i good) (settled env i good)"
  by (rule triple_leaves [where V = core]) (blast intro: phase_frame phase_undoable phase_settled)+

lemma published_leaves:
  "leaves core m \<Longrightarrow> triple (phase (True, True) (published env i good result)) m (\<lambda>_. phase (True, True) (published env i good result))
     (undoable env i good) (settled env i good)"
  by (rule triple_leaves [where V = core]) (blast intro: phase_frame phase_undoable phase_settled)+

lemma in_place_leaves:
  "leaves core m \<Longrightarrow> triple (phase (True, True) (in_place_for env i good result)) m (\<lambda>_. phase (True, True) (in_place_for env i good result))
     (undoable env i good) (settled env i good)"
  by (rule triple_leaves [where V = core]) (blast intro: phase_frame phase_undoable phase_settled)+

lemma triple_begin:
  "triple (phase (False, False) (fresh i)) (on_vault (with_transaction (begin_operation h now (Some (pi_operation_id i)) (operation_binding_of i))))
     (\<lambda>_. phase (False, False) (begun i)) (undoable env i good) (settled env i good)"
proof (rule triple_conseq [OF triple_unit [OF begin_body, where P = "phase (False, False) (fresh i)"
        and step = "\<lambda>ops ops'. rows i ops = [] \<longrightarrow> (\<exists>r. rows i ops' = [r] \<and> own_row i r \<and> op_state r = STARTED)"]])
  show "rows i (operations_tbl (working v)) = [] \<longrightarrow> (\<exists>r. rows i (operations_tbl (working v')) = [r] \<and> own_row i r \<and> op_state r = STARTED)"
    if "begin_operation h now (Some (pi_operation_id i)) (operation_binding_of i) v = (Inr x, v')" for v v' :: world and x
    using begin_rows [OF that] by blast
  show "phase (False, False) (begun i) u" if "\<exists>ops. phase (False, False) (fresh i) (u\<lparr>vw_ops := ops\<rparr>) \<and>
       (rows i ops = [] \<longrightarrow> (\<exists>r. rows i (vw_ops u) = [r] \<and> own_row i r \<and> op_state r = STARTED))" for u
    using that by (auto simp: phase_def phase_defs)
qed (blast intro: phase_frame phase_undoable phase_settled)+

lemma triple_set_started:
  "triple (phase (False, False) (begun i)) (set_process (\<lambda>p. p\<lparr>pr_started := True\<rparr>)) (\<lambda>_. phase (True, False) (begun i)) E D"
  unfolding set_process_def by (rule triple_set) (simp add: phase_def phase_defs)

lemma leaves_create_spool [triples]:
  "leaves core (io (\<lambda>w. w\<lparr>wd_spool := True, wd_process := (wd_process w)\<lparr>pr_spool := True\<rparr>\<rparr>) e)"
  "leaves contents (io (\<lambda>w. w\<lparr>wd_spool := True, wd_process := (wd_process w)\<lparr>pr_spool := True\<rparr>\<rparr>) e)"
  by (intro triples; simp add: core_def contents_def view_of_def)+

lemma write_dataset_begun:
  assumes "passes_ok good work"
  shows "triple (phase (False, False) (fresh i)) (write_dataset env i created work)
     (\<lambda>_. phase (True, False) (begun i)) (undoable env i good) (settled env i good)"
proof -
  have "leaves core work" using assms by (simp add: passes_ok_def)
  then have "leaves core (bindP (staging_create i) (\<lambda>_.
     bindP (io (\<lambda>w. w\<lparr>wd_spool := True, wd_process := (wd_process w)\<lparr>pr_spool := True\<rparr>\<rparr>) (engine_spool_failure ''CREATE_FAILED'')) (\<lambda>_.
     bindP work (\<lambda>(result, tables).
     bindP create_evidence_root (\<lambda>_.
     bindP (eachP stage_table (enumerate 0 tables)) (\<lambda>_.
     bindP cleanup_evidence_root (\<lambda>_.
     bindP (getP staged_dataset) (\<lambda>ds.
     bindP (read_fingerprint env (map_option Folder ds)) (\<lambda>fp. retP (finished_result i fp created result))))))))))"
    by (intro leaves_create_spool leaves_bind leaves_case leaves_each leaves_stage_table leaves_staging_create leaves_evidence leaves_basic
        leaves_read_fingerprint)
  then show ?thesis unfolding write_dataset_def
    by (intro triple_bind [OF triple_begin] triple_bind [OF triple_set_started] begun_leaves)
qed

lemma returns_staging_create: "returns (\<lambda>_. True) (staging_create i) (\<lambda>_. staged [] [])"
proof -
  have view: "contents (view_of (w\<lparr>wd_staging := Some empty_staging\<rparr>)) = Some (None, None)"
      "contents (view_of w) = Some (None, None) \<Longrightarrow> contents (view_of (on_staging (\<lambda>s. s\<lparr>sd_tables := Some []\<rparr>) w)) = Some (Some [], None)"
      "contents (view_of w) = Some (Some [], None) \<Longrightarrow> staged [] [] (view_of (on_staging (\<lambda>s. s\<lparr>sd_dataset := Some []\<rparr>) w))" for w
    by (auto simp: contents_def staged_def empty_staging_def on_staging_def)
  show ?thesis unfolding staging_create_def
    by (rule triple_bind [OF triple_true], rule triple_bind [OF triple_true],
        rule triple_bind [OF returns_io, where R = "\<lambda>_ u. contents u = Some (None, None)"], rule view(1),
        rule triple_bind [OF triple_leaves [OF leaves_set_process(2)]], auto simp only:,
        rule triple_bind [OF returns_io], erule view(2), rule triple_bind [OF returns_io], erule view(3),
        rule returns_leaves [OF leaves_write_state(2)])
qed

lemma returns_read_fingerprint:
  "returns P (read_fingerprint env root) (\<lambda>fp u. fingerprint_dataset (re_sha env) (\<lambda>_. Inr ()) root = Inr fp)"
  unfolding read_fingerprint_def
  by (rule triple_bind [OF triple_true], rule triple_bind [OF triple_true], rule triple_lift) auto

lemma returns_work: "passes_ok good work \<Longrightarrow> returns (staged ts es) work (\<lambda>(result, tables) u. good result tables \<and> staged ts es u)"
proof (rule tripleI)
  fix w assume work: "passes_ok good work" and w: "staged ts es (view_of w)"
  obtain r w' where r: "work w = (r, w')" by force
  then have "contents (view_of w') = contents (view_of w)" using leavesD work unfolding passes_ok_def by blast
  then show "meets (\<lambda>(result, tables) u. good result tables \<and> staged ts es u) (\<lambda>_. True) (\<lambda>_. True) (work w)"
    using w r work by (cases r) (auto simp: staged_def passes_ok_def split: prod.split)
qed

text \<open>The staged dataset is complete for the result the run is about to record.\<close>

definition ready :: "run_environment \<Rightarrow> publication_identity \<Rightarrow> (run_result \<Rightarrow> (string \<times> inventory) list \<Rightarrow> bool) \<Rightarrow> run_result \<Rightarrow> view \<Rightarrow> bool" where
  "ready env i good result u \<longleftrightarrow> (\<exists>es. complete_dataset env i good es result \<and> staged [] es u)"

lemma write_dataset_ready:
  assumes "passes_ok good work"
  shows "returns (\<lambda>_. True) (write_dataset env i created work) (ready env i good)"
proof -
  have finish: "returns (\<lambda>u. \<exists>es. dataset_of tables = Some es \<and> staged [] es u)
     (bindP cleanup_evidence_root (\<lambda>_.
      bindP (getP staged_dataset) (\<lambda>ds.
      bindP (read_fingerprint env (map_option Folder ds)) (\<lambda>fp. retP (finished_result i fp created result)))))
     (ready env i good)" if good: "good result tables" for result tables
  proof (rule returns_ex, rule returns_fact)
    fix es assume es: "dataset_of tables = Some es"
    have done_: "ready env i good (finished_result i fp created result) u"
      if "fingerprint_dataset (re_sha env) (\<lambda>_. Inr ()) (Some (Folder es)) = Inr fp" "staged [] es u" for fp u
      unfolding ready_def complete_dataset_def using that good es by blast
    have fingerprint: "returns (staged [] es) (read_fingerprint env (Some (Folder es)))
        (\<lambda>fp u. fingerprint_dataset (re_sha env) (\<lambda>_. Inr ()) (Some (Folder es)) = Inr fp \<and> staged [] es u)"
      using triple_and [OF returns_read_fingerprint [of "\<lambda>_. True" env "Some (Folder es)"] returns_leaves [OF leaves_read_fingerprint, of "[]" es env "Some (Folder es)"]]
      by simp
    show "returns (staged [] es)
     (bindP cleanup_evidence_root (\<lambda>_.
      bindP (getP staged_dataset) (\<lambda>ds.
      bindP (read_fingerprint env (map_option Folder ds)) (\<lambda>fp. retP (finished_result i fp created result)))))
     (ready env i good)"
      by (rule triple_bind [OF returns_leaves [OF leaves_evidence(3)]], rule triple_get_is [where c = "Some es"], erule staged_view(2))
        (simp only: option.map, rule triple_bind [OF fingerprint], rule triple_ret, blast intro: done_)
  qed
  have tail: "returns (\<lambda>u. good result tables \<and> staged [] [] u)
     (bindP create_evidence_root (\<lambda>_.
      bindP (eachP stage_table (enumerate 0 tables)) (\<lambda>_.
      bindP cleanup_evidence_root (\<lambda>_.
      bindP (getP staged_dataset) (\<lambda>ds.
      bindP (read_fingerprint env (map_option Folder ds)) (\<lambda>fp. retP (finished_result i fp created result)))))))
     (ready env i good)" for result tables
    by (rule returns_fact, rule triple_bind [OF returns_leaves [OF leaves_evidence(2)]],
        rule triple_bind [OF returns_stage_tables], rule finish [unfolded dataset_of_def])
  show ?thesis unfolding write_dataset_def
    by (rule triple_bind [OF triple_true], rule triple_bind [OF triple_true], rule triple_bind [OF returns_staging_create],
        rule triple_bind [OF returns_leaves [OF leaves_create_spool(2)]], rule triple_bind [OF returns_work [OF assms]])
      (simp add: tail split: prod.split)
qed

text \<open>Before the rename: the operation is begun and the complete dataset is staged.\<close>

definition about_to_promote ::
    "run_environment \<Rightarrow> publication_identity \<Rightarrow> (run_result \<Rightarrow> (string \<times> inventory) list \<Rightarrow> bool) \<Rightarrow> run_result \<Rightarrow> view \<Rightarrow> bool" where
  "about_to_promote env i good result u \<longleftrightarrow> phase (True, False) (begun i) u \<and> ready env i good result u"

lemma write_dataset_triple:
  assumes "passes_ok good work"
  shows "triple (phase (False, False) (fresh i)) (write_dataset env i created work)
     (about_to_promote env i good) (undoable env i good) (settled env i good)"
  by (rule triple_conseq [OF triple_and [OF write_dataset_begun [OF assms] write_dataset_ready [OF assms]]])
    (auto simp: about_to_promote_def)

lemma about_to_promote_leaves:
  assumes "leaves core m" and "leaves contents m"
  shows "triple (about_to_promote env i good result) m (\<lambda>_. about_to_promote env i good result) (undoable env i good) (settled env i good)"
proof (rule triple_leaves [where V = "\<lambda>u. (core u, contents u)"])
  show "leaves (\<lambda>u. (core u, contents u)) m" using assms by (simp add: leaves_def)
  show "about_to_promote env i good result u'" if "(core u', contents u') = (core u, contents u)" "about_to_promote env i good result u" for u u'
    using that phase_frame(2) [of u' u "(True, False)" i] by (auto simp: about_to_promote_def ready_def staged_def)
qed (auto simp: about_to_promote_def intro: phase_undoable phase_settled)

lemma record_operations:
  "operations_tbl (committed (snd (with_transaction (record_publication k ph fp vf) v))) = operations_tbl (committed (v :: world))"
proof -
  obtain r w where m: "with_transaction (record_publication k ph fp vf) v = (r, w)" by force
  have "case r of Inl e \<Rightarrow> operations_tbl (committed w) = operations_tbl (committed v)
    | Inr x \<Rightarrow> operations_tbl (committed v) = operations_tbl (committed w)"
    by (rule unit_operations [OF record_body(1) m, where step = "(=)"]) (simp add: record_rows)
  then show ?thesis using m by (cases r) simp_all
qed

lemma leaves_record [triples]:
  "leaves core (on_vault (with_transaction (record_publication k ph fp vf)))"
  "leaves contents (on_vault (with_transaction (record_publication k ph fp vf)))"
  by (rule leaves_on_vault [OF keeps_more_transaction [OF record_body(2)] record_operations]; simp)+

lemma lease_operations:
  "operations_tbl (committed (snd (acquire_writer_lease owner v))) = operations_tbl (committed v)"
  "operations_tbl (committed (snd (release_writer_lease owner v))) = operations_tbl (committed v)"
  by (auto simp: acquire_writer_lease_def release_writer_lease_def with_system_transaction_def require_trusted_connection_def
      run_transaction_def do_commit_def do_rollback_def Let_def bindV_def split: sum.splits)

lemma keeps_more_lease: "keeps_more (acquire_writer_lease owner)" "keeps_more (release_writer_lease owner)"
  by (auto simp: keeps_more_def acquire_writer_lease_def release_writer_lease_def with_system_transaction_def require_trusted_connection_def
      run_transaction_def do_commit_def do_rollback_def Let_def bindV_def split: sum.splits)

lemma leaves_lease [triples]: "leaves core (on_vault (acquire_writer_lease owner))" "leaves core (on_vault (release_writer_lease owner))"
  by (rule leaves_on_vault [OF keeps_more_lease(1) lease_operations(1)], simp) (rule leaves_on_vault [OF keeps_more_lease(2) lease_operations(2)], simp)

lemma rename_view:
  assumes "phase (True, False) (begun i) (view_of w)" and "staged [] es (view_of w)" and "complete_dataset env i good es result"
  shows "phase (True, False) (in_place_for env i good result)
     (view_of (on_staging (\<lambda>s. s\<lparr>sd_dataset := None\<rparr>) (w\<lparr>wd_destination := Some (Folder es)\<rparr>)))"
  using assms by (auto simp: phase_def phase_defs on_staging_def)

lemma set_renamed_view:
  "phase (True, False) (in_place_for env i good result) (view_of w) \<Longrightarrow> pr_started (f (wd_process w)) = pr_started (wd_process w) \<Longrightarrow>
     pr_renamed (f (wd_process w)) \<Longrightarrow> phase (True, True) (in_place_for env i good result) (view_of (w\<lparr>wd_process := f (wd_process w)\<rparr>))"
  by (simp add: phase_def phase_defs)

lemma promote_triple:
  "triple (about_to_promote env i good result) promote
     (\<lambda>_. phase (True, True) (in_place_for env i good result)) (undoable env i good) (settled env i good)"
proof -
  let ?mid = "phase (True, False) (in_place_for env i good result)"
  let ?done = "phase (True, True) (in_place_for env i good result)"
  have renamed: "triple ?mid (set_process (\<lambda>p. p\<lparr>pr_renamed := True\<rparr>)) (\<lambda>_. ?done) E (settled env i good)"
      "triple ?mid (set_process (\<lambda>p. p\<lparr>pr_renamed := True, pr_promoted := True\<rparr>)) (\<lambda>_. ?done) E (settled env i good)" for E
    unfolding set_process_def by (rule triple_set, erule set_renamed_view; simp)+
  have sync: "triple ?mid sync_directory (\<lambda>_. ?mid) ?mid (settled env i good)"
    by (rule triple_leaves [OF leaves_sync_directory [where V = core]]) (blast intro: phase_frame phase_settled)+
  have tail: "triple ?mid
      (bindP (catchP sync_directory (\<lambda>_.
                bindP (set_process (\<lambda>p. p\<lparr>pr_renamed := True\<rparr>)) (\<lambda>_.
                  raiseP (durability_failure ''DURABILITY_DIRECTORY_SYNC_FAILED_AFTER_RENAME'')))) (\<lambda>_.
         set_process (\<lambda>p. p\<lparr>pr_renamed := True, pr_promoted := True\<rparr>)))
      (\<lambda>_. ?done) (undoable env i good) (settled env i good)"
    by (rule triple_bind [OF triple_catch [OF sync triple_bind [OF renamed(1) triple_raise]] renamed(2)]) (rule phase_undoable)
  have "triple (\<lambda>u. complete_dataset env i good es result \<and> phase (True, False) (begun i) u \<and> staged [] es u) promote
      (\<lambda>_. ?done) (undoable env i good) (settled env i good)" for es
    unfolding promote_def
    by (rule triple_get_is [where c = "(None, Some es)"], (auto simp: phase_def begun_def dest: staged_view(2))[1], simp only: prod.case option.case,
        rule triple_bind [OF triple_guard], assumption, simp, rule triple_bind [OF triple_io, where R = "\<lambda>_. ?mid"],
        (elim conjE, erule (2) rename_view)[1], blast intro: phase_undoable, blast intro: phase_settled, rule tail)
  then have "triple (\<lambda>u. \<exists>es. complete_dataset env i good es result \<and> phase (True, False) (begun i) u \<and> staged [] es u) promote
      (\<lambda>_. ?done) (undoable env i good) (settled env i good)"
    by (auto simp: triple_def)
  then show ?thesis by (rule triple_pre) (auto simp: about_to_promote_def ready_def)
qed

lemma completion_body:
  "body_ok (bindV (record_publication k ph fp vf) (\<lambda>_. complete_operation now k' fp' json))"
  "keeps_more (bindV (record_publication k ph fp vf) (\<lambda>_. complete_operation now k' fp' json))"
  by (intro body_ok_bindV keeps_more_bindV record_body complete_body)+

lemma completion_triple:
  assumes fp: "tr_output_fp result = Some fp"
  shows "triple (phase (True, True) (in_place_for env i good result))
     (on_vault (with_transaction (bindV (record_publication k ph (Some fp) vf) (\<lambda>_.
        complete_operation now (pi_operation_id i) (Some fp) (Some (result_receipt (re_dumps env) result))))))
     (\<lambda>_. phase (True, True) (published env i good result)) (undoable env i good) (settled env i good)"
proof (rule triple_conseq [OF triple_unit [OF completion_body, where P = "phase (True, True) (in_place_for env i good result)"
        and step = "\<lambda>ops ops'. \<forall>r. rows i ops = [r] \<longrightarrow> own_row i r \<longrightarrow> op_state r = STARTED \<longrightarrow>
          rows i ops' = [complete_row now (Some fp) (Some (result_receipt (re_dumps env) result)) r]"]])
  show "\<forall>r. rows i (operations_tbl (working v)) = [r] \<longrightarrow> own_row i r \<longrightarrow> op_state r = STARTED \<longrightarrow>
      rows i (operations_tbl (working v')) = [complete_row now (Some fp) (Some (result_receipt (re_dumps env) result)) r]"
    if unit: "bindV (record_publication k ph (Some fp) vf) (\<lambda>_. complete_operation now (pi_operation_id i) (Some fp)
      (Some (result_receipt (re_dumps env) result))) v = (Inr x, v')" for v v' :: world and x
    using unit by (elim bindV_Inr_E) (simp add: record_rows [symmetric] complete_rows)
  show "phase (True, True) (published env i good result) u"
    if u: "\<exists>ops. phase (True, True) (in_place_for env i good result) (u\<lparr>vw_ops := ops\<rparr>) \<and> (\<forall>r. rows i ops = [r] \<longrightarrow> own_row i r \<longrightarrow>
       op_state r = STARTED \<longrightarrow> rows i (vw_ops u) = [complete_row now (Some fp) (Some (result_receipt (re_dumps env) result)) r])" for u
    using u fp by (auto simp: phase_def phase_defs own_row_def operation_bound_def complete_row_def coalesce_def)
qed (blast intro: phase_frame phase_undoable phase_settled)+

lemma publish_dataset_triple:
  "triple (about_to_promote env i good result) (publish_dataset env i result)
     (\<lambda>r u. r = result \<and> phase (True, True) (published env i good result) u) (undoable env i good) (settled env i good)"
proof (cases "tr_output_fp result")
  case None
  then have "\<not> about_to_promote env i good result u" for u
    by (auto simp: about_to_promote_def ready_def complete_dataset_def finished_result_def)
  then show ?thesis by (simp add: triple_def)
next
  case (Some fp)
  show ?thesis
    unfolding publish_dataset_def Let_def Some option.sel
    by (rule triple_bind [OF about_to_promote_leaves [OF leaves_record]], rule triple_bind [OF about_to_promote_leaves [OF leaves_persist_payload leaves_persist_payload]],
        rule triple_bind [OF about_to_promote_leaves [OF leaves_marks(4,5)]], rule triple_bind [OF about_to_promote_leaves [OF leaves_marks(1,2)]],
        rule triple_bind [OF about_to_promote_leaves [OF leaves_checkpoint leaves_checkpoint]], rule triple_bind [OF promote_triple],
        rule triple_bind [OF in_place_leaves [OF leaves_marks(3)]], rule triple_bind [OF completion_triple [OF Some]],
        rule triple_bind [OF published_leaves [OF leaves_remove_metadata]], rule triple_ret, simp)
qed

lemma abandon_triple:
  "triple (phase (True, False) (begun i)) (on_vault (with_transaction (abandon_operation (pi_operation_id i))))
     (\<lambda>_. phase (True, False) (fresh i)) (settled env i good) (settled env i good)"
proof (rule triple_conseq [OF triple_unit [OF abandon_body, where P = "phase (True, False) (begun i)"
        and step = "\<lambda>ops ops'. \<forall>r. rows i ops = [r] \<longrightarrow> own_row i r \<longrightarrow> op_state r = STARTED \<longrightarrow> rows i ops' = []"]])
  show "\<forall>r. rows i (operations_tbl (working v)) = [r] \<longrightarrow> own_row i r \<longrightarrow> op_state r = STARTED \<longrightarrow> rows i (operations_tbl (working v')) = []"
    if "abandon_operation (pi_operation_id i) v = (Inr x, v')" for v v' :: world and x
    using abandon_rows [OF that] by blast
  show "phase (True, False) (fresh i) u" if "\<exists>ops. phase (True, False) (begun i) (u\<lparr>vw_ops := ops\<rparr>) \<and>
       (\<forall>r. rows i ops = [r] \<longrightarrow> own_row i r \<longrightarrow> op_state r = STARTED \<longrightarrow> rows i (vw_ops u) = [])" for u
    using that by (auto simp: phase_def phase_defs)
qed (blast intro: phase_frame phase_settled)+

lemma settled_leaves: "leaves core m \<Longrightarrow> triple (settled env i good) m (\<lambda>_. settled env i good) (settled env i good) (settled env i good)"
  by (rule triple_leaves [where V = core]) (blast intro: phase_core(6) [THEN iffD2])+

lemma undo_triple:
  "triple (undoable env i good) (undo_run env' i original) Q (settled env i good) (settled env i good)"
proof -
  have undo: "triple (phase (True, False) (begun i))
      (bindP (cleanup_owned (re_listing env')) (\<lambda>_. bindP (if b then cleanup_evidence_root else retP ()) (\<lambda>_.
         on_vault (with_transaction (abandon_operation (pi_operation_id i))))))
      (\<lambda>_. settled env i good) (settled env i good) (settled env i good)" for b
  proof -
    have keep: "triple (phase (True, False) (begun i)) m (\<lambda>_. phase (True, False) (begun i)) (settled env i good) (settled env i good)"
      if "leaves core m" for m :: "unit pm"
      using that by (rule triple_leaves) (blast intro: phase_frame phase_settled)+
    have gone: "triple (phase (True, False) (begun i)) (on_vault (with_transaction (abandon_operation (pi_operation_id i))))
        (\<lambda>_. settled env i good) (settled env i good) (settled env i good)"
      by (rule triple_conseq [OF abandon_triple [of i env good]]) (auto intro: phase_settled)
    show ?thesis
      by (rule triple_bind [OF keep [OF leaves_cleanup_owned]], rule triple_bind [OF keep], rule leaves_if, rule leaves_evidence, rule leaves_basic, rule gone)
  qed
  have keep: "triple (settled env i good) (retP ()) (\<lambda>_. settled env i good) (settled env i good) (settled env i good)"
    by (rule triple_ret)
  show ?thesis
    unfolding undo_run_def
  proof (rule triple_bind [OF triple_get, where R = "\<lambda>p u. undoable env i good u \<and> p = vw_process u"], simp, rule triple_bind [OF _ triple_raise])
    fix p
    show "triple (\<lambda>u. undoable env i good u \<and> p = vw_process u)
        (if pr_started p \<and> \<not> pr_renamed p
         then catchP (bindP (cleanup_owned (re_listing env')) (\<lambda>_. bindP (if pr_evidence p then cleanup_evidence_root else retP ()) (\<lambda>_.
                on_vault (with_transaction (abandon_operation (pi_operation_id i))))))
                (\<lambda>_. raiseP (publication_failure ''ENGINE_OUTPUT_CLEANUP_FAILED''))
         else retP ())
        (\<lambda>_. settled env i good) (settled env i good) (settled env i good)"
    proof (cases "pr_started p \<and> \<not> pr_renamed p")
      case True
      have "triple (phase (True, False) (begun i))
          (catchP (bindP (cleanup_owned (re_listing env')) (\<lambda>_. bindP (if pr_evidence p then cleanup_evidence_root else retP ()) (\<lambda>_.
                on_vault (with_transaction (abandon_operation (pi_operation_id i))))))
                (\<lambda>_. raiseP (publication_failure ''ENGINE_OUTPUT_CLEANUP_FAILED'')))
          (\<lambda>_. settled env i good) (settled env i good) (settled env i good)"
        by (rule triple_catch [OF undo triple_raise])
      then show ?thesis using True by (auto intro: triple_pre simp: undoable_def phase_def flags_def)
    next
      case False
      then show ?thesis by (auto intro: triple_pre [OF keep] dest: undoable_settled)
    qed
  qed
qed

lemma run_engine_triple:
  assumes "passes_ok good work"
  shows "triple (phase (False, False) (fresh i)) (run_engine env i created work)
     (\<lambda>r u. published env i good r u) (settled env i good) (settled env i good)"
proof -
  have "triple (phase (False, False) (fresh i)) (bindP (write_dataset env i created work) (publish_dataset env i))
     (published env i good) (undoable env i good) (settled env i good)"
    by (rule triple_bind [OF write_dataset_triple [OF assms]], rule triple_conseq [OF publish_dataset_triple]) (auto simp: phase_def)
  moreover have "triple (undoable env i good) (undo_run env i e) (published env i good) (settled env i good) (settled env i good)" for e
    by (rule undo_triple)
  ultimately show ?thesis unfolding run_engine_def by (rule triple_catch)
qed

section \<open>Whole runs\<close>

text \<open>The first look at the vault: only a fresh publication proceeds, only a published one is reused.\<close>

lemma find_own: "find (\<lambda>r. op_id r = pi_operation_id i) ops = find (\<lambda>r. op_id r = pi_operation_id i) (rows i ops)"
  "find (\<lambda>r. op_destination r = Some (pi_destination_identity i)) ops = find (\<lambda>r. op_destination r = Some (pi_destination_identity i)) (rows i ops)"
  by (induction ops) (auto simp: rows_def)

lemma query_record:
  assumes "synced w"
  shows "query (operation_record k) w = (Returned (find (\<lambda>r. op_id r = k) (operations_tbl (committed w))), w)"
  using assms by (simp add: query_def of_result_def operation_record_def bindV_def internal_connection_def synced_def)

lemma query_destination:
  assumes "synced w"
  shows "\<exists>x. query (operation_for_destination d) w = (Returned x, w)
    \<and> (find (\<lambda>r. op_destination r = Some d) (operations_tbl (committed w)) = None \<longrightarrow> x = None)"
  using assms by (auto simp: query_def of_result_def operation_for_destination_def operation_record_def bindV_def internal_connection_def synced_def
      split: option.split)

lemma own_row_destination: "own_row i r \<Longrightarrow> op_destination r = Some (pi_destination_identity i)"
  by (simp add: own_row_def operation_bound_def)

definition opened :: "view \<Rightarrow> bool" where
  "opened u \<longleftrightarrow> vw_synced u \<and> vw_process u = new_process"

lemma core_fixed: "leaves core m \<Longrightarrow> returns (\<lambda>u. core u = c) m (\<lambda>_ u. core u = c)"
  by (rule triple_leaves) auto

definition read_back :: "run_environment \<Rightarrow> string option \<Rightarrow> receipt_result \<Rightarrow> bool" where
  "read_back env receipt x \<longleftrightarrow> (\<exists>t. receipt = Some t \<and> result_from_receipt (re_loads env) (re_conversions env) (re_idx_sha env) t = Inr x)"

lemma completed_evidence_returns: "returns (\<lambda>u. core u = c) (completed_evidence env i r) (\<lambda>x u. read_back env (op_result_json r) x \<and> core u = c)"
proof -
  have const: "returns (\<lambda>_. F) m (\<lambda>_ _. F)" for F and m :: "'b pm"
    by (auto simp: triple_def meets_def split: outcome.split)
  have "returns (\<lambda>_. True) (completed_evidence env i r) (\<lambda>x u. read_back env (op_result_json r) x)"
  proof (cases "op_output_fp r")
    case None
    then show ?thesis by (simp add: completed_evidence_def triple_raise)
  next
    case (Some stored)
    note fp = this
    show ?thesis
    proof (cases "op_result_json r")
      case None
      then show ?thesis by (simp add: completed_evidence_def triple_raise fp)
    next
      case (Some receipt)
      show ?thesis unfolding completed_evidence_def fp Some prod.case option.case
        by (rule triple_bind [OF triple_true], rule triple_bind [OF triple_true], rule triple_bind [OF triple_true],
            rule triple_bind [OF triple_lift [where Q = "\<lambda>x u. read_back env (Some receipt) x"]], simp add: read_back_def, simp,
            rule triple_bind [OF const], rule triple_bind [OF const], rule triple_bind [OF const], rule triple_ret, assumption)
    qed
  qed
  from triple_and [OF this core_fixed [OF leaves_completed_evidence(1), of c]] show ?thesis by simp
qed

lemma existing_returns:
  "returns (\<lambda>u. settled env i good u \<and> vw_synced u) (existing_completed_result env' i)
     (\<lambda>x u. case x of None \<Rightarrow> fresh i u
        | Some y \<Rightarrow> \<exists>result. published env i good result u \<and> read_back env' (Some (result_receipt (re_dumps env) result)) y)"
  (is "returns _ _ ?Q")
proof (rule tripleI)
  fix w assume "settled env i good (view_of w) \<and> vw_synced (view_of w)"
  then have settled: "settled env i good (view_of w)" and sync: "synced w" by simp_all
  let ?c = "core (view_of w)" and ?ops = "operations_tbl (committed w)"
  obtain x where x: "query (operation_for_destination (pi_destination_identity i)) w = (Returned x, w)"
    using query_destination [OF sync] by blast
  define rest where "rest = (\<lambda>operation. case operation of
         None \<Rightarrow>
           bindP (guardP (x = None) (target_conflict ''DESTINATION_BOUND_TO_OTHER_OPERATION'')) (\<lambda>_.
           bindP (getP (\<lambda>w. (wd_staging w, wd_destination w))) (\<lambda>(root, destination).
           bindP (guardP (root = None) (publication_failure ''STALE_STAGING_DETECTED'')) (\<lambda>_.
           bindP (guardP (destination = None) (target_conflict ''UNOWNED_TARGET_EXISTS'')) (\<lambda>_. retP None))))
       | Some r \<Rightarrow>
           bindP (guardP (operation_bound i r) (engine_identity_failure ''ENGINE_OPERATION_BINDING_MISMATCH'')) (\<lambda>_.
           bindP (guardP (map_option op_id x = Some (pi_operation_id i)) (publication_failure ''DESTINATION_OPERATION_MISSING'')) (\<lambda>_.
           bindP (guardP (op_state r \<noteq> STARTED) (publication_failure ''STALE_OPERATION_DETECTED'')) (\<lambda>_.
           bindP (guardP (op_state r = COMPLETED) (publication_failure ''OPERATION_STATE_UNKNOWN'')) (\<lambda>_.
           bindP (completed_evidence env' i r) (\<lambda>result. retP (Some result)))))))"
  have run: "existing_completed_result env' i w = rest (find (\<lambda>r. op_id r = pi_operation_id i) ?ops) w"
    by (simp add: existing_completed_result_def bindP_def [of "query _"] query_record [OF sync] x rest_def split: option.split)
  show "meets ?Q (\<lambda>_. True) (\<lambda>_. True) (existing_completed_result env' i w)"
  proof (cases "find (\<lambda>r. op_id r = pi_operation_id i) ?ops")
    case None
    then have fresh: "fresh i (view_of w)"
      using settled find_own(1) [of i ?ops] by (auto simp: phase_defs own_row_def)
    have "returns (\<lambda>u. core u = ?c) (rest None) (\<lambda>y u. y = None \<and> core u = ?c)"
      unfolding rest_def option.case case_prod_beta
      by (rule triple_bind [OF core_fixed [OF leaves_basic(5)]], rule triple_bind [OF core_fixed [OF leaves_basic(3)]],
          rule triple_bind [OF core_fixed [OF leaves_basic(5)]], rule triple_bind [OF core_fixed [OF leaves_basic(5)]], rule triple_ret, simp)
    then have "meets (\<lambda>y u. y = None \<and> core u = ?c) (\<lambda>_. True) (\<lambda>_. True) (rest None w)" by (rule tripleD) simp
    then show ?thesis unfolding run None by (rule meetsE) (auto simp: phase_core(1) [THEN iffD2, OF _ fresh])
  next
    case (Some r)
    then have r: "rows i ?ops = [r]" "\<not> fresh i (view_of w)"
      using settled find_own(1) [of i ?ops] by (auto simp: phase_defs own_row_def split: if_splits)
    have "returns (\<lambda>u. core u = ?c) (rest (Some r)) (\<lambda>y u. op_state r = COMPLETED \<and> (\<exists>z. y = Some z \<and> read_back env' (op_result_json r) z) \<and> core u = ?c)"
      unfolding rest_def option.case
      by (rule triple_bind [OF core_fixed [OF leaves_basic(5)]], rule triple_bind [OF core_fixed [OF leaves_basic(5)]],
          rule triple_bind [OF core_fixed [OF leaves_basic(5)]],
          rule triple_bind [OF returns_guard, where R = "\<lambda>_ u. op_state r = COMPLETED \<and> core u = ?c"], simp, rule returns_fact,
          rule triple_bind [OF completed_evidence_returns], rule triple_ret, simp)
    then have "meets (\<lambda>y u. op_state r = COMPLETED \<and> (\<exists>z. y = Some z \<and> read_back env' (op_result_json r) z) \<and> core u = ?c)
        (\<lambda>_. True) (\<lambda>_. True) (rest (Some r) w)" by (rule tripleD) simp
    moreover have "\<exists>result. published env i good result (view_of w) \<and> op_result_json r = Some (result_receipt (re_dumps env) result)" if "op_state r = COMPLETED"
      using settled r that by (auto simp: settled_def begun_def in_place_def in_place_for_def published_def)
    ultimately show ?thesis unfolding run Some
      by (elim meetsE) (auto, metis phase_core(5))
  qed
qed

lemma whole_leaves: "leaves (\<lambda>u. u) m \<Longrightarrow> triple P m (\<lambda>_. P) P P"
  by (rule triple_leaves [where V = "\<lambda>u. u"]) auto

lemma core_leaves: "leaves core m \<Longrightarrow> (\<And>u u'. core u' = core u \<Longrightarrow> P u \<Longrightarrow> P u') \<Longrightarrow> triple P m (\<lambda>_. P) P P"
  by (rule triple_leaves) auto

lemma triple_with_lock:
  assumes "triple P m Q E D" and "\<And>u. P u \<Longrightarrow> E u" and "\<And>u. P u \<Longrightarrow> D u" and "\<And>x u. Q x u \<Longrightarrow> E u" and "\<And>u. E u \<Longrightarrow> D u"
  shows "triple P (with_lock m) Q E D"
  unfolding with_lock_def
proof (rule triple_bind)
  show "triple P lock_enter (\<lambda>_. P) E D"
    by (rule triple_conseq [OF whole_leaves [OF leaves_lock(1), of P]]) (auto intro: assms)
  have "triple (Q x) lock_exit (\<lambda>_. Q x) E D" for x
    by (rule triple_conseq [OF whole_leaves [OF leaves_lock(2), of "Q x"]]) (auto intro: assms)
  moreover have "triple E lock_exit (\<lambda>_. E) E D"
    by (rule triple_conseq [OF whole_leaves [OF leaves_lock(2), of E]]) (auto intro: assms)
  ultimately show "triple P (exitP m lock_exit) Q E D" by (rule triple_exit [OF assms(1)])
qed

text \<open>The result of a run that returns, and the state it leaves.\<close>

definition run_result_ok ::
    "run_environment \<Rightarrow> publication_identity \<Rightarrow> (run_result \<Rightarrow> (string \<times> inventory) list \<Rightarrow> bool) \<Rightarrow> (receipt_result + run_result) \<Rightarrow> view \<Rightarrow> bool" where
  "run_result_ok env i good r u \<longleftrightarrow>
     (\<exists>result. published env i good result u
        \<and> (case r of Inl y \<Rightarrow> read_back env (Some (result_receipt (re_dumps env) result)) y | Inr x \<Rightarrow> x = result))"

lemma run_result_core: "core u' = core u \<Longrightarrow> run_result_ok env i good r u \<Longrightarrow> run_result_ok env i good r u'"
  unfolding run_result_ok_def using phase_core(5) by blast

lemma run_result_settled: "run_result_ok env i good r u \<Longrightarrow> settled env i good u"
  by (auto simp: run_result_ok_def settled_def)

lemma with_lease_triple:
  assumes "passes_ok good work"
  shows "triple (phase (False, False) (fresh i)) (with_lease env (run_engine env i created work))
     (published env i good) (settled env i good) (settled env i good)"
  unfolding with_lease_def
proof (rule triple_bind)
  show "triple (phase (False, False) (fresh i)) (on_vault (acquire_writer_lease (re_owner env))) (\<lambda>_. phase (False, False) (fresh i))
      (settled env i good) (settled env i good)"
    by (rule triple_leaves [OF leaves_lease(1)]) (blast intro: phase_frame phase_settled)+
  have "triple (published env i good x) (on_vault (release_writer_lease (re_owner env))) (\<lambda>_. published env i good x)
      (settled env i good) (settled env i good)" for x
    by (rule triple_leaves [OF leaves_lease(2)]) (auto simp: settled_def intro: phase_core(5) [THEN iffD2])
  then show "triple (phase (False, False) (fresh i)) (exitP (run_engine env i created work) (on_vault (release_writer_lease (re_owner env))))
      (published env i good) (settled env i good) (settled env i good)"
    by (rule triple_exit [OF run_engine_triple [OF assms] _ settled_leaves [OF leaves_lease(2)]])
qed

lemma settled_frame:
  "core u' = core u \<Longrightarrow> settled env i good u \<Longrightarrow> settled env i good u'" "core u' = core u \<Longrightarrow> flags u = fl \<Longrightarrow> flags u' = fl"
  using phase_core(6,7) by blast+

lemma run_two_pass_triple:
  assumes "passes_ok good work"
  shows "triple (\<lambda>u. settled env i good u \<and> opened u) (run_two_pass env i created work)
     (run_result_ok env i good) (settled env i good) (settled env i good)"
  unfolding run_two_pass_def
proof (rule triple_exit [OF triple_with_lock])
  let ?looked = "\<lambda>x u. case x of None \<Rightarrow> phase (False, False) (fresh i) u | Some y \<Rightarrow> run_result_ok env i good (Inl y) u"
  have "triple (\<lambda>u. (settled env i good u \<and> flags u = (False, False)) \<and> settled env i good u \<and> vw_synced u) (existing_completed_result env i)
      (\<lambda>x u. (settled env i good u \<and> flags u = (False, False)) \<and> (case x of None \<Rightarrow> fresh i u
        | Some y \<Rightarrow> \<exists>result. published env i good result u \<and> read_back env (Some (result_receipt (re_dumps env) result)) y))
      (settled env i good) (settled env i good)"
    by (rule triple_and [OF triple_leaves [OF leaves_existing(1)] existing_returns]) (auto intro: settled_frame)
  then have look: "triple (\<lambda>u. settled env i good u \<and> opened u) (existing_completed_result env i) ?looked (settled env i good) (settled env i good)"
    by (rule triple_conseq) (auto simp: opened_def flags_def new_process_def phase_def run_result_ok_def split: option.splits)
  have refuse: "triple (?looked x) m (\<lambda>_. ?looked x) (settled env i good) (settled env i good)" if "leaves (\<lambda>u. u) m" for x and m :: "unit pm"
    by (rule triple_conseq [OF whole_leaves [OF that, of "?looked x"]]) (auto split: option.splits intro: phase_settled run_result_settled)
  have last: "triple (?looked x) (case x of Some result \<Rightarrow> retP (Inl result)
      | None \<Rightarrow> bindP (with_lease env (run_engine env i created work)) (\<lambda>result. retP (Inr result)))
      (run_result_ok env i good) (settled env i good) (settled env i good)" for x
    by (cases x) (auto intro!: triple_ret triple_bind [OF with_lease_triple [OF assms]] simp: run_result_ok_def)
  show "triple (\<lambda>u. settled env i good u \<and> opened u)
     (bindP (existing_completed_result env i) (\<lambda>existing.
      bindP refuse_spool_leftovers (\<lambda>_.
      bindP refuse_evidence_leftovers (\<lambda>_.
        case existing of
          Some result \<Rightarrow> retP (Inl result)
        | None \<Rightarrow> bindP (with_lease env (run_engine env i created work)) (\<lambda>result. retP (Inr result))))))
     (run_result_ok env i good) (settled env i good) (settled env i good)"
    by (rule triple_bind [OF look], rule triple_bind [OF refuse [OF leaves_evidence(5)]], rule triple_bind [OF refuse [OF leaves_evidence(4)]], rule last)
  show "triple (run_result_ok env i good x) cleanup_engine_resources (\<lambda>_. run_result_ok env i good x) (settled env i good) (settled env i good)" for x
    by (rule triple_leaves [OF leaves_cleanup_engine_resources]) (auto intro: run_result_core run_result_settled)
  show "triple (settled env i good) cleanup_engine_resources (\<lambda>_. settled env i good) (settled env i good) (settled env i good)"
    by (rule settled_leaves [OF leaves_cleanup_engine_resources])
qed (auto intro: run_result_settled)

section \<open>Histories\<close>

text \<open>
  Runs of the same publication one after the other. Each has its own clock, lease owner, passes and fates,
  and each is followed by the end of its process, whether it returned, raised or died.
\<close>

inductive publication_history ::
    "run_environment \<Rightarrow> publication_identity \<Rightarrow> (run_result \<Rightarrow> (string \<times> inventory) list \<Rightarrow> bool) \<Rightarrow> world \<Rightarrow> world \<Rightarrow> bool"
  for env i good w0 where
  history_start: "publication_history env i good w0 w0"
| history_run: "publication_history env i good w0 w \<Longrightarrow> re_sha env' = re_sha env \<Longrightarrow> re_dumps env' = re_dumps env \<Longrightarrow> passes_ok good work \<Longrightarrow>
    publication_history env i good w0 (end_process (snd (run_two_pass env' i created work (w\<lparr>wd_fates := fates\<rparr>))))"

lemma phase_environment:
  assumes "re_sha env' = re_sha env" and "re_dumps env' = re_dumps env"
  shows "settled env' i good = settled env i good" "published env' i good = published env i good"
proof -
  have c: "complete_dataset env' i good = complete_dataset env i good" by (intro ext) (simp add: complete_dataset_def assms)
  then show p: "published env' i good = published env i good" by (intro ext) (simp add: published_def assms)
  have "in_place_for env' i good = in_place_for env i good" by (intro ext) (simp add: in_place_for_def c)
  then have "in_place env' i good = in_place env i good" by (intro ext) (simp add: in_place_def)
  then show "settled env' i good = settled env i good" by (intro ext) (simp add: settled_def p)
qed

lemma end_process_view [simp]:
  "rows i (operations_tbl (committed (end_process w))) = rows i (operations_tbl (committed w))"
  "wd_destination (end_process w) = wd_destination w" "committed (end_process w) = committed w" "opened (view_of (end_process w))"
  by (simp_all add: end_process_def opened_def synced_def)

lemma settled_ends: "settled env i good (view_of w) \<Longrightarrow> settled env i good (view_of (end_process w))"
  by (simp add: phase_defs)

lemma fates_view: "view_of (w\<lparr>wd_fates := fs\<rparr>) = view_of w"
  by simp

lemma history_settled:
  assumes "publication_history env i good w0 w" and "settled env i good (view_of w0)" and "opened (view_of w0)"
  shows "settled env i good (view_of w) \<and> opened (view_of w)"
  using assms
proof (induction rule: publication_history.induct)
  case history_start
  then show ?case by simp
next
  case (history_run w env' work created fates)
  have "settled env' i good (view_of (w\<lparr>wd_fates := fates\<rparr>)) \<and> opened (view_of (w\<lparr>wd_fates := fates\<rparr>))"
    using history_run by (simp add: phase_environment(1) [OF history_run.hyps(2,3)])
  then have "meets (run_result_ok env' i good) (settled env' i good) (settled env' i good) (run_two_pass env' i created work (w\<lparr>wd_fates := fates\<rparr>))"
    by (rule tripleD [OF run_two_pass_triple [OF history_run.hyps(4)]])
  then have "settled env' i good (view_of (snd (run_two_pass env' i created work (w\<lparr>wd_fates := fates\<rparr>))))"
    by (rule meetsE) (auto intro: run_result_settled)
  then show ?case using phase_environment(1) [OF history_run.hyps(2,3)] settled_ends by simp
qed

text \<open>
  C3. Publication is crash safe. Start with a destination that does not exist and a vault without a row
  for the publication, and let any number of runs follow, each of which may fail or die at any
  operation of the disk or at any commit. Afterwards either there is still no row and no destination;
  or there is exactly one row, bound to this publication, and the destination is either absent, and
  the row says \<open>STARTED\<close>, or holds exactly the files of all tables of some run, and the row says
  \<open>STARTED\<close> or says \<open>COMPLETED\<close> with the fingerprint of those files and their receipt. A partial
  dataset is never visible at the destination.
\<close>

theorem publication_crash_safe:
  assumes "publication_history env i good w0 w"
    and "rows i (operations_tbl (committed w0)) = []" and "wd_destination w0 = None" and "opened (view_of w0)"
  shows "rows i (operations_tbl (committed w)) = [] \<and> wd_destination w = None
    \<or> (\<exists>r. rows i (operations_tbl (committed w)) = [r] \<and> own_row i r
        \<and> (op_state r = STARTED \<and> wd_destination w = None
          \<or> (\<exists>es result. wd_destination w = Some (Folder es) \<and> complete_dataset env i good es result
              \<and> (op_state r = STARTED
                \<or> op_state r = COMPLETED \<and> op_output_fp r = tr_output_fp result
                  \<and> op_result_json r = Some (result_receipt (re_dumps env) result)))))"
proof -
  have "settled env i good (view_of w)"
    using history_settled [OF assms(1) _ assms(4)] assms(2,3) by (simp add: settled_def fresh_def)
  then show ?thesis by (auto simp: phase_defs)
qed

text \<open>A run from a state that is not fresh decides before it touches the rows or the destination.\<close>

lemma run_frozen:
  "triple (\<lambda>u. (settled env i good u \<and> vw_synced u) \<and> \<not> fresh i u \<and> core u = c) (run_two_pass env i created work)
     (\<lambda>_ u. core u = c) (\<lambda>u. core u = c) (\<lambda>u. core u = c)"
  unfolding run_two_pass_def
proof (rule triple_exit [OF triple_with_lock])
  have same: "triple (\<lambda>u. core u = c \<and> F) m (\<lambda>_ u. core u = c \<and> F) (\<lambda>u. core u = c) (\<lambda>u. core u = c)" if "leaves core m" for F and m :: "'b pm"
    using that by (rule triple_leaves) auto
  have "triple (\<lambda>u. (core u = c \<and> \<not> fresh i u) \<and> settled env i good u \<and> vw_synced u) (existing_completed_result env i)
      (\<lambda>x u. (core u = c \<and> \<not> fresh i u) \<and> (case x of None \<Rightarrow> fresh i u
        | Some y \<Rightarrow> \<exists>result. published env i good result u \<and> read_back env (Some (result_receipt (re_dumps env) result)) y))
      (\<lambda>u. core u = c) (\<lambda>u. core u = c)"
    by (rule triple_and [OF triple_leaves [OF leaves_existing(1)] existing_returns]) (auto dest: phase_core(1))
  then have look: "triple (\<lambda>u. (settled env i good u \<and> vw_synced u) \<and> \<not> fresh i u \<and> core u = c) (existing_completed_result env i)
      (\<lambda>x u. core u = c \<and> x \<noteq> None) (\<lambda>u. core u = c) (\<lambda>u. core u = c)"
    by (rule triple_conseq) (auto split: option.splits)
  have last: "triple (\<lambda>u. core u = c \<and> x \<noteq> None) (case x of Some result \<Rightarrow> retP (Inl result)
      | None \<Rightarrow> bindP (with_lease env (run_engine env i created work)) (\<lambda>result. retP (Inr result)))
      (\<lambda>_ u. core u = c) (\<lambda>u. core u = c) (\<lambda>u. core u = c)" for x
    by (cases x) (auto intro!: triple_ret simp: triple_false)
  show "triple (\<lambda>u. (settled env i good u \<and> vw_synced u) \<and> \<not> fresh i u \<and> core u = c)
     (bindP (existing_completed_result env i) (\<lambda>existing.
      bindP refuse_spool_leftovers (\<lambda>_.
      bindP refuse_evidence_leftovers (\<lambda>_.
        case existing of
          Some result \<Rightarrow> retP (Inl result)
        | None \<Rightarrow> bindP (with_lease env (run_engine env i created work)) (\<lambda>result. retP (Inr result))))))
     (\<lambda>_ u. core u = c) (\<lambda>u. core u = c) (\<lambda>u. core u = c)"
    by (rule triple_bind [OF look], rule triple_bind [OF same [OF leaves_evidence(5)]], rule triple_bind [OF same [OF leaves_evidence(4)]], rule last)
  show "triple (\<lambda>u. core u = c) cleanup_engine_resources (\<lambda>_ u. core u = c) (\<lambda>u. core u = c) (\<lambda>u. core u = c)" for x :: "receipt_result + run_result"
    by (rule triple_leaves [OF leaves_cleanup_engine_resources]) auto
  show "triple (\<lambda>u. core u = c) cleanup_engine_resources (\<lambda>_ u. core u = c) (\<lambda>u. core u = c) (\<lambda>u. core u = c)"
    by (rule triple_leaves [OF leaves_cleanup_engine_resources]) auto
qed auto

lemma history_frozen:
  assumes "publication_history env i good w w'" and "settled env i good (view_of w)" and "opened (view_of w)" and "\<not> fresh i (view_of w)"
  shows "operations_tbl (committed w') = operations_tbl (committed w) \<and> wd_destination w' = wd_destination w"
  using assms
proof (induction rule: publication_history.induct)
  case history_start
  then show ?case by simp
next
  case (history_run v env' work created fates)
  let ?v = "v\<lparr>wd_fates := fates\<rparr>"
  have same: "operations_tbl (committed v) = operations_tbl (committed w)" "wd_destination v = wd_destination w" using history_run by blast+
  have "settled env i good (view_of v) \<and> opened (view_of v)" by (rule history_settled) (use history_run in auto)
  then have "(settled env' i good (view_of ?v) \<and> vw_synced (view_of ?v)) \<and> \<not> fresh i (view_of ?v) \<and> core (view_of ?v) = core (view_of ?v)"
    using history_run.prems(3) same by (simp add: phase_environment(1) [OF history_run.hyps(2,3)] opened_def fresh_def)
  then have "meets (\<lambda>_ u. core u = core (view_of ?v)) (\<lambda>u. core u = core (view_of ?v)) (\<lambda>u. core u = core (view_of ?v)) (run_two_pass env' i created work ?v)"
    by (rule tripleD [OF run_frozen])
  then have "core (view_of (snd (run_two_pass env' i created work ?v))) = core (view_of v)" by (rule meetsE) simp_all
  then show ?case using same by (simp add: core_def)
qed

text \<open>
  C5. A publication is never redone. From any state a history of runs reaches in which the vault has a
  row for the publication, or the destination exists, no further run changes an operation row or the
  destination, whatever its passes would write and wherever it fails or dies: an interrupted
  publication waits for its operator, and a published dataset stays as it was verified.
\<close>

theorem publication_is_final:
  assumes "publication_history env i good w0 w" and "rows i (operations_tbl (committed w0)) = []" and "wd_destination w0 = None"
    and "opened (view_of w0)" and "publication_history env i good w w'"
    and "rows i (operations_tbl (committed w)) \<noteq> [] \<or> wd_destination w \<noteq> None"
  shows "operations_tbl (committed w') = operations_tbl (committed w) \<and> wd_destination w' = wd_destination w"
proof -
  have "settled env i good (view_of w) \<and> opened (view_of w)"
    using history_settled [OF assms(1) _ assms(4)] assms(2,3) by (simp add: settled_def fresh_def)
  then show ?thesis using history_frozen [OF assms(5)] assms(6) by (auto simp: fresh_def)
qed

text \<open>
  C6. A run that returns has published. Whatever operations failed before, when a run of a history
  returns, the vault holds one \<open>COMPLETED\<close> row of this publication with the fingerprint and the receipt of
  a result, and the destination holds exactly the files of all tables of that result. A new run returns
  that very result; a repeated run returns what its stored receipt reads back as.
\<close>

theorem returned_run_is_published:
  assumes "publication_history env i good w0 w" and "rows i (operations_tbl (committed w0)) = []" and "wd_destination w0 = None"
    and "opened (view_of w0)" and "passes_ok good work"
    and "run_two_pass env i created work (w\<lparr>wd_fates := fates\<rparr>) = (Returned x, w')"
  shows "\<exists>r es result. rows i (operations_tbl (committed w')) = [r] \<and> own_row i r \<and> op_state r = COMPLETED
    \<and> op_output_fp r = tr_output_fp result \<and> op_result_json r = Some (result_receipt (re_dumps env) result)
    \<and> wd_destination w' = Some (Folder es) \<and> complete_dataset env i good es result
    \<and> (case x of Inr new \<Rightarrow> new = result
       | Inl reused \<Rightarrow> result_from_receipt (re_loads env) (re_conversions env) (re_idx_sha env) (result_receipt (re_dumps env) result) = Inr reused)"
proof -
  have "settled env i good (view_of (w\<lparr>wd_fates := fates\<rparr>)) \<and> opened (view_of (w\<lparr>wd_fates := fates\<rparr>))"
    using history_settled [OF assms(1) _ assms(4)] assms(2,3) by (simp add: settled_def fresh_def)
  then have "meets (run_result_ok env i good) (settled env i good) (settled env i good) (run_two_pass env i created work (w\<lparr>wd_fates := fates\<rparr>))"
    by (rule tripleD [OF run_two_pass_triple [OF assms(5)]])
  then have "run_result_ok env i good x (view_of w')" by (simp add: assms(6))
  then show ?thesis
    unfolding run_result_ok_def published_def read_back_def view_of_simps by (elim exE conjE) (intro exI conjI, (assumption | simp split: sum.splits)+)
qed

section \<open>Leftovers\<close>

lemma spool_blocks:
  "triple (\<lambda>u. spool_state u = (True, False)) (run_two_pass env i created work) (\<lambda>_ _. False) (\<lambda>u. spool_state u = (True, False)) (\<lambda>u. spool_state u = (True, False))"
proof -
  let ?P = "\<lambda>u. spool_state u = (True, False)"
  have keep: "triple ?P m (\<lambda>_. ?P) ?P ?P" if "leaves spool_state m" for m :: "'b pm"
    using that by (rule triple_leaves) auto
  have refuse: "triple ?P refuse_spool_leftovers (\<lambda>_ _. False) ?P ?P"
    unfolding refuse_spool_leftovers_def
    by (rule triple_bind [OF triple_get, where R = "\<lambda>b u. b \<and> ?P u"]) (auto simp: spool_state_def intro!: triple_guard)
  have stop: "triple (\<lambda>_. False) f (\<lambda>_ _. False) ?P ?P" for f :: "'b pm" by (simp add: triple_def)
  have clean: "triple ?P cleanup_engine_resources (\<lambda>_. ?P) ?P ?P"
    unfolding cleanup_engine_resources_def
    by (rule triple_bind [OF triple_get, where R = "\<lambda>b u. \<not> b \<and> ?P u"])
      (auto simp: spool_state_def intro!: triple_bind [where R = "\<lambda>_. ?P"] triple_catch [where H = ?P] triple_ret triple_io triple_guard split: if_splits)
  show ?thesis
    unfolding run_two_pass_def
    by (rule triple_exit [OF triple_with_lock [OF triple_bind [OF keep [OF leaves_existing(2)] triple_bind [OF refuse stop]]] stop clean]) auto
qed

end
