(* ===== verification/Publication_Retry.thy ===== *)
theory Publication_Retry
  imports Publication_Safety
begin

text \<open>
  Repeated runs of a publication: which leftovers of a dead process stop every later run, when a completed
  publication is reused, and the sample world on which the theorems are exercised.
\<close>

section \<open>A sample publication\<close>

definition empty_database :: database where
  "empty_database = \<lparr>writer_authority = None, acquire_tick = 0, operations_tbl = [], publication_tbl = [],
        mapping_domains_tbl = [], tables_tbl = [], fields_tbl = [], text_mappings_tbl = [],
        numeric_key_mappings_tbl = [], memo_recovery_tbl = [], temporal_parameters_tbl = []\<rparr>"

definition first_world :: world where
  "first_world = \<lparr>committed = empty_database, working = empty_database, txn_active = False, txn_authorized = False,
          read_only = False, writer_token = None, poisoned = None, closed = False,
          begin_fails = False, commit_fails = False, rollback_fails = False, wd_destination = None, wd_staging = None,
          wd_spool = False, wd_evidence = False, wd_lock = No_Lock_File, wd_process = new_process, wd_fates = []\<rparr>"

definition sample_identity :: publication_identity where
  "sample_identity = \<lparr>pi_operation_id = ''vop-1'', pi_destination_identity = ''dst-1'', pi_vault_fp = ''vlt-1'', pi_binding_fp = ''opb-1'',
     pi_source_fp = ''src-1'', pi_policy_fp = ''pol-1'', pi_relationship_fp = ''rel-1'', pi_lock_name = ''l'', pi_staging_name = ''s''\<rparr>"

definition sample_result :: run_result where
  "sample_result = \<lparr>tr_tables_written = [''A.DBF''], tr_pass1_scanned = 1, tr_pass1_deleted = 0, tr_pass2_written = 1, tr_text_allocated = 0,
     tr_text_reused = 0, tr_numeric_allocated = [], tr_temporal_allocated = False, tr_relations = [], tr_spool_bytes = 0, tr_read_streams = [],
     tr_operation_id = None, tr_output_fp = None, tr_reused_existing = False, tr_protected_created = False, tr_index_artifacts = []\<rparr>"

definition sample_tables :: "(string \<times> inventory) list" where
  "sample_tables = [(''A.DBF'', [(''A.DBF'', [3])])]"

definition sample_env :: run_environment where
  "sample_env = \<lparr>re_sha = (\<lambda>b. if length b < 0 then [] else ''0''), re_dumps = (\<lambda>_. ''receipt''),
     re_loads = (\<lambda>_. Some (sort_json (JObj (receipt_payload (finished_result sample_identity ''out-0'' True sample_result))))),
     re_conversions = \<lparr>cv_str = (\<lambda>_. []), cv_int = (\<lambda>_. Inl ValueError), cv_float_true = (\<lambda>_. True)\<rparr>, re_idx_sha = (\<lambda>_. []),
     re_listing = [State_Part, Tmp_Part, Tables_Part, Dataset_Part, Foreign_Part], re_owner = ''w1'', re_started_at = ''t0'', re_completed_at = ''t1''\<rparr>"

definition sample_work :: run_work where "sample_work = retP (sample_result, sample_tables)"

definition run_sample :: "fate list \<Rightarrow> world \<Rightarrow> (receipt_result + run_result) outcome \<times> world" where
  "run_sample fates w = run_two_pass sample_env sample_identity True sample_work (w\<lparr>wd_fates := fates\<rparr>)"


section \<open>A completed publication is reused\<close>

lemma io_quiet: "wd_fates w = [] \<Longrightarrow> io effect e w = (Returned (), effect w)"
  by (simp add: io_def next_fate_def)

lemma program_steps [simp]:
  "retP x w = (Returned x, w)" "raiseP e w = (Raised e, w)" "getP q w = (Returned (q w), w)" "setP c w = (Returned (), c w)"
  "guardP True e = retP ()" "liftP (Inr x) = retP x"
  "m w = (Returned y, w') \<Longrightarrow> bindP m f w = f y w'" "m w = (Returned y, w') \<Longrightarrow> catchP m h w = (Returned y, w')"
  by (simp_all add: retP_def raiseP_def getP_def setP_def guardP_def liftP_def bindP_def catchP_def)

lemma existing_reused:
  assumes "published env i good result (view_of w)" and "synced w" and "wd_staging w = None" and "wd_fates w = []"
    and read: "result_from_receipt (re_loads env) (re_conversions env) (re_idx_sha env) (result_receipt (re_dumps env) result) = Inr (receipt_view result)"
  shows "existing_completed_result env i w = (Returned (Some (receipt_view result)), w)"
proof -
  let ?ops = "operations_tbl (committed w)"
  obtain r es fp where r: "rows i ?ops = [r]" "own_row i r" "op_state r = COMPLETED" "op_output_fp r = Some fp"
      "op_result_json r = Some (result_receipt (re_dumps env) result)" "wd_destination w = Some (Folder es)"
    and fp: "fingerprint_dataset (re_sha env) (\<lambda>_. Inr ()) (Some (Folder es)) = Inr fp" "tr_output_fp result = Some fp"
      "tr_operation_id result = Some (pi_operation_id i)"
    using assms(1) by (auto simp: published_def complete_dataset_def finished_result_def)
  have found: "find (\<lambda>r. op_id r = pi_operation_id i) ?ops = Some r"
      "find (\<lambda>r. op_destination r = Some (pi_destination_identity i)) ?ops = Some r"
    using find_own [of i ?ops] r(1,2) by (simp_all add: own_row_destination) (simp add: own_row_def)
  have own: "op_id r = pi_operation_id i" "operation_bound i r" using r(2) by (simp_all add: own_row_def)
  have "query (operation_for_destination (pi_destination_identity i)) w = (Returned (Some r), w)"
    using assms(2) found own
    by (simp add: query_def of_result_def operation_for_destination_def operation_record_def bindV_def internal_connection_def synced_def)
  moreover have "completed_evidence env i r w = (Returned (receipt_view result), w)"
    using r fp assms(3,4) read
    by (simp add: completed_evidence_def read_fingerprint_def checkpoint_def io_quiet receipt_view_def)
  ultimately show ?thesis
    using assms(2) found own r(3) by (simp add: existing_completed_result_def query_record)
qed

text \<open>
  C7. A completed publication is reused. When a publication is \<open>COMPLETED\<close>, its run left nothing behind,
  the stored receipt is read by the JSON library that wrote it and no operation fails, a repeated run
  does not execute its passes: it verifies the fingerprint of the destination against the vault, returns
  the result the receipt describes, marked as reused, and changes neither the vault nor the destination.
\<close>

theorem completed_publication_is_reused:
  assumes "published env i good result (view_of w)" and "opened (view_of w)"
    and "wd_staging w = None" and "\<not> wd_spool w" and "\<not> wd_evidence w" and "wd_lock w \<in> {No_Lock_File, Lock_Free}" and "wd_fates w = []"
    and "re_loads env (result_receipt (re_dumps env) result) = Some (sort_json (JObj (receipt_payload result)))"
    and "\<forall>e\<in>set (tr_index_artifacts result). check_idx_evidence (re_idx_sha env) e = Inr e"
  shows "\<exists>w'. run_two_pass env i created work w = (Returned (Inl (receipt_view result)), w')
    \<and> committed w' = committed w \<and> wd_destination w' = wd_destination w \<and> wd_staging w' = None \<and> wd_lock w' = Lock_Free"
proof -
  have "tr_operation_id result \<noteq> None \<and> tr_output_fp result \<noteq> None"
    using assms(1) by (auto simp: published_def complete_dataset_def finished_result_def)
  then have read: "result_from_receipt (re_loads env) (re_conversions env) (re_idx_sha env) (result_receipt (re_dumps env) result) = Inr (receipt_view result)"
    using receipt_reads_back [where loads = "re_loads env" and dumps = "re_dumps env" and r = result] assms(8,9) by simp
  have w: "synced w" "wd_process w = new_process" using assms(2) by (simp_all add: opened_def)
  let ?v = "w\<lparr>wd_lock := Lock_Held\<rparr>"
  have enter: "lock_enter w = (Returned (), ?v)"
    using assms(6,7) by (auto simp: lock_enter_def io_quiet)
  have look: "existing_completed_result env i ?v = (Returned (Some (receipt_view result)), ?v)"
    by (rule existing_reused [OF _ _ _ _ read]) (use assms(1,3,7) w(1) in \<open>simp_all add: synced_def\<close>)
  have exit: "lock_exit ?v = (Returned (), w\<lparr>wd_lock := Lock_Free\<rparr>)"
    using assms(7) by (simp add: lock_exit_def bindP_def catchP_def io_def next_fate_def guardP_def)
  have clean: "cleanup_engine_resources (w\<lparr>wd_lock := Lock_Free\<rparr>) = (Returned (), w\<lparr>wd_lock := Lock_Free, closed := True\<rparr>)"
    using assms(7) w(2) by (simp add: cleanup_engine_resources_def bindP_def catchP_def io_def next_fate_def guardP_def new_process_def)
  have "with_lock (bindP (existing_completed_result env i) (\<lambda>existing.
          bindP refuse_spool_leftovers (\<lambda>_.
          bindP refuse_evidence_leftovers (\<lambda>_.
            case existing of
              Some result \<Rightarrow> retP (Inl result)
            | None \<Rightarrow> bindP (with_lease env (run_engine env i created work)) (\<lambda>result. retP (Inr result)))))) w
      = (Returned (Inl (receipt_view result)), w\<lparr>wd_lock := Lock_Free\<rparr>)"
    using assms(4,5) by (simp add: with_lock_def enter exitP_def look exit refuse_spool_leftovers_def refuse_evidence_leftovers_def)
  then show ?thesis using assms(3) by (simp add: run_two_pass_def exitP_def clean)
qed

section \<open>Leftovers that stop every run\<close>

text \<open>
  C36. A leftover spool stops every run. When a process dies while its private spool database exists, no
  later run returns, not even one that only has to report the completed publication: whatever its
  passes, its clock and the fates of its operations, it raises or dies, and it leaves the spool where it is.
\<close>

theorem leftover_spool_blocks:
  assumes "opened (view_of w)" and "wd_spool w" and "run_two_pass env i created work (w\<lparr>wd_fates := fates\<rparr>) = (outcome, w')"
  shows "(\<forall>x. outcome \<noteq> Returned x) \<and> wd_spool (end_process w') \<and> opened (view_of (end_process w'))"
proof -
  have "spool_state (view_of (w\<lparr>wd_fates := fates\<rparr>)) = (True, False)"
    using assms(1,2) by (simp add: spool_state_def opened_def new_process_def)
  then have "meets (\<lambda>_ _. False) (\<lambda>u. spool_state u = (True, False)) (\<lambda>u. spool_state u = (True, False)) (outcome, w')"
    using tripleD [OF spool_blocks] assms(3) by metis
  then have "(\<forall>x. outcome \<noteq> Returned x) \<and> wd_spool w'" by (rule meetsE) (auto simp: spool_state_def)
  then show ?thesis by (simp add: end_process_def opened_def synced_def)
qed

section \<open>States no run leaves\<close>

text \<open>A program keeps \<open>P\<close> of the world however it ends, and returns only results in \<open>Q\<close>.\<close>

definition stays :: "(world \<Rightarrow> bool) \<Rightarrow> 'a pm \<Rightarrow> ('a \<Rightarrow> bool) \<Rightarrow> bool" where
  "stays P m Q \<longleftrightarrow> (\<forall>w. P w \<longrightarrow> P (snd (m w)) \<and> (\<forall>x. fst (m w) = Returned x \<longrightarrow> Q x))"

named_theorems stay \<open>rules that take a program apart\<close>

lemma staysD: "stays P m Q \<Longrightarrow> P w \<Longrightarrow> m w = (r, w') \<Longrightarrow> P w' \<and> (\<forall>x. r = Returned x \<longrightarrow> Q x)"
  unfolding stays_def by (metis fst_conv snd_conv)

lemma stays_weaken: "stays P m R \<Longrightarrow> (\<And>x. R x \<Longrightarrow> Q x) \<Longrightarrow> stays P m Q"
  by (auto simp: stays_def)

lemma stays_bind: "stays P m R \<Longrightarrow> (\<And>x. R x \<Longrightarrow> stays P (f x) Q) \<Longrightarrow> stays P (bindP m f) Q"
  by (fastforce simp: stays_def bindP_def split: prod.split outcome.split)

lemmas stays_then = stays_bind [where R = "\<lambda>_. True"]

lemma stays_catch [stay]: "stays P m Q \<Longrightarrow> (\<And>e. stays P (h e) Q) \<Longrightarrow> stays P (catchP m h) Q"
  by (fastforce simp: stays_def catchP_def split: prod.split outcome.split)

lemma stays_exit: "stays P m Q \<Longrightarrow> stays P exit (\<lambda>_. True) \<Longrightarrow> stays P (exitP m exit) Q"
  by (fastforce simp: stays_def exitP_def bindP_def retP_def raiseP_def split: prod.split outcome.split)

lemma stays_basic [stay]: "Q x \<Longrightarrow> stays P (retP x) Q" "stays P (raiseP e) Q" "(b \<Longrightarrow> R ()) \<Longrightarrow> stays P (guardP b e) R"
  "(\<And>x. r = Inr x \<Longrightarrow> Q x) \<Longrightarrow> stays P (liftP r) Q" "(\<And>w. P w \<Longrightarrow> P (k w)) \<Longrightarrow> R () \<Longrightarrow> stays P (setP k) R"
  by (auto simp: stays_def retP_def raiseP_def guardP_def liftP_def setP_def split: sum.split)

lemma stays_get [stay]: "(\<And>w. P w \<Longrightarrow> Q (f w)) \<Longrightarrow> stays P (getP f) Q"
  by (simp add: stays_def getP_def)

lemma stays_query [stay]: "(\<And>w. snd (m w) = w) \<Longrightarrow> stays P (query m) (\<lambda>_. True)"
  by (simp add: stays_def query_def)

text \<open>The fates of the operating system are no part of \<open>P\<close>.\<close>

definition fateless :: "(world \<Rightarrow> bool) \<Rightarrow> bool" where
  "fateless P \<longleftrightarrow> (\<forall>w fs. P (w\<lparr>wd_fates := fs\<rparr>) = P w)"

lemma stays_io [stay]: "fateless P \<Longrightarrow> (\<And>w. P w \<Longrightarrow> P (effect w)) \<Longrightarrow> R () \<Longrightarrow> stays P (io effect e) R"
  by (auto simp: stays_def io_def fateless_def next_fate_def split: list.split fate.split)

lemma stays_each: "(\<And>x. x \<in> set xs \<Longrightarrow> stays P (f x) (\<lambda>_. True)) \<Longrightarrow> stays P (eachP f xs) (\<lambda>_. True)"
  by (induction xs) (auto intro: stay stays_bind)

lemma stays_case [stay]:
  "(\<And>a b. p = (a, b) \<Longrightarrow> stays P (f a b) Q) \<Longrightarrow> stays P (case p of (a, b) \<Rightarrow> f a b) Q"
  "(o' = None \<Longrightarrow> stays P m Q) \<Longrightarrow> (\<And>x. o' = Some x \<Longrightarrow> stays P (g x) Q) \<Longrightarrow> stays P (case o' of None \<Rightarrow> m | Some x \<Rightarrow> g x) Q"
  "(b \<Longrightarrow> stays P m Q) \<Longrightarrow> (\<not> b \<Longrightarrow> stays P n Q) \<Longrightarrow> stays P (if b then m else n) Q"
  by (auto split: prod.split option.split)

lemma stays_fingerprint [stay]: "fateless P \<Longrightarrow> stays P (read_fingerprint env root) (\<lambda>_. True)"
  unfolding read_fingerprint_def checkpoint_def by (auto intro!: stays_then stay)

text \<open>What surrounds the publication of a run touches the lock file and its own resources only.\<close>

lemma stays_run:
  assumes P: "fateless P" and frame: "\<And>w l. P w \<Longrightarrow> P (w\<lparr>wd_lock := l\<rparr>)" "\<And>w. P w \<Longrightarrow> P (w\<lparr>wd_spool := False\<rparr>)"
      "\<And>w. P w \<Longrightarrow> P (w\<lparr>closed := True\<rparr>)"
    and look: "stays P (existing_completed_result env i) R"
    and new: "R None \<Longrightarrow> stays P (with_lease env (run_engine env i created work)) (\<lambda>r. Q (Inr r))" and old: "\<And>x. R (Some x) \<Longrightarrow> Q (Inl x)"
  shows "stays P (run_two_pass env i created work) Q"
proof -
  have enter: "stays P lock_enter (\<lambda>_. True)" unfolding lock_enter_def by (auto intro!: stays_then stay P frame(1))
  have exit: "stays P lock_exit (\<lambda>_. True)" unfolding lock_exit_def by (auto intro!: stays_then stay P frame(1))
  have clean: "stays P cleanup_engine_resources (\<lambda>_. True)"
    unfolding cleanup_engine_resources_def by (auto intro!: stays_then stay P frame(2,3))
  have refuse: "stays P refuse_spool_leftovers (\<lambda>_. True)" "stays P refuse_evidence_leftovers (\<lambda>_. True)"
    unfolding refuse_spool_leftovers_def refuse_evidence_leftovers_def by (auto intro!: stays_then stay)
  have last: "stays P (case existing of Some result \<Rightarrow> retP (Inl result)
      | None \<Rightarrow> bindP (with_lease env (run_engine env i created work)) (\<lambda>result. retP (Inr result))) Q" if "R existing" for existing
    using that by (cases existing) (auto intro!: stays_bind [OF new] stay old)
  show ?thesis
    unfolding run_two_pass_def with_lock_def
    by (rule stays_exit [OF stays_bind [OF enter stays_exit [OF stays_bind [OF look stays_bind [OF refuse(1) stays_bind [OF refuse(2) last]]] exit]] clean])
qed

text \<open>A staging directory without its state record: every look at the publication refuses it.\<close>

lemma stays_stranded:
  assumes "sd_state s = None"
  shows "stays (\<lambda>w. wd_staging w = Some s) (existing_completed_result env i) (\<lambda>_. False)"
proof -
  let ?P = "\<lambda>w. wd_staging w = Some s"
  have P: "fateless ?P" by (simp add: fateless_def)
  have reconcile: "stays ?P (reconcile_completed_staging_residual order j fp s) (\<lambda>_. False)" for order j fp
    using assms by (simp add: reconcile_completed_staging_residual_def stay)
  have evidence: "stays ?P (completed_evidence env i r) (\<lambda>_. False)" for r
  proof (cases "(op_output_fp r, op_result_json r)")
    case (Pair a b)
    have last: "stays ?P (bindP (getP wd_staging) (\<lambda>root.
        bindP (case root of None \<Rightarrow> retP () | Some s \<Rightarrow> reconcile_completed_staging_residual (re_listing env) i stored s) (\<lambda>_. retP result))) (\<lambda>_. False)"
      for stored and result :: receipt_result
      by (rule stays_bind [OF stays_get, where R = "\<lambda>root. root = Some s"]) (auto intro!: stays_bind [OF reconcile])
    show ?thesis unfolding completed_evidence_def Pair
      by (cases a; cases b) (auto intro!: stay P last stays_bind [OF stays_get, where R = "\<lambda>_. True"] stays_bind [OF stays_fingerprint [OF P]]
          stays_bind [OF stays_basic(3), where R = "\<lambda>_. True"] stays_bind [OF stays_basic(4), where R = "\<lambda>_. True"])
  qed
  have absent: "stays ?P (bindP (getP (\<lambda>w. (wd_staging w, wd_destination w))) (\<lambda>(root, destination).
      bindP (guardP (root = None) e) (\<lambda>_. bindP (guardP (destination = None) e') (\<lambda>_. retP None)))) (\<lambda>_. False)" for e e'
    by (rule stays_bind [OF stays_get, where R = "\<lambda>(root, d). root = Some s"]) (auto intro!: stays_bind [OF stays_basic(3), where R = "\<lambda>_. False"])
  note guard = stays_bind [OF stays_basic(3), where R = "\<lambda>_. True"]
  show ?thesis
    unfolding existing_completed_result_def
  proof (rule stays_bind [OF stays_query [OF operation_record_reads]], rule stays_bind [OF stays_query [OF operation_for_destination_reads]])
    fix operation destination :: "operation_row option"
    show "stays ?P (case operation of
         None \<Rightarrow>
           bindP (guardP (destination = None) (target_conflict ''DESTINATION_BOUND_TO_OTHER_OPERATION'')) (\<lambda>_.
           bindP (getP (\<lambda>w. (wd_staging w, wd_destination w))) (\<lambda>(root, destination).
           bindP (guardP (root = None) (publication_failure ''STALE_STAGING_DETECTED'')) (\<lambda>_.
           bindP (guardP (destination = None) (target_conflict ''UNOWNED_TARGET_EXISTS'')) (\<lambda>_. retP None))))
       | Some r \<Rightarrow>
           bindP (guardP (operation_bound i r) (engine_identity_failure ''ENGINE_OPERATION_BINDING_MISMATCH'')) (\<lambda>_.
           bindP (guardP (map_option op_id destination = Some (pi_operation_id i)) (publication_failure ''DESTINATION_OPERATION_MISSING'')) (\<lambda>_.
           bindP (guardP (op_state r \<noteq> STARTED) (publication_failure ''STALE_OPERATION_DETECTED'')) (\<lambda>_.
           bindP (guardP (op_state r = COMPLETED) (publication_failure ''OPERATION_STATE_UNKNOWN'')) (\<lambda>_.
           bindP (completed_evidence env i r) (\<lambda>result. retP (Some result))))))) (\<lambda>_. False)"
      by (cases operation) (auto intro!: guard absent stays_bind [OF evidence])
  qed
qed

text \<open>A held writer lease: the acquisition fails, and nothing before it touches the database.\<close>

definition lease_held :: "world \<Rightarrow> bool" where
  "lease_held w \<longleftrightarrow> writer_authority (committed w) \<noteq> None"

lemma acquire_held:
  assumes "lease_held v" and "acquire_writer_lease owner v = (r, v')"
  shows "lease_held v' \<and> isl r"
  using assms by (auto simp: lease_held_def acquire_writer_lease_def with_system_transaction_def run_transaction_def require_trusted_connection_def do_rollback_def
      bindV_def Let_def split: sum.splits if_splits option.splits prod.splits)

lemma stays_lease_held: "stays lease_held (on_vault (acquire_writer_lease owner)) (\<lambda>_. False)"
  unfolding stays_def
proof (intro allI impI)
  fix w assume w: "lease_held w"
  obtain f w1 where f: "next_fate w = (f, w1)" by force
  then have w1: "lease_held w1" "lease_held (w1\<lparr>commit_fails := True\<rparr>)" using w by (auto simp: lease_held_def next_fate_def split: list.splits)
  obtain r v where m: "acquire_writer_lease owner w1 = (r, v)" by force
  obtain r' v' where m': "acquire_writer_lease owner (w1\<lparr>commit_fails := True\<rparr>) = (r', v')" by force
  show "lease_held (snd (on_vault (acquire_writer_lease owner) w)) \<and> (\<forall>x. fst (on_vault (acquire_writer_lease owner) w) = Returned x \<longrightarrow> False)"
    using acquire_held [OF w1(1) m] acquire_held [OF w1(2) m'] w1(1)
    by (cases f; cases r; cases r') (simp_all add: on_vault_def f m m' of_result_def lease_held_def)
qed

lemma stays_existing_lease: "stays lease_held (existing_completed_result env i) (\<lambda>_. True)"
proof -
  have P: "fateless lease_held" by (simp add: fateless_def lease_held_def)
  note bind = stays_then
  have root: "stays lease_held (remove_root e) (\<lambda>_. True)" for e
    using stays_io [OF P, of "\<lambda>w. w\<lparr>wd_staging := None\<rparr>" "\<lambda>_. True" e] by (auto simp: stays_def remove_root_def lease_held_def split: option.split)
  have tree: "stays lease_held (rmtree_staging order) (\<lambda>_. True)" for order
    unfolding rmtree_staging_def by (intro bind stays_each stays_io P root) (simp_all add: on_staging_def lease_held_def)
  have reconcile: "stays lease_held (reconcile_completed_staging_residual order j fp s) (\<lambda>_. True)" for order j fp s
    unfolding reconcile_completed_staging_residual_def by (auto intro!: bind stay tree split: option.split)
  have "stays lease_held (completed_evidence env i r) (\<lambda>_. True)" for r
    unfolding completed_evidence_def by (auto intro!: bind stay P reconcile split: option.split)
  then show ?thesis
    unfolding existing_completed_result_def
    by (auto intro!: bind stay operation_record_reads operation_for_destination_reads split: option.split)
qed

text \<open>
  C37. Two states in which a dead process stops later runs although no data is lost, whatever their passes,
  their clock and the fates of their operations. Where a staging directory is left without its
  \<open>transaction.json\<close>, which the cleanup removes before the directory, no later run returns, not even one
  that only has to report the completed publication, and the directory stays. Where the writer lease is
  held, which a process acquires before its first row and which nothing takes from a dead one, no later
  run publishes anything, and the lease stays held.
\<close>

theorem interrupted_at_the_edges:
  assumes "run_two_pass env i created work (w\<lparr>wd_fates := fates\<rparr>) = (outcome, w')"
  shows "(wd_staging w = Some s \<and> sd_state s = None \<longrightarrow> (\<forall>x. outcome \<noteq> Returned x) \<and> wd_staging (end_process w') = Some s)
    \<and> (writer_authority (committed w) \<noteq> None \<longrightarrow> (\<forall>x. outcome \<noteq> Returned (Inr x)) \<and> writer_authority (committed (end_process w')) \<noteq> None)"
proof -
  have "stays (\<lambda>w. wd_staging w = Some s) (run_two_pass env i created work) (\<lambda>_. False)" if "sd_state s = None"
    by (rule stays_run [OF _ _ _ _ stays_stranded [OF that]]) (simp_all add: fateless_def)
  then have a: "(\<forall>x. outcome \<noteq> Returned x) \<and> wd_staging w' = Some s" if "wd_staging w = Some s" "sd_state s = None"
    using staysD [where m = "run_two_pass env i created work", OF _ _ assms] that by fastforce
  have "stays lease_held (with_lease env (run_engine env i created work)) (\<lambda>_. False)"
    unfolding with_lease_def by (rule stays_bind [OF stays_lease_held]) simp
  then have "stays lease_held (run_two_pass env i created work) (\<lambda>r. \<exists>y. r = Inl y)"
    by (intro stays_run [OF _ _ _ _ stays_existing_lease]) (auto simp: fateless_def lease_held_def elim: stays_weaken)
  note lease = staysD [where m = "run_two_pass env i created work", OF this _ assms]
  have b: "(\<forall>x. outcome \<noteq> Returned (Inr x)) \<and> lease_held w'" if "lease_held w"
    using lease that by (auto simp: lease_held_def)
  show ?thesis using a b by (auto simp: end_process_def lease_held_def)
qed

section \<open>The sample runs\<close>

definition crashed :: "nat \<Rightarrow> world" where
  "crashed n = end_process (snd (run_sample (replicate n Succeeds @ [Dies]) first_world))"

definition sample_good :: "run_result \<Rightarrow> (string \<times> inventory) list \<Rightarrow> bool" where
  "sample_good r tables \<longleftrightarrow> r = sample_result \<and> tables = sample_tables"

lemma sample_passes: "passes_ok sample_good sample_work"
  by (auto simp: passes_ok_def sample_work_def sample_good_def retP_def leaves_def)

lemma sample_history:
  assumes "publication_history sample_env sample_identity sample_good first_world w"
  shows "publication_history sample_env sample_identity sample_good first_world (end_process (snd (run_sample fates w)))"
  unfolding run_sample_def by (rule history_run [OF assms refl refl sample_passes])

lemma sample_start:
  "rows sample_identity (operations_tbl (committed first_world)) = []" "wd_destination first_world = None" "opened (view_of first_world)"
  by (simp_all add: rows_def first_world_def empty_database_def opened_def synced_def)

lemma crashed_history: "publication_history sample_env sample_identity sample_good first_world (crashed n)"
  unfolding crashed_def by (rule sample_history [OF history_start])

text \<open>After death 33 the dataset is renamed and the operation not yet completed.\<close>

lemma crashed_33: "wd_destination (crashed 33) = Some (Folder [(''A.DBF'', RegularFile [3])])"
  by code_simp

theorem publication_crash_safe_witness:
  "\<exists>r. rows sample_identity (operations_tbl (committed (crashed 33))) = [r] \<and> own_row sample_identity r
     \<and> (\<exists>result. complete_dataset sample_env sample_identity sample_good [(''A.DBF'', RegularFile [3])] result)"
  using publication_crash_safe [OF crashed_history [of 33] sample_start] crashed_33 by auto

theorem publication_is_final_witness:
  "wd_destination (end_process (snd (run_sample [] (crashed 33)))) = Some (Folder [(''A.DBF'', RegularFile [3])])"
proof -
  have "publication_history sample_env sample_identity sample_good (crashed 33) (end_process (snd (run_sample [] (crashed 33))))"
    unfolding run_sample_def by (rule history_run [OF history_start refl refl sample_passes])
  from publication_is_final [OF crashed_history sample_start this] crashed_33 show ?thesis by simp
qed

lemma sample_returns:
  "fst (run_sample [] first_world) = Returned (Inr (finished_result sample_identity ''out-0'' True sample_result))"
  by code_simp

theorem returned_run_is_published_witness:
  "\<exists>r es. rows sample_identity (operations_tbl (committed (snd (run_sample [] first_world)))) = [r] \<and> op_state r = COMPLETED
     \<and> wd_destination (snd (run_sample [] first_world)) = Some (Folder es)
     \<and> complete_dataset sample_env sample_identity sample_good es (finished_result sample_identity ''out-0'' True sample_result)"
proof -
  have "run_two_pass sample_env sample_identity True sample_work (first_world\<lparr>wd_fates := []\<rparr>)
      = (Returned (Inr (finished_result sample_identity ''out-0'' True sample_result)), snd (run_sample [] first_world))"
    using sample_returns by (simp add: run_sample_def prod_eq_iff)
  from returned_run_is_published [OF history_start sample_start sample_passes this] show ?thesis by auto
qed

theorem completed_publication_is_reused_witness:
  "\<exists>w'. run_sample [] (end_process (snd (run_sample [] first_world)))
     = (Returned (Inl (receipt_view (finished_result sample_identity ''out-0'' True sample_result))), w')"
proof -
  let ?r = "finished_result sample_identity ''out-0'' True sample_result" and ?w = "end_process (snd (run_sample [] first_world))"
  have start: "settled sample_env sample_identity sample_good (view_of (first_world\<lparr>wd_fates := []\<rparr>)) \<and> opened (view_of (first_world\<lparr>wd_fates := []\<rparr>))"
    using sample_start by (simp add: settled_def fresh_def)
  have "meets (run_result_ok sample_env sample_identity sample_good) (settled sample_env sample_identity sample_good)
      (settled sample_env sample_identity sample_good) (run_sample [] first_world)"
    unfolding run_sample_def by (rule tripleD [OF run_two_pass_triple [OF sample_passes] start])
  then have "published sample_env sample_identity sample_good ?r (view_of (snd (run_sample [] first_world)))"
    by (simp add: meets_def run_result_ok_def sample_returns)
  then have p: "published sample_env sample_identity sample_good ?r (view_of ?w)" by (simp add: published_def)
  have clean: "wd_staging ?w = None" "\<not> wd_spool ?w" "\<not> wd_evidence ?w" "wd_lock ?w = Lock_Free" by code_simp+
  have loads: "re_loads sample_env (result_receipt (re_dumps sample_env) ?r) = Some (sort_json (JObj (receipt_payload ?r)))"
    by (simp add: sample_env_def)
  have idx: "\<forall>e\<in>set (tr_index_artifacts ?r). check_idx_evidence (re_idx_sha sample_env) e = Inr e"
    by (simp add: finished_result_def sample_result_def)
  show ?thesis
    using completed_publication_is_reused [where w = "?w\<lparr>wd_fates := []\<rparr>" and created = True and work = sample_work, OF _ _ _ _ _ _ _ loads idx] p clean
    by (auto simp: run_sample_def)
qed

lemma crashed_38: "wd_spool (crashed 38)" "map op_state (operations_tbl (committed (crashed 38))) = [COMPLETED]"
  by code_simp+

theorem leftover_spool_blocks_witness:
  "map op_state (operations_tbl (committed (crashed 38))) = [COMPLETED] \<and> (\<forall>fates x. fst (run_sample fates (crashed 38)) \<noteq> Returned x)"
proof -
  have "opened (view_of (crashed 38))" by (simp add: crashed_def)
  then have "fst (run_sample fates (crashed 38)) \<noteq> Returned x" for fates x
    using leftover_spool_blocks [OF _ crashed_38(1), of sample_env sample_identity True sample_work fates "fst (run_sample fates (crashed 38))"
        "snd (run_sample fates (crashed 38))"]
    by (simp add: run_sample_def)
  then show ?thesis using crashed_38(2) by blast
qed

theorem interrupted_at_the_edges_witness:
  "map op_state (operations_tbl (committed (crashed 39))) = [COMPLETED] \<and> wd_destination (crashed 39) = Some (Folder [(''A.DBF'', RegularFile [3])])
   \<and> (\<forall>fates x. fst (run_sample fates ((crashed 39)\<lparr>wd_spool := False\<rparr>)) \<noteq> Returned x)
   \<and> operations_tbl (committed (crashed 3)) = [] \<and> wd_staging (crashed 3) = None
   \<and> (\<forall>fates x. fst (run_sample fates (crashed 3)) \<noteq> Returned (Inr x))"
proof -
  let ?v = "(crashed 39)\<lparr>wd_spool := False\<rparr>" and ?u = "crashed 3"
  have v: "map op_state (operations_tbl (committed (crashed 39))) = [COMPLETED]" "wd_destination (crashed 39) = Some (Folder [(''A.DBF'', RegularFile [3])])"
    "map_option sd_state (wd_staging (crashed 39)) = Some None" by code_simp+
  have u: "operations_tbl (committed ?u) = []" "wd_staging ?u = None" "writer_authority (committed ?u) \<noteq> None" by code_simp+
  obtain s where s: "wd_staging (crashed 39) = Some s" "sd_state s = None" using v(3) by auto
  then have staging: "wd_staging ?v = Some s \<and> sd_state s = None" by simp
  have run: "run_two_pass sample_env sample_identity True sample_work (x\<lparr>wd_fates := fates\<rparr>) = (fst (run_sample fates x), snd (run_sample fates x))" for fates x
    by (simp add: run_sample_def)
  have a: "fst (run_sample fates ?v) \<noteq> Returned x" for fates x
    using interrupted_at_the_edges [OF run, of ?v s fates] staging by blast
  have b: "fst (run_sample fates ?u) \<noteq> Returned (Inr x)" for fates x
    using interrupted_at_the_edges [OF run, of ?u _ fates] u(3) by blast
  show ?thesis using v u(1,2) a b by blast
qed

end
