(* ===== verification/Progress_Control.thy ===== *)
theory Progress_Control
  imports Run_Receipt Pass_One_Scan
begin

text \<open>
  The progress and cancellation controller of one invocation (\<open>ProgressController\<close> of
  \<^verbatim>\<open>src/src/dbf_anonymizer/progress.py\<close>) and the event model it fills (\<open>ProgressEvent\<close> of
  \<^verbatim>\<open>models.py\<close>). The two callbacks are arguments: the answer of every call of the cancel check, and
  whether a call of the progress callback returns. A step of an operation under a controller is a
  function of the controller's state.
\<close>

section \<open>Events\<close>

record progress_event =
  ev_operation_id :: string
  ev_phase :: string
  ev_code :: string
  ev_completed :: int
  ev_total :: "int option"
  ev_table :: "string option"

definition PROGRESS_PHASE_CODES :: "string list" where
  "PROGRESS_PHASE_CODES = [''OPERATION'', ''DISCOVERY'', ''FINGERPRINT'', ''TABLE_EVALUATION'', ''SOURCE_VERIFICATION'', ''SOURCE_REVALIDATION'',
     ''CAPACITY_SCAN'', ''SCAN'', ''WRITE'', ''VERIFICATION'', ''VAULT_VERIFICATION'', ''OUTPUT_VERIFICATION'', ''RECOVERY_SCAN'',
     ''TRANSFER_SCAN'', ''PUBLICATION'', ''PASS1_SCAN'', ''PASS1_FINALIZE'', ''PASS2_WRITE'', ''INDEX_REBUILD'']"

definition PROGRESS_EVENT_CODES :: "string list" where
  "PROGRESS_EVENT_CODES = [''STARTED'', ''PROGRESS'', ''COMPLETED'']"

text \<open>The checks of the event's constructor.\<close>

definition check_progress_event :: "progress_event \<Rightarrow> progress_event result" where
  "check_progress_event e =
     bindE (value_check (length (ev_operation_id e) \<le> 64)) (\<lambda>_.
     bindE (validated_code (ev_operation_id e)) (\<lambda>_.
     bindE (validated_code (ev_phase e)) (\<lambda>_.
     bindE (validated_code (ev_code e)) (\<lambda>_.
     bindE (value_check (ev_phase e \<in> set PROGRESS_PHASE_CODES)) (\<lambda>_.
     bindE (value_check (ev_code e \<in> set PROGRESS_EVENT_CODES)) (\<lambda>_.
     bindE (value_check (0 \<le> ev_completed e)) (\<lambda>_.
     bindE (case ev_total e of None \<Rightarrow> Inr () | Some n \<Rightarrow> bindE (value_check (0 \<le> n)) (\<lambda>_. value_check (\<not> n < ev_completed e))) (\<lambda>_.
     bindE (case ev_table e of None \<Rightarrow> Inr None | Some t \<Rightarrow> bindE (public_relative_path t) (\<lambda>u. Inr (Some u))) (\<lambda>table.
       Inr (e\<lparr>ev_table := table\<rparr>))))))))))"

section \<open>The controller\<close>

record controller =
  pc_operation_id :: "string option"
  pc_totals :: "string \<rightharpoonup> int option"
  pc_counts :: "string \<rightharpoonup> int"
  pc_polls :: nat
  pc_events :: "progress_event list"

text \<open>\<open>pc_polls\<close> and \<open>pc_events\<close> count the calls of the callbacks; they are not fields of the class.\<close>

record callbacks =
  cb_cancel :: "cancel_tape option"
  cb_progress :: "(nat \<Rightarrow> bool) option"
  cb_next_id :: string

type_synonym 'a ctl = "controller \<Rightarrow> 'a result \<times> controller"

definition returnS :: "'a \<Rightarrow> 's \<Rightarrow> 'a result \<times> 's" where "returnS x s = (Inr x, s)"

definition liftS :: "'a result \<Rightarrow> 's \<Rightarrow> 'a result \<times> 's" where "liftS r s = (r, s)"

definition bounded_operation_id_valid :: "string \<Rightarrow> bool" where
  "bounded_operation_id_valid v \<longleftrightarrow>
     list_ex (\<lambda>prefix. take (length prefix) v = prefix \<and> length (drop (length prefix) v) = 32
       \<and> list_all (\<lambda>c. c \<in> set ''0123456789abcdef'') (drop (length prefix) v)) [''op-'', ''vop-'']"

definition new_controller :: "string option \<Rightarrow> controller result" where
  "new_controller operation_id =
     bindE (value_check (\<forall>i\<in>set_option operation_id. bounded_operation_id_valid i)) (\<lambda>_.
       Inr \<lparr>pc_operation_id = operation_id, pc_totals = Map.empty, pc_counts = Map.empty, pc_polls = 0, pc_events = []\<rparr>)"

text \<open>The lazily generated id of the invocation.\<close>

definition operation_id :: "callbacks \<Rightarrow> string ctl" where
  "operation_id cb s =
     (case pc_operation_id s of
        Some i \<Rightarrow> (Inr i, s)
      | None \<Rightarrow> (Inr (cb_next_id cb), s\<lparr>pc_operation_id := Some (cb_next_id cb)\<rparr>))"

definition check_cancel :: "callbacks \<Rightarrow> unit ctl" where
  "check_cancel cb s =
     (case cb_cancel cb of
        None \<Rightarrow> (Inr (), s)
      | Some ct \<Rightarrow>
          (let s' = s\<lparr>pc_polls := Suc (pc_polls s)\<rparr>
           in if ct (pc_polls s) = Continue then (Inr (), s')
              else bindS (operation_id cb) (\<lambda>_. liftS (cancel_result (ct (pc_polls s)))) s'))"

definition emit :: "callbacks \<Rightarrow> string \<Rightarrow> string \<Rightarrow> int \<Rightarrow> int option \<Rightarrow> string option \<Rightarrow> unit ctl" where
  "emit cb code phase completed units table =
     (case cb_progress cb of
        None \<Rightarrow> returnS ()
      | Some accepts \<Rightarrow>
          bindS (operation_id cb) (\<lambda>i.
          bindS (liftS (check_progress_event \<lparr>ev_operation_id = i, ev_phase = phase, ev_code = code,
                   ev_completed = completed, ev_total = units, ev_table = table\<rparr>)) (\<lambda>event s.
            (if accepts (length (pc_events s)) then Inr () else Inl (CallbackError PROGRESS_CALLBACK_FAILED ''PROGRESS_CALLBACK''),
             s\<lparr>pc_events := pc_events s @ [event]\<rparr>))))"

definition start_phase :: "callbacks \<Rightarrow> string \<Rightarrow> int option \<Rightarrow> unit ctl" where
  "start_phase cb phase units =
     bindS (check_cancel cb) (\<lambda>_ s.
       emit cb ''STARTED'' phase 0 units None
         (s\<lparr>pc_totals := (pc_totals s)(phase \<mapsto> units), pc_counts := (pc_counts s)(phase \<mapsto> 0)\<rparr>))"

definition bump :: "callbacks \<Rightarrow> string \<Rightarrow> string option \<Rightarrow> unit ctl" where
  "bump cb phase table s =
     (let n = (case pc_counts s phase of None \<Rightarrow> 0 | Some k \<Rightarrow> k) + 1
      in emit cb ''PROGRESS'' phase n (case pc_totals s phase of None \<Rightarrow> None | Some t \<Rightarrow> t) table
           (s\<lparr>pc_counts := (pc_counts s)(phase \<mapsto> n)\<rparr>))"

definition progress :: "callbacks \<Rightarrow> string \<Rightarrow> int \<Rightarrow> int option \<Rightarrow> string option \<Rightarrow> unit ctl" where
  "progress cb phase completed units table = emit cb ''PROGRESS'' phase completed units table"

definition complete :: "callbacks \<Rightarrow> int \<Rightarrow> bool \<Rightarrow> unit ctl" where
  "complete cb completed check_cancel_first =
     bindS (if check_cancel_first then check_cancel cb else returnS ()) (\<lambda>_.
       emit cb ''COMPLETED'' ''OPERATION'' completed (Some completed) None)"

section \<open>Operations whose result does not depend on the callbacks\<close>

text \<open>The state change of a stretch in which every poll was answered with no and every callback returned.\<close>

definition granted :: "callbacks \<Rightarrow> controller \<Rightarrow> controller \<Rightarrow> bool" where
  "granted cb s s' \<longleftrightarrow> pc_polls s \<le> pc_polls s' \<and> length (pc_events s) \<le> length (pc_events s')
     \<and> (\<forall>ct k. cb_cancel cb = Some ct \<longrightarrow> pc_polls s \<le> k \<longrightarrow> k < pc_polls s' \<longrightarrow> ct k = Continue)
     \<and> (\<forall>f k. cb_progress cb = Some f \<longrightarrow> length (pc_events s) \<le> k \<longrightarrow> k < length (pc_events s') \<longrightarrow> f k)"

lemma granted_refl [simp]: "granted cb s s"
  by (simp add: granted_def)

lemma granted_trans: "granted cb s t \<Longrightarrow> granted cb t u \<Longrightarrow> granted cb s u"
proof -
  assume a: "granted cb s t" "granted cb t u"
  have "ct k = Continue" if "cb_cancel cb = Some ct" "pc_polls s \<le> k" "k < pc_polls u" for ct k
    using a that by (cases "k < pc_polls t") (auto simp: granted_def)
  moreover have "f k" if "cb_progress cb = Some f" "length (pc_events s) \<le> k" "k < length (pc_events u)" for f k
    using a that by (cases "k < length (pc_events t)") (auto simp: granted_def)
  ultimately show ?thesis using a by (auto simp: granted_def)
qed

definition silent :: callbacks where
  "silent = \<lparr>cb_cancel = None, cb_progress = None, cb_next_id = []\<rparr>"

text \<open>The outcomes the preflight acts upon: a value, or an \<open>OSError\<close> of an inspection.\<close>

definition ordinary :: "'a result \<Rightarrow> bool" where
  "ordinary r \<longleftrightarrow> (case r of Inr x \<Rightarrow> True | Inl e \<Rightarrow> e = OSError)"

definition transparent :: "(callbacks \<Rightarrow> 'a ctl) \<Rightarrow> bool" where
  "transparent m \<longleftrightarrow> (\<forall>cb s r s' t. m cb s = (r, s') \<longrightarrow> ordinary r \<longrightarrow> granted cb s s' \<and> fst (m silent t) = r)"

named_theorems transparency

lemma transparentI:
  assumes "\<And>cb s r s' t. m cb s = (r, s') \<Longrightarrow> ordinary r \<Longrightarrow> granted cb s s' \<and> fst (m silent t) = r"
  shows "transparent m"
  using assms by (auto simp: transparent_def)

lemma transparentD:
  assumes "transparent m" and "m cb s = (r, s')" and "ordinary r"
  shows "granted cb s s'" and "fst (m silent t) = r"
  using assms by (auto simp: transparent_def)

lemma transparent_lift [transparency]: "transparent (\<lambda>cb. liftS r)" "transparent (\<lambda>cb. returnS x)"
  by (auto simp: transparent_def liftS_def returnS_def)

lemma transparent_bind [transparency]:
  assumes "transparent m" and "\<And>x. transparent (\<lambda>cb. f cb x)"
  shows "transparent (\<lambda>cb. bindS (m cb) (f cb))"
proof (rule transparentI)
  fix cb s r s' t
  assume run: "bindS (m cb) (f cb) s = (r, s')" and ord: "ordinary r"
  obtain r1 s1 where m: "m cb s = (r1, s1)" by (cases "m cb s")
  obtain u1 t1 where t: "m silent t = (u1, t1)" by (cases "m silent t")
  show "granted cb s s' \<and> fst (bindS (m silent) (f silent) t) = r"
  proof (cases r1)
    case (Inl e)
    then have "r = Inl e" "s' = s1" using run m by (auto simp: bindS_def)
    then show ?thesis using transparentD(1) [OF assms(1) m] transparentD(2) [OF assms(1) m, of t] ord t Inl by (auto simp: ordinary_def bindS_def)
  next
    case (Inr x)
    then have "f cb x s1 = (r, s')" using run m by (simp add: bindS_def)
    note f = transparentD [OF assms(2) this ord]
    have "u1 = Inr x" "granted cb s s1" using transparentD(1) [OF assms(1) m] transparentD(2) [OF assms(1) m, of t] t Inr by (auto simp: ordinary_def)
    then show ?thesis using f(1) f(2) [of t1] t granted_trans by (auto simp: bindS_def)
  qed
qed

lemma operation_id_same:
  "operation_id cb s = (r, s') \<Longrightarrow> (\<exists>i. r = Inr i) \<and> pc_polls s' = pc_polls s \<and> pc_events s' = pc_events s"
  by (auto simp: operation_id_def split: option.splits)

lemma cancel_result_ordinary: "ordinary (cancel_result c) \<longleftrightarrow> c = Continue"
  by (cases c) (simp_all add: ordinary_def)

lemma transparent_check [transparency]: "transparent check_cancel"
proof (rule transparentI)
  fix cb s r s' t
  assume run: "check_cancel cb s = (r, s')" and ord: "ordinary (r :: unit result)"
  have quiet: "fst (check_cancel silent t) = Inr ()" by (simp add: check_cancel_def silent_def)
  show "granted cb s s' \<and> fst (check_cancel silent t) = r"
  proof (cases "cb_cancel cb")
    case None
    then show ?thesis using run quiet by (simp add: check_cancel_def)
  next
    case (Some ct)
    obtain q s1 where q: "operation_id cb (s\<lparr>pc_polls := Suc (pc_polls s)\<rparr>) = (q, s1)"
      by (cases "operation_id cb (s\<lparr>pc_polls := Suc (pc_polls s)\<rparr>)")
    have "ct (pc_polls s) = Continue"
      using run ord Some operation_id_same [OF q] q cancel_result_ordinary [of "ct (pc_polls s)"]
      by (auto simp: check_cancel_def Let_def bindS_def liftS_def split: if_splits)
    then show ?thesis using run Some quiet by (auto simp: check_cancel_def Let_def granted_def le_less_Suc_eq)
  qed
qed

lemma not_os_bind: "m \<noteq> Inl OSError \<Longrightarrow> (\<And>x. f x \<noteq> Inl OSError) \<Longrightarrow> bindE m f \<noteq> Inl OSError"
  by (cases m) auto

lemma not_os_check: "value_check b \<noteq> Inl OSError" "validated_code v \<noteq> Inl OSError"
  by (auto simp: value_check_def validated_code_def guardE_def)

lemma not_os_path: "public_relative_path v \<noteq> Inl OSError"
  unfolding public_relative_path_def Let_def by (intro not_os_bind not_os_check) simp

lemma not_os_option: "(case x of None \<Rightarrow> Inr a | Some t \<Rightarrow> f t) \<noteq> Inl OSError" if "\<And>t. f t \<noteq> Inl OSError"
  using that by (cases x) auto

lemma check_progress_event_not_os: "check_progress_event e \<noteq> Inl OSError"
  unfolding check_progress_event_def by (intro not_os_bind not_os_check not_os_option not_os_path) simp_all

lemma emit_state: "emit silent code phase n units table t = (Inr (), t)"
  by (simp add: emit_def silent_def returnS_def)

lemma emit_granted:
  assumes "emit cb code phase n units table s = (r, s')" and "ordinary r"
  shows "granted cb s s' \<and> r = Inr ()"
proof (cases "cb_progress cb")
  case None
  then show ?thesis using assms by (simp add: emit_def returnS_def)
next
  case (Some accepts)
  obtain q s1 where q: "operation_id cb s = (q, s1)" by (cases "operation_id cb s")
  then obtain i where i: "q = Inr i" and s1: "pc_polls s1 = pc_polls s" "pc_events s1 = pc_events s"
    using operation_id_same by blast
  let ?c = "check_progress_event \<lparr>ev_operation_id = i, ev_phase = phase, ev_code = code, ev_completed = n, ev_total = units, ev_table = table\<rparr>"
  have "?c \<noteq> Inl OSError" by (rule check_progress_event_not_os)
  then obtain event where "?c = Inr event"
    using assms q i Some by (cases ?c) (auto simp: emit_def bindS_def liftS_def ordinary_def)
  then show ?thesis using assms q i s1 Some
    by (auto simp: emit_def bindS_def liftS_def ordinary_def granted_def nth_append le_less_Suc_eq split: if_splits)
qed

lemma transparent_emit [transparency]: "transparent (\<lambda>cb. emit cb code phase n units table)"
  using emit_granted by (fastforce intro: transparentI simp: emit_state)

lemma granted_fields:
  "granted cb (s\<lparr>pc_totals := a, pc_counts := b\<rparr>) s' \<longleftrightarrow> granted cb s s'" "granted cb (s\<lparr>pc_counts := b\<rparr>) s' \<longleftrightarrow> granted cb s s'"
  "granted cb (s\<lparr>pc_totals := a\<rparr>) s' \<longleftrightarrow> granted cb s s'"
  by (simp_all add: granted_def)

lemma transparent_start [transparency]: "transparent (\<lambda>cb. start_phase cb phase units)"
  unfolding start_phase_def
  by (intro transparent_bind transparent_check transparentI) (auto simp: emit_state granted_fields dest!: emit_granted)

lemma transparent_bump [transparency]: "transparent (\<lambda>cb. bump cb phase table)"
  unfolding bump_def Let_def by (intro transparentI) (auto simp: emit_state granted_fields dest!: emit_granted)

lemma transparent_progress [transparency]: "transparent (\<lambda>cb. progress cb phase n units table)"
  unfolding progress_def by (rule transparent_emit)

lemma transparent_complete [transparency]: "transparent (\<lambda>cb. complete cb n b)"
  unfolding complete_def by (cases b) (simp_all, (intro transparent_bind transparent_emit transparent_check transparent_lift)+)

lemma transparent_each [transparency]:
  assumes "\<And>x. transparent (\<lambda>cb. f cb x)"
  shows "transparent (\<lambda>cb. eachS (f cb) xs)"
proof (induction xs)
  case Nil
  then show ?case by (auto simp: transparent_def)
next
  case (Cons x xs)
  have "eachS (f cb) (x # xs) = bindS (f cb x) (\<lambda>_. eachS (f cb) xs)" for cb by (simp add: fun_eq_iff)
  then show ?case by (simp only:) (intro transparent_bind assms Cons)
qed

end
