(* ===== verification/Preflight_Capacity.thy ===== *)
theory Preflight_Capacity
  imports Progress_Control
begin

text \<open>
  The pseudonym capacity proof of the preflight for text fields (\<open>_capacity_sufficient\<close> of
  \<^verbatim>\<open>src/src/dbf_anonymizer/preflight.py\<close>), and what its answer says about the tokens of the alphabet.
  The Direct Read boundary is an argument: the schema of a table, and the items its record iterator
  yields for the projected fields, a record or the error it raises. The instrumentation counters of
  the last scan are not kept.
\<close>

section \<open>Outcomes and the reader\<close>

datatype capacity = CAPACITY_OK | CAPACITY_INSUFFICIENT | CAPACITY_UNPROVEN

definition MAX_EXACT_VALUES :: nat where "MAX_EXACT_VALUES = 65536"

definition CAPACITY_PROGRESS_RECORD_QUANTUM :: nat where "CAPACITY_PROGRESS_RECORD_QUANTUM = 4096"

record capacity_reader =
  cr_schema :: "string \<Rightarrow> source_schema result"
  cr_records :: "string \<Rightarrow> string list \<Rightarrow> direct_record result list"

fun is_boundary_error :: "error \<Rightarrow> bool" where
  "is_boundary_error (CancellationError c d) = True"
| "is_boundary_error (CallbackError c d) = True"
| "is_boundary_error e = False"

text \<open>Control errors pass; every other exception becomes a dependency failure.\<close>

definition wrap_dependency :: "string \<Rightarrow> 'a ctl \<Rightarrow> 'a ctl" where
  "wrap_dependency detail m s =
     (case m s of
        (Inl e, s') \<Rightarrow> (Inl (if is_boundary_error e then e else DBFBridgeError DBFBRIDGE_FAILURE detail), s')
      | (Inr x, s') \<Rightarrow> (Inr x, s'))"

section \<open>The participating fields\<close>

text \<open>A table with its record count and the names and lengths of its participating fields.\<close>

type_synonym sensitive_table = "string \<times> int \<times> (string \<times> int) list"

definition dbf_files :: "string list \<Rightarrow> string list" where
  "dbf_files files = sort (filter (\<lambda>rel. ends_with (map lower_char rel) ''.dbf'') files)"

definition sensitive_field :: "(json \<Rightarrow> string) \<Rightarrow> dict \<Rightarrow> field_info \<Rightarrow> (string \<times> int) option result" where
  "sensitive_field other merged f =
     bindE (classify_field_capability other (sf_type f) (sf_name f) (si_supported f) (si_binary f) (si_system f) (si_nocptrans f) merged)
       (\<lambda>(action, unsafe, system). Inr (if action = Some ACTION_TEXT then Some (sf_name f, sf_length f) else None))"

fun collect_sensitive ::
    "callbacks \<Rightarrow> (json \<Rightarrow> string) \<Rightarrow> dict \<Rightarrow> capacity_reader \<Rightarrow> string list \<Rightarrow> (sensitive_table list \<times> string list) ctl" where
  "collect_sensitive cb other merged src [] = returnS ([], [])"
| "collect_sensitive cb other merged src (rel # rels) =
     bindS (check_cancel cb) (\<lambda>_.
     bindS (wrap_dependency ''capacity_read_schema_failed'' (liftS (cr_schema src rel))) (\<lambda>schema.
     bindS (liftS (mapE (sensitive_field other merged) (ss_fields schema))) (\<lambda>fields.
     bindS (collect_sensitive cb other merged src rels) (\<lambda>(sensitive, participating).
       returnS (if List.map_filter id fields = [] then (sensitive, participating)
                else ((rel, int (ss_record_count schema), List.map_filter id fields) # sensitive,
                      (if ss_encoding schema = [] then participating else ss_encoding schema # participating)))))))"

section \<open>Phase A\<close>

definition scan_widths :: "sensitive_table list \<Rightarrow> int list" where
  "scan_widths sensitive = sort (remdups (concat (map (\<lambda>(rel, n, fields). map snd fields) sensitive)))"

definition occurrence_upper_bound :: "int \<Rightarrow> sensitive_table list \<Rightarrow> int" where
  "occurrence_upper_bound width sensitive =
     sum_list (map (\<lambda>(rel, n, fields). n * int (length (filter (\<lambda>(name, len). len \<le> width) fields))) sensitive)"

definition tight_widths :: "int \<Rightarrow> sensitive_table list \<Rightarrow> int list" where
  "tight_widths base sensitive =
     (let widths = scan_widths sensitive;
          tight = filter (\<lambda>w. \<not> token_space_at_least w base (occurrence_upper_bound w sensitive)) widths
      in if base = 1 \<and> widths \<noteq> [] \<and> 1 \<notin> set tight then 1 # tight else tight)"

section \<open>Phase B\<close>

text \<open>The tracker and the counters are dicts: entries in insertion order.\<close>

record capacity_state =
  ck_tracker :: "(pystr \<times> int) list"
  ck_counts :: "(int \<times> int) list"
  ck_streamed :: nat

fun note_strictest :: "int \<Rightarrow> int option \<Rightarrow> int \<Rightarrow> (int \<times> int) list \<Rightarrow> bool \<times> (int \<times> int) list" where
  "note_strictest base previous strictest [] = (False, [])"
| "note_strictest base previous strictest ((width, n) # counts) =
     (if strictest \<le> width \<and> (case previous of None \<Rightarrow> True | Some p \<Rightarrow> width < p) then
        if \<not> token_space_at_least width base (n + 1) then (True, (width, n + 1) # counts)
        else (case note_strictest base previous strictest counts of (violated, rest) \<Rightarrow> (violated, (width, n + 1) # rest))
      else (case note_strictest base previous strictest counts of (violated, rest) \<Rightarrow> (violated, (width, n) # rest)))"

definition note_outcome :: "int \<Rightarrow> int option \<Rightarrow> int \<Rightarrow> (pystr \<times> int) list \<Rightarrow> capacity_state \<Rightarrow> capacity \<times> capacity_state" where
  "note_outcome base previous len tracker st =
     (case note_strictest base previous len (ck_counts st) of (violated, counts) \<Rightarrow>
        (if violated then CAPACITY_INSUFFICIENT else CAPACITY_OK, st\<lparr>ck_tracker := tracker, ck_counts := counts\<rparr>))"

definition track_value :: "int \<Rightarrow> int \<Rightarrow> pystr \<Rightarrow> capacity_state \<Rightarrow> (capacity \<times> capacity_state) result" where
  "track_value base len v st =
     (case map_of (ck_tracker st) v of
        None \<Rightarrow>
          if MAX_EXACT_VALUES \<le> length (ck_tracker st) then Inr (CAPACITY_UNPROVEN, st)
          else bindE (reduced_strictest None len) (\<lambda>w. Inr (note_outcome base None len (ck_tracker st @ [(v, w)]) st))
      | Some strictest \<Rightarrow>
          if len < strictest then
            bindE (reduced_strictest (Some strictest) len) (\<lambda>w.
              Inr (note_outcome base (Some strictest) len (AList.update v w (ck_tracker st)) st))
          else Inr (CAPACITY_OK, st))"

text \<open>\<open>None\<close>, empty and non-text values are passed over.\<close>

fun track_fields :: "int \<Rightarrow> field_values \<Rightarrow> (string \<times> int) list \<Rightarrow> capacity_state \<Rightarrow> (capacity \<times> capacity_state) result" where
  "track_fields base vals [] st = Inr (CAPACITY_OK, st)"
| "track_fields base vals ((name, len) # selected) st =
     (case field_value vals name of
        VStr v \<Rightarrow>
          if v = [] then track_fields base vals selected st
          else bindE (track_value base len v st) (\<lambda>(outcome, st').
                 if outcome = CAPACITY_OK then track_fields base vals selected st' else Inr (outcome, st'))
      | _ \<Rightarrow> track_fields base vals selected st)"

fun scan_stream ::
    "callbacks \<Rightarrow> int \<Rightarrow> int \<Rightarrow> string \<Rightarrow> (string \<times> int) list \<Rightarrow> direct_record result list \<Rightarrow> capacity_state \<Rightarrow> (capacity \<times> capacity_state) ctl" where
  "scan_stream cb base units rel selected [] st = returnS (CAPACITY_OK, st)"
| "scan_stream cb base units rel selected (Inl e # items) st = liftS (Inl e)"
| "scan_stream cb base units rel selected (Inr r # items) st =
     (let n = Suc (ck_streamed st)
      in bindS (check_cancel cb) (\<lambda>_.
         bindS (if cb_progress cb \<noteq> None \<and> n mod CAPACITY_PROGRESS_RECORD_QUANTUM = 0
                then progress cb ''CAPACITY_SCAN'' (int n) (Some units) (Some rel) else returnS ()) (\<lambda>_.
         bindS (liftS (track_fields base (rec_values r) selected (st\<lparr>ck_streamed := n\<rparr>))) (\<lambda>(outcome, st').
           if outcome = CAPACITY_OK then scan_stream cb base units rel selected items st' else returnS (outcome, st')))))"

fun scan_tables ::
    "callbacks \<Rightarrow> capacity_reader \<Rightarrow> int \<Rightarrow> int \<Rightarrow> (string \<times> (string \<times> int) list) list \<Rightarrow> capacity_state \<Rightarrow> (capacity \<times> capacity_state) ctl" where
  "scan_tables cb src base units [] st = returnS (CAPACITY_OK, st)"
| "scan_tables cb src base units ((rel, selected) # tables) st =
     bindS (wrap_dependency ''capacity_iter_records_failed''
              (scan_stream cb base units rel selected (cr_records src rel (map fst selected)) st)) (\<lambda>(outcome, st').
       if outcome = CAPACITY_OK then scan_tables cb src base units tables st' else returnS (outcome, st'))"

definition streaming_tables :: "int \<Rightarrow> sensitive_table list \<Rightarrow> (string \<times> int \<times> (string \<times> int) list) list" where
  "streaming_tables max_tight sensitive =
     filter (\<lambda>(rel, n, selected). selected \<noteq> []) (map (\<lambda>(rel, n, fields). (rel, n, filter (\<lambda>(name, len). len \<le> max_tight) fields)) sensitive)"

text \<open>The one-letter alphabet: its only token of length one cannot replace itself.\<close>

definition single_token_check :: "int \<Rightarrow> pystr \<Rightarrow> capacity_state \<Rightarrow> capacity result" where
  "single_token_check base alphabet st =
     (if base = 1 \<and> map_of (ck_counts st) 1 = Some 1 then
        (case find (\<lambda>(v, strictest). strictest = 1) (ck_tracker st) of
           None \<Rightarrow> Inl StopIteration
         | Some (v, _) \<Rightarrow> Inr (if v = alphabet then CAPACITY_INSUFFICIENT else CAPACITY_OK))
      else Inr CAPACITY_OK)"

definition exact_scan :: "callbacks \<Rightarrow> capacity_reader \<Rightarrow> pystr \<Rightarrow> sensitive_table list \<Rightarrow> int list \<Rightarrow> capacity ctl" where
  "exact_scan cb src alphabet sensitive tight =
     (let base = int (length alphabet);
          streaming = streaming_tables (last tight) sensitive;
          units = sum_list (map (\<lambda>(rel, n, selected). n) streaming)
      in bindS (start_phase cb ''CAPACITY_SCAN'' (Some units)) (\<lambda>_.
         bindS (scan_tables cb src base units (map (\<lambda>(rel, n, selected). (rel, selected)) streaming)
                  \<lparr>ck_tracker = [], ck_counts = map (\<lambda>w. (w, 0)) tight, ck_streamed = 0\<rparr>) (\<lambda>(outcome, st).
           if outcome \<noteq> CAPACITY_OK then returnS outcome else liftS (single_token_check base alphabet st))))"

definition capacity_sufficient ::
    "callbacks \<Rightarrow> codec \<Rightarrow> (json \<Rightarrow> string) \<Rightarrow> string list \<Rightarrow> dict option \<Rightarrow> capacity_reader \<Rightarrow> string list \<Rightarrow> capacity ctl" where
  "capacity_sufficient cb codec other classes resolved_policy src files =
     (if ACTION_TEXT \<notin> set classes then returnS CAPACITY_OK
      else if dbf_files files = [] then returnS CAPACITY_OK
      else case resolved_policy of
             None \<Rightarrow> returnS CAPACITY_UNPROVEN
           | Some merged \<Rightarrow>
               bindS (collect_sensitive cb other merged src (dbf_files files)) (\<lambda>(sensitive, participating).
                 if sensitive = [] then returnS CAPACITY_OK
                 else let alphabet = candidate_alphabet codec (sort (remdups participating));
                          tight = tight_widths (int (length alphabet)) sensitive
                      in if alphabet = [] then returnS CAPACITY_INSUFFICIENT
                         else if tight = [] then returnS CAPACITY_OK
                         else exact_scan cb src alphabet sensitive tight))"

section \<open>The callbacks do not matter\<close>

lemma transparent_wrap [transparency]: "transparent m \<Longrightarrow> transparent (\<lambda>cb. wrap_dependency d (m cb))"
proof (rule transparentI)
  fix cb s r s' t
  assume m: "transparent m" and run: "wrap_dependency d (m cb) s = (r, s')" and ord: "ordinary (r :: 'a result)"
  obtain r1 s1 where r1: "m cb s = (r1, s1)" by (cases "m cb s")
  have e: "(if is_boundary_error e then e else DBFBridgeError DBFBRIDGE_FAILURE d) \<noteq> OSError" for e by (cases e) simp_all
  show "granted cb s s' \<and> fst (wrap_dependency d (m silent) t) = r"
  proof (cases r1)
    case (Inl e1)
    then show ?thesis using run r1 ord e [of e1] by (auto simp: wrap_dependency_def ordinary_def split: if_splits)
  next
    case (Inr x)
    obtain r2 s2 where r2: "m silent t = (r2, s2)" by (cases "m silent t")
    have "ordinary r1" using Inr by (simp add: ordinary_def)
    then show ?thesis using transparentD(1) [OF m r1] transparentD(2) [OF m r1, of t] run r1 r2 Inr by (auto simp: wrap_dependency_def)
  qed
qed

lemma transparent_if [transparency]: "transparent f \<Longrightarrow> transparent g \<Longrightarrow> transparent (\<lambda>cb. if b then f cb else g cb)"
  by (cases b) simp_all

lemma transparent_collect [transparency]: "transparent (\<lambda>cb. collect_sensitive cb other merged src rels)"
proof (induction rels)
  case (Cons rel rels)
  show ?case unfolding collect_sensitive.simps case_prod_unfold by (intro transparency Cons)
qed (simp add: transparency)

lemma transparent_tick: "transparent (\<lambda>cb. if cb_progress cb \<noteq> None \<and> b then progress cb p n t rel else returnS ())"
  by (rule transparentI)
    (auto simp: silent_def returnS_def progress_def split: if_splits dest!: emit_granted)

lemma transparent_scan_stream [transparency]: "transparent (\<lambda>cb. scan_stream cb base units rel selected items st)"
proof (induction items arbitrary: st)
  case (Cons x items)
  show ?case
  proof (cases x)
    case (Inr r)
    show ?thesis unfolding Inr scan_stream.simps Let_def case_prod_unfold by (intro transparency transparent_tick Cons)
  qed (simp add: transparency)
qed (simp add: transparency)

lemma transparent_scan_tables [transparency]: "transparent (\<lambda>cb. scan_tables cb src base units tables st)"
proof (induction tables arbitrary: st)
  case (Cons x tables)
  obtain rel selected where x: "x = (rel, selected)" by (cases x)
  show ?case unfolding x scan_tables.simps case_prod_unfold by (intro transparency Cons)
qed (simp add: transparency)

lemma transparent_capacity [transparency]: "transparent (\<lambda>cb. capacity_sufficient cb codec other classes resolved src files)"
proof (cases resolved)
  case (Some merged)
  show ?thesis
    unfolding capacity_sufficient_def exact_scan_def Let_def case_prod_unfold Some option.case by (intro transparency)
qed (simp add: capacity_sufficient_def transparency)

end
