(* ===== verification/Capacity_Exactness.thy ===== *)
theory Capacity_Exactness
  imports Preflight_Capacity
begin

text \<open>
  What the text capacity proof of the preflight decides: an accepted dataset has, for an alphabet of
  at least two letters, an injective choice of tokens within the widths that moves every value, and a
  refused one has none. The first half is Hall's theorem for the nested pools of tokens, with the
  additional exclusion of every value from its own candidates.
\<close>

section \<open>Assignments\<close>

definition tokens_upto :: "pystr \<Rightarrow> int \<Rightarrow> pystr set" where
  "tokens_upto a w = {t. is_safe_token t a \<and> int (length t) \<le> w}"

text \<open>An assignment for occurrences, pairs of a value and the width of a field it occurs in.\<close>

definition text_assignment :: "pystr \<Rightarrow> (pystr \<times> int) set \<Rightarrow> (pystr \<Rightarrow> pystr) \<Rightarrow> bool" where
  "text_assignment a occ f \<longleftrightarrow> inj_on f (fst ` occ) \<and> (\<forall>(v, w)\<in>occ. f v \<in> tokens_upto a w \<and> f v \<noteq> v)"

definition narrow :: "(pystr \<times> int) set \<Rightarrow> int \<Rightarrow> pystr set" where
  "narrow occ w = {v. \<exists>l \<le> w. (v, l) \<in> occ}"

lemma card_tokens_upto:
  assumes "distinct a"
  shows "finite (tokens_upto a w)" and "int (card (tokens_upto a w)) = geometric (int (length a)) (nat w)"
proof -
  let ?C = "\<lambda>l. {t. is_safe_token t a \<and> length t = l}"
  have len: "int (length t) \<le> w \<longleftrightarrow> length t \<in> {1..nat w}" if "t \<noteq> []" for t :: pystr
    using that by (cases t) auto
  have eq: "tokens_upto a w = (\<Union>l\<in>{1..nat w}. ?C l)"
    using len by (auto simp: tokens_upto_def is_safe_token_def)
  have C: "finite (?C l)" "card (?C l) = length a ^ l" if "l \<in> {1..nat w}" for l
    using card_safe_tokens [OF assms, of l] that by auto
  show "finite (tokens_upto a w)" unfolding eq using C by blast
  have "card (\<Union>l\<in>{1..nat w}. ?C l) = (\<Sum>l\<in>{1..nat w}. card (?C l))"
    using C by (intro card_UN_disjoint) auto
  then show "int (card (tokens_upto a w)) = geometric (int (length a)) (nat w)"
    unfolding eq using C by (simp add: geometric_def)
qed

lemma token_space_at_least_iff:
  assumes "1 \<le> base"
  shows "token_space_at_least w base n \<longleftrightarrow> n \<le> geometric base (nat w)"
proof (cases "w < 1")
  case False
  then obtain k where k: "nat w = Suc k" by (cases "nat w") auto
  have pos: "base \<le> geometric base (nat w)"
    using geometric_mono [of base 1 "nat w"] assms k by simp
  show ?thesis
  proof (cases "0 < n")
    case True
    then show ?thesis using token_space_at_least_loop_iff [OF assms, of 1 0 n "nat w"] False assms by (simp add: token_space_at_least_def)
  next
    case n: False
    then show ?thesis using False assms k pos by (simp add: token_space_at_least_def)
  qed
qed (simp add: token_space_at_least_def)

lemma token_space_at_least_card:
  assumes "distinct a" and "a \<noteq> []"
  shows "token_space_at_least w (int (length a)) n \<longleftrightarrow> n \<le> int (card (tokens_upto a w))"
proof -
  have "1 \<le> int (length a)" using assms(2) by (cases a) auto
  then show ?thesis using card_tokens_upto(2) [OF assms(1)] token_space_at_least_iff by simp
qed

section \<open>Hall's condition is enough\<close>

lemma tokens_upto_mono: "v \<le> w \<Longrightarrow> tokens_upto a v \<subseteq> tokens_upto a w"
  by (auto simp: tokens_upto_def)

text \<open>The tokens of one more letter leave more than one free token.\<close>

lemma wider_tokens:
  assumes "distinct a" and "2 \<le> length a" and "v \<in> tokens_upto a w"
  shows "card (tokens_upto a (int (length v) - 1)) + 2 \<le> card (tokens_upto a w)"
proof -
  let ?C = "{t. is_safe_token t a \<and> length t = length v}"
  have v: "1 \<le> length v" "int (length v) \<le> w" using assms(3) by (auto simp: tokens_upto_def is_safe_token_def Suc_le_eq)
  have C: "card ?C = length a ^ length v" "finite ?C" using card_safe_tokens [OF assms(1) v(1)] by auto
  have "length a ^ 1 \<le> length a ^ length v" using v(1) assms(2) by (intro power_increasing) auto
  then have two: "2 \<le> card ?C" using C(1) assms(2) by simp
  have "tokens_upto a (int (length v) - 1) \<inter> ?C = {}" by (auto simp: tokens_upto_def)
  then have "card (tokens_upto a (int (length v) - 1) \<union> ?C) = card (tokens_upto a (int (length v) - 1)) + card ?C"
    using card_tokens_upto(1) [OF assms(1)] C(2) by (intro card_Un_disjoint) auto
  moreover have "tokens_upto a (int (length v) - 1) \<union> ?C \<subseteq> tokens_upto a w" using v by (auto simp: tokens_upto_def)
  then have "card (tokens_upto a (int (length v) - 1) \<union> ?C) \<le> card (tokens_upto a w)"
    using card_tokens_upto(1) [OF assms(1)] by (intro card_mono) auto
  ultimately show ?thesis using two by linarith
qed

lemma hall_assignment:
  fixes s :: "pystr \<Rightarrow> int"
  assumes "distinct a" and "2 \<le> length a" and "finite V"
    and "\<forall>w\<in>s ` V. card {v \<in> V. s v \<le> w} \<le> card (tokens_upto a w)"
  shows "\<exists>f. inj_on f V \<and> (\<forall>v\<in>V. f v \<in> tokens_upto a (s v) \<and> f v \<noteq> v)"
  using assms(3,4)
proof (induction "card V" arbitrary: V)
  case 0
  then show ?case by simp
next
  case (Suc n)
  let ?T = "\<lambda>w. tokens_upto a w"
  have ne: "V \<noteq> {}" using Suc.hyps(2) by auto
  have "Max (s ` V) \<in> s ` V" using Suc.prems(1) ne by simp
  then obtain m where "m \<in> V" "s m = Max (s ` V)" by auto
  then have m: "m \<in> V" "\<forall>v\<in>V. s v \<le> s m" using Suc.prems(1) by simp_all
  let ?V = "V - {m}"
  have fin: "finite ?V" "n = card ?V" using Suc.prems(1) Suc.hyps(2) m(1) by auto
  have sub: "card {v \<in> ?V. s v \<le> w} \<le> card (?T w)" if "w \<in> s ` ?V" for w
  proof -
    have "card {v \<in> ?V. s v \<le> w} \<le> card {v \<in> V. s v \<le> w}" using Suc.prems(1) by (intro card_mono) auto
    also have "\<dots> \<le> card (?T w)" using Suc.prems(2) that by auto
    finally show ?thesis .
  qed
  then obtain f where f: "inj_on f ?V" "\<forall>v\<in>?V. f v \<in> ?T (s v) \<and> f v \<noteq> v"
    using Suc.hyps(1) [OF fin(2,1)] by blast
  have T: "finite (?T w)" for w by (rule card_tokens_upto(1) [OF assms(1)])
  have all: "{v \<in> V. s v \<le> s m} = V" using m(2) by auto
  have room: "card V \<le> card (?T (s m))" using bspec [OF Suc.prems(2), of "s m"] m(1) all by simp
  have used: "f ` ?V \<subseteq> ?T (s m)" "card (f ` ?V) = n"
    using f m(2) tokens_upto_mono fin(2) by (fastforce, simp add: card_image)
  show ?case
  proof (cases "\<exists>t \<in> ?T (s m) - f ` ?V. t \<noteq> m")
    case True
    then obtain t where t: "t \<in> ?T (s m)" "t \<notin> f ` ?V" "t \<noteq> m" by blast
    have "inj_on (f(m := t)) V \<and> (\<forall>v\<in>V. (f(m := t)) v \<in> ?T (s v) \<and> (f(m := t)) v \<noteq> v)"
      using f t by (auto simp: inj_on_def)
    then show ?thesis by blast
  next
    case False
    have "card (?T (s m) - f ` ?V) = card (?T (s m)) - n" using used T by (simp add: card_Diff_subset finite_subset)
    moreover have "?T (s m) - f ` ?V \<subseteq> {m}" using False by blast
    then have "card (?T (s m) - f ` ?V) \<le> 1" by (metis card_mono finite.emptyI finite.insertI is_singletonI is_singleton_altdef)
    ultimately have full: "card (?T (s m)) = Suc n" using room Suc.hyps(2) by linarith
    then have "?T (s m) - f ` ?V \<noteq> {}" using used card_mono [of "f ` ?V" "?T (s m)"] by (metis Diff_eq_empty_iff Suc_n_not_le_n fin(1) finite_imageI)
    then have mT: "m \<in> ?T (s m)" "m \<notin> f ` ?V" using False by auto
    note wide = wider_tokens [OF assms(1,2) mT(1)]
    obtain u where u: "u \<in> ?V" "int (length m) \<le> s u"
    proof (rule ccontr)
      assume "\<not> thesis"
      then have low: "\<forall>u\<in>?V. s u \<le> int (length m) - 1" using that by force
      have "f ` ?V \<subseteq> ?T (int (length m) - 1)" using f(2) low tokens_upto_mono by blast
      then have "card (f ` ?V) \<le> card (?T (int (length m) - 1))" using T by (rule card_mono [rotated])
      then show False using wide full used(2) by linarith
    qed
    let ?f = "f(u := m, m := f u)"
    have um: "u \<noteq> m" using u(1) by simp
    have "inj_on ?f V" using f(1) mT(2) u(1) um by (auto simp: inj_on_def)
    moreover have "?f v \<in> ?T (s v) \<and> ?f v \<noteq> v" if v: "v \<in> V" for v
    proof -
      have "m \<in> ?T (s u)" using mT(1) u(2) by (simp add: tokens_upto_def)
      moreover have "f u \<in> ?T (s m)" "f u \<noteq> m" using used(1) mT(2) u(1) by auto
      ultimately show ?thesis using f(2) u(1) um v by auto
    qed
    ultimately show ?thesis by blast
  qed
qed

lemma narrow_assignment:
  assumes "distinct a" and "2 \<le> length a" and "finite occ"
    and "\<forall>w\<in>snd ` occ. card (narrow occ w) \<le> card (tokens_upto a w)"
  shows "\<exists>f. text_assignment a occ f"
proof -
  define s where "s v = Min {l. (v, l) \<in> occ}" for v
  have fin: "finite {l. (v, l) \<in> occ}" for v
    using finite_subset [of "{l. (v, l) \<in> occ}" "snd ` occ"] assms(3) by force
  have least: "s v \<le> l" if "(v, l) \<in> occ" for v l unfolding s_def using fin that by simp
  have occurs: "(v, s v) \<in> occ" if "v \<in> fst ` occ" for v
  proof -
    have "{l. (v, l) \<in> occ} \<noteq> {}" using that by auto
    then show ?thesis unfolding s_def using Min_in [OF fin, of v] by simp
  qed
  have eq: "{v \<in> fst ` occ. s v \<le> w} = narrow occ w" for w
    unfolding narrow_def using occurs least by (auto intro: order_trans) force
  have "\<forall>w\<in>s ` fst ` occ. card {v \<in> fst ` occ. s v \<le> w} \<le> card (tokens_upto a w)"
  proof (rule ballI)
    fix w assume "w \<in> s ` fst ` occ"
    then obtain v where "v \<in> fst ` occ" "w = s v" by blast
    then have "w \<in> snd ` occ" using occurs by force
    then show "card {v \<in> fst ` occ. s v \<le> w} \<le> card (tokens_upto a w)" unfolding eq using assms(4) by blast
  qed
  then obtain f where f: "inj_on f (fst ` occ)" "\<forall>v\<in>fst ` occ. f v \<in> tokens_upto a (s v) \<and> f v \<noteq> v"
    using hall_assignment [OF assms(1,2), of "fst ` occ" s] assms(3) by auto
  have "f v \<in> tokens_upto a w \<and> f v \<noteq> v" if "(v, w) \<in> occ" for v w
    using f(2) least [OF that] tokens_upto_mono [of "s v" w a] that by force
  then show ?thesis using f(1) by (auto simp: text_assignment_def)
qed

text \<open>Conversely an assignment exists only if every pool is large enough.\<close>

lemma assignment_narrow:
  assumes "text_assignment a occ f" and "distinct a"
  shows "card (narrow occ w) \<le> card (tokens_upto a w)"
proof (rule card_inj_on_le)
  have "narrow occ w \<subseteq> fst ` occ" by (force simp: narrow_def)
  then show "inj_on f (narrow occ w)" using assms(1) by (auto simp: text_assignment_def intro: inj_on_subset)
  show "f ` narrow occ w \<subseteq> tokens_upto a w"
    using assms(1) tokens_upto_mono [of _ w a] by (fastforce simp: narrow_def text_assignment_def)
qed (rule card_tokens_upto(1) [OF assms(2)])

section \<open>What the dataset contains\<close>

definition table_occurrences :: "(string \<Rightarrow> direct_record list) \<Rightarrow> string \<Rightarrow> (string \<times> int) list \<Rightarrow> (pystr \<times> int) set" where
  "table_occurrences rows rel fds =
     {(v, l). v \<noteq> [] \<and> (\<exists>name r. (name, l) \<in> set fds \<and> r \<in> set (rows rel) \<and> field_value (rec_values r) name = VStr v)}"

definition occurrences :: "(string \<Rightarrow> direct_record list) \<Rightarrow> sensitive_table list \<Rightarrow> (pystr \<times> int) set" where
  "occurrences rows sensitive = (\<Union>(rel, n, fds)\<in>set sensitive. table_occurrences rows rel fds)"

text \<open>The reader yields the rows of a table, with the values of the projected fields.\<close>

definition agrees :: "string list \<Rightarrow> direct_record \<Rightarrow> direct_record \<Rightarrow> bool" where
  "agrees names r q \<longleftrightarrow> (\<forall>n\<in>set names. field_value (rec_values r) n = field_value (rec_values q) n)"

definition delivers :: "capacity_reader \<Rightarrow> (string \<Rightarrow> direct_record list) \<Rightarrow> bool" where
  "delivers src rows \<longleftrightarrow> (\<forall>rel names. \<exists>rs. cr_records src rel names = map Inr rs
     \<and> list_all2 (agrees names) rs (rows rel))"

definition counted :: "(string \<Rightarrow> direct_record list) \<Rightarrow> sensitive_table list \<Rightarrow> bool" where
  "counted rows sensitive \<longleftrightarrow> (\<forall>(rel, n, fds)\<in>set sensitive. int (length (rows rel)) \<le> n)"

lemma narrow_Un: "narrow (A \<union> B) w = narrow A w \<union> narrow B w"
  by (auto simp: narrow_def)

definition text_of :: "pyval \<Rightarrow> pystr" where "text_of x = (case x of VStr v \<Rightarrow> v | _ \<Rightarrow> [])"

lemma finite_occurrences: "finite (table_occurrences rows rel fds)" "finite (occurrences rows sensitive)"
proof -
  show table: "finite (table_occurrences rows rel fds)" for rel fds
  proof (rule finite_subset)
    show "table_occurrences rows rel fds \<subseteq> (\<lambda>((name, l), r). (text_of (field_value (rec_values r) name), l)) ` (set fds \<times> set (rows rel))"
      by (force simp: table_occurrences_def text_of_def)
  qed simp
  then show "finite (occurrences rows sensitive)" by (auto simp: occurrences_def)
qed

lemma finite_narrow: "finite occ \<Longrightarrow> finite (narrow occ w)"
  by (rule finite_subset [of _ "fst ` occ"]) (force simp: narrow_def)+

lemma table_bound: "card (narrow (table_occurrences rows rel fds) w) \<le> length (rows rel) * length (filter (\<lambda>(name, len). len \<le> w) fds)"
proof -
  let ?N = "filter (\<lambda>(name, len). len \<le> w) fds"
  have "narrow (table_occurrences rows rel fds) w \<subseteq> (\<lambda>(r, name, l). text_of (field_value (rec_values r) name)) ` (set (rows rel) \<times> set ?N)"
    by (force simp: narrow_def table_occurrences_def text_of_def)
  then have "card (narrow (table_occurrences rows rel fds) w) \<le> card (set (rows rel) \<times> set ?N)"
    by (rule surj_card_le [rotated]) simp
  also have "\<dots> \<le> length (rows rel) * length ?N"
    unfolding card_cartesian_product by (intro mult_le_mono card_length)
  finally show ?thesis .
qed

lemma occurrence_bound:
  assumes "counted rows sensitive"
  shows "int (card (narrow (occurrences rows sensitive) w)) \<le> occurrence_upper_bound w sensitive"
  using assms
proof (induction sensitive)
  case Nil
  then show ?case by (simp add: occurrences_def narrow_def occurrence_upper_bound_def)
next
  case (Cons t sensitive)
  obtain rel n fds where t: "t = (rel, n, fds)" by (cases t)
  let ?k = "length (filter (\<lambda>(name, len). len \<le> w) fds)"
  have eq: "occurrences rows (t # sensitive) = table_occurrences rows rel fds \<union> occurrences rows sensitive"
    by (simp add: occurrences_def t)
  have "int (card (narrow (table_occurrences rows rel fds) w)) \<le> int (length (rows rel) * ?k)"
    using table_bound by (simp only: of_nat_le_iff)
  also have "\<dots> \<le> n * int ?k" using Cons.prems by (auto simp: counted_def t intro: mult_right_mono)
  finally have "int (card (narrow (table_occurrences rows rel fds) w)) \<le> n * int ?k" .
  moreover have "counted rows sensitive" using Cons.prems by (simp add: counted_def)
  moreover have "card (narrow (occurrences rows (t # sensitive)) w)
      \<le> card (narrow (table_occurrences rows rel fds) w) + card (narrow (occurrences rows sensitive) w)"
    unfolding eq narrow_Un by (rule card_Un_le)
  ultimately show ?case using Cons.IH by (simp add: occurrence_upper_bound_def t)
qed

section \<open>The tracker\<close>

definition tracking :: "int \<Rightarrow> (pystr \<times> int) set \<Rightarrow> capacity_state \<Rightarrow> bool" where
  "tracking base S st \<longleftrightarrow> finite S \<and> distinct (map fst (ck_tracker st))
     \<and> (\<forall>v m. map_of (ck_tracker st) v = Some m \<longrightarrow> (v, m) \<in> S \<and> (\<forall>l. (v, l) \<in> S \<longrightarrow> m \<le> l))
     \<and> (\<forall>v l. (v, l) \<in> S \<longrightarrow> map_of (ck_tracker st) v \<noteq> None)
     \<and> (\<forall>(w, n)\<in>set (ck_counts st). n = int (card (narrow S w)) \<and> token_space_at_least w base n)"

definition overfull :: "int \<Rightarrow> (pystr \<times> int) set \<Rightarrow> bool" where
  "overfull base S \<longleftrightarrow> (\<exists>w. \<not> token_space_at_least w base (int (card (narrow S w))))"

lemma overfull_mono:
  assumes "overfull base S" and "S \<subseteq> T" and "finite T" and "1 \<le> base"
  shows "overfull base T"
proof -
  obtain w where "\<not> token_space_at_least w base (int (card (narrow S w)))" using assms(1) by (auto simp: overfull_def)
  moreover have "card (narrow S w) \<le> card (narrow T w)"
    using assms(2) finite_narrow [OF assms(3)] by (intro card_mono) (auto simp: narrow_def)
  ultimately show ?thesis unfolding overfull_def token_space_at_least_iff [OF assms(4)] by (intro exI [of _ w]) linarith
qed

lemma narrow_insert: "narrow (insert (v, len) S) w = (if len \<le> w then insert v (narrow S w) else narrow S w)"
  by (auto simp: narrow_def)

lemma trackingD:
  assumes "tracking base S st"
  shows "finite S" "distinct (map fst (ck_tracker st))" "map_of (ck_tracker st) v = Some m \<Longrightarrow> (v, m) \<in> S"
    "map_of (ck_tracker st) v = Some m \<Longrightarrow> (v, l) \<in> S \<Longrightarrow> m \<le> l" "(v, l) \<in> S \<Longrightarrow> map_of (ck_tracker st) v \<noteq> None"
  using assms unfolding tracking_def by blast+

lemma tracking_counts:
  "tracking base S st \<Longrightarrow> \<forall>(w, n)\<in>set (ck_counts st). n = int (card (narrow S w)) \<and> token_space_at_least w base n"
  by (simp add: tracking_def)

lemma tracking_narrow:
  assumes "tracking base S st"
  shows "v \<in> narrow S w \<longleftrightarrow> (\<exists>m. map_of (ck_tracker st) v = Some m \<and> m \<le> w)"
proof
  assume "v \<in> narrow S w"
  then obtain l where l: "(v, l) \<in> S" "l \<le> w" by (auto simp: narrow_def)
  then obtain m where "map_of (ck_tracker st) v = Some m" using trackingD(5) [OF assms l(1)] by blast
  then show "\<exists>m. map_of (ck_tracker st) v = Some m \<and> m \<le> w" using trackingD(4) [OF assms _ l(1)] l(2) by fastforce
qed (auto simp: narrow_def dest: trackingD(3) [OF assms])

text \<open>One pass over the counters, for an original that enters the pools of the widths it hits.\<close>

lemma note_counts:
  assumes "\<forall>(w, n)\<in>set counts. n = int (card (narrow S w)) \<and> token_space_at_least w base n" and "finite S"
    and "\<And>w. (len \<le> w \<and> (case previous of None \<Rightarrow> True | Some p \<Rightarrow> w < p)) \<longleftrightarrow> v \<notin> narrow S w \<and> len \<le> w"
    and "note_strictest base previous len counts = (violated, counts')"
  shows "if violated then overfull base (insert (v, len) S)
    else map fst counts' = map fst counts
      \<and> (\<forall>(w, n)\<in>set counts'. n = int (card (narrow (insert (v, len) S) w)) \<and> token_space_at_least w base n)"
  using assms(1,4)
proof (induction counts arbitrary: counts' violated)
  case Nil
  then show ?case by simp
next
  case (Cons x counts)
  obtain w n where x: "x = (w, n)" by (cases x)
  obtain b rest where b: "note_strictest base previous len counts = (b, rest)" by (cases "note_strictest base previous len counts")
  have n: "n = int (card (narrow S w))" "token_space_at_least w base n" using Cons.prems(1) x by auto
  have fin: "finite (narrow S w)" using assms(2) by (rule finite_narrow)
  have IH: "if b then overfull base (insert (v, len) S)
    else map fst rest = map fst counts
      \<and> (\<forall>(w, n)\<in>set rest. n = int (card (narrow (insert (v, len) S) w)) \<and> token_space_at_least w base n)"
    using Cons.IH [OF _ b] Cons.prems(1) by simp
  show ?case
  proof (cases "v \<notin> narrow S w \<and> len \<le> w")
    case True
    then have c: "n + 1 = int (card (narrow (insert (v, len) S) w))" using n(1) fin by (simp add: narrow_insert)
    then show ?thesis using True Cons.prems(2) IH b unfolding x note_strictest.simps assms(3)
      by (auto simp: overfull_def split: if_splits)
  next
    case False
    then have c: "narrow (insert (v, len) S) w = narrow S w" by (auto simp: narrow_insert insert_absorb)
    then show ?thesis using False Cons.prems(2) IH b n unfolding x note_strictest.simps assms(3)
      by (auto split: if_splits)
  qed
qed

lemma track_value_spec:
  assumes inv: "tracking base S st" and run: "track_value base len v st = Inr (outcome, st')"
  shows "(outcome = CAPACITY_OK \<longrightarrow> tracking base (insert (v, len) S) st' \<and> map fst (ck_counts st') = map fst (ck_counts st))
    \<and> (outcome = CAPACITY_INSUFFICIENT \<longrightarrow> overfull base (insert (v, len) S))"
proof -
  note fin = trackingD(1) [OF inv] and counts = tracking_counts [OF inv]
  have seen: "v \<in> narrow S w \<longleftrightarrow> (\<exists>m. map_of (ck_tracker st) v = Some m \<and> m \<le> w)" for w by (rule tracking_narrow [OF inv])
  have noted: ?thesis
    if "note_outcome base previous len tracker st = (outcome, st')"
      and hit: "\<And>w. (len \<le> w \<and> (case previous of None \<Rightarrow> True | Some p \<Rightarrow> w < p)) \<longleftrightarrow> v \<notin> narrow S w \<and> len \<le> w"
      and tr: "distinct (map fst tracker)" "map_of tracker = (map_of (ck_tracker st))(v \<mapsto> len)"
      and low: "\<forall>m. map_of (ck_tracker st) v = Some m \<longrightarrow> len \<le> m"
    for previous tracker
  proof -
    obtain violated counts' where n: "note_strictest base previous len (ck_counts st) = (violated, counts')"
      by (cases "note_strictest base previous len (ck_counts st)")
    note spec = note_counts [OF counts fin hit n]
    have "tracking base (insert (v, len) S) st'" if "\<not> violated" "st' = st\<lparr>ck_tracker := tracker, ck_counts := counts'\<rparr>"
    proof -
      have "(x, m) \<in> insert (v, len) S \<and> (\<forall>l. (x, l) \<in> insert (v, len) S \<longrightarrow> m \<le> l)" if "map_of tracker x = Some m" for x m
        using that low trackingD(3,4) [OF inv, of x m] trackingD(5) [OF inv, of v] trackingD(4) [OF inv, of v]
        unfolding tr(2) by (fastforce split: if_splits)
      moreover have "map_of tracker x \<noteq> None" if "(x, l) \<in> insert (v, len) S" for x l
        using that trackingD(5) [OF inv, of x l] unfolding tr(2) by auto
      ultimately show ?thesis using that fin tr(1) spec by (simp add: tracking_def)
    qed
    then show ?thesis using that(1) n spec by (auto simp: note_outcome_def split: if_splits)
  qed
  show ?thesis
  proof (cases "map_of (ck_tracker st) v")
    case None
    then have fresh: "v \<notin> fst ` set (ck_tracker st)" by (simp add: map_of_eq_None_iff)
    have keys: "map_of (ck_tracker st @ [(v, len)]) = (map_of (ck_tracker st))(v \<mapsto> len)"
      using None by (auto simp: fun_eq_iff map_add_def split: option.splits)
    show ?thesis
    proof (cases "MAX_EXACT_VALUES \<le> length (ck_tracker st)")
      case True
      then show ?thesis using run None by (auto simp: track_value_def)
    next
      case False
      then have "note_outcome base None len (ck_tracker st @ [(v, len)]) st = (outcome, st')"
        using run None by (auto simp: track_value_def reduced_strictest_def split: if_splits)
      then show ?thesis using None keys fresh inv seen by (intro noted) (auto simp: tracking_def)
    qed
  next
    case (Some p)
    show ?thesis
    proof (cases "len < p")
      case True
      then have "note_outcome base (Some p) len (AList.update v len (ck_tracker st)) st = (outcome, st')"
        using run Some by (auto simp: track_value_def reduced_strictest_def min_def split: if_splits)
      then show ?thesis using Some True inv seen
        by (intro noted) (auto simp: tracking_def distinct_update update_conv')
    next
      case False
      then have eq: "outcome = CAPACITY_OK" "st' = st" using run Some by (auto simp: track_value_def)
      have in_S: "(v, p) \<in> S" "\<forall>l. (v, l) \<in> S \<longrightarrow> p \<le> l" using trackingD(3,4) [OF inv] Some by auto
      have "narrow (insert (v, len) S) w = narrow S w" for w
        using in_S(1) False by (auto simp: narrow_def intro: exI [of _ p])
      moreover have "(x, m) \<in> insert (v, len) S \<and> (\<forall>l. (x, l) \<in> insert (v, len) S \<longrightarrow> m \<le> l)" if "map_of (ck_tracker st) x = Some m" for x m
        using that trackingD(3,4) [OF inv that] Some False by auto
      moreover have "map_of (ck_tracker st) x \<noteq> None" if "(x, l) \<in> insert (v, len) S" for x l
        using that trackingD(5) [OF inv, of x l] Some by auto
      ultimately have "tracking base (insert (v, len) S) st"
        using fin counts trackingD(2) [OF inv] by (simp add: tracking_def)
      then show ?thesis using eq by simp
    qed
  qed
qed

section \<open>The scan\<close>

text \<open>The occurrences of one record, and of a list of records.\<close>

definition record_occurrences :: "(string \<times> int) list \<Rightarrow> field_values \<Rightarrow> (pystr \<times> int) set" where
  "record_occurrences selected vals = {(v, l). v \<noteq> [] \<and> (\<exists>name. (name, l) \<in> set selected \<and> field_value vals name = VStr v)}"

definition scan_spec :: "int \<Rightarrow> (pystr \<times> int) set \<Rightarrow> (pystr \<times> int) set \<Rightarrow> capacity_state \<Rightarrow> capacity \<Rightarrow> capacity_state \<Rightarrow> bool" where
  "scan_spec base S new st outcome st' \<longleftrightarrow>
     (outcome = CAPACITY_OK \<longrightarrow> tracking base (S \<union> new) st' \<and> map fst (ck_counts st') = map fst (ck_counts st))
   \<and> (outcome = CAPACITY_INSUFFICIENT \<longrightarrow> overfull base (S \<union> new))"

lemma scan_spec_step:
  assumes "scan_spec base S A st CAPACITY_OK st1" and "tracking base (S \<union> A) st1 \<Longrightarrow> scan_spec base (S \<union> A) B st1 outcome st'"
  shows "scan_spec base S (A \<union> B) st outcome st'"
  using assms by (auto simp: scan_spec_def Un_assoc)

lemma scan_spec_stop:
  assumes "scan_spec base S A st outcome st'" and "outcome \<noteq> CAPACITY_OK" and "A \<subseteq> A'" and "finite (S \<union> A')" and "1 \<le> base"
  shows "scan_spec base S A' st outcome st'"
  using assms overfull_mono [of base "S \<union> A" "S \<union> A'"] by (auto simp: scan_spec_def)

lemma finite_record: "finite (record_occurrences selected vals)"
proof (rule finite_subset)
  show "record_occurrences selected vals \<subseteq> (\<lambda>(name, l). (text_of (field_value vals name), l)) ` set selected"
    by (force simp: record_occurrences_def text_of_def)
qed simp

lemma record_occurrences_Cons:
  "record_occurrences ((name, len) # selected) vals =
     (case field_value vals name of VStr v \<Rightarrow> if v = [] then {} else {(v, len)} | _ \<Rightarrow> {}) \<union> record_occurrences selected vals"
  by (auto simp: record_occurrences_def split: pyval.splits)

lemma track_fields_spec:
  assumes "1 \<le> base"
  shows "tracking base S st \<Longrightarrow> track_fields base vals selected st = Inr (outcome, st')
    \<Longrightarrow> scan_spec base S (record_occurrences selected vals) st outcome st'"
proof (induction selected arbitrary: S st)
  case Nil
  then show ?case by (simp add: scan_spec_def record_occurrences_def)
next
  case (Cons x selected)
  obtain name len where x: "x = (name, len)" by (cases x)
  show ?case
  proof (cases "\<exists>v. field_value vals name = VStr v \<and> v \<noteq> []")
    case True
    then obtain v where v: "field_value vals name = VStr v" "v \<noteq> []" by blast
    obtain o1 st1 where t: "track_value base len v st = Inr (o1, st1)"
      using Cons.prems(2) v by (auto simp: x bindE_Inr_iff)
    have s1: "scan_spec base S {(v, len)} st o1 st1" using track_value_spec [OF Cons.prems(1) t] by (auto simp: scan_spec_def)
    have new: "record_occurrences (x # selected) vals = {(v, len)} \<union> record_occurrences selected vals"
      using v by (simp add: x record_occurrences_Cons)
    have fin: "finite S" using Cons.prems(1) by (rule trackingD(1))
    show ?thesis
    proof (cases "o1 = CAPACITY_OK")
      case True
      then have "track_fields base vals selected st1 = Inr (outcome, st')" using Cons.prems(2) v t by (simp add: x)
      then show ?thesis unfolding new using scan_spec_step [of base S "{(v, len)}" st st1] s1 True Cons.IH by blast
    next
      case False
      then have "outcome = o1" "st' = st1" using Cons.prems(2) v t by (auto simp: x)
      then show ?thesis unfolding new using scan_spec_stop [OF s1 False _ _ assms, of "{(v, len)} \<union> record_occurrences selected vals"]
        fin finite_record by auto
    qed
  next
    case False
    then have "record_occurrences (x # selected) vals = record_occurrences selected vals"
      by (auto simp: x record_occurrences_Cons split: pyval.splits)
    moreover have "track_fields base vals selected st = Inr (outcome, st')"
      using Cons.prems(2) False by (auto simp: x split: pyval.splits)
    ultimately show ?thesis using Cons.IH Cons.prems(1) by simp
  qed
qed

lemma tracking_streamed [simp]: "tracking base S (st\<lparr>ck_streamed := n\<rparr>) = tracking base S st"
  by (simp add: tracking_def)

lemma scan_spec_streamed [simp]: "scan_spec base S A (st\<lparr>ck_streamed := n\<rparr>) o' st' = scan_spec base S A st o' st'"
  by (simp add: scan_spec_def)

lemma scan_stream_spec:
  assumes "1 \<le> base"
  shows "tracking base S st \<Longrightarrow> scan_stream cb base units rel selected (map Inr rs) st s = (Inr (outcome, st'), s')
    \<Longrightarrow> scan_spec base S (\<Union>r\<in>set rs. record_occurrences selected (rec_values r)) st outcome st'"
proof (induction rs arbitrary: S st s)
  case Nil
  then show ?case by (simp add: scan_spec_def returnS_def)
next
  case (Cons r rs)
  let ?st = "st\<lparr>ck_streamed := Suc (ck_streamed st)\<rparr>"
  obtain o1 st1 s1 where t: "track_fields base (rec_values r) selected ?st = Inr (o1, st1)"
    and rest: "(if o1 = CAPACITY_OK then scan_stream cb base units rel selected (map Inr rs) st1 else returnS (o1, st1)) s1 = (Inr (outcome, st'), s')"
    using Cons.prems(2) by (auto simp: Let_def liftS_def elim!: bindS_InrE)
  have s1: "scan_spec base S (record_occurrences selected (rec_values r)) st o1 st1"
    using track_fields_spec [OF assms _ t, of S] Cons.prems(1) by simp
  have fin: "finite S" using Cons.prems(1) by (rule trackingD(1))
  show ?case
  proof (cases "o1 = CAPACITY_OK")
    case True
    then show ?thesis using scan_spec_step [of base S _ st st1] s1 Cons.IH rest by simp
  next
    case False
    then have "outcome = o1" "st' = st1" using rest by (auto simp: returnS_def)
    then show ?thesis using scan_spec_stop [OF s1 False _ _ assms] fin finite_record by auto
  qed
qed

lemma delivered_occurrences:
  assumes "list_all2 (agrees (map fst selected)) rs (rows rel)"
  shows "(\<Union>r\<in>set rs. record_occurrences selected (rec_values r)) = table_occurrences rows rel selected"
proof -
  have same: "record_occurrences selected (rec_values r) = record_occurrences selected (rec_values q)" if "agrees (map fst selected) r q" for r q
    using that by (force simp: record_occurrences_def agrees_def)
  have "(\<Union>r\<in>set rs. record_occurrences selected (rec_values r)) = (\<Union>q\<in>set (rows rel). record_occurrences selected (rec_values q))"
    using assms by (induction rule: list_all2_induct) (simp_all add: same)
  also have "\<dots> = table_occurrences rows rel selected" by (auto simp: record_occurrences_def table_occurrences_def)
  finally show ?thesis .
qed

lemma wrap_InrE: "wrap_dependency d m s = (Inr x, s') \<Longrightarrow> m s = (Inr x, s')"
  by (auto simp: wrap_dependency_def split: prod.splits sum.splits)

lemma scan_tables_spec:
  assumes "1 \<le> base" and "delivers src rows"
  shows "tracking base S st \<Longrightarrow> scan_tables cb src base units tables st s = (Inr (outcome, st'), s')
    \<Longrightarrow> scan_spec base S (\<Union>(rel, selected)\<in>set tables. table_occurrences rows rel selected) st outcome st'"
proof (induction tables arbitrary: S st s)
  case Nil
  then show ?case by (simp add: scan_spec_def returnS_def)
next
  case (Cons x tables)
  obtain rel selected where x: "x = (rel, selected)" by (cases x)
  obtain rs where rs: "cr_records src rel (map fst selected) = map Inr rs"
    "list_all2 (agrees (map fst selected)) rs (rows rel)"
    using assms(2) unfolding delivers_def by blast
  obtain o1 st1 s1 where t: "scan_stream cb base units rel selected (map Inr rs) st s = (Inr (o1, st1), s1)"
    and rest: "(if o1 = CAPACITY_OK then scan_tables cb src base units tables st1 else returnS (o1, st1)) s1 = (Inr (outcome, st'), s')"
    using Cons.prems(2) by (auto simp: x rs(1) elim!: bindS_InrE dest!: wrap_InrE)
  have s1: "scan_spec base S (table_occurrences rows rel selected) st o1 st1"
    using scan_stream_spec [OF assms(1) Cons.prems(1) t] by (simp only: delivered_occurrences [where rows = rows and rel = rel, OF rs(2)])
  have fin: "finite S" using Cons.prems(1) by (rule trackingD(1))
  show ?case
  proof (cases "o1 = CAPACITY_OK")
    case True
    then show ?thesis using scan_spec_step [of base S _ st st1] s1 Cons.IH rest by (simp add: x)
  next
    case False
    then have "outcome = o1" "st' = st1" using rest by (auto simp: returnS_def)
    moreover have "finite (S \<union> (\<Union>(rel, selected)\<in>set (x # tables). table_occurrences rows rel selected))"
      using fin by (auto intro!: finite_occurrences(1) split: prod.split)
    ultimately show ?thesis using scan_spec_stop [OF s1 False _ _ assms(1)] by (auto simp: x)
  qed
qed

section \<open>The answer of the proof\<close>

lemma streamed_occurrences:
  "(\<Union>(rel, selected)\<in>set (map (\<lambda>(rel, n, selected). (rel, selected)) (streaming_tables m sensitive)). table_occurrences rows rel selected)
   = {(v, l) \<in> occurrences rows sensitive. l \<le> m}"
proof -
  have cut: "table_occurrences rows rel (filter (\<lambda>(name, len). len \<le> m) fds) = {(v, l) \<in> table_occurrences rows rel fds. l \<le> m}" for rel fds
    by (auto simp: table_occurrences_def)
  have none: "table_occurrences rows rel [] = {}" for rel by (simp add: table_occurrences_def)
  show ?thesis
  proof (induction sensitive)
    case Nil
    then show ?case by (simp add: streaming_tables_def occurrences_def)
  next
    case (Cons t sensitive)
    obtain rel n fds where t: "t = (rel, n, fds)" by (cases t)
    have "{(v, l) \<in> occurrences rows (t # sensitive). l \<le> m} =
        table_occurrences rows rel (filter (\<lambda>(name, len). len \<le> m) fds) \<union> {(v, l) \<in> occurrences rows sensitive. l \<le> m}"
      unfolding cut by (auto simp: occurrences_def t)
    moreover have "streaming_tables m (t # sensitive) = (if filter (\<lambda>(name, len). len \<le> m) fds = [] then [] else [(rel, n, filter (\<lambda>(name, len). len \<le> m) fds)])
        @ streaming_tables m sensitive"
      by (simp add: streaming_tables_def t)
    ultimately show ?case using Cons none by (simp del: filter.simps)
  qed
qed

lemma sorted_last: "sorted xs \<Longrightarrow> x \<in> set xs \<Longrightarrow> x \<le> last xs" for x :: int
  by (induction xs) (auto split: if_splits)

lemma candidate_distinct: "distinct (candidate_alphabet codec es)"
  unfolding candidate_alphabet_def by (intro distinct_filter) (simp add: SAFE_TEXT_ALPHABET_def ascii_def)

lemma single_token:
  assumes "text_assignment [c] occ f"
  shows "([c], 1) \<notin> occ"
proof
  assume "([c], 1) \<in> occ"
  then have "f [c] \<in> tokens_upto [c] 1" "f [c] \<noteq> [c]" using assms by (auto simp: text_assignment_def)
  then show False by (cases "f [c]") (auto simp: tokens_upto_def is_safe_token_def)
qed

lemma exact_scan_spec:
  assumes a: "distinct a" "a \<noteq> []" and src: "delivers src rows"
    and run: "exact_scan cb src a sensitive tight s = (Inr outcome, s')"
  shows "outcome = CAPACITY_OK \<Longrightarrow> w \<in> set tight \<Longrightarrow> w \<le> last tight
      \<Longrightarrow> card (narrow (occurrences rows sensitive) w) \<le> card (tokens_upto a w)"
    and "outcome = CAPACITY_INSUFFICIENT \<Longrightarrow> \<nexists>f. text_assignment a (occurrences rows sensitive) f"
proof -
  let ?occ = "occurrences rows sensitive" and ?S = "{(v, l) \<in> occurrences rows sensitive. l \<le> last tight}"
  let ?b = "int (length a)" and ?st = "\<lparr>ck_tracker = [], ck_counts = map (\<lambda>w. (w, 0)) tight, ck_streamed = 0\<rparr>"
  have b: "1 \<le> ?b" using a(2) by (cases a) auto
  have fin: "finite ?occ" by (rule finite_occurrences(2))
  obtain units o1 st1 s1 s2 where scan: "scan_tables cb src ?b units (map (\<lambda>(rel, n, selected). (rel, selected)) (streaming_tables (last tight) sensitive)) ?st s1 = (Inr (o1, st1), s2)"
    and last: "(if o1 \<noteq> CAPACITY_OK then returnS o1 else liftS (single_token_check ?b a st1)) s2 = (Inr outcome, s')"
    using run by (auto simp: exact_scan_def Let_def elim!: bindS_InrE)
  have "tracking ?b {} ?st"
    using geometric_nonneg [of ?b] b by (auto simp: tracking_def narrow_def token_space_at_least_iff)
  from scan_tables_spec [OF b src this scan]
  have spec: "o1 = CAPACITY_OK \<longrightarrow> tracking ?b ?S st1 \<and> map fst (ck_counts st1) = tight" "o1 = CAPACITY_INSUFFICIENT \<longrightarrow> overfull ?b ?S"
    unfolding streamed_occurrences by (simp_all add: scan_spec_def comp_def)
  show "card (narrow ?occ w) \<le> card (tokens_upto a w)" if ok: "outcome = CAPACITY_OK" and w: "w \<in> set tight" "w \<le> last tight"
  proof -
    have "o1 = CAPACITY_OK" using last ok by (auto simp: returnS_def split: if_splits)
    then have st1: "tracking ?b ?S st1" "w \<in> fst ` set (ck_counts st1)" using spec(1) w(1) by (auto simp flip: set_map)
    then have "token_space_at_least w ?b (int (card (narrow ?S w)))" using tracking_counts by fastforce
    moreover have "narrow ?S w = narrow ?occ w" using w(2) by (auto simp: narrow_def)
    ultimately show ?thesis using token_space_at_least_card [OF a] by simp
  qed
  show "\<nexists>f. text_assignment a ?occ f" if bad: "outcome = CAPACITY_INSUFFICIENT"
  proof (rule notI, elim exE)
    fix f assume f: "text_assignment a ?occ f"
    show False
    proof (cases "o1 = CAPACITY_OK")
      case True
      then have tr: "tracking ?b ?S st1" and "single_token_check ?b a st1 = Inr CAPACITY_INSUFFICIENT"
        using last bad spec(1) by (auto simp: liftS_def)
      then have "length a = 1" "(a, 1) \<in> set (ck_tracker st1)"
        by (cases "find (\<lambda>(v, strictest). strictest = 1) (ck_tracker st1)";
            auto simp: single_token_check_def split: if_splits dest!: find_SomeD)+
      then have "(a, 1) \<in> ?S" using trackingD(2,3) [OF tr] by (simp add: map_of_is_SomeI)
      then show False using single_token f \<open>length a = 1\<close> by (auto simp: length_Suc_conv)
    next
      case False
      then have "overfull ?b ?S" using last bad spec(2) by (auto simp: returnS_def)
      then have "overfull ?b ?occ" using overfull_mono [OF _ _ fin b] by blast
      then show False using assignment_narrow [OF f a(1)] by (auto simp: overfull_def token_space_at_least_card [OF a])
    qed
  qed
qed

text \<open>The participating fields and encodings, as an undisturbed collection finds them.\<close>

definition sensitive_tables ::
    "(json \<Rightarrow> string) \<Rightarrow> dict \<Rightarrow> capacity_reader \<Rightarrow> string list \<Rightarrow> (sensitive_table list \<times> string list) result" where
  "sensitive_tables other merged src files =
     fst (collect_sensitive silent other merged src (dbf_files files)
       \<lparr>pc_operation_id = None, pc_totals = Map.empty, pc_counts = Map.empty, pc_polls = 0, pc_events = []\<rparr>)"

definition preflight_alphabet :: "codec \<Rightarrow> string list \<Rightarrow> pystr" where
  "preflight_alphabet codec participating = candidate_alphabet codec (sort (remdups participating))"

lemma capacity_decided:
  assumes run: "capacity_sufficient cb codec other classes (Some merged) src files s = (Inr outcome, s')" and cls: "ACTION_TEXT \<in> set classes"
    and sens: "sensitive_tables other merged src files = Inr (sensitive, participating)"
    and src: "delivers src rows" and cnt: "counted rows sensitive"
  shows "(outcome = CAPACITY_OK \<longrightarrow> 2 \<le> length (preflight_alphabet codec participating)
            \<longrightarrow> (\<exists>f. text_assignment (preflight_alphabet codec participating) (occurrences rows sensitive) f))
       \<and> (outcome = CAPACITY_INSUFFICIENT \<longrightarrow> occurrences rows sensitive \<noteq> {} \<or> preflight_alphabet codec participating \<noteq> []
            \<longrightarrow> (\<nexists>f. text_assignment (preflight_alphabet codec participating) (occurrences rows sensitive) f))"
proof -
  let ?a = "preflight_alphabet codec participating" and ?occ = "occurrences rows sensitive"
  let ?b = "int (length (preflight_alphabet codec participating))"
  have a: "distinct ?a" by (simp add: preflight_alphabet_def candidate_distinct)
  have trivial: ?thesis if "outcome = CAPACITY_OK" "sensitive = []"
    using that by (auto simp: occurrences_def text_assignment_def)
  show ?thesis
  proof (cases "dbf_files files = []")
    case True
    then show ?thesis using trivial run cls sens by (simp add: capacity_sufficient_def returnS_def sensitive_tables_def)
  next
    case False
    let ?tight = "tight_widths ?b sensitive"
    obtain p1 s1 where p1: "collect_sensitive cb other merged src (dbf_files files) s = (Inr p1, s1)"
      and rest: "(case p1 of (sensitive, participating) \<Rightarrow>
         if sensitive = [] then returnS CAPACITY_OK
         else if preflight_alphabet codec participating = [] then returnS CAPACITY_INSUFFICIENT
         else if tight_widths (int (length (preflight_alphabet codec participating))) sensitive = [] then returnS CAPACITY_OK
         else exact_scan cb src (preflight_alphabet codec participating) sensitive (tight_widths (int (length (preflight_alphabet codec participating))) sensitive)) s1
         = (Inr outcome, s')"
      using run cls False unfolding capacity_sufficient_def preflight_alphabet_def Let_def by (auto elim!: bindS_InrE)
    have "p1 = (sensitive, participating)"
      using transparentD(2) [OF transparent_collect p1] sens by (simp add: sensitive_tables_def ordinary_def)
    then have go: "(if sensitive = [] then returnS CAPACITY_OK else if ?a = [] then returnS CAPACITY_INSUFFICIENT
        else if ?tight = [] then returnS CAPACITY_OK else exact_scan cb src ?a sensitive ?tight) s1 = (Inr outcome, s')"
      using rest by simp
    show ?thesis
    proof (cases "sensitive = [] \<or> ?a = []")
      case True
      have none: "tokens_upto [] w = {}" for w by (auto simp: tokens_upto_def is_safe_token_def neq_Nil_conv)
      show ?thesis using True trivial go none by (auto simp: returnS_def text_assignment_def split: if_splits)
    next
      case here: False
      have loose: "card (narrow ?occ w) \<le> card (tokens_upto ?a w)"
        if "w \<in> set (scan_widths sensitive)" "w \<notin> set ?tight" for w
      proof -
        have "token_space_at_least w ?b (occurrence_upper_bound w sensitive)"
          using that by (auto simp: tight_widths_def Let_def split: if_splits)
        then show ?thesis using occurrence_bound [OF cnt, of w] token_space_at_least_card [OF a] here by fastforce
      qed
      have widths: "snd ` ?occ \<subseteq> set (scan_widths sensitive)"
        by (force simp: occurrences_def table_occurrences_def scan_widths_def)
      have enough: "\<exists>f. text_assignment ?a ?occ f"
        if two: "2 \<le> length ?a" and each: "\<And>w. w \<in> set ?tight \<Longrightarrow> card (narrow ?occ w) \<le> card (tokens_upto ?a w)"
        using narrow_assignment [OF a two finite_occurrences(2)] loose each widths by blast
      show ?thesis
      proof (cases "?tight = []")
        case True
        then show ?thesis using go here enough by (auto simp: returnS_def)
      next
        case False
        then have scan: "exact_scan cb src ?a sensitive ?tight s1 = (Inr outcome, s')" using go here by simp
        have "sorted ?tight" if "2 \<le> length ?a" using that by (auto simp: tight_widths_def scan_widths_def Let_def intro: sorted_wrt_filter)
        then show ?thesis
          using enough exact_scan_spec [OF a _ src scan] here sorted_last by blast
      qed
    qed
  qed
qed

end
