(* ===== verification/Preflight_Numeric.thy ===== *)
theory Preflight_Numeric
  imports Capacity_Exactness
begin

text \<open>
  The capacity proof of the preflight for numeric key domains (\<open>_numeric_relation_capacity\<close> of
  \<^verbatim>\<open>src/src/dbf_anonymizer/preflight.py\<close>): one task per reversible relation, the scan of its
  member fields with the verdict of the originating member, and the planning kernel on the distinct
  originals. The sets of the code are lists without duplicates.
\<close>

section \<open>The tasks\<close>

text \<open>The facts of a bound field: type, length, encoding, decimals, autoincrement and the NULL bit.\<close>

type_synonym rebound_fact = "string \<times> int \<times> string \<times> int \<times> bool \<times> bool"
type_synonym bindings = "member_site \<rightharpoonup> rebound_fact"
type_synonym numeric_site = "string \<times> string \<times> numeric_key_member_range"
type_synonym numeric_task = "string \<times> numeric_key_domain \<times> numeric_site list"

text \<open>A step of the function either returns a capacity early or goes on with a value.\<close>

datatype 'a step = Answer capacity | Proceed 'a

definition MAX_NUMERIC_EXACT_VALUES :: nat where "MAX_NUMERIC_EXACT_VALUES = 65536"

fun numeric_sites :: "bindings \<Rightarrow> relation_member list \<Rightarrow> numeric_site list step result" where
  "numeric_sites bound [] = Inr (Proceed [])"
| "numeric_sites bound (m # ms) =
     (if \<not> is_numeric_member m then numeric_sites bound ms
      else case bound (rm_table_path m, rm_field_name m) of
             None \<Rightarrow> Inr (Answer CAPACITY_UNPROVEN)
           | Some (ty, facts) \<Rightarrow>
               bindE (if ty = ''I'' then Inr integer_member else integral_numeric_member (rm_byte_width m)) (\<lambda>rg.
               bindE (numeric_sites bound ms) (\<lambda>r.
                 Inr (case r of Answer c \<Rightarrow> Answer c | Proceed rest \<Rightarrow> Proceed ((rm_table_path m, rm_field_name m, rg) # rest)))))"

fun numeric_tasks :: "bindings \<Rightarrow> relation_group list \<Rightarrow> numeric_task list step result" where
  "numeric_tasks bound [] = Inr (Proceed [])"
| "numeric_tasks bound (g # gs) =
     bindE (numeric_sites bound (rg_members g)) (\<lambda>r.
       case r of
         Answer c \<Rightarrow> Inr (Answer c)
       | Proceed sites \<Rightarrow>
           if sites = [] then Inr (Answer CAPACITY_UNPROVEN)
           else case numeric_key_domain_for (map (\<lambda>(table, field, rg). rg) sites) of
                  Inl e \<Rightarrow> if e = ValueError then Inr (Answer CAPACITY_INSUFFICIENT) else Inl e
                | Inr kd \<Rightarrow>
                    bindE (numeric_tasks bound gs) (\<lambda>r.
                      Inr (case r of Answer c \<Rightarrow> Answer c | Proceed rest \<Rightarrow> Proceed ((rg_relation_id g, kd, sites) # rest))))"

section \<open>The scan\<close>

text \<open>The distinct reversible originals of the relation so far, and the mark of an unwritable one.\<close>

type_synonym numeric_state = "int list \<times> bool"

fun check_original :: "numeric_key_member_range \<Rightarrow> pyval \<Rightarrow> numeric_state \<Rightarrow> numeric_state step" where
  "check_original rg VNone st = Proceed st"
| "check_original rg (VInt i) (seen, unwritable) =
     (case classify_member_original rg i of
        OUT_OF_MEMBER_RANGE \<Rightarrow> Answer CAPACITY_INSUFFICIENT
      | RECOVERY_UNWRITABLE \<Rightarrow> Proceed (seen, True)
      | REVERSIBLE \<Rightarrow>
          if MAX_NUMERIC_EXACT_VALUES \<le> length seen \<and> i \<notin> set seen then Answer CAPACITY_UNPROVEN
          else Proceed (List.insert i seen, unwritable))"
| "check_original rg v st = Answer CAPACITY_INSUFFICIENT"

text \<open>An early answer reports the mark as it stands.\<close>

fun scan_originals ::
    "callbacks \<Rightarrow> string \<Rightarrow> numeric_key_member_range \<Rightarrow> direct_record result list \<Rightarrow> numeric_state \<Rightarrow> (capacity option \<times> numeric_state) ctl" where
  "scan_originals cb field rg [] st = returnS (None, st)"
| "scan_originals cb field rg (Inl e # items) st = liftS (Inl e)"
| "scan_originals cb field rg (Inr r # items) st =
     bindS (check_cancel cb) (\<lambda>_.
       case check_original rg (field_value (rec_values r) field) st of
         Answer c \<Rightarrow> returnS (Some c, st)
       | Proceed st' \<Rightarrow> scan_originals cb field rg items st')"

fun scan_sites ::
    "callbacks \<Rightarrow> capacity_reader \<Rightarrow> string list \<Rightarrow> numeric_site list \<Rightarrow> numeric_state \<Rightarrow> (capacity option \<times> numeric_state) ctl" where
  "scan_sites cb src files [] st = returnS (None, st)"
| "scan_sites cb src files ((table, field, rg) # sites) st =
     (if table \<notin> set files then returnS (Some CAPACITY_UNPROVEN, st)
      else bindS (check_cancel cb) (\<lambda>_.
           bindS (wrap_dependency ''numeric_capacity_iter_records_failed''
                    (scan_originals cb field rg (cr_records src table [field]) st)) (\<lambda>(answer, st').
             if answer \<noteq> None then returnS (answer, st')
             else bindS (bump cb ''CAPACITY_SCAN'' (Some table)) (\<lambda>_. scan_sites cb src files sites st'))))"

fun scan_tasks :: "callbacks \<Rightarrow> capacity_reader \<Rightarrow> string list \<Rightarrow> numeric_task list \<Rightarrow> bool \<Rightarrow> (capacity \<times> bool) ctl" where
  "scan_tasks cb src files [] unwritable = returnS (CAPACITY_OK, unwritable)"
| "scan_tasks cb src files ((rid, kd, sites) # tasks) unwritable =
     bindS (start_phase cb ''CAPACITY_SCAN'' (Some (int (length sites)))) (\<lambda>_.
     bindS (scan_sites cb src files sites ([], unwritable)) (\<lambda>(answer, seen, unwritable').
       case answer of
         Some c \<Rightarrow> returnS (c, unwritable')
       | None \<Rightarrow>
           bindS (liftS (plan_numeric_bijection kd (sort seen) [])) (\<lambda>fits.
             if \<not> fits then returnS (CAPACITY_INSUFFICIENT, unwritable')
             else scan_tasks cb src files tasks unwritable')))"

definition reversible_groups :: "relationship_document option \<Rightarrow> relation_group list" where
  "reversible_groups document =
     (case document of None \<Rightarrow> [] | Some doc \<Rightarrow> filter (\<lambda>g. rg_numeric_strategy g = REVERSIBLE_BIJECTIVE) (effective_groups doc))"

definition numeric_relation_capacity ::
    "callbacks \<Rightarrow> relationship_document option \<Rightarrow> bindings option \<Rightarrow> capacity_reader \<Rightarrow> string list \<Rightarrow> (capacity \<times> bool) ctl" where
  "numeric_relation_capacity cb document bound src files =
     (if reversible_groups document = [] then returnS (CAPACITY_OK, False)
      else bindS (liftS (numeric_tasks (case bound of None \<Rightarrow> Map.empty | Some b \<Rightarrow> b) (reversible_groups document))) (\<lambda>r.
        case r of
          Answer c \<Rightarrow> returnS (c, False)
        | Proceed tasks \<Rightarrow> if tasks = [] then returnS (CAPACITY_OK, False) else scan_tasks cb src files tasks False))"

section \<open>The callbacks do not matter\<close>

lemma transparent_scan_originals [transparency]: "transparent (\<lambda>cb. scan_originals cb field rg items st)"
proof (induction items arbitrary: st)
  case (Cons x items)
  show ?case
  proof (cases x)
    case (Inr r)
    have "transparent (\<lambda>cb. case y of Answer c \<Rightarrow> returnS (Some c, st) | Proceed st' \<Rightarrow> scan_originals cb field rg items st')" for y
      using Cons by (cases y) (simp_all add: transparency)
    then show ?thesis unfolding Inr scan_originals.simps by (intro transparency)
  qed (simp add: transparency)
qed (simp add: transparency)

lemma transparent_scan_sites [transparency]: "transparent (\<lambda>cb. scan_sites cb src files sites st)"
proof (induction sites arbitrary: st)
  case (Cons x sites)
  obtain table field rg where x: "x = (table, field, rg)" by (cases x)
  show ?case unfolding x scan_sites.simps case_prod_unfold by (intro transparency Cons)
qed (simp add: transparency)

lemma transparent_option: "transparent f \<Longrightarrow> (\<And>x. transparent (\<lambda>cb. g cb x)) \<Longrightarrow> transparent (\<lambda>cb. case y of None \<Rightarrow> f cb | Some x \<Rightarrow> g cb x)"
  by (cases y) simp_all

lemma transparent_step: "(\<And>c. transparent (\<lambda>cb. f cb c)) \<Longrightarrow> (\<And>x. transparent (\<lambda>cb. g cb x)) \<Longrightarrow> transparent (\<lambda>cb. case y of Answer c \<Rightarrow> f cb c | Proceed x \<Rightarrow> g cb x)"
  by (cases y) simp_all

lemma transparent_scan_tasks [transparency]: "transparent (\<lambda>cb. scan_tasks cb src files tasks unwritable)"
proof (induction tasks arbitrary: unwritable)
  case (Cons x tasks)
  obtain rid kd sites where x: "x = (rid, kd, sites)" by (cases x)
  show ?case unfolding x scan_tasks.simps case_prod_unfold by (intro transparency transparent_option Cons)
qed (simp add: transparency)

lemma transparent_numeric [transparency]: "transparent (\<lambda>cb. numeric_relation_capacity cb document bound src files)"
  unfolding numeric_relation_capacity_def by (intro transparency transparent_step)

section \<open>What the scan decides\<close>

text \<open>The values of a member field in all rows of its table.\<close>

definition site_values :: "(string \<Rightarrow> direct_record list) \<Rightarrow> numeric_site \<Rightarrow> pyval set" where
  "site_values rows site = (case site of (table, field, rg) \<Rightarrow> (\<lambda>r. field_value (rec_values r) field) ` set (rows table))"

definition reversible_originals :: "(string \<Rightarrow> direct_record list) \<Rightarrow> numeric_site list \<Rightarrow> int set" where
  "reversible_originals rows sites =
     {i. \<exists>table field rg. (table, field, rg) \<in> set sites \<and> VInt i \<in> site_values rows (table, field, rg)
        \<and> classify_member_original rg i = REVERSIBLE}"

text \<open>A value the domain can carry, up to the reconstruction of an unwritable one.\<close>

fun representable :: "bool \<Rightarrow> numeric_key_member_range \<Rightarrow> pyval \<Rightarrow> bool" where
  "representable unwritable rg VNone = True"
| "representable unwritable rg (VInt i) =
     (classify_member_original rg i = REVERSIBLE \<or> (unwritable \<and> classify_member_original rg i = RECOVERY_UNWRITABLE))"
| "representable unwritable rg v = False"

definition site_ok :: "(string \<Rightarrow> direct_record list) \<Rightarrow> bool \<Rightarrow> numeric_site \<Rightarrow> bool" where
  "site_ok rows unwritable site \<longleftrightarrow> (\<forall>v\<in>site_values rows site. representable unwritable (snd (snd site)) v)"

definition values_reversible :: "numeric_key_member_range \<Rightarrow> pyval set \<Rightarrow> int set" where
  "values_reversible rg vs = {i. VInt i \<in> vs \<and> classify_member_original rg i = REVERSIBLE}"

lemma reversible_originals_Cons:
  "reversible_originals rows ((table, field, rg) # sites)
     = values_reversible rg (site_values rows (table, field, rg)) \<union> reversible_originals rows sites"
  by (auto simp: reversible_originals_def values_reversible_def)

text \<open>After the values \<open>vs\<close> of one member: either all went through, or one of them settled the answer.\<close>

definition originals_spec :: "numeric_key_member_range \<Rightarrow> pyval set \<Rightarrow> numeric_state \<Rightarrow> capacity option \<Rightarrow> numeric_state \<Rightarrow> bool" where
  "originals_spec rg vs st answer st' \<longleftrightarrow> (distinct (fst st) \<longrightarrow> distinct (fst st')) \<and> (snd st \<longrightarrow> snd st')
     \<and> (answer = None \<longrightarrow> set (fst st') = set (fst st) \<union> values_reversible rg vs
          \<and> (\<forall>v\<in>vs. representable (snd st') rg v)
          \<and> (\<not> snd st \<and> snd st' \<longrightarrow> (\<exists>i. VInt i \<in> vs \<and> classify_member_original rg i = RECOVERY_UNWRITABLE)))
     \<and> (answer = Some CAPACITY_INSUFFICIENT \<longrightarrow> (\<exists>v\<in>vs. \<not> representable True rg v))
     \<and> answer \<noteq> Some CAPACITY_OK"

lemma representable_mono: "representable u rg v \<Longrightarrow> (u \<Longrightarrow> u') \<Longrightarrow> representable u' rg v"
  by (cases v) auto

lemma check_original_spec:
  "originals_spec rg {v} st (case check_original rg v st of Answer c \<Rightarrow> Some c | Proceed st' \<Rightarrow> None)
     (case check_original rg v st of Answer c \<Rightarrow> st | Proceed st' \<Rightarrow> st')"
  by (cases st; cases v)
    (auto simp: originals_spec_def values_reversible_def split: member_verdict.splits)

lemma originals_step:
  assumes "originals_spec rg A st None st1" and "originals_spec rg B st1 answer st'"
  shows "originals_spec rg (A \<union> B) st answer st'"
  using assms unfolding originals_spec_def
  by (auto simp: values_reversible_def intro: representable_mono)

lemma originals_stop: "originals_spec rg A st (Some c) st' \<Longrightarrow> A \<subseteq> B \<Longrightarrow> originals_spec rg B st (Some c) st'"
  by (auto simp: originals_spec_def)

lemma scan_originals_spec:
  "scan_originals cb field rg (map Inr rs) st s = (Inr (answer, st'), s')
    \<Longrightarrow> originals_spec rg ((\<lambda>r. field_value (rec_values r) field) ` set rs) st answer st'"
proof (induction rs arbitrary: st s)
  case Nil
  then show ?case by (simp add: originals_spec_def values_reversible_def returnS_def)
next
  case (Cons r rs)
  let ?v = "field_value (rec_values r) field"
  obtain s1 where rest: "(case check_original rg ?v st of Answer c \<Rightarrow> returnS (Some c, st)
      | Proceed st' \<Rightarrow> scan_originals cb field rg (map Inr rs) st') s1 = (Inr (answer, st'), s')"
    using Cons.prems by (auto elim!: bindS_InrE)
  show ?case
  proof (cases "check_original rg ?v st")
    case (Answer c)
    then have "originals_spec rg {?v} st (Some c) st" using check_original_spec [of rg ?v st] by simp
    then have "originals_spec rg ((\<lambda>r. field_value (rec_values r) field) ` set (r # rs)) st (Some c) st"
      by (rule originals_stop) simp
    then show ?thesis using rest Answer by (simp add: returnS_def)
  next
    case (Proceed st1)
    then show ?thesis using rest check_original_spec [of rg ?v st] originals_step [of rg "{?v}" st st1] Cons.IH by auto
  qed
qed

lemma delivered_values:
  assumes "delivers src rows"
  obtains rs where "cr_records src table [field] = map Inr rs"
    "(\<lambda>r. field_value (rec_values r) field) ` set rs = site_values rows (table, field, rg)"
proof -
  obtain rs where rs: "cr_records src table [field] = map Inr rs" "list_all2 (agrees [field]) rs (rows table)"
    using assms unfolding delivers_def by blast
  have "(\<lambda>r. field_value (rec_values r) field) ` set rs = (\<lambda>r. field_value (rec_values r) field) ` set (rows table)"
    using rs(2) by (induction rule: list_all2_induct) (simp_all add: agrees_def)
  then show ?thesis using that rs(1) by (simp add: site_values_def)
qed

text \<open>After all members of a relation.\<close>

definition sites_spec :: "(string \<Rightarrow> direct_record list) \<Rightarrow> numeric_site list \<Rightarrow> numeric_state \<Rightarrow> capacity option \<Rightarrow> numeric_state \<Rightarrow> bool" where
  "sites_spec rows sites st answer st' \<longleftrightarrow> (distinct (fst st) \<longrightarrow> distinct (fst st')) \<and> (snd st \<longrightarrow> snd st')
     \<and> (answer = None \<longrightarrow> set (fst st') = set (fst st) \<union> reversible_originals rows sites \<and> (\<forall>site\<in>set sites. site_ok rows (snd st') site))
     \<and> (answer = Some CAPACITY_INSUFFICIENT \<longrightarrow> (\<exists>site\<in>set sites. \<not> site_ok rows True site))
     \<and> answer \<noteq> Some CAPACITY_OK"

lemma site_ok_mono: "site_ok rows u site \<Longrightarrow> (u \<Longrightarrow> u') \<Longrightarrow> site_ok rows u' site"
  by (auto simp: site_ok_def intro: representable_mono)

lemma scan_sites_spec:
  assumes "delivers src rows"
  shows "scan_sites cb src files sites st s = (Inr (answer, st'), s') \<Longrightarrow> sites_spec rows sites st answer st'"
proof (induction sites arbitrary: st s)
  case Nil
  then show ?case by (simp add: sites_spec_def reversible_originals_def returnS_def)
next
  case (Cons x sites)
  obtain table field rg where x: "x = (table, field, rg)" by (cases x)
  obtain rs where rs: "cr_records src table [field] = map Inr rs"
    "(\<lambda>r. field_value (rec_values r) field) ` set rs = site_values rows x"
    using delivered_values [OF assms] unfolding x by blast
  show ?case
  proof (cases "table \<in> set files")
    case False
    then show ?thesis using Cons.prems by (auto simp: x sites_spec_def returnS_def)
  next
    case True
    obtain a1 st1 s1 s2 where scan: "scan_originals cb field rg (map Inr rs) st s1 = (Inr (a1, st1), s2)"
      and rest: "(if a1 \<noteq> None then returnS (a1, st1)
         else bindS (bump cb ''CAPACITY_SCAN'' (Some table)) (\<lambda>_. scan_sites cb src files sites st1)) s2 = (Inr (answer, st'), s')"
      using Cons.prems True by (auto simp: x rs(1) elim!: bindS_InrE dest!: wrap_InrE)
    have o1: "originals_spec rg (site_values rows x) st a1 st1" using scan_originals_spec [OF scan] rs(2) by simp
    show ?thesis
    proof (cases a1)
      case (Some c)
      then have "answer = Some c" "st' = st1" using rest by (auto simp: returnS_def)
      then show ?thesis using o1 Some by (auto simp: originals_spec_def sites_spec_def site_ok_def x)
    next
      case None
      then obtain s3 where "scan_sites cb src files sites st1 s3 = (Inr (answer, st'), s')" using rest by (auto elim!: bindS_InrE)
      then have IH: "sites_spec rows sites st1 answer st'" by (rule Cons.IH)
      have "site_ok rows (snd st1) x" using o1 None by (simp add: originals_spec_def site_ok_def x)
      moreover have "set (fst st1) = set (fst st) \<union> values_reversible rg (site_values rows x)"
        using o1 None by (simp add: originals_spec_def)
      ultimately show ?thesis using o1 IH None unfolding sites_spec_def x originals_spec_def
        by (auto simp: reversible_originals_Cons intro: site_ok_mono)
    qed
  qed
qed

text \<open>After all relations.\<close>

definition relation_fits :: "(string \<Rightarrow> direct_record list) \<Rightarrow> numeric_task \<Rightarrow> bool" where
  "relation_fits rows task \<longleftrightarrow>
     (case task of (rid, kd, sites) \<Rightarrow> \<exists>f. is_assignment (free_tokens kd {}) (reversible_originals rows sites) f)"

definition relation_readable :: "(string \<Rightarrow> direct_record list) \<Rightarrow> bool \<Rightarrow> numeric_task \<Rightarrow> bool" where
  "relation_readable rows unwritable task \<longleftrightarrow> (\<forall>site\<in>set (snd (snd task)). site_ok rows unwritable site)"

lemma scan_tasks_spec:
  assumes "delivers src rows"
  shows "scan_tasks cb src files tasks unwritable s = (Inr (c, unwritable'), s')
      \<Longrightarrow> \<forall>(rid, kd, sites)\<in>set tasks. dom_low kd \<le> dom_high kd
    \<Longrightarrow> (unwritable \<longrightarrow> unwritable')
      \<and> (c = CAPACITY_OK \<longrightarrow> (\<forall>task\<in>set tasks. relation_readable rows unwritable' task \<and> relation_fits rows task))
      \<and> (c = CAPACITY_INSUFFICIENT \<longrightarrow> (\<exists>task\<in>set tasks. \<not> relation_readable rows True task \<or> \<not> relation_fits rows task))"
proof (induction tasks arbitrary: unwritable s)
  case Nil
  then show ?case by (simp add: returnS_def)
next
  case (Cons x tasks)
  obtain rid kd sites where x: "x = (rid, kd, sites)" by (cases x)
  obtain a1 seen u1 s1 s2 where scan: "scan_sites cb src files sites ([], unwritable) s1 = (Inr (a1, seen, u1), s2)"
    and rest: "(case a1 of Some c \<Rightarrow> returnS (c, u1)
       | None \<Rightarrow> bindS (liftS (plan_numeric_bijection kd (sort seen) [])) (\<lambda>fits.
             if \<not> fits then returnS (CAPACITY_INSUFFICIENT, u1) else scan_tasks cb src files tasks u1)) s2 = (Inr (c, unwritable'), s')"
    using Cons.prems(1) by (auto simp: x elim!: bindS_InrE)
  have sp: "sites_spec rows sites ([], unwritable) a1 (seen, u1)" by (rule scan_sites_spec [OF assms scan])
  show ?case
  proof (cases a1)
    case (Some c1)
    then show ?thesis using rest sp by (auto simp: sites_spec_def relation_readable_def x returnS_def)
  next
    case None
    have seen: "distinct (sort seen)" "set (sort seen) = reversible_originals rows sites" and ok: "relation_readable rows u1 x"
      using sp None by (auto simp: sites_spec_def relation_readable_def x)
    have "dom_low kd \<le> dom_high kd" using Cons.prems(2) by (simp add: x)
    moreover have "finite (reversible_originals rows sites)" using seen(2) by (metis List.finite_set)
    ultimately have plan: "plan_numeric_bijection kd (sort seen) [] = Inr (relation_fits rows x)"
      using plan_numeric_bijection_feasible [of kd "sort seen" "[]"] seen
        feasible_assignment [of "free_tokens kd {}" "set (sort seen)"] assignment_feasible [of "free_tokens kd {}" "set (sort seen)"]
      by (auto simp: relation_fits_def x)
    show ?thesis
    proof (cases "relation_fits rows x")
      case False
      then show ?thesis using rest None plan sp by (auto simp: bindS_def liftS_def returnS_def sites_spec_def)
    next
      case True
      then have tail: "scan_tasks cb src files tasks u1 s2 = (Inr (c, unwritable'), s')"
        using rest None plan by (simp add: bindS_def liftS_def)
      have "relation_readable rows unwritable' x" if "u1 \<longrightarrow> unwritable'"
        using ok that by (auto simp: relation_readable_def intro: site_ok_mono)
      then show ?thesis using Cons.IH [OF tail] Cons.prems(2) True sp by (auto simp: sites_spec_def)
    qed
  qed
qed

lemma domain_nonempty: "numeric_key_domain_for ms = Inr d \<Longrightarrow> dom_low d \<le> dom_high d"
  by (auto simp: numeric_key_domain_for_def intersect_ranges_def Let_def split: if_splits option.splits list.splits)

text \<open>Each task is a reversible relation with its own domain, that of its members.\<close>

lemma numeric_tasks_spec:
  "numeric_tasks bound gs = Inr (Proceed tasks) \<Longrightarrow>
     list_all2 (\<lambda>g (rid, kd, sites). rid = rg_relation_id g \<and> numeric_sites bound (rg_members g) = Inr (Proceed sites)
       \<and> numeric_key_domain_for (map (\<lambda>(table, field, rg). rg) sites) = Inr kd) gs tasks"
proof (induction gs arbitrary: tasks)
  case (Cons g gs)
  obtain r where r: "numeric_sites bound (rg_members g) = Inr r" using Cons.prems by (auto elim!: bindE_InrE)
  then obtain sites where s: "r = Proceed sites" "sites \<noteq> []" using Cons.prems by (cases r) (auto split: if_splits)
  obtain kd where kd: "numeric_key_domain_for (map (\<lambda>(table, field, rg). rg) sites) = Inr kd"
    using Cons.prems r s by (auto split: sum.splits if_splits)
  obtain q where q: "numeric_tasks bound gs = Inr q" using Cons.prems r s kd by (auto elim!: bindE_InrE)
  then obtain rest where "q = Proceed rest" "tasks = (rg_relation_id g, kd, sites) # rest"
    using Cons.prems r s kd by (cases q) auto
  then show ?case using Cons.IH r s kd q by simp
qed simp

lemma numeric_capacity_decided:
  assumes run: "numeric_relation_capacity cb document bound src files s = (Inr (c, unwritable), s')" and src: "delivers src rows"
    and tasks: "numeric_tasks (case bound of None \<Rightarrow> Map.empty | Some b \<Rightarrow> b) (reversible_groups document) = Inr (Proceed tasks)"
  shows "(c = CAPACITY_OK \<longrightarrow> (\<forall>task\<in>set tasks. relation_readable rows unwritable task \<and> relation_fits rows task))
       \<and> (c = CAPACITY_INSUFFICIENT \<longrightarrow> (\<exists>task\<in>set tasks. \<not> relation_readable rows True task \<or> \<not> relation_fits rows task))"
proof -
  have spec: "\<forall>(rid, kd, sites)\<in>set tasks. dom_low kd \<le> dom_high kd"
    using numeric_tasks_spec [OF tasks] domain_nonempty by (fastforce simp: list_all2_conv_all_nth in_set_conv_nth)
  show ?thesis
  proof (cases "tasks = []")
    case True
    then show ?thesis using run tasks by (auto simp: numeric_relation_capacity_def returnS_def bindS_def liftS_def split: if_splits)
  next
    case False
    then have "reversible_groups document \<noteq> []" using tasks by auto
    then have "scan_tasks cb src files tasks False s = (Inr (c, unwritable), s')"
      using run tasks False by (simp add: numeric_relation_capacity_def bindS_def liftS_def)
    then show ?thesis using scan_tasks_spec [OF src] spec by blast
  qed
qed

end
