(* ===== verification/Dataset_Plan.thy ===== *)
theory Dataset_Plan
  imports Preflight_Numeric
begin

text \<open>
  The plan models (\<^verbatim>\<open>src/src/dbf_anonymizer/models.py\<close>) and the discovery of a source tree
  (\<^verbatim>\<open>discovery.py\<close>). The tree is an argument: the directories as \<open>os.walk\<close> visits them, each with the
  relative paths of its files or the error of its listing, the size of a file and the chunks its
  handle yields. The JSON text under the fingerprint digest is part of the digest argument.
\<close>

section \<open>The plan models\<close>

datatype transfer_profile = DATA_ONLY | VFP_INDEXED
datatype vault_strategy = NO_VAULT | SINGLE_DATASET_SQLITE

fun profile_value :: "transfer_profile \<Rightarrow> string" where
  "profile_value DATA_ONLY = ''DATA_ONLY''"
| "profile_value VFP_INDEXED = ''VFP_INDEXED''"

fun strategy_value :: "vault_strategy \<Rightarrow> string" where
  "strategy_value NO_VAULT = ''NONE''"
| "strategy_value SINGLE_DATASET_SQLITE = ''SINGLE_DATASET_SQLITE''"

record table_plan =
  tp_path :: string
  tp_memo_path :: "string option"
  tp_record_count :: int
  tp_field_count :: int
  tp_transform_count :: int
  tp_structural_cdx :: bool
  tp_dbc_bound :: bool
  tp_index_strategy :: string
  tp_memo_required :: bool
  tp_memo_present :: bool
  tp_cdx_present :: bool
  tp_unsupported :: int
  tp_unsafe :: int
  tp_system :: int

definition public_count :: "int \<Rightarrow> bool" where "public_count n \<longleftrightarrow> 0 \<le> n \<and> n < 2 ^ 63"

definition optional_path :: "string option \<Rightarrow> string option result" where
  "optional_path p = (case p of None \<Rightarrow> Inr None | Some t \<Rightarrow> bindE (public_relative_path t) (\<lambda>u. Inr (Some u)))"

definition check_table_plan :: "table_plan \<Rightarrow> table_plan result" where
  "check_table_plan t =
     bindE (public_relative_path (tp_path t)) (\<lambda>path.
     bindE (optional_path (tp_memo_path t)) (\<lambda>memo.
     bindE (value_check (list_all public_count [tp_record_count t, tp_field_count t, tp_transform_count t])) (\<lambda>_.
     bindE (value_check (tp_transform_count t \<le> tp_field_count t)) (\<lambda>_.
     bindE (validated_code (tp_index_strategy t)) (\<lambda>_.
     bindE (value_check (tp_index_strategy t \<in> {''DATA_ONLY'', ''VFP_INDEXED''})) (\<lambda>_.
     bindE (value_check (list_all public_count [tp_unsupported t, tp_unsafe t, tp_system t])) (\<lambda>_.
     bindE (value_check (tp_unsupported t \<le> tp_field_count t \<and> tp_unsupported t \<le> tp_unsafe t \<and> tp_unsafe t \<le> tp_field_count t
              \<and> tp_system t \<le> tp_field_count t)) (\<lambda>_.
     bindE (value_check (tp_transform_count t + tp_unsafe t + tp_system t \<le> tp_field_count t)) (\<lambda>_.
       Inr (t\<lparr>tp_path := path, tp_memo_path := memo\<rparr>))))))))))"

record policy_summary =
  ps_schema_version :: string
  ps_fingerprint :: string
  ps_transformed_count :: int
  ps_relationship_count :: int
  ps_recovery_enabled :: bool
  ps_classes :: "string list"
  ps_vault_strategy :: vault_strategy

definition check_policy_summary :: "policy_summary \<Rightarrow> policy_summary result" where
  "check_policy_summary p =
     bindE (validated_code (ps_schema_version p)) (\<lambda>_.
     bindE (validated_code (ps_fingerprint p)) (\<lambda>_.
     bindE (value_check (public_count (ps_transformed_count p) \<and> public_count (ps_relationship_count p))) (\<lambda>_.
     bindE (value_check (length (ps_classes p) \<le> 64)) (\<lambda>_.
     bindE (mapE validated_code (ps_classes p)) (\<lambda>_. Inr p)))))"

record dataset_identity =
  da_id :: string
  da_source_fingerprint :: string
  da_table_paths :: "string list"
  da_standalone_idx :: "string list"
  da_dbc_bound :: "string list"

text \<open>\<open>sorted(paths, key=lambda p: (p.casefold(), p))\<close> on the letters of public paths.\<close>

definition casefold_sort :: "string list \<Rightarrow> string list" where
  "casefold_sort paths = sort_key (\<lambda>p. (map lower_char p, p)) paths"

definition check_dataset_identity :: "dataset_identity \<Rightarrow> dataset_identity result" where
  "check_dataset_identity d =
     bindE (validated_code (da_id d)) (\<lambda>_.
     bindE (validated_code (da_source_fingerprint d)) (\<lambda>_.
     bindE (value_check (length (da_table_paths d) \<le> 256)) (\<lambda>_.
     bindE (mapE public_relative_path (da_table_paths d)) (\<lambda>tables.
     bindE (value_check (distinct tables)) (\<lambda>_.
     bindE (value_check (length (da_standalone_idx d) \<le> 256)) (\<lambda>_.
     bindE (mapE public_relative_path (da_standalone_idx d)) (\<lambda>idx.
     bindE (value_check (distinct idx)) (\<lambda>_.
     bindE (value_check (list_all (\<lambda>p. map lower_char (path_suffix p) = ''.idx'') idx)) (\<lambda>_.
     bindE (value_check (length (da_dbc_bound d) \<le> 256)) (\<lambda>_.
     bindE (mapE public_relative_path (da_dbc_bound d)) (\<lambda>dbc.
     bindE (value_check (distinct dbc)) (\<lambda>_.
     bindE (value_check (set dbc \<subseteq> set tables)) (\<lambda>_.
       Inr (d\<lparr>da_table_paths := tables, da_standalone_idx := casefold_sort idx, da_dbc_bound := casefold_sort dbc\<rparr>))))))))))))))"

record numeric_review =
  nr_table :: string
  nr_field :: string
  nr_type :: string
  nr_status :: string

definition check_numeric_review :: "numeric_review \<Rightarrow> numeric_review result" where
  "check_numeric_review r =
     bindE (public_relative_path (nr_table r)) (\<lambda>path.
     bindE (mapE validated_code [nr_field r, nr_type r, nr_status r]) (\<lambda>_. Inr (r\<lparr>nr_table := path\<rparr>)))"

text \<open>Absolute paths as the list of their components below the root of the file system.\<close>

type_synonym path = "string list"

record execution_context =
  xc_source_root :: path
  xc_output_root :: path
  xc_vault_path :: path
  xc_document :: "relationship_document option"
  xc_bindings :: "bindings option"
  xc_authority :: "authority_binding option"
  xc_policy :: "dict option"

record plan =
  pl_id :: string
  pl_dataset :: dataset_identity
  pl_tables :: "table_plan list"
  pl_policy :: policy_summary
  pl_relationships :: relationship_metadata
  pl_profile :: transfer_profile
  pl_assurance_target :: assurance_level
  pl_numeric_review :: "numeric_review list"
  pl_context :: "execution_context option"

definition check_plan :: "plan \<Rightarrow> plan result" where
  "check_plan p =
     bindE (validated_code (pl_id p)) (\<lambda>_.
     bindE (value_check (length (pl_tables p) \<le> 256)) (\<lambda>_.
     bindE (value_check (length (pl_numeric_review p) \<le> 1024)) (\<lambda>_.
     bindE (value_check (map tp_path (pl_tables p) = da_table_paths (pl_dataset p))) (\<lambda>_.
     bindE (value_check (casefold_sort (map tp_path (filter tp_dbc_bound (pl_tables p))) = da_dbc_bound (pl_dataset p))) (\<lambda>_.
       Inr p)))))"

section \<open>The source tree\<close>

datatype path_kind = PATH_MISSING | PATH_FILE | PATH_DIRECTORY | PATH_OTHER | PATH_BLOCKED

text \<open>The raw stat of a path and its classification.\<close>

datatype stat_answer = NoEntry | NotADirectory | StatError | IsDirectory | IsRegular | IsOther

fun probe_path :: "stat_answer \<Rightarrow> path_kind result" where
  "probe_path NoEntry = Inr PATH_MISSING"
| "probe_path NotADirectory = Inr PATH_BLOCKED"
| "probe_path StatError = Inl OSError"
| "probe_path IsDirectory = Inr PATH_DIRECTORY"
| "probe_path IsRegular = Inr PATH_FILE"
| "probe_path IsOther = Inr PATH_OTHER"

record source_tree =
  so_root :: stat_answer
  so_walk :: "string list result list"
  so_size :: "string \<Rightarrow> int result"
  so_chunks :: "string \<Rightarrow> bytes result list result"

definition IN_SCOPE_EXTENSIONS :: "string list" where
  "IN_SCOPE_EXTENSIONS = [''.dbf'', ''.fpt'', ''.cdx'', ''.idx'']"

definition has_extension :: "string list \<Rightarrow> string \<Rightarrow> bool" where
  "has_extension extensions rel \<longleftrightarrow> map lower_char (path_suffix rel) \<in> set extensions"

text \<open>
  The walk polls once per listed directory; without \<open>strict\<close> a directory that cannot be listed is
  passed over.
\<close>

fun walk_files :: "callbacks \<Rightarrow> bool \<Rightarrow> string list \<Rightarrow> string list result list \<Rightarrow> string list ctl" where
  "walk_files cb strict extensions [] = returnS []"
| "walk_files cb strict extensions (Inl e # dirs) = (if strict then liftS (Inl e) else walk_files cb strict extensions dirs)"
| "walk_files cb strict extensions (Inr names # dirs) =
     bindS (check_cancel cb) (\<lambda>_.
     bindS (walk_files cb strict extensions dirs) (\<lambda>rest. returnS (filter (has_extension extensions) names @ rest)))"

definition enumerate_in_scope_paths :: "callbacks \<Rightarrow> bool \<Rightarrow> source_tree \<Rightarrow> string list ctl" where
  "enumerate_in_scope_paths cb strict so =
     (if strict then
        bindS (liftS (probe_path (so_root so))) (\<lambda>kind.
          if kind = PATH_DIRECTORY then walk_files cb strict IN_SCOPE_EXTENSIONS (so_walk so) else liftS (Inl OSError))
      else if so_root so \<noteq> IsDirectory then returnS []
      else walk_files cb strict IN_SCOPE_EXTENSIONS (so_walk so))"

section \<open>The source fingerprint\<close>

definition FINGERPRINT_CANCEL_CHUNK_QUANTUM :: nat where "FINGERPRINT_CANCEL_CHUNK_QUANTUM = 16"

text \<open>The read loop; the last read yields nothing and ends it.\<close>

fun hash_chunks :: "callbacks \<Rightarrow> nat \<Rightarrow> bytes result list \<Rightarrow> bytes ctl" where
  "hash_chunks cb k [] =
     bindS (if k mod FINGERPRINT_CANCEL_CHUNK_QUANTUM = 0 then check_cancel cb else returnS ()) (\<lambda>_. returnS [])"
| "hash_chunks cb k (chunk # chunks) =
     bindS (if k mod FINGERPRINT_CANCEL_CHUNK_QUANTUM = 0 then check_cancel cb else returnS ()) (\<lambda>_.
     bindS (liftS chunk) (\<lambda>b.
     bindS (hash_chunks cb (Suc k) chunks) (\<lambda>rest. returnS (b @ rest))))"

definition file_sha256 :: "callbacks \<Rightarrow> (bytes \<Rightarrow> string) \<Rightarrow> bytes result list result \<Rightarrow> string ctl" where
  "file_sha256 cb sha file =
     bindS (liftS file) (\<lambda>chunks. bindS (hash_chunks cb 0 chunks) (\<lambda>content. returnS (sha content)))"

record fingerprint_entry =
  fe_path :: string
  fe_type :: string
  fe_size :: int
  fe_sha :: string

definition artifact_type :: "string \<Rightarrow> string" where
  "artifact_type rel = map upper_char (dropWhile (\<lambda>c. c = CHR ''.'') (path_suffix rel))"

fun hash_artifacts ::
    "callbacks \<Rightarrow> (bytes \<Rightarrow> string) \<Rightarrow> source_tree \<Rightarrow> string \<Rightarrow> int \<Rightarrow> int \<Rightarrow> string list \<Rightarrow> fingerprint_entry list ctl" where
  "hash_artifacts cb sha so phase n d [] = returnS []"
| "hash_artifacts cb sha so phase n d (rel # rels) =
     bindS (check_cancel cb) (\<lambda>_.
     bindS (liftS (so_size so rel)) (\<lambda>len.
     bindS (file_sha256 cb sha (so_chunks so rel)) (\<lambda>digest.
     bindS (progress cb phase d (Some n) (Some rel)) (\<lambda>_.
     bindS (hash_artifacts cb sha so phase n (d + 1) rels) (\<lambda>rest.
       returnS (\<lparr>fe_path = rel, fe_type = artifact_type rel, fe_size = len, fe_sha = digest\<rparr> # rest))))))"

text \<open>The phase is that of the caller's progress probe.\<close>

definition collect_fingerprint_entries ::
    "callbacks \<Rightarrow> (bytes \<Rightarrow> string) \<Rightarrow> bool \<Rightarrow> source_tree \<Rightarrow> string \<Rightarrow> fingerprint_entry list ctl" where
  "collect_fingerprint_entries cb sha strict so phase =
     bindS (enumerate_in_scope_paths cb strict so) (\<lambda>paths.
     bindS (hash_artifacts cb sha so phase (int (length paths)) 1 (sort paths)) (\<lambda>entries.
       returnS (sort_key fe_path entries)))"

definition derive_dataset_id :: "string \<Rightarrow> string" where
  "derive_dataset_id fingerprint = ''ds-'' @ take 16 fingerprint"

section \<open>The discovered tables\<close>

text \<open>
  The schema of a table with what planning reads beyond the engine: the companions, the memo flags,
  and per field the autoincrement and NULL bits. The companion paths are relative to the root, where
  they lie below it.
\<close>

record table_facts =
  tf_schema :: source_schema
  tf_field_bits :: "(bool \<times> bool) list"
  tf_has_memo :: bool
  tf_memo_present :: bool
  tf_memo_path :: "string option"
  tf_cdx_present :: bool
  tf_cdx_path :: "string option"
  tf_dbc_bound :: bool

record discovered_table =
  dt_path :: string
  dt_memo_path :: "string option"
  dt_record_count :: int
  dt_field_count :: int
  dt_structural_cdx :: bool
  dt_dbc_bound :: bool
  dt_cdx_path :: "string option"

definition discovered :: "string \<Rightarrow> table_facts \<Rightarrow> discovered_table" where
  "discovered rel t =
     \<lparr>dt_path = rel, dt_memo_path = (if tf_memo_present t then tf_memo_path t else None),
      dt_record_count = int (ss_record_count (tf_schema t)), dt_field_count = int (length (ss_fields (tf_schema t))),
      dt_structural_cdx = ss_structural_cdx (tf_schema t), dt_dbc_bound = tf_dbc_bound t,
      dt_cdx_path = (if tf_cdx_present t then tf_cdx_path t else None)\<rparr>"

fun read_tables :: "callbacks \<Rightarrow> (string \<Rightarrow> table_facts result) \<Rightarrow> string list \<Rightarrow> discovered_table list ctl" where
  "read_tables cb read [] = returnS []"
| "read_tables cb read (rel # rels) =
     bindS (check_cancel cb) (\<lambda>_.
     bindS (wrap_dependency ''read_schema_failed'' (liftS (read rel))) (\<lambda>t.
     bindS (bump cb ''DISCOVERY'' (Some rel)) (\<lambda>_.
     bindS (read_tables cb read rels) (\<lambda>rest. returnS (discovered rel t # rest)))))"

text \<open>Paths are compared component by component, relative paths as text.\<close>

definition discover_tables :: "callbacks \<Rightarrow> source_tree \<Rightarrow> (string \<Rightarrow> table_facts result) \<Rightarrow> discovered_table list ctl" where
  "discover_tables cb so read =
     (if so_root so \<noteq> IsDirectory then liftS (Inl (PathError PATH_NOT_FOUND ''source_root_not_a_directory''))
      else bindS (walk_files cb False [''.dbf''] (so_walk so)) (\<lambda>files.
           bindS (read_tables cb read (sort_key (split_on chr_slash) files)) (\<lambda>tables. returnS (sort_key dt_path tables))))"

section \<open>The callbacks do not matter\<close>

lemma transparent_walk [transparency]: "transparent (\<lambda>cb. walk_files cb strict extensions dirs)"
proof (induction dirs)
  case (Cons d dirs)
  show ?case
  proof (cases d)
    case (Inl e)
    then show ?thesis using Cons by (cases strict) (simp_all add: transparency)
  next
    case (Inr names)
    show ?thesis unfolding Inr walk_files.simps by (intro transparency Cons)
  qed
qed (simp add: transparency)

lemma transparent_enumerate [transparency]: "transparent (\<lambda>cb. enumerate_in_scope_paths cb strict so)"
  unfolding enumerate_in_scope_paths_def by (intro transparency)

lemma transparent_hash_chunks [transparency]: "transparent (\<lambda>cb. hash_chunks cb k chunks)"
proof (induction chunks arbitrary: k)
  case Nil
  show ?case unfolding hash_chunks.simps by (intro transparency)
next
  case (Cons c chunks)
  show ?case unfolding hash_chunks.simps by (intro transparency Cons)
qed

lemma transparent_hash_artifacts [transparency]: "transparent (\<lambda>cb. hash_artifacts cb sha so phase n d rels)"
proof (induction rels arbitrary: d)
  case (Cons rel rels)
  show ?case unfolding hash_artifacts.simps file_sha256_def by (intro transparency Cons)
qed (simp add: transparency)

lemma transparent_entries [transparency]: "transparent (\<lambda>cb. collect_fingerprint_entries cb sha strict so phase)"
  unfolding collect_fingerprint_entries_def by (intro transparency)

lemma transparent_read_tables [transparency]: "transparent (\<lambda>cb. read_tables cb read rels)"
proof (induction rels)
  case (Cons rel rels)
  show ?case unfolding read_tables.simps by (intro transparency Cons)
qed (simp add: transparency)

lemma transparent_discover [transparency]: "transparent (\<lambda>cb. discover_tables cb so read)"
  unfolding discover_tables_def by (intro transparency)

end
