(* ===== verification/Preflight.thy ===== *)
theory Preflight
  imports Dataset_Plan
begin

text \<open>
  The preflight of a plan (\<^verbatim>\<open>src/src/dbf_anonymizer/preflight.py\<close>) and the read-only identity check of
  an existing vault file (\<^verbatim>\<open>dictionary_identity.py\<close>). What the operating system answers is an argument:
  the stat of a path, its resolved form, the entries of a directory, free space and device. An existing
  vault is the content its read-only connection shows.
\<close>

section \<open>Findings\<close>

record preflight_findings =
  fi_checks :: "string list"
  fi_warnings :: "string list"
  fi_errors :: "string list"

definition no_preflight_findings :: preflight_findings where
  "no_preflight_findings = \<lparr>fi_checks = [], fi_warnings = [], fi_errors = []\<rparr>"

definition note_check :: "string \<Rightarrow> preflight_findings \<Rightarrow> preflight_findings" where
  "note_check code f = f\<lparr>fi_checks := List.insert code (fi_checks f)\<rparr>"

definition note_warning :: "string \<Rightarrow> preflight_findings \<Rightarrow> preflight_findings" where
  "note_warning code f = f\<lparr>fi_warnings := List.insert code (fi_warnings f)\<rparr>"

definition note_error :: "string \<Rightarrow> preflight_findings \<Rightarrow> preflight_findings" where
  "note_error code f = f\<lparr>fi_errors := List.insert code (fi_errors f)\<rparr>"

definition note_error_if :: "bool \<Rightarrow> string \<Rightarrow> preflight_findings \<Rightarrow> preflight_findings" where
  "note_error_if b code f = (if b then note_error code f else f)"

record capabilities =
  ca_direct_read :: bool
  ca_direct_write :: bool

record preflight_result =
  pr_ready :: bool
  pr_plan_id :: string
  pr_capabilities :: capabilities
  pr_checks :: "string list"
  pr_warnings :: "string list"
  pr_errors :: "string list"

definition check_preflight_result :: "preflight_result \<Rightarrow> preflight_result result" where
  "check_preflight_result r =
     bindE (validated_code (pr_plan_id r)) (\<lambda>_.
     bindE (value_check (list_all (\<lambda>codes. length codes \<le> 64) [pr_checks r, pr_warnings r, pr_errors r])) (\<lambda>_.
     bindE (mapE validated_code (pr_checks r @ pr_warnings r @ pr_errors r)) (\<lambda>_.
     bindE (value_check (\<not> (pr_ready r \<and> pr_errors r \<noteq> []))) (\<lambda>_. Inr r))))"

definition findings_result :: "plan \<Rightarrow> capabilities \<Rightarrow> preflight_findings \<Rightarrow> preflight_result result" where
  "findings_result p caps f0 =
     (let f = note_check ''PREFLIGHT_EVALUATED'' f0
      in check_preflight_result \<lparr>pr_ready = (fi_errors f = []), pr_plan_id = pl_id p, pr_capabilities = caps,
           pr_checks = sort (fi_checks f), pr_warnings = sort (fi_warnings f), pr_errors = sort (fi_errors f)\<rparr>)"

section \<open>Paths\<close>

record host =
  ho_stat :: "path \<Rightarrow> stat_answer"
  ho_canonical :: "path \<Rightarrow> string result"
  ho_iterdir :: "path \<Rightarrow> string list result"
  ho_disk_free :: "path \<Rightarrow> int result"
  ho_device :: "path \<Rightarrow> int result"

text \<open>The parents of a path up to the root, which is its own parent.\<close>

definition parents :: "path \<Rightarrow> path list" where
  "parents p = (if p = [] then [[]] else map (\<lambda>n. take n p) (rev [0..<length p]))"

fun first_existing :: "host \<Rightarrow> path \<Rightarrow> path list \<Rightarrow> path result" where
  "first_existing ho p [] = bindE (probe_path (ho_stat ho p)) (\<lambda>_. Inr p)"
| "first_existing ho p (q # qs) =
     bindE (probe_path (ho_stat ho p)) (\<lambda>kind. if kind \<noteq> PATH_MISSING then Inr p else first_existing ho q qs)"

definition nearest_existing_ancestor :: "host \<Rightarrow> path \<Rightarrow> path result" where
  "nearest_existing_ancestor ho p = first_existing ho p (if p = [] then [] else parents p)"

definition starts_with :: "string \<Rightarrow> string \<Rightarrow> bool" where
  "starts_with s prefix \<longleftrightarrow> take (length prefix) s = prefix"

definition canonical_within :: "host \<Rightarrow> path \<Rightarrow> path \<Rightarrow> bool result" where
  "canonical_within ho inner outer =
     bindE (ho_canonical ho inner) (\<lambda>ci.
     bindE (ho_canonical ho outer) (\<lambda>co.
       Inr (ci = co \<or> starts_with ci (if ends_with co ''/'' then co else co @ ''/''))))"

fun any_overlap :: "host \<Rightarrow> (path \<times> path) list \<Rightarrow> bool result" where
  "any_overlap ho [] = Inr False"
| "any_overlap ho ((a, b) # pairs) =
     bindE (canonical_within ho a b) (\<lambda>x. if x then Inr True
     else bindE (canonical_within ho b a) (\<lambda>y. if y then Inr True else any_overlap ho pairs))"

definition paths_overlap :: "host \<Rightarrow> path \<Rightarrow> path \<Rightarrow> path \<Rightarrow> bool result" where
  "paths_overlap ho source output vault = any_overlap ho [(source, output), (source, vault), (output, vault)]"

fun any_blocked :: "host \<Rightarrow> path list \<Rightarrow> bool result" where
  "any_blocked ho [] = Inr False"
| "any_blocked ho (p # ps) =
     bindE (probe_path (ho_stat ho p)) (\<lambda>kind. if kind \<in> {PATH_FILE, PATH_OTHER, PATH_BLOCKED} then Inr True else any_blocked ho ps)"

definition ancestor_conflict :: "host \<Rightarrow> path \<Rightarrow> bool result" where
  "ancestor_conflict ho p = any_blocked ho (parents p)"

definition destination_conflict :: "host \<Rightarrow> path \<Rightarrow> path \<Rightarrow> bool result" where
  "destination_conflict ho output vault =
     bindE (probe_path (ho_stat ho output)) (\<lambda>kind.
       if kind \<in> {PATH_FILE, PATH_OTHER} then Inr True
       else if kind = PATH_BLOCKED then Inr True
       else bindE (if kind = PATH_DIRECTORY then bindE (ho_iterdir ho output) (\<lambda>entries. Inr (entries \<noteq> [])) else Inr False) (\<lambda>occupied.
         if occupied then Inr True
         else bindE (probe_path (ho_stat ho vault)) (\<lambda>vault_kind.
           if vault_kind \<notin> {PATH_MISSING, PATH_FILE} then Inr True
           else bindE (ancestor_conflict ho output) (\<lambda>b. if b then Inr True else ancestor_conflict ho vault))))"

text \<open>\<open>except OSError\<close>: the inspection has no answer.\<close>

definition os_answer :: "'a result \<Rightarrow> 'a option result" where
  "os_answer r = (case r of Inr x \<Rightarrow> Inr (Some x) | Inl e \<Rightarrow> if e = OSError then Inr None else Inl e)"

section \<open>An existing vault\<close>

definition VAULT_ID_PREFIX :: string where "VAULT_ID_PREFIX = ''vault-''"
definition VAULT_SCHEMA_VERSION :: string where "VAULT_SCHEMA_VERSION = ''1.1''"

definition DICTIONARY_SIDECAR_SUFFIXES :: "string list" where
  "DICTIONARY_SIDECAR_SUFFIXES = [''-wal'', ''-shm'', ''-journal'']"

record dictionary =
  di_quick_check :: bool
  di_foreign_violations :: bool
  di_meta :: "(string \<times> string) option"
  di_dataset :: "(string \<times> string \<times> string) option"

datatype dictionary_open = OpenDenied | OpenFailed | DatabaseUnreadable | Opened dictionary

datatype listing = ListingDenied | ListingFailed | Listed "string list"

record vault_file =
  vf_siblings :: listing
  vf_open :: dictionary_open

definition dictionary_id_shape_valid :: "string \<Rightarrow> string \<Rightarrow> bool" where
  "dictionary_id_shape_valid v prefix \<longleftrightarrow> starts_with v prefix \<and> length (drop (length prefix) v) = 32
     \<and> list_all (\<lambda>c. c \<in> set ''0123456789abcdef'') (drop (length prefix) v)"

definition dictionary_sidecars :: "string \<Rightarrow> listing \<Rightarrow> string list result" where
  "dictionary_sidecars name listing =
     (case listing of
        ListingDenied \<Rightarrow> Inl (VaultError VAULT_ACCESS_DENIED ''TARGET_STAT_DENIED'')
      | ListingFailed \<Rightarrow> Inl (VaultError VAULT_UNAVAILABLE ''TARGET_STAT_FAILED'')
      | Listed names \<Rightarrow> Inr (filter (\<lambda>n. n \<in> set (map (\<lambda>suffix. name @ suffix) DICTIONARY_SIDECAR_SUFFIXES)) (sort names)))"

definition connect_dictionary_readonly :: "dictionary_open \<Rightarrow> dictionary result" where
  "connect_dictionary_readonly opening =
     (case opening of
        OpenDenied \<Rightarrow> Inl (VaultError VAULT_ACCESS_DENIED ''OPEN_DENIED'')
      | OpenFailed \<Rightarrow> Inl (VaultError VAULT_UNAVAILABLE ''OPEN_FAILED'')
      | DatabaseUnreadable \<Rightarrow> Inl (VaultError VAULT_CORRUPT ''DATABASE_UNREADABLE'')
      | Opened d \<Rightarrow> Inr d)"

definition read_dictionary_identity :: "dictionary \<Rightarrow> (string \<times> string \<times> string \<times> string \<times> string) result" where
  "read_dictionary_identity d =
     bindE (guardE (di_quick_check d) (VaultError VAULT_CORRUPT ''QUICK_CHECK_FAILED'')) (\<lambda>_.
     bindE (guardE (\<not> di_foreign_violations d) (VaultError VAULT_CORRUPT ''FOREIGN_KEY_CHECK_FAILED'')) (\<lambda>_.
       case di_meta d of
         None \<Rightarrow> Inl (VaultError VAULT_CORRUPT ''META_MISSING'')
       | Some (version, vault_id) \<Rightarrow>
           bindE (guardE (dictionary_id_shape_valid vault_id VAULT_ID_PREFIX) (VaultError VAULT_CORRUPT ''VAULT_ID_MALFORMED'')) (\<lambda>_.
           bindE (guardE (version = VAULT_SCHEMA_VERSION) (VaultError VAULT_SCHEMA_UNSUPPORTED ''SCHEMA_VERSION_UNSUPPORTED'')) (\<lambda>_.
             case di_dataset d of
               None \<Rightarrow> Inl (VaultError VAULT_CORRUPT ''DATASET_MISSING'')
             | Some (source, policy, relationship) \<Rightarrow> Inr (vault_id, version, source, policy, relationship)))))"

definition incompatible_dictionary_identity :: "string \<times> string \<times> string \<Rightarrow> string option \<Rightarrow> string option \<Rightarrow> string option \<Rightarrow> string option" where
  "incompatible_dictionary_identity fingerprints source policy relationship =
     map_option fst (find (\<lambda>(detail, expected, actual). expected \<noteq> None \<and> expected \<noteq> Some actual)
       [(''SOURCE_FINGERPRINT'', source, fst fingerprints), (''POLICY_FINGERPRINT'', policy, fst (snd fingerprints)),
        (''RELATIONSHIP_FINGERPRINT'', relationship, snd (snd fingerprints))])"

definition validate_dictionary_identity_readonly ::
    "string \<Rightarrow> vault_file \<Rightarrow> string option \<Rightarrow> string option \<Rightarrow> string option \<Rightarrow> unit result" where
  "validate_dictionary_identity_readonly name file source policy relationship =
     bindE (dictionary_sidecars name (vf_siblings file)) (\<lambda>sidecars.
     bindE (guardE (sidecars = []) (VaultError VAULT_STATE_INVALID ''SIDECAR_STATE_AMBIGUOUS'')) (\<lambda>_.
     bindE (connect_dictionary_readonly (vf_open file)) (\<lambda>d.
     bindE (read_dictionary_identity d) (\<lambda>(vault_id, version, fingerprints).
       case incompatible_dictionary_identity fingerprints source policy relationship of
         None \<Rightarrow> Inr ()
       | Some detail \<Rightarrow> Inl (VaultError VAULT_IDENTITY_MISMATCH detail)))))"

text \<open>Only vault and operating system errors mean that the file cannot be reused.\<close>

definition existing_vault_reusable :: "string \<Rightarrow> vault_file \<Rightarrow> plan \<Rightarrow> bool result" where
  "existing_vault_reusable name file p =
     (case validate_dictionary_identity_readonly name file (Some (da_source_fingerprint (pl_dataset p)))
             (Some (ps_fingerprint (pl_policy p))) (Some (md_fingerprint (pl_relationships p))) of
        Inr u \<Rightarrow> Inr True
      | Inl (VaultError c d) \<Rightarrow> Inr False
      | Inl e \<Rightarrow> if e = OSError then Inr False else Inl e)"

section \<open>The checks\<close>

fun check_tables :: "callbacks \<Rightarrow> table_plan list \<Rightarrow> preflight_findings \<Rightarrow> preflight_findings ctl" where
  "check_tables cb [] f = returnS f"
| "check_tables cb (t # ts) f =
     bindS (check_cancel cb) (\<lambda>_.
     bindS (bump cb ''TABLE_EVALUATION'' (Some (tp_path t))) (\<lambda>_.
       check_tables cb ts
         (note_error_if (tp_structural_cdx t \<and> \<not> tp_cdx_present t) ''MISSING_STRUCTURAL_INDEX''
         (note_error_if (tp_memo_required t \<and> \<not> tp_memo_present t) ''MISSING_MEMO_COMPANION''
         (note_error_if (0 < tp_unsafe t) ''UNSAFE_FIELD''
         (note_error_if (0 < tp_unsupported t) ''UNSUPPORTED_FIELD'' f))))))"

definition SUPPORTED_CLASSES :: "string list" where
  "SUPPORTED_CLASSES = [ACTION_TEXT, ACTION_MEMO, ACTION_TEMPORAL]"

definition policy_inconsistent :: "plan \<Rightarrow> bool" where
  "policy_inconsistent p =
     (let ps = pl_policy p
      in ps_schema_version ps \<noteq> ''1''
         \<or> list_ex (\<lambda>c. c \<notin> set SUPPORTED_CLASSES) (ps_classes ps)
         \<or> ps_recovery_enabled ps \<noteq> (ps_classes ps \<noteq> [])
         \<or> ps_vault_strategy ps \<noteq> (if ps_recovery_enabled ps then SINGLE_DATASET_SQLITE else NO_VAULT)
         \<or> ps_relationship_count ps \<noteq> md_relation_count (pl_relationships p)
         \<or> list_ex (\<lambda>t. tp_index_strategy t \<notin> {''DATA_ONLY'', ''VFP_INDEXED''}
              \<or> (pl_profile p = DATA_ONLY \<and> tp_index_strategy t = ''VFP_INDEXED'')) (pl_tables p))"

definition check_policy_consistency :: "plan \<Rightarrow> preflight_findings \<Rightarrow> preflight_findings" where
  "check_policy_consistency p f = note_error_if (policy_inconsistent p) ''POLICY_INCONSISTENT'' f"

record backend_capability =
  bc_structural :: bool
  bc_standalone :: bool
  bc_verification :: bool
  bc_runtime :: bool

definition check_output_profile :: "plan \<Rightarrow> capabilities \<Rightarrow> backend_capability option \<Rightarrow> preflight_findings \<Rightarrow> preflight_findings" where
  "check_output_profile p caps backend f0 =
     (let f = note_error_if (\<not> ca_direct_read caps \<or> \<not> ca_direct_write caps) ''CAPABILITY_MISSING'' f0
      in case pl_profile p of
           DATA_ONLY \<Rightarrow> note_check ''DATA_ONLY_STANDALONE'' f
         | VFP_INDEXED \<Rightarrow>
             (case backend of
                None \<Rightarrow> note_error ''CAPABILITY_MISSING'' f
              | Some b \<Rightarrow>
                  note_error_if (\<not> bc_verification b \<or> \<not> bc_runtime b
                    \<or> (list_ex tp_structural_cdx (pl_tables p) \<and> \<not> bc_structural b)
                    \<or> (da_standalone_idx (pl_dataset p) \<noteq> [] \<and> \<not> bc_standalone b)) ''CAPABILITY_MISSING'' f))"

definition member_rebound :: "bindings \<Rightarrow> relation_group \<Rightarrow> relation_member \<Rightarrow> bool" where
  "member_rebound bound g m =
     (case bound (rm_table_path m, rm_field_name m) of
        None \<Rightarrow> False
      | Some (ty, len, encoding, decimals, autoincrement, nullable) \<Rightarrow>
          rm_dbf_type m = ty \<and> rm_byte_width m = len
          \<and> \<not> (is_numeric_member m \<and> rg_numeric_strategy g = REVERSIBLE_BIJECTIVE
               \<and> ((rm_dbf_type m = ''N'' \<and> decimals \<noteq> 0) \<or> autoincrement)))"

definition check_relationships ::
    "codec \<Rightarrow> (string \<Rightarrow> string) \<Rightarrow> plan \<Rightarrow> execution_context \<Rightarrow> preflight_findings \<Rightarrow> preflight_findings result" where
  "check_relationships codec domain_id p xc f =
     (case xc_document xc of
        None \<Rightarrow> Inr (note_error_if (0 < md_relation_count (pl_relationships p)) ''RELATIONSHIP_DOMAIN_UNVERIFIED'' f)
      | Some doc \<Rightarrow>
          (case validate_document_compatibility codec domain_id doc of
             Inl (PolicyError c d) \<Rightarrow> Inr (note_error ''RELATIONSHIP_DOMAIN_UNVERIFIED'' f)
           | Inl e \<Rightarrow> Inl e
           | Inr u \<Rightarrow>
               Inr (case xc_bindings xc of
                      None \<Rightarrow> f
                    | Some bound \<Rightarrow>
                        note_error_if (list_ex (\<lambda>g. list_ex (\<lambda>m. \<not> member_rebound bound g m) (rg_members g)) (rd_groups doc))
                          ''RELATIONSHIP_DOMAIN_UNVERIFIED'' f)))"

definition check_index_conditions :: "plan \<Rightarrow> preflight_findings \<Rightarrow> preflight_findings" where
  "check_index_conditions p f =
     (if pl_profile p \<noteq> DATA_ONLY then f
      else fold (\<lambda>t f.
             let f1 = (if tp_structural_cdx t \<and> tp_cdx_present t then note_warning ''STRUCTURAL_CDX_DATA_ONLY'' f else f)
             in if tp_dbc_bound t then note_warning ''DBC_BOUND_REDUCED'' f1 else f1) (pl_tables p) f)"

definition check_standalone_idx :: "string list option \<Rightarrow> plan \<Rightarrow> preflight_findings \<Rightarrow> preflight_findings" where
  "check_standalone_idx files p f =
     (case files of
        None \<Rightarrow> f
      | Some names \<Rightarrow>
          if pl_profile p = DATA_ONLY \<and> list_ex (\<lambda>rel. ends_with (map lower_char rel) ''.idx'') names
          then note_warning ''STANDALONE_IDX_DATA_ONLY'' f else f)"

section \<open>Storage\<close>

definition STAGING_FACTOR :: int where "STAGING_FACTOR = 2"
definition WRITER_SPOOL_RESERVE_BYTES :: int where "WRITER_SPOOL_RESERVE_BYTES = 16 * 1024 * 1024"
definition VAULT_SOURCE_FACTOR :: int where "VAULT_SOURCE_FACTOR = 2"
definition VAULT_FIXED_RESERVE_BYTES :: int where "VAULT_FIXED_RESERVE_BYTES = 32 * 1024 * 1024"

definition vault_reserve_bytes :: "int \<Rightarrow> int" where
  "vault_reserve_bytes footprint = VAULT_SOURCE_FACTOR * max 0 footprint + VAULT_FIXED_RESERVE_BYTES"

definition source_footprint_bytes :: "source_tree \<Rightarrow> string list option \<Rightarrow> int option result" where
  "source_footprint_bytes so files =
     (case files of
        None \<Rightarrow> Inr None
      | Some names \<Rightarrow>
          bindE (os_answer (mapE (so_size so) (filter (\<lambda>rel. list_ex (ends_with (map lower_char rel)) [''.dbf'', ''.fpt'']) (sort names)))) (\<lambda>sizes.
            Inr (map_option sum_list sizes)))"

definition disk_free :: "host \<Rightarrow> path \<Rightarrow> int option result" where
  "disk_free ho p =
     (case bindE (nearest_existing_ancestor ho p) (ho_disk_free ho) of
        Inr n \<Rightarrow> Inr (Some n)
      | Inl e \<Rightarrow> if e = OSError \<or> e = ValueError then Inr None else Inl e)"

definition same_device :: "host \<Rightarrow> path \<Rightarrow> path \<Rightarrow> bool option result" where
  "same_device ho output vault =
     os_answer
       (bindE (bindE (nearest_existing_ancestor ho output) (ho_device ho)) (\<lambda>a.
        bindE (bindE (nearest_existing_ancestor ho vault) (ho_device ho)) (\<lambda>b. Inr (a = b))))"

definition storage_ok :: "host \<Rightarrow> source_tree \<Rightarrow> string list option \<Rightarrow> path \<Rightarrow> path \<Rightarrow> bool \<Rightarrow> bool option result" where
  "storage_ok ho so files output vault recovery_enabled =
     bindE (source_footprint_bytes so files) (\<lambda>footprint.
       case footprint of
         None \<Rightarrow> Inr None
       | Some n \<Rightarrow>
           (let required_output = n * STAGING_FACTOR + WRITER_SPOOL_RESERVE_BYTES;
                required_vault = (if recovery_enabled then vault_reserve_bytes n else 0)
            in bindE (disk_free ho output) (\<lambda>x. case x of None \<Rightarrow> Inr None | Some out_free \<Rightarrow>
               bindE (disk_free ho vault) (\<lambda>y. case y of None \<Rightarrow> Inr None | Some vault_free \<Rightarrow>
               bindE (same_device ho output vault) (\<lambda>z. case z of None \<Rightarrow> Inr None | Some same \<Rightarrow>
                 Inr (Some (if same then required_output + required_vault \<le> out_free
                            else required_output \<le> out_free \<and> required_vault \<le> vault_free)))))))"

section \<open>The evaluation\<close>

record environment =
  nv_host :: host
  nv_source :: source_tree
  nv_vault :: vault_file
  nv_capabilities :: capabilities
  nv_sha :: "bytes \<Rightarrow> string"
  nv_digest :: "fingerprint_entry list \<Rightarrow> string"
  nv_codec :: codec
  nv_other :: "json \<Rightarrow> string"
  nv_domain_id :: "string \<Rightarrow> string"
  nv_reader :: capacity_reader

definition try_os :: "'a ctl \<Rightarrow> 'a option ctl" where
  "try_os m s =
     (case m s of
        (Inr x, s') \<Rightarrow> (Inr (Some x), s')
      | (Inl e, s') \<Rightarrow> (if e = OSError then Inr None else Inl e, s'))"

definition recompute_source_fingerprint :: "callbacks \<Rightarrow> environment \<Rightarrow> string option ctl" where
  "recompute_source_fingerprint cb nv =
     bindS (try_os (collect_fingerprint_entries cb (nv_sha nv) True (nv_source nv) ''SOURCE_VERIFICATION'')) (\<lambda>entries.
       returnS (map_option (nv_digest nv) entries))"

definition verify_source :: "callbacks \<Rightarrow> environment \<Rightarrow> plan \<Rightarrow> preflight_findings \<Rightarrow> (string list option \<times> bool \<times> preflight_findings) ctl" where
  "verify_source cb nv p f =
     bindS (start_phase cb ''SOURCE_VERIFICATION'' None) (\<lambda>_.
       if probe_path (so_root (nv_source nv)) \<noteq> Inr PATH_DIRECTORY then returnS (None, False, note_error ''SOURCE_UNAVAILABLE'' f)
       else bindS (try_os (enumerate_in_scope_paths cb True (nv_source nv))) (\<lambda>files.
         if files = None then returnS (None, False, note_error ''SOURCE_UNAVAILABLE'' f)
         else bindS (recompute_source_fingerprint cb nv) (\<lambda>fingerprint.
           returnS (if fingerprint = None then (files, False, note_error ''SOURCE_UNAVAILABLE'' f)
                    else if fingerprint \<noteq> Some (da_source_fingerprint (pl_dataset p)) then (files, False, note_error ''SOURCE_FINGERPRINT_MISMATCH'' f)
                    else (files, True, f)))))"

definition overlap_findings :: "host \<Rightarrow> execution_context \<Rightarrow> preflight_findings \<Rightarrow> preflight_findings result" where
  "overlap_findings ho xc f =
     bindE (os_answer (paths_overlap ho (xc_source_root xc) (xc_output_root xc) (xc_vault_path xc))) (\<lambda>overlap.
       Inr (case overlap of None \<Rightarrow> note_error ''PATH_INSPECTION_UNAVAILABLE'' f | Some b \<Rightarrow> note_error_if b ''PATH_OVERLAP'' f))"

definition destination_findings :: "host \<Rightarrow> execution_context \<Rightarrow> preflight_findings \<Rightarrow> preflight_findings result" where
  "destination_findings ho xc f =
     bindE (os_answer (destination_conflict ho (xc_output_root xc) (xc_vault_path xc))) (\<lambda>conflict.
       Inr (case conflict of None \<Rightarrow> note_error ''PATH_INSPECTION_UNAVAILABLE'' f | Some b \<Rightarrow> note_error_if b ''DESTINATION_CONFLICT'' f))"

definition vault_findings :: "host \<Rightarrow> vault_file \<Rightarrow> plan \<Rightarrow> execution_context \<Rightarrow> preflight_findings \<Rightarrow> preflight_findings result" where
  "vault_findings ho file p xc f =
     (if probe_path (ho_stat ho (xc_vault_path xc)) = Inr PATH_FILE then
        bindE (existing_vault_reusable (if xc_vault_path xc = [] then [] else last (xc_vault_path xc)) file p) (\<lambda>reusable.
          Inr (note_error_if (\<not> reusable) ''VAULT_REUSE_INCOMPATIBLE'' f))
      else Inr f)"

definition note_capacity :: "capacity \<Rightarrow> preflight_findings \<Rightarrow> preflight_findings" where
  "note_capacity c f =
     (case c of CAPACITY_OK \<Rightarrow> f
      | CAPACITY_INSUFFICIENT \<Rightarrow> note_error ''PSEUDONYM_CAPACITY_INSUFFICIENT'' f
      | CAPACITY_UNPROVEN \<Rightarrow> note_error ''PSEUDONYM_CAPACITY_UNPROVEN'' f)"

definition capacity_findings ::
    "callbacks \<Rightarrow> environment \<Rightarrow> plan \<Rightarrow> execution_context \<Rightarrow> string list option \<Rightarrow> bool \<Rightarrow> preflight_findings \<Rightarrow> preflight_findings ctl" where
  "capacity_findings cb nv p xc files verified f =
     (if verified \<and> files \<noteq> None \<and> ca_direct_read (nv_capabilities nv) \<and> ACTION_TEXT \<in> set (ps_classes (pl_policy p)) then
        bindS (capacity_sufficient cb (nv_codec nv) (nv_other nv) (ps_classes (pl_policy p)) (xc_policy xc) (nv_reader nv) (the files)) (\<lambda>outcome.
        bindS (numeric_relation_capacity cb (xc_document xc) (xc_bindings xc) (nv_reader nv) (the files)) (\<lambda>(numeric_outcome, unwritable).
          returnS (note_capacity numeric_outcome (note_error_if unwritable ''NUMERIC_KEY_RECOVERY_UNWRITABLE'' (note_capacity outcome f)))))
      else returnS f)"

definition storage_findings :: "environment \<Rightarrow> plan \<Rightarrow> execution_context \<Rightarrow> string list option \<Rightarrow> preflight_findings \<Rightarrow> preflight_findings result" where
  "storage_findings nv p xc files f =
     bindE (storage_ok (nv_host nv) (nv_source nv) files (xc_output_root xc) (xc_vault_path xc) (ps_recovery_enabled (pl_policy p))) (\<lambda>storage.
       Inr (case storage of None \<Rightarrow> note_error ''STORAGE_ESTIMATE_UNAVAILABLE'' f | Some b \<Rightarrow> note_error_if (\<not> b) ''STORAGE_SPACE_INSUFFICIENT'' f))"

text \<open>A check between two polls.\<close>

definition polled :: "callbacks \<Rightarrow> preflight_findings result \<Rightarrow> preflight_findings ctl" where
  "polled cb r = bindS (check_cancel cb) (\<lambda>_. liftS r)"

definition evaluate_plan_readonly ::
    "callbacks \<Rightarrow> environment \<Rightarrow> plan \<Rightarrow> backend_capability option \<Rightarrow> preflight_result ctl" where
  "evaluate_plan_readonly cb nv p backend =
     (case pl_context p of
        None \<Rightarrow> liftS (findings_result p (nv_capabilities nv) (note_error ''SOURCE_FINGERPRINT_MISMATCH'' no_preflight_findings))
      | Some xc \<Rightarrow>
          bindS (polled cb (overlap_findings (nv_host nv) xc no_preflight_findings)) (\<lambda>f1.
          bindS (verify_source cb nv p f1) (\<lambda>(files, verified, f2).
          bindS (polled cb (destination_findings (nv_host nv) xc f2)) (\<lambda>f3.
          bindS (polled cb (vault_findings (nv_host nv) (nv_vault nv) p xc f3)) (\<lambda>f4.
          bindS (start_phase cb ''TABLE_EVALUATION'' (Some (int (length (pl_tables p))))) (\<lambda>_.
          bindS (check_tables cb (pl_tables p) f4) (\<lambda>f5.
          bindS (polled cb (Inr (check_policy_consistency p f5))) (\<lambda>f6.
          bindS (polled cb (Inr (check_output_profile p (nv_capabilities nv) backend f6))) (\<lambda>f7.
          bindS (polled cb (check_relationships (nv_codec nv) (nv_domain_id nv) p xc f7)) (\<lambda>f8.
          bindS (polled cb (Inr (check_index_conditions p f8))) (\<lambda>f9.
          bindS (polled cb (Inr (check_standalone_idx files p f9))) (\<lambda>f10.
          bindS (check_cancel cb) (\<lambda>_.
          bindS (capacity_findings cb nv p xc files verified f10) (\<lambda>f11.
          bindS (polled cb (storage_findings nv p xc files f11)) (\<lambda>f12.
            liftS (findings_result p (nv_capabilities nv) f12))))))))))))))))"

definition preflight :: "callbacks \<Rightarrow> environment \<Rightarrow> plan \<Rightarrow> backend_capability option \<Rightarrow> preflight_result ctl" where
  "preflight cb nv p backend =
     bindS (start_phase cb ''OPERATION'' None) (\<lambda>_.
     bindS (evaluate_plan_readonly cb nv p (if pl_profile p = VFP_INDEXED then backend else None)) (\<lambda>r.
     bindS (complete cb (int (length (pl_tables p))) True) (\<lambda>_. returnS r)))"

section \<open>The callbacks do not matter\<close>

lemma transparent_try [transparency]:
  assumes "transparent m"
  shows "transparent (\<lambda>cb. try_os (m cb))"
proof (rule transparentI)
  fix cb s r s' t
  assume run: "try_os (m cb) s = (r, s')" and ord: "ordinary r"
  obtain r1 s1 where r1: "m cb s = (r1, s1)" by (cases "m cb s")
  obtain r2 s2 where r2: "m silent t = (r2, s2)" by (cases "m silent t")
  have s: "s' = s1" using run r1 by (auto simp: try_os_def split: sum.splits)
  have "ordinary r1" using run r1 ord by (auto simp: try_os_def ordinary_def split: sum.splits if_splits)
  then have "granted cb s s1" "r2 = r1" using transparentD(1) [OF assms r1] transparentD(2) [OF assms r1, of t] r2 by auto
  then show "granted cb s s' \<and> fst (try_os (m silent) t) = r"
    using run r1 r2 s by (auto simp: try_os_def split: sum.splits)
qed

lemma transparent_polled [transparency]: "transparent (\<lambda>cb. polled cb r)"
  unfolding polled_def by (intro transparency)

lemma transparent_check_tables [transparency]: "transparent (\<lambda>cb. check_tables cb ts f)"
proof (induction ts arbitrary: f)
  case (Cons t ts)
  show ?case unfolding check_tables.simps by (intro transparency Cons)
qed (simp add: transparency)

lemma transparent_verify_source [transparency]: "transparent (\<lambda>cb. verify_source cb nv p f)"
  unfolding verify_source_def recompute_source_fingerprint_def by (intro transparency)

lemma transparent_capacity_findings [transparency]: "transparent (\<lambda>cb. capacity_findings cb nv p xc files verified f)"
  unfolding capacity_findings_def case_prod_unfold by (intro transparency)

lemma transparent_evaluate [transparency]: "transparent (\<lambda>cb. evaluate_plan_readonly cb nv p backend)"
  unfolding evaluate_plan_readonly_def case_prod_unfold by (intro transparency transparent_option)

lemma transparent_preflight: "transparent (\<lambda>cb. preflight cb nv p backend)"
  unfolding preflight_def by (intro transparency)

section \<open>What a ready plan has passed\<close>

abbreviation clean :: "preflight_findings \<Rightarrow> bool" where "clean f \<equiv> fi_errors f = []"

lemma clean_note [simp]:
  "\<not> clean (note_error c f)" "clean (note_warning c f) = clean f" "clean (note_check c f) = clean f"
  "clean (note_error_if b c f) \<longleftrightarrow> \<not> b \<and> clean f"
  by (auto simp: note_error_def note_warning_def note_check_def note_error_if_def List.insert_def)

lemma clean_note_capacity [simp]: "clean (note_capacity c f) \<longleftrightarrow> c = CAPACITY_OK \<and> clean f"
  by (cases c) (simp_all add: note_capacity_def)

lemma polled_InrE:
  assumes "bindS (polled cb r) g s = (Inr x, s')"
  obtains f t where "r = Inr f" "g f t = (Inr x, s')"
  using assms by (auto simp: polled_def liftS_def elim!: bindS_InrE)

lemma bindS_tripleE:
  assumes "bindS m (\<lambda>(a, b, c). g a b c) s = (Inr x, s')"
  obtains a b c t where "m s = (Inr (a, b, c), t)" "g a b c t = (Inr x, s')"
  using assms by (auto elim!: bindS_InrE)

lemma liftS_InrD: "liftS r s = (Inr x, s') \<Longrightarrow> r = Inr x"
  by (simp add: liftS_def)

lemma clean_index: "clean (check_index_conditions p f) = clean f"
proof -
  have "clean (fold (\<lambda>t f. let f1 = (if tp_structural_cdx t \<and> tp_cdx_present t then note_warning ''STRUCTURAL_CDX_DATA_ONLY'' f else f)
      in if tp_dbc_bound t then note_warning ''DBC_BOUND_REDUCED'' f1 else f1) ts f) = clean f" for ts
    by (induction ts arbitrary: f) (simp_all add: Let_def)
  from this [of "pl_tables p"] show ?thesis unfolding check_index_conditions_def by (auto simp only: split: if_split)
qed

lemma clean_standalone: "clean (check_standalone_idx files p f) = clean f"
  by (cases files) (simp_all add: check_standalone_idx_def)

lemma clean_profile: "clean (check_output_profile p caps backend f) \<Longrightarrow> clean f \<and> ca_direct_read caps \<and> ca_direct_write caps"
  by (auto simp: check_output_profile_def Let_def split: transfer_profile.splits option.splits)

lemma clean_tables:
  "check_tables cb ts f s = (Inr f', s') \<Longrightarrow> clean f' \<Longrightarrow>
    clean f \<and> (\<forall>t\<in>set ts. tp_unsupported t \<le> 0 \<and> tp_unsafe t \<le> 0 \<and> (tp_memo_required t \<longrightarrow> tp_memo_present t)
      \<and> (tp_structural_cdx t \<longrightarrow> tp_cdx_present t))"
proof (induction ts arbitrary: f s)
  case (Cons t ts)
  let ?f1 = "note_error_if (tp_structural_cdx t \<and> \<not> tp_cdx_present t) ''MISSING_STRUCTURAL_INDEX''
         (note_error_if (tp_memo_required t \<and> \<not> tp_memo_present t) ''MISSING_MEMO_COMPANION''
         (note_error_if (0 < tp_unsafe t) ''UNSAFE_FIELD''
         (note_error_if (0 < tp_unsupported t) ''UNSUPPORTED_FIELD'' f)))"
  obtain s1 where "check_tables cb ts ?f1 s1 = (Inr f', s')"
    using Cons.prems(1) unfolding check_tables.simps by (elim bindS_InrE)
  note ih = Cons.IH [OF this Cons.prems(2)]
  from conjunct1 [OF ih] have "clean f" "\<not> 0 < tp_unsupported t" "\<not> 0 < tp_unsafe t"
    "tp_memo_required t \<longrightarrow> tp_memo_present t" "tp_structural_cdx t \<longrightarrow> tp_cdx_present t"
    by (simp_all only: clean_note, simp_all)
  with conjunct2 [OF ih] show ?case unfolding not_less by simp
qed (simp add: returnS_def)

lemma clean_relationships:
  assumes "check_relationships codec domain_id p xc f = Inr f'" and "clean f'"
  shows "clean f" and "\<forall>doc\<in>set_option (xc_document xc). validate_document_compatibility codec domain_id doc = Inr ()
    \<and> (\<forall>bound\<in>set_option (xc_bindings xc). \<forall>g\<in>set (rd_groups doc). \<forall>m\<in>set (rg_members g). member_rebound bound g m)"
  using assms by (auto simp: check_relationships_def list_ex_iff split: option.splits sum.splits error.splits)

lemma clean_verify:
  assumes "verify_source cb nv p f s = (Inr (files, verified, f'), s')" and "clean f'"
  obtains names s1 s2 entries s3 s4 where "files = Some names" "verified" "clean f"
    "enumerate_in_scope_paths cb True (nv_source nv) s1 = (Inr names, s2)"
    "collect_fingerprint_entries cb (nv_sha nv) True (nv_source nv) ''SOURCE_VERIFICATION'' s3 = (Inr entries, s4)"
    "nv_digest nv entries = da_source_fingerprint (pl_dataset p)"
proof -
  obtain s1 names s2 fingerprint s3 s4 where v: "try_os (enumerate_in_scope_paths cb True (nv_source nv)) s1 = (Inr (Some names), s2)"
    "recompute_source_fingerprint cb nv s3 = (Inr (Some fingerprint), s4)" "fingerprint = da_source_fingerprint (pl_dataset p)"
    "files = Some names" "verified" "clean f"
    using assms unfolding verify_source_def by (auto simp: returnS_def elim!: bindS_InrE split: if_splits)
  have "enumerate_in_scope_paths cb True (nv_source nv) s1 = (Inr names, s2)"
    using v(1) by (auto simp: try_os_def split: prod.splits sum.splits if_splits)
  moreover obtain entries s5 where "collect_fingerprint_entries cb (nv_sha nv) True (nv_source nv) ''SOURCE_VERIFICATION'' s3 = (Inr entries, s5)"
    "nv_digest nv entries = fingerprint"
    using v(2) unfolding recompute_source_fingerprint_def
    by (auto simp: returnS_def try_os_def elim!: bindS_InrE split: prod.splits sum.splits if_splits)
  ultimately show ?thesis using that v by blast
qed

lemma clean_capacity:
  assumes "capacity_findings cb nv p xc (Some names) True f s = (Inr f', s')" and "clean f'" and "ca_direct_read (nv_capabilities nv)"
    and "ACTION_TEXT \<in> set (ps_classes (pl_policy p))"
  obtains s1 s2 where "clean f"
    "capacity_sufficient cb (nv_codec nv) (nv_other nv) (ps_classes (pl_policy p)) (xc_policy xc) (nv_reader nv) names s = (Inr CAPACITY_OK, s1)"
    "numeric_relation_capacity cb (xc_document xc) (xc_bindings xc) (nv_reader nv) names s1 = (Inr (CAPACITY_OK, False), s2)"
  using assms unfolding capacity_findings_def by (auto simp: returnS_def elim!: bindS_InrE)

lemma clean_capacity_before: "capacity_findings cb nv p xc files verified f s = (Inr f', s') \<Longrightarrow> clean f' \<Longrightarrow> clean f"
  unfolding capacity_findings_def by (auto simp: returnS_def elim!: bindS_InrE split: if_splits)

definition storage_proved :: "environment \<Rightarrow> plan \<Rightarrow> execution_context \<Rightarrow> string list \<Rightarrow> bool" where
  "storage_proved nv p xc names \<longleftrightarrow>
     storage_ok (nv_host nv) (nv_source nv) (Some names) (xc_output_root xc) (xc_vault_path xc) (ps_recovery_enabled (pl_policy p)) = Inr (Some True)"

definition places_free :: "environment \<Rightarrow> plan \<Rightarrow> execution_context \<Rightarrow> bool" where
  "places_free nv p xc \<longleftrightarrow>
     paths_overlap (nv_host nv) (xc_source_root xc) (xc_output_root xc) (xc_vault_path xc) = Inr False
   \<and> destination_conflict (nv_host nv) (xc_output_root xc) (xc_vault_path xc) = Inr False
   \<and> (probe_path (ho_stat (nv_host nv) (xc_vault_path xc)) = Inr PATH_FILE \<longrightarrow>
        existing_vault_reusable (if xc_vault_path xc = [] then [] else last (xc_vault_path xc)) (nv_vault nv) p = Inr True)"

lemma os_answer_Some: "os_answer r = Inr (Some x) \<longleftrightarrow> r = Inr x"
  by (cases r) (auto simp: os_answer_def)

lemma clean_vault:
  assumes "vault_findings ho file p xc f = Inr f'" and "clean f'"
  shows "clean f" and "probe_path (ho_stat ho (xc_vault_path xc)) = Inr PATH_FILE \<Longrightarrow>
    existing_vault_reusable (if xc_vault_path xc = [] then [] else last (xc_vault_path xc)) file p = Inr True"
proof -
  let ?r = "existing_vault_reusable (if xc_vault_path xc = [] then [] else last (xc_vault_path xc)) file p"
  have "clean f \<and> (probe_path (ho_stat ho (xc_vault_path xc)) = Inr PATH_FILE \<longrightarrow> ?r = Inr True)"
  proof (cases "probe_path (ho_stat ho (xc_vault_path xc)) = Inr PATH_FILE")
    case True
    then have "bindE ?r (\<lambda>b. Inr (note_error_if (\<not> b) ''VAULT_REUSE_INCOMPATIBLE'' f)) = Inr f'"
      using assms(1) unfolding vault_findings_def by simp
    then show ?thesis using assms(2) by (cases ?r) (simp_all only: bindE_simps sum.inject sum.distinct, clarsimp)
  qed (use assms in \<open>simp add: vault_findings_def\<close>)
  then show "clean f" "probe_path (ho_stat ho (xc_vault_path xc)) = Inr PATH_FILE \<Longrightarrow> ?r = Inr True" by blast+
qed

lemma clean_destination:
  assumes "destination_findings ho xc f = Inr f'" and "clean f'"
  shows "clean f" and "destination_conflict ho (xc_output_root xc) (xc_vault_path xc) = Inr False"
proof -
  obtain x where x: "os_answer (destination_conflict ho (xc_output_root xc) (xc_vault_path xc)) = Inr x"
    "f' = (case x of None \<Rightarrow> note_error ''PATH_INSPECTION_UNAVAILABLE'' f | Some b \<Rightarrow> note_error_if b ''DESTINATION_CONFLICT'' f)"
    using assms(1) unfolding destination_findings_def bindE_Inr_iff by force
  have "x = Some False \<and> clean f" using assms(2) unfolding x(2) by (cases x) simp_all
  then show "clean f" "destination_conflict ho (xc_output_root xc) (xc_vault_path xc) = Inr False"
    using x(1) os_answer_Some by fastforce+
qed

lemma clean_overlap:
  assumes "overlap_findings ho xc f = Inr f'" and "clean f'"
  shows "paths_overlap ho (xc_source_root xc) (xc_output_root xc) (xc_vault_path xc) = Inr False"
proof -
  obtain x where x: "os_answer (paths_overlap ho (xc_source_root xc) (xc_output_root xc) (xc_vault_path xc)) = Inr x"
    "f' = (case x of None \<Rightarrow> note_error ''PATH_INSPECTION_UNAVAILABLE'' f | Some b \<Rightarrow> note_error_if b ''PATH_OVERLAP'' f)"
    using assms(1) unfolding overlap_findings_def bindE_Inr_iff by force
  have "x = Some False" using assms(2) unfolding x(2) by (cases x) simp_all
  then show ?thesis using x(1) os_answer_Some by fastforce
qed

lemma evaluate_steps:
  assumes "evaluate_plan_readonly cb nv p backend s = (Inr r, s')" and "pr_ready r"
  obtains xc names f f' s1 s2 s3 s4 s5 entries s6 where "pl_context p = Some xc" "places_free nv p xc"
    "enumerate_in_scope_paths cb True (nv_source nv) s1 = (Inr names, s2)"
    "collect_fingerprint_entries cb (nv_sha nv) True (nv_source nv) ''SOURCE_VERIFICATION'' s3 = (Inr entries, s4)"
    "nv_digest nv entries = da_source_fingerprint (pl_dataset p)"
    "\<forall>t\<in>set (pl_tables p). tp_unsupported t \<le> 0 \<and> tp_unsafe t \<le> 0 \<and> (tp_memo_required t \<longrightarrow> tp_memo_present t)
      \<and> (tp_structural_cdx t \<longrightarrow> tp_cdx_present t)"
    "\<not> policy_inconsistent p" "ca_direct_read (nv_capabilities nv)" "ca_direct_write (nv_capabilities nv)"
    "\<forall>doc\<in>set_option (xc_document xc). validate_document_compatibility (nv_codec nv) (nv_domain_id nv) doc = Inr ()
      \<and> (\<forall>bound\<in>set_option (xc_bindings xc). \<forall>g\<in>set (rd_groups doc). \<forall>m\<in>set (rg_members g). member_rebound bound g m)"
    "capacity_findings cb nv p xc (Some names) True f s5 = (Inr f', s6)" "clean f'" "storage_proved nv p xc names"
proof -
  have ready: "findings_result p (nv_capabilities nv) g = Inr r \<Longrightarrow> clean g" for g
    using assms(2) by (auto simp: findings_result_def check_preflight_result_def Let_def bindE_Inr_iff note_check_def)
  obtain xc where xc: "pl_context p = Some xc"
    using assms(1) ready [of "note_error ''SOURCE_FINGERPRINT_MISMATCH'' no_preflight_findings"]
    by (cases "pl_context p") (auto simp: evaluate_plan_readonly_def liftS_def)
  obtain f1 f2 f3 f4 f5 f6 f7 f8 f9 f10 f11 f12 files verified s1 s2 s3 s4 s5 s6 where
    c1: "overlap_findings (nv_host nv) xc no_preflight_findings = Inr f1" and c2: "verify_source cb nv p f1 s1 = (Inr (files, verified, f2), s2)"
    and c3: "destination_findings (nv_host nv) xc f2 = Inr f3" and c4: "vault_findings (nv_host nv) (nv_vault nv) p xc f3 = Inr f4"
    and c5: "check_tables cb (pl_tables p) f4 s3 = (Inr f5, s4)" and c6: "(Inr (check_policy_consistency p f5) :: preflight_findings result) = Inr f6"
    and c7: "(Inr (check_output_profile p (nv_capabilities nv) backend f6) :: preflight_findings result) = Inr f7"
    and c8: "check_relationships (nv_codec nv) (nv_domain_id nv) p xc f7 = Inr f8" and c9: "(Inr (check_index_conditions p f8) :: preflight_findings result) = Inr f9"
    and c10: "(Inr (check_standalone_idx files p f9) :: preflight_findings result) = Inr f10" and c11: "capacity_findings cb nv p xc files verified f10 s5 = (Inr f11, s6)"
    and c12: "storage_findings nv p xc files f11 = Inr f12" and c13: "findings_result p (nv_capabilities nv) f12 = Inr r"
    using assms(1) unfolding evaluate_plan_readonly_def xc option.case
    by (elim polled_InrE bindS_tripleE bindS_InrE) (drule liftS_InrD, rule that)
  note eqs = c6 [unfolded sum.inject, symmetric] c7 [unfolded sum.inject, symmetric] c9 [unfolded sum.inject, symmetric]
    c10 [unfolded sum.inject, symmetric]
  note k12 = ready [OF c13]
  obtain answer where answer: "storage_ok (nv_host nv) (nv_source nv) files (xc_output_root xc) (xc_vault_path xc)
        (ps_recovery_enabled (pl_policy p)) = Inr answer"
    "f12 = (case answer of None \<Rightarrow> note_error ''STORAGE_ESTIMATE_UNAVAILABLE'' f11 | Some b \<Rightarrow> note_error_if (\<not> b) ''STORAGE_SPACE_INSUFFICIENT'' f11)"
    using c12 unfolding storage_findings_def bindE_Inr_iff by force
  have k11: "clean f11" "answer = Some True" using k12 unfolding answer(2) by (cases answer; simp)+
  have k10: "clean f10" by (rule clean_capacity_before [OF c11 k11(1)])
  have k8: "clean f8" using k10 by (simp add: eqs clean_standalone clean_index)
  have k7: "clean f7" and rel: "\<forall>doc\<in>set_option (xc_document xc). validate_document_compatibility (nv_codec nv) (nv_domain_id nv) doc = Inr ()
      \<and> (\<forall>bound\<in>set_option (xc_bindings xc). \<forall>g\<in>set (rd_groups doc). \<forall>m\<in>set (rg_members g). member_rebound bound g m)"
    using clean_relationships [OF c8 k8] by blast+
  have k6: "clean f6" "ca_direct_read (nv_capabilities nv)" "ca_direct_write (nv_capabilities nv)"
    using clean_profile [of p "nv_capabilities nv" backend f6] k7 eqs(2) by auto
  have k5: "clean f5" "\<not> policy_inconsistent p" using k6(1) by (auto simp: eqs(1) check_policy_consistency_def)
  note k4 = clean_tables [OF c5 k5(1)]
  note k3 = clean_vault [OF c4 conjunct1 [OF k4]]
  note k2 = clean_destination [OF c3 k3(1)]
  obtain names t1 t2 entries t3 t4 where v: "files = Some names" "verified" "clean f1"
    "enumerate_in_scope_paths cb True (nv_source nv) t1 = (Inr names, t2)"
    "collect_fingerprint_entries cb (nv_sha nv) True (nv_source nv) ''SOURCE_VERIFICATION'' t3 = (Inr entries, t4)"
    "nv_digest nv entries = da_source_fingerprint (pl_dataset p)"
    using clean_verify [OF c2 k2(1)] .
  note k1 = clean_overlap [OF c1 v(3)]
  have "storage_proved nv p xc names"
    using answer(1) k11(2) v(1) by (simp add: storage_proved_def)
  moreover have "places_free nv p xc"
    unfolding places_free_def by (intro conjI impI) (rule k1, rule k2(2), rule k3(2))
  moreover have "capacity_findings cb nv p xc (Some names) True f10 s5 = (Inr f11, s6)"
    using c11 v(1,2) by simp
  ultimately show ?thesis using that [OF xc _ v(4-6) conjunct2 [OF k4] k5(2) k6(2,3) rel _ k11(1)] by blast
qed

end
