(* ===== verification/Build_Plan.thy ===== *)
theory Build_Plan
  imports Preflight
begin

text \<open>
  The read-only planning of a run (\<open>build_plan\<close> of \<^verbatim>\<open>src/src/dbf_anonymizer/planning.py\<close>): discovery,
  fingerprint, policy and relationship resolution, the classification of every field, the binding of the
  declared members to the schemas, and the assembled plan. The tree, the schemas and the digests are
  arguments; the schema of a table is the same on both reads of one call.
\<close>

section \<open>Parameters and refusals\<close>

text \<open>\<open>pn_hex\<close> is the hex SHA-256 digest of a text, the other digests include the canonical JSON text.\<close>

record planning =
  pn_source :: source_tree
  pn_read :: "string \<Rightarrow> table_facts result"
  pn_sha :: "bytes \<Rightarrow> string"
  pn_digest :: "fingerprint_entry list \<Rightarrow> string"
  pn_hex :: "string \<Rightarrow> string"
  pn_codec :: codec
  pn_other :: "json \<Rightarrow> string"
  pn_policy_fingerprint :: "dict \<Rightarrow> string result"
  pn_document_fingerprint :: "relationship_document \<Rightarrow> string"

definition plan_path_error :: "error_code \<Rightarrow> string \<Rightarrow> error" where
  "plan_path_error code detail = PathError code detail"

definition relationship_binding_error :: "string \<Rightarrow> error" where
  "relationship_binding_error detail = PolicyError POLICY_INVALID detail"

section \<open>Small decisions\<close>

definition resolve_index_strategy :: "bool \<Rightarrow> transfer_profile \<Rightarrow> string" where
  "resolve_index_strategy structural_cdx profile = (if profile = VFP_INDEXED \<and> structural_cdx then ''VFP_INDEXED'' else ''DATA_ONLY'')"

definition resolve_vault_strategy :: "bool \<Rightarrow> vault_strategy" where
  "resolve_vault_strategy recovery_enabled = (if recovery_enabled then SINGLE_DATASET_SQLITE else NO_VAULT)"

definition default_relationships :: "(string \<Rightarrow> string) \<Rightarrow> relationship_metadata result" where
  "default_relationships hex =
     check_metadata \<lparr>md_schema_version = ''1.1'', md_provenance = ''none'', md_fingerprint = hex ''no-relationships'', md_relation_count = 0,
       md_authoritative = False, md_external_version = None, md_producer = None, md_authority_summary = None\<rparr>"

definition assure_target :: "relationship_metadata \<Rightarrow> assurance_level" where
  "assure_target m = (if md_relation_count m = 0 then INCOMPLETE else if md_authoritative m then DECLARED_RELATIONS_VERIFIED else INCOMPLETE)"

text \<open>\<open>merged.get("indexes", {}).get("profile", "DATA_ONLY")\<close>, and \<open>str\<close> of the schema version.\<close>

definition output_profile_of :: "dict \<Rightarrow> transfer_profile result" where
  "output_profile_of merged =
     (case map_of merged ''indexes'' of
        None \<Rightarrow> Inr DATA_ONLY
      | Some (JObj idx) \<Rightarrow> Inr (if map_of idx ''profile'' = Some (JStr ''VFP_INDEXED'') then VFP_INDEXED else DATA_ONLY)
      | Some v \<Rightarrow> Inl AttributeError)"

definition schema_version_text :: "(json \<Rightarrow> string) \<Rightarrow> dict \<Rightarrow> string" where
  "schema_version_text other merged =
     (case map_of merged ''schema_version'' of
        None \<Rightarrow> ''1''
      | Some (JInt i) \<Rightarrow> map char_of (int_text i)
      | Some v \<Rightarrow> json_str other v)"

section \<open>The identity review\<close>

text \<open>The reviews in the order of their recording, and the identities that have one.\<close>

type_synonym review_state = "numeric_review list \<times> member_site list"

definition record_identity_review :: "string \<Rightarrow> string \<Rightarrow> string \<Rightarrow> review_state \<Rightarrow> review_state result" where
  "record_identity_review table field ty st =
     (case st of (review, reviewed) \<Rightarrow>
        if (table, field) \<in> set reviewed then Inr st
        else if 1024 \<le> length review then Inl (plan_path_error PATH_INVALID ''PUBLIC_NUMERIC_REVIEW_LIMIT_EXCEEDED'')
        else bindE (check_numeric_review \<lparr>nr_table = table, nr_field = field, nr_type = ty, nr_status = ''IDENTITY_PRIVACY_REVIEW_REQUIRED''\<rparr>) (\<lambda>r.
               Inr (review @ [r], (table, field) # reviewed)))"

section \<open>The relationships\<close>

text \<open>Only an effective claim may drive a numeric grouping.\<close>

definition grouping_supported :: "relation_group list \<Rightarrow> relation_group \<Rightarrow> unit result" where
  "grouping_supported effective g =
     (if \<not> reversible g then Inr ()
      else if rg_claim_authority g = Some INFERRED then Inl (relationship_binding_error ''EXTERNAL_METADATA_INFERRED_GROUPING_UNSUPPORTED'')
      else if rg_claim_authority g = Some AUTHORITATIVE \<and> g \<notin> set effective
      then Inl (relationship_binding_error ''EXTERNAL_METADATA_UNVERIFIED_GROUPING_UNSUPPORTED'')
      else Inr ())"

definition numeric_reversible_fields :: "relation_group list \<Rightarrow> member_site list" where
  "numeric_reversible_fields effective =
     concat (map (\<lambda>g. map (\<lambda>m. (rm_table_path m, rm_field_name m)) (filter is_numeric_member (rg_members g))) (filter reversible effective))"

definition plan_relationships ::
    "planning \<Rightarrow> relationship_metadata option \<Rightarrow> json option \<Rightarrow>
       (relationship_document option \<times> relationship_metadata \<times> authority_binding option \<times> member_site list) result" where
  "plan_relationships pn relationships document =
     (case document of
        None \<Rightarrow>
          bindE (case relationships of None \<Rightarrow> default_relationships (pn_hex pn) | Some m \<Rightarrow> Inr m) (\<lambda>m. Inr (None, m, None, []))
      | Some d \<Rightarrow>
          bindE (parse_relationship_document d) (\<lambda>doc.
          bindE (relationship_metadata_from_document (pn_document_fingerprint pn) doc) (\<lambda>m.
          let effective = effective_groups doc
          in bindE (mapE (grouping_supported effective) (rd_groups doc)) (\<lambda>_.
             bindE (if effective \<noteq> [] \<and> rd_external_version doc \<noteq> None
                    then bindE (authoritative_vfp_metadata_from_document (pn_document_fingerprint pn) doc) (\<lambda>(am, ab). Inr (am, Some ab))
                    else Inr (m, None)) (\<lambda>(meta, binding).
               Inr (Some doc, meta, binding, numeric_reversible_fields effective))))))"

section \<open>The tables\<close>

text \<open>What the evaluation of the fields accumulates.\<close>

record plan_tally =
  ty_transform :: int
  ty_unsupported :: int
  ty_unsafe :: int
  ty_system :: int
  ty_classes :: "string list"
  ty_facts :: "(member_site \<times> rebound_fact) list"
  ty_review :: review_state

definition fresh_tally :: "string list \<Rightarrow> (member_site \<times> rebound_fact) list \<Rightarrow> review_state \<Rightarrow> plan_tally" where
  "fresh_tally classes facts review = \<lparr>ty_transform = 0, ty_unsupported = 0, ty_unsafe = 0, ty_system = 0, ty_classes = classes,
     ty_facts = facts, ty_review = review\<rparr>"

text \<open>One field with its autoincrement and NULL bits.\<close>

definition plan_field ::
    "planning \<Rightarrow> dict \<Rightarrow> member_site list \<Rightarrow> string \<Rightarrow> string \<Rightarrow> field_info \<times> bool \<times> bool \<Rightarrow> plan_tally \<Rightarrow> plan_tally result" where
  "plan_field pn merged numeric_fields path encoding fbits ty =
     (case fbits of (f, autoincrement, nullable) \<Rightarrow>
        bindE (if autoincrement then record_identity_review path (sf_name f) ''I'' (ty_review ty) else Inr (ty_review ty)) (\<lambda>review.
        bindE (classify_field_capability (pn_other pn) (sf_type f) (sf_name f) (si_supported f) (si_binary f) (si_system f) (si_nocptrans f) merged)
          (\<lambda>(action, unsafe, system).
            let reverses = action = None \<and> \<not> unsafe \<and> (path, sf_name f) \<in> set numeric_fields;
                planned = (case action of Some a \<Rightarrow> [a] | None \<Rightarrow> if reverses then [''PSEUDONYMIZE_REVERSIBLE''] else [])
            in Inr \<lparr>ty_transform = ty_transform ty + int (length planned),
                    ty_unsupported = ty_unsupported ty + (if \<not> si_supported f \<and> \<not> system then 1 else 0),
                    ty_unsafe = ty_unsafe ty + (if action = None \<and> unsafe then 1 else 0),
                    ty_system = ty_system ty + (if system then 1 else 0),
                    ty_classes = planned @ ty_classes ty,
                    ty_facts = ((path, sf_name f), ([sf_type f], sf_length f, encoding, sf_decimals f, autoincrement, nullable)) # ty_facts ty,
                    ty_review = review\<rparr>)))"

fun plan_source_tables ::
    "callbacks \<Rightarrow> planning \<Rightarrow> dict \<Rightarrow> member_site list \<Rightarrow> transfer_profile \<Rightarrow> discovered_table list \<Rightarrow> plan_tally \<Rightarrow> (table_plan list \<times> plan_tally) ctl" where
  "plan_source_tables cb pn merged numeric_fields profile [] ty = returnS ([], ty)"
| "plan_source_tables cb pn merged numeric_fields profile (t # ts) ty =
     bindS (check_cancel cb) (\<lambda>_.
     bindS (wrap_dependency ''read_schema_failed'' (liftS (pn_read pn (dt_path t)))) (\<lambda>facts.
     bindS (liftS (foldE (plan_field pn merged numeric_fields (dt_path t) (ss_encoding (tf_schema facts)))
              (zip (ss_fields (tf_schema facts)) (tf_field_bits facts)) (fresh_tally (ty_classes ty) (ty_facts ty) (ty_review ty)))) (\<lambda>ty'.
     bindS (liftS (check_table_plan \<lparr>tp_path = dt_path t, tp_memo_path = dt_memo_path t, tp_record_count = dt_record_count t,
              tp_field_count = dt_field_count t, tp_transform_count = ty_transform ty', tp_structural_cdx = dt_structural_cdx t,
              tp_dbc_bound = dt_dbc_bound t, tp_index_strategy = resolve_index_strategy (dt_structural_cdx t) profile,
              tp_memo_required = tf_has_memo facts, tp_memo_present = tf_memo_present facts, tp_cdx_present = tf_cdx_present facts,
              tp_unsupported = ty_unsupported ty', tp_unsafe = ty_unsafe ty', tp_system = ty_system ty'\<rparr>)) (\<lambda>tp.
     bindS (bump cb ''TABLE_EVALUATION'' (Some (dt_path t))) (\<lambda>_.
     bindS (plan_source_tables cb pn merged numeric_fields profile ts ty') (\<lambda>(rest, last_tally). returnS (tp # rest, last_tally)))))))"

section \<open>The binding of the members\<close>

type_synonym binding_state = "(member_site \<times> rebound_fact) list \<times> review_state"

text \<open>A numeric member that stays identical is recorded for review.\<close>

definition bind_numeric_member :: "relation_group \<Rightarrow> relation_member \<Rightarrow> rebound_fact \<Rightarrow> binding_state \<Rightarrow> binding_state result" where
  "bind_numeric_member g m bound st =
     (case (bound, st) of ((ty, len, encoding, decimals, autoincrement, nullable), bindings, review) \<Rightarrow>
        let bindings' = ((rm_table_path m, rm_field_name m), bound) # bindings
        in if reversible g then
             bindE (guardE (\<not> (rm_dbf_type m = ''N'' \<and> decimals \<noteq> 0)) (relationship_binding_error ''NUMERIC_MEMBER_DECIMALS_UNSUPPORTED'')) (\<lambda>_.
             bindE (guardE (\<not> autoincrement) (relationship_binding_error ''NUMERIC_MEMBER_AUTOINCREMENT_UNSUPPORTED'')) (\<lambda>_.
             bindE (guardE (rm_nullable m = nullable) (relationship_binding_error ''NUMERIC_MEMBER_NULLABILITY_MISMATCH'')) (\<lambda>_.
               Inr (bindings', review))))
           else bindE (record_identity_review (rm_table_path m) (rm_field_name m) (rm_dbf_type m) review) (\<lambda>review'. Inr (bindings', review')))"

definition bind_member ::
    "codec \<Rightarrow> string list \<Rightarrow> (member_site \<times> rebound_fact) list \<Rightarrow> relation_group \<Rightarrow> relation_member \<Rightarrow> binding_state \<Rightarrow> binding_state result" where
  "bind_member codec paths facts g m st =
     bindE (guardE (rm_table_path m \<in> set paths) (relationship_binding_error ''RELATIONSHIP_MEMBER_TABLE_UNKNOWN'')) (\<lambda>_.
     case map_of facts (rm_table_path m, rm_field_name m) of
       None \<Rightarrow> Inl (relationship_binding_error ''RELATIONSHIP_MEMBER_FIELD_UNKNOWN'')
     | Some bound \<Rightarrow>
         (case bound of (ty, len, encoding, decimals, autoincrement, nullable) \<Rightarrow>
            bindE (guardE (rm_dbf_type m = ty) (relationship_binding_error ''RELATIONSHIP_MEMBER_TYPE_MISMATCH'')) (\<lambda>_.
            bindE (guardE (rm_byte_width m = len) (relationship_binding_error ''RELATIONSHIP_MEMBER_WIDTH_MISMATCH'')) (\<lambda>_.
              if is_numeric_member m then bind_numeric_member g m bound st
              else bindE (guardE (candidate_alphabet codec [rm_encoding m, encoding] \<noteq> []) (relationship_binding_error ''RELATIONSHIP_MEMBER_ENCODING_INCOMPATIBLE'')) (\<lambda>_.
                Inr (((rm_table_path m, rm_field_name m), bound) # fst st, snd st))))))"

definition bind_members ::
    "codec \<Rightarrow> string list \<Rightarrow> (member_site \<times> rebound_fact) list \<Rightarrow> relationship_document option \<Rightarrow> review_state \<Rightarrow> binding_state result" where
  "bind_members codec paths facts document review =
     (case document of
        None \<Rightarrow> Inr ([], review)
      | Some doc \<Rightarrow>
          bindE (guardE (list_all (\<lambda>c. ic_table_path c \<in> set paths) (rd_index_claims doc)) (relationship_binding_error ''EXTERNAL_METADATA_INDEX_TABLE_UNKNOWN'')) (\<lambda>_.
            foldE (\<lambda>(g, m). bind_member codec paths facts g m) (concat (map (\<lambda>g. map (Pair g) (rg_members g)) (rd_groups doc))) ([], review)))"

section \<open>The plan\<close>

definition assemble_plan ::
    "planning \<Rightarrow> path \<Rightarrow> path \<Rightarrow> path \<Rightarrow> string list \<Rightarrow> discovered_table list \<Rightarrow> string \<Rightarrow> dict \<Rightarrow> string \<Rightarrow> relationship_document option
       \<Rightarrow> relationship_metadata \<Rightarrow> authority_binding option \<Rightarrow> transfer_profile \<Rightarrow> table_plan list \<Rightarrow> plan_tally \<Rightarrow> binding_state \<Rightarrow> plan result" where
  "assemble_plan pn source output vault idx_paths found source_fp merged policy_fp document meta binding profile tables ty st =
     (let classes = sort (remdups (ty_classes ty)); recovery = classes \<noteq> []; strategy = resolve_vault_strategy recovery
      in bindE (check_policy_summary \<lparr>ps_schema_version = schema_version_text (pn_other pn) merged, ps_fingerprint = policy_fp,
                  ps_transformed_count = sum_list (map tp_transform_count tables), ps_relationship_count = md_relation_count meta,
                  ps_recovery_enabled = recovery, ps_classes = classes, ps_vault_strategy = strategy\<rparr>) (\<lambda>summary.
         bindE (check_dataset_identity \<lparr>da_id = derive_dataset_id source_fp, da_source_fingerprint = source_fp,
                  da_table_paths = map dt_path found, da_standalone_idx = idx_paths,
                  da_dbc_bound = map dt_path (filter dt_dbc_bound found)\<rparr>) (\<lambda>dataset.
           check_plan \<lparr>pl_id = ''plan-'' @ take 24 (pn_hex pn (source_fp @ policy_fp @ md_fingerprint meta @ profile_value profile @ strategy_value strategy)),
             pl_dataset = dataset, pl_tables = sort_key tp_path tables, pl_policy = summary, pl_relationships = meta, pl_profile = profile,
             pl_assurance_target = assure_target meta,
             pl_numeric_review = sort_key (\<lambda>r. (nr_table r, nr_field r, nr_type r)) (fst (snd st)),
             pl_context = Some \<lparr>xc_source_root = source, xc_output_root = output, xc_vault_path = vault, xc_document = document,
               xc_bindings = (if fst st = [] then None else Some (map_of (fst st))), xc_authority = binding, xc_policy = Some merged\<rparr>\<rparr>)))"

definition build_plan ::
    "callbacks \<Rightarrow> planning \<Rightarrow> path \<Rightarrow> path \<Rightarrow> path \<Rightarrow> dict option \<Rightarrow> relationship_metadata option \<Rightarrow> json option \<Rightarrow> plan ctl" where
  "build_plan cb pn source output vault policy relationships document =
     bindS (start_phase cb ''OPERATION'' None) (\<lambda>_.
     if so_root (pn_source pn) \<noteq> IsDirectory then liftS (Inl (plan_path_error PATH_NOT_FOUND ''source_root_not_found''))
     else
       bindS (start_phase cb ''DISCOVERY'' None) (\<lambda>_.
       bindS (enumerate_in_scope_paths cb False (pn_source pn)) (\<lambda>files.
       bindS (discover_tables cb (pn_source pn) (pn_read pn)) (\<lambda>found.
       bindS (liftS (guardE (found \<noteq> []) (plan_path_error PATH_NOT_FOUND ''no_tables_found''))) (\<lambda>_.
       bindS (liftS (guardE (length found \<le> 256) (plan_path_error PATH_INVALID ''PUBLIC_DATASET_TABLE_LIMIT_EXCEEDED''))) (\<lambda>_.
       let idx_paths = filter (has_extension [''.idx'']) (casefold_sort files)
       in bindS (liftS (guardE (length idx_paths \<le> 256) (plan_path_error PATH_INVALID ''PUBLIC_INDEX_ARTIFACT_LIMIT_EXCEEDED''))) (\<lambda>_.
          bindS (start_phase cb ''FINGERPRINT'' None) (\<lambda>_.
          bindS (collect_fingerprint_entries cb (pn_sha pn) False (pn_source pn) ''FINGERPRINT'') (\<lambda>entries.
          bindS (liftS (resolve_policy (pn_policy_fingerprint pn) policy)) (\<lambda>(merged, policy_fp).
          bindS (liftS (plan_relationships pn relationships document)) (\<lambda>(doc, meta, binding, numeric_fields).
          bindS (liftS (output_profile_of merged)) (\<lambda>profile.
          bindS (start_phase cb ''TABLE_EVALUATION'' (Some (int (length found)))) (\<lambda>_.
          bindS (plan_source_tables cb pn merged numeric_fields profile found (fresh_tally [] [] ([], []))) (\<lambda>(tables, ty).
          bindS (liftS (bind_members (pn_codec pn) (map dt_path found) (ty_facts ty) doc (ty_review ty))) (\<lambda>st.
          bindS (liftS (assemble_plan pn source output vault idx_paths found (pn_digest pn entries) merged policy_fp doc meta binding profile tables ty st)) (\<lambda>plan.
          bindS (complete cb (int (length tables)) True) (\<lambda>_. returnS plan)))))))))))))))))"

end
