(* ===== verification/Preflight_Ready.thy ===== *)
theory Preflight_Ready
  imports Preflight Pass_One_Text
begin

text \<open>
  What the answer of the preflight is worth to the run that follows it: the callbacks cannot change it, a
  ready plan has passed every check on the source, the destinations and the vault, and in a fresh vault
  the finalization of the text mappings of pass 1 completes for the rows the preflight has read.
\<close>

section \<open>From an assignment to a completed finalization\<close>

lemma character_accepted_iff:
  "character_accepted codec es c \<longleftrightarrow> (\<forall>e\<in>set es. \<exists>b. codec e [c] = Some b \<and> length b = 1)"
  by (induction es) (auto split: option.splits)

lemma candidate_antitone: "set es \<subseteq> set es' \<Longrightarrow> set (candidate_alphabet codec es') \<subseteq> set (candidate_alphabet codec es)"
  by (auto simp: candidate_alphabet_def character_accepted_iff)

lemma assignment_plan:
  assumes f: "text_assignment a occ f" and al: "set a \<subseteq> set a'" and free: "\<And>p. \<not> token_occupied db d p"
    and obs: "\<And>c w v. (c, w) \<in> set obs \<Longrightarrow> utf8_decode c = Some v \<Longrightarrow> (v, w) \<in> occ"
  shows "text_plan db d a' obs f"
proof -
  have "is_safe_token (f v) a' \<and> int (length (f v)) \<le> w \<and> f v \<noteq> v" if "(c, w) \<in> set obs" "utf8_decode c = Some v" for c w v
    using f al obs [OF that] by (fastforce simp: text_assignment_def tokens_upto_def is_safe_token_iff)
  moreover have "inj_on f {v. \<exists>(c, w)\<in>set obs. utf8_decode c = Some v}"
  proof (rule inj_on_subset)
    show "inj_on f (fst ` occ)" using f by (simp add: text_assignment_def)
    show "{v. \<exists>(c, w)\<in>set obs. utf8_decode c = Some v} \<subseteq> fst ` occ" using obs by force
  qed
  ultimately show ?thesis using free by (auto simp: text_plan_def)
qed

lemma fresh_vault:
  assumes "text_rows_of d db = []"
  shows "text_assoc d db = []" and "\<not> token_occupied db d p"
  using assms by (auto simp: text_assoc_def token_occupied_def text_rows_of_def list_ex_iff filter_empty_conv)

lemma fresh_unmapped:
  assumes "text_rows_of GLOBAL_TEXT_DOMAIN_ID (run_vault e) = []"
  shows "unmapped_observations e = run_observations e"
  using fresh_vault(1) [OF assms] by (simp add: unmapped_observations_def mapped_in_def)

section \<open>The run of the evaluation\<close>

lemma preflight_steps:
  assumes "preflight cb nv p backend s = (Inr r, s')"
  obtains t t' where "evaluate_plan_readonly cb nv p (if pl_profile p = VFP_INDEXED then backend else None) t = (Inr r, t')"
  using assms unfolding preflight_def by (auto elim!: bindS_InrE simp: returnS_def)

text \<open>The in-scope files of the source and its fingerprint, as a run without callbacks finds them.\<close>

definition idle_controller :: controller where
  "idle_controller = \<lparr>pc_operation_id = None, pc_totals = Map.empty, pc_counts = Map.empty, pc_polls = 0, pc_events = []\<rparr>"

definition source_files :: "environment \<Rightarrow> string list result" where
  "source_files nv = fst (enumerate_in_scope_paths silent True (nv_source nv) idle_controller)"

definition source_entries :: "environment \<Rightarrow> fingerprint_entry list result" where
  "source_entries nv = fst (collect_fingerprint_entries silent (nv_sha nv) True (nv_source nv) ''SOURCE_VERIFICATION'' idle_controller)"

lemma source_files_run: "enumerate_in_scope_paths cb True (nv_source nv) s = (Inr names, s') \<Longrightarrow> source_files nv = Inr names"
  using transparentD(2) [OF transparent_enumerate] by (simp add: source_files_def ordinary_def)

lemma source_entries_run:
  "collect_fingerprint_entries cb (nv_sha nv) True (nv_source nv) ''SOURCE_VERIFICATION'' s = (Inr entries, s') \<Longrightarrow> source_entries nv = Inr entries"
  using transparentD(2) [OF transparent_entries] by (simp add: source_entries_def ordinary_def)

section \<open>A small dataset\<close>

definition sample_rows :: "direct_record list" where
  "sample_rows = [\<lparr>rec_index = 0, rec_deleted = False, rec_values = [''N'' \<mapsto> VStr [65]]\<rparr>,
                  \<lparr>rec_index = 1, rec_deleted = False, rec_values = [''N'' \<mapsto> VStr [66]]\<rparr>,
                  \<lparr>rec_index = 2, rec_deleted = True, rec_values = [''N'' \<mapsto> VStr [65]]\<rparr>]"

definition sample_capacity_reader :: capacity_reader where
  "sample_capacity_reader = \<lparr>cr_schema = (\<lambda>rel. Inr \<lparr>ss_fields = [\<lparr>sf_name = ''N'', sf_type = CHR ''C'', sf_length = 1, sf_decimals = 0, sf_memo = False,
        si_supported = True, si_binary = False, si_system = False, si_nocptrans = False\<rparr>], ss_encoding = ''latin-1'',
        ss_structural_cdx = False, ss_record_count = 3\<rparr>),
     cr_records = (\<lambda>rel names. map Inr sample_rows)\<rparr>"

definition sample_environment :: environment where
  "sample_environment =
     \<lparr>nv_host = \<lparr>ho_stat = (\<lambda>p. if p = [] \<or> p = [''src''] then IsDirectory else NoEntry),
        ho_canonical = (\<lambda>p. Inr (concat (map (\<lambda>c. CHR ''/'' # c) p))), ho_iterdir = (\<lambda>p. Inr []),
        ho_disk_free = (\<lambda>p. Inr 1000000000), ho_device = (\<lambda>p. Inr 1)\<rparr>,
      nv_source = \<lparr>so_root = IsDirectory, so_walk = [Inr [''A.DBF'', ''notes.txt'']], so_size = (\<lambda>rel. Inr 200), so_chunks = (\<lambda>rel. Inr [Inr [3, 1]])\<rparr>,
      nv_vault = \<lparr>vf_siblings = ListingFailed, vf_open = OpenFailed\<rparr>,
      nv_capabilities = \<lparr>ca_direct_read = True, ca_direct_write = True\<rparr>,
      nv_sha = (\<lambda>b. ''00''), nv_digest = concat \<circ> map fe_path, nv_codec = two_letter_codec, nv_other = (\<lambda>v. []), nv_domain_id = (\<lambda>d. d),
      nv_reader = sample_capacity_reader\<rparr>"

definition sample_preflight_plan :: plan where
  "sample_preflight_plan =
     \<lparr>pl_id = ''plan-1'', pl_dataset = \<lparr>da_id = ''ds-1'', da_source_fingerprint = ''A.DBF'', da_table_paths = [''A.DBF''], da_standalone_idx = [], da_dbc_bound = []\<rparr>,
      pl_tables = [\<lparr>tp_path = ''A.DBF'', tp_memo_path = None, tp_record_count = 3, tp_field_count = 1, tp_transform_count = 1, tp_structural_cdx = False,
         tp_dbc_bound = False, tp_index_strategy = ''DATA_ONLY'', tp_memo_required = False, tp_memo_present = False, tp_cdx_present = False,
         tp_unsupported = 0, tp_unsafe = 0, tp_system = 0\<rparr>],
      pl_policy = \<lparr>ps_schema_version = ''1'', ps_fingerprint = ''pf'', ps_transformed_count = 1, ps_relationship_count = 0, ps_recovery_enabled = True,
         ps_classes = [ACTION_TEXT], ps_vault_strategy = SINGLE_DATASET_SQLITE\<rparr>,
      pl_relationships = \<lparr>md_schema_version = ''1'', md_provenance = ''NONE'', md_fingerprint = ''rf'', md_relation_count = 0, md_authoritative = False,
         md_external_version = None, md_producer = None, md_authority_summary = None\<rparr>,
      pl_profile = DATA_ONLY, pl_assurance_target = GLOBAL_EXACT_VALUE, pl_numeric_review = [],
      pl_context = Some \<lparr>xc_source_root = [''src''], xc_output_root = [''out''], xc_vault_path = [''vault''], xc_document = None, xc_bindings = None,
         xc_authority = None, xc_policy = Some (merge_with_defaults None)\<rparr>\<rparr>"

text \<open>The value an operation yields without callbacks, whatever the counters of the controller are.\<close>

definition yields :: "'a ctl \<Rightarrow> 'a \<Rightarrow> bool" where
  "yields m x \<longleftrightarrow> (\<forall>s. fst (m s) = Inr x)"

named_theorems yield_rules

lemma yieldsE:
  assumes "yields m x"
  obtains s' where "m s = (Inr x, s')"
  using assms by (metis prod.collapse yields_def)

lemma yields_bind [yield_rules]:
  assumes "yields m x" and "yields (f x) y"
  shows "yields (bindS m f) y"
  unfolding yields_def bindS_def
proof
  fix s
  obtain s1 where "m s = (Inr x, s1)" by (rule yieldsE [OF assms(1)])
  then show "fst (case m s of (Inl e, s') \<Rightarrow> (Inl e, s') | (Inr x, s') \<Rightarrow> f x s') = Inr y" using assms(2) by (simp add: yields_def)
qed

lemma yields_pure [yield_rules]: "yields (returnS x) x" "r = Inr x \<Longrightarrow> yields (liftS r) x"
  by (simp_all add: yields_def returnS_def liftS_def)

lemma yields_silent [yield_rules]:
  "yields (check_cancel silent) ()" "yields (emit silent code phase k units table) ()" "yields (start_phase silent phase units) ()"
  "yields (bump silent phase table) ()" "yields (progress silent phase k units table) ()" "yields (complete silent k b) ()"
  by (simp_all add: yields_def check_cancel_def emit_def start_phase_def bump_def progress_def complete_def silent_def bindS_def returnS_def Let_def)

lemma yields_boundary [yield_rules]:
  assumes "yields m x"
  shows "yields (wrap_dependency d m) x" and "yields (try_os m) (Some x)"
proof -
  have "fst (wrap_dependency d m s) = Inr x \<and> fst (try_os m s) = Inr (Some x)" for s
  proof -
    obtain s' where "m s = (Inr x, s')" by (rule yieldsE [OF assms])
    then show ?thesis by (simp add: wrap_dependency_def try_os_def)
  qed
  then show "yields (wrap_dependency d m) x" "yields (try_os m) (Some x)" by (simp_all add: yields_def)
qed

lemma yields_polled [yield_rules]: "r = Inr x \<Longrightarrow> yields (polled silent r) x"
  unfolding polled_def by (rule yields_bind [OF yields_silent(1) yields_pure(2)])

lemma yields_eval: "transparent m \<Longrightarrow> fst (m silent s) = Inr x \<Longrightarrow> yields (m silent) x"
  using transparentD(2) [of m silent s] by (auto simp: yields_def ordinary_def) (metis prod.collapse sum.case(2))

lemma sample_scan: "yields (exact_scan silent sample_capacity_reader [65, 66] [(''A.DBF'', 3, [(''N'', 1)])] [1]) CAPACITY_OK"
  by (simp add: yields_def exact_scan_def streaming_tables_def sample_capacity_reader_def sample_rows_def single_token_check_def wrap_dependency_def
      field_value_def track_value_def MAX_EXACT_VALUES_def reduced_strictest_def note_outcome_def token_space_at_least_def Let_def
      start_phase_def emit_def check_cancel_def silent_def bindS_def liftS_def returnS_def)

lemma sample_capacity:
  "yields (capacity_sufficient silent two_letter_codec (\<lambda>v. []) [ACTION_TEXT] (Some (merge_with_defaults None)) sample_capacity_reader [''A.DBF'']) CAPACITY_OK"
proof -
  have files: "dbf_files [''A.DBF''] = [''A.DBF'']" by code_simp
  have "fst (collect_sensitive silent (\<lambda>v. []) (merge_with_defaults None) sample_capacity_reader [''A.DBF''] idle_controller)
      = Inr ([(''A.DBF'', 3, [(''N'', 1)])], [''latin-1''])" by code_simp
  note collect = yields_eval [OF transparent_collect this]
  have alphabet: "candidate_alphabet two_letter_codec [''latin-1''] = [65, 66]" by code_simp
  have tight: "tight_widths 2 [(''A.DBF'', 3, [(''N'', 1)])] = [1]" by code_simp
  show ?thesis
    unfolding capacity_sufficient_def files
    by (simp del: collect_sensitive.simps, rule yields_bind [OF collect]) (simp add: alphabet tight sample_scan)
qed

lemma sample_ready:
  "yields (preflight silent sample_environment sample_preflight_plan None)
     \<lparr>pr_ready = True, pr_plan_id = ''plan-1'', pr_capabilities = \<lparr>ca_direct_read = True, ca_direct_write = True\<rparr>,
      pr_checks = [''DATA_ONLY_STANDALONE'', ''PREFLIGHT_EVALUATED''], pr_warnings = [], pr_errors = []\<rparr>"
proof -
  let ?nv = sample_environment and ?p = sample_preflight_plan
  let ?r = "\<lparr>pr_ready = True, pr_plan_id = ''plan-1'', pr_capabilities = \<lparr>ca_direct_read = True, ca_direct_write = True\<rparr>,
      pr_checks = [''DATA_ONLY_STANDALONE'', ''PREFLIGHT_EVALUATED''], pr_warnings = [], pr_errors = []\<rparr>"
  let ?f = "note_check ''DATA_ONLY_STANDALONE'' no_preflight_findings"
  define xc where "xc = the (pl_context ?p)"
  have xc: "pl_context ?p = Some xc" "pl_profile ?p \<noteq> VFP_INDEXED" by (simp_all add: xc_def sample_preflight_plan_def)
  have places: "overlap_findings (nv_host ?nv) xc no_preflight_findings = Inr no_preflight_findings"
    "destination_findings (nv_host ?nv) xc no_preflight_findings = Inr no_preflight_findings"
    "vault_findings (nv_host ?nv) (nv_vault ?nv) ?p xc no_preflight_findings = Inr no_preflight_findings"
    unfolding xc_def by code_simp+
  have "fst (verify_source silent ?nv ?p no_preflight_findings idle_controller) = Inr (Some [''A.DBF''], True, no_preflight_findings)" by code_simp
  note source = yields_eval [OF transparent_verify_source this]
  have "fst (check_tables silent (pl_tables ?p) no_preflight_findings idle_controller) = Inr no_preflight_findings" by code_simp
  note tables = yields_eval [OF transparent_check_tables this]
  have rest: "(Inr (check_policy_consistency ?p no_preflight_findings) :: preflight_findings result) = Inr no_preflight_findings"
    "(Inr (check_output_profile ?p (nv_capabilities ?nv) None no_preflight_findings) :: preflight_findings result) = Inr ?f"
    "check_relationships (nv_codec ?nv) (nv_domain_id ?nv) ?p xc ?f = Inr ?f"
    "(Inr (check_index_conditions ?p ?f) :: preflight_findings result) = Inr ?f"
    "(Inr (check_standalone_idx (Some [''A.DBF'']) ?p ?f) :: preflight_findings result) = Inr ?f"
    "storage_findings ?nv ?p xc (Some [''A.DBF'']) ?f = Inr ?f"
    unfolding xc_def by code_simp+
  have numeric: "yields (numeric_relation_capacity silent (xc_document xc) (xc_bindings xc) (nv_reader ?nv) [''A.DBF'']) (CAPACITY_OK, False)"
    by (simp add: numeric_relation_capacity_def xc_def sample_preflight_plan_def reversible_groups_def yields_pure)
  have env: "nv_codec ?nv = two_letter_codec" "nv_other ?nv = (\<lambda>v. [])" "nv_reader ?nv = sample_capacity_reader" "ca_direct_read (nv_capabilities ?nv)"
    "ps_classes (pl_policy ?p) = [ACTION_TEXT]" "xc_policy xc = Some (merge_with_defaults None)"
    by (simp_all add: xc_def sample_environment_def sample_preflight_plan_def)
  have capacity: "yields (capacity_findings silent ?nv ?p xc (Some [''A.DBF'']) True ?f) ?f"
    unfolding capacity_findings_def env
    by (simp add: yields_bind [OF sample_capacity] yields_bind [OF numeric [unfolded env]] yields_pure note_capacity_def note_error_if_def)
  note polls = places [THEN yields_polled] rest [THEN yields_polled]
  have report: "findings_result ?p (nv_capabilities ?nv) ?f = Inr ?r" by code_simp
  have evaluation: "yields (evaluate_plan_readonly silent ?nv ?p None) ?r"
    unfolding evaluate_plan_readonly_def xc(1) option.case
    by ((rule yields_bind, rule polls source tables capacity yields_silent, (simp only: prod.case)?)+, rule yields_pure(2) [OF report])
  show ?thesis
    unfolding preflight_def if_not_P [OF xc(2)]
    by (rule yields_bind [OF yields_silent(3) yields_bind [OF evaluation yields_bind [OF yields_silent(6) yields_pure(1)]]])
qed

lemma sample_delivers: "delivers sample_capacity_reader (\<lambda>rel. sample_rows)"
  unfolding delivers_def
  by (intro allI exI [of _ sample_rows]) (simp add: sample_capacity_reader_def list_all2_same agrees_def)

section \<open>The properties\<close>

text \<open>
  C30. The callbacks of a preflight can only stop it. When a preflight returns a report, every poll of
  its cancel check was answered with no and every call of its progress callback returned, and the
  report is the one the same preflight returns without any callback, from any state of the controller.
\<close>

theorem preflight_undisturbed:
  assumes "preflight cb nv p backend s = (Inr r, s')"
  shows "(\<forall>ct k. cb_cancel cb = Some ct \<longrightarrow> pc_polls s \<le> k \<longrightarrow> k < pc_polls s' \<longrightarrow> ct k = Continue)
    \<and> (\<forall>accepts k. cb_progress cb = Some accepts \<longrightarrow> length (pc_events s) \<le> k \<longrightarrow> k < length (pc_events s') \<longrightarrow> accepts k)
    \<and> fst (preflight silent nv p backend t) = Inr r"
  using transparentD [OF transparent_preflight assms] by (auto simp: granted_def ordinary_def)

theorem preflight_undisturbed_witness:
  "\<exists>r s'. preflight silent sample_environment sample_preflight_plan None idle_controller = (Inr r, s') \<and> pr_ready r
    \<and> fst (preflight silent sample_environment sample_preflight_plan None (idle_controller\<lparr>pc_polls := 7\<rparr>)) = Inr r"
proof -
  obtain r s' where run: "preflight silent sample_environment sample_preflight_plan None idle_controller = (Inr r, s')" "pr_ready r"
    by (rule yieldsE [OF sample_ready, of idle_controller]) auto
  then show ?thesis using preflight_undisturbed [OF run(1), of "idle_controller\<lparr>pc_polls := 7\<rparr>"] by blast
qed

text \<open>
  C11. A plan is reported ready only after all of it was checked: the three places of the run do not
  overlap, the output is free and a vault file that exists can be reused, the current fingerprint of
  the source is that of the plan, no table has an unsupported or unsafe field or misses a companion
  it needs, the policy summary is consistent, both capabilities of the boundary are present, the
  relationship document is compatible and its members agree with the bound schemas, and the free
  space was proved to be enough.
\<close>

theorem ready_plan_checked:
  assumes "preflight cb nv p backend s = (Inr r, s')" and "pr_ready r"
  shows "\<exists>xc names entries. pl_context p = Some xc \<and> source_files nv = Inr names \<and> source_entries nv = Inr entries
    \<and> nv_digest nv entries = da_source_fingerprint (pl_dataset p)
    \<and> paths_overlap (nv_host nv) (xc_source_root xc) (xc_output_root xc) (xc_vault_path xc) = Inr False
    \<and> destination_conflict (nv_host nv) (xc_output_root xc) (xc_vault_path xc) = Inr False
    \<and> (probe_path (ho_stat (nv_host nv) (xc_vault_path xc)) = Inr PATH_FILE \<longrightarrow>
         existing_vault_reusable (if xc_vault_path xc = [] then [] else last (xc_vault_path xc)) (nv_vault nv) p = Inr True)
    \<and> (\<forall>t\<in>set (pl_tables p). tp_unsupported t \<le> 0 \<and> tp_unsafe t \<le> 0 \<and> (tp_memo_required t \<longrightarrow> tp_memo_present t)
         \<and> (tp_structural_cdx t \<longrightarrow> tp_cdx_present t))
    \<and> \<not> policy_inconsistent p \<and> ca_direct_read (nv_capabilities nv) \<and> ca_direct_write (nv_capabilities nv)
    \<and> (\<forall>doc. xc_document xc = Some doc \<longrightarrow> validate_document_compatibility (nv_codec nv) (nv_domain_id nv) doc = Inr ()
         \<and> (\<forall>bound. xc_bindings xc = Some bound \<longrightarrow> (\<forall>g\<in>set (rd_groups doc). \<forall>m\<in>set (rg_members g). member_rebound bound g m)))
    \<and> storage_ok (nv_host nv) (nv_source nv) (Some names) (xc_output_root xc) (xc_vault_path xc) (ps_recovery_enabled (pl_policy p)) = Inr (Some True)"
proof -
  obtain t t' where "evaluate_plan_readonly cb nv p (if pl_profile p = VFP_INDEXED then backend else None) t = (Inr r, t')"
    by (rule preflight_steps [OF assms(1)])
  then show ?thesis
  proof (rule evaluate_steps [OF _ assms(2)], goal_cases)
    case (1 xc names f f' s1 s2 s3 s4 s5 entries s6)
    note files = source_files_run [OF 1(3)] and entries = source_entries_run [OF 1(4)]
    show ?case
      using 1(2) 1(10) 1(13)
      by (intro exI [of _ xc] exI [of _ names] exI [of _ entries] conjI 1(1) files entries 1(5-9))
        (simp_all add: places_free_def storage_proved_def)
  qed
qed

theorem ready_plan_checked_witness:
  "source_files sample_environment = Inr [''A.DBF''] \<and>
   (\<exists>xc. pl_context sample_preflight_plan = Some xc \<and> destination_conflict (nv_host sample_environment) (xc_output_root xc) (xc_vault_path xc) = Inr False)"
proof -
  obtain r s' where run: "preflight silent sample_environment sample_preflight_plan None idle_controller = (Inr r, s')" "pr_ready r"
    by (rule yieldsE [OF sample_ready, of idle_controller]) auto
  have "source_files sample_environment = Inr [''A.DBF'']" by code_simp
  then show ?thesis using ready_plan_checked [OF run] by blast
qed

text \<open>
  C4. What the preflight accepts, pass 1 can allocate. Let a plan that pseudonymizes text be reported
  ready, where the reader delivers the rows of every table and the alphabet that survives the encodings
  of the sensitive tables has at least two letters. Take a run of that plan on a healthy vault with the
  writer lease that has no text mapping yet, whose spool holds only values and widths of the sensitive
  fields, fewer than \<open>2 ^ 55\<close> of them and of widths that fit an INTEGER column, and whose encodings are among
  those of the sensitive tables. It completes the finalization of its text mappings, whatever the random source
  does: every observed value gets its own pseudonym, safe in the run's alphabet, within its width and
  different from the value.
\<close>

theorem ready_plan_allocates:
  assumes run: "preflight cb nv p backend s = (Inr r, s')" "pr_ready r"
    and plan: "pl_context p = Some xc" "xc_policy xc = Some merged" "ACTION_TEXT \<in> set (ps_classes (pl_policy p))"
    and source: "source_files nv = Inr names" "sensitive_tables (nv_other nv) merged (nv_reader nv) names = Inr (sensitive, participating)"
      "delivers (nv_reader nv) rows" "counted rows sensitive" "2 \<le> length (preflight_alphabet (nv_codec nv) participating)"
    and e: "text_run_ok (nv_codec nv) e" "text_rows_of GLOBAL_TEXT_DOMAIN_ID (run_vault e) = []"
      "set (text_encoding_union (en_spool e)) \<subseteq> set participating"
      "\<forall>(c, w)\<in>set (run_observations e). \<forall>v. utf8_decode c = Some v \<longrightarrow> (v, w) \<in> occurrences rows sensitive"
    and q: "quiet ct"
  shows "\<exists>e'. finalize_text t ct (nv_codec nv) e = (Inr (Some GLOBAL_TEXT_DOMAIN_ID, length (run_observations e), 0), e')
    \<and> healthy e' \<and> text_domain_ok GLOBAL_TEXT_DOMAIN_ID (committed e')
    \<and> (\<forall>(c, w)\<in>set (run_observations e). \<forall>v. utf8_decode c = Some v \<longrightarrow>
         (\<exists>x. (v, x) \<in> set (text_assoc GLOBAL_TEXT_DOMAIN_ID (committed e')) \<and> is_safe_token x (run_alphabet (nv_codec nv) e)
            \<and> int (length x) \<le> w \<and> x \<noteq> v))"
proof -
  obtain t1 t1' where "evaluate_plan_readonly cb nv p (if pl_profile p = VFP_INDEXED then backend else None) t1 = (Inr r, t1')"
    by (rule preflight_steps [OF run(1)])
  then obtain s2 s3 where capacity: "capacity_sufficient cb (nv_codec nv) (nv_other nv) (ps_classes (pl_policy p)) (Some merged)
      (nv_reader nv) names s2 = (Inr CAPACITY_OK, s3)"
    by (rule evaluate_steps [OF _ run(2)]) (use plan source(1) in \<open>auto dest: source_files_run elim!: clean_capacity\<close>)
  obtain f where f: "text_assignment (preflight_alphabet (nv_codec nv) participating) (occurrences rows sensitive) f"
    using capacity_decided [OF capacity plan(3) source(2-4)] source(5) by blast
  have "set (preflight_alphabet (nv_codec nv) participating) \<subseteq> set (run_alphabet (nv_codec nv) e)"
    using e(3) unfolding preflight_alphabet_def run_alphabet_def by (intro candidate_antitone) simp
  from assignment_plan [OF f this fresh_vault(2) [OF e(2)], of "run_observations e"] e(4)
  have "text_plan (run_vault e) GLOBAL_TEXT_DOMAIN_ID (run_alphabet (nv_codec nv) e) (unmapped_observations e) f"
    unfolding fresh_unmapped [OF e(2)] by fast
  from finalize_text_planned [OF e(1) q this, of t] show ?thesis
    unfolding fresh_unmapped [OF e(2)] fresh_vault(1) [OF e(2)] by fastforce
qed

theorem ready_plan_allocates_witness:
  "\<exists>e'. finalize_text (\<lambda>k. k) (\<lambda>_. Continue) two_letter_codec (sample_run [([65], 1), ([66], 1), ([65], 1)])
      = (Inr (Some GLOBAL_TEXT_DOMAIN_ID, 2, 0), e')
    \<and> (\<exists>x. ([65], x) \<in> set (text_assoc GLOBAL_TEXT_DOMAIN_ID (committed e')) \<and> x \<noteq> [65])"
proof -
  let ?e = "sample_run [([65], 1), ([66], 1), ([65], 1)]" and ?nv = sample_environment and ?rows = "\<lambda>rel :: string. sample_rows"
  let ?sensitive = "[(''A.DBF'', 3, [(''N'', 1)])]" and ?enc = "[''latin-1'']"
  obtain r s' where run: "preflight silent ?nv sample_preflight_plan None idle_controller = (Inr r, s')" "pr_ready r"
    by (rule yieldsE [OF sample_ready, of idle_controller]) auto
  define xc where "xc = the (pl_context sample_preflight_plan)"
  have xc: "pl_context sample_preflight_plan = Some xc" "xc_policy xc = Some (merge_with_defaults None)"
    "ACTION_TEXT \<in> set (ps_classes (pl_policy sample_preflight_plan))"
    by (simp_all add: xc_def sample_preflight_plan_def)
  have env: "nv_codec ?nv = two_letter_codec" "nv_reader ?nv = sample_capacity_reader" by (simp_all add: sample_environment_def)
  have files: "source_files ?nv = Inr [''A.DBF'']" by code_simp
  have sens: "sensitive_tables (nv_other ?nv) (merge_with_defaults None) (nv_reader ?nv) [''A.DBF''] = Inr (?sensitive, ?enc)" by code_simp
  have src: "delivers (nv_reader ?nv) ?rows" "counted ?rows ?sensitive"
    unfolding env by (rule sample_delivers) (simp add: counted_def sample_rows_def)
  have a: "2 \<le> length (preflight_alphabet (nv_codec ?nv) ?enc)" by code_simp
  have o: "run_observations ?e = [([65], 1), ([66], 1)]" by code_simp
  have u: "text_encoding_union (en_spool ?e) = ?enc" by code_simp
  have "run_alphabet two_letter_codec ?e = [65, 66]" by code_simp
  then have ok: "text_run_ok (nv_codec ?nv) ?e"
    unfolding env using u o spool_ok_ascii [of "[([65], 1), ([66], 1)]"] by (intro sample_run_ok) auto
  have dec: "utf8_decode [65] = Some [65]" "utf8_decode [66] = Some [66]" by code_simp+
  have rows: "sample_rows ! 0 \<in> set sample_rows" "sample_rows ! 1 \<in> set sample_rows" "field_value (rec_values (sample_rows ! 0)) ''N'' = VStr [65]"
    "field_value (rec_values (sample_rows ! 1)) ''N'' = VStr [66]" by (simp_all add: sample_rows_def field_value_def)
  have occ: "([65], 1) \<in> occurrences ?rows ?sensitive" "([66], 1) \<in> occurrences ?rows ?sensitive"
    using rows unfolding occurrences_def table_occurrences_def by auto
  have obs: "\<forall>(c, w)\<in>set (run_observations ?e). \<forall>v. utf8_decode c = Some v \<longrightarrow> (v, w) \<in> occurrences ?rows ?sensitive"
    unfolding o using occ by (simp add: dec)
  have "quiet (\<lambda>_. Continue)" by (simp add: quiet_def)
  from ready_plan_allocates [OF run xc files sens src a ok sample_run_vault(1) _ obs this, of "\<lambda>k. k"] u
  obtain e' where "finalize_text (\<lambda>k. k) (\<lambda>_. Continue) two_letter_codec ?e = (Inr (Some GLOBAL_TEXT_DOMAIN_ID, 2, 0), e')"
    "\<forall>(c, w)\<in>set (run_observations ?e). \<forall>v. utf8_decode c = Some v \<longrightarrow>
      (\<exists>x. (v, x) \<in> set (text_assoc GLOBAL_TEXT_DOMAIN_ID (committed e')) \<and> x \<noteq> v)"
    unfolding env o by fastforce
  then show ?thesis using dec by (fastforce simp: o)
qed

text \<open>
  C8. The text capacity answer of the preflight is exact where it is definite. For a reader that delivers
  the rows of the sensitive tables, OK means, over an alphabet of at least two letters, that there is an
  injective choice of safe tokens within every width that moves every value; INSUFFICIENT means
  that there is none. So the pre-selection by upper bounds, the streamed counting of distinct values per
  strictest width and its early exit lose nothing.
\<close>

theorem preflight_capacity_decides:
  assumes "capacity_sufficient cb codec other classes (Some merged) src files s = (Inr outcome, s')" and "ACTION_TEXT \<in> set classes"
    and "sensitive_tables other merged src files = Inr (sensitive, participating)"
    and "delivers src rows" and "counted rows sensitive"
  shows "(outcome = CAPACITY_OK \<longrightarrow> 2 \<le> length (preflight_alphabet codec participating)
            \<longrightarrow> (\<exists>f. text_assignment (preflight_alphabet codec participating) (occurrences rows sensitive) f))
       \<and> (outcome = CAPACITY_INSUFFICIENT \<longrightarrow> occurrences rows sensitive \<noteq> {} \<or> preflight_alphabet codec participating \<noteq> []
            \<longrightarrow> (\<nexists>f. text_assignment (preflight_alphabet codec participating) (occurrences rows sensitive) f))"
  by (rule capacity_decided [OF assms])

theorem preflight_capacity_decides_witness:
  "\<exists>f. text_assignment [65, 66] (occurrences (\<lambda>rel. sample_rows) [(''A.DBF'', 3, [(''N'', 1)])]) f"
proof -
  obtain s' where run: "capacity_sufficient silent two_letter_codec (\<lambda>v. []) [ACTION_TEXT] (Some (merge_with_defaults None)) sample_capacity_reader
      [''A.DBF''] idle_controller = (Inr CAPACITY_OK, s')" by (rule yieldsE [OF sample_capacity])
  have sens: "sensitive_tables (\<lambda>v. []) (merge_with_defaults None) sample_capacity_reader [''A.DBF'']
      = Inr ([(''A.DBF'', 3, [(''N'', 1)])], [''latin-1''])" by code_simp
  have counted: "counted (\<lambda>rel. sample_rows) [(''A.DBF'', 3, [(''N'', 1)])]" by (simp add: counted_def sample_rows_def)
  have "preflight_alphabet two_letter_codec [''latin-1''] = [65, 66]" by code_simp
  then show ?thesis using preflight_capacity_decides [OF run _ sens sample_delivers counted] by simp
qed

definition key_member :: "string \<Rightarrow> string \<Rightarrow> relation_member" where
  "key_member table key_role = \<lparr>rm_table_path = table, rm_field_name = ''K'', rm_key_role = key_role, rm_composite_ordinal = 1, rm_dbf_type = ''N'',
     rm_byte_width = 2, rm_encoding = ''latin-1'', rm_nullable = False\<rparr>"

definition sample_key_document :: relationship_document where
  "sample_key_document = \<lparr>rd_groups = [\<lparr>rg_relation_id = ''R'', rg_members = [key_member ''A.DBF'' ''PRIMARY'', key_member ''B.DBF'' ''FOREIGN''],
      rg_comparison = ''EXACT'', rg_provenance = ''DECLARED'', rg_source_digest = None, rg_numeric_strategy = REVERSIBLE_BIJECTIVE,
      rg_claim_assurance = None, rg_claim_authority = None\<rparr>],
     rd_external_version = None, rd_producer = None, rd_external_authority = None, rd_index_claims = []\<rparr>"

definition sample_bindings :: bindings where
  "sample_bindings site = (if snd site = ''K'' then Some (''N'', 2, ''latin-1'', 0, False, False) else None)"

definition sample_key_rows :: "direct_record list" where
  "sample_key_rows = [\<lparr>rec_index = 0, rec_deleted = False, rec_values = [''K'' \<mapsto> VInt 7]\<rparr>,
                      \<lparr>rec_index = 1, rec_deleted = False, rec_values = [''K'' \<mapsto> VNone]\<rparr>]"

text \<open>
  C19. The numeric capacity answer of the preflight is exact where it is definite: OK means that in
  every reversible relation all values of all member fields can be carried (up to the reported mark of
  an unwritable one) and that the distinct originals have a bijection into the domain of the relation
  that moves each of them; INSUFFICIENT means that some relation has a value it cannot carry or
  no such bijection.
\<close>

theorem preflight_numeric_decides:
  assumes "numeric_relation_capacity cb document bound src files s = (Inr (c, unwritable), s')" and "delivers src rows"
    and "numeric_tasks (case bound of None \<Rightarrow> Map.empty | Some b \<Rightarrow> b) (reversible_groups document) = Inr (Proceed tasks)"
  shows "(c = CAPACITY_OK \<longrightarrow> (\<forall>task\<in>set tasks. relation_readable rows unwritable task \<and> relation_fits rows task))
       \<and> (c = CAPACITY_INSUFFICIENT \<longrightarrow> (\<exists>task\<in>set tasks. \<not> relation_readable rows True task \<or> \<not> relation_fits rows task))"
  by (rule numeric_capacity_decided [OF assms])

theorem preflight_numeric_decides_witness:
  "\<exists>rid kd sites. numeric_tasks sample_bindings (reversible_groups (Some sample_key_document)) = Inr (Proceed [(rid, kd, sites)])
    \<and> length sites = 2 \<and> relation_fits (\<lambda>rel. sample_key_rows) (rid, kd, sites)"
proof -
  let ?src = "\<lparr>cr_schema = (\<lambda>rel. Inl OSError), cr_records = (\<lambda>rel names. map Inr sample_key_rows)\<rparr>"
  let ?rg = "\<lparr>original_low = - 9, original_high = 99, pseudonym_low = - 9, pseudonym_high = 99, readable_low = Some (- 9), readable_high = Some 99\<rparr>"
  let ?kd = "\<lparr>dom_low = - 9, dom_high = 99, members = [?rg, ?rg]\<rparr>" and ?sites = "[(''A.DBF'', ''K'', ?rg), (''B.DBF'', ''K'', ?rg)]"
  have tasks: "numeric_tasks sample_bindings (reversible_groups (Some sample_key_document)) = Inr (Proceed [(''R'', ?kd, ?sites)])" by code_simp
  have groups: "reversible_groups (Some sample_key_document) \<noteq> []" by code_simp
  have kernel: "plan_numeric_bijection ?kd [7] [] = Inr True" by code_simp
  have verdict: "classify_member_original ?rg 7 = REVERSIBLE" by code_simp
  have "yields (numeric_relation_capacity silent (Some sample_key_document) (Some sample_bindings) ?src [''A.DBF'', ''B.DBF'']) (CAPACITY_OK, False)"
    using groups by (simp add: yields_def numeric_relation_capacity_def tasks kernel verdict sample_key_rows_def field_value_def
      MAX_NUMERIC_EXACT_VALUES_def wrap_dependency_def start_phase_def emit_def check_cancel_def bump_def silent_def bindS_def liftS_def
      returnS_def Let_def)
  then obtain s' where run: "numeric_relation_capacity silent (Some sample_key_document) (Some sample_bindings) ?src [''A.DBF'', ''B.DBF'']
      idle_controller = (Inr (CAPACITY_OK, False), s')" by (rule yieldsE)
  have src: "delivers ?src (\<lambda>rel. sample_key_rows)"
    unfolding delivers_def by (intro allI exI [of _ sample_key_rows]) (simp add: list_all2_same agrees_def)
  have "relation_fits (\<lambda>rel. sample_key_rows) (''R'', ?kd, ?sites)"
    using preflight_numeric_decides [OF run src, of "[(''R'', ?kd, ?sites)]"] tasks by simp
  then show ?thesis using tasks by (intro exI conjI) auto
qed

end
