(* ===== verification/Plan_Agreement.thy ===== *)
theory Plan_Agreement
  imports Build_Plan Preflight_Ready
begin

text \<open>
  What a plan returned by \<open>build_plan\<close> consists of: its classes and counts are those of the classified
  fields, its facts those of the schemas, its bindings facts of the declared members; the policy check
  of the preflight cannot fail on it, and hashing an unchanged source again gives the same entries.
\<close>

section \<open>The steps of planning\<close>

lemma bindS_pairE:
  assumes "bindS m (\<lambda>(a, b). g a b) s = (Inr x, s')"
  obtains a b t where "m s = (Inr (a, b), t)" "g a b t = (Inr x, s')"
  using assms by (auto elim!: bindS_InrE)

lemma bindS_quadE:
  assumes "bindS m (\<lambda>(a, b, c, d). g a b c d) s = (Inr x, s')"
  obtains a b c d t where "m s = (Inr (a, b, c, d), t)" "g a b c d t = (Inr x, s')"
  using assms by (auto elim!: bindS_InrE)

lemma build_plan_steps:
  assumes "build_plan cb pn source output vault policy relationships document s = (Inr p, s')"
  obtains found entries merged policy_fp doc meta binding nf profile tables ty st idx_paths s1 s2 s3 s4 s5 s6 s7 where
    "discover_tables cb (pn_source pn) (pn_read pn) s1 = (Inr found, s2)"
    "collect_fingerprint_entries cb (pn_sha pn) False (pn_source pn) ''FINGERPRINT'' s3 = (Inr entries, s4)"
    "resolve_policy (pn_policy_fingerprint pn) policy = Inr (merged, policy_fp)"
    "plan_relationships pn relationships document = Inr (doc, meta, binding, nf)"
    "plan_source_tables cb pn merged nf profile found (fresh_tally [] [] ([], [])) s5 = (Inr (tables, ty), s6)"
    "bind_members (pn_codec pn) (map dt_path found) (ty_facts ty) doc (ty_review ty) = Inr st"
    "assemble_plan pn source output vault idx_paths found (pn_digest pn entries) merged policy_fp doc meta binding profile tables ty st = Inr p"
proof (cases "so_root (pn_source pn) = IsDirectory")
  case True
  then show ?thesis
    using assms that unfolding build_plan_def Let_def
    by (auto elim!: bindS_InrE dest!: liftS_InrD simp: returnS_def)
qed (use assms in \<open>auto simp: build_plan_def liftS_def elim!: bindS_InrE\<close>)

section \<open>Policy\<close>

lemma resolved_policy:
  assumes "resolve_policy fp policy = Inr (merged, policy_fp)"
  shows "validate_policy merged = Inr ()" and "schema_version_text other merged = ''1''"
proof -
  show v: "validate_policy merged = Inr ()" using assms by (auto simp: resolve_policy_def bindE_Inr_iff Let_def)
  have "validate_schema_version merged = Inr ()" using v by (simp add: validate_policy_def bindE_Inr_iff)
  then have "map_of merged ''schema_version'' = Some (JInt 1)"
    by (auto simp: validate_schema_version_def SUPPORTED_SCHEMA_VERSION_def split: option.splits json.splits)
  moreover have "map char_of (int_text 1) = ''1''" by code_simp
  ultimately show "schema_version_text other merged = ''1''" by (simp add: schema_version_text_def)
qed

lemma classified_action:
  assumes "validate_policy m = Inr ()" and "classify_field_capability other c name supported binary system nocptrans m = Inr (action, unsafe, sys)"
  shows "set_option action \<subseteq> set SUPPORTED_CLASSES" and "sys \<Longrightarrow> action = None \<and> \<not> unsafe \<and> c = CHR ''0''" and "action \<noteq> None \<Longrightarrow> \<not> unsafe"
    and "c \<in> set ''NFIYBL'' \<Longrightarrow> action = None"
proof -
  show "set_option action \<subseteq> set SUPPORTED_CLASSES"
  proof (cases "type_slot c")
    case None
    then show ?thesis using assms(2) unfolding classify_cases by (auto split: if_splits)
  next
    case (Some q)
    obtain a sec k where q: "type_slot c = Some (a, sec, k)" using Some by (cases q) auto
    have "a \<in> set SUPPORTED_CLASSES"
      using q by (auto simp: type_slot_def SUPPORTED_CLASSES_def ACTION_TEXT_def ACTION_MEMO_def ACTION_TEMPORAL_def split: if_splits)
    then show ?thesis
      using assms(2) slot_action_vocabulary [OF assms(1) q, of other] unfolding classify_cases q by (auto simp: Let_def split: if_splits)
  qed
  show "sys \<Longrightarrow> action = None \<and> \<not> unsafe \<and> c = CHR ''0''" "action \<noteq> None \<Longrightarrow> \<not> unsafe"
    using assms(2) unfolding classify_cases by (auto simp: Let_def split: if_splits option.splits prod.splits)
  show "c \<in> set ''NFIYBL'' \<Longrightarrow> action = None"
    using assms(2) type_slot_types [of c] unfolding classify_cases by (auto simp: Let_def split: if_splits option.splits prod.splits)
qed

section \<open>The fields\<close>

text \<open>The classes a field contributes: its action, or the reversible numeric one.\<close>

definition planned :: "(json \<Rightarrow> string) \<Rightarrow> dict \<Rightarrow> member_site list \<Rightarrow> string \<Rightarrow> field_info \<Rightarrow> string list" where
  "planned other merged nf path f =
     (case classify_field_capability other (sf_type f) (sf_name f) (si_supported f) (si_binary f) (si_system f) (si_nocptrans f) merged of
        Inl e \<Rightarrow> []
      | Inr (Some a, unsafe, system) \<Rightarrow> [a]
      | Inr (None, unsafe, system) \<Rightarrow> if \<not> unsafe \<and> (path, sf_name f) \<in> set nf then [ACTION_TEXT] else [])"

definition bound_fact :: "string \<Rightarrow> string \<Rightarrow> field_info \<times> bool \<times> bool \<Rightarrow> member_site \<times> rebound_fact" where
  "bound_fact path encoding x = (case x of (f, autoincrement, nullable) \<Rightarrow>
     ((path, sf_name f), ([sf_type f], sf_length f, encoding, sf_decimals f, autoincrement, nullable)))"

lemma plan_field_Inr:
  assumes "plan_field pn merged nf path encoding x ty = Inr ty'"
  shows "ty_transform ty' = ty_transform ty + int (length (planned (pn_other pn) merged nf path (fst x)))"
    and "ty_classes ty' = planned (pn_other pn) merged nf path (fst x) @ ty_classes ty"
    and "ty_facts ty' = bound_fact path encoding x # ty_facts ty"
    and "ty_unsafe ty \<le> ty_unsafe ty'"
    and "ty_unsafe ty' = ty_unsafe ty \<Longrightarrow> validate_policy merged = Inr () \<Longrightarrow> \<exists>action system.
      classify_field_capability (pn_other pn) (sf_type (fst x)) (sf_name (fst x)) (si_supported (fst x)) (si_binary (fst x)) (si_system (fst x)) (si_nocptrans (fst x)) merged
        = Inr (action, False, system)"
proof -
  obtain f autoincrement nullable where x: "x = (f, autoincrement, nullable)" by (cases x)
  obtain review action unsafe system where
    c: "classify_field_capability (pn_other pn) (sf_type f) (sf_name f) (si_supported f) (si_binary f) (si_system f) (si_nocptrans f) merged = Inr (action, unsafe, system)"
    and ty': "ty' = (let reverses = action = None \<and> \<not> unsafe \<and> (path, sf_name f) \<in> set nf;
                planned = (case action of Some a \<Rightarrow> [a] | None \<Rightarrow> if reverses then [''PSEUDONYMIZE_REVERSIBLE''] else [])
            in \<lparr>ty_transform = ty_transform ty + int (length planned),
                    ty_unsupported = ty_unsupported ty + (if \<not> si_supported f \<and> \<not> system then 1 else 0),
                    ty_unsafe = ty_unsafe ty + (if action = None \<and> unsafe then 1 else 0),
                    ty_system = ty_system ty + (if system then 1 else 0),
                    ty_classes = planned @ ty_classes ty,
                    ty_facts = ((path, sf_name f), ([sf_type f], sf_length f, encoding, sf_decimals f, autoincrement, nullable)) # ty_facts ty,
                    ty_review = review\<rparr>)"
    using assms unfolding plan_field_def x by (auto simp: bindE_Inr_iff Let_def)
  have p: "planned (pn_other pn) merged nf path f = (case action of Some a \<Rightarrow> [a] | None \<Rightarrow> if \<not> unsafe \<and> (path, sf_name f) \<in> set nf then [ACTION_TEXT] else [])"
    by (cases action) (simp_all add: planned_def c)
  show "ty_transform ty' = ty_transform ty + int (length (planned (pn_other pn) merged nf path (fst x)))"
    "ty_classes ty' = planned (pn_other pn) merged nf path (fst x) @ ty_classes ty" "ty_facts ty' = bound_fact path encoding x # ty_facts ty"
    "ty_unsafe ty \<le> ty_unsafe ty'"
    by (cases action; simp add: ty' x p Let_def ACTION_TEXT_def bound_fact_def)+
  assume "ty_unsafe ty' = ty_unsafe ty" "validate_policy merged = Inr ()"
  then show "\<exists>action system. classify_field_capability (pn_other pn) (sf_type (fst x)) (sf_name (fst x)) (si_supported (fst x)) (si_binary (fst x)) (si_system (fst x)) (si_nocptrans (fst x)) merged
        = Inr (action, False, system)"
    using c classified_action(3) [OF _ c] by (cases "action = None") (auto simp: ty' x Let_def split: if_splits)
qed

lemma plan_fields_Inr:
  assumes "foldE (plan_field pn merged nf path encoding) xs ty = Inr ty'"
  shows "ty_transform ty' = ty_transform ty + int (length (concat (map (planned (pn_other pn) merged nf path \<circ> fst) xs)))"
    and "set (ty_classes ty') = set (ty_classes ty) \<union> set (concat (map (planned (pn_other pn) merged nf path \<circ> fst) xs))"
    and "ty_facts ty' = rev (map (bound_fact path encoding) xs) @ ty_facts ty"
    and "ty_unsafe ty \<le> ty_unsafe ty'"
    and "ty_unsafe ty' = ty_unsafe ty \<Longrightarrow> validate_policy merged = Inr () \<Longrightarrow> x \<in> set xs \<Longrightarrow> \<exists>action system.
      classify_field_capability (pn_other pn) (sf_type (fst x)) (sf_name (fst x)) (si_supported (fst x)) (si_binary (fst x)) (si_system (fst x)) (si_nocptrans (fst x)) merged
        = Inr (action, False, system)"
proof -
  have "ty_transform ty' = ty_transform ty + int (length (concat (map (planned (pn_other pn) merged nf path \<circ> fst) xs)))
    \<and> set (ty_classes ty') = set (ty_classes ty) \<union> set (concat (map (planned (pn_other pn) merged nf path \<circ> fst) xs))
    \<and> ty_facts ty' = rev (map (bound_fact path encoding) xs) @ ty_facts ty \<and> ty_unsafe ty \<le> ty_unsafe ty'
    \<and> (ty_unsafe ty' = ty_unsafe ty \<longrightarrow> validate_policy merged = Inr () \<longrightarrow> (\<forall>x\<in>set xs. \<exists>action system.
      classify_field_capability (pn_other pn) (sf_type (fst x)) (sf_name (fst x)) (si_supported (fst x)) (si_binary (fst x)) (si_system (fst x)) (si_nocptrans (fst x)) merged
        = Inr (action, False, system)))"
    using assms
  proof (induction xs arbitrary: ty)
    case (Cons y xs)
    then obtain ty1 where ty1: "plan_field pn merged nf path encoding y ty = Inr ty1" "foldE (plan_field pn merged nf path encoding) xs ty1 = Inr ty'"
      by (auto simp: bindE_Inr_iff)
    note one = plan_field_Inr [OF ty1(1)] and rest = Cons.IH [OF ty1(2)]
    show ?case using one rest by (auto simp: add_increasing)
  qed simp
  then show "ty_transform ty' = ty_transform ty + int (length (concat (map (planned (pn_other pn) merged nf path \<circ> fst) xs)))"
    "set (ty_classes ty') = set (ty_classes ty) \<union> set (concat (map (planned (pn_other pn) merged nf path \<circ> fst) xs))"
    "ty_facts ty' = rev (map (bound_fact path encoding) xs) @ ty_facts ty" "ty_unsafe ty \<le> ty_unsafe ty'"
    "ty_unsafe ty' = ty_unsafe ty \<Longrightarrow> validate_policy merged = Inr () \<Longrightarrow> x \<in> set xs \<Longrightarrow> \<exists>action system.
      classify_field_capability (pn_other pn) (sf_type (fst x)) (sf_name (fst x)) (si_supported (fst x)) (si_binary (fst x)) (si_system (fst x)) (si_nocptrans (fst x)) merged
        = Inr (action, False, system)" by blast+
qed

section \<open>The tables\<close>

definition read_fields :: "planning \<Rightarrow> string \<Rightarrow> (field_info \<times> bool \<times> bool) list" where
  "read_fields pn path = (case pn_read pn path of Inl e \<Rightarrow> [] | Inr facts \<Rightarrow> zip (ss_fields (tf_schema facts)) (tf_field_bits facts))"

definition read_encoding :: "planning \<Rightarrow> string \<Rightarrow> string" where
  "read_encoding pn path = (case pn_read pn path of Inl e \<Rightarrow> [] | Inr facts \<Rightarrow> ss_encoding (tf_schema facts))"

definition path_classes :: "planning \<Rightarrow> dict \<Rightarrow> member_site list \<Rightarrow> string \<Rightarrow> string list" where
  "path_classes pn merged nf path = concat (map (planned (pn_other pn) merged nf path \<circ> fst) (read_fields pn path))"

definition path_facts :: "planning \<Rightarrow> string \<Rightarrow> (member_site \<times> rebound_fact) list" where
  "path_facts pn path = rev (map (bound_fact path (read_encoding pn path)) (read_fields pn path))"

definition safe_fields :: "planning \<Rightarrow> dict \<Rightarrow> string \<Rightarrow> bool" where
  "safe_fields pn merged path \<longleftrightarrow> (\<forall>x\<in>set (read_fields pn path). \<exists>action system.
      classify_field_capability (pn_other pn) (sf_type (fst x)) (sf_name (fst x)) (si_supported (fst x)) (si_binary (fst x)) (si_system (fst x)) (si_nocptrans (fst x)) merged
        = Inr (action, False, system))"

definition planned_table :: "planning \<Rightarrow> dict \<Rightarrow> member_site list \<Rightarrow> transfer_profile \<Rightarrow> discovered_table \<Rightarrow> table_plan \<Rightarrow> bool" where
  "planned_table pn merged nf profile t tp \<longleftrightarrow> (\<exists>facts. pn_read pn (dt_path t) = Inr facts)
     \<and> public_relative_path (dt_path t) = Inr (tp_path tp) \<and> tp_index_strategy tp = resolve_index_strategy (dt_structural_cdx t) profile
     \<and> tp_transform_count tp = int (length (path_classes pn merged nf (dt_path t))) \<and> (tp_unsafe tp = 0 \<longrightarrow> safe_fields pn merged (dt_path t))"

lemma check_table_plan_Inr:
  assumes "check_table_plan t = Inr t'"
  obtains path memo where "t' = t\<lparr>tp_path := path, tp_memo_path := memo\<rparr>" "public_relative_path (tp_path t) = Inr path"
  using assms by (auto simp: check_table_plan_def bindE_Inr_iff)

lemma plan_source_tables_Inr:
  assumes "plan_source_tables cb pn merged nf profile ts ty s = (Inr (tables, ty'), s')" and v: "validate_policy merged = Inr ()"
  shows "list_all2 (planned_table pn merged nf profile) ts tables \<and> set (ty_classes ty') = set (ty_classes ty) \<union> (\<Union>t\<in>set ts. set (path_classes pn merged nf (dt_path t)))
    \<and> ty_facts ty' = concat (rev (map (path_facts pn \<circ> dt_path) ts)) @ ty_facts ty"
  using assms(1)
proof (induction ts arbitrary: ty s tables)
  case (Cons t ts)
  obtain facts ty1 tp rest s1 where facts: "pn_read pn (dt_path t) = Inr facts"
    and ty1: "foldE (plan_field pn merged nf (dt_path t) (ss_encoding (tf_schema facts))) (zip (ss_fields (tf_schema facts)) (tf_field_bits facts))
       (fresh_tally (ty_classes ty) (ty_facts ty) (ty_review ty)) = Inr ty1"
    and tp: "check_table_plan \<lparr>tp_path = dt_path t, tp_memo_path = dt_memo_path t, tp_record_count = dt_record_count t,
              tp_field_count = dt_field_count t, tp_transform_count = ty_transform ty1, tp_structural_cdx = dt_structural_cdx t,
              tp_dbc_bound = dt_dbc_bound t, tp_index_strategy = resolve_index_strategy (dt_structural_cdx t) profile,
              tp_memo_required = tf_has_memo facts, tp_memo_present = tf_memo_present facts, tp_cdx_present = tf_cdx_present facts,
              tp_unsupported = ty_unsupported ty1, tp_unsafe = ty_unsafe ty1, tp_system = ty_system ty1\<rparr> = Inr tp"
    and rest: "plan_source_tables cb pn merged nf profile ts ty1 s1 = (Inr (rest, ty'), s')" "tables = tp # rest"
    using Cons.prems unfolding plan_source_tables.simps
    by (elim bindS_InrE) (auto simp: returnS_def liftS_def elim!: bindS_InrE dest!: wrap_InrE)
  obtain path memo where tp': "tp_path tp = path" "tp_index_strategy tp = resolve_index_strategy (dt_structural_cdx t) profile"
    "tp_transform_count tp = ty_transform ty1" "tp_unsafe tp = ty_unsafe ty1" "public_relative_path (dt_path t) = Inr path"
    by (rule check_table_plan_Inr [OF tp]) auto
  note fields = plan_fields_Inr [OF ty1]
  have r: "read_fields pn (dt_path t) = zip (ss_fields (tf_schema facts)) (tf_field_bits facts)" "read_encoding pn (dt_path t) = ss_encoding (tf_schema facts)"
    by (simp_all add: read_fields_def read_encoding_def facts)
  have "planned_table pn merged nf profile t tp"
    unfolding planned_table_def safe_fields_def path_classes_def r tp'
    using facts tp'(5) fields(1) fields(5) [OF _ v] by (auto simp: fresh_tally_def)
  moreover have "set (ty_classes ty1) = set (ty_classes ty) \<union> set (path_classes pn merged nf (dt_path t))"
    "ty_facts ty1 = path_facts pn (dt_path t) @ ty_facts ty"
    using fields(2,3) by (simp_all add: path_classes_def path_facts_def r fresh_tally_def)
  ultimately show ?case using Cons.IH [OF rest(1)] rest(2) by auto
qed (simp add: returnS_def)

section \<open>The members\<close>

lemma bind_member_Inr:
  assumes "bind_member codec paths facts g m st = Inr st'" and "\<forall>site b. map_of (fst st) site = Some b \<longrightarrow> map_of facts site = Some b"
  shows "(\<forall>site b. map_of (fst st') site = Some b \<longrightarrow> map_of facts site = Some b) \<and> fst st' \<noteq> [] \<and> set (fst st) \<subseteq> set (fst st')
    \<and> (\<exists>b. map_of (fst st') (rm_table_path m, rm_field_name m) = Some b) \<and> rm_table_path m \<in> set paths
    \<and> member_rebound (map_of facts) g m"
proof -
  obtain ty len encoding decimals autoincrement nullable where
    f: "map_of facts (rm_table_path m, rm_field_name m) = Some (ty, len, encoding, decimals, autoincrement, nullable)"
    and path: "rm_table_path m \<in> set paths" and tl: "rm_dbf_type m = ty" "rm_byte_width m = len"
    and st': "fst st' = ((rm_table_path m, rm_field_name m), (ty, len, encoding, decimals, autoincrement, nullable)) # fst st"
    and num: "is_numeric_member m \<Longrightarrow> reversible g \<Longrightarrow> \<not> (rm_dbf_type m = ''N'' \<and> decimals \<noteq> 0) \<and> \<not> autoincrement"
    using assms(1) unfolding bind_member_def bind_numeric_member_def
    by (auto simp: bindE_Inr_iff Let_def split: option.splits prod.splits if_splits)
  have "member_rebound (map_of facts) g m" using f tl num by (auto simp: member_rebound_def)
  then show ?thesis using f path assms(2) by (auto simp: st')
qed

lemma fold_members_Inr:
  assumes "foldE (\<lambda>(g, m). bind_member codec paths facts g m) gms st = Inr st'" and "\<forall>site b. map_of (fst st) site = Some b \<longrightarrow> map_of facts site = Some b"
  shows "(\<forall>site b. map_of (fst st') site = Some b \<longrightarrow> map_of facts site = Some b) \<and> set (fst st) \<subseteq> set (fst st')
    \<and> (\<forall>(g, m)\<in>set gms. fst st' \<noteq> [] \<and> (\<exists>b. map_of (fst st') (rm_table_path m, rm_field_name m) = Some b) \<and> rm_table_path m \<in> set paths
         \<and> member_rebound (map_of facts) g m)"
  using assms
proof (induction gms arbitrary: st)
  case (Cons gm gms)
  obtain g m where gm: "gm = (g, m)" by (cases gm)
  obtain st1 where st1: "bind_member codec paths facts g m st = Inr st1" "foldE (\<lambda>(g, m). bind_member codec paths facts g m) gms st1 = Inr st'"
    using Cons.prems(1) gm by (auto simp: bindE_Inr_iff)
  note one = bind_member_Inr [OF st1(1) Cons.prems(2)]
  note rest = Cons.IH [OF st1(2) conjunct1 [OF one]]
  obtain b where "((rm_table_path m, rm_field_name m), b) \<in> set (fst st1)" using one map_of_SomeD by fast
  then have mem: "((rm_table_path m, rm_field_name m), b) \<in> set (fst st')" using rest by blast
  then have "fst st' \<noteq> []" "\<exists>b. map_of (fst st') (rm_table_path m, rm_field_name m) = Some b" using weak_map_of_SomeI [OF mem] by auto
  then show ?case using one rest gm by auto
qed simp

section \<open>The assembled plan\<close>

lemma assemble_plan_Inr:
  assumes "assemble_plan pn source output vault idx_paths found source_fp merged policy_fp doc meta binding profile tables ty st = Inr p"
  shows "pl_tables p = sort_key tp_path tables" and "pl_relationships p = meta" and "pl_profile p = profile"
    and "pl_policy p = \<lparr>ps_schema_version = schema_version_text (pn_other pn) merged, ps_fingerprint = policy_fp,
        ps_transformed_count = sum_list (map tp_transform_count tables), ps_relationship_count = md_relation_count meta,
        ps_recovery_enabled = (ty_classes ty \<noteq> []), ps_classes = sort (remdups (ty_classes ty)),
        ps_vault_strategy = resolve_vault_strategy (ty_classes ty \<noteq> [])\<rparr>"
    and "pl_context p = Some \<lparr>xc_source_root = source, xc_output_root = output, xc_vault_path = vault, xc_document = doc,
        xc_bindings = (if fst st = [] then None else Some (map_of (fst st))), xc_authority = binding, xc_policy = Some merged\<rparr>"
    and "da_source_fingerprint (pl_dataset p) = source_fp" and "map tp_path (pl_tables p) = da_table_paths (pl_dataset p)"
    and "mapE public_relative_path (map dt_path found) = Inr (da_table_paths (pl_dataset p))" and "distinct (da_table_paths (pl_dataset p))"
proof -
  have ne: "sort (remdups xs) \<noteq> [] \<longleftrightarrow> xs \<noteq> []" for xs :: "string list"
    by (metis remdups_eq_nil_iff set_empty2 set_sort)
  show "pl_tables p = sort_key tp_path tables" "pl_relationships p = meta" "pl_profile p = profile"
    "pl_policy p = \<lparr>ps_schema_version = schema_version_text (pn_other pn) merged, ps_fingerprint = policy_fp,
        ps_transformed_count = sum_list (map tp_transform_count tables), ps_relationship_count = md_relation_count meta,
        ps_recovery_enabled = (ty_classes ty \<noteq> []), ps_classes = sort (remdups (ty_classes ty)),
        ps_vault_strategy = resolve_vault_strategy (ty_classes ty \<noteq> [])\<rparr>"
    "pl_context p = Some \<lparr>xc_source_root = source, xc_output_root = output, xc_vault_path = vault, xc_document = doc,
        xc_bindings = (if fst st = [] then None else Some (map_of (fst st))), xc_authority = binding, xc_policy = Some merged\<rparr>"
    "da_source_fingerprint (pl_dataset p) = source_fp" "map tp_path (pl_tables p) = da_table_paths (pl_dataset p)"
    "mapE public_relative_path (map dt_path found) = Inr (da_table_paths (pl_dataset p))" "distinct (da_table_paths (pl_dataset p))"
    using assms unfolding assemble_plan_def check_plan_def check_policy_summary_def check_dataset_identity_def value_check_def Let_def ne
    by (auto simp: bindE_Inr_iff)
qed

lemma planned_supported:
  assumes "validate_policy merged = Inr ()"
  shows "set (planned other merged nf path f) \<subseteq> set SUPPORTED_CLASSES"
proof (cases "classify_field_capability other (sf_type f) (sf_name f) (si_supported f) (si_binary f) (si_system f) (si_nocptrans f) merged")
  case (Inr r)
  obtain action unsafe system where r: "r = (action, unsafe, system)" by (cases r)
  have "ACTION_TEXT \<in> set SUPPORTED_CLASSES" by (simp add: SUPPORTED_CLASSES_def)
  then show ?thesis using classified_action(1) [OF assms Inr [unfolded r]] by (cases action) (auto simp: planned_def Inr r)
qed (simp add: planned_def)

lemma path_classes_supported: "validate_policy merged = Inr () \<Longrightarrow> set (path_classes pn merged nf path) \<subseteq> set SUPPORTED_CLASSES"
  using planned_supported by (fastforce simp: path_classes_def)

lemma assembled_consistent:
  assumes "assemble_plan pn source output vault idx_paths found source_fp merged policy_fp doc meta binding profile tables ty st = Inr p"
    and "resolve_policy fp policy = Inr (merged, policy_fp)" and "set (ty_classes ty) \<subseteq> set SUPPORTED_CLASSES"
    and "list_all2 (planned_table pn merged nf profile) found tables"
  shows "\<not> policy_inconsistent p"
proof -
  note plan = assemble_plan_Inr [OF assms(1)]
  have version: "schema_version_text (pn_other pn) merged = ''1''" by (rule resolved_policy(2) [OF assms(2)])
  have "tp_index_strategy t \<in> {''DATA_ONLY'', ''VFP_INDEXED''} \<and> (profile = DATA_ONLY \<longrightarrow> tp_index_strategy t = ''DATA_ONLY'')" if t: "t \<in> set tables" for t
    using assms(4) t by (auto simp: list_all2_conv_all_nth in_set_conv_nth planned_table_def resolve_index_strategy_def)
  then have strategies: "\<not> list_ex (\<lambda>t. tp_index_strategy t \<notin> {''DATA_ONLY'', ''VFP_INDEXED''} \<or> (pl_profile p = DATA_ONLY \<and> tp_index_strategy t = ''VFP_INDEXED'')) (pl_tables p)"
    by (force simp: list_ex_iff plan(1,3))
  have classes: "\<not> list_ex (\<lambda>c. c \<notin> set SUPPORTED_CLASSES) (sort (remdups (ty_classes ty)))" using assms(3) by (auto simp: list_ex_iff)
  have ne: "sort (remdups (ty_classes ty)) \<noteq> [] \<longleftrightarrow> ty_classes ty \<noteq> []" by (metis remdups_eq_nil_iff set_empty2 set_sort)
  show ?thesis
    unfolding policy_inconsistent_def Let_def using strategies classes ne by (simp add: plan(2,4) version resolve_vault_strategy_def)
qed

section \<open>The source that did not change\<close>

lemma silent_progress: "progress silent phase k units table = returnS ()"
  by (simp add: progress_def emit_def silent_def)

lemma hash_artifacts_phase: "hash_artifacts silent sha so phase n d rels = hash_artifacts silent sha so phase' n d rels"
  by (induction rels arbitrary: d) (simp_all add: silent_progress)

lemma walk_files_strict: "walk_files silent True extensions dirs s = (Inr names, s') \<Longrightarrow> walk_files silent False extensions dirs s = (Inr names, s')"
proof (induction dirs arbitrary: names s s')
  case (Cons d dirs)
  show ?case
  proof (cases d)
    case (Inr xs)
    obtain u s1 rest s2 where "check_cancel silent s = (Inr u, s1)" "walk_files silent True extensions dirs s1 = (Inr rest, s2)"
      "names = filter (has_extension extensions) xs @ rest" "s' = s2"
      using Cons.prems Inr by (auto simp: returnS_def elim!: bindS_InrE)
    then show ?thesis using Cons.IH by (simp add: Inr bindS_def returnS_def)
  qed (use Cons in \<open>simp add: liftS_def\<close>)
qed simp

lemma enumerate_strict:
  assumes "enumerate_in_scope_paths silent True so s = (Inr names, s')"
  shows "enumerate_in_scope_paths silent False so s = (Inr names, s')"
proof -
  have root: "so_root so = IsDirectory" and walk: "walk_files silent True IN_SCOPE_EXTENSIONS (so_walk so) s = (Inr names, s')"
    using assms unfolding enumerate_in_scope_paths_def by (cases "so_root so"; auto simp: bindS_def liftS_def)+
  then show ?thesis using walk_files_strict by (simp add: enumerate_in_scope_paths_def)
qed

lemma unchanged_entries:
  assumes "collect_fingerprint_entries cb sha False so ''FINGERPRINT'' s = (Inr entries, s')"
    and "fst (collect_fingerprint_entries silent sha True so phase t) = Inr entries'"
  shows "entries' = entries"
proof -
  obtain t' where t': "collect_fingerprint_entries silent sha True so phase t = (Inr entries', t')" using assms(2) by (metis prod.collapse)
  then have "collect_fingerprint_entries silent sha False so ''FINGERPRINT'' t = (Inr entries', t')"
    unfolding collect_fingerprint_entries_def
    by (elim bindS_InrE) (auto simp: bindS_def dest!: enumerate_strict simp: hash_artifacts_phase [of sha so phase _ _ _ "''FINGERPRINT''"])
  then show ?thesis using transparentD(2) [OF transparent_entries assms(1), of t] by (simp add: ordinary_def)
qed

section \<open>Bindings and schemas\<close>

text \<open>The schemas as the engine reads them.\<close>

definition plan_read :: "planning \<Rightarrow> string \<Rightarrow> source_schema result" where
  "plan_read pn path = map_sum id tf_schema (pn_read pn path)"

lemma path_factsD:
  assumes "map_of (concat (map (path_facts pn) paths)) (path, name) = Some (ty, rest)"
  obtains facts f where "path \<in> set paths" "pn_read pn path = Inr facts" "f \<in> set (ss_fields (tf_schema facts))" "sf_name f = name" "[sf_type f] = ty"
proof -
  obtain q x where q: "q \<in> set paths" "x \<in> set (read_fields pn q)" "bound_fact q (read_encoding pn q) x = ((path, name), (ty, rest))"
    using map_of_SomeD [OF assms] by (force simp: path_facts_def)
  show ?thesis
  proof (cases "pn_read pn q")
    case (Inr facts)
    obtain f bits where x: "x = (f, bits)" by (cases x)
    have "f \<in> set (ss_fields (tf_schema facts))" using q(2) by (auto simp: x read_fields_def Inr dest: set_zip_leftD)
    moreover have "q = path" "sf_name f = name" "[sf_type f] = ty" using q(3) by (auto simp: x bound_fact_def split: prod.splits)
    ultimately show ?thesis using that q(1) Inr by blast
  qed (use q(2) in \<open>simp add: read_fields_def\<close>)
qed

lemma bind_members_Inr:
  assumes "bind_members codec paths facts (Some doc) review = Inr st" and "g \<in> set (rd_groups doc)" and "m \<in> set (rg_members g)"
  shows "fst st \<noteq> []" and "member_rebound (map_of (fst st)) g m" and "rm_table_path m \<in> set paths"
    and "\<exists>rest. map_of facts (rm_table_path m, rm_field_name m) = Some (rm_dbf_type m, rest)"
proof -
  let ?gms = "concat (map (\<lambda>g. map (Pair g) (rg_members g)) (rd_groups doc))"
  have fold: "foldE (\<lambda>(g, m). bind_member codec paths facts g m) ?gms ([], review) = Inr st"
    using assms(1) by (simp add: bind_members_def bindE_Inr_iff)
  have gm: "(g, m) \<in> set ?gms" using assms(2,3) by auto
  note all = fold_members_Inr [OF fold]
  obtain b where b: "fst st \<noteq> []" "map_of (fst st) (rm_table_path m, rm_field_name m) = Some b" "rm_table_path m \<in> set paths"
    "member_rebound (map_of facts) g m" "map_of facts (rm_table_path m, rm_field_name m) = Some b"
    using all gm by fastforce
  show "fst st \<noteq> []" "rm_table_path m \<in> set paths" by (rule b)+
  show "member_rebound (map_of (fst st)) g m" using b by (simp add: member_rebound_def)
  show "\<exists>rest. map_of facts (rm_table_path m, rm_field_name m) = Some (rm_dbf_type m, rest)"
    using b by (auto simp: member_rebound_def split: prod.splits)
qed

end
