(* ===== verification/Plan_Directives.thy ===== *)
theory Plan_Directives
  imports Plan_Agreement
begin

text \<open>
  What a plan counts as transformed is what the engine transforms: \<open>build_engine_plan\<close> of \<^verbatim>\<open>engine/run.py\<close>
  reads the schemas again and resolves the stored, already merged policy a second time; the directives
  it derives are, table by table and field by field, those that \<open>build_plan\<close> announced.
\<close>

section \<open>The policy is resolved twice\<close>

lemma distinct_deep_merge: "distinct (map fst base) \<Longrightarrow> distinct (map fst (deep_merge base override))"
proof (induction override arbitrary: base)
  case (Cons kv rest)
  obtain k v where kv: "kv = (k, v)" by (cases kv)
  show ?case unfolding kv deep_merge_Cons by (rule Cons.IH [OF distinct_update [OF Cons.prems]])
qed simp

lemma merged_dict_ok:
  assumes "\<forall>q. policy = Some q \<longrightarrow> dict_ok q"
  shows "dict_ok (merge_with_defaults policy)"
proof -
  have dflt: "distinct (map fst DEFAULT_POLICY)" by code_simp
  have "list_all (\<lambda>kv. case snd kv of JObj kvs \<Rightarrow> distinct (map fst kvs) | _ \<Rightarrow> True) DEFAULT_POLICY" by code_simp
  then have nested: "distinct (map fst kvs)" if "map_of DEFAULT_POLICY k = Some (JObj kvs)" for k kvs
    using map_of_SomeD [OF that] by (auto simp: list_all_iff)
  show ?thesis
  proof (cases policy)
    case None
    have "dict_ok DEFAULT_POLICY" unfolding dict_ok_def using dflt nested by blast
    then show ?thesis using None by (simp add: merge_with_defaults_def)
  next
    case (Some q)
    have q: "distinct (map fst q)" "\<And>k kvs. map_of q k = Some (JObj kvs) \<Longrightarrow> distinct (map fst kvs)"
      using assms Some by (auto simp: dict_ok_def)
    have "distinct (map fst kvs)" if kvs: "map_of (deep_merge DEFAULT_POLICY q) k = Some (JObj kvs)" for k kvs
    proof (cases "map_of q k")
      case None
      then have "map_of DEFAULT_POLICY k = Some (JObj kvs)" using kvs by (simp add: merge_lookup [OF q(1)])
      then show ?thesis by (rule nested)
    next
      case (Some v)
      then have "merge_value (map_of DEFAULT_POLICY k) v = JObj kvs" using kvs by (simp add: merge_lookup [OF q(1)])
      then consider "v = JObj kvs" | override nested_kvs where "map_of DEFAULT_POLICY k = Some (JObj nested_kvs)" "kvs = deep_merge nested_kvs override"
        by (auto simp: merge_value_def split: json.splits option.splits)
      then show ?thesis
      proof cases
        case 1
        then show ?thesis using q(2) Some by blast
      next
        case 2
        then show ?thesis using distinct_deep_merge nested by blast
      qed
    qed
    then have "dict_ok (deep_merge DEFAULT_POLICY q)" unfolding dict_ok_def using distinct_deep_merge [OF dflt] by blast
    then show ?thesis using Some by (simp add: merge_with_defaults_def)
  qed
qed

lemma remerged_slot:
  assumes "dict_ok m" and "validate_policy m = Inr ()" and "type_slot c = Some (action, section, key)"
  shows "slot_action other (merge_with_defaults (Some m)) action section key = slot_action other m action section key"
proof -
  note slot = type_slot_cases [OF assms(3)]
  obtain dflt where dflt: "map_of DEFAULT_POLICY section = Some (JObj dflt)" "map_of dflt key = Some (JStr action)" using slot(4) by auto
  have look: "map_of (merge_with_defaults (Some m)) section = (case map_of m section of None \<Rightarrow> Some (JObj dflt) | Some v \<Rightarrow> Some (merge_value (Some (JObj dflt)) v))"
    using assms(1) dflt by (cases "map_of m section") (simp_all add: merge_with_defaults_def merge_lookup dict_ok_def)
  show ?thesis
  proof (cases "map_of m section")
    case (Some v)
    then obtain kvs where kvs: "v = JObj kvs" "\<forall>w. map_of kvs key = Some w \<longrightarrow> w \<in> JStr ` set (action_vocabulary section)"
      using validated_slot [OF assms(2) slot(1)] by blast
    have "distinct (map fst kvs)" using assms(1) Some kvs(1) by (simp add: dict_ok_def)
    then have key: "map_of (deep_merge dflt kvs) key = (case map_of kvs key of None \<Rightarrow> Some (JStr action) | Some w \<Rightarrow> Some (merge_value (Some (JStr action)) w))"
      using dflt(2) by (cases "map_of kvs key") (simp_all add: merge_lookup)
    have "merge_value (Some (JStr action)) w = w" for w by (cases w) (simp_all add: merge_value_def)
    then show ?thesis using key look Some kvs(1) by (cases "map_of kvs key") (simp_all add: slot_action_def merge_value_def)
  qed (use look dflt in \<open>simp add: slot_action_def\<close>)
qed

lemma remerged_classification:
  assumes "dict_ok m" and "validate_policy m = Inr ()"
  shows "classify_field_capability other c name supported binary system nocptrans (merge_with_defaults (Some m))
    = classify_field_capability other c name supported binary system nocptrans m"
  unfolding classify_cases using remerged_slot [OF assms] by (auto simp: Let_def split: option.split prod.split)

section \<open>The numeric members\<close>

lemma numeric_member_iff:
  "(path, name) \<in> set (numeric_reversible_fields effective) \<longleftrightarrow> numeric_member_of (numeric_groups_of D effective) path name \<noteq> None"
  by (auto simp: numeric_member_of_def find_None_iff numeric_reversible_fields_def list_ex_iff)

definition numeric_typed :: "planning \<Rightarrow> member_site list \<Rightarrow> bool" where
  "numeric_typed pn nf \<longleftrightarrow> (\<forall>path facts f. pn_read pn path = Inr facts \<longrightarrow> f \<in> set (ss_fields (tf_schema facts))
     \<longrightarrow> (path, sf_name f) \<in> set nf \<longrightarrow> sf_type f \<in> set ''NI'')"

text \<open>A reader that answers with public paths, one pair of bits per field and each field name once.\<close>

definition faithful_reader :: "planning \<Rightarrow> bool" where
  "faithful_reader pn \<longleftrightarrow> (\<forall>path facts. pn_read pn path = Inr facts \<longrightarrow> public_relative_path path = Inr path
     \<and> length (tf_field_bits facts) = length (ss_fields (tf_schema facts)) \<and> distinct (map sf_name (ss_fields (tf_schema facts))))"

lemma bound_numeric_typed:
  assumes "bind_members codec paths' (concat (map (path_facts pn) paths)) (Some doc) review = Inr st" and "faithful_reader pn"
  shows "numeric_typed pn (numeric_reversible_fields (effective_groups doc))"
  unfolding numeric_typed_def
proof (intro allI impI)
  fix path facts f
  assume facts: "pn_read pn path = Inr facts" and f: "f \<in> set (ss_fields (tf_schema facts))"
    and nf: "(path, sf_name f) \<in> set (numeric_reversible_fields (effective_groups doc))"
  obtain g m where g: "g \<in> set (rd_groups doc)" and m: "m \<in> set (rg_members g)" "is_numeric_member m" "rm_table_path m = path" "rm_field_name m = sf_name f"
    using nf effective_subset [of doc] by (auto simp: numeric_reversible_fields_def)
  obtain rest where "map_of (concat (map (path_facts pn) paths)) (path, sf_name f) = Some (rm_dbf_type m, rest)"
    using bind_members_Inr(4) [OF assms(1) g m(1)] m(3,4) by auto
  then obtain facts' f' where f': "pn_read pn path = Inr facts'" "f' \<in> set (ss_fields (tf_schema facts'))" "sf_name f' = sf_name f" "[sf_type f'] = rm_dbf_type m"
    by (rule path_factsD)
  have "distinct (map sf_name (ss_fields (tf_schema facts)))" using assms(2) facts by (simp add: faithful_reader_def)
  then have "f' = f" using f f'(1,2,3) facts by (auto dest: eq_key_imp_eq_value simp: distinct_map inj_on_def)
  then show "sf_type f \<in> set ''NI''" using f'(4) m(2) by (auto simp: is_numeric_member_def is_numeric_type_def SUPPORTED_NUMERIC_RELATIONSHIP_DBF_TYPES_def)
qed

section \<open>One field, one table\<close>

lemma planned_directive:
  assumes "field_directive_for other m2 (numeric_groups_of D effective) path schema f = Inr r"
    and "classify_field_capability other (sf_type f) (sf_name f) (si_supported f) (si_binary f) (si_system f) (si_nocptrans f) m2
       = classify_field_capability other (sf_type f) (sf_name f) (si_supported f) (si_binary f) (si_system f) (si_nocptrans f) merged"
    and "validate_policy merged = Inr ()"
    and "(path, sf_name f) \<in> set (numeric_reversible_fields effective) \<Longrightarrow> sf_type f \<in> set ''NI''"
  shows "planned other merged (numeric_reversible_fields effective) path f = map fd_action (case r of None \<Rightarrow> [] | Some fd \<Rightarrow> [fd])"
proof -
  obtain action unsafe system where
    c: "classify_field_capability other (sf_type f) (sf_name f) (si_supported f) (si_binary f) (si_system f) (si_nocptrans f) merged = Inr (action, unsafe, system)"
    using assms(1,2) by (auto simp: field_directive_for_def bindE_Inr_iff)
  note facts = classified_action [OF assms(3) c]
  have typed: "(path, sf_name f) \<in> set (numeric_reversible_fields effective) \<Longrightarrow> action = None \<and> \<not> system"
    using assms(4) facts(2,4) by auto
  note nm = numeric_member_iff [of path "sf_name f" effective D]
  show ?thesis
    using assms(1) typed nm facts(2,3) unfolding field_directive_for_def assms(2) c planned_def
    by (cases action) (auto simp: bindE_Inr_iff Let_def split: if_splits option.splits prod.splits)
qed

lemma planned_directives:
  assumes "table_directive_for other m2 (numeric_groups_of D effective) path schema = Inr tab"
    and "\<And>f. f \<in> set (ss_fields schema) \<Longrightarrow>
       classify_field_capability other (sf_type f) (sf_name f) (si_supported f) (si_binary f) (si_system f) (si_nocptrans f) m2
       = classify_field_capability other (sf_type f) (sf_name f) (si_supported f) (si_binary f) (si_system f) (si_nocptrans f) merged"
    and "validate_policy merged = Inr ()"
    and "\<And>f. f \<in> set (ss_fields schema) \<Longrightarrow> (path, sf_name f) \<in> set (numeric_reversible_fields effective) \<Longrightarrow> sf_type f \<in> set ''NI''"
  shows "concat (map (planned other merged (numeric_reversible_fields effective) path) (ss_fields schema)) = map fd_action (tab_transformed tab)"
proof -
  obtain rs where rs: "mapE (field_directive_for other m2 (numeric_groups_of D effective) path schema) (ss_fields schema) = Inr rs"
    and tab: "tab_transformed tab = List.map_filter id rs"
    using assms(1) by (auto simp: table_directive_for_def bindE_Inr_iff Let_def)
  have "concat (map (planned other merged (numeric_reversible_fields effective) path) fs) = map fd_action (List.map_filter id rs)"
    if "list_all2 (\<lambda>f r. field_directive_for other m2 (numeric_groups_of D effective) path schema f = Inr r) fs rs" and "set fs \<subseteq> set (ss_fields schema)" for fs rs
    using that
  proof (induction rule: list_all2_induct)
    case (Cons f fs r rs)
    have f: "f \<in> set (ss_fields schema)" using Cons.prems by simp
    show ?case using Cons planned_directive [OF Cons.hyps(1) assms(2) [OF f] assms(3) assms(4) [OF f]]
      by (cases r) (simp_all add: List.map_filter_simps)
  qed (simp add: List.map_filter_simps)
  then show ?thesis using rs tab by (simp add: mapE_Inr_iff)
qed

section \<open>The whole plan\<close>

definition effective_of :: "relationship_document option \<Rightarrow> relation_group list" where
  "effective_of doc = (case doc of None \<Rightarrow> [] | Some d \<Rightarrow> effective_groups d)"

lemma plan_relationships_nf:
  assumes "plan_relationships pn relationships document = Inr (doc, meta, binding, nf)"
  shows "nf = numeric_reversible_fields (effective_of doc)"
  using assms by (auto simp: plan_relationships_def effective_of_def numeric_reversible_fields_def bindE_Inr_iff Let_def split: option.splits if_splits)

lemma engine_tables:
  assumes "build_engine_plan other fp D read idx paths policy doc = Inr ep"
  obtains m2 f where "resolve_policy fp policy = Inr (m2, f)"
    and "list_all2 (\<lambda>path t. \<exists>schema t0. read path = Inr schema \<and> table_directive_for other m2 (numeric_groups_of D (effective_of doc)) path schema = Inr t0
      \<and> tab_transformed t = tab_transformed t0 \<and> tab_path t = path) paths (ep_tables ep)"
proof -
  let ?ngs = "numeric_groups_of D (effective_of doc)"
  obtain m2 f tables rels where m2: "resolve_policy fp policy = Inr (m2, f)"
    and t: "mapE (\<lambda>path. bindE (read path) (table_directive_for other m2 ?ngs path)) paths = Inr tables"
    and ep: "ep_tables ep = (case doc of None \<Rightarrow> tables | Some _ \<Rightarrow> map (\<lambda>t. t\<lparr>tab_relation_fields := relation_fields_of rels (tab_path t)\<rparr>) tables)"
    using assms by (auto simp: build_engine_plan_def effective_of_def bindE_Inr_iff Let_def)
  have same: "list_all2 (\<lambda>path t. \<exists>schema t0. read path = Inr schema \<and> table_directive_for other m2 ?ngs path schema = Inr t0
      \<and> tab_transformed t = tab_transformed t0 \<and> tab_path t = path) paths tables"
    using t unfolding mapE_Inr_iff
    by (rule list_all2_mono) (auto simp: bindE_Inr_iff table_directive_for_def Let_def)
  show thesis
    by (rule that [OF m2]) (use same in \<open>cases doc; simp add: ep list_all2_map2\<close>)
qed

lemma resolved_again:
  assumes "resolve_policy fp policy = Inr (merged, f)" and "\<forall>q. policy = Some q \<longrightarrow> dict_ok q" and "resolve_policy fp' (Some merged) = Inr (m2, f')"
  shows "classify_field_capability other c name supported binary system nocptrans m2 = classify_field_capability other c name supported binary system nocptrans merged"
proof -
  have "merged = merge_with_defaults policy" "m2 = merge_with_defaults (Some merged)"
    using assms(1,3) by (auto simp: resolve_policy_def bindE_Inr_iff Let_def)
  then show ?thesis using remerged_classification [OF _ resolved_policy(1) [OF assms(1)]] merged_dict_ok [OF assms(2)] by metis
qed

lemma plan_read_Inr: "plan_read pn path = Inr schema \<longleftrightarrow> (\<exists>facts. pn_read pn path = Inr facts \<and> schema = tf_schema facts)"
  by (cases "pn_read pn path") (auto simp: plan_read_def)

lemma planned_path:
  assumes "planned_table pn merged nf profile t tp" and "faithful_reader pn"
  shows "tp_path tp = dt_path t" "tp_transform_count tp = int (length (path_classes pn merged nf (tp_path tp)))"
  using assms by (auto simp: planned_table_def faithful_reader_def)

lemma path_classes_fields:
  assumes "faithful_reader pn" and "plan_read pn path = Inr schema"
  shows "path_classes pn merged nf path = concat (map (planned (pn_other pn) merged nf path) (ss_fields schema))"
proof -
  obtain facts where "pn_read pn path = Inr facts" "schema = tf_schema facts" using assms(2) by (auto simp: plan_read_Inr)
  then show ?thesis using assms(1)
    by (simp add: path_classes_def read_fields_def faithful_reader_def flip: map_map)
qed

lemma planned_run:
  assumes "build_plan cb pn source output vault policy relationships document s = (Inr p, s')" and dicts: "\<forall>q. policy = Some q \<longrightarrow> dict_ok q"
    and reader: "faithful_reader pn" and "pl_context p = Some xc"
    and engine: "build_engine_plan (pn_other pn) fp D (plan_read pn) idx (map tp_path (pl_tables p)) (xc_policy xc) (xc_document xc) = Inr ep"
  obtains classes where "list_all2 (\<lambda>tp t. tab_path t = tp_path tp \<and> classes (tp_path tp) = map fd_action (tab_transformed t)
      \<and> tp_transform_count tp = int (length (classes (tp_path tp)))) (pl_tables p) (ep_tables ep)"
    and "ps_transformed_count (pl_policy p) = sum_list (map tp_transform_count (pl_tables p))"
    and "set (ps_classes (pl_policy p)) = (\<Union>tp\<in>set (pl_tables p). set (classes (tp_path tp)))"
    and "ps_recovery_enabled (pl_policy p) \<longleftrightarrow> ps_classes (pl_policy p) \<noteq> []"
proof -
  obtain found entries merged policy_fp doc meta binding nf profile tables ty st idx_paths s5 s6 where
    run: "resolve_policy (pn_policy_fingerprint pn) policy = Inr (merged, policy_fp)"
      "plan_relationships pn relationships document = Inr (doc, meta, binding, nf)"
      "plan_source_tables cb pn merged nf profile found (fresh_tally [] [] ([], [])) s5 = (Inr (tables, ty), s6)"
      "bind_members (pn_codec pn) (map dt_path found) (ty_facts ty) doc (ty_review ty) = Inr st"
      "assemble_plan pn source output vault idx_paths found (pn_digest pn entries) merged policy_fp doc meta binding profile tables ty st = Inr p"
    by (rule build_plan_steps [OF assms(1)])
  note v = resolved_policy(1) [OF run(1)] and plan = assemble_plan_Inr [OF run(5)]
  note tabs = plan_source_tables_Inr [OF run(3) v]
  have xc: "xc_policy xc = Some merged" "xc_document xc = doc" using plan(5) assms(4) by auto
  have nf: "nf = numeric_reversible_fields (effective_of doc)" by (rule plan_relationships_nf [OF run(2)])
  have typed: "numeric_typed pn nf"
  proof (cases doc)
    case (Some d)
    have "ty_facts ty = concat (map (path_facts pn) (rev (map dt_path found)))" using tabs by (simp add: fresh_tally_def rev_map)
    then show ?thesis using bound_numeric_typed [OF _ reader] run(4) Some by (simp add: nf effective_of_def)
  qed (simp add: nf effective_of_def numeric_reversible_fields_def numeric_typed_def)
  let ?C = "path_classes pn merged nf"
  have each: "tp_transform_count tp = int (length (?C (tp_path tp)))" if "tp \<in> set (pl_tables p)" for tp
    using tabs that planned_path(2) [OF _ reader] by (fastforce simp: plan(1) list_all2_conv_all_nth in_set_conv_nth)
  obtain m2 f where m2: "resolve_policy fp (Some merged) = Inr (m2, f)" and ts: "list_all2 (\<lambda>path t. \<exists>schema t0. plan_read pn path = Inr schema
      \<and> table_directive_for (pn_other pn) m2 (numeric_groups_of D (effective_of doc)) path schema = Inr t0
      \<and> tab_transformed t = tab_transformed t0 \<and> tab_path t = path) (map tp_path (pl_tables p)) (ep_tables ep)"
    by (rule engine_tables [OF engine [unfolded xc]])
  have actions: "?C path = map fd_action (tab_transformed t)"
    if r: "plan_read pn path = Inr schema" "table_directive_for (pn_other pn) m2 (numeric_groups_of D (effective_of doc)) path schema = Inr t0"
      "tab_transformed t = tab_transformed t0" for path schema t t0
    unfolding path_classes_fields [OF reader r(1)] r(3) unfolding nf
    by (rule planned_directives [OF r(2) resolved_again [OF run(1) dicts m2] v])
      (use typed r(1) nf in \<open>auto simp: numeric_typed_def plan_read_Inr\<close>)
  have agree: "list_all2 (\<lambda>tp t. tab_path t = tp_path tp \<and> ?C (tp_path tp) = map fd_action (tab_transformed t)
      \<and> tp_transform_count tp = int (length (?C (tp_path tp)))) (pl_tables p) (ep_tables ep)"
  proof -
    have "list_all2 (\<lambda>tp t. tab_path t = tp_path tp \<and> ?C (tp_path tp) = map fd_action (tab_transformed t)) (pl_tables p) (ep_tables ep)"
      using ts unfolding list_all2_map1 by (rule list_all2_mono) (use actions in blast)
    then show ?thesis using each [OF nth_mem] by (simp add: list_all2_conv_all_nth)
  qed
  have same: "list_all2 (\<lambda>t tp. dt_path t = tp_path tp) found tables"
    using conjunct1 [OF tabs] by (rule list_all2_mono) (use planned_path(1) [OF _ reader] in force)
  then have "map dt_path found = map tp_path tables" by (simp add: list_all2_conv_all_nth list_eq_iff_nth_eq)
  then have paths: "dt_path ` set found = tp_path ` set tables" by (metis set_map)
  have classes: "set (ty_classes ty) = (\<Union>tp\<in>set (pl_tables p). set (?C (tp_path tp)))"
  proof -
    have "set (ty_classes ty) = (\<Union>path\<in>dt_path ` set found. set (?C path))" using tabs by (simp add: fresh_tally_def)
    then show ?thesis unfolding paths by (simp add: plan(1))
  qed
  have total: "sum_list (map tp_transform_count (pl_tables p)) = sum_list (map tp_transform_count tables)"
    by (simp add: plan(1) flip: sum_mset_sum_list)
  have ne: "sort (remdups (ty_classes ty)) \<noteq> [] \<longleftrightarrow> ty_classes ty \<noteq> []" by (metis remdups_eq_nil_iff set_empty2 set_sort)
  show thesis
    by (rule that [OF agree]) (use classes total ne in \<open>simp_all add: plan(4)\<close>)
qed

section \<open>A small plan\<close>

definition sample_facts :: table_facts where
  "sample_facts = \<lparr>tf_schema = \<lparr>ss_fields = [\<lparr>sf_name = ''N'', sf_type = CHR ''C'', sf_length = 1, sf_decimals = 0, sf_memo = False,
        si_supported = True, si_binary = False, si_system = False, si_nocptrans = False\<rparr>], ss_encoding = ''latin-1'', ss_structural_cdx = False, ss_record_count = 3\<rparr>,
     tf_field_bits = [(False, False)], tf_has_memo = False, tf_memo_present = False, tf_memo_path = None, tf_cdx_present = False, tf_cdx_path = None, tf_dbc_bound = False\<rparr>"

definition sample_planning :: planning where
  "sample_planning =
     \<lparr>pn_source = \<lparr>so_root = IsDirectory, so_walk = [Inr [''A.DBF'', ''notes.txt'']], so_size = (\<lambda>rel. Inr 200), so_chunks = (\<lambda>rel. Inr [Inr [3, 1]])\<rparr>,
      pn_read = (\<lambda>path. if path = ''A.DBF'' then Inr sample_facts else Inl OSError), pn_sha = (\<lambda>b. ''00''), pn_digest = (\<lambda>entries. ''5f''), pn_hex = (\<lambda>t. ''a1''),
      pn_codec = two_letter_codec, pn_other = (\<lambda>v. []), pn_policy_fingerprint = (\<lambda>d. Inr ''pf''), pn_document_fingerprint = (\<lambda>d. ''rf'')\<rparr>"

lemma sample_discovered: "yields (discover_tables silent (pn_source sample_planning) (pn_read sample_planning)) [discovered ''A.DBF'' sample_facts]"
  by (rule yields_eval [where s = idle_controller, OF transparent_discover]) code_simp

lemma sample_enumerated: "yields (enumerate_in_scope_paths silent False (pn_source sample_planning)) [''A.DBF'']"
  by (rule yields_eval [where s = idle_controller, OF transparent_enumerate]) code_simp

lemma sample_entries:
  "yields (collect_fingerprint_entries silent (pn_sha sample_planning) False (pn_source sample_planning) ''FINGERPRINT'')
     [\<lparr>fe_path = ''A.DBF'', fe_type = ''DBF'', fe_size = 200, fe_sha = ''00''\<rparr>]"
  by (rule yields_eval [where s = idle_controller, OF transparent_entries]) code_simp

definition sample_merged :: dict where "sample_merged = merge_with_defaults None"

lemma sample_resolved: "resolve_policy (pn_policy_fingerprint sample_planning) None = Inr (sample_merged, ''pf'')"
  "output_profile_of sample_merged = Inr DATA_ONLY"
  by code_simp+

definition sample_table_plan :: table_plan where
  "sample_table_plan = \<lparr>tp_path = ''A.DBF'', tp_memo_path = None, tp_record_count = 3, tp_field_count = 1, tp_transform_count = 1, tp_structural_cdx = False,
     tp_dbc_bound = False, tp_index_strategy = ''DATA_ONLY'', tp_memo_required = False, tp_memo_present = False, tp_cdx_present = False,
     tp_unsupported = 0, tp_unsafe = 0, tp_system = 0\<rparr>"

definition sample_tally :: plan_tally where
  "sample_tally = \<lparr>ty_transform = 1, ty_unsupported = 0, ty_unsafe = 0, ty_system = 0, ty_classes = [ACTION_TEXT],
     ty_facts = [((''A.DBF'', ''N''), (''C'', 1, ''latin-1'', 0, False, False))], ty_review = ([], [])\<rparr>"

lemma sample_plan_fields:
  "foldE (plan_field sample_planning sample_merged [] ''A.DBF'' (ss_encoding (tf_schema sample_facts)))
     (zip (ss_fields (tf_schema sample_facts)) (tf_field_bits sample_facts)) (fresh_tally [] [] ([], [])) = Inr sample_tally"
  by code_simp

lemma sample_checked_table: "check_table_plan sample_table_plan = Inr sample_table_plan"
  by code_simp

definition sample_built :: plan where
  "sample_built =
     \<lparr>pl_id = ''plan-a1'', pl_dataset = \<lparr>da_id = ''ds-5f'', da_source_fingerprint = ''5f'', da_table_paths = [''A.DBF''], da_standalone_idx = [], da_dbc_bound = []\<rparr>,
      pl_tables = [sample_table_plan],
      pl_policy = \<lparr>ps_schema_version = ''1'', ps_fingerprint = ''pf'', ps_transformed_count = 1, ps_relationship_count = 0, ps_recovery_enabled = True,
         ps_classes = [ACTION_TEXT], ps_vault_strategy = SINGLE_DATASET_SQLITE\<rparr>,
      pl_relationships = \<lparr>md_schema_version = ''1.1'', md_provenance = ''none'', md_fingerprint = ''a1'', md_relation_count = 0, md_authoritative = False,
         md_external_version = None, md_producer = None, md_authority_summary = None\<rparr>,
      pl_profile = DATA_ONLY, pl_assurance_target = INCOMPLETE, pl_numeric_review = [],
      pl_context = Some \<lparr>xc_source_root = [''src''], xc_output_root = [''out''], xc_vault_path = [''vault''], xc_document = None, xc_bindings = None,
         xc_authority = None, xc_policy = Some sample_merged\<rparr>\<rparr>"

lemma sample_relationships: "plan_relationships sample_planning None None = Inr (None, pl_relationships sample_built, None, [])"
  by code_simp

lemma sample_checked:
  "check_policy_summary (pl_policy sample_built) = Inr (pl_policy sample_built)"
  "check_dataset_identity (pl_dataset sample_built) = Inr (pl_dataset sample_built)"
  "validated_code (pl_id sample_built) = Inr ()"
  "schema_version_text (pn_other sample_planning) sample_merged = ''1''"
  "derive_dataset_id ''5f'' = ''ds-5f''"
  by code_simp+

lemma sample_assembled:
  "assemble_plan sample_planning [''src''] [''out''] [''vault''] [] [discovered ''A.DBF'' sample_facts] ''5f'' sample_merged ''pf'' None
     (pl_relationships sample_built) None DATA_ONLY [sample_table_plan] sample_tally ([], ([], [])) = Inr sample_built"
proof -
  have "check_plan sample_built = Inr sample_built"
    using sample_checked(3) by (simp add: check_plan_def value_check_def guardE_def sample_built_def sample_table_plan_def casefold_sort_def)
  then show ?thesis
    using sample_checked unfolding assemble_plan_def
    by (simp add: Let_def sample_built_def sample_tally_def sample_table_plan_def sample_planning_def sample_facts_def discovered_def assure_target_def resolve_vault_strategy_def)
qed

lemma sample_table:
  "yields (plan_source_tables silent sample_planning sample_merged [] DATA_ONLY [discovered ''A.DBF'' sample_facts] (fresh_tally [] [] ([], [])))
     ([sample_table_plan], sample_tally)"
proof -
  let ?d = "discovered ''A.DBF'' sample_facts"
  have read: "pn_read sample_planning (dt_path ?d) = Inr sample_facts" by (simp add: sample_planning_def discovered_def)
  have table: "check_table_plan \<lparr>tp_path = dt_path ?d, tp_memo_path = dt_memo_path ?d, tp_record_count = dt_record_count ?d,
              tp_field_count = dt_field_count ?d, tp_transform_count = ty_transform sample_tally, tp_structural_cdx = dt_structural_cdx ?d,
              tp_dbc_bound = dt_dbc_bound ?d, tp_index_strategy = resolve_index_strategy (dt_structural_cdx ?d) DATA_ONLY,
              tp_memo_required = tf_has_memo sample_facts, tp_memo_present = tf_memo_present sample_facts, tp_cdx_present = tf_cdx_present sample_facts,
              tp_unsupported = ty_unsupported sample_tally, tp_unsafe = ty_unsafe sample_tally, tp_system = ty_system sample_tally\<rparr> = Inr sample_table_plan"
    by code_simp
  have fields: "foldE (plan_field sample_planning sample_merged [] (dt_path ?d) (ss_encoding (tf_schema sample_facts)))
       (zip (ss_fields (tf_schema sample_facts)) (tf_field_bits sample_facts))
       (fresh_tally (ty_classes (fresh_tally [] [] ([], []))) (ty_facts (fresh_tally [] [] ([], []))) (ty_review (fresh_tally [] [] ([], [])))) = Inr sample_tally"
    using sample_plan_fields by (simp add: discovered_def fresh_tally_def)
  have rest: "yields (bindS (plan_source_tables silent sample_planning sample_merged [] DATA_ONLY [] sample_tally) (\<lambda>(rest, last_tally). returnS (sample_table_plan # rest, last_tally)))
      ([sample_table_plan], sample_tally)"
    by (simp add: yields_def bindS_def returnS_def)
  show ?thesis
    unfolding plan_source_tables.simps(2)
    by (rule yields_bind [OF yields_silent(1)] yields_bind [OF yields_boundary(1) [OF yields_pure(2) [OF read]]] yields_bind [OF yields_pure(2) [OF fields]]
        yields_bind [OF yields_pure(2) [OF table]] yields_bind [OF yields_silent(4)] rest)+
qed

lemma sample_build: "yields (build_plan silent sample_planning [''src''] [''out''] [''vault''] None None None) sample_built"
proof -
  have root: "so_root (pn_source sample_planning) = IsDirectory" and digest: "pn_digest sample_planning entries = ''5f''" for entries
    by (simp_all add: sample_planning_def)
  have idx: "filter (has_extension [''.idx'']) (casefold_sort [''A.DBF'']) = []" by code_simp
  have one: "bind_members (pn_codec sample_planning) (map dt_path [discovered ''A.DBF'' sample_facts]) (ty_facts sample_tally) None (ty_review sample_tally) = Inr ([], ([], []))"
    by (simp add: bind_members_def sample_tally_def)
  note steps = sample_enumerated sample_discovered sample_entries sample_table yields_silent
    yields_pure(2) [OF sample_resolved(1)] yields_pure(2) [OF sample_resolved(2)] yields_pure(2) [OF sample_relationships]
    yields_pure(2) [OF one] yields_pure(2) [OF sample_assembled]
  have guards: "yields (liftS (guardE ([discovered ''A.DBF'' sample_facts] \<noteq> []) e)) ()" "yields (liftS (guardE (length [discovered ''A.DBF'' sample_facts] \<le> 256) e)) ()"
    "yields (liftS (guardE (length ([] :: string list) \<le> 256) e)) ()" for e
    by (simp_all add: yields_pure)
  show ?thesis
    unfolding build_plan_def Let_def if_not_P [OF iffD2 [OF not_not root]]
    by ((rule yields_bind, rule steps guards, (simp only: prod.case idx digest)?)+, rule yields_pure(1))
qed

lemma sample_reader: "faithful_reader sample_planning"
proof -
  have "public_relative_path ''A.DBF'' = Inr ''A.DBF''" by code_simp
  then show ?thesis by (simp add: faithful_reader_def sample_planning_def sample_facts_def)
qed

lemma not_isl_Inr: "\<not> isl r \<Longrightarrow> \<exists>x. r = Inr x"
  by (cases r) auto

lemma sample_engine:
  obtains ep where "build_engine_plan (pn_other sample_planning) (\<lambda>d. Inr ''pf'') (\<lambda>d. d) (plan_read sample_planning) [] (map tp_path (pl_tables sample_built))
    (Some sample_merged) None = Inr ep"
proof -
  have "\<not> isl (build_engine_plan (pn_other sample_planning) (\<lambda>d. Inr ''pf'') (\<lambda>d. d) (plan_read sample_planning) [] (map tp_path (pl_tables sample_built))
    (Some sample_merged) None)" by code_simp
  from not_isl_Inr [OF this] show thesis using that by blast
qed

section \<open>The properties\<close>

text \<open>
  C20. A plan agrees with itself and with its source. The policy check of the preflight cannot fail on a
  plan that \<open>build_plan\<close> returned; every member of its relationship document lies in a schema of the source
  with the declared type, and the member check of the preflight accepts it; and a source whose entries
  are hashed again without a listing error, with the same digests, has the fingerprint of the plan.
\<close>

theorem built_plan_consistent:
  assumes "build_plan cb pn source output vault policy relationships document s = (Inr p, s')"
  shows "\<not> policy_inconsistent p
    \<and> (\<exists>xc. pl_context p = Some xc \<and> (\<forall>doc. xc_document xc = Some doc \<longrightarrow> members_bound (plan_read pn) (rd_groups doc)
         \<and> (\<forall>g\<in>set (rd_groups doc). \<forall>m\<in>set (rg_members g). \<exists>bound. xc_bindings xc = Some bound \<and> member_rebound bound g m)))
    \<and> (\<forall>nv entries. nv_source nv = pn_source pn \<longrightarrow> nv_sha nv = pn_sha pn \<longrightarrow> nv_digest nv = pn_digest pn \<longrightarrow> source_entries nv = Inr entries
         \<longrightarrow> nv_digest nv entries = da_source_fingerprint (pl_dataset p))"
proof -
  obtain found entries merged policy_fp doc meta binding nf profile tables ty st idx_paths s1 s2 s3 s4 s5 s6 where
    run: "collect_fingerprint_entries cb (pn_sha pn) False (pn_source pn) ''FINGERPRINT'' s3 = (Inr entries, s4)"
      "resolve_policy (pn_policy_fingerprint pn) policy = Inr (merged, policy_fp)"
      "plan_source_tables cb pn merged nf profile found (fresh_tally [] [] ([], [])) s5 = (Inr (tables, ty), s6)"
      "bind_members (pn_codec pn) (map dt_path found) (ty_facts ty) doc (ty_review ty) = Inr st"
      "assemble_plan pn source output vault idx_paths found (pn_digest pn entries) merged policy_fp doc meta binding profile tables ty st = Inr p"
    by (rule build_plan_steps [OF assms])
  note v = resolved_policy(1) [OF run(2)] and plan = assemble_plan_Inr [OF run(5)]
  note tabs = plan_source_tables_Inr [OF run(3) v]
  have classes: "set (ty_classes ty) \<subseteq> set SUPPORTED_CLASSES" using tabs path_classes_supported [OF v] by (auto simp: fresh_tally_def)
  have facts: "ty_facts ty = concat (map (path_facts pn) (rev (map dt_path found)))" using tabs by (simp add: fresh_tally_def rev_map)
  have "members_bound (plan_read pn) (rd_groups d) \<and> (\<forall>g\<in>set (rd_groups d). \<forall>m\<in>set (rg_members g). fst st \<noteq> [] \<and> member_rebound (map_of (fst st)) g m)"
    if "doc = Some d" for d
  proof -
    note bound = bind_members_Inr [OF run(4) [unfolded that]]
    have "\<exists>schema f. plan_read pn (rm_table_path m) = Inr schema \<and> f \<in> set (ss_fields schema) \<and> sf_name f = rm_field_name m \<and> [sf_type f] = rm_dbf_type m"
      if gm: "g \<in> set (rd_groups d)" "m \<in> set (rg_members g)" for g m
    proof -
      obtain rest where "map_of (concat (map (path_facts pn) (rev (map dt_path found)))) (rm_table_path m, rm_field_name m) = Some (rm_dbf_type m, rest)"
        using bound(4) [OF gm] unfolding facts by blast
      then obtain fa f where "pn_read pn (rm_table_path m) = Inr fa" "f \<in> set (ss_fields (tf_schema fa))" "sf_name f = rm_field_name m" "[sf_type f] = rm_dbf_type m"
        by (rule path_factsD)
      then show ?thesis by (auto simp: plan_read_def)
    qed
    then show ?thesis using bound(1,2) by (auto simp: members_bound_def)
  qed
  moreover have "pn_digest pn entries' = da_source_fingerprint (pl_dataset p)" if "nv_source nv = pn_source pn" "nv_sha nv = pn_sha pn" "source_entries nv = Inr entries'" for nv entries'
    using unchanged_entries [OF run(1)] that by (simp add: source_entries_def plan(6))
  ultimately show ?thesis using assembled_consistent [OF run(5,2) classes conjunct1 [OF tabs]] plan(5) by auto
qed

theorem built_plan_consistent_witness:
  "\<exists>p. fst (build_plan silent sample_planning [''src''] [''out''] [''vault''] None None None idle_controller) = Inr p \<and> \<not> policy_inconsistent p
    \<and> da_source_fingerprint (pl_dataset p) = ''5f''"
proof -
  let ?nv = "sample_environment\<lparr>nv_digest := pn_digest sample_planning\<rparr>"
  obtain s' where run: "build_plan silent sample_planning [''src''] [''out''] [''vault''] None None None idle_controller = (Inr sample_built, s')"
    by (rule yieldsE [OF sample_build])
  have same: "nv_source ?nv = pn_source sample_planning" "nv_sha ?nv = pn_sha sample_planning" "nv_digest ?nv = pn_digest sample_planning"
    by (simp_all add: sample_environment_def sample_planning_def)
  have entries: "source_entries ?nv = Inr [\<lparr>fe_path = ''A.DBF'', fe_type = ''DBF'', fe_size = 200, fe_sha = ''00''\<rparr>]" by code_simp
  have "pn_digest sample_planning es = ''5f''" for es by (simp add: sample_planning_def)
  moreover note consistent = built_plan_consistent [OF run]
  have "nv_digest ?nv [\<lparr>fe_path = ''A.DBF'', fe_type = ''DBF'', fe_size = 200, fe_sha = ''00''\<rparr>] = da_source_fingerprint (pl_dataset sample_built)"
    using conjunct2 [OF conjunct2 [OF consistent]] same entries by blast
  ultimately have "da_source_fingerprint (pl_dataset sample_built) = ''5f''" by (simp only: same)
  then show ?thesis using run conjunct1 [OF consistent] by (intro exI [of _ sample_built]) simp
qed

text \<open>
  C21. A plan describes the run. When the engine derives its directives from a plan of \<open>build_plan\<close> with
  the stored policy and the stored document, it transforms in every table exactly as many fields as the
  plan announced for it, in all as many as the policy summary counts, and the transformation classes of
  the summary are exactly the actions of the directives; so recovery is enabled, and a vault planned,
  exactly if some field is transformed.
\<close>

theorem plan_describes_run:
  assumes "build_plan cb pn source output vault policy relationships document s = (Inr p, s')" and "\<forall>q. policy = Some q \<longrightarrow> dict_ok q"
    and "faithful_reader pn" and "pl_context p = Some xc"
    and "build_engine_plan (pn_other pn) fp D (plan_read pn) idx (map tp_path (pl_tables p)) (xc_policy xc) (xc_document xc) = Inr ep"
  shows "map tab_path (ep_tables ep) = map tp_path (pl_tables p)
    \<and> map tp_transform_count (pl_tables p) = map (int \<circ> length \<circ> tab_transformed) (ep_tables ep)
    \<and> ps_transformed_count (pl_policy p) = int (length (concat (map tab_transformed (ep_tables ep))))
    \<and> set (ps_classes (pl_policy p)) = fd_action ` set (concat (map tab_transformed (ep_tables ep)))
    \<and> (ps_recovery_enabled (pl_policy p) \<longleftrightarrow> concat (map tab_transformed (ep_tables ep)) \<noteq> [])"
proof -
  obtain classes where each: "list_all2 (\<lambda>tp t. tab_path t = tp_path tp \<and> classes (tp_path tp) = map fd_action (tab_transformed t)
      \<and> tp_transform_count tp = int (length (classes (tp_path tp)))) (pl_tables p) (ep_tables ep)"
    and sums: "ps_transformed_count (pl_policy p) = sum_list (map tp_transform_count (pl_tables p))"
      "set (ps_classes (pl_policy p)) = (\<Union>tp\<in>set (pl_tables p). set (classes (tp_path tp)))"
      "ps_recovery_enabled (pl_policy p) \<longleftrightarrow> ps_classes (pl_policy p) \<noteq> []"
    by (rule planned_run [OF assms])
  have paths: "map tab_path (ep_tables ep) = map tp_path (pl_tables p)" and counts: "map tp_transform_count (pl_tables p) = map (int \<circ> length \<circ> tab_transformed) (ep_tables ep)"
    and actions: "map (classes \<circ> tp_path) (pl_tables p) = map (map fd_action \<circ> tab_transformed) (ep_tables ep)"
    using each by (auto simp: list_all2_conv_all_nth list_eq_iff_nth_eq)
  have "(\<Union>tp\<in>set (pl_tables p). set (classes (tp_path tp))) = set (concat (map (classes \<circ> tp_path) (pl_tables p)))" by auto
  then have set: "set (ps_classes (pl_policy p)) = fd_action ` set (concat (map tab_transformed (ep_tables ep)))"
    unfolding sums(2) actions by auto
  moreover have "sum_list (map (int \<circ> length \<circ> tab_transformed) ts) = int (length (concat (map tab_transformed ts)))" for ts
    by (induction ts) simp_all
  ultimately show ?thesis using paths counts sums(1,3) by (metis image_is_empty set_empty)
qed

theorem plan_describes_run_witness:
  "\<exists>p xc ep. fst (build_plan silent sample_planning [''src''] [''out''] [''vault''] None None None idle_controller) = Inr p \<and> pl_context p = Some xc
    \<and> build_engine_plan (pn_other sample_planning) (\<lambda>d. Inr ''pf'') (\<lambda>d. d) (plan_read sample_planning) [] (map tp_path (pl_tables p)) (xc_policy xc) (xc_document xc) = Inr ep
    \<and> length (concat (map tab_transformed (ep_tables ep))) = 1 \<and> fd_action ` set (concat (map tab_transformed (ep_tables ep))) = {ACTION_TEXT}"
proof -
  obtain s' where run: "build_plan silent sample_planning [''src''] [''out''] [''vault''] None None None idle_controller = (Inr sample_built, s')"
    by (rule yieldsE [OF sample_build])
  obtain xc where xc: "pl_context sample_built = Some xc" "xc_policy xc = Some sample_merged" "xc_document xc = None"
    by (simp add: sample_built_def)
  obtain ep where ep: "build_engine_plan (pn_other sample_planning) (\<lambda>d. Inr ''pf'') (\<lambda>d. d) (plan_read sample_planning) [] (map tp_path (pl_tables sample_built))
      (xc_policy xc) (xc_document xc) = Inr ep"
    unfolding xc by (rule sample_engine)
  have counts: "ps_transformed_count (pl_policy sample_built) = 1" "set (ps_classes (pl_policy sample_built)) = {ACTION_TEXT}" by (simp_all add: sample_built_def)
  have "int (length (concat (map tab_transformed (ep_tables ep)))) = 1" "fd_action ` set (concat (map tab_transformed (ep_tables ep))) = {ACTION_TEXT}"
    using plan_describes_run [OF run _ sample_reader xc(1) ep] counts by simp_all
  then show ?thesis using run xc(1) ep by (intro exI [of _ sample_built] exI [of _ xc] exI [of _ ep]) simp
qed

end
